(* ===== verification/Prelude.thy ===== *)
theory Prelude
  imports Complex_Main "HOL-Library.AList" "HOL-Library.List_Lexorder" "HOL-Library.Char_ord"
    "HOL-Library.Multiset"
begin

text \<open>
  Shared vocabulary of the development: the type names of the model, the JavaScript idioms that
  several components use (a Map keyed by strings, Array index assignment, truthiness of a string,
  stable Array.sort) and the generic lemmas about them.

  A JavaScript Map is an association list in insertion order: set is AList.update, which replaces
  the value in place and appends a new key at the end, exactly the iteration order of the language.
  A Date is its number of milliseconds since the epoch, an int.  Money and every other
  arbitrary-precision decimal is a rat.
\<close>

type_synonym ms = int
type_synonym uuid = string
type_synonym ccy = string

named_theorems option_chain \<open>unfolding rules for chains of fallible calls\<close>
named_theorems js_rules \<open>rewrite rules of the JavaScript idioms\<close>

definition MS_PER_DAY :: int where
  "MS_PER_DAY = 86400000"

lemma MS_PER_DAY_pos [simp]: "0 < MS_PER_DAY"
  by (simp add: MS_PER_DAY_def)

lemma MS_PER_DAY_nz [simp]: "MS_PER_DAY \<noteq> 0"
  by (simp add: MS_PER_DAY_def)

lemma day_parts: "t = t div MS_PER_DAY * MS_PER_DAY + t mod MS_PER_DAY"
  "0 \<le> t mod MS_PER_DAY" "t mod MS_PER_DAY < MS_PER_DAY"
  by (simp_all add: pos_mod_sign pos_mod_bound)

lemma day_start_le: "t div MS_PER_DAY * MS_PER_DAY \<le> t"
  using day_parts [of t] by linarith

lemma day_less_iff: "(t < n * MS_PER_DAY) = (t div MS_PER_DAY < n)"
proof
  assume "t < n * MS_PER_DAY"
  then have "t div MS_PER_DAY * MS_PER_DAY < n * MS_PER_DAY" using day_start_le [of t] by linarith
  then show "t div MS_PER_DAY < n" by simp
next
  assume "t div MS_PER_DAY < n"
  then have "(t div MS_PER_DAY + 1) * MS_PER_DAY \<le> n * MS_PER_DAY"
    by (intro mult_right_mono) (auto simp: less_imp_le)
  then have "t div MS_PER_DAY * MS_PER_DAY + MS_PER_DAY \<le> n * MS_PER_DAY" by (simp add: distrib_right)
  then show "t < n * MS_PER_DAY" using day_parts [of t] by linarith
qed

section \<open>Truthiness and optional chaining\<close>

text \<open>A nullable string in a condition: null, undefined and the empty string are falsy.\<close>

definition truthy :: "string option \<Rightarrow> bool" where
  "truthy s = (case s of None \<Rightarrow> False | Some t \<Rightarrow> t \<noteq> [])"

lemma truthy_simps [simp]:
  "\<not> truthy None" "truthy (Some t) = (t \<noteq> [])"
  by (simp_all add: truthy_def)

text \<open>The operator ??: the left value unless it is null or undefined.\<close>

definition coalesce :: "'a option \<Rightarrow> 'a \<Rightarrow> 'a" where
  "coalesce a b = (case a of None \<Rightarrow> b | Some x \<Rightarrow> x)"

lemma coalesce_simps [simp]:
  "coalesce None b = b" "coalesce (Some x) b = x"
  by (simp_all add: coalesce_def)

lemma bind_eq_Some [option_chain]:
  "(Option.bind m f = Some y) = (\<exists>x. m = Some x \<and> f x = Some y)"
  by (cases m) auto

lemma bind_eq_None [option_chain]:
  "(Option.bind m f = None) = (m = None \<or> (\<exists>x. m = Some x \<and> f x = None))"
  by (cases m) auto

section \<open>Index assignment on arrays\<close>

text \<open>
  An update xs[i] = f(xs[i]) of an element that is an object: outside the array the element read
  is undefined and the method call on it throws, which is None here.
\<close>

definition upd_at :: "int \<Rightarrow> ('a \<Rightarrow> 'a) \<Rightarrow> 'a list \<Rightarrow> 'a list option" where
  "upd_at i f xs =
     (if 0 \<le> i \<and> i < int (length xs) then Some (xs[nat i := f (xs ! nat i)]) else None)"

lemma upd_at_in [js_rules]:
  "0 \<le> i \<Longrightarrow> i < int (length xs) \<Longrightarrow> upd_at i f xs = Some (xs[nat i := f (xs ! nat i)])"
  by (simp add: upd_at_def)

lemma upd_at_length: "upd_at i f xs = Some ys \<Longrightarrow> length ys = length xs"
  by (auto simp: upd_at_def split: if_splits)

lemma sum_list_update_rat:
  fixes xs :: "rat list"
  assumes "k < length xs"
  shows "sum_list (xs[k := y]) = sum_list xs - xs ! k + y"
  using assms
proof (induction xs arbitrary: k)
  case (Cons x xs)
  then show ?case by (cases k) auto
qed simp

section \<open>Maps with insertion order\<close>

definition mget :: "('k \<times> 'v) list \<Rightarrow> 'k \<Rightarrow> 'v option" where
  "mget m k = map_of m k"

definition mset_to :: "'k \<Rightarrow> 'v \<Rightarrow> ('k \<times> 'v) list \<Rightarrow> ('k \<times> 'v) list" where
  "mset_to k v m = AList.update k v m"

text \<open>The accumulation idiom m.set(k, f(m.get(k) ?? d)).\<close>

definition mbump :: "'k \<Rightarrow> 'v \<Rightarrow> ('v \<Rightarrow> 'v) \<Rightarrow> ('k \<times> 'v) list \<Rightarrow> ('k \<times> 'v) list" where
  "mbump k d f m = mset_to k (f (coalesce (mget m k) d)) m"

lemma mget_Nil [simp]: "mget [] k = None"
  by (simp add: mget_def)

lemma mget_Cons: "mget ((k, v) # m) j = (if j = k then Some v else mget m j)"
  by (simp add: mget_def)

lemma mget_mset [simp]: "mget (mset_to k v m) j = (if j = k then Some v else mget m j)"
  by (simp add: mget_def mset_to_def update_conv')

lemma mget_mbump [simp]:
  "mget (mbump k d f m) j = (if j = k then Some (f (coalesce (mget m k) d)) else mget m j)"
  by (simp add: mbump_def)

lemma distinct_mset [simp]:
  "distinct (map fst m) \<Longrightarrow> distinct (map fst (mset_to k v m))"
  by (simp add: mset_to_def distinct_update)

lemma distinct_mbump [simp]:
  "distinct (map fst m) \<Longrightarrow> distinct (map fst (mbump k d f m))"
  by (simp add: mbump_def)

lemma keys_mset [simp]: "fst ` set (mset_to k v m) = insert k (fst ` set m)"
  by (simp add: mset_to_def dom_update)

lemma keys_mbump [simp]: "fst ` set (mbump k d f m) = insert k (fst ` set m)"
  by (simp add: mbump_def)

lemma mget_in_keys: "(mget m k \<noteq> None) = (k \<in> fst ` set m)"
  unfolding mget_def by (metis map_of_eq_None_iff)

text \<open>Map.delete.\<close>

definition mdrop :: "'k \<Rightarrow> ('k \<times> 'v) list \<Rightarrow> ('k \<times> 'v) list" where
  "mdrop k m = filter (\<lambda>e. fst e \<noteq> k) m"

lemma mget_mdrop [simp]: "mget (mdrop k m) j = (if j = k then None else mget m j)"
  by (induction m) (auto simp: mdrop_def mget_Cons split: prod.splits)

lemma mdrop_keys [simp]: "fst ` set (mdrop k m) = fst ` set m - {k}"
  by (auto simp: mdrop_def)

lemma distinct_mdrop [simp]: "distinct (map fst m) \<Longrightarrow> distinct (map fst (mdrop k m))"
  by (simp add: mdrop_def distinct_map_filter)

text \<open>
  The group-by loop of the program: folding the accumulation over a list gives, at every key, the
  fold of the values that carry this key, in their order.
\<close>

lemma group_fold_gen:
  "mget (foldl (\<lambda>m x. mbump (key x) d (\<lambda>a. f a x) m) m0 xs) k =
     (if filter (\<lambda>x. key x = k) xs = [] then mget m0 k
      else Some (foldl f (coalesce (mget m0 k) d) (filter (\<lambda>x. key x = k) xs)))"
  by (induction xs arbitrary: m0) auto

lemma group_fold:
  "mget (foldl (\<lambda>m x. mbump (key x) d (\<lambda>a. f a x) m) [] xs) k =
     (if filter (\<lambda>x. key x = k) xs = [] then None
      else Some (foldl f d (filter (\<lambda>x. key x = k) xs)))"
  by (simp add: group_fold_gen)

lemma group_fold_distinct:
  "distinct (map fst m0) \<Longrightarrow>
   distinct (map fst (foldl (\<lambda>m x. mbump (key x) d (\<lambda>a. f a x) m) m0 xs))"
  by (induction xs arbitrary: m0) auto

lemma group_fold_keys:
  "fst ` set (foldl (\<lambda>m x. mbump (key x) d (\<lambda>a. f a x) m) m0 xs) =
     fst ` set m0 \<union> key ` set xs"
  by (induction xs arbitrary: m0) auto

lemma mget_of_mem: "distinct (map fst m) \<Longrightarrow> (k, v) \<in> set m \<Longrightarrow> mget m k = Some v"
  by (simp add: mget_def)

section \<open>Folds\<close>

lemma find_append: "find P (xs @ ys) = (case find P xs of None \<Rightarrow> find P ys | Some x \<Rightarrow> Some x)"
  by (induction xs) auto

lemma foldl_inv:
  assumes "I a" and "\<And>a x. x \<in> set xs \<Longrightarrow> I a \<Longrightarrow> I (f a x)"
  shows "I (foldl f a xs)"
  using assms by (induction xs arbitrary: a) auto

text \<open>A loop whose body may throw: the fold in the option type.\<close>

fun ofold :: "('s \<Rightarrow> 'a \<Rightarrow> 's option) \<Rightarrow> 's \<Rightarrow> 'a list \<Rightarrow> 's option" where
  "ofold f s [] = Some s"
| "ofold f s (x # xs) = (case f s x of None \<Rightarrow> None | Some s' \<Rightarrow> ofold f s' xs)"

lemma ofold_append:
  "ofold f s (xs @ ys) = (case ofold f s xs of None \<Rightarrow> None | Some s' \<Rightarrow> ofold f s' ys)"
  by (induction xs arbitrary: s) (auto split: option.splits)

lemma ofold_total:
  assumes "I s" and "\<And>s x. x \<in> set xs \<Longrightarrow> I s \<Longrightarrow> \<exists>s'. f s x = Some s' \<and> I s'"
  shows "\<exists>s'. ofold f s xs = Some s' \<and> I s'"
  using assms
proof (induction xs arbitrary: s)
  case (Cons x xs)
  obtain s' where "f s x = Some s'" "I s'" using Cons.prems by force
  then show ?case using Cons.IH [of s'] Cons.prems(2) by auto
qed simp

section \<open>Stable sorting\<close>

lemma filter_eq_single: "distinct zs \<Longrightarrow> k \<in> set zs \<Longrightarrow> filter (\<lambda>x. k = x) zs = [k]"
  by (induction zs) (auto simp: filter_empty_conv)

text \<open>Array.sort with the comparator a.key - b.key is the stable sort_key.\<close>

lemma sort_key_perm_unique:
  assumes m: "mset xs = mset ys" and i: "inj_on f (set xs)" and d: "distinct xs"
  shows "sort_key f xs = sort_key f ys"
proof (rule properties_for_sort_key)
  show "mset (sort_key f ys) = mset xs" using m by simp
  show "sorted (map f (sort_key f ys))" by simp
next
  fix k assume "k \<in> set (sort_key f ys)"
  then have k: "k \<in> set xs" using mset_eq_setD [OF m] by simp
  have one: "filter (\<lambda>x. f k = f x) zs = [k]" if "distinct zs" "set zs = set xs" for zs
  proof -
    have "filter (\<lambda>x. f k = f x) zs = filter (\<lambda>x. k = x) zs"
      using i k that(2) by (auto intro!: filter_cong simp: inj_on_def)
    then show ?thesis using that k by (simp add: filter_eq_single)
  qed
  have "distinct ys" using m d by (metis mset_eq_imp_distinct_iff)
  then show "filter (\<lambda>x. f k = f x) (sort_key f ys) = filter (\<lambda>x. f k = f x) xs"
    using one [of "sort_key f ys"] one [of xs] d mset_eq_setD [OF m] by simp
qed

section \<open>Strings\<close>

definition starts_with :: "string \<Rightarrow> string \<Rightarrow> bool" where
  "starts_with p s = (take (length p) s = p)"

text \<open>String.split and Array.join.\<close>

fun split_on :: "char \<Rightarrow> string \<Rightarrow> string list" where
  "split_on c [] = [[]]"
| "split_on c (x # s) = (if x = c then [] # split_on c s else (x # hd (split_on c s)) # tl (split_on c s))"

fun join_with :: "string \<Rightarrow> string list \<Rightarrow> string" where
  "join_with sep [] = []"
| "join_with sep [t] = t"
| "join_with sep (t # ts) = t @ sep @ join_with sep ts"

end
