(* ===== verification/JsDate.thy ===== *)
theory JsDate
  imports Prelude
begin

text \<open>
  The part of the JavaScript Date object the program uses, on UTC: the civil date of an instant
  (getUTCFullYear, getUTCMonth, getUTCDate), the instant of a civil date (Date.UTC) and the
  calendar day that toISOString().slice(0, 10) prints.  The key lemma is that the printed days
  compare as strings in chronological order: the archive of exchange rates, the spend chart and
  the forecast all sort and search by such strings.
\<close>

section \<open>Civil dates\<close>

text \<open>Days from 1970-01-01 to the first of January of a year (proleptic Gregorian calendar).\<close>

definition days_before_year :: "int \<Rightarrow> int" where
  "days_before_year y = 365 * (y - 1970) + (y - 1) div 4 - (y - 1) div 100 + (y - 1) div 400 - 477"

definition leap :: "int \<Rightarrow> bool" where
  "leap y = (y mod 4 = 0 \<and> (y mod 100 \<noteq> 0 \<or> y mod 400 = 0))"

definition year_of_day :: "int \<Rightarrow> int" where
  "year_of_day d =
     (let y = 1970 + (d * 400) div 146097 in
      if d < days_before_year y then y - 1
      else if days_before_year (y + 1) \<le> d then y + 1
      else y)"

text \<open>Day of the year on which month m (1 to 12) starts; month 13 is the end of the year.\<close>

definition month_start :: "bool \<Rightarrow> int \<Rightarrow> int" where
  "month_start lp m =
     (let k = (if lp then 1 else 0) in
      if m \<le> 1 then 0 else if m = 2 then 31 else if m = 3 then 59 + k
      else if m = 4 then 90 + k else if m = 5 then 120 + k else if m = 6 then 151 + k
      else if m = 7 then 181 + k else if m = 8 then 212 + k else if m = 9 then 243 + k
      else if m = 10 then 273 + k else if m = 11 then 304 + k else if m = 12 then 334 + k
      else 365 + k)"

definition month_of_doy :: "bool \<Rightarrow> int \<Rightarrow> int" where
  "month_of_doy lp n =
     (if n < month_start lp 2 then 1 else if n < month_start lp 3 then 2
      else if n < month_start lp 4 then 3 else if n < month_start lp 5 then 4
      else if n < month_start lp 6 then 5 else if n < month_start lp 7 then 6
      else if n < month_start lp 8 then 7 else if n < month_start lp 9 then 8
      else if n < month_start lp 10 then 9 else if n < month_start lp 11 then 10
      else if n < month_start lp 12 then 11 else 12)"

definition civil :: "int \<Rightarrow> int \<times> int \<times> int" where
  "civil d =
     (let y = year_of_day d; n = d - days_before_year y; m = month_of_doy (leap y) n
      in (y, m, n - month_start (leap y) m + 1))"

text \<open>Date.UTC(y, m - 1, dd) in whole days: a month outside 1..12 carries into the year.\<close>

definition day_of_civil :: "int \<Rightarrow> int \<Rightarrow> int \<Rightarrow> int" where
  "day_of_civil y m dd =
     (let y' = y + (m - 1) div 12; m' = (m - 1) mod 12 + 1
      in days_before_year y' + month_start (leap y') m' + dd - 1)"

definition utc_year :: "ms \<Rightarrow> int" where "utc_year t = fst (civil (t div MS_PER_DAY))"
definition utc_month :: "ms \<Rightarrow> int" where "utc_month t = fst (snd (civil (t div MS_PER_DAY)))"
definition utc_date :: "ms \<Rightarrow> int" where "utc_date t = snd (snd (civil (t div MS_PER_DAY)))"

lemma dby_bounds:
  "days_before_year (1970 + k) * 400 \<le> 146097 * k + 600"
  "146097 * k - 600 \<le> days_before_year (1970 + k) * 400"
proof -
  define a where "a = (1969 + k) div 4"
  define b where "b = (1969 + k) div 100"
  define c where "c = (1969 + k) div 400"
  have e: "z = n * (z div n) + z mod n" "0 \<le> z mod n" "z mod n < n" if "0 < n" for z n :: int
    using that by simp_all
  have "4 * a \<le> 1969 + k" "1969 + k \<le> 4 * a + 3"
    using e [of 4 "1969 + k"] unfolding a_def by linarith+
  moreover have "100 * b \<le> 1969 + k" "1969 + k \<le> 100 * b + 99"
    using e [of 100 "1969 + k"] unfolding b_def by linarith+
  moreover have "400 * c \<le> 1969 + k" "1969 + k \<le> 400 * c + 399"
    using e [of 400 "1969 + k"] unfolding c_def by linarith+
  moreover have "days_before_year (1970 + k) = 365 * k + a - b + c - 477"
    by (simp add: days_before_year_def a_def b_def c_def algebra_simps)
  ultimately show "days_before_year (1970 + k) * 400 \<le> 146097 * k + 600"
    and "146097 * k - 600 \<le> days_before_year (1970 + k) * 400" by linarith+
qed

lemma year_of_day_bounds:
  "days_before_year (year_of_day d) \<le> d" "d < days_before_year (year_of_day d + 1)"
proof -
  define k where "k = (d * 400) div 146097"
  have "d * 400 = 146097 * k + (d * 400) mod 146097" by (simp add: k_def)
  moreover have "0 \<le> (d * 400) mod 146097" "(d * 400) mod 146097 < 146097" by simp_all
  ultimately have k: "146097 * k \<le> d * 400" "d * 400 < 146097 * k + 146097" by linarith+
  have lo: "days_before_year (1970 + k - 1) \<le> d" using dby_bounds(1) [of "k - 1"] k by (simp add: algebra_simps)
  have hi: "d < days_before_year (1970 + k + 1 + 1)" using dby_bounds(2) [of "k + 2"] k by (simp add: algebra_simps)
  show "days_before_year (year_of_day d) \<le> d" "d < days_before_year (year_of_day d + 1)"
    using lo hi by (auto simp: year_of_day_def k_def [symmetric] Let_def)
qed

lemma div_step_aux:
  fixes k q r :: int
  assumes "0 \<le> r" "r < k" "1 < k"
  shows "(k * q + r - 1) div k = (if r = 0 then q - 1 else q)"
proof (cases "r = 0")
  case True
  have "k * q + r - 1 = k * (q - 1) + (k - 1)" using True by (simp add: right_diff_distrib)
  then have "(k * q + r - 1) div k = q - 1" by (rule int_div_pos_eq) (use assms in linarith)+
  then show ?thesis using True by simp
next
  case False
  have "k * q + r - 1 = k * q + (r - 1)" by simp
  then have "(k * q + r - 1) div k = q" by (rule int_div_pos_eq) (use assms False in linarith)+
  then show ?thesis using False by simp
qed

lemma div_step:
  fixes y :: int
  assumes k: "1 < k"
  shows "y div k = (y - 1) div k + (if y mod k = 0 then 1 else 0)"
proof -
  have "0 < k" using k by linarith
  then have "0 \<le> y mod k" "y mod k < k" by (rule pos_mod_sign, rule pos_mod_bound)
  then have "(k * (y div k) + y mod k - 1) div k = (if y mod k = 0 then y div k - 1 else y div k)"
    using k by (rule div_step_aux)
  then show ?thesis unfolding mult_div_mod_eq by (cases "y mod k = 0") (simp_all only: simp_thms if_True if_False
        diff_add_cancel add_0_right)
qed

lemma dby_step_arith:
  fixes a a' b b' c c' y :: int
  assumes "a = a' + (if P then 1 else 0)" "b = b' + (if Q then 1 else 0)" "c = c' + (if R then 1 else 0)"
    and "Q \<Longrightarrow> P" "R \<Longrightarrow> Q"
  shows "365 * (y + 1) + a - b + c = 365 * y + a' - b' + c' + (if P \<and> (\<not> Q \<or> R) then 366 else 365)"
proof -
  have y: "365 * (y + 1) = 365 * y + 365" by simp
  show ?thesis unfolding y assms(1-3) using assms(4,5) by (cases P; cases Q; cases R) simp_all
qed

lemma dby_step: "days_before_year (y + 1) = days_before_year y + (if leap y then 366 else 365)"
proof -
  have "y mod 4 = 0" if "y mod 100 = 0"
    using that dvd_trans [of 4 100 y] by (simp add: mod_eq_0_iff_dvd)
  moreover have "y mod 100 = 0" if "y mod 400 = 0"
    using that dvd_trans [of 100 400 y] by (simp add: mod_eq_0_iff_dvd)
  ultimately have "365 * (y + 1) + y div 4 - y div 100 + y div 400 =
      365 * y + (y - 1) div 4 - (y - 1) div 100 + (y - 1) div 400 + (if leap y then 366 else 365)"
    unfolding leap_def by (intro dby_step_arith div_step) simp_all
  moreover have "365 * (y + 1 - 1970) = 365 * (y + 1) - 365 * 1970" by simp
  then have "days_before_year (y + 1) = 365 * (y + 1) + y div 4 - y div 100 + y div 400 - 477 - 365 * 1970"
    unfolding days_before_year_def add_diff_cancel_right' by (simp only: diff_conv_add_uminus ac_simps)
  moreover have "365 * (y - 1970) = 365 * y - 365 * 1970" by simp
  then have "days_before_year y = 365 * y + (y - 1) div 4 - (y - 1) div 100 + (y - 1) div 400 - 477 - 365 * 1970"
    unfolding days_before_year_def by (simp only: diff_conv_add_uminus ac_simps)
  ultimately show ?thesis by (simp only: diff_conv_add_uminus ac_simps)
qed

lemma dby_strict: "y < z \<Longrightarrow> days_before_year (y + 1) \<le> days_before_year z"
proof (induction z rule: int_gr_induct)
  case (step i)
  then show ?case using dby_step [of i] by (simp split: if_splits)
qed simp

lemma year_mono: "d \<le> e \<Longrightarrow> year_of_day d \<le> year_of_day e"
  by (metis dby_strict year_of_day_bounds dual_order.strict_trans2 not_le order.trans)

lemma year_of_day_eqI: "days_before_year y \<le> d \<Longrightarrow> d < days_before_year (y + 1) \<Longrightarrow> year_of_day d = y"
  by (metis dby_strict year_of_day_bounds linorder_neqE not_le order.strict_trans1 order.strict_trans2)

lemma month_cases:
  assumes "1 \<le> m" "m \<le> (12::int)"
  shows "m = 1 \<or> m = 2 \<or> m = 3 \<or> m = 4 \<or> m = 5 \<or> m = 6 \<or> m = 7 \<or> m = 8 \<or> m = 9 \<or>
    m = 10 \<or> m = 11 \<or> m = 12"
  using assms by presburger

lemma month_range: "1 \<le> month_of_doy lp n \<and> month_of_doy lp n \<le> 12"
  by (simp add: month_of_doy_def)

lemma month_bounds:
  assumes "0 \<le> n" "n < month_start lp 13"
  shows "month_start lp (month_of_doy lp n) \<le> n" "n < month_start lp (month_of_doy lp n + 1)"
proof -
  have "month_start lp 1 = 0" by (simp add: month_start_def)
  then show "month_start lp (month_of_doy lp n) \<le> n" "n < month_start lp (month_of_doy lp n + 1)"
    using assms by (simp_all add: month_of_doy_def)
qed

lemma month_len:
  assumes "1 \<le> m" "m \<le> 12"
  shows "28 \<le> month_start lp (m + 1) - month_start lp m"
    "month_start lp (m + 1) - month_start lp m \<le> 31"
  using month_cases [OF assms] by (elim disjE; simp add: month_start_def)+

lemma month_start_step: "month_start lp m \<le> month_start lp (m + 1)"
proof (cases "1 \<le> m \<and> m \<le> 12")
  case True
  then show ?thesis using month_len(1) [of m lp] by simp
next
  case False
  then consider "m \<le> 0" | "13 \<le> m" by linarith
  then show ?thesis by cases (simp_all add: month_start_def)
qed

lemma month_start_mono: "a \<le> b \<Longrightarrow> month_start lp a \<le> month_start lp b"
proof (induction b rule: int_ge_induct)
  case (step i)
  then show ?case using month_start_step [of lp i] by linarith
qed simp

lemma month_start_ends: "month_start lp 1 = 0" "month_start lp 13 = (if lp then 366 else 365)"
  by (simp_all add: month_start_def)

lemma month_of_doy_eqI:
  assumes m: "1 \<le> m" "m \<le> 12" and b: "month_start lp m \<le> n" "n < month_start lp (m + 1)"
  shows "month_of_doy lp n = m"
proof -
  define k where "k = month_of_doy lp n"
  have n: "0 \<le> n" "n < month_start lp 13"
    using b m month_start_mono [of 1 m lp] month_start_mono [of "m + 1" 13 lp]
    unfolding month_start_ends(1) by linarith+
  have k: "month_start lp k \<le> n" "n < month_start lp (k + 1)"
    using month_bounds [OF n] by (simp_all add: k_def)
  have "\<not> k < m" using k b month_start_mono [of "k + 1" m lp] by linarith
  moreover have "\<not> m < k" using k b month_start_mono [of "m + 1" k lp] by linarith
  ultimately show ?thesis by (simp add: k_def)
qed

lemma doy_range:
  "0 \<le> d - days_before_year (year_of_day d)"
  "d - days_before_year (year_of_day d) < month_start (leap (year_of_day d)) 13"
  using year_of_day_bounds [of d] dby_step [of "year_of_day d"]
  unfolding month_start_ends by linarith+

lemma civil_eqs:
  assumes "civil d = (y, m, dd)"
  shows "y = year_of_day d" "m = month_of_doy (leap y) (d - days_before_year y)"
    "dd = d - days_before_year y - month_start (leap y) m + 1"
  using assms unfolding civil_def Let_def prod.inject by auto

lemma civil_doy:
  assumes "civil d = (y, m, dd)"
  shows "month_start (leap y) m \<le> d - days_before_year y"
    "d - days_before_year y < month_start (leap y) (m + 1)"
  using month_bounds [OF doy_range, of d] civil_eqs(1,2) [OF assms] by simp_all

lemma civil_range:
  assumes "civil d = (y, m, dd)"
  shows "1 \<le> m" "m \<le> 12" "1 \<le> dd" "dd \<le> 31"
proof -
  show m: "1 \<le> m" "m \<le> 12" using month_range civil_eqs(2) [OF assms] by auto
  show "1 \<le> dd" "dd \<le> 31"
    using civil_doy [OF assms] month_len(2) [OF m, of "leap y"] civil_eqs(3) [OF assms] by linarith+
qed

lemma day_of_civil_civil:
  assumes "civil d = (y, m, dd)"
  shows "day_of_civil y m dd = d"
proof -
  have "0 \<le> m - 1" "m - 1 < 12" using civil_range [OF assms] by linarith+
  note c = div_pos_pos_trivial [OF this] mod_pos_pos_trivial [OF this]
  have "days_before_year y + month_start (leap y) m + dd - 1 = d"
    using civil_eqs(3) [OF assms] by linarith
  then show ?thesis by (simp only: day_of_civil_def Let_def c add_0_right diff_add_cancel)
qed

text \<open>The lexicographic order of (year, month, day) is the order of days.\<close>

lemma civil_lex:
  assumes "d < e" and c: "civil d = (y, m, dd)" "civil e = (y', m', dd')"
  shows "y < y' \<or> y = y' \<and> (m < m' \<or> m = m' \<and> dd < dd')"
proof -
  have "y \<le> y'" using year_mono [of d e] assms(1) civil_eqs(1) [OF c(1)] civil_eqs(1) [OF c(2)] by simp
  moreover have "m < m' \<or> m = m' \<and> dd < dd'" if Y: "y = y'"
  proof -
    note b = civil_doy [OF c(1)] civil_doy [OF c(2), folded Y]
    have "m \<le> m'"
      using month_start_mono [of "m' + 1" m "leap y"] b assms(1) by (rule_tac ccontr) linarith
    moreover have "dd < dd'" if "m = m'"
      using civil_eqs(3) [OF c(1)] civil_eqs(3) [OF c(2)] that Y assms(1) by simp
    ultimately show ?thesis by auto
  qed
  ultimately show ?thesis by auto
qed

section \<open>Day strings\<close>

text \<open>Decimal digits of a natural number padded to a width (String.padStart with zeros).\<close>

definition digit :: "nat \<Rightarrow> char" where
  "digit k = char_of (48 + k)"

fun pad :: "nat \<Rightarrow> nat \<Rightarrow> string" where
  "pad 0 k = []"
| "pad (Suc n) k = digit (k div 10 ^ n) # pad n (k mod 10 ^ n)"

definition date_text :: "int \<times> int \<times> int \<Rightarrow> string" where
  "date_text c = (case c of (y, m, dd) \<Rightarrow>
     (if 0 \<le> y \<and> y \<le> 9999 then pad 4 (nat y)
      else (if y < 0 then ''-'' else ''+'') @ pad 6 (nat \<bar>y\<bar>))
     @ ''-'' @ pad 2 (nat m) @ ''-'' @ pad 2 (nat dd))"

text \<open>new Date(ms).toISOString().slice(0, 10)\<close>

definition iso_day :: "ms \<Rightarrow> string" where
  "iso_day t = take 10 (date_text (civil (t div MS_PER_DAY)))"

text \<open>Days whose year prints with four digits: 0000-01-01 to 9999-12-31.\<close>

definition printable_day :: "int \<Rightarrow> bool" where
  "printable_day d = (days_before_year 0 \<le> d \<and> d < days_before_year 10000)"

lemma pad_length [simp]: "length (pad n k) = n"
  by (induction n arbitrary: k) simp_all

lemma digit_less: "a < 10 \<Longrightarrow> b < 10 \<Longrightarrow> (digit a < digit b) = (a < b)"
  by (simp add: digit_def less_char_def)

lemma digit_eq: "a < 10 \<Longrightarrow> b < 10 \<Longrightarrow> (digit a = digit b) = (a = b)"
  by (metis digit_less nat_neq_iff order_less_irrefl)

lemma lex_append:
  fixes xs ys :: string
  assumes "length xs = length ys"
  shows "(xs @ us < ys @ vs) = (xs < ys \<or> xs = ys \<and> us < vs)"
  using assms by (induction xs ys rule: list_induct2) auto

lemma pad_less:
  assumes "a < 10 ^ n" "b < 10 ^ n" "a < b"
  shows "pad n a < pad n b"
  using assms
proof (induction n arbitrary: a b)
  case (Suc n)
  let ?p = "10 ^ n :: nat"
  have q: "a div ?p < 10" "b div ?p < 10"
    using Suc.prems by (simp_all add: less_mult_imp_div_less mult.commute)
  show ?case
  proof (cases "a div ?p = b div ?p")
    case True
    then have "a mod ?p < b mod ?p"
      using Suc.prems(3) by (metis add_less_cancel_left mult_div_mod_eq)
    then show ?thesis using Suc.IH [of "a mod ?p" "b mod ?p"] True by simp
  next
    case False
    then have "a div ?p < b div ?p"
      using Suc.prems(3) by (simp add: div_le_mono le_neq_implies_less)
    then show ?thesis using q by (simp add: digit_less)
  qed
qed simp

lemma printable_year: "printable_day d \<Longrightarrow> 0 \<le> year_of_day d \<and> year_of_day d \<le> 9999"
proof -
  assume p: "printable_day d"
  have "\<not> year_of_day d < 0"
    using dby_strict [of "year_of_day d" 0] year_of_day_bounds [of d] p by (auto simp: printable_day_def)
  moreover have "\<not> 9999 < year_of_day d"
    using dby_strict [of 9999 "year_of_day d"] year_of_day_bounds [of d] p by (auto simp: printable_day_def)
  ultimately show ?thesis by simp
qed

lemma date_text_less:
  assumes "d < e" "printable_day d" "printable_day e"
  shows "date_text (civil d) < date_text (civil e)"
proof -
  obtain y m dd where c: "civil d = (y, m, dd)" by (cases "civil d")
  obtain y' m' dd' where c': "civil e = (y', m', dd')" by (cases "civil e")
  have y: "0 \<le> y" "y \<le> 9999" "0 \<le> y'" "y' \<le> 9999"
    using printable_year assms civil_eqs(1) [OF c] civil_eqs(1) [OF c'] by auto
  note r = civil_range [OF c] civil_range [OF c']
  note lex = civil_lex [OF assms(1) c c']
  have "pad 4 (nat y) < pad 4 (nat y')" if "y < y'" using that y by (intro pad_less) auto
  moreover have "pad 2 (nat m) < pad 2 (nat m')" if "m < m'" using that r by (intro pad_less) auto
  moreover have "pad 2 (nat dd) < pad 2 (nat dd')" if "dd < dd'" using that r by (intro pad_less) auto
  ultimately show ?thesis using lex y by (auto simp: c c' date_text_def lex_append)
qed

lemma date_text_length: "printable_day d \<Longrightarrow> length (date_text (civil d)) = 10"
  using printable_year [of d] civil_eqs(1) [of d] by (cases "civil d") (auto simp: date_text_def)

lemma iso_day_less:
  assumes "t div MS_PER_DAY < u div MS_PER_DAY"
    and "printable_day (t div MS_PER_DAY)" "printable_day (u div MS_PER_DAY)"
  shows "iso_day t < iso_day u"
  using date_text_less [OF assms] assms(2,3) by (simp add: iso_day_def date_text_length)

text \<open>Day strings order and identify calendar days.\<close>

lemma iso_day_le_iff:
  assumes "printable_day (t div MS_PER_DAY)" "printable_day (u div MS_PER_DAY)"
  shows "(iso_day t \<le> iso_day u) = (t div MS_PER_DAY \<le> u div MS_PER_DAY)"
proof -
  have "iso_day t = iso_day u" if "t div MS_PER_DAY = u div MS_PER_DAY" using that by (simp add: iso_day_def)
  then show ?thesis
    using iso_day_less [OF _ assms] iso_day_less [OF _ assms(2) assms(1)]
    by (metis leD le_less linorder_le_less_linear nle_le)
qed

lemma iso_day_eq_iff:
  assumes "printable_day (t div MS_PER_DAY)" "printable_day (u div MS_PER_DAY)"
  shows "(iso_day t = iso_day u) = (t div MS_PER_DAY = u div MS_PER_DAY)"
  using iso_day_le_iff [OF assms] iso_day_le_iff [OF assms(2) assms(1)]
  by (metis order_antisym order_refl)

section \<open>Reading a day string\<close>

definition is_digit :: "char \<Rightarrow> bool" where
  "is_digit c = (48 \<le> (of_char c :: nat) \<and> (of_char c :: nat) \<le> 57)"

definition number_of_digits :: "string \<Rightarrow> nat" where
  "number_of_digits s = foldl (\<lambda>n c. 10 * n + (of_char c - 48)) 0 s"

text \<open>The text starts with four digits, a dash, two digits, a dash and two digits.\<close>

definition day_prefix :: "string \<Rightarrow> string option" where
  "day_prefix s =
     (let d = take 10 s in
      if length d = 10 \<and> (\<forall>i\<in>{0,1,2,3,5,6,8,9}. is_digit (d ! i)) \<and> d ! 4 = CHR ''-'' \<and> d ! 7 = CHR ''-''
      then Some d else None)"

text \<open>
  new Date(day + 'T00:00:00.000Z') for a ten character day: the engine checks the month and that
  the day is at most 31, and carries a day past the end of its month; None is Invalid Date.
\<close>

definition parse_day :: "string \<Rightarrow> ms option" where
  "parse_day s =
     (if length s = 10 \<and> day_prefix s = Some s then
        let y = int (number_of_digits (take 4 s)); m = int (number_of_digits (take 2 (drop 5 s)));
            dd = int (number_of_digits (drop 8 s))
        in if 1 \<le> m \<and> m \<le> 12 \<and> 1 \<le> dd \<and> dd \<le> 31 then Some (day_of_civil y m dd * MS_PER_DAY) else None
      else None)"

lemma of_char_digit: "k < 10 \<Longrightarrow> of_char (digit k) = (48 + k :: nat)"
  by (simp add: digit_def)

lemma pad_digits: "k < 10 ^ n \<Longrightarrow> i < n \<Longrightarrow> is_digit (pad n k ! i)"
proof (induction n arbitrary: k i)
  case (Suc n)
  have "k div 10 ^ n < 10" using Suc.prems(1) by (simp add: less_mult_imp_div_less mult.commute)
  then show ?case using Suc.IH [of "k mod 10 ^ n" "i - 1"] Suc.prems(2)
    by (cases i) (auto simp: is_digit_def of_char_digit)
qed simp

lemma number_fold: "k < 10 ^ n \<Longrightarrow> foldl (\<lambda>m c. 10 * m + (of_char c - 48)) a (pad n k) = a * 10 ^ n + k"
proof (induction n arbitrary: k a)
  case (Suc n)
  have q: "k div 10 ^ n < 10" using Suc.prems by (simp add: less_mult_imp_div_less mult.commute)
  have "foldl (\<lambda>m c. 10 * m + (of_char c - 48)) a (pad (Suc n) k)
      = (10 * a + k div 10 ^ n) * 10 ^ n + k mod 10 ^ n"
    using Suc.IH [of "k mod 10 ^ n" "10 * a + k div 10 ^ n"] q by (simp add: of_char_digit)
  also have "\<dots> = a * 10 ^ Suc n + k" using div_mult_mod_eq [of k "10 ^ n"] by (simp add: algebra_simps)
  finally show ?case .
qed simp

lemma number_of_pad: "k < 10 ^ n \<Longrightarrow> number_of_digits (pad n k) = k"
  by (simp add: number_of_digits_def number_fold)

text \<open>Reading the day that was printed gives back the start of that UTC day.\<close>

lemma date_text_prefix:
  assumes "y < 10 ^ 4" "m < 10 ^ 2" "dd < 10 ^ 2"
  shows "day_prefix (pad 4 y @ ''-'' @ pad 2 m @ ''-'' @ pad 2 dd) =
     Some (pad 4 y @ ''-'' @ pad 2 m @ ''-'' @ pad 2 dd)"
proof -
  let ?s = "pad 4 y @ ''-'' @ pad 2 m @ ''-'' @ pad 2 dd"
  note p = pad_digits [OF assms(1)] pad_digits [OF assms(2)] pad_digits [OF assms(3)]
  have "?s ! i = pad 4 y ! i" if "i < 4" for i using that by (simp add: nth_append)
  moreover have "?s ! i = pad 2 m ! (i - 5)" if "i = 5 \<or> i = 6" for i
    using that by (elim disjE) (simp_all add: nth_append nth_Cons')
  moreover have "?s ! i = pad 2 dd ! (i - 8)" if "i = 8 \<or> i = 9" for i
    using that by (elim disjE) (simp_all add: nth_append nth_Cons')
  ultimately have "\<forall>i\<in>{0,1,2,3,5,6,8,9}. is_digit (?s ! i)" using p by simp
  moreover have "?s ! 4 = CHR ''-''" "?s ! 7 = CHR ''-''" by (simp_all add: nth_append nth_Cons')
  ultimately show ?thesis by (simp add: day_prefix_def Let_def)
qed

lemma parse_day_iso_day:
  assumes "printable_day (t div MS_PER_DAY)"
  shows "parse_day (iso_day t) = Some (t div MS_PER_DAY * MS_PER_DAY)"
proof -
  let ?d = "t div MS_PER_DAY"
  obtain y m dd where c: "civil ?d = (y, m, dd)" by (cases "civil ?d")
  have y: "0 \<le> y" "y \<le> 9999" using printable_year [OF assms] civil_eqs(1) [OF c] by auto
  note r = civil_range [OF c]
  let ?s = "pad 4 (nat y) @ ''-'' @ pad 2 (nat m) @ ''-'' @ pad 2 (nat dd)"
  have s: "iso_day t = ?s" using y by (simp add: iso_day_def c date_text_def)
  have b: "nat y < 10 ^ 4" "nat m < 10 ^ 2" "nat dd < 10 ^ 2" using y r by auto
  have "take 4 ?s = pad 4 (nat y)" "take 2 (drop 5 ?s) = pad 2 (nat m)" "drop 8 ?s = pad 2 (nat dd)" by simp_all
  then have "parse_day ?s = Some (day_of_civil y m dd * MS_PER_DAY)"
    using date_text_prefix [OF b] number_of_pad b y r by (simp add: parse_day_def Let_def)
  then show ?thesis using s day_of_civil_civil [OF c] by simp
qed

end
