(* ===== verification/Libs.thy ===== *)
theory Libs
  imports JsDate "HOL-Library.Log_Nat"
begin

text \<open>
  Third-party packages the backend computes with, as parameters of the model.

  decimal.js (and Prisma.Decimal, the same library): a value is a rat, an arithmetic operation is
  the exact operation followed by the library's rounding to its precision (20 significant digits by
  default), toDecimalPlaces(2, ROUND_HALF_UP) and toFixed(2) round to cents, toFixed(8) to eight places, toFixed(2) as text reads back as the rounded value, and a JavaScript
  number made from a quotient of two integers enters the library as one more rounding.  The locale
  decimal_arith states what its documentation promises of these functions, and dec20 is the
  decimal arithmetic with 20 significant digits, rounding half up, for which the promises are proved.
\<close>

section \<open>The interface\<close>

record decimal_lib =
  sig_round :: "rat \<Rightarrow> rat"
  cent_round :: "rat \<Rightarrow> rat"
  fix8_round :: "rat \<Rightarrow> rat"
  cent_text :: "rat \<Rightarrow> string"
  text_value :: "string \<Rightarrow> rat"
  num_quot :: "int \<Rightarrow> int \<Rightarrow> rat"

definition dadd :: "decimal_lib \<Rightarrow> rat \<Rightarrow> rat \<Rightarrow> rat" where "dadd D x y = sig_round D (x + y)"
definition dsub :: "decimal_lib \<Rightarrow> rat \<Rightarrow> rat \<Rightarrow> rat" where "dsub D x y = sig_round D (x - y)"
definition dmul :: "decimal_lib \<Rightarrow> rat \<Rightarrow> rat \<Rightarrow> rat" where "dmul D x y = sig_round D (x * y)"
definition ddiv :: "decimal_lib \<Rightarrow> rat \<Rightarrow> rat \<Rightarrow> rat" where "ddiv D x y = sig_round D (x / y)"

text \<open>The pattern of a money string: an optional minus, digits, and at most two decimals.\<close>

definition split_dot :: "string \<Rightarrow> string \<times> string option" where
  "split_dot s = (let a = takeWhile (\<lambda>c. c \<noteq> CHR ''.'') s; r = dropWhile (\<lambda>c. c \<noteq> CHR ''.'') s
     in (a, case r of [] \<Rightarrow> None | _ # b \<Rightarrow> Some b))"

definition strip_minus :: "string \<Rightarrow> bool \<times> string" where
  "strip_minus s = (case s of [] \<Rightarrow> (False, []) | c # r \<Rightarrow> if c = CHR ''-'' then (True, r) else (False, s))"

definition money_re :: "string \<Rightarrow> bool" where
  "money_re s = (case split_dot (snd (strip_minus s)) of (a, b) \<Rightarrow>
     a \<noteq> [] \<and> (\<forall>c\<in>set a. is_digit c) \<and>
     (case b of None \<Rightarrow> True | Some f \<Rightarrow> (length f = 1 \<or> length f = 2) \<and> (\<forall>c\<in>set f. is_digit c)))"

text \<open>Whole cents: what a Decimal(14,2) column holds.\<close>

definition is_cents :: "rat \<Rightarrow> bool" where
  "is_cents x = (x * 100 \<in> \<int>)"

locale decimal_arith =
  fixes D :: decimal_lib
  assumes sig_mono: "x \<le> y \<Longrightarrow> sig_round D x \<le> sig_round D y"
    and sig_zero: "sig_round D 0 = 0"
    and sig_pos: "0 < x \<Longrightarrow> 0 < sig_round D x"
    and sig_minus: "sig_round D (- x) = - sig_round D x"
    and sig_cents: "is_cents x \<Longrightarrow> \<bar>x\<bar> \<le> 10 ^ 17 \<Longrightarrow> sig_round D x = x"
    and cent_is_cents: "is_cents (cent_round D x)"
    and cent_id: "is_cents x \<Longrightarrow> cent_round D x = x"
    and cent_mono: "x \<le> y \<Longrightarrow> cent_round D x \<le> cent_round D y"
    and cent_near: "\<bar>cent_round D x - x\<bar> \<le> 1 / 200"
    and text_money: "money_re (cent_text D x)"
    and text_cent: "text_value D (cent_text D x) = cent_round D x"
    and fix8_near: "\<bar>fix8_round D x - x\<bar> \<le> 1 / (2 * 10 ^ 8)"
    and num_pos: "0 < a \<Longrightarrow> 0 < b \<Longrightarrow> 0 < num_quot D a b"
begin

lemma sig_nonneg: "0 \<le> x \<Longrightarrow> 0 \<le> sig_round D x"
  using sig_mono [of 0 x] sig_zero by simp

lemma sig_neg_iff: "(sig_round D x < 0) = (x < 0)"
  using sig_pos [of "- x"] sig_nonneg [of x] sig_minus [of x] by (cases "x < 0") auto

lemma sig_pos_iff: "(0 < sig_round D x) = (0 < x)"
  using sig_pos [of x] sig_mono [of x 0] sig_zero by (cases "0 < x") auto

lemma cent_nonneg: "0 \<le> x \<Longrightarrow> 0 \<le> cent_round D x"
  using cent_mono [of 0 x] cent_id [of 0] by (simp add: is_cents_def)

end

section \<open>Decimal arithmetic with a fixed number of significant digits\<close>

definition round_half_up :: "rat \<Rightarrow> rat" where
  "round_half_up x = (if x < 0 then - of_int \<lfloor>- x + 1 / 2\<rfloor> else of_int \<lfloor>x + 1 / 2\<rfloor>)"

text \<open>The exponent e with 10 powi e <= x < 10 powi (e + 1), for a positive x.\<close>

definition dec_exp :: "rat \<Rightarrow> int" where
  "dec_exp x =
     (let (p, q) = quotient_of x; e = int (floorlog 10 (nat p)) - int (floorlog 10 (nat q))
      in if x < 10 powi e then e - 1 else e)"

definition round_sig :: "nat \<Rightarrow> rat \<Rightarrow> rat" where
  "round_sig n x =
     (if x = 0 then 0
      else let u = 10 powi (dec_exp \<bar>x\<bar> - int n + 1) in round_half_up (x / u) * u)"

text \<open>Printing and reading decimal text.\<close>

fun nat_text :: "nat \<Rightarrow> string" where
  "nat_text n = (if n < 10 then [digit n] else nat_text (n div 10) @ [digit (n mod 10)])"

declare nat_text.simps [simp del]

definition cents_text :: "int \<Rightarrow> string" where
  "cents_text k = (if k < 0 then ''-'' else []) @ nat_text (nat \<bar>k\<bar> div 100) @ ''.'' @ pad 2 (nat \<bar>k\<bar> mod 100)"

definition read_decimal :: "string \<Rightarrow> rat" where
  "read_decimal s = (let (neg, t) = strip_minus s; (a, b) = split_dot t; f = coalesce b [];
       v = of_nat (number_of_digits (a @ f)) / 10 ^ length f in if neg then - v else v)"

definition dec20 :: decimal_lib where
  "dec20 = \<lparr> sig_round = round_sig 20,
             cent_round = (\<lambda>x. round_half_up (x * 100) / 100),
             fix8_round = (\<lambda>x. round_half_up (x * 10 ^ 8) / 10 ^ 8),
             cent_text = (\<lambda>x. cents_text \<lfloor>round_half_up (x * 100)\<rfloor>),
             text_value = read_decimal,
             num_quot = (\<lambda>a b. round_sig 17 (of_int a / of_int b)) \<rparr>"

lemma floor_half: "\<lfloor>of_int j + 1 / 2 :: rat\<rfloor> = j" "\<lfloor>1 / 2 :: rat\<rfloor> = 0"
  by (simp_all add: floor_eq_iff)

lemma rhu_minus: "round_half_up (- x) = - round_half_up x"
  by (auto simp: round_half_up_def floor_half)

lemma rhu_mono: "x \<le> y \<Longrightarrow> round_half_up x \<le> round_half_up y"
proof (cases "x < 0 \<and> 0 \<le> y")
  case True
  then have "x < 0" "\<not> y < 0" by simp_all
  then have "round_half_up x \<le> 0" "0 \<le> round_half_up y" by (simp_all add: round_half_up_def)
  then show ?thesis by linarith
next
  case False
  assume "x \<le> y"
  then show ?thesis using False by (auto simp: round_half_up_def intro!: floor_mono)
qed

lemma rhu_int: "round_half_up (of_int k) = of_int k"
  using floor_half(1) [of k] floor_half(1) [of "- k"] by (simp add: round_half_up_def)

lemma rhu_near: "\<bar>round_half_up x - x\<bar> \<le> 1 / 2"
proof -
  have f: "of_int \<lfloor>z + 1 / 2\<rfloor> \<le> z + 1 / 2" "z - 1 / 2 < of_int \<lfloor>z + 1 / 2\<rfloor>" for z :: rat
    using floor_correct [of "z + 1 / 2"] by linarith+
  show ?thesis
  proof (cases "x < 0")
    case True
    then show ?thesis using f [of "- x"] unfolding round_half_up_def if_P [OF True] abs_le_iff by linarith
  next
    case False
    then show ?thesis using f [of x] unfolding round_half_up_def if_not_P [OF False] abs_le_iff by linarith
  qed
qed

lemma dec_exp_bounds:
  assumes "0 < x"
  shows "10 powi dec_exp x \<le> x" "x < 10 powi (dec_exp x + 1)"
proof -
  obtain p q where pq: "quotient_of x = (p, q)" by (cases "quotient_of x")
  have q: "0 < q" using quotient_of_denom_pos [OF pq] .
  have x: "x = of_int p / of_int q" using quotient_of_div [OF pq] .
  have p: "0 < p" using assms q x by (simp add: zero_less_divide_iff)
  define a where "a = floorlog 10 (nat p)"
  define b where "b = floorlog 10 (nat q)"
  define e where "e = int a - int b"
  have pow: "10 ^ (floorlog 10 (nat z) - 1) \<le> nat z \<and> nat z < 10 ^ floorlog 10 (nat z)"
    "0 < floorlog 10 (nat z)" if "0 < z" for z
    using floorlog_bounds [of "nat z" 10] that floorlog_eq_zero_iff [of 10 "nat z"] by auto
  have real: "(10 :: rat) ^ n \<le> of_int z" if "10 ^ n \<le> nat z" "0 < z" for z n
  proof -
    have "int (10 ^ n) \<le> z" using that by linarith
    then have "of_int (int (10 ^ n)) \<le> (of_int z :: rat)" by (simp only: of_int_le_iff)
    then show ?thesis by simp
  qed
  have real': "of_int z < (10 :: rat) ^ n" if "nat z < 10 ^ n" "0 < z" for z n
  proof -
    have "z < int (10 ^ n)" using that by linarith
    then have "of_int z < (of_int (int (10 ^ n)) :: rat)" by (simp only: of_int_less_iff)
    then show ?thesis by simp
  qed
  have pdiff: "(10 :: rat) powi (int m - int n) = 10 ^ m / 10 ^ n" for m n
    by (simp add: power_int_diff)
  have P: "(10 :: rat) ^ (a - 1) \<le> of_int p" "of_int p < (10 :: rat) ^ a"
    using pow [OF p] real real' p by (auto simp: a_def)
  have Q: "(10 :: rat) ^ (b - 1) \<le> of_int q" "of_int q < (10 :: rat) ^ b"
    using pow [OF q] real real' q by (auto simp: b_def)
  have ab: "0 < a" "0 < b" using pow [OF p] pow [OF q] by (auto simp: a_def b_def)
  have lo: "10 powi (e - 1) \<le> x"
  proof -
    have "e - 1 = int (a - 1) - int b" using ab by (simp add: e_def of_nat_diff)
    then have "(10 :: rat) powi (e - 1) = 10 ^ (a - 1) / 10 ^ b" by (simp only: pdiff)
    also have "\<dots> \<le> of_int p / of_int q"
      by (rule frac_le) (use P Q q p in simp_all)
    finally show ?thesis using x by simp
  qed
  have hi: "x < 10 powi (e + 1)"
  proof -
    have "e + 1 = int a - int (b - 1)" using ab by (simp add: e_def of_nat_diff)
    then have "(10 :: rat) powi (e + 1) = 10 ^ a / 10 ^ (b - 1)" by (simp only: pdiff)
    moreover have "of_int p / of_int q < (10 :: rat) ^ a / 10 ^ (b - 1)"
      by (rule frac_less) (use P Q q p in simp_all)
    ultimately show ?thesis using x by simp
  qed
  have "dec_exp x = (if x < 10 powi e then e - 1 else e)"
    by (simp add: dec_exp_def pq Let_def e_def a_def b_def)
  then show "10 powi dec_exp x \<le> x" "x < 10 powi (dec_exp x + 1)" using lo hi by auto
qed

lemma powi_mono: "i \<le> j \<Longrightarrow> (10 :: rat) powi i \<le> 10 powi j"
  by (simp add: power_int_increasing)

lemma powi_nat: "0 \<le> i \<Longrightarrow> (10 :: rat) powi i = of_int (10 ^ nat i)"
  by (simp add: power_int_def)

lemma powi_split: "(10 :: rat) powi (i + j) = 10 powi i * 10 powi j"
  by (simp add: power_int_add)

text \<open>The rounded value stays in the decade of the argument.\<close>

lemma round_sig_decade:
  assumes "0 < x" "0 < n"
  shows "10 powi dec_exp x \<le> round_sig n x" "round_sig n x \<le> 10 powi (dec_exp x + 1)"
proof -
  define e where "e = dec_exp x"
  define u :: rat where "u = 10 powi (e - int n + 1)"
  have u: "0 < u" by (simp add: u_def)
  have r: "round_sig n x = round_half_up (x / u) * u"
    using assms by (simp add: round_sig_def u_def e_def Let_def)
  have lo: "10 powi e = of_int (10 ^ nat (int n - 1)) * u"
    using assms(2) powi_split [of "int n - 1" "e - int n + 1"] by (simp add: u_def powi_nat)
  have hi: "10 powi (e + 1) = of_int (10 ^ n) * u"
    using powi_split [of "int n" "e - int n + 1"] by (simp add: u_def powi_nat add.commute)
  have "of_int (10 ^ nat (int n - 1)) \<le> x / u"
    using dec_exp_bounds(1) [OF assms(1)] u lo by (simp add: pos_le_divide_eq e_def)
  then have "of_int (10 ^ nat (int n - 1)) \<le> round_half_up (x / u)"
    using rhu_mono rhu_int by metis
  then show "10 powi dec_exp x \<le> round_sig n x" unfolding r e_def [symmetric] lo using u by simp
  have "x / u \<le> of_int (10 ^ n)"
    using dec_exp_bounds(2) [OF assms(1)] u hi by (simp add: pos_divide_le_eq e_def)
  then have "round_half_up (x / u) \<le> of_int (10 ^ n)"
    using rhu_mono rhu_int by metis
  then show "round_sig n x \<le> 10 powi (dec_exp x + 1)" unfolding r e_def [symmetric] hi using u by simp
qed

lemma round_sig_pos: "0 < x \<Longrightarrow> 0 < n \<Longrightarrow> 0 < round_sig n x"
  using round_sig_decade(1) [of x n] by (meson less_le_trans zero_less_power_int zero_less_numeral)

lemma round_sig_minus: "round_sig n (- x) = - round_sig n x"
  by (simp add: round_sig_def Let_def rhu_minus)

lemma dec_exp_mono:
  assumes "0 < x" "x \<le> y"
  shows "dec_exp x \<le> dec_exp y"
proof (rule ccontr)
  assume "\<not> dec_exp x \<le> dec_exp y"
  then have "(10 :: rat) powi (dec_exp y + 1) \<le> 10 powi dec_exp x" by (intro powi_mono) simp
  then show False using dec_exp_bounds(1) [of x] dec_exp_bounds(2) [of y] assms by linarith
qed

lemma round_sig_mono_pos:
  assumes "0 < x" "x \<le> y" "0 < n"
  shows "round_sig n x \<le> round_sig n y"
proof (cases "dec_exp x = dec_exp y")
  case True
  define u :: rat where "u = 10 powi (dec_exp y - int n + 1)"
  have "0 < u" by (simp add: u_def)
  moreover from this have "round_half_up (x / u) \<le> round_half_up (y / u)"
    using assms by (intro rhu_mono divide_right_mono) auto
  ultimately show ?thesis using assms True by (simp add: round_sig_def Let_def u_def [symmetric])
next
  case False
  then have "(10 :: rat) powi (dec_exp x + 1) \<le> 10 powi dec_exp y"
    using dec_exp_mono [OF assms(1,2)] by (intro powi_mono) simp
  then show ?thesis
    using round_sig_decade(2) [of x n] round_sig_decade(1) [of y n] assms by linarith
qed

lemma round_sig_mono:
  assumes "x \<le> y" "0 < n"
  shows "round_sig n x \<le> round_sig n y"
proof -
  consider "0 < x" | "y < 0" | "x \<le> 0" "0 \<le> y" by linarith
  then show ?thesis
  proof cases
    case 2
    then show ?thesis
      using round_sig_mono_pos [of "- y" "- x" n] assms by (simp add: round_sig_minus)
  next
    case 3
    have "0 \<le> round_sig n z" if "0 \<le> z" for z
      using that round_sig_pos [of z n] assms(2) by (cases "z = 0") (auto simp: round_sig_def)
    from this [of y] this [of "- x"] 3 show ?thesis by (simp add: round_sig_minus)
  qed (use assms round_sig_mono_pos in blast)
qed

lemma round_sig_cents:
  assumes c: "is_cents x" and b: "\<bar>x\<bar> \<le> 10 ^ 17"
  shows "round_sig 20 x = x"
proof (cases "x = 0")
  case False
  define e where "e = dec_exp \<bar>x\<bar>"
  define u :: rat where "u = 10 powi (e - int 20 + 1)"
  have u: "0 < u" by (simp add: u_def)
  obtain k where k: "x * 100 = of_int k" using c by (auto simp: is_cents_def elim: Ints_cases)
  have "e \<le> 17"
  proof (rule ccontr)
    assume "\<not> e \<le> 17"
    then have "(10 :: rat) powi 18 \<le> 10 powi e" by (intro powi_mono) simp
    then show False using dec_exp_bounds(1) [of "\<bar>x\<bar>"] False b by (simp add: e_def)
  qed
  then have "1 / u = 10 powi (17 - e) * 100"
    using powi_split [of "17 - e" 2] by (simp add: u_def power_int_minus_divide [symmetric])
  then have "x / u = x * 100 * 10 powi (17 - e)"
    by (metis (no_types, opaque_lifting) divide_inverse inverse_eq_divide mult.assoc mult.commute)
  then have "x / u = of_int (k * 10 ^ nat (17 - e))"
    using k \<open>e \<le> 17\<close> powi_nat [of "17 - e"] by simp
  then have "round_half_up (x / u) = x / u" by (simp only: rhu_int)
  moreover have "round_sig 20 x = round_half_up (x / u) * u"
    using False unfolding round_sig_def Let_def e_def [symmetric] u_def [symmetric] by (simp only: if_False)
  ultimately show ?thesis using u by simp
qed (simp add: round_sig_def)

lemma nat_text_digits: "\<forall>c\<in>set (nat_text n). is_digit c"
proof (induction n rule: nat_text.induct)
  case (1 n)
  have "is_digit (digit (n mod 10))" by (simp add: is_digit_def of_char_digit)
  moreover have "n < 10 \<Longrightarrow> is_digit (digit n)" by (simp add: is_digit_def of_char_digit)
  ultimately show ?case using 1 by (subst nat_text.simps) auto
qed

lemma nat_text_nonempty: "nat_text n \<noteq> []"
  by (subst nat_text.simps) simp

lemma number_of_digits_append:
  "number_of_digits (xs @ ys) = foldl (\<lambda>n c. 10 * n + (of_char c - 48)) (number_of_digits xs) ys"
  by (simp add: number_of_digits_def)

lemma nat_text_value: "number_of_digits (nat_text n) = n"
proof (induction n rule: nat_text.induct)
  case (1 n)
  show ?case
  proof (cases "n < 10")
    case True
    then show ?thesis by (subst nat_text.simps) (simp add: number_of_digits_def of_char_digit)
  next
    case False
    then have "number_of_digits (nat_text n) = 10 * (n div 10) + n mod 10"
      using 1 by (subst nat_text.simps) (simp add: number_of_digits_append of_char_digit)
    then show ?thesis by simp
  qed
qed

lemma digit_not_special: "is_digit c \<Longrightarrow> c \<noteq> CHR ''.'' \<and> c \<noteq> CHR ''-''"
  by (auto simp: is_digit_def)

lemma split_dot_digits:
  assumes "\<forall>c\<in>set a. is_digit c"
  shows "split_dot (a @ ''.'' @ f) = (a, Some f)"
proof -
  have "\<forall>c\<in>set a. c \<noteq> CHR ''.''" using assms digit_not_special by blast
  then show ?thesis by (simp add: split_dot_def takeWhile_append2 dropWhile_append2)
qed

lemma pad_all_digits: "k < 10 ^ n \<Longrightarrow> \<forall>c\<in>set (pad n k). is_digit c"
  using pad_digits by (metis in_set_conv_nth pad_length)

lemma cents_text_parts:
  "strip_minus (cents_text k) = (k < 0, nat_text (nat \<bar>k\<bar> div 100) @ ''.'' @ pad 2 (nat \<bar>k\<bar> mod 100))"
proof (cases "k < 0")
  case False
  obtain c r where c: "nat_text (nat \<bar>k\<bar> div 100) = c # r"
    using nat_text_nonempty by (cases "nat_text (nat \<bar>k\<bar> div 100)") auto
  then have "c \<noteq> CHR ''-''" using nat_text_digits [of "nat \<bar>k\<bar> div 100"] digit_not_special by auto
  then show ?thesis using False c by (simp add: cents_text_def strip_minus_def)
qed (simp add: cents_text_def strip_minus_def)

lemma cents_text_ok: "money_re (cents_text k)" "read_decimal (cents_text k) = of_int k / 100"
proof -
  let ?n = "nat \<bar>k\<bar>"
  note sp = split_dot_digits [OF nat_text_digits, of "?n div 100" "pad 2 (?n mod 100)"]
  show "money_re (cents_text k)"
    unfolding money_re_def cents_text_parts snd_conv sp
    using nat_text_nonempty nat_text_digits pad_all_digits [of "?n mod 100" 2] by simp
  have "number_of_digits (nat_text (?n div 100) @ pad 2 (?n mod 100)) = ?n div 100 * 100 + ?n mod 100"
    using number_fold [of "?n mod 100" 2] by (simp add: number_of_digits_append nat_text_value)
  then have n: "number_of_digits (nat_text (?n div 100) @ pad 2 (?n mod 100)) = ?n" by simp
  show "read_decimal (cents_text k) = of_int k / 100"
    unfolding read_decimal_def Let_def cents_text_parts case_prod_conv sp coalesce_simps n pad_length
    by (cases "k < 0") simp_all
qed

lemma rhu_floor: "of_int \<lfloor>round_half_up x\<rfloor> = round_half_up x"
  by (simp add: round_half_up_def)

interpretation dec20: decimal_arith dec20
proof
  show "money_re (cent_text dec20 x)" for x by (simp add: dec20_def cents_text_ok)
  show "text_value dec20 (cent_text dec20 x) = cent_round dec20 x" for x
    by (simp add: dec20_def cents_text_ok rhu_floor)
  show "is_cents (cent_round dec20 x)" for x
    by (simp add: dec20_def is_cents_def round_half_up_def)
  show "cent_round dec20 x = x" if "is_cents x" for x
    using that rhu_int by (auto simp: dec20_def is_cents_def elim!: Ints_cases)
  show "\<bar>cent_round dec20 x - x\<bar> \<le> 1 / 200" for x
    using rhu_near [of "x * 100"] by (simp add: dec20_def abs_le_iff field_simps)
  show "\<bar>fix8_round dec20 x - x\<bar> \<le> 1 / (2 * 10 ^ 8)" for x
    using rhu_near [of "x * 10 ^ 8"] by (simp add: dec20_def abs_le_iff field_simps)
  show "cent_round dec20 x \<le> cent_round dec20 y" if "x \<le> y" for x y
    using that rhu_mono [of "x * 100" "y * 100"] by (simp add: dec20_def divide_right_mono)
qed (auto simp: dec20_def round_sig_mono round_sig_pos round_sig_minus round_sig_cents,
     simp add: round_sig_def)

lemma dec20_arith: "decimal_arith dec20"
  by (rule dec20.decimal_arith_axioms)

end
