(* ===== verification/Calendar.thy ===== *)
theory Calendar
  imports JsDate
begin

text \<open>
  dayjs, the date package of the backend, as a parameter.  The backend process runs in UTC, so the
  locale dayjs_utc states the documented behaviour of the calls the program makes for a process
  whose local zone is UTC: startOf, diff (truncated to whole days), add with the end-of-month
  clamp, and format.  utc_dayjs is a calendar for which the laws are proved.
\<close>

record dayjs_lib =
  start_of_day :: "ms \<Rightarrow> ms"
  start_of_month :: "ms \<Rightarrow> ms"
  end_of_month :: "ms \<Rightarrow> ms"
  diff_day :: "ms \<Rightarrow> ms \<Rightarrow> int"
  add_day :: "ms \<Rightarrow> int \<Rightarrow> ms"
  add_month :: "ms \<Rightarrow> int \<Rightarrow> ms"
  add_year :: "ms \<Rightarrow> int \<Rightarrow> ms"
  fmt_month :: "ms \<Rightarrow> string"
  fmt_day :: "ms \<Rightarrow> string"

text \<open>Months counted from year 0, and the first instant of a month.\<close>

definition month_index :: "ms \<Rightarrow> int" where
  "month_index t = (case civil (t div MS_PER_DAY) of (y, m, dd) \<Rightarrow> 12 * y + m - 1)"

definition month_ms :: "int \<Rightarrow> ms" where
  "month_ms k = day_of_civil (k div 12) (k mod 12 + 1) 1 * MS_PER_DAY"

definition month_text :: "int \<Rightarrow> string" where
  "month_text k = pad 4 (nat (k div 12)) @ ''-'' @ pad 2 (nat (k mod 12 + 1))"

locale dayjs_utc =
  fixes K :: dayjs_lib
  assumes sod: "start_of_day K t = (t div MS_PER_DAY) * MS_PER_DAY"
    and diff: "diff_day K a b = (if b \<le> a then (a - b) div MS_PER_DAY else - ((b - a) div MS_PER_DAY))"
    and add_day: "add_day K t n = t + n * MS_PER_DAY"
    and som: "start_of_month K t = month_ms (month_index t)"
    and eom: "end_of_month K t = month_ms (month_index t + 1) - 1"
    and add_month_index: "month_index (add_month K t n) = month_index t + n"
    and add_month_start: "add_month K (month_ms k) n = month_ms (k + n)"
    and add_year_index: "month_index (add_year K t n) = month_index t + 12 * n"
    and fmt_day: "printable_day (t div MS_PER_DAY) \<Longrightarrow> fmt_day K t = iso_day t"
    and fmt_month: "printable_day (t div MS_PER_DAY) \<Longrightarrow> fmt_month K t = month_text (month_index t)"

section \<open>Months\<close>

lemma civil_of_civil:
  assumes "1 \<le> m" "m \<le> 12" "1 \<le> dd" "dd \<le> month_start (leap y) (m + 1) - month_start (leap y) m"
  shows "civil (day_of_civil y m dd) = (y, m, dd)"
proof -
  have "0 \<le> m - 1" "m - 1 < 12" using assms by linarith+
  note c = div_pos_pos_trivial [OF this] mod_pos_pos_trivial [OF this]
  let ?d = "days_before_year y + month_start (leap y) m + dd - 1"
  have d: "day_of_civil y m dd = ?d" by (simp only: day_of_civil_def Let_def c add_0_right diff_add_cancel)
  have "month_start (leap y) 1 \<le> month_start (leap y) m" "month_start (leap y) (m + 1) \<le> month_start (leap y) 13"
    using assms by (intro month_start_mono; linarith)+
  then have "days_before_year y \<le> ?d" "?d < days_before_year (y + 1)"
    using assms dby_step [of y] unfolding month_start_ends by linarith+
  then have y: "year_of_day ?d = y" by (rule year_of_day_eqI)
  have "month_of_doy (leap y) (?d - days_before_year y) = m"
    by (rule month_of_doy_eqI) (use assms in linarith)+
  then show ?thesis by (simp add: civil_def Let_def d y)
qed

lemma month_len_first: "1 \<le> m \<Longrightarrow> m \<le> 12 \<Longrightarrow> 1 \<le> month_start lp (m + 1) - month_start lp m"
  using month_len(1) [of m lp] by linarith

lemma month_mod_range: "1 \<le> (k::int) mod 12 + 1" "k mod 12 + 1 \<le> 12"
proof -
  have "0 \<le> k mod 12" "k mod 12 < 12" by (rule pos_mod_sign pos_mod_bound; simp)+
  then show "1 \<le> k mod 12 + 1" "k mod 12 + 1 \<le> 12" by linarith+
qed

lemma month_index_of_civil:
  assumes "civil d = (k div 12, k mod 12 + 1, dd)" "t div MS_PER_DAY = d"
  shows "month_index t = k"
proof -
  have "month_index t = 12 * (k div 12) + (k mod 12 + 1) - 1" using assms by (simp add: month_index_def)
  also have "\<dots> = k" by simp
  finally show ?thesis .
qed

lemma month_index_parts:
  assumes "civil d = (y, m, dd)"
  shows "(12 * y + m - 1) div 12 = y" "(12 * y + m - 1) mod 12 = m - 1"
proof -
  have m: "0 \<le> m - 1" "m - 1 < 12" using civil_range [OF assms] by linarith+
  have "12 * y + m - 1 = 12 * y + (m - 1)" by simp
  then show "(12 * y + m - 1) div 12 = y" using m by (rule int_div_pos_eq)
  show "(12 * y + m - 1) mod 12 = m - 1"
    using \<open>12 * y + m - 1 = 12 * y + (m - 1)\<close> m by (rule int_mod_pos_eq)
qed

lemma civil_month_first: "civil (day_of_civil (k div 12) (k mod 12 + 1) 1) = (k div 12, k mod 12 + 1, 1)"
  by (rule civil_of_civil) (rule month_mod_range month_len_first order_refl)+

lemma month_ms_index [simp]: "month_index (month_ms k) = k"
proof -
  show ?thesis using civil_month_first [of k] by (rule month_index_of_civil) (simp add: month_ms_def)
qed

lemma month_index_mono: "s \<le> t \<Longrightarrow> month_index s \<le> month_index t"
proof -
  assume st: "s \<le> t"
  obtain y m dd where c: "civil (s div MS_PER_DAY) = (y, m, dd)" by (cases "civil (s div MS_PER_DAY)")
  obtain y' m' dd' where c': "civil (t div MS_PER_DAY) = (y', m', dd')" by (cases "civil (t div MS_PER_DAY)")
  have "s div MS_PER_DAY \<le> t div MS_PER_DAY" using st by (simp add: zdiv_mono1)
  then consider "s div MS_PER_DAY = t div MS_PER_DAY" | "s div MS_PER_DAY < t div MS_PER_DAY" by linarith
  then show ?thesis
  proof cases
    case 1
    then show ?thesis by (simp add: month_index_def)
  next
    case 2
    note lex = civil_lex [OF 2 c c'] and r = civil_range [OF c] civil_range [OF c']
    have "y < y' \<or> y = y' \<and> m \<le> m'" using lex by auto
    then have "12 * y + m - 1 \<le> 12 * y' + m' - 1" using r by (elim disjE conjE) linarith+
    then show ?thesis by (simp add: month_index_def c c')
  qed
qed

lemma month_ms_le: "month_ms (month_index t) \<le> t"
proof -
  obtain y m dd where c: "civil (t div MS_PER_DAY) = (y, m, dd)" by (cases "civil (t div MS_PER_DAY)")
  have m: "0 \<le> m - 1" "m - 1 < 12" using civil_range [OF c] by linarith+
  note e = div_pos_pos_trivial [OF m] mod_pos_pos_trivial [OF m]
  have k: "month_index t = 12 * y + m - 1" by (simp add: month_index_def c)
  have "day_of_civil y m 1 \<le> day_of_civil y m dd"
    using civil_range [OF c] by (simp add: day_of_civil_def Let_def)
  then have "day_of_civil y m 1 \<le> t div MS_PER_DAY" using day_of_civil_civil [OF c] by simp
  then have "day_of_civil y m 1 * MS_PER_DAY \<le> t div MS_PER_DAY * MS_PER_DAY" by simp
  also have "\<dots> \<le> t" using div_mult_mod_eq [of t MS_PER_DAY] pos_mod_sign [of MS_PER_DAY t] MS_PER_DAY_pos
    by linarith
  finally show ?thesis by (simp add: month_ms_def k month_index_parts [OF c])
qed

lemma month_index_less_iff: "(month_index s < month_index t) = (s < month_ms (month_index t))"
proof
  assume "month_index s < month_index t"
  then show "s < month_ms (month_index t)"
    using month_index_mono [of "month_ms (month_index t)" s] by (cases "s < month_ms (month_index t)") auto
next
  assume s: "s < month_ms (month_index t)"
  show "month_index s < month_index t"
  proof (rule ccontr)
    assume "\<not> month_index s < month_index t"
    then have "month_index s = month_index t"
      using month_index_mono [of s t] s month_ms_le [of t] by linarith
    then show False using month_ms_le [of s] s by simp
  qed
qed

lemma month_ms_less: "i < j \<Longrightarrow> month_ms i < month_ms j"
  using month_index_less_iff [of "month_ms i" "month_ms j"] by simp

context dayjs_utc
begin

lemma add_month_later: "0 < n \<Longrightarrow> t < add_month K t n"
  using month_index_mono [of "add_month K t n" t] add_month_index [of t n] by (cases "t < add_month K t n") auto

lemma add_year_later: "0 < n \<Longrightarrow> t < add_year K t n"
  using month_index_mono [of "add_year K t n" t] add_year_index [of t n] by (cases "t < add_year K t n") auto

lemma in_month_iff:
  "(start_of_month K t \<le> u \<and> u \<le> end_of_month K t) = (month_index u = month_index t)"
proof -
  have "(u < month_ms (month_index t)) = (month_index u < month_index t)"
    by (simp add: month_index_less_iff)
  moreover have "(u < month_ms (month_index t + 1)) = (month_index u < month_index t + 1)"
    using month_index_less_iff [of u "month_ms (month_index t + 1)"] by simp
  ultimately show ?thesis unfolding som eom by linarith
qed

lemma diff_days_of_starts:
  "diff_day K (start_of_day K a) (start_of_day K b) = a div MS_PER_DAY - b div MS_PER_DAY"
proof -
  have "(a div MS_PER_DAY * MS_PER_DAY - b div MS_PER_DAY * MS_PER_DAY) = (a div MS_PER_DAY - b div MS_PER_DAY) * MS_PER_DAY"
    for a b :: int by (simp add: left_diff_distrib)
  then show ?thesis by (simp add: diff sod)
qed

end

section \<open>A UTC calendar\<close>

definition shift_months :: "ms \<Rightarrow> int \<Rightarrow> ms" where
  "shift_months t n =
     (case civil (t div MS_PER_DAY) of (y, m, dd) \<Rightarrow>
        let k = month_index t + n; y' = k div 12; m' = k mod 12 + 1
        in day_of_civil y' m' (min dd (month_start (leap y') (m' + 1) - month_start (leap y') m')) * MS_PER_DAY
           + t mod MS_PER_DAY)"

definition utc_dayjs :: dayjs_lib where
  "utc_dayjs = \<lparr> start_of_day = (\<lambda>t. (t div MS_PER_DAY) * MS_PER_DAY),
     start_of_month = (\<lambda>t. month_ms (month_index t)),
     end_of_month = (\<lambda>t. month_ms (month_index t + 1) - 1),
     diff_day = (\<lambda>a b. if b \<le> a then (a - b) div MS_PER_DAY else - ((b - a) div MS_PER_DAY)),
     add_day = (\<lambda>t n. t + n * MS_PER_DAY),
     add_month = shift_months,
     add_year = (\<lambda>t n. shift_months t (12 * n)),
     fmt_month = (\<lambda>t. month_text (month_index t)),
     fmt_day = iso_day \<rparr>"

lemma shift_months_index: "month_index (shift_months t n) = month_index t + n"
proof -
  obtain y m dd where c: "civil (t div MS_PER_DAY) = (y, m, dd)" by (cases "civil (t div MS_PER_DAY)")
  define k where "k = month_index t + n"
  define len where "len = month_start (leap (k div 12)) (k mod 12 + 1 + 1) - month_start (leap (k div 12)) (k mod 12 + 1)"
  have "1 \<le> len" unfolding len_def using month_mod_range [of k] by (intro month_len_first)
  then have "civil (day_of_civil (k div 12) (k mod 12 + 1) (min dd len)) = (k div 12, k mod 12 + 1, min dd len)"
    using month_mod_range [of k] civil_range [OF c] by (intro civil_of_civil) (auto simp: len_def)
  moreover have "shift_months t n = day_of_civil (k div 12) (k mod 12 + 1) (min dd len) * MS_PER_DAY + t mod MS_PER_DAY"
    by (simp only: shift_months_def c case_prod_conv Let_def k_def len_def)
  moreover have "(z * MS_PER_DAY + t mod MS_PER_DAY) div MS_PER_DAY = z" for z
    by (metis MS_PER_DAY_nz MS_PER_DAY_pos add.right_neutral div_mult_self3 mod_div_trivial)
  ultimately show ?thesis using month_index_of_civil unfolding k_def by metis
qed

lemma shift_months_start: "shift_months (month_ms k) n = month_ms (k + n)"
proof -
  have c: "civil (month_ms k div MS_PER_DAY) = (k div 12, k mod 12 + 1, 1)"
    using civil_month_first [of k] by (simp add: month_ms_def)
  have z: "month_ms k mod MS_PER_DAY = 0" by (simp add: month_ms_def)
  have "1 \<le> month_start lp (j mod 12 + 1 + 1) - month_start lp (j mod 12 + 1)" for j lp
    using month_mod_range [of j] by (intro month_len_first)
  then show ?thesis
    unfolding shift_months_def c case_prod_conv Let_def z month_ms_index month_ms_def [of "k + n"]
    by (simp only: min.absorb1 add_0_right)
qed

interpretation utc: dayjs_utc utc_dayjs
proof
qed (simp_all only: utc_dayjs_def dayjs_lib.simps shift_months_index shift_months_start)

lemma utc_dayjs_utc: "dayjs_utc utc_dayjs"
  by (rule utc.dayjs_utc_axioms)

end
