(* ===== verification/Money.thy ===== *)
theory Money
  imports Libs Calendar
begin

text \<open>
  The pure money rules of apps/backend/src/common: the monthly cost of a tariff (money.ts), the burn
  rate and the runway of a prepaid balance (runway.ts), the severity of an upcoming charge
  (billing-severity.ts) and the age of a missed one (overdue.ts).
\<close>

section \<open>Monthly cost\<close>

text \<open>Billing period of a service; Other_period is any other text found in the period column.\<close>

datatype period = Monthly | Yearly | Quarterly | Daily | Hourly | Onetime | Other_period string

definition HOURS_PER_MONTH :: rat where "HOURS_PER_MONTH = 730"

definition DAYS_PER_MONTH :: "decimal_lib \<Rightarrow> rat" where
  "DAYS_PER_MONTH D = ddiv D HOURS_PER_MONTH 24"

definition is_metered_period :: "period \<Rightarrow> bool" where
  "is_metered_period p = (p = Daily \<or> p = Hourly)"

fun monthly_cost :: "decimal_lib \<Rightarrow> rat \<Rightarrow> period \<Rightarrow> rat" where
  "monthly_cost D c Monthly = c"
| "monthly_cost D c Yearly = ddiv D c 12"
| "monthly_cost D c Quarterly = ddiv D c 3"
| "monthly_cost D c Daily = dmul D c (DAYS_PER_MONTH D)"
| "monthly_cost D c Hourly = dmul D c HOURS_PER_MONTH"
| "monthly_cost D c Onetime = 0"
| "monthly_cost D c (Other_period _) = 0"

context decimal_arith
begin

lemma DAYS_PER_MONTH_pos: "0 < DAYS_PER_MONTH D"
  by (simp add: DAYS_PER_MONTH_def ddiv_def HOURS_PER_MONTH_def sig_pos)

lemma monthly_cost_nonneg: "0 \<le> c \<Longrightarrow> 0 \<le> monthly_cost D c p"
  using DAYS_PER_MONTH_pos
  by (cases p) (auto simp: ddiv_def dmul_def HOURS_PER_MONTH_def intro!: sig_nonneg)

end

section \<open>Burn rate and runway\<close>

record snap_point =
  sp_balance :: rat
  sp_at :: ms

text \<open>One turn of the loop over consecutive snapshots: the sums spent and spanDays.\<close>

definition burn_step :: "decimal_lib \<Rightarrow> rat \<times> rat \<Rightarrow> snap_point \<times> snap_point \<Rightarrow> rat \<times> rat" where
  "burn_step D acc pc =
     (let (spent, span_days) = acc; (prev, cur) = pc; dt = sp_at cur - sp_at prev in
      if dt \<le> 0 then acc
      else let delta = dsub D (sp_balance prev) (sp_balance cur) in
        if delta < 0 then acc
        else (dadd D spent delta, dadd D span_days (num_quot D dt MS_PER_DAY)))"

definition consecutive :: "'a list \<Rightarrow> ('a \<times> 'a) list" where
  "consecutive xs = zip xs (tl xs)"

definition burn_from_snapshots :: "decimal_lib \<Rightarrow> snap_point list \<Rightarrow> rat \<Rightarrow> rat option" where
  "burn_from_snapshots D points min_span_days =
     (if length points < 2 then None
      else
        let sorted = sort_key sp_at points;
            (spent, span_days) = foldl (burn_step D) (0, 0) (consecutive sorted)
        in if span_days < min_span_days \<or> spent \<le> 0 then None else Some (ddiv D spent span_days))"

definition burn_from_monthly_cost :: "decimal_lib \<Rightarrow> rat \<Rightarrow> rat option" where
  "burn_from_monthly_cost D m = (if m \<le> 0 then None else Some (ddiv D m (DAYS_PER_MONTH D)))"

definition days_of_runway :: "decimal_lib \<Rightarrow> rat \<Rightarrow> rat \<Rightarrow> int" where
  "days_of_runway D balance burn_per_day =
     (if burn_per_day \<le> 0 \<or> balance \<le> 0 then 0 else \<lfloor>ddiv D balance burn_per_day\<rfloor>)"

text \<open>
  The specification in the comment of the source: only the intervals in which time passed and the
  balance did not rise count, for both sums.
\<close>

definition usable :: "decimal_lib \<Rightarrow> snap_point \<times> snap_point \<Rightarrow> bool" where
  "usable D pc = (sp_at (fst pc) < sp_at (snd pc) \<and> 0 \<le> dsub D (sp_balance (fst pc)) (sp_balance (snd pc)))"

definition declines :: "decimal_lib \<Rightarrow> (snap_point \<times> snap_point) list \<Rightarrow> rat list" where
  "declines D ps = map (\<lambda>pc. dsub D (sp_balance (fst pc)) (sp_balance (snd pc))) (filter (usable D) ps)"

definition elapsed :: "decimal_lib \<Rightarrow> (snap_point \<times> snap_point) list \<Rightarrow> rat list" where
  "elapsed D ps = map (\<lambda>pc. num_quot D (sp_at (snd pc) - sp_at (fst pc)) MS_PER_DAY) (filter (usable D) ps)"

lemma burn_fold:
  "foldl (burn_step D) (a, b) ps = (foldl (dadd D) a (declines D ps), foldl (dadd D) b (elapsed D ps))"
proof (induction ps arbitrary: a b)
  case (Cons pc ps)
  have "burn_step D (a, b) pc =
      (if usable D pc then (dadd D a (dsub D (sp_balance (fst pc)) (sp_balance (snd pc))),
          dadd D b (num_quot D (sp_at (snd pc) - sp_at (fst pc)) MS_PER_DAY)) else (a, b))"
    by (auto simp: burn_step_def usable_def Let_def split: prod.splits)
  then show ?case using Cons.IH by (auto simp: declines_def elapsed_def)
qed (simp add: declines_def elapsed_def)

context decimal_arith
begin

lemma dadd_fold_nonneg: "0 \<le> a \<Longrightarrow> (\<forall>x\<in>set xs. 0 \<le> x) \<Longrightarrow> 0 \<le> foldl (dadd D) a xs"
  by (induction xs arbitrary: a) (auto simp: dadd_def sig_nonneg)

lemma dadd_fold_pos: "0 < a \<Longrightarrow> (\<forall>x\<in>set xs. 0 \<le> x) \<Longrightarrow> 0 < foldl (dadd D) a xs"
  by (induction xs arbitrary: a) (auto simp: dadd_def sig_pos)

lemma elapsed_pos: "x \<in> set (elapsed D ps) \<Longrightarrow> 0 < x"
  by (auto simp: elapsed_def usable_def num_pos)

lemma span_pos: "elapsed D ps \<noteq> [] \<Longrightarrow> 0 < foldl (dadd D) 0 (elapsed D ps)"
proof (cases "elapsed D ps")
  case (Cons x xs)
  then have "0 < x" "\<forall>y\<in>set xs. 0 \<le> y" using elapsed_pos [of _ ps] by (auto intro: less_imp_le)
  then show ?thesis using Cons dadd_fold_pos [of "dadd D 0 x" xs] by (simp add: dadd_def sig_pos)
qed simp

lemma declines_nonempty: "0 < foldl (dadd D) 0 (declines D ps) \<Longrightarrow> elapsed D ps \<noteq> []"
  by (auto simp: declines_def elapsed_def)

lemma burn_Some_pos:
  assumes "burn_from_snapshots D ps m = Some b"
  shows "0 < b"
proof -
  let ?p = "consecutive (sort_key sp_at ps)"
  from assms have "0 < foldl (dadd D) 0 (declines D ?p)"
    and b: "b = ddiv D (foldl (dadd D) 0 (declines D ?p)) (foldl (dadd D) 0 (elapsed D ?p))"
    by (auto simp: burn_from_snapshots_def burn_fold Let_def split: if_splits)
  with span_pos [OF declines_nonempty] show ?thesis by (simp add: ddiv_def sig_pos)
qed

lemma runway_nonneg: "0 \<le> days_of_runway D x b"
  by (auto simp: days_of_runway_def ddiv_def intro!: sig_nonneg)

lemma runway_mono: "x \<le> y \<Longrightarrow> days_of_runway D x b \<le> days_of_runway D y b"
  by (auto simp: days_of_runway_def ddiv_def intro!: floor_mono sig_mono sig_nonneg divide_right_mono)

lemma runway_antimono: "0 < b \<Longrightarrow> b \<le> c \<Longrightarrow> days_of_runway D x c \<le> days_of_runway D x b"
  by (auto simp: days_of_runway_def ddiv_def intro!: floor_mono sig_mono divide_left_mono)

end

text \<open>The burn rate is the sum of the balance declines over the usable intervals (no rise, some time passed)
  divided by their length; it is absent exactly when there are fewer than two snapshots, less than the required span
  or no decline; it never divides by zero and is positive.\<close>

theorem burn_from_snapshots_spec:
  assumes "decimal_arith D"
  shows "let ps = consecutive (sort_key sp_at points);
             spent = foldl (dadd D) 0 (declines D ps); span = foldl (dadd D) 0 (elapsed D ps)
         in burn_from_snapshots D points m =
              (if length points < 2 \<or> span < m \<or> spent \<le> 0 then None else Some (ddiv D spent span)) \<and>
            (0 < spent \<longrightarrow> 0 < span) \<and>
            (\<forall>b. burn_from_snapshots D points m = Some b \<longrightarrow> 0 < b)"
  using decimal_arith.span_pos [OF assms] decimal_arith.declines_nonempty [OF assms]
    decimal_arith.burn_Some_pos [OF assms]
  by (simp add: Let_def burn_from_snapshots_def burn_fold)

text \<open>Three snapshots a day apart: 100, then a top-up to 150, then 120.  The burn is 30 a day.\<close>

definition sample_points :: "snap_point list" where
  "sample_points = [\<lparr>sp_balance = 120, sp_at = 2 * 86400000\<rparr>, \<lparr>sp_balance = 100, sp_at = 0\<rparr>,
     \<lparr>sp_balance = 150, sp_at = 86400000\<rparr>]"

lemma sample_burn: "burn_from_snapshots dec20 sample_points 1 = Some 30"
  by code_simp

lemma burn_from_snapshots_spec_witness: "burn_from_snapshots dec20 sample_points 1 = Some 30 \<and> 0 < (30::rat)"
  using burn_from_snapshots_spec [OF dec20_arith, of sample_points 1] sample_burn by (simp add: Let_def)

section \<open>Severity of an upcoming charge\<close>

datatype severity = Ok | Warning | Critical

text \<open>covered: None when the panel sees no balance for the account.\<close>

definition charge_severity :: "bool option \<Rightarrow> int \<Rightarrow> bool \<Rightarrow> severity" where
  "charge_severity covered days_until is_postpaid =
     (if covered = Some False \<and> days_until \<le> 7 then Critical
      else if covered = None \<and> \<not> is_postpaid \<and> days_until \<le> 7 then Critical
      else if covered = Some False \<or> days_until \<le> 3 then Warning
      else Ok)"

definition severity_rank :: "severity \<Rightarrow> nat" where
  "severity_rank s = (case s of Ok \<Rightarrow> 0 | Warning \<Rightarrow> 1 | Critical \<Rightarrow> 2)"

text \<open>A charge is critical exactly when it falls within seven days and its money is missing or, on a prepaid account,
  unknown; a warning exactly when it is not critical and is uncovered or due within three days; and coming closer, losing
  coverage or being prepaid never lowers the severity.\<close>

theorem charge_severity_spec:
  "((charge_severity c d p = Critical) = (d \<le> 7 \<and> (c = Some False \<or> c = None \<and> \<not> p))) \<and>
    ((charge_severity c d p = Warning) =
           (\<not> (d \<le> 7 \<and> (c = Some False \<or> c = None \<and> \<not> p)) \<and> (c = Some False \<or> d \<le> 3))) \<and>
    severity_rank (charge_severity c (max d e) p) \<le> severity_rank (charge_severity c d p) \<and>
    severity_rank (charge_severity c d p) \<le> severity_rank (charge_severity (Some False) d p) \<and>
    severity_rank (charge_severity (Some True) d p) \<le> severity_rank (charge_severity c d p) \<and>
    severity_rank (charge_severity c d True) \<le> severity_rank (charge_severity c d False)"
  by (auto simp: charge_severity_def severity_rank_def max_def)

section \<open>Missed charges\<close>

definition overdue_days :: "dayjs_lib \<Rightarrow> ms option \<Rightarrow> ms \<Rightarrow> int option" where
  "overdue_days K next_billing_at now =
     (case next_billing_at of
        None \<Rightarrow> None
      | Some due \<Rightarrow>
          let today = start_of_day K now in
          if \<not> due < today then None else Some (diff_day K today (start_of_day K due)))"

context dayjs_utc
begin

lemma overdue_days_calendar:
  "overdue_days K (Some due) now =
     (if due div MS_PER_DAY < now div MS_PER_DAY then Some (now div MS_PER_DAY - due div MS_PER_DAY) else None)"
  by (simp add: overdue_days_def Let_def diff_days_of_starts) (simp add: sod day_less_iff)

end

text \<open>A billing date is overdue exactly when its calendar day is before today, by the number of calendar days between
  them, which is at least one; no date is never overdue.\<close>

theorem overdue_days_spec:
  assumes "dayjs_utc K"
  shows "overdue_days K None now = None \<and>
    overdue_days K (Some due) now =
      (let n = now div MS_PER_DAY - due div MS_PER_DAY in if 1 \<le> n then Some n else None)"
  using dayjs_utc.overdue_days_calendar [OF assms, of due now]
  by (auto simp: Let_def overdue_days_def [of K None])

lemma overdue_days_spec_witness:
  "overdue_days utc_dayjs (Some 86399999) (86400000 * 2) = Some 2 \<and>
   overdue_days utc_dayjs (Some 86400000) (86400000 + 5) = None"
  using overdue_days_spec [OF utc_dayjs_utc, of "86400000 * 2" 86399999]
    overdue_days_spec [OF utc_dayjs_utc, of "86400000 + 5" 86400000]
  by (simp add: MS_PER_DAY_def)

end
