(* ===== verification/Schema.thy ===== *)
theory Schema
  imports Money
begin

text \<open>
  The tables of the panel (apps/backend/prisma/schema) and the repositories over them
  (apps/backend/src/repositories).  A table is the list of its rows in the order of insertion, a
  query the translation of its where clause, a write the changed database.  db_ok is what the
  keys and foreign keys of the schema require; the components that write to the database are shown
  to keep it, so the code never depends on the database refusing a write.
\<close>

section \<open>Errors of the HTTP layer\<close>

datatype http_error = Bad_request string | Unauthorized string | Forbidden string | Not_found string
  | Conflict string | Too_many_requests string | Internal_error string

section \<open>New identifiers\<close>

text \<open>uuid() of the database client: a name not in use.  A generator gets the names in use.\<close>

definition fresh_ids :: "(uuid list \<Rightarrow> uuid) \<Rightarrow> bool" where
  "fresh_ids G = (\<forall>us. G us \<notin> set us)"

definition longer_id :: "uuid list \<Rightarrow> uuid" where
  "longer_id us = replicate (Suc (sum_list (map length us))) (CHR ''f'')"

lemma longer_id_fresh: "fresh_ids longer_id"
proof -
  have "length u < length (longer_id us)" if "u \<in> set us" for u us
    using that member_le_sum_list [of "length u" "map length us"] by (simp add: longer_id_def less_Suc_eq_le)
  then show ?thesis unfolding fresh_ids_def by blast
qed

section \<open>JSON\<close>

datatype json = JNull | JBool bool | JNum rat | JStr string | JArr "json list" | JObj "(string \<times> json) list"

type_synonym json_obj = "(string \<times> json) list"

text \<open>String.trim, on the white space of the Latin-1 range.\<close>

definition js_space :: "char \<Rightarrow> bool" where
  "js_space c = ((of_char c :: nat) \<in> {9, 10, 11, 12, 13, 32, 160})"

definition trim_end :: "string \<Rightarrow> string" where
  "trim_end s = rev (dropWhile js_space (rev s))"

definition trim :: "string \<Rightarrow> string" where
  "trim s = trim_end (dropWhile js_space s)"

text \<open>String.toLowerCase, on the same range.\<close>

definition lower_char :: "char \<Rightarrow> char" where
  "lower_char c = (let n = (of_char c :: nat) in
     if 65 \<le> n \<and> n \<le> 90 \<or> 192 \<le> n \<and> n \<le> 222 \<and> n \<noteq> 215 then char_of (n + 32) else c)"

definition to_lower :: "string \<Rightarrow> string" where
  "to_lower s = map lower_char s"

text \<open>A letter of ASCII and a word character of a regular expression.\<close>

definition is_letter :: "char \<Rightarrow> bool" where
  "is_letter c = (let n = (of_char c :: nat) in 65 \<le> n \<and> n \<le> 90 \<or> 97 \<le> n \<and> n \<le> 122)"

definition is_word :: "char \<Rightarrow> bool" where
  "is_word c = (is_letter c \<or> is_digit c \<or> c = CHR ''_'')"

text \<open>typeof v === 'string' and v.trim() non-empty: the trimmed string, else null.\<close>

definition trimmed_string :: "json option \<Rightarrow> string option" where
  "trimmed_string v = (case v of Some (JStr s) \<Rightarrow> if trim s = [] then None else Some (trim s) | _ \<Rightarrow> None)"

section \<open>Rows\<close>

record provider =
  pv_uuid :: uuid
  pv_name :: string
  pv_kind :: string
  pv_favicon :: "string option"
  pv_login_url :: "string option"
  pv_icon_name :: "string option"
  pv_icon_bg :: "string option"

record account =
  ac_uuid :: uuid
  ac_provider :: uuid
  ac_label :: "string option"
  ac_credentials :: "string option"
  ac_enabled :: bool
  ac_postpaid :: bool
  ac_balance :: "rat option"
  ac_balance_ccy :: "ccy option"
  ac_balance_at :: "ms option"
  ac_last_sync :: "ms option"
  ac_last_error :: "string option"

record project =
  pj_uuid :: uuid
  pj_name :: string
  pj_favicon :: "string option"
  pj_icon_name :: "string option"
  pj_icon_bg :: "string option"

record service =
  sv_uuid :: uuid
  sv_provider :: uuid
  sv_account :: uuid
  sv_project :: uuid
  sv_name :: string
  sv_description :: "string option"
  sv_type :: string
  sv_external :: "string option"
  sv_country :: "string option"
  sv_cost :: rat
  sv_currency :: ccy
  sv_period :: period
  sv_next :: "ms option"
  sv_active :: bool
  sv_managed :: bool
  sv_cost_ov :: bool
  sv_name_ov :: bool
  sv_type_ov :: bool
  sv_active_ov :: bool
  sv_meta :: json_obj
  sv_created :: ms

datatype payment_type = Topup | Charge

record payment =
  pm_uuid :: uuid
  pm_provider :: uuid
  pm_account :: uuid
  pm_service :: "uuid option"
  pm_amount :: rat
  pm_currency :: ccy
  pm_description :: "string option"
  pm_date :: ms
  pm_type :: payment_type
  pm_external :: "string option"

record snapshot =
  sn_account :: uuid
  sn_balance :: rat
  sn_currency :: ccy
  sn_at :: ms

datatype sync_status = Running | SyncOk | SyncError

record sync_run =
  sr_id :: nat
  sr_account :: uuid
  sr_status :: sync_status
  sr_found :: int
  sr_error :: "string option"
  sr_started :: ms
  sr_finished :: "ms option"

record db =
  providers :: "provider list"
  accounts :: "account list"
  projects :: "project list"
  services :: "service list"
  payments :: "payment list"
  snapshots :: "snapshot list"
  sync_runs :: "sync_run list"

definition DEFAULT_PROJECT_UUID :: uuid where
  "DEFAULT_PROJECT_UUID = ''00000000-0000-0000-0000-000000000001''"

section \<open>Rows by key\<close>

definition row_find :: "('r \<Rightarrow> 'k) \<Rightarrow> 'k \<Rightarrow> 'r list \<Rightarrow> 'r option" where
  "row_find key k t = find (\<lambda>r. key r = k) t"

definition row_update :: "('r \<Rightarrow> 'k) \<Rightarrow> 'k \<Rightarrow> ('r \<Rightarrow> 'r) \<Rightarrow> 'r list \<Rightarrow> 'r list" where
  "row_update key k f t = map (\<lambda>r. if key r = k then f r else r) t"

definition rows_update :: "('r \<Rightarrow> bool) \<Rightarrow> ('r \<Rightarrow> 'r) \<Rightarrow> 'r list \<Rightarrow> 'r list" where
  "rows_update P f t = map (\<lambda>r. if P r then f r else r) t"

definition row_delete :: "('r \<Rightarrow> 'k) \<Rightarrow> 'k \<Rightarrow> 'r list \<Rightarrow> 'r list" where
  "row_delete key k t = filter (\<lambda>r. key r \<noteq> k) t"

lemma row_find_Some: "row_find key k t = Some r \<Longrightarrow> r \<in> set t \<and> key r = k"
  by (auto simp: row_find_def find_Some_iff)

lemma row_find_None: "(row_find key k t = None) = (k \<notin> key ` set t)"
  by (auto simp: row_find_def find_None_iff)

lemma row_find_mem: "distinct (map key t) \<Longrightarrow> r \<in> set t \<Longrightarrow> row_find key (key r) t = Some r"
  unfolding row_find_def by (induction t) auto

lemma row_update_keys [simp]: "(\<And>r. key (f r) = key r) \<Longrightarrow> map key (row_update key k f t) = map key t"
  by (simp add: row_update_def)

lemma row_update_map [simp]: "(\<And>r. g (f r) = g r) \<Longrightarrow> map g (row_update key k f t) = map g t"
  by (simp add: row_update_def)

lemma rows_update_map [simp]: "(\<And>r. g (f r) = g r) \<Longrightarrow> map g (rows_update P f t) = map g t"
  by (simp add: rows_update_def)

text \<open>
  The laws of a table under its key, stated once: an update or a delete touches the rows with the
  key and no other, a look-up sees the last write, and distinct keys stay distinct.
\<close>

locale keyed_table =
  fixes key :: "'r \<Rightarrow> 'k"
    and find_row :: "'k \<Rightarrow> 'r list \<Rightarrow> 'r option"
    and update_row :: "'k \<Rightarrow> ('r \<Rightarrow> 'r) \<Rightarrow> 'r list \<Rightarrow> 'r list"
    and delete_row :: "'k \<Rightarrow> 'r list \<Rightarrow> 'r list"
  assumes find_sound: "find_row k t = Some r \<Longrightarrow> r \<in> set t \<and> key r = k"
    and find_complete: "distinct (map key t) \<Longrightarrow> r \<in> set t \<Longrightarrow> find_row (key r) t = Some r"
    and find_missing: "(find_row k t = None) = (k \<notin> key ` set t)"
    and update_mem: "(r \<in> set (update_row k f t)) = (\<exists>x\<in>set t. r = (if key x = k then f x else x))"
    and update_order: "length (update_row k f t) = length t"
    and delete_mem: "(r \<in> set (delete_row k t)) = (r \<in> set t \<and> key r \<noteq> k)"
begin

lemma other_rows_kept: "r \<in> set t \<Longrightarrow> key r \<noteq> k \<Longrightarrow> r \<in> set (update_row k f t)"
  by (auto simp: update_mem)

lemma updated_row: "r \<in> set (update_row k f t) \<Longrightarrow> key r \<noteq> k \<Longrightarrow> (\<And>x. key (f x) = key x) \<Longrightarrow> r \<in> set t"
  by (auto simp: update_mem split: if_splits)

lemma updated_key: "find_row k t = Some r \<Longrightarrow> f r \<in> set (update_row k f t)"
  using find_sound [of k t r] by (auto simp: update_mem)

lemma deleted_gone: "find_row k (delete_row k t) = None"
  by (auto simp: find_missing delete_mem)

end

lemma row_update_image: "(\<And>r. g (f r) = g r) \<Longrightarrow> g ` set (row_update key k f t) = g ` set t"
  using row_update_map [of g f key k t] by (metis list.set_map)

lemma rows_update_image: "(\<And>r. g (f r) = g r) \<Longrightarrow> g ` set (rows_update P f t) = g ` set t"
  using rows_update_map [of g f P t] by (metis list.set_map)

lemma row_update_in: "x \<in> set t \<Longrightarrow> (if key x = k then f x else x) \<in> set (row_update key k f t)"
  unfolding row_update_def set_map by blast

lemma rows_update_in: "x \<in> set t \<Longrightarrow> (if P x then f x else x) \<in> set (rows_update P f t)"
  unfolding rows_update_def set_map by blast

lemma rows_update_mem:
  "(r \<in> set (rows_update P f t)) = (\<exists>x\<in>set t. r = (if P x then f x else x))"
  unfolding rows_update_def set_map image_iff by simp

lemma row_update_mem:
  "(r \<in> set (row_update key k f t)) = (\<exists>x\<in>set t. r = (if key x = k then f x else x))"
  unfolding row_update_def set_map image_iff by simp

lemma keyed_rows: "keyed_table key (row_find key) (row_update key) (row_delete key)"
proof
  show "(r \<in> set (row_update key k f t)) = (\<exists>x\<in>set t. r = (if key x = k then f x else x))" for r k f t
    by (rule row_update_mem)
qed (auto simp: row_find_None row_update_def row_delete_def row_find_mem dest: row_find_Some)

interpretation service_table: keyed_table sv_uuid "row_find sv_uuid" "row_update sv_uuid" "row_delete sv_uuid"
  by (rule keyed_rows)

interpretation account_table: keyed_table ac_uuid "row_find ac_uuid" "row_update ac_uuid" "row_delete ac_uuid"
  by (rule keyed_rows)

interpretation provider_table: keyed_table pv_uuid "row_find pv_uuid" "row_update pv_uuid" "row_delete pv_uuid"
  by (rule keyed_rows)

section \<open>Repositories\<close>

subsection \<open>provider-accounts.repository.ts\<close>

definition find_account :: "db \<Rightarrow> uuid \<Rightarrow> account option" where
  "find_account d u = row_find ac_uuid u (accounts d)"

definition find_provider :: "db \<Rightarrow> uuid \<Rightarrow> provider option" where
  "find_provider d u = row_find pv_uuid u (providers d)"

definition accounts_of :: "db \<Rightarrow> uuid \<Rightarrow> account list" where
  "accounts_of d pv = filter (\<lambda>a. ac_provider a = pv) (accounts d)"

definition list_syncable :: "db \<Rightarrow> account list" where
  "list_syncable d = filter (\<lambda>a. ac_enabled a \<and>
      (case find_provider d (ac_provider a) of None \<Rightarrow> False | Some p \<Rightarrow> pv_kind p \<noteq> ''manual'')) (accounts d)"

definition update_account :: "uuid \<Rightarrow> (account \<Rightarrow> account) \<Rightarrow> db \<Rightarrow> db" where
  "update_account u f d = d \<lparr> accounts := row_update ac_uuid u f (accounts d) \<rparr>"

definition update_balance :: "uuid \<Rightarrow> rat \<Rightarrow> ccy \<Rightarrow> ms \<Rightarrow> db \<Rightarrow> db" where
  "update_balance u bal cur now =
     update_account u (\<lambda>a. a \<lparr> ac_balance := Some bal, ac_balance_ccy := Some cur, ac_balance_at := Some now \<rparr>)"

definition mark_synced :: "uuid \<Rightarrow> ms \<Rightarrow> db \<Rightarrow> db" where
  "mark_synced u now = update_account u (\<lambda>a. a \<lparr> ac_last_sync := Some now, ac_last_error := None \<rparr>)"

definition record_sync_error :: "uuid \<Rightarrow> string \<Rightarrow> db \<Rightarrow> db" where
  "record_sync_error u msg = update_account u (\<lambda>a. a \<lparr> ac_last_error := Some msg \<rparr>)"

subsection \<open>sync-runs and balance-snapshots\<close>

definition next_run_id :: "db \<Rightarrow> nat" where
  "next_run_id d = foldl max 0 (map sr_id (sync_runs d)) + 1"

definition create_running :: "uuid \<Rightarrow> ms \<Rightarrow> db \<Rightarrow> nat \<times> db" where
  "create_running u now d =
     (let i = next_run_id d in
      (i, d \<lparr> sync_runs := sync_runs d @ [\<lparr> sr_id = i, sr_account = u, sr_status = Running, sr_found = 0,
              sr_error = None, sr_started = now, sr_finished = None \<rparr>] \<rparr>))"

definition mark_ok :: "nat \<Rightarrow> int \<Rightarrow> ms \<Rightarrow> db \<Rightarrow> db" where
  "mark_ok i found now d = d \<lparr> sync_runs := row_update sr_id i
     (\<lambda>r. r \<lparr> sr_status := SyncOk, sr_found := found, sr_finished := Some now \<rparr>) (sync_runs d) \<rparr>"

definition mark_error :: "nat \<Rightarrow> string \<Rightarrow> ms \<Rightarrow> db \<Rightarrow> db" where
  "mark_error i msg now d = d \<lparr> sync_runs := row_update sr_id i
     (\<lambda>r. r \<lparr> sr_status := SyncError, sr_error := Some msg, sr_finished := Some now \<rparr>) (sync_runs d) \<rparr>"

definition record_snapshot :: "uuid \<Rightarrow> rat \<Rightarrow> ccy \<Rightarrow> ms \<Rightarrow> db \<Rightarrow> db" where
  "record_snapshot u bal cur now d = d \<lparr> snapshots := snapshots d @
     [\<lparr> sn_account = u, sn_balance = bal, sn_currency = cur, sn_at = now \<rparr>] \<rparr>"

definition snapshots_since :: "db \<Rightarrow> ms \<Rightarrow> snapshot list" where
  "snapshots_since d from_t = sort_key sn_at (filter (\<lambda>s. from_t \<le> sn_at s) (snapshots d))"

definition snapshots_of :: "db \<Rightarrow> uuid \<Rightarrow> ms option \<Rightarrow> ms option \<Rightarrow> snapshot list" where
  "snapshots_of d u from_t to_t = sort_key sn_at (filter (\<lambda>s. sn_account s = u \<and>
     (case from_t of None \<Rightarrow> True | Some f \<Rightarrow> f \<le> sn_at s) \<and> (case to_t of None \<Rightarrow> True | Some t \<Rightarrow> sn_at s \<le> t))
     (snapshots d))"

definition last_snapshot_before :: "db \<Rightarrow> uuid \<Rightarrow> ms \<Rightarrow> snapshot option" where
  "last_snapshot_before d u before =
     (case sort_key (\<lambda>s. - sn_at s) (filter (\<lambda>s. sn_account s = u \<and> sn_at s < before) (snapshots d)) of
        [] \<Rightarrow> None | s # _ \<Rightarrow> Some s)"

subsection \<open>services.repository.ts\<close>

definition list_active :: "db \<Rightarrow> service list" where
  "list_active d = filter sv_active (services d)"

definition list_active_by_project :: "db \<Rightarrow> uuid \<Rightarrow> service list" where
  "list_active_by_project d pj = filter (\<lambda>s. sv_active s \<and> sv_project s = pj) (services d)"

definition list_active_billed :: "db \<Rightarrow> service list" where
  "list_active_billed d = filter (\<lambda>s. sv_active s \<and> sv_next s \<noteq> None) (services d)"

definition list_external_ids :: "db \<Rightarrow> uuid \<Rightarrow> (uuid \<times> string option) list" where
  "list_external_ids d u = map (\<lambda>s. (sv_uuid s, sv_external s)) (filter (\<lambda>s. sv_account s = u) (services d))"

definition find_service :: "db \<Rightarrow> uuid \<Rightarrow> service option" where
  "find_service d u = row_find sv_uuid u (services d)"

definition find_by_external :: "db \<Rightarrow> uuid \<Rightarrow> string \<Rightarrow> service option" where
  "find_by_external d acc ext = find (\<lambda>s. sv_account s = acc \<and> sv_external s = Some ext) (services d)"

definition create_service :: "service \<Rightarrow> db \<Rightarrow> db" where
  "create_service s d = d \<lparr> services := services d @ [s] \<rparr>"

definition update_service :: "uuid \<Rightarrow> (service \<Rightarrow> service) \<Rightarrow> db \<Rightarrow> db" where
  "update_service u f d = d \<lparr> services := row_update sv_uuid u f (services d) \<rparr>"

definition move_to_account :: "uuid \<Rightarrow> uuid \<Rightarrow> uuid \<Rightarrow> (service \<Rightarrow> service) \<Rightarrow> db \<Rightarrow> db" where
  "move_to_account u acc pv f d =
     (let d1 = d \<lparr> payments := rows_update (\<lambda>p. pm_service p = Some u)
                     (\<lambda>p. p \<lparr> pm_account := acc, pm_provider := pv \<rparr>) (payments d) \<rparr>
      in update_service u (\<lambda>s. (f s) \<lparr> sv_account := acc, sv_provider := pv \<rparr>) d1)"

text \<open>Deleting a service sets the link of its payments to null (onDelete: SetNull).\<close>

definition delete_service :: "uuid \<Rightarrow> db \<Rightarrow> db" where
  "delete_service u d = d \<lparr> services := row_delete sv_uuid u (services d),
     payments := rows_update (\<lambda>p. pm_service p = Some u) (\<lambda>p. p \<lparr> pm_service := None \<rparr>) (payments d) \<rparr>"

text \<open>NOT IN over an empty list is true; otherwise a null external id never matches it.\<close>

definition not_in_ids :: "string option \<Rightarrow> string list \<Rightarrow> bool" where
  "not_in_ids e seen = (seen = [] \<or> (case e of None \<Rightarrow> False | Some x \<Rightarrow> x \<notin> set seen))"

definition deactivate_missing :: "uuid \<Rightarrow> string list \<Rightarrow> db \<Rightarrow> db" where
  "deactivate_missing acc seen d = d \<lparr> services :=
     rows_update (\<lambda>s. sv_account s = acc \<and> sv_managed s \<and> not_in_ids (sv_external s) seen)
       (\<lambda>s. s \<lparr> sv_active := False \<rparr>) (services d) \<rparr>"

definition move_all_to_project :: "uuid \<Rightarrow> db \<Rightarrow> db \<times> nat" where
  "move_all_to_project pj d =
     (d \<lparr> services := rows_update (\<lambda>s. sv_project s \<noteq> pj) (\<lambda>s. s \<lparr> sv_project := pj \<rparr>) (services d) \<rparr>,
      length (filter (\<lambda>s. sv_project s \<noteq> pj) (services d)))"

definition move_project_services :: "uuid \<Rightarrow> uuid \<Rightarrow> db \<Rightarrow> db \<times> nat" where
  "move_project_services from_p to_p d =
     (d \<lparr> services := rows_update (\<lambda>s. sv_project s = from_p) (\<lambda>s. s \<lparr> sv_project := to_p \<rparr>) (services d) \<rparr>,
      length (filter (\<lambda>s. sv_project s = from_p) (services d)))"

subsection \<open>payments.repository.ts\<close>

definition payments_since :: "db \<Rightarrow> ms \<Rightarrow> payment list" where
  "payments_since d from_t = filter (\<lambda>p. from_t \<le> pm_date p) (payments d)"

definition accounts_with_topups :: "payment list \<Rightarrow> uuid set" where
  "accounts_with_topups ps = pm_account ` set (filter (\<lambda>p. pm_type p \<noteq> Charge) ps)"

definition charges_for_account :: "db \<Rightarrow> uuid \<Rightarrow> ms \<Rightarrow> ms \<Rightarrow> payment list" where
  "charges_for_account d u from_t to_t = filter (\<lambda>p. pm_account p = u \<and> pm_type p = Charge \<and>
     from_t \<le> pm_date p \<and> pm_date p < to_t) (payments d)"

definition first_charge_at :: "db \<Rightarrow> uuid \<Rightarrow> ms option" where
  "first_charge_at d u = (case sort_key pm_date (filter (\<lambda>p. pm_account p = u \<and> pm_type p = Charge) (payments d)) of
     [] \<Rightarrow> None | p # _ \<Rightarrow> Some (pm_date p))"

definition earliest_payment_dates :: "db \<Rightarrow> (uuid \<times> ms) list" where
  "earliest_payment_dates d = foldl (\<lambda>m p. mset_to (pm_account p)
     (case mget m (pm_account p) of None \<Rightarrow> pm_date p | Some t \<Rightarrow> min t (pm_date p)) m) [] (payments d)"

record external_payment =
  ep_amount :: rat
  ep_currency :: ccy
  ep_type :: payment_type
  ep_description :: "string option"
  ep_date :: ms
  ep_service :: "uuid option"

definition upsert_external :: "uuid \<Rightarrow> uuid \<Rightarrow> uuid \<Rightarrow> string \<Rightarrow> external_payment \<Rightarrow> db \<Rightarrow> db" where
  "upsert_external new_id acc pv ext e d =
     (if \<exists>p\<in>set (payments d). pm_account p = acc \<and> pm_external p = Some ext
      then d \<lparr> payments := rows_update (\<lambda>p. pm_account p = acc \<and> pm_external p = Some ext)
             (\<lambda>p. p \<lparr> pm_amount := ep_amount e, pm_currency := ep_currency e, pm_type := ep_type e,
                      pm_description := ep_description e, pm_date := ep_date e, pm_service := ep_service e \<rparr>)
             (payments d) \<rparr>
      else d \<lparr> payments := payments d @ [\<lparr> pm_uuid = new_id, pm_provider = pv, pm_account = acc,
             pm_service = ep_service e, pm_amount = ep_amount e, pm_currency = ep_currency e,
             pm_description = ep_description e, pm_date = ep_date e, pm_type = ep_type e,
             pm_external = Some ext \<rparr>] \<rparr>)"

definition create_payment :: "payment \<Rightarrow> db \<Rightarrow> db" where
  "create_payment p d = d \<lparr> payments := payments d @ [p] \<rparr>"

definition delete_payment :: "uuid \<Rightarrow> db \<Rightarrow> db" where
  "delete_payment u d = d \<lparr> payments := row_delete pm_uuid u (payments d) \<rparr>"

section \<open>Integrity\<close>

definition owner_pairs :: "db \<Rightarrow> (uuid \<times> uuid) set" where
  "owner_pairs d = (\<lambda>a. (ac_uuid a, ac_provider a)) ` set (accounts d)"

definition ext_keys :: "(uuid \<times> string option) list \<Rightarrow> (uuid \<times> string option) list" where
  "ext_keys ks = filter (\<lambda>k. snd k \<noteq> None) ks"

definition service_keys :: "db \<Rightarrow> (uuid \<times> string option) list" where
  "service_keys d = ext_keys (map (\<lambda>s. (sv_account s, sv_external s)) (services d))"

definition payment_keys :: "db \<Rightarrow> (uuid \<times> string option) list" where
  "payment_keys d = ext_keys (map (\<lambda>p. (pm_account p, pm_external p)) (payments d))"

text \<open>
  Primary keys, the unique (account, external id) indexes, and the foreign keys: an account has its
  provider; a service and a payment carry an (account, provider) pair that exists; a service has
  its project and a payment's service exists; the default project is there.
\<close>

definition services_ok :: "db \<Rightarrow> bool" where
  "services_ok d = (distinct (map sv_uuid (services d)) \<and> distinct (service_keys d) \<and>
     (\<forall>s\<in>set (services d). (sv_account s, sv_provider s) \<in> owner_pairs d \<and> sv_project s \<in> pj_uuid ` set (projects d)))"

definition payments_ok :: "db \<Rightarrow> bool" where
  "payments_ok d = (distinct (map pm_uuid (payments d)) \<and> distinct (payment_keys d) \<and>
     (\<forall>p\<in>set (payments d). (pm_account p, pm_provider p) \<in> owner_pairs d \<and>
        (\<forall>u. pm_service p = Some u \<longrightarrow> u \<in> sv_uuid ` set (services d))))"

definition accounts_ok :: "db \<Rightarrow> bool" where
  "accounts_ok d = (distinct (map pv_uuid (providers d)) \<and> distinct (map ac_uuid (accounts d)) \<and>
     distinct (map pj_uuid (projects d)) \<and> DEFAULT_PROJECT_UUID \<in> pj_uuid ` set (projects d) \<and>
     (\<forall>a\<in>set (accounts d). ac_provider a \<in> pv_uuid ` set (providers d)))"

definition db_ok :: "db \<Rightarrow> bool" where
  "db_ok d = (accounts_ok d \<and> services_ok d \<and> payments_ok d)"

lemma owner_pairs_cong: "map (\<lambda>a. (ac_uuid a, ac_provider a)) as = map (\<lambda>a. (ac_uuid a, ac_provider a)) (accounts d) \<Longrightarrow>
  owner_pairs (d \<lparr> accounts := as \<rparr>) = owner_pairs d"
  unfolding owner_pairs_def by simp (metis list.set_map)

lemma db_ok_accounts:
  assumes "db_ok d" and m: "map (\<lambda>a. (ac_uuid a, ac_provider a)) as = map (\<lambda>a. (ac_uuid a, ac_provider a)) (accounts d)"
  shows "db_ok (d \<lparr> accounts := as \<rparr>)"
proof -
  have "map ac_uuid as = map ac_uuid (accounts d)" "map ac_provider as = map ac_provider (accounts d)"
    using arg_cong [OF m, of "map fst"] arg_cong [OF m, of "map snd"] by (simp_all add: comp_def)
  moreover from this(2) have "ac_provider ` set as = ac_provider ` set (accounts d)" by (metis list.set_map)
  then have "\<forall>a\<in>set as. ac_provider a \<in> pv_uuid ` set (providers d)"
    using assms(1) unfolding db_ok_def accounts_ok_def by (metis image_eqI image_iff)
  ultimately show ?thesis
    using assms(1) owner_pairs_cong [OF m]
    by (auto simp: db_ok_def accounts_ok_def services_ok_def payments_ok_def service_keys_def payment_keys_def)
qed

lemma db_ok_snapshots [simp]: "db_ok (d \<lparr> snapshots := x \<rparr>) = db_ok d"
  by (simp add: db_ok_def accounts_ok_def services_ok_def payments_ok_def service_keys_def payment_keys_def owner_pairs_def)

lemma db_ok_sync_runs [simp]: "db_ok (d \<lparr> sync_runs := x \<rparr>) = db_ok d"
  by (simp add: db_ok_def accounts_ok_def services_ok_def payments_ok_def service_keys_def payment_keys_def owner_pairs_def)

definition service_id :: "service \<Rightarrow> uuid \<times> uuid \<times> uuid \<times> string option" where
  "service_id s = (sv_uuid s, sv_account s, sv_provider s, sv_external s)"

lemma db_ok_services_map:
  assumes "db_ok d" and m: "map service_id ss = map service_id (services d)"
    and pj: "sv_project ` set ss \<subseteq> pj_uuid ` set (projects d)"
  shows "db_ok (d \<lparr> services := ss \<rparr>)"
proof -
  have 1: "map sv_uuid ss = map sv_uuid (services d)"
    using arg_cong [OF m, of "map fst"] by (simp add: comp_def service_id_def)
  have 2: "map (\<lambda>s. (sv_account s, sv_external s)) ss = map (\<lambda>s. (sv_account s, sv_external s)) (services d)"
    using arg_cong [OF m, of "map (\<lambda>(a, b, c, e). (b, e))"] by (simp add: comp_def service_id_def)
  have 3: "(\<lambda>s. (sv_account s, sv_provider s)) ` set ss = (\<lambda>s. (sv_account s, sv_provider s)) ` set (services d)"
    using arg_cong [OF m, of "\<lambda>xs. (\<lambda>(a, b, c, e). (b, c)) ` set xs"] by (simp add: image_image service_id_def)
  have 4: "sv_uuid ` set ss = sv_uuid ` set (services d)" using 1 by (metis list.set_map)
  have "(\<lambda>s. (sv_account s, sv_provider s)) ` set (services d) \<subseteq> owner_pairs d"
    using assms(1) by (auto simp: db_ok_def services_ok_def)
  with 3 have "\<forall>s\<in>set ss. (sv_account s, sv_provider s) \<in> owner_pairs d" by blast
  then show ?thesis
    using assms(1) pj 1 2 4
    by (auto simp: db_ok_def accounts_ok_def services_ok_def payments_ok_def service_keys_def payment_keys_def owner_pairs_def)
qed

lemma db_ok_services_append:
  assumes "db_ok d" "sv_uuid s \<notin> sv_uuid ` set (services d)" "(sv_account s, sv_provider s) \<in> owner_pairs d"
    and "sv_project s \<in> pj_uuid ` set (projects d)"
    and "sv_external s \<noteq> None \<Longrightarrow> (sv_account s, sv_external s) \<notin> set (service_keys d)"
  shows "db_ok (create_service s d)"
  using assms
  by (auto simp: create_service_def db_ok_def accounts_ok_def services_ok_def payments_ok_def service_keys_def
      payment_keys_def owner_pairs_def ext_keys_def)

definition payment_id :: "payment \<Rightarrow> uuid \<times> uuid \<times> uuid \<times> string option" where
  "payment_id p = (pm_uuid p, pm_account p, pm_provider p, pm_external p)"

lemma db_ok_payments_map:
  assumes "db_ok d" and m: "map payment_id ps = map payment_id (payments d)"
    and sv: "\<forall>p\<in>set ps. \<forall>u. pm_service p = Some u \<longrightarrow> u \<in> sv_uuid ` set (services d)"
  shows "db_ok (d \<lparr> payments := ps \<rparr>)"
proof -
  have 1: "map pm_uuid ps = map pm_uuid (payments d)"
    using arg_cong [OF m, of "map fst"] by (simp add: comp_def payment_id_def)
  have 2: "map (\<lambda>s. (pm_account s, pm_external s)) ps = map (\<lambda>s. (pm_account s, pm_external s)) (payments d)"
    using arg_cong [OF m, of "map (\<lambda>(a, b, c, e). (b, e))"] by (simp add: comp_def payment_id_def)
  have 3: "(\<lambda>s. (pm_account s, pm_provider s)) ` set ps = (\<lambda>s. (pm_account s, pm_provider s)) ` set (payments d)"
    using arg_cong [OF m, of "\<lambda>xs. (\<lambda>(a, b, c, e). (b, c)) ` set xs"] by (simp add: image_image payment_id_def)
  have "(\<lambda>s. (pm_account s, pm_provider s)) ` set (payments d) \<subseteq> owner_pairs d"
    using assms(1) by (auto simp: db_ok_def payments_ok_def)
  with 3 have "\<forall>s\<in>set ps. (pm_account s, pm_provider s) \<in> owner_pairs d" by blast
  then show ?thesis
    using assms(1) sv 1 2
    by (auto simp: db_ok_def accounts_ok_def services_ok_def payments_ok_def service_keys_def payment_keys_def owner_pairs_def)
qed

lemma db_ok_payments_append:
  assumes "db_ok d" "pm_uuid p \<notin> pm_uuid ` set (payments d)" "(pm_account p, pm_provider p) \<in> owner_pairs d"
    and "\<forall>u. pm_service p = Some u \<longrightarrow> u \<in> sv_uuid ` set (services d)"
    and "pm_external p \<noteq> None \<Longrightarrow> (pm_account p, pm_external p) \<notin> set (payment_keys d)"
  shows "db_ok (create_payment p d)"
  using assms
  by (auto simp: create_payment_def db_ok_def accounts_ok_def services_ok_def payments_ok_def service_keys_def
      payment_keys_def owner_pairs_def ext_keys_def)

lemma find_account_owner: "find_account d u = Some a \<Longrightarrow> (ac_uuid a, ac_provider a) \<in> owner_pairs d \<and> ac_uuid a = u"
  using account_table.find_sound [of u "accounts d" a] by (auto simp: find_account_def owner_pairs_def)

lemma find_by_external_sound:
  "find_by_external d acc ext = Some s \<Longrightarrow> s \<in> set (services d) \<and> sv_account s = acc \<and> sv_external s = Some ext"
  by (auto simp: find_by_external_def find_Some_iff)

lemma find_by_external_none:
  "find_by_external d acc ext = None \<Longrightarrow> (acc, Some ext) \<notin> set (service_keys d)"
  by (auto simp: find_by_external_def find_None_iff service_keys_def ext_keys_def)

end
