(* ===== verification/Sync.thy ===== *)
theory Sync
  imports Schema
begin

text \<open>
  The synchronisation of provider accounts (apps/backend/src/sync/sync.service.ts): the upsert of
  services and payments, the run of one account with its retries and its error path, the batch runs
  and the timer.  What a connector answers is an argument: for every phase, the result of its n-th
  attempt, and whether the sync was aborted by then.
\<close>

section \<open>What a connector returns\<close>

text \<open>nextBilling?: Date | null.  An Invalid Date is Nb_date None.\<close>

datatype next_billing = Nb_undefined | Nb_null | Nb_date "ms option"

record service_data =
  sd_external :: string
  sd_name :: string
  sd_type :: string
  sd_country :: "string option"
  sd_cost :: "rat option"
  sd_currency :: "ccy option"
  sd_period :: "period option"
  sd_next :: next_billing
  sd_meta :: json_obj

record payment_data =
  pd_external :: string
  pd_type :: payment_type
  pd_amount :: rat
  pd_currency :: ccy
  pd_date :: "ms option"
  pd_description :: "string option"
  pd_service_external :: "string option"

record account_data =
  ad_balance :: "rat option"
  ad_currency :: ccy

text \<open>Inl is the message of a thrown error.\<close>

type_synonym 'a phase = "nat \<Rightarrow> string + 'a"

record connector =
  cn_favicon :: "(string + string option) option"
  cn_account :: "account_data phase"
  cn_services :: "service_data list phase"
  cn_payments :: "payment_data list phase option"
  cn_aborted :: "nat \<Rightarrow> bool"
  cn_aborted_at_end :: bool

record account_owner =
  ow_account :: uuid
  ow_provider :: uuid

section \<open>Retries\<close>

definition FETCH_ATTEMPTS :: nat where "FETCH_ATTEMPTS = 2"

function with_retry :: "(nat \<Rightarrow> bool) \<Rightarrow> 'a phase \<Rightarrow> nat \<Rightarrow> string + 'a" where
  "with_retry aborted fn attempt =
     (case fn attempt of
        Inr x \<Rightarrow> Inr x
      | Inl e \<Rightarrow> if FETCH_ATTEMPTS \<le> attempt \<or> aborted attempt then Inl e
                 else with_retry aborted fn (attempt + 1))"
  by pat_completeness auto
termination
  by (relation "measure (\<lambda>(aborted, fn, attempt). FETCH_ATTEMPTS - attempt)") auto

declare with_retry.simps [simp del]

section \<open>Services\<close>

definition period_text :: "period \<Rightarrow> string" where
  "period_text p = (case p of Monthly \<Rightarrow> ''monthly'' | Yearly \<Rightarrow> ''yearly'' | Quarterly \<Rightarrow> ''quarterly''
     | Daily \<Rightarrow> ''daily'' | Hourly \<Rightarrow> ''hourly'' | Onetime \<Rightarrow> ''onetime'' | Other_period s \<Rightarrow> s)"

text \<open>Whether the owner's vendor differs from what the provider proposed.\<close>

definition vendor_overridden :: "string option \<Rightarrow> string option \<Rightarrow> string option \<Rightarrow> bool" where
  "vendor_overridden prev_vendor prev_synced incoming =
     (prev_vendor \<noteq> None \<and>
      (prev_synced \<noteq> None \<and> prev_vendor \<noteq> prev_synced \<or>
       prev_synced = None \<and> incoming \<noteq> None \<and> prev_vendor \<noteq> incoming))"

text \<open>The object spread {...m, k: v} and its conditional form ...(o ? {k: v} : {}).\<close>

definition put :: "string \<Rightarrow> json \<Rightarrow> json_obj \<Rightarrow> json_obj" where
  "put k v m = mset_to k v m"

definition put_opt :: "string \<Rightarrow> string option \<Rightarrow> json_obj \<Rightarrow> json_obj" where
  "put_opt k v m = (case v of None \<Rightarrow> m | Some s \<Rightarrow> put k (JStr s) m)"

definition truthy_opt :: "string option \<Rightarrow> string option" where
  "truthy_opt s = (if truthy s then s else None)"

definition synced_meta :: "decimal_lib \<Rightarrow> ccy \<Rightarrow> json_obj \<Rightarrow> service_data \<Rightarrow> json_obj" where
  "synced_meta D account_ccy prev sd =
     (let incoming = trimmed_string (mget (sd_meta sd) ''vendor'');
          prev_vendor = trimmed_string (mget prev ''vendor'');
          prev_synced = trimmed_string (mget prev ''syncedVendor'');
          m0 = sd_meta sd;
          m1 = put ''syncedName'' (JStr (sd_name sd)) m0;
          m2 = put ''syncedType'' (JStr (sd_type sd)) m1;
          m3 = put ''syncedCost'' (case sd_cost sd of None \<Rightarrow> JNull | Some c \<Rightarrow> JStr (cent_text D c)) m2;
          m4 = put_opt ''syncedPeriod'' (map_option period_text (sd_period sd)) m3;
          m5 = put ''syncedCurrency'' (JStr (coalesce (sd_currency sd) account_ccy)) m4;
          m6 = put_opt ''syncedCountry'' (truthy_opt (sd_country sd)) m5;
          m7 = put_opt ''syncedVendor'' incoming m6
      in if vendor_overridden prev_vendor prev_synced incoming then put_opt ''vendor'' prev_vendor m7 else m7)"

definition valid_next :: "next_billing \<Rightarrow> ms option" where
  "valid_next n = (case n of Nb_date (Some t) \<Rightarrow> Some t | _ \<Rightarrow> None)"

definition new_service :: "decimal_lib \<Rightarrow> uuid \<Rightarrow> account_owner \<Rightarrow> ccy \<Rightarrow> ms \<Rightarrow> service_data \<Rightarrow> service" where
  "new_service D new_id owner account_ccy now sd =
     \<lparr> sv_uuid = new_id, sv_provider = ow_provider owner, sv_account = ow_account owner,
       sv_project = DEFAULT_PROJECT_UUID, sv_name = sd_name sd, sv_description = None, sv_type = sd_type sd,
       sv_external = Some (sd_external sd), sv_country = Some (coalesce (sd_country sd) ''XX''),
       sv_cost = (case sd_cost sd of None \<Rightarrow> 0 | Some c \<Rightarrow> cent_round D c),
       sv_currency = coalesce (sd_currency sd) account_ccy, sv_period = coalesce (sd_period sd) Monthly,
       sv_next = valid_next (sd_next sd), sv_active = True, sv_managed = True, sv_cost_ov = False,
       sv_name_ov = False, sv_type_ov = False, sv_active_ov = False,
       sv_meta = synced_meta D account_ccy [] sd, sv_created = now \<rparr>"

definition refresh_service :: "decimal_lib \<Rightarrow> ccy \<Rightarrow> service_data \<Rightarrow> service \<Rightarrow> service" where
  "refresh_service D account_ccy sd s =
     (let s1 = s \<lparr> sv_meta := synced_meta D account_ccy (sv_meta s) sd \<rparr>;
          s2 = (if sv_active_ov s then s1 else s1 \<lparr> sv_active := True \<rparr>);
          s3 = (if sv_name_ov s then s2 else s2 \<lparr> sv_name := sd_name sd \<rparr>);
          s4 = (if sv_type_ov s then s3 else s3 \<lparr> sv_type := sd_type sd \<rparr>);
          s5 = (if truthy (sd_country sd) then s4 \<lparr> sv_country := sd_country sd \<rparr> else s4);
          s6 = (if sd_next sd \<noteq> Nb_undefined then s5 \<lparr> sv_next := valid_next (sd_next sd) \<rparr> else s5)
      in if sv_cost_ov s then s6
         else let s7 = (case sd_cost sd of None \<Rightarrow> s6 | Some c \<Rightarrow> s6 \<lparr> sv_cost := cent_round D c \<rparr>);
                  s8 = (case sd_period sd of None \<Rightarrow> s7 | Some p \<Rightarrow> s7 \<lparr> sv_period := p \<rparr>)
              in s8 \<lparr> sv_currency := coalesce (sd_currency sd) account_ccy \<rparr>)"

definition upsert_service :: "decimal_lib \<Rightarrow> (uuid list \<Rightarrow> uuid) \<Rightarrow> account_owner \<Rightarrow> ccy \<Rightarrow> ms \<Rightarrow> db \<Rightarrow> service_data \<Rightarrow> db" where
  "upsert_service D G owner account_ccy now d sd =
     (case find_by_external d (ow_account owner) (sd_external sd) of
        None \<Rightarrow> create_service (new_service D (G (map sv_uuid (services d))) owner account_ccy now sd) d
      | Some s \<Rightarrow> update_service (sv_uuid s) (refresh_service D account_ccy sd) d)"

definition upsert_services :: "decimal_lib \<Rightarrow> (uuid list \<Rightarrow> uuid) \<Rightarrow> account_owner \<Rightarrow> ccy \<Rightarrow> ms
  \<Rightarrow> service_data list \<Rightarrow> db \<Rightarrow> db \<times> int" where
  "upsert_services D G owner account_ccy now fetched d =
     (deactivate_missing (ow_account owner) (map sd_external fetched)
        (foldl (upsert_service D G owner account_ccy now) d fetched),
      int (length fetched))"

section \<open>Payments\<close>

definition service_by_external :: "db \<Rightarrow> uuid \<Rightarrow> (string \<times> uuid) list" where
  "service_by_external d acc =
     foldl (\<lambda>m (u, e). case e of None \<Rightarrow> m | Some x \<Rightarrow> if x = [] then m else mset_to x u m)
       [] (list_external_ids d acc)"

definition payment_link :: "(string \<times> uuid) list \<Rightarrow> payment_data \<Rightarrow> uuid option" where
  "payment_link m p = (case pd_service_external p of None \<Rightarrow> None
     | Some x \<Rightarrow> if x = [] then None else mget m x)"

text \<open>An upsert with an Invalid Date throws; the earlier ones stay.  True means every payment was stored.\<close>

fun upsert_all :: "decimal_lib \<Rightarrow> (uuid list \<Rightarrow> uuid) \<Rightarrow> account_owner \<Rightarrow> (string \<times> uuid) list
  \<Rightarrow> payment_data list \<Rightarrow> db \<Rightarrow> db \<times> bool" where
  "upsert_all D G owner m [] d = (d, True)"
| "upsert_all D G owner m (p # ps) d =
     (case pd_date p of
        None \<Rightarrow> (d, False)
      | Some t \<Rightarrow>
          upsert_all D G owner m ps
            (upsert_external (G (map pm_uuid (payments d))) (ow_account owner) (ow_provider owner) (pd_external p)
               \<lparr> ep_amount = cent_round D (pd_amount p), ep_currency = pd_currency p, ep_type = pd_type p,
                 ep_description = pd_description p, ep_date = t, ep_service = payment_link m p \<rparr> d))"

definition upsert_payments :: "decimal_lib \<Rightarrow> (uuid list \<Rightarrow> uuid) \<Rightarrow> account_owner \<Rightarrow> payment_data list \<Rightarrow> db
  \<Rightarrow> db \<times> bool" where
  "upsert_payments D G owner ps d =
     (if ps = [] then (d, True)
      else upsert_all D G owner (service_by_external d (ow_account owner)) ps d)"

section \<open>The run of one account\<close>

text \<open>The database, the providers whose icon cache is dropped, and the outcome.\<close>

record sync_env =
  se_decimal :: decimal_lib
  se_new_id :: "uuid list \<Rightarrow> uuid"
  se_decrypt :: "string \<Rightarrow> string + string"
  se_create :: "string \<Rightarrow> string \<Rightarrow> string + connector"
  se_now :: ms

definition sync_favicon :: "provider \<Rightarrow> connector \<Rightarrow> db \<Rightarrow> db \<times> uuid list" where
  "sync_favicon pv c d =
     (case cn_favicon c of
        Some (Inr (Some url)) \<Rightarrow>
          if url \<noteq> [] \<and> Some url \<noteq> pv_favicon pv
          then (d \<lparr> providers := row_update pv_uuid (pv_uuid pv) (\<lambda>p. p \<lparr> pv_favicon := Some url \<rparr>) (providers d) \<rparr>,
                [pv_uuid pv])
          else (d, [])
      | _ \<Rightarrow> (d, []))"

definition sync_balance :: "sync_env \<Rightarrow> uuid \<Rightarrow> account_data \<Rightarrow> db \<Rightarrow> db" where
  "sync_balance E acc remote d =
     (case ad_balance remote of
        None \<Rightarrow> d
      | Some b \<Rightarrow>
          let bal = cent_round (se_decimal E) b in
          record_snapshot acc bal (ad_currency remote) (se_now E)
            (update_balance acc bal (ad_currency remote) (se_now E) d))"

definition sync_payments :: "sync_env \<Rightarrow> account_owner \<Rightarrow> connector \<Rightarrow> db \<Rightarrow> db" where
  "sync_payments E owner c d =
     (case cn_payments c of
        None \<Rightarrow> d
      | Some fetch \<Rightarrow> (case with_retry (cn_aborted c) fetch 1 of
            Inl _ \<Rightarrow> d
          | Inr ps \<Rightarrow> fst (upsert_payments (se_decimal E) (se_new_id E) owner ps d)))"

text \<open>The try block: Inl is the message of the error that left it, with the database it leaves.\<close>

definition sync_try :: "sync_env \<Rightarrow> account \<Rightarrow> provider \<Rightarrow> db \<Rightarrow> db \<times> uuid list \<times> (string + int)" where
  "sync_try E a pv d =
     (case ac_credentials a of
        None \<Rightarrow> (d, [], Inl ''Account has no API token'')
      | Some enc \<Rightarrow>
     (case se_decrypt E enc of
        Inl e \<Rightarrow> (d, [], Inl e)
      | Inr token \<Rightarrow>
     (case se_create E (pv_kind pv) token of
        Inl e \<Rightarrow> (d, [], Inl e)
      | Inr c \<Rightarrow>
          let (d1, dropped) = sync_favicon pv c d;
              owner = \<lparr> ow_account = ac_uuid a, ow_provider = pv_uuid pv \<rparr>;
              timed_out = (\<lambda>e. if cn_aborted_at_end c then ''Sync timed out after 120s'' else e)
          in case with_retry (cn_aborted c) (cn_account c) 1 of
               Inl e \<Rightarrow> (d1, dropped, Inl (timed_out e))
             | Inr remote \<Rightarrow>
                 let d2 = sync_balance E (ac_uuid a) remote d1 in
                 case with_retry (cn_aborted c) (cn_services c) 1 of
                   Inl e \<Rightarrow> (d2, dropped, Inl (timed_out e))
                 | Inr fetched \<Rightarrow>
                     let (d3, found) = upsert_services (se_decimal E) (se_new_id E) owner (ad_currency remote)
                                         (se_now E) fetched d2
                     in (sync_payments E owner c d3, dropped, Inr found))))"

definition sync_account :: "sync_env \<Rightarrow> uuid \<Rightarrow> db \<Rightarrow> db \<times> uuid list \<times> (http_error + sync_status)" where
  "sync_account E acc d =
     (case find_account d acc of
        None \<Rightarrow> (d, [], Inl (Not_found ''Account not found''))
      | Some a \<Rightarrow>
     (case find_provider d (ac_provider a) of
        None \<Rightarrow> (d, [], Inl (Not_found ''Account not found''))
      | Some pv \<Rightarrow>
          if pv_kind pv = ''manual'' then (d, [], Inl (Bad_request ''Manual providers cannot be synced''))
          else if \<not> ac_enabled a then (d, [], Inl (Bad_request ''Account is disabled''))
          else
            let (run, d0) = create_running acc (se_now E) d;
                (d1, dropped, res) = sync_try E a pv d0
            in case res of
                 Inr found \<Rightarrow> (mark_ok run found (se_now E) (mark_synced acc (se_now E) d1), dropped, Inr SyncOk)
               | Inl msg \<Rightarrow> (mark_error run msg (se_now E) (record_sync_error acc msg d1), dropped, Inr SyncError)))"

section \<open>Batches and the timer\<close>

record sync_summary =
  sm_total :: nat
  sm_ok :: nat
  sm_failed :: nat

definition summarize :: "(http_error + sync_status) list \<Rightarrow> sync_summary" where
  "summarize results =
     (let ok = length (filter (\<lambda>r. r = Inr SyncOk) results)
      in \<lparr> sm_total = length results, sm_ok = ok, sm_failed = length results - ok \<rparr>)"

text \<open>The accounts one after the other; a failure is logged and the next one runs.  E gives each its environment.\<close>

fun sync_each :: "(uuid \<Rightarrow> sync_env) \<Rightarrow> uuid list \<Rightarrow> db \<Rightarrow> db \<times> (http_error + sync_status) list" where
  "sync_each E [] d = (d, [])"
| "sync_each E (u # us) d =
     (let (d1, _, r) = sync_account (E u) u d; (d2, rs) = sync_each E us d1 in (d2, r # rs))"

definition sync_all_providers :: "(uuid \<Rightarrow> sync_env) \<Rightarrow> db \<Rightarrow> db" where
  "sync_all_providers E d = fst (sync_each E (map ac_uuid (list_syncable d)) d)"

definition sync_all :: "(uuid \<Rightarrow> sync_env) \<Rightarrow> db \<Rightarrow> db \<times> sync_summary" where
  "sync_all E d = (let (d', rs) = sync_each E (map ac_uuid (list_syncable d)) d in (d', summarize rs))"

definition sync_provider :: "(uuid \<Rightarrow> sync_env) \<Rightarrow> uuid \<Rightarrow> db \<Rightarrow> db \<times> (http_error + sync_summary)" where
  "sync_provider E pv d =
     (case find_provider d pv of
        None \<Rightarrow> (d, Inl (Not_found ''Provider not found''))
      | Some p \<Rightarrow>
          if pv_kind p = ''manual'' then (d, Inl (Bad_request ''Manual providers cannot be synced''))
          else let enabled = filter ac_enabled (accounts_of d pv) in
            if enabled = [] then (d, Inl (Bad_request ''Provider is disabled''))
            else let (d', rs) = sync_each E (map ac_uuid enabled) d in (d', Inr (summarize rs)))"

text \<open>
  The timer: the configured interval in milliseconds, the period at which the runtime fires it, and the moment of the next
  run that is shown.  Node replaces a delay above 2147483647 (or below 1) by 1.
\<close>

record sync_timer =
  st_interval :: ms
  st_fires_every :: ms
  st_next_run :: "ms option"

definition timer_delay :: "ms \<Rightarrow> ms" where
  "timer_delay delay = (if 2147483647 < delay \<or> delay < 1 then 1 else delay)"

definition apply_interval :: "int \<Rightarrow> ms \<Rightarrow> sync_timer" where
  "apply_interval hours now =
     \<lparr> st_interval = hours * 3600000, st_fires_every = timer_delay (hours * 3600000), st_next_run = Some (now + hours * 3600000) \<rparr>"

definition on_module_init :: "int option \<Rightarrow> ms \<Rightarrow> sync_timer" where
  "on_module_init setting now = apply_interval (coalesce setting 6) now"

definition timer_tick :: "sync_timer \<Rightarrow> ms \<Rightarrow> sync_timer" where
  "timer_tick t now = t \<lparr> st_next_run := Some (now + st_interval t) \<rparr>"

section \<open>Retries\<close>

lemma with_retry_last: "with_retry aborted fn 2 = fn 2"
  by (subst with_retry.simps) (simp add: FETCH_ATTEMPTS_def split: sum.split)

text \<open>A phase is attempted at most twice, the second time only after a failure without an abort, and its result is
  that of the last attempt made.\<close>

theorem with_retry_spec:
  "with_retry aborted fn 1 =
     (case fn 1 of Inr x \<Rightarrow> Inr x | Inl e \<Rightarrow> if aborted 1 then Inl e else fn 2)"
  using with_retry_last [of aborted fn]
  by (subst with_retry.simps) (simp add: FETCH_ATTEMPTS_def numeral_2_eq_2 split: sum.split)

section \<open>The upsert of services keeps the database whole\<close>

lemma refresh_service_id [simp]: "service_id (refresh_service D c sd s) = service_id s"
  "sv_project (refresh_service D c sd s) = sv_project s"
  "sv_uuid (refresh_service D c sd s) = sv_uuid s"
  by (simp_all add: refresh_service_def service_id_def Let_def split: option.splits)

definition owner_ok :: "db \<Rightarrow> account_owner \<Rightarrow> bool" where
  "owner_ok d owner = ((ow_account owner, ow_provider owner) \<in> owner_pairs d)"

lemma update_service_ok:
  assumes "db_ok d" "\<And>s. service_id (f s) = service_id s" "\<And>s. sv_project (f s) = sv_project s"
  shows "db_ok (update_service u f d)"
proof -
  have "sv_project ` set (row_update sv_uuid u f (services d)) = sv_project ` set (services d)"
    by (rule row_update_image) (rule assms(3))
  moreover have "sv_project ` set (services d) \<subseteq> pj_uuid ` set (projects d)"
    using assms(1) by (auto simp: db_ok_def services_ok_def)
  ultimately show ?thesis
    unfolding update_service_def using row_update_map [of service_id f, OF assms(2)] assms(1)
    by (intro db_ok_services_map) auto
qed

lemma upsert_service_ok:
  assumes "db_ok d" "owner_ok d owner" "fresh_ids G"
  shows "db_ok (upsert_service D G owner c now d sd) \<and> owner_ok (upsert_service D G owner c now d sd) owner"
proof (cases "find_by_external d (ow_account owner) (sd_external sd)")
  case None
  have "G (map sv_uuid (services d)) \<notin> sv_uuid ` set (services d)"
    using assms(3) unfolding fresh_ids_def by (metis list.set_map)
  moreover have "DEFAULT_PROJECT_UUID \<in> pj_uuid ` set (projects d)"
    using assms(1) by (simp add: db_ok_def accounts_ok_def)
  ultimately have "db_ok (create_service (new_service D (G (map sv_uuid (services d))) owner c now sd) d)"
    using assms(1,2) find_by_external_none [OF None]
    by (intro db_ok_services_append) (simp_all add: new_service_def owner_ok_def)
  then show ?thesis using None assms(2)
    by (simp add: upsert_service_def owner_ok_def owner_pairs_def create_service_def)
next
  case (Some s)
  then show ?thesis using assms(1,2) update_service_ok
    by (simp add: upsert_service_def owner_ok_def owner_pairs_def update_service_def)
qed

lemma upsert_fold_ok:
  assumes "db_ok d" "owner_ok d owner" "fresh_ids G"
  shows "db_ok (foldl (upsert_service D G owner c now) d fs) \<and>
    owner_ok (foldl (upsert_service D G owner c now) d fs) owner"
proof (rule foldl_inv [where I = "\<lambda>d. db_ok d \<and> owner_ok d owner"])
  show "db_ok d \<and> owner_ok d owner" using assms by simp
qed (use assms(3) upsert_service_ok in blast)

lemma deactivate_ok: "db_ok d \<Longrightarrow> db_ok (deactivate_missing acc seen d)"
proof -
  assume ok: "db_ok d"
  let ?ss = "rows_update (\<lambda>s. sv_account s = acc \<and> sv_managed s \<and> not_in_ids (sv_external s) seen)
       (\<lambda>s. s \<lparr> sv_active := False \<rparr>) (services d)"
  have "sv_project ` set ?ss = sv_project ` set (services d)" by (rule rows_update_image) simp
  then show ?thesis unfolding deactivate_missing_def
    using ok by (intro db_ok_services_map) (auto simp: service_id_def db_ok_def services_ok_def)
qed

lemma upsert_services_ok:
  assumes "db_ok d" "owner_ok d owner" "fresh_ids G"
  shows "db_ok (fst (upsert_services D G owner c now fs d))"
    and "owner_ok (fst (upsert_services D G owner c now fs d)) owner"
  using upsert_fold_ok [OF assms] deactivate_ok
  by (auto simp: upsert_services_def owner_ok_def owner_pairs_def deactivate_missing_def)

section \<open>What a sync never changes\<close>

text \<open>The fields of a service no sync changes, the ones the owner pinned, and a switch-off that stays.\<close>

definition kept :: "service \<Rightarrow> service \<Rightarrow> bool" where
  "kept s s' = (service_id s' = service_id s \<and> sv_project s' = sv_project s \<and> sv_description s' = sv_description s \<and>
     sv_managed s' = sv_managed s \<and> sv_created s' = sv_created s \<and>
     sv_cost_ov s' = sv_cost_ov s \<and> sv_name_ov s' = sv_name_ov s \<and> sv_type_ov s' = sv_type_ov s \<and>
     sv_active_ov s' = sv_active_ov s \<and>
     (sv_name_ov s \<longrightarrow> sv_name s' = sv_name s) \<and> (sv_type_ov s \<longrightarrow> sv_type s' = sv_type s) \<and>
     (sv_cost_ov s \<longrightarrow> sv_cost s' = sv_cost s \<and> sv_currency s' = sv_currency s \<and> sv_period s' = sv_period s) \<and>
     (sv_active_ov s \<and> \<not> sv_active s \<longrightarrow> \<not> sv_active s'))"

lemma kept_refl: "kept s s"
  by (simp add: kept_def)

lemma kept_trans: "kept a b \<Longrightarrow> kept b c \<Longrightarrow> kept a c"
  by (auto simp: kept_def)

lemma refresh_kept: "kept s (refresh_service D c sd s)"
  by (auto simp: kept_def refresh_service_def service_id_def Let_def split: option.splits)

lemma upsert_service_kept:
  assumes "s \<in> set (services d)"
  shows "\<exists>s'\<in>set (services (upsert_service D G owner c now d sd)). kept s s'"
proof (cases "find_by_external d (ow_account owner) (sd_external sd)")
  case None
  then show ?thesis using assms kept_refl by (auto simp: upsert_service_def create_service_def)
next
  case (Some x)
  have "kept s (if sv_uuid s = sv_uuid x then refresh_service D c sd s else s)"
    using kept_refl refresh_kept by simp
  then show ?thesis using Some row_update_in [OF assms, of sv_uuid "sv_uuid x" "refresh_service D c sd"]
    unfolding upsert_service_def update_service_def by (auto intro!: bexI)
qed

lemma upsert_fold_kept:
  assumes "s \<in> set (services d)"
  shows "\<exists>s'\<in>set (services (foldl (upsert_service D G owner c now) d fs)). kept s s'"
  using assms
proof (induction fs arbitrary: d s)
  case (Cons f fs)
  obtain s1 where "s1 \<in> set (services (upsert_service D G owner c now d f))" "kept s s1"
    using upsert_service_kept [OF Cons.prems] by blast
  moreover from Cons.IH [OF this(1)] obtain s2
    where "s2 \<in> set (services (foldl (upsert_service D G owner c now) (upsert_service D G owner c now d f) fs))" "kept s1 s2"
    by blast
  ultimately show ?case using kept_trans by (auto intro!: bexI [of _ s2])
qed (use kept_refl in auto)

lemma deactivate_kept:
  assumes "s \<in> set (services d)"
  shows "\<exists>s'\<in>set (services (deactivate_missing acc seen d)). kept s s'"
proof -
  let ?P = "\<lambda>s. sv_account s = acc \<and> sv_managed s \<and> not_in_ids (sv_external s) seen"
  have "kept s (if ?P s then s \<lparr> sv_active := False \<rparr> else s)" by (simp add: kept_def service_id_def)
  then show ?thesis unfolding deactivate_missing_def
    using rows_update_in [OF assms, of ?P "\<lambda>s. s \<lparr> sv_active := False \<rparr>"] by (auto intro!: bexI)
qed

lemma upsert_service_other:
  assumes "s \<in> set (services d)" "sv_account s \<noteq> ow_account owner \<or> sv_external s = None" "distinct (map sv_uuid (services d))"
  shows "s \<in> set (services (upsert_service D G owner c now d sd))"
proof (cases "find_by_external d (ow_account owner) (sd_external sd)")
  case None
  then show ?thesis using assms by (simp add: upsert_service_def create_service_def)
next
  case (Some x)
  have "sv_uuid s \<noteq> sv_uuid x"
    using find_by_external_sound [OF Some] assms unfolding distinct_map inj_on_def by (metis option.distinct(1))
  then show ?thesis using Some assms service_table.other_rows_kept by (simp add: upsert_service_def update_service_def)
qed

lemma upsert_fold_other:
  assumes "s \<in> set (services d)" "sv_account s \<noteq> ow_account owner \<or> sv_external s = None"
    and "db_ok d" "owner_ok d owner" "fresh_ids G"
  shows "s \<in> set (services (foldl (upsert_service D G owner c now) d fs))"
  using assms
proof (induction fs arbitrary: d)
  case (Cons f fs)
  have "distinct (map sv_uuid (services d))" using Cons.prems(3) by (simp add: db_ok_def services_ok_def)
  then have "s \<in> set (services (upsert_service D G owner c now d f))"
    using upsert_service_other [OF Cons.prems(1,2)] by blast
  then show ?case using Cons.IH [OF _ Cons.prems(2)] upsert_service_ok [OF Cons.prems(3-5)] Cons.prems(5) by simp
qed simp

text \<open>C1. A sync deletes no service and keeps of each the identity, the project, the note and the flags; a name, a type
  or a price (cost, currency and period) that the owner pinned stays as it was, and a service the owner switched off
  stays off; manual services and the services of other accounts are not touched at all.\<close>

theorem sync_keeps_owner_edits:
  assumes "db_ok d" "owner_ok d owner" "fresh_ids G" "s \<in> set (services d)"
  shows "(\<exists>s'\<in>set (services (fst (upsert_services D G owner c now fs d))). kept s s') \<and>
    (sv_account s \<noteq> ow_account owner \<or> \<not> sv_managed s \<and> sv_external s = None \<longrightarrow>
       s \<in> set (services (fst (upsert_services D G owner c now fs d))))"
proof -
  let ?d = "foldl (upsert_service D G owner c now) d fs"
  obtain s1 where s1: "s1 \<in> set (services ?d)" "kept s s1" using upsert_fold_kept [OF assms(4)] by blast
  obtain s2 where "s2 \<in> set (services (fst (upsert_services D G owner c now fs d)))" "kept s1 s2"
    using deactivate_kept [OF s1(1)] by (auto simp: upsert_services_def)
  then have "\<exists>s'\<in>set (services (fst (upsert_services D G owner c now fs d))). kept s s'"
    using kept_trans [OF s1(2)] by blast
  moreover have "s \<in> set (services (fst (upsert_services D G owner c now fs d)))"
    if "sv_account s \<noteq> ow_account owner \<or> \<not> sv_managed s \<and> sv_external s = None"
  proof -
    have "s \<in> set (services ?d)" using that upsert_fold_other [OF assms(4) _ assms(1-3)] by blast
    then show ?thesis using that by (force simp: upsert_services_def deactivate_missing_def rows_update_def)
  qed
  ultimately show ?thesis by blast
qed

definition sample_service :: service where
  "sample_service = \<lparr> sv_uuid = ''s1'', sv_provider = ''p1'', sv_account = ''a1'', sv_project = DEFAULT_PROJECT_UUID,
     sv_name = ''mine'', sv_description = None, sv_type = ''vps'', sv_external = Some ''e1'', sv_country = Some ''DE'',
     sv_cost = 5, sv_currency = ''EUR'', sv_period = Monthly, sv_next = None, sv_active = True, sv_managed = True,
     sv_cost_ov = False, sv_name_ov = True, sv_type_ov = False, sv_active_ov = False,
     sv_meta = [(''marker'', JStr ''star''), (''vendor'', JStr ''acme'')], sv_created = 0 \<rparr>"

definition sample_account :: account where
  "sample_account = \<lparr> ac_uuid = ''a1'', ac_provider = ''p1'', ac_label = None, ac_credentials = Some ''enc'',
     ac_enabled = True, ac_postpaid = False, ac_balance = None, ac_balance_ccy = None, ac_balance_at = None,
     ac_last_sync = None, ac_last_error = Some ''old'' \<rparr>"

definition sample_db :: db where
  "sample_db = \<lparr> providers = [\<lparr> pv_uuid = ''p1'', pv_name = ''Host'', pv_kind = ''hetzner'', pv_favicon = None,
       pv_login_url = None, pv_icon_name = None, pv_icon_bg = None \<rparr>],
     accounts = [sample_account],
     projects = [\<lparr> pj_uuid = DEFAULT_PROJECT_UUID, pj_name = ''Main'', pj_favicon = None, pj_icon_name = None,
       pj_icon_bg = None \<rparr>],
     services = [sample_service],
     payments = [\<lparr> pm_uuid = ''m1'', pm_provider = ''p1'', pm_account = ''a1'', pm_service = Some ''s1'', pm_amount = 3,
       pm_currency = ''EUR'', pm_description = None, pm_date = 0, pm_type = Topup, pm_external = None \<rparr>],
     snapshots = [], sync_runs = [] \<rparr>"

definition sample_owner :: account_owner where
  "sample_owner = \<lparr> ow_account = ''a1'', ow_provider = ''p1'' \<rparr>"

definition sample_fetched :: service_data where
  "sample_fetched = \<lparr> sd_external = ''e1'', sd_name = ''theirs'', sd_type = ''vps'', sd_country = None, sd_cost = Some 7,
     sd_currency = None, sd_period = None, sd_next = Nb_undefined, sd_meta = [] \<rparr>"

lemma sample_db_ok: "db_ok sample_db"
  by (simp add: db_ok_def accounts_ok_def services_ok_def payments_ok_def service_keys_def payment_keys_def
      ext_keys_def owner_pairs_def sample_db_def sample_service_def sample_account_def)

lemma sample_owner_ok: "owner_ok sample_db sample_owner"
  by (simp add: owner_ok_def owner_pairs_def sample_db_def sample_owner_def sample_account_def)

lemma sync_keeps_owner_edits_witness:
  "\<exists>s'\<in>set (services (fst (upsert_services dec20 longer_id sample_owner ''EUR'' 9 [sample_fetched] sample_db))).
     sv_uuid s' = ''s1'' \<and> sv_name s' = ''mine''"
proof -
  have "sample_service \<in> set (services sample_db)" by (simp add: sample_db_def)
  from sync_keeps_owner_edits [OF sample_db_ok sample_owner_ok longer_id_fresh this]
  obtain s' where "s' \<in> set (services (fst (upsert_services dec20 longer_id sample_owner ''EUR'' 9 [sample_fetched] sample_db)))"
    "kept sample_service s'" by blast
  then show ?thesis by (auto simp: kept_def service_id_def sample_service_def intro!: bexI [of _ s'])
qed

section \<open>Activity follows the provider\<close>

definition fetched_active :: "uuid \<Rightarrow> string list \<Rightarrow> db \<Rightarrow> bool" where
  "fetched_active acc ids d = (\<forall>s\<in>set (services d). sv_account s = acc \<longrightarrow> sv_managed s \<longrightarrow>
     (\<exists>x\<in>set ids. sv_external s = Some x) \<longrightarrow> \<not> sv_active_ov s \<longrightarrow> sv_active s)"

lemma ext_key_unique:
  assumes "db_ok d" "s \<in> set (services d)" "t \<in> set (services d)" "sv_account s = sv_account t"
    and "sv_external s = Some x" "sv_external t = Some x"
  shows "s = t"
proof -
  have "ext_keys (map (\<lambda>s. (sv_account s, sv_external s)) ss) =
      map (\<lambda>s. (sv_account s, sv_external s)) (filter (\<lambda>s. sv_external s \<noteq> None) ss)" for ss
    by (induction ss) (auto simp: ext_keys_def)
  then have "distinct (map (\<lambda>s. (sv_account s, sv_external s)) (filter (\<lambda>s. sv_external s \<noteq> None) (services d)))"
    using assms(1) unfolding db_ok_def services_ok_def service_keys_def by metis
  then have "inj_on (\<lambda>s. (sv_account s, sv_external s)) (set (filter (\<lambda>s. sv_external s \<noteq> None) (services d)))"
    unfolding distinct_map by blast
  then show ?thesis using assms(2-6) by (auto simp: inj_on_def)
qed

lemma upsert_service_active:
  assumes "db_ok d" "fetched_active (ow_account owner) ids d"
  shows "fetched_active (ow_account owner) (ids @ [sd_external sd]) (upsert_service D G owner c now d sd)"
proof (cases "find_by_external d (ow_account owner) (sd_external sd)")
  case None
  then have "sv_external s \<noteq> Some (sd_external sd)" if "s \<in> set (services d)" "sv_account s = ow_account owner" for s
    using that by (auto simp: find_by_external_def find_None_iff)
  then show ?thesis using None assms(2)
    by (auto simp: fetched_active_def upsert_service_def create_service_def new_service_def)
next
  case (Some x)
  note x = find_by_external_sound [OF Some]
  have dist: "distinct (map sv_uuid (services d))" using assms(1) by (simp add: db_ok_def services_ok_def)
  have act: "\<not> sv_active_ov (refresh_service D c sd s) \<Longrightarrow> sv_active (refresh_service D c sd s)" for s
    by (auto simp: refresh_service_def Let_def split: option.splits if_splits)
  show ?thesis
    unfolding fetched_active_def upsert_service_def Some option.case update_service_def
  proof (intro ballI impI)
    fix r assume r: "r \<in> set (services (d\<lparr>services := row_update sv_uuid (sv_uuid x) (refresh_service D c sd) (services d)\<rparr>))"
      and acc: "sv_account r = ow_account owner" and man: "sv_managed r"
      and ids: "\<exists>y\<in>set (ids @ [sd_external sd]). sv_external r = Some y" and ov: "\<not> sv_active_ov r"
    obtain s where s: "s \<in> set (services d)" "r = (if sv_uuid s = sv_uuid x then refresh_service D c sd s else s)"
      using r by (auto simp: row_update_mem)
    show "sv_active r"
    proof (cases "sv_uuid s = sv_uuid x")
      case True
      then show ?thesis using act ov s(2) by simp
    next
      case False
      then have "r = s" "s \<noteq> x" using s(2) by auto
      then have "sv_external s \<noteq> Some (sd_external sd)"
        using ext_key_unique [OF assms(1) s(1), of x "sd_external sd"] x acc by auto
      then show ?thesis using assms(2) s(1) acc man ids ov \<open>r = s\<close> by (auto simp: fetched_active_def)
    qed
  qed
qed

lemma upsert_fold_active:
  assumes "db_ok d" "owner_ok d owner" "fresh_ids G" "fetched_active (ow_account owner) ids d"
  shows "fetched_active (ow_account owner) (ids @ map sd_external fs) (foldl (upsert_service D G owner c now) d fs)"
  using assms
proof (induction fs arbitrary: d ids)
  case (Cons f fs)
  show ?case
    using Cons.IH [of "upsert_service D G owner c now d f" "ids @ [sd_external f]"]
      upsert_service_ok [OF Cons.prems(1-3)] upsert_service_active [OF Cons.prems(1,4)] Cons.prems(3) by simp
qed simp

text \<open>After the upsert a synced service of the account is active when the provider returned it and the owner has not
  switched it off, and inactive when the provider no longer returns it.\<close>

theorem sync_activity:
  assumes "db_ok d" "owner_ok d owner" "fresh_ids G"
    and "s \<in> set (services (fst (upsert_services D G owner c now fs d)))"
    and "sv_account s = ow_account owner" "sv_managed s" "sv_external s = Some x"
  shows "(x \<in> sd_external ` set fs \<and> \<not> sv_active_ov s \<longrightarrow> sv_active s) \<and>
    (x \<notin> sd_external ` set fs \<longrightarrow> \<not> sv_active s)"
proof -
  let ?d = "foldl (upsert_service D G owner c now) d fs"
  let ?P = "\<lambda>s. sv_account s = ow_account owner \<and> sv_managed s \<and> not_in_ids (sv_external s) (map sd_external fs)"
  have fa: "fetched_active (ow_account owner) (map sd_external fs) ?d"
    using upsert_fold_active [OF assms(1-3), of "[]" fs] by (simp add: fetched_active_def)
  obtain t where t: "t \<in> set (services ?d)" "s = (if ?P t then t \<lparr> sv_active := False \<rparr> else t)"
    using assms(4) by (auto simp: upsert_services_def deactivate_missing_def rows_update_mem)
  have e: "sv_external t = Some x" "sv_account t = ow_account owner" "sv_managed t" "sv_active_ov t = sv_active_ov s"
  proof -
    have "sv_external s = sv_external t" "sv_account s = sv_account t" "sv_managed s = sv_managed t"
      "sv_active_ov s = sv_active_ov t" unfolding t(2) by simp_all
    then show "sv_external t = Some x" "sv_account t = ow_account owner" "sv_managed t" "sv_active_ov t = sv_active_ov s"
      using assms(5-7) by simp_all
  qed
  then have P: "?P t = (x \<notin> sd_external ` set fs)" by (auto simp: not_in_ids_def)
  show ?thesis
  proof (cases "x \<in> sd_external ` set fs")
    case True
    then have "s = t" using t(2) P by simp
    moreover have "\<exists>y\<in>set (map sd_external fs). sv_external t = Some y" using True e(1) by auto
    then have "sv_active t" if "\<not> sv_active_ov t"
      using fa t(1) e(2,3) that unfolding fetched_active_def by blast
    ultimately show ?thesis using True by simp
  next
    case False
    then have "s = t \<lparr> sv_active := False \<rparr>" using t(2) P by simp
    then show ?thesis using False by simp
  qed
qed

lemma sync_activity_witness:
  "map sv_active (services (fst (upsert_services dec20 longer_id sample_owner ''EUR'' 9 [] sample_db))) = [False]"
proof -
  have l: "services (fst (upsert_services dec20 longer_id sample_owner ''EUR'' 9 [] sample_db)) =
      [sample_service \<lparr> sv_active := False \<rparr>]"
    by (simp add: upsert_services_def deactivate_missing_def rows_update_def sample_db_def sample_service_def
        sample_owner_def not_in_ids_def)
  have "sample_service \<lparr> sv_active := False \<rparr> \<in> set (services (fst (upsert_services dec20 longer_id sample_owner ''EUR'' 9 [] sample_db)))"
    by (simp add: l)
  from sync_activity [OF sample_db_ok sample_owner_ok longer_id_fresh this, of "''e1''"]
  show ?thesis unfolding l by (simp add: sample_service_def sample_owner_def)
qed

section \<open>Free-form fields of the owner\<close>

lemma mget_put: "mget (put k v m) j = (if j = k then Some v else mget m j)"
  by (simp add: put_def)

lemma mget_put_opt: "j \<noteq> k \<Longrightarrow> mget (put_opt k v m) j = mget m j"
  by (cases v) (simp_all add: put_opt_def mget_put)

text \<open>Of the display fields the owner may set on a service (vendor, marker and marker colour) a sync keeps only a
  vendor that differs from a proposal of the provider: the marker and its colour become what the connector sent,
  nothing in practice, and so does a vendor when neither this sync nor the last one proposed one.\<close>

theorem sync_meta_fields:
  shows "mget (sv_meta (refresh_service D c sd s)) ''marker'' = mget (sd_meta sd) ''marker'' \<and>
    mget (sv_meta (refresh_service D c sd s)) ''markerBg'' = mget (sd_meta sd) ''markerBg'' \<and>
    mget (sv_meta (refresh_service D c sd s)) ''vendor'' =
      (let pv = trimmed_string (mget (sv_meta s) ''vendor'') in
       if vendor_overridden pv (trimmed_string (mget (sv_meta s) ''syncedVendor''))
            (trimmed_string (mget (sd_meta sd) ''vendor''))
       then map_option JStr pv else mget (sd_meta sd) ''vendor'') \<and>
    \<not> vendor_overridden pv None None"
proof -
  have m: "sv_meta (refresh_service D c sd s) = synced_meta D c (sv_meta s) sd"
    by (simp add: refresh_service_def Let_def split: option.splits)
  have v: "map_option JStr pv = mget (put_opt ''vendor'' pv m) ''vendor''" if "pv \<noteq> None" for pv m
    using that by (auto simp: put_opt_def mget_put)
  show ?thesis
    unfolding m synced_meta_def Let_def
    by (auto simp: mget_put mget_put_opt vendor_overridden_def put_opt_def split: option.splits)
qed

section \<open>Payments\<close>

definition external_of :: "decimal_lib \<Rightarrow> (string \<times> uuid) list \<Rightarrow> payment_data \<Rightarrow> ms \<Rightarrow> external_payment" where
  "external_of D m p t = \<lparr> ep_amount = cent_round D (pd_amount p), ep_currency = pd_currency p,
     ep_type = pd_type p, ep_description = pd_description p, ep_date = t, ep_service = payment_link m p \<rparr>"

definition write_payment :: "external_payment \<Rightarrow> payment \<Rightarrow> payment" where
  "write_payment e p = p \<lparr> pm_amount := ep_amount e, pm_currency := ep_currency e, pm_type := ep_type e,
     pm_description := ep_description e, pm_date := ep_date e, pm_service := ep_service e \<rparr>"

definition ext_hit :: "uuid \<Rightarrow> string \<Rightarrow> payment \<Rightarrow> bool" where
  "ext_hit acc ext p = (pm_account p = acc \<and> pm_external p = Some ext)"

text \<open>The payment is stored with exactly these values.\<close>

definition stored :: "uuid \<Rightarrow> string \<Rightarrow> external_payment \<Rightarrow> db \<Rightarrow> bool" where
  "stored acc ext e d = ((\<exists>p\<in>set (payments d). ext_hit acc ext p) \<and>
     (\<forall>p\<in>set (payments d). ext_hit acc ext p \<longrightarrow> write_payment e p = p))"

lemma write_twice: "write_payment e (write_payment e p) = write_payment e p"
  by (simp add: write_payment_def)

lemma write_payment_ids [simp]: "payment_id (write_payment e p) = payment_id p"
  "ext_hit acc ext (write_payment e p) = ext_hit acc ext p"
  by (simp_all add: write_payment_def payment_id_def ext_hit_def)

definition fresh_payment :: "uuid \<Rightarrow> uuid \<Rightarrow> uuid \<Rightarrow> string \<Rightarrow> external_payment \<Rightarrow> payment" where
  "fresh_payment i acc pv ext e = \<lparr> pm_uuid = i, pm_provider = pv, pm_account = acc, pm_service = ep_service e,
     pm_amount = ep_amount e, pm_currency = ep_currency e, pm_description = ep_description e,
     pm_date = ep_date e, pm_type = ep_type e, pm_external = Some ext \<rparr>"

lemma fresh_payment_hit [simp]: "ext_hit acc ext' (fresh_payment i acc pv ext e) = (ext' = ext)"
  "write_payment e (fresh_payment i acc pv ext e) = fresh_payment i acc pv ext e"
  by (auto simp: fresh_payment_def ext_hit_def write_payment_def)

lemma upsert_external_eq:
  "upsert_external i acc pv ext e d =
     (if \<exists>p\<in>set (payments d). ext_hit acc ext p
      then d \<lparr> payments := rows_update (ext_hit acc ext) (write_payment e) (payments d) \<rparr>
      else create_payment (fresh_payment i acc pv ext e) d)"
  unfolding upsert_external_def write_payment_def [abs_def] create_payment_def ext_hit_def [abs_def] fresh_payment_def
  by (rule refl)

lemma upsert_external_cases:
  obtains (update) "\<exists>p\<in>set (payments d). ext_hit acc ext p"
      "upsert_external i acc pv ext e d = d \<lparr> payments := rows_update (ext_hit acc ext) (write_payment e) (payments d) \<rparr>"
  | (create) "\<forall>p\<in>set (payments d). \<not> ext_hit acc ext p"
      "upsert_external i acc pv ext e d = d \<lparr> payments := payments d @ [fresh_payment i acc pv ext e] \<rparr>"
  unfolding upsert_external_eq create_payment_def by (metis (no_types))

lemma upsert_external_stored: "stored acc ext e (upsert_external i acc pv ext e d)"
proof (cases rule: upsert_external_cases [of d acc ext i pv e])
  case update
  then obtain p where p: "p \<in> set (payments d)" "ext_hit acc ext p" by blast
  then have "write_payment e p \<in> set (rows_update (ext_hit acc ext) (write_payment e) (payments d))"
    using rows_update_in [of p "payments d" "ext_hit acc ext" "write_payment e"] by simp
  moreover have "ext_hit acc ext (write_payment e p)" using p(2) by simp
  ultimately have "\<exists>q\<in>set (rows_update (ext_hit acc ext) (write_payment e) (payments d)). ext_hit acc ext q" by blast
  moreover have "write_payment e q = q"
    if "q \<in> set (rows_update (ext_hit acc ext) (write_payment e) (payments d))" "ext_hit acc ext q" for q
    using that by (auto simp: rows_update_mem write_twice split: if_splits)
  ultimately show ?thesis unfolding update(2) stored_def by simp
next
  case create
  then show ?thesis unfolding create(2) stored_def by auto
qed

lemma ext_hit_other: "ext' \<noteq> ext \<Longrightarrow> ext_hit acc ext p \<Longrightarrow> \<not> ext_hit acc' ext' p"
  by (simp add: ext_hit_def)

lemma upsert_external_other:
  assumes st: "stored acc ext e d" and ne: "ext' \<noteq> ext"
  shows "stored acc ext e (upsert_external i acc pv ext' e' d)"
proof (cases rule: upsert_external_cases [of d acc ext' i pv e'])
  case update
  obtain p where p: "p \<in> set (payments d)" "ext_hit acc ext p" using st by (auto simp: stored_def)
  then have "p \<in> set (rows_update (ext_hit acc ext') (write_payment e') (payments d))"
    using rows_update_in [of p "payments d" "ext_hit acc ext'" "write_payment e'"] ext_hit_other [OF ne] by simp
  moreover have "write_payment e q = q"
    if "q \<in> set (rows_update (ext_hit acc ext') (write_payment e') (payments d))" "ext_hit acc ext q" for q
    using that st ext_hit_other [OF ne, of acc] by (auto simp: rows_update_mem stored_def split: if_splits)
  ultimately show ?thesis using p(2) unfolding update(2) stored_def by auto
next
  case create
  then show ?thesis using st ne unfolding create(2) stored_def by auto
qed

lemma upsert_external_again: "stored acc ext e d \<Longrightarrow> upsert_external i acc pv ext e d = d"
proof -
  assume st: "stored acc ext e d"
  then have "rows_update (ext_hit acc ext) (write_payment e) (payments d) = payments d"
    unfolding rows_update_def by (intro map_idI) (auto simp: stored_def)
  then show ?thesis using st by (simp add: upsert_external_eq stored_def)
qed

lemma upsert_external_keeps:
  assumes p: "p \<in> set (payments d)" "pm_account p \<noteq> acc \<or> pm_external p = None"
  shows "p \<in> set (payments (upsert_external i acc pv ext e d))"
proof -
  have "\<not> ext_hit acc ext p" using p(2) by (auto simp: ext_hit_def)
  then show ?thesis
    using rows_update_in [OF p(1), of "ext_hit acc ext" "write_payment e"] p(1)
    by (cases rule: upsert_external_cases [of d acc ext i pv e]) simp_all
qed

lemma upsert_external_services [simp]: "services (upsert_external i acc pv ext e d) = services d"
  by (simp add: upsert_external_eq create_payment_def)

lemma upsert_all_services: "services (fst (upsert_all D G owner m ps d)) = services d"
  by (induction D G owner m ps d rule: upsert_all.induct) (auto split: option.splits)

lemma upsert_all_keeps:
  "p \<in> set (payments d) \<Longrightarrow> pm_account p \<noteq> ow_account owner \<or> pm_external p = None \<Longrightarrow>
   p \<in> set (payments (fst (upsert_all D G owner m ps d)))"
  by (induction D G owner m ps d rule: upsert_all.induct)
     (auto simp: upsert_external_keeps split: option.splits)

lemma upsert_all_stored_other:
  "stored (ow_account owner) ext e d \<Longrightarrow> ext \<notin> pd_external ` set ps \<Longrightarrow>
   stored (ow_account owner) ext e (fst (upsert_all D G owner m ps d))"
  by (induction D G owner m ps d rule: upsert_all.induct)
     (auto simp: upsert_external_other split: option.splits)

definition all_stored :: "decimal_lib \<Rightarrow> uuid \<Rightarrow> (string \<times> uuid) list \<Rightarrow> payment_data list \<Rightarrow> db \<Rightarrow> bool" where
  "all_stored D acc m ps d = (\<forall>p\<in>set ps. \<exists>t. pd_date p = Some t \<and> stored acc (pd_external p) (external_of D m p t) d)"

lemma upsert_all_stored:
  "\<forall>p\<in>set ps. pd_date p \<noteq> None \<Longrightarrow> distinct (map pd_external ps) \<Longrightarrow>
   all_stored D (ow_account owner) m ps (fst (upsert_all D G owner m ps d)) \<and> snd (upsert_all D G owner m ps d)"
proof (induction ps arbitrary: d)
  case (Cons p ps)
  then obtain t where t: "pd_date p = Some t" by auto
  let ?d = "upsert_external (G (map pm_uuid (payments d))) (ow_account owner) (ow_provider owner) (pd_external p)
      (external_of D m p t) d"
  have eq: "upsert_all D G owner m (p # ps) d = upsert_all D G owner m ps ?d"
    using t by (simp add: external_of_def)
  have "stored (ow_account owner) (pd_external p) (external_of D m p t) (fst (upsert_all D G owner m ps ?d))"
    using Cons.prems(2) upsert_external_stored by (intro upsert_all_stored_other) auto
  then show ?case using Cons.IH [of ?d] Cons.prems t unfolding eq by (auto simp: all_stored_def)
qed (simp add: all_stored_def)

lemma upsert_all_again:
  "all_stored D (ow_account owner) m ps d \<Longrightarrow> upsert_all D G owner m ps d = (d, True)"
proof (induction ps)
  case (Cons p ps)
  then obtain t where t: "pd_date p = Some t" "stored (ow_account owner) (pd_external p) (external_of D m p t) d"
    by (auto simp: all_stored_def)
  then show ?case using Cons upsert_external_again by (simp add: all_stored_def external_of_def)
qed simp

text \<open>C23. Importing the ledger of an account is idempotent: with valid dates and distinct record ids, a second import of
  the same records leaves the database exactly as the first left it; no import changes or removes a manually entered
  payment or a payment of another account.\<close>

theorem upsert_payments_idempotent:
  assumes "\<forall>p\<in>set ps. pd_date p \<noteq> None" "distinct (map pd_external ps)"
  shows "upsert_payments D G owner ps (fst (upsert_payments D G owner ps d)) = (fst (upsert_payments D G owner ps d), True) \<and>
    (\<forall>p\<in>set (payments d). pm_account p \<noteq> ow_account owner \<or> pm_external p = None \<longrightarrow>
       p \<in> set (payments (fst (upsert_payments D G owner ps d))))"
proof (cases "ps = []")
  case False
  let ?m = "service_by_external d (ow_account owner)" and ?d = "fst (upsert_payments D G owner ps d)"
  have d: "?d = fst (upsert_all D G owner ?m ps d)" using False by (simp add: upsert_payments_def)
  have "service_by_external ?d (ow_account owner) = ?m"
    unfolding d by (simp add: service_by_external_def list_external_ids_def upsert_all_services)
  moreover have "all_stored D (ow_account owner) ?m ps ?d" unfolding d using upsert_all_stored [OF assms] by blast
  ultimately have "upsert_payments D G owner ps ?d = (?d, True)"
    using False upsert_all_again by (simp add: upsert_payments_def [of D G owner ps ?d])
  then show ?thesis using upsert_all_keeps d by metis
qed (simp add: upsert_payments_def)

definition sample_payment :: payment_data where
  "sample_payment = \<lparr> pd_external = ''x1'', pd_type = Charge, pd_amount = 2, pd_currency = ''EUR'', pd_date = Some 5,
     pd_description = None, pd_service_external = Some ''e1'' \<rparr>"

lemma upsert_payments_idempotent_witness:
  "snd (upsert_payments dec20 longer_id sample_owner [sample_payment]
     (fst (upsert_payments dec20 longer_id sample_owner [sample_payment] sample_db))) \<and>
   hd (payments sample_db) \<in> set (payments (fst (upsert_payments dec20 longer_id sample_owner [sample_payment] sample_db)))"
  using upsert_payments_idempotent [of "[sample_payment]" dec20 longer_id sample_owner sample_db]
  by (simp add: sample_payment_def) (simp add: sample_db_def)

lemma payment_link_mem:
  assumes "payment_link (service_by_external d acc) p = Some u"
  shows "u \<in> sv_uuid ` set (services d)"
proof -
  have "\<forall>k u. mget (foldl (\<lambda>m (u, e). case e of None \<Rightarrow> m | Some x \<Rightarrow> if x = [] then m else mset_to x u m) m0 xs) k = Some u \<longrightarrow>
      mget m0 k = Some u \<or> u \<in> fst ` set xs" for m0 :: "(string \<times> uuid) list" and xs :: "(uuid \<times> string option) list"
    by (induction xs arbitrary: m0) (fastforce split: option.splits if_splits)+
  from this [of "[]" "list_external_ids d acc"] show ?thesis
    using assms by (fastforce simp: payment_link_def service_by_external_def list_external_ids_def split: option.splits if_splits)
qed

lemma upsert_external_ok:
  assumes ok: "db_ok d" and o: "(acc, pv) \<in> owner_pairs d" and G: "i \<notin> pm_uuid ` set (payments d)"
    and l: "\<forall>u. ep_service e = Some u \<longrightarrow> u \<in> sv_uuid ` set (services d)"
  shows "db_ok (upsert_external i acc pv ext e d) \<and> owner_pairs (upsert_external i acc pv ext e d) = owner_pairs d"
proof (cases rule: upsert_external_cases [of d acc ext i pv e])
  case update
  let ?ps = "rows_update (ext_hit acc ext) (write_payment e) (payments d)"
  have "u \<in> sv_uuid ` set (services d)" if q: "q \<in> set ?ps" "pm_service q = Some u" for q u
  proof -
    obtain p where "p \<in> set (payments d)" "q = (if ext_hit acc ext p then write_payment e p else p)"
      using q(1) unfolding rows_update_mem by blast
    then show ?thesis using q(2) ok l
      by (cases "ext_hit acc ext p") (simp_all add: write_payment_def db_ok_def payments_ok_def)
  qed
  then have "db_ok (d \<lparr> payments := ?ps \<rparr>)"
    by (intro db_ok_payments_map [OF ok] rows_update_map) simp_all
  then show ?thesis unfolding update(2) by (simp add: owner_pairs_def)
next
  case create
  then have "(acc, Some ext) \<notin> set (payment_keys d)" by (auto simp: payment_keys_def ext_keys_def ext_hit_def)
  then have "db_ok (create_payment (fresh_payment i acc pv ext e) d)"
    using assms by (intro db_ok_payments_append) (simp_all add: fresh_payment_def)
  then show ?thesis unfolding create(2) by (simp add: create_payment_def owner_pairs_def)
qed

lemma upsert_all_ok:
  assumes "db_ok d" "owner_ok d owner" "fresh_ids G" "\<forall>p u. payment_link m p = Some u \<longrightarrow> u \<in> sv_uuid ` set (services d)"
  shows "db_ok (fst (upsert_all D G owner m ps d))"
  using assms
proof (induction ps arbitrary: d)
  case (Cons p ps)
  show ?case
  proof (cases "pd_date p")
    case (Some t)
    have "G (map pm_uuid (payments d)) \<notin> pm_uuid ` set (payments d)"
      using Cons.prems(3) unfolding fresh_ids_def by (metis list.set_map)
    then show ?thesis
      using Some Cons.prems upsert_external_ok [OF Cons.prems(1), of "ow_account owner" "ow_provider owner"]
        Cons.IH [of "upsert_external (G (map pm_uuid (payments d))) (ow_account owner) (ow_provider owner) (pd_external p)
          (external_of D m p t) d"]
      by (simp add: owner_ok_def external_of_def)
  qed (use Cons.prems in simp)
qed simp

lemma upsert_payments_ok:
  assumes "db_ok d" "owner_ok d owner" "fresh_ids G"
  shows "db_ok (fst (upsert_payments D G owner ps d))"
  using assms upsert_all_ok [OF assms, of "service_by_external d (ow_account owner)" D ps] payment_link_mem
  by (auto simp: upsert_payments_def)

section \<open>A whole run\<close>

lemma record_update_ok:
  "db_ok d \<Longrightarrow> db_ok (d \<lparr> snapshots := a \<rparr>) \<and> db_ok (d \<lparr> sync_runs := b \<rparr>)"
  by (simp add: db_ok_def accounts_ok_def services_ok_def payments_ok_def owner_pairs_def service_keys_def payment_keys_def)

lemma owner_pairs_simps [simp]:
  "owner_pairs (d \<lparr> snapshots := a \<rparr>) = owner_pairs d" "owner_pairs (d \<lparr> sync_runs := b \<rparr>) = owner_pairs d"
  "owner_pairs (d \<lparr> providers := c \<rparr>) = owner_pairs d"
  by (simp_all add: owner_pairs_def)

lemma update_account_pairs:
  "(\<And>a. ac_uuid (f a) = ac_uuid a) \<Longrightarrow> (\<And>a. ac_provider (f a) = ac_provider a) \<Longrightarrow>
   map (\<lambda>a. (ac_uuid a, ac_provider a)) (row_update ac_uuid u f (accounts d)) = map (\<lambda>a. (ac_uuid a, ac_provider a)) (accounts d)"
  by (rule row_update_map) simp

lemma update_account_ok:
  assumes "db_ok d" "\<And>a. ac_uuid (f a) = ac_uuid a" "\<And>a. ac_provider (f a) = ac_provider a"
  shows "db_ok (update_account u f d) \<and> owner_pairs (update_account u f d) = owner_pairs d"
  unfolding update_account_def
  using db_ok_accounts [OF assms(1) update_account_pairs [OF assms(2,3)]] owner_pairs_cong [OF update_account_pairs [OF assms(2,3)]]
  by simp

lemma db_ok_providers:
  assumes "db_ok d" "map pv_uuid ps = map pv_uuid (providers d)"
  shows "db_ok (d \<lparr> providers := ps \<rparr>)"
proof -
  have "pv_uuid ` set ps = pv_uuid ` set (providers d)" using assms(2) by (metis list.set_map)
  then show ?thesis using assms
    by (simp add: db_ok_def accounts_ok_def services_ok_def payments_ok_def owner_pairs_def service_keys_def payment_keys_def)
qed

definition sync_inv :: "account_owner \<Rightarrow> db \<Rightarrow> bool" where
  "sync_inv owner d = (db_ok d \<and> owner_ok d owner)"

lemma sync_favicon_inv: "sync_inv owner d \<Longrightarrow> sync_inv owner (fst (sync_favicon pv c d))"
proof -
  assume i: "sync_inv owner d"
  have "map pv_uuid (row_update pv_uuid u (\<lambda>p. p \<lparr> pv_favicon := x \<rparr>) (providers d)) = map pv_uuid (providers d)" for u x
    by (rule row_update_map) simp
  then show ?thesis using i db_ok_providers [of d]
    by (auto simp: sync_favicon_def sync_inv_def owner_ok_def split: option.splits sum.splits)
qed

lemma sync_balance_inv: "sync_inv owner d \<Longrightarrow> sync_inv owner (sync_balance E acc remote d)"
proof -
  assume i: "sync_inv owner d"
  have "sync_inv owner (record_snapshot acc b c t (update_balance acc b c t d))" for b c t
    using i update_account_ok [of d "\<lambda>a. a \<lparr> ac_balance := Some b, ac_balance_ccy := Some c, ac_balance_at := Some t \<rparr>" acc]
      record_update_ok
    by (simp add: sync_inv_def record_snapshot_def update_balance_def owner_ok_def)
  then show ?thesis using i by (simp add: sync_balance_def Let_def split: option.split)
qed

lemma upsert_all_inv:
  assumes "db_ok d" "owner_ok d owner" "fresh_ids G" "\<forall>p u. payment_link m p = Some u \<longrightarrow> u \<in> sv_uuid ` set (services d)"
  shows "owner_ok (fst (upsert_all D G owner m ps d)) owner"
proof -
  have "owner_pairs (fst (upsert_all D G owner m ps d)) = owner_pairs d"
    by (induction D G owner m ps d rule: upsert_all.induct)
       (auto simp: upsert_external_eq owner_pairs_def create_payment_def split: option.splits)
  then show ?thesis using assms(2) by (simp add: owner_ok_def)
qed

lemma sync_payments_ok: "sync_inv owner d \<Longrightarrow> fresh_ids (se_new_id E) \<Longrightarrow> db_ok (sync_payments E owner c d)"
  using upsert_payments_ok [of d owner "se_new_id E" "se_decimal E"]
  by (auto simp: sync_payments_def sync_inv_def split: option.splits sum.splits)

lemma sync_try_ok:
  assumes "sync_inv \<lparr> ow_account = ac_uuid a, ow_provider = pv_uuid pv \<rparr> d" "fresh_ids (se_new_id E)"
  shows "db_ok (fst (sync_try E a pv d))"
proof -
  let ?o = "\<lparr> ow_account = ac_uuid a, ow_provider = pv_uuid pv \<rparr>"
  have sv: "sync_inv ?o (fst (upsert_services D (se_new_id E) ?o cur now fs d'))" if "sync_inv ?o d'" for D cur now fs d'
    using that upsert_services_ok [of d' ?o "se_new_id E"] assms(2) by (simp add: sync_inv_def)
  show ?thesis
    using assms sync_favicon_inv [OF assms(1)] sync_balance_inv [OF sync_favicon_inv [OF assms(1)]]
      sync_payments_ok [OF sv [OF sync_balance_inv [OF sync_favicon_inv [OF assms(1)]]]]
    by (auto simp: sync_try_def Let_def sync_inv_def case_prod_beta split: option.splits sum.splits)
qed

lemma mark_ok_inv: "db_ok d \<Longrightarrow> db_ok (mark_ok run n t d) \<and> db_ok (mark_error run m t d)"
  using record_update_ok by (simp add: mark_ok_def mark_error_def)

lemma close_run_ok: "db_ok d \<Longrightarrow> db_ok (mark_ok run n t (mark_synced acc t d)) \<and>
    db_ok (mark_error run m t (record_sync_error acc m d))"
  unfolding mark_synced_def record_sync_error_def by (intro conjI mark_ok_inv [THEN conjunct1]
      mark_ok_inv [THEN conjunct2] update_account_ok [THEN conjunct1]) simp_all

section \<open>The outcome of a run\<close>

lemma foldl_max_ge: "(m :: nat) \<le> foldl max m xs \<and> (\<forall>x\<in>set xs. x \<le> foldl max m xs)"
proof (induction xs arbitrary: m)
  case (Cons x xs)
  have "max m x \<le> foldl max (max m x) xs" using Cons.IH [of "max m x"] by blast
  then have "m \<le> foldl max (max m x) xs" "x \<le> foldl max (max m x) xs" by (simp_all only: max.bounded_iff)
  then show ?case using Cons.IH [of "max m x"] by simp
qed simp

lemma next_run_id_fresh: "next_run_id d \<notin> sr_id ` set (sync_runs d)"
  using foldl_max_ge [of 0 "map sr_id (sync_runs d)"] by (auto simp: next_run_id_def)

lemma row_update_absent: "k \<notin> key ` set t \<Longrightarrow> row_update key k f (t @ [x]) = t @ [if key x = k then f x else x]"
  unfolding row_update_def by (auto intro!: map_idI)

lemma upsert_services_runs: "sync_runs (fst (upsert_services D G owner c now fs d)) = sync_runs d \<and>
    accounts (fst (upsert_services D G owner c now fs d)) = accounts d"
proof -
  have "sync_runs (foldl (upsert_service D G owner c now) d fs) = sync_runs d \<and>
      accounts (foldl (upsert_service D G owner c now) d fs) = accounts d"
    by (rule foldl_inv [where I = "\<lambda>d'. sync_runs d' = sync_runs d \<and> accounts d' = accounts d"])
       (simp_all add: upsert_service_def create_service_def update_service_def split: option.split)
  then show ?thesis by (simp add: upsert_services_def deactivate_missing_def)
qed

lemma upsert_all_runs: "sync_runs (fst (upsert_all D G owner m ps d)) = sync_runs d \<and>
    accounts (fst (upsert_all D G owner m ps d)) = accounts d"
  by (induction D G owner m ps d rule: upsert_all.induct)
     (auto simp: upsert_external_eq create_payment_def split: option.splits)

lemma sync_try_runs: "sync_runs (fst (sync_try E a pv d)) = sync_runs d"
proof -
  have "sync_runs (fst (sync_favicon pv c d)) = sync_runs d" for c
    by (simp add: sync_favicon_def split: option.split sum.split)
  moreover have "sync_runs (sync_balance E acc remote d) = sync_runs d" for acc remote d
    by (simp add: sync_balance_def Let_def record_snapshot_def update_balance_def update_account_def split: option.split)
  moreover have "sync_runs (sync_payments E owner c d) = sync_runs d" for owner c d
    by (simp add: sync_payments_def upsert_payments_def upsert_all_runs split: option.split sum.split)
  ultimately show ?thesis
    by (simp add: sync_try_def Let_def case_prod_beta upsert_services_runs split: option.split sum.split)
qed

text \<open>A sync keeps the database whole: unique ids, one row per external id of an account, accounts under existing
  providers, services and payments under the account and provider pair that owns them, payments linked only to existing
  services.\<close>

lemma sync_account_ok:
  assumes "db_ok d" "fresh_ids (se_new_id E)"
  shows "db_ok (fst (sync_account E acc d))"
proof -
  have "sync_inv \<lparr> ow_account = ac_uuid a, ow_provider = pv_uuid pv \<rparr> (snd (create_running acc (se_now E) d))"
    if "find_account d acc = Some a" "find_provider d (ac_provider a) = Some pv" for a pv
    using that find_account_owner [of d acc a] provider_table.find_sound [of "ac_provider a" "providers d" pv] assms(1)
      record_update_ok [of d]
    by (auto simp: sync_inv_def owner_ok_def create_running_def Let_def find_provider_def)
  then show ?thesis using assms close_run_ok sync_try_ok [of _ _ "snd (create_running acc (se_now E) d)" E]
    by (auto simp: sync_account_def case_prod_beta Let_def split: option.splits sum.splits)
qed

definition sample_env :: sync_env where
  "sample_env = \<lparr> se_decimal = dec20, se_new_id = longer_id, se_decrypt = Inr,
     se_create = (\<lambda>kind token. Inr \<lparr> cn_favicon = None, cn_account = (\<lambda>n. Inr \<lparr> ad_balance = Some 4, ad_currency = ''EUR'' \<rparr>),
       cn_services = (\<lambda>n. if n = 1 then Inl ''HTTP 500'' else Inr [sample_fetched]), cn_payments = Some (\<lambda>n. Inr [sample_payment]),
       cn_aborted = (\<lambda>n. False), cn_aborted_at_end = False \<rparr>),
     se_now = 9 \<rparr>"

lemma sample_env_id: "fresh_ids (se_new_id sample_env)"
  using longer_id_fresh by (simp add: sample_env_def)

lemma sample_sync_ok:
  "snd (snd (sync_account sample_env ''a1'' sample_db)) = Inr SyncOk"
proof -
  have "with_retry (\<lambda>n. False) (\<lambda>n. if n = 1 then Inl ''HTTP 500'' else Inr [sample_fetched]) 1 = Inr [sample_fetched]"
    by (subst with_retry.simps, subst with_retry.simps) (simp add: FETCH_ATTEMPTS_def)
  moreover have "with_retry (\<lambda>n. False) (\<lambda>n. Inr \<lparr> ad_balance = Some 4, ad_currency = ''EUR'' \<rparr>) 1 =
      (Inr \<lparr> ad_balance = Some 4, ad_currency = ''EUR'' \<rparr> :: string + account_data)"
    by (subst with_retry.simps) simp
  ultimately show ?thesis
    by (simp add: sync_account_def sample_env_def sample_db_def sample_account_def find_account_def find_provider_def
        row_find_def create_running_def sync_try_def sync_favicon_def case_prod_beta Let_def)
qed

text \<open>C24. A sync request either is refused and changes nothing, or leaves exactly one new run with a fresh id, finished
  and carrying the reported status; the runs already recorded are untouched.\<close>

theorem sync_account_one_run:
  "case sync_account E acc d of
     (d', dropped, Inl err) \<Rightarrow> d' = d \<and> dropped = []
   | (d', dropped, Inr st) \<Rightarrow>
       (\<exists>run. sync_runs d' = sync_runs d @ [run] \<and> sr_id run \<notin> sr_id ` set (sync_runs d) \<and> sr_account run = acc \<and>
          sr_status run = st \<and> st \<noteq> Running \<and> sr_finished run = Some (se_now E) \<and>
          (sr_error run = None) = (st = SyncOk))"
proof -
  have r: "row_update sr_id (next_run_id d) f (sync_runs d @ [x]) = sync_runs d @ [f x]"
    if "sr_id x = next_run_id d" for f x
    using row_update_absent [OF next_run_id_fresh, of d f x] that by simp
  show ?thesis
    using next_run_id_fresh [of d]
    by (auto simp: sync_account_def case_prod_beta Let_def create_running_def mark_ok_def mark_error_def mark_synced_def
        record_sync_error_def update_account_def sync_try_runs r split: option.splits sum.splits if_splits)
qed

section \<open>The interval of the autosync\<close>

text \<open>The autosync fires at the interval the owner set exactly for intervals up to 596 hours; a longer one, which the
  settings accept, makes the runtime fire it every millisecond while the panel shows the configured next run.\<close>

theorem sync_interval_bound:
  "(if 1 \<le> hours then (st_fires_every (apply_interval hours now) = hours * 3600000) = (hours \<le> 596) else True) \<and>
   (if 597 \<le> hours then st_fires_every (apply_interval hours now) = 1 else True) \<and>
   st_next_run (apply_interval hours now) = Some (now + hours * 3600000) \<and>
   st_next_run (timer_tick (apply_interval hours now) later) = Some (later + hours * 3600000)"
  by (auto simp: apply_interval_def timer_delay_def timer_tick_def)

end
