(* ===== verification/Services.thy ===== *)
theory Services
  imports Sync
begin

text \<open>
  What the owner does with services, payments and projects: services.service.ts with the
  resolution of the account (account-owner.ts), payments.service.ts, projects.service.ts, and the
  listings of their repositories.  A request body has passed its zod schema: a field is None when it is
  absent (undefined), and for a nullable field Some None stands for null.  Amounts arrive as
  decimal strings.  An operation answers an http_error or the row that the mapper turns into the reply.
\<close>

section \<open>account-owner.ts\<close>

definition resolve_account_owner :: "db \<Rightarrow> uuid option \<Rightarrow> uuid option \<Rightarrow> http_error + account_owner" where
  "resolve_account_owner d acc pv =
     (if truthy acc then
        (case find_account d (the acc) of
           None \<Rightarrow> Inl (Not_found ''Account not found'')
         | Some a \<Rightarrow>
             if truthy pv \<and> pv \<noteq> Some (ac_provider a)
             then Inl (Bad_request ''Account belongs to another provider'')
             else Inr \<lparr> ow_account = ac_uuid a, ow_provider = ac_provider a \<rparr>)
      else if \<not> truthy pv then Inl (Bad_request ''Account is required'')
      else (case accounts_of d (the pv) of
              [] \<Rightarrow> Inl (Not_found ''Provider not found'')
            | [a] \<Rightarrow> Inr \<lparr> ow_account = ac_uuid a, ow_provider = the pv \<rparr>
            | _ \<Rightarrow> Inl (Bad_request ''Provider has several accounts, pass accountUuid'')))"

section \<open>services.service.ts\<close>

subsection \<open>Requests\<close>

record client_meta =
  cm_vendor :: "string option option"
  cm_marker :: "string option option"
  cm_marker_bg :: "string option option"

record service_query =
  q_provider :: "uuid option"
  q_account :: "uuid option"
  q_project :: "uuid option"
  q_type :: "string option"
  q_active :: "bool option"

record service_create =
  sc_account :: "uuid option"
  sc_provider :: "uuid option"
  sc_project :: uuid
  sc_name :: string
  sc_description :: "string option"
  sc_type :: string
  sc_cost :: string
  sc_currency :: ccy
  sc_period :: period
  sc_country :: "string option"
  sc_next :: "ms option"
  sc_active :: "bool option"
  sc_meta :: "client_meta option"

record service_patch =
  sp_account :: "uuid option"
  sp_provider :: "uuid option"
  sp_project :: "uuid option"
  sp_name :: "string option"
  sp_description :: "string option option"
  sp_type :: "string option"
  sp_cost :: "string option"
  sp_currency :: "ccy option"
  sp_period :: "period option"
  sp_country :: "string option option"
  sp_next :: "ms option option"
  sp_active :: "bool option"
  sp_meta :: "client_meta option"

subsection \<open>Display fields\<close>

definition patch_fields :: "client_meta \<Rightarrow> (string \<times> string option option) list" where
  "patch_fields p = [(''vendor'', cm_vendor p), (''marker'', cm_marker p), (''markerBg'', cm_marker_bg p)]"

definition delete_key :: "string \<Rightarrow> json_obj \<Rightarrow> json_obj" where
  "delete_key k m = filter (\<lambda>e. fst e \<noteq> k) m"

definition client_meta_step :: "json_obj \<times> bool \<Rightarrow> string \<times> string option option \<Rightarrow> json_obj \<times> bool" where
  "client_meta_step st f =
     (case snd f of
        None \<Rightarrow> st
      | Some v \<Rightarrow>
          if \<not> truthy v then (if mget (fst st) (fst f) \<noteq> None then (delete_key (fst f) (fst st), True) else st)
          else if mget (fst st) (fst f) \<noteq> Some (JStr (the v)) then (put (fst f) (JStr (the v)) (fst st), True) else st)"

definition apply_client_meta :: "json_obj \<Rightarrow> client_meta option \<Rightarrow> json_obj \<times> bool" where
  "apply_client_meta m patch =
     (case patch of None \<Rightarrow> (m, False) | Some p \<Rightarrow> foldl client_meta_step (m, False) (patch_fields p))"

subsection \<open>Listing and creation\<close>

text \<open>Rows created in the same millisecond stay in table order, which the database leaves open.\<close>

definition list_filtered :: "db \<Rightarrow> service_query \<Rightarrow> service list" where
  "list_filtered d q = sort_key sv_created (filter (\<lambda>s.
     (truthy (q_provider q) \<longrightarrow> q_provider q = Some (sv_provider s)) \<and>
     (truthy (q_account q) \<longrightarrow> q_account q = Some (sv_account s)) \<and>
     (truthy (q_project q) \<longrightarrow> q_project q = Some (sv_project s)) \<and>
     (truthy (q_type q) \<longrightarrow> q_type q = Some (sv_type s)) \<and>
     (q_active q \<noteq> None \<longrightarrow> q_active q = Some (sv_active s))) (services d))"

definition project_exists :: "db \<Rightarrow> uuid \<Rightarrow> bool" where
  "project_exists d u = (row_find pj_uuid u (projects d) \<noteq> None)"

text \<open>x || null on a string.\<close>

definition or_null :: "string option \<Rightarrow> string option" where
  "or_null v = (if truthy v then v else None)"

definition create_service_op :: "decimal_lib \<Rightarrow> (uuid list \<Rightarrow> uuid) \<Rightarrow> ms \<Rightarrow> service_create \<Rightarrow> db
  \<Rightarrow> db \<times> (http_error + service)" where
  "create_service_op D G now dto d =
     (case resolve_account_owner d (sc_account dto) (sc_provider dto) of
        Inl e \<Rightarrow> (d, Inl e)
      | Inr owner \<Rightarrow>
          if \<not> project_exists d (sc_project dto) then (d, Inl (Not_found ''Project not found''))
          else let s = \<lparr> sv_uuid = G (map sv_uuid (services d)), sv_provider = ow_provider owner,
                 sv_account = ow_account owner, sv_project = sc_project dto, sv_name = sc_name dto,
                 sv_description = or_null (sc_description dto), sv_type = sc_type dto, sv_external = None,
                 sv_country = Some (coalesce (sc_country dto) ''XX''), sv_cost = text_value D (sc_cost dto),
                 sv_currency = sc_currency dto, sv_period = sc_period dto, sv_next = sc_next dto,
                 sv_active = coalesce (sc_active dto) True, sv_managed = False, sv_cost_ov = False,
                 sv_name_ov = False, sv_type_ov = False, sv_active_ov = False,
                 sv_meta = fst (apply_client_meta [] (sc_meta dto)), sv_created = now \<rparr>
               in (create_service s d, Inr s))"

subsection \<open>Update\<close>

text \<open>The copy of meta, whether it changed, and the row the collected data produces.\<close>

record patch_state =
  ps_meta :: json_obj
  ps_dirty :: bool
  ps_row :: service

definition baseline_text :: "json_obj \<Rightarrow> string \<Rightarrow> bool \<Rightarrow> string \<Rightarrow> string option" where
  "baseline_text m key overridden current =
     (case mget m key of Some (JStr s) \<Rightarrow> Some s | _ \<Rightarrow> if \<not> overridden then Some current else None)"

definition baseline_cost :: "decimal_lib \<Rightarrow> json_obj \<Rightarrow> service \<Rightarrow> string option" where
  "baseline_cost D m s =
     (let synced = (case mget m ''syncedCost'' of Some (JStr t) \<Rightarrow> if money_re t then Some t else None | _ \<Rightarrow> None)
      in case synced of Some t \<Rightarrow> Some t | None \<Rightarrow> if \<not> sv_cost_ov s then Some (cent_text D (sv_cost s)) else None)"

definition seed_baseline :: "string \<Rightarrow> string \<Rightarrow> patch_state \<Rightarrow> patch_state" where
  "seed_baseline key b st =
     (if mget (ps_meta st) key \<noteq> Some (JStr b) then st \<lparr> ps_meta := put key (JStr b) (ps_meta st), ps_dirty := True \<rparr>
      else st)"

definition set_row :: "(service \<Rightarrow> service) \<Rightarrow> patch_state \<Rightarrow> patch_state" where
  "set_row f st = st \<lparr> ps_row := f (ps_row st) \<rparr>"

definition patch_name :: "service \<Rightarrow> string option \<Rightarrow> string option \<Rightarrow> patch_state \<Rightarrow> patch_state" where
  "patch_name e base v st =
     (case v of
        None \<Rightarrow> st
      | Some n \<Rightarrow>
          let st1 = (if n \<noteq> sv_name e then set_row (\<lambda>s. s \<lparr> sv_name := n \<rparr>) st else st)
          in case base of
               Some b \<Rightarrow> set_row (\<lambda>s. s \<lparr> sv_name_ov := (n \<noteq> b) \<rparr>) (seed_baseline ''syncedName'' b st1)
             | None \<Rightarrow> if n \<noteq> sv_name e then set_row (\<lambda>s. s \<lparr> sv_name_ov := True \<rparr>) st1 else st1)"

definition patch_type :: "service \<Rightarrow> string option \<Rightarrow> string option \<Rightarrow> patch_state \<Rightarrow> patch_state" where
  "patch_type e base v st =
     (case v of
        None \<Rightarrow> st
      | Some n \<Rightarrow>
          let st1 = (if n \<noteq> sv_type e then set_row (\<lambda>s. s \<lparr> sv_type := n \<rparr>) st else st)
          in case base of
               Some b \<Rightarrow> set_row (\<lambda>s. s \<lparr> sv_type_ov := (n \<noteq> b) \<rparr>) (seed_baseline ''syncedType'' b st1)
             | None \<Rightarrow> if n \<noteq> sv_type e then set_row (\<lambda>s. s \<lparr> sv_type_ov := True \<rparr>) st1 else st1)"

definition patch_cost :: "decimal_lib \<Rightarrow> service \<Rightarrow> string option \<Rightarrow> string option \<Rightarrow> patch_state \<Rightarrow> patch_state" where
  "patch_cost D e base v st =
     (case v of
        None \<Rightarrow> st
      | Some c \<Rightarrow>
          let st1 = (if sv_cost e \<noteq> text_value D c then set_row (\<lambda>s. s \<lparr> sv_cost := text_value D c \<rparr>) st else st)
          in case base of
               Some b \<Rightarrow> set_row (\<lambda>s. s \<lparr> sv_cost_ov := (text_value D b \<noteq> text_value D c) \<rparr>) (seed_baseline ''syncedCost'' b st1)
             | None \<Rightarrow> if sv_cost e \<noteq> text_value D c then set_row (\<lambda>s. s \<lparr> sv_cost_ov := True \<rparr>) st1 else st1)"

text \<open>if (dto.x !== undefined) data.x = ...\<close>

definition when_set :: "'a option \<Rightarrow> ('a \<Rightarrow> 'r \<Rightarrow> 'r) \<Rightarrow> 'r \<Rightarrow> 'r" where
  "when_set v f s = (case v of None \<Rightarrow> s | Some x \<Rightarrow> f x s)"

definition patch_rest :: "service_patch \<Rightarrow> service \<Rightarrow> service" where
  "patch_rest p s =
     when_set (sp_active p) (\<lambda>a s. s \<lparr> sv_active := a, sv_active_ov := \<not> a \<rparr>)
    (when_set (sp_next p) (\<lambda>v s. s \<lparr> sv_next := v \<rparr>)
    (when_set (sp_country p) (\<lambda>v s. s \<lparr> sv_country := v \<rparr>)
    (when_set (sp_period p) (\<lambda>v s. s \<lparr> sv_period := v \<rparr>)
    (when_set (sp_currency p) (\<lambda>v s. s \<lparr> sv_currency := v \<rparr>)
    (when_set (sp_description p) (\<lambda>v s. s \<lparr> sv_description := or_null v \<rparr>) s)))))"

text \<open>The row the collected data makes of the existing one, without the project and the account.\<close>

definition patched_row :: "decimal_lib \<Rightarrow> service_patch \<Rightarrow> service \<Rightarrow> service" where
  "patched_row D p e =
     (let (m, dirty) = apply_client_meta (sv_meta e) (sp_meta p);
          st0 = \<lparr> ps_meta = m, ps_dirty = dirty, ps_row = e \<rparr>;
          st1 = patch_name e (baseline_text m ''syncedName'' (sv_name_ov e) (sv_name e)) (sp_name p) st0;
          st2 = patch_type e (baseline_text m ''syncedType'' (sv_type_ov e) (sv_type e)) (sp_type p) st1;
          st3 = patch_cost D e (baseline_cost D m e) (sp_cost p) st2;
          row = (if ps_dirty st3 then (ps_row st3) \<lparr> sv_meta := ps_meta st3 \<rparr> else ps_row st3)
      in patch_rest p row)"

definition update_service_op :: "decimal_lib \<Rightarrow> uuid \<Rightarrow> service_patch \<Rightarrow> db \<Rightarrow> db \<times> (http_error + service)" where
  "update_service_op D u p d =
     (case find_service d u of
        None \<Rightarrow> (d, Inl (Not_found ''Service not found''))
      | Some e \<Rightarrow>
          if sp_project p \<noteq> None \<and> \<not> project_exists d (the (sp_project p))
          then (d, Inl (Not_found ''Project not found''))
          else
            let row = when_set (sp_project p) (\<lambda>v s. s \<lparr> sv_project := v \<rparr>) (patched_row D p e) in
            (case (if sp_account p \<noteq> None \<or> sp_provider p \<noteq> None
                   then map_sum id Some (resolve_account_owner d (sp_account p) (sp_provider p)) else Inr None) of
               Inl err \<Rightarrow> (d, Inl err)
             | Inr owner \<Rightarrow>
                 if owner = None \<or> ow_account (the owner) = sv_account e
                 then (update_service u (\<lambda>_. row) d, Inr row)
                 else if sv_managed e then (d, Inl (Conflict ''Cannot change the account of a synced service''))
                 else (move_to_account u (ow_account (the owner)) (ow_provider (the owner)) (\<lambda>_. row) d,
                       Inr (row \<lparr> sv_account := ow_account (the owner), sv_provider := ow_provider (the owner) \<rparr>))))"

definition remove_service_op :: "uuid \<Rightarrow> db \<Rightarrow> db \<times> (http_error + unit)" where
  "remove_service_op u d =
     (if find_service d u = None then (d, Inl (Not_found ''Service not found''))
      else (delete_service u d, Inr ()))"

section \<open>payments.service.ts\<close>

record payment_filters =
  pf_provider :: "uuid option"
  pf_account :: "uuid option"
  pf_service :: "uuid option"
  pf_from :: "ms option"
  pf_to :: "ms option"

record payment_create =
  pc_account :: "uuid option"
  pc_provider :: "uuid option"
  pc_service :: "uuid option"
  pc_amount :: string
  pc_currency :: ccy
  pc_description :: "string option"
  pc_date :: ms
  pc_type :: "payment_type option"

definition filtered_payments :: "db \<Rightarrow> payment_filters \<Rightarrow> payment list" where
  "filtered_payments d f = filter (\<lambda>p.
     (truthy (pf_provider f) \<longrightarrow> pf_provider f = Some (pm_provider p)) \<and>
     (truthy (pf_account f) \<longrightarrow> pf_account f = Some (pm_account p)) \<and>
     (truthy (pf_service f) \<longrightarrow> pf_service f = pm_service p) \<and>
     (case pf_from f of None \<Rightarrow> True | Some t \<Rightarrow> t \<le> pm_date p) \<and>
     (case pf_to f of None \<Rightarrow> True | Some t \<Rightarrow> pm_date p \<le> t)) (payments d)"

definition list_paginated :: "db \<Rightarrow> payment_filters \<Rightarrow> nat \<Rightarrow> nat \<Rightarrow> payment list \<times> nat" where
  "list_paginated d f page page_size =
     (take page_size (drop ((page - 1) * page_size) (sort_key (\<lambda>p. - pm_date p) (filtered_payments d f))),
      length (filtered_payments d f))"

definition list_payments :: "db \<Rightarrow> payment_filters \<Rightarrow> nat option \<Rightarrow> nat option \<Rightarrow> payment list \<times> nat" where
  "list_payments d f page page_size = list_paginated d f (coalesce page 1) (coalesce page_size 50)"

definition create_payment_op :: "decimal_lib \<Rightarrow> (uuid list \<Rightarrow> uuid) \<Rightarrow> payment_create \<Rightarrow> db
  \<Rightarrow> db \<times> (http_error + payment)" where
  "create_payment_op D G dto d =
     (case resolve_account_owner d (pc_account dto) (pc_provider dto) of
        Inl e \<Rightarrow> (d, Inl e)
      | Inr owner \<Rightarrow>
          if truthy (pc_service dto) \<and> find_service d (the (pc_service dto)) = None
          then (d, Inl (Not_found ''Service not found''))
          else let p = \<lparr> pm_uuid = G (map pm_uuid (payments d)), pm_provider = ow_provider owner,
                 pm_account = ow_account owner, pm_service = pc_service dto, pm_amount = text_value D (pc_amount dto),
                 pm_currency = pc_currency dto, pm_description = pc_description dto, pm_date = pc_date dto,
                 pm_type = coalesce (pc_type dto) Topup, pm_external = None \<rparr>
               in (create_payment p d, Inr p))"

definition remove_payment_op :: "uuid \<Rightarrow> db \<Rightarrow> db \<times> (http_error + unit)" where
  "remove_payment_op u d =
     (if row_find pm_uuid u (payments d) = None then (d, Inl (Not_found ''Payment not found''))
      else (delete_payment u d, Inr ()))"

section \<open>projects.service.ts\<close>

text \<open>The replies carry the cached icons the operation drops.\<close>

record project_patch =
  jp_name :: "string option"
  jp_favicon :: "string option option"
  jp_icon_name :: "string option option"
  jp_icon_bg :: "string option option"

definition create_project_op :: "(uuid list \<Rightarrow> uuid) \<Rightarrow> string \<Rightarrow> string option \<Rightarrow> string option \<Rightarrow> string option
  \<Rightarrow> db \<Rightarrow> db \<times> project" where
  "create_project_op G name favicon icon bg d =
     (let p = \<lparr> pj_uuid = G (map pj_uuid (projects d)), pj_name = name, pj_favicon = or_null favicon,
                pj_icon_name = icon, pj_icon_bg = bg \<rparr>
      in (d \<lparr> projects := projects d @ [p] \<rparr>, p))"

definition patched_project :: "project_patch \<Rightarrow> project \<Rightarrow> project" where
  "patched_project p j =
     (let j1 = (case jp_name p of None \<Rightarrow> j | Some n \<Rightarrow> j \<lparr> pj_name := n \<rparr>);
          j2 = (case jp_favicon p of None \<Rightarrow> j1 | Some v \<Rightarrow> j1 \<lparr> pj_favicon := or_null v \<rparr>);
          j3 = (case jp_icon_name p of None \<Rightarrow> j2 | Some v \<Rightarrow> j2 \<lparr> pj_icon_name := v \<rparr>)
      in case jp_icon_bg p of None \<Rightarrow> j3 | Some v \<Rightarrow> j3 \<lparr> pj_icon_bg := v \<rparr>)"

definition update_project_op :: "uuid \<Rightarrow> project_patch \<Rightarrow> db \<Rightarrow> db \<times> (http_error + uuid list)" where
  "update_project_op u p d =
     (if \<not> project_exists d u then (d, Inl (Not_found ''Project not found''))
      else (d \<lparr> projects := row_update pj_uuid u (patched_project p) (projects d) \<rparr>,
            Inr (if jp_favicon p \<noteq> None then [u] else [])))"

definition move_all_into :: "uuid \<Rightarrow> db \<Rightarrow> db \<times> (http_error + nat)" where
  "move_all_into u d =
     (if \<not> project_exists d u then (d, Inl (Not_found ''Project not found''))
      else map_prod id Inr (move_all_to_project u d))"

definition empty_project :: "uuid \<Rightarrow> db \<Rightarrow> db \<times> (http_error + nat)" where
  "empty_project u d =
     (if \<not> project_exists d u then (d, Inl (Not_found ''Project not found''))
      else if u = DEFAULT_PROJECT_UUID then (d, Inr 0)
      else map_prod id Inr (move_project_services u DEFAULT_PROJECT_UUID d))"

definition delete_moving_services :: "uuid \<Rightarrow> uuid \<Rightarrow> db \<Rightarrow> db" where
  "delete_moving_services u fallback d =
     (let d1 = fst (move_project_services u fallback d) in d1 \<lparr> projects := row_delete pj_uuid u (projects d1) \<rparr>)"

definition remove_project :: "uuid \<Rightarrow> db \<Rightarrow> db \<times> (http_error + uuid list)" where
  "remove_project u d =
     (if u = DEFAULT_PROJECT_UUID then (d, Inl (Bad_request ''The default project cannot be deleted''))
      else if \<not> project_exists d u then (d, Inl (Not_found ''Project not found''))
      else (delete_moving_services u DEFAULT_PROJECT_UUID d, Inr [u]))"

section \<open>Resolving the account\<close>

lemma accounts_of_pairs: "a \<in> set (accounts_of d pv) \<Longrightarrow> (ac_uuid a, pv) \<in> owner_pairs d"
  by (auto simp: accounts_of_def owner_pairs_def)

lemma resolve_pair: "resolve_account_owner d acc pv = Inr ow \<Longrightarrow> owner_ok d ow"
  using accounts_of_pairs [of _ d "the pv"]
  by (auto simp: resolve_account_owner_def owner_ok_def dest: find_account_owner
      split: option.splits if_splits list.splits)

text \<open>A reference to an account resolves to an (account, provider) pair that exists and that agrees with the
  account and the provider it names; a bare provider resolves exactly when that provider has one account.\<close>

theorem resolve_account_owner_spec:
  "(case resolve_account_owner d acc pv of
      Inr ow \<Rightarrow> (ow_account ow, ow_provider ow) \<in> owner_pairs d \<and> (if truthy acc then acc = Some (ow_account ow) else True) \<and>
        (if truthy pv then pv = Some (ow_provider ow) else True)
    | Inl _ \<Rightarrow> True) \<and>
   (if truthy acc then True else
      (\<exists>ow. resolve_account_owner d acc pv = Inr ow) = (truthy pv \<and> length (accounts_of d (the pv)) = 1))"
proof -
  have "(\<exists>ow. resolve_account_owner d acc pv = Inr ow) = (truthy pv \<and> length (accounts_of d (the pv)) = 1)" if "\<not> truthy acc"
    using that by (auto simp: resolve_account_owner_def split: list.split)
  moreover have "acc = Some (ow_account ow)" if "resolve_account_owner d acc pv = Inr ow" "truthy acc" for ow
    using that find_account_owner [of d "the acc"]
    by (auto simp: resolve_account_owner_def truthy_def split: option.splits if_splits)
  moreover have "pv = Some (ow_provider ow)" if "resolve_account_owner d acc pv = Inr ow" "truthy pv" for ow
    using that by (auto simp: resolve_account_owner_def truthy_def split: option.splits if_splits list.splits)
  ultimately show ?thesis using resolve_pair [of d acc pv] by (auto simp: owner_ok_def split: sum.split)
qed

section \<open>The override flags of a service\<close>

definition client_keys :: "string set" where "client_keys = {''vendor'', ''marker'', ''markerBg''}"

lemma mget_delete_key: "mget (delete_key k m) j = (if j = k then None else mget m j)"
  by (induction m) (auto simp: delete_key_def mget_Cons)

lemma client_step_other: "j \<noteq> fst f \<Longrightarrow> mget (fst (client_meta_step st f)) j = mget (fst st) j"
  by (simp add: client_meta_step_def mget_delete_key put_def split: option.split)

lemma apply_client_meta_other:
  "j \<notin> client_keys \<Longrightarrow> mget (fst (apply_client_meta m p)) j = mget m j"
  by (auto simp: apply_client_meta_def patch_fields_def client_keys_def client_step_other split: option.split)

lemma synced_not_client: "''syncedName'' \<notin> client_keys" "''syncedType'' \<notin> client_keys" "''syncedCost'' \<notin> client_keys"
  by (simp_all add: client_keys_def)

lemmas patch_defs = patch_name_def patch_type_def patch_cost_def set_row_def seed_baseline_def

lemma patch_rest_fields [simp]:
  "sv_name (patch_rest p s) = sv_name s" "sv_type (patch_rest p s) = sv_type s" "sv_cost (patch_rest p s) = sv_cost s"
  "sv_name_ov (patch_rest p s) = sv_name_ov s" "sv_type_ov (patch_rest p s) = sv_type_ov s"
  "sv_cost_ov (patch_rest p s) = sv_cost_ov s" "service_id (patch_rest p s) = service_id s"
  "sv_project (patch_rest p s) = sv_project s" "sv_managed (patch_rest p s) = sv_managed s"
  "sv_meta (patch_rest p s) = sv_meta s"
  by (simp_all add: patch_rest_def when_set_def service_id_def split: option.split)

lemma patch_rest_set [simp]:
  "sv_period (patch_rest p s) = coalesce (sp_period p) (sv_period s)"
  "sv_currency (patch_rest p s) = coalesce (sp_currency p) (sv_currency s)"
  "sv_active (patch_rest p s) = coalesce (sp_active p) (sv_active s)"
  "sv_active_ov (patch_rest p s) = (case sp_active p of None \<Rightarrow> sv_active_ov s | Some a \<Rightarrow> \<not> a)"
  by (simp_all add: patch_rest_def when_set_def split: option.split)

text \<open>What one field of the request does to the value and to its flag.\<close>

lemma patch_name_row:
  "sv_name (ps_row (patch_name e base v st)) = (case v of None \<Rightarrow> sv_name (ps_row st) | Some n \<Rightarrow> if n = sv_name e then sv_name (ps_row st) else n)"
  "sv_name_ov (ps_row (patch_name e base v st)) = (case v of None \<Rightarrow> sv_name_ov (ps_row st)
     | Some n \<Rightarrow> (case base of Some b \<Rightarrow> n \<noteq> b | None \<Rightarrow> n \<noteq> sv_name e \<or> sv_name_ov (ps_row st)))"
  by (auto simp: patch_defs Let_def split: option.split)

lemma patch_type_row:
  "sv_type (ps_row (patch_type e base v st)) = (case v of None \<Rightarrow> sv_type (ps_row st) | Some n \<Rightarrow> if n = sv_type e then sv_type (ps_row st) else n)"
  "sv_type_ov (ps_row (patch_type e base v st)) = (case v of None \<Rightarrow> sv_type_ov (ps_row st)
     | Some n \<Rightarrow> (case base of Some b \<Rightarrow> n \<noteq> b | None \<Rightarrow> n \<noteq> sv_type e \<or> sv_type_ov (ps_row st)))"
  by (auto simp: patch_defs Let_def split: option.split)

lemma patch_cost_row:
  "sv_cost (ps_row (patch_cost D e base v st)) = (case v of None \<Rightarrow> sv_cost (ps_row st)
     | Some c \<Rightarrow> if sv_cost e = text_value D c then sv_cost (ps_row st) else text_value D c)"
  "sv_cost_ov (ps_row (patch_cost D e base v st)) = (case v of None \<Rightarrow> sv_cost_ov (ps_row st)
     | Some c \<Rightarrow> (case base of Some b \<Rightarrow> text_value D b \<noteq> text_value D c | None \<Rightarrow> sv_cost e \<noteq> text_value D c \<or> sv_cost_ov (ps_row st)))"
  by (auto simp: patch_defs Let_def split: option.split)

definition name_part :: "service \<Rightarrow> string \<times> bool" where "name_part s = (sv_name s, sv_name_ov s)"
definition type_part :: "service \<Rightarrow> string \<times> bool" where "type_part s = (sv_type s, sv_type_ov s)"
definition cost_part :: "service \<Rightarrow> rat \<times> bool" where "cost_part s = (sv_cost s, sv_cost_ov s)"
definition other_part :: "service \<Rightarrow> (uuid \<times> uuid \<times> uuid \<times> string option) \<times> uuid \<times> bool \<times> ccy \<times> period \<times> bool \<times> bool" where
  "other_part s = (service_id s, sv_project s, sv_managed s, sv_currency s, sv_period s, sv_active s, sv_active_ov s)"

lemmas part_defs = name_part_def type_part_def cost_part_def other_part_def service_id_def

lemma patch_frames:
  "type_part (ps_row (patch_name e base v st)) = type_part (ps_row st)"
  "cost_part (ps_row (patch_name e base v st)) = cost_part (ps_row st)"
  "other_part (ps_row (patch_name e base v st)) = other_part (ps_row st)"
  "name_part (ps_row (patch_type e base v st)) = name_part (ps_row st)"
  "cost_part (ps_row (patch_type e base v st)) = cost_part (ps_row st)"
  "other_part (ps_row (patch_type e base v st)) = other_part (ps_row st)"
  "name_part (ps_row (patch_cost D e base v st)) = name_part (ps_row st)"
  "type_part (ps_row (patch_cost D e base v st)) = type_part (ps_row st)"
  "other_part (ps_row (patch_cost D e base v st)) = other_part (ps_row st)"
  by (simp_all add: patch_defs part_defs Let_def split: option.split)

definition base_state :: "service_patch \<Rightarrow> service \<Rightarrow> patch_state" where
  "base_state p e = \<lparr> ps_meta = fst (apply_client_meta (sv_meta e) (sp_meta p)),
     ps_dirty = snd (apply_client_meta (sv_meta e) (sp_meta p)), ps_row = e \<rparr>"

definition collected :: "decimal_lib \<Rightarrow> service_patch \<Rightarrow> service \<Rightarrow> patch_state" where
  "collected D p e =
     patch_cost D e (baseline_cost D (sv_meta e) e) (sp_cost p)
       (patch_type e (baseline_text (sv_meta e) ''syncedType'' (sv_type_ov e) (sv_type e)) (sp_type p)
         (patch_name e (baseline_text (sv_meta e) ''syncedName'' (sv_name_ov e) (sv_name e)) (sp_name p) (base_state p e)))"

lemma patched_row_collected:
  "patched_row D p e = patch_rest p (if ps_dirty (collected D p e)
     then (ps_row (collected D p e)) \<lparr> sv_meta := ps_meta (collected D p e) \<rparr> else ps_row (collected D p e))"
  using apply_client_meta_other [OF synced_not_client(1), of "sv_meta e" "sp_meta p"]
    apply_client_meta_other [OF synced_not_client(2), of "sv_meta e" "sp_meta p"]
    apply_client_meta_other [OF synced_not_client(3), of "sv_meta e" "sp_meta p"]
  by (simp add: patched_row_def collected_def base_state_def baseline_text_def baseline_cost_def case_prod_beta Let_def)

lemma collected_parts:
  "name_part (ps_row (collected D p e)) =
     (coalesce (sp_name p) (sv_name e), case sp_name p of None \<Rightarrow> sv_name_ov e
        | Some n \<Rightarrow> baseline_text (sv_meta e) ''syncedName'' (sv_name_ov e) (sv_name e) \<noteq> Some n)"
  "type_part (ps_row (collected D p e)) =
     (coalesce (sp_type p) (sv_type e), case sp_type p of None \<Rightarrow> sv_type_ov e
        | Some n \<Rightarrow> baseline_text (sv_meta e) ''syncedType'' (sv_type_ov e) (sv_type e) \<noteq> Some n)"
  "cost_part (ps_row (collected D p e)) =
     (case sp_cost p of None \<Rightarrow> sv_cost e | Some c \<Rightarrow> text_value D c, case sp_cost p of None \<Rightarrow> sv_cost_ov e
        | Some c \<Rightarrow> map_option (text_value D) (baseline_cost D (sv_meta e) e) \<noteq> Some (text_value D c))"
  "other_part (ps_row (collected D p e)) = other_part e"
proof -
  have n: "name_part (ps_row (patch_name e (baseline_text (sv_meta e) ''syncedName'' (sv_name_ov e) (sv_name e)) (sp_name p) (base_state p e))) =
     (coalesce (sp_name p) (sv_name e), case sp_name p of None \<Rightarrow> sv_name_ov e
        | Some n \<Rightarrow> baseline_text (sv_meta e) ''syncedName'' (sv_name_ov e) (sv_name e) \<noteq> Some n)"
    by (auto simp: name_part_def patch_name_row base_state_def baseline_text_def split: option.split json.split)
  have t: "type_part (ps_row (patch_type e (baseline_text (sv_meta e) ''syncedType'' (sv_type_ov e) (sv_type e)) (sp_type p) st)) =
     (coalesce (sp_type p) (sv_type e), case sp_type p of None \<Rightarrow> sv_type_ov e
        | Some n \<Rightarrow> baseline_text (sv_meta e) ''syncedType'' (sv_type_ov e) (sv_type e) \<noteq> Some n)"
    if "type_part (ps_row st) = type_part e" for st
    using that by (auto simp: type_part_def patch_type_row baseline_text_def split: option.split json.split)
  have c: "cost_part (ps_row (patch_cost D e (baseline_cost D (sv_meta e) e) (sp_cost p) st)) =
     (case sp_cost p of None \<Rightarrow> sv_cost e | Some c \<Rightarrow> text_value D c, case sp_cost p of None \<Rightarrow> sv_cost_ov e
        | Some c \<Rightarrow> map_option (text_value D) (baseline_cost D (sv_meta e) e) \<noteq> Some (text_value D c))"
    if "cost_part (ps_row st) = cost_part e" for st
    using that by (auto simp: cost_part_def patch_cost_row baseline_cost_def Let_def split: option.split)
  show "name_part (ps_row (collected D p e)) =
     (coalesce (sp_name p) (sv_name e), case sp_name p of None \<Rightarrow> sv_name_ov e
        | Some n \<Rightarrow> baseline_text (sv_meta e) ''syncedName'' (sv_name_ov e) (sv_name e) \<noteq> Some n)"
    unfolding collected_def patch_frames by (rule n)
  show "type_part (ps_row (collected D p e)) =
     (coalesce (sp_type p) (sv_type e), case sp_type p of None \<Rightarrow> sv_type_ov e
        | Some n \<Rightarrow> baseline_text (sv_meta e) ''syncedType'' (sv_type_ov e) (sv_type e) \<noteq> Some n)"
    unfolding collected_def patch_frames by (rule t) (simp add: patch_frames base_state_def)
  show "cost_part (ps_row (collected D p e)) =
     (case sp_cost p of None \<Rightarrow> sv_cost e | Some c \<Rightarrow> text_value D c, case sp_cost p of None \<Rightarrow> sv_cost_ov e
        | Some c \<Rightarrow> map_option (text_value D) (baseline_cost D (sv_meta e) e) \<noteq> Some (text_value D c))"
    unfolding collected_def by (rule c) (simp add: patch_frames base_state_def)
  show "other_part (ps_row (collected D p e)) = other_part e"
    unfolding collected_def patch_frames by (simp add: base_state_def)
qed

lemma service_id_meta [simp]: "service_id (s \<lparr> sv_meta := m \<rparr>) = service_id s"
  by (simp add: service_id_def)

lemma patched_row_parts:
  "sv_name (patched_row D p e) = coalesce (sp_name p) (sv_name e)"
  "sv_name_ov (patched_row D p e) = (case sp_name p of None \<Rightarrow> sv_name_ov e
     | Some n \<Rightarrow> baseline_text (sv_meta e) ''syncedName'' (sv_name_ov e) (sv_name e) \<noteq> Some n)"
  "sv_type (patched_row D p e) = coalesce (sp_type p) (sv_type e)"
  "sv_type_ov (patched_row D p e) = (case sp_type p of None \<Rightarrow> sv_type_ov e
     | Some n \<Rightarrow> baseline_text (sv_meta e) ''syncedType'' (sv_type_ov e) (sv_type e) \<noteq> Some n)"
  "sv_cost (patched_row D p e) = (case sp_cost p of None \<Rightarrow> sv_cost e | Some c \<Rightarrow> text_value D c)"
  "sv_cost_ov (patched_row D p e) = (case sp_cost p of None \<Rightarrow> sv_cost_ov e
     | Some c \<Rightarrow> map_option (text_value D) (baseline_cost D (sv_meta e) e) \<noteq> Some (text_value D c))"
  "service_id (patched_row D p e) = service_id e"
  "sv_project (patched_row D p e) = sv_project e"
  "sv_managed (patched_row D p e) = sv_managed e"
  "sv_period (patched_row D p e) = coalesce (sp_period p) (sv_period e)"
  "sv_currency (patched_row D p e) = coalesce (sp_currency p) (sv_currency e)"
  "sv_active (patched_row D p e) = coalesce (sp_active p) (sv_active e)"
  "sv_active_ov (patched_row D p e) = (case sp_active p of None \<Rightarrow> sv_active_ov e | Some a \<Rightarrow> \<not> a)"
  using collected_parts [of D p e]
  by (simp_all add: patched_row_collected name_part_def type_part_def cost_part_def other_part_def split: option.split)

text \<open>A successful update: the row it answers, which is now the row of the service.\<close>

definition placed :: "service \<Rightarrow> uuid \<Rightarrow> uuid \<Rightarrow> uuid \<Rightarrow> service" where
  "placed s pj acc pv = s \<lparr> sv_project := pj, sv_account := acc, sv_provider := pv \<rparr>"

lemma placed_fields [simp]:
  "sv_uuid (placed s x a b) = sv_uuid s" "sv_name (placed s x a b) = sv_name s" "sv_name_ov (placed s x a b) = sv_name_ov s"
  "sv_type (placed s x a b) = sv_type s" "sv_type_ov (placed s x a b) = sv_type_ov s" "sv_cost (placed s x a b) = sv_cost s"
  "sv_cost_ov (placed s x a b) = sv_cost_ov s" "sv_period (placed s x a b) = sv_period s"
  "sv_currency (placed s x a b) = sv_currency s" "sv_active (placed s x a b) = sv_active s"
  "sv_active_ov (placed s x a b) = sv_active_ov s" "sv_meta (placed s x a b) = sv_meta s"
  "sv_managed (placed s x a b) = sv_managed s" "sv_external (placed s x a b) = sv_external s"
  "sv_account (placed s x a b) = a" "sv_provider (placed s x a b) = b" "sv_project (placed s x a b) = x"
  by (simp_all add: placed_def)

lemma placed_moved: "(placed s x a b) \<lparr> sv_account := a', sv_provider := b' \<rparr> = placed s x a' b'"
  by (simp add: placed_def)

definition project_placed :: "service_patch \<Rightarrow> service \<Rightarrow> service" where
  "project_placed p s = when_set (sp_project p) (\<lambda>v s. s \<lparr> sv_project := v \<rparr>) s"

lemma project_placed_eq: "project_placed p s = placed s (coalesce (sp_project p) (sv_project s)) (sv_account s) (sv_provider s)"
  by (simp add: project_placed_def placed_def when_set_def split: option.split)

text \<open>The ways an update can succeed: the account stays, or an unmanaged service moves.\<close>

lemma update_service_op_cases:
  assumes "update_service_op D u p d = (d', Inr row)"
  obtains (stay) e where "find_service d u = Some e" "row = project_placed p (patched_row D p e)"
      "d' = update_service u (\<lambda>_. row) d"
      "sp_project p \<noteq> None \<longrightarrow> project_exists d (the (sp_project p))"
  | (move) e ow where "find_service d u = Some e" "\<not> sv_managed e"
      "resolve_account_owner d (sp_account p) (sp_provider p) = Inr ow"
      "row = placed (project_placed p (patched_row D p e)) (sv_project (project_placed p (patched_row D p e))) (ow_account ow) (ow_provider ow)"
      "d' = move_to_account u (ow_account ow) (ow_provider ow) (\<lambda>_. project_placed p (patched_row D p e)) d"
      "sp_project p \<noteq> None \<longrightarrow> project_exists d (the (sp_project p))"
proof -
  obtain e where e: "find_service d u = Some e" using assms by (auto simp: update_service_op_def split: option.splits)
  have pj: "sp_project p \<noteq> None \<longrightarrow> project_exists d (the (sp_project p))"
    using assms e by (auto simp: update_service_op_def split: if_splits)
  define r0 where "r0 = project_placed p (patched_row D p e)"
  define res where "res = (if sp_account p \<noteq> None \<or> sp_provider p \<noteq> None
      then map_sum id Some (resolve_account_owner d (sp_account p) (sp_provider p)) else Inr None)"
  have eq: "(d', Inr row :: http_error + service) = (case res of Inl err \<Rightarrow> (d, Inl err) | Inr owner \<Rightarrow>
      if owner = None \<or> ow_account (the owner) = sv_account e then (update_service u (\<lambda>_. r0) d, Inr r0)
      else if sv_managed e then (d, Inl (Conflict ''Cannot change the account of a synced service''))
      else (move_to_account u (ow_account (the owner)) (ow_provider (the owner)) (\<lambda>_. r0) d,
            Inr (r0 \<lparr> sv_account := ow_account (the owner), sv_provider := ow_provider (the owner) \<rparr>)))"
    using assms e pj unfolding update_service_op_def res_def r0_def project_placed_def Let_def
    by (auto split: if_splits)
  show thesis
  proof (cases res)
    case (Inr owner)
    show thesis
    proof (cases "owner = None \<or> ow_account (the owner) = sv_account e")
      case True
      then show thesis using stay [OF e _ _ pj] eq Inr r0_def by simp
    next
      case False
      then obtain ow where o: "owner = Some ow" by (cases owner) simp_all
      have "resolve_account_owner d (sp_account p) (sp_provider p) = Inr ow"
        using Inr o unfolding res_def by (cases "resolve_account_owner d (sp_account p) (sp_provider p)") (auto split: if_splits)
      then show thesis using False eq Inr o r0_def
        by (intro move [OF e _ _ _ _ pj]) (auto simp: placed_def split: if_splits)
    qed
  qed (use eq in simp)
qed

lemma update_service_op_row:
  assumes "update_service_op D u p d = (d', Inr row)"
  obtains e x a b where "find_service d u = Some e" "row \<in> set (services d')" "row = placed (patched_row D p e) x a b"
    "sv_uuid row = u" "sv_managed e \<longrightarrow> a = sv_account e"
  using assms
proof (cases rule: update_service_op_cases)
  case (stay e)
  note f = service_table.find_sound [OF stay(1) [unfolded find_service_def]]
    service_table.updated_key [OF stay(1) [unfolded find_service_def], of "\<lambda>_. row"]
  show thesis using stay f patched_row_parts(7) [of D p e]
    by (intro that [OF stay(1)]) (auto simp: project_placed_eq update_service_def service_id_def)
next
  case (move e ow)
  note f = service_table.find_sound [OF move(1) [unfolded find_service_def]]
    service_table.updated_key [OF move(1) [unfolded find_service_def], of "\<lambda>_. row"]
  have row: "row = placed (patched_row D p e) (coalesce (sp_project p) (sv_project (patched_row D p e))) (ow_account ow) (ow_provider ow)"
    using move(4) by (simp add: project_placed_eq placed_def)
  have "row \<in> set (services d')"
    using f(2) unfolding move(5) move_to_account_def Let_def update_service_def by (simp add: row project_placed_eq placed_moved)
  then show thesis using f(1) patched_row_parts(7) [of D p e]
    by (intro that [OF move(1) _ row]) (auto simp: row service_id_def move(2))
qed

text \<open>Updating a service stores each submitted name, type and price, and flags it as the owner's exactly when it
  differs from the provider's baseline (the last synced proposal, or the value itself before any override; prices are
  compared as numbers); returning to the baseline clears the flag, and a field that was not submitted keeps value and flag.
  Switching a service off pins it, switching it on releases it.\<close>

theorem update_service_overrides:
  assumes "update_service_op D u p d = (d', Inr row)" "find_service d u = Some e"
  shows "row \<in> set (services d') \<and> sv_uuid row = u \<and>
    sv_name row = coalesce (sp_name p) (sv_name e) \<and>
    sv_name_ov row = (case sp_name p of None \<Rightarrow> sv_name_ov e
      | Some n \<Rightarrow> baseline_text (sv_meta e) ''syncedName'' (sv_name_ov e) (sv_name e) \<noteq> Some n) \<and>
    sv_type row = coalesce (sp_type p) (sv_type e) \<and>
    sv_type_ov row = (case sp_type p of None \<Rightarrow> sv_type_ov e
      | Some n \<Rightarrow> baseline_text (sv_meta e) ''syncedType'' (sv_type_ov e) (sv_type e) \<noteq> Some n) \<and>
    sv_cost row = (case sp_cost p of None \<Rightarrow> sv_cost e | Some c \<Rightarrow> text_value D c) \<and>
    sv_cost_ov row = (case sp_cost p of None \<Rightarrow> sv_cost_ov e
      | Some c \<Rightarrow> map_option (text_value D) (baseline_cost D (sv_meta e) e) \<noteq> Some (text_value D c)) \<and>
    sv_active row = coalesce (sp_active p) (sv_active e) \<and>
    sv_active_ov row = (case sp_active p of None \<Rightarrow> sv_active_ov e | Some a \<Rightarrow> \<not> a)"
proof -
  obtain x a b where r: "row \<in> set (services d')" "row = placed (patched_row D p e) x a b" "sv_uuid row = u"
    using update_service_op_row [OF assms(1)] assms(2) by (metis option.inject)
  show ?thesis using r(1,3) unfolding r(2) placed_fields patched_row_parts by simp
qed

definition empty_patch :: service_patch where
  "empty_patch = \<lparr> sp_account = None, sp_provider = None, sp_project = None, sp_name = None, sp_description = None,
     sp_type = None, sp_cost = None, sp_currency = None, sp_period = None, sp_country = None, sp_next = None,
     sp_active = None, sp_meta = None \<rparr>"

lemma update_sample:
  "sp_account p = None \<Longrightarrow> sp_provider p = None \<Longrightarrow> sp_project p = None \<Longrightarrow>
   update_service_op dec20 ''s1'' p sample_db =
     (update_service ''s1'' (\<lambda>_. patched_row dec20 p sample_service) sample_db, Inr (patched_row dec20 p sample_service)) \<and>
   find_service sample_db ''s1'' = Some sample_service"
proof -
  have "find_service sample_db ''s1'' = Some sample_service"
    by (simp add: find_service_def row_find_def sample_db_def sample_service_def)
  moreover assume "sp_account p = None" "sp_provider p = None" "sp_project p = None"
  ultimately show ?thesis by (simp add: update_service_op_def when_set_def Let_def)
qed

lemma update_service_overrides_witness:
  "\<exists>row\<in>set (services (fst (update_service_op dec20 ''s1'' (empty_patch \<lparr> sp_name := Some ''db'', sp_active := Some False \<rparr>) sample_db))).
     sv_name row = ''db'' \<and> sv_name_ov row \<and> \<not> sv_active row \<and> sv_active_ov row \<and> \<not> sv_cost_ov row"
proof -
  let ?p = "empty_patch \<lparr> sp_name := Some ''db'', sp_active := Some False \<rparr>"
  have u: "update_service_op dec20 ''s1'' ?p sample_db =
     (update_service ''s1'' (\<lambda>_. patched_row dec20 ?p sample_service) sample_db, Inr (patched_row dec20 ?p sample_service))"
    "find_service sample_db ''s1'' = Some sample_service"
    using update_sample [of ?p] by (simp_all add: empty_patch_def)
  show ?thesis
    using update_service_overrides [OF u] unfolding u(1) fst_conv
    by (intro bexI [of _ "patched_row dec20 ?p sample_service"])
       (auto simp: empty_patch_def sample_service_def baseline_text_def mget_Cons)
qed

section \<open>An edit and the next sync\<close>

lemma refresh_fields:
  "sv_name (refresh_service D c sd s) = (if sv_name_ov s then sv_name s else sd_name sd)"
  "sv_type (refresh_service D c sd s) = (if sv_type_ov s then sv_type s else sd_type sd)"
  "sv_cost (refresh_service D c sd s) = (if sv_cost_ov s then sv_cost s else case sd_cost sd of None \<Rightarrow> sv_cost s | Some x \<Rightarrow> cent_round D x)"
  "sv_period (refresh_service D c sd s) = (if sv_cost_ov s then sv_period s else coalesce (sd_period sd) (sv_period s))"
  "sv_currency (refresh_service D c sd s) = (if sv_cost_ov s then sv_currency s else coalesce (sd_currency sd) c)"
  "sv_active (refresh_service D c sd s) = (sv_active s \<or> \<not> sv_active_ov s)"
  by (auto simp: refresh_service_def Let_def split: option.split)

definition synced_service :: service where
  "synced_service = sample_service \<lparr> sv_name := ''web'', sv_name_ov := False,
     sv_meta := [(''syncedName'', JStr ''web''), (''syncedType'', JStr ''vps''), (''syncedCost'', JStr ''5.00'')] \<rparr>"

definition synced_db :: db where "synced_db = sample_db \<lparr> services := [synced_service] \<rparr>"

lemma synced_texts: "money_re ''5.00''" "read_decimal ''5.00'' = 5" "read_decimal ''6.5'' = 13 / 2"
  by code_simp+

lemma update_synced:
  assumes "sp_account p = None" "sp_provider p = None" "sp_project p = None"
  shows "update_service_op dec20 ''s1'' p synced_db =
     (update_service ''s1'' (\<lambda>_. patched_row dec20 p synced_service) synced_db, Inr (patched_row dec20 p synced_service))"
    and "find_service synced_db ''s1'' = Some synced_service"
proof -
  show "find_service synced_db ''s1'' = Some synced_service"
    by (simp add: find_service_def row_find_def synced_db_def synced_service_def sample_service_def)
  then show "update_service_op dec20 ''s1'' p synced_db =
     (update_service ''s1'' (\<lambda>_. patched_row dec20 p synced_service) synced_db, Inr (patched_row dec20 p synced_service))"
    using assms by (simp add: update_service_op_def when_set_def Let_def)
qed

definition sample_edit :: service_patch where
  "sample_edit = empty_patch \<lparr> sp_name := Some ''db'', sp_type := Some ''vps'', sp_cost := Some ''5.00'', sp_active := Some False,
     sp_period := Some Yearly, sp_currency := Some ''USD'' \<rparr>"

lemma sample_edit_fields: "sp_account sample_edit = None" "sp_provider sample_edit = None" "sp_project sample_edit = None"
  "sp_name sample_edit = Some ''db''" "sp_cost sample_edit = Some ''5.00''" "sp_active sample_edit = Some False"
  "sp_period sample_edit = Some Yearly" "sp_type sample_edit = Some ''vps''" "sp_currency sample_edit = Some ''USD''"
  by (simp_all add: sample_edit_def empty_patch_def)

lemma synced_meta_fields: "mget (sv_meta synced_service) ''syncedName'' = Some (JStr ''web'')"
  "mget (sv_meta synced_service) ''syncedCost'' = Some (JStr ''5.00'')"
  "mget (sv_meta synced_service) ''syncedType'' = Some (JStr ''vps'')"
  by (simp_all add: synced_service_def mget_Cons)

text \<open>C5. After the owner saves the form of a synced service (name, type, price, currency, period and the switch), the
  next sync keeps a name, a type or a price that differs from what the provider proposed and takes the provider's again
  once it is back at the proposal; it keeps a service off that was switched off and on one that was switched on.  Currency and
  period have no flag of their own: they stay with a price that differs, and at the proposed price the sync overwrites
  the currency always and the period whenever the provider gives one.\<close>

theorem edit_then_sync:
  assumes "update_service_op D u p d = (d', Inr row)" "find_service d u = Some e"
    "mget (sv_meta e) ''syncedName'' = Some (JStr proposed)" "mget (sv_meta e) ''syncedType'' = Some (JStr kind)"
    "mget (sv_meta e) ''syncedCost'' = Some (JStr price)" "money_re price"
    "sp_name p = Some n" "sp_type p = Some y" "sp_cost p = Some t" "sp_currency p = Some cur" "sp_period p = Some q" "sp_active p = Some a"
  shows "sv_name (refresh_service D c sd row) = (if n = proposed then sd_name sd else n) \<and>
    sv_type (refresh_service D c sd row) = (if y = kind then sd_type sd else y) \<and>
    sv_active (refresh_service D c sd row) = a \<and>
    (if text_value D t = text_value D price
     then sv_cost (refresh_service D c sd row) = (case sd_cost sd of None \<Rightarrow> text_value D t | Some x \<Rightarrow> cent_round D x) \<and>
       sv_currency (refresh_service D c sd row) = coalesce (sd_currency sd) c \<and>
       sv_period (refresh_service D c sd row) = coalesce (sd_period sd) q
     else sv_cost (refresh_service D c sd row) = text_value D t \<and>
       sv_currency (refresh_service D c sd row) = cur \<and> sv_period (refresh_service D c sd row) = q)"
proof -
  obtain x a b where r: "row = placed (patched_row D p e) x a b"
    using update_service_op_row [OF assms(1)] assms(2) by (metis option.inject)
  show ?thesis using assms(3-) unfolding r placed_fields refresh_fields placed_fields patched_row_parts
    by (simp add: baseline_text_def baseline_cost_def split: option.split)
qed

lemma edit_then_sync_witness:
  "sv_name (refresh_service dec20 ''EUR'' sample_fetched (patched_row dec20 sample_edit synced_service)) = ''db'' \<and>
   sv_cost (refresh_service dec20 ''EUR'' sample_fetched (patched_row dec20 sample_edit synced_service)) = 7 \<and>
   sv_currency (refresh_service dec20 ''EUR'' sample_fetched (patched_row dec20 sample_edit synced_service)) = ''EUR'' \<and>
   \<not> sv_active (refresh_service dec20 ''EUR'' sample_fetched (patched_row dec20 sample_edit synced_service))"
proof -
  have "cent_round dec20 7 = 7" using dec20.cent_id [of 7] by (simp add: is_cents_def)
  then show ?thesis
    using edit_then_sync [OF update_synced [OF sample_edit_fields(1-3)] synced_meta_fields(1,3,2) synced_texts(1)
        sample_edit_fields(4,8,5,9,7,6), of "''EUR''" sample_fetched]
    by (simp add: sample_fetched_def)
qed

text \<open>An owner who changes only the billing period of a synced service loses the change at the next sync: the price
  equals the baseline, so no flag is set, and the sync writes the provider's period.\<close>

theorem period_edit_is_lost:
  assumes "update_service_op D u p d = (d', Inr row)" "find_service d u = Some e"
    "mget (sv_meta e) ''syncedCost'' = Some (JStr price)" "money_re price"
    "sp_cost p = Some price" "sp_period p = Some q" "sd_period sd = Some r"
  shows "sv_period row = q \<and> sv_period (refresh_service D c sd row) = r"
proof -
  obtain x a b where r: "row = placed (patched_row D p e) x a b"
    using update_service_op_row [OF assms(1)] assms(2) by (metis option.inject)
  show ?thesis using assms(3-) unfolding r placed_fields refresh_fields placed_fields patched_row_parts
    by (simp add: baseline_cost_def)
qed

lemma period_edit_is_lost_witness:
  "sv_period (patched_row dec20 sample_edit synced_service) = Yearly \<and>
   sv_period (refresh_service dec20 ''EUR'' (sample_fetched \<lparr> sd_period := Some Monthly \<rparr>) (patched_row dec20 sample_edit synced_service)) = Monthly"
  using period_edit_is_lost [OF update_synced [OF sample_edit_fields(1-3)] synced_meta_fields(2) synced_texts(1)
      sample_edit_fields(5,7), of "sample_fetched \<lparr> sd_period := Some Monthly \<rparr>" Monthly "''EUR''"]
  by simp

section \<open>The owner's operations keep the database whole\<close>

text \<open>A managed service is one with an external id, and an imported payment is linked to managed services only.\<close>

definition links_ok :: "db \<Rightarrow> bool" where
  "links_ok d = ((\<forall>s\<in>set (services d). sv_managed s = (sv_external s \<noteq> None)) \<and>
     (\<forall>p\<in>set (payments d). pm_external p \<noteq> None \<longrightarrow>
        (\<forall>u. pm_service p = Some u \<longrightarrow> (\<exists>s\<in>set (services d). sv_uuid s = u \<and> sv_managed s))))"

definition db_inv :: "db \<Rightarrow> bool" where "db_inv d = (db_ok d \<and> links_ok d)"

lemma db_inv_tables:
  assumes "db_inv d" "distinct (map sv_uuid ss)" "distinct (ext_keys (map (\<lambda>s. (sv_account s, sv_external s)) ss))"
    "\<And>s. s \<in> set ss \<Longrightarrow> (sv_account s, sv_provider s) \<in> owner_pairs d \<and> sv_project s \<in> pj_uuid ` set (projects d) \<and>
       sv_managed s = (sv_external s \<noteq> None)"
    "distinct (map pm_uuid ps)" "distinct (ext_keys (map (\<lambda>p. (pm_account p, pm_external p)) ps))"
    "\<And>p. p \<in> set ps \<Longrightarrow> (pm_account p, pm_provider p) \<in> owner_pairs d"
    "\<And>p u. p \<in> set ps \<Longrightarrow> pm_service p = Some u \<Longrightarrow> \<exists>s\<in>set ss. sv_uuid s = u \<and> (pm_external p \<noteq> None \<longrightarrow> sv_managed s)"
  shows "db_inv (d \<lparr> services := ss, payments := ps \<rparr>)"
proof -
  have "u \<in> sv_uuid ` set ss" if "p \<in> set ps" "pm_service p = Some u" for p u using assms(8) [OF that] by blast
  then show ?thesis using assms(1-6) assms(7,8)
    unfolding db_inv_def links_ok_def
    by (simp add: db_ok_def accounts_ok_def services_ok_def payments_ok_def service_keys_def payment_keys_def owner_pairs_def)
       blast
qed

lemma db_inv_parts:
  assumes "db_inv d"
  shows "distinct (map sv_uuid (services d))" "distinct (ext_keys (map (\<lambda>s. (sv_account s, sv_external s)) (services d)))"
    "s \<in> set (services d) \<Longrightarrow> (sv_account s, sv_provider s) \<in> owner_pairs d \<and> sv_project s \<in> pj_uuid ` set (projects d) \<and>
       sv_managed s = (sv_external s \<noteq> None)"
    "distinct (map pm_uuid (payments d))" "distinct (ext_keys (map (\<lambda>p. (pm_account p, pm_external p)) (payments d)))"
    "p \<in> set (payments d) \<Longrightarrow> (pm_account p, pm_provider p) \<in> owner_pairs d"
    "p \<in> set (payments d) \<Longrightarrow> pm_service p = Some u \<Longrightarrow>
       \<exists>s\<in>set (services d). sv_uuid s = u \<and> (pm_external p \<noteq> None \<longrightarrow> sv_managed s)"
proof -
  show "distinct (map sv_uuid (services d))" "distinct (ext_keys (map (\<lambda>s. (sv_account s, sv_external s)) (services d)))"
    "distinct (map pm_uuid (payments d))" "distinct (ext_keys (map (\<lambda>p. (pm_account p, pm_external p)) (payments d)))"
    "s \<in> set (services d) \<Longrightarrow> (sv_account s, sv_provider s) \<in> owner_pairs d \<and> sv_project s \<in> pj_uuid ` set (projects d) \<and>
       sv_managed s = (sv_external s \<noteq> None)"
    "p \<in> set (payments d) \<Longrightarrow> (pm_account p, pm_provider p) \<in> owner_pairs d"
    using assms by (auto simp: db_inv_def links_ok_def db_ok_def services_ok_def payments_ok_def service_keys_def payment_keys_def)
  assume p: "p \<in> set (payments d)" "pm_service p = Some u"
  then have "u \<in> sv_uuid ` set (services d)" using assms by (simp add: db_inv_def db_ok_def payments_ok_def)
  moreover have "pm_external p \<noteq> None \<longrightarrow> (\<exists>s\<in>set (services d). sv_uuid s = u \<and> sv_managed s)"
    using p assms unfolding db_inv_def links_ok_def by blast
  ultimately show "\<exists>s\<in>set (services d). sv_uuid s = u \<and> (pm_external p \<noteq> None \<longrightarrow> sv_managed s)" by blast
qed

lemma tables_order: "d \<lparr> payments := ps, services := ss \<rparr> = d \<lparr> services := ss, payments := ps \<rparr>"
  by simp

lemma same_services: "d \<lparr> payments := ps \<rparr> = d \<lparr> services := services d, payments := ps \<rparr>"
  "d \<lparr> services := ss \<rparr> = d \<lparr> services := ss, payments := payments d \<rparr>"
  by simp_all

lemma ext_keys_update:
  "\<forall>x\<in>set t. P x \<longrightarrow> g (f x) = g x \<or> snd (g (f x)) = None \<and> snd (g x) = None \<Longrightarrow>
   ext_keys (map g (rows_update P f t)) = ext_keys (map g t)"
  by (induction t) (auto simp: rows_update_def ext_keys_def)

lemma row_update_rows: "row_update key k f t = rows_update (\<lambda>r. key r = k) f t"
  by (simp add: row_update_def rows_update_def)

lemma distinct_row: "distinct (map key t) \<Longrightarrow> x \<in> set t \<Longrightarrow> y \<in> set t \<Longrightarrow> key x = key y \<Longrightarrow> x = y"
  by (simp add: distinct_map inj_on_def)

text \<open>A row of services replaced by one with the same id, place in the external index and managed flag.\<close>

lemma replace_service_inv:
  assumes inv: "db_inv d" and e: "find_service d u = Some e"
    and r: "sv_uuid row = u" "sv_external row = sv_external e" "sv_managed row = sv_managed e"
      "(sv_account row, sv_provider row) \<in> owner_pairs d" "sv_project row \<in> pj_uuid ` set (projects d)"
    and m: "sv_account row = sv_account e \<or> \<not> sv_managed e"
    and ps: "ps = payments d \<or> \<not> sv_managed e \<and> (\<exists>a b. (a, b) \<in> owner_pairs d \<and> ps = rows_update (\<lambda>p. pm_service p = Some u)
       (\<lambda>p. p \<lparr> pm_account := a, pm_provider := b \<rparr>) (payments d))"
  shows "db_inv (d \<lparr> services := row_update sv_uuid u (\<lambda>_. row) (services d), payments := ps \<rparr>)"
proof -
  let ?ss = "row_update sv_uuid u (\<lambda>_. row) (services d)"
  have eu: "e \<in> set (services d)" "sv_uuid e = u"
    using e service_table.find_sound [of u "services d" e] by (simp_all add: find_service_def)
  have only: "x = e" if "x \<in> set (services d)" "sv_uuid x = u" for x
    using distinct_row [OF db_inv_parts(1) [OF inv]] that eu by blast
  have ids: "map sv_uuid ?ss = map sv_uuid (services d)" unfolding row_update_def using r(1) by simp
  have keys: "ext_keys (map (\<lambda>s. (sv_account s, sv_external s)) ?ss) = ext_keys (map (\<lambda>s. (sv_account s, sv_external s)) (services d))"
    unfolding row_update_rows using only r(2) m db_inv_parts(3) [OF inv eu(1)] by (intro ext_keys_update) auto
  have rows: "x \<in> set ?ss \<Longrightarrow> x = row \<or> x \<in> set (services d)" for x by (auto simp: row_update_mem split: if_splits)
  have kept: "\<exists>s'\<in>set ?ss. sv_uuid s' = sv_uuid s \<and> sv_managed s' = sv_managed s" if "s \<in> set (services d)" for s
    using row_update_in [OF that, of sv_uuid u "\<lambda>_. row"] only [OF that] r(1,3) by (cases "sv_uuid s = u") auto
  have plain: "pm_external p = None" if "p \<in> set (payments d)" "pm_service p = Some u" "\<not> sv_managed e" for p
    using db_inv_parts(7) [OF inv that(1,2)] only that(3) by auto
  have p1: "map pm_uuid ps = map pm_uuid (payments d)" using ps by (auto simp: rows_update_def)
  have p2: "ext_keys (map (\<lambda>p. (pm_account p, pm_external p)) ps) = ext_keys (map (\<lambda>p. (pm_account p, pm_external p)) (payments d))"
    using ps plain by (auto intro!: ext_keys_update)
  have p3: "\<exists>p\<in>set (payments d). pm_service q = pm_service p \<and> pm_external q = pm_external p \<and>
      ((pm_account q, pm_provider q) = (pm_account p, pm_provider p) \<or> (pm_account q, pm_provider q) \<in> owner_pairs d)" if q: "q \<in> set ps" for q
    using ps
  proof
    assume "\<not> sv_managed e \<and> (\<exists>a b. (a, b) \<in> owner_pairs d \<and> ps = rows_update (\<lambda>p. pm_service p = Some u)
       (\<lambda>p. p \<lparr> pm_account := a, pm_provider := b \<rparr>) (payments d))"
    then obtain a b where ab: "(a, b) \<in> owner_pairs d"
      "ps = rows_update (\<lambda>p. pm_service p = Some u) (\<lambda>p. p \<lparr> pm_account := a, pm_provider := b \<rparr>) (payments d)" by blast
    obtain p where "p \<in> set (payments d)" "q = (if pm_service p = Some u then p \<lparr> pm_account := a, pm_provider := b \<rparr> else p)"
      using q unfolding ab(2) rows_update_mem by blast
    note ab(1) this
    then show ?thesis by (intro bexI [of _ p]) (cases "pm_service p = Some u"; simp)+
  qed (use q in blast)
  show ?thesis
  proof (rule db_inv_tables [OF inv])
    show "(sv_account s, sv_provider s) \<in> owner_pairs d \<and> sv_project s \<in> pj_uuid ` set (projects d) \<and>
       sv_managed s = (sv_external s \<noteq> None)" if "s \<in> set ?ss" for s
      using rows [OF that] r db_inv_parts(3) [OF inv eu(1)] db_inv_parts(3) [OF inv] by auto
    show "(pm_account p, pm_provider p) \<in> owner_pairs d" if "p \<in> set ps" for p
      using p3 [OF that] db_inv_parts(6) [OF inv] by auto
    show "\<exists>s\<in>set ?ss. sv_uuid s = v \<and> (pm_external p \<noteq> None \<longrightarrow> sv_managed s)" if pv: "p \<in> set ps" "pm_service p = Some v" for p v
    proof -
      obtain q where q: "q \<in> set (payments d)" "pm_service p = pm_service q" "pm_external p = pm_external q"
        using p3 [OF pv(1)] by blast
      then obtain s where s: "s \<in> set (services d)" "sv_uuid s = v" "pm_external q \<noteq> None \<longrightarrow> sv_managed s"
        using db_inv_parts(7) [OF inv q(1), of v] pv(2) by auto
      show ?thesis using kept [OF s(1)] s(2,3) q(3) by auto
    qed
  qed (use ids keys p1 p2 db_inv_parts [OF inv] in simp_all)
qed

lemma project_exists_mem: "project_exists d u = (u \<in> pj_uuid ` set (projects d))"
  by (auto simp: project_exists_def row_find_None)

lemma fresh_mem: "fresh_ids G \<Longrightarrow> G (map f xs) \<notin> f ` set xs"
  unfolding fresh_ids_def by (metis list.set_map)

lemma create_service_op_inv:
  assumes "db_inv d" "fresh_ids G"
  shows "db_inv (fst (create_service_op D G now dto d))"
proof (cases "\<exists>ow. resolve_account_owner d (sc_account dto) (sc_provider dto) = Inr ow \<and> project_exists d (sc_project dto)")
  case True
  then obtain ow where ow: "resolve_account_owner d (sc_account dto) (sc_provider dto) = Inr ow" "project_exists d (sc_project dto)"
    by blast
  obtain s where s: "fst (create_service_op D G now dto d) = create_service s d" "sv_uuid s = G (map sv_uuid (services d))"
    "sv_account s = ow_account ow" "sv_provider s = ow_provider ow" "sv_project s = sc_project dto"
    "sv_external s = None" "\<not> sv_managed s"
    using ow by (simp add: create_service_op_def Let_def)
  have "db_ok (create_service s d)"
    using assms ow fresh_mem [OF assms(2), of sv_uuid "services d"] s(2-)
    by (intro db_ok_services_append) (auto simp: db_inv_def project_exists_mem owner_ok_def dest: resolve_pair)
  moreover have "links_ok (create_service s d)"
    using assms(1) s(6,7) unfolding db_inv_def links_ok_def create_service_def by simp blast
  ultimately show ?thesis by (simp add: s(1) db_inv_def)
qed (use assms(1) in \<open>auto simp: create_service_op_def split: sum.splits\<close>)

lemma update_service_op_inv:
  assumes inv: "db_inv d"
  shows "db_inv (fst (update_service_op D u p d))"
proof (cases "snd (update_service_op D u p d)")
  case (Inl err)
  then have "fst (update_service_op D u p d) = d"
    by (auto simp: update_service_op_def Let_def split: option.splits sum.splits if_splits)
  then show ?thesis using inv by simp
next
  case (Inr row)
  then have eq: "update_service_op D u p d = (fst (update_service_op D u p d), Inr row)" by (metis prod.collapse)
  from eq show ?thesis
  proof (cases rule: update_service_op_cases)
    case (stay e)
    have e: "e \<in> set (services d)" "sv_uuid e = u"
      using stay(1) service_table.find_sound [of u "services d" e] by (simp_all add: find_service_def)
    have "coalesce (sp_project p) (sv_project e) \<in> pj_uuid ` set (projects d)"
      using stay(4) db_inv_parts(3) [OF inv e(1)] by (cases "sp_project p") (simp_all add: project_exists_mem)
    then have "db_inv (d \<lparr> services := row_update sv_uuid u (\<lambda>_. row) (services d), payments := payments d \<rparr>)"
      using patched_row_parts(7-9) [of D p e] e(2) stay(2) db_inv_parts(3) [OF inv e(1)]
      by (intro replace_service_inv [OF inv stay(1)])
         (auto simp: project_placed_eq service_id_def)
    then show ?thesis unfolding stay(3) by (simp add: update_service_def)
  next
    case (move e ow)
    let ?r0 = "project_placed p (patched_row D p e)"
    have e: "e \<in> set (services d)" "sv_uuid e = u"
      using move(1) service_table.find_sound [of u "services d" e] by (simp_all add: find_service_def)
    have ow: "(ow_account ow, ow_provider ow) \<in> owner_pairs d" using resolve_pair [OF move(3)] by (simp add: owner_ok_def)
    let ?ps = "rows_update (\<lambda>p. pm_service p = Some u)
       (\<lambda>p. p \<lparr> pm_account := ow_account ow, pm_provider := ow_provider ow \<rparr>) (payments d)"
    have "coalesce (sp_project p) (sv_project e) \<in> pj_uuid ` set (projects d)"
      using move(6) db_inv_parts(3) [OF inv e(1)] by (cases "sp_project p") (simp_all add: project_exists_mem)
    then have "db_inv (d \<lparr> services := row_update sv_uuid u (\<lambda>_. row) (services d), payments := ?ps \<rparr>)"
      using patched_row_parts(7-9) [of D p e] e(2) move(2,4) ow db_inv_parts(3) [OF inv e(1)]
      by (intro replace_service_inv [OF inv move(1)])
         (auto simp: project_placed_eq service_id_def)
    moreover have "row = ?r0 \<lparr> sv_account := ow_account ow, sv_provider := ow_provider ow \<rparr>"
      using move(4) by (simp add: placed_def)
    ultimately show ?thesis unfolding move(5) move_to_account_def Let_def update_service_def by (simp add: tables_order)
  qed
qed

lemma ext_keys_filter: "distinct (ext_keys (map g t)) \<Longrightarrow> distinct (ext_keys (map g (filter P t)))"
  by (induction t) (auto simp: ext_keys_def)

lemma remove_service_op_inv:
  assumes inv: "db_inv d"
  shows "db_inv (fst (remove_service_op u d))"
proof -
  let ?ps = "rows_update (\<lambda>p. pm_service p = Some u) (\<lambda>p. p \<lparr> pm_service := None \<rparr>) (payments d)"
  let ?ss = "row_delete sv_uuid u (services d)"
  have k: "x \<in> set ?ss = (x \<in> set (services d) \<and> sv_uuid x \<noteq> u)" for x by (rule service_table.delete_mem)
  have q: "\<exists>p\<in>set (payments d). pm_account q = pm_account p \<and> pm_provider q = pm_provider p \<and> pm_external q = pm_external p \<and>
      (pm_service q = pm_service p \<and> pm_service p \<noteq> Some u \<or> pm_service q = None)" if mem: "q \<in> set ?ps" for q
  proof -
    obtain p where "p \<in> set (payments d)" "q = (if pm_service p = Some u then p \<lparr> pm_service := None \<rparr> else p)"
      using mem unfolding rows_update_mem by blast
    then show ?thesis by (intro bexI [of _ p]) (cases "pm_service p = Some u"; simp)+
  qed
  have "db_inv (d \<lparr> services := ?ss, payments := ?ps \<rparr>)"
  proof (rule db_inv_tables [OF inv])
    show "distinct (map sv_uuid ?ss)" "distinct (ext_keys (map (\<lambda>s. (sv_account s, sv_external s)) ?ss))"
      using db_inv_parts(1,2) [OF inv] unfolding row_delete_def by (simp_all add: distinct_map_filter ext_keys_filter)
    have "map pm_uuid ?ps = map pm_uuid (payments d)" "ext_keys (map (\<lambda>p. (pm_account p, pm_external p)) ?ps) =
        ext_keys (map (\<lambda>p. (pm_account p, pm_external p)) (payments d))"
      by (simp add: rows_update_def, intro ext_keys_update) simp
    then show "distinct (map pm_uuid ?ps)" "distinct (ext_keys (map (\<lambda>p. (pm_account p, pm_external p)) ?ps))"
      using db_inv_parts(4,5) [OF inv] by simp_all
    show "\<exists>s\<in>set ?ss. sv_uuid s = v \<and> (pm_external p \<noteq> None \<longrightarrow> sv_managed s)" if pv: "p \<in> set ?ps" "pm_service p = Some v" for p v
    proof -
      obtain q where "q \<in> set (payments d)" "pm_service q = Some v" "v \<noteq> u" "pm_external p = pm_external q"
        using q [OF pv(1)] pv(2) by (metis option.distinct(1))
      then show ?thesis using db_inv_parts(7) [OF inv, of q v] k by auto
    qed
  qed (use k q db_inv_parts(3,6) [OF inv] in \<open>fastforce+\<close>)
  then show ?thesis using inv by (simp add: remove_service_op_def delete_service_def)
qed

lemma create_payment_op_inv:
  assumes inv: "db_inv d" and G: "fresh_ids G" and sv: "pc_service dto \<noteq> Some []"
  shows "db_inv (fst (create_payment_op D G dto d))"
proof (cases "\<exists>ow. resolve_account_owner d (pc_account dto) (pc_provider dto) = Inr ow \<and>
    \<not> (truthy (pc_service dto) \<and> find_service d (the (pc_service dto)) = None)")
  case True
  then obtain ow where ow: "resolve_account_owner d (pc_account dto) (pc_provider dto) = Inr ow"
    "\<not> (truthy (pc_service dto) \<and> find_service d (the (pc_service dto)) = None)" by blast
  obtain p where p: "fst (create_payment_op D G dto d) = create_payment p d" "owner_ok d ow"
    "pm_uuid p = G (map pm_uuid (payments d))" "pm_account p = ow_account ow" "pm_provider p = ow_provider ow"
    "pm_service p = pc_service dto" "pm_external p = None"
    unfolding create_payment_op_def ow(1) Let_def if_not_P [OF ow(2)] using resolve_pair [OF ow(1)] by simp
  have "u \<in> sv_uuid ` set (services d)" if "pm_service p = Some u" for u
    using ow(2) that p(6) sv by (auto simp: truthy_def find_service_def row_find_None)
  then have "db_ok (create_payment p d)"
    using inv fresh_mem [OF G, of pm_uuid "payments d"] p(2-)
    by (intro db_ok_payments_append) (simp_all add: db_inv_def owner_ok_def)
  moreover have "links_ok (create_payment p d)"
    using inv p(7) unfolding db_inv_def links_ok_def create_payment_def by simp blast
  ultimately show ?thesis by (simp add: p(1) db_inv_def)
qed (use inv in \<open>auto simp: create_payment_op_def split: sum.splits\<close>)

lemma remove_payment_op_inv:
  assumes inv: "db_inv d"
  shows "db_inv (fst (remove_payment_op u d))"
proof -
  have "db_inv (d \<lparr> services := services d, payments := row_delete pm_uuid u (payments d) \<rparr>)"
    using db_inv_parts [OF inv] unfolding row_delete_def
    by (intro db_inv_tables [OF inv]) (simp_all add: distinct_map_filter ext_keys_filter)
  then show ?thesis using inv by (simp add: remove_payment_op_def delete_payment_def)
qed

lemma move_services_inv:
  assumes inv: "db_inv d" and pj: "pj \<in> pj_uuid ` set (projects d)"
  shows "db_inv (d \<lparr> services := rows_update P (\<lambda>s. s \<lparr> sv_project := pj \<rparr>) (services d) \<rparr>)"
proof -
  let ?ss = "rows_update P (\<lambda>s. s \<lparr> sv_project := pj \<rparr>) (services d)"
  have k: "\<exists>t\<in>set (services d). s = t \<or> s = t \<lparr> sv_project := pj \<rparr>" if "s \<in> set ?ss" for s
    using that unfolding rows_update_mem by metis
  have "map sv_uuid ?ss = map sv_uuid (services d)" "ext_keys (map (\<lambda>s. (sv_account s, sv_external s)) ?ss) =
      ext_keys (map (\<lambda>s. (sv_account s, sv_external s)) (services d))"
    by (simp add: rows_update_def, intro ext_keys_update) simp
  moreover have "\<exists>s'\<in>set ?ss. sv_uuid s' = sv_uuid s \<and> sv_managed s' = sv_managed s" if "s \<in> set (services d)" for s
    by (rule bexI [OF _ rows_update_in [OF that, of P "\<lambda>s. s \<lparr> sv_project := pj \<rparr>"]]) simp
  ultimately have "db_inv (d \<lparr> services := ?ss, payments := payments d \<rparr>)"
    using db_inv_parts [OF inv] pj by (intro db_inv_tables [OF inv]) (auto dest!: k, metis)
  then show ?thesis by simp
qed

lemma projects_inv:
  assumes "db_inv d" "distinct (map pj_uuid js)" "DEFAULT_PROJECT_UUID \<in> pj_uuid ` set js"
    "sv_project ` set (services d) \<subseteq> pj_uuid ` set js"
  shows "db_inv (d \<lparr> projects := js \<rparr>)"
  using assms by (auto simp: db_inv_def links_ok_def db_ok_def accounts_ok_def services_ok_def payments_ok_def
      service_keys_def payment_keys_def owner_pairs_def)

lemma db_inv_projects: "db_inv d \<Longrightarrow> distinct (map pj_uuid (projects d)) \<and>
    DEFAULT_PROJECT_UUID \<in> pj_uuid ` set (projects d) \<and> sv_project ` set (services d) \<subseteq> pj_uuid ` set (projects d)"
  by (auto simp: db_inv_def db_ok_def accounts_ok_def services_ok_def)

lemma create_project_op_inv:
  assumes "db_inv d" "fresh_ids G"
  shows "db_inv (fst (create_project_op G n f i b d))"
  using db_inv_projects [OF assms(1)] fresh_mem [OF assms(2), of pj_uuid "projects d"] assms(1)
  by (auto simp: create_project_op_def Let_def intro!: projects_inv)

lemma patched_project_id: "pj_uuid (patched_project p j) = pj_uuid j"
  by (simp add: patched_project_def Let_def split: option.split)

lemma update_project_op_inv:
  assumes "db_inv d"
  shows "db_inv (fst (update_project_op u p d))"
proof -
  have "map pj_uuid (row_update pj_uuid u (patched_project p) (projects d)) = map pj_uuid (projects d)"
    by (rule row_update_map) (rule patched_project_id)
  then show ?thesis using db_inv_projects [OF assms] assms
      projects_inv [OF assms, of "row_update pj_uuid u (patched_project p) (projects d)"]
    by (simp add: update_project_op_def) (metis list.set_map)
qed

lemma project_moves_inv:
  assumes "db_inv d"
  shows "db_inv (fst (move_all_into u d))" "db_inv (fst (empty_project u d))"
  using assms move_services_inv [OF assms] db_inv_projects [OF assms]
  by (simp_all add: move_all_into_def empty_project_def move_all_to_project_def move_project_services_def project_exists_mem)

lemma remove_project_inv:
  assumes inv: "db_inv d"
  shows "db_inv (fst (remove_project u d))"
proof (cases "u = DEFAULT_PROJECT_UUID")
  case False
  let ?d = "fst (move_project_services u DEFAULT_PROJECT_UUID d)"
  have d: "db_inv ?d" "projects ?d = projects d" and gone: "u \<notin> sv_project ` set (services ?d)"
    using move_services_inv [OF inv] db_inv_projects [OF inv] False
    by (auto simp: move_project_services_def rows_update_def)
  have "pj_uuid ` set (row_delete pj_uuid u (projects d)) = pj_uuid ` set (projects d) - {u}"
    by (auto simp: row_delete_def)
  then have "db_inv (?d \<lparr> projects := row_delete pj_uuid u (projects d) \<rparr>)"
    using db_inv_projects [OF d(1)] gone False d(2)
    by (intro projects_inv [OF d(1)]) (auto simp: row_delete_def distinct_map_filter)
  then show ?thesis using inv d(2) by (simp add: remove_project_def delete_moving_services_def Let_def)
qed (use inv in \<open>simp add: remove_project_def\<close>)

section \<open>A sync keeps the links\<close>

lemma links_ok_cong: "services d' = services d \<Longrightarrow> payments d' = payments d \<Longrightarrow> links_ok d' = links_ok d"
  by (simp add: links_ok_def)

lemma links_ok_simps [simp]: "links_ok (d \<lparr> accounts := a \<rparr>) = links_ok d" "links_ok (d \<lparr> sync_runs := r \<rparr>) = links_ok d"
  "links_ok (d \<lparr> providers := v \<rparr>) = links_ok d" "links_ok (d \<lparr> snapshots := b \<rparr>) = links_ok d"
  by (simp_all add: links_ok_def)

lemma kept_marks: "kept s s' \<Longrightarrow> sv_managed s' = sv_managed s \<and> sv_external s' = sv_external s \<and> sv_uuid s' = sv_uuid s"
  by (simp add: kept_def service_id_def)

text \<open>Every service is kept, up to what a sync may change, and a new row is marked.\<close>

lemma links_ok_grow:
  assumes "links_ok d" "payments d' = payments d" "\<And>s. s \<in> set (services d) \<Longrightarrow> \<exists>s'\<in>set (services d'). kept s s'"
    and "\<And>s'. s' \<in> set (services d') \<Longrightarrow> sv_managed s' = (sv_external s' \<noteq> None)"
  shows "links_ok d'"
proof -
  have "\<exists>s\<in>set (services d'). sv_uuid s = u \<and> sv_managed s"
    if p: "p \<in> set (payments d)" "pm_external p \<noteq> None" "pm_service p = Some u" for p u
  proof -
    obtain s where s: "s \<in> set (services d)" "sv_uuid s = u" "sv_managed s" using assms(1) p unfolding links_ok_def by blast
    then obtain s' where "s' \<in> set (services d')" "kept s s'" using assms(3) by blast
    then show ?thesis using kept_marks s by (intro bexI [of _ s']) auto
  qed
  then show ?thesis using assms(2,4) unfolding links_ok_def by simp
qed

lemma links_marks: "links_ok d \<Longrightarrow> s \<in> set (services d) \<Longrightarrow> sv_managed s = (sv_external s \<noteq> None)"
  unfolding links_ok_def by blast

lemma upsert_service_links:
  assumes l: "links_ok d"
  shows "links_ok (upsert_service D G owner c now d sd)"
proof (rule links_ok_grow [OF l])
  show "payments (upsert_service D G owner c now d sd) = payments d"
    by (simp add: upsert_service_def create_service_def update_service_def split: option.split)
  show "sv_managed s' = (sv_external s' \<noteq> None)" if s: "s' \<in> set (services (upsert_service D G owner c now d sd))" for s'
  proof (cases "find_by_external d (ow_account owner) (sd_external sd)")
    case None
    then show ?thesis using s links_marks [OF l] by (auto simp: upsert_service_def create_service_def new_service_def)
  next
    case (Some x)
    obtain t where "t \<in> set (services d)" "s' = (if sv_uuid t = sv_uuid x then refresh_service D c sd t else t)"
      using s Some unfolding upsert_service_def update_service_def by (auto simp: row_update_mem)
    then show ?thesis using links_marks [OF l] kept_marks [OF refresh_kept [of t D c sd]] by (cases "sv_uuid t = sv_uuid x") simp_all
  qed
qed (rule upsert_service_kept)

lemma upsert_services_links: "links_ok d \<Longrightarrow> links_ok (fst (upsert_services D G owner c now fs d))"
proof -
  assume l: "links_ok d"
  let ?d = "foldl (upsert_service D G owner c now) d fs"
  have l2: "links_ok ?d" using l upsert_service_links by (intro foldl_inv [where I = links_ok])
  have "links_ok (deactivate_missing acc seen ?d)" for acc seen
  proof (rule links_ok_grow [OF l2])
    show "sv_managed s' = (sv_external s' \<noteq> None)" if "s' \<in> set (services (deactivate_missing acc seen ?d))" for s'
      using that links_marks [OF l2] unfolding deactivate_missing_def by (auto simp: rows_update_mem split: if_splits)
  qed (simp add: deactivate_missing_def, rule deactivate_kept)
  then show ?thesis by (simp add: upsert_services_def)
qed

lemma payment_link_external:
  assumes "payment_link (service_by_external d acc) p = Some u"
  shows "\<exists>s\<in>set (services d). sv_uuid s = u \<and> sv_external s \<noteq> None"
proof -
  have "\<forall>k u. mget (foldl (\<lambda>m (u, e). case e of None \<Rightarrow> m | Some x \<Rightarrow> if x = [] then m else mset_to x u m) m0 xs) k = Some u \<longrightarrow>
      mget m0 k = Some u \<or> (\<exists>e. (u, Some e) \<in> set xs)" for m0 :: "(string \<times> uuid) list" and xs :: "(uuid \<times> string option) list"
    by (induction xs arbitrary: m0) (fastforce split: option.splits if_splits)+
  note entry = this [of "[]" "list_external_ids d acc", folded service_by_external_def]
  obtain x where "mget (service_by_external d acc) x = Some u"
    using assms by (auto simp: payment_link_def split: option.splits if_splits)
  then obtain e where "(u, Some e) \<in> set (list_external_ids d acc)" using entry by auto
  then obtain s where "s \<in> set (services d)" "sv_uuid s = u" "sv_external s = Some e" by (auto simp: list_external_ids_def)
  then show ?thesis by (intro bexI [of _ s]) simp_all
qed

lemma upsert_external_links:
  assumes l: "links_ok d" and e: "\<forall>u. ep_service e = Some u \<longrightarrow> (\<exists>s\<in>set (services d). sv_uuid s = u \<and> sv_managed s)"
  shows "links_ok (upsert_external i acc pv ext e d)"
proof -
  have "q \<in> set (payments d) \<or> pm_service q = ep_service e" if "q \<in> set (payments (upsert_external i acc pv ext e d))" for q
    using that by (cases rule: upsert_external_cases [of d acc ext i pv e])
      (auto simp: rows_update_mem write_payment_def fresh_payment_def split: if_splits)
  then show ?thesis using l e unfolding links_ok_def upsert_external_services by metis
qed

lemma upsert_all_links:
  "links_ok d \<Longrightarrow> \<forall>p u. payment_link m p = Some u \<longrightarrow> (\<exists>s\<in>set (services d). sv_uuid s = u \<and> sv_managed s) \<Longrightarrow>
   links_ok (fst (upsert_all D G owner m ps d))"
proof (induction ps arbitrary: d)
  case (Cons p ps)
  show ?case
  proof (cases "pd_date p")
    case (Some t)
    let ?d = "upsert_external (G (map pm_uuid (payments d))) (ow_account owner) (ow_provider owner) (pd_external p)
      (external_of D m p t) d"
    have "links_ok ?d" using Cons.prems by (intro upsert_external_links) (simp_all add: external_of_def)
    then have "links_ok (fst (upsert_all D G owner m ps ?d))" using Cons.prems(2) by (intro Cons.IH) simp_all
    then show ?thesis using Some by (simp add: external_of_def)
  qed (use Cons.prems in simp)
qed simp

lemma upsert_payments_links: "links_ok d \<Longrightarrow> links_ok (fst (upsert_payments D G owner ps d))"
proof -
  assume l: "links_ok d"
  have "\<forall>p u. payment_link (service_by_external d (ow_account owner)) p = Some u \<longrightarrow>
      (\<exists>s\<in>set (services d). sv_uuid s = u \<and> sv_managed s)"
    using payment_link_external links_marks [OF l] by blast
  then show ?thesis using l upsert_all_links [OF l] by (simp add: upsert_payments_def)
qed

lemma sync_try_links:
  assumes l: "links_ok d"
  shows "links_ok (fst (sync_try E a pv d))"
proof -
  have f: "links_ok (fst (sync_favicon pv c d))" for c
    using l links_ok_cong [of "fst (sync_favicon pv c d)" d] by (auto simp: sync_favicon_def split: option.splits sum.splits)
  have b: "links_ok (sync_balance E acc remote d')" if "links_ok d'" for acc remote d'
    using that links_ok_cong [of "sync_balance E acc remote d'" d']
    by (simp add: sync_balance_def Let_def record_snapshot_def update_balance_def update_account_def split: option.splits)
  have p: "links_ok (sync_payments E owner c d')" if "links_ok d'" for owner c d'
    using that upsert_payments_links [OF that] by (simp add: sync_payments_def split: option.split sum.split)
  show ?thesis
    using l f b [OF f] p [OF upsert_services_links [OF b [OF f]]]
    by (simp add: sync_try_def Let_def case_prod_beta split: option.split sum.split)
qed

lemma sync_account_inv:
  assumes "db_inv d" "fresh_ids (se_new_id E)"
  shows "db_inv (fst (sync_account E acc d))"
proof -
  have "links_ok (fst (sync_try E a pv (d \<lparr> sync_runs := r \<rparr>)))" for a pv r
    using assms(1) by (intro sync_try_links) (simp add: db_inv_def)
  then have "links_ok (fst (sync_account E acc d))"
    using assms(1) by (auto simp: sync_account_def case_prod_beta Let_def create_running_def mark_ok_def mark_error_def
        mark_synced_def record_sync_error_def update_account_def db_inv_def split: option.splits sum.splits)
  then show ?thesis using assms sync_account_ok [of d E acc] by (simp add: db_inv_def)
qed

section \<open>Projects\<close>

text \<open>Deleting a project never deletes a service: every service stays, unchanged but for those of the project, which
  move to the default project; the project is gone and no other project changes.  The default project is refused.\<close>

theorem remove_project_keeps_services:
  assumes "project_exists d u" "u \<noteq> DEFAULT_PROJECT_UUID"
  shows "services (fst (remove_project u d)) =
      map (\<lambda>s. if sv_project s = u then s \<lparr> sv_project := DEFAULT_PROJECT_UUID \<rparr> else s) (services d) \<and>
    projects (fst (remove_project u d)) = filter (\<lambda>j. pj_uuid j \<noteq> u) (projects d) \<and>
    payments (fst (remove_project u d)) = payments d \<and>
    fst (remove_project DEFAULT_PROJECT_UUID d) = d"
  using assms by (simp add: remove_project_def delete_moving_services_def move_project_services_def Let_def
      rows_update_def row_delete_def)

definition two_projects :: db where
  "two_projects = sample_db \<lparr> projects := projects sample_db @ [\<lparr> pj_uuid = ''j2'', pj_name = ''Side'', pj_favicon = None,
     pj_icon_name = None, pj_icon_bg = None \<rparr>], services := [sample_service \<lparr> sv_project := ''j2'' \<rparr>] \<rparr>"

lemma remove_project_keeps_services_witness:
  "services (fst (remove_project ''j2'' two_projects)) = [sample_service] \<and> length (projects (fst (remove_project ''j2'' two_projects))) = 1"
  using remove_project_keeps_services [of two_projects "''j2''"]
  by (simp add: two_projects_def project_exists_def row_find_def sample_db_def sample_service_def DEFAULT_PROJECT_UUID_def)

section \<open>Pages of payments\<close>

lemma pages_prefix: "concat (map (\<lambda>i. take n (drop (i * n) xs)) [0..<k]) = take (k * n) xs"
  by (induction k) (simp_all add: take_add [symmetric] add.commute)

text \<open>The pages of the payment list are consecutive: one after the other they give the whole filtered list, newest
  first, each payment exactly once and at most a page size per page; every page reports the same total.\<close>

theorem pages_cover:
  assumes "0 < n" "cnt = length (filtered_payments d f)"
  shows "concat (map (\<lambda>page. fst (list_paginated d f (page + 1) n)) [0..<(cnt + n - 1) div n]) =
      sort_key (\<lambda>p. - pm_date p) (filtered_payments d f) \<and>
    length (fst (list_paginated d f page n)) \<le> n \<and> snd (list_paginated d f page n) = cnt"
proof -
  have "cnt \<le> (cnt + n - 1) div n * n"
    using assms(1) div_mult_mod_eq [of "cnt + n - 1" n] mod_less_divisor [OF assms(1), of "cnt + n - 1"] by linarith
  then show ?thesis using pages_prefix [of n "sort_key (\<lambda>p. - pm_date p) (filtered_payments d f)" "(cnt + n - 1) div n"] assms(2)
    by (simp add: list_paginated_def)
qed

lemma pages_cover_witness:
  "fst (list_paginated sample_db \<lparr> pf_provider = None, pf_account = None, pf_service = None, pf_from = None, pf_to = None \<rparr> 1 50) = payments sample_db"
  using pages_cover [of 50 1 sample_db "\<lparr> pf_provider = None, pf_account = None, pf_service = None, pf_from = None, pf_to = None \<rparr>"]
  by (simp add: filtered_payments_def sample_db_def)

end
