(* ===== verification/Json.thy ===== *)
theory Json
  imports Schema
begin

text \<open>
  JSON.stringify on flat objects and JSON.parse, as the code uses them on the credentials it stores:
  texts over the Latin-1 range, objects as the list of their members in order.  The printer takes
  the white space of JSON.stringify's indent argument; the reader is the grammar of RFC 8259 with a
  fuel that bounds the depth of its calls.  What the printer writes, the reader gives back.
\<close>

section \<open>Printing\<close>

definition ccode :: "char \<Rightarrow> nat" where "ccode c = of_char c"

definition hex_digit :: "nat \<Rightarrow> char" where
  "hex_digit n = (if n < 10 then char_of (48 + n) else char_of (87 + n))"

definition QUOTE :: char where "QUOTE = CHR 0x22"
definition BSLASH :: char where "BSLASH = CHR 0x5C"

definition esc_char :: "char \<Rightarrow> string" where
  "esc_char c =
     (if c = QUOTE \<or> c = BSLASH then [BSLASH, c]
      else if ccode c = 8 then [BSLASH, CHR ''b''] else if ccode c = 9 then [BSLASH, CHR ''t'']
      else if ccode c = 10 then [BSLASH, CHR ''n''] else if ccode c = 12 then [BSLASH, CHR ''f'']
      else if ccode c = 13 then [BSLASH, CHR ''r'']
      else if ccode c < 32 then [BSLASH, CHR ''u'', CHR ''0'', CHR ''0'', hex_digit (ccode c div 16), hex_digit (ccode c mod 16)]
      else [c])"

definition quoted :: "string \<Rightarrow> string" where
  "quoted s = QUOTE # concat (map esc_char s) @ [QUOTE]"

datatype field = FText string | FFlag bool | FNum nat

fun field_text :: "field \<Rightarrow> string" where
  "field_text (FText s) = quoted s"
| "field_text (FFlag b) = (if b then ''true'' else ''false'')"
| "field_text (FNum n) = nat_text n"

fun field_json :: "field \<Rightarrow> json" where
  "field_json (FText s) = JStr s"
| "field_json (FFlag b) = JBool b"
| "field_json (FNum n) = JNum (of_nat n)"

text \<open>The members of an object: pre before each, post after the last, mid after each colon.\<close>

fun members_text :: "string \<Rightarrow> string \<Rightarrow> string \<Rightarrow> (string \<times> field) list \<Rightarrow> string" where
  "members_text pre mid post [] = ''}''"
| "members_text pre mid post [(k, v)] = pre @ quoted k @ '':'' @ mid @ field_text v @ post @ ''}''"
| "members_text pre mid post ((k, v) # fs) = pre @ quoted k @ '':'' @ mid @ field_text v @ '','' @ members_text pre mid post fs"

definition stringify :: "(string \<times> field) list \<Rightarrow> string" where
  "stringify fs = CHR ''{'' # members_text [] [] [] fs"

definition stringify2 :: "(string \<times> field) list \<Rightarrow> string" where
  "stringify2 fs = CHR ''{'' # members_text (CHR 0x0A # ''  '') '' '' [CHR 0x0A] fs"

section \<open>Reading\<close>

definition json_ws :: "char \<Rightarrow> bool" where "json_ws c = (ccode c \<in> {9, 10, 13, 32})"

definition skip_ws :: "string \<Rightarrow> string" where "skip_ws s = dropWhile json_ws s"

definition hex_value :: "char \<Rightarrow> nat option" where
  "hex_value c = (let n = ccode c in
     if 48 \<le> n \<and> n \<le> 57 then Some (n - 48) else if 97 \<le> n \<and> n \<le> 102 then Some (n - 87)
     else if 65 \<le> n \<and> n \<le> 70 then Some (n - 55) else None)"

definition simple_escape :: "char \<Rightarrow> char option" where
  "simple_escape c =
     (if c = QUOTE \<or> c = BSLASH \<or> c = CHR ''/'' then Some c
      else if c = CHR ''b'' then Some (CHR 0x08) else if c = CHR ''t'' then Some (CHR 0x09)
      else if c = CHR ''n'' then Some (CHR 0x0A) else if c = CHR ''f'' then Some (CHR 0x0C)
      else if c = CHR ''r'' then Some (CHR 0x0D) else None)"

text \<open>The four digits after a backslash and u; a code above 255 is outside the alphabet.\<close>

definition unicode_escape :: "char \<Rightarrow> char \<Rightarrow> char \<Rightarrow> char \<Rightarrow> char option" where
  "unicode_escape a b c d = (case (hex_value a, hex_value b, hex_value c, hex_value d) of
     (Some w, Some x, Some y, Some z) \<Rightarrow> if w = 0 \<and> x = 0 then Some (char_of (16 * y + z)) else None | _ \<Rightarrow> None)"

fun cons_char :: "char option \<Rightarrow> (string \<times> string) option \<Rightarrow> (string \<times> string) option" where
  "cons_char (Some c) (Some (s, r)) = Some (c # s, r)"
| "cons_char _ _ = None"

text \<open>A string literal after its opening quote.\<close>

fun read_string :: "string \<Rightarrow> (string \<times> string) option" where
  "read_string [] = None"
| "read_string (c # r) =
     (if c = QUOTE then Some ([], r)
      else if c = BSLASH then (case r of [] \<Rightarrow> None
        | e # r1 \<Rightarrow> if e = CHR ''u'' then (case r1 of h1 # h2 # h3 # h4 # r2 \<Rightarrow> cons_char (unicode_escape h1 h2 h3 h4) (read_string r2) | _ \<Rightarrow> None)
                    else cons_char (simple_escape e) (read_string r1))
      else if ccode c < 32 then None
      else cons_char (Some c) (read_string r))"

text \<open>A number: sign, integer part without leading zero, fraction, exponent.\<close>

definition take_digits :: "string \<Rightarrow> string \<times> string" where
  "take_digits s = (takeWhile is_digit s, dropWhile is_digit s)"

definition read_fraction :: "string \<Rightarrow> string option \<times> string" where
  "read_fraction s = (case s of c # x \<Rightarrow> if c = CHR ''.'' then (Some (fst (take_digits x)), snd (take_digits x)) else (None, s)
     | [] \<Rightarrow> (None, s))"

definition read_exponent :: "string \<Rightarrow> (int \<times> string) option" where
  "read_exponent s = (case s of [] \<Rightarrow> Some (0, s)
     | c # r \<Rightarrow> if c \<noteq> CHR ''e'' \<and> c \<noteq> CHR ''E'' then Some (0, s) else
        (let neg = (case r of x # _ \<Rightarrow> x = CHR ''-'' | [] \<Rightarrow> False);
             t = (case r of x # y \<Rightarrow> if x = CHR ''-'' \<or> x = CHR ''+'' then y else r | [] \<Rightarrow> r);
             (d, rest) = take_digits t
         in if d = [] then None else Some (if neg then - int (number_of_digits d) else int (number_of_digits d), rest)))"

definition read_number :: "string \<Rightarrow> (json \<times> string) option" where
  "read_number s =
     (let (neg, t) = strip_minus s; (whole, r) = take_digits t;
          (frac, r2) = read_fraction r
      in if whole = [] \<or> (length whole > 1 \<and> hd whole = CHR ''0'') \<or> frac = Some [] then None
         else case read_exponent r2 of None \<Rightarrow> None
           | Some (e, rest) \<Rightarrow> let f = coalesce frac [];
               v = of_nat (number_of_digits (whole @ f)) * 10 powi (e - int (length f))
             in Some (JNum (if neg then - v else v), rest))"

definition read_word :: "string \<Rightarrow> (json \<times> string) option" where
  "read_word s =
     (if starts_with ''true'' s then Some (JBool True, drop 4 s)
      else if starts_with ''false'' s then Some (JBool False, drop 5 s)
      else if starts_with ''null'' s then Some (JNull, drop 4 s) else read_number s)"

fun read_value :: "nat \<Rightarrow> string \<Rightarrow> (json \<times> string) option"
  and read_items :: "nat \<Rightarrow> string \<Rightarrow> (json list \<times> string) option"
  and read_members :: "nat \<Rightarrow> string \<Rightarrow> (json_obj \<times> string) option" where
  "read_value 0 s = None"
| "read_value (Suc n) s = (case skip_ws s of [] \<Rightarrow> None
    | c # r \<Rightarrow>
      if c = QUOTE then map_option (\<lambda>(t, q). (JStr t, q)) (read_string r)
      else if c = CHR ''{'' then (case skip_ws r of [] \<Rightarrow> None | x # q \<Rightarrow> if x = CHR ''}'' then Some (JObj [], q)
         else map_option (\<lambda>(m, p). (JObj m, p)) (read_members n r))
      else if c = CHR ''['' then (case skip_ws r of [] \<Rightarrow> None | x # q \<Rightarrow> if x = CHR '']'' then Some (JArr [], q)
         else map_option (\<lambda>(m, p). (JArr m, p)) (read_items n r))
      else read_word (c # r))"
| "read_items 0 s = None"
| "read_items (Suc n) s = (case read_value n s of None \<Rightarrow> None
    | Some (v, r) \<Rightarrow> (case skip_ws r of [] \<Rightarrow> None
      | c # q \<Rightarrow> if c = CHR '']'' then Some ([v], q)
        else if c = CHR '','' then map_option (\<lambda>(vs, p). (v # vs, p)) (read_items n q) else None))"
| "read_members 0 s = None"
| "read_members (Suc n) s = (case skip_ws s of [] \<Rightarrow> None
    | c # r \<Rightarrow> if c \<noteq> QUOTE then None else (case read_string r of None \<Rightarrow> None
      | Some (k, r1) \<Rightarrow> (case skip_ws r1 of [] \<Rightarrow> None
        | d # r2 \<Rightarrow> if d \<noteq> CHR '':'' then None else (case read_value n r2 of None \<Rightarrow> None
          | Some (v, r3) \<Rightarrow> (case skip_ws r3 of [] \<Rightarrow> None
            | e # r4 \<Rightarrow> if e = CHR ''}'' then Some ([(k, v)], r4)
              else if e = CHR '','' then map_option (\<lambda>(m, p). ((k, v) # m, p)) (read_members n r4) else None)))))"

definition json_parse :: "string \<Rightarrow> json option" where
  "json_parse s = (case read_value (2 * length s + 2) s of None \<Rightarrow> None
     | Some (v, r) \<Rightarrow> if skip_ws r = [] then Some v else None)"

text \<open>The value of a member: the last one of a name counts.\<close>

definition json_prop :: "json \<Rightarrow> string \<Rightarrow> json option" where
  "json_prop j k = (case j of JObj m \<Rightarrow> map_of (rev m) k | _ \<Rightarrow> None)"

section \<open>What is printed is read back\<close>

lemma ccode_inject: "(ccode c = ccode d) = (c = d)"
  unfolding ccode_def by (metis char_of_char)

lemma ccode_char_of: "n < 256 \<Longrightarrow> ccode (char_of n) = n"
  by (simp add: ccode_def take_bit_eq_mod)

lemma special_chars: "ccode QUOTE = 34" "ccode BSLASH = 92"
  by (simp_all add: QUOTE_def BSLASH_def ccode_def)

lemma control_chars: "ccode c = 8 \<Longrightarrow> c = CHR 0x08" "ccode c = 9 \<Longrightarrow> c = CHR 0x09" "ccode c = 10 \<Longrightarrow> c = CHR 0x0A"
  "ccode c = 12 \<Longrightarrow> c = CHR 0x0C" "ccode c = 13 \<Longrightarrow> c = CHR 0x0D"
  using ccode_inject [of c "CHR 0x08"] ccode_inject [of c "CHR 0x09"] ccode_inject [of c "CHR 0x0A"]
    ccode_inject [of c "CHR 0x0C"] ccode_inject [of c "CHR 0x0D"] by (simp_all add: ccode_def)

lemma hex_digit_value: "n < 16 \<Longrightarrow> hex_value (hex_digit n) = Some n"
  by (simp add: hex_value_def hex_digit_def ccode_char_of Let_def)

lemma unicode_escape_control: "ccode c < 32 \<Longrightarrow>
    unicode_escape (CHR ''0'') (CHR ''0'') (hex_digit (ccode c div 16)) (hex_digit (ccode c mod 16)) = Some c"
proof -
  assume c: "ccode c < 32"
  have "hex_value (CHR ''0'') = Some 0" by (simp add: hex_value_def ccode_def)
  then show ?thesis using c by (simp add: unicode_escape_def hex_digit_value) (simp add: ccode_def)
qed

lemma QUOTE_not: "QUOTE \<noteq> BSLASH" "CHR ''u'' \<noteq> QUOTE" "CHR ''u'' \<noteq> BSLASH" "CHR ''b'' \<noteq> CHR ''u''" "CHR ''t'' \<noteq> CHR ''u''"
  "CHR ''n'' \<noteq> CHR ''u''" "CHR ''f'' \<noteq> CHR ''u''" "CHR ''r'' \<noteq> CHR ''u''"
  by (simp_all add: QUOTE_def BSLASH_def)

lemma simple_escapes: "simple_escape QUOTE = Some QUOTE" "simple_escape BSLASH = Some BSLASH"
  "simple_escape CHR ''b'' = Some (CHR 0x08)" "simple_escape CHR ''t'' = Some (CHR 0x09)"
  "simple_escape CHR ''n'' = Some (CHR 0x0A)" "simple_escape CHR ''f'' = Some (CHR 0x0C)"
  "simple_escape CHR ''r'' = Some (CHR 0x0D)"
  by (simp_all add: simple_escape_def QUOTE_def BSLASH_def)

lemma read_simple: "e \<noteq> CHR ''u'' \<Longrightarrow> read_string (BSLASH # e # t) = cons_char (simple_escape e) (read_string t)"
  using QUOTE_not(1) by simp

lemma read_unicode: "read_string (BSLASH # CHR ''u'' # a # b # c # d # t) = cons_char (unicode_escape a b c d) (read_string t)"
  using QUOTE_not(1) by simp

lemma read_esc_char: "read_string (esc_char c @ t) = cons_char (Some c) (read_string t)"
proof (cases "ccode c < 32")
  case True
  then have n: "c \<noteq> QUOTE" "c \<noteq> BSLASH" using special_chars by auto
  show ?thesis
    using n True unicode_escape_control [OF True] control_chars [of c]
    by (auto simp: esc_char_def read_simple read_unicode simple_escapes simp del: read_string.simps)
next
  case False
  then show ?thesis
    using QUOTE_not by (auto simp: esc_char_def read_simple simple_escapes simp del: read_string.simps)
       (simp_all add: read_string.simps)
qed

lemma read_string_printed: "read_string (concat (map esc_char s) @ QUOTE # t) = Some (s, t)"
  by (induction s) (simp_all add: read_esc_char del: read_string.simps(2), simp)

lemma json_ws_not: "\<not> json_ws QUOTE" "\<not> json_ws (CHR ''{'')" "\<not> json_ws (CHR ''}'')" "\<not> json_ws (CHR '','')" "\<not> json_ws (CHR '':'')"
  "\<not> json_ws (CHR ''t'')" "\<not> json_ws (CHR ''f'')"
  by (simp_all add: json_ws_def special_chars) (simp_all add: ccode_def)

lemma skip_ws_Cons [simp]: "\<not> json_ws c \<Longrightarrow> skip_ws (c # s) = c # s" by (simp add: skip_ws_def)

lemma skip_ws_append: "list_all json_ws w \<Longrightarrow> skip_ws (w @ s) = skip_ws s"
  by (induction w) (simp_all add: skip_ws_def)

lemma distinct_marks: "QUOTE \<noteq> CHR ''{''" "CHR ''t'' \<noteq> QUOTE" "CHR ''f'' \<noteq> QUOTE" "CHR ''}'' \<noteq> QUOTE" "QUOTE \<noteq> CHR ''}''"
  by (simp_all add: QUOTE_def)

text \<open>A printed number ends before anything that is not a digit, a dot or an exponent.\<close>

definition num_end :: "string \<Rightarrow> bool" where
  "num_end t = (case t of [] \<Rightarrow> True | c # _ \<Rightarrow> \<not> is_digit c \<and> c \<noteq> CHR ''.'' \<and> c \<noteq> CHR ''e'' \<and> c \<noteq> CHR ''E'')"

lemma num_end_marks: "num_end (CHR '','' # t)" "num_end (CHR ''}'' # t)"
  by (simp_all add: num_end_def is_digit_def)

lemma num_end_ws: "list_all json_ws w \<Longrightarrow> num_end (w @ CHR ''}'' # t)"
proof (cases w)
  case (Cons c v)
  assume "list_all json_ws w"
  then have "ccode c \<in> {9, 10, 13, 32}" by (simp add: Cons json_ws_def)
  then have "c \<in> {CHR 0x09, CHR 0x0A, CHR 0x0D, CHR '' ''}"
    using control_chars [of c] ccode_inject [of c "CHR '' ''"] by (auto simp: ccode_def)
  then show ?thesis by (auto simp: Cons num_end_def is_digit_def)
qed (simp add: num_end_marks)

lemma nat_text_hd: "10 \<le> n \<Longrightarrow> hd (nat_text n) \<noteq> CHR ''0''"
proof (induction n rule: nat_text.induct)
  case (1 n)
  have d: "digit m \<noteq> CHR ''0''" if "0 < m" "m < 10" for m
  proof
    assume "digit m = CHR ''0''"
    then have "(of_char (digit m) :: nat) = of_char (CHR ''0'')" by simp
    then show False using that by (simp add: of_char_digit)
  qed
  have "hd (nat_text n) = hd (nat_text (n div 10))"
    using 1(2) nat_text_nonempty [of "n div 10"] by (subst nat_text.simps) simp
  moreover have "n div 10 < 10 \<Longrightarrow> nat_text (n div 10) = [digit (n div 10)]" by (subst nat_text.simps) simp
  ultimately show ?case using 1 d [of "n div 10"] by (cases "n div 10 < 10") auto
qed

lemma nat_text_single: "n < 10 \<Longrightarrow> length (nat_text n) = 1" by (subst nat_text.simps) simp

lemma read_number_printed: "num_end t \<Longrightarrow> read_number (nat_text n @ t) = Some (JNum (of_nat n), t)"
proof -
  assume t: "num_end t"
  obtain c r where c: "nat_text n = c # r" using nat_text_nonempty by (cases "nat_text n") auto
  have m: "strip_minus (nat_text n @ t) = (False, nat_text n @ t)"
    using nat_text_digits [of n] by (auto simp: strip_minus_def c is_digit_def)
  have "takeWhile is_digit t = []" "dropWhile is_digit t = t" using t by (cases t; simp add: num_end_def)+
  then have d: "take_digits (nat_text n @ t) = (nat_text n, t)"
    using nat_text_digits [of n] by (simp add: take_digits_def takeWhile_append2 dropWhile_append2)
  have f: "read_fraction t = (None, t)" "read_exponent t = Some (0, t)"
    using t by (cases t; simp add: num_end_def read_fraction_def read_exponent_def)+
  have "\<not> (length (nat_text n) > 1 \<and> hd (nat_text n) = CHR ''0'')"
    using nat_text_hd [of n] nat_text_single [of n] by (cases "n < 10") auto
  then show ?thesis using nat_text_nonempty [of n] by (simp add: read_number_def m d f Let_def nat_text_value)
qed

lemma nat_text_first: "\<exists>c r. nat_text n = c # r \<and> is_digit c"
  using nat_text_digits [of n] nat_text_nonempty [of n] by (cases "nat_text n") auto

lemma digit_first:
  "is_digit c \<Longrightarrow> \<not> json_ws c \<and> c \<noteq> QUOTE \<and> c \<noteq> CHR ''{'' \<and> c \<noteq> CHR ''['' \<and> c \<noteq> CHR ''t'' \<and> c \<noteq> CHR ''f'' \<and> c \<noteq> CHR ''n''"
  by (auto simp: is_digit_def json_ws_def QUOTE_def ccode_def)

lemma read_nat: "list_all json_ws w \<Longrightarrow> num_end t \<Longrightarrow> read_value (Suc n) (w @ nat_text k @ t) = Some (JNum (of_nat k), t)"
proof -
  assume a: "list_all json_ws w" "num_end t"
  obtain c r where c: "nat_text k = c # r" "is_digit c" using nat_text_first by blast
  note d = digit_first [OF c(2)]
  have "read_word (nat_text k @ t) = Some (JNum (of_nat k), t)"
    using read_number_printed [OF a(2), of k] d by (simp add: read_word_def starts_with_def c(1))
  then show ?thesis using a(1) d by (simp add: skip_ws_append c(1))
qed

lemma read_field: "list_all json_ws w \<Longrightarrow> num_end t \<Longrightarrow> read_value (Suc n) (w @ field_text v @ t) = Some (field_json v, t)"
  using distinct_marks
  by (cases v) (auto simp: skip_ws_append quoted_def json_ws_not read_string_printed read_word_def starts_with_def read_nat simp del: read_value.simps,
    auto simp: skip_ws_append quoted_def json_ws_not read_string_printed read_word_def starts_with_def)

lemma members_text_ne: "members_text pre mid post fs \<noteq> []"
  by (induction pre mid post fs rule: members_text.induct) simp_all

lemma read_members_printed:
  assumes "list_all json_ws pre" "list_all json_ws mid" "list_all json_ws post" "fs \<noteq> []" "length fs < n"
  shows "read_members n (members_text pre mid post fs @ t) = Some (map (map_prod id field_json) fs, t)"
  using assms
proof (induction pre mid post fs arbitrary: n rule: members_text.induct)
  case (2 pre mid post k v)
  then obtain m where n: "n = Suc (Suc m)" by (metis One_nat_def length_Cons less_nat_zero_code list.size(3) not0_implies_Suc not_less_eq)
  note f = read_field [OF 2(2) num_end_ws [OF 2(3)], of m v t]
  show ?case using f 2(1,3)
    by (simp add: n skip_ws_append quoted_def json_ws_not read_string_printed del: read_value.simps)
next
  case (3 pre mid post k v f fs)
  then obtain m where n: "n = Suc (Suc m)" by (metis One_nat_def length_Cons less_nat_zero_code list.size(3) not0_implies_Suc not_less_eq)
  note f = read_field [OF 3(3) num_end_marks(1), of m v "members_text pre mid post (f # fs) @ t"]
  have rest: "read_members (Suc m) (members_text pre mid post (f # fs) @ t) = Some (map (map_prod id field_json) (f # fs), t)"
    using 3 by (intro 3(1)) (simp_all add: n)
  show ?case using f 3(2) rest unfolding n read_members.simps(2) [of "Suc m"]
    by (simp add: skip_ws_append quoted_def json_ws_not read_string_printed id_def del: read_value.simps read_members.simps)
qed simp

lemma members_text_length: "length fs \<le> length (members_text pre mid post fs)"
  by (induction pre mid post fs rule: members_text.induct) simp_all

lemma members_start: "list_all json_ws pre \<Longrightarrow> fs \<noteq> [] \<Longrightarrow> \<exists>q. skip_ws (members_text pre mid post fs) = QUOTE # q"
  by (cases "(pre, mid, post, fs)" rule: members_text.cases) (auto simp: skip_ws_append quoted_def json_ws_not)

lemma parse_printed:
  assumes "list_all json_ws pre" "list_all json_ws mid" "list_all json_ws post" "fs \<noteq> []"
  shows "json_parse (CHR ''{'' # members_text pre mid post fs) = Some (JObj (map (map_prod id field_json) fs))"
proof -
  let ?t = "members_text pre mid post fs"
  have "length fs < 2 * length (CHR ''{'' # ?t) + 1" using members_text_length [of fs pre mid post] by simp
  from read_members_printed [OF assms this, of "[]"] obtain q where
    q: "read_members (2 * length (CHR ''{'' # ?t) + 1) ?t = Some (map (map_prod id field_json) fs, [])" by simp
  obtain r where "skip_ws ?t = QUOTE # r" using members_start [OF assms(1,4)] by blast
  then have "read_value (Suc (2 * length (CHR ''{'' # ?t) + 1)) (CHR ''{'' # ?t) = Some (JObj (map (map_prod id field_json) fs), [])"
    using q distinct_marks by (simp add: json_ws_not del: read_members.simps)
  then show ?thesis by (simp add: json_parse_def skip_ws_def del: read_value.simps)
qed

theorem json_roundtrip: "fs \<noteq> [] \<Longrightarrow> json_parse (stringify fs) = Some (JObj (map (map_prod id field_json) fs))"
  "fs \<noteq> [] \<Longrightarrow> json_parse (stringify2 fs) = Some (JObj (map (map_prod id field_json) fs))"
  unfolding stringify_def stringify2_def by (rule parse_printed; simp add: json_ws_def ccode_def)+

section \<open>The fuel is enough\<close>

lemma skip_ws_length: "length (skip_ws s) \<le> length s"
  by (simp add: skip_ws_def length_dropWhile_le)

lemma skip_ws_ConsD: "skip_ws s = c # r \<Longrightarrow> length r < length s"
  using skip_ws_length [of s] by simp

lemma cons_char_Some: "cons_char c x = Some (s, r) \<Longrightarrow> \<exists>s'. x = Some (s', r)"
  by (cases "(c, x)" rule: cons_char.cases) auto

lemma read_string_length: "read_string s = Some (t, r) \<Longrightarrow> length r < length s"
proof (induction s arbitrary: t r rule: read_string.induct)
  case (2 c s)
  then show ?case
    by (auto split: if_splits list.splits dest!: cons_char_Some) (fastforce dest: less_SucI)+
qed simp

lemma read_exponent_length: "read_exponent s = Some (e, r) \<Longrightarrow> length r \<le> length s"
  using length_dropWhile_le [of is_digit]
  by (auto simp: read_exponent_def take_digits_def Let_def split: list.splits if_splits) (meson le_SucI le_trans)+

lemma read_fraction_length: "length (snd (read_fraction s)) \<le> length s"
  using length_dropWhile_le [of is_digit "tl s"] by (cases s) (auto simp: read_fraction_def take_digits_def)

lemma strip_minus_length: "length (snd (strip_minus s)) \<le> length s"
  by (cases s) (auto simp: strip_minus_def)

lemma read_number_rest: "read_number s = Some (v, r) \<Longrightarrow>
    \<exists>e. read_exponent (snd (read_fraction (dropWhile is_digit (snd (strip_minus s))))) = Some (e, r)"
  unfolding read_number_def take_digits_def Let_def case_prod_beta
  by (auto split: if_splits option.splits)

lemma read_number_length: "read_number s = Some (v, r) \<Longrightarrow> length r \<le> length s"
  using read_number_rest [of s v r] strip_minus_length [of s] length_dropWhile_le [of is_digit "snd (strip_minus s)"]
    read_fraction_length [of "dropWhile is_digit (snd (strip_minus s))"] read_exponent_length
  by (meson le_trans)

lemma read_word_length: "read_word s = Some (v, r) \<Longrightarrow> length r \<le> length s"
  by (auto simp: read_word_def dest: read_number_length split: if_splits)

lemma read_lengths:
  "read_value n s = Some (v, r) \<Longrightarrow> length r \<le> length s"
  "read_items n s = Some (vs, r) \<Longrightarrow> length r \<le> length s"
  "read_members n s = Some (ms, r) \<Longrightarrow> length r \<le> length s"
proof (induction n s and n s and n s arbitrary: v r and vs r and ms r rule: read_value_read_items_read_members.induct)
  case (2 n s)
  obtain c q where c: "skip_ws s = c # q" using 2(3) by (auto split: list.splits)
  note l = skip_ws_ConsD [OF c]
  have "length r \<le> length (c # q)"
    using 2 c l read_string_length [of q] read_word_length [of "c # q" v r] skip_ws_length [of q]
    by (auto split: if_splits list.splits dest!: skip_ws_ConsD) fastforce+
  then show ?case using skip_ws_length [of s] c by simp
next
  case (4 n s)
  then show ?case by (auto split: option.splits list.splits if_splits dest!: skip_ws_ConsD) fastforce+
next
  case (6 n s)
  then show ?case
    by (auto split: option.splits list.splits if_splits dest!: skip_ws_ConsD read_string_length) fastforce+
qed simp_all

text \<open>A deeper fuel never changes the result, so None means that the text is not JSON.\<close>

lemma read_fuel:
  "(2 * length s + 1 \<le> n \<longrightarrow> n \<le> m \<longrightarrow> read_value m s = read_value n s) \<and>
   (2 * length s + 2 \<le> n \<longrightarrow> n \<le> m \<longrightarrow> read_items m s = read_items n s \<and> read_members m s = read_members n s)"
proof (induction n arbitrary: s m)
  case (Suc n)
  have val: "read_value m s = read_value (Suc n) s" if "2 * length s + 1 \<le> Suc n" "Suc n \<le> m" for s m
  proof -
    obtain k where m: "m = Suc k" "n \<le> k" using \<open>Suc n \<le> m\<close> by (cases m) simp_all
    have "read_items k r = read_items n r \<and> read_members k r = read_members n r" if "skip_ws s = c # r" for c r
      using skip_ws_ConsD [OF that] \<open>2 * length s + 1 \<le> Suc n\<close> m Suc [of r k] by simp
    then show ?thesis unfolding m(1) read_value.simps by (simp split: list.split)
  qed
  have items: "read_items m s = read_items (Suc n) s" if "2 * length s + 2 \<le> Suc n" "Suc n \<le> m" for s m
  proof -
    obtain k where m: "m = Suc k" "n \<le> k" using \<open>Suc n \<le> m\<close> by (cases m) simp_all
    have v: "read_value k s = read_value n s" using m that Suc [of s k] by simp
    have "read_items k q = read_items n q" if "read_value n s = Some (v, r)" "skip_ws r = c # q" for v r c q
      using skip_ws_ConsD [OF that(2)] read_lengths(1) [OF that(1)] \<open>2 * length s + 2 \<le> Suc n\<close> m Suc [of q k] by simp
    then show ?thesis unfolding m(1) read_items.simps v by (simp split: option.split list.split)
  qed
  have members: "read_members m s = read_members (Suc n) s" if "2 * length s + 2 \<le> Suc n" "Suc n \<le> m" for s m
  proof -
    obtain k where m: "m = Suc k" "n \<le> k" using \<open>Suc n \<le> m\<close> by (cases m) simp_all
    have v: "read_value k b = read_value n b" if "skip_ws s = c # r" "read_string r = Some (t, p)" "skip_ws p = d # b" for c r t p d b
      using skip_ws_ConsD [OF that(1)] skip_ws_ConsD [OF that(3)] read_string_length [OF that(2)]
        \<open>2 * length s + 2 \<le> Suc n\<close> m Suc [of b k] by simp
    have w: "read_members k q = read_members n q" if "skip_ws s = c # r" "read_string r = Some (t, p)" "skip_ws p = d # b"
        "read_value n b = Some (x, y)" "skip_ws y = e # q" for c r t p d b x y e q
      using skip_ws_ConsD [OF that(1)] skip_ws_ConsD [OF that(3)] read_string_length [OF that(2)] skip_ws_ConsD [OF that(5)]
        read_lengths(1) [OF that(4)] \<open>2 * length s + 2 \<le> Suc n\<close> m Suc [of q k] by simp
    show ?thesis unfolding m(1) read_members.simps using v w by (simp split: option.split list.split)
  qed
  show ?case using val items members by blast
qed simp

lemma json_parse_fuel: "2 * length s + 2 \<le> n \<Longrightarrow>
    json_parse s = (case read_value n s of None \<Rightarrow> None | Some (v, r) \<Rightarrow> if skip_ws r = [] then Some v else None)"
  using read_fuel [of s "2 * length s + 2" n] by (simp add: json_parse_def)

end
