(* ===== verification/Credentials.thy ===== *)
theory Credentials
  imports Json
begin

text \<open>
  The encrypted credentials of an account: providers/provider-credentials.service.ts over
  crypto/crypto.service.ts.  The cipher of node:crypto is the parameter crypto_lib.  The texts
  inside a blob are read at the types the code declares for them: a member that is not a string
  counts as absent.
\<close>

section \<open>crypto.service.ts\<close>

record crypto_lib =
  seal :: "string \<Rightarrow> string \<Rightarrow> string \<times> string"
  unseal :: "string \<Rightarrow> string \<Rightarrow> string \<Rightarrow> string option"

definition IV_LENGTH :: nat where "IV_LENGTH = 12"
definition AUTH_TAG_LENGTH :: nat where "AUTH_TAG_LENGTH = 16"

definition encrypt :: "crypto_lib \<Rightarrow> string \<Rightarrow> string \<Rightarrow> string" where
  "encrypt C iv plain = (let (ciphertext, tag) = seal C iv plain in iv @ ciphertext @ tag)"

definition decrypt :: "crypto_lib \<Rightarrow> string \<Rightarrow> string option" where
  "decrypt C payload =
     (if length payload < IV_LENGTH + AUTH_TAG_LENGTH then None
      else let iv = take IV_LENGTH payload; tag = drop (length payload - AUTH_TAG_LENGTH) payload;
             ciphertext = drop IV_LENGTH (take (length payload - AUTH_TAG_LENGTH) payload)
           in unseal C iv ciphertext tag)"

text \<open>What AES-256-GCM promises: a tag of 16 bytes, and the plain text back under the same nonce.\<close>

definition crypto_ok :: "crypto_lib \<Rightarrow> bool" where
  "crypto_ok C = (\<forall>iv p. length iv = IV_LENGTH \<longrightarrow> length (snd (seal C iv p)) = AUTH_TAG_LENGTH \<and>
     unseal C iv (fst (seal C iv p)) (snd (seal C iv p)) = Some p)"

lemma decrypt_encrypt: "crypto_ok C \<Longrightarrow> length iv = IV_LENGTH \<Longrightarrow> decrypt C (encrypt C iv p) = Some p"
  by (auto simp: crypto_ok_def encrypt_def decrypt_def case_prod_beta)

section \<open>Reading a blob\<close>

definition decrypt_raw :: "crypto_lib \<Rightarrow> string \<Rightarrow> string option" where
  "decrypt_raw C enc = (case decrypt C enc of None \<Rightarrow> None | Some raw \<Rightarrow> if raw = [] then None else Some raw)"

definition decode_credentials :: "crypto_lib \<Rightarrow> string option \<Rightarrow> json" where
  "decode_credentials C enc = (case enc of None \<Rightarrow> JObj []
     | Some e \<Rightarrow> (case decrypt C e of None \<Rightarrow> JObj [] | Some raw \<Rightarrow> coalesce (json_parse raw) (JObj [])))"

definition cred :: "json \<Rightarrow> string \<Rightarrow> string option" where
  "cred c k = (case json_prop c k of Some (JStr s) \<Rightarrow> Some s | _ \<Rightarrow> None)"

definition parse_aeza :: "string \<Rightarrow> json" where
  "parse_aeza raw = (case json_parse raw of Some (JObj m) \<Rightarrow> JObj m | Some (JArr xs) \<Rightarrow> JArr xs
     | _ \<Rightarrow> JObj [(''token'', JStr raw)])"

definition decode_aeza :: "crypto_lib \<Rightarrow> string option \<Rightarrow> json" where
  "decode_aeza C enc = (case enc of None \<Rightarrow> JObj []
     | Some e \<Rightarrow> (case decrypt_raw C e of None \<Rightarrow> JObj [] | Some raw \<Rightarrow> parse_aeza raw))"

record openrouter_creds =
  or_token :: "string option"
  or_catalog :: "bool option"

definition parse_openrouter :: "string \<Rightarrow> openrouter_creds" where
  "parse_openrouter raw =
     (let p = coalesce (json_parse raw) JNull in
      if json_prop p ''token'' \<noteq> None
      then \<lparr> or_token = Some (coalesce (cred p ''token'') []), or_catalog = Some (json_prop p ''useCatalogNames'' \<noteq> Some (JBool False)) \<rparr>
      else \<lparr> or_token = Some raw, or_catalog = Some True \<rparr>)"

definition decode_openrouter :: "crypto_lib \<Rightarrow> string option \<Rightarrow> openrouter_creds" where
  "decode_openrouter C enc = (case enc of None \<Rightarrow> \<lparr> or_token = None, or_catalog = None \<rparr>
     | Some e \<Rightarrow> (case decrypt_raw C e of None \<Rightarrow> \<lparr> or_token = None, or_catalog = None \<rparr> | Some raw \<Rightarrow> parse_openrouter raw))"

section \<open>Hints and presence flags\<close>

definition opt_json :: "string option \<Rightarrow> json" where
  "opt_json v = (case v of None \<Rightarrow> JNull | Some s \<Rightarrow> JStr s)"

definition non_secret_hints :: "crypto_lib \<Rightarrow> string \<Rightarrow> string option \<Rightarrow> json_obj" where
  "non_secret_hints C kind enc =
     (let hint = (\<lambda>k. (k, opt_json (cred (decode_credentials C enc) k))) in
      if kind = ''selectel'' then [hint ''accountId'', hint ''username'', hint ''projectName'']
      else if kind = ''4vps'' then [hint ''panelId'']
      else if kind = ''vdsina'' then [hint ''baseUrl'']
      else if kind = ''aeza'' then [(''baseUrl'', opt_json (cred (decode_aeza C enc) ''baseUrl''))]
      else if kind = ''openrouter'' then [(''useCatalogNames'', JBool (or_catalog (decode_openrouter C enc) \<noteq> Some False))]
      else if kind = ''beget'' \<or> kind = ''doubleservers'' then [hint ''username'']
      else if kind = ''cloudflare'' then [hint ''accountId'']
      else if kind = ''hostbill'' \<or> kind = ''billmgr'' then [hint ''baseUrl'', hint ''username'']
      else [])"

definition RAW_TOKEN_KINDS :: "string list" where
  "RAW_TOKEN_KINDS = [''timeweb'', ''hetzner'', ''hostkey'', ''netcup'', ''netlen'', ''vultr'', ''linode'', ''netangels'',
     ''stormwall'', ''hostup'']"

definition secret_presence :: "crypto_lib \<Rightarrow> string \<Rightarrow> string option \<Rightarrow> json_obj" where
  "secret_presence C kind enc =
     (let c = decode_credentials C enc; has = (\<lambda>k. JBool (truthy (cred c k))) in
      if kind = ''manual'' \<or> enc = None then
        [(''hasToken'', JBool False), (''hasPassword'', JBool False), (''hasTotpSecret'', JBool False),
         (''hasApiPassword'', JBool False), (''hasSecretKey'', JBool False)]
      else if kind \<in> set RAW_TOKEN_KINDS then [(''hasToken'', JBool True)]
      else if kind = ''openrouter'' then [(''hasToken'', JBool (truthy (or_token (decode_openrouter C enc))))]
      else if kind = ''aeza'' then [(''hasToken'', JBool (truthy (cred (decode_aeza C enc) ''token'')))]
      else if kind = ''4vps'' \<or> kind = ''vdsina'' then [(''hasToken'', has ''token'')]
      else if kind = ''cloudflare'' then [(''hasToken'', has ''apiToken'')]
      else if kind = ''porkbun'' then [(''hasToken'', has ''apiKey''), (''hasSecretKey'', has ''secretApiKey'')]
      else if kind = ''spaceship'' then [(''hasToken'', has ''apiKey''), (''hasSecretKey'', has ''apiSecret'')]
      else if kind = ''yandex'' then
        [(''hasToken'', JBool (truthy (cred c ''keyId'') \<and> truthy (cred c ''serviceAccountId'') \<and> truthy (cred c ''privateKey'')))]
      else if kind = ''selectel'' then [(''hasPassword'', has ''password'')]
      else if kind = ''billmgr'' \<or> kind = ''hostbill'' then [(''hasPassword'', has ''password''), (''hasTotpSecret'', has ''totpSecret'')]
      else if kind = ''beget'' then
        [(''hasPassword'', has ''password''), (''hasTotpSecret'', has ''totpSecret''), (''hasApiPassword'', has ''apiPassword'')]
      else if kind = ''doubleservers'' then [(''hasPassword'', has ''password''), (''hasTotpSecret'', has ''totpSecret'')]
      else [(''hasToken'', JBool True)])"

definition hints :: "crypto_lib \<Rightarrow> string \<Rightarrow> string option \<Rightarrow> json_obj" where
  "hints C kind enc = non_secret_hints C kind enc @ secret_presence C kind enc"

section \<open>Reveal\<close>

definition shown :: "string \<Rightarrow> string option \<Rightarrow> (string \<times> string) list" where
  "shown k v = (if truthy v then [(k, the v)] else [])"

definition yandex_key_text :: "string \<Rightarrow> string \<Rightarrow> string \<Rightarrow> string" where
  "yandex_key_text i a k = stringify2 [(''id'', FText i), (''service_account_id'', FText a), (''private_key'', FText k)]"

definition reveal :: "crypto_lib \<Rightarrow> string \<Rightarrow> string option \<Rightarrow> (string \<times> string) list" where
  "reveal C kind enc =
     (let c = decode_credentials C enc in
      if enc = None \<or> kind = ''manual'' then []
      else if kind \<in> set RAW_TOKEN_KINDS then shown ''token'' (decrypt_raw C (the enc))
      else if kind = ''openrouter'' then shown ''token'' (or_token (decode_openrouter C enc))
      else if kind = ''aeza'' then shown ''token'' (cred (decode_aeza C enc) ''token'')
      else if kind = ''4vps'' \<or> kind = ''vdsina'' then shown ''token'' (cred c ''token'')
      else if kind = ''cloudflare'' then shown ''token'' (cred c ''apiToken'')
      else if kind = ''porkbun'' then shown ''token'' (cred c ''apiKey'') @ shown ''secretKey'' (cred c ''secretApiKey'')
      else if kind = ''spaceship'' then shown ''token'' (cred c ''apiKey'') @ shown ''secretKey'' (cred c ''apiSecret'')
      else if kind = ''yandex'' then
        (if \<not> truthy (cred c ''keyId'') \<or> \<not> truthy (cred c ''serviceAccountId'') \<or> \<not> truthy (cred c ''privateKey'') then []
         else [(''token'', yandex_key_text (the (cred c ''keyId'')) (the (cred c ''serviceAccountId'')) (the (cred c ''privateKey'')))])
      else if kind = ''selectel'' then shown ''password'' (cred c ''password'')
      else if kind = ''billmgr'' \<or> kind = ''hostbill'' then shown ''password'' (cred c ''password'') @ shown ''totpSecret'' (cred c ''totpSecret'')
      else if kind = ''beget'' then shown ''password'' (cred c ''password'') @ shown ''totpSecret'' (cred c ''totpSecret'') @
        shown ''apiPassword'' (cred c ''apiPassword'')
      else if kind = ''doubleservers'' then shown ''password'' (cred c ''password'') @ shown ''totpSecret'' (cred c ''totpSecret'')
      else shown ''token'' (decrypt_raw C (the enc)))"

section \<open>Building a blob\<close>

record cred_dto =
  cd_token :: "string option"
  cd_base_url :: "string option"
  cd_username :: "string option"
  cd_password :: "string option"
  cd_totp :: "string option"
  cd_account_id :: "string option"
  cd_project_name :: "string option"
  cd_panel_id :: "string option"
  cd_api_password :: "string option"
  cd_secret_key :: "string option"
  cd_catalog :: "bool option"

text \<open>The operator ?? of the source, and a member that is set only when its text is not empty.\<close>

definition orelse :: "'a option \<Rightarrow> 'a option \<Rightarrow> 'a option" where
  "orelse a b = (case a of None \<Rightarrow> b | Some x \<Rightarrow> Some x)"

definition opt_field :: "string \<Rightarrow> string option \<Rightarrow> (string \<times> field) list" where
  "opt_field k v = (if truthy v then [(k, FText (the v))] else [])"

definition text_field :: "string \<Rightarrow> string option \<Rightarrow> string \<times> field" where
  "text_field k v = (k, FText (coalesce v []))"

type_synonym built = "http_error + string option"

definition sealed :: "crypto_lib \<Rightarrow> string \<Rightarrow> (string \<times> field) list \<Rightarrow> built" where
  "sealed C iv fs = Inr (Some (encrypt C iv (stringify fs)))"

definition build_openrouter :: "crypto_lib \<Rightarrow> string \<Rightarrow> cred_dto \<Rightarrow> string option \<Rightarrow> built" where
  "build_openrouter C iv dto old =
     (if \<not> truthy (cd_token dto) \<and> cd_catalog dto = None then Inr None
      else let base = decode_openrouter C old; token = orelse (cd_token dto) (or_token base) in
        if \<not> truthy token then Inl (Bad_request ''Provide the OpenRouter Management API key'')
        else sealed C iv [text_field ''token'' token,
               (''useCatalogNames'', FFlag (case cd_catalog dto of Some b \<Rightarrow> b | None \<Rightarrow> or_catalog base \<noteq> Some False))])"

definition build_4vps :: "crypto_lib \<Rightarrow> string \<Rightarrow> cred_dto \<Rightarrow> string option \<Rightarrow> built" where
  "build_4vps C iv dto old =
     (if \<not> truthy (cd_token dto) \<and> \<not> truthy (cd_panel_id dto) then Inr None
      else let base = decode_credentials C old; token = orelse (cd_token dto) (cred base ''token'') in
        if \<not> truthy token then Inl (Bad_request ''Provide the 4VPS API token'')
        else sealed C iv (text_field ''token'' token # opt_field ''panelId'' (orelse (cd_panel_id dto) (cred base ''panelId''))))"

definition VDSINA_BASE_URLS :: "string list" where
  "VDSINA_BASE_URLS = [''https://userapi.vdsina.ru'', ''https://userapi.vdsina.com'']"

definition strip_slashes :: "string \<Rightarrow> string" where
  "strip_slashes s = rev (dropWhile (\<lambda>c. c = CHR ''/'') (rev s))"

definition build_vdsina :: "crypto_lib \<Rightarrow> string \<Rightarrow> cred_dto \<Rightarrow> string option \<Rightarrow> built" where
  "build_vdsina C iv dto old =
     (if \<not> truthy (cd_token dto) \<and> \<not> truthy (cd_base_url dto) then Inr None
      else let base = decode_credentials C old; token = orelse (cd_token dto) (cred base ''token'') in
        if \<not> truthy token then Inl (Bad_request ''Provide the VDSina API token'')
        else let url = map_option strip_slashes (orelse (cd_base_url dto) (cred base ''baseUrl'')) in
          if truthy url \<and> the url \<notin> set VDSINA_BASE_URLS
          then Inl (Bad_request ''VDSina base URL must be https://userapi.vdsina.ru or https://userapi.vdsina.com'')
          else sealed C iv (text_field ''token'' token # opt_field ''baseUrl'' url))"

definition AEZA_BASE_URLS :: "string list" where
  "AEZA_BASE_URLS = [''https://my.aeza.net'', ''https://my.aeza.ru'']"

definition strip_api_v2 :: "string \<Rightarrow> string" where
  "strip_api_v2 s = (let n = length s - 7 in if 7 \<le> length s \<and> to_lower (drop n s) = ''/api/v2'' then take n s else s)"

definition normalize_aeza :: "string \<Rightarrow> string option" where
  "normalize_aeza raw = (let origin = to_lower (strip_slashes (strip_api_v2 (strip_slashes (trim raw)))) in
     if origin \<in> set AEZA_BASE_URLS then Some origin else None)"

definition build_aeza :: "crypto_lib \<Rightarrow> string \<Rightarrow> cred_dto \<Rightarrow> string option \<Rightarrow> built" where
  "build_aeza C iv dto old =
     (if \<not> truthy (cd_token dto) \<and> \<not> truthy (cd_base_url dto) then Inr None
      else let base = decode_aeza C old; token = orelse (cd_token dto) (cred base ''token'') in
        if \<not> truthy token then Inl (Bad_request ''Provide the Aeza API key'')
        else let given = orelse (cd_base_url dto) (cred base ''baseUrl'') in
          if \<not> truthy given then sealed C iv [text_field ''token'' token]
          else (case normalize_aeza (the given) of
              None \<Rightarrow> Inl (Bad_request ''Aeza base URL must be https://my.aeza.net or https://my.aeza.ru'')
            | Some url \<Rightarrow> sealed C iv [text_field ''token'' token, (''baseUrl'', FText url)]))"

definition build_selectel :: "crypto_lib \<Rightarrow> string \<Rightarrow> cred_dto \<Rightarrow> string option \<Rightarrow> built" where
  "build_selectel C iv dto old =
     (if \<not> (truthy (cd_account_id dto) \<or> truthy (cd_username dto) \<or> truthy (cd_password dto) \<or> truthy (cd_project_name dto)) then Inr None
      else let base = decode_credentials C old; acc = orelse (cd_account_id dto) (cred base ''accountId'');
             user = orelse (cd_username dto) (cred base ''username''); pass = orelse (cd_password dto) (cred base ''password'') in
        if \<not> truthy acc \<or> \<not> truthy user \<or> \<not> truthy pass
        then Inl (Bad_request ''Provide the account number, username and password together'')
        else sealed C iv ([text_field ''accountId'' acc, text_field ''username'' user, text_field ''password'' pass] @
               opt_field ''projectName'' (orelse (cd_project_name dto) (cred base ''projectName''))))"

definition build_panel :: "crypto_lib \<Rightarrow> string \<Rightarrow> cred_dto \<Rightarrow> string option \<Rightarrow> built" where
  "build_panel C iv dto old =
     (if \<not> (truthy (cd_base_url dto) \<or> truthy (cd_username dto) \<or> truthy (cd_password dto) \<or> truthy (cd_totp dto)) then Inr None
      else let base = decode_credentials C old; url = orelse (cd_base_url dto) (cred base ''baseUrl'');
             user = orelse (cd_username dto) (cred base ''username''); pass = orelse (cd_password dto) (cred base ''password'') in
        if \<not> truthy url \<or> \<not> truthy user \<or> \<not> truthy pass
        then Inl (Bad_request ''Provide baseUrl, username and password together'')
        else sealed C iv ([text_field ''baseUrl'' url, text_field ''username'' user, text_field ''password'' pass] @
               opt_field ''totpSecret'' (orelse (cd_totp dto) (cred base ''totpSecret''))))"

definition build_beget :: "crypto_lib \<Rightarrow> string \<Rightarrow> cred_dto \<Rightarrow> string option \<Rightarrow> built" where
  "build_beget C iv dto old =
     (if \<not> (truthy (cd_username dto) \<or> truthy (cd_password dto) \<or> truthy (cd_totp dto) \<or> truthy (cd_api_password dto)) then Inr None
      else let base = decode_credentials C old;
             user = orelse (cd_username dto) (cred base ''username''); pass = orelse (cd_password dto) (cred base ''password'') in
        if \<not> truthy user \<or> \<not> truthy pass then Inl (Bad_request ''Provide the Beget account login and password together'')
        else sealed C iv ([text_field ''username'' user, text_field ''password'' pass] @
               opt_field ''totpSecret'' (orelse (cd_totp dto) (cred base ''totpSecret'')) @
               opt_field ''apiPassword'' (orelse (cd_api_password dto) (cred base ''apiPassword''))))"

definition build_doubleservers :: "crypto_lib \<Rightarrow> string \<Rightarrow> cred_dto \<Rightarrow> string option \<Rightarrow> built" where
  "build_doubleservers C iv dto old =
     (if \<not> (truthy (cd_username dto) \<or> truthy (cd_password dto) \<or> truthy (cd_totp dto)) then Inr None
      else let base = decode_credentials C old;
             user = orelse (cd_username dto) (cred base ''username''); pass = orelse (cd_password dto) (cred base ''password'') in
        if \<not> truthy user \<or> \<not> truthy pass then Inl (Bad_request ''Provide the Double Servers email and password together'')
        else sealed C iv ([text_field ''username'' user, text_field ''password'' pass] @
               opt_field ''totpSecret'' (orelse (cd_totp dto) (cred base ''totpSecret''))))"

text \<open>The three kinds whose blob is two mandatory texts (first and second are the request's fields).\<close>

definition build_cloudflare :: "crypto_lib \<Rightarrow> string \<Rightarrow> cred_dto \<Rightarrow> string option \<Rightarrow> built" where
  "build_cloudflare C iv dto old =
     (if \<not> truthy (cd_account_id dto) \<and> \<not> truthy (cd_token dto) then Inr None
      else let base = decode_credentials C old; acc = orelse (cd_account_id dto) (cred base ''accountId'');
             tok = orelse (cd_token dto) (cred base ''apiToken'') in
        if \<not> truthy acc \<or> \<not> truthy tok then Inl (Bad_request ''Provide the Cloudflare account ID and API token together'')
        else sealed C iv [text_field ''accountId'' acc, text_field ''apiToken'' tok])"

definition build_porkbun :: "crypto_lib \<Rightarrow> string \<Rightarrow> cred_dto \<Rightarrow> string option \<Rightarrow> built" where
  "build_porkbun C iv dto old =
     (if \<not> truthy (cd_token dto) \<and> \<not> truthy (cd_secret_key dto) then Inr None
      else let base = decode_credentials C old; key = orelse (cd_token dto) (cred base ''apiKey'');
             sec = orelse (cd_secret_key dto) (cred base ''secretApiKey'') in
        if \<not> truthy key \<or> \<not> truthy sec then Inl (Bad_request ''Provide both the Porkbun API key and secret key'')
        else sealed C iv [text_field ''apiKey'' key, text_field ''secretApiKey'' sec])"

definition build_spaceship :: "crypto_lib \<Rightarrow> string \<Rightarrow> cred_dto \<Rightarrow> string option \<Rightarrow> built" where
  "build_spaceship C iv dto old =
     (if \<not> truthy (cd_token dto) \<and> \<not> truthy (cd_secret_key dto) then Inr None
      else let base = decode_credentials C old; key = orelse (cd_token dto) (cred base ''apiKey'');
             sec = orelse (cd_secret_key dto) (cred base ''apiSecret'') in
        if \<not> truthy key \<or> \<not> truthy sec then Inl (Bad_request ''Provide both the Spaceship API key and secret'')
        else sealed C iv [text_field ''apiKey'' key, text_field ''apiSecret'' sec])"

text \<open>parseYandexKey: a text that is the JSON null passes JSON.parse and fails on its first member.\<close>

record yandex_key =
  yk_id :: string
  yk_account :: string
  yk_private :: string

definition parse_yandex_key :: "string \<Rightarrow> http_error + yandex_key" where
  "parse_yandex_key raw = (case json_parse raw of
       None \<Rightarrow> Inl (Bad_request ''Yandex Cloud authorized key must be the JSON key file'')
     | Some JNull \<Rightarrow> Inl (Internal_error ''Cannot read properties of null'')
     | Some obj \<Rightarrow>
         if \<not> truthy (cred obj ''id'') \<or> \<not> truthy (cred obj ''service_account_id'') \<or> \<not> truthy (cred obj ''private_key'')
         then Inl (Bad_request ''Yandex Cloud authorized key is missing id, service_account_id or private_key'')
         else Inr \<lparr> yk_id = the (cred obj ''id''), yk_account = the (cred obj ''service_account_id''),
                    yk_private = the (cred obj ''private_key'') \<rparr>)"

definition build_yandex :: "crypto_lib \<Rightarrow> string \<Rightarrow> cred_dto \<Rightarrow> built" where
  "build_yandex C iv dto =
     (if \<not> truthy (cd_token dto) then Inr None
      else (case parse_yandex_key (the (cd_token dto)) of Inl e \<Rightarrow> Inl e
        | Inr key \<Rightarrow> if yk_id key = [] \<or> yk_account key = [] \<or> yk_private key = []
            then Inl (Bad_request ''Provide the Yandex Cloud service account authorized key (JSON)'')
            else sealed C iv [(''keyId'', FText (yk_id key)), (''serviceAccountId'', FText (yk_account key)),
                   (''privateKey'', FText (yk_private key))]))"

definition build_credentials :: "crypto_lib \<Rightarrow> string \<Rightarrow> string \<Rightarrow> cred_dto \<Rightarrow> string option \<Rightarrow> built" where
  "build_credentials C iv kind dto old =
     (if kind = ''openrouter'' then build_openrouter C iv dto old
      else if kind = ''4vps'' then build_4vps C iv dto old
      else if kind = ''vdsina'' then build_vdsina C iv dto old
      else if kind = ''aeza'' then build_aeza C iv dto old
      else if kind = ''selectel'' then build_selectel C iv dto old
      else if kind = ''hostbill'' \<or> kind = ''billmgr'' then build_panel C iv dto old
      else if kind = ''beget'' then build_beget C iv dto old
      else if kind = ''doubleservers'' then build_doubleservers C iv dto old
      else if kind = ''cloudflare'' then build_cloudflare C iv dto old
      else if kind = ''porkbun'' then build_porkbun C iv dto old
      else if kind = ''spaceship'' then build_spaceship C iv dto old
      else if kind = ''yandex'' then build_yandex C iv dto
      else if kind \<noteq> ''manual'' \<and> truthy (cd_token dto) then Inr (Some (encrypt C iv (the (cd_token dto))))
      else Inr None)"

text \<open>The credentials handed to the Yandex discovery.\<close>

definition yandex_creds_from_key :: "string \<Rightarrow> http_error + yandex_key" where
  "yandex_creds_from_key raw = (case parse_yandex_key raw of Inl e \<Rightarrow> Inl e
     | Inr key \<Rightarrow> if yk_id key = [] \<or> yk_account key = [] \<or> yk_private key = []
         then Inl (Bad_request ''Provide the Yandex Cloud service account authorized key (JSON)'') else Inr key)"

definition yandex_creds_from_stored :: "crypto_lib \<Rightarrow> string option \<Rightarrow> http_error + yandex_key" where
  "yandex_creds_from_stored C enc = (let c = decode_credentials C enc in
     if \<not> truthy (cred c ''keyId'') \<or> \<not> truthy (cred c ''serviceAccountId'') \<or> \<not> truthy (cred c ''privateKey'')
     then Inl (Bad_request ''Stored Yandex credentials are incomplete'')
     else Inr \<lparr> yk_id = the (cred c ''keyId''), yk_account = the (cred c ''serviceAccountId''), yk_private = the (cred c ''privateKey'') \<rparr>)"

section \<open>What is stored is what is shown\<close>

text \<open>The secrets a kind has, by the name the reveal gives them, and the request's field for each.\<close>

definition kind_secrets :: "string \<Rightarrow> string list" where
  "kind_secrets kind =
     (if kind \<in> {''porkbun'', ''spaceship''} then [''token'', ''secretKey'']
      else if kind = ''selectel'' then [''password'']
      else if kind \<in> {''billmgr'', ''hostbill'', ''doubleservers''} then [''password'', ''totpSecret'']
      else if kind = ''beget'' then [''password'', ''totpSecret'', ''apiPassword'']
      else [''token''])"

definition submitted :: "cred_dto \<Rightarrow> string \<Rightarrow> string option" where
  "submitted dto l = (if l = ''token'' then cd_token dto else if l = ''password'' then cd_password dto
     else if l = ''totpSecret'' then cd_totp dto else if l = ''apiPassword'' then cd_api_password dto
     else if l = ''secretKey'' then cd_secret_key dto else None)"

text \<open>No credential text of a request is empty (the schema's min(1)).\<close>

definition cred_dto_ok :: "cred_dto \<Rightarrow> bool" where
  "cred_dto_ok dto = (\<forall>l \<in> {''token'', ''password'', ''totpSecret'', ''apiPassword'', ''secretKey''}. submitted dto l \<noteq> Some [])"

lemma cred_of_fields: "cred (JObj (map (map_prod id field_json) fs)) k = (case map_of (rev fs) k of Some (FText s) \<Rightarrow> Some s | _ \<Rightarrow> None)"
proof -
  have "map_of (map (map_prod id field_json) gs) k = map_option field_json (map_of gs k)" for gs
    by (induction gs) auto
  then show ?thesis by (auto simp: cred_def json_prop_def rev_map split: option.split field.split)
qed

lemma stringify_not_empty: "stringify fs \<noteq> []" by (simp add: stringify_def)

lemma decode_sealed:
  assumes "crypto_ok C" "length iv = IV_LENGTH" "fs \<noteq> []"
  shows "decode_credentials C (Some (encrypt C iv (stringify fs))) = JObj (map (map_prod id field_json) fs)"
    "decode_aeza C (Some (encrypt C iv (stringify fs))) = JObj (map (map_prod id field_json) fs)"
    "decode_openrouter C (Some (encrypt C iv (stringify fs))) = parse_openrouter (stringify fs)"
    "decrypt_raw C (encrypt C iv p) = (if p = [] then None else Some p)"
  using decrypt_encrypt [OF assms(1,2)] json_roundtrip(1) [OF assms(3)] stringify_not_empty [of fs]
  by (simp_all add: decode_credentials_def decode_aeza_def decode_openrouter_def decrypt_raw_def parse_aeza_def)

definition keep :: "string option \<Rightarrow> string option" where
  "keep v = (if truthy v then v else None)"

lemma keep_orelse: "a \<noteq> Some [] \<Longrightarrow> keep (orelse a b) = orelse a (keep b)"
  by (auto simp: keep_def orelse_def split: option.split)

lemma keep_None [simp]: "keep None = None" by (simp add: keep_def)

lemma map_of_shown: "map_of (shown k v) l = (if l = k then keep v else None)"
  by (cases v) (auto simp: shown_def keep_def)

lemma truthy_parts: "truthy v \<Longrightarrow> v = Some (the v) \<and> keep v = v \<and> coalesce v [] = the v"
  by (cases v) (auto simp: keep_def)

lemma decode_None [simp]: "cred (decode_credentials C None) k = None" "cred (decode_aeza C None) k = None"
  "or_token (decode_openrouter C None) = None"
  by (simp_all add: decode_credentials_def decode_aeza_def decode_openrouter_def cred_def json_prop_def)

lemma map_of_opt_field: "map_of (rev (opt_field k v)) l = (if l = k then map_option FText (keep v) else None)"
  by (cases v) (auto simp: opt_field_def keep_def)

lemma sealed_Some: "sealed C iv fs = Inr (Some enc) \<Longrightarrow> enc = encrypt C iv (stringify fs)"
  by (simp add: sealed_def)

lemma shown_append: "(m ++ map_of (shown k v)) l = (if l = k \<and> truthy v then v else m l)"
  by (cases v) (auto simp: shown_def map_add_def)

definition shows_submitted :: "crypto_lib \<Rightarrow> string \<Rightarrow> cred_dto \<Rightarrow> string option \<Rightarrow> string \<Rightarrow> string \<Rightarrow> bool" where
  "shows_submitted C kind dto old enc l =
     (map_of (reveal C kind (Some enc)) l =
        (if l \<in> set (kind_secrets kind) then orelse (submitted dto l) (map_of (reveal C kind old) l) else None))"

lemma reveal_None: "reveal C kind None = []" by (simp add: reveal_def)

definition text_at :: "(string \<times> field) list \<Rightarrow> string \<Rightarrow> string option" where
  "text_at fs k = (case map_of (rev fs) k of Some (FText s) \<Rightarrow> Some s | _ \<Rightarrow> None)"

definition names :: "(string \<times> field) list \<Rightarrow> string set" where "names fs = fst ` set fs"

lemma names_rules: "names [] = {}" "names (p # fs) = insert (fst p) (names fs)" "names (fs @ gs) = names fs \<union> names gs"
  "names (opt_field k v) = (if truthy v then {k} else {})"
  by (auto simp: names_def opt_field_def)

lemma names_map_of: "(k \<in> names fs) = (map_of (rev fs) k \<noteq> None)"
  by (simp add: names_def map_of_eq_None_iff)

lemma text_at_append: "text_at (fs @ gs) k = (if k \<in> names gs then text_at gs k else text_at fs k)"
  by (cases "map_of (rev gs) k") (simp_all add: text_at_def names_map_of map_add_def)

lemma text_at_single: "text_at [] k = None" "text_at [text_field j v] k = (if k = j then Some (coalesce v []) else None)"
  "text_at [(j, FText t)] k = (if k = j then Some t else None)" "text_at [(j, FFlag b)] k = None"
  "text_at (opt_field j v) k = (if k = j then keep v else None)"
  by (auto simp: text_at_def text_field_def opt_field_def keep_def dest: truthy_parts)

lemma text_at_Cons: "fs \<noteq> [] \<Longrightarrow> text_at (p # fs) k = (if k \<in> names fs then text_at fs k else text_at [p] k)"
  using text_at_append [of "[p]" fs k] by simp

lemma text_field_name: "fst (text_field j v) = j" by (simp add: text_field_def)

lemma opt_field_nil: "(opt_field k v = []) = (\<not> truthy v)" "opt_field k v = [] \<Longrightarrow> text_at (p # opt_field k v) = text_at [p]"
  by (simp_all add: opt_field_def)

lemma text_at_opt: "text_at (p # opt_field j v) k = (if k = j \<and> truthy v then keep v else text_at [p] k)"
  by (cases "truthy v") (simp_all add: text_at_Cons opt_field_nil names_rules text_at_single)

lemma text_at_opts: "text_at (p # opt_field j v @ gs) k = (if k \<in> names gs then text_at gs k else text_at (p # opt_field j v) k)"
  using text_at_append [of "p # opt_field j v" gs k] by simp

lemmas text_at_rules = text_at_opts text_at_opt text_at_Cons names_rules text_at_single text_field_name

lemma cred_sealed:
  assumes "crypto_ok C" "length iv = IV_LENGTH" "fs \<noteq> []"
  shows "cred (decode_credentials C (Some (encrypt C iv (stringify fs)))) k = text_at fs k"
    "cred (decode_aeza C (Some (encrypt C iv (stringify fs)))) k = text_at fs k"
  using decode_sealed [OF assms] by (simp_all add: cred_of_fields text_at_def)

lemma submitted_ok: "cred_dto_ok dto \<Longrightarrow> cd_token dto \<noteq> Some [] \<and> cd_password dto \<noteq> Some [] \<and> cd_totp dto \<noteq> Some [] \<and>
    cd_api_password dto \<noteq> Some [] \<and> cd_secret_key dto \<noteq> Some []"
  by (simp add: cred_dto_ok_def submitted_def)

lemma truthy_some: "truthy v \<Longrightarrow> Some (coalesce v []) = v" "truthy v \<Longrightarrow> keep v = v"
  by (cases v; simp add: keep_def)+

lemma keep_keep: "keep (keep v) = keep v" "\<not> truthy v \<Longrightarrow> keep v = None" by (simp_all add: keep_def)

text \<open>The secrets of a freshly built blob, kind by kind.\<close>

lemmas reveal_rules = reveal_def Let_def RAW_TOKEN_KINDS_def kind_secrets_def submitted_def map_of_shown shown_append

definition built_with :: "crypto_lib \<Rightarrow> string \<Rightarrow> string \<Rightarrow> ((string \<times> field) list \<Rightarrow> bool) \<Rightarrow> bool" where
  "built_with C iv enc P = (\<exists>fs. enc = encrypt C iv (stringify fs) \<and> fs \<noteq> [] \<and> P fs)"

lemma sealed_with: "sealed C iv fs = Inr (Some enc) \<Longrightarrow> fs \<noteq> [] \<and> P fs \<Longrightarrow> built_with C iv enc P"
  unfolding built_with_def sealed_def by auto

lemma built_4vps: "build_4vps C iv dto old = Inr (Some enc) \<Longrightarrow> built_with C iv enc (\<lambda>fs.
     keep (text_at fs ''token'') = keep (orelse (cd_token dto) (cred (decode_credentials C old) ''token'')))"
  by (auto simp: build_4vps_def Let_def text_at_rules truthy_some keep_keep split: if_splits option.splits elim!: sealed_with)

lemma built_vdsina: "build_vdsina C iv dto old = Inr (Some enc) \<Longrightarrow> built_with C iv enc (\<lambda>fs.
     keep (text_at fs ''token'') = keep (orelse (cd_token dto) (cred (decode_credentials C old) ''token'')))"
  by (auto simp: build_vdsina_def Let_def text_at_rules truthy_some keep_keep split: if_splits option.splits elim!: sealed_with)

lemma built_aeza: "build_aeza C iv dto old = Inr (Some enc) \<Longrightarrow> built_with C iv enc (\<lambda>fs.
     keep (text_at fs ''token'') = keep (orelse (cd_token dto) (cred (decode_aeza C old) ''token'')))"
  by (auto simp: build_aeza_def Let_def text_at_rules truthy_some keep_keep split: if_splits option.splits elim!: sealed_with)

lemma built_cloudflare: "build_cloudflare C iv dto old = Inr (Some enc) \<Longrightarrow> built_with C iv enc (\<lambda>fs.
     keep (text_at fs ''apiToken'') = keep (orelse (cd_token dto) (cred (decode_credentials C old) ''apiToken'')))"
  by (auto simp: build_cloudflare_def Let_def text_at_rules truthy_some keep_keep split: if_splits option.splits elim!: sealed_with)

lemma built_porkbun: "build_porkbun C iv dto old = Inr (Some enc) \<Longrightarrow> built_with C iv enc (\<lambda>fs.
     keep (text_at fs ''apiKey'') = keep (orelse (cd_token dto) (cred (decode_credentials C old) ''apiKey'')) \<and>
     keep (text_at fs ''secretApiKey'') = keep (orelse (cd_secret_key dto) (cred (decode_credentials C old) ''secretApiKey'')))"
  by (auto simp: build_porkbun_def Let_def text_at_rules truthy_some keep_keep split: if_splits option.splits elim!: sealed_with)

lemma built_spaceship: "build_spaceship C iv dto old = Inr (Some enc) \<Longrightarrow> built_with C iv enc (\<lambda>fs.
     keep (text_at fs ''apiKey'') = keep (orelse (cd_token dto) (cred (decode_credentials C old) ''apiKey'')) \<and>
     keep (text_at fs ''apiSecret'') = keep (orelse (cd_secret_key dto) (cred (decode_credentials C old) ''apiSecret'')))"
  by (auto simp: build_spaceship_def Let_def text_at_rules truthy_some keep_keep split: if_splits option.splits elim!: sealed_with)

lemma built_selectel: "build_selectel C iv dto old = Inr (Some enc) \<Longrightarrow> built_with C iv enc (\<lambda>fs.
     keep (text_at fs ''password'') = keep (orelse (cd_password dto) (cred (decode_credentials C old) ''password'')))"
  by (auto simp: build_selectel_def Let_def text_at_rules truthy_some keep_keep split: if_splits option.splits elim!: sealed_with)

lemma built_panel: "build_panel C iv dto old = Inr (Some enc) \<Longrightarrow> built_with C iv enc (\<lambda>fs.
     keep (text_at fs ''password'') = keep (orelse (cd_password dto) (cred (decode_credentials C old) ''password'')) \<and>
     keep (text_at fs ''totpSecret'') = keep (orelse (cd_totp dto) (cred (decode_credentials C old) ''totpSecret'')))"
  by (auto simp: build_panel_def Let_def text_at_rules truthy_some keep_keep split: if_splits option.splits elim!: sealed_with)

lemma beget_texts:
  assumes "truthy p"
  shows "keep (text_at (text_field ''username'' u # text_field ''password'' p # opt_field ''totpSecret'' t @ opt_field ''apiPassword'' a) ''password'') = keep p"
    "keep (text_at (text_field ''username'' u # text_field ''password'' p # opt_field ''totpSecret'' t @ opt_field ''apiPassword'' a) ''totpSecret'') = keep t"
    "keep (text_at (text_field ''username'' u # text_field ''password'' p # opt_field ''totpSecret'' t @ opt_field ''apiPassword'' a) ''apiPassword'') = keep a"
  by (insert assms; cases t; cases a; simp add: text_at_def text_field_def opt_field_def keep_def truthy_some)+

lemma built_beget: "build_beget C iv dto old = Inr (Some enc) \<Longrightarrow> built_with C iv enc (\<lambda>fs.
     keep (text_at fs ''password'') = keep (orelse (cd_password dto) (cred (decode_credentials C old) ''password'')) \<and>
     keep (text_at fs ''totpSecret'') = keep (orelse (cd_totp dto) (cred (decode_credentials C old) ''totpSecret'')) \<and>
     keep (text_at fs ''apiPassword'') = keep (orelse (cd_api_password dto) (cred (decode_credentials C old) ''apiPassword'')))"
  unfolding build_beget_def Let_def
  by (simp split: if_splits; elim conjE sealed_with; simp add: beget_texts)

lemma built_doubleservers: "build_doubleservers C iv dto old = Inr (Some enc) \<Longrightarrow> built_with C iv enc (\<lambda>fs.
     keep (text_at fs ''password'') = keep (orelse (cd_password dto) (cred (decode_credentials C old) ''password'')) \<and>
     keep (text_at fs ''totpSecret'') = keep (orelse (cd_totp dto) (cred (decode_credentials C old) ''totpSecret'')))"
  by (auto simp: build_doubleservers_def Let_def text_at_rules truthy_some keep_keep split: if_splits option.splits elim!: sealed_with)

lemma built_openrouter: "build_openrouter C iv dto old = Inr (Some enc) \<Longrightarrow> built_with C iv enc (\<lambda>fs.
     (\<exists>t b. fs = [(''token'', FText t), (''useCatalogNames'', FFlag b)] \<and> keep (Some t) = keep (orelse (cd_token dto) (or_token (decode_openrouter C old)))))"
  by (auto simp: build_openrouter_def Let_def text_field_def truthy_some split: if_splits option.splits elim!: sealed_with)

lemma openrouter_printed: "or_token (parse_openrouter (stringify [(''token'', FText t), (''useCatalogNames'', FFlag b)])) = Some t"
  by (simp add: parse_openrouter_def json_roundtrip json_prop_def cred_def Let_def)

definition json_kinds :: "string list" where
  "json_kinds = [''4vps'', ''vdsina'', ''cloudflare'', ''porkbun'', ''spaceship'', ''selectel'', ''billmgr'', ''hostbill'', ''beget'', ''doubleservers'']"

text \<open>Where the blob of a kind keeps a secret.\<close>

definition blob_name :: "string \<Rightarrow> string \<Rightarrow> string" where
  "blob_name kind l = (if kind = ''cloudflare'' then ''apiToken'' else if kind \<in> {''porkbun'', ''spaceship''}
     then (if l = ''token'' then ''apiKey'' else if kind = ''porkbun'' then ''secretApiKey'' else ''apiSecret'') else l)"

lemma reveal_json_kind: "kind \<in> set json_kinds \<Longrightarrow>
    map_of (reveal C kind enc) l = (if l \<in> set (kind_secrets kind) then keep (cred (decode_credentials C enc) (blob_name kind l)) else None)"
  unfolding json_kinds_def list.set insert_iff empty_iff
  by (cases enc; elim disjE FalseE;
      simp add: reveal_None reveal_def Let_def RAW_TOKEN_KINDS_def kind_secrets_def blob_name_def map_of_shown shown_append keep_def)

lemma built_weaken: "built_with C iv enc P \<Longrightarrow> (\<And>fs. P fs \<Longrightarrow> Q fs) \<Longrightarrow> built_with C iv enc Q"
  unfolding built_with_def by blast

lemmas kind_defs = build_credentials_def kind_secrets_def blob_name_def submitted_def

lemma built_json_kind:
  assumes "kind \<in> set json_kinds" "build_credentials C iv kind dto old = Inr (Some enc)" (is ?built) "l \<in> set (kind_secrets kind)" (is ?has)
  shows "built_with C iv enc (\<lambda>fs. keep (text_at fs (blob_name kind l)) = keep (orelse (submitted dto l) (cred (decode_credentials C old) (blob_name kind l))))"
    (is ?goal)
proof -
  have k1: "kind = ''4vps'' \<Longrightarrow> ?built \<Longrightarrow> ?has \<Longrightarrow> ?goal"
    by (simp add: kind_secrets_def; (elim disjE)?;
      simp add: build_credentials_def blob_name_def submitted_def; drule built_4vps; erule built_weaken; simp)
  have k2: "kind = ''vdsina'' \<Longrightarrow> ?built \<Longrightarrow> ?has \<Longrightarrow> ?goal"
    by (simp add: kind_secrets_def; (elim disjE)?;
      simp add: build_credentials_def blob_name_def submitted_def; drule built_vdsina; erule built_weaken; simp)
  have k3: "kind = ''cloudflare'' \<Longrightarrow> ?built \<Longrightarrow> ?has \<Longrightarrow> ?goal"
    by (simp add: kind_secrets_def; (elim disjE)?;
      simp add: build_credentials_def blob_name_def submitted_def; drule built_cloudflare; erule built_weaken; simp)
  have k4: "kind = ''porkbun'' \<Longrightarrow> ?built \<Longrightarrow> ?has \<Longrightarrow> ?goal"
    by (simp add: kind_secrets_def; (elim disjE)?;
      simp add: build_credentials_def blob_name_def submitted_def; drule built_porkbun; erule built_weaken; simp)
  have k5: "kind = ''spaceship'' \<Longrightarrow> ?built \<Longrightarrow> ?has \<Longrightarrow> ?goal"
    by (simp add: kind_secrets_def; (elim disjE)?;
      simp add: build_credentials_def blob_name_def submitted_def; drule built_spaceship; erule built_weaken; simp)
  have k6: "kind = ''selectel'' \<Longrightarrow> ?built \<Longrightarrow> ?has \<Longrightarrow> ?goal"
    by (simp add: kind_secrets_def; (elim disjE)?;
      simp add: build_credentials_def blob_name_def submitted_def; drule built_selectel; erule built_weaken; simp)
  have k7: "kind = ''billmgr'' \<Longrightarrow> ?built \<Longrightarrow> ?has \<Longrightarrow> ?goal"
    by (simp add: kind_secrets_def; (elim disjE)?;
      simp add: build_credentials_def blob_name_def submitted_def; drule built_panel; erule built_weaken; simp)
  have k8: "kind = ''hostbill'' \<Longrightarrow> ?built \<Longrightarrow> ?has \<Longrightarrow> ?goal"
    by (simp add: kind_secrets_def; (elim disjE)?;
      simp add: build_credentials_def blob_name_def submitted_def; drule built_panel; erule built_weaken; simp)
  have k9: "kind = ''beget'' \<Longrightarrow> ?built \<Longrightarrow> ?has \<Longrightarrow> ?goal"
    by (simp add: kind_secrets_def; (elim disjE)?;
      simp add: build_credentials_def blob_name_def submitted_def; drule built_beget; erule built_weaken; simp)
  have k10: "kind = ''doubleservers'' \<Longrightarrow> ?built \<Longrightarrow> ?has \<Longrightarrow> ?goal"
    by (simp add: kind_secrets_def; (elim disjE)?;
      simp add: build_credentials_def blob_name_def submitted_def; drule built_doubleservers; erule built_weaken; simp)
  show ?goal using assms(1) unfolding json_kinds_def list.set insert_iff empty_iff
    by (elim disjE FalseE) (erule k1 [OF _ assms(2,3)] k2 [OF _ assms(2,3)] k3 [OF _ assms(2,3)] k4 [OF _ assms(2,3)] k5 [OF _ assms(2,3)] k6 [OF _ assms(2,3)] k7 [OF _ assms(2,3)] k8 [OF _ assms(2,3)] k9 [OF _ assms(2,3)] k10 [OF _ assms(2,3)])+
qed

lemma build_raw: "kind \<notin> set json_kinds \<Longrightarrow> kind \<notin> {''openrouter'', ''aeza'', ''yandex''} \<Longrightarrow>
    build_credentials C iv kind dto old = Inr (Some enc) \<Longrightarrow>
    kind \<noteq> ''manual'' \<and> truthy (cd_token dto) \<and> enc = encrypt C iv (the (cd_token dto))"
  by (auto simp: build_credentials_def json_kinds_def split: if_splits)

lemma reveal_raw: "kind \<notin> set json_kinds \<Longrightarrow> kind \<notin> {''openrouter'', ''aeza'', ''yandex'', ''manual''} \<Longrightarrow>
    reveal C kind (Some enc) = shown ''token'' (decrypt_raw C enc) \<and> kind_secrets kind = [''token'']"
  by (auto simp: reveal_def json_kinds_def kind_secrets_def Let_def)

text \<open>A Yandex key shown in the form and saved again is the same key.\<close>

lemma yandex_key_roundtrip: "i \<noteq> [] \<Longrightarrow> a \<noteq> [] \<Longrightarrow> k \<noteq> [] \<Longrightarrow>
    parse_yandex_key (yandex_key_text i a k) = Inr \<lparr> yk_id = i, yk_account = a, yk_private = k \<rparr>"
  by (simp add: parse_yandex_key_def yandex_key_text_def json_roundtrip cred_def json_prop_def)

lemma built_yandex:
  assumes ok: "crypto_ok C" "length iv = IV_LENGTH" and b: "build_credentials C iv ''yandex'' dto old = Inr (Some enc)"
  shows "\<exists>raw key. cd_token dto = Some raw \<and> parse_yandex_key raw = Inr key \<and>
    parse_yandex_key (yandex_key_text (yk_id key) (yk_account key) (yk_private key)) = Inr key \<and>
    reveal C ''yandex'' (Some enc) = [(''token'', yandex_key_text (yk_id key) (yk_account key) (yk_private key))]"
proof -
  obtain raw key where t: "cd_token dto = Some raw" "parse_yandex_key raw = Inr key" "yk_id key \<noteq> []" "yk_account key \<noteq> []" "yk_private key \<noteq> []"
    "enc = encrypt C iv (stringify [(''keyId'', FText (yk_id key)), (''serviceAccountId'', FText (yk_account key)), (''privateKey'', FText (yk_private key))])"
    using b by (cases "cd_token dto") (auto simp: build_credentials_def build_yandex_def sealed_def split: if_splits sum.splits)
  have "reveal C ''yandex'' (Some enc) = [(''token'', yandex_key_text (yk_id key) (yk_account key) (yk_private key))]"
    using t(3-5) by (simp add: reveal_def Let_def RAW_TOKEN_KINDS_def t(6) cred_sealed [OF ok] text_at_def)
  then show ?thesis using t(1,2) yandex_key_roundtrip [OF t(3-5)] by (intro exI [of _ raw] exI [of _ key]) simp
qed

lemma reveal_after_other:
  assumes ok: "crypto_ok C" "length iv = IV_LENGTH" "cred_dto_ok dto" and kind: "kind \<noteq> ''yandex''"
    and b: "build_credentials C iv kind dto old = Inr (Some enc)"
  shows "map_of (reveal C kind (Some enc)) l =
    (if l \<in> set (kind_secrets kind) then orelse (submitted dto l) (map_of (reveal C kind old) l) else None)"
proof -
  note sub = submitted_ok [OF ok(3)]
  have sub_l: "submitted dto l \<noteq> Some []" using sub by (simp add: submitted_def)
  consider "kind \<in> set json_kinds" | "kind = ''openrouter''" | "kind = ''aeza''"
    | "kind \<notin> set json_kinds" "kind \<notin> {''openrouter'', ''aeza'', ''yandex''}" using kind by blast
  then show ?thesis
  proof cases
    case 1
    then show ?thesis
      using built_json_kind [OF 1 b, of l] reveal_json_kind [OF 1] sub_l
      by (auto simp: built_with_def cred_sealed [OF ok(1,2)] keep_orelse)
  next
    case 2
    then obtain t f where t: "enc = encrypt C iv (stringify [(''token'', FText t), (''useCatalogNames'', FFlag f)])"
      "keep (Some t) = keep (orelse (cd_token dto) (or_token (decode_openrouter C old)))"
      using b built_openrouter [of C iv dto old enc] by (auto simp: build_credentials_def built_with_def)
    have "or_token (decode_openrouter C (Some enc)) = Some t"
      unfolding t(1) using decode_sealed(3) [OF ok(1,2)] openrouter_printed by simp
    moreover have "map_of (reveal C kind old) l = (if l = ''token'' then keep (or_token (decode_openrouter C old)) else None)" for old l
      using 2 by (cases old) (simp_all add: reveal_rules)
    ultimately show ?thesis using 2 t(2) sub by (simp add: kind_secrets_def submitted_def keep_orelse)
  next
    case 3
    then obtain fs where t: "enc = encrypt C iv (stringify fs)" "fs \<noteq> []"
      "keep (text_at fs ''token'') = keep (orelse (cd_token dto) (cred (decode_aeza C old) ''token''))"
      using b built_aeza [of C iv dto old enc] by (auto simp: build_credentials_def built_with_def)
    moreover have "map_of (reveal C kind old) l = (if l = ''token'' then keep (cred (decode_aeza C old) ''token'') else None)" for old l
      using 3 by (cases old) (simp_all add: reveal_rules)
    ultimately show ?thesis using 3 sub cred_sealed(2) [OF ok(1,2)] by (simp add: kind_secrets_def submitted_def keep_orelse)
  next
    case 4
    note r = build_raw [OF 4 b]
    have "decrypt_raw C enc = cd_token dto"
      using r decode_sealed(4) [OF ok(1,2), of "[(''a'', FText [])]"] by (cases "cd_token dto") auto
    then show ?thesis using r 4 reveal_raw [of kind C enc] sub
      by (cases "cd_token dto") (auto simp: map_of_shown submitted_def orelse_def keep_def)
  qed
qed

text \<open>C7. After a save that stores credentials, every secret of a kind other than Yandex reads back as the one submitted, or
  else as the one that was stored before, and a secret the kind does not have is never shown.  A Yandex key reads back as a
  key file of its own making: the three members of the submitted one that are used, which parses to the same key.\<close>

theorem reveal_after_build:
  assumes "crypto_ok C" "length iv = IV_LENGTH" "cred_dto_ok dto" "build_credentials C iv kind dto old = Inr (Some enc)"
  shows "if kind = ''yandex''
    then \<exists>raw key. cd_token dto = Some raw \<and> parse_yandex_key raw = Inr key \<and>
      parse_yandex_key (yandex_key_text (yk_id key) (yk_account key) (yk_private key)) = Inr key \<and>
      map_of (reveal C kind (Some enc)) l =
        (if l = ''token'' then Some (yandex_key_text (yk_id key) (yk_account key) (yk_private key)) else None)
    else map_of (reveal C kind (Some enc)) l =
      (if l \<in> set (kind_secrets kind) then orelse (submitted dto l) (map_of (reveal C kind old) l) else None)"
proof (cases "kind = ''yandex''")
  case True
  obtain raw key where "cd_token dto = Some raw" "parse_yandex_key raw = Inr key"
      "parse_yandex_key (yandex_key_text (yk_id key) (yk_account key) (yk_private key)) = Inr key"
      "reveal C ''yandex'' (Some enc) = [(''token'', yandex_key_text (yk_id key) (yk_account key) (yk_private key))]"
    using built_yandex [OF assms(1,2)] assms(4) unfolding True by blast
  then show ?thesis by (subst if_P [OF True], intro exI [of _ raw] exI [of _ key]) (simp add: True)
next
  case False
  from reveal_after_other [OF assms(1-3) False assms(4)] False show ?thesis by simp
qed

definition plain_crypto :: crypto_lib where
  "plain_crypto = \<lparr> seal = (\<lambda>iv p. (p, replicate 16 (CHR ''t''))), unseal = (\<lambda>iv c t. Some c) \<rparr>"

lemma plain_crypto_ok: "crypto_ok plain_crypto"
  by (simp add: crypto_ok_def plain_crypto_def AUTH_TAG_LENGTH_def)

definition no_creds :: cred_dto where
  "no_creds = \<lparr> cd_token = None, cd_base_url = None, cd_username = None, cd_password = None, cd_totp = None,
     cd_account_id = None, cd_project_name = None, cd_panel_id = None, cd_api_password = None, cd_secret_key = None, cd_catalog = None \<rparr>"

definition sample_iv :: string where "sample_iv = replicate 12 (CHR ''i'')"

definition sample_blob :: string where
  "sample_blob = encrypt plain_crypto sample_iv (stringify [(''username'', FText ''ann''), (''password'', FText ''old''), (''totpSecret'', FText ''seed'')])"

lemma sample_iv_ok: "length sample_iv = IV_LENGTH" by (simp add: sample_iv_def IV_LENGTH_def)

lemma sample_saved: "build_credentials plain_crypto sample_iv ''beget'' (no_creds \<lparr> cd_password := Some ''new'' \<rparr>) (Some sample_blob) =
    Inr (Some (encrypt plain_crypto sample_iv (stringify [(''username'', FText ''ann''), (''password'', FText ''new''), (''totpSecret'', FText ''seed'')])))"
  by (simp add: build_credentials_def build_beget_def no_creds_def Let_def sample_blob_def cred_sealed [OF plain_crypto_ok sample_iv_ok]
      text_at_def orelse_def sealed_def text_field_def opt_field_def)

theorem reveal_after_build_witness:
  "map_of (reveal plain_crypto ''beget'' (Some (encrypt plain_crypto sample_iv
      (stringify [(''username'', FText ''ann''), (''password'', FText ''new''), (''totpSecret'', FText ''seed'')])))) ''totpSecret'' = Some ''seed''"
proof -
  have "map_of (reveal plain_crypto ''beget'' (Some sample_blob)) ''totpSecret'' = Some ''seed''"
    by (simp add: reveal_json_kind json_kinds_def kind_secrets_def blob_name_def sample_blob_def cred_sealed [OF plain_crypto_ok sample_iv_ok]
        text_at_def keep_def)
  moreover have "cred_dto_ok (no_creds \<lparr> cd_password := Some ''new'' \<rparr>)" by (simp add: cred_dto_ok_def submitted_def no_creds_def)
  ultimately show ?thesis
    using reveal_after_build [OF plain_crypto_ok sample_iv_ok _ sample_saved, of "''totpSecret''"]
    by (simp add: kind_secrets_def submitted_def no_creds_def orelse_def)
qed

section \<open>A key never leaves for a foreign host\<close>

definition stored_base_url :: "crypto_lib \<Rightarrow> string \<Rightarrow> string option \<Rightarrow> string option" where
  "stored_base_url C kind enc = (if kind = ''aeza'' then cred (decode_aeza C enc) ''baseUrl'' else cred (decode_credentials C enc) ''baseUrl'')"

definition branch_urls :: "string \<Rightarrow> string list" where
  "branch_urls kind = (if kind = ''aeza'' then AEZA_BASE_URLS else VDSINA_BASE_URLS)"

lemma normalize_aeza_allowed: "normalize_aeza raw = Some u \<Longrightarrow> u \<in> set AEZA_BASE_URLS"
  by (auto simp: normalize_aeza_def Let_def split: if_splits)

text \<open>Whatever is submitted and whatever was stored, a saved VDSina or Aeza account has no base URL or one on its
  provider's list, so its key is only ever sent there.\<close>

theorem stored_base_url_allowed:
  assumes ok: "crypto_ok C" "length iv = IV_LENGTH" and kind: "kind = ''vdsina'' \<or> kind = ''aeza''"
    and b: "build_credentials C iv kind dto old = Inr (Some enc)"
  shows "stored_base_url C kind (Some enc) \<in> insert None (Some ` set (branch_urls kind))"
  using kind
proof
  assume k: "kind = ''vdsina''"
  then obtain t u where "enc = encrypt C iv (stringify (text_field ''token'' t # opt_field ''baseUrl'' u))"
    "truthy u \<longrightarrow> the u \<in> set VDSINA_BASE_URLS"
    using b by (auto simp: build_credentials_def build_vdsina_def Let_def split: if_splits dest!: sealed_Some)
  then show ?thesis using k
    by (cases u) (auto simp: stored_base_url_def branch_urls_def cred_sealed [OF ok] text_at_opt text_at_single keep_def)
next
  assume k: "kind = ''aeza''"
  then obtain t where "enc = encrypt C iv (stringify [text_field ''token'' t]) \<or>
    (\<exists>raw u. normalize_aeza raw = Some u \<and> enc = encrypt C iv (stringify [text_field ''token'' t, (''baseUrl'', FText u)]))"
    using b by (auto simp: build_credentials_def build_aeza_def Let_def split: if_splits option.splits dest!: sealed_Some)
  then show ?thesis using k
    by (auto simp: stored_base_url_def branch_urls_def cred_sealed [OF ok] text_at_rules dest: normalize_aeza_allowed)
qed

theorem stored_base_url_allowed_witness:
  "stored_base_url plain_crypto ''aeza'' (Some (encrypt plain_crypto sample_iv
     (stringify [(''token'', FText ''k''), (''baseUrl'', FText ''https://my.aeza.ru'')]))) \<in> insert None (Some ` set AEZA_BASE_URLS)"
proof -
  have "normalize_aeza ''https://My.aeza.ru/api/v2/'' = Some ''https://my.aeza.ru''" by code_simp
  then have "build_credentials plain_crypto sample_iv ''aeza'' (no_creds \<lparr> cd_token := Some ''k'', cd_base_url := Some ''https://My.aeza.ru/api/v2/'' \<rparr>) None =
    Inr (Some (encrypt plain_crypto sample_iv (stringify [(''token'', FText ''k''), (''baseUrl'', FText ''https://my.aeza.ru'')])))"
    by (simp add: build_credentials_def build_aeza_def no_creds_def Let_def orelse_def sealed_def text_field_def)
  from stored_base_url_allowed [OF plain_crypto_ok sample_iv_ok _ this] show ?thesis by (simp add: branch_urls_def)
qed

section \<open>Flags, edits and keys\<close>

text \<open>The presence flags of the form say exactly which secrets a reveal would show.\<close>

definition flag_name :: "string \<Rightarrow> string" where
  "flag_name l = (if l = ''token'' then ''hasToken'' else if l = ''password'' then ''hasPassword''
     else if l = ''totpSecret'' then ''hasTotpSecret'' else if l = ''apiPassword'' then ''hasApiPassword'' else ''hasSecretKey'')"

lemma presence_matches_reveal:
  assumes "kind \<in> set json_kinds" "l \<in> set (kind_secrets kind)"
  shows "map_of (secret_presence C kind enc) (flag_name l) = Some (JBool (map_of (reveal C kind enc) l \<noteq> None))"
proof -
  have r: "(map_of (reveal C kind enc) l \<noteq> None) = truthy (cred (decode_credentials C enc) (blob_name kind l))"
    using reveal_json_kind [OF assms(1)] assms(2) by (simp add: keep_def del: truthy_simps) (cases "cred (decode_credentials C enc) (blob_name kind l)"; simp)
  have "kind \<in> set json_kinds \<Longrightarrow> l \<in> set (kind_secrets kind) \<Longrightarrow> map_of (secret_presence C kind enc) (flag_name l) =
      Some (JBool (truthy (cred (decode_credentials C enc) (blob_name kind l))))"
    unfolding json_kinds_def list.set insert_iff empty_iff
    by (cases enc; elim disjE FalseE; simp add: kind_secrets_def; (elim disjE)?;
        simp add: secret_presence_def Let_def flag_name_def blob_name_def RAW_TOKEN_KINDS_def)
  then show ?thesis using assms r by simp
qed

lemma yandex_null_key: "build_credentials C iv ''yandex'' (no_creds \<lparr> cd_token := Some ''null'' \<rparr>) None =
    Inl (Internal_error ''Cannot read properties of null'')"
proof -
  have "json_parse ''null'' = Some JNull" by code_simp
  then show ?thesis by (simp add: build_credentials_def build_yandex_def no_creds_def parse_yandex_key_def)
qed

end
