(* ===== verification/Providers.thy ===== *)
theory Providers
  imports Services Credentials
begin

text \<open>
  The providers (hosters) and their accounts: providers/provider-rules.ts, providers.service.ts,
  provider-accounts.service.ts and the writes of their repositories, with the cascades of the
  foreign keys written out, and the replies of common/mappers.ts.  An operation answers the changed
  database, the providers whose cached icon it drops, and its reply or its error.
\<close>

section \<open>provider-rules.ts\<close>

definition label_key :: "string option \<Rightarrow> string option" where
  "label_key l = map_option to_lower l"

definition label_taken :: "account list \<Rightarrow> string option \<Rightarrow> uuid option \<Rightarrow> bool" where
  "label_taken as label except = (\<exists>a\<in>set as. Some (ac_uuid a) \<noteq> except \<and> label_key (ac_label a) = label_key label)"

definition merge_error :: "provider \<Rightarrow> provider \<Rightarrow> string option" where
  "merge_error source target =
     (if pv_uuid source = pv_uuid target then Some ''Cannot merge a provider into itself''
      else if pv_kind source \<noteq> pv_kind target then Some ''Only providers of the same kind can be merged''
      else None)"

definition LABEL_MAX :: int where "LABEL_MAX = 64"

text \<open>String.slice(0, e): a negative end counts from the end of the text.\<close>

definition slice0 :: "string \<Rightarrow> int \<Rightarrow> string" where
  "slice0 s e = take (nat (if e < 0 then int (length s) + e else e)) s"

definition fit_label :: "string \<Rightarrow> string \<Rightarrow> string" where
  "fit_label base suffix = trim_end (slice0 base (LABEL_MAX - int (length suffix))) @ suffix"

definition copy_suffix :: "nat \<Rightarrow> string" where
  "copy_suffix n = '' ('' @ nat_text n @ '')''"

definition numbered :: "string \<Rightarrow> nat \<Rightarrow> string" where
  "numbered wanted n = fit_label wanted (copy_suffix n)"

subsection \<open>The search for a free label ends\<close>

definition suffix_number :: "string \<Rightarrow> nat" where
  "suffix_number s = number_of_digits (rev (takeWhile is_digit (tl (rev s))))"

lemma lower_digit: "is_digit c \<Longrightarrow> lower_char c = c"
  by (simp add: lower_char_def is_digit_def)

lemma lower_digits: "\<forall>c\<in>set s. is_digit c \<Longrightarrow> to_lower s = s"
  by (simp add: to_lower_def lower_digit map_idI)

lemma takeWhile_digits: "\<forall>c\<in>set xs. P c \<Longrightarrow> \<not> P y \<Longrightarrow> takeWhile P (xs @ y # ys) = xs"
  by (induction xs) simp_all

lemma numbered_number: "suffix_number (to_lower (numbered w n)) = n"
proof -
  have d: "\<forall>c\<in>set (rev (nat_text n)). is_digit c" using nat_text_digits [of n] by simp
  have paren: "\<not> is_digit (CHR ''('')" by (simp add: is_digit_def)
  obtain x where "to_lower (numbered w n) = x @ '' ('' @ nat_text n @ '')''"
    unfolding numbered_def fit_label_def copy_suffix_def
    using lower_digits [OF nat_text_digits [of n]] by (simp add: to_lower_def lower_char_def)
  then show ?thesis
    using takeWhile_digits [OF d paren] by (simp add: suffix_number_def nat_text_value)
qed

definition blocking :: "string list \<Rightarrow> string \<Rightarrow> nat \<Rightarrow> nat set" where
  "blocking taken w n = {m. n \<le> m \<and> to_lower (numbered w m) \<in> set taken}"

lemma blocking_finite: "finite (blocking taken w n)"
proof -
  have "inj (\<lambda>m. to_lower (numbered w m))" by (rule inj_on_inverseI [where g = suffix_number]) (rule numbered_number)
  then have "finite ((\<lambda>m. to_lower (numbered w m)) -` set taken)" by (intro finite_vimageI) simp_all
  then show ?thesis by (rule finite_subset [rotated]) (auto simp: blocking_def)
qed

lemma blocking_step: "card (blocking taken w n) = card (blocking taken w (Suc n)) + (if to_lower (numbered w n) \<in> set taken then 1 else 0)"
proof -
  have "blocking taken w n = (if to_lower (numbered w n) \<in> set taken then insert n (blocking taken w (Suc n)) else blocking taken w (Suc n))"
    by (auto simp: blocking_def not_less_eq_eq dest: le_antisym)
  moreover have "n \<notin> blocking taken w (Suc n)" by (simp add: blocking_def)
  ultimately show ?thesis using blocking_finite [of taken w "Suc n"] by simp
qed

text \<open>The loop of mergedLabels: the candidate label, and the number the next one gets.\<close>

function free_label :: "string list \<Rightarrow> string \<Rightarrow> nat \<Rightarrow> string \<Rightarrow> string" where
  "free_label taken wanted n label =
     (if to_lower label \<in> set taken then free_label taken wanted (n + 1) (numbered wanted n) else label)"
  by pat_completeness auto

termination
proof (relation "measure (\<lambda>(taken, w, n, label). card (blocking taken w n) + (if to_lower label \<in> set taken then 1 else 0))")
  show "((taken, w, n + 1, numbered w n), taken, w, n, label)
      \<in> measure (\<lambda>(taken, w, n, label). card (blocking taken w n) + (if to_lower label \<in> set taken then 1 else 0))"
    if "to_lower label \<in> set taken" for taken w n label
    using that blocking_step [of taken w n] by simp
qed simp

declare free_label.simps [simp del]

fun merged_labels_from :: "string list \<Rightarrow> string \<Rightarrow> account list \<Rightarrow> (uuid \<times> string) list" where
  "merged_labels_from taken name [] = []"
| "merged_labels_from taken name (a # as) =
     (let wanted = trim (coalesce (ac_label a) name); label = free_label taken wanted 2 (fit_label wanted [])
      in (ac_uuid a, label) # merged_labels_from (to_lower label # taken) name as)"

definition labels_in_use :: "account list \<Rightarrow> string list" where
  "labels_in_use as = concat (map (\<lambda>a. case ac_label a of None \<Rightarrow> [] | Some l \<Rightarrow> [to_lower l]) as)"

definition merged_labels :: "string \<Rightarrow> account list \<Rightarrow> account list \<Rightarrow> (uuid \<times> string) list" where
  "merged_labels source_name source_accounts target_accounts =
     merged_labels_from (labels_in_use target_accounts) source_name source_accounts"

definition fill_null :: "'a option \<Rightarrow> 'a option \<Rightarrow> 'a option" where
  "fill_null own other = (if own = None \<and> other \<noteq> None then other else own)"

definition merged_identity :: "provider \<Rightarrow> provider \<Rightarrow> provider" where
  "merged_identity source target = target \<lparr> pv_login_url := fill_null (pv_login_url target) (pv_login_url source),
     pv_icon_name := fill_null (pv_icon_name target) (pv_icon_name source),
     pv_icon_bg := fill_null (pv_icon_bg target) (pv_icon_bg source),
     pv_favicon := fill_null (pv_favicon target) (pv_favicon source) \<rparr>"

text \<open>What the search returns.\<close>

lemma free_label_free: "to_lower (free_label taken w n label) \<notin> set taken"
  by (induction taken w n label rule: free_label.induct) (subst free_label.simps, simp)

lemma free_label_form:
  "free_label taken w n label = label \<or>
   (\<exists>m. n \<le> m \<and> m \<le> n + card (blocking taken w n) \<and> free_label taken w n label = numbered w m)"
proof (induction taken w n label rule: free_label.induct)
  case (1 taken w n label)
  show ?case
  proof (cases "to_lower label \<in> set taken")
    case False
    then show ?thesis by (subst free_label.simps) simp
  next
    case True
    then have r: "free_label taken w n label = free_label taken w (n + 1) (numbered w n)" by (subst free_label.simps) simp
    show ?thesis
    proof (cases "to_lower (numbered w n) \<in> set taken")
      case False
      then have "free_label taken w (n + 1) (numbered w n) = numbered w n" by (subst free_label.simps) simp
      then show ?thesis using r by auto
    next
      case t: True
      have "free_label taken w (n + 1) (numbered w n) \<noteq> numbered w n"
        using free_label_free [of taken w "n + 1" "numbered w n"] t by metis
      then obtain m where "n + 1 \<le> m" "m \<le> n + 1 + card (blocking taken w (n + 1))"
        "free_label taken w (n + 1) (numbered w n) = numbered w m" using 1 [OF True] by blast
      then show ?thesis using r t blocking_step [of taken w n] by (intro disjI2 exI [of _ m]) simp
    qed
  qed
qed

lemma merged_labels_uuids: "map fst (merged_labels_from taken name as) = map ac_uuid as"
  by (induction taken name as rule: merged_labels_from.induct) (simp_all add: Let_def)

lemma merged_labels_fresh:
  "distinct (map (to_lower \<circ> snd) (merged_labels_from taken name as)) \<and>
   set (map (to_lower \<circ> snd) (merged_labels_from taken name as)) \<inter> set taken = {}"
proof (induction taken name as rule: merged_labels_from.induct)
  case (2 taken name a as)
  show ?case using 2 [OF refl refl] free_label_free [of taken "trim (coalesce (ac_label a) name)"]
    by (auto simp: Let_def)
qed simp

lemma blocking_card: "card (blocking taken w n) \<le> length taken"
proof -
  have "inj_on (\<lambda>m. to_lower (numbered w m)) (blocking taken w n)"
    by (rule inj_on_inverseI [where g = suffix_number]) (rule numbered_number)
  moreover have "(\<lambda>m. to_lower (numbered w m)) ` blocking taken w n \<subseteq> set taken" by (auto simp: blocking_def)
  ultimately have "card (blocking taken w n) \<le> card (set taken)" by (intro card_inj_on_le) auto
  then show ?thesis using card_length [of taken] by linarith
qed

lemma nat_text_length: "n < 10 ^ k \<Longrightarrow> 0 < k \<Longrightarrow> length (nat_text n) \<le> k"
proof (induction n arbitrary: k rule: nat_text.induct)
  case (1 n)
  show ?case
  proof (cases "n < 10")
    case False
    then obtain j where j: "k = Suc j" "0 < j" using 1(2,3) by (cases k; cases "k = 1") auto
    then have "n div 10 < 10 ^ j" using 1(2) by (simp add: less_mult_imp_div_less mult.commute)
    then show ?thesis using 1(1) [OF False, of j] j False by (subst nat_text.simps) simp
  qed (subst nat_text.simps, use 1 in simp)
qed

lemma trim_end_length: "length (trim_end s) \<le> length s"
  unfolding trim_end_def using length_dropWhile_le [of js_space "rev s"] by simp

lemma fit_label_length: "int (length suffix) \<le> LABEL_MAX \<Longrightarrow> int (length (fit_label w suffix)) \<le> LABEL_MAX"
  using trim_end_length [of "slice0 w (LABEL_MAX - int (length suffix))"]
  by (simp add: fit_label_def slice0_def min_def split: if_splits)

lemma numbered_length: "n < 10 ^ 60 \<Longrightarrow> int (length (numbered w n)) \<le> LABEL_MAX"
  using nat_text_length [of n 60] unfolding numbered_def
  by (intro fit_label_length) (simp add: copy_suffix_def LABEL_MAX_def)

lemma merged_labels_length:
  "length taken + length as + 2 < 10 ^ 60 \<Longrightarrow> (u, l) \<in> set (merged_labels_from taken name as) \<Longrightarrow> int (length l) \<le> LABEL_MAX"
proof (induction taken name as rule: merged_labels_from.induct)
  case (2 taken name a as)
  let ?w = "trim (coalesce (ac_label a) name)"
  let ?l = "free_label taken ?w 2 (fit_label ?w [])"
  have "int (length ?l) \<le> LABEL_MAX"
    using free_label_form [of taken ?w 2 "fit_label ?w []"]
  proof
    assume "\<exists>m. 2 \<le> m \<and> m \<le> 2 + card (blocking taken ?w 2) \<and> ?l = numbered ?w m"
    then obtain m where "m \<le> 2 + card (blocking taken ?w 2)" "?l = numbered ?w m" by blast
    moreover from this(1) have "m < 10 ^ 60" using 2(2) blocking_card [of taken ?w 2] by linarith
    ultimately show ?thesis using numbered_length by simp
  qed (use fit_label_length [of "[]" ?w] in \<open>simp add: LABEL_MAX_def\<close>)
  then show ?case using 2(1) [OF refl refl] 2(2,3) by (auto simp: Let_def)
qed simp

section \<open>Replies: common/mappers.ts\<close>

text \<open>The creation and update times of the rows are not kept, so they are not in the replies either.\<close>

record account_dto =
  av_uuid :: uuid
  av_provider :: uuid
  av_label :: "string option"
  av_enabled :: bool
  av_postpaid :: bool
  av_balance :: "string option"
  av_balance_ccy :: "ccy option"
  av_balance_at :: "ms option"
  av_last_sync :: "ms option"
  av_last_error :: "string option"
  av_services :: nat
  av_payments :: nat
  av_hints :: json_obj

record provider_dto =
  vd_uuid :: uuid
  vd_name :: string
  vd_kind :: string
  vd_favicon :: "string option"
  vd_login_url :: "string option"
  vd_icon_name :: "string option"
  vd_icon_bg :: "string option"
  vd_accounts :: "account_dto list"
  vd_balances :: "(string \<times> ccy) list"
  vd_services :: nat
  vd_payments :: nat

definition account_services :: "db \<Rightarrow> uuid \<Rightarrow> nat" where
  "account_services d u = length (filter (\<lambda>s. sv_account s = u) (services d))"

definition account_payments :: "db \<Rightarrow> uuid \<Rightarrow> nat" where
  "account_payments d u = length (filter (\<lambda>p. pm_account p = u) (payments d))"

definition map_provider_account :: "decimal_lib \<Rightarrow> db \<Rightarrow> json_obj \<Rightarrow> account \<Rightarrow> account_dto" where
  "map_provider_account D d hs a = \<lparr> av_uuid = ac_uuid a, av_provider = ac_provider a, av_label = ac_label a,
     av_enabled = ac_enabled a, av_postpaid = ac_postpaid a, av_balance = map_option (cent_text D) (ac_balance a),
     av_balance_ccy = ac_balance_ccy a, av_balance_at = ac_balance_at a, av_last_sync = ac_last_sync a,
     av_last_error = ac_last_error a, av_services = account_services d (ac_uuid a),
     av_payments = account_payments d (ac_uuid a), av_hints = hs \<rparr>"

definition balance_step :: "decimal_lib \<Rightarrow> (ccy \<times> rat) list \<Rightarrow> account \<Rightarrow> (ccy \<times> rat) list" where
  "balance_step D m a = (case (ac_balance a, ac_balance_ccy a) of
     (Some b, Some c) \<Rightarrow> mset_to c (case mget m c of Some x \<Rightarrow> dadd D x b | None \<Rightarrow> b) m | _ \<Rightarrow> m)"

definition sum_balances :: "decimal_lib \<Rightarrow> account list \<Rightarrow> (string \<times> ccy) list" where
  "sum_balances D as = map (\<lambda>(c, x). (cent_text D x, c)) (foldl (balance_step D) [] as)"

definition map_provider :: "decimal_lib \<Rightarrow> crypto_lib \<Rightarrow> db \<Rightarrow> provider \<Rightarrow> provider_dto" where
  "map_provider D C d p =
     (let accts = accounts_of d (pv_uuid p);
          as = map (\<lambda>a. map_provider_account D d (hints C (pv_kind p) (ac_credentials a)) a) accts
      in \<lparr> vd_uuid = pv_uuid p, vd_name = pv_name p, vd_kind = pv_kind p, vd_favicon = pv_favicon p, vd_login_url = pv_login_url p,
           vd_icon_name = pv_icon_name p, vd_icon_bg = pv_icon_bg p, vd_accounts = as, vd_balances = sum_balances D accts,
           vd_services = foldl (\<lambda>n a. n + av_services a) 0 as, vd_payments = foldl (\<lambda>n a. n + av_payments a) 0 as \<rparr>)"

section \<open>Writes of the repositories\<close>

text \<open>
  Deleting accounts: their services, payments, snapshots and sync runs go with them, and the
  remaining payments lose their link to a deleted service.
\<close>

definition delete_accounts :: "uuid list \<Rightarrow> db \<Rightarrow> db" where
  "delete_accounts us d =
     (let gone = map sv_uuid (filter (\<lambda>s. sv_account s \<in> set us) (services d)) in
      d \<lparr> accounts := filter (\<lambda>a. ac_uuid a \<notin> set us) (accounts d),
          services := filter (\<lambda>s. sv_account s \<notin> set us) (services d),
          payments := rows_update (\<lambda>p. case pm_service p of None \<Rightarrow> False | Some v \<Rightarrow> v \<in> set gone) (\<lambda>p. p \<lparr> pm_service := None \<rparr>)
            (filter (\<lambda>p. pm_account p \<notin> set us) (payments d)),
          snapshots := filter (\<lambda>s. sn_account s \<notin> set us) (snapshots d),
          sync_runs := filter (\<lambda>r. sr_account r \<notin> set us) (sync_runs d) \<rparr>)"

definition delete_provider :: "uuid \<Rightarrow> db \<Rightarrow> db" where
  "delete_provider u d = (delete_accounts (map ac_uuid (accounts_of d u)) d) \<lparr> providers := row_delete pv_uuid u (providers d) \<rparr>"

text \<open>None: the row to delete is gone, so the transaction throws and rolls back.\<close>

definition delete_unless_last :: "uuid \<Rightarrow> uuid \<Rightarrow> db \<Rightarrow> db \<times> bool option" where
  "delete_unless_last u pv d = (if length (accounts_of d pv) \<le> 1 then (d, Some False)
     else if find_account d u = None then (d, None) else (delete_accounts [u] d, Some True))"

text \<open>ON UPDATE CASCADE: what belongs to a moved account follows it to its new provider.\<close>

definition move_accounts :: "uuid \<Rightarrow> uuid \<Rightarrow> db \<Rightarrow> db" where
  "move_accounts src tgt d =
     (let moved = map ac_uuid (accounts_of d src) in
      d \<lparr> accounts := rows_update (\<lambda>a. ac_provider a = src) (\<lambda>a. a \<lparr> ac_provider := tgt \<rparr>) (accounts d),
          services := rows_update (\<lambda>s. sv_account s \<in> set moved \<and> sv_provider s = src) (\<lambda>s. s \<lparr> sv_provider := tgt \<rparr>) (services d),
          payments := rows_update (\<lambda>p. pm_account p \<in> set moved \<and> pm_provider p = src) (\<lambda>p. p \<lparr> pm_provider := tgt \<rparr>) (payments d) \<rparr>)"

definition relabel_accounts :: "(uuid \<times> string) list \<Rightarrow> db \<Rightarrow> db" where
  "relabel_accounts ls d = foldl (\<lambda>d (u, l). update_account u (\<lambda>a. a \<lparr> ac_label := Some l \<rparr>) d) d ls"

definition merge_rows :: "uuid \<Rightarrow> uuid \<Rightarrow> (uuid \<times> string) list \<Rightarrow> (provider \<Rightarrow> provider) \<Rightarrow> db \<Rightarrow> db" where
  "merge_rows src tgt relabel fill d =
     (let d2 = move_accounts src tgt (relabel_accounts relabel d);
          d3 = d2 \<lparr> providers := row_update pv_uuid tgt fill (providers d2) \<rparr>
      in delete_provider src d3)"

section \<open>providers.service.ts and provider-accounts.service.ts\<close>

type_synonym 'a outcome = "db \<times> uuid list \<times> (http_error + 'a)"

definition refused :: "db \<Rightarrow> http_error \<Rightarrow> 'a outcome" where
  "refused d e = (d, [], Inl e)"

record account_create =
  na_label :: "string option"
  na_postpaid :: "bool option"
  na_creds :: cred_dto

record provider_create =
  np_name :: string
  np_kind :: string
  np_login_url :: "string option"
  np_icon_name :: "string option"
  np_icon_bg :: "string option"
  np_account :: "account_create option"

record provider_patch =
  pp_name :: "string option"
  pp_login_url :: "string option option"
  pp_icon_name :: "string option option"
  pp_icon_bg :: "string option option"

record account_patch =
  ap_label :: "string option option"
  ap_enabled :: "bool option"
  ap_postpaid :: "bool option"
  ap_creds :: cred_dto

definition list_providers :: "decimal_lib \<Rightarrow> crypto_lib \<Rightarrow> db \<Rightarrow> provider_dto list" where
  "list_providers D C d = map (map_provider D C d) (providers d)"

definition get_with_services :: "decimal_lib \<Rightarrow> crypto_lib \<Rightarrow> uuid \<Rightarrow> db \<Rightarrow> http_error + provider_dto \<times> service list" where
  "get_with_services D C u d = (case find_provider d u of None \<Rightarrow> Inl (Not_found ''Provider not found'')
     | Some p \<Rightarrow> Inr (map_provider D C d p, sort_key sv_created
         (concat (map (\<lambda>a. sort_key sv_created (filter (\<lambda>s. sv_account s = ac_uuid a) (services d))) (accounts_of d u)))))"

definition new_account :: "uuid \<Rightarrow> uuid \<Rightarrow> string option \<Rightarrow> bool option \<Rightarrow> string option \<Rightarrow> account" where
  "new_account u pv label postpaid creds = \<lparr> ac_uuid = u, ac_provider = pv, ac_label = label, ac_credentials = creds,
     ac_enabled = True, ac_postpaid = coalesce postpaid False, ac_balance = None, ac_balance_ccy = None, ac_balance_at = None,
     ac_last_sync = None, ac_last_error = None \<rparr>"

definition empty_account :: account_create where
  "empty_account = \<lparr> na_label = None, na_postpaid = None, na_creds = no_creds \<rparr>"

definition create_provider_op :: "decimal_lib \<Rightarrow> crypto_lib \<Rightarrow> string \<Rightarrow> (uuid list \<Rightarrow> uuid) \<Rightarrow> provider_create \<Rightarrow> db \<Rightarrow> provider_dto outcome" where
  "create_provider_op D C iv G dto d =
     (let acc = coalesce (np_account dto) empty_account in
      case build_credentials C iv (np_kind dto) (na_creds acc) None of Inl e \<Rightarrow> refused d e
      | Inr creds \<Rightarrow>
         (let u = G (map pv_uuid (providers d));
              p = \<lparr> pv_uuid = u, pv_name = np_name dto, pv_kind = np_kind dto, pv_favicon = None, pv_login_url = np_login_url dto,
                    pv_icon_name = np_icon_name dto, pv_icon_bg = np_icon_bg dto \<rparr>;
              a = new_account (G (map ac_uuid (accounts d))) u (na_label acc) (na_postpaid acc) creds;
              d' = d \<lparr> providers := providers d @ [p], accounts := accounts d @ [a] \<rparr>
          in (d', [], Inr (map_provider D C d' p))))"

definition patched_provider :: "provider_patch \<Rightarrow> provider \<Rightarrow> provider" where
  "patched_provider q p =
     when_set (pp_icon_bg q) (\<lambda>v p. p \<lparr> pv_icon_bg := v \<rparr>) (when_set (pp_icon_name q) (\<lambda>v p. p \<lparr> pv_icon_name := v \<rparr>)
       (when_set (pp_login_url q) (\<lambda>v p. p \<lparr> pv_login_url := v \<rparr>) (when_set (pp_name q) (\<lambda>v p. p \<lparr> pv_name := v \<rparr>) p)))"

definition update_provider_op :: "decimal_lib \<Rightarrow> crypto_lib \<Rightarrow> uuid \<Rightarrow> provider_patch \<Rightarrow> db \<Rightarrow> provider_dto outcome" where
  "update_provider_op D C u q d = (case find_provider d u of None \<Rightarrow> refused d (Not_found ''Provider not found'')
     | Some p \<Rightarrow> let d' = d \<lparr> providers := row_update pv_uuid u (patched_provider q) (providers d) \<rparr>
         in (d', if pp_login_url q \<noteq> None then [u] else [], Inr (map_provider D C d' (patched_provider q p))))"

definition remove_provider_op :: "uuid \<Rightarrow> db \<Rightarrow> unit outcome" where
  "remove_provider_op u d = (case find_provider d u of None \<Rightarrow> refused d (Not_found ''Provider not found'')
     | Some p \<Rightarrow> (delete_provider u d, [u], Inr ()))"

definition add_account_op :: "decimal_lib \<Rightarrow> crypto_lib \<Rightarrow> string \<Rightarrow> (uuid list \<Rightarrow> uuid) \<Rightarrow> uuid \<Rightarrow> account_create \<Rightarrow> db \<Rightarrow> account_dto outcome" where
  "add_account_op D C iv G pv dto d = (case find_provider d pv of None \<Rightarrow> refused d (Not_found ''Provider not found'')
     | Some p \<Rightarrow>
        if label_taken (accounts_of d pv) (na_label dto) None
        then refused d (Conflict ''This provider already has an account with that label'')
        else (case build_credentials C iv (pv_kind p) (na_creds dto) None of Inl e \<Rightarrow> refused d e
          | Inr creds \<Rightarrow>
             (let a = new_account (G (map ac_uuid (accounts d))) pv (na_label dto) (na_postpaid dto) creds;
                  d' = d \<lparr> accounts := accounts d @ [a] \<rparr>
              in (d', [], Inr (map_provider_account D d' (hints C (pv_kind p) creds) a)))))"

definition merge_providers_op :: "decimal_lib \<Rightarrow> crypto_lib \<Rightarrow> uuid \<Rightarrow> uuid \<Rightarrow> db \<Rightarrow> provider_dto outcome" where
  "merge_providers_op D C src tgt d = (case find_provider d src of None \<Rightarrow> refused d (Not_found ''Provider not found'')
     | Some s \<Rightarrow> (case find_provider d tgt of None \<Rightarrow> refused d (Not_found ''Provider not found'')
       | Some t \<Rightarrow> (case merge_error s t of Some e \<Rightarrow> refused d (Bad_request e)
         | None \<Rightarrow>
            (let d' = merge_rows src tgt (merged_labels (pv_name s) (accounts_of d src) (accounts_of d tgt)) (merged_identity s) d
             in (d', [src, tgt], Inr (map_provider D C d' (merged_identity s t)))))))"

definition patched_account :: "account_patch \<Rightarrow> string option \<Rightarrow> account \<Rightarrow> account" where
  "patched_account q creds a =
     (let a1 = when_set (ap_label q) (\<lambda>v a. a \<lparr> ac_label := v \<rparr>) a;
          a2 = when_set (ap_enabled q) (\<lambda>v a. a \<lparr> ac_enabled := v \<rparr>) a1;
          a3 = when_set (ap_postpaid q) (\<lambda>v a. a \<lparr> ac_postpaid := v \<rparr>) a2
      in when_set creds (\<lambda>v a. a \<lparr> ac_credentials := Some v \<rparr>) a3)"

definition account_kind :: "db \<Rightarrow> account \<Rightarrow> string" where
  "account_kind d a = (case find_provider d (ac_provider a) of None \<Rightarrow> [] | Some p \<Rightarrow> pv_kind p)"

definition update_account_op :: "decimal_lib \<Rightarrow> crypto_lib \<Rightarrow> string \<Rightarrow> uuid \<Rightarrow> account_patch \<Rightarrow> db \<Rightarrow> account_dto outcome" where
  "update_account_op D C iv u q d = (case find_account d u of None \<Rightarrow> refused d (Not_found ''Account not found'')
     | Some a \<Rightarrow>
        if ap_label q \<noteq> None \<and> the (ap_label q) \<noteq> ac_label a \<and> label_taken (accounts_of d (ac_provider a)) (the (ap_label q)) (Some u)
        then refused d (Conflict ''This provider already has an account with that label'')
        else (case build_credentials C iv (account_kind d a) (ap_creds q) (ac_credentials a) of Inl e \<Rightarrow> refused d e
          | Inr creds \<Rightarrow>
             (let d' = update_account u (patched_account q creds) d; a' = patched_account q creds a
              in (d', [], Inr (map_provider_account D d' (hints C (account_kind d a) (ac_credentials a')) a')))))"

text \<open>Removing an account reads it first and deletes it in a later transaction; remove_account_op is both at once.\<close>

definition finish_remove_account :: "uuid \<Rightarrow> uuid \<Rightarrow> db \<Rightarrow> unit outcome" where
  "finish_remove_account u pv d = (case delete_unless_last u pv d of (d', ok) \<Rightarrow>
     (d', [], case ok of Some True \<Rightarrow> Inr ()
       | Some False \<Rightarrow> Inl (Conflict ''Cannot delete the only account; delete the provider instead'')
       | None \<Rightarrow> Inl (Internal_error ''No record was found for a delete'')))"

definition remove_account_op :: "uuid \<Rightarrow> db \<Rightarrow> unit outcome" where
  "remove_account_op u d = (case find_account d u of None \<Rightarrow> refused d (Not_found ''Account not found'')
     | Some a \<Rightarrow> finish_remove_account u (ac_provider a) d)"

definition reveal_credentials_op :: "crypto_lib \<Rightarrow> uuid \<Rightarrow> db \<Rightarrow> http_error + (string \<times> string) list" where
  "reveal_credentials_op C u d = (case find_account d u of None \<Rightarrow> Inl (Not_found ''Account not found'')
     | Some a \<Rightarrow> Inr (reveal C (account_kind d a) (ac_credentials a)))"

definition yandex_creds_for :: "crypto_lib \<Rightarrow> string option \<Rightarrow> uuid option \<Rightarrow> db \<Rightarrow> http_error + yandex_key" where
  "yandex_creds_for C token acc d =
     (if truthy token then yandex_creds_from_key (the token)
      else if truthy acc then (case find_account d (the acc) of
          None \<Rightarrow> Inl (Not_found ''Yandex account not found'')
        | Some a \<Rightarrow> if account_kind d a \<noteq> ''yandex'' then Inl (Not_found ''Yandex account not found'')
            else yandex_creds_from_stored C (ac_credentials a))
      else Inl (Bad_request ''Provide the authorized key or an existing account''))"

section \<open>Deletions keep the database whole\<close>

lemma db_invI:
  assumes "accounts_ok d" "distinct (map sv_uuid (services d))" "distinct (ext_keys (map (\<lambda>s. (sv_account s, sv_external s)) (services d)))"
    "\<And>s. s \<in> set (services d) \<Longrightarrow> (sv_account s, sv_provider s) \<in> owner_pairs d \<and> sv_project s \<in> pj_uuid ` set (projects d) \<and>
       sv_managed s = (sv_external s \<noteq> None)"
    "distinct (map pm_uuid (payments d))" "distinct (ext_keys (map (\<lambda>p. (pm_account p, pm_external p)) (payments d)))"
    "\<And>p. p \<in> set (payments d) \<Longrightarrow> (pm_account p, pm_provider p) \<in> owner_pairs d"
    "\<And>p u. p \<in> set (payments d) \<Longrightarrow> pm_service p = Some u \<Longrightarrow> \<exists>s\<in>set (services d). sv_uuid s = u \<and> (pm_external p \<noteq> None \<longrightarrow> sv_managed s)"
  shows "db_inv d"
proof -
  have "services_ok d" unfolding services_ok_def service_keys_def using assms(2-4) by blast
  moreover have "payments_ok d" unfolding payments_ok_def payment_keys_def using assms(5-8) by blast
  moreover have "links_ok d" unfolding links_ok_def using assms(4,8) by blast
  ultimately show ?thesis using assms(1) by (simp add: db_inv_def db_ok_def)
qed

lemma db_inv_accounts: "db_inv d \<Longrightarrow> accounts_ok d" by (simp add: db_inv_def db_ok_def)

definition unlink :: "uuid list \<Rightarrow> payment \<Rightarrow> payment" where
  "unlink gone p = (case pm_service p of None \<Rightarrow> p | Some v \<Rightarrow> if v \<in> set gone then p \<lparr> pm_service := None \<rparr> else p)"

lemma unlink_fields [simp]: "pm_uuid (unlink g p) = pm_uuid p" "pm_account (unlink g p) = pm_account p"
  "pm_provider (unlink g p) = pm_provider p" "pm_external (unlink g p) = pm_external p" "unlink [] p = p"
  by (simp_all add: unlink_def split: option.split)

lemma unlink_service: "(pm_service (unlink g p) = Some u) = (pm_service p = Some u \<and> u \<notin> set g)"
  by (cases "pm_service p") (auto simp: unlink_def)

lemma rows_unlink: "rows_update (\<lambda>p. case pm_service p of None \<Rightarrow> False | Some v \<Rightarrow> v \<in> set g) (\<lambda>p. p \<lparr> pm_service := None \<rparr>) ps = map (unlink g) ps"
  by (auto simp: rows_update_def unlink_def split: option.split)

lemma delete_accounts_tables:
  "accounts (delete_accounts us d) = filter (\<lambda>a. ac_uuid a \<notin> set us) (accounts d)"
  "services (delete_accounts us d) = filter (\<lambda>s. sv_account s \<notin> set us) (services d)"
  "payments (delete_accounts us d) = map (unlink (map sv_uuid (filter (\<lambda>s. sv_account s \<in> set us) (services d)))) (filter (\<lambda>p. pm_account p \<notin> set us) (payments d))"
  "providers (delete_accounts us d) = providers d" "projects (delete_accounts us d) = projects d"
  by (simp_all add: delete_accounts_def Let_def rows_unlink)

lemma delete_accounts_nil: "delete_accounts [] d = d"
  by (simp add: delete_accounts_def Let_def rows_unlink map_idI)

lemma delete_accounts_inv:
  assumes inv: "db_inv d"
  shows "db_inv (delete_accounts us d)"
proof (rule db_invI)
  let ?d = "delete_accounts us d"
  have pairs: "(u, v) \<in> owner_pairs ?d" if "(u, v) \<in> owner_pairs d" "u \<notin> set us" for u v
    using that by (auto simp: owner_pairs_def delete_accounts_tables)
  show "accounts_ok ?d" using db_inv_accounts [OF inv] by (auto simp: accounts_ok_def delete_accounts_tables distinct_map_filter)
  show "distinct (map sv_uuid (services ?d))" "distinct (ext_keys (map (\<lambda>s. (sv_account s, sv_external s)) (services ?d)))"
    using db_inv_parts(1,2) [OF inv] by (simp_all add: delete_accounts_tables distinct_map_filter ext_keys_filter)
  show "distinct (map pm_uuid (payments ?d))" "distinct (ext_keys (map (\<lambda>p. (pm_account p, pm_external p)) (payments ?d)))"
    using db_inv_parts(4,5) [OF inv] by (simp_all add: delete_accounts_tables distinct_map_filter ext_keys_filter comp_def)
  show "(sv_account s, sv_provider s) \<in> owner_pairs ?d \<and> sv_project s \<in> pj_uuid ` set (projects ?d) \<and> sv_managed s = (sv_external s \<noteq> None)"
    if "s \<in> set (services ?d)" for s
    using that db_inv_parts(3) [OF inv, of s] pairs by (simp add: delete_accounts_tables)
  show "(pm_account p, pm_provider p) \<in> owner_pairs ?d" if "p \<in> set (payments ?d)" for p
    using that db_inv_parts(6) [OF inv] pairs by (auto simp: delete_accounts_tables)
  show "\<exists>s\<in>set (services ?d). sv_uuid s = u \<and> (pm_external p \<noteq> None \<longrightarrow> sv_managed s)"
    if p: "p \<in> set (payments ?d)" "pm_service p = Some u" for p u
  proof -
    obtain q where q: "q \<in> set (payments d)" "p = unlink (map sv_uuid (filter (\<lambda>s. sv_account s \<in> set us) (services d))) q"
      using p(1) by (auto simp: delete_accounts_tables)
    then have u: "pm_service q = Some u" "u \<notin> sv_uuid ` {s \<in> set (services d). sv_account s \<in> set us}"
      using p(2) by (auto simp: unlink_service)
    obtain s where "s \<in> set (services d)" "sv_uuid s = u" "pm_external q \<noteq> None \<longrightarrow> sv_managed s"
      using db_inv_parts(7) [OF inv q(1) u(1)] by blast
    then show ?thesis using u(2) q(2) by (intro bexI [of _ s]) (auto simp: delete_accounts_tables)
  qed
qed

lemma providers_inv:
  assumes "db_inv d" "distinct (map pv_uuid ps)" "\<forall>a\<in>set (accounts d). ac_provider a \<in> pv_uuid ` set ps"
  shows "db_inv (d \<lparr> providers := ps \<rparr>)"
  using assms by (simp add: db_inv_def db_ok_def accounts_ok_def services_ok_def payments_ok_def service_keys_def
      payment_keys_def owner_pairs_def)

lemma delete_provider_inv:
  assumes inv: "db_inv d"
  shows "db_inv (delete_provider u d)"
proof -
  let ?d = "delete_accounts (map ac_uuid (accounts_of d u)) d"
  have "ac_provider a \<in> pv_uuid ` set (row_delete pv_uuid u (providers d))" if "a \<in> set (accounts ?d)" for a
    using that db_inv_accounts [OF inv] by (auto simp: delete_accounts_tables accounts_ok_def accounts_of_def row_delete_def)
  then show ?thesis
    using db_inv_accounts [OF inv] unfolding delete_provider_def
    by (intro providers_inv [OF delete_accounts_inv [OF inv]]) (auto simp: accounts_ok_def row_delete_def distinct_map_filter)
qed

section \<open>A merge moves and keeps everything\<close>

definition merged_account :: "uuid \<Rightarrow> uuid \<Rightarrow> (uuid \<times> string) list \<Rightarrow> account \<Rightarrow> account" where
  "merged_account src tgt ls a = (if ac_provider a = src then a \<lparr> ac_label := map_of ls (ac_uuid a), ac_provider := tgt \<rparr> else a)"

definition merged_service :: "uuid \<Rightarrow> uuid \<Rightarrow> service \<Rightarrow> service" where
  "merged_service src tgt s = (if sv_provider s = src then s \<lparr> sv_provider := tgt \<rparr> else s)"

definition merged_payment :: "uuid \<Rightarrow> uuid \<Rightarrow> payment \<Rightarrow> payment" where
  "merged_payment src tgt p = (if pm_provider p = src then p \<lparr> pm_provider := tgt \<rparr> else p)"

lemma relabel_accounts_tables:
  "services (relabel_accounts ls d) = services d" "payments (relabel_accounts ls d) = payments d"
  "providers (relabel_accounts ls d) = providers d" "projects (relabel_accounts ls d) = projects d"
  "snapshots (relabel_accounts ls d) = snapshots d" "sync_runs (relabel_accounts ls d) = sync_runs d"
  by (induction ls arbitrary: d) (simp_all add: relabel_accounts_def update_account_def case_prod_beta)

lemma relabel_accounts_map: "distinct (map fst ls) \<Longrightarrow> accounts (relabel_accounts ls d) =
    map (\<lambda>a. case map_of ls (ac_uuid a) of None \<Rightarrow> a | Some l \<Rightarrow> a \<lparr> ac_label := Some l \<rparr>) (accounts d)"
proof (induction ls arbitrary: d)
  case (Cons x ls)
  obtain u l where x: "x = (u, l)" by force
  have "map_of ls u = None" using Cons(2) x by (simp add: map_of_eq_None_iff)
  then show ?case
    using Cons(1) [of "update_account u (\<lambda>a. a \<lparr> ac_label := Some l \<rparr>) d"] Cons(2)
    by (auto simp: relabel_accounts_def x update_account_def row_update_def split: option.split)
qed (simp add: relabel_accounts_def)

lemma accounts_of_ids: "map ac_uuid (accounts_of d u) = map fst (filter (\<lambda>x. snd x = u) (map (\<lambda>a. (ac_uuid a, ac_provider a)) (accounts d)))"
  by (simp add: accounts_of_def filter_map comp_def)

lemma account_ids_of: "distinct (map ac_uuid (accounts d)) \<Longrightarrow> a \<in> set (accounts d) \<Longrightarrow>
    (ac_uuid a \<in> ac_uuid ` set (accounts_of d u)) = (ac_provider a = u)"
  using distinct_row [of ac_uuid "accounts d"] by (auto simp: accounts_of_def)

lemma merge_rows_eq:
  assumes inv: "db_inv d" and ne: "src \<noteq> tgt" and ls: "map fst ls = map ac_uuid (accounts_of d src)"
  shows "merge_rows src tgt ls fill d = d \<lparr> accounts := map (merged_account src tgt ls) (accounts d),
     services := map (merged_service src tgt) (services d), payments := map (merged_payment src tgt) (payments d),
     providers := row_delete pv_uuid src (row_update pv_uuid tgt fill (providers d)) \<rparr>"
proof -
  have dist: "distinct (map ac_uuid (accounts d))" using db_inv_accounts [OF inv] by (simp add: accounts_ok_def)
  then have dls: "distinct (map fst ls)" unfolding ls accounts_of_def by (simp add: distinct_map_filter)
  let ?r = "relabel_accounts ls d"
  have mem: "(ac_uuid a \<in> ac_uuid ` set (accounts_of d src)) = (ac_provider a = src)" if "a \<in> set (accounts d)" for a
    using account_ids_of [OF dist that] .
  have ids: "set (map ac_uuid (accounts_of ?r src)) = ac_uuid ` set (accounts_of d src)"
  proof -
    have "map (\<lambda>a. (ac_uuid a, ac_provider a)) (accounts ?r) = map (\<lambda>a. (ac_uuid a, ac_provider a)) (accounts d)"
      unfolding relabel_accounts_map [OF dls] list.map_comp by (intro map_cong refl) (simp split: option.split)
    then show ?thesis using accounts_of_ids [of ?r src] accounts_of_ids [of d src] by (metis list.set_map)
  qed
  have of_ls: "(map_of ls (ac_uuid a) = None) = (ac_provider a \<noteq> src)" if "a \<in> set (accounts d)" for a
    using mem [OF that] arg_cong [OF ls, of set] by (simp add: map_of_eq_None_iff)
  have own: "u \<in> ac_uuid ` set (accounts_of d src)" if "(u, src) \<in> owner_pairs d" for u
    using that by (auto simp: owner_pairs_def accounts_of_def)
  let ?m = "move_accounts src tgt ?r"
  have acc: "accounts ?m = map (merged_account src tgt ls) (accounts d)"
  proof -
    let ?g = "\<lambda>a. case map_of ls (ac_uuid a) of None \<Rightarrow> a | Some l \<Rightarrow> a \<lparr> ac_label := Some l \<rparr>"
    have "(if ac_provider (?g a) = src then (?g a) \<lparr> ac_provider := tgt \<rparr> else ?g a) = merged_account src tgt ls a"
      if "a \<in> set (accounts d)" for a
      using of_ls [OF that] by (cases "map_of ls (ac_uuid a)") (simp_all add: merged_account_def)
    then show ?thesis
      by (simp add: move_accounts_def Let_def rows_update_def relabel_accounts_map [OF dls] comp_def)
  qed
  have svc: "services ?m = map (merged_service src tgt) (services d)"
    using own db_inv_parts(3) [OF inv] unfolding move_accounts_def Let_def ids
    by (auto simp: rows_update_def relabel_accounts_tables merged_service_def)
  have pay: "payments ?m = map (merged_payment src tgt) (payments d)"
    using own db_inv_parts(6) [OF inv] unfolding move_accounts_def Let_def ids
    by (auto simp: rows_update_def relabel_accounts_tables merged_payment_def)
  have rest: "providers ?m = providers d" "projects ?m = projects d" "snapshots ?m = snapshots d" "sync_runs ?m = sync_runs d"
    by (simp_all add: move_accounts_def Let_def relabel_accounts_tables)
  have "accounts_of (?m \<lparr> providers := x \<rparr>) src = []" for x
    using ne acc by (auto simp: accounts_of_def merged_account_def filter_empty_conv)
  then have "merge_rows src tgt ls fill d = ?m \<lparr> providers := row_delete pv_uuid src (row_update pv_uuid tgt fill (providers ?m)) \<rparr>"
    by (simp add: merge_rows_def Let_def delete_provider_def delete_accounts_nil)
  also have "\<dots> = d \<lparr> accounts := accounts ?m, services := services ?m, payments := payments ?m,
      providers := row_delete pv_uuid src (row_update pv_uuid tgt fill (providers ?m)) \<rparr>"
    using rest by (intro db.equality) simp_all
  finally show ?thesis unfolding acc svc pay rest .
qed

lemma merged_fields [simp]:
  "ac_uuid (merged_account src tgt ls a) = ac_uuid a"
  "ac_provider (merged_account src tgt ls a) = (if ac_provider a = src then tgt else ac_provider a)"
  "sv_uuid (merged_service src tgt s) = sv_uuid s" "sv_account (merged_service src tgt s) = sv_account s"
  "sv_external (merged_service src tgt s) = sv_external s" "sv_project (merged_service src tgt s) = sv_project s"
  "sv_managed (merged_service src tgt s) = sv_managed s"
  "sv_provider (merged_service src tgt s) = (if sv_provider s = src then tgt else sv_provider s)"
  "pm_uuid (merged_payment src tgt p) = pm_uuid p" "pm_account (merged_payment src tgt p) = pm_account p"
  "pm_external (merged_payment src tgt p) = pm_external p" "pm_service (merged_payment src tgt p) = pm_service p"
  "pm_provider (merged_payment src tgt p) = (if pm_provider p = src then tgt else pm_provider p)"
  by (simp_all add: merged_account_def merged_service_def merged_payment_def)

lemma merged_identity_uuid [simp]: "pv_uuid (merged_identity s p) = pv_uuid p" by (simp add: merged_identity_def)

lemma merged_label_ids: "map fst (merged_labels n as bs) = map ac_uuid as"
  by (simp add: merged_labels_def merged_labels_uuids)

lemma merge_rows_inv:
  assumes inv: "db_inv d" and ne: "src \<noteq> tgt" and ls: "map fst ls = map ac_uuid (accounts_of d src)"
    and tgt: "tgt \<in> pv_uuid ` set (providers d)" and fill: "\<And>p. pv_uuid (fill p) = pv_uuid p"
  shows "db_inv (merge_rows src tgt ls fill d)"
proof (rule db_invI)
  let ?d = "merge_rows src tgt ls fill d"
  note eq = merge_rows_eq [OF inv ne ls, of fill]
  note ok = db_inv_accounts [OF inv, unfolded accounts_ok_def]
  have pv: "pv_uuid ` set (row_delete pv_uuid src (row_update pv_uuid tgt fill (providers d))) = pv_uuid ` set (providers d) - {src}"
    using row_update_image [of pv_uuid fill pv_uuid tgt "providers d"] fill by (auto simp: row_delete_def)
  have "distinct (map pv_uuid (row_delete pv_uuid src (row_update pv_uuid tgt fill (providers d))))"
    unfolding row_delete_def using ok row_update_keys [of pv_uuid fill tgt "providers d"] fill
    by (intro distinct_map_filter) simp
  then show "accounts_ok ?d" unfolding eq accounts_ok_def using ok ne tgt by (auto simp: pv comp_def)
  have pairs: "(u, if v = src then tgt else v) \<in> owner_pairs ?d" if "(u, v) \<in> owner_pairs d" for u v
    using that unfolding eq owner_pairs_def by (auto simp: image_image)
  show "distinct (map sv_uuid (services ?d))" "distinct (ext_keys (map (\<lambda>s. (sv_account s, sv_external s)) (services ?d)))"
    "distinct (map pm_uuid (payments ?d))" "distinct (ext_keys (map (\<lambda>p. (pm_account p, pm_external p)) (payments ?d)))"
    unfolding eq using db_inv_parts(1,2,4,5) [OF inv] by (simp_all add: comp_def)
  show "(sv_account s, sv_provider s) \<in> owner_pairs ?d \<and> sv_project s \<in> pj_uuid ` set (projects ?d) \<and> sv_managed s = (sv_external s \<noteq> None)"
    if s: "s \<in> set (services ?d)" for s
  proof -
    obtain t where t: "t \<in> set (services d)" "s = merged_service src tgt t" using s unfolding eq by auto
    then show ?thesis using db_inv_parts(3) [OF inv t(1)] pairs [of "sv_account t" "sv_provider t"] by (simp add: eq)
  qed
  show "(pm_account p, pm_provider p) \<in> owner_pairs ?d" if p: "p \<in> set (payments ?d)" for p
  proof -
    obtain q where q: "q \<in> set (payments d)" "p = merged_payment src tgt q" using p unfolding eq by auto
    then show ?thesis using db_inv_parts(6) [OF inv q(1)] pairs [of "pm_account q" "pm_provider q"] by simp
  qed
  show "\<exists>s\<in>set (services ?d). sv_uuid s = u \<and> (pm_external p \<noteq> None \<longrightarrow> sv_managed s)"
    if p: "p \<in> set (payments ?d)" "pm_service p = Some u" for p u
  proof -
    obtain q where q: "q \<in> set (payments d)" "p = merged_payment src tgt q" using p unfolding eq by auto
    then obtain s where "s \<in> set (services d)" "sv_uuid s = u" "pm_external p \<noteq> None \<longrightarrow> sv_managed s"
      using db_inv_parts(7) [OF inv q(1), of u] p(2) by auto
    then show ?thesis unfolding eq by (intro bexI [of _ "merged_service src tgt s"]) simp_all
  qed
qed

text \<open>No two accounts of a provider have the same label, up to case; the unlabelled one counts as a label.\<close>

definition labels_ok :: "db \<Rightarrow> bool" where
  "labels_ok d = (\<forall>a\<in>set (accounts d). \<forall>b\<in>set (accounts d).
     ac_provider a = ac_provider b \<and> label_key (ac_label a) = label_key (ac_label b) \<longrightarrow> ac_uuid a = ac_uuid b)"

definition never_empty :: "db \<Rightarrow> bool" where
  "never_empty d = (\<forall>p\<in>set (providers d). accounts_of d (pv_uuid p) \<noteq> [])"

lemma labels_in_use_mem: "b \<in> set bs \<Longrightarrow> ac_label b = Some l \<Longrightarrow> to_lower l \<in> set (labels_in_use bs)"
  unfolding labels_in_use_def by force

lemma merge_labels_ok:
  assumes l: "labels_ok d" and inv: "db_inv d" and ne: "src \<noteq> tgt"
  shows "labels_ok (merge_rows src tgt (merged_labels n (accounts_of d src) (accounts_of d tgt)) fill d)"
proof -
  let ?ls = "merged_labels n (accounts_of d src) (accounts_of d tgt)"
  note fresh = merged_labels_fresh [of "labels_in_use (accounts_of d tgt)" n "accounts_of d src", folded merged_labels_def]
  have dist: "distinct (map ac_uuid (accounts d))" using db_inv_accounts [OF inv] by (simp add: accounts_ok_def)
  then have dls: "distinct (map fst ?ls)" unfolding merged_label_ids accounts_of_def by (simp add: distinct_map_filter)
  have lab: "\<exists>l. (ac_uuid a, l) \<in> set ?ls \<and> ac_label (merged_account src tgt ?ls a) = Some l"
    if "a \<in> set (accounts d)" "ac_provider a = src" for a
  proof -
    have "ac_uuid a \<in> fst ` set ?ls" using that arg_cong [OF merged_label_ids, of set] by (auto simp: accounts_of_def)
    then obtain l where "(ac_uuid a, l) \<in> set ?ls" by force
    then show ?thesis using that(2) dls by (auto simp: merged_account_def)
  qed
  have other: "ac_label (merged_account src tgt ?ls a) = ac_label a" if "ac_provider a \<noteq> src" for a
    using that by (simp add: merged_account_def)
  have clash: False if a: "a \<in> set (accounts d)" "ac_provider a = src" and b: "b \<in> set (accounts d)" "ac_provider b = tgt"
      and k: "label_key (ac_label (merged_account src tgt ?ls a)) = label_key (ac_label b)" for a b
  proof -
    obtain l where l: "(ac_uuid a, l) \<in> set ?ls" "ac_label (merged_account src tgt ?ls a) = Some l" using lab [OF a] by blast
    then obtain m where m: "ac_label b = Some m" "to_lower m = to_lower l" using k by (cases "ac_label b") (auto simp: label_key_def)
    have "to_lower m \<in> set (labels_in_use (accounts_of d tgt))" using b m(1) by (intro labels_in_use_mem [of b]) (simp_all add: accounts_of_def)
    moreover have "to_lower l \<in> set (map (to_lower \<circ> snd) ?ls)" using l(1) by force
    ultimately show False using fresh m(2) by auto
  qed
  have same: "ac_uuid a = ac_uuid b" if a: "a \<in> set (accounts d)" "ac_provider a = src" and b: "b \<in> set (accounts d)" "ac_provider b = src"
      and k: "label_key (ac_label (merged_account src tgt ?ls a)) = label_key (ac_label (merged_account src tgt ?ls b))" for a b
  proof -
    obtain l m where lm: "(ac_uuid a, l) \<in> set ?ls" "(ac_uuid b, m) \<in> set ?ls" "to_lower l = to_lower m"
      using lab [OF a] lab [OF b] k by (auto simp: label_key_def)
    then show ?thesis using distinct_row [of "to_lower \<circ> snd" ?ls "(ac_uuid a, l)" "(ac_uuid b, m)"] fresh by auto
  qed
  show ?thesis
    unfolding labels_ok_def merge_rows_eq [OF inv ne merged_label_ids]
  proof (clarsimp simp del: merged_fields(2))
    fix a b
    assume ab: "a \<in> set (accounts d)" "b \<in> set (accounts d)"
      and p: "ac_provider (merged_account src tgt ?ls a) = ac_provider (merged_account src tgt ?ls b)"
      and k: "label_key (ac_label (merged_account src tgt ?ls a)) = label_key (ac_label (merged_account src tgt ?ls b))"
    show "ac_uuid a = ac_uuid b"
    proof (cases "ac_provider a = src"; cases "ac_provider b = src")
      assume "ac_provider a = src" "ac_provider b = src"
      then show ?thesis using same [OF ab(1) _ ab(2)] k by blast
    next
      assume s: "ac_provider a = src" "ac_provider b \<noteq> src"
      then show ?thesis using clash [OF ab(1) s(1) ab(2)] p k other [OF s(2)] by simp
    next
      assume s: "ac_provider a \<noteq> src" "ac_provider b = src"
      then show ?thesis using clash [OF ab(2) s(2) ab(1)] p k other [OF s(1)] by simp
    next
      assume s: "ac_provider a \<noteq> src" "ac_provider b \<noteq> src"
      then have "ac_provider a = ac_provider b" "label_key (ac_label a) = label_key (ac_label b)"
        using p k unfolding merged_account_def by simp_all
      then show ?thesis using l ab unfolding labels_ok_def by blast
    qed
  qed
qed

section \<open>Every operation keeps accounts, labels and providers in order\<close>

definition panel_ok :: "db \<Rightarrow> bool" where "panel_ok d = (db_inv d \<and> labels_ok d \<and> never_empty d)"

text \<open>What the two conditions on accounts look at.\<close>

definition account_core :: "account \<Rightarrow> uuid \<times> uuid \<times> string option" where
  "account_core a = (ac_uuid a, ac_provider a, ac_label a)"

lemma labels_ok_core: "labels_ok d = (\<forall>(u, p, l)\<in>account_core ` set (accounts d). \<forall>(v, q, m)\<in>account_core ` set (accounts d).
    p = q \<and> label_key l = label_key m \<longrightarrow> u = v)"
  by (simp add: labels_ok_def account_core_def)

lemma never_empty_core: "never_empty d = (\<forall>p\<in>pv_uuid ` set (providers d). p \<in> (\<lambda>(u, p, l). p) ` account_core ` set (accounts d))"
  by (simp add: never_empty_def accounts_of_def account_core_def filter_empty_conv image_image image_iff) metis

lemma same_core_ok: "db_inv d' \<Longrightarrow> account_core ` set (accounts d') = account_core ` set (accounts d) \<Longrightarrow>
    pv_uuid ` set (providers d') = pv_uuid ` set (providers d) \<Longrightarrow> panel_ok d \<Longrightarrow> panel_ok d'"
  by (simp add: panel_ok_def labels_ok_core never_empty_core)

lemma labels_ok_subset: "set (accounts d') \<subseteq> set (accounts d) \<Longrightarrow> labels_ok d \<Longrightarrow> labels_ok d'"
  unfolding labels_ok_def by blast

lemma accounts_append_inv:
  assumes inv: "db_inv d" and u: "ac_uuid a \<notin> ac_uuid ` set (accounts d)" and p: "ac_provider a \<in> pv_uuid ` set ps"
    and ps: "distinct (map pv_uuid ps)" "pv_uuid ` set (providers d) \<subseteq> pv_uuid ` set ps"
  shows "db_inv (d \<lparr> providers := ps, accounts := accounts d @ [a] \<rparr>)"
proof (rule db_invI)
  let ?d = "d \<lparr> providers := ps, accounts := accounts d @ [a] \<rparr>"
  have pairs: "owner_pairs d \<subseteq> owner_pairs ?d" by (auto simp: owner_pairs_def)
  show "accounts_ok ?d" using db_inv_accounts [OF inv] u p ps by (auto simp: accounts_ok_def)
  show "(sv_account s, sv_provider s) \<in> owner_pairs ?d \<and> sv_project s \<in> pj_uuid ` set (projects ?d) \<and> sv_managed s = (sv_external s \<noteq> None)"
    if "s \<in> set (services ?d)" for s using that db_inv_parts(3) [OF inv, of s] pairs by auto
  show "(pm_account p, pm_provider p) \<in> owner_pairs ?d" if "p \<in> set (payments ?d)" for p
    using that db_inv_parts(6) [OF inv, of p] pairs by auto
  show "\<exists>s\<in>set (services ?d). sv_uuid s = v \<and> (pm_external p \<noteq> None \<longrightarrow> sv_managed s)"
    if "p \<in> set (payments ?d)" "pm_service p = Some v" for p v using that db_inv_parts(7) [OF inv, of p v] by simp
qed (use db_inv_parts [OF inv] in simp_all)

lemma accounts_append_labels: "labels_ok d \<Longrightarrow> \<not> label_taken (accounts_of d (ac_provider a)) (ac_label a) None \<Longrightarrow>
    labels_ok (d \<lparr> providers := ps, accounts := accounts d @ [a] \<rparr>)"
proof -
  assume l: "labels_ok d" and t: "\<not> label_taken (accounts_of d (ac_provider a)) (ac_label a) None"
  have n: "label_key (ac_label b) \<noteq> label_key (ac_label a)" if "b \<in> set (accounts d)" "ac_provider b = ac_provider a" for b
    using that t by (auto simp: label_taken_def accounts_of_def)
  have pair: "ac_uuid b = ac_uuid c" if "b \<in> insert a (set (accounts d))" "c \<in> insert a (set (accounts d))"
      "ac_provider b = ac_provider c" "label_key (ac_label b) = label_key (ac_label c)" for b c
    using that(1)
  proof
    assume b: "b = a"
    then show ?thesis using that(2-4) n [of c] by fastforce
  next
    assume b: "b \<in> set (accounts d)"
    show ?thesis using that(2)
    proof
      assume "c \<in> set (accounts d)"
      then show ?thesis using l b that(3,4) unfolding labels_ok_def by blast
    qed (use n [OF b] that(3,4) in simp)
  qed
  show ?thesis
  proof (unfold labels_ok_def, intro ballI impI, elim conjE)
    fix b c
    assume "b \<in> set (accounts (d \<lparr> providers := ps, accounts := accounts d @ [a] \<rparr>))" "c \<in> set (accounts (d \<lparr> providers := ps, accounts := accounts d @ [a] \<rparr>))"
    then have "b \<in> insert a (set (accounts d))" "c \<in> insert a (set (accounts d))" by simp_all
    then show "ac_provider b = ac_provider c \<Longrightarrow> label_key (ac_label b) = label_key (ac_label c) \<Longrightarrow> ac_uuid b = ac_uuid c" by (rule pair)
  qed
qed

lemma create_provider_ok:
  assumes ok: "panel_ok d" and G: "fresh_ids G"
  shows "panel_ok (fst (create_provider_op D C iv G dto d))"
proof (cases "build_credentials C iv (np_kind dto) (na_creds (coalesce (np_account dto) empty_account)) None")
  case (Inr creds)
  let ?u = "G (map pv_uuid (providers d))"
  obtain p a where pa: "fst (create_provider_op D C iv G dto d) = d \<lparr> providers := providers d @ [p], accounts := accounts d @ [a] \<rparr>"
    "pv_uuid p = ?u" "ac_uuid a = G (map ac_uuid (accounts d))" "ac_provider a = ?u"
    using Inr by (simp add: create_provider_op_def Let_def new_account_def)
  have inv: "db_inv d" and u: "?u \<notin> pv_uuid ` set (providers d)" and own: "\<forall>b\<in>set (accounts d). ac_provider b \<in> pv_uuid ` set (providers d)"
    using ok fresh_mem [OF G, of pv_uuid "providers d"] db_inv_accounts [of d] by (auto simp: panel_ok_def accounts_ok_def)
  have "ac_provider b \<noteq> ?u" if "b \<in> set (accounts d)" for b using that own u by metis
  then have none: "accounts_of d ?u = []" by (simp add: accounts_of_def filter_empty_conv)
  have "db_inv (d \<lparr> providers := providers d @ [p], accounts := accounts d @ [a] \<rparr>)"
    using pa u fresh_mem [OF G, of ac_uuid "accounts d"] db_inv_accounts [OF inv]
    by (intro accounts_append_inv [OF inv]) (auto simp: accounts_ok_def)
  moreover have "labels_ok (d \<lparr> providers := providers d @ [p], accounts := accounts d @ [a] \<rparr>)"
    using ok none pa(4) by (intro accounts_append_labels) (auto simp: panel_ok_def label_taken_def)
  moreover have "never_empty (d \<lparr> providers := providers d @ [p], accounts := accounts d @ [a] \<rparr>)"
    using ok pa(2,4) by (auto simp: panel_ok_def never_empty_def accounts_of_def)
  ultimately show ?thesis unfolding pa(1) panel_ok_def by blast
qed (use ok in \<open>simp add: create_provider_op_def refused_def\<close>)

lemma add_account_ok:
  assumes ok: "panel_ok d" and G: "fresh_ids G"
  shows "panel_ok (fst (add_account_op D C iv G pv dto d))"
proof -
  consider "fst (add_account_op D C iv G pv dto d) = d"
    | a p where "fst (add_account_op D C iv G pv dto d) = d \<lparr> providers := providers d, accounts := accounts d @ [a] \<rparr>"
      "ac_uuid a = G (map ac_uuid (accounts d))" "ac_provider a = pv" "find_provider d pv = Some p"
      "\<not> label_taken (accounts_of d pv) (ac_label a) None"
  proof (cases "find_provider d pv")
    case (Some p)
    show thesis
    proof (cases "label_taken (accounts_of d pv) (na_label dto) None")
      case False
      show thesis
        using Some False that(1) that(2) [OF _ _ _ Some]
        by (cases "build_credentials C iv (pv_kind p) (na_creds dto) None")
           (simp_all add: add_account_op_def refused_def Let_def new_account_def)
    qed (use that(1) Some in \<open>simp add: add_account_op_def refused_def\<close>)
  qed (simp add: add_account_op_def refused_def)
  then show ?thesis
  proof cases
    case (2 a p)
    have inv: "db_inv d" and pv: "pv \<in> pv_uuid ` set (providers d)"
      using ok provider_table.find_sound [OF 2(4) [unfolded find_provider_def]] by (auto simp: panel_ok_def)
    have "db_inv (d \<lparr> providers := providers d, accounts := accounts d @ [a] \<rparr>)"
      using 2(2,3) pv fresh_mem [OF G, of ac_uuid "accounts d"] db_inv_accounts [OF inv]
      by (intro accounts_append_inv [OF inv]) (auto simp: accounts_ok_def)
    moreover have "labels_ok (d \<lparr> providers := providers d, accounts := accounts d @ [a] \<rparr>)"
      using ok 2(3,5) by (intro accounts_append_labels) (auto simp: panel_ok_def)
    moreover have "never_empty (d \<lparr> providers := providers d, accounts := accounts d @ [a] \<rparr>)"
      using ok by (auto simp: panel_ok_def never_empty_def accounts_of_def)
    ultimately show ?thesis unfolding 2(1) panel_ok_def by blast
  qed (use ok in simp)
qed

lemma patched_provider_uuid [simp]: "pv_uuid (patched_provider q p) = pv_uuid p"
  by (simp add: patched_provider_def when_set_def split: option.split)

lemma update_provider_ok:
  assumes ok: "panel_ok d"
  shows "panel_ok (fst (update_provider_op D C u q d))"
proof (cases "find_provider d u")
  case (Some p)
  let ?ps = "row_update pv_uuid u (patched_provider q) (providers d)"
  have ids: "map pv_uuid ?ps = map pv_uuid (providers d)" by (rule row_update_map) simp
  have "db_inv (d \<lparr> providers := ?ps \<rparr>)"
    using ok db_inv_accounts [of d] row_update_image [of pv_uuid "patched_provider q" pv_uuid u "providers d"]
    by (intro providers_inv) (auto simp: panel_ok_def accounts_ok_def ids)
  then show ?thesis
    using Some same_core_ok [OF _ _ _ ok] row_update_image [of pv_uuid "patched_provider q" pv_uuid u "providers d"]
    by (simp add: update_provider_op_def Let_def)
qed (use ok in \<open>simp add: update_provider_op_def refused_def\<close>)

lemma delete_provider_accounts:
  assumes inv: "db_inv d"
  shows "a \<in> set (accounts (delete_provider u d)) \<longleftrightarrow> a \<in> set (accounts d) \<and> ac_provider a \<noteq> u"
proof -
  have dist: "distinct (map ac_uuid (accounts d))" using db_inv_accounts [OF inv] by (simp add: accounts_ok_def)
  show ?thesis using account_ids_of [OF dist, of a u] by (auto simp: delete_provider_def delete_accounts_tables)
qed

lemma delete_provider_never_empty:
  assumes inv: "db_inv d" and full: "never_empty d"
  shows "never_empty (delete_provider u d)"
  unfolding never_empty_def
proof
  fix q assume q: "q \<in> set (providers (delete_provider u d))"
  then have "q \<in> set (providers d)" "pv_uuid q \<noteq> u" by (auto simp: delete_provider_def row_delete_def)
  then obtain a where "a \<in> set (accounts d)" "ac_provider a = pv_uuid q" "ac_provider a \<noteq> u"
    using full by (fastforce simp: never_empty_def accounts_of_def filter_empty_conv)
  then show "accounts_of (delete_provider u d) (pv_uuid q) \<noteq> []"
    using delete_provider_accounts [OF inv] by (auto simp: accounts_of_def filter_empty_conv)
qed

lemma remove_provider_ok:
  assumes ok: "panel_ok d"
  shows "panel_ok (fst (remove_provider_op u d))"
proof (cases "find_provider d u")
  case (Some p)
  have inv: "db_inv d" and full: "never_empty d" using ok by (simp_all add: panel_ok_def)
  have "labels_ok (delete_provider u d)"
    using delete_provider_accounts [OF inv] ok [unfolded panel_ok_def] by (blast intro: labels_ok_subset)
  then show ?thesis using Some delete_provider_inv [OF inv] delete_provider_never_empty [OF inv full]
    by (simp add: remove_provider_op_def panel_ok_def)
qed (use ok in \<open>simp add: remove_provider_op_def refused_def\<close>)

text \<open>The two outcomes of a merge request.\<close>

lemma merge_providers_cases:
  obtains (refused) e where "merge_providers_op D C src tgt d = (d, [], Inl e)"
  | (merged) s t where "find_provider d src = Some s" "find_provider d tgt = Some t" "src \<noteq> tgt" "pv_kind s = pv_kind t"
      "fst (merge_providers_op D C src tgt d) =
         merge_rows src tgt (merged_labels (pv_name s) (accounts_of d src) (accounts_of d tgt)) (merged_identity s) d"
      "\<exists>r. snd (snd (merge_providers_op D C src tgt d)) = Inr r"
proof (cases "find_provider d src")
  case (Some s)
  show thesis
  proof (cases "find_provider d tgt")
    case t: (Some t)
    show thesis
    proof (cases "merge_error s t")
      case None
      have "pv_uuid s = src" "pv_uuid t = tgt"
        using Some t provider_table.find_sound unfolding find_provider_def by blast+
      then show thesis using None Some t merged by (auto simp: merge_providers_op_def merge_error_def Let_def split: if_splits)
    qed (use Some t refused in \<open>simp add: merge_providers_op_def refused_def\<close>)
  qed (use Some refused in \<open>simp add: merge_providers_op_def refused_def\<close>)
qed (use refused in \<open>simp add: merge_providers_op_def refused_def\<close>)

lemma found_provider: "find_provider d u = Some p \<Longrightarrow> p \<in> set (providers d) \<and> pv_uuid p = u"
  using provider_table.find_sound unfolding find_provider_def by blast

lemma found_account: "find_account d u = Some a \<Longrightarrow> a \<in> set (accounts d) \<and> ac_uuid a = u"
  using account_table.find_sound unfolding find_account_def by blast

lemma merge_never_empty:
  assumes ne: "never_empty d" and inv: "db_inv d" and st: "src \<noteq> tgt" and ls: "map fst ls = map ac_uuid (accounts_of d src)"
    and fill: "\<And>p. pv_uuid (fill p) = pv_uuid p"
  shows "never_empty (merge_rows src tgt ls fill d)"
  unfolding never_empty_def
proof
  fix q assume "q \<in> set (providers (merge_rows src tgt ls fill d))"
  then have "q \<in> set (row_update pv_uuid tgt fill (providers d))" and nq: "pv_uuid q \<noteq> src"
    unfolding merge_rows_eq [OF inv st ls] by (simp_all add: row_delete_def)
  then have "pv_uuid q \<in> pv_uuid ` set (providers d)" using row_update_image [of pv_uuid fill pv_uuid tgt "providers d"] fill by blast
  then obtain a where a: "a \<in> set (accounts d)" "ac_provider a = pv_uuid q"
    using ne by (fastforce simp: never_empty_def accounts_of_def filter_empty_conv)
  then have "merged_account src tgt ls a \<in> set (accounts (merge_rows src tgt ls fill d))"
    unfolding merge_rows_eq [OF inv st ls] by simp
  then show "accounts_of (merge_rows src tgt ls fill d) (pv_uuid q) \<noteq> []"
    using a nq unfolding accounts_of_def filter_empty_conv by (metis merged_fields(2))
qed

lemma merge_providers_ok:
  assumes ok: "panel_ok d"
  shows "panel_ok (fst (merge_providers_op D C src tgt d))"
proof (cases rule: merge_providers_cases [of D C src tgt d])
  case (merged s t)
  have inv: "db_inv d" and tgt: "tgt \<in> pv_uuid ` set (providers d)"
    using ok found_provider [OF merged(2)] by (auto simp: panel_ok_def)
  show ?thesis
    unfolding merged(5) panel_ok_def
    using ok merge_rows_inv [OF inv merged(3) merged_label_ids tgt] merge_labels_ok [OF _ inv merged(3)]
      merge_never_empty [OF _ inv merged(3) merged_label_ids]
    by (simp add: panel_ok_def)
qed (use ok in simp)

lemma patched_account_fields [simp]: "ac_uuid (patched_account q c a) = ac_uuid a" "ac_provider (patched_account q c a) = ac_provider a"
  "ac_label (patched_account q c a) = coalesce (ap_label q) (ac_label a)"
  by (simp_all add: patched_account_def when_set_def Let_def split: option.split)

lemma update_account_op_ok:
  assumes ok: "panel_ok d"
  shows "panel_ok (fst (update_account_op D C iv u q d))"
proof -
  consider "fst (update_account_op D C iv u q d) = d"
    | a creds where "find_account d u = Some a" "fst (update_account_op D C iv u q d) = update_account u (patched_account q creds) d"
      "coalesce (ap_label q) (ac_label a) = ac_label a \<or> \<not> label_taken (accounts_of d (ac_provider a)) (coalesce (ap_label q) (ac_label a)) (Some u)"
  proof (cases "find_account d u")
    case (Some a)
    show thesis
    proof (cases "ap_label q \<noteq> None \<and> the (ap_label q) \<noteq> ac_label a \<and> label_taken (accounts_of d (ac_provider a)) (the (ap_label q)) (Some u)")
      case False
      have l: "coalesce (ap_label q) (ac_label a) = ac_label a \<or> \<not> label_taken (accounts_of d (ac_provider a)) (coalesce (ap_label q) (ac_label a)) (Some u)"
        using False by (cases "ap_label q") auto
      show thesis
        using Some that(1) that(2) [OF Some _ l] unfolding update_account_op_def Some option.case if_not_P [OF False]
        by (cases "build_credentials C iv (account_kind d a) (ap_creds q) (ac_credentials a)") (simp_all add: refused_def Let_def)
    qed (use that(1) Some in \<open>simp add: update_account_op_def refused_def\<close>)
  qed (simp add: update_account_op_def refused_def)
  then show ?thesis
  proof cases
    case (2 a creds)
    let ?f = "patched_account q creds"
    let ?d = "update_account u ?f d"
    have inv: "db_inv d" and lab: "labels_ok d" and ne: "never_empty d" using ok by (simp_all add: panel_ok_def)
    have dist: "distinct (map ac_uuid (accounts d))" using db_inv_accounts [OF inv] by (simp add: accounts_ok_def)
    note a = found_account [OF 2(1)]
    have only: "b = a" if "b \<in> set (accounts d)" "ac_uuid b = u" for b using distinct_row [OF dist that(1)] a that(2) by blast
    have m: "map (\<lambda>a. (ac_uuid a, ac_provider a)) (accounts ?d) = map (\<lambda>a. (ac_uuid a, ac_provider a)) (accounts d)"
      unfolding update_account_def by (simp add: row_update_def)
    have "db_inv ?d"
      using inv db_ok_accounts [OF _ m] by (simp add: db_inv_def update_account_def)
    moreover have "never_empty ?d"
      using ne row_update_image [of ac_provider ?f ac_uuid u "accounts d"] unfolding never_empty_core
      by (simp add: image_image account_core_def update_account_def)
    moreover have "labels_ok ?d"
    proof (unfold labels_ok_def, intro ballI impI, elim conjE)
      fix x y assume xy: "x \<in> set (accounts ?d)" "y \<in> set (accounts ?d)"
        and p: "ac_provider x = ac_provider y" and k: "label_key (ac_label x) = label_key (ac_label y)"
      obtain b c where b: "b \<in> set (accounts d)" "x = (if ac_uuid b = u then ?f b else b)"
        and c: "c \<in> set (accounts d)" "y = (if ac_uuid c = u then ?f c else c)"
        using xy unfolding update_account_def by (auto simp: row_update_mem)
      have new: "label_key (ac_label e) \<noteq> label_key (coalesce (ap_label q) (ac_label a)) \<or> coalesce (ap_label q) (ac_label a) = ac_label a"
        if "e \<in> set (accounts d)" "ac_provider e = ac_provider a" "ac_uuid e \<noteq> u" for e
        using 2(3) that by (auto simp: label_taken_def accounts_of_def)
      have old: "ac_uuid b = ac_uuid c" if "ac_provider b = ac_provider c" "label_key (ac_label b) = label_key (ac_label c)"
        using lab b(1) c(1) that unfolding labels_ok_def by blast
      have prov: "ac_provider b = ac_provider c" using p b(2) c(2) by (simp split: if_splits)
      show "ac_uuid x = ac_uuid y"
      proof (cases "ac_uuid b = u"; cases "ac_uuid c = u")
        assume s: "ac_uuid b = u" "ac_uuid c \<noteq> u"
        then show ?thesis using k only [OF b(1)] new [OF c(1)] b c prov old by auto
      next
        assume s: "ac_uuid b \<noteq> u" "ac_uuid c = u"
        then show ?thesis using k only [OF c(1)] new [OF b(1)] b c prov old by auto
      qed (use k b c prov old in auto)
    qed
    ultimately show ?thesis unfolding 2(2) panel_ok_def by blast
  qed (use ok in simp)
qed

text \<open>A removal that was prepared earlier: the account, if it is still there, is still its provider's, or that provider is gone.\<close>

definition pending_ok :: "db \<Rightarrow> uuid \<times> uuid \<Rightarrow> bool" where
  "pending_ok d x = (\<forall>a\<in>set (accounts d). ac_uuid a = fst x \<longrightarrow> ac_provider a = snd x \<or> snd x \<notin> pv_uuid ` set (providers d))"

lemma finish_remove_cases:
  obtains (kept) "fst (finish_remove_account u pv d) = d"
  | (removed) a where "find_account d u = Some a" "1 < length (accounts_of d pv)" "fst (finish_remove_account u pv d) = delete_accounts [u] d"
  by (cases "find_account d u"; cases "length (accounts_of d pv) \<le> 1") (auto simp: finish_remove_account_def delete_unless_last_def)

lemma finish_remove_never_empty:
  assumes inv: "db_inv d" and full: "never_empty d" and pend: "pending_ok d (u, pv)"
  shows "never_empty (fst (finish_remove_account u pv d))"
proof (cases rule: finish_remove_cases [of u pv d])
  case (removed a)
  have dist: "distinct (map ac_uuid (accounts d))" using db_inv_accounts [OF inv] by (simp add: accounts_ok_def)
  note a = found_account [OF removed(1)]
  have "accounts_of d pv \<noteq> []" using removed(2) by auto
  then have "pv \<in> pv_uuid ` set (providers d)"
    using db_inv_accounts [OF inv] by (auto simp: accounts_of_def accounts_ok_def filter_empty_conv)
  then have apv: "ac_provider a = pv" using pend a by (auto simp: pending_ok_def)
  show ?thesis
    unfolding never_empty_def removed(3)
  proof
    fix q assume "q \<in> set (providers (delete_accounts [u] d))"
    then have q: "q \<in> set (providers d)" by (simp add: delete_accounts_tables)
    have dq: "distinct (accounts_of d (pv_uuid q))" using dist by (auto simp: accounts_of_def distinct_map)
    have one: "length (accounts_of d (pv_uuid q)) \<noteq> 0" "pv_uuid q = pv \<longrightarrow> 1 < length (accounts_of d (pv_uuid q))"
      using full q removed(2) by (auto simp: never_empty_def)
    show "accounts_of (delete_accounts [u] d) (pv_uuid q) \<noteq> []"
    proof
      assume e: "accounts_of (delete_accounts [u] d) (pv_uuid q) = []"
      have "x = a" if "x \<in> set (accounts_of d (pv_uuid q))" for x
        using that e a distinct_row [OF dist, of x a] by (auto simp: accounts_of_def delete_accounts_tables filter_empty_conv)
      then have sub: "set (accounts_of d (pv_uuid q)) \<subseteq> {a}" by blast
      then have "length (accounts_of d (pv_uuid q)) \<le> 1" using distinct_card [OF dq] card_mono [OF _ sub] by simp
      moreover from sub have "pv_uuid q = ac_provider a" using one(1) by (cases "accounts_of d (pv_uuid q)") (auto simp: accounts_of_def filter_eq_Cons_iff)
      ultimately show False using one(2) apv by simp
    qed
  qed
qed (use full in simp)

lemma finish_remove_ok:
  assumes ok: "panel_ok d" and pend: "pending_ok d (u, pv)"
  shows "panel_ok (fst (finish_remove_account u pv d))"
proof -
  have inv: "db_inv d" using ok by (simp add: panel_ok_def)
  have "db_inv (fst (finish_remove_account u pv d)) \<and> set (accounts (fst (finish_remove_account u pv d))) \<subseteq> set (accounts d)"
    by (cases rule: finish_remove_cases [of u pv d]) (use inv delete_accounts_inv [OF inv] in \<open>auto simp: delete_accounts_tables\<close>)
  then show ?thesis
    using ok finish_remove_never_empty [OF inv _ pend] labels_ok_subset unfolding panel_ok_def by blast
qed

section \<open>The merge, as a whole\<close>

lemma row_delete_keys: "map key (row_delete key k t) = filter (\<lambda>u. u \<noteq> k) (map key t)"
  by (simp add: row_delete_def filter_map comp_def)

text \<open>C6. A merge that succeeds loses nothing: the same accounts, services and payments are there, those of the source now under
  the target and otherwise unchanged, balances and logs are untouched, only the source provider is gone, and the target keeps
  its own identity.\<close>

theorem merge_keeps_everything:
  assumes inv: "db_inv d" and m: "merge_providers_op D C src tgt d = (d', dropped, Inr reply)"
  shows "map ac_uuid (accounts d') = map ac_uuid (accounts d) \<and>
    map (\<lambda>a. a \<lparr> ac_label := None, ac_provider := [] \<rparr>) (accounts d') = map (\<lambda>a. a \<lparr> ac_label := None, ac_provider := [] \<rparr>) (accounts d) \<and>
    map ac_provider (accounts d') = map (\<lambda>a. if ac_provider a = src then tgt else ac_provider a) (accounts d) \<and>
    services d' = map (merged_service src tgt) (services d) \<and> payments d' = map (merged_payment src tgt) (payments d) \<and>
    snapshots d' = snapshots d \<and> sync_runs d' = sync_runs d \<and> projects d' = projects d \<and>
    map pv_uuid (providers d') = filter (\<lambda>u. u \<noteq> src) (map pv_uuid (providers d)) \<and>
    dropped = [src, tgt] \<and> db_inv d'"
proof (cases rule: merge_providers_cases [of D C src tgt d])
  case (merged s t)
  let ?ls = "merged_labels (pv_name s) (accounts_of d src) (accounts_of d tgt)"
  have d': "d' = merge_rows src tgt ?ls (merged_identity s) d" using m merged(5) by simp
  note eq = merge_rows_eq [OF inv merged(3) merged_label_ids, of "pv_name s" "accounts_of d tgt" "merged_identity s"]
  have "dropped = [src, tgt]"
    using m merged by (simp add: merge_providers_op_def Let_def refused_def split: option.splits)
  moreover have "db_inv d'"
    unfolding d' using found_provider [OF merged(2)] by (intro merge_rows_inv [OF inv merged(3) merged_label_ids]) auto
  moreover have "map pv_uuid (providers d') = filter (\<lambda>u. u \<noteq> src) (map pv_uuid (providers d))"
    unfolding d' eq by (simp add: row_delete_keys)
  ultimately show ?thesis
    unfolding d' eq by (simp add: comp_def merged_account_def)
qed (use m in simp)

text \<open>The labels of a merge: one per moved account, in order, pairwise different up to case, none in use on the target, and
  within the 64 characters a label may have; the search for a free one always ends.\<close>

theorem merged_labels_spec:
  assumes "length (labels_in_use tgt) + length src + 2 < 10 ^ 60"
  shows "map fst (merged_labels name src tgt) = map ac_uuid src \<and>
    distinct (map (to_lower \<circ> snd) (merged_labels name src tgt)) \<and>
    set (map (to_lower \<circ> snd) (merged_labels name src tgt)) \<inter> set (labels_in_use tgt) = {} \<and>
    list_all (\<lambda>(u, l). int (length l) \<le> LABEL_MAX) (merged_labels name src tgt)"
  using merged_labels_length [OF assms] merged_labels_fresh [of "labels_in_use tgt" name src] merged_labels_uuids [of "labels_in_use tgt" name src]
  unfolding merged_labels_def list_all_iff by fastforce

definition label_account :: "uuid \<Rightarrow> uuid \<Rightarrow> string option \<Rightarrow> account" where
  "label_account u pv l = new_account u pv l None None"

definition hoster :: "uuid \<Rightarrow> string \<Rightarrow> provider" where
  "hoster u n = \<lparr> pv_uuid = u, pv_name = n, pv_kind = ''hetzner'', pv_favicon = None, pv_login_url = None, pv_icon_name = None, pv_icon_bg = None \<rparr>"

definition two_hosters :: db where
  "two_hosters = \<lparr> providers = [hoster ''p1'' ''Veesp 2'', hoster ''p2'' ''Veesp''],
     accounts = [label_account ''a1'' ''p1'' None, label_account ''a2'' ''p1'' (Some ''Work''), label_account ''a3'' ''p2'' (Some ''work'')],
     projects = [\<lparr> pj_uuid = DEFAULT_PROJECT_UUID, pj_name = ''Default'', pj_favicon = None, pj_icon_name = None, pj_icon_bg = None \<rparr>],
     services = [], payments = [], snapshots = [], sync_runs = [] \<rparr>"

lemma two_hosters_labels: "merged_labels ''Veesp 2'' [label_account ''a1'' ''p1'' None, label_account ''a2'' ''p1'' (Some ''Work'')]
    [label_account ''a3'' ''p2'' (Some ''work'')] = [(''a1'', ''Veesp 2''), (''a2'', ''Work (2)'')]"
  by code_simp

lemma two_hosters_inv: "db_inv two_hosters"
  by (rule db_invI)
     (simp_all add: two_hosters_def accounts_ok_def hoster_def label_account_def new_account_def ext_keys_def)

theorem merged_labels_spec_witness:
  "distinct (map (to_lower \<circ> snd) (merged_labels ''Veesp 2'' [label_account ''a1'' ''p1'' None, label_account ''a2'' ''p1'' (Some ''Work'')]
    [label_account ''a3'' ''p2'' (Some ''work'')]))"
proof -
  have "length (labels_in_use [label_account ''a3'' ''p2'' (Some ''work'')]) = 1"
    by (simp add: labels_in_use_def label_account_def new_account_def)
  then show ?thesis
    using merged_labels_spec [of "[label_account ''a3'' ''p2'' (Some ''work'')]"
        "[label_account ''a1'' ''p1'' None, label_account ''a2'' ''p1'' (Some ''Work'')]" "''Veesp 2''"] by simp
qed

theorem merge_keeps_everything_witness:
  "map ac_provider (accounts (fst (merge_providers_op dec20 plain_crypto ''p1'' ''p2'' two_hosters))) = [''p2'', ''p2'', ''p2'']"
proof -
  have f: "find_provider two_hosters ''p1'' = Some (hoster ''p1'' ''Veesp 2'')" "find_provider two_hosters ''p2'' = Some (hoster ''p2'' ''Veesp'')"
    by (simp_all add: find_provider_def row_find_def two_hosters_def hoster_def)
  then have "\<exists>d' f r. merge_providers_op dec20 plain_crypto ''p1'' ''p2'' two_hosters = (d', f, Inr r)"
    by (simp add: merge_providers_op_def merge_error_def hoster_def Let_def)
  then obtain d' fs r where m: "merge_providers_op dec20 plain_crypto ''p1'' ''p2'' two_hosters = (d', fs, Inr r)" by blast
  show ?thesis using merge_keeps_everything [OF two_hosters_inv m] m
    by (simp add: two_hosters_def label_account_def new_account_def)
qed

section \<open>The totals of a provider\<close>

lemma foldl_counts: "foldl (\<lambda>n a. n + f a) k as = k + sum_list (map f as)" for k :: nat
  by (induction as arbitrary: k) simp_all

lemma count_split: "distinct us \<Longrightarrow> sum_list (map (\<lambda>u. length (filter (\<lambda>x. g x = u) xs)) us) = length (filter (\<lambda>x. g x \<in> set us) xs)"
proof (induction xs)
  case (Cons x xs)
  have "sum_list (map (\<lambda>u. if g x = u then 1 + h u else h u) us) = (if g x \<in> set us then 1 else 0) + sum_list (map h us)" for h :: "_ \<Rightarrow> nat"
    using Cons(2) by (induction us) auto
  then show ?case using Cons by (simp add: if_distrib cong: if_cong)
qed simp

text \<open>The service and payment counts of a provider's reply, summed over its accounts, are the numbers of services and payments
  of that provider: none is counted twice and none is missed.\<close>

theorem provider_totals:
  assumes inv: "db_inv d"
  shows "vd_services (map_provider D C d p) = length (filter (\<lambda>s. sv_provider s = pv_uuid p) (services d)) \<and>
    vd_payments (map_provider D C d p) = length (filter (\<lambda>q. pm_provider q = pv_uuid p) (payments d))"
proof -
  let ?us = "map ac_uuid (accounts_of d (pv_uuid p))"
  have dist: "distinct (map ac_uuid (accounts d))" using db_inv_accounts [OF inv] by (simp add: accounts_ok_def)
  then have du: "distinct ?us" by (simp add: accounts_of_def distinct_map_filter)
  have own: "(u \<in> set ?us) = (v = pv_uuid p)" if pair: "(u, v) \<in> owner_pairs d" for u v
  proof -
    obtain a where a: "a \<in> set (accounts d)" "u = ac_uuid a" "v = ac_provider a" using pair by (auto simp: owner_pairs_def)
    then show ?thesis using account_ids_of [OF dist a(1)] by simp
  qed
  have s: "sv_account s \<in> set ?us \<longleftrightarrow> sv_provider s = pv_uuid p" if "s \<in> set (services d)" for s
    using own db_inv_parts(3) [OF inv that] by blast
  have q: "pm_account q \<in> set ?us \<longleftrightarrow> pm_provider q = pv_uuid p" if "q \<in> set (payments d)" for q
    using own db_inv_parts(6) [OF inv that] by blast
  have "vd_services (map_provider D C d p) = length (filter (\<lambda>s. sv_account s \<in> set ?us) (services d))"
    "vd_payments (map_provider D C d p) = length (filter (\<lambda>q. pm_account q \<in> set ?us) (payments d))"
    using count_split [OF du, of sv_account "services d"] count_split [OF du, of pm_account "payments d"]
    by (simp_all add: map_provider_def Let_def foldl_counts comp_def map_provider_account_def account_services_def account_payments_def)
  moreover have "filter (\<lambda>s. sv_account s \<in> set ?us) (services d) = filter (\<lambda>s. sv_provider s = pv_uuid p) (services d)"
    "filter (\<lambda>q. pm_account q \<in> set ?us) (payments d) = filter (\<lambda>q. pm_provider q = pv_uuid p) (payments d)"
    using s q by (auto intro!: filter_cong)
  ultimately show ?thesis by simp
qed

lemma sample_db_inv: "db_inv sample_db"
  using sample_db_ok by (simp add: db_inv_def links_ok_def sample_db_def sample_service_def)

theorem provider_totals_witness:
  "vd_services (map_provider dec20 plain_crypto sample_db (hoster ''p1'' ''Host'')) = 1 \<and>
   vd_payments (map_provider dec20 plain_crypto sample_db (hoster ''p1'' ''Host'')) = 1"
  using provider_totals [OF sample_db_inv, of dec20 plain_crypto "hoster ''p1'' ''Host''"]
  by (simp add: sample_db_def sample_service_def hoster_def)

end
