(* ===== verification/Spend.thy ===== *)
theory Spend
  imports Money
begin

text \<open>
  Daily spend of one account (apps/backend/src/common/spend.ts): the window of complete UTC days,
  the choice of the currency, the exact path from charges and the estimate from balance snapshots.
  An index assignment outside an array and the non-null assertion on the total throw in the
  source, so every function that may throw returns an option; the properties show that they never do.
\<close>

section \<open>Data\<close>

record spend_charge =
  sc_amount :: rat
  sc_currency :: ccy
  sc_at :: ms

record spend_snapshot =
  ss_balance :: rat
  ss_currency :: ccy
  ss_at :: ms

record spend_day =
  sd_date :: string
  sd_amount :: "rat option"
  sd_estimated :: bool

datatype spend_source = FromCharges | FromSnapshots

record account_spend_result =
  as_currency :: "ccy option"
  as_source :: "spend_source option"
  as_approximate :: bool
  as_covered_days :: int
  as_days :: "spend_day list"
  as_last7d :: "rat option"
  as_last30d :: "rat option"
  as_per_day :: "rat option"

record account_spend_input =
  in_charges :: "spend_charge list"
  in_first_charge_at :: "ms option"
  in_snapshots :: "spend_snapshot list"
  in_balance_currency :: "ccy option"
  in_use_snapshots :: bool
  in_days :: nat
  in_now :: ms

definition spend_window :: "ms \<Rightarrow> nat \<Rightarrow> ms \<times> ms" where
  "spend_window now days =
     (let e = (now div MS_PER_DAY) * MS_PER_DAY in (e - int days * MS_PER_DAY, e))"

section \<open>Helpers\<close>

text \<open>Sum of the known days; None when none of them is known.\<close>

definition sum_days :: "decimal_lib \<Rightarrow> spend_day list \<Rightarrow> rat option" where
  "sum_days D days =
     foldl (\<lambda>total d. case sd_amount d of None \<Rightarrow> total
                       | Some a \<Rightarrow> Some (dadd D (coalesce total 0) a)) None days"

text \<open>One turn of the loop over the counts; the first test is the truthiness of best.\<close>

definition better_currency :: "(ccy \<times> int) list \<Rightarrow> ccy option \<Rightarrow> ccy \<times> int \<Rightarrow> ccy option" where
  "better_currency counts best e =
     (let (cur, n) = e;
          best_n = (case best of None \<Rightarrow> 0 | Some b \<Rightarrow> if b = [] then 0 else coalesce (mget counts b) 0)
      in if best_n < n \<or> n = best_n \<and> (case best of None \<Rightarrow> False | Some b \<Rightarrow> cur < b)
         then Some cur else best)"

definition currency_counts :: "spend_charge list \<Rightarrow> (ccy \<times> int) list" where
  "currency_counts charges = foldl (\<lambda>m c. mbump (sc_currency c) 0 (\<lambda>n. n + 1) m) [] charges"

definition most_common_currency :: "spend_charge list \<Rightarrow> ccy option" where
  "most_common_currency charges =
     (let counts = currency_counts charges in foldl (better_currency counts) None counts)"

definition empty_spend :: "ms \<Rightarrow> nat \<Rightarrow> account_spend_result" where
  "empty_spend start days =
     \<lparr> as_currency = None, as_source = None, as_approximate = False, as_covered_days = 0,
       as_days = map (\<lambda>i. \<lparr> sd_date = iso_day (start + int i * MS_PER_DAY), sd_amount = None,
                             sd_estimated = False \<rparr>) [0..<days],
       as_last7d = None, as_last30d = None, as_per_day = None \<rparr>"

text \<open>days.slice(-7) and the quotient of the total by a span given in milliseconds or in whole days.\<close>

definition last_n :: "nat \<Rightarrow> 'a list \<Rightarrow> 'a list" where
  "last_n n xs = drop (length xs - n) xs"

definition summarize_spend ::
  "decimal_lib \<Rightarrow> spend_day list \<Rightarrow> ccy \<Rightarrow> spend_source \<Rightarrow> rat \<Rightarrow> account_spend_result option" where
  "summarize_spend D days cur src span_days =
     (case sum_days D days of
        None \<Rightarrow> None
      | Some last30d \<Rightarrow> Some
          \<lparr> as_currency = Some cur, as_source = Some src,
            as_approximate = (\<exists>d\<in>set days. sd_estimated d),
            as_covered_days = int (length (filter (\<lambda>d. sd_amount d \<noteq> None) days)),
            as_days = days, as_last7d = sum_days D (last_n 7 days), as_last30d = Some last30d,
            as_per_day = Some (cent_round D (ddiv D last30d span_days)) \<rparr>)"

section \<open>Spend from charges\<close>

definition add_charge :: "decimal_lib \<Rightarrow> ms \<Rightarrow> rat list \<Rightarrow> spend_charge \<Rightarrow> rat list option" where
  "add_charge D start dsums c = upd_at ((sc_at c - start) div MS_PER_DAY) (\<lambda>s. dadd D s (sc_amount c)) dsums"

text \<open>The earliest of the charges and of the first charge ever; charges is not empty.\<close>

definition earliest_charge :: "spend_charge list \<Rightarrow> ms option \<Rightarrow> ms" where
  "earliest_charge charges first_at =
     (let e = foldl min (sc_at (hd charges)) (map sc_at (tl charges))
      in case first_at of None \<Rightarrow> e | Some f \<Rightarrow> min e f)"

definition first_idx :: "spend_charge list \<Rightarrow> ms option \<Rightarrow> ms \<Rightarrow> int" where
  "first_idx charges first_at start = max 0 ((earliest_charge charges first_at - start) div MS_PER_DAY)"

definition charge_days :: "decimal_lib \<Rightarrow> ms \<Rightarrow> int \<Rightarrow> rat list \<Rightarrow> spend_day list" where
  "charge_days D start first dsums =
     map (\<lambda>i. \<lparr> sd_date = iso_day (start + int i * MS_PER_DAY),
                 sd_amount = (if int i < first then None else Some (cent_round D (dsums ! i))),
                 sd_estimated = False \<rparr>) [0..<length dsums]"

definition from_charges ::
  "decimal_lib \<Rightarrow> spend_charge list \<Rightarrow> ms option \<Rightarrow> ccy \<Rightarrow> ms \<Rightarrow> nat \<Rightarrow> account_spend_result option" where
  "from_charges D charges first_at cur start days =
     (case ofold (add_charge D start) (replicate days 0) charges of
        None \<Rightarrow> None
      | Some dsums \<Rightarrow>
          let first = first_idx charges first_at start in
          summarize_spend D (charge_days D start first dsums) cur FromCharges (of_int (int days - first)))"

section \<open>Spend from snapshots\<close>

text \<open>
  The inner loop: the days i from the one that holds the start of the clipped interval, while the
  day starts before its end, each with the part of the interval that falls on it.
\<close>

function overlaps :: "ms \<Rightarrow> ms \<Rightarrow> ms \<Rightarrow> int \<Rightarrow> int \<Rightarrow> (int \<times> int) list" where
  "overlaps start from_t to_t days i =
     (if days \<le> i then []
      else let day_start = start + i * MS_PER_DAY in
        if to_t \<le> day_start then []
        else let ov = min to_t (day_start + MS_PER_DAY) - max from_t day_start;
                 rest = overlaps start from_t to_t days (i + 1)
             in if ov \<le> 0 then rest else (i, ov) # rest)"
  by pat_completeness auto
termination by (relation "measure (\<lambda>(start, from_t, to_t, days, i). nat (days - i))") auto

declare overlaps.simps [simp del]

definition spread :: "decimal_lib \<Rightarrow> rat \<Rightarrow> int \<Rightarrow> bool \<Rightarrow> rat list \<times> bool list \<Rightarrow> int \<times> int
  \<Rightarrow> (rat list \<times> bool list) option" where
  "spread D spent dt top_up acc e =
     (let (dsums, est) = acc; (i, ov) = e in
      case upd_at i (\<lambda>s. dadd D s (ddiv D (dmul D spent (of_int ov)) (of_int dt))) dsums of
        None \<Rightarrow> None
      | Some dsums' \<Rightarrow> Some (dsums', if top_up then est[nat i := True] else est))"

definition snap_step :: "decimal_lib \<Rightarrow> rat option \<Rightarrow> ms \<Rightarrow> ms \<Rightarrow> nat \<Rightarrow> rat list \<times> bool list
  \<Rightarrow> spend_snapshot \<times> spend_snapshot \<Rightarrow> (rat list \<times> bool list) option" where
  "snap_step D rate start end_t days acc pc =
     (let (prev, cur) = pc; t0 = ss_at prev; t1 = ss_at cur; dt = t1 - t0 in
      if dt \<le> 0 then Some acc
      else let from_t = max t0 start; to_t = min t1 end_t in
        if to_t \<le> from_t then Some acc
        else let decline = dsub D (ss_balance prev) (ss_balance cur);
                 top_up = decline < 0;
                 spent = (if top_up
                          then coalesce (map_option (\<lambda>r. dmul D r (num_quot D dt MS_PER_DAY)) rate) 0
                          else decline)
             in ofold (spread D spent dt top_up) acc
                  (overlaps start from_t to_t (int days) ((from_t - start) div MS_PER_DAY)))"

definition snapshot_days :: "decimal_lib \<Rightarrow> ms \<Rightarrow> ms \<Rightarrow> ms \<Rightarrow> rat list \<times> bool list \<Rightarrow> spend_day list" where
  "snapshot_days D start cover_start cover_end acc =
     map (\<lambda>i. let day_start = start + int i * MS_PER_DAY;
                  covered = (day_start < cover_end \<and> cover_start < day_start + MS_PER_DAY)
              in \<lparr> sd_date = iso_day day_start,
                   sd_amount = (if covered then Some (cent_round D (fst acc ! i)) else None),
                   sd_estimated = (covered \<and> snd acc ! i) \<rparr>) [0..<length (fst acc)]"

definition snap_points :: "spend_snapshot list \<Rightarrow> snap_point list" where
  "snap_points = map (\<lambda>s. \<lparr> sp_balance = ss_balance s, sp_at = ss_at s \<rparr>)"

definition from_snapshots ::
  "decimal_lib \<Rightarrow> spend_snapshot list \<Rightarrow> ccy \<Rightarrow> ms \<Rightarrow> ms \<Rightarrow> nat \<Rightarrow> account_spend_result option" where
  "from_snapshots D points cur start end_t days =
     (let cover_start = max start (ss_at (hd points));
          cover_end = min end_t (ss_at (last points)) in
      if cover_end \<le> cover_start then Some (empty_spend start days)
      else
        let rate = burn_from_snapshots D (snap_points points) 1 in
        case ofold (snap_step D rate start end_t days) (replicate days 0, replicate days False)
               (consecutive points) of
          None \<Rightarrow> None
        | Some acc \<Rightarrow>
            summarize_spend D (snapshot_days D start cover_start cover_end acc) cur FromSnapshots
              (num_quot D (cover_end - cover_start) MS_PER_DAY))"

section \<open>The entry point\<close>

definition account_spend :: "decimal_lib \<Rightarrow> account_spend_input \<Rightarrow> account_spend_result option" where
  "account_spend D inp =
     (let (start, end_t) = spend_window (in_now inp) (in_days inp);
          in_window = filter (\<lambda>c. start \<le> sc_at c \<and> sc_at c < end_t) (in_charges inp);
          cur = (case in_balance_currency inp of Some b \<Rightarrow> Some b | None \<Rightarrow> most_common_currency in_window)
      in case cur of
           None \<Rightarrow> Some (empty_spend start (in_days inp))
         | Some c \<Rightarrow>
             if c = [] then Some (empty_spend start (in_days inp))
             else let charges = filter (\<lambda>x. sc_currency x = c) in_window in
               if charges \<noteq> [] then from_charges D charges (in_first_charge_at inp) c start (in_days inp)
               else if \<not> in_use_snapshots inp then Some (empty_spend start (in_days inp))
               else let points = sort_key ss_at (filter (\<lambda>s. ss_currency s = c) (in_snapshots inp)) in
                 if length points < 2 then Some (empty_spend start (in_days inp))
                 else from_snapshots D points c start end_t (in_days inp))"

section \<open>The most frequent currency\<close>

definition count_ccy :: "ccy \<Rightarrow> spend_charge list \<Rightarrow> nat" where
  "count_ccy c cs = length (filter (\<lambda>x. sc_currency x = c) cs)"

lemma foldl_count: "foldl (\<lambda>n _. n + 1) (a :: int) xs = a + int (length xs)"
  by (induction xs arbitrary: a) auto

lemma currency_counts_get:
  "mget (currency_counts cs) c = (if count_ccy c cs = 0 then None else Some (int (count_ccy c cs)))"
  using group_fold [of sc_currency 0 "\<lambda>n _. n + 1" cs c]
  by (auto simp: currency_counts_def count_ccy_def foldl_count)

lemma currency_counts_distinct: "distinct (map fst (currency_counts cs))"
  unfolding currency_counts_def by (rule group_fold_distinct) simp

lemma currency_counts_mem:
  "(c, n) \<in> set (currency_counts cs) \<Longrightarrow> n = int (count_ccy c cs) \<and> 0 < count_ccy c cs"
  using mget_of_mem [OF currency_counts_distinct, of c n cs] currency_counts_get [of cs c]
  by (auto split: if_splits)

lemma currency_counts_keys: "fst ` set (currency_counts cs) = sc_currency ` set cs"
  using group_fold_keys [of sc_currency 0 "\<lambda>n _. n + 1" "[]" cs] by (simp add: currency_counts_def)

definition beats :: "spend_charge list \<Rightarrow> ccy \<Rightarrow> ccy \<Rightarrow> bool" where
  "beats cs b c = (count_ccy c cs < count_ccy b cs \<or> count_ccy c cs = count_ccy b cs \<and> b \<le> c)"

lemma beats_trans: "beats cs a b \<Longrightarrow> beats cs b c \<Longrightarrow> beats cs a c"
  unfolding beats_def by fastforce

lemma better_currency_step:
  assumes n: "n = int (count_ccy c cs)" "0 < count_ccy c cs"
    and b: "\<And>x. best = Some x \<Longrightarrow> x \<noteq> [] \<and> 0 < count_ccy x cs"
  shows "better_currency (currency_counts cs) best (c, n) =
    (case best of None \<Rightarrow> Some c | Some x \<Rightarrow> if beats cs x c then Some x else Some c)"
  using n b by (cases best)
    (auto simp: better_currency_def Let_def currency_counts_get beats_def not_le dest: leD)

definition best_of :: "spend_charge list \<Rightarrow> ccy list \<Rightarrow> ccy option \<Rightarrow> bool" where
  "best_of cs seen best = (case best of None \<Rightarrow> seen = []
     | Some b \<Rightarrow> b \<in> set seen \<and> (\<forall>c\<in>set seen. beats cs b c))"

lemma better_currency_fold:
  assumes "set xs \<subseteq> set (currency_counts cs)" "best_of cs seen best" "\<forall>c\<in>sc_currency ` set cs. c \<noteq> []"
    and "set seen \<subseteq> sc_currency ` set cs"
  shows "best_of cs (seen @ map fst xs) (foldl (better_currency (currency_counts cs)) best xs)"
  using assms
proof (induction xs arbitrary: seen best)
  case (Cons e xs)
  obtain c n where e: "e = (c, n)" by (cases e)
  have mem: "(c, n) \<in> set (currency_counts cs)" using Cons.prems(1) e by simp
  note cn = currency_counts_mem [OF mem]
  have key: "x \<noteq> [] \<and> 0 < count_ccy x cs" if "x \<in> sc_currency ` set cs" for x
    using that Cons.prems(3) by (auto simp: count_ccy_def filter_empty_conv)
  have "c \<in> sc_currency ` set cs" using mem currency_counts_keys [of cs] by (metis fst_conv image_eqI)
  moreover have "x \<noteq> [] \<and> 0 < count_ccy x cs" if "best = Some x" for x
    using that Cons.prems(2,4) key by (auto simp: best_of_def)
  then have step: "better_currency (currency_counts cs) best e =
      (case best of None \<Rightarrow> Some c | Some x \<Rightarrow> if beats cs x c then Some x else Some c)"
    unfolding e using cn by (intro better_currency_step) auto
  have "beats cs c c" by (simp add: beats_def)
  moreover have "beats cs c y" if "\<not> beats cs x c" "beats cs x y" for x y
    using that by (auto simp: beats_def)
  ultimately have "best_of cs (seen @ [c]) (better_currency (currency_counts cs) best e)"
    using Cons.prems(2) unfolding step by (auto simp: best_of_def split: option.splits)
  then show ?case
    using Cons.IH [of "seen @ [c]" "better_currency (currency_counts cs) best e"] Cons.prems(1,3,4)
      \<open>c \<in> sc_currency ` set cs\<close> by (simp add: e)
qed simp

text \<open>With non-empty currency codes, the chosen currency is one that occurs in the charges, that no other currency
  occurs more often than, and that is the alphabetically first of those that tie with it; there is none only when there
  are no charges.\<close>

theorem most_common_currency_spec:
  assumes "\<forall>x\<in>set cs. sc_currency x \<noteq> []"
  shows "case most_common_currency cs of
      None \<Rightarrow> cs = []
    | Some b \<Rightarrow> b \<in> sc_currency ` set cs \<and>
        (\<forall>c. count_ccy c cs \<le> count_ccy b cs \<and> (count_ccy c cs = count_ccy b cs \<longrightarrow> b \<le> c))"
proof -
  have B: "best_of cs (map fst (currency_counts cs)) (most_common_currency cs)"
    using better_currency_fold [of "currency_counts cs" cs "[]" None] assms
    by (simp add: most_common_currency_def Let_def best_of_def)
  have keys: "set (map fst (currency_counts cs)) = sc_currency ` set cs"
    using currency_counts_keys [of cs] by simp
  have present: "(0 < count_ccy c cs) = (c \<in> sc_currency ` set cs)" for c
    by (auto simp: count_ccy_def filter_empty_conv)
  show ?thesis
  proof (cases "most_common_currency cs")
    case None
    then have "map fst (currency_counts cs) = []" using B by (simp add: best_of_def)
    then have "sc_currency ` set cs = {}" using keys by simp
    then show ?thesis using None by simp
  next
    case (Some b)
    then have b: "b \<in> sc_currency ` set cs" "\<forall>c\<in>sc_currency ` set cs. beats cs b c"
      using B unfolding keys [symmetric] best_of_def by simp_all
    have "count_ccy c cs \<le> count_ccy b cs \<and> (count_ccy c cs = count_ccy b cs \<longrightarrow> b \<le> c)" for c
    proof (cases "c \<in> sc_currency ` set cs")
      case True
      then have "beats cs b c" using b(2) by blast
      then show ?thesis unfolding beats_def by linarith
    next
      case False
      then have "count_ccy c cs = 0" "0 < count_ccy b cs" using present [of c] present [of b] b(1) by auto
      then show ?thesis by simp
    qed
    then show ?thesis using Some b(1) by simp
  qed
qed

definition sample_charges :: "spend_charge list" where
  "sample_charges = [\<lparr>sc_amount = 5, sc_currency = ''USD'', sc_at = 0\<rparr>,
     \<lparr>sc_amount = 7, sc_currency = ''EUR'', sc_at = 1\<rparr>]"

lemma most_common_currency_spec_witness:
  "most_common_currency sample_charges = Some ''EUR'' \<and>
   count_ccy ''USD'' sample_charges \<le> count_ccy ''EUR'' sample_charges"
proof -
  have "\<forall>x\<in>set sample_charges. sc_currency x \<noteq> []" by (simp add: sample_charges_def)
  moreover have "most_common_currency sample_charges = Some ''EUR''" by code_simp
  ultimately show ?thesis using most_common_currency_spec [of sample_charges] by simp
qed

section \<open>The spread over days\<close>

lemma overlaps_from:
  assumes "from_t < start + (i + 1) * MS_PER_DAY" "to_t \<le> start + days * MS_PER_DAY" "from_t < to_t"
  shows "sum_list (map snd (overlaps start from_t to_t days i)) =
      max 0 (to_t - max from_t (start + i * MS_PER_DAY)) \<and>
    (\<forall>e\<in>set (overlaps start from_t to_t days i).
       i \<le> fst e \<and> fst e < days \<and> 0 < snd e \<and> snd e \<le> MS_PER_DAY) \<and>
    sorted_wrt (<) (map fst (overlaps start from_t to_t days i))"
  using assms
proof (induction start from_t to_t days i rule: overlaps.induct)
  case (1 start from_t to_t days i)
  let ?ds = "start + i * MS_PER_DAY"
  have next_day: "start + (i + 1) * MS_PER_DAY = ?ds + MS_PER_DAY" by (simp add: distrib_right)
  show ?case
  proof (cases "days \<le> i \<or> to_t \<le> ?ds")
    case True
    have "to_t \<le> ?ds"
    proof (cases "days \<le> i")
      case True
      then have "days * MS_PER_DAY \<le> i * MS_PER_DAY" by (simp add: less_imp_le)
      then show ?thesis using "1.prems" by linarith
    qed (use True in simp)
    then show ?thesis using True by (subst (1 2 3) overlaps.simps) (auto simp: Let_def)
  next
    case False
    define ov where "ov = min to_t (?ds + MS_PER_DAY) - max from_t ?ds"
    let ?rest = "overlaps start from_t to_t days (i + 1)"
    have ov: "0 < ov" "ov \<le> MS_PER_DAY"
      using "1.prems" False next_day MS_PER_DAY_pos unfolding ov_def by linarith+
    have eq: "overlaps start from_t to_t days i = (i, ov) # ?rest"
      using False ov by (subst overlaps.simps) (simp add: Let_def ov_def [symmetric] del: min_less_iff_disj)
    have "from_t < start + (i + 1 + 1) * MS_PER_DAY"
      using "1.prems"(1) MS_PER_DAY_pos distrib_right [of "i + 1" 1 MS_PER_DAY] by linarith
    then have IH: "sum_list (map snd ?rest) = max 0 (to_t - max from_t (start + (i + 1) * MS_PER_DAY)) \<and>
        (\<forall>e\<in>set ?rest. i + 1 \<le> fst e \<and> fst e < days \<and> 0 < snd e \<and> snd e \<le> MS_PER_DAY) \<and>
        sorted_wrt (<) (map fst ?rest)"
      using "1.IH" [of ?ds ov] False "1.prems" unfolding ov_def by blast
    have "ov + max 0 (to_t - max from_t (?ds + MS_PER_DAY)) = max 0 (to_t - max from_t ?ds)"
      using "1.prems" False next_day unfolding ov_def by linarith
    then show ?thesis using IH ov False unfolding eq next_day by fastforce
  qed
qed

lemma overlaps_in_window:
  assumes "start \<le> from_t" "from_t < to_t" "to_t \<le> start + days * MS_PER_DAY"
    and "e \<in> set (overlaps start from_t to_t days ((from_t - start) div MS_PER_DAY))"
  shows "0 \<le> fst e" "fst e < days"
proof -
  let ?i = "(from_t - start) div MS_PER_DAY"
  have "from_t < start + (?i + 1) * MS_PER_DAY" "0 \<le> ?i"
    using day_less_iff [of "from_t - start" "?i + 1"] assms(1) by (simp_all add: pos_imp_zdiv_nonneg_iff)
  then show "0 \<le> fst e" "fst e < days" using overlaps_from [of from_t start ?i to_t days] assms by fastforce+
qed

text \<open>The inner loop of the snapshot estimate ends, touches only days of the window, gives each of them a positive
  part of at most one day, in increasing order, and the parts add up to the interval: nothing is lost or counted twice.\<close>

theorem overlaps_spec:
  assumes "start \<le> from_t" "from_t < to_t" "to_t \<le> start + days * MS_PER_DAY"
  shows "let os = overlaps start from_t to_t days ((from_t - start) div MS_PER_DAY)
    in sum_list (map snd os) = to_t - from_t \<and>
       (\<forall>e\<in>set os. 0 \<le> fst e \<and> fst e < days \<and> 0 < snd e \<and> snd e \<le> MS_PER_DAY) \<and>
       sorted_wrt (<) (map fst os)"
proof -
  let ?i = "(from_t - start) div MS_PER_DAY"
  have "from_t < start + (?i + 1) * MS_PER_DAY" "start + ?i * MS_PER_DAY \<le> from_t" "0 \<le> ?i"
    using day_less_iff [of "from_t - start" "?i + 1"] day_start_le [of "from_t - start"] assms(1)
    by (simp_all add: pos_imp_zdiv_nonneg_iff)
  then show ?thesis using overlaps_from [of from_t start ?i to_t days] assms(2,3) by (fastforce simp: Let_def)
qed

lemma overlaps_spec_witness:
  "sum_list (map snd (overlaps 0 10 90000000 3 ((10 - 0) div MS_PER_DAY))) = 89999990"
  using overlaps_spec [of 0 10 90000000 3] by (simp add: Let_def MS_PER_DAY_def)

section \<open>The computation never throws\<close>

lemma sum_days_fold:
  "foldl (\<lambda>total d. case sd_amount d of None \<Rightarrow> total | Some a \<Rightarrow> Some (dadd D (coalesce total 0) a)) t ds =
     (if \<forall>d\<in>set ds. sd_amount d = None then t
      else Some (foldl (dadd D) (coalesce t 0) (map (\<lambda>d. the (sd_amount d)) (filter (\<lambda>d. sd_amount d \<noteq> None) ds))))"
proof (induction ds arbitrary: t)
  case (Cons d ds)
  show ?case
  proof (cases "sd_amount d")
    case None
    then show ?thesis using Cons.IH [of t] by simp
  next
    case (Some a)
    have "filter (\<lambda>d. sd_amount d \<noteq> None) ds = []" if "\<forall>d\<in>set ds. sd_amount d = None"
      using that by (simp add: filter_empty_conv)
    then show ?thesis using Some Cons.IH [of "Some (dadd D (coalesce t 0) a)"] by simp
  qed
qed simp

lemma sum_days_known:
  "sum_days D ds = (if \<forall>d\<in>set ds. sd_amount d = None then None
     else Some (foldl (dadd D) 0 (map (\<lambda>d. the (sd_amount d)) (filter (\<lambda>d. sd_amount d \<noteq> None) ds))))"
  by (simp add: sum_days_def sum_days_fold)

definition window_dates :: "ms \<Rightarrow> nat \<Rightarrow> string list" where
  "window_dates start days = map (\<lambda>i. iso_day (start + int i * MS_PER_DAY)) [0..<days]"

text \<open>What every result promises: one entry per day of the window, and consistent figures.\<close>

definition spend_shape :: "decimal_lib \<Rightarrow> ms \<Rightarrow> nat \<Rightarrow> account_spend_result \<Rightarrow> bool" where
  "spend_shape D start days r =
     (map sd_date (as_days r) = window_dates start days \<and>
      as_covered_days r = int (length (filter (\<lambda>d. sd_amount d \<noteq> None) (as_days r))) \<and>
      (as_last30d r = sum_days D (as_days r)) \<and> as_last7d r = sum_days D (last_n 7 (as_days r)) \<and>
      ((as_source r = None) = (\<forall>d\<in>set (as_days r). sd_amount d = None)) \<and>
      ((as_source r = None) = (as_currency r = None)) \<and>
      (as_approximate r = (\<exists>d\<in>set (as_days r). sd_estimated d)))"

lemma last_n_set: "set (last_n n xs) \<subseteq> set xs"
  by (simp add: last_n_def set_drop_subset)

lemma empty_shape: "spend_shape D start days (empty_spend start days)"
proof -
  have "sum_days D (last_n 7 (as_days (empty_spend start days))) = None"
    using last_n_set [of 7 "as_days (empty_spend start days)"]
    by (auto simp: sum_days_known empty_spend_def)
  then show ?thesis
    by (auto simp: spend_shape_def empty_spend_def window_dates_def sum_days_known filter_empty_conv)
qed

lemma summarize_shape:
  assumes "map sd_date ds = window_dates start days" "\<exists>d\<in>set ds. sd_amount d \<noteq> None"
  shows "\<exists>r. summarize_spend D ds cur src sp = Some r \<and> spend_shape D start days r \<and>
    as_days r = ds \<and> as_currency r = Some cur \<and> as_source r = Some src \<and>
    as_per_day r = Some (cent_round D (ddiv D (the (sum_days D ds)) sp))"
  using assms by (auto simp: summarize_spend_def sum_days_known [of D ds] spend_shape_def)

lemma idx_in_window:
  assumes "start \<le> t" "t < start + int days * MS_PER_DAY"
  shows "0 \<le> (t - start) div MS_PER_DAY" "(t - start) div MS_PER_DAY < int days"
  using assms day_less_iff [of "t - start" "int days"] by (simp_all add: pos_imp_zdiv_nonneg_iff)

lemma foldl_min_le: "foldl min (a :: int) xs \<le> a"
  by (induction xs arbitrary: a) (auto intro: order_trans min.cobounded1)

lemma foldl_min_mem: "foldl min (a :: int) xs \<in> insert a (set xs)"
proof (induction xs arbitrary: a)
  case (Cons x xs)
  then show ?case using Cons.IH [of "min a x"] by (auto simp: min_def split: if_splits)
qed simp

lemma foldl_min_least: "x \<in> insert a (set xs) \<Longrightarrow> foldl min (a :: int) xs \<le> x"
proof (induction xs arbitrary: a x)
  case (Cons y ys)
  then show ?case using Cons.IH [of "min a y" "min a y"] Cons.IH [of x "min a y"] by auto
qed simp

lemma earliest_le: "c \<in> set cs \<Longrightarrow> earliest_charge cs f \<le> sc_at c"
  using foldl_min_least [of "sc_at c" "sc_at (hd cs)" "map sc_at (tl cs)"]
  by (cases cs) (auto simp: earliest_charge_def Let_def split: option.splits intro: order_trans min.cobounded1)

lemma first_idx_range:
  assumes "c \<in> set cs" "start \<le> sc_at c" "sc_at c < start + int days * MS_PER_DAY"
  shows "0 \<le> first_idx cs f start" "first_idx cs f start \<le> (sc_at c - start) div MS_PER_DAY"
    "first_idx cs f start < int days"
proof -
  have le: "(earliest_charge cs f - start) div MS_PER_DAY \<le> (sc_at c - start) div MS_PER_DAY"
    using earliest_le [OF assms(1), of f] by (intro zdiv_mono1) auto
  then show "0 \<le> first_idx cs f start" "first_idx cs f start \<le> (sc_at c - start) div MS_PER_DAY"
    using idx_in_window [OF assms(2,3)] by (simp_all add: first_idx_def)
  then show "first_idx cs f start < int days" using idx_in_window [OF assms(2,3)] by linarith
qed

lemma add_charges_total:
  assumes "\<forall>c\<in>set cs. start \<le> sc_at c \<and> sc_at c < start + int days * MS_PER_DAY" "length xs = days"
  shows "\<exists>ys. ofold (add_charge D start) xs cs = Some ys \<and> length ys = days"
  using assms(2,1)
  by (intro ofold_total) (auto simp: add_charge_def upd_at_def dest: idx_in_window)

lemma from_charges_total:
  assumes cs: "cs \<noteq> []" "\<forall>c\<in>set cs. start \<le> sc_at c \<and> sc_at c < start + int days * MS_PER_DAY"
  shows "\<exists>r. from_charges D cs f cur start days = Some r \<and> spend_shape D start days r"
proof -
  obtain ys where ys: "ofold (add_charge D start) (replicate days 0) cs = Some ys" "length ys = days"
    using add_charges_total [OF cs(2), of "replicate days 0" D] by auto
  let ?ds = "charge_days D start (first_idx cs f start) ys"
  have hd: "hd cs \<in> set cs" using cs(1) by simp
  note fi = first_idx_range [OF hd, of start days f]
  have "map sd_date ?ds = window_dates start days"
    using ys(2) by (simp add: charge_days_def window_dates_def)
  moreover have "\<exists>d\<in>set ?ds. sd_amount d \<noteq> None"
    using fi hd cs(2) ys(2) by (auto simp: charge_days_def intro!: bexI [of _ "nat (first_idx cs f start)"])
  ultimately show ?thesis
    using summarize_shape [of ?ds start days D cur FromCharges "of_int (int days - first_idx cs f start)"] ys(1)
    by (auto simp: from_charges_def Let_def)
qed

lemma spread_total:
  assumes "length (fst acc) = days" "0 \<le> fst e" "fst e < int days"
  shows "\<exists>acc'. spread D spent dt tp acc e = Some acc' \<and> length (fst acc') = days"
  using assms by (cases acc; cases e) (auto simp: spread_def upd_at_def)

lemma snap_step_total:
  assumes "length (fst acc) = days"
  shows "\<exists>acc'. snap_step D rate start (start + int days * MS_PER_DAY) days acc pc = Some acc' \<and>
    length (fst acc') = days"
proof -
  obtain p c where pc: "pc = (p, c)" by (cases pc)
  let ?f = "max (ss_at p) start" and ?t = "min (ss_at c) (start + int days * MS_PER_DAY)"
  let ?os = "overlaps start ?f ?t (int days) ((?f - start) div MS_PER_DAY)"
  have "\<exists>acc'. ofold (spread D s dt tp) acc ?os = Some acc' \<and> length (fst acc') = days"
    if "?f < ?t" for s dt tp
  proof (rule ofold_total)
    show "length (fst acc) = days" by (rule assms)
  next
    fix a :: "rat list \<times> bool list" and e assume "e \<in> set ?os" "length (fst a) = days"
    moreover from this(1) have "0 \<le> fst e \<and> fst e < int days"
      using overlaps_in_window [of start ?f ?t "int days" e] that by simp
    ultimately show "\<exists>a'. spread D s dt tp a e = Some a' \<and> length (fst a') = days"
      by (intro spread_total) auto
  qed
  then have go: "\<exists>acc'. ofold (spread D s dt tp) acc ?os = Some acc' \<and> length (fst acc') = days"
    if "\<not> ?t \<le> ?f" for s dt tp using that by (meson not_le)
  show ?thesis
  proof (cases "ss_at c - ss_at p \<le> 0 \<or> ?t \<le> ?f")
    case True
    then have "snap_step D rate start (start + int days * MS_PER_DAY) days acc pc = Some acc"
      unfolding snap_step_def pc Let_def prod.case by (elim disjE) (simp_all only: if_True if_cancel)
    then show ?thesis using assms by blast
  next
    case False
    then have n: "\<not> ss_at c - ss_at p \<le> 0" "\<not> ?t \<le> ?f" by blast+
    show ?thesis
      unfolding snap_step_def pc Let_def prod.case if_not_P [OF n(1)] if_not_P [OF n(2)] by (rule go [OF n(2)])
  qed
qed

lemma from_snapshots_total:
  "\<exists>r. from_snapshots D points cur start (start + int days * MS_PER_DAY) days = Some r \<and> spend_shape D start days r"
proof -
  let ?e = "start + int days * MS_PER_DAY"
  let ?cs = "max start (ss_at (hd points))" and ?ce = "min ?e (ss_at (last points))"
  let ?rate = "burn_from_snapshots D (snap_points points) 1"
  show ?thesis
  proof (cases "?ce \<le> ?cs")
    case True
    then show ?thesis using empty_shape by (simp add: from_snapshots_def Let_def)
  next
    case False
    obtain acc where acc: "ofold (snap_step D ?rate start ?e days) (replicate days 0, replicate days False)
        (consecutive points) = Some acc" "length (fst acc) = days"
      using ofold_total [of "\<lambda>a. length (fst a) = days" "(replicate days 0, replicate days False)"
          "consecutive points" "snap_step D ?rate start ?e days"] snap_step_total by fastforce
    let ?ds = "snapshot_days D start ?cs ?ce acc"
    let ?i = "(?cs - start) div MS_PER_DAY"
    have "start \<le> ?cs" "?cs < ?e" using False by linarith+
    note i = idx_in_window [OF this]
    have "start + ?i * MS_PER_DAY < ?ce" "?cs < start + ?i * MS_PER_DAY + MS_PER_DAY"
      using day_parts [of "?cs - start"] False by linarith+
    then have "sd_amount (?ds ! nat ?i) \<noteq> None" "nat ?i < length ?ds"
      using i acc(2) by (simp_all add: snapshot_days_def Let_def)
    then have "\<exists>d\<in>set ?ds. sd_amount d \<noteq> None" using nth_mem by blast
    moreover have "map sd_date ?ds = window_dates start days"
      using acc(2) by (simp add: snapshot_days_def window_dates_def Let_def)
    ultimately show ?thesis
      using summarize_shape [of ?ds start days D cur FromSnapshots "num_quot D (?ce - ?cs) MS_PER_DAY"] acc(1) False
      by (auto simp: from_snapshots_def Let_def)
  qed
qed

text \<open>The spend of an account never throws: no array index is out of range and the total asserted non-null is
  there.  The result has one entry per complete UTC day of the window, in order, its totals are the sums of the known
  days, and it has no source exactly when no day is known.\<close>

theorem account_spend_total:
  "\<exists>r. account_spend D inp = Some r \<and> spend_shape D (fst (spend_window (in_now inp) (in_days inp))) (in_days inp) r"
proof -
  obtain start e where w: "spend_window (in_now inp) (in_days inp) = (start, e)" by fastforce
  then have e: "e = start + int (in_days inp) * MS_PER_DAY" by (auto simp: spend_window_def Let_def)
  show ?thesis
    unfolding account_spend_def w case_prod_conv Let_def fst_conv
    using from_charges_total [of _ start "in_days inp" D "in_first_charge_at inp"] empty_shape
      from_snapshots_total [of D _ _ start "in_days inp", folded e]
    by (auto split: option.splits simp: e)
qed

section \<open>Charges are counted to the cent\<close>

definition money_amounts :: "rat list \<Rightarrow> bool" where
  "money_amounts xs = (\<forall>x\<in>set xs. is_cents x \<and> 0 \<le> x)"

lemma is_cents_add: "is_cents x \<Longrightarrow> is_cents y \<Longrightarrow> is_cents (x + y)"
  by (simp add: is_cents_def distrib_right)

lemma money_sum_nonneg: "money_amounts xs \<Longrightarrow> 0 \<le> sum_list xs"
  by (auto simp: money_amounts_def intro!: sum_list_nonneg)

lemma money_update: "money_amounts xs \<Longrightarrow> is_cents y \<Longrightarrow> 0 \<le> y \<Longrightarrow> money_amounts (xs[k := y])"
  using set_update_subset_insert [of xs k y] by (auto simp: money_amounts_def)

lemma money_cell_le: "money_amounts xs \<Longrightarrow> k < length xs \<Longrightarrow> xs ! k \<le> sum_list xs"
  using money_sum_nonneg [OF money_update [of xs 0 k]] sum_list_update_rat [of k xs 0]
  by (simp add: is_cents_def)

definition charge_idx :: "ms \<Rightarrow> spend_charge \<Rightarrow> int" where
  "charge_idx start c = (sc_at c - start) div MS_PER_DAY"

lemma earliest_mem: "cs \<noteq> [] \<Longrightarrow> earliest_charge cs f \<in> sc_at ` set cs \<union> set_option f"
  using foldl_min_mem [of "sc_at (hd cs)" "map sc_at (tl cs)"]
  by (cases cs) (auto simp: earliest_charge_def Let_def min_def split: option.splits)

lemma earliest_first: "f = Some t \<Longrightarrow> earliest_charge cs f \<le> t"
  by (simp add: earliest_charge_def Let_def)

text \<open>A day is before the first one with a charge when the charges and the first charge ever come after its end.\<close>

lemma before_first_idx:
  assumes "cs \<noteq> []"
  shows "int i < first_idx cs f start \<longleftrightarrow> \<not> (\<exists>t\<in>sc_at ` set cs \<union> set_option f. t < start + (int i + 1) * MS_PER_DAY)"
proof -
  have "int i < first_idx cs f start \<longleftrightarrow> \<not> earliest_charge cs f < start + (int i + 1) * MS_PER_DAY"
    using day_less_iff [of "earliest_charge cs f - start" "int i + 1"] by (auto simp: first_idx_def)
  moreover have "(\<exists>t\<in>sc_at ` set cs \<union> set_option f. t < b) \<longleftrightarrow> earliest_charge cs f < b" for b
    using earliest_mem [OF assms, of f] earliest_le [of _ cs f] earliest_first [of f _ cs]
    by (auto intro: le_less_trans)
  ultimately show ?thesis by simp
qed

lemma charge_idx_day: "charge_idx start c = i \<longleftrightarrow> start + i * MS_PER_DAY \<le> sc_at c \<and> sc_at c < start + (i + 1) * MS_PER_DAY"
  using day_less_iff [of "sc_at c - start" "i + 1"] day_less_iff [of "sc_at c - start" i] by (auto simp: charge_idx_def)

lemma charge_idx_from: "i \<le> charge_idx start c \<longleftrightarrow> start + i * MS_PER_DAY \<le> sc_at c"
  using day_less_iff [of "sc_at c - start" i] by (auto simp: charge_idx_def)

text \<open>What the charges of the i-th day of the window add up to.\<close>

definition day_sum :: "ms \<Rightarrow> spend_charge list \<Rightarrow> nat \<Rightarrow> rat" where
  "day_sum start cs i = sum_list (map sc_amount (filter (\<lambda>c. charge_idx start c = int i) cs))"

lemma sum_list_filter_or:
  "(\<And>x. P x \<Longrightarrow> \<not> Q x) \<Longrightarrow> sum_list (map f (filter (\<lambda>x. P x \<or> Q x) xs)) =
     sum_list (map f (filter P xs)) + (sum_list (map f (filter Q xs)) :: rat)"
  by (induction xs) auto

lemma sum_list_filter_le_rat: "\<forall>x\<in>set xs. 0 \<le> f x \<Longrightarrow> sum_list (map f (filter P xs)) \<le> (sum_list (map f xs) :: rat)"
  by (induction xs) auto

lemma day_sums:
  "a \<le> b \<Longrightarrow> sum_list (map (day_sum start cs) [a..<b]) =
     sum_list (map sc_amount (filter (\<lambda>c. int a \<le> charge_idx start c \<and> charge_idx start c < int b) cs))"
proof (induction b)
  case (Suc b)
  show ?case
  proof (cases "a \<le> b")
    case True
    have "filter (\<lambda>c. int a \<le> charge_idx start c \<and> charge_idx start c < int (Suc b)) cs =
        filter (\<lambda>c. (int a \<le> charge_idx start c \<and> charge_idx start c < int b) \<or> charge_idx start c = int b) cs"
      using True by (intro filter_cong) auto
    then show ?thesis
      using Suc.IH True sum_list_filter_or [of "\<lambda>c. int a \<le> charge_idx start c \<and> charge_idx start c < int b" "\<lambda>c. charge_idx start c = int b" sc_amount cs]
      by (simp add: day_sum_def)
  next
    case False
    then have "filter (\<lambda>c. int a \<le> charge_idx start c \<and> charge_idx start c < int (Suc b)) cs = []"
      using Suc.prems by (auto simp: filter_empty_conv)
    then show ?thesis using False Suc.prems by simp
  qed
qed (simp add: filter_empty_conv)

context decimal_arith
begin

lemma dadd_money:
  assumes "is_cents x" "is_cents y" "0 \<le> x" "0 \<le> y" "x + y \<le> 10 ^ 17"
  shows "dadd D x y = x + y"
  unfolding dadd_def using assms by (intro sig_cents is_cents_add) auto

lemma dadd_fold_money:
  assumes "money_amounts xs" "is_cents a" "0 \<le> a" "a + sum_list xs \<le> 10 ^ 17"
  shows "foldl (dadd D) a xs = a + sum_list xs"
  using assms
proof (induction xs arbitrary: a)
  case (Cons x xs)
  then have "money_amounts xs" "is_cents x" "0 \<le> x" by (auto simp: money_amounts_def)
  moreover from this have "dadd D a x = a + x"
    using Cons.prems money_sum_nonneg [of xs] by (intro dadd_money) auto
  ultimately show ?case using Cons by (simp add: is_cents_add add.assoc)
qed simp

lemma add_charges_exact:
  assumes "money_amounts xs" "money_amounts (map sc_amount cs)"
    and "\<forall>c\<in>set cs. 0 \<le> charge_idx start c \<and> charge_idx start c < int (length xs)"
    and "sum_list xs + sum_list (map sc_amount cs) \<le> 10 ^ 17"
  shows "\<exists>ys. ofold (add_charge D start) xs cs = Some ys \<and> length ys = length xs \<and> money_amounts ys \<and>
    (\<forall>i<length xs. ys ! i = xs ! i + day_sum start cs i)"
  using assms
proof (induction cs arbitrary: xs)
  case (Cons c cs)
  let ?k = "nat (charge_idx start c)" and ?a = "sc_amount c"
  have k: "?k < length xs" "int ?k = charge_idx start c" using Cons.prems(3) by auto
  have a: "is_cents ?a" "0 \<le> ?a" "money_amounts (map sc_amount cs)"
    using Cons.prems(2) by (auto simp: money_amounts_def)
  have x: "is_cents (xs ! ?k)" "0 \<le> xs ! ?k"
    using Cons.prems(1) k(1) by (auto simp: money_amounts_def)
  have "dadd D (xs ! ?k) ?a = xs ! ?k + ?a"
    using x a Cons.prems(4) money_cell_le [OF Cons.prems(1) k(1)] money_sum_nonneg [OF a(3)]
    by (intro dadd_money) auto
  then have step: "add_charge D start xs c = Some (xs[?k := xs ! ?k + ?a])"
    using Cons.prems(3) by (simp add: add_charge_def upd_at_def charge_idx_def)
  let ?xs = "xs[?k := xs ! ?k + ?a]"
  have "money_amounts ?xs" using Cons.prems(1) x a by (intro money_update is_cents_add) auto
  moreover have s: "sum_list ?xs = sum_list xs + ?a" using sum_list_update_rat [OF k(1)] by simp
  ultimately obtain ys where ys: "ofold (add_charge D start) ?xs cs = Some ys" "length ys = length xs" "money_amounts ys"
      "\<forall>i<length xs. ys ! i = ?xs ! i + day_sum start cs i"
    using Cons.IH [of ?xs] a(3) Cons.prems(3,4) by fastforce
  have "ys ! i = xs ! i + day_sum start (c # cs) i" if "i < length xs" for i
    using ys(4) that k by (cases "i = ?k") (auto simp: day_sum_def)
  then show ?case using ys(1-3) step by auto
qed (simp add: day_sum_def)

text \<open>The sum of the days from the a-th on, some day of which is known: the charges of these days.\<close>

lemma sum_days_exact:
  assumes m: "money_amounts (map sc_amount cs)" "sum_list (map sc_amount cs) \<le> 10 ^ 17" "money_amounts ys" "length ys = days"
    and s: "\<forall>i<days. ys ! i = day_sum start cs i" "\<forall>c\<in>set cs. charge_idx start c < int days"
    and f: "\<forall>c\<in>set cs. fi \<le> charge_idx start c" "fi < int days" and a: "a < days"
  shows "sum_days D (drop a (charge_days D start fi ys)) = Some (sum_list (map sc_amount (filter (\<lambda>c. int a \<le> charge_idx start c) cs)))"
proof -
  let ?known = "filter (\<lambda>i. fi \<le> int i) [a..<days]"
  let ?ds = "drop a (charge_days D start fi ys)"
  have ds: "?ds = map (\<lambda>i. \<lparr> sd_date = iso_day (start + int i * MS_PER_DAY),
      sd_amount = (if int i < fi then None else Some (cent_round D (ys ! i))), sd_estimated = False \<rparr>) [a..<days]"
    by (simp add: charge_days_def drop_map m(4))
  have cr: "cent_round D (ys ! i) = ys ! i" if "i < days" for i
    using m(3,4) that by (intro cent_id) (auto simp: money_amounts_def)
  have "map (\<lambda>d. the (sd_amount d)) (filter (\<lambda>d. sd_amount d \<noteq> None) ?ds) = map (\<lambda>i. cent_round D (ys ! i)) ?known"
    unfolding ds by (simp add: filter_map comp_def) (auto simp: not_less intro!: map_cong filter_cong)
  also have "\<dots> = map ((!) ys) ?known" using cr by (intro map_cong) auto
  finally have known: "map (\<lambda>d. the (sd_amount d)) (filter (\<lambda>d. sd_amount d \<noteq> None) ?ds) = map ((!) ys) ?known" .
  have "ys ! i = 0" if "i < days" "int i < fi" for i
  proof -
    have "filter (\<lambda>c. charge_idx start c = int i) cs = []" using f(1) that(2) by (auto simp: filter_empty_conv)
    then show ?thesis using s(1) that(1) by (simp add: day_sum_def)
  qed
  then have "sum_list (map ((!) ys) ?known) = sum_list (map ((!) ys) [a..<days])"
    by (intro sum_list_map_filter) auto
  also have "map ((!) ys) [a..<days] = map (day_sum start cs) [a..<days]" using s(1) by simp
  also have "sum_list \<dots> = sum_list (map sc_amount (filter (\<lambda>c. int a \<le> charge_idx start c \<and> charge_idx start c < int days) cs))"
    using a by (intro day_sums) simp
  also have "filter (\<lambda>c. int a \<le> charge_idx start c \<and> charge_idx start c < int days) cs = filter (\<lambda>c. int a \<le> charge_idx start c) cs"
    using s(2) by (intro filter_cong) auto
  finally have tot: "sum_list (map ((!) ys) ?known) = sum_list (map sc_amount (filter (\<lambda>c. int a \<le> charge_idx start c) cs))" .
  moreover have "sum_list (map sc_amount (filter (\<lambda>c. int a \<le> charge_idx start c) cs)) \<le> sum_list (map sc_amount cs)"
    using m(1) by (intro sum_list_filter_le_rat) (auto simp: money_amounts_def)
  moreover have "money_amounts (map ((!) ys) ?known)" using m(3,4) by (auto simp: money_amounts_def)
  ultimately have "foldl (dadd D) 0 (map ((!) ys) ?known) = sum_list (map sc_amount (filter (\<lambda>c. int a \<le> charge_idx start c) cs))"
    using dadd_fold_money [of "map ((!) ys) ?known" 0] m(2) by (simp add: is_cents_def)
  moreover have "days - 1 \<in> set [a..<days]" "\<not> int (days - 1) < fi" using f(2) a by auto
  then have "\<exists>d\<in>set ?ds. sd_amount d \<noteq> None" unfolding ds by (auto intro!: bexI [of _ "days - 1"])
  ultimately show ?thesis unfolding sum_days_known known by auto
qed

lemma from_charges_exact:
  assumes cs: "cs \<noteq> []" "\<forall>c\<in>set cs. start \<le> sc_at c \<and> sc_at c < start + int days * MS_PER_DAY"
    and m: "money_amounts (map sc_amount cs)" "sum_list (map sc_amount cs) \<le> 10 ^ 17"
    and r: "from_charges D cs f cur start days = Some r"
  shows "as_source r = Some FromCharges \<and> as_last30d r = Some (sum_list (map sc_amount cs)) \<and>
    as_last7d r = Some (sum_list (map sc_amount (filter (\<lambda>c. int days - 7 \<le> charge_idx start c) cs))) \<and>
    as_days r = map (\<lambda>i. \<lparr> sd_date = iso_day (start + int i * MS_PER_DAY),
      sd_amount = (if int i < first_idx cs f start then None else Some (day_sum start cs i)), sd_estimated = False \<rparr>) [0..<days]"
proof -
  have idx: "\<forall>c\<in>set cs. 0 \<le> charge_idx start c \<and> charge_idx start c < int days"
    using cs(2) idx_in_window by (auto simp: charge_idx_def)
  have z: "money_amounts (replicate days 0)" by (auto simp: money_amounts_def is_cents_def)
  obtain ys where ys: "ofold (add_charge D start) (replicate days 0) cs = Some ys" "length ys = days"
      "money_amounts ys" "\<forall>i<days. ys ! i = day_sum start cs i"
    using add_charges_exact [OF z m(1), of start] idx m(2) by (auto simp: sum_list_replicate)
  let ?fi = "first_idx cs f start"
  let ?ds = "charge_days D start ?fi ys"
  have fi: "\<forall>c\<in>set cs. ?fi \<le> charge_idx start c" "?fi < int days"
    using first_idx_range(2) [of _ cs start days f] first_idx_range(3) [of "hd cs" cs start days f] cs
    by (auto simp: charge_idx_def)
  note total = sum_days_exact [OF m ys(3,2,4) _ fi]
  have d: "0 < days" using fi(2) idx cs(1) by (cases cs) auto
  have "summarize_spend D ?ds cur FromCharges (of_int (int days - ?fi)) = Some r"
    using r ys(1) by (simp add: from_charges_def Let_def)
  then have "as_last30d r = sum_days D (drop 0 ?ds)" "as_last7d r = sum_days D (drop (days - 7) ?ds)" "as_source r = Some FromCharges" "as_days r = ?ds"
    by (auto simp: summarize_spend_def last_n_def charge_days_def ys(2) split: option.splits)
  moreover have "filter (\<lambda>c. int 0 \<le> charge_idx start c) cs = cs" using idx by (auto intro!: filter_True)
  moreover have "filter (\<lambda>c. int (days - 7) \<le> charge_idx start c) cs = filter (\<lambda>c. int days - 7 \<le> charge_idx start c) cs"
    using idx by (intro filter_cong) auto
  moreover have "cent_round D (day_sum start cs i) = day_sum start cs i" if "i < days" for i
    using ys that by (metis cent_id money_amounts_def nth_mem)
  then have "?ds = map (\<lambda>i. \<lparr> sd_date = iso_day (start + int i * MS_PER_DAY),
      sd_amount = (if int i < ?fi then None else Some (day_sum start cs i)), sd_estimated = False \<rparr>) [0..<days]"
    using ys(2,4) by (simp add: charge_days_def)
  moreover have "\<forall>c\<in>set cs. charge_idx start c < int days" using idx by blast
  ultimately show ?thesis using total [of 0] total [of "days - 7"] d by simp
qed

end

text \<open>C22. When the account has charges in its currency inside the window and their amounts are whole non-negative cents,
  the result is exact, whatever the rounding of the library.  The day series has one entry per day of the
  window, in order: the sum of the charges of that UTC day, unknown for the days that end before the
  account's first charge ever, and none is an estimate.  The total and the total of the last seven days
  are the sums of the charges of the window and of its last seven days; no charge outside the window or in
  another currency is counted anywhere.\<close>

theorem account_spend_charges_exact:
  assumes "decimal_arith D"
    and "in_balance_currency inp = Some c" "c \<noteq> []"
    and "spend_window (in_now inp) (in_days inp) = (start, e)"
    and "charges = filter (\<lambda>x. start \<le> sc_at x \<and> sc_at x < e \<and> sc_currency x = c) (in_charges inp)"
    and "charges \<noteq> []" "money_amounts (map sc_amount charges)" "sum_list (map sc_amount charges) \<le> 10 ^ 17"
  shows "\<exists>r. account_spend D inp = Some r \<and> as_source r = Some FromCharges \<and> as_currency r = Some c \<and>
    as_last30d r = Some (sum_list (map sc_amount charges)) \<and>
    as_last7d r = Some (sum_list (map sc_amount (filter (\<lambda>x. e - 7 * MS_PER_DAY \<le> sc_at x) charges))) \<and>
    as_days r = map (\<lambda>i. let day = start + int i * MS_PER_DAY in
      \<lparr> sd_date = iso_day day,
        sd_amount = (if \<exists>t\<in>sc_at ` set charges \<union> set_option (in_first_charge_at inp). t < day + MS_PER_DAY
          then Some (sum_list (map sc_amount (filter (\<lambda>x. day \<le> sc_at x \<and> sc_at x < day + MS_PER_DAY) charges))) else None),
        sd_estimated = False \<rparr>) [0..<in_days inp]"
proof -
  have e: "e = start + int (in_days inp) * MS_PER_DAY" using assms(4) by (auto simp: spend_window_def Let_def)
  have ch: "charges = filter (\<lambda>x. sc_currency x = c) (filter (\<lambda>x. start \<le> sc_at x \<and> sc_at x < e) (in_charges inp))"
    using assms(5) by (auto intro: filter_cong)
  have win: "\<forall>x\<in>set charges. start \<le> sc_at x \<and> sc_at x < start + int (in_days inp) * MS_PER_DAY"
    by (auto simp: ch e)
  have sp: "account_spend D inp = from_charges D charges (in_first_charge_at inp) c start (in_days inp)"
    unfolding account_spend_def assms(4) case_prod_conv Let_def assms(2) option.case ch [symmetric]
      if_not_P [OF assms(3)] if_P [OF assms(6)] ..
  obtain r where r: "from_charges D charges (in_first_charge_at inp) c start (in_days inp) = Some r"
    using from_charges_total [OF assms(6) win] by blast
  then have "as_currency r = Some c"
    by (auto simp: from_charges_def summarize_spend_def Let_def split: option.splits)
  moreover have "int (in_days inp) - 7 \<le> charge_idx start x \<longleftrightarrow> e - 7 * MS_PER_DAY \<le> sc_at x" for x
    unfolding charge_idx_from e left_diff_distrib by linarith
  ultimately show ?thesis
    using decimal_arith.from_charges_exact [OF assms(1,6) win assms(7,8) r] r sp
    by (simp add: before_first_idx [OF assms(6)] day_sum_def charge_idx_day Let_def distrib_right add.assoc)
qed

definition sample_input :: account_spend_input where
  "sample_input = \<lparr> in_charges = sample_charges, in_first_charge_at = None, in_snapshots = [],
     in_balance_currency = Some ''EUR'', in_use_snapshots = True, in_days = 30, in_now = 86400000 + 7 \<rparr>"

lemma account_spend_charges_exact_witness:
  "\<exists>r. account_spend dec20 sample_input = Some r \<and> as_source r = Some FromCharges \<and> as_last30d r = Some 7 \<and> as_last7d r = Some 7"
proof -
  have w: "spend_window (in_now sample_input) (in_days sample_input) = (86400000 - 2592000000, 86400000)"
    by (simp add: spend_window_def sample_input_def Let_def MS_PER_DAY_def)
  have c: "[sample_charges ! 1] = filter (\<lambda>x. 86400000 - 2592000000 \<le> sc_at x \<and> sc_at x < 86400000 \<and> sc_currency x = ''EUR'') (in_charges sample_input)"
    "in_balance_currency sample_input = Some ''EUR''"
    by (simp_all add: sample_input_def sample_charges_def)
  have m: "money_amounts (map sc_amount [sample_charges ! 1])" "sum_list (map sc_amount [sample_charges ! 1]) \<le> 10 ^ 17"
    "sum_list (map sc_amount [sample_charges ! 1]) = 7"
    "sum_list (map sc_amount (filter (\<lambda>x. 86400000 - 7 * MS_PER_DAY \<le> sc_at x) [sample_charges ! 1])) = 7"
    by (simp_all add: sample_charges_def MS_PER_DAY_def money_amounts_def is_cents_def)
  have "''EUR'' \<noteq> []" "[sample_charges ! 1] \<noteq> []" by simp_all
  from account_spend_charges_exact [OF dec20_arith c(2) this(1) w c(1) this(2) m(1,2)] show ?thesis
    unfolding m(3,4) by (elim exE conjE) (rule exI, intro conjI)
qed

end
