(* ===== verification/Rates.thy ===== *)
theory Rates
  imports Libs
begin

text \<open>
  Exchange rates (apps/backend/src/currency): the archive of daily rates with its as-of lookup
  (historical-rates.ts), the conversion and the maintenance of the live and archived rates
  (currency.service.ts), the two rate tables with the queries of their repositories, and the
  reading of the three feeds.  An HTTP response is an argument: the parsed body, or None when the
  request fails.
\<close>

section \<open>The archive in memory\<close>

record daily_rate_row =
  dr_code :: ccy
  dr_day :: string
  dr_rate :: rat

record code_series =
  cs_days :: "string list"
  cs_rates :: "rat list"

type_synonym rate_map = "(ccy \<times> rat) list"

record historical_rates =
  hr_by_code :: "(ccy \<times> code_series) list"
  hr_cache :: "(string \<times> rate_map) list"
  hr_latest :: rate_map

definition utc_day :: "ms \<Rightarrow> string" where
  "utc_day t = iso_day t"

definition add_row :: "(ccy \<times> code_series) list \<Rightarrow> daily_rate_row \<Rightarrow> (ccy \<times> code_series) list" where
  "add_row m r = mbump (dr_code r) \<lparr> cs_days = [], cs_rates = [] \<rparr>
     (\<lambda>s. \<lparr> cs_days = cs_days s @ [dr_day r], cs_rates = cs_rates s @ [dr_rate r] \<rparr>) m"

definition new_historical :: "daily_rate_row list \<Rightarrow> rate_map \<Rightarrow> historical_rates" where
  "new_historical rows latest =
     \<lparr> hr_by_code = foldl add_row [] rows, hr_cache = [], hr_latest = latest \<rparr>"

definition is_empty :: "historical_rates \<Rightarrow> bool" where
  "is_empty h = (length (hr_by_code h) = 0)"

text \<open>The binary search: lo + hi stays far below 2 ^ 31, so the shift is an exact halving.\<close>

function as_of_loop :: "string list \<Rightarrow> string \<Rightarrow> int \<Rightarrow> int \<Rightarrow> int \<Rightarrow> int" where
  "as_of_loop days day lo hi found =
     (if lo \<le> hi then
        let mid = (lo + hi) div 2 in
        if days ! nat mid \<le> day then as_of_loop days day (mid + 1) hi mid
        else as_of_loop days day lo (mid - 1) found
      else found)"
  by pat_completeness auto
termination
  by (relation "measure (\<lambda>(days, day, lo, hi, found). nat (hi - lo + 1))") auto

declare as_of_loop.simps [simp del]

definition as_of :: "code_series \<Rightarrow> string \<Rightarrow> rat option" where
  "as_of s day =
     (if length (cs_days s) = 0 then None
      else if day < hd (cs_days s) then Some (hd (cs_rates s))
      else Some (cs_rates s ! nat (as_of_loop (cs_days s) day 0 (int (length (cs_days s)) - 1) 0)))"

definition fresh_rates :: "historical_rates \<Rightarrow> string \<Rightarrow> rate_map" where
  "fresh_rates h key =
     foldl (\<lambda>m (code, series). case as_of series key of None \<Rightarrow> m | Some rate \<Rightarrow> mset_to code rate m)
       (hr_latest h) (hr_by_code h)"

text \<open>ratesOn fills the cache, so it returns the changed object too.\<close>

definition rates_on :: "historical_rates \<Rightarrow> ms \<Rightarrow> rate_map \<times> historical_rates" where
  "rates_on h date =
     (let key = utc_day date in
      case mget (hr_cache h) key of
        Some hit \<Rightarrow> (hit, h)
      | None \<Rightarrow> let m = fresh_rates h key in (m, h \<lparr> hr_cache := mset_to key m (hr_cache h) \<rparr>))"

section \<open>Conversion\<close>

definition convert :: "decimal_lib \<Rightarrow> rat \<Rightarrow> ccy \<Rightarrow> ccy \<Rightarrow> rate_map \<Rightarrow> rat" where
  "convert D amount from to_base rates =
     (if from = to_base then amount
      else case (mget rates from, mget rates to_base) of
        (Some from_rate, Some base_rate) \<Rightarrow> ddiv D (dmul D amount from_rate) base_rate
      | _ \<Rightarrow> amount)"

section \<open>The rate tables\<close>

datatype rate_origin = Cbr | Manual | Rapira | Cmc

record live_rate =
  lr_code :: ccy
  lr_base :: ccy
  lr_rate :: rat
  lr_source :: rate_origin
  lr_at :: ms

record daily_rate =
  da_code :: ccy
  da_base :: ccy
  da_date :: ms
  da_rate :: rat
  da_source :: rate_origin

definition RATE_BASE :: ccy where "RATE_BASE = ''RUB''"
definition USDT :: ccy where "USDT = ''USDT''"

text \<open>exchange-rates.repository.ts: newest first.  The order of rows captured at one instant is that of the table.\<close>

definition list_by_base_desc :: "ccy \<Rightarrow> live_rate list \<Rightarrow> live_rate list" where
  "list_by_base_desc base table = sort_key (\<lambda>r. - lr_at r) (filter (\<lambda>r. lr_base r = base) table)"

definition get_rub_rates :: "live_rate list \<Rightarrow> rate_map" where
  "get_rub_rates table =
     foldl (\<lambda>m r. if mget m (lr_code r) \<noteq> None then m else mset_to (lr_code r) (lr_rate r) m)
       [(''RUB'', 1)] (list_by_base_desc RATE_BASE table)"

definition list_rates :: "live_rate list \<Rightarrow> live_rate list" where
  "list_rates table =
     snd (foldl (\<lambda>(seen, out) r. if lr_code r \<in> set seen then (seen, out)
                                 else (seen @ [lr_code r], out @ [r]))
            ([], []) (list_by_base_desc RATE_BASE table))"

definition add_manual_rate :: "ccy \<Rightarrow> rat \<Rightarrow> ms \<Rightarrow> live_rate list \<Rightarrow> live_rate list" where
  "add_manual_rate code rate now table =
     table @ [\<lparr> lr_code = code, lr_base = RATE_BASE, lr_rate = rate, lr_source = Manual, lr_at = now \<rparr>]"

text \<open>exchange-rates-daily.repository.ts; the unique index is on code, base and date.\<close>

definition daily_key :: "daily_rate \<Rightarrow> ccy \<times> ccy \<times> ms" where
  "daily_key r = (da_code r, da_base r, da_date r)"

definition daily_list_by_base_asc :: "ccy \<Rightarrow> daily_rate list \<Rightarrow> daily_rate list" where
  "daily_list_by_base_asc base table = sort_key da_date (filter (\<lambda>r. da_base r = base) table)"

definition insert_daily :: "daily_rate list \<times> nat \<Rightarrow> daily_rate \<Rightarrow> daily_rate list \<times> nat" where
  "insert_daily acc r =
     (if daily_key r \<in> daily_key ` set (fst acc) then acc else (fst acc @ [r], snd acc + 1))"

definition daily_create_many :: "daily_rate list \<Rightarrow> daily_rate list \<Rightarrow> daily_rate list \<times> nat" where
  "daily_create_many rows table = (if rows = [] then (table, 0) else foldl insert_daily (table, 0) rows)"

definition daily_coverage :: "ccy \<Rightarrow> ms \<Rightarrow> daily_rate list \<Rightarrow> (ccy \<times> (ms \<times> ms)) list" where
  "daily_coverage base before table =
     foldl (\<lambda>m r. mset_to (da_code r)
              (case mget m (da_code r) of None \<Rightarrow> (da_date r, da_date r)
               | Some (f, l) \<Rightarrow> (min f (da_date r), max l (da_date r))) m)
       [] (filter (\<lambda>r. da_base r = base \<and> da_date r < before) table)"

section \<open>The archive from the table\<close>

definition get_historical_rates ::
  "rate_origin \<Rightarrow> daily_rate list \<Rightarrow> rate_map \<Rightarrow> historical_rates" where
  "get_historical_rates rate_source table live =
     (let rows = daily_list_by_base_asc RATE_BASE table;
          usable = (if rate_source = Cbr then rows else filter (\<lambda>r. da_source r \<noteq> Cbr) rows)
      in new_historical
           (map (\<lambda>r. \<lparr> dr_code = da_code r, dr_day = utc_day (da_date r), dr_rate = da_rate r \<rparr>) usable) live)"

section \<open>The feeds\<close>

record rate_quote =
  rq_code :: ccy
  rq_per_rub :: rat

record daily_quote =
  dq_day :: string
  dq_rate :: rat

definition SUPPORTED_CURRENCIES :: "ccy list" where
  "SUPPORTED_CURRENCIES = [''RUB'', ''USD'', ''EUR'', ''GBP'', ''CHF'', ''JPY'', ''CNY'', ''TRY'',
     ''KZT'', ''UAH'', ''SEK'', ''USDT'']"

definition CBR_CURRENCIES :: "ccy list" where
  "CBR_CURRENCIES = filter (\<lambda>c. c \<noteq> ''USDT'') SUPPORTED_CURRENCIES"

text \<open>The daily feed of the central bank; a missing Date is None.\<close>

record cbr_valute =
  cv_char_code :: ccy
  cv_nominal :: rat
  cv_value :: rat

record cbr_response =
  cr_date :: "string option"
  cr_valute :: "cbr_valute list"

definition cbr_fetch_rates :: "decimal_lib \<Rightarrow> ms \<Rightarrow> cbr_response \<Rightarrow> string \<times> rate_quote list" where
  "cbr_fetch_rates D now data =
     (let quotes = map (\<lambda>v. \<lparr> rq_code = cv_char_code v, rq_per_rub = ddiv D (cv_value v) (cv_nominal v) \<rparr>)
                     (filter (\<lambda>v. cv_char_code v \<in> set CBR_CURRENCIES) (cr_valute data))
                   @ [\<lparr> rq_code = ''RUB'', rq_per_rub = 1 \<rparr>];
          day = day_prefix (coalesce (cr_date data) [])
      in (coalesce day (iso_day now), quotes))"

text \<open>
  The range query: the code must have an identifier, the error sentinel is an exception, and a
  record of the body is its date parts, its nominal and its value.
\<close>

definition CBR_CODES :: "(ccy \<times> string) list" where
  "CBR_CODES = [(''USD'', ''R01235''), (''EUR'', ''R01239''), (''GBP'', ''R01035''), (''CHF'', ''R01775''),
     (''JPY'', ''R01820''), (''CNY'', ''R01375''), (''TRY'', ''R01700J''), (''KZT'', ''R01335''),
     (''UAH'', ''R01720''), (''SEK'', ''R01770'')]"

datatype cbr_body = Error_in_parameters | Records "(string \<times> string \<times> string \<times> rat \<times> rat) list"

definition cbr_fetch_range :: "decimal_lib \<Rightarrow> ccy \<Rightarrow> cbr_body option \<Rightarrow> daily_quote list option" where
  "cbr_fetch_range D code resp =
     (case mget CBR_CODES code of
        None \<Rightarrow> Some []
      | Some i \<Rightarrow> (case resp of
            None \<Rightarrow> None
          | Some Error_in_parameters \<Rightarrow> None
          | Some (Records ms) \<Rightarrow> Some (map (\<lambda>(dd, mm, yyyy, nominal, value).
              \<lparr> dq_day = yyyy @ ''-'' @ mm @ ''-'' @ dd, dq_rate = ddiv D value nominal \<rparr>) ms)))"

text \<open>CoinMarketCap: a page for a cursor; volume and close are None where the candle has no number.\<close>

record cmc_quote =
  cq_time_open :: string
  cq_volume :: "rat option"
  cq_close :: "rat option"

record cmc_page =
  cp_quotes :: "cmc_quote list"
  cp_time_end :: "int option"

definition falsy_num :: "rat option \<Rightarrow> bool" where
  "falsy_num v = (case v of None \<Rightarrow> True | Some x \<Rightarrow> x = 0)"

definition cmc_take :: "string \<Rightarrow> string \<Rightarrow> string \<times> (string \<times> rat) list \<Rightarrow> cmc_quote
  \<Rightarrow> string \<times> (string \<times> rat) list" where
  "cmc_take from_day to_day acc q =
     (let (oldest, by_day) = acc; day = take 10 (cq_time_open q);
          oldest' = (if day < oldest then day else oldest) in
      if day < from_day \<or> to_day < day then (oldest', by_day)
      else if falsy_num (cq_volume q) \<or> falsy_num (cq_close q) then (oldest', by_day)
      else (oldest', mset_to day (the (cq_close q)) by_day))"

text \<open>The paging loop with its bound; None is an exception, of the request or of the empty first page.\<close>

fun cmc_pages :: "(int \<Rightarrow> cmc_page option) \<Rightarrow> string \<Rightarrow> string \<Rightarrow> nat \<Rightarrow> bool \<Rightarrow> int
  \<Rightarrow> (string \<times> rat) list \<Rightarrow> (string \<times> rat) list option" where
  "cmc_pages http from_day to_day 0 first cursor by_day = Some by_day"
| "cmc_pages http from_day to_day (Suc n) first cursor by_day =
     (case http cursor of
        None \<Rightarrow> None
      | Some page \<Rightarrow>
          if cp_quotes page = [] then (if first then None else Some by_day)
          else let (oldest, by_day') = foldl (cmc_take from_day to_day) (''9999-12-31'', by_day) (cp_quotes page)
               in if oldest \<le> from_day then Some by_day'
                  else case cp_time_end page of
                         None \<Rightarrow> Some by_day'
                       | Some next \<Rightarrow> if next \<le> 0 then Some by_day'
                                      else cmc_pages http from_day to_day n False next by_day')"

definition MAX_PAGES :: nat where "MAX_PAGES = 12"

definition cmc_fetch_usdt_range :: "(int \<Rightarrow> cmc_page option) \<Rightarrow> ms \<Rightarrow> ms \<Rightarrow> daily_quote list option" where
  "cmc_fetch_usdt_range http from_t to_t =
     map_option (\<lambda>by_day. sort_key dq_day (map (\<lambda>(d, r). \<lparr> dq_day = d, dq_rate = r \<rparr>) by_day))
       (cmc_pages http (iso_day from_t) (iso_day to_t) MAX_PAGES True (to_t div 1000) [])"

text \<open>Rapira: the ask price of the pair, or an exception.\<close>

definition rapira_fetch_usdt_rub :: "(string \<times> rat) list option \<Rightarrow> rat option" where
  "rapira_fetch_usdt_rub data =
     (case data of None \<Rightarrow> None
      | Some items \<Rightarrow> (case mget items ''USDT/RUB'' of
            None \<Rightarrow> None
          | Some ask \<Rightarrow> if ask \<le> 0 then None else Some ask))"

section \<open>Refresh and backfill\<close>

text \<open>The two tables, and the outcome of a call: None is an exception, with the state it leaves.\<close>

record rates_db =
  db_live :: "live_rate list"
  db_daily :: "daily_rate list"

record new_rate =
  nr_code :: ccy
  nr_rate :: rat
  nr_source :: rate_origin
  nr_day :: string

definition to_live :: "ms \<Rightarrow> new_rate \<Rightarrow> live_rate" where
  "to_live now r = \<lparr> lr_code = nr_code r, lr_base = RATE_BASE, lr_rate = nr_rate r,
                     lr_source = nr_source r, lr_at = now \<rparr>"

definition to_daily :: "new_rate \<Rightarrow> daily_rate option" where
  "to_daily r = map_option (\<lambda>d. \<lparr> da_code = nr_code r, da_base = RATE_BASE, da_date = d,
                                  da_rate = nr_rate r, da_source = nr_source r \<rparr>) (parse_day (nr_day r))"

text \<open>createMany with an invalid date among its rows throws and stores nothing.\<close>

definition store_daily :: "new_rate list \<Rightarrow> daily_rate list \<Rightarrow> (daily_rate list \<times> nat) option" where
  "store_daily rows table =
     (if None \<in> set (map to_daily rows) then None
      else Some (daily_create_many (map (the \<circ> to_daily) rows) table))"

definition cbr_rows :: "decimal_lib \<Rightarrow> string \<times> rate_quote list \<Rightarrow> new_rate list" where
  "cbr_rows D snap = map (\<lambda>q. \<lparr> nr_code = rq_code q, nr_rate = fix8_round D (rq_per_rub q),
                                nr_source = Cbr, nr_day = fst snap \<rparr>) (snd snap)"

definition usdt_rows :: "decimal_lib \<Rightarrow> ms \<Rightarrow> rat option \<Rightarrow> new_rate list" where
  "usdt_rows D now r = (case r of None \<Rightarrow> []
     | Some u \<Rightarrow> [\<lparr> nr_code = USDT, nr_rate = fix8_round D u, nr_source = Rapira, nr_day = utc_day now \<rparr>])"

definition refresh_rates :: "decimal_lib \<Rightarrow> rate_origin \<Rightarrow> cbr_response option \<Rightarrow> (string \<times> rat) list option
  \<Rightarrow> ms \<Rightarrow> rates_db \<Rightarrow> rates_db \<times> nat option" where
  "refresh_rates D rate_source cbr rapira now db =
     (if rate_source = Cbr \<and> cbr = None then (db, None)
      else
        let rows = (if rate_source = Cbr then cbr_rows D (cbr_fetch_rates D now (the cbr)) else [])
                   @ usdt_rows D now (rapira_fetch_usdt_rub rapira)
        in if rows = [] then (db, Some 0)
           else let db1 = db \<lparr> db_live := db_live db @ map (to_live now) rows \<rparr> in
             case store_daily rows (db_daily db) of
               None \<Rightarrow> (db1, None)
             | Some (daily, _) \<Rightarrow> (db1 \<lparr> db_daily := daily \<rparr>, Some (length rows)))"

definition expected_history_codes :: "rate_origin \<Rightarrow> ccy list" where
  "expected_history_codes rate_source =
     (if rate_source \<noteq> Cbr then [USDT] else filter (\<lambda>c. c \<noteq> RATE_BASE) CBR_CURRENCIES @ [USDT])"

text \<open>The table, the number of rows inserted and the codes that failed.\<close>

type_synonym backfill_state = "daily_rate list \<times> nat \<times> ccy list"

definition backfill_code :: "decimal_lib \<Rightarrow> ccy \<Rightarrow> rate_origin \<Rightarrow> daily_quote list option
  \<Rightarrow> backfill_state \<Rightarrow> backfill_state" where
  "backfill_code D code src quotes st =
     (let (table, inserted, failed) = st in
      case quotes of
        None \<Rightarrow> (table, inserted, failed @ [code])
      | Some qs \<Rightarrow>
          (case store_daily (map (\<lambda>q. \<lparr> nr_code = code, nr_rate = fix8_round D (dq_rate q), nr_source = src,
                                        nr_day = dq_day q \<rparr>) qs) table of
             None \<Rightarrow> (table, inserted, failed @ [code])
           | Some (table', n) \<Rightarrow> (table', inserted + n, failed)))"

definition backfill_history :: "decimal_lib \<Rightarrow> rate_origin \<Rightarrow> (ccy \<Rightarrow> cbr_body option)
  \<Rightarrow> (int \<Rightarrow> cmc_page option) \<Rightarrow> ms \<Rightarrow> daily_rate list \<Rightarrow> backfill_state" where
  "backfill_history D rate_source cbr cmc now table =
     (let expected = expected_history_codes rate_source;
          st = foldl (\<lambda>st code. if code \<notin> set expected then st
                                else backfill_code D code Cbr (cbr_fetch_range D code (cbr code)) st)
                 (table, 0, []) CBR_CURRENCIES
      in backfill_code D USDT Cmc (cmc_fetch_usdt_range cmc (the (parse_day ''2024-01-01'')) now) st)"

text \<open>The codes whose archive is incomplete at start-up.\<close>

definition missing_codes :: "rate_origin \<Rightarrow> ms \<Rightarrow> daily_rate list \<Rightarrow> ccy list" where
  "missing_codes rate_source now table =
     (let today = coalesce (parse_day (utc_day now)) 0;
          coverage = daily_coverage RATE_BASE today table;
          cutoff = ''2024-02-01'';
          yesterday = utc_day (today - 86400000)
      in filter (\<lambda>code. case mget coverage code of
                    None \<Rightarrow> True
                  | Some (f, l) \<Rightarrow> cutoff < utc_day f \<or> code = USDT \<and> utc_day l < yesterday)
           (expected_history_codes rate_source))"

definition backfill_if_missing :: "decimal_lib \<Rightarrow> rate_origin \<Rightarrow> (ccy \<Rightarrow> cbr_body option)
  \<Rightarrow> (int \<Rightarrow> cmc_page option) \<Rightarrow> ms \<Rightarrow> rates_db \<Rightarrow> rates_db" where
  "backfill_if_missing D rate_source cbr cmc now db =
     (if missing_codes rate_source now (db_daily db) = [] then db
      else db \<lparr> db_daily := fst (backfill_history D rate_source cbr cmc now (db_daily db)) \<rparr>)"

text \<open>Start-up: at most three attempts, each with the feeds of its moment, then the backfill check.\<close>

fun startup_attempts :: "decimal_lib \<Rightarrow> rate_origin \<Rightarrow> (nat \<Rightarrow> cbr_response option \<times> (string \<times> rat) list option \<times> ms)
  \<Rightarrow> nat \<Rightarrow> nat \<Rightarrow> rates_db \<Rightarrow> rates_db" where
  "startup_attempts D src env 0 k db = db"
| "startup_attempts D src env (Suc n) k db =
     (let (cbr, rapira, now) = env k in
      case refresh_rates D src cbr rapira now db of
        (db', Some _) \<Rightarrow> db'
      | (db', None) \<Rightarrow> startup_attempts D src env n (k + 1) db')"

definition refresh_on_startup :: "decimal_lib \<Rightarrow> rate_origin
  \<Rightarrow> (nat \<Rightarrow> cbr_response option \<times> (string \<times> rat) list option \<times> ms) \<Rightarrow> (ccy \<Rightarrow> cbr_body option)
  \<Rightarrow> (int \<Rightarrow> cmc_page option) \<Rightarrow> ms \<Rightarrow> rates_db \<Rightarrow> rates_db" where
  "refresh_on_startup D src env cbr cmc now db =
     backfill_if_missing D src cbr cmc now (startup_attempts D src env 3 1 db)"

section \<open>The as-of lookup\<close>

lemma as_of_loop_inv:
  assumes "sorted days" "0 \<le> lo" "lo \<le> hi + 1" "hi < int (length days)"
    and "\<forall>i<length days. int i < lo \<longrightarrow> days ! i \<le> day"
    and "\<forall>i<length days. hi < int i \<longrightarrow> day < days ! i"
    and "found = (if lo = 0 then 0 else lo - 1)"
  shows "let k = as_of_loop days day lo hi found in
    0 \<le> k \<and> (0 < k \<longrightarrow> k < int (length days)) \<and>
    (\<forall>i<length days. (int i < k \<longrightarrow> days ! i \<le> day) \<and> (k < int i \<longrightarrow> day < days ! i)) \<and>
    (0 < k \<longrightarrow> days ! nat k \<le> day)"
  using assms
proof (induction days day lo hi found rule: as_of_loop.induct)
  case (1 days day lo hi found)
  show ?case
  proof (cases "lo \<le> hi")
    case True
    define mid where "mid = (lo + hi) div 2"
    have m: "lo \<le> mid" "mid \<le> hi" using True by (auto simp: mid_def)
    then have nm: "nat mid < length days" "int (nat mid) = mid" using "1.prems" by auto
    show ?thesis
    proof (cases "days ! nat mid \<le> day")
      case le: True
      have "\<forall>i<length days. int i < mid + 1 \<longrightarrow> days ! i \<le> day"
      proof (intro allI impI)
        fix i assume "i < length days" "int i < mid + 1"
        then have "days ! i \<le> days ! nat mid" using "1.prems"(1) nm by (intro sorted_nth_mono) auto
        then show "days ! i \<le> day" using le by (rule order_trans)
      qed
      then show ?thesis
        using "1.IH"(1) [OF True mid_def le] "1.prems" m True le
        by (subst as_of_loop.simps) (simp add: mid_def [symmetric])
    next
      case gt: False
      have "\<forall>i<length days. mid - 1 < int i \<longrightarrow> day < days ! i"
      proof (intro allI impI)
        fix i assume "i < length days" "mid - 1 < int i"
        then have "days ! nat mid \<le> days ! i" using "1.prems"(1) nm by (intro sorted_nth_mono) auto
        then show "day < days ! i" using gt by auto
      qed
      then show ?thesis
        using "1.IH"(2) [OF True mid_def gt] "1.prems" m True gt
        by (subst as_of_loop.simps) (simp add: mid_def [symmetric])
    qed
  next
    case False
    then have "lo = hi + 1" using "1.prems" by simp
    then show ?thesis using False "1.prems"
      by (subst as_of_loop.simps) (auto simp: Let_def nat_less_iff)
  qed
qed

lemma sorted_filter_take:
  assumes "sorted (map f rs)"
  shows "filter (\<lambda>r. f r \<le> x) rs = take (length (filter (\<lambda>r. f r \<le> x) rs)) rs"
  using assms
proof (induction rs)
  case (Cons r rs)
  show ?case
  proof (cases "f r \<le> x")
    case False
    then have "filter (\<lambda>r. f r \<le> x) rs = []"
      using Cons.prems by (auto simp: filter_empty_conv intro: order_trans)
    then show ?thesis using False by simp
  qed (use Cons in simp)
qed simp

text \<open>The specification: the newest entry not after the day, or the oldest one.\<close>

definition as_of_entry :: "('a \<Rightarrow> 'd :: linorder) \<Rightarrow> 'a list \<Rightarrow> 'd \<Rightarrow> 'a" where
  "as_of_entry f rs x =
     (if filter (\<lambda>r. f r \<le> x) rs = [] then hd rs else last (filter (\<lambda>r. f r \<le> x) rs))"

lemma as_of_rows:
  assumes "rs \<noteq> []" "sorted (map f rs)"
  shows "as_of \<lparr> cs_days = map f rs, cs_rates = map g rs \<rparr> day = Some (g (as_of_entry f rs day))"
proof (cases "day < f (hd rs)")
  case True
  have "filter (\<lambda>r. f r \<le> day) rs = []"
  proof -
    have "\<not> f r \<le> day" if "r \<in> set rs" for r
    proof -
      have "f (hd rs) \<le> f r" using that assms by (cases rs) auto
      then show ?thesis using True by (meson not_le order_less_le_trans)
    qed
    then show ?thesis by (simp add: filter_empty_conv)
  qed
  then show ?thesis using True assms(1) by (simp add: as_of_def as_of_entry_def hd_map)
next
  case False
  let ?n = "length rs" and ?k = "as_of_loop (map f rs) day 0 (int (length rs) - 1) 0"
  let ?fl = "filter (\<lambda>r. f r \<le> day) rs"
  have inv: "0 \<le> ?k" "0 < ?k \<longrightarrow> ?k < int ?n"
      "\<forall>i<?n. (int i < ?k \<longrightarrow> f (rs ! i) \<le> day) \<and> (?k < int i \<longrightarrow> day < f (rs ! i))"
      "0 < ?k \<longrightarrow> f (rs ! nat ?k) \<le> day"
    using as_of_loop_inv [of "map f rs" 0 "int ?n - 1" day 0] assms by (auto simp: Let_def)
  have k: "nat ?k < ?n" using inv assms(1) by (cases "?k = 0") auto
  have at: "f (rs ! nat ?k) \<le> day"
    using inv False assms(1) by (cases "?k = 0") (auto simp: hd_conv_nth)
  have take: "?fl = take (length ?fl) rs" using assms(2) by (rule sorted_filter_take)
  have ne: "?fl \<noteq> []" using at nth_mem [OF k] by (auto simp only: filter_empty_conv)
  define m where "m = length ?fl - 1"
  have pos: "0 < length ?fl" using ne length_greater_0_conv by blast
  then have m: "m < ?n" using length_filter_le [of "\<lambda>r. f r \<le> day" rs] unfolding m_def by linarith
  have "take (length ?fl) rs ! m = rs ! m" using pos by (intro nth_take) (simp only: m_def diff_less zero_less_one)
  then have last: "rs ! m = last ?fl"
    unfolding take [symmetric] using last_conv_nth [OF ne] by (simp only: m_def)
  have "f (rs ! m) \<le> day" using last_in_set [OF ne] unfolding last by simp
  then have "\<not> ?k < int m" using inv(3) m by (auto dest: leD)
  moreover have "\<not> int m < ?k"
  proof
    assume "int m < ?k"
    then have "length ?fl \<le> nat ?k" by (simp add: m_def)
    moreover have "nat ?k < length ?fl"
    proof (rule ccontr)
      assume "\<not> nat ?k < length ?fl"
      have "card {i. i < ?n \<and> f (rs ! i) \<le> day} = length ?fl" by (simp add: length_filter_conv_card)
      moreover have "{i. i \<le> nat ?k} \<subseteq> {i. i < ?n \<and> f (rs ! i) \<le> day}"
      proof (intro subsetI CollectI)
        fix i assume "i \<in> {i. i \<le> nat ?k}"
        then have "i < ?n" "int i < ?k \<or> i = nat ?k" using k inv(1) by auto
        then show "i < ?n \<and> f (rs ! i) \<le> day" using inv(3) at by blast
      qed
      then have "card {i. i \<le> nat ?k} \<le> card {i. i < ?n \<and> f (rs ! i) \<le> day}" by (intro card_mono) auto
      ultimately show False using \<open>\<not> nat ?k < length ?fl\<close> by simp
    qed
    ultimately show False by simp
  qed
  ultimately have "?k = int m" by simp
  then show ?thesis using False assms(1) m last ne by (simp add: as_of_def as_of_entry_def hd_map)
qed

text \<open>The binary search ends and, on a series sorted by day, returns the rate of the newest day not after the asked
  one, or the oldest rate when the day predates the archive; it never reads outside the series.\<close>

theorem as_of_spec:
  assumes "sorted (cs_days s)" "length (cs_rates s) = length (cs_days s)" "cs_days s \<noteq> []"
  shows "as_of s day = Some (snd (as_of_entry fst (zip (cs_days s) (cs_rates s)) day))"
proof -
  let ?rs = "zip (cs_days s) (cs_rates s)"
  have "s = \<lparr> cs_days = map fst ?rs, cs_rates = map snd ?rs \<rparr>" using assms(2) by simp
  moreover have "?rs \<noteq> []" using assms by (cases "cs_days s"; cases "cs_rates s") auto
  moreover have "sorted (map fst ?rs)" using assms(1,2) by simp
  ultimately show ?thesis using as_of_rows [of ?rs fst snd day] by metis
qed

definition sample_series :: code_series where
  "sample_series = \<lparr> cs_days = [''2024-01-10'', ''2024-01-12'', ''2024-01-16''], cs_rates = [90, 91, 92] \<rparr>"

lemma as_of_spec_witness:
  "as_of sample_series ''2024-01-15'' = Some 91 \<and> as_of sample_series ''2023-12-31'' = Some 90"
proof -
  have "sorted (cs_days sample_series)" "length (cs_rates sample_series) = length (cs_days sample_series)"
    "cs_days sample_series \<noteq> []" by code_simp+
  note e = as_of_spec [OF this]
  have "as_of_entry fst (zip (cs_days sample_series) (cs_rates sample_series)) ''2024-01-15'' = (''2024-01-12'', 91)"
    "as_of_entry fst (zip (cs_days sample_series) (cs_rates sample_series)) ''2023-12-31'' = (''2024-01-10'', 90)"
    by code_simp+
  then show ?thesis using e by simp
qed

section \<open>The archive of the table\<close>

definition rates_after :: "historical_rates \<Rightarrow> ms list \<Rightarrow> historical_rates" where
  "rates_after h ts = foldl (\<lambda>h t. snd (rates_on h t)) h ts"

definition cache_ok :: "historical_rates \<Rightarrow> bool" where
  "cache_ok h = (\<forall>k m. mget (hr_cache h) k = Some m \<longrightarrow> m = fresh_rates h k)"

lemma fresh_cache [simp]: "fresh_rates (h \<lparr> hr_cache := c \<rparr>) k = fresh_rates h k"
  by (simp add: fresh_rates_def)

lemma rates_on_ok:
  assumes "cache_ok h"
  shows "fst (rates_on h t) = fresh_rates h (utc_day t) \<and> cache_ok (snd (rates_on h t)) \<and>
    fresh_rates (snd (rates_on h t)) k = fresh_rates h k"
  using assms by (auto simp: rates_on_def Let_def cache_ok_def split: option.splits if_splits)

lemma rates_after_ok:
  "cache_ok h \<Longrightarrow> cache_ok (rates_after h ts) \<and> fresh_rates (rates_after h ts) k = fresh_rates h k"
  unfolding rates_after_def
proof (induction ts arbitrary: h)
  case (Cons t ts)
  then show ?case using Cons.IH [of "snd (rates_on h t)"] rates_on_ok [of h t] by simp
qed simp

lemma fold_optional_set:
  "distinct (map fst xs) \<Longrightarrow>
   mget (foldl (\<lambda>m (k, s). case f s of None \<Rightarrow> m | Some r \<Rightarrow> mset_to k r m) m0 xs) c =
     (case mget xs c of None \<Rightarrow> mget m0 c
      | Some s \<Rightarrow> (case f s of None \<Rightarrow> mget m0 c | Some r \<Rightarrow> Some r))"
proof (induction xs arbitrary: m0)
  case (Cons e xs)
  obtain k s where e: "e = (k, s)" by (cases e)
  have none: "mget xs k = None" using Cons.prems e mget_in_keys [of xs k] by auto
  note IH = Cons.IH [of "case f s of None \<Rightarrow> m0 | Some r \<Rightarrow> mset_to k r m0"]
  show ?case
  proof (cases "f s")
    case None
    then show ?thesis using IH Cons.prems none by (cases "c = k") (simp_all add: e mget_Cons split: option.split)
  next
    case (Some r)
    then show ?thesis using IH Cons.prems none by (cases "c = k") (simp_all add: e mget_Cons split: option.split)
  qed
qed simp

lemma series_fold:
  "foldl (\<lambda>s r. \<lparr> cs_days = cs_days s @ [dr_day r], cs_rates = cs_rates s @ [dr_rate r] \<rparr>) s rs =
     \<lparr> cs_days = cs_days s @ map dr_day rs, cs_rates = cs_rates s @ map dr_rate rs \<rparr>"
  by (induction rs arbitrary: s) auto

lemma by_code_get:
  "mget (hr_by_code (new_historical rows live)) c =
     (let rs = filter (\<lambda>r. dr_code r = c) rows in
      if rs = [] then None else Some \<lparr> cs_days = map dr_day rs, cs_rates = map dr_rate rs \<rparr>)"
  using group_fold [of dr_code "\<lparr> cs_days = [], cs_rates = [] \<rparr>"
      "\<lambda>s r. \<lparr> cs_days = cs_days s @ [dr_day r], cs_rates = cs_rates s @ [dr_rate r] \<rparr>" rows c]
  by (simp add: new_historical_def add_row_def [abs_def] series_fold Let_def)

lemma by_code_distinct: "distinct (map fst (hr_by_code (new_historical rows live)))"
  using group_fold_distinct [of "[]" dr_code "\<lparr> cs_days = [], cs_rates = [] \<rparr>"
      "\<lambda>s r. \<lparr> cs_days = cs_days s @ [dr_day r], cs_rates = cs_rates s @ [dr_rate r] \<rparr>" rows]
  by (simp add: new_historical_def add_row_def [abs_def])

lemma new_historical_latest: "hr_latest (new_historical rows live) = live"
  by (simp add: new_historical_def)

lemma fresh_rates_get:
  assumes "sorted (map dr_day rows)"
  shows "mget (fresh_rates (new_historical rows live) day) c =
     (let rs = filter (\<lambda>r. dr_code r = c) rows in
      if rs = [] then mget live c else Some (dr_rate (as_of_entry dr_day rs day)))"
proof -
  have "sorted (map dr_day (filter (\<lambda>r. dr_code r = c) rows))" using assms by (rule sorted_filter)
  then show ?thesis
    using fold_optional_set [OF by_code_distinct, of "\<lambda>s. as_of s day" live rows live c]
      as_of_rows [of "filter (\<lambda>r. dr_code r = c) rows" dr_day dr_rate day]
    unfolding fresh_rates_def new_historical_latest by (simp add: by_code_get Let_def)
qed

definition printable_dates :: "daily_rate list \<Rightarrow> bool" where
  "printable_dates table = (\<forall>r\<in>set table. printable_day (da_date r div MS_PER_DAY))"

text \<open>The rows the archive keeps for a code: RUB based, without the central bank in manual mode, oldest first.\<close>

definition archive_rows :: "rate_origin \<Rightarrow> daily_rate list \<Rightarrow> ccy \<Rightarrow> daily_rate list" where
  "archive_rows src table c =
     filter (\<lambda>r. da_code r = c \<and> (src = Cbr \<or> da_source r \<noteq> Cbr)) (daily_list_by_base_asc RATE_BASE table)"

lemma sorted_days:
  assumes "sorted (map da_date rs)" "printable_dates rs"
  shows "sorted (map (\<lambda>r. utc_day (da_date r)) rs)"
  using assms
  by (induction rs) (auto simp: utc_day_def printable_dates_def iso_day_le_iff zdiv_mono1)

lemma printable_sub: "printable_dates table \<Longrightarrow> set rs \<subseteq> set table \<Longrightarrow> printable_dates rs"
  by (auto simp: printable_dates_def)

lemma as_of_entry_cong:
  assumes "\<And>r. r \<in> set rs \<Longrightarrow> (f r \<le> x) = (g r \<le> y)"
  shows "as_of_entry f rs x = as_of_entry g rs y"
proof -
  have "filter (\<lambda>r. f r \<le> x) rs = filter (\<lambda>r. g r \<le> y) rs" using assms by (intro filter_cong) auto
  then show ?thesis by (simp add: as_of_entry_def)
qed

lemma as_of_entry_map: "as_of_entry f (map h rs) x = (if rs = [] then hd [] else h (as_of_entry (f \<circ> h) rs x))"
  by (auto simp: as_of_entry_def filter_map comp_def hd_map last_map)

text \<open>The archive built from the table values a past date with the newest stored rate of the currency whose calendar
  day is not after that date (the oldest one for earlier dates), without the central bank's rows when rates are
  manual, and with today's rate when the currency is not in the archive; earlier look-ups, which fill the cache, change
  nothing.\<close>

theorem historical_rates_lookup:
  assumes "printable_dates table" "printable_day (t div MS_PER_DAY)"
  shows "mget (fst (rates_on (rates_after (get_historical_rates src table live) earlier) t)) c =
    (let rs = archive_rows src table c in
     if rs = [] then mget live c
     else Some (da_rate (as_of_entry (\<lambda>r. da_date r div MS_PER_DAY) rs (t div MS_PER_DAY))))"
proof -
  define keep where "keep = filter (\<lambda>r. src = Cbr \<or> da_source r \<noteq> Cbr) (daily_list_by_base_asc RATE_BASE table)"
  define conv :: "daily_rate \<Rightarrow> daily_rate_row" where "conv r = \<lparr> dr_code = da_code r, dr_day = utc_day (da_date r), dr_rate = da_rate r \<rparr>"
    for r
  let ?h = "get_historical_rates src table live"
  have h: "?h = new_historical (map conv keep) live"
    by (simp add: get_historical_rates_def Let_def keep_def conv_def [abs_def])
  have sub: "set keep \<subseteq> set table" by (auto simp: keep_def daily_list_by_base_asc_def)
  have "sorted (map da_date keep)"
    unfolding keep_def daily_list_by_base_asc_def by (intro sorted_filter) simp
  then have sd: "sorted (map dr_day (map conv keep))"
    using sorted_days [OF _ printable_sub [OF assms(1) sub]] by (simp add: conv_def comp_def)
  have rs: "filter (\<lambda>r. dr_code r = c) (map conv keep) = map conv (archive_rows src table c)"
    by (simp add: filter_map comp_def conv_def archive_rows_def keep_def conj_commute)
  have "cache_ok ?h" by (simp add: h new_historical_def cache_ok_def)
  then have 1: "mget (fst (rates_on (rates_after ?h earlier) t)) c = mget (fresh_rates ?h (utc_day t)) c"
    using rates_after_ok rates_on_ok by metis
  have 2: "mget (fresh_rates ?h (utc_day t)) c = (let rs = archive_rows src table c in
      if rs = [] then mget live c else Some (da_rate (as_of_entry (dr_day \<circ> conv) rs (utc_day t))))"
    using fresh_rates_get [OF sd, of live "utc_day t" c]
    by (simp add: h rs Let_def as_of_entry_map) (simp add: conv_def)
  have 3: "as_of_entry (dr_day \<circ> conv) (archive_rows src table c) (utc_day t) =
      as_of_entry (\<lambda>r. da_date r div MS_PER_DAY) (archive_rows src table c) (t div MS_PER_DAY)"
  proof (rule as_of_entry_cong)
    fix r assume "r \<in> set (archive_rows src table c)"
    then have "r \<in> set table" by (auto simp: archive_rows_def daily_list_by_base_asc_def)
    then show "((dr_day \<circ> conv) r \<le> utc_day t) = (da_date r div MS_PER_DAY \<le> t div MS_PER_DAY)"
      using assms by (simp add: conv_def utc_day_def iso_day_le_iff printable_dates_def)
  qed
  show ?thesis using 1 2 by (simp add: Let_def 3)
qed

definition sample_table :: "daily_rate list" where
  "sample_table = [\<lparr> da_code = ''USD'', da_base = ''RUB'', da_date = 86400000 * 5, da_rate = 91, da_source = Cbr \<rparr>,
     \<lparr> da_code = ''USD'', da_base = ''RUB'', da_date = 0, da_rate = 90, da_source = Cbr \<rparr>]"

lemma historical_rates_lookup_witness:
  "mget (fst (rates_on (rates_after (get_historical_rates Cbr sample_table []) [7]) (86400000 * 4 + 3))) ''USD'' = Some 90"
proof -
  have "printable_dates sample_table" "printable_day ((86400000 * 4 + 3) div MS_PER_DAY)" by code_simp+
  note e = historical_rates_lookup [OF this, of Cbr "[]" "[7]" "''USD''"]
  have "archive_rows Cbr sample_table ''USD'' = rev sample_table" by code_simp
  then show ?thesis using e by (simp add: as_of_entry_def sample_table_def MS_PER_DAY_def Let_def)
qed

section \<open>Conversion\<close>

text \<open>A conversion is the identity within one currency and, when either rate is unknown, leaves the amount unchanged;
  otherwise it goes through the rouble.  With positive rates it keeps the sign of the amount and its order.\<close>

theorem convert_spec:
  assumes "decimal_arith D" "\<forall>c r. mget rates c = Some r \<longrightarrow> 0 < r"
  shows "(from = to \<or> mget rates from = None \<or> mget rates to = None \<longrightarrow> convert D a from to rates = a) \<and>
    (\<forall>f b. from \<noteq> to \<and> mget rates from = Some f \<and> mget rates to = Some b \<longrightarrow>
       convert D a from to rates = ddiv D (dmul D a f) b) \<and>
    (0 < convert D a from to rates \<longleftrightarrow> 0 < a) \<and> (convert D a from to rates < 0 \<longleftrightarrow> a < 0) \<and>
    (a \<le> a' \<longrightarrow> convert D a from to rates \<le> convert D a' from to rates)"
proof -
  note pos = decimal_arith.sig_pos_iff [OF assms(1)] and neg = decimal_arith.sig_neg_iff [OF assms(1)]
  note mono = decimal_arith.sig_mono [OF assms(1)]
  show ?thesis
  proof (cases "from \<noteq> to \<and> mget rates from \<noteq> None \<and> mget rates to \<noteq> None")
    case True
    then obtain f b where fb: "mget rates from = Some f" "mget rates to = Some b" by auto
    have p: "0 < f" "0 < b" using assms(2) fb by blast+
    have c: "convert D x from to rates = ddiv D (dmul D x f) b" for x using True fb by (simp add: convert_def)
    have "ddiv D (dmul D x f) b \<le> ddiv D (dmul D y f) b" if "x \<le> y" for x y
      unfolding ddiv_def dmul_def using that p
      by (intro mono divide_right_mono mult_right_mono) (auto intro: less_imp_le)
    moreover have "(0 < ddiv D (dmul D x f) b) = (0 < x)" "(ddiv D (dmul D x f) b < 0) = (x < 0)" for x
      unfolding ddiv_def dmul_def using p by (simp_all add: pos neg zero_less_divide_iff divide_less_0_iff
          zero_less_mult_iff mult_less_0_iff)
    ultimately show ?thesis using True fb unfolding c by auto
  next
    case False
    then have "convert D x from to rates = x" for x by (auto simp: convert_def split: option.splits)
    then show ?thesis using False by auto
  qed
qed

lemma convert_spec_witness:
  "0 < convert dec20 100 ''USD'' ''EUR'' [(''USD'', 80), (''EUR'', 90)]"
proof -
  have "\<forall>c r. mget [(''USD'', 80), (''EUR'', 90)] c = Some r \<longrightarrow> (0::rat) < r"
    by (auto simp: mget_Cons split: if_splits)
  from convert_spec [OF dec20_arith this, of "''USD''" "''EUR''" 100 100] show ?thesis by simp
qed

section \<open>Live rates\<close>

lemma sort_desc_first_max:
  assumes "r \<in> set xs" "P r"
  shows "\<exists>x. find P (sort_key (\<lambda>r. - f r :: int) xs) = Some x \<and> x \<in> set xs \<and> P x \<and> f r \<le> f x"
proof -
  have "\<exists>x. find P ys = Some x \<and> x \<in> set ys \<and> P x \<and> f r \<le> f x"
    if "sorted (map (\<lambda>r. - f r) ys)" "r \<in> set ys" for ys
    using that assms(2)
  proof (induction ys)
    case (Cons y ys)
    then show ?case by (cases "P y") auto
  qed simp
  from this [of "sort_key (\<lambda>r. - f r) xs"] show ?thesis using assms(1) by simp
qed

lemma rub_fold_get:
  "mget (foldl (\<lambda>m r. if mget m (lr_code r) \<noteq> None then m else mset_to (lr_code r) (lr_rate r) m) m0 rs) c =
     (case mget m0 c of Some v \<Rightarrow> Some v
      | None \<Rightarrow> map_option lr_rate (find (\<lambda>r. lr_code r = c) rs))"
  by (induction rs arbitrary: m0) (auto split: option.splits)

lemma list_rates_fold:
  "let res = foldl (\<lambda>(seen, out) r. if lr_code r \<in> set seen then (seen, out) else (seen @ [lr_code r], out @ [r]))
               (map lr_code out, out) rs
   in fst res = map lr_code (snd res) \<and>
     (distinct (map lr_code out) \<longrightarrow> distinct (map lr_code (snd res))) \<and>
     (\<forall>c. find (\<lambda>r. lr_code r = c) (snd res) = find (\<lambda>r. lr_code r = c) (out @ rs))"
proof (induction rs arbitrary: out)
  case (Cons r rs)
  show ?case
  proof (cases "lr_code r \<in> lr_code ` set out")
    case True
    have "find (\<lambda>x. lr_code x = c) (out @ r # rs) = find (\<lambda>x. lr_code x = c) (out @ rs)" for c
    proof (cases "lr_code r = c")
      case c: True
      then have "find (\<lambda>x. lr_code x = c) out \<noteq> None" using True by (auto simp: find_None_iff)
      then show ?thesis by (auto simp: find_append)
    qed (simp add: find_append split: option.split)
    then show ?thesis using Cons.IH [of out] True by (simp add: Let_def)
  next
    case False
    then show ?thesis using Cons.IH [of "out @ [r]"] by (simp add: Let_def)
  qed
qed (simp add: Let_def)

lemma find_distinct: "distinct (map f xs) \<Longrightarrow> r \<in> set xs \<Longrightarrow> find (\<lambda>x. f x = f r) xs = Some r"
  by (induction xs) auto

lemma list_rates_find:
  "distinct (map lr_code (list_rates table)) \<and>
   find (\<lambda>r. lr_code r = c) (list_rates table) = find (\<lambda>r. lr_code r = c) (list_by_base_desc RATE_BASE table)"
  using list_rates_fold [of "[]" "list_by_base_desc RATE_BASE table"]
  by (simp add: list_rates_def Let_def)

text \<open>The live rates list one row per currency, and it is a row with the latest capture time of that currency; the
  rate map used for conversions holds exactly these rates, except that the rouble is always one.\<close>

theorem live_rates_latest:
  "distinct (map lr_code (list_rates table)) \<and> mget (get_rub_rates table) ''RUB'' = Some 1 \<and>
   (\<forall>c. c \<noteq> ''RUB'' \<longrightarrow> mget (get_rub_rates table) c =
        map_option lr_rate (find (\<lambda>r. lr_code r = c) (list_rates table))) \<and>
   (\<forall>r\<in>set table. lr_base r = RATE_BASE \<longrightarrow>
      (\<exists>x\<in>set (list_rates table). lr_code x = lr_code r \<and> lr_at r \<le> lr_at x \<and> x \<in> set table \<and> lr_base x = RATE_BASE))"
proof -
  have "\<exists>x\<in>set (list_rates table). lr_code x = lr_code r \<and> lr_at r \<le> lr_at x \<and> x \<in> set table \<and> lr_base x = RATE_BASE"
    if "r \<in> set table" "lr_base r = RATE_BASE" for r
  proof -
    have "r \<in> set (filter (\<lambda>r. lr_base r = RATE_BASE) table)" using that by simp
    from sort_desc_first_max [of r _ "\<lambda>y. lr_code y = lr_code r" lr_at, OF this refl]
    obtain x where x: "find (\<lambda>y. lr_code y = lr_code r) (list_by_base_desc RATE_BASE table) = Some x"
        "x \<in> set (filter (\<lambda>r. lr_base r = RATE_BASE) table)" "lr_code x = lr_code r" "lr_at r \<le> lr_at x"
      unfolding list_by_base_desc_def by auto
    have "find (\<lambda>y. lr_code y = lr_code r) (list_rates table) = Some x" using list_rates_find x(1) by simp
    then have "x \<in> set (list_rates table)" by (auto simp: find_Some_iff)
    then show ?thesis using x by auto
  qed
  moreover have "mget (get_rub_rates table) c =
      (if c = ''RUB'' then Some 1 else map_option lr_rate (find (\<lambda>r. lr_code r = c) (list_rates table)))" for c
    unfolding get_rub_rates_def rub_fold_get by (auto simp: mget_Cons list_rates_find)
  ultimately show ?thesis using list_rates_find [of table] by simp
qed

lemma live_rates_latest_witness:
  "mget (get_rub_rates (add_manual_rate ''USD'' 95 10 (add_manual_rate ''USD'' 90 5 []))) ''USD'' = Some 95"
proof -
  let ?t = "add_manual_rate ''USD'' 95 10 (add_manual_rate ''USD'' 90 5 [])"
  have "find (\<lambda>r. lr_code r = ''USD'') (list_rates ?t) = Some (last ?t)" by code_simp
  moreover have "lr_rate (last ?t) = 95" by code_simp
  ultimately show ?thesis using live_rates_latest [of ?t] by simp
qed

section \<open>The archive only grows, and a second backfill adds nothing\<close>

definition archive_ok :: "daily_rate list \<Rightarrow> bool" where
  "archive_ok t = distinct (map daily_key t)"

text \<open>t' extends t by n rows and has the keys K of the rows offered.\<close>

definition extends :: "daily_rate list \<Rightarrow> daily_rate list \<Rightarrow> nat \<Rightarrow> bool" where
  "extends t t' n = (take (length t) t' = t \<and> length t' = length t + n \<and> (archive_ok t \<longrightarrow> archive_ok t'))"

lemma extends_keys: "extends t t' n \<Longrightarrow> daily_key ` set t \<subseteq> daily_key ` set t'"
  unfolding extends_def by (metis image_mono set_take_subset)

lemma extends_trans: "extends t t' n \<Longrightarrow> extends t' t'' m \<Longrightarrow> extends t t'' (n + m)"
  unfolding extends_def by (auto simp: min_def)

lemma extends_refl: "extends t t 0"
  by (simp add: extends_def)

lemma insert_fold:
  "let (t', n') = foldl insert_daily (t, n) rows
   in n \<le> n' \<and> extends t t' (n' - n) \<and> daily_key ` set t' = daily_key ` set t \<union> daily_key ` set rows"
proof (induction rows arbitrary: t n)
  case (Cons r rows)
  obtain t' n' where f: "foldl insert_daily (insert_daily (t, n) r) rows = (t', n')" by fastforce
  show ?case
  proof (cases "daily_key r \<in> daily_key ` set t")
    case True
    then have "insert_daily (t, n) r = (t, n)" by (simp add: insert_daily_def)
    then show ?thesis using Cons.IH [of t n] f True by (auto simp: Let_def)
  next
    case False
    then have i: "insert_daily (t, n) r = (t @ [r], n + 1)" by (simp add: insert_daily_def)
    have IH: "n + 1 \<le> n'" "extends (t @ [r]) t' (n' - (n + 1))"
      "daily_key ` set t' = daily_key ` set (t @ [r]) \<union> daily_key ` set rows"
      using Cons.IH [of "t @ [r]" "n + 1"] f i by simp_all
    have "extends t (t @ [r]) 1" using False by (auto simp: extends_def archive_ok_def)
    moreover have "1 + (n' - (n + 1)) = n' - n" using IH(1) by arith
    ultimately have "extends t t' (n' - n)" using extends_trans [OF _ IH(2)] by metis
    then show ?thesis using IH f by auto
  qed
qed (simp add: extends_refl)

lemma insert_fold_known:
  "daily_key ` set rows \<subseteq> daily_key ` set t \<Longrightarrow> foldl insert_daily (t, n) rows = (t, n)"
  by (induction rows) (auto simp: insert_daily_def)

lemma create_many_extends:
  assumes "daily_create_many rows t = (t', n)"
  shows "extends t t' n" "daily_key ` set rows \<subseteq> daily_key ` set t'"
  using assms insert_fold [of t 0 rows] by (auto simp: daily_create_many_def extends_refl split: if_splits)

lemma create_many_known:
  "daily_key ` set rows \<subseteq> daily_key ` set t \<Longrightarrow> daily_create_many rows t = (t, 0)"
  by (simp add: daily_create_many_def insert_fold_known)

lemma backfill_code_extends:
  assumes "backfill_code D code src q (t, n, f) = (t', n', f')"
  shows "\<exists>k. n' = n + k \<and> extends t t' k"
  using assms create_many_extends extends_refl
  by (fastforce simp: backfill_code_def store_daily_def split: option.splits if_splits prod.splits)

text \<open>Run again on a table that already holds its rows, a code adds nothing and fails as before.\<close>

lemma backfill_code_again:
  assumes "backfill_code D code src q (t, n, f) = (t', n', f')" "daily_key ` set t' \<subseteq> daily_key ` set u"
  shows "backfill_code D code src q (u, m, g) = (u, m, g @ drop (length f) f') \<and> take (length f) f' = f"
proof (cases q)
  case (Some qs)
  let ?rows = "map (\<lambda>q. \<lparr> nr_code = code, nr_rate = fix8_round D (dq_rate q), nr_source = src, nr_day = dq_day q \<rparr>) qs"
  show ?thesis
  proof (cases "None \<in> set (map to_daily ?rows)")
    case True
    then show ?thesis using assms(1) Some by (auto simp: backfill_code_def store_daily_def)
  next
    case False
    let ?ds = "map (the \<circ> to_daily) ?rows"
    obtain k where c: "daily_create_many ?ds t = (t', k)" and f: "f' = f"
      using assms(1) Some False by (auto simp: backfill_code_def store_daily_def split: prod.splits)
    have "daily_create_many ?ds u = (u, 0)"
      using create_many_extends(2) [OF c] assms(2) by (intro create_many_known) blast
    then show ?thesis using Some False f by (simp add: backfill_code_def store_daily_def)
  qed
qed (use assms in \<open>auto simp: backfill_code_def\<close>)

definition backfill_fold :: "decimal_lib \<Rightarrow> (ccy \<Rightarrow> daily_quote list option) \<Rightarrow> ccy list \<Rightarrow> backfill_state \<Rightarrow> backfill_state" where
  "backfill_fold D q codes st =
     foldl (\<lambda>st code. backfill_code D code (if code = USDT then Cmc else Cbr) (q code) st) st codes"

lemma backfill_fold_extends:
  "backfill_fold D q codes (t, n, f) = (t', n', f') \<Longrightarrow> \<exists>k. n' = n + k \<and> extends t t' k"
proof (induction codes arbitrary: t n f)
  case Nil
  then show ?case using extends_refl by (auto simp: backfill_fold_def)
next
  case (Cons c codes)
  obtain t1 n1 f1 where s: "backfill_code D c (if c = USDT then Cmc else Cbr) (q c) (t, n, f) = (t1, n1, f1)"
    by (metis prod_cases3)
  then have "backfill_fold D q codes (t1, n1, f1) = (t', n', f')" using Cons.prems by (simp add: backfill_fold_def)
  from Cons.IH [OF this] backfill_code_extends [OF s] extends_trans show ?case by (metis add.assoc)
qed

lemma backfill_fold_again:
  "backfill_fold D q codes (t, n, f) = (t', n', f') \<Longrightarrow> daily_key ` set t' \<subseteq> daily_key ` set u \<Longrightarrow>
   backfill_fold D q codes (u, m, g) = (u, m, g @ drop (length f) f') \<and> take (length f) f' = f"
proof (induction codes arbitrary: t n f g)
  case (Cons c codes)
  obtain t1 n1 f1 where s: "backfill_code D c (if c = USDT then Cmc else Cbr) (q c) (t, n, f) = (t1, n1, f1)"
    by (metis prod_cases3)
  then have r: "backfill_fold D q codes (t1, n1, f1) = (t', n', f')" using Cons.prems by (simp add: backfill_fold_def)
  have "daily_key ` set t1 \<subseteq> daily_key ` set t'" using backfill_fold_extends [OF r] extends_keys by blast
  then have k: "daily_key ` set t1 \<subseteq> daily_key ` set u" using Cons.prems(2) by blast
  note a = backfill_code_again [OF s k, of m g]
  note b = Cons.IH [OF r Cons.prems(2), of "g @ drop (length f) f1"]
  have "f1 = f @ drop (length f) f1" "f' = f1 @ drop (length f1) f'"
    using a b by (metis append_take_drop_id)+
  then obtain x y where "f1 = f @ x" "f' = f @ x @ y" by (metis append.assoc)
  then have "drop (length f) f1 @ drop (length f1) f' = drop (length f) f'" "take (length f) f' = f" by simp_all
  then show ?case using a b by (simp add: backfill_fold_def)
qed (auto simp: backfill_fold_def)

definition history_quotes :: "decimal_lib \<Rightarrow> (ccy \<Rightarrow> cbr_body option) \<Rightarrow> (int \<Rightarrow> cmc_page option) \<Rightarrow> ms
  \<Rightarrow> ccy \<Rightarrow> daily_quote list option" where
  "history_quotes D cbr cmc now code =
     (if code = USDT then cmc_fetch_usdt_range cmc (the (parse_day ''2024-01-01'')) now
      else cbr_fetch_range D code (cbr code))"

lemma foldl_filter_skip: "foldl (\<lambda>st c. if P c then st else g st c) st cs = foldl g st (filter (\<lambda>c. \<not> P c) cs)"
  by (induction cs arbitrary: st) auto

lemma backfill_history_fold:
  "backfill_history D src cbr cmc now t =
     backfill_fold D (history_quotes D cbr cmc now) (expected_history_codes src) (t, 0, [])"
proof -
  have codes: "filter (\<lambda>c. c \<in> set (expected_history_codes src)) CBR_CURRENCIES @ [USDT] = expected_history_codes src"
  proof (cases "src = Cbr")
    case True
    have "filter (\<lambda>c. c \<in> set (expected_history_codes Cbr)) CBR_CURRENCIES @ [USDT] = expected_history_codes Cbr"
      by code_simp
    then show ?thesis using True by simp
  next
    case False
    moreover have "filter (\<lambda>c. c \<in> set [USDT]) CBR_CURRENCIES = []" by code_simp
    ultimately show ?thesis by (simp add: expected_history_codes_def)
  qed
  have nu: "USDT \<notin> set CBR_CURRENCIES" by code_simp
  have "foldl (\<lambda>st code. backfill_code D code (if code = USDT then Cmc else Cbr) (history_quotes D cbr cmc now code) st)
      st cs = foldl (\<lambda>st code. backfill_code D code Cbr (cbr_fetch_range D code (cbr code)) st) st cs"
    if "set cs \<subseteq> set CBR_CURRENCIES" for cs st
    using that nu by (induction cs arbitrary: st) (auto simp: history_quotes_def)
  from this [of "filter (\<lambda>c. c \<in> set (expected_history_codes src)) CBR_CURRENCIES"]
  show ?thesis
    unfolding backfill_history_def Let_def foldl_filter_skip
    by (subst (2) codes [symmetric]) (simp add: backfill_fold_def history_quotes_def)
qed

text \<open>A backfill only appends to the archive, reports exactly the number of rows it added, keeps the key (code, base,
  date) unique, and running it again with the same feed answers adds no row, changes nothing and reports the same failed
  currencies.\<close>

theorem backfill_idempotent:
  assumes "backfill_history D src cbr cmc now t = (t', n, failed)"
  shows "take (length t) t' = t \<and> length t' = length t + n \<and>
    (distinct (map daily_key t) \<longrightarrow> distinct (map daily_key t')) \<and>
    backfill_history D src cbr cmc now t' = (t', 0, failed)"
  using backfill_fold_extends [OF assms [unfolded backfill_history_fold]]
    backfill_fold_again [OF assms [unfolded backfill_history_fold], of t' 0 "[]"]
  by (auto simp: backfill_history_fold extends_def archive_ok_def)

lemma backfill_idempotent_witness:
  "\<exists>t' n failed. backfill_history dec20 Manual (\<lambda>_. None)
      (\<lambda>_. Some \<lparr> cp_quotes = [\<lparr> cq_time_open = ''2024-01-01T00'', cq_volume = Some 5, cq_close = Some 90 \<rparr>], cp_time_end = None \<rparr>)
      1704067200000 [] = (t', n, failed) \<and> n = 1 \<and> failed = [] \<and>
    backfill_history dec20 Manual (\<lambda>_. None)
      (\<lambda>_. Some \<lparr> cp_quotes = [\<lparr> cq_time_open = ''2024-01-01T00'', cq_volume = Some 5, cq_close = Some 90 \<rparr>], cp_time_end = None \<rparr>)
      1704067200000 t' = (t', 0, [])"
proof -
  let ?cmc = "\<lambda>_. Some \<lparr> cp_quotes = [\<lparr> cq_time_open = ''2024-01-01T00'', cq_volume = Some 5, cq_close = Some (90::rat) \<rparr>], cp_time_end = None \<rparr>"
  obtain t' n f where b: "backfill_history dec20 Manual (\<lambda>_. None) ?cmc 1704067200000 [] = (t', n, f)"
    by (metis prod_cases3)
  have "snd (backfill_history dec20 Manual (\<lambda>_. None) ?cmc 1704067200000 []) = (1, [])" by code_simp
  then show ?thesis using backfill_idempotent [OF b] b by auto
qed

section \<open>Days as keys\<close>

text \<open>For four digit years the UTC day strings that key the archive order and separate calendar days exactly, and
  reading such a string back gives the start of its day, never an invalid date.\<close>

theorem utc_day_key:
  assumes "printable_day (t div MS_PER_DAY)" "printable_day (u div MS_PER_DAY)"
  shows "(utc_day t \<le> utc_day u) = (t div MS_PER_DAY \<le> u div MS_PER_DAY) \<and>
    (utc_day t = utc_day u) = (t div MS_PER_DAY = u div MS_PER_DAY) \<and>
    parse_day (utc_day t) = Some (t div MS_PER_DAY * MS_PER_DAY)"
  using iso_day_le_iff [OF assms] iso_day_eq_iff [OF assms] parse_day_iso_day [OF assms(1)]
  by (simp add: utc_day_def)

lemma utc_day_key_witness: "parse_day (utc_day 1704067200123) = Some 1704067200000"
proof -
  have "printable_day (1704067200123 div MS_PER_DAY)" by code_simp
  from utc_day_key [OF this this] show ?thesis by (simp add: MS_PER_DAY_def)
qed

end
