(* ===== verification/Analytics.thy ===== *)
theory Analytics
  imports Money Spend Rates Schema
begin

text \<open>
  The reports of apps/backend/src/analytics/analytics.service.ts: the summary with its breakdowns,
  the upcoming, missed and runway lists and the top-up suggestions, the statistics of a project, the
  forecast chart, and the spend of an account.  The base currency, the rates and the archive are
  what the currency service hands over.  Instants that the reply prints as ISO text stay numbers.
\<close>

section \<open>Environment\<close>

record report_env =
  re_decimal :: decimal_lib
  re_calendar :: dayjs_lib
  re_now :: ms
  re_base :: ccy
  re_rates :: rate_map
  re_history :: historical_rates

definition to_base :: "report_env \<Rightarrow> rat \<Rightarrow> ccy \<Rightarrow> rat" where
  "to_base E amount cur = convert (re_decimal E) amount cur (re_base E) (re_rates E)"

section \<open>Shared columns\<close>

definition meta_string :: "json_obj \<Rightarrow> string \<Rightarrow> string option" where
  "meta_string m key = trimmed_string (mget m key)"

record badge_fields =
  bf_type :: string
  bf_country :: "string option"
  bf_marker :: "string option"
  bf_marker_bg :: "string option"
  bf_vendor :: "string option"

definition service_badge_fields :: "service \<Rightarrow> badge_fields" where
  "service_badge_fields s = \<lparr> bf_type = sv_type s, bf_country = sv_country s,
     bf_marker = meta_string (sv_meta s) ''marker'', bf_marker_bg = meta_string (sv_meta s) ''markerBg'',
     bf_vendor = (case meta_string (sv_meta s) ''vendor'' of Some v \<Rightarrow> Some v | None \<Rightarrow> meta_string (sv_meta s) ''model'') \<rparr>"

record owner_fields =
  of_provider :: uuid
  of_provider_name :: string
  of_account :: uuid
  of_label :: "string option"
  of_kind :: string
  of_login_url :: "string option"
  of_favicon :: "string option"
  of_icon_name :: "string option"
  of_icon_bg :: "string option"

text \<open>The provider joined to an account by the listing.\<close>

definition owner_columns :: "db \<Rightarrow> uuid \<Rightarrow> uuid \<Rightarrow> owner_fields" where
  "owner_columns d acc pv =
     (let a = find_account d acc;
          p = (case a of None \<Rightarrow> None | Some a \<Rightarrow> find_provider d (ac_provider a));
          per_provider = (\<lambda>u. length (filter (\<lambda>b. ac_provider b = u) (accounts d)))
      in \<lparr> of_provider = pv, of_provider_name = (case p of None \<Rightarrow> [] | Some p \<Rightarrow> pv_name p),
           of_account = acc,
           of_label = (case a of None \<Rightarrow> None
             | Some a \<Rightarrow> if 1 < per_provider (ac_provider a) then Some (coalesce (ac_label a) []) else None),
           of_kind = (case p of None \<Rightarrow> ''manual'' | Some p \<Rightarrow> pv_kind p),
           of_login_url = Option.bind p pv_login_url, of_favicon = Option.bind p pv_favicon,
           of_icon_name = Option.bind p pv_icon_name, of_icon_bg = Option.bind p pv_icon_bg \<rparr>)"

definition balances_of :: "decimal_lib \<Rightarrow> account list \<Rightarrow> (ccy \<times> string) list" where
  "balances_of D as = map (\<lambda>(c, x). (c, cent_text D x))
     (foldl (\<lambda>m a. case (ac_balance a, ac_balance_ccy a) of
              (Some b, Some c) \<Rightarrow> if c = [] then m else mbump c 0 (\<lambda>x. dadd D x b) m
            | _ \<Rightarrow> m) [] as)"

section \<open>Monthly totals\<close>

type_synonym agg = "rat \<times> nat"

definition bump :: "decimal_lib \<Rightarrow> (string \<times> agg) list \<Rightarrow> string \<Rightarrow> rat \<Rightarrow> (string \<times> agg) list" where
  "bump D m key amount = mbump key (0, 0) (\<lambda>(x, n). (dadd D x amount, n + 1)) m"

definition monthly_base :: "report_env \<Rightarrow> service \<Rightarrow> rat" where
  "monthly_base E s = to_base E (monthly_cost (re_decimal E) (sv_cost s) (sv_period s)) (sv_currency s)"

record totals =
  to_monthly :: rat
  to_provider :: "(string \<times> agg) list"
  to_project :: "(string \<times> agg) list"
  to_country :: "(string \<times> agg) list"
  to_type :: "(string \<times> agg) list"
  to_currency :: "(ccy \<times> rat \<times> rat \<times> nat) list"

definition no_totals :: totals where
  "no_totals = \<lparr> to_monthly = 0, to_provider = [], to_project = [], to_country = [], to_type = [], to_currency = [] \<rparr>"

definition add_service :: "report_env \<Rightarrow> totals \<Rightarrow> service \<Rightarrow> totals" where
  "add_service E t s =
     (let D = re_decimal E; orig = monthly_cost D (sv_cost s) (sv_period s); x = monthly_base E s
      in \<lparr> to_monthly = dadd D (to_monthly t) x,
           to_provider = bump D (to_provider t) (sv_provider s) x,
           to_project = bump D (to_project t) (sv_project s) x,
           to_country = bump D (to_country t) (coalesce (sv_country s) ''XX'') x,
           to_type = bump D (to_type t) (sv_type s) x,
           to_currency = mbump (sv_currency s) (0, 0, 0)
             (\<lambda>(o1, b, n). (dadd D o1 orig, dadd D b x, n + 1)) (to_currency t) \<rparr>)"

section \<open>Payments\<close>

definition counts_as_spend :: "uuid set \<Rightarrow> payment \<Rightarrow> bool" where
  "counts_as_spend with_topups p = (\<not> (pm_type p = Charge \<and> pm_account p \<in> with_topups))"

record paid =
  pa_history :: historical_rates
  pa_total :: rat
  pa_by_provider :: "(uuid \<times> rat) list"
  pa_month :: rat

definition add_payment :: "report_env \<Rightarrow> uuid set \<Rightarrow> paid \<Rightarrow> payment \<Rightarrow> paid" where
  "add_payment E with_topups t p =
     (if \<not> counts_as_spend with_topups p then t
      else let D = re_decimal E; K = re_calendar E; now = re_now E;
               (rates, h) = rates_on (pa_history t) (pm_date p);
               x = convert D (pm_amount p) (pm_currency p) (re_base E) rates
           in \<lparr> pa_history = h, pa_total = dadd D (pa_total t) x,
                pa_by_provider = mbump (pm_provider p) 0 (\<lambda>y. dadd D y x) (pa_by_provider t),
                pa_month = (if \<not> pm_date p < start_of_month K now \<and> \<not> end_of_month K now < pm_date p
                            then dadd D (pa_month t) x else pa_month t) \<rparr>)"

definition paid_totals :: "report_env \<Rightarrow> payment list \<Rightarrow> paid" where
  "paid_totals E ps = foldl (add_payment E (accounts_with_topups ps))
     \<lparr> pa_history = re_history E, pa_total = 0, pa_by_provider = [], pa_month = 0 \<rparr> ps"

section \<open>Upcoming charges\<close>

definition is_dated :: "service \<Rightarrow> bool" where
  "is_dated s = (sv_next s \<noteq> None \<and> \<not> is_metered_period (sv_period s))"

definition is_upcoming :: "report_env \<Rightarrow> service \<Rightarrow> bool" where
  "is_upcoming E s =
     (is_dated s \<and> overdue_days (re_calendar E) (sv_next s) (re_now E) = None \<and>
      the (sv_next s) < add_day (re_calendar E) (re_now E) 14)"

definition upcoming_sorted :: "report_env \<Rightarrow> service list \<Rightarrow> service list" where
  "upcoming_sorted E ss = sort_key (\<lambda>s. the (sv_next s)) (filter (is_upcoming E) ss)"

definition cost_base :: "report_env \<Rightarrow> service \<Rightarrow> rat" where
  "cost_base E s = to_base E (sv_cost s) (sv_currency s)"

definition has_prepaid :: "account \<Rightarrow> bool" where
  "has_prepaid a = (ac_balance a \<noteq> None \<and> truthy (ac_balance_ccy a) \<and> \<not> ac_postpaid a)"

type_synonym running = "(uuid \<times> rat option) list"

definition get_or_null :: "running \<Rightarrow> uuid \<Rightarrow> rat option" where
  "get_or_null m u = (case mget m u of None \<Rightarrow> None | Some v \<Rightarrow> v)"

definition running_base :: "report_env \<Rightarrow> account list \<Rightarrow> running" where
  "running_base E as = foldl (\<lambda>m a. mset_to (ac_uuid a)
     (if has_prepaid a then Some (to_base E (the (ac_balance a)) (the (ac_balance_ccy a))) else None) m) [] as"

definition running_native :: "account list \<Rightarrow> running" where
  "running_native as = foldl (\<lambda>m a. mset_to (ac_uuid a) (if has_prepaid a then ac_balance a else None) m) [] as"

record upcoming_billing =
  ub_service :: uuid
  ub_name :: string
  ub_owner :: owner_fields
  ub_badge :: badge_fields
  ub_next :: ms
  ub_cost :: string
  ub_currency :: ccy
  ub_cost_base :: string
  ub_days_until :: int
  ub_balance :: "string option"
  ub_balance_ccy :: "ccy option"
  ub_covered :: "bool option"
  ub_severity :: severity

definition days_until :: "report_env \<Rightarrow> ms \<Rightarrow> int" where
  "days_until E due = max 0 (diff_day (re_calendar E) (start_of_day (re_calendar E) due)
     (start_of_day (re_calendar E) (re_now E)))"

text \<open>One turn of the map over the upcoming services; both running maps are state.\<close>

definition bill_step :: "report_env \<Rightarrow> db \<Rightarrow> running \<times> running \<times> upcoming_billing list \<Rightarrow> service
  \<Rightarrow> running \<times> running \<times> upcoming_billing list" where
  "bill_step E d st s =
     (let (run, nat_run, out) = st; D = re_decimal E;
          account = find_account d (sv_account s);
          cb = cost_base E s;
          bal = get_or_null run (sv_account s);
          covered = (case bal of None \<Rightarrow> None | Some b \<Rightarrow> Some (cb \<le> b));
          run' = (case bal of None \<Rightarrow> run | Some b \<Rightarrow> mset_to (sv_account s) (Some (dsub D b cb)) run);
          nat' = (case (bal, get_or_null nat_run (sv_account s), Option.bind account ac_balance_ccy) of
                    (Some _, Some n, Some c) \<Rightarrow>
                      if c = [] then nat_run
                      else mset_to (sv_account s) (Some (dsub D n (convert D (sv_cost s) (sv_currency s) c (re_rates E)))) nat_run
                  | _ \<Rightarrow> nat_run);
          du = days_until E (the (sv_next s))
      in (run', nat', out @ [\<lparr> ub_service = sv_uuid s, ub_name = sv_name s,
            ub_owner = owner_columns d (sv_account s) (sv_provider s), ub_badge = service_badge_fields s,
            ub_next = the (sv_next s), ub_cost = cent_text D (sv_cost s), ub_currency = sv_currency s,
            ub_cost_base = cent_text D cb, ub_days_until = du,
            ub_balance = map_option (cent_text D) (Option.bind account ac_balance),
            ub_balance_ccy = Option.bind account ac_balance_ccy, ub_covered = covered,
            ub_severity = charge_severity covered du (case account of None \<Rightarrow> False | Some a \<Rightarrow> ac_postpaid a) \<rparr>]))"

definition bill_all :: "report_env \<Rightarrow> db \<Rightarrow> service list \<Rightarrow> running \<times> running \<times> upcoming_billing list" where
  "bill_all E d ss = foldl (bill_step E d) (running_base E (accounts d), running_native (accounts d), []) (upcoming_sorted E ss)"

section \<open>Top-ups\<close>

record balance_top_up =
  tu_owner :: owner_fields
  tu_amount :: string
  tu_currency :: ccy

definition top_up_of :: "report_env \<Rightarrow> db \<Rightarrow> running \<Rightarrow> upcoming_billing list \<Rightarrow> account \<Rightarrow> balance_top_up option" where
  "top_up_of E d nat_run ups a =
     (if ac_uuid a \<notin> (\<lambda>b. of_account (ub_owner b)) ` set (filter (\<lambda>b. ub_severity b = Critical) ups) \<or>
         \<not> truthy (ac_balance_ccy a) then None
      else case get_or_null nat_run (ac_uuid a) of
        None \<Rightarrow> None
      | Some n \<Rightarrow> if 0 \<le> n then None
          else Some \<lparr> tu_owner = owner_columns d (ac_uuid a) (ac_provider a),
                      tu_amount = cent_text (re_decimal E) \<bar>n\<bar>, tu_currency = the (ac_balance_ccy a) \<rparr>)"

definition balance_top_ups :: "report_env \<Rightarrow> db \<Rightarrow> running \<Rightarrow> upcoming_billing list \<Rightarrow> balance_top_up list" where
  "balance_top_ups E d nat_run ups =
     sort_key (\<lambda>t. - text_value (re_decimal E) (tu_amount t)) (List.map_filter (top_up_of E d nat_run ups) (accounts d))"

section \<open>Missed charges\<close>

record overdue_billing =
  ob_service :: uuid
  ob_name :: string
  ob_owner :: owner_fields
  ob_badge :: badge_fields
  ob_next :: ms
  ob_cost :: string
  ob_currency :: ccy
  ob_cost_base :: string
  ob_days :: int

definition overdue_of :: "report_env \<Rightarrow> db \<Rightarrow> service \<Rightarrow> overdue_billing option" where
  "overdue_of E d s =
     (if is_metered_period (sv_period s) then None
      else case overdue_days (re_calendar E) (sv_next s) (re_now E) of
        None \<Rightarrow> None
      | Some n \<Rightarrow> Some \<lparr> ob_service = sv_uuid s, ob_name = sv_name s,
          ob_owner = owner_columns d (sv_account s) (sv_provider s), ob_badge = service_badge_fields s,
          ob_next = the (sv_next s), ob_cost = cent_text (re_decimal E) (sv_cost s), ob_currency = sv_currency s,
          ob_cost_base = cent_text (re_decimal E) (cost_base E s), ob_days = n \<rparr>)"

definition overdue_billings :: "report_env \<Rightarrow> db \<Rightarrow> service list \<Rightarrow> overdue_billing list" where
  "overdue_billings E d ss = sort_key (\<lambda>b. - ob_days b) (List.map_filter (overdue_of E d) ss)"

section \<open>Runway\<close>

datatype burn_basis = By_snapshots | By_services

record balance_runway =
  br_owner :: owner_fields
  br_balance :: string
  br_currency :: ccy
  br_burn :: string
  br_days_left :: int
  br_depletion :: ms
  br_basis :: burn_basis
  br_severity :: severity

definition dated_accounts :: "service list \<Rightarrow> uuid set" where
  "dated_accounts ss = sv_account ` set (filter is_dated ss)"

definition runway_burn :: "report_env \<Rightarrow> service list \<Rightarrow> snapshot list \<Rightarrow> account \<Rightarrow> ccy \<Rightarrow> (rat \<times> burn_basis) option" where
  "runway_burn E ss snaps a cur =
     (let D = re_decimal E;
          points = map (\<lambda>s. \<lparr> sp_balance = sn_balance s, sp_at = sn_at s \<rparr>)
            (filter (\<lambda>s. sn_account s = ac_uuid a \<and> sn_currency s = cur) snaps)
      in case burn_from_snapshots D points 1 of
           Some b \<Rightarrow> Some (b, By_snapshots)
         | None \<Rightarrow> map_option (\<lambda>b. (b, By_services)) (burn_from_monthly_cost D
             (foldl (\<lambda>m s. dadd D m (convert D (monthly_cost D (sv_cost s) (sv_period s)) (sv_currency s) cur (re_rates E)))
               0 (filter (\<lambda>s. sv_account s = ac_uuid a) ss))))"

definition runway_severity :: "int \<Rightarrow> severity" where
  "runway_severity days = (if days \<le> 3 then Critical else if days \<le> 7 then Warning else Ok)"

definition runway_of :: "report_env \<Rightarrow> db \<Rightarrow> service list \<Rightarrow> snapshot list \<Rightarrow> account \<Rightarrow> balance_runway option" where
  "runway_of E d ss snaps a =
     (case (ac_balance a, ac_balance_ccy a) of
        (Some balance, Some cur) \<Rightarrow>
          if cur = [] \<or> ac_postpaid a \<or> ac_uuid a \<in> dated_accounts ss then None
          else (case runway_burn E ss snaps a cur of
             None \<Rightarrow> None
           | Some (burn, basis) \<Rightarrow>
               let left = days_of_runway (re_decimal E) balance burn; sev = runway_severity left
               in if sev = Ok then None
                  else Some \<lparr> br_owner = owner_columns d (ac_uuid a) (ac_provider a),
                    br_balance = cent_text (re_decimal E) balance, br_currency = cur,
                    br_burn = cent_text (re_decimal E) burn, br_days_left = left,
                    br_depletion = add_day (re_calendar E) (re_now E) left, br_basis = basis, br_severity = sev \<rparr>)
      | _ \<Rightarrow> None)"

definition balance_runways :: "report_env \<Rightarrow> db \<Rightarrow> service list \<Rightarrow> balance_runway list" where
  "balance_runways E d ss =
     (let snaps = snapshots_since d (add_day (re_calendar E) (re_now E) (- 30))
      in sort_key br_days_left (List.map_filter (runway_of E d ss snaps) (accounts d)))"

section \<open>The summary\<close>

record stat_row =
  rw_key :: string
  rw_name :: string
  rw_monthly :: string
  rw_count :: nat

record provider_row =
  pr_provider :: uuid
  pr_name :: string
  pr_monthly :: string
  pr_spent :: string
  pr_balances :: "(ccy \<times> string) list"
  pr_count :: nat

record currency_row =
  cr_currency :: ccy
  cr_original :: string
  cr_base :: string
  cr_count :: nat

record analytics_summary =
  su_base :: ccy
  su_monthly :: string
  su_yearly :: string
  su_month_payments :: string
  su_spent :: string
  su_by_provider :: "provider_row list"
  su_by_project :: "stat_row list"
  su_by_country :: "stat_row list"
  su_by_type :: "stat_row list"
  su_by_currency :: "currency_row list"
  su_upcoming :: "upcoming_billing list"
  su_overdue :: "overdue_billing list"
  su_runway :: "balance_runway list"
  su_top_ups :: "balance_top_up list"

text \<open>A row of a breakdown: the joined name is empty where the reply has none.\<close>

definition stat_of :: "decimal_lib \<Rightarrow> (string \<times> agg) list \<Rightarrow> string \<Rightarrow> string \<Rightarrow> stat_row" where
  "stat_of D m key name = (let (x, n) = coalesce (mget m key) (0, 0) in
     \<lparr> rw_key = key, rw_name = name, rw_monthly = cent_text D x, rw_count = n \<rparr>)"

definition stat_rows :: "decimal_lib \<Rightarrow> (string \<times> agg) list \<Rightarrow> stat_row list" where
  "stat_rows D m = map (\<lambda>(k, x, n). \<lparr> rw_key = k, rw_name = [], rw_monthly = cent_text D x, rw_count = n \<rparr>) m"

definition provider_stat :: "report_env \<Rightarrow> db \<Rightarrow> totals \<Rightarrow> paid \<Rightarrow> provider \<Rightarrow> provider_row" where
  "provider_stat E d t pd p =
     (let D = re_decimal E; (x, n) = coalesce (mget (to_provider t) (pv_uuid p)) (0, 0)
      in \<lparr> pr_provider = pv_uuid p, pr_name = pv_name p, pr_monthly = cent_text D x,
           pr_spent = cent_text D (coalesce (mget (pa_by_provider pd) (pv_uuid p)) 0),
           pr_balances = balances_of D (accounts_of d (pv_uuid p)), pr_count = n \<rparr>)"

definition summary :: "report_env \<Rightarrow> db \<Rightarrow> analytics_summary" where
  "summary E d =
     (let D = re_decimal E; ss = list_active d;
          t = foldl (add_service E) no_totals ss;
          pd = paid_totals E (payments d);
          (run, nat_run, ups) = bill_all E d ss
      in \<lparr> su_base = re_base E, su_monthly = cent_text D (to_monthly t),
           su_yearly = cent_text D (dmul D (to_monthly t) 12),
           su_month_payments = cent_text D (pa_month pd), su_spent = cent_text D (pa_total pd),
           su_by_provider = map (provider_stat E d t pd) (providers d),
           su_by_project = map (\<lambda>p. stat_of D (to_project t) (pj_uuid p) (pj_name p)) (projects d),
           su_by_country = stat_rows D (to_country t), su_by_type = stat_rows D (to_type t),
           su_by_currency = map (\<lambda>(c, o1, b, n). \<lparr> cr_currency = c, cr_original = cent_text D o1,
               cr_base = cent_text D b, cr_count = n \<rparr>) (to_currency t),
           su_upcoming = ups, su_overdue = overdue_billings E d ss, su_runway = balance_runways E d ss,
           su_top_ups = balance_top_ups E d nat_run ups \<rparr>)"

section \<open>One project\<close>

record project_stats_reply =
  ps_project :: uuid
  ps_name :: string
  ps_base :: ccy
  ps_monthly :: string
  ps_yearly :: string
  ps_count :: nat
  ps_by_type :: "stat_row list"
  ps_by_country :: "stat_row list"
  ps_by_provider :: "stat_row list"

record project_totals =
  pt_monthly :: rat
  pt_provider :: "(string \<times> agg) list"
  pt_country :: "(string \<times> agg) list"
  pt_type :: "(string \<times> agg) list"

definition add_project_service :: "report_env \<Rightarrow> project_totals \<Rightarrow> service \<Rightarrow> project_totals" where
  "add_project_service E t s =
     (let D = re_decimal E; x = monthly_base E s
      in \<lparr> pt_monthly = dadd D (pt_monthly t) x, pt_provider = bump D (pt_provider t) (sv_provider s) x,
           pt_country = bump D (pt_country t) (coalesce (sv_country s) ''XX'') x,
           pt_type = bump D (pt_type t) (sv_type s) x \<rparr>)"

definition project_stats :: "report_env \<Rightarrow> uuid \<Rightarrow> db \<Rightarrow> http_error + project_stats_reply" where
  "project_stats E u d =
     (case row_find pj_uuid u (projects d) of
        None \<Rightarrow> Inl (Not_found ''Project not found'')
      | Some p \<Rightarrow>
          let D = re_decimal E; ss = list_active_by_project d u;
              t = foldl (add_project_service E)
                    \<lparr> pt_monthly = 0, pt_provider = [], pt_country = [], pt_type = [] \<rparr> ss
          in Inr \<lparr> ps_project = pj_uuid p, ps_name = pj_name p, ps_base = re_base E,
               ps_monthly = cent_text D (pt_monthly t), ps_yearly = cent_text D (dmul D (pt_monthly t) 12),
               ps_count = length ss, ps_by_type = stat_rows D (pt_type t), ps_by_country = stat_rows D (pt_country t),
               ps_by_provider = map (\<lambda>(k, x, n). \<lparr> rw_key = k,
                   rw_name = (case find_provider d k of None \<Rightarrow> [] | Some v \<Rightarrow> pv_name v),
                   rw_monthly = cent_text D x, rw_count = n \<rparr>) (pt_provider t) \<rparr>)"

section \<open>Balance history and spend of an account\<close>

definition balance_history :: "decimal_lib \<Rightarrow> db \<Rightarrow> uuid \<Rightarrow> ms option \<Rightarrow> ms option \<Rightarrow> (string \<times> ccy \<times> ms) list" where
  "balance_history D d u from_t to_t =
     map (\<lambda>r. (cent_text D (sn_balance r), sn_currency r, sn_at r)) (snapshots_of d u from_t to_t)"

definition SPEND_DAYS :: nat where "SPEND_DAYS = 30"

definition spend_input :: "db \<Rightarrow> account \<Rightarrow> ms \<Rightarrow> account_spend_input" where
  "spend_input d a now =
     (let (start, e) = spend_window now SPEND_DAYS; u = ac_uuid a;
          snaps = snapshots_of d u (Some start) None
      in \<lparr> in_charges = map (\<lambda>p. \<lparr> sc_amount = pm_amount p, sc_currency = pm_currency p, sc_at = pm_date p \<rparr>)
               (charges_for_account d u start e),
           in_first_charge_at = first_charge_at d u,
           in_snapshots = map (\<lambda>s. \<lparr> ss_balance = sn_balance s, ss_currency = sn_currency s, ss_at = sn_at s \<rparr>)
               (case last_snapshot_before d u start of None \<Rightarrow> snaps | Some x \<Rightarrow> x # snaps),
           in_balance_currency = ac_balance_ccy a, in_use_snapshots = (\<not> ac_postpaid a),
           in_days = SPEND_DAYS, in_now = now \<rparr>)"

record spend_day_reply =
  dy_date :: string
  dy_amount :: "string option"
  dy_estimated :: bool

record account_spend_reply =
  ar_currency :: "ccy option"
  ar_source :: "spend_source option"
  ar_approximate :: bool
  ar_covered_days :: int
  ar_days :: "spend_day_reply list"
  ar_last7d :: "string option"
  ar_last30d :: "string option"
  ar_per_day :: "string option"

definition account_spend_report :: "decimal_lib \<Rightarrow> uuid \<Rightarrow> ms \<Rightarrow> db \<Rightarrow> http_error + account_spend_reply option" where
  "account_spend_report D u now d =
     (case find_account d u of
        None \<Rightarrow> Inl (Not_found ''Account not found'')
      | Some a \<Rightarrow> Inr (map_option (\<lambda>r. \<lparr> ar_currency = as_currency r, ar_source = as_source r,
            ar_approximate = as_approximate r, ar_covered_days = as_covered_days r,
            ar_days = map (\<lambda>x. \<lparr> dy_date = sd_date x, dy_amount = map_option (cent_text D) (sd_amount x),
                                  dy_estimated = sd_estimated x \<rparr>) (as_days r),
            ar_last7d = map_option (cent_text D) (as_last7d r), ar_last30d = map_option (cent_text D) (as_last30d r),
            ar_per_day = map_option (cent_text D) (as_per_day r) \<rparr>) (account_spend D (spend_input d a now))))"

section \<open>The forecast\<close>

text \<open>A step of the billing calendar: months, days or years.\<close>

datatype step_unit = By_month | By_day | By_year

definition period_step :: "period \<Rightarrow> (int \<times> step_unit) option" where
  "period_step p = (case p of Monthly \<Rightarrow> Some (1, By_month) | Hourly \<Rightarrow> Some (1, By_month)
     | Quarterly \<Rightarrow> Some (3, By_month) | Daily \<Rightarrow> Some (1, By_day) | Yearly \<Rightarrow> Some (1, By_year)
     | Onetime \<Rightarrow> None | Other_period _ \<Rightarrow> Some (1, By_month))"

definition add_step :: "dayjs_lib \<Rightarrow> ms \<Rightarrow> int \<times> step_unit \<Rightarrow> ms" where
  "add_step K t st = (case st of (n, u) \<Rightarrow>
     (case u of By_month \<Rightarrow> add_month K t n | By_day \<Rightarrow> add_day K t n | By_year \<Rightarrow> add_year K t n))"

type_synonym buckets = "(string \<times> rat) list"

definition add_bucket :: "decimal_lib \<Rightarrow> string \<Rightarrow> rat \<Rightarrow> buckets \<Rightarrow> buckets" where
  "add_bucket D key x m = (case mget m key of None \<Rightarrow> m | Some y \<Rightarrow> mset_to key (dadd D y x) m)"

text \<open>The two loops over the billing dates; left counts down from the guard of 5000.\<close>

fun skip_to :: "dayjs_lib \<Rightarrow> int \<times> step_unit \<Rightarrow> ms \<Rightarrow> nat \<Rightarrow> ms \<Rightarrow> ms" where
  "skip_to K st start 0 t = t"
| "skip_to K st start (Suc left) t = (if t < start then skip_to K st start left (add_step K t st) else t)"

fun project_loop :: "decimal_lib \<Rightarrow> dayjs_lib \<Rightarrow> int \<times> step_unit \<Rightarrow> rat \<Rightarrow> ms \<Rightarrow> nat \<Rightarrow> ms \<Rightarrow> buckets \<Rightarrow> buckets" where
  "project_loop D K st charge stop 0 t m = m"
| "project_loop D K st charge stop (Suc left) t m =
     (if t < stop then project_loop D K st charge stop left (add_step K t st) (add_bucket D (fmt_month K t) charge m) else m)"

definition GUARD :: nat where "GUARD = 5000"

definition project_service :: "report_env \<Rightarrow> ms \<Rightarrow> ms \<Rightarrow> buckets \<Rightarrow> service \<Rightarrow> buckets" where
  "project_service E proj_start proj_end m s =
     (let D = re_decimal E; K = re_calendar E; charge = cost_base E s; t = the (sv_next s)
      in case period_step (sv_period s) of
           None \<Rightarrow> if \<not> t < proj_start then add_bucket D (fmt_month K t) charge m else m
         | Some st \<Rightarrow> project_loop D K st charge proj_end GUARD (skip_to K st proj_start GUARD t) m)"

record forecast_settings =
  fs_backfill :: bool
  fs_respect_created :: bool
  fs_backdate :: bool
  fs_force :: bool

definition tariff_start :: "dayjs_lib \<Rightarrow> bool \<Rightarrow> (uuid \<times> string) list \<Rightarrow> service \<Rightarrow> string" where
  "tariff_start K backdate earliest s =
     (let key = fmt_month K (sv_created s)
      in if backdate then (case mget earliest (sv_account s) of
             Some k \<Rightarrow> if k \<noteq> [] \<and> k < key then k else key | None \<Rightarrow> key)
         else key)"

definition tariff_for_month :: "report_env \<Rightarrow> service list \<Rightarrow> string \<Rightarrow> bool \<Rightarrow> bool \<Rightarrow> (uuid \<times> string) list \<Rightarrow> rat" where
  "tariff_for_month E ss key respect backdate earliest =
     foldl (\<lambda>x s. if respect \<and> key < tariff_start (re_calendar E) backdate earliest s then x
                  else dadd (re_decimal E) x (monthly_base E s)) 0 ss"

definition actual_step :: "report_env \<Rightarrow> uuid set \<Rightarrow> string \<Rightarrow> historical_rates \<times> buckets \<Rightarrow> payment
  \<Rightarrow> historical_rates \<times> buckets" where
  "actual_step E with_topups current_key st p =
     (let (h, m) = st; key = fmt_month (re_calendar E) (pm_date p) in
      if \<not> counts_as_spend with_topups p then st
      else if mget m key = None \<or> current_key < key then st
      else let (rates, h') = rates_on h (pm_date p)
           in (h', add_bucket (re_decimal E) key (convert (re_decimal E) (pm_amount p) (pm_currency p) (re_base E) rates) m))"

record forecast_point =
  fp_month :: string
  fp_actual :: string
  fp_estimated :: string
  fp_projected :: string

definition month_keys :: "dayjs_lib \<Rightarrow> ms \<Rightarrow> nat \<Rightarrow> string list" where
  "month_keys K start n = map (\<lambda>i. fmt_month K (add_month K start (int i))) [0..<n]"

definition zero_buckets :: "string list \<Rightarrow> buckets" where
  "zero_buckets keys = foldl (\<lambda>m k. mset_to k 0 m) [] keys"

definition actual_buckets :: "report_env \<Rightarrow> db \<Rightarrow> bool \<Rightarrow> ms \<Rightarrow> string \<Rightarrow> string list \<Rightarrow> buckets" where
  "actual_buckets E d force window_start current_key keys =
     snd (foldl (actual_step E (if force then {} else accounts_with_topups (payments d)) current_key)
       (re_history E, zero_buckets keys) (if force then [] else payments_since d window_start))"

definition forecast :: "report_env \<Rightarrow> forecast_settings \<Rightarrow> nat \<Rightarrow> nat \<Rightarrow> db \<Rightarrow> forecast_point list" where
  "forecast E fs months months_back d =
     (let D = re_decimal E; K = re_calendar E;
          respect = (fs_backfill fs \<and> fs_respect_created fs); backdate = (respect \<and> fs_backdate fs);
          force = (fs_backfill fs \<and> fs_force fs);
          current = start_of_month K (re_now E); current_key = fmt_month K current;
          window_start = add_month K current (- int months_back);
          keys = month_keys K window_start (months_back + 1 + months);
          actual = actual_buckets E d force window_start current_key keys;
          earliest = (if backdate then map (\<lambda>(u, t). (u, fmt_month K t)) (earliest_payment_dates d) else []);
          tariff = (\<lambda>key. tariff_for_month E (list_active d) key respect backdate earliest);
          past = filter (\<lambda>k. \<not> current_key < k) keys;
          fill = (\<lambda>m. foldl (\<lambda>m k. mset_to k (tariff k) m) m past);
          estimated = (if fs_backfill fs then fill (zero_buckets keys) else zero_buckets keys);
          actual' = (if force then fill actual else actual);
          proj = foldl (project_service E (add_month K current 1) (add_month K current (int months + 1)))
                   (zero_buckets keys) (list_active_billed d)
      in map (\<lambda>k. \<lparr> fp_month = k, fp_actual = cent_text D (the (mget actual' k)),
              fp_estimated = cent_text D (the (mget estimated k)), fp_projected = cent_text D (the (mget proj k)) \<rparr>) keys)"

section \<open>Upcoming and missed charges\<close>

text \<open>What the fold over the upcoming services keeps of each of them.\<close>

lemma bill_step_out:
  "\<exists>row. snd (snd (bill_step E d st s)) = snd (snd st) @ [row] \<and> ub_service row = sv_uuid s \<and>
     of_account (ub_owner row) = sv_account s \<and>
     ub_covered row = (case get_or_null (fst st) (sv_account s) of None \<Rightarrow> None | Some b \<Rightarrow> Some (cost_base E s \<le> b))"
  by (simp add: bill_step_def case_prod_beta Let_def owner_columns_def)

lemma bill_fold_services:
  "map ub_service (snd (snd (foldl (bill_step E d) st ss))) = map ub_service (snd (snd st)) @ map sv_uuid ss"
proof (induction ss arbitrary: st)
  case (Cons s ss)
  show ?case using Cons.IH [of "bill_step E d st s"] bill_step_out [of E d st s] by auto
qed simp

lemma su_upcoming_services: "map ub_service (su_upcoming (summary E d)) = map sv_uuid (upcoming_sorted E (list_active d))"
  by (simp add: summary_def bill_all_def case_prod_beta Let_def bill_fold_services)

lemma set_map_filter: "set (List.map_filter f xs) = {y. \<exists>x\<in>set xs. f x = Some y}"
  by (force simp: List.map_filter_def image_iff)

lemma su_overdue_services:
  "ob_service ` set (su_overdue (summary E d)) = sv_uuid ` {s \<in> set (list_active d). overdue_of E d s \<noteq> None}"
proof -
  have "ob_service y = sv_uuid s" if "overdue_of E d s = Some y" for s y
    using that by (auto simp: overdue_of_def split: if_splits option.splits)
  note key = this
  have "set (su_overdue (summary E d)) = {y. \<exists>s\<in>set (list_active d). overdue_of E d s = Some y}"
    by (simp add: summary_def overdue_billings_def case_prod_beta Let_def set_map_filter)
  then show ?thesis using key by (auto simp: image_iff) metis+
qed

lemma active_distinct: "db_ok d \<Longrightarrow> s \<in> set (list_active d) \<Longrightarrow> t \<in> set (list_active d) \<Longrightarrow> sv_uuid s = sv_uuid t \<Longrightarrow> s = t"
  by (auto simp: db_ok_def services_ok_def list_active_def distinct_map inj_on_def)

text \<open>C25. Of an active service with a billing date and no metered period exactly one holds: it is listed as upcoming, it is
  listed as missed, or its charge lies fourteen days or more ahead; a service without a date or with a metered period
  is in neither list.\<close>

theorem upcoming_overdue_partition:
  assumes "db_ok d" "dayjs_utc (re_calendar E)" "s \<in> set (list_active d)"
  shows "let up = (sv_uuid s \<in> ub_service ` set (su_upcoming (summary E d)));
             ov = (sv_uuid s \<in> ob_service ` set (su_overdue (summary E d)));
             far = (is_dated s \<and> re_now E + 14 * MS_PER_DAY \<le> the (sv_next s))
         in if is_dated s then up = (\<not> ov \<and> \<not> far) \<and> \<not> (ov \<and> far) else \<not> up \<and> \<not> ov"
proof -
  note ad = dayjs_utc.add_day [OF assms(2)] and od = dayjs_utc.overdue_days_calendar [OF assms(2)]
  have "ub_service ` set (su_upcoming (summary E d)) = sv_uuid ` set (upcoming_sorted E (list_active d))"
    using su_upcoming_services by (metis list.set_map)
  then have up: "(sv_uuid s \<in> ub_service ` set (su_upcoming (summary E d))) = is_upcoming E s"
    using active_distinct [OF assms(1,3)] assms(3) by (auto simp: upcoming_sorted_def)
  have ov: "(sv_uuid s \<in> ob_service ` set (su_overdue (summary E d))) = (overdue_of E d s \<noteq> None)"
    unfolding su_overdue_services using active_distinct [OF assms(1,3)] assms(3) by auto
  show ?thesis
  proof (cases "is_dated s")
    case True
    then obtain t where t: "sv_next s = Some t" "\<not> is_metered_period (sv_period s)" by (auto simp: is_dated_def)
    have "overdue_of E d s \<noteq> None \<Longrightarrow> t < re_now E + 14 * MS_PER_DAY"
    proof -
      assume "overdue_of E d s \<noteq> None"
      then have "t div MS_PER_DAY < re_now E div MS_PER_DAY" using t by (auto simp: overdue_of_def od split: if_splits)
      moreover have "re_now E \<le> t \<Longrightarrow> re_now E div MS_PER_DAY \<le> t div MS_PER_DAY" by (rule zdiv_mono1) simp_all
      ultimately have "t < re_now E" by linarith
      then show ?thesis by (simp add: MS_PER_DAY_def)
    qed
    moreover have "(overdue_of E d s = None) = (overdue_days (re_calendar E) (sv_next s) (re_now E) = None)"
      using t by (simp add: overdue_of_def split: option.split)
    ultimately show ?thesis unfolding Let_def up ov using True t(1)
      by (auto simp: is_upcoming_def ad not_less)
  next
    case False
    have "overdue_days K None n = None" for K n by (simp add: overdue_days_def)
    then show ?thesis unfolding Let_def up ov using False by (auto simp: is_upcoming_def overdue_of_def is_dated_def)
  qed
qed

section \<open>Coverage of the upcoming charges\<close>

text \<open>The charges of the list that draw on one account.\<close>

definition charges_on :: "uuid \<Rightarrow> service list \<Rightarrow> service list" where
  "charges_on acc ss = filter (\<lambda>s. sv_account s = acc) ss"

lemma get_or_null_set [simp]: "get_or_null (mset_to k v m) j = (if j = k then v else get_or_null m j)"
  by (simp add: get_or_null_def)

lemma bill_step_run:
  "get_or_null (fst (bill_step E d st s)) acc =
     (if sv_account s = acc then map_option (\<lambda>b. dsub (re_decimal E) b (cost_base E s)) (get_or_null (fst st) acc)
      else get_or_null (fst st) acc)"
  by (auto simp: bill_step_def case_prod_beta Let_def split: option.splits)

lemma bill_fold_run:
  "get_or_null (fst (foldl (bill_step E d) st ss)) acc =
     map_option (\<lambda>b. foldl (\<lambda>x s. dsub (re_decimal E) x (cost_base E s)) b (charges_on acc ss)) (get_or_null (fst st) acc)"
proof (induction ss arbitrary: st)
  case (Cons s ss)
  show ?case using Cons.IH [of "bill_step E d st s"] by (simp add: bill_step_run charges_on_def option.map_comp comp_def)
qed (simp add: charges_on_def option.map_ident)

lemma bill_fold_length: "length (snd (snd (foldl (bill_step E d) st ss))) = length (snd (snd st)) + length ss"
  using arg_cong [OF bill_fold_services [of E d st ss], of length] by simp

lemma bill_fold_prefix: "\<exists>more. snd (snd (foldl (bill_step E d) st ss)) = snd (snd st) @ more"
proof (induction ss arbitrary: st)
  case (Cons s ss)
  obtain row where "snd (snd (bill_step E d st s)) = snd (snd st) @ [row]" using bill_step_out [of E d st s] by blast
  then show ?case using Cons.IH [of "bill_step E d st s"] by auto
qed simp

lemma bill_fold_nth:
  assumes "i < length ss" "snd (snd st) = []"
  shows "ub_covered (snd (snd (foldl (bill_step E d) st ss)) ! i) =
     (case get_or_null (fst (foldl (bill_step E d) st (take i ss))) (sv_account (ss ! i)) of None \<Rightarrow> None
      | Some b \<Rightarrow> Some (cost_base E (ss ! i) \<le> b))"
proof -
  let ?st = "foldl (bill_step E d) st (take i ss)"
  have ss: "ss = take i ss @ ss ! i # drop (Suc i) ss" using assms(1) by (simp add: id_take_nth_drop)
  obtain row where row: "snd (snd (bill_step E d ?st (ss ! i))) = snd (snd ?st) @ [row]"
    "ub_covered row = (case get_or_null (fst ?st) (sv_account (ss ! i)) of None \<Rightarrow> None
      | Some b \<Rightarrow> Some (cost_base E (ss ! i) \<le> b))"
    using bill_step_out [of E d ?st "ss ! i"] by blast
  have "foldl (bill_step E d) st ss = foldl (bill_step E d) (bill_step E d ?st (ss ! i)) (drop (Suc i) ss)"
    by (subst ss) (simp only: foldl_append foldl_Cons)
  moreover obtain more where "snd (snd (foldl (bill_step E d) (bill_step E d ?st (ss ! i)) (drop (Suc i) ss))) =
      (snd (snd ?st) @ [row]) @ more"
    using bill_fold_prefix [of E d "bill_step E d ?st (ss ! i)"] row(1) by metis
  moreover have "length (snd (snd ?st)) = i" using bill_fold_length [of E d st "take i ss"] assms by simp
  ultimately show ?thesis using row(2) by (simp add: nth_append)
qed

lemma fold_set_get:
  assumes "distinct (map key xs)" "x \<in> set xs"
  shows "mget (foldl (\<lambda>m x. mset_to (key x) (v x) m) m0 xs) (key x) = Some (v x)"
proof -
  have other: "key y \<notin> key ` set zs \<Longrightarrow> mget (foldl (\<lambda>m x. mset_to (key x) (v x) m) m zs) (key y) = mget m (key y)" for zs y m
    by (induction zs arbitrary: m) auto
  show ?thesis using assms
  proof (induction xs arbitrary: m0)
    case (Cons y ys)
    then show ?case using other [of x ys "mset_to (key y) (v y) m0"] by (cases "x = y") auto
  qed simp
qed

lemma running_base_get:
  assumes "db_ok d" "find_account d acc = Some a"
  shows "get_or_null (running_base E (accounts d)) acc =
    (if has_prepaid a then Some (to_base E (the (ac_balance a)) (the (ac_balance_ccy a))) else None)"
proof -
  have a: "a \<in> set (accounts d)" "ac_uuid a = acc"
    using assms(2) account_table.find_sound [of acc "accounts d" a] by (simp_all add: find_account_def)
  have "distinct (map ac_uuid (accounts d))" using assms(1) by (simp add: db_ok_def accounts_ok_def)
  from fold_set_get [OF this a(1), of "\<lambda>a. if has_prepaid a then Some (to_base E (the (ac_balance a)) (the (ac_balance_ccy a))) else None" "[]"]
  show ?thesis by (simp add: running_base_def get_or_null_def a(2))
qed

text \<open>The upcoming charges draw on the balance of their account in date order: a charge is covered exactly when what
  the earlier ones of the same account leave of the prepaid balance reaches its cost, and its coverage is unknown exactly
  when the account has no known prepaid balance.\<close>

theorem coverage_spec:
  assumes "db_ok d" "i < length (upcoming_sorted E (list_active d))"
    "upcoming_sorted E (list_active d) ! i = s" "find_account d (sv_account s) = Some a"
  shows "ub_covered (su_upcoming (summary E d) ! i) =
     (if has_prepaid a
      then Some (cost_base E s \<le> foldl (\<lambda>x t. dsub (re_decimal E) x (cost_base E t))
        (to_base E (the (ac_balance a)) (the (ac_balance_ccy a)))
        (charges_on (sv_account s) (take i (upcoming_sorted E (list_active d)))))
      else None)"
proof -
  let ?st = "(running_base E (accounts d), running_native (accounts d), []) :: running \<times> running \<times> upcoming_billing list"
  have "su_upcoming (summary E d) = snd (snd (foldl (bill_step E d) ?st (upcoming_sorted E (list_active d))))"
    by (simp add: summary_def bill_all_def case_prod_beta Let_def)
  then show ?thesis
    using bill_fold_nth [OF assms(2), of ?st E d] bill_fold_run [of E d ?st "take i (upcoming_sorted E (list_active d))"]
      running_base_get [OF assms(1,4), of E]
    by (simp add: assms(3))
qed

section \<open>Breakdowns\<close>

definition agg_fold :: "decimal_lib \<Rightarrow> (service \<Rightarrow> string) \<Rightarrow> (service \<Rightarrow> rat) \<Rightarrow> service list \<Rightarrow> (string \<times> agg) list" where
  "agg_fold D key x ss = foldl (\<lambda>m s. bump D m (key s) (x s)) [] ss"

lemma bump_alt: "bump D m k a = mbump k (0, 0) (\<lambda>p. (dadd D (fst p) a, snd p + 1)) m"
  unfolding bump_def case_prod_unfold by (rule refl)

lemma pair_fold: "foldl (\<lambda>p s. (dadd D (fst p) (f s), snd p + (1::nat))) q ss =
    (foldl (\<lambda>x s. dadd D x (f s)) (fst q) ss, snd q + length ss)"
  by (induction ss arbitrary: q) auto

lemma agg_fold_get:
  "mget (agg_fold D key x ss) k = (let g = filter (\<lambda>s. key s = k) ss in
     if g = [] then None else Some (foldl (\<lambda>y s. dadd D y (x s)) 0 g, length g))"
  unfolding agg_fold_def bump_alt
    group_fold [where f = "\<lambda>p s. (dadd D (fst p) (x s), snd p + 1)"] pair_fold
  by (simp add: Let_def)

lemma agg_fold_keys: "distinct (map fst (agg_fold D key x ss))" "fst ` set (agg_fold D key x ss) = key ` set ss"
  unfolding agg_fold_def bump_alt
  by (rule group_fold_distinct [where f = "\<lambda>p s. (dadd D (fst p) (x s), snd p + 1)"], simp)
     (simp only: group_fold_keys [where f = "\<lambda>p s. (dadd D (fst p) (x s), snd p + 1)"] list.set image_empty Un_empty_left)

lemma totals_fold:
  "to_monthly (foldl (add_service E) t ss) = foldl (\<lambda>x s. dadd (re_decimal E) x (monthly_base E s)) (to_monthly t) ss"
  "to_provider (foldl (add_service E) t ss) = foldl (\<lambda>m s. bump (re_decimal E) m (sv_provider s) (monthly_base E s)) (to_provider t) ss"
  "to_project (foldl (add_service E) t ss) = foldl (\<lambda>m s. bump (re_decimal E) m (sv_project s) (monthly_base E s)) (to_project t) ss"
  "to_country (foldl (add_service E) t ss) =
     foldl (\<lambda>m s. bump (re_decimal E) m (coalesce (sv_country s) ''XX'') (monthly_base E s)) (to_country t) ss"
  "to_type (foldl (add_service E) t ss) = foldl (\<lambda>m s. bump (re_decimal E) m (sv_type s) (monthly_base E s)) (to_type t) ss"
  by (induction ss arbitrary: t) (simp_all add: add_service_def Let_def)

lemma project_monthly_fold:
  "pt_monthly (foldl (add_project_service E) t ss) = foldl (\<lambda>x s. dadd (re_decimal E) x (monthly_base E s)) (pt_monthly t) ss"
  by (induction ss arbitrary: t) (simp_all add: add_project_service_def Let_def)

lemma su_by_project_eq:
  "su_by_project (summary E d) = map (\<lambda>p. stat_of (re_decimal E)
     (agg_fold (re_decimal E) sv_project (monthly_base E) (list_active d)) (pj_uuid p) (pj_name p)) (projects d)"
  by (simp add: summary_def Let_def case_prod_beta totals_fold no_totals_def agg_fold_def)

lemma active_by_project: "list_active_by_project d u = filter (\<lambda>s. sv_project s = u) (list_active d)"
  by (simp add: list_active_by_project_def list_active_def conj_commute)

text \<open>The statistics of a project and its row in the summary agree: the same monthly cost and the same number of
  active services; both name the project.\<close>

theorem project_stats_agree:
  assumes "project_stats E u d = Inr r"
  shows "\<exists>row\<in>set (su_by_project (summary E d)). rw_key row = u \<and> rw_name row = ps_name r \<and>
    rw_monthly row = ps_monthly r \<and> rw_count row = ps_count r \<and> su_base (summary E d) = ps_base r"
proof -
  let ?D = "re_decimal E"
  obtain p where p: "row_find pj_uuid u (projects d) = Some p"
    using assms by (auto simp: project_stats_def split: option.splits)
  then have pj: "p \<in> set (projects d)" "pj_uuid p = u" using row_find_Some [of pj_uuid u "projects d" p] by simp_all
  let ?g = "filter (\<lambda>s. sv_project s = u) (list_active d)"
  have r: "ps_name r = pj_name p" "ps_monthly r = cent_text ?D (foldl (\<lambda>x s. dadd ?D x (monthly_base E s)) 0 ?g)"
    "ps_count r = length ?g" "ps_base r = re_base E"
    using assms p unfolding project_stats_def Let_def
    by (auto simp: project_monthly_fold active_by_project)
  have "coalesce (mget (agg_fold ?D sv_project (monthly_base E) (list_active d)) u) (0, 0) =
      (foldl (\<lambda>x s. dadd ?D x (monthly_base E s)) 0 ?g, length ?g)"
    by (simp add: agg_fold_get Let_def)
  then have "stat_of ?D (agg_fold ?D sv_project (monthly_base E) (list_active d)) u (pj_name p) =
      \<lparr> rw_key = u, rw_name = pj_name p, rw_monthly = ps_monthly r, rw_count = ps_count r \<rparr>"
    by (simp add: stat_of_def r)
  moreover have "su_base (summary E d) = re_base E" by (simp add: summary_def case_prod_beta Let_def)
  ultimately show ?thesis using pj r unfolding su_by_project_eq by force
qed

lemma count_groups: "sum_list (map (\<lambda>k. length (filter (\<lambda>s. key s = k) ss)) ks) = length ss"
  if "distinct ks" "key ` set ss \<subseteq> set ks"
  using that
proof (induction ss)
  case (Cons s ss)
  have "sum_list (map (\<lambda>k. length (filter (\<lambda>s. key s = k) (s # ss))) ks) =
      sum_list (map (\<lambda>k. (if key s = k then 1 else 0) + length (filter (\<lambda>s. key s = k) ss)) ks)"
    by (rule arg_cong [where f = sum_list], rule map_cong) auto
  also have "\<dots> = sum_list (map (\<lambda>k. if key s = k then 1 else 0) ks) + length ss"
    using Cons by (simp add: sum_list_addf)
  also have "sum_list (map (\<lambda>k. if key s = k then (1::nat) else 0) ks) = 1"
    using Cons.prems by (simp add: sum_list_distinct_conv_sum_set sum.delta')
  finally show ?case by simp
qed simp

lemma agg_counts: "sum_list (map (\<lambda>e. snd (snd e)) (agg_fold D key x ss)) = length ss"
proof -
  let ?m = "agg_fold D key x ss"
  have "snd (snd e) = length (filter (\<lambda>s. key s = fst e) ss)" if "e \<in> set ?m" for e
    using mget_of_mem [OF agg_fold_keys(1), of "fst e" "snd e" D key x ss] that
    by (cases e) (auto simp: agg_fold_get Let_def split: if_splits)
  then have "sum_list (map (\<lambda>e. snd (snd e)) ?m) = sum_list (map (\<lambda>k. length (filter (\<lambda>s. key s = k) ss)) (map fst ?m))"
    by (simp add: comp_def cong: map_cong)
  also have "\<dots> = length ss" using agg_fold_keys [of D key x ss] by (intro count_groups) simp_all
  finally show ?thesis .
qed

text \<open>No active service is lost or counted twice in the breakdowns: the counts by project, by country and by type each
  add up to the number of active services, and the counts of a group are those of its services.\<close>

theorem breakdown_counts:
  assumes "db_ok d"
  shows "sum_list (map rw_count (su_by_project (summary E d))) = length (list_active d) \<and>
    sum_list (map rw_count (su_by_country (summary E d))) = length (list_active d) \<and>
    sum_list (map rw_count (su_by_type (summary E d))) = length (list_active d) \<and>
    map rw_count (su_by_project (summary E d)) = map (\<lambda>p. length (list_active_by_project d (pj_uuid p))) (projects d)"
proof -
  let ?D = "re_decimal E"
  have c: "su_by_country (summary E d) = stat_rows ?D (agg_fold ?D (\<lambda>s. coalesce (sv_country s) ''XX'') (monthly_base E) (list_active d))"
    "su_by_type (summary E d) = stat_rows ?D (agg_fold ?D sv_type (monthly_base E) (list_active d))"
    by (simp_all add: summary_def Let_def case_prod_beta totals_fold no_totals_def agg_fold_def)
  have n: "map rw_count (stat_rows ?D m) = map (\<lambda>e. snd (snd e)) m" for m
    by (simp add: stat_rows_def comp_def case_prod_beta)
  have p: "map rw_count (su_by_project (summary E d)) = map (\<lambda>p. length (list_active_by_project d (pj_uuid p))) (projects d)"
    unfolding su_by_project_eq active_by_project by (simp add: stat_of_def agg_fold_get Let_def)
  have "distinct (map pj_uuid (projects d))" "sv_project ` set (list_active d) \<subseteq> set (map pj_uuid (projects d))"
    using assms by (auto simp: db_ok_def accounts_ok_def services_ok_def list_active_def)
  from count_groups [OF this] have "sum_list (map rw_count (su_by_project (summary E d))) = length (list_active d)"
    unfolding p by (simp add: active_by_project comp_def)
  then show ?thesis using p by (simp add: c n agg_counts)
qed

section \<open>Month keys\<close>

definition printable_month :: "int \<Rightarrow> bool" where
  "printable_month k = (0 \<le> k \<and> k < 120000)"

lemma month_text_less: "printable_month i \<Longrightarrow> printable_month j \<Longrightarrow> i < j \<Longrightarrow> month_text i < month_text j"
proof -
  assume p: "printable_month i" "printable_month j" and ij: "i < j"
  have y: "i div 12 \<le> j div 12" using ij by (intro zdiv_mono1) simp_all
  have b: "0 \<le> i div 12" "i div 12 \<le> 9999" "0 \<le> j div 12" "j div 12 \<le> 9999"
    using p by (auto simp: printable_month_def)
  have m: "0 \<le> k mod 12" "k mod 12 < 12" for k :: int by (rule pos_mod_sign pos_mod_bound; simp)+
  show ?thesis
  proof (cases "i div 12 = j div 12")
    case False
    then have "nat (i div 12) < nat (j div 12)" using y b by linarith
    then have "pad 4 (nat (i div 12)) < pad 4 (nat (j div 12))" using b by (intro pad_less) auto
    then show ?thesis unfolding month_text_def by (intro lex_append [THEN iffD2]) auto
  next
    case True
    have "i mod 12 < j mod 12" using True ij div_mult_mod_eq [of i 12] div_mult_mod_eq [of j 12] by linarith
    then have "pad 2 (nat (i mod 12 + 1)) < pad 2 (nat (j mod 12 + 1))"
      using m [of i] m [of j] by (intro pad_less) auto
    then show ?thesis unfolding month_text_def True by (simp add: lex_append)
  qed
qed

lemma month_text_eq: "printable_month i \<Longrightarrow> printable_month j \<Longrightarrow> (month_text i = month_text j) = (i = j)"
  using month_text_less [of i j] month_text_less [of j i] by (metis linorder_less_linear order_less_irrefl)

lemma month_text_le: "printable_month i \<Longrightarrow> printable_month j \<Longrightarrow> (month_text i < month_text j) = (i < j)"
  using month_text_less [of i j] month_text_less [of j i] month_text_eq [of i j]
  by (metis linorder_less_linear order_less_asym)

lemma printable_iff: "printable_day (t div MS_PER_DAY) = printable_month (month_index t)"
proof -
  let ?d = "t div MS_PER_DAY"
  obtain y m dd where c: "civil ?d = (y, m, dd)" by (cases "civil ?d")
  have m: "1 \<le> m" "m \<le> 12" using civil_range [OF c] by linarith+
  have y: "y = year_of_day ?d" using civil_eqs(1) [OF c] by simp
  have k: "month_index t = 12 * y + m - 1" by (simp add: month_index_def c)
  have mono: "days_before_year a \<le> days_before_year b" if "a \<le> b" for a b
    using that dby_strict [of a b] dby_step [of a] by (cases "a = b") (simp_all split: if_splits)
  have "printable_day ?d = (0 \<le> y \<and> y \<le> 9999)"
  proof
    assume "0 \<le> y \<and> y \<le> 9999"
    then have "days_before_year 0 \<le> days_before_year y" "days_before_year (y + 1) \<le> days_before_year 10000"
      using mono [of 0 y] mono [of "y + 1" 10000] by simp_all
    then show "printable_day ?d" using year_of_day_bounds [of ?d] y by (simp add: printable_day_def)
  qed (use printable_year [of ?d] y in simp)
  then show ?thesis using m unfolding k printable_month_def by auto
qed

context dayjs_utc
begin

lemma fmt_index: "printable_month (month_index t) \<Longrightarrow> fmt_month K t = month_text (month_index t)"
  using fmt_month [of t] by (simp add: printable_iff)

lemma month_keys_eq:
  "0 \<le> k \<Longrightarrow> k + int n \<le> 120000 \<Longrightarrow> month_keys K (month_ms k) n = map (\<lambda>i. month_text (k + int i)) [0..<n]"
  unfolding month_keys_def by (intro map_cong refl) (simp add: add_month_start fmt_index printable_month_def)

lemma start_month_ms: "start_of_month K t = month_ms (month_index t)"
  by (rule som)

end

section \<open>The chart and the key figures agree\<close>

text \<open>A payment in the base currency, at the rates of its date.\<close>

definition paid_base :: "report_env \<Rightarrow> payment \<Rightarrow> rat" where
  "paid_base E p = convert (re_decimal E) (pm_amount p) (pm_currency p) (re_base E)
     (fresh_rates (re_history E) (utc_day (pm_date p)))"

definition same_rates :: "report_env \<Rightarrow> historical_rates \<Rightarrow> bool" where
  "same_rates E h = (cache_ok h \<and> (\<forall>k. fresh_rates h k = fresh_rates (re_history E) k))"

lemma same_rates_on:
  assumes "same_rates E h"
  shows "fst (rates_on h t) = fresh_rates (re_history E) (utc_day t)" "same_rates E (snd (rates_on h t))"
  using assms rates_on_ok [of h t] by (auto simp: same_rates_def)

lemma paid_fold_month:
  "same_rates E (pa_history t) \<Longrightarrow>
   pa_month (foldl (add_payment E ws) t ps) = foldl (\<lambda>x p. dadd (re_decimal E) x (paid_base E p)) (pa_month t)
     (filter (\<lambda>p. counts_as_spend ws p \<and> start_of_month (re_calendar E) (re_now E) \<le> pm_date p \<and>
        pm_date p \<le> end_of_month (re_calendar E) (re_now E)) ps)"
proof (induction ps arbitrary: t)
  case (Cons p ps)
  have "same_rates E (pa_history (add_payment E ws t p))"
    using Cons.prems same_rates_on by (simp add: add_payment_def case_prod_beta Let_def)
  then show ?case using Cons.IH [of "add_payment E ws t p"] same_rates_on(1) [OF Cons.prems]
    by (auto simp: add_payment_def case_prod_beta Let_def paid_base_def not_less)
qed simp

lemma add_bucket_get: "mget (add_bucket D key x m) k = (if k = key then map_option (\<lambda>y. dadd D y x) (mget m k) else mget m k)"
  by (auto simp: add_bucket_def split: option.split)

lemma actual_fold:
  "same_rates E (fst st) \<Longrightarrow>
   mget (snd (foldl (actual_step E ws cur) st ps)) cur = map_option (\<lambda>y. foldl (\<lambda>x p. dadd (re_decimal E) x (paid_base E p)) y
     (filter (\<lambda>p. counts_as_spend ws p \<and> fmt_month (re_calendar E) (pm_date p) = cur) ps)) (mget (snd st) cur)"
proof (induction ps arbitrary: st)
  case (Cons p ps)
  have "same_rates E (fst (actual_step E ws cur st p))"
    using Cons.prems same_rates_on by (simp add: actual_step_def case_prod_beta Let_def)
  then show ?case using Cons.IH [of "actual_step E ws cur st p"] same_rates_on(1) [OF Cons.prems]
    by (auto simp: actual_step_def case_prod_beta Let_def paid_base_def add_bucket_get option.map_comp comp_def)
qed (simp add: option.map_ident)

lemma zero_buckets_get: "mget (zero_buckets keys) k = (if k \<in> set keys then Some 0 else None)"
proof -
  have "mget (foldl (\<lambda>m k. mset_to k 0 m) m0 keys) k = (if k \<in> set keys then Some 0 else mget m0 k)" for m0 :: buckets
    by (induction keys arbitrary: m0) auto
  then show ?thesis by (simp add: zero_buckets_def)
qed

lemma forecast_point:
  assumes "k \<in> set (month_keys (re_calendar E) (add_month (re_calendar E) (start_of_month (re_calendar E) (re_now E)) (- int back)) (back + 1 + months))"
    "\<not> (fs_backfill fs \<and> fs_force fs)"
  shows "\<exists>pt\<in>set (forecast E fs months back d). fp_month pt = k \<and> fp_actual pt = cent_text (re_decimal E) (the (mget
     (actual_buckets E d False (add_month (re_calendar E) (start_of_month (re_calendar E) (re_now E)) (- int back))
       (fmt_month (re_calendar E) (start_of_month (re_calendar E) (re_now E)))
       (month_keys (re_calendar E) (add_month (re_calendar E) (start_of_month (re_calendar E) (re_now E)) (- int back)) (back + 1 + months))) k))"
proof -
  have f: "(fs_backfill fs \<and> fs_force fs) = False" using assms(2) by simp
  show ?thesis unfolding forecast_def Let_def f if_False set_map
    by (rule bexI [OF _ imageI [OF assms(1)]]) simp
qed

text \<open>Without the force mode the bar of the current month in the forecast chart equals the payments of the current
  month in the summary: both count the same payments, each at the rates of its own date.\<close>

theorem forecast_matches_summary:
  assumes K: "dayjs_utc (re_calendar E)" and h: "cache_ok (re_history E)"
    and dates: "\<forall>p\<in>set (payments d). printable_day (pm_date p div MS_PER_DAY)"
    and range: "int back \<le> month_index (re_now E)" "month_index (re_now E) + int months < 120000"
    and force: "\<not> (fs_backfill fs \<and> fs_force fs)"
  shows "\<exists>pt\<in>set (forecast E fs months back d).
     fp_month pt = month_text (month_index (re_now E)) \<and> fp_actual pt = su_month_payments (summary E d)"
proof -
  let ?K = "re_calendar E" and ?c = "month_index (re_now E)" and ?D = "re_decimal E" and ?ws = "accounts_with_topups (payments d)"
  note fmt = dayjs_utc.fmt_index [OF K] and som = dayjs_utc.start_month_ms [OF K] and in_m = dayjs_utc.in_month_iff [OF K]
  have cur: "fmt_month ?K (start_of_month ?K (re_now E)) = month_text ?c"
    using range fmt [of "month_ms ?c"] by (simp add: som printable_month_def)
  have start: "add_month ?K (start_of_month ?K (re_now E)) (- int back) = month_ms (?c - int back)"
    by (simp add: som dayjs_utc.add_month_start [OF K])
  let ?keys = "month_keys ?K (month_ms (?c - int back)) (back + 1 + months)"
  have keys: "?keys = map (\<lambda>i. month_text (?c - int back + int i)) [0..<back + 1 + months]"
    using range by (intro dayjs_utc.month_keys_eq [OF K]) auto
  have mem: "month_text ?c \<in> set ?keys"
    unfolding keys set_map by (rule image_eqI [of _ _ "back"]) auto
  have key: "(fmt_month ?K (pm_date p) = month_text ?c) = (month_index (pm_date p) = ?c)" if "p \<in> set (payments d)" for p
    using dates that fmt [of "pm_date p"] month_text_eq [of "month_index (pm_date p)" ?c] range
    by (auto simp: printable_iff printable_month_def)
  have old: "month_ms (?c - int back) \<le> pm_date p" if "month_index (pm_date p) = ?c" for p
  proof -
    have "month_ms (?c - int back) \<le> month_ms ?c" by (cases "back = 0") (use month_ms_less [of "?c - int back" ?c] in auto)
    then show ?thesis using month_ms_le [of "pm_date p"] that by simp
  qed
  have "filter (\<lambda>p. counts_as_spend ?ws p \<and> fmt_month ?K (pm_date p) = month_text ?c) (payments_since d (month_ms (?c - int back))) =
      filter (\<lambda>p. counts_as_spend ?ws p \<and> start_of_month ?K (re_now E) \<le> pm_date p \<and> pm_date p \<le> end_of_month ?K (re_now E)) (payments d)"
    unfolding payments_since_def filter_filter using key old in_m [of "re_now E"]
    by (intro filter_cong) (auto simp: conj_commute)
  moreover have s: "same_rates E (re_history E)" using h by (simp add: same_rates_def)
  ultimately have "mget (actual_buckets E d False (month_ms (?c - int back)) (month_text ?c) ?keys) (month_text ?c) =
      Some (pa_month (paid_totals E (payments d)))"
    using actual_fold [of E "(re_history E, zero_buckets ?keys)" ?ws "month_text ?c" "payments_since d (month_ms (?c - int back))"]
      paid_fold_month [of E "\<lparr> pa_history = re_history E, pa_total = 0, pa_by_provider = [], pa_month = 0 \<rparr>" ?ws "payments d"] mem
    by (simp add: actual_buckets_def zero_buckets_get paid_totals_def)
  then show ?thesis
    using forecast_point [of "month_text ?c" E "back" months fs d] mem force
    unfolding start cur by (auto simp: summary_def case_prod_beta Let_def)
qed

section \<open>Projection\<close>

text \<open>The months a step of a billing period covers; None for the daily and the one-off periods.\<close>

definition stride :: "period \<Rightarrow> int option" where
  "stride p = (case period_step p of Some (n, By_month) \<Rightarrow> Some n | Some (n, By_year) \<Rightarrow> Some (12 * n) | _ \<Rightarrow> None)"

lemma before_month: "(t < month_ms k) = (month_index t < k)"
  using month_index_less_iff [of t "month_ms k"] by simp

lemma skip_to_index:
  assumes st: "\<And>t. month_index (add_step K t st) = month_index t + n" and n: "0 < n"
    and left: "c - month_index t \<le> int left"
  shows "\<exists>j\<ge>0. month_index (skip_to K st (month_ms c) left t) = month_index t + j * n \<and>
     c \<le> month_index (skip_to K st (month_ms c) left t) \<and> (j = 0 \<or> month_index t + (j - 1) * n < c)"
  using left
proof (induction left arbitrary: t)
  case 0
  then show ?case by (intro exI [of _ 0]) simp
next
  case (Suc left)
  show ?case
  proof (cases "t < month_ms c")
    case True
    have "c - month_index (add_step K t st) \<le> int left" using Suc.prems n st [of t] by linarith
    from Suc.IH [OF this, unfolded st [of t]]
    obtain j where j: "0 \<le> j" "month_index (skip_to K st (month_ms c) left (add_step K t st)) = month_index t + n + j * n"
      "c \<le> month_index (skip_to K st (month_ms c) left (add_step K t st))" "j = 0 \<or> month_index t + n + (j - 1) * n < c"
      by blast
    have "month_index t < c" using True by (simp add: before_month)
    then have "month_index t + (j + 1 - 1) * n < c" using j(4) by (auto simp: algebra_simps)
    then show ?thesis using j True by (intro exI [of _ "j + 1"]) (auto simp: algebra_simps)
  next
    case False
    then show ?thesis by (intro exI [of _ 0]) (auto simp: before_month)
  qed
qed

lemma project_loop_get:
  assumes st: "\<And>t. month_index (add_step K t st) = month_index t + n" and n: "0 < n"
    and fmt: "\<And>t. printable_month (month_index t) \<Longrightarrow> fmt_month K t = month_text (month_index t)"
    and e: "e \<le> 120000" and k: "printable_month k"
  shows "0 \<le> month_index t \<Longrightarrow> e - month_index t \<le> int left \<Longrightarrow>
   mget (project_loop D K st x (month_ms e) left t m) (month_text k) =
     map_option (\<lambda>y. if month_index t \<le> k \<and> k < e \<and> n dvd (k - month_index t) then dadd D y x else y) (mget m (month_text k))"
proof (induction left arbitrary: t m)
  case 0
  then show ?case by (cases "mget m (month_text k)") auto
next
  case (Suc left)
  let ?i = "month_index t"
  show ?case
  proof (cases "t < month_ms e")
    case True
    then have i: "?i < e" by (simp add: before_month)
    then have p: "printable_month ?i" using Suc.prems e by (simp add: printable_month_def)
    have "0 \<le> month_index (add_step K t st)" "e - month_index (add_step K t st) \<le> int left"
      using Suc.prems n st [of t] by linarith+
    note IH = Suc.IH [OF this, of "add_bucket D (fmt_month K t) x m"]
    have cond: "(?i + n \<le> k \<and> k < e \<and> n dvd (k - (?i + n))) = (?i \<le> k \<and> k \<noteq> ?i \<and> k < e \<and> n dvd (k - ?i))"
    proof -
      have "(n dvd (k - (?i + n))) = (n dvd (k - ?i))" by (metis diff_diff_eq dvd_minus_iff dvd_diff_commute dvd_add_triv_right_iff diff_add_cancel)
      moreover have "?i + n \<le> k" if "?i \<le> k" "k \<noteq> ?i" "n dvd (k - ?i)"
        using that zdvd_imp_le [of n "k - ?i"] by simp
      ultimately show ?thesis using n by auto
    qed
    show ?thesis using True IH [unfolded st cond] fmt [OF p] month_text_eq [OF k p] i
      by (cases "k = ?i"; cases "mget m (month_text k)") (simp_all add: add_bucket_get)
  next
    case False
    then have "e \<le> ?i" by (simp add: before_month)
    then show ?thesis using False by (cases "mget m (month_text k)") auto
  qed
qed

text \<open>C26. A service billed by months, quarters or years is projected once in every future month of the window that its
  billing calendar reaches, counted from its next billing month, and in no other month; 5000 steps are enough for a date
  that lies less than 5000 months back and a window of less than 5000 months.\<close>

theorem projection_spec:
  assumes K: "dayjs_utc (re_calendar E)" and n: "stride (sv_period s) = Some n"
    and t: "sv_next s = Some t" "0 \<le> month_index t" "c + 1 - month_index t \<le> 5000"
    and w: "months < 5000" "c + int months + 1 \<le> 120000"
    and k: "0 \<le> k" "k < 120000" and m: "mget m (month_text k) = Some y"
  shows "mget (project_service E (month_ms (c + 1)) (month_ms (c + int months + 1)) m s) (month_text k) =
     Some (if c < k \<and> k \<le> c + int months \<and> month_index t \<le> k \<and> n dvd (k - month_index t)
           then dadd (re_decimal E) y (cost_base E s) else y)"
proof -
  obtain st where st: "period_step (sv_period s) = Some st"
    "n = (case st of (i, By_month) \<Rightarrow> i | (i, By_year) \<Rightarrow> 12 * i | (i, By_day) \<Rightarrow> n)" "snd st \<noteq> By_day"
    using n by (auto simp: stride_def split: option.splits step_unit.splits)
  have pos: "0 < n" using n by (auto simp: stride_def period_step_def split: period.splits)
  have step: "month_index (add_step (re_calendar E) t' st) = month_index t' + n" for t'
    using st(2,3) dayjs_utc.add_month_index [OF K] dayjs_utc.add_year_index [OF K]
    by (cases st; cases "snd st") (auto simp: add_step_def)
  let ?t = "skip_to (re_calendar E) st (month_ms (c + 1)) GUARD t"
  obtain j where j: "0 \<le> j" "month_index ?t = month_index t + j * n" "c + 1 \<le> month_index ?t"
    "j = 0 \<or> month_index t + (j - 1) * n < c + 1"
    using skip_to_index [OF step pos, of "c + 1" t GUARD] t(3) unfolding GUARD_def by (metis of_nat_numeral)
  have "0 \<le> month_index ?t" using j(1,2) t(2) pos by simp
  moreover have "c + int months + 1 - month_index ?t \<le> int GUARD" using j(3) w(1) by (simp add: GUARD_def)
  ultimately have "mget (project_service E (month_ms (c + 1)) (month_ms (c + int months + 1)) m s) (month_text k) =
     Some (if month_index ?t \<le> k \<and> k < c + int months + 1 \<and> n dvd (k - month_index ?t)
           then dadd (re_decimal E) y (cost_base E s) else y)"
    using project_loop_get [OF step pos dayjs_utc.fmt_index [OF K] w(2), of k ?t GUARD "re_decimal E" "cost_base E s" m] k m st(1) t(1)
    by (simp add: project_service_def Let_def printable_month_def)
  moreover have "(month_index ?t \<le> k \<and> n dvd (k - month_index ?t)) = (c < k \<and> month_index t \<le> k \<and> n dvd (k - month_index t))"
  proof -
    have d: "(n dvd (k - month_index ?t)) = (n dvd (k - month_index t))"
      unfolding j(2) diff_diff_eq [symmetric] by (rule dvd_diff_left_iff) simp
    have "month_index t + j * n \<le> k" if kt: "c < k" "month_index t \<le> k" "n dvd (k - month_index t)"
    proof (cases "j = 0")
      case False
      obtain a where a: "k - month_index t = n * a" using kt(3) by (rule dvdE)
      have "(j - 1) * n < n * a" using False j(4) kt(1) a by linarith
      then have "j \<le> a" using pos by (simp add: mult.commute)
      then have "j * n \<le> a * n" using pos by simp
      then show ?thesis using a by (simp add: mult.commute)
    qed (use kt in simp)
    moreover have "month_index t \<le> month_index ?t" using j(1,2) pos by simp
    ultimately show ?thesis using d j(2,3) by auto
  qed
  ultimately show ?thesis by auto
qed

section \<open>A concrete report\<close>

definition shop_service :: service where
  "shop_service = \<lparr> sv_uuid = ''s1'', sv_provider = ''p1'', sv_account = ''a1'', sv_project = DEFAULT_PROJECT_UUID,
     sv_name = ''web'', sv_description = None, sv_type = ''vps'', sv_external = None, sv_country = None,
     sv_cost = 5, sv_currency = ''EUR'', sv_period = Monthly, sv_next = Some (5 * 86400000), sv_active = True, sv_managed = False,
     sv_cost_ov = False, sv_name_ov = False, sv_type_ov = False, sv_active_ov = False, sv_meta = [], sv_created = 0 \<rparr>"

definition shop_db :: db where
  "shop_db = \<lparr> providers = [\<lparr> pv_uuid = ''p1'', pv_name = ''Host'', pv_kind = ''hetzner'', pv_favicon = None,
       pv_login_url = None, pv_icon_name = None, pv_icon_bg = None \<rparr>],
     accounts = [\<lparr> ac_uuid = ''a1'', ac_provider = ''p1'', ac_label = None, ac_credentials = None, ac_enabled = True,
       ac_postpaid = False, ac_balance = Some 7, ac_balance_ccy = Some ''EUR'', ac_balance_at = None,
       ac_last_sync = None, ac_last_error = None \<rparr>],
     projects = [\<lparr> pj_uuid = DEFAULT_PROJECT_UUID, pj_name = ''Main'', pj_favicon = None, pj_icon_name = None, pj_icon_bg = None \<rparr>],
     services = [shop_service],
     payments = [\<lparr> pm_uuid = ''m1'', pm_provider = ''p1'', pm_account = ''a1'', pm_service = None, pm_amount = 3,
       pm_currency = ''EUR'', pm_description = None, pm_date = 0, pm_type = Topup, pm_external = None \<rparr>],
     snapshots = [], sync_runs = [] \<rparr>"

definition shop_env :: report_env where
  "shop_env = \<lparr> re_decimal = dec20, re_calendar = utc_dayjs, re_now = 0, re_base = ''EUR'', re_rates = [(''RUB'', 1)],
     re_history = new_historical [] [(''RUB'', 1)] \<rparr>"

lemma shop_db_ok: "db_ok shop_db"
  by (simp add: db_ok_def accounts_ok_def services_ok_def payments_ok_def service_keys_def payment_keys_def
      ext_keys_def owner_pairs_def shop_db_def shop_service_def)

lemma shop_env_fields: "re_now shop_env = 0" "re_decimal shop_env = dec20" "re_base shop_env = ''EUR''"
  "dayjs_utc (re_calendar shop_env)"
  using utc_dayjs_utc by (simp_all add: shop_env_def)

lemma shop_active: "list_active shop_db = [shop_service]" "is_dated shop_service"
  by (simp_all add: list_active_def shop_db_def shop_service_def is_dated_def is_metered_period_def)

lemma shop_upcoming: "upcoming_sorted shop_env (list_active shop_db) = [shop_service]"
proof -
  have "is_upcoming shop_env shop_service"
    using shop_active(2) dayjs_utc.overdue_days_calendar [OF shop_env_fields(4)] dayjs_utc.add_day [OF shop_env_fields(4)]
    by (simp add: is_upcoming_def shop_env_fields shop_service_def MS_PER_DAY_def)
  then show ?thesis by (simp add: upcoming_sorted_def shop_active)
qed

lemma upcoming_overdue_partition_witness:
  "(''s1'' \<in> ub_service ` set (su_upcoming (summary shop_env shop_db))) \<noteq> (''s1'' \<in> ob_service ` set (su_overdue (summary shop_env shop_db)))"
  using upcoming_overdue_partition [OF shop_db_ok shop_env_fields(4), of shop_service] shop_active
  by (simp add: Let_def shop_env_fields) (simp add: shop_service_def MS_PER_DAY_def)

lemma coverage_spec_witness: "ub_covered (su_upcoming (summary shop_env shop_db) ! 0) = Some True"
proof -
  have "find_account shop_db (sv_account shop_service) = Some (hd (accounts shop_db))"
    by (simp add: find_account_def row_find_def shop_db_def shop_service_def)
  from coverage_spec [OF shop_db_ok _ _ this, of 0 shop_env] show ?thesis
    by (simp add: shop_upcoming charges_on_def) (simp add: shop_db_def has_prepaid_def to_base_def cost_base_def convert_def
        shop_env_fields shop_service_def)
qed

lemma project_stats_agree_witness:
  "\<exists>row\<in>set (su_by_project (summary shop_env shop_db)). rw_key row = DEFAULT_PROJECT_UUID \<and> rw_count row = 1"
proof -
  have "\<exists>r. project_stats shop_env DEFAULT_PROJECT_UUID shop_db = Inr r \<and> ps_count r = 1"
    by (simp add: project_stats_def row_find_def shop_db_def Let_def list_active_by_project_def shop_service_def)
  then obtain r where r: "project_stats shop_env DEFAULT_PROJECT_UUID shop_db = Inr r" "ps_count r = 1" by blast
  show ?thesis using project_stats_agree [OF r(1)] r(2) by auto
qed

lemma breakdown_counts_witness: "map rw_count (su_by_project (summary shop_env shop_db)) = [1]"
  using breakdown_counts [OF shop_db_ok, of shop_env]
  by (simp add: list_active_by_project_def shop_db_def shop_service_def)

lemma shop_months: "month_index 0 = 23640"
  by code_simp

lemma forecast_matches_summary_witness:
  "\<exists>pt\<in>set (forecast shop_env \<lparr> fs_backfill = True, fs_respect_created = True, fs_backdate = True, fs_force = False \<rparr> 3 2 shop_db).
     fp_month pt = month_text 23640 \<and> fp_actual pt = su_month_payments (summary shop_env shop_db)"
proof -
  have "cache_ok (re_history shop_env)" by (simp add: shop_env_def cache_ok_def new_historical_def)
  moreover have "\<forall>p\<in>set (payments shop_db). printable_day (pm_date p div MS_PER_DAY)"
    using shop_months printable_iff [of 0] by (simp add: shop_db_def printable_month_def)
  ultimately show ?thesis
    using forecast_matches_summary [OF shop_env_fields(4), of shop_db 2 3] shop_months by (simp add: shop_env_fields)
qed

lemma projection_spec_witness:
  "mget (project_service shop_env (month_ms 23641) (month_ms 23643) [(month_text 23642, 0)] shop_service) (month_text 23642) = Some (dadd dec20 0 5)"
proof -
  have "month_index (5 * 86400000) = 23640" by code_simp
  then show ?thesis
    using projection_spec [OF shop_env_fields(4), of shop_service 1 "5 * 86400000" 23640 2 23642 "[(month_text 23642, 0)]" 0]
    by (simp add: stride_def period_step_def mget_Cons cost_base_def to_base_def convert_def shop_env_fields) (simp add: shop_service_def)
qed

end
