(* ===== verification/System.thy ===== *)
theory System
  imports Providers Analytics
begin

text \<open>
  The panel as a whole.  alone is a request or a sync that nothing interrupts.  The server interleaves
  them between any two queries, so the step relation is finer: a step is one writing call of a
  repository (a statement or a transaction, which PostgreSQL makes whole or not at all), with any
  arguments the code can have computed from what it read at any earlier moment.  What every reachable
  database satisfies is what the components assume of it; that labels are distinct is not
  among it (label_check_race).  alone_is_writes says that the requests and the sync are sequences of
  these writes.
\<close>

section \<open>What the other components leave alone\<close>

definition core_of :: "db \<Rightarrow> (uuid \<times> uuid \<times> string option) list \<times> uuid list" where
  "core_of d = (map account_core (accounts d), map pv_uuid (providers d))"

lemma core_same: "accounts d' = accounts d \<Longrightarrow> providers d' = providers d \<Longrightarrow> core_of d' = core_of d"
  by (simp add: core_of_def)

lemma core_ok: "db_inv d' \<Longrightarrow> core_of d' = core_of d \<Longrightarrow> panel_ok d \<Longrightarrow> panel_ok d'"
proof -
  assume inv: "db_inv d'" and c: "core_of d' = core_of d" and ok: "panel_ok d"
  have m: "map account_core (accounts d') = map account_core (accounts d)" "map pv_uuid (providers d') = map pv_uuid (providers d)"
    using c by (simp_all add: core_of_def)
  show "panel_ok d'" using arg_cong [OF m(1), of set] arg_cong [OF m(2), of set] by (intro same_core_ok [OF inv _ _ ok]) simp_all
qed

lemma core_update_account: "(\<And>a. account_core (f a) = account_core a) \<Longrightarrow> core_of (update_account u f d) = core_of d"
  by (simp add: core_of_def update_account_def)

lemma core_providers: "(\<And>p. pv_uuid (f p) = pv_uuid p) \<Longrightarrow> core_of (d \<lparr> providers := row_update pv_uuid u f (providers d) \<rparr>) = core_of d"
  by (simp add: core_of_def)

lemma core_tables [simp]: "core_of (d \<lparr> services := ss \<rparr>) = core_of d" "core_of (d \<lparr> payments := ps \<rparr>) = core_of d"
  "core_of (d \<lparr> projects := js \<rparr>) = core_of d" "core_of (d \<lparr> snapshots := sn \<rparr>) = core_of d" "core_of (d \<lparr> sync_runs := sr \<rparr>) = core_of d"
  by (simp_all add: core_of_def)

lemma core_service_ops:
  "core_of (fst (create_service_op D G now dto d)) = core_of d"
  "core_of (fst (update_service_op D u p d)) = core_of d"
  "core_of (fst (remove_service_op u d)) = core_of d"
  by (auto simp: create_service_op_def create_service_def update_service_op_def update_service_def move_to_account_def
      remove_service_op_def delete_service_def Let_def split: option.split sum.split)

lemma core_other_ops:
  "core_of (fst (create_payment_op D G pdto d)) = core_of d" "core_of (fst (remove_payment_op u d)) = core_of d"
  "core_of (fst (create_project_op G n f i b d)) = core_of d" "core_of (fst (update_project_op u q d)) = core_of d"
  "core_of (fst (move_all_into u d)) = core_of d" "core_of (fst (empty_project u d)) = core_of d"
  "core_of (fst (remove_project u d)) = core_of d"
  by (auto simp: create_payment_op_def create_payment_def remove_payment_op_def delete_payment_def create_project_op_def
      update_project_op_def move_all_into_def empty_project_def move_all_to_project_def move_project_services_def
      remove_project_def delete_moving_services_def Let_def split: option.split sum.split)

lemma core_upsert_services: "core_of (fst (upsert_services D G owner c now fs d)) = core_of d"
proof -
  have "core_of (upsert_service D G owner c now d f) = core_of d" for d f
    by (simp add: upsert_service_def create_service_def update_service_def split: option.split)
  then have "core_of (foldl (upsert_service D G owner c now) d fs) = core_of d" by (intro foldl_inv [where I = "\<lambda>x. core_of x = core_of d"]) auto
  then show ?thesis by (simp add: upsert_services_def deactivate_missing_def)
qed

lemma core_upsert_payments: "core_of (fst (upsert_payments D G owner ps d)) = core_of d"
proof -
  have "core_of (fst (upsert_all D G owner m ps d)) = core_of d" for m
    by (induction D G owner m ps d rule: upsert_all.induct)
       (auto simp: upsert_external_eq create_payment_def split: option.splits)
  then show ?thesis by (simp add: upsert_payments_def Let_def)
qed

lemma core_sync: "core_of (fst (sync_account E u d)) = core_of d"
proof -
  have fav: "core_of (fst (sync_favicon pv c d)) = core_of d" for pv c d
    by (auto simp: sync_favicon_def intro!: core_providers split: option.split sum.split)
  have bal: "core_of (sync_balance E a r d) = core_of d" for a r d
    by (auto simp: sync_balance_def Let_def record_snapshot_def update_balance_def account_core_def intro!: core_update_account split: option.split)
  have pay: "core_of (sync_payments E owner c d) = core_of d" for owner c d
    using core_upsert_payments by (simp add: sync_payments_def split: option.split sum.split)
  have try_core: "core_of (fst (sync_try E a pv d)) = core_of d" for a pv d
    using fav bal pay core_upsert_services by (simp add: sync_try_def Let_def case_prod_beta split: option.split sum.split)
  have close: "core_of (mark_ok r f now (mark_synced a now d)) = core_of d" "core_of (mark_error r m now (record_sync_error a m d)) = core_of d"
    for r f now a m d
    by (simp_all add: mark_ok_def mark_synced_def mark_error_def record_sync_error_def) (rule core_update_account; simp add: account_core_def)+
  show ?thesis
    by (simp add: sync_account_def Let_def case_prod_beta close try_core create_running_def split: option.split sum.split)
qed

section \<open>Requests that run alone\<close>

text \<open>What the requests need from outside: decimals, the cipher with a nonce, the clock, and the connectors of a sync.\<close>

record outside =
  os_decimal :: decimal_lib
  os_crypto :: crypto_lib
  os_iv :: string
  os_new_id :: "uuid list \<Rightarrow> uuid"
  os_now :: ms
  os_sync :: sync_env

definition outside_ok :: "outside \<Rightarrow> bool" where
  "outside_ok x = (fresh_ids (os_new_id x) \<and> fresh_ids (se_new_id (os_sync x)))"

text \<open>
  One request or one sync from its first read to its last write, with nothing else in between: what
  each handler means to do.  A payment's service reference is never the empty text (a uuid).
\<close>

inductive alone :: "outside \<Rightarrow> db \<Rightarrow> db \<Rightarrow> bool" for x where
  create_service: "alone x d (fst (create_service_op (os_decimal x) (os_new_id x) (os_now x) dto d))"
| update_service: "alone x d (fst (update_service_op (os_decimal x) u p d))"
| remove_service: "alone x d (fst (remove_service_op u d))"
| create_payment: "pc_service pdto \<noteq> Some [] \<Longrightarrow> alone x d (fst (create_payment_op (os_decimal x) (os_new_id x) pdto d))"
| remove_payment: "alone x d (fst (remove_payment_op u d))"
| create_project: "alone x d (fst (create_project_op (os_new_id x) n f i b d))"
| update_project: "alone x d (fst (update_project_op u q d))"
| move_all: "alone x d (fst (move_all_into u d))"
| empty: "alone x d (fst (empty_project u d))"
| delete_project: "alone x d (fst (remove_project u d))"
| sync: "alone x d (fst (sync_account (os_sync x) u d))"
| create_provider: "alone x d (fst (create_provider_op (os_decimal x) (os_crypto x) (os_iv x) (os_new_id x) vdto d))"
| update_provider: "alone x d (fst (update_provider_op (os_decimal x) (os_crypto x) u vp d))"
| remove_provider: "alone x d (fst (remove_provider_op u d))"
| add_account: "alone x d (fst (add_account_op (os_decimal x) (os_crypto x) (os_iv x) (os_new_id x) u adto d))"
| update_account: "alone x d (fst (update_account_op (os_decimal x) (os_crypto x) (os_iv x) u ap d))"
| remove_account: "alone x d (fst (remove_account_op u d))"
| merge: "alone x d (fst (merge_providers_op (os_decimal x) (os_crypto x) u v d))"

inductive_cases aloneE: "alone x d d'"

lemma remove_account_ok: "panel_ok d \<Longrightarrow> panel_ok (fst (remove_account_op u d))"
proof (cases "find_account d u")
  case (Some a)
  assume ok: "panel_ok d"
  then have "distinct (map ac_uuid (accounts d))" using db_inv_accounts [of d] by (simp add: panel_ok_def accounts_ok_def)
  then have "pending_ok d (u, ac_provider a)"
    using found_account [OF Some] distinct_row [of ac_uuid "accounts d"] unfolding pending_ok_def by auto
  from finish_remove_ok [OF ok this] Some show ?thesis by (simp add: remove_account_op_def)
qed (simp add: remove_account_op_def refused_def)

text \<open>Requests that run one after the other keep the labels of a provider's accounts distinct as well.\<close>

lemma alone_ok:
  assumes "alone x d d'" and ok: "panel_ok d" and out: "outside_ok x"
  shows "panel_ok d'"
proof -
  have inv: "db_inv d" and G: "fresh_ids (os_new_id x)" "fresh_ids (se_new_id (os_sync x))"
    using ok out by (simp_all add: panel_ok_def outside_ok_def)
  note core = core_ok [OF _ _ ok]
  show ?thesis
    using assms(1)
  proof cases
    case create_service then show ?thesis using core [OF create_service_op_inv [OF inv G(1)] core_service_ops(1)] by simp
  next
    case update_service then show ?thesis using core [OF update_service_op_inv [OF inv] core_service_ops(2)] by simp
  next
    case remove_service then show ?thesis using core [OF remove_service_op_inv [OF inv] core_service_ops(3)] by simp
  next
    case create_payment then show ?thesis using core [OF create_payment_op_inv [OF inv G(1)] core_other_ops(1)] by simp
  next
    case remove_payment then show ?thesis using core [OF remove_payment_op_inv [OF inv] core_other_ops(2)] by simp
  next
    case create_project then show ?thesis using core [OF create_project_op_inv [OF inv G(1)] core_other_ops(3)] by simp
  next
    case update_project then show ?thesis using core [OF update_project_op_inv [OF inv] core_other_ops(4)] by simp
  next
    case move_all then show ?thesis using core [OF project_moves_inv(1) [OF inv] core_other_ops(5)] by simp
  next
    case empty then show ?thesis using core [OF project_moves_inv(2) [OF inv] core_other_ops(6)] by simp
  next
    case delete_project then show ?thesis using core [OF remove_project_inv [OF inv] core_other_ops(7)] by simp
  next
    case sync then show ?thesis using core [OF sync_account_inv [OF inv G(2)] core_sync] by simp
  qed (simp_all add: create_provider_ok [OF ok G(1)] add_account_ok [OF ok G(1)] update_provider_ok [OF ok] remove_provider_ok [OF ok]
      remove_account_ok [OF ok] merge_providers_ok [OF ok] update_account_op_ok [OF ok])
qed

section \<open>Single writes\<close>

text \<open>
  The server awaits every query, so the requests and syncs interleave between any two of them.  What
  cannot be split is one call of a repository that writes: a statement or a transaction.  These are
  all of them.  An update carries the function it applies to its row; what was read for its arguments
  may be out of date when it is made.
\<close>

datatype db_write =
    Insert_service service
  | Update_service uuid "service \<Rightarrow> service"
  | Move_service uuid uuid uuid "service \<Rightarrow> service"
  | Delete_service uuid
  | Deactivate_missing uuid "string list"
  | Move_all_services uuid
  | Move_services uuid uuid
  | Insert_payment payment
  | Upsert_payment uuid uuid uuid string external_payment
  | Delete_payment uuid
  | Insert_project project
  | Update_project uuid "project \<Rightarrow> project"
  | Delete_project uuid uuid
  | Insert_snapshot uuid rat ccy ms
  | Insert_run uuid ms
  | Close_run nat int ms
  | Fail_run nat string ms
  | Insert_provider provider account
  | Update_provider uuid "provider \<Rightarrow> provider"
  | Delete_provider uuid
  | Insert_account account
  | Update_account uuid "account \<Rightarrow> account"
  | Delete_account uuid uuid
  | Merge_providers uuid uuid "(uuid \<times> string) list" "provider \<Rightarrow> provider"

text \<open>A transaction of the merge that misses one of its rows throws and is rolled back.\<close>

definition merge_transaction :: "uuid \<Rightarrow> uuid \<Rightarrow> (uuid \<times> string) list \<Rightarrow> (provider \<Rightarrow> provider) \<Rightarrow> db \<Rightarrow> db" where
  "merge_transaction src tgt ls fill d =
     (if list_all (\<lambda>x. find_account d (fst x) \<noteq> None) ls \<and> find_provider d tgt \<noteq> None \<and> find_provider d src \<noteq> None
      then merge_rows src tgt ls fill d else d)"

fun apply_write :: "db_write \<Rightarrow> db \<Rightarrow> db" where
  "apply_write (Insert_service s) d = create_service s d"
| "apply_write (Update_service u f) d = update_service u f d"
| "apply_write (Move_service u acc pv f) d = move_to_account u acc pv f d"
| "apply_write (Delete_service u) d = delete_service u d"
| "apply_write (Deactivate_missing acc seen) d = deactivate_missing acc seen d"
| "apply_write (Move_all_services pj) d = fst (move_all_to_project pj d)"
| "apply_write (Move_services pj pj') d = fst (move_project_services pj pj' d)"
| "apply_write (Insert_payment p) d = create_payment p d"
| "apply_write (Upsert_payment i acc pv ext e) d = upsert_external i acc pv ext e d"
| "apply_write (Delete_payment u) d = delete_payment u d"
| "apply_write (Insert_project j) d = d \<lparr> projects := projects d @ [j] \<rparr>"
| "apply_write (Update_project u f) d = d \<lparr> projects := row_update pj_uuid u f (projects d) \<rparr>"
| "apply_write (Delete_project u v) d = delete_moving_services u v d"
| "apply_write (Insert_snapshot u b c t) d = record_snapshot u b c t d"
| "apply_write (Insert_run u t) d = snd (create_running u t d)"
| "apply_write (Close_run i n t) d = mark_ok i n t d"
| "apply_write (Fail_run i m t) d = mark_error i m t d"
| "apply_write (Insert_provider p a) d = d \<lparr> providers := providers d @ [p], accounts := accounts d @ [a] \<rparr>"
| "apply_write (Update_provider u f) d = d \<lparr> providers := row_update pv_uuid u f (providers d) \<rparr>"
| "apply_write (Delete_provider u) d = delete_provider u d"
| "apply_write (Insert_account a) d = d \<lparr> accounts := accounts d @ [a] \<rparr>"
| "apply_write (Update_account u f) d = update_account u f d"
| "apply_write (Delete_account u pv) d = fst (finish_remove_account u pv d)"
| "apply_write (Merge_providers src tgt ls fill) d = merge_transaction src tgt ls fill d"

text \<open>
  PostgreSQL refuses a write that breaks a primary key, a unique index or a foreign key of the
  schema; the default project and the rest of the invariant are the server's own business.
\<close>

definition schema_ok :: "db \<Rightarrow> bool" where
  "schema_ok d = (distinct (map pv_uuid (providers d)) \<and> distinct (map ac_uuid (accounts d)) \<and> distinct (map pj_uuid (projects d)) \<and>
     (\<forall>a\<in>set (accounts d). ac_provider a \<in> pv_uuid ` set (providers d)) \<and> services_ok d \<and> payments_ok d)"

definition commit :: "db_write \<Rightarrow> db \<Rightarrow> db" where
  "commit w d = (if schema_ok (apply_write w d) then apply_write w d else d)"

lemma db_ok_schema: "db_ok d = (schema_ok d \<and> DEFAULT_PROJECT_UUID \<in> pj_uuid ` set (projects d))"
  by (auto simp: db_ok_def schema_ok_def accounts_ok_def)

section \<open>Interleaved steps\<close>

text \<open>
  The database, and what any request may have read so far: the identifiers of providers, the
  providers of accounts, and which services are managed.
\<close>

record panel =
  pn_db :: db
  pn_providers :: "uuid list"
  pn_owners :: "(uuid \<times> uuid) list"
  pn_marks :: "(uuid \<times> bool) list"

definition provider_ids :: "db \<Rightarrow> uuid list" where "provider_ids d = map pv_uuid (providers d)"
definition account_owners :: "db \<Rightarrow> (uuid \<times> uuid) list" where "account_owners d = map (\<lambda>a. (ac_uuid a, ac_provider a)) (accounts d)"
definition service_marks :: "db \<Rightarrow> (uuid \<times> bool) list" where "service_marks d = map (\<lambda>s. (sv_uuid s, sv_managed s)) (services d)"

text \<open>uuid() never gives an identifier a second time, so no new row has one that was in use before.\<close>

definition no_reuse :: "panel \<Rightarrow> db \<Rightarrow> bool" where
  "no_reuse s d = ((set (provider_ids d) - set (provider_ids (pn_db s))) \<inter> set (pn_providers s) = {} \<and>
     (fst ` set (account_owners d) - fst ` set (account_owners (pn_db s))) \<inter> fst ` set (pn_owners s) = {} \<and>
     (fst ` set (service_marks d) - fst ` set (service_marks (pn_db s))) \<inter> fst ` set (pn_marks s) = {})"

definition after :: "panel \<Rightarrow> db \<Rightarrow> panel" where
  "after s d = \<lparr> pn_db = d, pn_providers = provider_ids d @ pn_providers s, pn_owners = account_owners d @ pn_owners s,
     pn_marks = service_marks d @ pn_marks s \<rparr>"

text \<open>
  What the code makes sure of before it writes, whatever happened since it read: a new service has
  an external id exactly when it is managed; an update leaves identifiers and the managed flag alone; an
  imported payment is linked to a service that was managed when it was read; the owner's are not
  imported; the default project is not deleted; an account is removed under the provider it had when
  it was read; a provider is not merged into itself.
\<close>

fun sent_by_code :: "panel \<Rightarrow> db_write \<Rightarrow> bool" where
  "sent_by_code s (Insert_service r) = (sv_managed r = (sv_external r \<noteq> None))"
| "sent_by_code s (Update_service u f) = (\<forall>r. service_id (f r) = service_id r \<and> sv_managed (f r) = sv_managed r)"
| "sent_by_code s (Move_service u acc pv f) = (\<forall>r. service_id (f r) = service_id r \<and> sv_managed (f r) = sv_managed r)"
| "sent_by_code s (Insert_payment p) = (pm_external p = None)"
| "sent_by_code s (Upsert_payment i acc pv ext e) = (\<forall>u. ep_service e = Some u \<longrightarrow> (u, True) \<in> set (pn_marks s))"
| "sent_by_code s (Update_project u f) = (\<forall>j. pj_uuid (f j) = pj_uuid j)"
| "sent_by_code s (Delete_project u v) = (u \<noteq> DEFAULT_PROJECT_UUID)"
| "sent_by_code s (Insert_provider p a) = (ac_provider a = pv_uuid p)"
| "sent_by_code s (Update_provider u f) = (\<forall>p. pv_uuid (f p) = pv_uuid p)"
| "sent_by_code s (Update_account u f) = (\<forall>a. ac_uuid (f a) = ac_uuid a \<and> ac_provider (f a) = ac_provider a)"
| "sent_by_code s (Delete_account u pv) = ((u, pv) \<in> set (pn_owners s))"
| "sent_by_code s (Merge_providers src tgt ls fill) = (src \<noteq> tgt \<and> (\<forall>p. pv_uuid (fill p) = pv_uuid p))"
| "sent_by_code s _ = True"

inductive panel_step :: "panel \<Rightarrow> panel \<Rightarrow> bool" where
  written: "sent_by_code s w \<Longrightarrow> no_reuse s (commit w (pn_db s)) \<Longrightarrow> panel_step s (after s (commit w (pn_db s)))"

definition empty_panel :: panel where
  "empty_panel = \<lparr> pn_db = \<lparr> providers = [], accounts = [],
       projects = [\<lparr> pj_uuid = DEFAULT_PROJECT_UUID, pj_name = ''Default'', pj_favicon = None, pj_icon_name = None, pj_icon_bg = None \<rparr>],
       services = [], payments = [], snapshots = [], sync_runs = [] \<rparr>, pn_providers = [], pn_owners = [], pn_marks = [] \<rparr>"

inductive reachable :: "panel \<Rightarrow> bool" where
  start: "reachable empty_panel"
| step: "reachable s \<Longrightarrow> panel_step s t \<Longrightarrow> reachable t"

section \<open>The invariant\<close>

text \<open>What the invariant looks at besides the keys: accounts with their providers, services with their marks, the links of payments.\<close>

definition owners_of :: "db \<Rightarrow> (uuid \<times> uuid) list \<times> uuid list" where
  "owners_of d = (account_owners d, provider_ids d)"

definition marks_of :: "db \<Rightarrow> (uuid \<times> bool \<times> string option) list" where
  "marks_of d = map (\<lambda>s. (sv_uuid s, sv_managed s, sv_external s)) (services d)"

definition pay_links :: "db \<Rightarrow> (string option \<times> uuid option) list" where
  "pay_links d = map (\<lambda>p. (pm_external p, pm_service p)) (payments d)"

lemma links_ok_marks: "links_ok d = ((\<forall>(u, m, e)\<in>set (marks_of d). m = (e \<noteq> None)) \<and>
    (\<forall>(e, v)\<in>set (pay_links d). e \<noteq> None \<longrightarrow> (\<forall>u. v = Some u \<longrightarrow> (\<exists>(u', m, e')\<in>set (marks_of d). u' = u \<and> m))))"
  by (simp add: links_ok_def marks_of_def pay_links_def)

lemma never_empty_owners: "never_empty d = (set (snd (owners_of d)) \<subseteq> snd ` set (fst (owners_of d)))"
proof -
  have "accounts_of d u \<noteq> [] \<longleftrightarrow> u \<in> ac_provider ` set (accounts d)" for u by (auto simp: accounts_of_def filter_empty_conv)
  then show ?thesis by (auto simp: never_empty_def owners_of_def account_owners_def provider_ids_def image_image)
qed

text \<open>Where the accounts come from: each was there, with its provider unless that one is gone now, or is new.\<close>

definition accounts_follow :: "db \<Rightarrow> db \<Rightarrow> bool" where
  "accounts_follow d d' = (\<forall>(u, q)\<in>set (account_owners d'). u \<in> fst ` set (account_owners d) \<longrightarrow>
     (\<exists>p. (u, p) \<in> set (account_owners d) \<and> (q = p \<or> p \<notin> set (provider_ids d'))))"

text \<open>A service that was there keeps its mark.\<close>

definition marks_follow :: "db \<Rightarrow> db \<Rightarrow> bool" where
  "marks_follow d d' = (\<forall>(u, m)\<in>set (service_marks d'). u \<in> fst ` set (service_marks d) \<longrightarrow> (u, m) \<in> set (service_marks d))"

text \<open>What a write has to leave behind, beyond what the database checks itself.\<close>

definition write_keeps :: "db \<Rightarrow> db \<Rightarrow> bool" where
  "write_keeps d d' = (links_ok d' \<and> never_empty d' \<and> DEFAULT_PROJECT_UUID \<in> pj_uuid ` set (projects d') \<and>
     accounts_follow d d' \<and> marks_follow d d')"

lemma service_marks_of: "service_marks d = map (\<lambda>(u, m, e). (u, m)) (marks_of d)"
  by (simp add: service_marks_def marks_of_def)

lemma follow_owners: "owners_of d' = owners_of d \<Longrightarrow> accounts_follow d d'"
  by (auto simp: accounts_follow_def owners_of_def)

lemma follow_owners_sub: "set (account_owners d') \<subseteq> set (account_owners d) \<Longrightarrow> accounts_follow d d'"
  by (auto simp: accounts_follow_def)

lemma follow_marks: "marks_of d' = marks_of d \<Longrightarrow> marks_follow d d'"
proof -
  assume "marks_of d' = marks_of d"
  then have "service_marks d' = service_marks d" by (simp add: service_marks_of)
  then show ?thesis by (auto simp: marks_follow_def)
qed

lemma follow_marks_sub: "set (service_marks d') \<subseteq> set (service_marks d) \<Longrightarrow> marks_follow d d'"
  by (auto simp: marks_follow_def)

lemma quiet_keeps:
  assumes "links_ok d" "never_empty d" and "owners_of d' = owners_of d" "marks_of d' = marks_of d" "pay_links d' = pay_links d"
    and "DEFAULT_PROJECT_UUID \<in> pj_uuid ` set (projects d')"
  shows "write_keeps d d'"
  using assms follow_owners follow_marks by (simp add: write_keeps_def links_ok_marks never_empty_owners)

lemma write_refl: "db_inv d \<Longrightarrow> never_empty d \<Longrightarrow> write_keeps d d"
  using db_inv_accounts [of d] by (intro quiet_keeps) (simp_all add: db_inv_def accounts_ok_def)

lemma owners_tables [simp]:
  "owners_of (d \<lparr> services := ss \<rparr>) = owners_of d" "owners_of (d \<lparr> payments := ps \<rparr>) = owners_of d"
  "owners_of (d \<lparr> projects := js \<rparr>) = owners_of d" "owners_of (d \<lparr> snapshots := sn \<rparr>) = owners_of d"
  "owners_of (d \<lparr> sync_runs := sr \<rparr>) = owners_of d"
  by (simp_all add: owners_of_def account_owners_def provider_ids_def)

lemma marks_tables [simp]:
  "marks_of (d \<lparr> accounts := as \<rparr>) = marks_of d" "marks_of (d \<lparr> payments := ps \<rparr>) = marks_of d"
  "marks_of (d \<lparr> projects := js \<rparr>) = marks_of d" "marks_of (d \<lparr> snapshots := sn \<rparr>) = marks_of d"
  "marks_of (d \<lparr> sync_runs := sr \<rparr>) = marks_of d" "marks_of (d \<lparr> providers := vs \<rparr>) = marks_of d"
  by (simp_all add: marks_of_def)

lemma links_tables [simp]:
  "pay_links (d \<lparr> accounts := as \<rparr>) = pay_links d" "pay_links (d \<lparr> services := ss \<rparr>) = pay_links d"
  "pay_links (d \<lparr> projects := js \<rparr>) = pay_links d" "pay_links (d \<lparr> snapshots := sn \<rparr>) = pay_links d"
  "pay_links (d \<lparr> sync_runs := sr \<rparr>) = pay_links d" "pay_links (d \<lparr> providers := vs \<rparr>) = pay_links d"
  by (simp_all add: pay_links_def)

lemma marks_update: "(\<And>r. service_id (f r) = service_id r \<and> sv_managed (f r) = sv_managed r) \<Longrightarrow>
    map (\<lambda>s. (sv_uuid s, sv_managed s, sv_external s)) (rows_update P f t) = map (\<lambda>s. (sv_uuid s, sv_managed s, sv_external s)) t"
  by (rule rows_update_map) (simp add: service_id_def)

lemma marks_fields: "(\<And>r. service_id (f r) = service_id r \<and> sv_managed (f r) = sv_managed r) \<Longrightarrow>
    (sv_uuid (f r), sv_managed (f r), sv_external (f r)) = (sv_uuid r, sv_managed r, sv_external r)"
  by (simp add: service_id_def)

lemma owners_update_account: "(\<And>a. ac_uuid (f a) = ac_uuid a \<and> ac_provider (f a) = ac_provider a) \<Longrightarrow> owners_of (update_account u f d) = owners_of d"
  by (simp add: owners_of_def account_owners_def provider_ids_def update_account_def)

lemma owners_update_provider: "(\<And>p. pv_uuid (f p) = pv_uuid p) \<Longrightarrow>
    owners_of (d \<lparr> providers := row_update pv_uuid u f (providers d) \<rparr>) = owners_of d"
  by (simp add: owners_of_def account_owners_def provider_ids_def)

text \<open>The writes that change none of this.\<close>

lemma quiet_services:
  "(\<And>r. service_id (f r) = service_id r \<and> sv_managed (f r) = sv_managed r) \<Longrightarrow> marks_of (update_service u f d) = marks_of d"
  "(\<And>r. service_id (f r) = service_id r \<and> sv_managed (f r) = sv_managed r) \<Longrightarrow> marks_of (move_to_account u acc pv f d) = marks_of d"
  "marks_of (deactivate_missing acc seen d) = marks_of d"
  "marks_of (fst (move_all_to_project pj d)) = marks_of d" "marks_of (fst (move_project_services pj pj' d)) = marks_of d"
  using marks_update marks_fields
  by (simp_all add: marks_of_def update_service_def move_to_account_def deactivate_missing_def move_all_to_project_def
      move_project_services_def row_update_rows)

lemma quiet_payments:
  "pay_links (update_service u f d) = pay_links d" "pay_links (move_to_account u acc pv f d) = pay_links d"
  "pay_links (deactivate_missing acc seen d) = pay_links d"
  "pay_links (fst (move_all_to_project pj d)) = pay_links d" "pay_links (fst (move_project_services pj pj' d)) = pay_links d"
  by (simp_all add: pay_links_def update_service_def move_to_account_def deactivate_missing_def move_all_to_project_def
      move_project_services_def Let_def)

lemma quiet_owners:
  "owners_of (update_service u f d) = owners_of d" "owners_of (move_to_account u acc pv f d) = owners_of d"
  "owners_of (deactivate_missing acc seen d) = owners_of d"
  "owners_of (fst (move_all_to_project pj d)) = owners_of d" "owners_of (fst (move_project_services pj pj' d)) = owners_of d"
  by (simp_all add: update_service_def move_to_account_def deactivate_missing_def move_all_to_project_def
      move_project_services_def Let_def)

lemma quiet_projects:
  "projects (update_service u f d) = projects d" "projects (move_to_account u acc pv f d) = projects d"
  "projects (deactivate_missing acc seen d) = projects d"
  "projects (fst (move_all_to_project pj d)) = projects d" "projects (fst (move_project_services pj pj' d)) = projects d"
  by (simp_all add: update_service_def move_to_account_def deactivate_missing_def move_all_to_project_def
      move_project_services_def Let_def)

lemma keeps_quiet_services:
  assumes inv: "db_inv d" "never_empty d"
  shows "(\<And>r. service_id (f r) = service_id r \<and> sv_managed (f r) = sv_managed r) \<Longrightarrow> write_keeps d (update_service u f d)"
    and "(\<And>r. service_id (f r) = service_id r \<and> sv_managed (f r) = sv_managed r) \<Longrightarrow> write_keeps d (move_to_account u acc pv f d)"
    and "write_keeps d (deactivate_missing acc seen d)"
    and "write_keeps d (fst (move_all_to_project pj d))" "write_keeps d (fst (move_project_services pj pj' d))"
  using inv db_inv_accounts [OF inv(1)]
  by (intro quiet_keeps; simp add: db_inv_def accounts_ok_def quiet_services quiet_payments quiet_owners quiet_projects)+

lemma keeps_quiet_others:
  assumes inv: "db_inv d" "never_empty d"
  shows "write_keeps d (d \<lparr> projects := projects d @ [j] \<rparr>)"
    and "(\<And>j. pj_uuid (g j) = pj_uuid j) \<Longrightarrow> write_keeps d (d \<lparr> projects := row_update pj_uuid u g (projects d) \<rparr>)"
    and "write_keeps d (record_snapshot u b c t d)" "write_keeps d (snd (create_running u t d))"
    and "write_keeps d (mark_ok i n t d)" "write_keeps d (mark_error i m t d)"
    and "(\<And>p. pv_uuid (h p) = pv_uuid p) \<Longrightarrow> write_keeps d (d \<lparr> providers := row_update pv_uuid u h (providers d) \<rparr>)"
    and "(\<And>a. ac_uuid (k a) = ac_uuid a \<and> ac_provider (k a) = ac_provider a) \<Longrightarrow> write_keeps d (update_account u k d)"
proof -
  have l: "links_ok d" "never_empty d" "DEFAULT_PROJECT_UUID \<in> pj_uuid ` set (projects d)"
    using inv db_inv_accounts [OF inv(1)] by (simp_all add: db_inv_def accounts_ok_def)
  show "write_keeps d (d \<lparr> projects := projects d @ [j] \<rparr>)" using l by (intro quiet_keeps) simp_all
  show "write_keeps d (d \<lparr> projects := row_update pj_uuid u g (projects d) \<rparr>)" if "\<And>j. pj_uuid (g j) = pj_uuid j"
    using l row_update_image [of pj_uuid g pj_uuid u "projects d"] that by (intro quiet_keeps) simp_all
  show "write_keeps d (record_snapshot u b c t d)" "write_keeps d (snd (create_running u t d))"
      "write_keeps d (mark_ok i n t d)" "write_keeps d (mark_error i m t d)"
    using l by (intro quiet_keeps; simp add: record_snapshot_def create_running_def mark_ok_def mark_error_def Let_def)+
  show "write_keeps d (d \<lparr> providers := row_update pv_uuid u h (providers d) \<rparr>)" if "\<And>p. pv_uuid (h p) = pv_uuid p"
    using l owners_update_provider [OF that] by (intro quiet_keeps) simp_all
  show "write_keeps d (update_account u k d)" if "\<And>a. ac_uuid (k a) = ac_uuid a \<and> ac_provider (k a) = ac_provider a"
    using l owners_update_account [OF that] by (intro quiet_keeps) (simp_all add: update_account_def)
qed

lemma keeps_delete_project:
  assumes inv: "db_inv d" "never_empty d" and u: "u \<noteq> DEFAULT_PROJECT_UUID"
  shows "write_keeps d (delete_moving_services u v d)"
proof (rule quiet_keeps)
  show "DEFAULT_PROJECT_UUID \<in> pj_uuid ` set (projects (delete_moving_services u v d))"
    using db_inv_accounts [OF inv(1)] u by (auto simp: delete_moving_services_def Let_def quiet_projects row_delete_def accounts_ok_def)
qed (use inv in \<open>simp_all add: db_inv_def delete_moving_services_def Let_def quiet_services quiet_payments quiet_owners\<close>)

text \<open>Rows of services and payments come and go.\<close>

lemma keeps_insert_service:
  assumes inv: "db_inv d" "never_empty d" and m: "sv_managed r = (sv_external r \<noteq> None)" and new: "schema_ok (create_service r d)"
  shows "write_keeps d (create_service r d)"
proof -
  have "links_ok (create_service r d)" using inv m by (fastforce simp: db_inv_def links_ok_def create_service_def)
  moreover have "marks_follow d (create_service r d)"
    using new by (auto simp: marks_follow_def service_marks_def create_service_def schema_ok_def services_ok_def)
  ultimately show ?thesis
    using inv db_inv_accounts [OF inv(1)]
    by (simp add: write_keeps_def never_empty_owners follow_owners create_service_def accounts_ok_def)
qed

lemma keeps_delete_service:
  assumes inv: "db_inv d" "never_empty d"
  shows "write_keeps d (delete_service u d)"
proof -
  have "links_ok (delete_service u d)"
  proof (cases "find_service d u")
    case None
    have gone: "u \<notin> sv_uuid ` set (services d)" using None by (simp add: find_service_def row_find_None)
    have "row_delete sv_uuid u (services d) = services d" using gone by (auto simp: row_delete_def filter_id_conv)
    moreover have "pm_service p \<noteq> Some u" if "p \<in> set (payments d)" for p
      using db_inv_parts(7) [OF inv(1) that, of u] gone by auto
    then have "rows_update (\<lambda>p. pm_service p = Some u) (\<lambda>p. p \<lparr> pm_service := None \<rparr>) (payments d) = payments d"
      by (auto simp: rows_update_def intro!: map_idI)
    ultimately show ?thesis using inv by (simp add: delete_service_def db_inv_def)
  qed (use remove_service_op_inv [OF inv(1), of u] in \<open>simp add: remove_service_op_def db_inv_def\<close>)
  moreover have "marks_follow d (delete_service u d)"
    by (rule follow_marks_sub) (auto simp: service_marks_def delete_service_def row_delete_def)
  ultimately show ?thesis
    using inv db_inv_accounts [OF inv(1)]
    by (simp add: write_keeps_def never_empty_owners follow_owners delete_service_def accounts_ok_def)
qed

lemma keeps_payments:
  assumes inv: "db_inv d" "never_empty d" and l: "links_ok (d \<lparr> payments := ps \<rparr>)"
  shows "write_keeps d (d \<lparr> payments := ps \<rparr>)"
  using inv l db_inv_accounts [OF inv(1)] by (simp add: write_keeps_def never_empty_owners follow_owners follow_marks accounts_ok_def)

lemma keeps_insert_payment:
  "db_inv d \<Longrightarrow> never_empty d \<Longrightarrow> pm_external p = None \<Longrightarrow> write_keeps d (create_payment p d)"
  unfolding create_payment_def by (rule keeps_payments) (auto simp: db_inv_def links_ok_def)

lemma keeps_delete_payment: "db_inv d \<Longrightarrow> never_empty d \<Longrightarrow> write_keeps d (delete_payment u d)"
  unfolding delete_payment_def by (rule keeps_payments) (auto simp: db_inv_def links_ok_def row_delete_def)

lemma keeps_upsert:
  assumes inv: "db_inv d" "never_empty d" and new: "schema_ok (upsert_external i acc pv ext e d)"
    and link: "\<And>u s. ep_service e = Some u \<Longrightarrow> s \<in> set (services d) \<Longrightarrow> sv_uuid s = u \<Longrightarrow> sv_managed s"
  shows "write_keeps d (upsert_external i acc pv ext e d)"
proof -
  let ?d = "upsert_external i acc pv ext e d"
  have ps: "?d = d \<lparr> payments := payments ?d \<rparr>" by (simp add: upsert_external_def)
  have mem: "p \<in> set (payments d) \<or> pm_service p = ep_service e" if "p \<in> set (payments ?d)" for p
    using that by (auto simp: upsert_external_def rows_update_mem split: if_splits)
  have "\<exists>s\<in>set (services d). sv_uuid s = u \<and> sv_managed s" if p: "p \<in> set (payments ?d)" "pm_external p \<noteq> None" "pm_service p = Some u" for p u
  proof (cases "p \<in> set (payments d)")
    case True
    then show ?thesis using db_inv_parts(7) [OF inv(1) True p(3)] p(2) by blast
  next
    case False
    then have e: "ep_service e = Some u" using mem [OF p(1)] p(3) by simp
    have "u \<in> sv_uuid ` set (services d)" using new p(1,3) by (auto simp: schema_ok_def payments_ok_def)
    then show ?thesis using link [OF e] by blast
  qed
  then have "links_ok (d \<lparr> payments := payments ?d \<rparr>)" using inv(1) by (auto simp: links_ok_def db_inv_def)
  from keeps_payments [OF inv this] show ?thesis unfolding ps [symmetric] .
qed

text \<open>Providers and accounts come and go.\<close>

lemma keeps_insert_provider:
  assumes inv: "db_inv d" "never_empty d" and pa: "ac_provider a = pv_uuid p"
    and new: "schema_ok (d \<lparr> providers := providers d @ [p], accounts := accounts d @ [a] \<rparr>)"
  shows "write_keeps d (d \<lparr> providers := providers d @ [p], accounts := accounts d @ [a] \<rparr>)"
proof -
  let ?d = "d \<lparr> providers := providers d @ [p], accounts := accounts d @ [a] \<rparr>"
  have "links_ok ?d" using inv(1) by (simp add: db_inv_def links_ok_marks)
  moreover have "never_empty ?d" using inv(2) pa by (auto simp: never_empty_def accounts_of_def)
  moreover have "accounts_follow d ?d"
    using new by (auto simp: accounts_follow_def account_owners_def schema_ok_def)
  moreover have "marks_follow d ?d" by (rule follow_marks) (simp add: marks_of_def)
  ultimately show ?thesis using db_inv_accounts [OF inv(1)] by (simp add: write_keeps_def accounts_ok_def)
qed

lemma keeps_insert_account:
  assumes inv: "db_inv d" "never_empty d" and new: "schema_ok (d \<lparr> accounts := accounts d @ [a] \<rparr>)"
  shows "write_keeps d (d \<lparr> accounts := accounts d @ [a] \<rparr>)"
proof -
  let ?d = "d \<lparr> accounts := accounts d @ [a] \<rparr>"
  have "links_ok ?d" using inv(1) by (simp add: db_inv_def links_ok_marks)
  moreover have "never_empty ?d" using inv(2) by (auto simp: never_empty_def accounts_of_def)
  moreover have "accounts_follow d ?d"
    using new by (auto simp: accounts_follow_def account_owners_def schema_ok_def)
  moreover have "marks_follow d ?d" by (rule follow_marks) (simp add: marks_of_def)
  ultimately show ?thesis using db_inv_accounts [OF inv(1)] by (simp add: write_keeps_def accounts_ok_def)
qed

lemma delete_accounts_follow:
  "accounts_follow d (delete_accounts us d)" "marks_follow d (delete_accounts us d)"
  by (rule follow_owners_sub follow_marks_sub; auto simp: account_owners_def service_marks_def delete_accounts_tables)+

lemma keeps_delete_provider:
  assumes inv: "db_inv d" "never_empty d"
  shows "write_keeps d (delete_provider u d)"
proof -
  have i: "db_inv (delete_provider u d)" by (rule delete_provider_inv [OF inv(1)])
  have "accounts_follow d (delete_provider u d)" "marks_follow d (delete_provider u d)"
    by (rule follow_owners_sub follow_marks_sub;
        auto simp: account_owners_def service_marks_def delete_provider_def delete_accounts_tables)+
  then show ?thesis using i db_inv_accounts [OF i] delete_provider_never_empty [OF inv]
    by (simp add: write_keeps_def db_inv_def accounts_ok_def)
qed

lemma keeps_delete_account:
  assumes inv: "db_inv d" "never_empty d" and p: "pending_ok d (u, pv)"
  shows "write_keeps d (fst (finish_remove_account u pv d))"
proof (cases rule: finish_remove_cases [of u pv d])
  case (removed a)
  have i: "db_inv (delete_accounts [u] d)" by (rule delete_accounts_inv [OF inv(1)])
  then show ?thesis using finish_remove_never_empty [OF inv p] db_inv_accounts [OF i] delete_accounts_follow
    unfolding removed(3) by (simp add: write_keeps_def db_inv_def accounts_ok_def)
qed (use write_refl [OF inv] in simp)

text \<open>A merge at its transaction, whatever labels it was given.\<close>

lemma relabel_owners: "account_owners (relabel_accounts ls d) = account_owners d"
proof (induction ls arbitrary: d)
  case (Cons x ls)
  have "account_owners (update_account u (\<lambda>a. a \<lparr> ac_label := l \<rparr>) d) = account_owners d" for u l
    by (simp add: account_owners_def update_account_def)
  then show ?case using Cons by (simp add: relabel_accounts_def case_prod_beta)
qed (simp add: relabel_accounts_def)

lemma merge_rows_tables:
  assumes "src \<noteq> tgt" and fill: "\<And>p. pv_uuid (fill p) = pv_uuid p"
  shows "account_owners (merge_rows src tgt ls fill d) = map (\<lambda>(u, p). (u, if p = src then tgt else p)) (account_owners d)"
    and "marks_of (merge_rows src tgt ls fill d) = marks_of d" "pay_links (merge_rows src tgt ls fill d) = pay_links d"
    and "projects (merge_rows src tgt ls fill d) = projects d"
    and "provider_ids (merge_rows src tgt ls fill d) = filter (\<lambda>u. u \<noteq> src) (provider_ids d)"
proof -
  let ?r = "relabel_accounts ls d"
  let ?m = "move_accounts src tgt ?r"
  let ?f = "?m \<lparr> providers := row_update pv_uuid tgt fill (providers ?m) \<rparr>"
  have none: "accounts_of ?f src = []"
  proof -
    have "ac_provider (if ac_provider a = src then a \<lparr> ac_provider := tgt \<rparr> else a) \<noteq> src" for a using assms(1) by simp
    then show ?thesis using assms(1) by (auto simp: accounts_of_def move_accounts_def Let_def rows_update_def filter_empty_conv)
  qed
  have eq: "merge_rows src tgt ls fill d = ?f \<lparr> providers := row_delete pv_uuid src (providers ?f) \<rparr>"
    using none by (simp add: merge_rows_def Let_def delete_provider_def delete_accounts_nil)
  have "account_owners ?m = map (\<lambda>(u, p). (u, if p = src then tgt else p)) (account_owners ?r)"
    by (simp add: account_owners_def move_accounts_def Let_def rows_update_def)
  then show "account_owners (merge_rows src tgt ls fill d) = map (\<lambda>(u, p). (u, if p = src then tgt else p)) (account_owners d)"
    unfolding eq by (simp add: account_owners_def relabel_owners [unfolded account_owners_def])
  show "marks_of (merge_rows src tgt ls fill d) = marks_of d" "pay_links (merge_rows src tgt ls fill d) = pay_links d"
    unfolding eq by (simp_all add: marks_of_def pay_links_def move_accounts_def Let_def relabel_accounts_tables)
  show "projects (merge_rows src tgt ls fill d) = projects d"
    unfolding eq by (simp add: move_accounts_def Let_def relabel_accounts_tables)
  have "map pv_uuid (row_update pv_uuid tgt fill (providers d)) = map pv_uuid (providers d)" by (rule row_update_map) (rule fill)
  then show "provider_ids (merge_rows src tgt ls fill d) = filter (\<lambda>u. u \<noteq> src) (provider_ids d)"
    unfolding eq by (simp add: provider_ids_def move_accounts_def Let_def relabel_accounts_tables row_delete_keys)
qed

lemma keeps_merge:
  assumes inv: "db_inv d" "never_empty d" and ne: "src \<noteq> tgt" and fill: "\<And>p. pv_uuid (fill p) = pv_uuid p"
  shows "write_keeps d (merge_transaction src tgt ls fill d)"
proof -
  let ?d = "merge_rows src tgt ls fill d"
  note t = merge_rows_tables [OF ne fill]
  have "links_ok ?d" using inv(1) by (simp add: db_inv_def links_ok_marks t(2,3))
  moreover have "never_empty ?d"
    unfolding never_empty_owners
  proof
    fix u assume "u \<in> set (snd (owners_of ?d))"
    then have u: "u \<noteq> src" "u \<in> set (provider_ids d)" using t(5) [of ls d] by (auto simp: owners_of_def)
    then obtain v where "(v, u) \<in> set (account_owners d)" using inv(2) by (auto simp: never_empty_owners owners_of_def)
    then have "(v, u) \<in> set (account_owners ?d)" unfolding t(1) using u(1) by force
    then show "u \<in> snd ` set (fst (owners_of ?d))" by (force simp: owners_of_def)
  qed
  moreover have "accounts_follow d ?d"
    unfolding accounts_follow_def t(1,5) by auto
  moreover have "marks_follow d ?d" by (rule follow_marks) (rule t(2))
  ultimately have "write_keeps d ?d" using db_inv_accounts [OF inv(1)] by (simp add: write_keeps_def t(4) accounts_ok_def)
  then show ?thesis using write_refl [OF inv] by (simp add: merge_transaction_def)
qed

section \<open>Every reachable database\<close>

definition panel_inv :: "panel \<Rightarrow> bool" where
  "panel_inv s = (db_inv (pn_db s) \<and> never_empty (pn_db s) \<and> set (provider_ids (pn_db s)) \<subseteq> set (pn_providers s) \<and>
     set (account_owners (pn_db s)) \<subseteq> set (pn_owners s) \<and> set (service_marks (pn_db s)) \<subseteq> set (pn_marks s) \<and>
     (\<forall>x\<in>set (pn_owners s). snd x \<in> set (pn_providers s) \<and> pending_ok (pn_db s) x) \<and>
     (\<forall>x\<in>set (pn_marks s). \<forall>r\<in>set (services (pn_db s)). sv_uuid r = fst x \<longrightarrow> sv_managed r = snd x))"

text \<open>A write that the database accepts keeps what it cannot check.\<close>

lemma sent_write_keeps:
  assumes inv: "panel_inv s" and sent: "sent_by_code s w" and ok: "schema_ok (apply_write w (pn_db s))"
  shows "write_keeps (pn_db s) (apply_write w (pn_db s))"
proof -
  have d: "db_inv (pn_db s)" "never_empty (pn_db s)" using inv by (simp_all add: panel_inv_def)
  show ?thesis
  proof (cases w)
    case (Upsert_payment i acc pv ext e)
    have "sv_managed r" if "ep_service e = Some u" "r \<in> set (services (pn_db s))" "sv_uuid r = u" for u r
    proof -
      have "(u, True) \<in> set (pn_marks s)" using sent that(1) Upsert_payment by simp
      then show ?thesis using inv that(2,3) unfolding panel_inv_def by fastforce
    qed
    then show ?thesis using keeps_upsert [OF d] ok Upsert_payment by simp
  next
    case (Delete_account u pv)
    then have "pending_ok (pn_db s) (u, pv)" using sent inv by (simp add: panel_inv_def)
    then show ?thesis using keeps_delete_account [OF d] Delete_account by simp
  next
    case (Delete_project u v)
    then show ?thesis using keeps_delete_project [OF d] sent by simp
  next
    case (Merge_providers src tgt ls fill)
    then show ?thesis using keeps_merge [OF d] sent by simp
  qed (use sent ok in \<open>simp_all add: keeps_quiet_services [OF d] keeps_quiet_others [OF d] keeps_insert_service [OF d]
      keeps_delete_service [OF d] keeps_insert_payment [OF d] keeps_delete_payment [OF d] keeps_insert_provider [OF d]
      keeps_insert_account [OF d] keeps_delete_provider [OF d]\<close>)
qed

lemma commit_keeps:
  assumes inv: "panel_inv s" and sent: "sent_by_code s w"
  shows "write_keeps (pn_db s) (commit w (pn_db s)) \<and> db_inv (commit w (pn_db s))"
proof (cases "schema_ok (apply_write w (pn_db s))")
  case True
  from sent_write_keeps [OF inv sent True] True show ?thesis by (simp add: commit_def write_keeps_def db_inv_def db_ok_schema)
next
  case False
  have d: "db_inv (pn_db s)" "never_empty (pn_db s)" using inv by (simp_all add: panel_inv_def)
  show ?thesis using False d write_refl [OF d] by (simp add: commit_def)
qed

lemma pending_kept:
  assumes f: "accounts_follow (pn_db s) d" and new: "no_reuse s d" and p: "pending_ok (pn_db s) x"
    and used: "fst x \<in> fst ` set (pn_owners s)" "snd x \<in> set (pn_providers s)"
  shows "pending_ok d x"
  unfolding pending_ok_def
proof (intro ballI impI)
  fix a' assume a': "a' \<in> set (accounts d)" "ac_uuid a' = fst x"
  have m: "(ac_uuid a', ac_provider a') \<in> set (account_owners d)" using a'(1) by (simp add: account_owners_def)
  then have "fst x \<in> fst ` set (account_owners d)" using imageI [OF m, of fst] a'(2) by simp
  then have "ac_uuid a' \<in> fst ` set (account_owners (pn_db s))" using new used(1) a'(2) by (auto simp: no_reuse_def)
  then obtain p where o: "(ac_uuid a', p) \<in> set (account_owners (pn_db s))" "ac_provider a' = p \<or> p \<notin> set (provider_ids d)"
    using f m unfolding accounts_follow_def by blast
  then obtain a where a: "a \<in> set (accounts (pn_db s))" "ac_uuid a = fst x" "ac_provider a = p" using a'(2) by (auto simp: account_owners_def)
  have "snd x \<in> set (provider_ids d) \<Longrightarrow> snd x \<in> set (provider_ids (pn_db s))" using new used(2) by (auto simp: no_reuse_def)
  then show "ac_provider a' = snd x \<or> snd x \<notin> pv_uuid ` set (providers d)"
    using p a o(2) by (auto simp: pending_ok_def provider_ids_def)
qed

lemma marks_kept:
  assumes f: "marks_follow (pn_db s) d" and new: "no_reuse s d" and x: "x \<in> set (pn_marks s)"
    and old: "\<forall>r\<in>set (services (pn_db s)). sv_uuid r = fst x \<longrightarrow> sv_managed r = snd x"
    and r: "r \<in> set (services d)" "sv_uuid r = fst x"
  shows "sv_managed r = snd x"
proof -
  have m: "(sv_uuid r, sv_managed r) \<in> set (service_marks d)" using r(1) by (simp add: service_marks_def)
  then have "sv_uuid r \<in> fst ` set (service_marks d)" by force
  then have "sv_uuid r \<in> fst ` set (service_marks (pn_db s))" using new x r(2) by (auto simp: no_reuse_def)
  then have "(sv_uuid r, sv_managed r) \<in> set (service_marks (pn_db s))" using f m unfolding marks_follow_def by blast
  then show ?thesis using old r(2) by (auto simp: service_marks_def)
qed

text \<open>Distinct keys make the present owner and mark of an identifier the only ones.\<close>

lemma present_pending:
  assumes "db_inv d" "x \<in> set (account_owners d)"
  shows "pending_ok d x"
proof -
  have dist: "distinct (map ac_uuid (accounts d))" using db_inv_accounts [OF assms(1)] by (simp add: accounts_ok_def)
  obtain a where a: "a \<in> set (accounts d)" "x = (ac_uuid a, ac_provider a)" using assms(2) by (auto simp: account_owners_def)
  have "b = a" if "b \<in> set (accounts d)" "ac_uuid b = fst x" for b using distinct_row [OF dist that(1) a(1)] that(2) a(2) by simp
  then show ?thesis using a(2) unfolding pending_ok_def by auto
qed

lemma present_mark:
  assumes "db_inv d" "x \<in> set (service_marks d)" "r \<in> set (services d)" "sv_uuid r = fst x"
  shows "sv_managed r = snd x"
proof -
  obtain q where q: "q \<in> set (services d)" "x = (sv_uuid q, sv_managed q)" using assms(2) by (auto simp: service_marks_def)
  then have "r = q" using distinct_row [OF db_inv_parts(1) [OF assms(1)] assms(3) q(1)] assms(4) by simp
  then show ?thesis using q(2) by simp
qed

lemma present_provider: "db_inv d \<Longrightarrow> x \<in> set (account_owners d) \<Longrightarrow> snd x \<in> set (provider_ids d)"
  using db_inv_accounts [of d] by (auto simp: account_owners_def provider_ids_def accounts_ok_def)

lemma panel_inv_step: "panel_step s t \<Longrightarrow> panel_inv s \<Longrightarrow> panel_inv t"
proof (induction rule: panel_step.induct)
  case (written s w)
  let ?d = "commit w (pn_db s)"
  have k: "db_inv ?d" "never_empty ?d" "accounts_follow (pn_db s) ?d" "marks_follow (pn_db s) ?d"
    using commit_keeps [OF written(3,1)] by (simp_all add: write_keeps_def)
  have own: "snd x \<in> set (pn_providers s) \<and> pending_ok ?d x" if "x \<in> set (pn_owners s)" for x
  proof -
    have x: "snd x \<in> set (pn_providers s)" "pending_ok (pn_db s) x" using written(3) that by (simp_all add: panel_inv_def)
    have "fst x \<in> fst ` set (pn_owners s)" using that by (rule imageI)
    from pending_kept [OF k(3) written(2) x(2) this x(1)] x(1) show ?thesis by blast
  qed
  have mark: "sv_managed r = snd x" if "x \<in> set (pn_marks s)" "r \<in> set (services ?d)" "sv_uuid r = fst x" for x r
  proof -
    have "\<forall>r\<in>set (services (pn_db s)). sv_uuid r = fst x \<longrightarrow> sv_managed r = snd x"
      using written(3) that(1) unfolding panel_inv_def by blast
    from marks_kept [OF k(4) written(2) that(1) this that(2,3)] show ?thesis .
  qed
  show ?case
    unfolding panel_inv_def after_def panel.select_convs set_append
  proof (intro conjI ballI impI)
    show "snd x \<in> set (provider_ids ?d) \<union> set (pn_providers s)" "pending_ok ?d x"
      if "x \<in> set (account_owners ?d) \<union> set (pn_owners s)" for x
      using that own present_provider [OF k(1)] present_pending [OF k(1)] by blast+
    show "sv_managed r = snd x" if "x \<in> set (service_marks ?d) \<union> set (pn_marks s)" "r \<in> set (services ?d)" "sv_uuid r = fst x" for x r
      using that mark present_mark [OF k(1)] by blast
  qed (use k in auto)
qed

lemma reachable_inv: "reachable s \<Longrightarrow> panel_inv s"
proof (induction rule: reachable.induct)
  case start
  show ?case
    by (auto simp: panel_inv_def empty_panel_def never_empty_def provider_ids_def account_owners_def service_marks_def ext_keys_def
        accounts_ok_def intro!: db_invI)
next
  case (step s t)
  then show ?case using panel_inv_step by blast
qed


definition first_provider :: provider where
  "first_provider = \<lparr> pv_uuid = ''p1'', pv_name = ''Host'', pv_kind = ''manual'', pv_favicon = None, pv_login_url = None,
     pv_icon_name = None, pv_icon_bg = None \<rparr>"

definition first_db :: db where
  "first_db = commit (Insert_provider first_provider (new_account ''a1'' ''p1'' None None None)) (pn_db empty_panel)"

lemma first_db_eq: "first_db = pn_db empty_panel \<lparr> providers := [first_provider], accounts := [new_account ''a1'' ''p1'' None None None] \<rparr>"
  by (simp add: first_db_def commit_def schema_ok_def services_ok_def payments_ok_def service_keys_def payment_keys_def ext_keys_def
      empty_panel_def new_account_def first_provider_def)

lemma first_reachable: "reachable (after empty_panel first_db)"
  unfolding first_db_def
proof (rule reachable.step [OF reachable.start], rule written)
  show "sent_by_code empty_panel (Insert_provider first_provider (new_account ''a1'' ''p1'' None None None))"
    by (simp add: new_account_def first_provider_def)
qed (simp add: no_reuse_def empty_panel_def)


section \<open>Labels\<close>

text \<open>
  The label of an account has no unique index: the service reads the labels and inserts later.  One
  after the other the second of two equal labels is refused; when both requests read before either
  writes, both are inserted.
\<close>

lemma insert_account_commits:
  assumes inv: "db_inv d" and a: "ac_uuid a \<notin> ac_uuid ` set (accounts d)" "ac_provider a \<in> pv_uuid ` set (providers d)"
  shows "commit (Insert_account a) d = d \<lparr> accounts := accounts d @ [a] \<rparr>" "db_inv (d \<lparr> accounts := accounts d @ [a] \<rparr>)"
proof -
  have "db_inv (d \<lparr> providers := providers d, accounts := accounts d @ [a] \<rparr>)"
    using a db_inv_accounts [OF inv] by (intro accounts_append_inv [OF inv]) (auto simp: accounts_ok_def)
  then show i: "db_inv (d \<lparr> accounts := accounts d @ [a] \<rparr>)" by simp
  then have "schema_ok (d \<lparr> accounts := accounts d @ [a] \<rparr>)" by (simp add: db_inv_def db_ok_schema)
  then show "commit (Insert_account a) d = d \<lparr> accounts := accounts d @ [a] \<rparr>" by (simp add: commit_def)
qed

theorem label_check_race:
  assumes inv: "db_inv d" and p: "find_provider d pv = Some p"
    and free: "\<not> label_taken (accounts_of d pv) (na_label dto) None" "\<not> label_taken (accounts_of d pv) (na_label dto') None"
    and same: "na_label dto' = na_label dto"
    and ids: "u \<noteq> v" "u \<notin> ac_uuid ` set (accounts d)" "v \<notin> ac_uuid ` set (accounts d)"
  shows "\<not> labels_ok (commit (Insert_account (new_account v pv (na_label dto') (na_postpaid dto') c'))
      (commit (Insert_account (new_account u pv (na_label dto) (na_postpaid dto) c)) d))"
    and "snd (snd (add_account_op D C iv G pv dto' (commit (Insert_account (new_account u pv (na_label dto) (na_postpaid dto) c)) d))) =
      Inl (Conflict ''This provider already has an account with that label'')"
proof -
  let ?a = "new_account u pv (na_label dto) (na_postpaid dto) c" and ?b = "new_account v pv (na_label dto') (na_postpaid dto') c'"
  have new [simp]: "ac_uuid (new_account x y l q k) = x" "ac_provider (new_account x y l q k) = y" "ac_label (new_account x y l q k) = l"
    for x y l q k by (simp_all add: new_account_def)
  have pv: "pv \<in> pv_uuid ` set (providers d)" using found_provider [OF p] by blast
  note one = insert_account_commits [OF inv, of ?a]
  have d1: "commit (Insert_account ?a) d = d \<lparr> accounts := accounts d @ [?a] \<rparr>" "db_inv (d \<lparr> accounts := accounts d @ [?a] \<rparr>)"
    using one ids(2) pv by simp_all
  have d2: "commit (Insert_account ?b) (d \<lparr> accounts := accounts d @ [?a] \<rparr>) = d \<lparr> accounts := accounts d @ [?a, ?b] \<rparr>"
    using insert_account_commits(1) [OF d1(2), of ?b] ids(1,3) pv by auto
  show "\<not> labels_ok (commit (Insert_account ?b) (commit (Insert_account ?a) d))"
    unfolding d1(1) d2 labels_ok_def
    using ids(1) same by (intro notI) (drule bspec [of _ _ ?a]; simp)
  have "label_taken (accounts_of (d \<lparr> accounts := accounts d @ [?a] \<rparr>) pv) (na_label dto') None"
    using same by (simp add: label_taken_def accounts_of_def)
  moreover have "find_provider (d \<lparr> accounts := accounts d @ [?a] \<rparr>) pv = Some p" using p by (simp add: find_provider_def)
  ultimately show "snd (snd (add_account_op D C iv G pv dto' (commit (Insert_account ?a) d))) =
      Inl (Conflict ''This provider already has an account with that label'')"
    unfolding d1(1) by (simp add: add_account_op_def refused_def)
qed

lemma label_check_race_witness:
  "\<not> labels_ok (commit (Insert_account (new_account ''a3'' ''p1'' (Some ''Work'') None None))
      (commit (Insert_account (new_account ''a2'' ''p1'' (Some ''Work'') None None)) first_db))"
proof -
  have inv: "db_inv first_db" using reachable_inv [OF first_reachable] by (simp add: panel_inv_def after_def)
  have p: "find_provider first_db ''p1'' = Some first_provider" by (simp add: first_db_eq find_provider_def row_find_def first_provider_def)
  have l: "\<not> label_taken (accounts_of first_db ''p1'') (Some ''Work'') None"
    by (simp add: first_db_eq accounts_of_def label_taken_def new_account_def label_key_def empty_panel_def)
  from label_check_race(1) [OF inv p, of "\<lparr> na_label = Some ''Work'', na_postpaid = None, na_creds = no_creds \<rparr>"
      "\<lparr> na_label = Some ''Work'', na_postpaid = None, na_creds = no_creds \<rparr>" "''a2''" "''a3''" None None]
  show ?thesis using l by (simp add: first_db_eq empty_panel_def new_account_def)
qed

section \<open>A request is a sequence of these writes\<close>

text \<open>A panel that has just been read, and a run of writes that nothing interrupts.\<close>

definition view :: "db \<Rightarrow> panel" where
  "view d = \<lparr> pn_db = d, pn_providers = provider_ids d, pn_owners = account_owners d, pn_marks = service_marks d \<rparr>"

inductive writes :: "db \<Rightarrow> db \<Rightarrow> bool" for d where
  no_write: "writes d d"
| one_more: "writes d d1 \<Longrightarrow> sent_by_code (view d1) w \<Longrightarrow> writes d (commit w d1)"

lemma writes_trans: "writes d2 d3 \<Longrightarrow> writes d1 d2 \<Longrightarrow> writes d1 d3"
  by (induction rule: writes.induct) (auto intro: one_more)

text \<open>At most one write, whose arguments were read in the database it is made in.\<close>

definition single :: "db \<Rightarrow> db \<Rightarrow> bool" where
  "single d d' = (d' = d \<or> (\<exists>w. sent_by_code (view d) w \<and> d' = apply_write w d))"

lemma single_writes:
  assumes "single d d'" "db_ok d'"
  shows "writes d d'"
proof (cases "d' = d")
  case False
  then obtain w where w: "sent_by_code (view d) w" "d' = apply_write w d" using assms(1) by (auto simp: single_def)
  then have "commit w d = d'" using assms(2) by (simp add: commit_def db_ok_schema)
  with one_more [OF no_write w(1)] show ?thesis by simp
qed (simp add: no_write)

lemma then_single: "writes d d1 \<Longrightarrow> single d1 d2 \<Longrightarrow> db_ok d2 \<Longrightarrow> writes d d2"
  by (rule writes_trans [OF single_writes])

lemma single_refl [simp]: "single d d" by (simp add: single_def)

lemma single_write: "sent_by_code (view d) w \<Longrightarrow> single d (apply_write w d)"
  by (auto simp: single_def)

lemma single_if: "(b \<Longrightarrow> single d x) \<Longrightarrow> (\<not> b \<Longrightarrow> single d y) \<Longrightarrow> single d (if b then x else y)" by simp

lemma single_services:
  "sv_managed r = (sv_external r \<noteq> None) \<Longrightarrow> single d (create_service r d)"
  "(\<And>r. service_id (f r) = service_id r \<and> sv_managed (f r) = sv_managed r) \<Longrightarrow> single d (update_service u f d)"
  "single d (delete_service u d)" "single d (deactivate_missing acc seen d)"
  "single d (fst (move_all_to_project pj d))" "single d (fst (move_project_services pj pj' d))"
  using single_write [of d "Insert_service r"] single_write [of d "Update_service u f"] single_write [of d "Delete_service u"]
    single_write [of d "Deactivate_missing acc seen"] single_write [of d "Move_all_services pj"] single_write [of d "Move_services pj pj'"]
  by simp_all

lemma single_payments:
  "pm_external p = None \<Longrightarrow> single d (create_payment p d)" "single d (delete_payment u d)"
  "(\<And>u. ep_service e = Some u \<Longrightarrow> (u, True) \<in> set (service_marks d)) \<Longrightarrow> single d (upsert_external i acc pv ext e d)"
  using single_write [of d "Insert_payment p"] single_write [of d "Delete_payment u"] single_write [of d "Upsert_payment i acc pv ext e"]
  by (simp_all add: view_def)

lemma single_projects:
  "single d (d \<lparr> projects := projects d @ [j] \<rparr>)"
  "(\<And>j. pj_uuid (f j) = pj_uuid j) \<Longrightarrow> single d (d \<lparr> projects := row_update pj_uuid u f (projects d) \<rparr>)"
  "u \<noteq> DEFAULT_PROJECT_UUID \<Longrightarrow> single d (delete_moving_services u v d)"
  using single_write [of d "Insert_project j"] single_write [of d "Update_project u f"] single_write [of d "Delete_project u v"]
  by simp_all

lemma single_runs:
  "single d (record_snapshot u b c t d)" "single d (snd (create_running u t d))" "single d (mark_ok i n t d)" "single d (mark_error i m t d)"
  using single_write [of d "Insert_snapshot u b c t"] single_write [of d "Insert_run u t"] single_write [of d "Close_run i n t"]
    single_write [of d "Fail_run i m t"] by simp_all

lemma single_providers:
  "ac_provider a = pv_uuid p \<Longrightarrow> single d (d \<lparr> providers := providers d @ [p], accounts := accounts d @ [a] \<rparr>)"
  "(\<And>p. pv_uuid (f p) = pv_uuid p) \<Longrightarrow> single d (d \<lparr> providers := row_update pv_uuid u f (providers d) \<rparr>)"
  "single d (delete_provider u d)" "single d (d \<lparr> accounts := accounts d @ [a] \<rparr>)"
  "(\<And>a. ac_uuid (g a) = ac_uuid a \<and> ac_provider (g a) = ac_provider a) \<Longrightarrow> single d (update_account u g d)"
  "(u, pv) \<in> set (account_owners d) \<Longrightarrow> single d (fst (finish_remove_account u pv d))"
  "src \<noteq> tgt \<Longrightarrow> (\<And>p. pv_uuid (f p) = pv_uuid p) \<Longrightarrow> single d (merge_transaction src tgt ls f d)"
  using single_write [of d "Insert_provider p a"] single_write [of d "Update_provider u f"] single_write [of d "Delete_provider u"]
    single_write [of d "Insert_account a"] single_write [of d "Update_account u g"] single_write [of d "Delete_account u pv"]
    single_write [of d "Merge_providers src tgt ls f"]
  by (simp_all add: view_def)

lemmas single_intros = single_services single_payments single_projects single_runs single_providers

text \<open>The requests.\<close>

lemma replaced_row:
  assumes "db_inv d" "find_service d u = Some e"
  shows "update_service u (\<lambda>_. row) d = update_service u (\<lambda>r. if r = e then row else r) d"
    and "move_to_account u acc pv (\<lambda>_. row) d = move_to_account u acc pv (\<lambda>r. if r = e then row else r) d"
proof -
  note f = service_table.find_sound [OF assms(2) [unfolded find_service_def]]
  have "r = e" if "r \<in> set (services d)" "sv_uuid r = u" for r
    using distinct_row [OF db_inv_parts(1) [OF assms(1)] that(1)] f that(2) by blast
  then show "update_service u (\<lambda>_. row) d = update_service u (\<lambda>r. if r = e then row else r) d"
    and "move_to_account u acc pv (\<lambda>_. row) d = move_to_account u acc pv (\<lambda>r. if r = e then row else r) d"
    by (auto simp: update_service_def move_to_account_def Let_def row_update_def intro!: arg_cong [where f = "\<lambda>ss. d \<lparr> services := ss \<rparr>"]
        arg_cong [where f = "\<lambda>ss. d \<lparr> services := ss, payments := _ \<rparr>"])
qed

lemma patched_identity:
  "service_id (project_placed p (patched_row D p e)) = service_id e \<and> sv_managed (project_placed p (patched_row D p e)) = sv_managed e"
  using patched_row_parts(7,9) [of D p e] by (simp add: project_placed_eq service_id_def)

lemma single_update_service: "db_inv d \<Longrightarrow> single d (fst (update_service_op D u p d))"
proof (cases "snd (update_service_op D u p d)")
  case (Inl e)
  then have "fst (update_service_op D u p d) = d"
    by (auto simp: update_service_op_def Let_def split: option.splits sum.splits if_splits)
  then show ?thesis by simp
next
  case (Inr row)
  assume inv: "db_inv d"
  have "update_service_op D u p d = (fst (update_service_op D u p d), Inr row)" using Inr by (metis prod.collapse)
  then show ?thesis
  proof (cases rule: update_service_op_cases)
    case (stay e)
    have f: "service_id (if r = e then row else r) = service_id r \<and> sv_managed (if r = e then row else r) = sv_managed r" for r
      using patched_identity [of p D e] stay(2) by simp
    show ?thesis unfolding stay(3) replaced_row(1) [OF inv stay(1)] by (rule single_services(2)) (rule f)
  next
    case (move e ow)
    let ?row = "project_placed p (patched_row D p e)"
    have f: "service_id (if r = e then ?row else r) = service_id r \<and> sv_managed (if r = e then ?row else r) = sv_managed r" for r
      using patched_identity [of p D e] by simp
    show ?thesis
      unfolding move(5) replaced_row(2) [OF inv move(1)]
      using single_write [of d "Move_service u (ow_account ow) (ow_provider ow) (\<lambda>r. if r = e then ?row else r)"] f
      unfolding sent_by_code.simps apply_write.simps by blast
  qed
qed

lemma single_merge: "db_inv d \<Longrightarrow> single d (fst (merge_providers_op D C src tgt d))"
proof (cases rule: merge_providers_cases [of D C src tgt d])
  case (merged s t)
  let ?ls = "merged_labels (pv_name s) (accounts_of d src) (accounts_of d tgt)"
  assume inv: "db_inv d"
  have "find_account d (fst x) \<noteq> None" if "x \<in> set ?ls" for x
  proof -
    have "fst x \<in> set (map ac_uuid (accounts_of d src))" using that merged_label_ids by (metis image_eqI list.set_map)
    then show ?thesis by (auto simp: find_account_def row_find_None accounts_of_def)
  qed
  then have "merge_rows src tgt ?ls (merged_identity s) d = merge_transaction src tgt ?ls (merged_identity s) d"
    using merged(1,2) by (simp add: merge_transaction_def list_all_iff)
  then show ?thesis unfolding merged(5) using single_providers(7) [OF merged(3) merged_identity_uuid] by simp
qed simp

lemma single_account_ops:
  "single d (fst (create_provider_op D C iv G vdto d))" "single d (fst (update_provider_op D C u vp d))"
  "single d (fst (remove_provider_op u d))" "single d (fst (add_account_op D C iv G u adto d))"
  "single d (fst (update_account_op D C iv u ap d))" "single d (fst (remove_account_op u d))"
proof -
  show "single d (fst (create_provider_op D C iv G vdto d))"
    by (auto simp: create_provider_op_def refused_def Let_def new_account_def intro: single_providers split: sum.split)
  show "single d (fst (update_provider_op D C u vp d))"
    by (auto simp: update_provider_op_def refused_def Let_def intro: single_providers split: option.split)
  show "single d (fst (remove_provider_op u d))"
    by (auto simp: remove_provider_op_def refused_def intro: single_providers split: option.split)
  show "single d (fst (add_account_op D C iv G u adto d))"
    by (auto simp: add_account_op_def refused_def Let_def intro: single_providers split: option.split sum.split)
  show "single d (fst (update_account_op D C iv u ap d))"
    by (auto simp: update_account_op_def refused_def Let_def intro!: single_providers(5) split: option.split sum.split)
  show "single d (fst (remove_account_op u d))"
  proof (cases "find_account d u")
    case (Some a)
    then have "(u, ac_provider a) \<in> set (account_owners d)" using found_account [OF Some] by (auto simp: account_owners_def)
    then show ?thesis using Some by (auto simp: remove_account_op_def intro: single_providers(6))
  qed (simp add: remove_account_op_def refused_def)
qed

lemma single_owner_ops:
  "single d (fst (create_service_op D G now dto d))" "single d (fst (remove_service_op u d))"
  "single d (fst (create_payment_op D G pdto d))" "single d (fst (remove_payment_op u d))"
  "single d (fst (create_project_op G n f i b d))" "single d (fst (update_project_op u q d))"
  "single d (fst (move_all_into u d))" "single d (fst (empty_project u d))" "single d (fst (remove_project u d))"
  by (auto simp: create_service_op_def remove_service_op_def create_payment_op_def remove_payment_op_def create_project_op_def
      update_project_op_def move_all_into_def empty_project_def remove_project_def Let_def patched_project_id
      intro!: single_services single_payments single_projects split: option.split sum.split)

text \<open>A sync: the run, the icon link, the balance and its snapshot, every service, every payment, and the end of the run.\<close>

lemma writes_favicon:
  assumes i: "sync_inv owner d"
  shows "writes d (fst (sync_favicon pv c d))"
proof (rule single_writes)
  show "single d (fst (sync_favicon pv c d))"
    by (auto simp: sync_favicon_def intro!: single_providers(2) split: option.split sum.split)
  show "db_ok (fst (sync_favicon pv c d))" using sync_favicon_inv [OF i] by (simp add: sync_inv_def)
qed

lemma writes_balance:
  assumes i: "sync_inv owner d"
  shows "writes d (sync_balance E acc remote d)"
proof (cases "ad_balance remote")
  case (Some b)
  let ?f = "\<lambda>a. a \<lparr> ac_balance := Some (cent_round (se_decimal E) b), ac_balance_ccy := Some (ad_currency remote), ac_balance_at := Some (se_now E) \<rparr>"
  have u: "single d (update_account acc ?f d)" by (rule single_providers(5)) simp
  have ok: "db_ok (update_account acc ?f d)" using update_account_ok [of d ?f acc] i by (simp add: sync_inv_def)
  show ?thesis
    using then_single [OF single_writes [OF u ok] single_runs(1)] ok record_update_ok [OF ok] Some
    by (simp add: sync_balance_def Let_def update_balance_def) (simp add: record_snapshot_def)
qed (simp add: sync_balance_def no_write)

lemma writes_upserts:
  assumes "writes d0 d" "db_ok d" "owner_ok d owner" "fresh_ids G"
  shows "writes d0 (foldl (upsert_service D G owner c now) d fs)"
  using assms
proof (induction fs arbitrary: d)
  case (Cons f fs)
  note ok = upsert_service_ok [OF Cons.prems(2-4), of D c now f]
  have k: "service_id (refresh_service D c f r) = service_id r \<and> sv_managed (refresh_service D c f r) = sv_managed r" for r
    using kept_marks [OF refresh_kept [of r D c f]] by simp
  have n: "sv_managed (new_service D i owner c now f) = (sv_external (new_service D i owner c now f) \<noteq> None)" for i
    by (simp add: new_service_def)
  have "single d (upsert_service D G owner c now d f)"
    unfolding upsert_service_def by (cases "find_by_external d (ow_account owner) (sd_external f)")
      (simp_all add: single_services(1) [OF n] single_services(2) [OF k])
  from then_single [OF Cons.prems(1) this] ok Cons.IH [of "upsert_service D G owner c now d f"] Cons.prems(4) show ?case by simp
qed simp

lemma writes_upsert_services:
  assumes d: "db_ok d" "owner_ok d owner" "fresh_ids G"
  shows "writes d (fst (upsert_services D G owner c now fs d))"
proof -
  let ?d = "foldl (upsert_service D G owner c now) d fs"
  have "writes d ?d" by (rule writes_upserts [OF no_write d])
  moreover have "db_ok (deactivate_missing acc seen ?d)" for acc seen using upsert_fold_ok [OF d] deactivate_ok by blast
  ultimately show ?thesis using then_single [OF _ single_services(4)] by (simp add: upsert_services_def)
qed

lemma writes_upsert_all:
  assumes "writes d0 d" "db_ok d" "owner_ok d owner" "fresh_ids G" "\<forall>p u. payment_link m p = Some u \<longrightarrow> (u, True) \<in> set (service_marks d)"
  shows "writes d0 (fst (upsert_all D G owner m ps d))"
  using assms
proof (induction ps arbitrary: d)
  case (Cons p ps)
  show ?case
  proof (cases "pd_date p")
    case (Some t)
    let ?i = "G (map pm_uuid (payments d))"
    let ?d = "upsert_external ?i (ow_account owner) (ow_provider owner) (pd_external p) (external_of D m p t) d"
    have i: "?i \<notin> pm_uuid ` set (payments d)" using Cons.prems(4) unfolding fresh_ids_def by (metis list.set_map)
    have l: "\<forall>u. ep_service (external_of D m p t) = Some u \<longrightarrow> u \<in> sv_uuid ` set (services d)"
      using Cons.prems(5) by (auto simp: external_of_def service_marks_def)
    have ok: "db_ok ?d" "owner_pairs ?d = owner_pairs d"
      using upsert_external_ok [OF Cons.prems(2) _ i l, of "ow_account owner" "ow_provider owner"] Cons.prems(3) by (simp_all add: owner_ok_def)
    have "single d ?d" by (rule single_payments(3)) (use Cons.prems(5) in \<open>simp add: external_of_def\<close>)
    then have w: "writes d0 ?d" by (rule then_single [OF Cons.prems(1) _ ok(1)])
    have "writes d0 (fst (upsert_all D G owner m ps ?d))"
      using Cons.prems(3,5) ok(2) by (intro Cons.IH [OF w ok(1) _ Cons.prems(4)]) (simp_all add: owner_ok_def service_marks_def)
    then show ?thesis using Some by (simp add: external_of_def)
  qed (use Cons.prems in simp)
qed simp

lemma writes_payments:
  assumes d: "db_ok d" "links_ok d" "owner_ok d owner" and G: "fresh_ids (se_new_id E)"
  shows "writes d (sync_payments E owner c d)"
proof -
  have "\<forall>p u. payment_link (service_by_external d (ow_account owner)) p = Some u \<longrightarrow> (u, True) \<in> set (service_marks d)"
  proof (intro allI impI)
    fix p u assume "payment_link (service_by_external d (ow_account owner)) p = Some u"
    then obtain s where "s \<in> set (services d)" "sv_uuid s = u" "sv_external s \<noteq> None" using payment_link_external by blast
    then show "(u, True) \<in> set (service_marks d)" using links_marks [OF d(2)] by (force simp: service_marks_def)
  qed
  from writes_upsert_all [OF no_write d(1,3) G this] show ?thesis
    by (auto simp: sync_payments_def upsert_payments_def no_write split: option.split sum.split)
qed

lemma writes_try:
  assumes i: "sync_inv \<lparr> ow_account = ac_uuid a, ow_provider = pv_uuid pv \<rparr> d" and l: "links_ok d" and G: "fresh_ids (se_new_id E)"
  shows "writes d (fst (sync_try E a pv d))"
proof -
  let ?o = "\<lparr> ow_account = ac_uuid a, ow_provider = pv_uuid pv \<rparr>"
  have f: "writes d (fst (sync_favicon pv c d))" "sync_inv ?o (fst (sync_favicon pv c d))" "links_ok (fst (sync_favicon pv c d))" for c
    using writes_favicon [OF i] sync_favicon_inv [OF i] l by (auto simp: sync_favicon_def split: option.split sum.split)
  have b: "writes d (sync_balance E x r (fst (sync_favicon pv c d)))" "sync_inv ?o (sync_balance E x r (fst (sync_favicon pv c d)))"
      "links_ok (sync_balance E x r (fst (sync_favicon pv c d)))" for c x r
    using writes_trans [OF writes_balance [OF f(2)] f(1)] sync_balance_inv [OF f(2)] f(3)
    by (auto simp: sync_balance_def Let_def record_snapshot_def update_balance_def update_account_def split: option.split)
  let ?u = "\<lambda>c x r cur fs. upsert_services (se_decimal E) (se_new_id E) ?o cur (se_now E) fs (sync_balance E x r (fst (sync_favicon pv c d)))"
  have s: "writes d (fst (?u c x r cur fs))" "db_ok (fst (?u c x r cur fs))" "owner_ok (fst (?u c x r cur fs)) ?o" "links_ok (fst (?u c x r cur fs))"
    for c x r cur fs
    using writes_trans [OF writes_upsert_services b(1)] upsert_services_ok [OF _ _ G] upsert_services_links [OF b(3)] b(2) G
    by (simp_all add: sync_inv_def)
  have p: "writes d (sync_payments E ?o c (fst (?u c x r cur fs)))" for c x r cur fs
    by (rule writes_trans [OF writes_payments [OF s(2,4,3) G] s(1)])
  show ?thesis
    by (simp add: sync_try_def Let_def case_prod_beta f b p no_write split: option.split sum.split)
qed

lemma writes_sync:
  assumes inv: "db_inv d" and G: "fresh_ids (se_new_id E)"
  shows "writes d (fst (sync_account E u d))"
proof (cases "find_account d u")
  case (Some a)
  show ?thesis
  proof (cases "find_provider d (ac_provider a)")
    case pv: (Some pv)
    let ?r = "snd (create_running u (se_now E) d)"
    have ok: "db_ok d" "links_ok d" using inv by (simp_all add: db_inv_def)
    have r: "db_ok ?r" "links_ok ?r" "owner_pairs ?r = owner_pairs d" using ok record_update_ok [of d] by (simp_all add: create_running_def Let_def)
    have i: "sync_inv \<lparr> ow_account = ac_uuid a, ow_provider = pv_uuid pv \<rparr> ?r"
      using r(1,3) find_account_owner [OF Some] found_provider [OF pv] by (auto simp: sync_inv_def owner_ok_def)
    have w: "writes d (fst (sync_try E a pv ?r))"
      using writes_trans [OF writes_try [OF i r(2) G] single_writes [OF single_runs(2) r(1)]] .
    have t: "db_ok (fst (sync_try E a pv ?r))" by (rule sync_try_ok [OF i G])
    have m: "writes d (update_account u f (fst (sync_try E a pv ?r)))" "db_ok (update_account u f (fst (sync_try E a pv ?r)))"
      if "\<And>a. ac_uuid (f a) = ac_uuid a" "\<And>a. ac_provider (f a) = ac_provider a" for f
    proof -
      show o: "db_ok (update_account u f (fst (sync_try E a pv ?r)))" using update_account_ok [OF t, of f u] that by simp
      show "writes d (update_account u f (fst (sync_try E a pv ?r)))"
        using then_single [OF w single_providers(5) o] that by blast
    qed
    have e: "writes d (mark_ok k n x (update_account u f (fst (sync_try E a pv ?r))))"
        "writes d (mark_error k y x (update_account u f (fst (sync_try E a pv ?r))))"
      if "\<And>a. ac_uuid (f a) = ac_uuid a" "\<And>a. ac_provider (f a) = ac_provider a" for f k n x y
      using then_single [OF m(1) [OF that] single_runs(3)] then_single [OF m(1) [OF that] single_runs(4)] mark_ok_inv [OF m(2) [OF that]]
      by blast+
    show ?thesis
      using Some pv e by (simp add: sync_account_def Let_def case_prod_beta mark_synced_def record_sync_error_def no_write split: sum.split)
  qed (use Some in \<open>simp add: sync_account_def no_write\<close>)
qed (simp add: sync_account_def no_write)

text \<open>So a request or sync that nothing interrupts is a sequence of writes the code sends.\<close>

theorem alone_is_writes:
  assumes "alone x d d'" and ok: "panel_ok d" and out: "outside_ok x"
  shows "writes d d'"
proof -
  have inv: "db_inv d" using ok by (simp add: panel_ok_def)
  have ok': "db_ok d'" using alone_ok [OF assms] by (simp add: panel_ok_def db_inv_def)
  show ?thesis
  proof (cases "\<exists>u. d' = fst (sync_account (os_sync x) u d)")
    case True
    then show ?thesis using writes_sync [OF inv] out by (auto simp: outside_ok_def)
  next
    case False
    from assms(1) have "single d d'"
    proof cases
      case sync then show ?thesis using False by blast
    qed (simp_all add: single_owner_ops single_account_ops single_update_service [OF inv] single_merge [OF inv])
    then show ?thesis by (rule single_writes) (rule ok')
  qed
qed

end
