(* ===== verification/Auth.thy ===== *)
theory Auth
  imports Credentials
begin

text \<open>
  The state of signing in and the admin account: auth/auth-config.service.ts with its lockout guard,
  auth/password.util.ts, auth/challenge.store.ts and the sessions of auth/auth.service.ts.  The state
  is the admin row, the passkeys, the API tokens, the challenges waiting for an answer and the cached
  session secret.  scrypt, SHA-256 and the JSON web tokens are the fields of auth_lib; a random value
  (salt, secret, nonce) is an argument of the operation that draws it.
\<close>

section \<open>State\<close>

record auth_row =
  au_username :: string
  au_hash :: "string option"
  au_password_on :: bool
  au_passkey_on :: bool
  au_secret :: "string option"
  au_rp_id :: "string option"
  au_rp_name :: "string option"
  au_rp_origin :: "string option"
  au_handle :: "string option"
  au_tg_on :: bool
  au_tg_client :: "string option"
  au_tg_secret :: "string option"
  au_tg_origin :: "string option"
  au_tg_user :: "string option"
  au_tg_name :: "string option"

record passkey =
  pk_uuid :: uuid
  pk_credential :: string
  pk_key :: string
  pk_counter :: nat
  pk_transports :: "string option"
  pk_device :: "string option"
  pk_backed_up :: bool
  pk_name :: "string option"
  pk_created :: ms
  pk_last_used :: "ms option"

record api_token =
  tk_uuid :: uuid
  tk_name :: string
  tk_hash :: string
  tk_prefix :: string
  tk_scope :: string
  tk_created :: ms
  tk_last_used :: "ms option"

datatype ceremony = Register | Login

record challenge =
  ch_text :: string
  ch_expires :: ms

record auth_state =
  at_row :: "auth_row option"
  at_passkeys :: "passkey list"
  at_tokens :: "api_token list"
  at_challenges :: "ceremony \<Rightarrow> challenge option"
  at_cached :: "string option"

text \<open>
  The functions from outside.  A session token is signed with a secret at a time (in milliseconds) for a
  number of seconds, None when the library throws; it is checked with a secret at a time.
\<close>

record auth_lib =
  al_scrypt :: "string \<Rightarrow> string \<Rightarrow> nat \<Rightarrow> string"
  al_sha :: "string \<Rightarrow> string"
  al_sign :: "string \<Rightarrow> string \<Rightarrow> ms \<Rightarrow> int \<Rightarrow> string option"
  al_jwt :: "string \<Rightarrow> string \<Rightarrow> ms \<Rightarrow> json option"

text \<open>
  What they promise: keys of the length asked for, digests without collisions, and tokens whose payload
  reads back with the secret they were signed with until they expire.  jsonwebtoken takes the time in
  whole seconds, for the issue as for the check, and throws on an empty secret.  The payload of a
  session token is its member u.
\<close>

definition jwt_ok :: "auth_lib \<Rightarrow> bool" where
  "jwt_ok L = ((\<forall>u t d. al_sign L [] u t d = None) \<and> (\<forall>c now. al_jwt L c [] now = None) \<and>
     (\<forall>k u t d. k \<noteq> [] \<longrightarrow> (\<exists>c. al_sign L k u t d = Some c \<and> c \<noteq> [] \<and>
        (\<forall>now. if now div 1000 < t div 1000 + d then \<exists>j. al_jwt L c k now = Some j \<and> json_prop j ''u'' = Some (JStr u)
           else al_jwt L c k now = None))))"

definition auth_lib_ok :: "auth_lib \<Rightarrow> bool" where
  "auth_lib_ok L = ((\<forall>p s n. length (al_scrypt L p s n) = n) \<and> inj (al_sha L) \<and> jwt_ok L)"

section \<open>password.util.ts\<close>

definition hex_of_char :: "char \<Rightarrow> string" where
  "hex_of_char c = [hex_digit (ccode c div 16), hex_digit (ccode c mod 16)]"

definition to_hex :: "string \<Rightarrow> string" where "to_hex s = concat (map hex_of_char s)"

text \<open>Buffer.from(s, 'hex') stops at the first pair that is not two hexadecimal digits.\<close>

fun from_hex :: "string \<Rightarrow> string" where
  "from_hex (a # b # r) = (case (hex_value a, hex_value b) of (Some x, Some y) \<Rightarrow> char_of (16 * x + y) # from_hex r | _ \<Rightarrow> [])"
| "from_hex _ = []"

definition KEYLEN :: nat where "KEYLEN = 64"

definition hash_password :: "auth_lib \<Rightarrow> string \<Rightarrow> string \<Rightarrow> string" where
  "hash_password L salt plain = to_hex salt @ '':'' @ to_hex (al_scrypt L plain salt KEYLEN)"

definition not_colon :: "char \<Rightarrow> bool" where "not_colon c = (c \<noteq> CHR '':'')"

definition verify_password :: "auth_lib \<Rightarrow> string \<Rightarrow> string option \<Rightarrow> bool" where
  "verify_password L plain stored = (case stored of None \<Rightarrow> False
     | Some s \<Rightarrow>
        (let salt = takeWhile not_colon s; hash = takeWhile not_colon (tl (dropWhile not_colon s)) in
         if s = [] \<or> salt = [] \<or> hash = [] then False
         else let expected = from_hex hash; actual = al_scrypt L plain (from_hex salt) (length expected)
              in length expected = length actual \<and> expected = actual))"

section \<open>auth-config.service.ts\<close>

record sign_in_methods =
  si_password :: bool
  si_passkey :: bool
  si_passkeys :: int
  si_telegram :: bool

definition lockout_message :: string where
  "lockout_message = ''Keep at least one working sign-in method: password, a registered passkey or a linked Telegram account''"

definition assert_sign_in_possible :: "sign_in_methods \<Rightarrow> http_error option" where
  "assert_sign_in_possible m = (if si_password m \<or> si_passkey m \<and> 0 < si_passkeys m \<or> si_telegram m then None
     else Some (Bad_request lockout_message))"

definition telegram_ready :: "auth_row \<Rightarrow> bool" where
  "telegram_ready r = (truthy (au_tg_client r) \<and> au_tg_secret r \<noteq> None \<and> truthy (au_tg_origin r) \<and> truthy (au_tg_user r))"

definition telegram_usable :: "auth_row \<Rightarrow> bool" where
  "telegram_usable r = (au_tg_on r \<and> telegram_ready r)"

definition not_configured :: http_error where
  "not_configured = Unauthorized ''Admin account is not configured''"

record setup_status =
  ss_needs_setup :: bool
  ss_password :: bool
  ss_passkey :: bool
  ss_telegram :: bool

definition get_status :: "auth_state \<Rightarrow> setup_status" where
  "get_status s = (case at_row s of
     None \<Rightarrow> \<lparr> ss_needs_setup = True, ss_password = False, ss_passkey = False, ss_telegram = False \<rparr>
   | Some r \<Rightarrow> \<lparr> ss_needs_setup = False, ss_password = au_password_on r, ss_passkey = au_passkey_on r, ss_telegram = telegram_usable r \<rparr>)"

record auth_view =
  aw_username :: string
  aw_password :: bool
  aw_passkey :: bool
  aw_rp_id :: string
  aw_rp_name :: string
  aw_rp_origin :: string
  aw_tg_on :: bool
  aw_tg_client :: string
  aw_has_secret :: bool
  aw_tg_origin :: string
  aw_tg_user :: string
  aw_tg_name :: string

definition view_of :: "auth_row \<Rightarrow> auth_view" where
  "view_of r = \<lparr> aw_username = au_username r, aw_password = au_password_on r, aw_passkey = au_passkey_on r,
     aw_rp_id = coalesce (au_rp_id r) [], aw_rp_name = coalesce (au_rp_name r) [], aw_rp_origin = coalesce (au_rp_origin r) [],
     aw_tg_on = au_tg_on r, aw_tg_client = coalesce (au_tg_client r) [], aw_has_secret = (au_tg_secret r \<noteq> None),
     aw_tg_origin = coalesce (au_tg_origin r) [], aw_tg_user = coalesce (au_tg_user r) [], aw_tg_name = coalesce (au_tg_name r) [] \<rparr>"

definition get_config :: "auth_state \<Rightarrow> http_error + auth_view" where
  "get_config s = (case at_row s of None \<Rightarrow> Inl not_configured | Some r \<Rightarrow> Inr (view_of r))"

definition setup_admin :: "auth_lib \<Rightarrow> crypto_lib \<Rightarrow> string \<Rightarrow> string \<Rightarrow> string \<Rightarrow> string \<Rightarrow> string \<Rightarrow> string \<Rightarrow> auth_state \<Rightarrow> auth_state \<times> (http_error + unit)" where
  "setup_admin L C iv salt secret handle username password s =
     (if at_row s \<noteq> None then (s, Inl (Conflict ''Admin account is already configured''))
      else (s \<lparr> at_row := Some \<lparr> au_username = username, au_hash = Some (hash_password L salt password), au_password_on = True,
                 au_passkey_on = False, au_secret = Some (encrypt C iv secret), au_rp_id = None, au_rp_name = None, au_rp_origin = None,
                 au_handle = Some handle, au_tg_on = False, au_tg_client = None, au_tg_secret = None, au_tg_origin = None,
                 au_tg_user = None, au_tg_name = None \<rparr>, at_cached := Some secret \<rparr>, Inr ()))"

record auth_patch =
  aq_password :: "bool option"
  aq_passkey :: "bool option"
  aq_rp_id :: "string option"
  aq_rp_name :: "string option"
  aq_rp_origin :: "string option"
  aq_tg_on :: "bool option"
  aq_tg_client :: "string option"
  aq_tg_secret :: "string option"
  aq_tg_origin :: "string option"

text \<open>x || null, on a text.\<close>

definition nonempty :: "string \<Rightarrow> string option" where
  "nonempty s = (if s = [] then None else Some s)"

definition set_text :: "string option \<Rightarrow> string option \<Rightarrow> string option" where
  "set_text v old = (case v of None \<Rightarrow> old | Some s \<Rightarrow> nonempty s)"

definition set_trimmed :: "string option \<Rightarrow> string option \<Rightarrow> string option" where
  "set_trimmed v old = (case v of None \<Rightarrow> old | Some s \<Rightarrow> nonempty (trim s))"

definition new_secret :: "auth_patch \<Rightarrow> string option" where
  "new_secret q = (if truthy (aq_tg_secret q) then aq_tg_secret q else None)"

definition creds_changed :: "auth_patch \<Rightarrow> auth_row \<Rightarrow> bool" where
  "creds_changed q r = (set_text (aq_tg_client q) (au_tg_client r) \<noteq> au_tg_client r \<or>
     set_text (aq_tg_origin q) (au_tg_origin r) \<noteq> au_tg_origin r \<or> new_secret q \<noteq> None)"

definition patched_telegram :: "crypto_lib \<Rightarrow> string \<Rightarrow> auth_patch \<Rightarrow> auth_row \<Rightarrow> auth_row" where
  "patched_telegram C iv q r = (let changed = creds_changed q r in
     r \<lparr> au_tg_on := (if changed then False else coalesce (aq_tg_on q) (au_tg_on r)),
         au_tg_client := set_text (aq_tg_client q) (au_tg_client r),
         au_tg_secret := (case new_secret q of Some t \<Rightarrow> Some (encrypt C iv t) | None \<Rightarrow> au_tg_secret r),
         au_tg_origin := set_text (aq_tg_origin q) (au_tg_origin r),
         au_tg_user := (if changed then None else au_tg_user r),
         au_tg_name := (if changed then None else au_tg_name r) \<rparr>)"

definition methods_of :: "bool \<Rightarrow> bool \<Rightarrow> int \<Rightarrow> bool \<Rightarrow> sign_in_methods" where
  "methods_of password pk n tg = \<lparr> si_password = password, si_passkey = pk, si_passkeys = n, si_telegram = tg \<rparr>"

definition patched_row_of :: "crypto_lib \<Rightarrow> string \<Rightarrow> auth_patch \<Rightarrow> auth_row \<Rightarrow> auth_row" where
  "patched_row_of C iv q r = (patched_telegram C iv q r)
     \<lparr> au_password_on := coalesce (aq_password q) (au_password_on r), au_passkey_on := coalesce (aq_passkey q) (au_passkey_on r),
       au_rp_id := set_trimmed (aq_rp_id q) (au_rp_id r), au_rp_name := set_trimmed (aq_rp_name q) (au_rp_name r),
       au_rp_origin := set_trimmed (aq_rp_origin q) (au_rp_origin r) \<rparr>"

definition patch_config :: "crypto_lib \<Rightarrow> string \<Rightarrow> auth_patch \<Rightarrow> auth_state \<Rightarrow> auth_state \<times> (http_error + auth_view)" where
  "patch_config C iv q s = (case at_row s of None \<Rightarrow> (s, Inl not_configured)
     | Some r \<Rightarrow>
        (let tg = patched_telegram C iv q r in
         if \<not> creds_changed q r \<and> aq_tg_on q = Some True \<and> \<not> telegram_ready tg
         then (s, Inl (Bad_request ''Link your Telegram account first''))
         else (case assert_sign_in_possible (methods_of (coalesce (aq_password q) (au_password_on r))
                      (coalesce (aq_passkey q) (au_passkey_on r)) (int (length (at_passkeys s))) (telegram_usable tg)) of
             Some e \<Rightarrow> (s, Inl e)
           | None \<Rightarrow> let s' = s \<lparr> at_row := Some (patched_row_of C iv q r) \<rparr> in (s', get_config s'))))"

record telegram_client =
  tc_id :: string
  tc_secret :: string
  tc_origin :: string

definition get_telegram_client :: "crypto_lib \<Rightarrow> auth_row \<Rightarrow> telegram_client option" where
  "get_telegram_client C r =
     (if \<not> truthy (au_tg_client r) \<or> au_tg_secret r = None \<or> \<not> truthy (au_tg_origin r) then None
      else case decrypt C (the (au_tg_secret r)) of None \<Rightarrow> None
        | Some t \<Rightarrow> Some \<lparr> tc_id = the (au_tg_client r), tc_secret = t, tc_origin = the (au_tg_origin r) \<rparr>)"

definition link_telegram :: "string \<Rightarrow> string option \<Rightarrow> auth_state \<Rightarrow> auth_state" where
  "link_telegram user name s = s \<lparr> at_row := map_option (\<lambda>r. r \<lparr> au_tg_user := Some user, au_tg_name := name, au_tg_on := True \<rparr>) (at_row s) \<rparr>"

definition unlink_telegram :: "auth_state \<Rightarrow> auth_state \<times> (http_error + unit)" where
  "unlink_telegram s = (case at_row s of None \<Rightarrow> (s, Inl not_configured)
     | Some r \<Rightarrow> (case assert_sign_in_possible (methods_of (au_password_on r) (au_passkey_on r)
                       (int (length (at_passkeys s))) False) of
          Some e \<Rightarrow> (s, Inl e)
        | None \<Rightarrow> (s \<lparr> at_row := Some (r \<lparr> au_tg_user := None, au_tg_name := None, au_tg_on := False \<rparr>) \<rparr>, Inr ())))"

text \<open>getSessionSecret: fresh is the random value and iv the nonce of this call; a decryption failure throws.\<close>

definition session_secret :: "crypto_lib \<Rightarrow> string \<Rightarrow> string \<Rightarrow> auth_state \<Rightarrow> auth_state \<times> string option" where
  "session_secret C iv fresh s =
     (if truthy (at_cached s) then (s, at_cached s)
      else case at_row s of None \<Rightarrow> (s, Some fresh)
        | Some r \<Rightarrow> (case au_secret r of
            Some enc \<Rightarrow> (case decrypt C enc of None \<Rightarrow> (s, None) | Some t \<Rightarrow> (s \<lparr> at_cached := Some t \<rparr>, Some t))
          | None \<Rightarrow> (s \<lparr> at_row := Some (r \<lparr> au_secret := Some (encrypt C iv fresh) \<rparr>), at_cached := Some fresh \<rparr>, Some fresh)))"

section \<open>challenge.store.ts\<close>

definition TTL_MS :: ms where "TTL_MS = 60000"

definition put_challenge :: "ceremony \<Rightarrow> string \<Rightarrow> ms \<Rightarrow> auth_state \<Rightarrow> auth_state" where
  "put_challenge k c now s = s \<lparr> at_challenges := (at_challenges s)(k \<mapsto> \<lparr> ch_text = c, ch_expires = now + TTL_MS \<rparr>) \<rparr>"

definition take_challenge :: "ceremony \<Rightarrow> ms \<Rightarrow> auth_state \<Rightarrow> auth_state \<times> string option" where
  "take_challenge k now s = (s \<lparr> at_challenges := (at_challenges s)(k := None) \<rparr>,
     case at_challenges s k of None \<Rightarrow> None | Some e \<Rightarrow> if ch_expires e < now then None else Some (ch_text e))"

section \<open>auth.service.ts: passwords and sessions\<close>

definition SESSION_MAX_AGE_SEC :: int where "SESSION_MAX_AGE_SEC = 7 * 24 * 60 * 60"

text \<open>safeEqual compares digests.\<close>

definition safe_equal :: "auth_lib \<Rightarrow> string \<Rightarrow> string \<Rightarrow> bool" where
  "safe_equal L a b = (al_sha L a = al_sha L b)"

definition verify_credentials :: "auth_lib \<Rightarrow> string \<Rightarrow> string \<Rightarrow> auth_state \<Rightarrow> bool" where
  "verify_credentials L username password s = (case at_row s of None \<Rightarrow> False
     | Some r \<Rightarrow> au_password_on r \<and> safe_equal L username (au_username r) \<and> verify_password L password (au_hash r))"

text \<open>A session cookie; None when the stored secret cannot be read or is empty, which throws.\<close>

definition sign_session :: "auth_lib \<Rightarrow> crypto_lib \<Rightarrow> string \<Rightarrow> string \<Rightarrow> string \<Rightarrow> ms \<Rightarrow> auth_state \<Rightarrow> auth_state \<times> string option" where
  "sign_session L C iv fresh username now s =
     (let (s', k) = session_secret C iv fresh s in (s', Option.bind k (\<lambda>secret. al_sign L secret username now SESSION_MAX_AGE_SEC)))"

definition verify_session :: "auth_lib \<Rightarrow> crypto_lib \<Rightarrow> string \<Rightarrow> string \<Rightarrow> string option \<Rightarrow> ms \<Rightarrow> auth_state \<Rightarrow> auth_state \<times> string option" where
  "verify_session L C iv fresh cookie now s =
     (if \<not> truthy cookie then (s, None)
      else let (s', k) = session_secret C iv fresh s in
           (s', case k of None \<Rightarrow> None | Some secret \<Rightarrow>
             (case al_jwt L (the cookie) secret now of None \<Rightarrow> None
              | Some j \<Rightarrow> (case json_prop j ''u'' of Some (JStr u) \<Rightarrow> Some u | _ \<Rightarrow> None))))"

section \<open>Lemmas: passwords\<close>

lemma ccode_less: "ccode c < 256" by (simp add: ccode_def)

lemma char_of_ccode: "char_of (ccode c) = c" by (simp add: ccode_def)

lemma from_to_hex: "from_hex (to_hex s @ r) = s @ from_hex r"
proof (induction s)
  case (Cons c s)
  have "ccode c div 16 < 16" using ccode_less [of c] by simp
  then have "from_hex (hex_of_char c @ t) = c # from_hex t" for t
    by (simp add: hex_of_char_def hex_digit_value char_of_ccode)
  then show ?case using Cons by (simp add: to_hex_def)
qed (simp add: to_hex_def)

lemma from_to_hex' [simp]: "from_hex (to_hex s) = s" using from_to_hex [of s "[]"] by simp

lemma hex_digit_not_colon: "n < 16 \<Longrightarrow> not_colon (hex_digit n)"
proof -
  assume "n < 16"
  then have "ccode (hex_digit n) \<noteq> ccode (CHR '':'')" by (simp add: hex_digit_def ccode_char_of) (simp add: ccode_def)
  then show ?thesis by (auto simp: not_colon_def)
qed

lemma to_hex_not_colon: "\<forall>c\<in>set (to_hex s). not_colon c"
proof -
  have "ccode c div 16 < 16" for c using ccode_less [of c] by simp
  then show ?thesis by (auto simp: to_hex_def hex_of_char_def hex_digit_not_colon)
qed

lemma to_hex_empty [simp]: "(to_hex s = []) = (s = [])" by (cases s) (simp_all add: to_hex_def hex_of_char_def)

lemma split_hash: "takeWhile not_colon (to_hex a @ CHR '':'' # b) = to_hex a" "dropWhile not_colon (to_hex a @ CHR '':'' # b) = CHR '':'' # b"
  using to_hex_not_colon [of a] by (simp_all add: takeWhile_append dropWhile_append not_colon_def)

lemma hash_all: "takeWhile not_colon (to_hex b) = to_hex b"
  using to_hex_not_colon [of b] by (simp add: takeWhile_eq_all_conv)

lemma verify_hash:
  "auth_lib_ok L \<Longrightarrow> salt \<noteq> [] \<Longrightarrow>
   verify_password L p (Some (hash_password L salt q)) = (al_scrypt L p salt KEYLEN = al_scrypt L q salt KEYLEN)"
proof -
  assume L: "auth_lib_ok L" "salt \<noteq> []"
  have len: "length (al_scrypt L p salt n) = n" for p n using L by (simp add: auth_lib_ok_def)
  then have "al_scrypt L q salt KEYLEN \<noteq> []" by (metis KEYLEN_def list.size(3) zero_neq_numeral)
  then show ?thesis using L(2) len
    by (auto simp: verify_password_def hash_password_def split_hash hash_all Let_def)
qed

lemma safe_equal_eq: "auth_lib_ok L \<Longrightarrow> safe_equal L a b = (a = b)"
  by (auto simp: auth_lib_ok_def safe_equal_def inj_eq)

section \<open>Lemmas: the lockout guard\<close>

definition sign_in_possible :: "auth_state \<Rightarrow> bool" where
  "sign_in_possible s = (case at_row s of None \<Rightarrow> True
     | Some r \<Rightarrow> au_password_on r \<or> au_passkey_on r \<and> at_passkeys s \<noteq> [] \<or> telegram_usable r)"

lemma assert_sign_in_possible_None:
  "(assert_sign_in_possible (methods_of a b n t) = None) = (a \<or> b \<and> 0 < n \<or> t)"
  by (auto simp: assert_sign_in_possible_def methods_of_def)

lemma assert_sign_in_possible_Some:
  "assert_sign_in_possible m = Some e \<Longrightarrow> e = Bad_request lockout_message"
  by (auto simp: assert_sign_in_possible_def split: if_splits)

lemma patched_telegram_sel [simp]:
  "au_password_on (patched_telegram C iv q r) = au_password_on r" "au_passkey_on (patched_telegram C iv q r) = au_passkey_on r"
  "au_secret (patched_telegram C iv q r) = au_secret r" "au_username (patched_telegram C iv q r) = au_username r"
  "au_hash (patched_telegram C iv q r) = au_hash r" "au_handle (patched_telegram C iv q r) = au_handle r"
  by (simp_all add: patched_telegram_def Let_def)

lemma patched_row_sel [simp]:
  "au_password_on (patched_row_of C iv q r) = coalesce (aq_password q) (au_password_on r)"
  "au_passkey_on (patched_row_of C iv q r) = coalesce (aq_passkey q) (au_passkey_on r)"
  "au_secret (patched_row_of C iv q r) = au_secret r" "au_username (patched_row_of C iv q r) = au_username r"
  "au_hash (patched_row_of C iv q r) = au_hash r" "au_handle (patched_row_of C iv q r) = au_handle r"
  "telegram_usable (patched_row_of C iv q r) = telegram_usable (patched_telegram C iv q r)"
  by (simp_all add: patched_row_of_def telegram_usable_def telegram_ready_def)

lemma patch_config_cases:
  "(\<exists>e. patch_config C iv q s = (s, Inl e)) \<or>
   (\<exists>r. at_row s = Some r \<and> patch_config C iv q s = (s \<lparr> at_row := Some (patched_row_of C iv q r) \<rparr>, Inr (view_of (patched_row_of C iv q r))) \<and>
      (coalesce (aq_password q) (au_password_on r) \<or> coalesce (aq_passkey q) (au_passkey_on r) \<and> at_passkeys s \<noteq> [] \<or>
       telegram_usable (patched_telegram C iv q r)))"
  by (auto simp: patch_config_def Let_def get_config_def assert_sign_in_possible_None split: option.splits if_splits)

lemma sign_in_patch: "sign_in_possible s \<Longrightarrow> sign_in_possible (fst (patch_config C iv q s))"
  using patch_config_cases [of C iv q s] by (auto simp: sign_in_possible_def split: option.splits)

lemma sign_in_setup: "sign_in_possible s \<Longrightarrow> sign_in_possible (fst (setup_admin L C iv salt secret handle u p s))"
  by (cases "at_row s") (auto simp: sign_in_possible_def setup_admin_def)

lemma unlink_cases:
  "(\<exists>e. unlink_telegram s = (s, Inl e)) \<or>
   (\<exists>r. at_row s = Some r \<and> unlink_telegram s = (s \<lparr> at_row := Some (r \<lparr> au_tg_user := None, au_tg_name := None, au_tg_on := False \<rparr>) \<rparr>, Inr ()) \<and>
      (au_password_on r \<or> au_passkey_on r \<and> at_passkeys s \<noteq> []))"
  by (auto simp: unlink_telegram_def assert_sign_in_possible_None split: option.splits)

lemma sign_in_unlink: "sign_in_possible s \<Longrightarrow> sign_in_possible (fst (unlink_telegram s))"
  using unlink_cases [of s] by (auto simp: sign_in_possible_def split: option.splits)

lemma sign_in_link: "sign_in_possible s \<Longrightarrow> user \<noteq> [] \<Longrightarrow> sign_in_possible (link_telegram user name s)"
  by (auto simp: sign_in_possible_def link_telegram_def telegram_usable_def telegram_ready_def truthy_def split: option.splits)

lemma session_secret_row:
  "at_row (fst (session_secret C iv k s)) = at_row s \<or> (\<exists>r. at_row s = Some r \<and> au_secret r = None \<and>
     at_row (fst (session_secret C iv k s)) = Some (r \<lparr> au_secret := Some (encrypt C iv k) \<rparr>))"
  by (auto simp: session_secret_def split: option.splits)

lemma session_secret_frame [simp]:
  "at_passkeys (fst (session_secret C iv k s)) = at_passkeys s" "at_tokens (fst (session_secret C iv k s)) = at_tokens s"
  "at_challenges (fst (session_secret C iv k s)) = at_challenges s"
  by (auto simp: session_secret_def split: option.splits)

lemma sign_in_secret: "sign_in_possible s \<Longrightarrow> sign_in_possible (fst (session_secret C iv k s))"
  using session_secret_row [of C iv k s] by (auto simp: sign_in_possible_def telegram_usable_def telegram_ready_def split: option.splits)

section \<open>Lemmas: the session secret\<close>

definition stored_secret :: "crypto_lib \<Rightarrow> auth_state \<Rightarrow> string option" where
  "stored_secret C s = (case at_row s of None \<Rightarrow> None | Some r \<Rightarrow> Option.bind (au_secret r) (decrypt C))"

text \<open>The cache agrees with the row.\<close>

definition cache_ok :: "crypto_lib \<Rightarrow> auth_state \<Rightarrow> bool" where
  "cache_ok C s = (case at_cached s of None \<Rightarrow> True | Some t \<Rightarrow> stored_secret C s = Some t)"

lemma session_secret_value: "cache_ok C s \<Longrightarrow> stored_secret C s = Some t \<Longrightarrow> snd (session_secret C iv k s) = Some t"
  by (auto simp: cache_ok_def stored_secret_def session_secret_def split: option.splits bind_split_asm)

lemma session_secret_stored:
  "stored_secret C s = Some t \<Longrightarrow> stored_secret C (fst (session_secret C iv k s)) = Some t"
  by (auto simp: stored_secret_def session_secret_def split: option.splits bind_split_asm)

lemma session_secret_cache:
  "crypto_ok C \<Longrightarrow> length iv = IV_LENGTH \<Longrightarrow> cache_ok C s \<Longrightarrow> cache_ok C (fst (session_secret C iv k s))"
  by (auto simp: cache_ok_def stored_secret_def session_secret_def decrypt_encrypt split: option.splits bind_split_asm)

lemma stored_secret_row: "map_option au_secret (at_row s') = map_option au_secret (at_row s) \<Longrightarrow> stored_secret C s' = stored_secret C s"
  by (auto simp: stored_secret_def split: option.splits)

lemma cache_ok_frame: "at_cached s' = at_cached s \<Longrightarrow> stored_secret C s' = stored_secret C s \<Longrightarrow> cache_ok C s' = cache_ok C s"
  by (simp add: cache_ok_def split: option.split)

lemma sign_then_verify:
  assumes "auth_lib_ok L" "cache_ok C s" "stored_secret C s = Some k" "cache_ok C s'" "stored_secret C s' = Some k" "k \<noteq> []"
    and "snd (sign_session L C iv fresh u now s) = Some cookie"
  shows "snd (verify_session L C iv' fresh' (Some cookie) now' s') =
    (if now' div 1000 < now div 1000 + SESSION_MAX_AGE_SEC then Some u else None)"
proof -
  have c: "al_sign L k u now SESSION_MAX_AGE_SEC = Some cookie"
    using session_secret_value [OF assms(2,3)] assms(7) by (simp add: sign_session_def case_prod_beta)
  have "jwt_ok L" using assms(1) by (simp add: auth_lib_ok_def)
  then have "cookie \<noteq> []" "if now' div 1000 < now div 1000 + SESSION_MAX_AGE_SEC
      then \<exists>j. al_jwt L cookie k now' = Some j \<and> json_prop j ''u'' = Some (JStr u) else al_jwt L cookie k now' = None"
    using assms(6) c unfolding jwt_ok_def by (metis option.inject)+
  then show ?thesis using session_secret_value [OF assms(4,5), of iv' fresh']
    by (auto simp: verify_session_def case_prod_beta split: if_splits)
qed

section \<open>One-shot stores\<close>

text \<open>What a ceremony relies on: a challenge is given out once, within its time, to its own kind.\<close>

locale one_shot =
  fixes put :: "'k \<Rightarrow> 'c \<Rightarrow> ms \<Rightarrow> 's \<Rightarrow> 's" and get :: "'k \<Rightarrow> ms \<Rightarrow> 's \<Rightarrow> 's \<times> 'c option" and ttl :: ms
  assumes get_put: "snd (get k now (put k c t s)) = (if t + ttl < now then None else Some c)"
    and get_put_other: "k \<noteq> k' \<Longrightarrow> snd (get k now (put k' c t s)) = snd (get k now s)"
    and get_get: "snd (get k now (fst (get k t s))) = None"
    and get_get_other: "k \<noteq> k' \<Longrightarrow> snd (get k now (fst (get k' t s))) = snd (get k now s)"
begin

text \<open>A store that has nothing for a kind.\<close>

definition spent :: "'k \<Rightarrow> 's \<Rightarrow> bool" where
  "spent k s = (\<forall>now. snd (get k now s) = None)"

lemma spent_get: "spent k (fst (get k t s))" by (simp add: spent_def get_get)

lemma spent_get_any: "spent k s \<Longrightarrow> spent k (fst (get k' t s))"
  by (cases "k = k'") (simp_all add: spent_def get_get get_get_other)

lemma spent_put_other: "k \<noteq> k' \<Longrightarrow> spent k s \<Longrightarrow> spent k (put k' c t s)"
  by (simp add: spent_def get_put_other)

lemma no_replay: "spent k (fold (\<lambda>(k', t) s. fst (get k' t s)) ops (fst (get k t s)))"
proof -
  have "spent k s' \<Longrightarrow> spent k (fold (\<lambda>(k', t) s. fst (get k' t s)) ops s')" for s'
    by (induction ops arbitrary: s') (auto simp: spent_get_any)
  then show ?thesis by (simp add: spent_get)
qed

lemma got_put: "snd (get k now (put k c t s)) = Some c' \<Longrightarrow> c' = c \<and> now \<le> t + ttl"
  by (simp add: get_put split: if_splits)

end

interpretation cs: one_shot put_challenge take_challenge TTL_MS
  by unfold_locales (auto simp: put_challenge_def take_challenge_def)

section \<open>Sample values\<close>

text \<open>Tokens that carry their second of expiry in decimal, and the name.\<close>

definition plain_sign :: "string \<Rightarrow> int \<Rightarrow> string" where
  "plain_sign u e = (if e < 0 then CHR ''-'' else CHR ''+'') # nat_text (nat \<bar>e\<bar>) @ CHR ''.'' # u"

definition plain_expiry :: "string \<Rightarrow> int" where
  "plain_expiry c = (let n = int (number_of_digits (takeWhile is_digit (tl c))) in if hd c = CHR ''-'' then - n else n)"

lemma plain_sign_reads: "plain_expiry (plain_sign u e) = e" "tl (dropWhile is_digit (tl (plain_sign u e))) = u"
proof -
  have d: "\<not> is_digit (CHR ''.'')" by code_simp
  show "plain_expiry (plain_sign u e) = e" using nat_text_digits d
    by (simp add: plain_expiry_def plain_sign_def takeWhile_append nat_text_value)
  show "tl (dropWhile is_digit (tl (plain_sign u e))) = u" using nat_text_digits d
    by (simp add: plain_sign_def dropWhile_append)
qed

definition plain_auth :: auth_lib where
  "plain_auth = \<lparr> al_scrypt = (\<lambda>p s n. take n (p @ replicate n (CHR ''-''))), al_sha = (\<lambda>s. s),
     al_sign = (\<lambda>k u t d. if k = [] then None else Some (plain_sign u (t div 1000 + d))),
     al_jwt = (\<lambda>c k now. if k \<noteq> [] \<and> now div 1000 < plain_expiry c
        then Some (JObj [(''u'', JStr (tl (dropWhile is_digit (tl c))))]) else None) \<rparr>"

lemma plain_auth_ok: "auth_lib_ok plain_auth"
proof -
  have "length (al_scrypt plain_auth p s n) = n" for p s n by (auto simp: plain_auth_def)
  moreover have "inj (al_sha plain_auth)" by (simp add: plain_auth_def inj_on_def)
  moreover have "plain_sign u e \<noteq> []" for u e by (simp add: plain_sign_def)
  then have "jwt_ok plain_auth" by (simp add: jwt_ok_def plain_auth_def plain_sign_reads json_prop_def)
  ultimately show ?thesis by (simp add: auth_lib_ok_def)
qed

definition owner_row :: auth_row where
  "owner_row = \<lparr> au_username = ''owner'', au_hash = Some (hash_password plain_auth ''salt'' ''password''), au_password_on = True,
     au_passkey_on = False, au_secret = Some (encrypt plain_crypto sample_iv ''key''), au_rp_id = None, au_rp_name = None, au_rp_origin = None,
     au_handle = Some ''handle'', au_tg_on = False, au_tg_client = None, au_tg_secret = None, au_tg_origin = None,
     au_tg_user = None, au_tg_name = None \<rparr>"

definition owner_state :: auth_state where
  "owner_state = \<lparr> at_row = Some owner_row, at_passkeys = [], at_tokens = [], at_challenges = (\<lambda>_. None), at_cached = None \<rparr>"

end
