(* ===== verification/Signin.thy ===== *)
theory Signin
  imports Auth
begin

text \<open>
  The ways in: the passkey ceremonies of auth/webauthn.service.ts with auth/passkey-name.util.ts, the
  API tokens of api-tokens/, and auth/auth.guard.ts, which admits a request by a token or by a
  session.  The ceremonies' cryptographic checks (simplewebauthn) are the fields of webauthn_lib; a
  dash in a message stands for the long one of the source.
\<close>

section \<open>passkey-name.util.ts\<close>

definition passkey_slot :: "nat \<Rightarrow> string" where
  "passkey_slot n = ''Passkey '' @ nat_text n"

lemma passkey_slot_inj: "(passkey_slot m = passkey_slot n) = (m = n)"
proof -
  have "nat_text m = nat_text n \<Longrightarrow> m = n" using nat_text_value by metis
  then show ?thesis by (auto simp: passkey_slot_def)
qed

text \<open>The slots from n on that are taken.\<close>

definition taken_slots :: "string list \<Rightarrow> nat \<Rightarrow> nat set" where
  "taken_slots taken n = {m. n \<le> m \<and> passkey_slot m \<in> set taken}"

lemma taken_slots_finite: "finite (taken_slots taken n)"
proof -
  have "inj_on passkey_slot (taken_slots taken n)" by (simp add: inj_on_def passkey_slot_inj)
  moreover have "passkey_slot ` taken_slots taken n \<subseteq> set taken" by (auto simp: taken_slots_def)
  ultimately show ?thesis by (meson finite_set inj_on_finite)
qed

lemma taken_slots_step: "passkey_slot n \<in> set taken \<Longrightarrow> taken_slots taken n = insert n (taken_slots taken (n + 1))"
  by (auto simp: taken_slots_def)

function free_slot :: "string list \<Rightarrow> nat \<Rightarrow> nat" where
  "free_slot taken n = (if passkey_slot n \<in> set taken then free_slot taken (n + 1) else n)"
  by pat_completeness auto

termination
proof (relation "measure (\<lambda>(taken, n). card (taken_slots taken n))")
  fix taken n
  assume "passkey_slot n \<in> set taken"
  then show "((taken, n + 1), taken, n) \<in> measure (\<lambda>(taken, n). card (taken_slots taken n))"
    using taken_slots_step [of n taken] taken_slots_finite [of taken "n + 1"]
    by (simp add: card_insert_if) (simp add: taken_slots_def)
qed simp

declare free_slot.simps [simp del]

definition next_passkey_name :: "string option list \<Rightarrow> string" where
  "next_passkey_name existing =
     (let taken = map the (filter truthy existing) in
      if ''Passkey'' \<notin> set taken then ''Passkey'' else passkey_slot (free_slot taken 2))"

lemma free_slot_spec:
  "n \<le> free_slot taken n \<and> passkey_slot (free_slot taken n) \<notin> set taken \<and>
   (\<forall>m. n \<le> m \<longrightarrow> m < free_slot taken n \<longrightarrow> passkey_slot m \<in> set taken)"
proof (induction taken n rule: free_slot.induct)
  case (1 taken n)
  show ?case
  proof (cases "passkey_slot n \<in> set taken")
    case True
    then have "free_slot taken n = free_slot taken (n + 1)" by (subst free_slot.simps) simp
    then show ?thesis using 1 [OF True] True by (auto simp: Suc_le_eq) (metis Suc_leI le_neq_implies_less)
  next
    case False
    then have "free_slot taken n = n" by (subst free_slot.simps) simp
    then show ?thesis using False by simp
  qed
qed

section \<open>webauthn.service.ts\<close>

record credential =
  cr_id :: string
  cr_key :: string
  cr_counter :: nat
  cr_transports :: "string list option"

record registration =
  rg_credential :: credential
  rg_device :: string
  rg_backed_up :: bool

record login_response =
  lr_id :: string
  lr_body :: string

text \<open>The checks of an answer against the expected challenge, origins and RP id.  The left of a sum
  is an error thrown by the library, None an answer that is not verified.\<close>

record webauthn_lib =
  wl_register :: "string \<Rightarrow> string \<Rightarrow> string list \<Rightarrow> string \<Rightarrow> string + registration option"
  wl_login :: "login_response \<Rightarrow> string \<Rightarrow> string list \<Rightarrow> string \<Rightarrow> credential \<Rightarrow> string + nat option"

definition require_row :: "auth_state \<Rightarrow> http_error + auth_row" where
  "require_row s = (case at_row s of None \<Rightarrow> Inl not_configured | Some r \<Rightarrow> Inr r)"

record relying_party =
  rp_id :: string
  rp_name :: string
  rp_origins :: "string list"

definition comma_list :: "string \<Rightarrow> string list" where
  "comma_list s = filter (\<lambda>t. t \<noteq> []) (map trim (split_on (CHR '','') s))"

definition require_rp :: "auth_row \<Rightarrow> http_error + relying_party" where
  "require_rp r =
     (if \<not> truthy (au_rp_id r) \<or> \<not> truthy (au_rp_origin r)
      then Inl (Bad_request ''Configure passkey settings (Relying Party ID and Origin) before using passkeys'')
      else Inr \<lparr> rp_id = the (au_rp_id r), rp_name = (if truthy (au_rp_name r) then the (au_rp_name r) else the (au_rp_id r)),
             rp_origins = comma_list (the (au_rp_origin r)) \<rparr>)"

definition split_transports :: "string option \<Rightarrow> string list option" where
  "split_transports csv = (if truthy csv then Some (comma_list (the csv)) else None)"

record register_challenge =
  rc_rp_name :: string
  rc_rp_id :: string
  rc_user :: string
  rc_handle :: "string option"
  rc_exclude :: "(string \<times> string list option) list"
  rc_challenge :: string

text \<open>The challenge is drawn by the library; it is an argument here.\<close>

definition register_options :: "string \<Rightarrow> ms \<Rightarrow> auth_state \<Rightarrow> auth_state \<times> (http_error + register_challenge)" where
  "register_options c now s = (case require_row s of Inl e \<Rightarrow> (s, Inl e)
     | Inr r \<Rightarrow> (case require_rp r of Inl e \<Rightarrow> (s, Inl e)
       | Inr rp \<Rightarrow> (put_challenge Register c now s,
           Inr \<lparr> rc_rp_name = rp_name rp, rc_rp_id = rp_id rp, rc_user = au_username r, rc_handle = au_handle r,
                 rc_exclude = map (\<lambda>p. (pk_credential p, split_transports (pk_transports p))) (at_passkeys s), rc_challenge = c \<rparr>)))"

record passkey_dto =
  pd_uuid :: uuid
  pd_name :: "string option"
  pd_device :: "string option"
  pd_backed_up :: bool
  pd_created :: ms
  pd_last_used :: "ms option"

definition to_passkey_dto :: "passkey \<Rightarrow> passkey_dto" where
  "to_passkey_dto p = \<lparr> pd_uuid = pk_uuid p, pd_name = pk_name p, pd_device = pk_device p, pd_backed_up = pk_backed_up p,
     pd_created = pk_created p, pd_last_used = pk_last_used p \<rparr>"

text \<open>passkeys.repository.ts: the credential id is unique.\<close>

definition create_passkey :: "passkey \<Rightarrow> auth_state \<Rightarrow> auth_state \<times> (http_error + passkey)" where
  "create_passkey p s = (if pk_credential p \<in> pk_credential ` set (at_passkeys s)
     then (s, Inl (Internal_error ''Unique constraint failed'')) else (s \<lparr> at_passkeys := at_passkeys s @ [p] \<rparr>, Inr p))"

definition record_login :: "uuid \<Rightarrow> nat \<Rightarrow> ms \<Rightarrow> auth_state \<Rightarrow> auth_state" where
  "record_login u n now s = s \<lparr> at_passkeys := map (\<lambda>p. if pk_uuid p = u then p \<lparr> pk_counter := n, pk_last_used := Some now \<rparr> else p) (at_passkeys s) \<rparr>"

definition drop_passkey :: "uuid \<Rightarrow> auth_state \<Rightarrow> auth_state" where
  "drop_passkey u s = s \<lparr> at_passkeys := filter (\<lambda>p. pk_uuid p \<noteq> u) (at_passkeys s) \<rparr>"

definition passkey_label :: "string option \<Rightarrow> auth_state \<Rightarrow> string" where
  "passkey_label name s = (let label = map_option trim name in
     if truthy label then the label else next_passkey_name (map pk_name (at_passkeys s)))"

definition new_passkey :: "uuid \<Rightarrow> registration \<Rightarrow> string \<Rightarrow> ms \<Rightarrow> passkey" where
  "new_passkey u g label now = \<lparr> pk_uuid = u, pk_credential = cr_id (rg_credential g), pk_key = cr_key (rg_credential g),
     pk_counter = cr_counter (rg_credential g), pk_transports = map_option (join_with '','') (cr_transports (rg_credential g)),
     pk_device = Some (rg_device g), pk_backed_up = rg_backed_up g, pk_name = Some label, pk_created = now, pk_last_used = None \<rparr>"

definition verify_registration :: "webauthn_lib \<Rightarrow> (uuid list \<Rightarrow> uuid) \<Rightarrow> string \<Rightarrow> string option \<Rightarrow> ms \<Rightarrow> auth_state
    \<Rightarrow> auth_state \<times> (http_error + passkey_dto)" where
  "verify_registration W G response name now s = (case require_row s of Inl e \<Rightarrow> (s, Inl e)
     | Inr r \<Rightarrow> (case require_rp r of Inl e \<Rightarrow> (s, Inl e)
       | Inr rp \<Rightarrow> (case take_challenge Register now s of
           (s1, None) \<Rightarrow> (s1, Inl (Bad_request ''Registration challenge expired - start again''))
         | (s1, Some c) \<Rightarrow>
            if c = [] then (s1, Inl (Bad_request ''Registration challenge expired - start again''))
            else (case wl_register W response c (rp_origins rp) (rp_id rp) of
              Inl m \<Rightarrow> (s1, Inl (Internal_error m))
            | Inr None \<Rightarrow> (s1, Inl (Bad_request ''Passkey registration could not be verified''))
            | Inr (Some g) \<Rightarrow>
               (case create_passkey (new_passkey (G (map pk_uuid (at_passkeys s1))) g (passkey_label name s1) now) s1 of
                  (s2, Inl e) \<Rightarrow> (s2, Inl e) | (s2, Inr p) \<Rightarrow> (s2, Inr (to_passkey_dto p)))))))"

definition login_options :: "string \<Rightarrow> ms \<Rightarrow> auth_state \<Rightarrow> auth_state \<times> (http_error + string \<times> string)" where
  "login_options c now s = (case require_row s of Inl e \<Rightarrow> (s, Inl e)
     | Inr r \<Rightarrow>
        if \<not> au_passkey_on r then (s, Inl (Unauthorized ''Passkey login is disabled''))
        else if length (at_passkeys s) = 0 then (s, Inl (Unauthorized ''No passkeys registered''))
        else (case require_rp r of Inl e \<Rightarrow> (s, Inl e) | Inr rp \<Rightarrow> (put_challenge Login c now s, Inr (rp_id rp, c))))"

definition credential_of :: "passkey \<Rightarrow> credential" where
  "credential_of p = \<lparr> cr_id = pk_credential p, cr_key = pk_key p, cr_counter = pk_counter p, cr_transports = split_transports (pk_transports p) \<rparr>"

definition find_by_credential :: "string \<Rightarrow> auth_state \<Rightarrow> passkey option" where
  "find_by_credential c s = List.find (\<lambda>p. pk_credential p = c) (at_passkeys s)"

definition verify_login :: "webauthn_lib \<Rightarrow> login_response \<Rightarrow> ms \<Rightarrow> auth_state \<Rightarrow> auth_state \<times> (http_error + string)" where
  "verify_login W response now s = (case require_row s of Inl e \<Rightarrow> (s, Inl e)
     | Inr r \<Rightarrow>
        if \<not> au_passkey_on r then (s, Inl (Unauthorized ''Passkey login is disabled''))
        else (case require_rp r of Inl e \<Rightarrow> (s, Inl e)
        | Inr rp \<Rightarrow> (case take_challenge Login now s of
            (s1, None) \<Rightarrow> (s1, Inl (Bad_request ''Login challenge expired - try again''))
          | (s1, Some c) \<Rightarrow>
             if c = [] then (s1, Inl (Bad_request ''Login challenge expired - try again''))
             else (case find_by_credential (lr_id response) s1 of
               None \<Rightarrow> (s1, Inl (Unauthorized ''Unknown passkey''))
             | Some p \<Rightarrow> (case wl_login W response c (rp_origins rp) (rp_id rp) (credential_of p) of
                 Inl m \<Rightarrow> (s1, Inl (Internal_error m))
               | Inr None \<Rightarrow> (s1, Inl (Unauthorized ''Passkey verification failed''))
               | Inr (Some n) \<Rightarrow>
                  if n \<noteq> 0 \<and> n \<le> pk_counter p then (s1, Inl (Unauthorized ''Passkey counter regression''))
                  else (record_login (pk_uuid p) n now s1, Inr (au_username r)))))))"

definition list_passkeys :: "auth_state \<Rightarrow> passkey_dto list" where
  "list_passkeys s = map to_passkey_dto (at_passkeys s)"

text \<open>delete: the guard, whose reads come first, and the removal of the row.\<close>

definition delete_check :: "uuid \<Rightarrow> auth_state \<Rightarrow> http_error option" where
  "delete_check u s = (case require_row s of Inl e \<Rightarrow> Some e
     | Inr r \<Rightarrow> if u \<notin> pk_uuid ` set (at_passkeys s) then Some (Not_found ''Passkey not found'')
        else assert_sign_in_possible (methods_of (au_password_on r) (au_passkey_on r) (int (length (at_passkeys s)) - 1) (telegram_usable r)))"

definition delete_passkey :: "uuid \<Rightarrow> auth_state \<Rightarrow> auth_state \<times> (http_error + unit)" where
  "delete_passkey u s = (case delete_check u s of Some e \<Rightarrow> (s, Inl e) | None \<Rightarrow> (drop_passkey u s, Inr ()))"

section \<open>API tokens\<close>

record token_dto =
  td_uuid :: uuid
  td_name :: string
  td_prefix :: string
  td_scope :: string
  td_last_used :: "ms option"
  td_created :: ms

definition map_api_token :: "api_token \<Rightarrow> token_dto" where
  "map_api_token t = \<lparr> td_uuid = tk_uuid t, td_name = tk_name t, td_prefix = tk_prefix t, td_scope = tk_scope t,
     td_last_used = tk_last_used t, td_created = tk_created t \<rparr>"

definition hash_token :: "auth_lib \<Rightarrow> string \<Rightarrow> string" where "hash_token L token = to_hex (al_sha L token)"

definition token_prefix :: "string \<Rightarrow> string" where "token_prefix token = take 11 token"

definition list_tokens :: "auth_state \<Rightarrow> token_dto list" where
  "list_tokens s = map map_api_token (rev (at_tokens s))"

definition create_token :: "auth_lib \<Rightarrow> (uuid list \<Rightarrow> uuid) \<Rightarrow> string \<Rightarrow> string \<Rightarrow> string \<Rightarrow> ms \<Rightarrow> auth_state
    \<Rightarrow> auth_state \<times> (http_error + token_dto \<times> string)" where
  "create_token L G token name scope now s =
     (if hash_token L token \<in> tk_hash ` set (at_tokens s) then (s, Inl (Internal_error ''Unique constraint failed''))
      else let t = \<lparr> tk_uuid = G (map tk_uuid (at_tokens s)), tk_name = name, tk_hash = hash_token L token, tk_prefix = token_prefix token,
                     tk_scope = scope, tk_created = now, tk_last_used = None \<rparr>
           in (s \<lparr> at_tokens := at_tokens s @ [t] \<rparr>, Inr (map_api_token t, token)))"

definition remove_token :: "uuid \<Rightarrow> auth_state \<Rightarrow> auth_state \<times> (http_error + unit)" where
  "remove_token u s = (if u \<notin> tk_uuid ` set (at_tokens s) then (s, Inl (Not_found ''API token not found''))
     else (s \<lparr> at_tokens := filter (\<lambda>t. tk_uuid t \<noteq> u) (at_tokens s) \<rparr>, Inr ()))"

definition touch_last_used :: "uuid \<Rightarrow> ms \<Rightarrow> auth_state \<Rightarrow> auth_state" where
  "touch_last_used u now s = s \<lparr> at_tokens := map (\<lambda>t. if tk_uuid t = u then t \<lparr> tk_last_used := Some now \<rparr> else t) (at_tokens s) \<rparr>"

definition verify_api_token :: "auth_lib \<Rightarrow> string option \<Rightarrow> ms \<Rightarrow> auth_state \<Rightarrow> auth_state \<times> (string \<times> string) option" where
  "verify_api_token L token now s =
     (if \<not> truthy token then (s, None)
      else case List.find (\<lambda>t. tk_hash t = hash_token L (the token)) (at_tokens s) of None \<Rightarrow> (s, None)
        | Some t \<Rightarrow> (case tk_last_used t of
            None \<Rightarrow> touch_last_used (tk_uuid t) now s
          | Some u \<Rightarrow> if now - u > 60000 then touch_last_used (tk_uuid t) now s else s, Some (tk_name t, tk_scope t)))"

section \<open>auth.guard.ts\<close>

definition line_break :: "char \<Rightarrow> bool" where "line_break c = (c = CHR 0x0A \<or> c = CHR 0x0D)"

text \<open>The header against ^Bearer, white space, the rest; the token is the trimmed rest.\<close>

definition bearer_token :: "string option \<Rightarrow> string option" where
  "bearer_token header = (case header of None \<Rightarrow> None
     | Some h \<Rightarrow> let r = drop 6 h; body = dropWhile js_space r; t = trim body in
        if to_lower (take 6 h) = ''bearer'' \<and> takeWhile js_space r \<noteq> [] \<and> body \<noteq> [] \<and> \<not> list_ex line_break body \<and> t \<noteq> []
        then Some t else None)"

record route =
  rt_public :: bool
  rt_session_only :: bool
  rt_allow_read_only :: bool

record http_request =
  rq_method :: string
  rq_authorization :: "string option"
  rq_cookie :: "string option"

datatype auth_type = Session | Token

record identity =
  id_user :: string
  id_type :: auth_type
  id_scope :: "string option"

definition READ_METHODS :: "string list" where "READ_METHODS = [''GET'', ''HEAD'']"

text \<open>Who asks: the token first, then the session cookie.\<close>

definition identify :: "auth_lib \<Rightarrow> crypto_lib \<Rightarrow> string \<Rightarrow> string \<Rightarrow> http_request \<Rightarrow> ms \<Rightarrow> auth_state \<Rightarrow> auth_state \<times> identity option" where
  "identify L C iv fresh q now s =
     (let (s1, token) = verify_api_token L (bearer_token (rq_authorization q)) now s in
      case token of Some (name, scope) \<Rightarrow> (s1, Some \<lparr> id_user = name, id_type = Token, id_scope = Some scope \<rparr>)
      | None \<Rightarrow> let (s2, user) = verify_session L C iv fresh (rq_cookie q) now s1 in
          (s2, if truthy user then Some \<lparr> id_user = the user, id_type = Session, id_scope = None \<rparr> else None))"

definition admit :: "route \<Rightarrow> string \<Rightarrow> identity option \<Rightarrow> http_error + identity" where
  "admit rt meth who = (case who of None \<Rightarrow> Inl (Unauthorized ''Unauthorized'')
     | Some i \<Rightarrow>
        if rt_session_only rt \<and> id_type i = Token then Inl (Forbidden ''Admin session required'')
        else if id_scope i = Some ''read'' \<and> meth \<notin> set READ_METHODS \<and> \<not> rt_allow_read_only rt
        then Inl (Forbidden ''Read-only API token'') else Inr i)"

definition can_activate :: "auth_lib \<Rightarrow> crypto_lib \<Rightarrow> string \<Rightarrow> string \<Rightarrow> route \<Rightarrow> http_request \<Rightarrow> ms \<Rightarrow> auth_state
    \<Rightarrow> auth_state \<times> (http_error + identity option)" where
  "can_activate L C iv fresh rt q now s =
     (if rt_public rt then (s, Inr None)
      else let (s', who) = identify L C iv fresh q now s in
           (s', case admit rt (rq_method q) who of Inl e \<Rightarrow> Inl e | Inr i \<Rightarrow> Inr (Some i)))"

section \<open>Properties\<close>

text \<open>The name a passkey gets without one is free and the lowest free: the plain name if no passkey
  has it, else the first number from two on that none has; the search ends for every list.\<close>

theorem next_passkey_name_spec:
  "Some (next_passkey_name existing) \<notin> set existing \<and>
   (next_passkey_name existing = ''Passkey'' \<or> (Some ''Passkey'' \<in> set existing \<and>
     (\<exists>n\<ge>2. next_passkey_name existing = passkey_slot n \<and> (\<forall>m. 2 \<le> m \<longrightarrow> m < n \<longrightarrow> Some (passkey_slot m) \<in> set existing))))"
proof -
  let ?taken = "map the (filter truthy existing)"
  have t: "(x \<in> set ?taken) = (x \<noteq> [] \<and> Some x \<in> set existing)" for x
    by (force simp: truthy_def split: option.splits)
  have ne: "passkey_slot n \<noteq> []" for n by (simp add: passkey_slot_def)
  show ?thesis
  proof (cases "''Passkey'' \<in> set ?taken")
    case True
    then have "next_passkey_name existing = passkey_slot (free_slot ?taken 2)" by (simp add: next_passkey_name_def)
    then show ?thesis using free_slot_spec [of 2 ?taken] True ne unfolding t by auto
  qed (use t in \<open>auto simp: next_passkey_name_def\<close>)
qed

theorem next_passkey_name_spec_witness:
  "next_passkey_name [Some ''Passkey 2'', None, Some ''Passkey''] = ''Passkey 3''"
proof -
  have s: "passkey_slot 2 = ''Passkey 2''" "passkey_slot 3 = ''Passkey 3''" by code_simp+
  have "next_passkey_name [Some ''Passkey 2'', None, Some ''Passkey''] = passkey_slot (free_slot [''Passkey 2'', ''Passkey''] 2)"
    by (simp add: next_passkey_name_def)
  moreover have "free_slot [''Passkey 2'', ''Passkey''] 2 = free_slot [''Passkey 2'', ''Passkey''] 3"
    by (subst free_slot.simps) (simp add: s)
  moreover have "free_slot [''Passkey 2'', ''Passkey''] 3 = 3"
    by (subst free_slot.simps) (simp add: s)
  ultimately show ?thesis using next_passkey_name_spec [of "[Some ''Passkey 2'', None, Some ''Passkey'']"] s by simp
qed

end
