(* ===== verification/Base64.thy ===== *)
theory Base64
  imports Json
begin

text \<open>
  The two encodings of a URL the server writes: base64url of Buffer.toString and Buffer.from, and the
  form encoding of URLSearchParams.  A byte is a character of the Latin-1 range.  Reading skips the
  characters outside both base64 alphabets, as Buffer.from does.
\<close>

section \<open>base64url\<close>

definition b64_digit :: "nat \<Rightarrow> char" where
  "b64_digit n = (if n < 26 then char_of (65 + n) else if n < 52 then char_of (71 + n)
     else if n < 62 then char_of (n - 4) else if n = 62 then CHR ''-'' else CHR ''_'')"

definition b64_value :: "char \<Rightarrow> nat option" where
  "b64_value c = (let n = ccode c in
     if 65 \<le> n \<and> n \<le> 90 then Some (n - 65) else if 97 \<le> n \<and> n \<le> 122 then Some (n - 71)
     else if 48 \<le> n \<and> n \<le> 57 then Some (n + 4) else if n = 45 \<or> n = 43 then Some 62
     else if n = 95 \<or> n = 47 then Some 63 else None)"

fun sextets :: "nat list \<Rightarrow> nat list" where
  "sextets (a # b # c # r) = a div 4 # (a mod 4 * 16 + b div 16) # (b mod 16 * 4 + c div 64) # c mod 64 # sextets r"
| "sextets [a, b] = [a div 4, a mod 4 * 16 + b div 16, b mod 16 * 4]"
| "sextets [a] = [a div 4, a mod 4 * 16]"
| "sextets [] = []"

fun octets :: "nat list \<Rightarrow> nat list" where
  "octets (w # x # y # z # r) = (w * 4 + x div 16) # (x mod 16 * 16 + y div 4) # (y mod 4 * 64 + z) # octets r"
| "octets [w, x, y] = [w * 4 + x div 16, x mod 16 * 16 + y div 4]"
| "octets [w, x] = [w * 4 + x div 16]"
| "octets _ = []"

definition to_base64url :: "string \<Rightarrow> string" where
  "to_base64url s = map b64_digit (sextets (map ccode s))"

definition from_base64url :: "string \<Rightarrow> string" where
  "from_base64url s = map char_of (octets (List.map_filter b64_value s))"

lemma b64_value_digit: "n < 64 \<Longrightarrow> b64_value (b64_digit n) = Some n"
proof -
  assume "n < 64"
  then consider "n < 26" | "26 \<le> n" "n < 52" | "52 \<le> n" "n < 62" | "n = 62" | "n = 63" by linarith
  then show ?thesis
  proof cases
    case 1
    then show ?thesis by (simp add: b64_value_def b64_digit_def ccode_char_of Let_def)
  next
    case 2
    then show ?thesis by (simp add: b64_value_def b64_digit_def ccode_char_of Let_def)
  next
    case 3
    then show ?thesis by (simp add: b64_value_def b64_digit_def ccode_char_of Let_def) linarith
  qed (simp_all add: b64_value_def b64_digit_def ccode_def Let_def)
qed

text \<open>The low bits of a byte below the high bits of the next.\<close>

lemma low_bits: "x < (16::nat) \<Longrightarrow> (y * 16 + x) div 16 = y" "x < (16::nat) \<Longrightarrow> (y * 16 + x) mod 16 = x"
  "x < (4::nat) \<Longrightarrow> (y * 4 + x) div 4 = y" "x < (4::nat) \<Longrightarrow> (y * 4 + x) mod 4 = x"
  by simp_all

lemma byte_parts: "b < 256 \<Longrightarrow> b div 16 < (16::nat)" "b < 256 \<Longrightarrow> b div 64 < (4::nat)" "b < 256 \<Longrightarrow> b div 4 < (64::nat)"
  by simp_all

lemma sextet_less: "x < (16::nat) \<Longrightarrow> a mod 4 * 16 + x < 64" "x < (4::nat) \<Longrightarrow> a mod 16 * 4 + x < 64"
  using mod_less_divisor [of 4 a] mod_less_divisor [of 16 a] by simp_all

lemma sextets_less: "\<forall>b\<in>set bs. b < 256 \<Longrightarrow> \<forall>x\<in>set (sextets bs). x < 64"
  using sextet_less [of 0]
  by (induction bs rule: sextets.induct) (auto intro: sextet_less byte_parts)

lemma octets_sextets: "\<forall>b\<in>set bs. b < 256 \<Longrightarrow> octets (sextets bs) = bs"
proof (induction bs rule: sextets.induct)
  case (1 a b c r)
  then show ?case by (simp add: low_bits byte_parts div_mult_mod_eq del: div_mult_self3 div_mult_self4)
next
  case (2 a b)
  then show ?case using low_bits(3) [of 0] by (simp add: low_bits byte_parts div_mult_mod_eq)
next
  case (3 a)
  then show ?case using low_bits(1) [of 0] by (simp add: div_mult_mod_eq)
qed simp

lemma base64url_roundtrip: "from_base64url (to_base64url s) = s"
proof -
  have c: "\<forall>b\<in>set (map ccode s). b < 256" by (auto simp: ccode_def)
  have "List.map_filter b64_value (map b64_digit xs) = xs" if "\<forall>x\<in>set xs. x < 64" for xs
    using that by (induction xs) (simp_all add: map_filter_simps b64_value_digit)
  from this [OF sextets_less [OF c]] have "from_base64url (to_base64url s) = map (char_of \<circ> ccode) s"
    by (simp add: from_base64url_def to_base64url_def octets_sextets [OF c])
  then show ?thesis by (simp add: ccode_def comp_def)
qed

lemma to_base64url_empty: "(to_base64url s = []) = (s = [])"
proof (cases s)
  case (Cons c r)
  have "sextets (x # xs) \<noteq> []" for x xs by (cases "x # xs" rule: sextets.cases) simp_all
  then show ?thesis by (simp add: to_base64url_def Cons)
qed (simp add: to_base64url_def)

lemma base64url_length: "length (to_base64url s) = (4 * length s + 2) div 3"
proof -
  have "length (sextets bs) = (4 * length bs + 2) div 3" for bs
    by (induction bs rule: sextets.induct) simp_all
  then show ?thesis by (simp add: to_base64url_def)
qed

lemma to_base64url_safe: "\<forall>c\<in>set (to_base64url s). b64_value c \<noteq> None"
proof -
  have "\<forall>x\<in>set (sextets (map ccode s)). x < 64" by (rule sextets_less) (auto simp: ccode_def)
  then show ?thesis by (auto simp: to_base64url_def b64_value_digit)
qed

section \<open>URLSearchParams\<close>

definition utf8 :: "char \<Rightarrow> nat list" where
  "utf8 c = (let n = ccode c in if n < 128 then [n] else [192 + n div 64, 128 + n mod 64])"

definition upper_hex :: "nat \<Rightarrow> char" where
  "upper_hex n = (if n < 10 then char_of (48 + n) else char_of (55 + n))"

definition form_safe :: "char \<Rightarrow> bool" where
  "form_safe c = (let n = ccode c in 48 \<le> n \<and> n \<le> 57 \<or> 65 \<le> n \<and> n \<le> 90 \<or> 97 \<le> n \<and> n \<le> 122 \<or> n \<in> {42, 45, 46, 95})"

definition form_char :: "char \<Rightarrow> string" where
  "form_char c = (if c = CHR '' '' then ''+'' else if form_safe c then [c]
     else concat (map (\<lambda>b. [CHR 0x25, upper_hex (b div 16), upper_hex (b mod 16)]) (utf8 c)))"

definition form_text :: "string \<Rightarrow> string" where "form_text s = concat (map form_char s)"

fun search_params :: "(string \<times> string) list \<Rightarrow> string" where
  "search_params [] = []"
| "search_params [(k, v)] = form_text k @ ''='' @ form_text v"
| "search_params ((k, v) # ps) = form_text k @ ''='' @ form_text v @ ''&'' @ search_params ps"

end
