(* ===== verification/Telegram.thy ===== *)
theory Telegram
  imports Signin Base64
begin

text \<open>
  Signing in through Telegram: auth/telegram-oidc.service.ts and the callback of
  auth/auth.controller.ts.  The flow lives in an encrypted cookie.  The replies of oauth.telegram.org
  and the checks of jsonwebtoken and node:crypto are the fields of oidc_lib; log texts are left out.
  The callback awaits the network between its two reads of the admin row: what other requests do to
  the state in between is the argument between.
\<close>

section \<open>The flow and its cookie\<close>

datatype flow_mode = LoginMode | LinkMode

fun mode_text :: "flow_mode \<Rightarrow> string" where
  "mode_text LoginMode = ''login''"
| "mode_text LinkMode = ''link''"

record flow =
  fl_state :: string
  fl_mode :: flow_mode
  fl_client :: string
  fl_verifier :: string
  fl_nonce :: string
  fl_redirect :: string
  fl_exp :: rat

definition ISSUER :: string where "ISSUER = ''https://oauth.telegram.org''"
definition AUTHORIZE_URL :: string where "AUTHORIZE_URL = ISSUER @ ''/auth''"
definition SCOPE :: string where "SCOPE = ''openid profile''"
definition ALGORITHMS :: "string list" where "ALGORITHMS = [''RS256'', ''ES256'']"
definition TELEGRAM_FLOW_TTL :: ms where "TELEGRAM_FLOW_TTL = 10 * 60 * 1000"
definition JWKS_TTL :: ms where "JWKS_TTL = 60 * 60 * 1000"
definition CALLBACK_PATH :: string where "CALLBACK_PATH = ''/api/auth/telegram/callback''"

text \<open>A text of at least one character, as the flow's schema asks for.\<close>

definition text_member :: "json \<Rightarrow> string \<Rightarrow> string option" where
  "text_member j k = (case json_prop j k of Some (JStr t) \<Rightarrow> nonempty t | _ \<Rightarrow> None)"

definition mode_member :: "json \<Rightarrow> flow_mode option" where
  "mode_member j = (case json_prop j ''mode'' of
     Some (JStr t) \<Rightarrow> if t = ''login'' then Some LoginMode else if t = ''link'' then Some LinkMode else None | _ \<Rightarrow> None)"

definition parse_flow :: "json \<Rightarrow> flow option" where
  "parse_flow j = (case (text_member j ''state'', mode_member j, text_member j ''clientId'', text_member j ''verifier'',
       text_member j ''nonce'', text_member j ''redirectUri'', json_prop j ''exp'') of
     (Some st, Some m, Some c, Some v, Some n, Some r, Some (JNum x)) \<Rightarrow>
       Some \<lparr> fl_state = st, fl_mode = m, fl_client = c, fl_verifier = v, fl_nonce = n, fl_redirect = r, fl_exp = x \<rparr>
   | _ \<Rightarrow> None)"

definition decode_flow :: "crypto_lib \<Rightarrow> string option \<Rightarrow> flow option" where
  "decode_flow C cookie =
     (if \<not> truthy cookie then None
      else case decrypt C (from_base64url (the cookie)) of None \<Rightarrow> None
        | Some text \<Rightarrow> (case json_parse text of None \<Rightarrow> None | Some j \<Rightarrow> parse_flow j))"

definition read_flow :: "crypto_lib \<Rightarrow> ms \<Rightarrow> string option \<Rightarrow> string option \<Rightarrow> flow option" where
  "read_flow C now cookie st = (case decode_flow C cookie of None \<Rightarrow> None
     | Some f \<Rightarrow> if \<not> truthy st \<or> fl_exp f < of_int now then None else if fl_state f = the st then Some f else None)"

section \<open>start\<close>

record flow_secrets =
  fs_state :: string
  fs_verifier :: string
  fs_nonce :: string

definition flow_fields :: "flow_mode \<Rightarrow> flow_secrets \<Rightarrow> telegram_client \<Rightarrow> nat \<Rightarrow> (string \<times> field) list" where
  "flow_fields mode x c e = [(''state'', FText (fs_state x)), (''mode'', FText (mode_text mode)), (''clientId'', FText (tc_id c)),
     (''verifier'', FText (fs_verifier x)), (''nonce'', FText (fs_nonce x)),
     (''redirectUri'', FText (tc_origin c @ CALLBACK_PATH)), (''exp'', FNum e)]"

definition authorize_url :: "auth_lib \<Rightarrow> flow_secrets \<Rightarrow> telegram_client \<Rightarrow> string" where
  "authorize_url L x c = AUTHORIZE_URL @ ''?'' @ search_params
     [(''client_id'', tc_id c), (''redirect_uri'', tc_origin c @ CALLBACK_PATH), (''response_type'', ''code''), (''scope'', SCOPE),
      (''state'', fs_state x), (''nonce'', fs_nonce x), (''code_challenge'', to_base64url (al_sha L (fs_verifier x))),
      (''code_challenge_method'', ''S256'')]"

definition start_flow :: "auth_lib \<Rightarrow> crypto_lib \<Rightarrow> string \<Rightarrow> flow_secrets \<Rightarrow> flow_mode \<Rightarrow> string option \<Rightarrow> ms \<Rightarrow> auth_state
    \<Rightarrow> http_error + string \<times> string" where
  "start_flow L C iv x mode origin now s = (case require_row s of Inl e \<Rightarrow> Inl e
     | Inr r \<Rightarrow>
        if mode = LoginMode \<and> \<not> telegram_usable r then Inl (Bad_request ''Telegram sign-in is not enabled'')
        else (case get_telegram_client C r of
          None \<Rightarrow> Inl (Bad_request ''Save the Telegram client ID, client secret and panel address first'')
        | Some c \<Rightarrow>
            if truthy origin \<and> origin \<noteq> Some (tc_origin c)
            then Inl (Bad_request (''Open the panel at '' @ tc_origin c @ '' to use Telegram sign-in''))
            else Inr (authorize_url L x c,
              to_base64url (encrypt C iv (stringify (flow_fields mode x c (nat (now + TELEGRAM_FLOW_TTL))))))))"

section \<open>The provider's answers\<close>

datatype tg_result = TgLinked | TgDenied | TgState | TgConfig | TgExchange | TgToken | TgMismatch | TgDisabled

fun result_text :: "tg_result \<Rightarrow> string" where
  "result_text TgLinked = ''linked''"
| "result_text TgDenied = ''denied''"
| "result_text TgState = ''state''"
| "result_text TgConfig = ''config''"
| "result_text TgExchange = ''exchange''"
| "result_text TgToken = ''token''"
| "result_text TgMismatch = ''mismatch''"
| "result_text TgDisabled = ''disabled''"

record exchange_input =
  xi_code :: string
  xi_redirect :: string
  xi_verifier :: string
  xi_client :: string
  xi_secret :: string

text \<open>None is a request that fails, a token that is not one, a key that cannot be imported, or a
  check that throws.  The header of a token is its JSON.\<close>

record oidc_lib =
  ol_post :: "exchange_input \<Rightarrow> json option"
  ol_jwks :: "json option"
  ol_header :: "string \<Rightarrow> json option"
  ol_import :: "json \<Rightarrow> string option"
  ol_verify :: "string \<Rightarrow> string \<Rightarrow> string \<Rightarrow> string \<Rightarrow> string \<Rightarrow> ms \<Rightarrow> json option"

definition exchange_code :: "oidc_lib \<Rightarrow> exchange_input \<Rightarrow> tg_result + string" where
  "exchange_code V i = (case ol_post V i of None \<Rightarrow> Inl TgExchange
     | Some d \<Rightarrow> if json_prop d ''error'' \<noteq> None then Inl TgExchange
        else (case text_member d ''id_token'' of None \<Rightarrow> Inl TgExchange | Some t \<Rightarrow> Inr t))"

section \<open>Signing keys\<close>

record jwk =
  jk_kid :: "string option"
  jk_alg :: "string option"
  jk_use :: "string option"
  jk_json :: json

record key_state =
  ks_jwks :: "(jwk list \<times> ms) option"
  ks_cache :: "((string \<times> string) \<times> string) list"

text \<open>An optional text member: absent, or a text.\<close>

definition optional_text :: "json \<Rightarrow> string \<Rightarrow> string option option" where
  "optional_text j k = (case json_prop j k of None \<Rightarrow> Some None | Some (JStr t) \<Rightarrow> Some (Some t) | _ \<Rightarrow> None)"

definition parse_jwk :: "json \<Rightarrow> jwk option" where
  "parse_jwk j = (case (optional_text j ''kid'', optional_text j ''alg'', optional_text j ''use'', json_prop j ''kty'') of
     (Some k, Some a, Some u, Some (JStr _)) \<Rightarrow> Some \<lparr> jk_kid = k, jk_alg = a, jk_use = u, jk_json = j \<rparr> | _ \<Rightarrow> None)"

fun parse_all :: "('a \<Rightarrow> 'b option) \<Rightarrow> 'a list \<Rightarrow> 'b list option" where
  "parse_all f [] = Some []"
| "parse_all f (x # xs) = (case (f x, parse_all f xs) of (Some y, Some ys) \<Rightarrow> Some (y # ys) | _ \<Rightarrow> None)"

definition parse_jwks :: "json \<Rightarrow> jwk list option" where
  "parse_jwks j = (case json_prop j ''keys'' of Some (JArr ks) \<Rightarrow> parse_all parse_jwk ks | _ \<Rightarrow> None)"

definition refresh_jwks :: "oidc_lib \<Rightarrow> ms \<Rightarrow> key_state \<Rightarrow> key_state option" where
  "refresh_jwks V now K = (case ol_jwks V of None \<Rightarrow> None
     | Some d \<Rightarrow> (case parse_jwks d of None \<Rightarrow> None | Some ks \<Rightarrow> Some \<lparr> ks_jwks = Some (ks, now), ks_cache = [] \<rparr>))"

definition usable_jwk :: "string \<Rightarrow> string \<Rightarrow> jwk \<Rightarrow> bool" where
  "usable_jwk kid alg k = (jk_kid k = Some kid \<and> jk_alg k \<in> {None, Some alg} \<and> jk_use k \<in> {None, Some ''sig''})"

fun first_key :: "(json \<Rightarrow> string option) \<Rightarrow> string \<Rightarrow> string \<Rightarrow> jwk list \<Rightarrow> string option" where
  "first_key imp kid alg [] = None"
| "first_key imp kid alg (k # ks) = (if usable_jwk kid alg k
     then (case imp (jk_json k) of Some key \<Rightarrow> Some key | None \<Rightarrow> first_key imp kid alg ks) else first_key imp kid alg ks)"

definition known_jwks :: "key_state \<Rightarrow> jwk list" where
  "known_jwks K = (case ks_jwks K of None \<Rightarrow> [] | Some (ks, _) \<Rightarrow> ks)"

definition find_key :: "(json \<Rightarrow> string option) \<Rightarrow> string \<Rightarrow> string \<Rightarrow> key_state \<Rightarrow> key_state \<times> string option" where
  "find_key imp kid alg K = (case map_of (ks_cache K) (alg, kid) of Some key \<Rightarrow> (K, Some key)
     | None \<Rightarrow> (case first_key imp kid alg (known_jwks K) of
         Some key \<Rightarrow> (K \<lparr> ks_cache := ((alg, kid), key) # ks_cache K \<rparr>, Some key) | None \<Rightarrow> (K, None)))"

definition jwks_stale :: "ms \<Rightarrow> key_state \<Rightarrow> bool" where
  "jwks_stale now K = (case ks_jwks K of None \<Rightarrow> True | Some (_, t) \<Rightarrow> now - t > JWKS_TTL)"

definition signing_key :: "oidc_lib \<Rightarrow> string \<Rightarrow> string \<Rightarrow> ms \<Rightarrow> key_state \<Rightarrow> key_state \<times> string option" where
  "signing_key V kid alg now K =
     (if jwks_stale now K then (case refresh_jwks V now K of None \<Rightarrow> (K, None) | Some K' \<Rightarrow> find_key (ol_import V) kid alg K')
      else (case find_key (ol_import V) kid alg K of (K', Some key) \<Rightarrow> (K', Some key)
        | (K', None) \<Rightarrow> (case refresh_jwks V now K' of None \<Rightarrow> (K', None) | Some K'' \<Rightarrow> find_key (ol_import V) kid alg K'')))"

section \<open>The identity token\<close>

record tg_identity =
  ti_id :: string
  ti_name :: "string option"

definition MAX_SAFE :: rat where "MAX_SAFE = 9007199254740991"

text \<open>The claim id: digits, or a positive safe integer as its decimal text.\<close>

definition id_claim :: "json \<Rightarrow> string option" where
  "id_claim j = (case json_prop j ''id'' of
     Some (JStr t) \<Rightarrow> if t \<noteq> [] \<and> list_all is_digit t then Some t else None
   | Some (JNum x) \<Rightarrow> if x = of_int \<lfloor>x\<rfloor> \<and> 0 < x \<and> x \<le> MAX_SAFE then Some (nat_text (nat \<lfloor>x\<rfloor>)) else None
   | _ \<Rightarrow> None)"

definition display_name :: "string option \<Rightarrow> string option \<Rightarrow> string option" where
  "display_name username name = (if truthy username then Some (CHR ''@'' # the username) else if truthy name then name else None)"

definition read_claims :: "json \<Rightarrow> string \<Rightarrow> tg_result + tg_identity" where
  "read_claims j expected = (case (id_claim j, optional_text j ''preferred_username'', optional_text j ''name'', optional_text j ''nonce'') of
     (Some i, Some u, Some n, Some x) \<Rightarrow>
       if x \<noteq> None \<and> x \<noteq> Some expected then Inl TgToken else Inr \<lparr> ti_id = i, ti_name = display_name u n \<rparr>
   | _ \<Rightarrow> Inl TgToken)"

definition verify_id_token :: "oidc_lib \<Rightarrow> string \<Rightarrow> string \<Rightarrow> string \<Rightarrow> ms \<Rightarrow> key_state \<Rightarrow> key_state \<times> (tg_result + tg_identity)" where
  "verify_id_token V token client nonce now K = (case ol_header V token of None \<Rightarrow> (K, Inl TgToken)
     | Some h \<Rightarrow> (case (json_prop h ''alg'', text_member h ''kid'') of
         (Some (JStr alg), Some kid) \<Rightarrow>
           if alg \<notin> set ALGORITHMS then (K, Inl TgToken)
           else (case signing_key V kid alg now K of (K', None) \<Rightarrow> (K', Inl TgToken)
             | (K', Some key) \<Rightarrow> (K', case ol_verify V token key alg ISSUER client now of
                 None \<Rightarrow> Inl TgToken | Some p \<Rightarrow> read_claims p nonce))
       | _ \<Rightarrow> (K, Inl TgToken)))"

section \<open>handleCallback\<close>

record callback_input =
  ci_code :: "string option"
  ci_state :: "string option"
  ci_error :: "string option"
  ci_cookie :: "string option"

record outcome =
  oc_redirect :: string
  oc_user :: "string option"

definition fail_outcome :: "flow_mode option \<Rightarrow> tg_result \<Rightarrow> outcome" where
  "fail_outcome mode code = \<lparr> oc_redirect = (if mode = Some LinkMode then ''/settings/auth'' else ''/login'') @ ''?telegram='' @ result_text code,
     oc_user = None \<rparr>"

text \<open>Up to the network: the flow, the row and the client it is checked against.\<close>

definition callback_client :: "crypto_lib \<Rightarrow> flow \<Rightarrow> auth_state \<Rightarrow> telegram_client option" where
  "callback_client C f s = (case Option.bind (at_row s) (get_telegram_client C) of None \<Rightarrow> None
     | Some c \<Rightarrow> if fl_client f \<noteq> tc_id c \<or> fl_redirect f \<noteq> tc_origin c @ CALLBACK_PATH then None else Some c)"

definition callback_identity :: "oidc_lib \<Rightarrow> string \<Rightarrow> flow \<Rightarrow> telegram_client \<Rightarrow> ms \<Rightarrow> key_state \<Rightarrow> key_state \<times> (tg_result + tg_identity)" where
  "callback_identity V code f c now K =
     (case exchange_code V \<lparr> xi_code = code, xi_redirect = fl_redirect f, xi_verifier = fl_verifier f, xi_client = tc_id c, xi_secret = tc_secret c \<rparr> of
        Inl e \<Rightarrow> (K, Inl e) | Inr t \<Rightarrow> verify_id_token V t (tc_id c) (fl_nonce f) now K)"

text \<open>After the network, in the state of that moment.  An update of a row that is gone throws, which counts as a failed exchange.\<close>

definition callback_finish :: "flow_mode \<Rightarrow> tg_identity \<Rightarrow> auth_state \<Rightarrow> auth_state \<times> outcome" where
  "callback_finish mode i s =
     (if mode = LinkMode
      then (if at_row s = None then (s, fail_outcome (Some mode) TgExchange)
            else (link_telegram (ti_id i) (ti_name i) s, \<lparr> oc_redirect = ''/settings/auth?telegram=linked'', oc_user = None \<rparr>))
      else (s, case at_row s of None \<Rightarrow> fail_outcome (Some mode) TgDisabled
        | Some r \<Rightarrow> if \<not> telegram_usable r then fail_outcome (Some mode) TgDisabled
            else if Some (ti_id i) \<noteq> au_tg_user r then fail_outcome (Some mode) TgMismatch
            else \<lparr> oc_redirect = ''/'', oc_user = Some (au_username r) \<rparr>))"

definition handle_callback :: "oidc_lib \<Rightarrow> crypto_lib \<Rightarrow> callback_input \<Rightarrow> ms \<Rightarrow> (auth_state \<Rightarrow> auth_state) \<Rightarrow> key_state \<times> auth_state
    \<Rightarrow> (key_state \<times> auth_state) \<times> outcome" where
  "handle_callback V C i now between ks = (case ks of (K, s) \<Rightarrow>
     (case read_flow C now (ci_cookie i) (ci_state i) of
        None \<Rightarrow> ((K, s), fail_outcome (map_option fl_mode (decode_flow C (ci_cookie i))) TgState)
      | Some f \<Rightarrow>
         if truthy (ci_error i) \<or> \<not> truthy (ci_code i) then ((K, s), fail_outcome (Some (fl_mode f)) TgDenied)
         else (case callback_client C f s of None \<Rightarrow> ((K, s), fail_outcome (Some (fl_mode f)) TgConfig)
           | Some c \<Rightarrow> (case callback_identity V (the (ci_code i)) f c now K of
               (K', Inl e) \<Rightarrow> ((K', between s), fail_outcome (Some (fl_mode f)) e)
             | (K', Inr who) \<Rightarrow> (case callback_finish (fl_mode f) who (between s) of (s', out) \<Rightarrow> ((K', s'), out))))))"

text \<open>The controller: a session for a successful login; an error falls back to a fixed path.\<close>

definition TELEGRAM_FALLBACK :: string where "TELEGRAM_FALLBACK = ''/login?telegram=exchange''"

definition telegram_callback :: "auth_lib \<Rightarrow> oidc_lib \<Rightarrow> crypto_lib \<Rightarrow> string \<Rightarrow> string \<Rightarrow> callback_input \<Rightarrow> ms \<Rightarrow> (auth_state \<Rightarrow> auth_state)
    \<Rightarrow> key_state \<times> auth_state \<Rightarrow> (key_state \<times> auth_state) \<times> string \<times> string option" where
  "telegram_callback L V C iv fresh i now between ks =
     (case handle_callback V C i now between ks of ((K, s), out) \<Rightarrow>
        if truthy (oc_user out)
        then (case sign_session L C iv fresh (the (oc_user out)) now s of
            (s', None) \<Rightarrow> ((K, s'), TELEGRAM_FALLBACK, None)
          | (s', Some cookie) \<Rightarrow> ((K, s'), oc_redirect out, Some cookie))
        else ((K, s), oc_redirect out, None))"

section \<open>The key cache\<close>

text \<open>The cache answers as the keys it was filled from.\<close>

definition keys_ok :: "(json \<Rightarrow> string option) \<Rightarrow> key_state \<Rightarrow> bool" where
  "keys_ok imp K = (\<forall>alg kid key. map_of (ks_cache K) (alg, kid) = Some key \<longrightarrow> first_key imp kid alg (known_jwks K) = Some key)"

lemma find_key_spec:
  "keys_ok imp K \<Longrightarrow> keys_ok imp (fst (find_key imp kid alg K)) \<and> ks_jwks (fst (find_key imp kid alg K)) = ks_jwks K \<and>
   snd (find_key imp kid alg K) = first_key imp kid alg (known_jwks K)"
  by (auto simp: keys_ok_def find_key_def known_jwks_def split: option.splits)

lemma find_key_None: "find_key imp kid alg K = (K', None) \<Longrightarrow> K' = K"
  by (auto simp: find_key_def split: option.splits)

lemma refresh_jwks_ok:
  "refresh_jwks V now K = Some K' \<Longrightarrow> keys_ok imp K' \<and> \<not> jwks_stale now K' \<and> (\<exists>d. ol_jwks V = Some d \<and> parse_jwks d = Some (known_jwks K'))"
  by (auto simp: refresh_jwks_def keys_ok_def jwks_stale_def JWKS_TTL_def known_jwks_def split: option.splits)

lemma jwks_stale_cong: "ks_jwks K' = ks_jwks K \<Longrightarrow> jwks_stale now K' = jwks_stale now K"
  by (simp add: jwks_stale_def)

lemma known_jwks_cong: "ks_jwks K' = ks_jwks K \<Longrightarrow> known_jwks K' = known_jwks K"
  by (simp add: known_jwks_def)

text \<open>The two looks: in keys that are not stale, then in the keys just fetched.\<close>

lemma find_in_fresh:
  assumes "keys_ok imp K" "\<not> jwks_stale now K" "find_key imp kid alg K = (K', res)"
  shows "keys_ok imp K' \<and> \<not> jwks_stale now K' \<and> res = first_key imp kid alg (known_jwks K') \<and> known_jwks K' = known_jwks K"
  using find_key_spec [OF assms(1), of kid alg] assms(2,3) jwks_stale_cong [of K' K now] known_jwks_cong [of K' K] by simp

lemma signing_key_cases:
  assumes "keys_ok (ol_import V) K" "signing_key V kid alg now K = (K', res)"
  shows "keys_ok (ol_import V) K' \<and>
    (case res of Some key \<Rightarrow> \<not> jwks_stale now K' \<and> first_key (ol_import V) kid alg (known_jwks K') = Some key
     | None \<Rightarrow> Option.bind (ol_jwks V) parse_jwks = None \<or> first_key (ol_import V) kid alg (the (Option.bind (ol_jwks V) parse_jwks)) = None)"
proof -
  have fetched: "keys_ok (ol_import V) K' \<and>
      (case res of Some key \<Rightarrow> \<not> jwks_stale now K' \<and> first_key (ol_import V) kid alg (known_jwks K') = Some key
       | None \<Rightarrow> first_key (ol_import V) kid alg (the (Option.bind (ol_jwks V) parse_jwks)) = None)"
    if r: "refresh_jwks V now K1 = Some K2" and f: "find_key (ol_import V) kid alg K2 = (K', res)" for K1 K2
  proof -
    obtain d where d: "ol_jwks V = Some d" "parse_jwks d = Some (known_jwks K2)" using refresh_jwks_ok [OF r] by blast
    have "keys_ok (ol_import V) K2" "\<not> jwks_stale now K2" using refresh_jwks_ok [OF r] by blast+
    from find_in_fresh [OF this f] show ?thesis using d by (auto split: option.splits)
  qed
  have failed: "Option.bind (ol_jwks V) parse_jwks = None" if "refresh_jwks V now K1 = None" for K1
    using that by (auto simp: refresh_jwks_def split: option.splits)
  show ?thesis
  proof (cases "jwks_stale now K")
    case True
    then show ?thesis using assms failed [of K] fetched [of K]
      by (cases "refresh_jwks V now K") (auto simp: signing_key_def split: option.splits)
  next
    case False
    obtain K1 r1 where f: "find_key (ol_import V) kid alg K = (K1, r1)" by fastforce
    note g = find_in_fresh [OF assms(1) False f]
    show ?thesis
    proof (cases r1)
      case None
      then show ?thesis using assms False f g failed [of K1] fetched [of K1]
        by (cases "refresh_jwks V now K1") (auto simp: signing_key_def split: option.splits)
    next
      case (Some key)
      then have e: "K' = K1" "res = Some key" using assms(2) False f by (simp_all add: signing_key_def)
      have "first_key (ol_import V) kid alg (known_jwks K1) = Some key" using g Some by simp
      then show ?thesis using g unfolding e by simp
    qed
  qed
qed

lemma first_key_member:
  "first_key imp kid alg ks = Some key \<Longrightarrow> \<exists>k\<in>set ks. usable_jwk kid alg k \<and> imp (jk_json k) = Some key"
  by (induction ks) (auto split: if_splits option.splits)

section \<open>The cookie\<close>

lemma client_parts:
  "get_telegram_client C r = Some c \<Longrightarrow> tc_id c \<noteq> [] \<and> tc_origin c \<noteq> [] \<and> au_tg_client r = Some (tc_id c) \<and> au_tg_origin r = Some (tc_origin c) \<and>
   Option.bind (au_tg_secret r) (decrypt C) = Some (tc_secret c)"
  by (auto simp: get_telegram_client_def truthy_def split: if_splits option.splits)

definition issued_flow :: "flow_mode \<Rightarrow> flow_secrets \<Rightarrow> telegram_client \<Rightarrow> nat \<Rightarrow> flow" where
  "issued_flow mode x c e = \<lparr> fl_state = fs_state x, fl_mode = mode, fl_client = tc_id c, fl_verifier = fs_verifier x,
     fl_nonce = fs_nonce x, fl_redirect = tc_origin c @ CALLBACK_PATH, fl_exp = of_nat e \<rparr>"

lemma parse_issued:
  assumes "fs_state x \<noteq> []" "fs_verifier x \<noteq> []" "fs_nonce x \<noteq> []" "tc_id c \<noteq> []"
  shows "parse_flow (JObj (map (map_prod id field_json) (flow_fields mode x c e))) = Some (issued_flow mode x c e)"
proof -
  have "tc_origin c @ CALLBACK_PATH \<noteq> []" by (simp add: CALLBACK_PATH_def)
  then show ?thesis using assms
    by (cases mode) (simp_all add: parse_flow_def flow_fields_def text_member_def mode_member_def json_prop_def issued_flow_def nonempty_def)
qed

lemma encrypt_nonempty: "length iv = IV_LENGTH \<Longrightarrow> encrypt C iv p \<noteq> []"
  by (auto simp: encrypt_def IV_LENGTH_def split: prod.split)

lemma decode_issued:
  assumes "crypto_ok C" "length iv = IV_LENGTH" "fs_state x \<noteq> []" "fs_verifier x \<noteq> []" "fs_nonce x \<noteq> []" "tc_id c \<noteq> []"
  shows "decode_flow C (Some (to_base64url (encrypt C iv (stringify (flow_fields mode x c e))))) = Some (issued_flow mode x c e)"
proof -
  have "flow_fields mode x c e \<noteq> []" by (simp add: flow_fields_def)
  then show ?thesis using assms encrypt_nonempty
    by (simp add: decode_flow_def to_base64url_empty base64url_roundtrip decrypt_encrypt json_roundtrip parse_issued)
qed

lemma start_flow_ok:
  "start_flow L C iv x mode origin now s = Inr (url, cookie) \<Longrightarrow> \<exists>r c. at_row s = Some r \<and> get_telegram_client C r = Some c \<and>
     (mode = LoginMode \<longrightarrow> telegram_usable r) \<and>
     url = authorize_url L x c \<and> cookie = to_base64url (encrypt C iv (stringify (flow_fields mode x c (nat (now + TELEGRAM_FLOW_TTL)))))"
  by (auto simp: start_flow_def require_row_def split: option.splits if_splits)

section \<open>The callback\<close>

lemma verify_id_token_ok:
  "verify_id_token V t c n now K = (K', Inr w) \<Longrightarrow> \<exists>kid alg key p. alg \<in> set ALGORITHMS \<and>
     signing_key V kid alg now K = (K', Some key) \<and> ol_verify V t key alg ISSUER c now = Some p \<and> id_claim p = Some (ti_id w)"
  by (auto simp: verify_id_token_def read_claims_def split: option.splits json.splits if_splits prod.splits) blast+

lemma handle_callback_done:
  assumes "read_flow C now (ci_cookie i) (ci_state i) = Some f" "\<not> truthy (ci_error i)" "truthy (ci_code i)"
    "callback_client C f s = Some c" "callback_identity V (the (ci_code i)) f c now K = (K', Inr w)"
  shows "handle_callback V C i now between (K, s) =
    ((K', fst (callback_finish (fl_mode f) w (between s))), snd (callback_finish (fl_mode f) w (between s)))"
  using assms by (simp add: handle_callback_def split_beta)

text \<open>Otherwise the result is a failure, before or after the network.\<close>

lemma handle_callback_cases:
  "(\<exists>f c K' w. read_flow C now (ci_cookie i) (ci_state i) = Some f \<and> \<not> truthy (ci_error i) \<and> truthy (ci_code i) \<and>
      callback_client C f s = Some c \<and> callback_identity V (the (ci_code i)) f c now K = (K', Inr w)) \<or>
   (\<exists>K' m e. handle_callback V C i now between (K, s) = ((K', s), fail_outcome m e) \<or>
      handle_callback V C i now between (K, s) = ((K', between s), fail_outcome m e))"
proof (cases "read_flow C now (ci_cookie i) (ci_state i)")
  case None
  then show ?thesis by (auto simp: handle_callback_def)
next
  case (Some f)
  show ?thesis
  proof (cases "truthy (ci_error i) \<or> \<not> truthy (ci_code i)")
    case True
    then have "handle_callback V C i now between (K, s) = ((K, s), fail_outcome (Some (fl_mode f)) TgDenied)"
      using Some by (simp add: handle_callback_def)
    then show ?thesis by blast
  next
    case ok: False
    show ?thesis
    proof (cases "callback_client C f s")
      case None
      then show ?thesis using Some ok by (auto simp: handle_callback_def)
    next
      case c: (Some c)
      obtain K' x where x: "callback_identity V (the (ci_code i)) f c now K = (K', x)" by fastforce
      show ?thesis
      proof (cases x)
        case (Inl e)
        then show ?thesis using Some ok c x by (auto simp: handle_callback_def)
      qed (use Some ok c x in auto)
    qed
  qed
qed

section \<open>Properties\<close>

text \<open>The cookie of start is the flow the callback reads: with the state of the same flow and until
  it expires, ten minutes later, the callback gets back the mode, client, verifier, nonce and redirect
  of the start; with any other state, or later, it gets nothing.\<close>

theorem telegram_cookie_roundtrip:
  assumes "start_flow L C iv x mode origin now s = Inr (url, cookie)" and "crypto_ok C" "length iv = IV_LENGTH"
    and "fs_state x \<noteq> []" "fs_verifier x \<noteq> []" "fs_nonce x \<noteq> []" and "0 \<le> now"
  shows "\<exists>r c. at_row s = Some r \<and> get_telegram_client C r = Some c \<and> (\<forall>now' st. read_flow C now' (Some cookie) st =
      (if now' \<le> now + TELEGRAM_FLOW_TTL \<and> st = Some (fs_state x)
       then Some (issued_flow mode x c (nat (now + TELEGRAM_FLOW_TTL))) else None))"
proof -
  obtain r c where r: "at_row s = Some r" "get_telegram_client C r = Some c"
    "cookie = to_base64url (encrypt C iv (stringify (flow_fields mode x c (nat (now + TELEGRAM_FLOW_TTL)))))"
    using start_flow_ok [OF assms(1)] by blast
  have "tc_id c \<noteq> []" using client_parts [OF r(2)] by blast
  note d = decode_issued [OF assms(2,3,4,5,6) this, of mode "nat (now + TELEGRAM_FLOW_TTL)"]
  have "fl_exp (issued_flow mode x c (nat (now + TELEGRAM_FLOW_TTL))) = of_int (now + TELEGRAM_FLOW_TTL)"
    using assms(7) by (simp add: issued_flow_def TELEGRAM_FLOW_TTL_def)
  moreover have "fl_state (issued_flow mode x c e) = fs_state x" for e by (simp add: issued_flow_def)
  ultimately have "read_flow C now' (Some cookie) st =
      (if now' \<le> now + TELEGRAM_FLOW_TTL \<and> st = Some (fs_state x)
       then Some (issued_flow mode x c (nat (now + TELEGRAM_FLOW_TTL))) else None)" for now' st
    using d assms(4) by (cases st) (auto simp: read_flow_def r(3))
  then show ?thesis using r(1,2) by blast
qed

definition linked_row :: auth_row where
  "linked_row = owner_row \<lparr> au_tg_on := True, au_tg_client := Some ''7'', au_tg_secret := Some (encrypt plain_crypto sample_iv ''secret''),
     au_tg_origin := Some ''https://panel.example'', au_tg_user := Some ''42'' \<rparr>"

definition linked_state :: auth_state where "linked_state = owner_state \<lparr> at_row := Some linked_row \<rparr>"

definition sample_secrets :: flow_secrets where
  "sample_secrets = \<lparr> fs_state = ''st'', fs_verifier = ''ver'', fs_nonce = ''non'' \<rparr>"

definition linked_client :: telegram_client where
  "linked_client = \<lparr> tc_id = ''7'', tc_secret = ''secret'', tc_origin = ''https://panel.example'' \<rparr>"

definition sample_cookie :: string where
  "sample_cookie = to_base64url (encrypt plain_crypto sample_iv (stringify (flow_fields LoginMode sample_secrets linked_client 600005)))"

lemma linked_client_of: "get_telegram_client plain_crypto linked_row = Some linked_client"
  by (simp add: get_telegram_client_def linked_row_def linked_client_def decrypt_encrypt plain_crypto_ok sample_iv_ok)

lemma linked_usable: "telegram_usable linked_row"
  by (simp add: telegram_usable_def telegram_ready_def linked_row_def)

lemma sample_start: "start_flow plain_auth plain_crypto sample_iv sample_secrets LoginMode None 5 linked_state =
    Inr (authorize_url plain_auth sample_secrets linked_client, sample_cookie)"
  by (simp add: start_flow_def require_row_def linked_state_def linked_usable linked_client_of sample_cookie_def TELEGRAM_FLOW_TTL_def)

theorem telegram_cookie_roundtrip_witness:
  "read_flow plain_crypto 600005 (Some sample_cookie) (Some ''st'') = Some (issued_flow LoginMode sample_secrets linked_client 600005) \<and>
   read_flow plain_crypto 600006 (Some sample_cookie) (Some ''st'') = None"
  using telegram_cookie_roundtrip [OF sample_start plain_crypto_ok sample_iv_ok]
  by (simp add: sample_secrets_def TELEGRAM_FLOW_TTL_def linked_state_def linked_client_of)

text \<open>C4. A Telegram login ends in a session only for the account that is linked when the round trip
  ends: the cookie is an unexpired login flow of the answered state, the code was exchanged with the
  stored client, the token carries a good signature by a key published for signing (whatever the
  cache holds) for this client, its claim id is the linked account, and Telegram is switched on; the
  state is the one other requests left.\<close>

theorem telegram_login_identity:
  assumes "handle_callback V C i now between (K, s) = ((K', s'), out)" and "oc_user out = Some u" and "keys_ok (ol_import V) K"
  shows "\<exists>f c token key alg jwk p r. read_flow C now (ci_cookie i) (ci_state i) = Some f \<and> fl_mode f = LoginMode \<and>
     callback_client C f s = Some c \<and>
     exchange_code V \<lparr> xi_code = the (ci_code i), xi_redirect = fl_redirect f, xi_verifier = fl_verifier f, xi_client = tc_id c,
       xi_secret = tc_secret c \<rparr> = Inr token \<and>
     alg \<in> set ALGORITHMS \<and> jwk \<in> set (known_jwks K') \<and> jk_use jwk \<in> {None, Some ''sig''} \<and> jk_alg jwk \<in> {None, Some alg} \<and>
     ol_import V (jk_json jwk) = Some key \<and> ol_verify V token key alg ISSUER (tc_id c) now = Some p \<and>
     s' = between s \<and> at_row s' = Some r \<and> au_tg_on r \<and> id_claim p = au_tg_user r \<and> u = au_username r"
proof -
  have "\<exists>f c K1 w. read_flow C now (ci_cookie i) (ci_state i) = Some f \<and> \<not> truthy (ci_error i) \<and> truthy (ci_code i) \<and>
      callback_client C f s = Some c \<and> callback_identity V (the (ci_code i)) f c now K = (K1, Inr w)"
    using handle_callback_cases [of C now i s V K between] assms(1,2) by (auto simp: fail_outcome_def)
  then obtain f c K1 w where a: "read_flow C now (ci_cookie i) (ci_state i) = Some f" "\<not> truthy (ci_error i)" "truthy (ci_code i)"
      "callback_client C f s = Some c" "callback_identity V (the (ci_code i)) f c now K = (K1, Inr w)" by blast
  note fin = handle_callback_done [OF a, of between]
  then obtain r where r: "fl_mode f = LoginMode" "s' = between s" "K' = K1" "at_row s' = Some r" "telegram_usable r"
      "au_tg_user r = Some (ti_id w)" "u = au_username r"
    using assms(1,2) by (cases "fl_mode f") (auto simp: callback_finish_def fail_outcome_def split: if_splits option.splits)
  obtain token where t: "exchange_code V \<lparr> xi_code = the (ci_code i), xi_redirect = fl_redirect f, xi_verifier = fl_verifier f, xi_client = tc_id c,
       xi_secret = tc_secret c \<rparr> = Inr token" "verify_id_token V token (tc_id c) (fl_nonce f) now K = (K1, Inr w)"
    using a(5) by (auto simp: callback_identity_def split: sum.splits)
  from verify_id_token_ok [OF t(2)] obtain kid alg key p where k: "alg \<in> set ALGORITHMS" "signing_key V kid alg now K = (K1, Some key)"
      "ol_verify V token key alg ISSUER (tc_id c) now = Some p" "id_claim p = Some (ti_id w)" by blast
  have "first_key (ol_import V) kid alg (known_jwks K1) = Some key" using signing_key_cases [OF assms(3) k(2)] by simp
  then obtain jwk where "jwk \<in> set (known_jwks K1)" "usable_jwk kid alg jwk" "ol_import V (jk_json jwk) = Some key"
    using first_key_member by blast
  then show ?thesis using a(1,4) r t(1) k by (auto simp: usable_jwk_def telegram_usable_def)
qed

definition sample_oidc :: oidc_lib where
  "sample_oidc = \<lparr> ol_post = (\<lambda>_. Some (JObj [(''id_token'', JStr ''tok'')])),
     ol_jwks = Some (JObj [(''keys'', JArr [JObj [(''kid'', JStr ''k''), (''kty'', JStr ''RSA'')]])]),
     ol_header = (\<lambda>_. Some (JObj [(''alg'', JStr ''RS256''), (''kid'', JStr ''k'')])), ol_import = (\<lambda>_. Some ''pub''),
     ol_verify = (\<lambda>t k a i c now. if c = ''7'' then Some (JObj [(''id'', JStr ''42'')]) else None) \<rparr>"

definition no_keys :: key_state where "no_keys = \<lparr> ks_jwks = None, ks_cache = [] \<rparr>"

definition sample_jwk :: jwk where
  "sample_jwk = \<lparr> jk_kid = Some ''k'', jk_alg = None, jk_use = None, jk_json = JObj [(''kid'', JStr ''k''), (''kty'', JStr ''RSA'')] \<rparr>"

definition sample_keys :: key_state where
  "sample_keys = \<lparr> ks_jwks = Some ([sample_jwk], 100), ks_cache = [((''RS256'', ''k''), ''pub'')] \<rparr>"

definition answer :: "string \<Rightarrow> callback_input" where
  "answer cookie = \<lparr> ci_code = Some ''c'', ci_state = Some ''st'', ci_error = None, ci_cookie = Some cookie \<rparr>"

lemma sample_read: "read_flow plain_crypto 100
    (Some (to_base64url (encrypt plain_crypto sample_iv (stringify (flow_fields mode sample_secrets linked_client 600005))))) (Some ''st'')
    = Some (issued_flow mode sample_secrets linked_client 600005)"
  by (simp add: read_flow_def decode_issued plain_crypto_ok sample_iv_ok sample_secrets_def linked_client_def)
    (simp add: issued_flow_def)

lemma sample_signing: "signing_key sample_oidc ''k'' ''RS256'' 100 no_keys = (sample_keys, Some ''pub'')"
proof -
  have "parse_jwk (JObj [(''kid'', JStr ''k''), (''kty'', JStr ''RSA'')]) = Some sample_jwk"
    by (simp add: parse_jwk_def optional_text_def json_prop_def sample_jwk_def)
  then have "refresh_jwks sample_oidc 100 no_keys = Some \<lparr> ks_jwks = Some ([sample_jwk], 100), ks_cache = [] \<rparr>"
    by (simp add: refresh_jwks_def sample_oidc_def parse_jwks_def json_prop_def)
  then show ?thesis
    by (simp add: signing_key_def no_keys_def jwks_stale_def find_key_def known_jwks_def usable_jwk_def sample_jwk_def sample_keys_def)
      (simp add: sample_oidc_def)
qed

lemma sample_identity: "callback_identity sample_oidc ''c'' (issued_flow mode sample_secrets linked_client 600005) linked_client 100 no_keys =
    (sample_keys, Inr \<lparr> ti_id = ''42'', ti_name = None \<rparr>)"
proof -
  have "exchange_code sample_oidc x = Inr ''tok''" for x
    by (simp add: exchange_code_def sample_oidc_def json_prop_def text_member_def nonempty_def)
  moreover have "ol_header sample_oidc ''tok'' = Some (JObj [(''alg'', JStr ''RS256''), (''kid'', JStr ''k'')])"
    "ol_verify sample_oidc ''tok'' ''pub'' ''RS256'' ISSUER ''7'' 100 = Some (JObj [(''id'', JStr ''42'')])"
    by (simp_all add: sample_oidc_def)
  moreover have "read_claims (JObj [(''id'', JStr ''42'')]) n = Inr \<lparr> ti_id = ''42'', ti_name = None \<rparr>" for n
    by (simp add: read_claims_def id_claim_def optional_text_def json_prop_def is_digit_def display_name_def)
  ultimately show ?thesis
    by (simp add: callback_identity_def verify_id_token_def json_prop_def text_member_def nonempty_def ALGORITHMS_def sample_signing linked_client_def)
qed

lemma sample_checked: "callback_client plain_crypto (issued_flow mode sample_secrets linked_client 600005) linked_state = Some linked_client"
  by (simp add: callback_client_def linked_state_def linked_client_of issued_flow_def)

lemma sample_login: "handle_callback sample_oidc plain_crypto (answer sample_cookie) 100 (\<lambda>s. s) (no_keys, linked_state) =
    ((sample_keys, linked_state), \<lparr> oc_redirect = ''/'', oc_user = Some ''owner'' \<rparr>)"
proof -
  have "at_row linked_state = Some linked_row" "au_tg_user linked_row = Some ''42''" "au_username linked_row = ''owner''"
    by (simp_all add: linked_state_def linked_row_def owner_row_def)
  then show ?thesis
    by (simp add: handle_callback_def answer_def sample_cookie_def sample_read sample_checked sample_identity callback_finish_def linked_usable)
      (simp add: issued_flow_def)
qed

theorem telegram_login_identity_witness:
  "\<exists>f. read_flow plain_crypto 100 (Some sample_cookie) (Some ''st'') = Some f \<and> fl_mode f = LoginMode"
proof -
  have "keys_ok (ol_import sample_oidc) no_keys" by (simp add: keys_ok_def no_keys_def)
  from telegram_login_identity [OF sample_login _ this] show ?thesis by (auto simp: answer_def)
qed

text \<open>C13. The keys of the cache are a refinement of the published ones: whatever was cached, the key
  for a signature is the first usable one of the set last fetched, that set is at most an hour old,
  and no key is given only when the set cannot be fetched now or has none.\<close>

theorem signing_key_spec:
  assumes "keys_ok (ol_import V) K" "signing_key V kid alg now K = (K', res)"
  shows "keys_ok (ol_import V) K' \<and>
    (case res of Some key \<Rightarrow> \<not> jwks_stale now K' \<and> first_key (ol_import V) kid alg (known_jwks K') = Some key
     | None \<Rightarrow> Option.bind (ol_jwks V) parse_jwks = None \<or> first_key (ol_import V) kid alg (the (Option.bind (ol_jwks V) parse_jwks)) = None)"
  by (rule signing_key_cases [OF assms])

theorem signing_key_spec_witness:
  "keys_ok (ol_import sample_oidc) sample_keys \<and> \<not> jwks_stale 100 sample_keys \<and>
   first_key (ol_import sample_oidc) ''k'' ''RS256'' (known_jwks sample_keys) = Some ''pub''"
proof -
  have "keys_ok (ol_import sample_oidc) no_keys" by (simp add: keys_ok_def no_keys_def)
  from signing_key_spec [OF this sample_signing] show ?thesis by simp
qed

text \<open>The check of handleCallback that a link proves the stored settings comes before the network:
  when the owner saves another client while the code is exchanged, the account is linked all the same
  and Telegram counts as usable with a client that no round trip has proved.\<close>

theorem link_of_replaced_settings:
  assumes "read_flow C now (ci_cookie i) (ci_state i) = Some f" "\<not> truthy (ci_error i)" "truthy (ci_code i)"
    "callback_client C f s = Some c" "callback_identity V (the (ci_code i)) f c now K = (K', Inr w)" and "fl_mode f = LinkMode"
    and "patch_config C iv q s = (s1, Inr v)" and "aq_tg_client q = Some new" "new \<noteq> []" "new \<noteq> tc_id c"
    and "aq_tg_secret q = None" "aq_tg_origin q = None" and "ti_id w \<noteq> []"
  shows "\<exists>r. handle_callback V C i now (\<lambda>_. s1) (K, s) =
      ((K', s1 \<lparr> at_row := Some r \<rparr>), \<lparr> oc_redirect = ''/settings/auth?telegram=linked'', oc_user = None \<rparr>) \<and>
    telegram_usable r \<and> au_tg_client r = Some new \<and> au_tg_user r = Some (ti_id w) \<and> get_telegram_client C r \<noteq> Some c"
proof -
  obtain r0 where r0: "at_row s = Some r0" "get_telegram_client C r0 = Some c"
    using assms(4) by (auto simp: callback_client_def split: option.splits if_splits bind_split_asm)
  have s1: "at_row s1 = Some (patched_row_of C iv q r0)"
    using patch_config_cases [of C iv q s] assms(7) r0(1) by auto
  let ?r = "(patched_row_of C iv q r0) \<lparr> au_tg_user := Some (ti_id w), au_tg_name := ti_name w, au_tg_on := True \<rparr>"
  have "s1 \<lparr> at_row := Some ?r \<rparr> = link_telegram (ti_id w) (ti_name w) s1" by (simp add: link_telegram_def s1)
  then have "handle_callback V C i now (\<lambda>_. s1) (K, s) =
      ((K', s1 \<lparr> at_row := Some ?r \<rparr>), \<lparr> oc_redirect = ''/settings/auth?telegram=linked'', oc_user = None \<rparr>)"
    using handle_callback_done [OF assms(1-5), of "\<lambda>_. s1"] assms(6) s1 by (simp add: callback_finish_def)
  moreover have "au_tg_client ?r = Some new" "au_tg_secret ?r = au_tg_secret r0" "au_tg_origin ?r = au_tg_origin r0"
    using assms(8-12) by (simp_all add: patched_row_of_def patched_telegram_def Let_def set_text_def nonempty_def new_secret_def)
  moreover from this have "telegram_usable ?r" "get_telegram_client C ?r \<noteq> Some c"
    using client_parts [OF r0(2)] client_parts [of C ?r c] assms(9,10,13)
    by (auto simp: telegram_usable_def telegram_ready_def bind_eq_Some)
  ultimately show ?thesis by (intro exI [of _ ?r]) simp
qed

definition other_client :: auth_patch where
  "other_client = \<lparr> aq_password = None, aq_passkey = None, aq_rp_id = None, aq_rp_name = None, aq_rp_origin = None, aq_tg_on = None,
     aq_tg_client = Some ''8'', aq_tg_secret = None, aq_tg_origin = None \<rparr>"

definition link_cookie :: string where
  "link_cookie = to_base64url (encrypt plain_crypto sample_iv (stringify (flow_fields LinkMode sample_secrets linked_client 600005)))"

lemma other_client_saved: "\<exists>s1 v. patch_config plain_crypto sample_iv other_client linked_state = (s1, Inr v)"
proof -
  have "creds_changed other_client linked_row" "coalesce (aq_password other_client) (au_password_on linked_row)"
    by (simp_all add: creds_changed_def other_client_def linked_row_def owner_row_def set_text_def nonempty_def)
  then show ?thesis by (simp add: patch_config_def linked_state_def Let_def get_config_def assert_sign_in_possible_def methods_of_def)
qed

theorem link_of_replaced_settings_witness:
  "\<exists>s1 r. snd (fst (handle_callback sample_oidc plain_crypto (answer link_cookie) 100 (\<lambda>_. s1) (no_keys, linked_state))) = s1 \<lparr> at_row := Some r \<rparr> \<and>
     telegram_usable r \<and> au_tg_client r = Some ''8'' \<and> get_telegram_client plain_crypto r \<noteq> Some linked_client"
proof -
  obtain s1 v where p: "patch_config plain_crypto sample_iv other_client linked_state = (s1, Inr v)" using other_client_saved by blast
  have "\<exists>r. handle_callback sample_oidc plain_crypto (answer link_cookie) 100 (\<lambda>_. s1) (no_keys, linked_state) =
      ((sample_keys, s1 \<lparr> at_row := Some r \<rparr>), \<lparr> oc_redirect = ''/settings/auth?telegram=linked'', oc_user = None \<rparr>) \<and>
    telegram_usable r \<and> au_tg_client r = Some ''8'' \<and> au_tg_user r = Some (ti_id \<lparr> ti_id = ''42'', ti_name = None \<rparr>) \<and>
    get_telegram_client plain_crypto r \<noteq> Some linked_client"
    by (rule link_of_replaced_settings [where f = "issued_flow LinkMode sample_secrets linked_client 600005", OF _ _ _ sample_checked _ _ p],
        simp_all add: answer_def link_cookie_def sample_read sample_identity)
      (simp_all add: issued_flow_def other_client_def linked_client_def)
  then obtain r where "handle_callback sample_oidc plain_crypto (answer link_cookie) 100 (\<lambda>_. s1) (no_keys, linked_state) =
      ((sample_keys, s1 \<lparr> at_row := Some r \<rparr>), \<lparr> oc_redirect = ''/settings/auth?telegram=linked'', oc_user = None \<rparr>)"
    "telegram_usable r" "au_tg_client r = Some ''8''" "get_telegram_client plain_crypto r \<noteq> Some linked_client" by blast
  then show ?thesis by (intro exI [of _ s1] exI [of _ r]) simp
qed

end
