(* ===== verification/AuthSystem.thy ===== *)
theory AuthSystem
  imports Telegram
begin

text \<open>
  Signing in as a whole: the requests of auth.controller.ts and of the token routes and the two
  commands of bin/cli.ts in one step function, and the states a server reaches by them.  A Telegram
  callback spans other requests.  A restart forgets what is held in memory.  The commands run in a process of
  their own, so they change the rows and not what the server holds in memory.
\<close>

record auth_env =
  ae_lib :: auth_lib
  ae_crypto :: crypto_lib
  ae_webauthn :: webauthn_lib
  ae_ids :: "uuid list \<Rightarrow> uuid"

text \<open>bin/cli.ts: switch the password on again, or wipe the account with its passkeys.\<close>

definition enable_password :: "auth_state \<Rightarrow> auth_state" where
  "enable_password s = (case at_row s of None \<Rightarrow> s
     | Some r \<Rightarrow> if \<not> truthy (au_hash r) then s
         else if au_password_on r then s else s \<lparr> at_row := Some (r \<lparr> au_password_on := True \<rparr>) \<rparr>)"

definition reset_admin :: "auth_state \<Rightarrow> auth_state" where
  "reset_admin s = s \<lparr> at_passkeys := [], at_row := None \<rparr>"

datatype auth_request =
    Setup string string string string string string
  | Patch string auth_patch
  | Unlink
  | Register_options string ms
  | Verify_registration string "string option" ms
  | Login_options string ms
  | Verify_login login_response ms
  | Delete_passkey uuid
  | Create_token string string string ms
  | Remove_token uuid
  | Password_login string string string string ms
  | Guarded string string route http_request ms
  | Restart
  | Enable_password
  | Reset_admin

fun auth_step :: "auth_env \<Rightarrow> auth_request \<Rightarrow> auth_state \<Rightarrow> auth_state" where
  "auth_step E (Setup iv salt secret handle username password) s =
     fst (setup_admin (ae_lib E) (ae_crypto E) iv salt secret handle username password s)"
| "auth_step E (Patch iv q) s = fst (patch_config (ae_crypto E) iv q s)"
| "auth_step E Unlink s = fst (unlink_telegram s)"
| "auth_step E (Register_options c now) s = fst (register_options c now s)"
| "auth_step E (Verify_registration resp name now) s = fst (verify_registration (ae_webauthn E) (ae_ids E) resp name now s)"
| "auth_step E (Login_options c now) s = fst (login_options c now s)"
| "auth_step E (Verify_login resp now) s = fst (verify_login (ae_webauthn E) resp now s)"
| "auth_step E (Delete_passkey u) s = fst (delete_passkey u s)"
| "auth_step E (Create_token token name scope now) s = fst (create_token (ae_lib E) (ae_ids E) token name scope now s)"
| "auth_step E (Remove_token u) s = fst (remove_token u s)"
| "auth_step E (Password_login iv fresh username password now) s = (if verify_credentials (ae_lib E) username password s
     then fst (sign_session (ae_lib E) (ae_crypto E) iv fresh username now s) else s)"
| "auth_step E (Guarded iv fresh rt q now) s = fst (can_activate (ae_lib E) (ae_crypto E) iv fresh rt q now s)"
| "auth_step E Restart s = s \<lparr> at_challenges := (\<lambda>_. None), at_cached := None \<rparr>"
| "auth_step E Enable_password s = enable_password s"
| "auth_step E Reset_admin s = reset_admin s"

text \<open>The random values of a request have their sizes: a nonce of IV_LENGTH, a non-empty secret.\<close>

fun request_ok :: "auth_request \<Rightarrow> bool" where
  "request_ok (Setup iv salt secret handle username password) = (length iv = IV_LENGTH \<and> salt \<noteq> [] \<and> secret \<noteq> [])"
| "request_ok (Patch iv q) = (length iv = IV_LENGTH)"
| "request_ok (Password_login iv fresh username password now) = (length iv = IV_LENGTH)"
| "request_ok (Guarded iv fresh rt q now) = (length iv = IV_LENGTH)"
| "request_ok _ = True"

definition env_ok :: "auth_env \<Rightarrow> bool" where
  "env_ok E = (auth_lib_ok (ae_lib E) \<and> crypto_ok (ae_crypto E) \<and> fresh_ids (ae_ids E))"

text \<open>The states a server reaches from a state; the flag says whether reset-admin may run on the way.\<close>

inductive later :: "auth_env \<Rightarrow> bool \<Rightarrow> auth_state \<Rightarrow> auth_state \<Rightarrow> bool" for E w where
  later_refl: "later E w s s"
| later_step: "later E w s s1 \<Longrightarrow> request_ok q \<Longrightarrow> q = Reset_admin \<longrightarrow> w \<Longrightarrow> later E w s (auth_step E q s1)"
| later_callback: "later E w s s1 \<Longrightarrow> later E w s1 s2 \<Longrightarrow> length iv = IV_LENGTH \<Longrightarrow>
     later E w s (snd (fst (telegram_callback (ae_lib E) V (ae_crypto E) iv fresh i now (\<lambda>_. s2) (K, s1))))"

definition fresh_install :: auth_state where
  "fresh_install = \<lparr> at_row = None, at_passkeys = [], at_tokens = [], at_challenges = (\<lambda>_. None), at_cached = None \<rparr>"

section \<open>What a callback does to the state\<close>

lemma id_claim_nonempty: "id_claim j = Some i \<Longrightarrow> i \<noteq> []"
  using nat_text_nonempty by (auto simp: id_claim_def split: option.splits json.splits if_splits)

lemma read_claims_id: "read_claims j n = Inr w \<Longrightarrow> ti_id w \<noteq> []"
  by (auto simp: read_claims_def dest!: id_claim_nonempty split: option.splits if_splits)

lemma verify_id_token_id: "snd (verify_id_token V t c n now K) = Inr w \<Longrightarrow> ti_id w \<noteq> []"
  by (auto simp: verify_id_token_def dest: read_claims_id split: option.splits json.splits if_splits prod.splits)

lemma callback_identity_id: "snd (callback_identity V code f c now K) = Inr w \<Longrightarrow> ti_id w \<noteq> []"
  by (auto simp: callback_identity_def dest: verify_id_token_id split: sum.splits)

text \<open>Either nothing of its own, or the link of a verified account.\<close>

lemma handle_callback_state:
  "snd (fst (handle_callback V C i now (\<lambda>_. s2) (K, s1))) \<in> {s1, s2} \<or>
   (\<exists>user name. user \<noteq> [] \<and> snd (fst (handle_callback V C i now (\<lambda>_. s2) (K, s1))) = link_telegram user name s2)"
  using handle_callback_cases [of C now i s1 V K "\<lambda>_. s2"]
proof (elim disjE exE conjE)
  fix f c K' w
  assume a: "read_flow C now (ci_cookie i) (ci_state i) = Some f" "\<not> truthy (ci_error i)" "truthy (ci_code i)"
    "callback_client C f s1 = Some c" "callback_identity V (the (ci_code i)) f c now K = (K', Inr w)"
  have "ti_id w \<noteq> []" using callback_identity_id [of V "the (ci_code i)" f c now K w] a(5) by simp
  then show ?thesis using handle_callback_done [OF a] by (auto simp: callback_finish_def)
qed auto

lemma telegram_callback_step:
  assumes "handle_callback V C i now between ks = ((K, s), out)"
  shows "snd (fst (telegram_callback L V C iv fresh i now between ks)) \<in> {s, fst (session_secret C iv fresh s)}"
proof (cases "truthy (oc_user out)")
  case True
  obtain t k where t: "session_secret C iv fresh s = (t, k)" by fastforce
  show ?thesis by (cases k) (simp_all add: telegram_callback_def sign_session_def assms True t split: option.split)
qed (simp add: telegram_callback_def assms)

lemma telegram_callback_state:
  "\<exists>s. (s \<in> {s1, s2} \<or> (\<exists>user name. user \<noteq> [] \<and> s = link_telegram user name s2)) \<and>
     snd (fst (telegram_callback L V C iv fresh i now (\<lambda>_. s2) (K, s1))) \<in> {s, fst (session_secret C iv fresh s)}"
proof -
  obtain K' s out where h: "handle_callback V C i now (\<lambda>_. s2) (K, s1) = ((K', s), out)" by (metis surj_pair)
  have "s \<in> {s1, s2} \<or> (\<exists>user name. user \<noteq> [] \<and> s = link_telegram user name s2)"
    using handle_callback_state [of V C i now s2 K s1] by (simp add: h)
  then show ?thesis using telegram_callback_step [OF h] by blast
qed

text \<open>So a fact kept by the requests, by a link and by reading the secret is kept throughout.\<close>

lemma later_keeps:
  assumes "later E w s s'" and "P s"
    and step: "\<And>q t. P t \<Longrightarrow> request_ok q \<Longrightarrow> q = Reset_admin \<longrightarrow> w \<Longrightarrow> P (auth_step E q t)"
    and link: "\<And>user name t. P t \<Longrightarrow> user \<noteq> [] \<Longrightarrow> P (link_telegram user name t)"
    and secret: "\<And>iv fresh t. P t \<Longrightarrow> length iv = IV_LENGTH \<Longrightarrow> P (fst (session_secret (ae_crypto E) iv fresh t))"
  shows "P s'"
  using assms(1,2)
proof (induction rule: later.induct)
  case (later_callback s s1 s2 iv V fresh i now K)
  then have p: "P s1" "P s2" by blast+
  obtain t where "t \<in> {s1, s2} \<or> (\<exists>user name. user \<noteq> [] \<and> t = link_telegram user name s2)"
    and r: "snd (fst (telegram_callback (ae_lib E) V (ae_crypto E) iv fresh i now (\<lambda>_. s2) (K, s1)))
      \<in> {t, fst (session_secret (ae_crypto E) iv fresh t)}"
    using telegram_callback_state [of s1 s2 "ae_lib E" V "ae_crypto E" iv fresh i now K] by (elim exE conjE) rule
  then have "P t" using p link by auto
  then show ?case using r secret later_callback.hyps(3) by auto
qed (auto intro: step)

section \<open>What the other requests leave alone\<close>

lemma challenge_frame [simp]:
  "at_row (put_challenge k c t s) = at_row s" "at_cached (put_challenge k c t s) = at_cached s"
  "at_passkeys (put_challenge k c t s) = at_passkeys s" "at_tokens (put_challenge k c t s) = at_tokens s"
  "at_row (fst (take_challenge k t s)) = at_row s" "at_cached (fst (take_challenge k t s)) = at_cached s"
  "at_passkeys (fst (take_challenge k t s)) = at_passkeys s" "at_tokens (fst (take_challenge k t s)) = at_tokens s"
  by (simp_all add: put_challenge_def take_challenge_def)

lemma table_frame [simp]:
  "at_row (record_login u n now s) = at_row s" "at_cached (record_login u n now s) = at_cached s"
  "at_tokens (record_login u n now s) = at_tokens s"
  "at_row (drop_passkey u s) = at_row s" "at_cached (drop_passkey u s) = at_cached s" "at_tokens (drop_passkey u s) = at_tokens s"
  "at_row (touch_last_used u now s) = at_row s" "at_cached (touch_last_used u now s) = at_cached s"
  "at_passkeys (touch_last_used u now s) = at_passkeys s"
  by (simp_all add: record_login_def drop_passkey_def touch_last_used_def)

lemma options_state:
  "fst (register_options c now s) \<in> {s, put_challenge Register c now s}"
  "fst (login_options c now s) \<in> {s, put_challenge Login c now s}"
  by (simp_all add: register_options_def login_options_def split: sum.split)

lemma create_passkey_state:
  "fst (create_passkey p s) = s \<or> pk_credential p \<notin> pk_credential ` set (at_passkeys s) \<and>
     fst (create_passkey p s) = s \<lparr> at_passkeys := at_passkeys s @ [p] \<rparr>"
  by (simp add: create_passkey_def)

lemma verify_registration_state:
  "fst (verify_registration W G r name now s) \<in> {s, fst (take_challenge Register now s)} \<or>
   (\<exists>p. pk_uuid p = G (map pk_uuid (at_passkeys s)) \<and>
      fst (verify_registration W G r name now s) = fst (create_passkey p (fst (take_challenge Register now s))))"
proof (cases "fst (verify_registration W G r name now s) \<in> {s, fst (take_challenge Register now s)}")
  case False
  then obtain row rp s1 c g where a: "require_row s = Inr row" "require_rp row = Inr rp" "take_challenge Register now s = (s1, Some c)"
      "c \<noteq> []" "wl_register W r c (rp_origins rp) (rp_id rp) = Inr (Some g)"
    unfolding verify_registration_def
    by (simp split: sum.splits prod.splits option.splits if_splits)
  let ?p = "new_passkey (G (map pk_uuid (at_passkeys s1))) g (passkey_label name s1) now"
  have s1: "s1 = fst (take_challenge Register now s)" using a(3) by simp
  have "fst (verify_registration W G r name now s) = fst (create_passkey ?p s1)"
    using a by (simp add: verify_registration_def split: prod.split sum.split)
  then show ?thesis using s1 by (intro disjI2 exI [of _ ?p]) (simp add: new_passkey_def)
qed simp

lemma verify_login_state:
  "fst (verify_login W r now s) \<in> {s, fst (take_challenge Login now s)} \<or>
   (\<exists>u n. fst (verify_login W r now s) = record_login u n now (fst (take_challenge Login now s)))"
proof (cases "fst (verify_login W r now s) \<in> {s, fst (take_challenge Login now s)}")
  case False
  then obtain row rp s1 c p n where a: "require_row s = Inr row" "au_passkey_on row" "require_rp row = Inr rp"
      "take_challenge Login now s = (s1, Some c)" "c \<noteq> []" "find_by_credential (lr_id r) s1 = Some p"
      "wl_login W r c (rp_origins rp) (rp_id rp) (credential_of p) = Inr (Some n)" "\<not> (n \<noteq> 0 \<and> n \<le> pk_counter p)"
    unfolding verify_login_def
    by (simp split: sum.splits prod.splits option.splits if_splits)
  then have "fst (verify_login W r now s) = record_login (pk_uuid p) n now s1" by (auto simp: verify_login_def)
  then show ?thesis using a(4) by (metis fst_conv)
qed simp

lemma delete_passkey_state:
  "fst (delete_passkey u s) = s \<or> delete_check u s = None \<and> fst (delete_passkey u s) = drop_passkey u s"
  by (simp add: delete_passkey_def split: option.split)

lemma create_token_state:
  "fst (create_token L G token name scope now s) = s \<or> hash_token L token \<notin> tk_hash ` set (at_tokens s) \<and>
   (\<exists>t. tk_uuid t = G (map tk_uuid (at_tokens s)) \<and> tk_hash t = hash_token L token \<and>
      fst (create_token L G token name scope now s) = s \<lparr> at_tokens := at_tokens s @ [t] \<rparr>)"
  by (simp add: create_token_def Let_def) (metis api_token.select_convs(1,3))

lemma remove_token_state:
  "fst (remove_token u s) \<in> {s, s \<lparr> at_tokens := filter (\<lambda>t. tk_uuid t \<noteq> u) (at_tokens s) \<rparr>}"
  by (simp add: remove_token_def)

lemma verify_api_token_state: "fst (verify_api_token L token now s) = s \<or> (\<exists>u. fst (verify_api_token L token now s) = touch_last_used u now s)"
  by (auto simp: verify_api_token_def split: option.splits)

lemma verify_session_state: "fst (verify_session L C iv fresh cookie now s) \<in> {s, fst (session_secret C iv fresh s)}"
  by (simp add: verify_session_def split_beta)

lemma can_activate_state:
  "\<exists>t. (t = s \<or> (\<exists>u. t = touch_last_used u now s)) \<and>
     fst (can_activate L C iv fresh rt q now s) \<in> {t, fst (session_secret C iv fresh t)}"
proof -
  let ?b = "bearer_token (rq_authorization q)"
  let ?t = "fst (verify_api_token L ?b now s)"
  have "fst (can_activate L C iv fresh rt q now s) \<in> {s, ?t, fst (verify_session L C iv fresh (rq_cookie q) now ?t)}"
    by (auto simp: can_activate_def identify_def split_beta split: option.split)
  then show ?thesis using verify_api_token_state [of L ?b now s] verify_session_state [of L C iv fresh "rq_cookie q" now ?t] by auto
qed

section \<open>The invariant\<close>

definition tables_ok :: "auth_state \<Rightarrow> bool" where
  "tables_ok s = (distinct (map pk_uuid (at_passkeys s)) \<and> distinct (map pk_credential (at_passkeys s)) \<and>
     distinct (map tk_uuid (at_tokens s)) \<and> distinct (map tk_hash (at_tokens s)))"

text \<open>After reset-admin the server may still hold the secret of the wiped account, until the next setup.\<close>

definition cached_fits :: "auth_env \<Rightarrow> bool \<Rightarrow> auth_state \<Rightarrow> bool" where
  "cached_fits E w s = (cache_ok (ae_crypto E) s \<or> w \<and> at_row s = None)"

definition auth_inv :: "auth_env \<Rightarrow> bool \<Rightarrow> auth_state \<Rightarrow> bool" where
  "auth_inv E w s = (tables_ok s \<and> sign_in_possible s \<and> cached_fits E w s)"

text \<open>A state with the same account and secret, and passkeys where there were some.\<close>

definition same_account :: "auth_state \<Rightarrow> auth_state \<Rightarrow> bool" where
  "same_account s s' = (at_row s' = at_row s \<and> at_cached s' = at_cached s \<and> (at_passkeys s = [] \<or> at_passkeys s' \<noteq> []))"

lemma fits_frame: "at_row s' = at_row s \<Longrightarrow> at_cached s' = at_cached s \<Longrightarrow> cached_fits E w s' = cached_fits E w s"
  by (simp add: cached_fits_def cache_ok_def stored_secret_def split: option.split)

lemma auth_inv_same: "same_account s s' \<Longrightarrow> tables_ok s' \<Longrightarrow> auth_inv E w s \<Longrightarrow> auth_inv E w s'"
  using fits_frame [of s' s E w]
  by (auto simp: auth_inv_def same_account_def sign_in_possible_def split: option.splits)

lemma tables_challenges [simp]:
  "tables_ok (put_challenge k c t s) = tables_ok s" "tables_ok (fst (take_challenge k t s)) = tables_ok s"
  by (simp_all add: tables_ok_def)

lemma tables_login [simp]: "tables_ok s \<Longrightarrow> tables_ok (record_login u n now s)"
  by (simp add: tables_ok_def record_login_def comp_def if_distrib cong: if_cong)

lemma tables_touch [simp]: "tables_ok s \<Longrightarrow> tables_ok (touch_last_used u now s)"
  by (simp add: tables_ok_def touch_last_used_def comp_def if_distrib cong: if_cong)

lemma same_account_simps [simp]:
  "same_account s s" "same_account s (put_challenge k c t s)" "same_account s (fst (take_challenge k t s))"
  "same_account s (touch_last_used u now s)" "same_account s (s \<lparr> at_tokens := ts \<rparr>)"
  "same_account s (record_login u n now (fst (take_challenge k t s)))"
  by (simp_all add: same_account_def) (simp add: record_login_def)

lemma auth_inv_frames:
  "auth_inv E w s \<Longrightarrow> auth_inv E w (put_challenge k c t s)" "auth_inv E w s \<Longrightarrow> auth_inv E w (fst (take_challenge k t s))"
  "auth_inv E w s \<Longrightarrow> auth_inv E w (touch_last_used u now s)"
  "auth_inv E w s \<Longrightarrow> auth_inv E w (record_login u n now (fst (take_challenge k t s)))"
  by (rule auth_inv_same [of s]; simp add: auth_inv_def)+

lemma auth_inv_registration:
  assumes "env_ok E" "auth_inv E w s"
  shows "auth_inv E w (fst (verify_registration W (ae_ids E) r name now s))"
proof -
  have "auth_inv E w (fst (create_passkey p (fst (take_challenge Register now s))))"
    if "pk_uuid p = ae_ids E (map pk_uuid (at_passkeys s))" for p
  proof (rule auth_inv_same [OF _ _ assms(2)])
    have "ae_ids E (map pk_uuid (at_passkeys s)) \<notin> set (map pk_uuid (at_passkeys s))"
      using assms(1) unfolding env_ok_def fresh_ids_def by blast
    then show "tables_ok (fst (create_passkey p (fst (take_challenge Register now s))))"
      using assms(2) that by (auto simp: create_passkey_def auth_inv_def tables_ok_def)
  qed (simp add: create_passkey_def same_account_def)
  then show ?thesis using verify_registration_state [of W "ae_ids E" r name now s] assms(2) auth_inv_frames(2) by auto
qed

lemma filter_one_left:
  "distinct (map f xs) \<Longrightarrow> 1 < length xs \<Longrightarrow> filter (\<lambda>x. f x \<noteq> u) xs \<noteq> []"
proof -
  assume a: "distinct (map f xs)" "1 < length xs"
  then have "f (xs ! 0) \<noteq> f (xs ! 1)" by (simp add: distinct_conv_nth) (metis One_nat_def Suc_lessD n_not_Suc_n nth_map)
  moreover have "xs ! 0 \<in> set xs" "xs ! 1 \<in> set xs" using a(2) by (auto intro!: nth_mem)
  ultimately show ?thesis by (simp add: filter_empty_conv) metis
qed

lemma delete_check_None:
  "delete_check u s = None \<Longrightarrow> \<exists>r. at_row s = Some r \<and>
     (au_password_on r \<or> au_passkey_on r \<and> 1 < length (at_passkeys s) \<or> telegram_usable r)"
  by (auto simp: delete_check_def require_row_def assert_sign_in_possible_None split: option.splits if_splits)

lemma auth_inv_delete: "auth_inv E w s \<Longrightarrow> auth_inv E w (fst (delete_passkey u s))"
proof -
  assume a: "auth_inv E w s"
  have "auth_inv E w (drop_passkey u s)" if c: "delete_check u s = None"
  proof -
    obtain r where r: "at_row s = Some r" "au_password_on r \<or> au_passkey_on r \<and> 1 < length (at_passkeys s) \<or> telegram_usable r"
      using delete_check_None [OF c] by blast
    have t: "tables_ok (drop_passkey u s)" using a by (simp add: auth_inv_def tables_ok_def drop_passkey_def distinct_map_filter)
    have "sign_in_possible (drop_passkey u s)"
      using r a filter_one_left [of pk_uuid "at_passkeys s" u]
      by (auto simp: sign_in_possible_def drop_passkey_def auth_inv_def tables_ok_def)
    moreover have "cached_fits E w (drop_passkey u s)" using a fits_frame [of "drop_passkey u s" s E w] by (simp add: auth_inv_def)
    ultimately show ?thesis using t by (simp add: auth_inv_def)
  qed
  then show ?thesis using a delete_passkey_state [of u s] by auto
qed

lemma auth_inv_token_ops:
  assumes "env_ok E" "auth_inv E w s"
  shows "auth_inv E w (fst (create_token L (ae_ids E) token name scope now s))" "auth_inv E w (fst (remove_token u s))"
proof -
  have i: "ae_ids E (map tk_uuid (at_tokens s)) \<notin> set (map tk_uuid (at_tokens s))"
    using assms(1) unfolding env_ok_def fresh_ids_def by blast
  have "auth_inv E w (s \<lparr> at_tokens := at_tokens s @ [t] \<rparr>)"
    if "tk_uuid t = ae_ids E (map tk_uuid (at_tokens s))" "tk_hash t = hash_token L token" "hash_token L token \<notin> tk_hash ` set (at_tokens s)" for t
    by (rule auth_inv_same [OF _ _ assms(2)]) (use i that assms(2) in \<open>auto simp: auth_inv_def tables_ok_def\<close>)
  then show "auth_inv E w (fst (create_token L (ae_ids E) token name scope now s))"
    using create_token_state [of L "ae_ids E" token name scope now s] assms(2) by auto
  have "auth_inv E w (s \<lparr> at_tokens := filter (\<lambda>t. tk_uuid t \<noteq> u) (at_tokens s) \<rparr>)"
    by (rule auth_inv_same [OF _ _ assms(2)]) (use assms(2) in \<open>simp_all add: auth_inv_def tables_ok_def distinct_map_filter\<close>)
  then show "auth_inv E w (fst (remove_token u s))" using remove_token_state [of u s] assms(2) by auto
qed

lemma secret_of_none: "at_row s = None \<Longrightarrow> at_row (fst (session_secret C iv fresh s)) = None"
  using session_secret_row [of C iv fresh s] by auto

lemma auth_inv_secret:
  "env_ok E \<Longrightarrow> auth_inv E w s \<Longrightarrow> length iv = IV_LENGTH \<Longrightarrow> auth_inv E w (fst (session_secret (ae_crypto E) iv fresh s))"
  by (auto simp: auth_inv_def env_ok_def cached_fits_def session_secret_cache sign_in_secret tables_ok_def secret_of_none)

lemma auth_inv_link: "auth_inv E w s \<Longrightarrow> user \<noteq> [] \<Longrightarrow> auth_inv E w (link_telegram user name s)"
proof -
  assume a: "auth_inv E w s" "user \<noteq> []"
  have "stored_secret (ae_crypto E) (link_telegram user name s) = stored_secret (ae_crypto E) s"
    by (rule stored_secret_row) (cases "at_row s"; simp add: link_telegram_def)
  then have "cached_fits E w (link_telegram user name s)"
    using a(1) cache_ok_frame [of "link_telegram user name s" s] by (simp add: auth_inv_def cached_fits_def link_telegram_def)
  then show ?thesis using a sign_in_link by (simp add: auth_inv_def tables_ok_def link_telegram_def)
qed

lemma auth_inv_config:
  assumes "env_ok E" "auth_inv E w s" "length iv = IV_LENGTH"
  shows "auth_inv E w (fst (setup_admin L (ae_crypto E) iv salt secret handle u p s))"
    and "auth_inv E w (fst (patch_config (ae_crypto E) iv q s))"
proof -
  have "cached_fits E w (fst (setup_admin L (ae_crypto E) iv salt secret handle u p s))"
    using assms by (simp add: setup_admin_def auth_inv_def cached_fits_def) (simp add: cache_ok_def stored_secret_def env_ok_def decrypt_encrypt)
  then show "auth_inv E w (fst (setup_admin L (ae_crypto E) iv salt secret handle u p s))"
    using assms(2) sign_in_setup by (simp add: auth_inv_def) (simp add: tables_ok_def setup_admin_def)
  have "cached_fits E w (fst (patch_config (ae_crypto E) iv q s)) \<and> tables_ok (fst (patch_config (ae_crypto E) iv q s))"
    using patch_config_cases [of "ae_crypto E" iv q s] assms(2)
    by (auto simp: auth_inv_def tables_ok_def cached_fits_def cache_ok_def stored_secret_def split: option.splits)
  then show "auth_inv E w (fst (patch_config (ae_crypto E) iv q s))" using assms(2) sign_in_patch by (simp add: auth_inv_def)
qed

lemma auth_inv_unlink: "auth_inv E w s \<Longrightarrow> auth_inv E w (fst (unlink_telegram s))"
proof -
  assume a: "auth_inv E w s"
  then have "cached_fits E w (fst (unlink_telegram s)) \<and> tables_ok (fst (unlink_telegram s))"
    using unlink_cases [of s] by (auto simp: auth_inv_def tables_ok_def cached_fits_def cache_ok_def stored_secret_def split: option.splits)
  then show ?thesis using a sign_in_unlink by (simp add: auth_inv_def)
qed

lemma enable_cases: "enable_password s = s \<or> (\<exists>r. at_row s = Some r \<and> enable_password s = s \<lparr> at_row := Some (r \<lparr> au_password_on := True \<rparr>) \<rparr>)"
  by (auto simp: enable_password_def split: option.split)

lemma auth_inv_commands:
  "auth_inv E w s \<Longrightarrow> auth_inv E w (enable_password s)" "auth_inv E w s \<Longrightarrow> w \<Longrightarrow> auth_inv E w (reset_admin s)"
proof -
  assume a: "auth_inv E w s"
  show "auth_inv E w (enable_password s)"
    using enable_cases [of s] a
    by (auto simp: auth_inv_def tables_ok_def sign_in_possible_def cached_fits_def cache_ok_def stored_secret_def split: option.splits)
  show "auth_inv E w (reset_admin s)" if w using a that
    by (simp add: auth_inv_def tables_ok_def sign_in_possible_def cached_fits_def reset_admin_def)
qed

lemma auth_inv_guard:
  "env_ok E \<Longrightarrow> auth_inv E w s \<Longrightarrow> length iv = IV_LENGTH \<Longrightarrow>
   auth_inv E w (fst (can_activate L (ae_crypto E) iv fresh rt q now s))"
  using can_activate_state [of s now L "ae_crypto E" iv fresh rt q] auth_inv_frames(3) auth_inv_secret by auto

lemma auth_inv_restart: "auth_inv E w s \<Longrightarrow> auth_inv E w (s \<lparr> at_challenges := (\<lambda>_. None), at_cached := None \<rparr>)"
  by (cases "at_row s") (simp_all add: auth_inv_def tables_ok_def sign_in_possible_def cached_fits_def cache_ok_def)

lemma auth_inv_step: "env_ok E \<Longrightarrow> auth_inv E w s \<Longrightarrow> request_ok q \<Longrightarrow> q = Reset_admin \<longrightarrow> w \<Longrightarrow> auth_inv E w (auth_step E q s)"
proof (cases q)
  case (Register_options c now)
  assume "auth_inv E w s"
  then show ?thesis using options_state(1) [of c now s] auth_inv_frames(1) Register_options by auto
next
  case (Login_options c now)
  assume "auth_inv E w s"
  then show ?thesis using options_state(2) [of c now s] auth_inv_frames(1) Login_options by auto
next
  case (Verify_login resp now)
  assume "auth_inv E w s"
  then show ?thesis using verify_login_state [of "ae_webauthn E" resp now s] auth_inv_frames(2,4) Verify_login by auto
qed (auto simp: auth_inv_config auth_inv_unlink auth_inv_registration auth_inv_delete auth_inv_token_ops auth_inv_guard auth_inv_restart
   auth_inv_commands auth_inv_secret sign_session_def split_beta)

lemma auth_inv_later: "later E w s s' \<Longrightarrow> env_ok E \<Longrightarrow> auth_inv E w s \<Longrightarrow> auth_inv E w s'"
  by (erule later_keeps [where P = "auth_inv E w"]) (auto intro: auth_inv_step auth_inv_link auth_inv_secret)

lemma fresh_install_inv: "auth_inv E w fresh_install"
  by (simp add: auth_inv_def fresh_install_def tables_ok_def sign_in_possible_def cached_fits_def cache_ok_def)

section \<open>The account once it is set up\<close>

text \<open>Name, password hash and session secret stay as they were set.\<close>

definition account_is :: "auth_env \<Rightarrow> string \<Rightarrow> string option \<Rightarrow> string \<Rightarrow> auth_state \<Rightarrow> bool" where
  "account_is E name hash k s = (\<exists>r. at_row s = Some r \<and> au_username r = name \<and> au_hash r = hash \<and>
     Option.bind (au_secret r) (decrypt (ae_crypto E)) = Some k)"

lemma account_is_secret: "account_is E name hash k s \<Longrightarrow> stored_secret (ae_crypto E) s = Some k"
  by (auto simp: account_is_def stored_secret_def)

lemma account_same: "at_row s' = at_row s \<Longrightarrow> account_is E name hash k s \<Longrightarrow> account_is E name hash k s'"
  by (simp add: account_is_def)

lemma account_row_frames:
  "at_row (fst (register_options c now s)) = at_row s" "at_row (fst (login_options c now s)) = at_row s"
  "at_row (fst (verify_registration W G r name now s)) = at_row s" "at_row (fst (verify_login W lr now s)) = at_row s"
  "at_row (fst (delete_passkey u s)) = at_row s" "at_row (fst (create_token L G token n scope now s)) = at_row s"
  "at_row (fst (remove_token u s)) = at_row s"
proof -
  show "at_row (fst (register_options c now s)) = at_row s" "at_row (fst (login_options c now s)) = at_row s"
    using options_state [of c now s] by auto
  show "at_row (fst (verify_registration W G r name now s)) = at_row s"
    using verify_registration_state [of W G r name now s] by (auto simp: create_passkey_def)
  show "at_row (fst (verify_login W lr now s)) = at_row s" using verify_login_state [of W lr now s] by auto
  show "at_row (fst (delete_passkey u s)) = at_row s" using delete_passkey_state [of u s] by auto
  show "at_row (fst (create_token L G token n scope now s)) = at_row s"
    using create_token_state [of L G token n scope now s] by auto
  show "at_row (fst (remove_token u s)) = at_row s" using remove_token_state [of u s] by auto
qed

lemma account_secret: "account_is E name hash k s \<Longrightarrow> account_is E name hash k (fst (session_secret (ae_crypto E) iv fresh s))"
  using session_secret_row [of "ae_crypto E" iv fresh s] by (auto simp: account_is_def)

lemma account_link: "account_is E name hash k s \<Longrightarrow> account_is E name hash k (link_telegram user n s)"
  by (auto simp: account_is_def link_telegram_def)

lemma account_enable: "account_is E name hash k s \<Longrightarrow> account_is E name hash k (enable_password s)"
  using enable_cases [of s] by (auto simp: account_is_def)

lemma account_step: "account_is E name hash k s \<Longrightarrow> q \<noteq> Reset_admin \<Longrightarrow> account_is E name hash k (auth_step E q s)"
proof (cases q)
  case (Setup iv salt secret handle username password)
  assume "account_is E name hash k s"
  then show ?thesis using Setup by (auto simp: account_is_def setup_admin_def)
next
  case (Patch iv p)
  assume "account_is E name hash k s"
  then show ?thesis using Patch patch_config_cases [of "ae_crypto E" iv p s] by (auto simp: account_is_def)
next
  case Unlink
  assume "account_is E name hash k s"
  then show ?thesis using Unlink unlink_cases [of s] by (auto simp: account_is_def)
next
  case (Password_login iv fresh username password now)
  assume "account_is E name hash k s"
  then show ?thesis using Password_login account_secret by (simp add: sign_session_def split_beta)
next
  case (Guarded iv fresh rt r now)
  assume a: "account_is E name hash k s"
  obtain t where t: "t = s \<or> (\<exists>u. t = touch_last_used u now s)"
    "auth_step E q s \<in> {t, fst (session_secret (ae_crypto E) iv fresh t)}"
    using can_activate_state [of s now "ae_lib E" "ae_crypto E" iv fresh rt r] Guarded by auto
  then have "account_is E name hash k t" using a account_same [of t s] by auto
  then show ?thesis using t(2) account_secret by auto
qed (auto elim!: account_same [rotated] simp: account_row_frames account_enable)

lemma account_later: "later E False s s' \<Longrightarrow> account_is E name hash k s \<Longrightarrow> account_is E name hash k s'"
  by (erule later_keeps [where P = "account_is E name hash k"]) (auto intro: account_step account_link account_secret)

text \<open>An account in the database was set up, so its secret is there and not empty.\<close>

definition secret_stored :: "auth_env \<Rightarrow> auth_state \<Rightarrow> bool" where
  "secret_stored E s = (\<forall>r. at_row s = Some r \<longrightarrow> (\<exists>k. Option.bind (au_secret r) (decrypt (ae_crypto E)) = Some k \<and> k \<noteq> []))"

lemma secret_stored_keeps:
  assumes "secret_stored E t" "\<And>name hash k. account_is E name hash k t \<Longrightarrow> account_is E name hash k s'" "at_row t = None \<longrightarrow> at_row s' = None"
  shows "secret_stored E s'"
proof (cases "at_row t")
  case (Some r)
  obtain k where k: "account_is E (au_username r) (au_hash r) k t" "k \<noteq> []" using assms(1) Some by (auto simp: account_is_def secret_stored_def)
  from assms(2) [OF k(1)] k(2) show ?thesis by (auto simp: account_is_def secret_stored_def)
qed (use assms(3) in \<open>simp add: secret_stored_def\<close>)

lemma secret_stored_step:
  assumes "env_ok E" "secret_stored E t" "request_ok q"
  shows "secret_stored E (auth_step E q t)"
proof (cases "(\<exists>iv salt secret handle u p. q = Setup iv salt secret handle u p) \<or> q = Reset_admin")
  case True
  then show ?thesis
  proof (elim disjE exE)
    fix iv salt secret handle u p assume q: "q = Setup iv salt secret handle u p"
    then show ?thesis using assms by (simp add: setup_admin_def) (simp add: secret_stored_def env_ok_def decrypt_encrypt)
  qed (simp add: secret_stored_def reset_admin_def)
next
  case False
  have "at_row t = None \<Longrightarrow> at_row (auth_step E q t) = None"
  proof (cases q)
    case (Guarded iv fresh rt r now)
    assume "at_row t = None"
    then show ?thesis using can_activate_state [of t now "ae_lib E" "ae_crypto E" iv fresh rt r] secret_of_none Guarded by auto
  qed (use False secret_of_none in \<open>auto simp: account_row_frames patch_config_def unlink_telegram_def sign_session_def split_beta enable_password_def\<close>)
  then have n: "at_row t = None \<longrightarrow> at_row (auth_step E q t) = None" by (rule impI)
  have "q \<noteq> Reset_admin" using False by blast
  from secret_stored_keeps [OF assms(2) account_step n] this show ?thesis by blast
qed

lemma account_from_install:
  assumes "later E w fresh_install s" "env_ok E" "at_row s = Some r"
  shows "\<exists>k. account_is E (au_username r) (au_hash r) k s \<and> k \<noteq> []"
proof -
  have linked: "secret_stored E (link_telegram user name t)" if "secret_stored E t" for user name t
    using that by (auto simp: secret_stored_def link_telegram_def)
  have read: "secret_stored E (fst (session_secret (ae_crypto E) iv fresh t))" if "secret_stored E t" for iv fresh t
  proof -
    have "at_row t = None \<longrightarrow> at_row (fst (session_secret (ae_crypto E) iv fresh t)) = None" using secret_of_none by simp
    from secret_stored_keeps [OF that account_secret this] show ?thesis by blast
  qed
  have "secret_stored E s"
  proof (rule later_keeps [where P = "secret_stored E", OF assms(1)])
    show "secret_stored E fresh_install" by (simp add: secret_stored_def fresh_install_def)
  qed (rule secret_stored_step [OF assms(2)] linked read; assumption)+
  then show ?thesis using assms(3) by (auto simp: secret_stored_def account_is_def)
qed

section \<open>Sample values\<close>

definition sample_webauthn :: webauthn_lib where
  "sample_webauthn = \<lparr> wl_register = (\<lambda>r c os i. Inr None), wl_login = (\<lambda>r c os i k. if lr_body r = c then Inr (Some (cr_counter k + 1)) else Inr None) \<rparr>"

definition plain_env :: auth_env where
  "plain_env = \<lparr> ae_lib = plain_auth, ae_crypto = plain_crypto, ae_webauthn = sample_webauthn, ae_ids = longer_id \<rparr>"

lemma plain_env_ok: "env_ok plain_env"
  by (simp add: env_ok_def plain_env_def plain_auth_ok plain_crypto_ok longer_id_fresh)

definition first_setup :: auth_request where
  "first_setup = Setup sample_iv ''salt'' ''key'' ''handle'' ''owner'' ''password''"

lemma first_setup_state: "auth_step plain_env first_setup fresh_install = owner_state \<lparr> at_cached := Some ''key'' \<rparr>"
  by (simp add: first_setup_def setup_admin_def fresh_install_def plain_env_def owner_state_def owner_row_def)

lemma owner_later: "later plain_env w fresh_install (owner_state \<lparr> at_cached := Some ''key'' \<rparr>)"
proof -
  have "request_ok first_setup" by (simp add: first_setup_def sample_iv_ok)
  moreover have "first_setup \<noteq> Reset_admin" by (simp add: first_setup_def)
  ultimately show ?thesis using later_step [OF later_refl, of first_setup w plain_env fresh_install] by (simp only: first_setup_state simp_thms)
qed

definition sample_passkey :: "uuid \<Rightarrow> passkey" where
  "sample_passkey u = \<lparr> pk_uuid = u, pk_credential = u @ ''-id'', pk_key = ''pub'', pk_counter = 4, pk_transports = None, pk_device = None,
     pk_backed_up = False, pk_name = Some ''Passkey'', pk_created = 0, pk_last_used = None \<rparr>"

definition passkey_state :: auth_state where
  "passkey_state = owner_state \<lparr> at_row := Some (owner_row \<lparr> au_password_on := False, au_passkey_on := True,
     au_rp_id := Some ''panel.example'', au_rp_origin := Some ''https://panel.example'' \<rparr>),
     at_passkeys := [sample_passkey ''k1'', sample_passkey ''k2''] \<rparr>"

section \<open>Properties\<close>

text \<open>C3. From a fresh installation, whatever requests follow one another, Telegram round trips,
  restarts and the commands of the CLI included, the owner keeps a sign-in method the lockout guard accepts, no two
  passkeys or tokens share an identifier, and the cached session secret is the stored one; only after reset-admin, and
  only until the next setup, can the cache hold a secret although no account is stored.\<close>

theorem reachable_sign_in:
  assumes "env_ok E" "later E w fresh_install s"
  shows "tables_ok s \<and> (cache_ok (ae_crypto E) s \<or> w \<and> at_row s = None) \<and>
    (case at_row s of None \<Rightarrow> True
     | Some r \<Rightarrow> assert_sign_in_possible (methods_of (au_password_on r) (au_passkey_on r) (int (length (at_passkeys s))) (telegram_usable r)) = None)"
  using auth_inv_later [OF assms(2,1) fresh_install_inv]
  by (auto simp: auth_inv_def cached_fits_def sign_in_possible_def assert_sign_in_possible_None split: option.split)

theorem reachable_sign_in_witness:
  "tables_ok (owner_state \<lparr> at_cached := Some ''key'' \<rparr>) \<and> cache_ok plain_crypto (owner_state \<lparr> at_cached := Some ''key'' \<rparr>)"
  using reachable_sign_in [OF plain_env_ok owner_later [of False]] by (simp add: plain_env_def)

definition clear_rp_id :: auth_patch where
  "clear_rp_id = \<lparr> aq_password = None, aq_passkey = None, aq_rp_id = Some [], aq_rp_name = None, aq_rp_origin = None, aq_tg_on = None,
     aq_tg_client = None, aq_tg_secret = None, aq_tg_origin = None \<rparr>"

lemma patch_clear_rp:
  "at_row s = Some r \<Longrightarrow> au_passkey_on r \<Longrightarrow> at_passkeys s \<noteq> [] \<Longrightarrow>
   patch_config C iv clear_rp_id s = (s \<lparr> at_row := Some (r \<lparr> au_rp_id := None \<rparr>) \<rparr>, Inr (view_of (r \<lparr> au_rp_id := None \<rparr>)))"
proof -
  assume a: "at_row s = Some r" "au_passkey_on r" "at_passkeys s \<noteq> []"
  have n: "\<not> creds_changed clear_rp_id r" "new_secret clear_rp_id = None"
    by (simp_all add: creds_changed_def clear_rp_id_def set_text_def new_secret_def)
  have t: "patched_telegram C iv clear_rp_id r = r"
    using n by (simp add: patched_telegram_def Let_def) (simp add: clear_rp_id_def set_text_def)
  have "patched_row_of C iv clear_rp_id r = r \<lparr> au_rp_id := None \<rparr>"
    by (simp add: patched_row_of_def t) (simp add: clear_rp_id_def set_trimmed_def nonempty_def trim_def trim_end_def)
  moreover have "aq_tg_on clear_rp_id \<noteq> Some True" "aq_password clear_rp_id = None" "aq_passkey clear_rp_id = None"
    by (simp_all add: clear_rp_id_def)
  moreover have "assert_sign_in_possible (methods_of (au_password_on r) (au_passkey_on r) (int (length (at_passkeys s))) (telegram_usable r)) = None"
    using a by (simp add: assert_sign_in_possible_None)
  ultimately show ?thesis using a(1) by (simp add: patch_config_def n t get_config_def Let_def)
qed

text \<open>C10. The guard does not look at the relying party: an owner who signs in with passkeys only can
  clear the RP id, the patch is accepted, and no way in is left: the password and Telegram are off,
  and both passkey ceremonies fail for every challenge and answer.\<close>

theorem relying_party_lockout:
  assumes "at_row s = Some r" "\<not> au_password_on r" "au_passkey_on r" "at_passkeys s \<noteq> []" "\<not> telegram_usable r"
  shows "\<exists>s' v. patch_config C iv clear_rp_id s = (s', Inr v) \<and> sign_in_possible s' \<and>
    (\<forall>L u p. \<not> verify_credentials L u p s') \<and>
    (\<forall>c now. \<exists>e. login_options c now s' = (s', Inl e)) \<and> (\<forall>W resp now. \<exists>e. verify_login W resp now s' = (s', Inl e)) \<and>
    (\<forall>L x origin now. \<exists>e. start_flow L C iv x LoginMode origin now s' = Inl e)"
proof -
  have u: "\<not> telegram_usable (r \<lparr> au_rp_id := None \<rparr>)" using assms(5) by (simp add: telegram_usable_def telegram_ready_def)
  show ?thesis using patch_clear_rp [OF assms(1,3,4), of C iv] assms u
    by (simp add: sign_in_possible_def verify_credentials_def login_options_def verify_login_def start_flow_def require_row_def require_rp_def)
qed

theorem relying_party_lockout_witness:
  "\<exists>s' v. patch_config plain_crypto sample_iv clear_rp_id passkey_state = (s', Inr v) \<and> \<not> verify_credentials plain_auth ''owner'' ''password'' s'"
proof -
  obtain r where r: "at_row passkey_state = Some r" "\<not> au_password_on r" "au_passkey_on r" "\<not> telegram_usable r"
    by (simp add: passkey_state_def telegram_usable_def owner_row_def)
  have "at_passkeys passkey_state \<noteq> []" by (simp add: passkey_state_def)
  from relying_party_lockout [OF r(1,2,3) this r(4), of plain_crypto sample_iv] show ?thesis by blast
qed

text \<open>C8. A session lives exactly its week: a cookie signed while an account is set up, however that came about, is
  accepted in every later state, after any requests, settings and restarts, as long as reset-admin is not run, until the
  second it expires, and refused from then on.\<close>

theorem session_survives:
  assumes "env_ok E" "later E True fresh_install s" "at_row s \<noteq> None" and "length iv = IV_LENGTH"
    and "sign_session (ae_lib E) (ae_crypto E) iv fresh u now s = (s1, Some cookie)" and "later E False s1 s'"
  shows "snd (verify_session (ae_lib E) (ae_crypto E) iv' fresh' (Some cookie) now' s') =
    (if now' div 1000 < now div 1000 + SESSION_MAX_AGE_SEC then Some u else None)"
proof -
  obtain r where r: "at_row s = Some r" using assms(3) by blast
  from account_from_install [OF assms(2,1) r] obtain k where k: "account_is E (au_username r) (au_hash r) k s" "k \<noteq> []" by blast
  have inv: "auth_inv E True s" by (rule auth_inv_later [OF assms(2,1) fresh_install_inv])
  have s1: "s1 = fst (session_secret (ae_crypto E) iv fresh s)" using assms(5) by (simp add: sign_session_def split_beta)
  have k1: "account_is E (au_username r) (au_hash r) k s1" unfolding s1 by (rule account_secret [OF k(1)])
  have "auth_inv E True s1" unfolding s1 by (rule auth_inv_secret [OF assms(1) inv assms(4)])
  then have "auth_inv E False s1" using k1 by (auto simp: auth_inv_def cached_fits_def account_is_def)
  note i' = auth_inv_later [OF assms(6,1) this] and k' = account_later [OF assms(6) k1]
  have "stored_secret (ae_crypto E) s' = Some k" "cache_ok (ae_crypto E) s'"
    using account_is_secret [OF k'] i' by (simp_all add: auth_inv_def cached_fits_def)
  moreover have "stored_secret (ae_crypto E) s = Some k" "cache_ok (ae_crypto E) s"
    using account_is_secret [OF k(1)] inv r by (simp_all add: auth_inv_def cached_fits_def)
  moreover have "auth_lib_ok (ae_lib E)" using assms(1) by (simp add: env_ok_def)
  moreover have "snd (sign_session (ae_lib E) (ae_crypto E) iv fresh u now s) = Some cookie" using assms(5) by simp
  ultimately show ?thesis using k(2) by (intro sign_then_verify)
qed

definition owner_cookie :: string where "owner_cookie = plain_sign ''owner'' 604800"

lemma owner_session: "sign_session (ae_lib plain_env) (ae_crypto plain_env) sample_iv [] ''owner'' 0 (owner_state \<lparr> at_cached := Some ''key'' \<rparr>)
    = (owner_state \<lparr> at_cached := Some ''key'' \<rparr>, Some owner_cookie)"
  by (simp add: sign_session_def session_secret_def plain_env_def plain_auth_def owner_cookie_def SESSION_MAX_AGE_SEC_def)

lemma owner_restart: "later plain_env False (owner_state \<lparr> at_cached := Some ''key'' \<rparr>) (auth_step plain_env Restart (owner_state \<lparr> at_cached := Some ''key'' \<rparr>))"
  by (rule later_step [OF later_refl]) simp_all

theorem session_survives_witness:
  "snd (verify_session plain_auth plain_crypto sample_iv [] (Some owner_cookie) 604799999 (auth_step plain_env Restart (owner_state \<lparr> at_cached := Some ''key'' \<rparr>)))
     = Some ''owner'' \<and>
   snd (verify_session plain_auth plain_crypto sample_iv [] (Some owner_cookie) 604800000 (auth_step plain_env Restart (owner_state \<lparr> at_cached := Some ''key'' \<rparr>)))
     = None"
proof -
  have r: "at_row (owner_state \<lparr> at_cached := Some ''key'' \<rparr>) \<noteq> None" by (simp add: owner_state_def)
  note s = session_survives [OF plain_env_ok owner_later r sample_iv_ok owner_session owner_restart]
  from s [of sample_iv "[]" 604799999] s [of sample_iv "[]" 604800000] show ?thesis by (simp add: SESSION_MAX_AGE_SEC_def plain_env_def)
qed

text \<open>reset-admin does not reach the memory of the running server: until the next setup or restart it goes on
  accepting the sessions of the account that was wiped.\<close>

theorem session_after_reset:
  assumes "truthy (at_cached s)"
  shows "snd (verify_session L C iv fresh cookie now (reset_admin s)) = snd (verify_session L C iv fresh cookie now s)"
  using assms by (simp add: verify_session_def session_secret_def reset_admin_def Let_def split_beta)

text \<open>C12. The account of a setup: until reset-admin is run, the name given and the passwords with the scrypt key of the
  one given, and nothing else, sign in at every later moment at which the password is switched on; after reset-admin nothing
  does, and the next setup is accepted.\<close>

theorem setup_password:
  assumes "env_ok E" "setup_admin (ae_lib E) (ae_crypto E) iv salt secret handle name password s = (s1, Inr ())"
    and "length iv = IV_LENGTH" "salt \<noteq> []" and "later E False s1 s'"
  shows "(\<exists>r. at_row s' = Some r \<and> (verify_credentials (ae_lib E) u p s' \<longleftrightarrow>
      au_password_on r \<and> u = name \<and> al_scrypt (ae_lib E) p salt KEYLEN = al_scrypt (ae_lib E) password salt KEYLEN)) \<and>
    \<not> verify_credentials (ae_lib E) u p (auth_step E Reset_admin s') \<and>
    snd (setup_admin (ae_lib E) (ae_crypto E) iv' salt' secret' handle' u p (auth_step E Reset_admin s')) = Inr ()"
proof -
  have "account_is E name (Some (hash_password (ae_lib E) salt password)) secret s1"
    using assms(1,2,3) by (auto simp: setup_admin_def account_is_def env_ok_def decrypt_encrypt split: if_splits)
  from account_later [OF assms(5) this] obtain r where r: "at_row s' = Some r" "au_username r = name"
      "au_hash r = Some (hash_password (ae_lib E) salt password)" by (auto simp: account_is_def)
  have "auth_lib_ok (ae_lib E)" using assms(1) by (simp add: env_ok_def)
  then show ?thesis using r assms(4) by (auto simp: verify_credentials_def safe_equal_eq verify_hash reset_admin_def setup_admin_def)
qed

theorem setup_password_witness:
  "\<not> verify_credentials plain_auth ''owner'' ''guess'' owner_state"
proof -
  have "setup_admin (ae_lib plain_env) (ae_crypto plain_env) sample_iv ''salt'' ''key'' ''handle'' ''owner'' ''password'' fresh_install =
      (owner_state \<lparr> at_cached := Some ''key'' \<rparr>, Inr ())"
    by (simp add: setup_admin_def fresh_install_def plain_env_def owner_state_def owner_row_def)
  moreover have "auth_step plain_env Restart (owner_state \<lparr> at_cached := Some ''key'' \<rparr>) = owner_state" by (simp add: owner_state_def)
  then have "later plain_env False (owner_state \<lparr> at_cached := Some ''key'' \<rparr>) owner_state" using owner_restart by simp
  moreover have e: "ae_lib plain_env = plain_auth" by (simp add: plain_env_def)
  moreover have ne: "al_scrypt plain_auth ''guess'' ''salt'' KEYLEN \<noteq> al_scrypt plain_auth ''password'' ''salt'' KEYLEN"
    by (simp add: plain_auth_def KEYLEN_def)
  ultimately show ?thesis
    using setup_password [OF plain_env_ok, of sample_iv "''salt''" "''key''" "''handle''" "''owner''" "''password''" fresh_install _ owner_state "''owner''" "''guess''"]
    by (auto simp: sample_iv_ok e ne)
qed

text \<open>C11. An API token opens what its scope allows: a request that carries a created token is refused on
  session-only routes, a read token is refused for every method but GET and HEAD on a route that is
  not allowed for it, and everything else passes under the token's name; after the token is removed
  it is not recognised.\<close>

theorem token_use:
  assumes "create_token L G raw name scope now s = (s1, Inr (dto, value_shown))" and "raw \<noteq> []"
    and "bearer_token (rq_authorization q) = Some raw" "\<not> rt_public rt"
  shows "value_shown = raw \<and>
    snd (can_activate L C iv fresh rt q now' s1) =
      (if rt_session_only rt then Inl (Forbidden ''Admin session required'')
       else if scope = ''read'' \<and> rq_method q \<notin> {''GET'', ''HEAD''} \<and> \<not> rt_allow_read_only rt then Inl (Forbidden ''Read-only API token'')
       else Inr (Some \<lparr> id_user = name, id_type = Token, id_scope = Some scope \<rparr>)) \<and>
    snd (remove_token (td_uuid dto) s1) = Inr () \<and>
    snd (verify_api_token L (Some raw) now' (fst (remove_token (td_uuid dto) s1))) = None"
proof -
  let ?t = "\<lparr> tk_uuid = G (map tk_uuid (at_tokens s)), tk_name = name, tk_hash = hash_token L raw, tk_prefix = token_prefix raw,
     tk_scope = scope, tk_created = now, tk_last_used = None \<rparr>"
  have new: "hash_token L raw \<notin> tk_hash ` set (at_tokens s)" and s1: "s1 = s \<lparr> at_tokens := at_tokens s @ [?t] \<rparr>"
    and dto: "dto = map_api_token ?t" "value_shown = raw"
    using assms(1) by (auto simp: create_token_def Let_def split: if_splits)
  have none: "List.find (\<lambda>t. tk_hash t = hash_token L raw) ts = None" if "set ts \<subseteq> set (at_tokens s)" for ts
    using new that unfolding find_None_iff by (metis imageI subsetD)
  have "List.find (\<lambda>t. tk_hash t = hash_token L raw) (at_tokens s1) = Some ?t"
    using none [of "at_tokens s"] by (simp add: s1 find_append)
  then have "snd (verify_api_token L (Some raw) now' s1) = Some (name, scope)" using assms(2) by (simp add: verify_api_token_def)
  then have "snd (identify L C iv fresh q now' s1) = Some \<lparr> id_user = name, id_type = Token, id_scope = Some scope \<rparr>"
    using assms(3) by (simp add: identify_def split_beta)
  moreover have "snd (remove_token (td_uuid dto) s1) = Inr ()" by (simp add: remove_token_def s1 dto(1) map_api_token_def)
  moreover have "fst (remove_token (td_uuid dto) s1) = s \<lparr> at_tokens := filter (\<lambda>t. tk_uuid t \<noteq> tk_uuid ?t) (at_tokens s) \<rparr>"
    by (simp add: remove_token_def s1 dto(1) map_api_token_def)
  then have "snd (verify_api_token L (Some raw) now' (fst (remove_token (td_uuid dto) s1))) = None"
    using none [of "filter (\<lambda>t. tk_uuid t \<noteq> tk_uuid ?t) (at_tokens s)"] by (simp add: verify_api_token_def)
  ultimately show ?thesis using assms(4) dto(2) by (simp add: can_activate_def split_beta admit_def READ_METHODS_def)
qed

definition token_request :: "string \<Rightarrow> http_request" where
  "token_request meth = \<lparr> rq_method = meth, rq_authorization = Some ''Bearer ib_abc'', rq_cookie = None \<rparr>"

definition plain_route :: route where
  "plain_route = \<lparr> rt_public = False, rt_session_only = False, rt_allow_read_only = False \<rparr>"

theorem token_use_witness:
  "snd (can_activate plain_auth plain_crypto sample_iv [] plain_route (token_request ''POST'') 9
     (fst (create_token plain_auth longer_id ''ib_abc'' ''ci'' ''read'' 5 owner_state))) = Inl (Forbidden ''Read-only API token'')"
proof -
  obtain s1 dto where c: "create_token plain_auth longer_id ''ib_abc'' ''ci'' ''read'' 5 owner_state = (s1, Inr (dto, ''ib_abc''))"
    by (simp add: create_token_def owner_state_def Let_def)
  have b: "bearer_token (rq_authorization (token_request ''POST'')) = Some ''ib_abc''"
    by code_simp
  from token_use [OF c _ b, of plain_route plain_crypto sample_iv "[]" 9] show ?thesis
    by (simp add: c plain_route_def token_request_def)
qed

text \<open>C9. A passkey signs in once per challenge: a successful login answers the challenge of login
  options not more than a minute old, with a registered passkey whose signature the library accepts
  for the configured RP and whose counter rises or is zero; the counter is stored and every other
  login with the same challenge fails, whatever it answers and whenever it comes.\<close>

theorem passkey_login_once:
  assumes "verify_login W resp now s = (s', Inr u)"
  shows "\<exists>r rp c p n. at_row s = Some r \<and> u = au_username r \<and> au_passkey_on r \<and> require_rp r = Inr rp \<and>
    at_challenges s Login = Some c \<and> now \<le> ch_expires c \<and> p \<in> set (at_passkeys s) \<and> pk_credential p = lr_id resp \<and>
    wl_login W resp (ch_text c) (rp_origins rp) (rp_id rp) (credential_of p) = Inr (Some n) \<and> (n = 0 \<or> pk_counter p < n) \<and>
    (\<forall>p'\<in>set (at_passkeys s'). pk_uuid p' = pk_uuid p \<longrightarrow> pk_counter p' = n) \<and>
    (\<forall>W' resp' now'. snd (verify_login W' resp' now' s') = Inl (Bad_request ''Login challenge expired - try again''))"
proof -
  obtain r rp s1 c p n where a: "require_row s = Inr r" "au_passkey_on r" "require_rp r = Inr rp"
      "take_challenge Login now s = (s1, Some c)" "find_by_credential (lr_id resp) s1 = Some p"
      "wl_login W resp c (rp_origins rp) (rp_id rp) (credential_of p) = Inr (Some n)" "\<not> (n \<noteq> 0 \<and> n \<le> pk_counter p)"
      "s' = record_login (pk_uuid p) n now s1" "u = au_username r"
    using assms unfolding verify_login_def by (auto split: sum.splits prod.splits option.splits if_splits)
  have r: "at_row s = Some r" using a(1) by (auto simp: require_row_def split: option.splits)
  obtain e where e: "at_challenges s Login = Some e" "now \<le> ch_expires e" "c = ch_text e"
    using a(4) by (auto simp: take_challenge_def split: option.splits if_splits)
  have s1: "s1 = fst (take_challenge Login now s)" using a(4) by simp
  have p: "p \<in> set (at_passkeys s)" "pk_credential p = lr_id resp"
    using a(5) by (auto simp: find_by_credential_def s1 find_Some_iff)
  have "at_challenges s' Login = None" by (simp add: a(8) s1 record_login_def take_challenge_def)
  then have spent: "take_challenge Login t s' = (s' \<lparr> at_challenges := (at_challenges s')(Login := None) \<rparr>, None)" for t
    by (simp add: take_challenge_def)
  have row: "require_row s' = Inr r" using r by (simp add: require_row_def a(8) s1)
  have "snd (verify_login W' resp' t s') = Inl (Bad_request ''Login challenge expired - try again'')" for W' resp' t
    by (simp add: verify_login_def row a(2,3) spent)
  moreover have "\<forall>p'\<in>set (at_passkeys s'). pk_uuid p' = pk_uuid p \<longrightarrow> pk_counter p' = n" by (auto simp: a(8) record_login_def)
  ultimately show ?thesis using r a(2,3,6,7,9) e p by (intro exI [of _ r] exI [of _ rp] exI [of _ e] exI [of _ p] exI [of _ n]) (simp add: not_le)
qed

definition asked_state :: auth_state where
  "asked_state = passkey_state \<lparr> at_challenges := (\<lambda>_. None)(Login \<mapsto> \<lparr> ch_text = ''ch'', ch_expires = 60000 \<rparr>) \<rparr>"

lemma asked_login: "\<exists>s'. verify_login sample_webauthn \<lparr> lr_id = ''k1-id'', lr_body = ''ch'' \<rparr> 10 asked_state = (s', Inr ''owner'')"
proof -
  have "require_row asked_state = Inr (the (at_row passkey_state))" by (simp add: require_row_def asked_state_def passkey_state_def)
  moreover have "au_passkey_on (the (at_row passkey_state))" "au_username (the (at_row passkey_state)) = ''owner''"
    by (simp_all add: passkey_state_def owner_row_def)
  moreover have "\<exists>rp. require_rp (the (at_row passkey_state)) = Inr rp" by (simp add: require_rp_def passkey_state_def)
  moreover have "\<exists>s1. take_challenge Login 10 asked_state = (s1, Some ''ch'') \<and> at_passkeys s1 = [sample_passkey ''k1'', sample_passkey ''k2'']"
    by (simp add: take_challenge_def asked_state_def passkey_state_def)
  ultimately show ?thesis
    by (auto simp: verify_login_def find_by_credential_def sample_passkey_def sample_webauthn_def credential_of_def)
qed

theorem passkey_login_once_witness:
  "\<exists>s'. verify_login sample_webauthn \<lparr> lr_id = ''k1-id'', lr_body = ''ch'' \<rparr> 10 asked_state = (s', Inr ''owner'') \<and>
     snd (verify_login sample_webauthn \<lparr> lr_id = ''k1-id'', lr_body = ''ch'' \<rparr> 11 s') = Inl (Bad_request ''Login challenge expired - try again'')"
proof -
  obtain s' where s: "verify_login sample_webauthn \<lparr> lr_id = ''k1-id'', lr_body = ''ch'' \<rparr> 10 asked_state = (s', Inr ''owner'')"
    using asked_login by blast
  from passkey_login_once [OF s] show ?thesis using s by blast
qed

text \<open>C14. delete reads before it deletes: with two passkeys as the only way in, the guard refuses the
  second removal after the first, but two requests whose guards both run before either removal pass
  together and leave none.\<close>

theorem concurrent_deletes:
  assumes "at_row s = Some r" "\<not> au_password_on r" "au_passkey_on r" "\<not> telegram_usable r"
    and "at_passkeys s = [p, q]" "pk_uuid p \<noteq> pk_uuid q"
  shows "delete_check (pk_uuid p) s = None \<and> delete_check (pk_uuid q) s = None \<and>
    at_passkeys (drop_passkey (pk_uuid q) (drop_passkey (pk_uuid p) s)) = [] \<and>
    \<not> sign_in_possible (drop_passkey (pk_uuid q) (drop_passkey (pk_uuid p) s)) \<and>
    delete_check (pk_uuid q) (fst (delete_passkey (pk_uuid p) s)) = Some (Bad_request lockout_message)"
proof -
  have c: "delete_check (pk_uuid p) s = None" "delete_check (pk_uuid q) s = None"
    using assms by (simp_all add: delete_check_def require_row_def assert_sign_in_possible_None)
  have "at_passkeys (drop_passkey (pk_uuid q) (drop_passkey (pk_uuid p) s)) = []" "at_passkeys (drop_passkey (pk_uuid p) s) = [q]"
    using assms by (simp_all add: drop_passkey_def)
  then show ?thesis using c assms
    by (simp add: sign_in_possible_def delete_passkey_def delete_check_def require_row_def assert_sign_in_possible_def methods_of_def)
qed

theorem concurrent_deletes_witness:
  "delete_check ''k1'' passkey_state = None \<and> delete_check ''k2'' passkey_state = None \<and>
   \<not> sign_in_possible (drop_passkey ''k2'' (drop_passkey ''k1'' passkey_state))"
proof -
  obtain r where r: "at_row passkey_state = Some r" "\<not> au_password_on r" "au_passkey_on r" "\<not> telegram_usable r"
    by (simp add: passkey_state_def telegram_usable_def owner_row_def)
  have k: "at_passkeys passkey_state = [sample_passkey ''k1'', sample_passkey ''k2'']" by (simp add: passkey_state_def)
  from concurrent_deletes [OF r k] show ?thesis by (simp add: sample_passkey_def)
qed

end
