(* ===== verification/Settings.thy ===== *)
theory Settings
  imports Sync Credentials
begin

text \<open>
  The settings row of the panel: settings/settings.service.ts with its repository, the schema's
  defaults, and the quiet hours of notifications/quiet-hours.ts.  The zone database of Intl is a
  parameter: the offset of a zone at a moment, in minutes.
\<close>

section \<open>The row\<close>

record settings_row =
  cf_base :: ccy
  cf_interval :: int
  cf_rate_source :: string
  cf_notifications :: bool
  cf_upcoming_days :: int
  cf_token :: "string option"
  cf_chat :: "string option"
  cf_topic :: "string option"
  cf_proxy :: "string option"
  cf_quiet :: bool
  cf_quiet_start :: string
  cf_quiet_end :: string
  cf_quiet_zone :: "string option"
  cf_backfill :: bool
  cf_respect_created :: bool
  cf_backdate :: bool
  cf_force :: bool

definition default_settings :: settings_row where
  "default_settings = \<lparr> cf_base = ''RUB'', cf_interval = 6, cf_rate_source = ''cbr'', cf_notifications = False, cf_upcoming_days = 3,
     cf_token = None, cf_chat = None, cf_topic = None, cf_proxy = None, cf_quiet = False, cf_quiet_start = ''22:00'',
     cf_quiet_end = ''09:00'', cf_quiet_zone = None, cf_backfill = False, cf_respect_created = False, cf_backdate = False, cf_force = False \<rparr>"

definition ensure_settings :: "settings_row option \<Rightarrow> settings_row" where
  "ensure_settings r = coalesce r default_settings"

record settings_patch =
  sq_base :: "ccy option"
  sq_interval :: "int option"
  sq_rate_source :: "string option"
  sq_notifications :: "bool option"
  sq_upcoming_days :: "int option"
  sq_token :: "string option"
  sq_chat :: "string option"
  sq_topic :: "string option"
  sq_proxy :: "string option"
  sq_quiet :: "bool option"
  sq_quiet_start :: "string option"
  sq_quiet_end :: "string option"
  sq_quiet_zone :: "string option"
  sq_backfill :: "bool option"
  sq_respect_created :: "bool option"
  sq_backdate :: "bool option"
  sq_force :: "bool option"

text \<open>What is sent back: the row without the token, and the moment of the next sync.\<close>

record settings_dto =
  sd_row :: settings_row
  sd_next_sync :: "ms option"
  sd_configured :: bool

definition settings_dto :: "sync_timer option \<Rightarrow> settings_row \<Rightarrow> settings_dto" where
  "settings_dto timer r = \<lparr> sd_row = r \<lparr> cf_token := None \<rparr>, sd_next_sync = Option.bind timer st_next_run, sd_configured = (cf_token r \<noteq> None) \<rparr>"

text \<open>An assigned column, a column cleared by the empty text, and the token, which an empty text leaves alone.\<close>

definition assigned :: "'a option \<Rightarrow> 'a \<Rightarrow> 'a" where
  "assigned v old = coalesce v old"

definition clearable :: "string option \<Rightarrow> string option \<Rightarrow> string option" where
  "clearable v old = (case v of None \<Rightarrow> old | Some s \<Rightarrow> if s = [] then None else Some s)"

definition new_token :: "crypto_lib \<Rightarrow> string \<Rightarrow> string option \<Rightarrow> string option \<Rightarrow> string option" where
  "new_token C iv v old = (if truthy v then Some (encrypt C iv (the v)) else old)"

definition patched_settings :: "crypto_lib \<Rightarrow> string \<Rightarrow> settings_patch \<Rightarrow> settings_row \<Rightarrow> settings_row" where
  "patched_settings C iv q r = \<lparr>
     cf_base = assigned (sq_base q) (cf_base r), cf_interval = assigned (sq_interval q) (cf_interval r),
     cf_rate_source = assigned (sq_rate_source q) (cf_rate_source r),
     cf_notifications = assigned (sq_notifications q) (cf_notifications r),
     cf_upcoming_days = assigned (sq_upcoming_days q) (cf_upcoming_days r),
     cf_token = new_token C iv (sq_token q) (cf_token r), cf_chat = clearable (sq_chat q) (cf_chat r),
     cf_topic = clearable (sq_topic q) (cf_topic r), cf_proxy = clearable (sq_proxy q) (cf_proxy r),
     cf_quiet = assigned (sq_quiet q) (cf_quiet r), cf_quiet_start = assigned (sq_quiet_start q) (cf_quiet_start r),
     cf_quiet_end = assigned (sq_quiet_end q) (cf_quiet_end r),
     cf_quiet_zone = (case sq_quiet_zone q of None \<Rightarrow> cf_quiet_zone r | Some z \<Rightarrow> Some z),
     cf_backfill = assigned (sq_backfill q) (cf_backfill r), cf_respect_created = assigned (sq_respect_created q) (cf_respect_created r),
     cf_backdate = assigned (sq_backdate q) (cf_backdate r), cf_force = assigned (sq_force q) (cf_force r) \<rparr>"

record settings_state =
  ss_row :: "settings_row option"
  ss_timer :: "sync_timer option"

definition get_settings :: "settings_state \<Rightarrow> settings_state \<times> settings_dto" where
  "get_settings s = (let r = ensure_settings (ss_row s) in (s \<lparr> ss_row := Some r \<rparr>, settings_dto (ss_timer s) r))"

definition update_settings :: "crypto_lib \<Rightarrow> string \<Rightarrow> ms \<Rightarrow> settings_patch \<Rightarrow> settings_state \<Rightarrow> settings_state \<times> settings_dto" where
  "update_settings C iv now q s =
     (let (s1, _) = get_settings s;
          r = patched_settings C iv q (ensure_settings (ss_row s1));
          timer = (if sq_interval q \<noteq> None then Some (apply_interval (cf_interval r) now) else ss_timer s1)
      in (s1 \<lparr> ss_row := Some r, ss_timer := timer \<rparr>, settings_dto timer r))"

text \<open>Saving the settings: the bot token is never sent back, a new one is stored encrypted and decrypts to what was submitted,
  and an empty or missing one keeps the old; an empty chat, topic or proxy clears the column; the autosync timer is re-armed
  exactly when an interval was submitted, with the stored interval; and a request without fields changes nothing.\<close>

theorem update_settings_spec:
  assumes "crypto_ok C" "length iv = IV_LENGTH" and u: "update_settings C iv now q s = (s', reply)"
  shows "\<exists>r. ss_row s' = Some r \<and> cf_token (sd_row reply) = None \<and> sd_configured reply = (cf_token r \<noteq> None) \<and>
    Option.bind (cf_token r) (decrypt C) = (if truthy (sq_token q) then sq_token q else Option.bind (cf_token (ensure_settings (ss_row s))) (decrypt C)) \<and>
    cf_chat r = (case sq_chat q of None \<Rightarrow> cf_chat (ensure_settings (ss_row s)) | Some c \<Rightarrow> if c = [] then None else Some c) \<and>
    ss_timer s' = (case sq_interval q of None \<Rightarrow> ss_timer s | Some h \<Rightarrow> Some (apply_interval h now)) \<and>
    sd_next_sync reply = Option.bind (ss_timer s') st_next_run \<and>
    cf_base r = coalesce (sq_base q) (cf_base (ensure_settings (ss_row s)))"
proof -
  have tok: "Option.bind (new_token C iv v old) (decrypt C) = (if truthy v then v else Option.bind old (decrypt C))" for v old
    using decrypt_encrypt [OF assms(1,2)] by (cases v) (auto simp: new_token_def)
  show ?thesis
    using u tok by (auto simp: update_settings_def get_settings_def Let_def settings_dto_def patched_settings_def assigned_def
        clearable_def ensure_settings_def split: option.split)
qed

definition no_settings :: settings_patch where
  "no_settings = \<lparr> sq_base = None, sq_interval = None, sq_rate_source = None, sq_notifications = None, sq_upcoming_days = None,
     sq_token = None, sq_chat = None, sq_topic = None, sq_proxy = None, sq_quiet = None, sq_quiet_start = None, sq_quiet_end = None,
     sq_quiet_zone = None, sq_backfill = None, sq_respect_created = None, sq_backdate = None, sq_force = None \<rparr>"

theorem update_settings_spec_witness:
  "Option.bind (cf_token (the (ss_row (fst (update_settings plain_crypto sample_iv 5 (no_settings \<lparr> sq_token := Some ''bot'' \<rparr>)
     \<lparr> ss_row = None, ss_timer = None \<rparr>))))) (decrypt plain_crypto) = Some ''bot''"
proof -
  obtain s' reply where u: "update_settings plain_crypto sample_iv 5 (no_settings \<lparr> sq_token := Some ''bot'' \<rparr>) \<lparr> ss_row = None, ss_timer = None \<rparr> = (s', reply)"
    by force
  show ?thesis using update_settings_spec [OF plain_crypto_ok sample_iv_ok u] u by auto
qed

section \<open>Quiet hours\<close>

definition DAY_MINUTES :: int where "DAY_MINUTES = 24 * 60"

definition to_minutes :: "string \<Rightarrow> int" where
  "to_minutes hhmm = (let (h, m) = (takeWhile (\<lambda>c. c \<noteq> CHR '':'') hhmm, tl (dropWhile (\<lambda>c. c \<noteq> CHR '':'') hhmm)) in int (number_of_digits h) * 60 + int (number_of_digits m))"

definition local_minutes :: "(string \<Rightarrow> ms \<Rightarrow> int) \<Rightarrow> ms \<Rightarrow> string \<Rightarrow> int" where
  "local_minutes off t zone = (t div 60000 + off zone t) mod DAY_MINUTES"

definition in_window :: "int \<Rightarrow> int \<Rightarrow> int \<Rightarrow> bool" where
  "in_window s e cur = (if s < e then s \<le> cur \<and> cur < e else s \<le> cur \<or> cur < e)"

definition quiet_remaining :: "(string \<Rightarrow> ms \<Rightarrow> int) \<Rightarrow> settings_row \<Rightarrow> ms \<Rightarrow> ms" where
  "quiet_remaining off r now =
     (if \<not> cf_quiet r then 0
      else let s = to_minutes (cf_quiet_start r); e = to_minutes (cf_quiet_end r) in
        if s = e then 0
        else let cur = local_minutes off now (coalesce (cf_quiet_zone r) ''UTC'') in
          if \<not> in_window s e cur then 0
          else (e - cur + DAY_MINUTES) mod DAY_MINUTES * 60000 - now mod 60000)"

text \<open>The pattern HH:MM of the schema.\<close>

definition time_ok :: "string \<Rightarrow> bool" where
  "time_ok t = (length t = 5 \<and> t ! 2 = CHR '':'' \<and> (\<forall>i\<in>{0, 1, 3, 4}. is_digit (t ! i)) \<and>
     number_of_digits (take 2 t) < 24 \<and> number_of_digits (drop 3 t) < 60)"

lemma to_minutes_range: "time_ok t \<Longrightarrow> 0 \<le> to_minutes t \<and> to_minutes t < DAY_MINUTES"
proof -
  assume t: "time_ok t"
  obtain a b c d e where abc: "t = [a, b, c, d, e]" using t by (auto simp: time_ok_def length_Suc_conv numeral_eq_Suc)
  then have c: "c = CHR '':''" "a \<noteq> CHR '':''" "b \<noteq> CHR '':''" and n: "number_of_digits [a, b] < 24" "number_of_digits [d, e] < 60"
    using t by (auto simp: time_ok_def is_digit_def)
  have "to_minutes t = int (number_of_digits [a, b]) * 60 + int (number_of_digits [d, e])"
    using c by (simp add: to_minutes_def abc)
  then show ?thesis using n by (simp add: DAY_MINUTES_def)
qed

lemma window_left:
  assumes "0 \<le> s" "s < 1440" "0 \<le> e" "e < 1440" "0 \<le> cur" "cur < 1440" "s \<noteq> e" "in_window s e cur"
  shows "(e - cur + 1440) mod 1440 = (if cur < e then e - cur else e - cur + 1440)" "e \<noteq> cur"
    "0 \<le> j \<Longrightarrow> j < (e - cur + 1440) mod 1440 \<Longrightarrow> in_window s e ((cur + j) mod 1440)"
    "\<not> in_window s e e"
proof -
  show ne: "e \<noteq> cur" and "\<not> in_window s e e" using assms by (auto simp: in_window_def split: if_splits)
  show l: "(e - cur + 1440) mod 1440 = (if cur < e then e - cur else e - cur + 1440)"
  proof (cases "cur < e")
    case True
    then have "(e - cur) mod 1440 = e - cur" using assms by (intro mod_pos_pos_trivial) simp_all
    then show ?thesis using True by simp
  next
    case False
    then have "(e - cur + 1440) mod 1440 = e - cur + 1440" using assms ne by (intro mod_pos_pos_trivial) simp_all
    then show ?thesis using False by simp
  qed
  assume j: "0 \<le> j" "j < (e - cur + 1440) mod 1440"
  show "in_window s e ((cur + j) mod 1440)"
  proof (cases "cur + j < 1440")
    case True
    then have "(cur + j) mod 1440 = cur + j" using assms j by simp
    then show ?thesis using assms j l True unfolding in_window_def by (auto split: if_splits)
  next
    case False
    then have "(cur + j) mod 1440 = cur + j - 1440"
      using assms j l by (smt (verit) mod_pos_pos_trivial mod_add_self2 minus_mod_self2)
    then show ?thesis using assms j l False unfolding in_window_def by (auto split: if_splits)
  qed
qed

lemma quiet_release:
  assumes t: "time_ok (cf_quiet_start r)" "time_ok (cf_quiet_end r)" and off: "\<And>z t. off z t = offset z"
    and q: "quiet_remaining off r now \<noteq> 0"
  shows "0 < quiet_remaining off r now \<and> quiet_remaining off r now \<le> 86400000 \<and>
    (\<forall>w\<in>{now..<now + quiet_remaining off r now}. 0 < quiet_remaining off r w) \<and>
    local_minutes off (now + quiet_remaining off r now) (coalesce (cf_quiet_zone r) ''UTC'') = to_minutes (cf_quiet_end r) \<and>
    quiet_remaining off r (now + quiet_remaining off r now) = 0"
proof -
  let ?s = "to_minutes (cf_quiet_start r)" and ?e = "to_minutes (cf_quiet_end r)" and ?c = "offset (coalesce (cf_quiet_zone r) ''UTC'')"
  define cur where "cur w = (w div 60000 + ?c) mod 1440" for w
  define left where "left w = (?e - cur w + 1440) mod 1440" for w
  have cur: "0 \<le> cur w" "cur w < 1440" for w by (simp_all add: cur_def)
  have en: "cf_quiet r" "?s \<noteq> ?e" "in_window ?s ?e (cur now)"
    using q by (auto simp: quiet_remaining_def Let_def local_minutes_def off cur_def DAY_MINUTES_def split: if_splits)
  have rem: "quiet_remaining off r w = (if in_window ?s ?e (cur w) then left w * 60000 - w mod 60000 else 0)" for w
    using en by (simp add: quiet_remaining_def Let_def local_minutes_def off cur_def left_def DAY_MINUTES_def)
  have range: "0 \<le> ?s" "?s < 1440" "0 \<le> ?e" "?e < 1440"
    using to_minutes_range [OF t(1)] to_minutes_range [OF t(2)] by (simp_all add: DAY_MINUTES_def)
  have left_pos: "1 \<le> left w \<and> left w \<le> 1440" if "in_window ?s ?e (cur w)" for w
    using window_left(1,2) [OF range cur en(2) that] cur [of w] range unfolding left_def by auto
  have pos: "0 < left w * 60000 - w mod 60000" if "in_window ?s ?e (cur w)" for w
    using left_pos [OF that] pos_mod_bound [of 60000 w] by linarith
  let ?m = "now div 60000"
  have fin: "now + (left now * 60000 - now mod 60000) = (?m + left now) * 60000"
    using div_mult_mod_eq [of now 60000] by (simp add: algebra_simps)
  have shifted: "cur w = (cur now + (w div 60000 - ?m)) mod 1440" for w
  proof -
    have "(cur now + (w div 60000 - ?m)) mod 1440 = (now div 60000 + ?c + (w div 60000 - ?m)) mod 1440"
      unfolding cur_def by (rule mod_add_left_eq)
    then show ?thesis by (simp add: cur_def add.commute)
  qed
  have until: "in_window ?s ?e (cur w)" if w: "now \<le> w" "w < (?m + left now) * 60000" for w
  proof -
    have "?m \<le> w div 60000" using w(1) by (rule zdiv_mono1) simp
    moreover have "w div 60000 < ?m + left now" using w(2) by (simp add: div_less_iff_less_mult)
    ultimately show ?thesis
      using window_left(3) [OF range cur en(2,3), of "w div 60000 - ?m"] unfolding shifted [of w] left_def by simp
  qed
  have "cur ((?m + left now) * 60000) = (cur now + left now) mod 1440"
    unfolding shifted [of "(?m + left now) * 60000"] by simp
  also have "\<dots> = ?e mod 1440" unfolding left_def by (simp add: mod_add_right_eq)
  finally have at_end: "cur ((?m + left now) * 60000) = ?e" using range by simp
  have r: "quiet_remaining off r now = left now * 60000 - now mod 60000" using rem en(3) by simp
  show ?thesis
    unfolding r fin
  proof (intro conjI ballI)
    show "left now * 60000 - now mod 60000 \<le> 86400000" using left_pos [OF en(3)] pos_mod_sign [of 60000 now] by linarith
    show "0 < quiet_remaining off r w" if "w \<in> {now..<(?m + left now) * 60000}" for w
      using that until [of w] rem [of w] pos [of w] by simp
    show "local_minutes off ((?m + left now) * 60000) (coalesce (cf_quiet_zone r) ''UTC'') = ?e"
      using at_end by (simp add: local_minutes_def off cur_def DAY_MINUTES_def)
    show "quiet_remaining off r ((?m + left now) * 60000) = 0"
      using at_end rem window_left(4) [OF range cur en(2,3)] by simp
  qed (use pos en(3) in blast)
qed

text \<open>In a zone without a change of its offset, a batch held for the returned time is released at the first moment outside the
  quiet window: the wait is positive and at most a day, every moment before its end is still quiet, and its end is the window's
  end on the local clock and no longer quiet.\<close>

theorem quiet_hours_release:
  assumes t: "time_ok (cf_quiet_start r)" "time_ok (cf_quiet_end r)" and off: "\<And>z t. off z t = offset z"
    and q: "quiet_remaining off r now \<noteq> 0"
  shows "0 < quiet_remaining off r now \<and> quiet_remaining off r now \<le> 86400000 \<and>
    (\<forall>w\<in>{now..<now + quiet_remaining off r now}. 0 < quiet_remaining off r w) \<and>
    local_minutes off (now + quiet_remaining off r now) (coalesce (cf_quiet_zone r) ''UTC'') = to_minutes (cf_quiet_end r) \<and>
    quiet_remaining off r (now + quiet_remaining off r now) = 0"
  by (rule quiet_release [OF assms])

definition night :: settings_row where
  "night = default_settings \<lparr> cf_quiet := True \<rparr>"

theorem quiet_hours_release_witness:
  "quiet_remaining (\<lambda>z t. 0) night 79200000 = 39600000 \<and> quiet_remaining (\<lambda>z t. 0) night (79200000 + 39600000) = 0"
proof -
  have t: "time_ok (cf_quiet_start night)" "time_ok (cf_quiet_end night)"
    by (simp_all add: time_ok_def night_def default_settings_def is_digit_def number_of_digits_def)
  have q: "quiet_remaining (\<lambda>z t. 0) night 79200000 = 39600000" by code_simp
  show ?thesis
    using quiet_hours_release [OF t, of "\<lambda>z t. 0" "\<lambda>z. 0" 79200000] q by simp
qed

end
