(* ===== verification/Notifications.thy ===== *)
theory Notifications
  imports Analytics Settings
begin

text \<open>
  The alerts of notifications/notifications.service.ts: which conditions of the summary and of the sync
  runs are reported, the throttle over the log of sent alerts, and the quiet hours, which put off a
  check until their end.  An alert is the message's function with its arguments; the HTML of
  notifications/messages.ts is left out, except its escaping and the choice of names.  Whether
  Telegram accepts a message is a parameter.  Checks are started by the hourly cron, by the timer at the
  end of the quiet hours and by a request, and nothing keeps one from starting while another waits for
  the database or for Telegram: alert_step takes the calls of any number of checks one at a time, each
  at its own moment.  check_and_notify is a check that has the notifier to itself, a path of these steps.
\<close>

section \<open>messages.ts\<close>

fun replace_char :: "char \<Rightarrow> string \<Rightarrow> string \<Rightarrow> string" where
  "replace_char c t [] = []"
| "replace_char c t (x # s) = (if x = c then t @ replace_char c t s else x # replace_char c t s)"

definition esc :: "string \<Rightarrow> string" where
  "esc s = replace_char (CHR ''>'') ''&gt;'' (replace_char (CHR ''<'') ''&lt;'' (replace_char (CHR ''&'') ''&amp;'' s))"

definition esc_one :: "char \<Rightarrow> string" where
  "esc_one c = (if c = CHR ''&'' then ''&amp;'' else if c = CHR ''<'' then ''&lt;'' else if c = CHR ''>'' then ''&gt;'' else [c])"

lemma replace_char_append: "replace_char c t (a @ b) = replace_char c t a @ replace_char c t b"
  by (induction a) simp_all

lemma esc_chars: "esc s = concat (map esc_one s)"
  by (induction s) (simp_all add: esc_def replace_char_append esc_one_def)

text \<open>What a reader of HTML sees.\<close>

fun html_text :: "string \<Rightarrow> string" where
  "html_text [] = []"
| "html_text (c # s) =
     (if starts_with ''&amp;'' (c # s) then CHR ''&'' # html_text (drop 4 s)
      else if starts_with ''&lt;'' (c # s) then CHR ''<'' # html_text (drop 3 s)
      else if starts_with ''&gt;'' (c # s) then CHR ''>'' # html_text (drop 3 s) else c # html_text s)"

section \<open>Alerts\<close>

definition sent_within :: ms where "sent_within = 24 * 60 * 60 * 1000"
definition DEFAULT_UPCOMING_DAYS :: int where "DEFAULT_UPCOMING_DAYS = 3"

datatype alert =
    Unknown_coverage upcoming_billing
  | Low_balance upcoming_billing
  | Low_runway balance_runway
  | Overdue overdue_billing
  | Upcoming upcoming_billing string
  | Sync_failed uuid string string "string option" "string option"

fun alert_key :: "alert \<Rightarrow> string" where
  "alert_key (Unknown_coverage u) = ''unknown-coverage:'' @ ub_service u"
| "alert_key (Low_balance u) = ''low-balance:'' @ ub_service u"
| "alert_key (Low_runway r) = ''runway:'' @ of_account (br_owner r)"
| "alert_key (Overdue o1) = ''overdue:'' @ ob_service o1"
| "alert_key (Upcoming u day) = ''upcoming:'' @ ub_service u @ '':'' @ day"
| "alert_key (Sync_failed a n e u l) = ''sync-error:'' @ a"

definition charge_alert :: "upcoming_billing \<Rightarrow> alert" where
  "charge_alert u = (if ub_covered u = None then Unknown_coverage u else Low_balance u)"

definition charge_alerts :: "analytics_summary \<Rightarrow> alert list" where
  "charge_alerts S = map charge_alert (filter (\<lambda>u. ub_severity u = Critical) (su_upcoming S))"

definition runway_alerts :: "analytics_summary \<Rightarrow> alert list" where
  "runway_alerts S = map Low_runway (filter (\<lambda>r. br_severity r = Critical) (su_runway S))"

definition overdue_alerts :: "analytics_summary \<Rightarrow> alert list" where
  "overdue_alerts S = map Overdue (su_overdue S)"

text \<open>dayjs().add(days, 'day') and its format, in the process zone UTC.\<close>

definition upcoming_alerts :: "ms \<Rightarrow> int \<Rightarrow> analytics_summary \<Rightarrow> alert list" where
  "upcoming_alerts now days S = map (\<lambda>u. Upcoming u (iso_day (ub_next u))) (filter (\<lambda>u. \<not> now + days * MS_PER_DAY < ub_next u) (su_upcoming S))"

definition list_errors_since :: "db \<Rightarrow> ms \<Rightarrow> sync_run list" where
  "list_errors_since d since = sort_key (\<lambda>r. - the (sr_finished r))
     (filter (\<lambda>r. sr_status r = SyncError \<and> (case sr_finished r of None \<Rightarrow> False | Some t \<Rightarrow> since \<le> t)) (sync_runs d))"

fun first_per_account :: "uuid list \<Rightarrow> sync_run list \<Rightarrow> sync_run list" where
  "first_per_account seen [] = []"
| "first_per_account seen (r # rs) = (if sr_account r \<in> set seen then first_per_account seen rs
     else r # first_per_account (sr_account r # seen) rs)"

definition sync_alert :: "db \<Rightarrow> sync_run \<Rightarrow> alert" where
  "sync_alert d r =
     (let a = find_account d (sr_account r); p = Option.bind a (\<lambda>a. find_provider d (ac_provider a));
          several = (case p of None \<Rightarrow> False | Some p \<Rightarrow> 1 < length (filter (\<lambda>b. ac_provider b = pv_uuid p) (accounts d)))
      in Sync_failed (sr_account r) (case p of None \<Rightarrow> [] | Some p \<Rightarrow> pv_name p) (coalesce (sr_error r) ''unknown error'')
           (Option.bind p pv_login_url) (if several then Some (coalesce (Option.bind a ac_label) []) else None))"

definition sync_alerts :: "db \<Rightarrow> ms \<Rightarrow> alert list" where
  "sync_alerts d now = map (sync_alert d) (first_per_account [] (list_errors_since d (now - sent_within)))"

definition alerts_of :: "report_env \<Rightarrow> db \<Rightarrow> int \<Rightarrow> alert list" where
  "alerts_of E d days = (let S = summary E d in
     charge_alerts S @ runway_alerts S @ overdue_alerts S @ upcoming_alerts (re_now E) days S @ sync_alerts d (re_now E))"

section \<open>The throttle\<close>

record notifier =
  nf_log :: "(string \<times> ms) list"
  nf_outbox :: "(ms \<times> alert) list"
  nf_timer :: "ms option"

definition was_sent_since :: "string \<Rightarrow> ms \<Rightarrow> (string \<times> ms) list \<Rightarrow> bool" where
  "was_sent_since key since es = (\<exists>(k, t)\<in>set es. k = key \<and> since \<le> t)"

definition maybe_send :: "(alert \<Rightarrow> bool) \<Rightarrow> ms \<Rightarrow> alert \<Rightarrow> notifier \<Rightarrow> notifier \<times> bool" where
  "maybe_send tg now a st =
     (if was_sent_since (alert_key a) (now - sent_within) (nf_log st) then (st, False)
      else if tg a then (st \<lparr> nf_log := nf_log st @ [(alert_key a, now)], nf_outbox := nf_outbox st @ [(now, a)] \<rparr>, True)
      else (st, False))"

definition send_step :: "(alert \<Rightarrow> bool) \<Rightarrow> ms \<Rightarrow> notifier \<times> nat \<Rightarrow> alert \<Rightarrow> notifier \<times> nat" where
  "send_step tg now st a = (case maybe_send tg now a (fst st) of (s, ok) \<Rightarrow> (s, if ok then snd st + 1 else snd st))"

section \<open>checkAndNotify\<close>

record telegram_config =
  tm_token :: string
  tm_chat :: string
  tm_topic :: string
  tm_proxy :: string

definition resolve_config :: "crypto_lib \<Rightarrow> settings_row option \<Rightarrow> telegram_config option" where
  "resolve_config C s = (case s of None \<Rightarrow> None
     | Some r \<Rightarrow> if cf_token r = None \<or> \<not> truthy (cf_chat r) then None
        else map_option (\<lambda>t. \<lparr> tm_token = t, tm_chat = the (cf_chat r), tm_topic = coalesce (cf_topic r) [], tm_proxy = coalesce (cf_proxy r) [] \<rparr>)
               (decrypt C (the (cf_token r))))"

definition is_enabled :: "crypto_lib \<Rightarrow> settings_row option \<Rightarrow> bool" where
  "is_enabled C s = (case s of Some r \<Rightarrow> cf_notifications r \<and> resolve_config C s \<noteq> None | None \<Rightarrow> resolve_config C s \<noteq> None)"

text \<open>The timer is replaced, a second past the end of the window.\<close>

definition defer_until_quiet_ends :: "ms \<Rightarrow> ms \<Rightarrow> notifier \<Rightarrow> notifier" where
  "defer_until_quiet_ends left now st = st \<lparr> nf_timer := Some (now + left + 1000) \<rparr>"

definition check_and_notify :: "crypto_lib \<Rightarrow> (string \<Rightarrow> ms \<Rightarrow> int) \<Rightarrow> (alert \<Rightarrow> bool) \<Rightarrow> report_env \<Rightarrow> db \<Rightarrow> settings_row option
    \<Rightarrow> notifier \<Rightarrow> notifier \<times> nat" where
  "check_and_notify C off tg E d s st =
     (if \<not> is_enabled C s then (st, 0)
      else let left = (case s of None \<Rightarrow> 0 | Some r \<Rightarrow> quiet_remaining off r (re_now E)) in
        if 0 < left then (defer_until_quiet_ends left (re_now E) st, 0)
        else foldl (send_step tg (re_now E)) (st, 0)
          (alerts_of E d (case s of None \<Rightarrow> DEFAULT_UPCOMING_DAYS | Some r \<Rightarrow> cf_upcoming_days r)))"

text \<open>The timeout forgets itself before it checks.\<close>

definition timer_fires :: "crypto_lib \<Rightarrow> (string \<Rightarrow> ms \<Rightarrow> int) \<Rightarrow> (alert \<Rightarrow> bool) \<Rightarrow> report_env \<Rightarrow> db \<Rightarrow> settings_row option
    \<Rightarrow> notifier \<Rightarrow> notifier \<times> nat" where
  "timer_fires C off tg E d s st = check_and_notify C off tg E d s (st \<lparr> nf_timer := None \<rparr>)"

section \<open>Lemmas\<close>

lemma html_text_esc: "html_text (esc s) = s"
proof -
  have "html_text (concat (map esc_one s)) = s"
    by (induction s) (auto simp: esc_one_def starts_with_def)
  then show ?thesis by (simp add: esc_chars)
qed

lemma esc_safe: "CHR ''<'' \<notin> set (esc s)" "CHR ''>'' \<notin> set (esc s)"
  unfolding esc_chars by (induction s) (auto simp: esc_one_def)

lemma maybe_send_log:
  "set (nf_log st) \<subseteq> set (nf_log (fst (maybe_send tg now a st)))"
  "tg a \<Longrightarrow> was_sent_since (alert_key a) (now - sent_within) (nf_log (fst (maybe_send tg now a st)))"
  by (auto simp: maybe_send_def was_sent_since_def sent_within_def)

lemma was_sent_since_mono: "set es \<subseteq> set es' \<Longrightarrow> was_sent_since k t es \<Longrightarrow> was_sent_since k t es'"
  by (auto simp: was_sent_since_def)

lemma send_step_fst: "fst (send_step tg now st a) = fst (maybe_send tg now a (fst st))"
  by (simp add: send_step_def split_beta)

lemma send_all_log: "set (nf_log (fst st)) \<subseteq> set (nf_log (fst (foldl (send_step tg now) st as)))"
proof (induction as arbitrary: st)
  case (Cons a as)
  then show ?case using Cons [of "send_step tg now st a"] maybe_send_log(1) [of "fst st" tg now a] by (auto simp: send_step_fst)
qed simp

lemma send_all_sent:
  "a \<in> set as \<Longrightarrow> tg a \<Longrightarrow> was_sent_since (alert_key a) (now - sent_within) (nf_log (fst (foldl (send_step tg now) st as)))"
proof (induction as arbitrary: st)
  case (Cons b as)
  show ?case
  proof (cases "a = b")
    case True
    then have "was_sent_since (alert_key a) (now - sent_within) (nf_log (fst (send_step tg now st b)))"
      using Cons.prems(2) maybe_send_log(2) by (simp add: send_step_fst)
    then show ?thesis using was_sent_since_mono send_all_log by (metis foldl_Cons)
  qed (use Cons in simp)
qed simp

lemma first_per_account_covers:
  "r \<in> set rs \<Longrightarrow> sr_account r \<notin> set seen \<Longrightarrow> \<exists>r'\<in>set (first_per_account seen rs). sr_account r' = sr_account r"
  by (induction seen rs rule: first_per_account.induct) (auto, metis)

lemma check_open:
  "is_enabled C (Some r) \<Longrightarrow> quiet_remaining off r (re_now E) = 0 \<Longrightarrow>
   check_and_notify C off tg E d (Some r) st = foldl (send_step tg (re_now E)) (st, 0) (alerts_of E d (cf_upcoming_days r))"
  by (simp add: check_and_notify_def)

lemma same_minute: "t mod 60000 = 0 \<Longrightarrow> (t + 1000) div 60000 = t div (60000 :: int)"
  by (auto simp: mod_eq_0_iff_dvd elim!: dvdE)

section \<open>Checks that overlap\<close>

text \<open>Where a check is with the alert at the head of its list: it has computed since from the clock
  (Asking), the log has answered that the key was not sent since then (Asked), Telegram has taken the
  message (Delivered, with the moment of the clock and that of the delivery).\<close>

datatype progress = Ready | Asking ms | Asked ms | Delivered ms ms

text \<open>cr_begun and cr_reported are for the statements only: the moment the check began, and the alerts it
  left behind as sent before, or as sent by itself.\<close>

record check_run =
  cr_left :: "alert list"
  cr_progress :: progress
  cr_begun :: ms
  cr_reported :: "alert list"

text \<open>ck_trace is for the statements only: the key of each entry of the log, with the moments its check
  asked for it, delivered the message and recorded it.\<close>

record checks =
  ck_log :: "(string \<times> ms) list"
  ck_outbox :: "(ms \<times> alert) list"
  ck_trace :: "(string \<times> ms \<times> ms \<times> ms) list"
  ck_runs :: "check_run list"

text \<open>What one check does at a moment.  A check starts with any list of alerts, whatever the data and the
  settings were; a message Telegram refuses is left; an exception ends a check anywhere, between the
  delivery and the entry of the log too.\<close>

inductive alert_step :: "ms \<Rightarrow> checks \<Rightarrow> checks \<Rightarrow> bool" where
  start_check: "alert_step t s (s \<lparr> ck_runs := ck_runs s @ [\<lparr> cr_left = as, cr_progress = Ready, cr_begun = t, cr_reported = [] \<rparr>] \<rparr>)"
| read_clock: "i < length (ck_runs s) \<Longrightarrow> ck_runs s ! i = \<lparr> cr_left = a # as, cr_progress = Ready, cr_begun = b, cr_reported = rs \<rparr> \<Longrightarrow>
    alert_step t s (s \<lparr> ck_runs := (ck_runs s)[i := \<lparr> cr_left = a # as, cr_progress = Asking t, cr_begun = b, cr_reported = rs \<rparr>] \<rparr>)"
| found_sent: "i < length (ck_runs s) \<Longrightarrow> ck_runs s ! i = \<lparr> cr_left = a # as, cr_progress = Asking u, cr_begun = b, cr_reported = rs \<rparr> \<Longrightarrow>
    was_sent_since (alert_key a) (u - sent_within) (ck_log s) \<Longrightarrow>
    alert_step t s (s \<lparr> ck_runs := (ck_runs s)[i := \<lparr> cr_left = as, cr_progress = Ready, cr_begun = b, cr_reported = a # rs \<rparr>] \<rparr>)"
| not_found: "i < length (ck_runs s) \<Longrightarrow> ck_runs s ! i = \<lparr> cr_left = a # as, cr_progress = Asking u, cr_begun = b, cr_reported = rs \<rparr> \<Longrightarrow>
    \<not> was_sent_since (alert_key a) (u - sent_within) (ck_log s) \<Longrightarrow>
    alert_step t s (s \<lparr> ck_runs := (ck_runs s)[i := \<lparr> cr_left = a # as, cr_progress = Asked u, cr_begun = b, cr_reported = rs \<rparr>] \<rparr>)"
| refused: "i < length (ck_runs s) \<Longrightarrow> ck_runs s ! i = \<lparr> cr_left = a # as, cr_progress = Asked u, cr_begun = b, cr_reported = rs \<rparr> \<Longrightarrow>
    alert_step t s (s \<lparr> ck_runs := (ck_runs s)[i := \<lparr> cr_left = as, cr_progress = Ready, cr_begun = b, cr_reported = rs \<rparr>] \<rparr>)"
| deliver: "i < length (ck_runs s) \<Longrightarrow> ck_runs s ! i = \<lparr> cr_left = a # as, cr_progress = Asked u, cr_begun = b, cr_reported = rs \<rparr> \<Longrightarrow>
    alert_step t s (s \<lparr> ck_outbox := ck_outbox s @ [(t, a)],
      ck_runs := (ck_runs s)[i := \<lparr> cr_left = a # as, cr_progress = Delivered u t, cr_begun = b, cr_reported = rs \<rparr>] \<rparr>)"
| record_sent: "i < length (ck_runs s) \<Longrightarrow> ck_runs s ! i = \<lparr> cr_left = a # as, cr_progress = Delivered u m, cr_begun = b, cr_reported = rs \<rparr> \<Longrightarrow>
    alert_step t s (s \<lparr> ck_log := ck_log s @ [(alert_key a, t)], ck_trace := ck_trace s @ [(alert_key a, u, m, t)],
      ck_runs := (ck_runs s)[i := \<lparr> cr_left = as, cr_progress = Ready, cr_begun = b, cr_reported = a # rs \<rparr>] \<rparr>)"
| fails: "alert_step t s (s \<lparr> ck_runs := take i (ck_runs s) @ drop (Suc i) (ck_runs s) \<rparr>)"

text \<open>What any checks come to, at moments that do not go back.\<close>

inductive checked :: "ms \<Rightarrow> checks \<Rightarrow> bool" where
  checked_start: "checked t \<lparr> ck_log = [], ck_outbox = [], ck_trace = [], ck_runs = [] \<rparr>"
| checked_step: "checked t s \<Longrightarrow> t \<le> t' \<Longrightarrow> alert_step t' s s' \<Longrightarrow> checked t' s'"

text \<open>A question u about a key is fresh when each entry of the key is older than a day, or made after u.\<close>

definition fresh_since :: "ms \<Rightarrow> string \<Rightarrow> (string \<times> ms) list \<Rightarrow> bool" where
  "fresh_since u k es = (\<forall>(k', r)\<in>set es. k' = k \<longrightarrow> r + sent_within < u \<or> u \<le> r)"

fun run_ok :: "ms \<Rightarrow> checks \<Rightarrow> check_run \<Rightarrow> bool" where
  "run_ok t s \<lparr> cr_left = as, cr_progress = p, cr_begun = b, cr_reported = rs \<rparr> =
     (b \<le> t \<and> (\<forall>a\<in>set rs. was_sent_since (alert_key a) (b - sent_within) (ck_log s)) \<and>
     (case p of Ready \<Rightarrow> True | Asking u \<Rightarrow> b \<le> u \<and> u \<le> t
      | Asked u \<Rightarrow> b \<le> u \<and> u \<le> t \<and> as \<noteq> [] \<and> fresh_since u (alert_key (hd as)) (ck_log s)
      | Delivered u m \<Rightarrow> b \<le> u \<and> u \<le> m \<and> m \<le> t \<and> as \<noteq> [] \<and> (m, hd as) \<in> set (ck_outbox s) \<and>
          fresh_since u (alert_key (hd as)) (ck_log s)))"

definition entry_ok :: "ms \<Rightarrow> checks \<Rightarrow> string \<times> ms \<times> ms \<times> ms \<Rightarrow> bool" where
  "entry_ok t s = (\<lambda>(k, u, m, r). u \<le> m \<and> m \<le> r \<and> r \<le> t \<and> (\<exists>a. (m, a) \<in> set (ck_outbox s) \<and> alert_key a = k))"

definition spaced :: "(string \<times> ms \<times> ms \<times> ms) list \<Rightarrow> bool" where
  "spaced es = sorted_wrt (\<lambda>(k, u, m, r) (k', u', m', r'). k = k' \<longrightarrow> r + sent_within < u' \<or> u' \<le> r) es"

definition checks_ok :: "ms \<Rightarrow> checks \<Rightarrow> bool" where
  "checks_ok t s = (ck_log s = map (\<lambda>(k, u, m, r). (k, r)) (ck_trace s) \<and> spaced (ck_trace s) \<and>
     (\<forall>e\<in>set (ck_trace s). entry_ok t s e) \<and> (\<forall>r\<in>set (ck_runs s). run_ok t s r))"

lemma fresh_since_append:
  "fresh_since u k (es @ [(k', r)]) \<longleftrightarrow> fresh_since u k es \<and> (k' = k \<longrightarrow> r + sent_within < u \<or> u \<le> r)"
  by (auto simp: fresh_since_def)

lemma not_sent_fresh: "\<not> was_sent_since k (u - sent_within) es \<Longrightarrow> fresh_since u k es"
  unfolding was_sent_since_def fresh_since_def by force

lemma was_sent_since_append: "was_sent_since k t (es @ [(k', r)]) \<longleftrightarrow> was_sent_since k t es \<or> k' = k \<and> t \<le> r"
  by (auto simp: was_sent_since_def)

lemma was_sent_since_earlier: "was_sent_since k t es \<Longrightarrow> t' \<le> t \<Longrightarrow> was_sent_since k t' es"
  unfolding was_sent_since_def by (blast intro: order_trans)

text \<open>A state that only gains messages and entries made now keeps what is known of the runs and the entries.\<close>

lemma run_ok_later:
  assumes "run_ok t s x" "t \<le> t'" "ck_log s' = ck_log s \<or> (\<exists>k. ck_log s' = ck_log s @ [(k, t')])"
    and "set (ck_outbox s) \<subseteq> set (ck_outbox s')"
  shows "run_ok t' s' x"
proof (cases x)
  case (fields as p b rs)
  have w: "was_sent_since k v (ck_log s) \<Longrightarrow> was_sent_since k v (ck_log s')" for k v
    using assms(3) by (auto simp: was_sent_since_def)
  have f: "u \<le> t' \<Longrightarrow> fresh_since u k (ck_log s) \<Longrightarrow> fresh_since u k (ck_log s')" for u k
    using assms(3) by (auto simp: fresh_since_append)
  show ?thesis using assms(1,2,4) w f unfolding fields by (cases p) auto
qed

lemma entry_ok_later: "entry_ok t s e \<Longrightarrow> t \<le> t' \<Longrightarrow> set (ck_outbox s) \<subseteq> set (ck_outbox s') \<Longrightarrow> entry_ok t' s' e"
  by (auto simp: entry_ok_def) 

lemma checks_ok_run:
  assumes "checks_ok t s" "t \<le> t'" "ck_log s' = ck_log s" "ck_trace s' = ck_trace s" "set (ck_outbox s) \<subseteq> set (ck_outbox s')"
    and "set (ck_runs s') \<subseteq> insert x (set (ck_runs s))" "run_ok t' s' x"
  shows "checks_ok t' s'"
proof -
  have "run_ok t' s' y" if "y \<in> set (ck_runs s)" for y
    using assms that run_ok_later [of t s y t' s'] by (auto simp: checks_ok_def)
  then show ?thesis using assms entry_ok_later [of t s _ t' s'] unfolding checks_ok_def by auto
qed

lemma run_at: "checks_ok t s \<Longrightarrow> i < length (ck_runs s) \<Longrightarrow> ck_runs s ! i = x \<Longrightarrow> run_ok t s x"
  by (auto simp: checks_ok_def)

lemma record_ok:
  assumes "checks_ok t s" "t \<le> t'" "run_ok t s \<lparr> cr_left = a # as, cr_progress = Delivered u m, cr_begun = b, cr_reported = rs \<rparr>"
  shows "checks_ok t' (s \<lparr> ck_log := ck_log s @ [(alert_key a, t')], ck_trace := ck_trace s @ [(alert_key a, u, m, t')],
      ck_runs := (ck_runs s)[i := \<lparr> cr_left = as, cr_progress = Ready, cr_begun = b, cr_reported = a # rs \<rparr>] \<rparr>)" (is "checks_ok t' ?s")
proof -
  have old: "run_ok t' ?s y" if "y \<in> set (ck_runs s)" for y
    using assms(1,2) that run_ok_later [of t s y t' ?s] by (simp add: checks_ok_def)
  have "run_ok t' ?s \<lparr> cr_left = as, cr_progress = Ready, cr_begun = b, cr_reported = a # rs \<rparr>"
    using assms(2,3) by (auto simp: was_sent_since_append sent_within_def)
  then have runs: "\<forall>y\<in>set (ck_runs ?s). run_ok t' ?s y" using old by (auto dest!: set_update_subset_insert [THEN subsetD])
  have "spaced (ck_trace ?s)"
    using assms(1,3) by (auto simp: checks_ok_def spaced_def sorted_wrt_append fresh_since_def)
  moreover have "\<forall>e\<in>set (ck_trace s). entry_ok t' ?s e"
    using assms(1,2) entry_ok_later [of t s _ t' ?s] by (auto simp: checks_ok_def)
  moreover have "entry_ok t' ?s (alert_key a, u, m, t')" using assms(2,3) by (auto simp: entry_ok_def)
  ultimately show ?thesis using assms(1) runs by (simp add: checks_ok_def)
qed

lemma alert_step_ok:
  assumes "alert_step t' s s'" "checks_ok t s" "t \<le> t'"
  shows "checks_ok t' s'"
  using assms(1)
proof cases
  case (start_check as)
  show ?thesis unfolding start_check
    by (rule checks_ok_run [OF assms(2,3), where x = "\<lparr> cr_left = as, cr_progress = Ready, cr_begun = t', cr_reported = [] \<rparr>"]) auto
next
  case (read_clock i a as b rs)
  show ?thesis unfolding read_clock(1)
    by (rule checks_ok_run [OF assms(2,3), where x = "\<lparr> cr_left = a # as, cr_progress = Asking t', cr_begun = b, cr_reported = rs \<rparr>"])
      (use run_at [OF assms(2) read_clock(2,3)] assms(3) in \<open>auto dest: set_update_subset_insert [THEN subsetD]\<close>)
next
  case (found_sent i a as u b rs)
  show ?thesis unfolding found_sent(1)
    by (rule checks_ok_run [OF assms(2,3), where x = "\<lparr> cr_left = as, cr_progress = Ready, cr_begun = b, cr_reported = a # rs \<rparr>"])
      (use run_at [OF assms(2) found_sent(2,3)] assms(3) found_sent(4) was_sent_since_earlier in
        \<open>auto dest: set_update_subset_insert [THEN subsetD]\<close>)
next
  case (not_found i a as u b rs)
  show ?thesis unfolding not_found(1)
    by (rule checks_ok_run [OF assms(2,3), where x = "\<lparr> cr_left = a # as, cr_progress = Asked u, cr_begun = b, cr_reported = rs \<rparr>"])
      (use run_at [OF assms(2) not_found(2,3)] assms(3) not_sent_fresh [OF not_found(4)] in
        \<open>auto dest: set_update_subset_insert [THEN subsetD]\<close>)
next
  case (refused i a as u b rs)
  show ?thesis unfolding refused(1)
    by (rule checks_ok_run [OF assms(2,3), where x = "\<lparr> cr_left = as, cr_progress = Ready, cr_begun = b, cr_reported = rs \<rparr>"])
      (use run_at [OF assms(2) refused(2,3)] assms(3) in \<open>auto dest: set_update_subset_insert [THEN subsetD]\<close>)
next
  case (deliver i a as u b rs)
  show ?thesis unfolding deliver(1)
    by (rule checks_ok_run [OF assms(2,3), where x = "\<lparr> cr_left = a # as, cr_progress = Delivered u t', cr_begun = b, cr_reported = rs \<rparr>"])
      (use run_at [OF assms(2) deliver(2,3)] assms(3) in \<open>auto dest: set_update_subset_insert [THEN subsetD]\<close>)
next
  case (record_sent i a as u m b rs)
  show ?thesis unfolding record_sent(1) by (rule record_ok [OF assms(2,3) run_at [OF assms(2) record_sent(2,3)]])
next
  case (fails i)
  show ?thesis unfolding fails
    by (rule checks_ok_run [OF assms(2,3), where x = "\<lparr> cr_left = [], cr_progress = Ready, cr_begun = t', cr_reported = [] \<rparr>"])
      (auto dest: in_set_takeD in_set_dropD)
qed

lemma checked_ok: "checked t s \<Longrightarrow> checks_ok t s"
proof (induction rule: checked.induct)
  case (checked_step t s t' s')
  then show ?case using alert_step_ok by blast
qed (simp add: checks_ok_def spaced_def)

text \<open>A check of any length, among any others: an alert it came past is in the log, not older than a day
  when the check began.\<close>

lemma reported_in_log:
  "checked t s \<Longrightarrow> r \<in> set (ck_runs s) \<Longrightarrow> a \<in> set (cr_reported r) \<Longrightarrow>
   was_sent_since (alert_key a) (cr_begun r - sent_within) (ck_log s)"
  using checked_ok [of t s] by (cases r) (auto simp: checks_ok_def)

text \<open>check_and_notify is a check whose steps all come at one moment with no other in between.\<close>

inductive steps_at :: "ms \<Rightarrow> checks \<Rightarrow> checks \<Rightarrow> bool" where
  steps_none: "steps_at t s s"
| steps_more: "alert_step t s s' \<Longrightarrow> steps_at t s' s'' \<Longrightarrow> steps_at t s s''"

lemma steps_trans: "steps_at t s s' \<Longrightarrow> steps_at t s' s'' \<Longrightarrow> steps_at t s s''"
  by (induction rule: steps_at.induct) (auto intro: steps_more)

text \<open>The state in which the runs rs are under way and the notifier's log and outbox are those of st.\<close>

definition seen_as :: "notifier \<Rightarrow> check_run list \<Rightarrow> checks \<Rightarrow> bool" where
  "seen_as st rs s = (ck_log s = nf_log st \<and> ck_outbox s = nf_outbox st \<and> ck_runs s = rs)"

lemma send_is_steps:
  assumes "seen_as st (rs @ [\<lparr> cr_left = a # as, cr_progress = Ready, cr_begun = b, cr_reported = ps \<rparr>]) s"
  shows "\<exists>s' ps'. steps_at t s s' \<and>
    seen_as (fst (maybe_send tg t a st)) (rs @ [\<lparr> cr_left = as, cr_progress = Ready, cr_begun = b, cr_reported = ps' \<rparr>]) s'"
proof -
  let ?i = "length rs"
  let ?run = "\<lambda>as p ps. \<lparr> cr_left = as, cr_progress = p, cr_begun = b, cr_reported = ps \<rparr>"
  let ?asking = "s \<lparr> ck_runs := rs @ [?run (a # as) (Asking t) ps] \<rparr>"
  have s: "ck_log s = nf_log st" "ck_outbox s = nf_outbox st" "ck_runs s = rs @ [?run (a # as) Ready ps]"
    using assms by (simp_all add: seen_as_def)
  have 1: "alert_step t s ?asking" using read_clock [of ?i s a as b ps t] by (simp add: s(3))
  show ?thesis
  proof (cases "was_sent_since (alert_key a) (t - sent_within) (nf_log st)")
    case True
    let ?s = "?asking \<lparr> ck_runs := rs @ [?run as Ready (a # ps)] \<rparr>"
    have "alert_step t ?asking ?s" using found_sent [of ?i ?asking a as t b ps t] True by (simp add: s(1))
    with 1 have "steps_at t s ?s" by (blast intro: steps_more steps_none)
    moreover have "seen_as (fst (maybe_send tg t a st)) (rs @ [?run as Ready (a # ps)]) ?s"
      using True by (simp add: seen_as_def maybe_send_def s(1,2))
    ultimately show ?thesis by blast
  next
    case False
    let ?asked = "?asking \<lparr> ck_runs := rs @ [?run (a # as) (Asked t) ps] \<rparr>"
    have 2: "alert_step t ?asking ?asked" using not_found [of ?i ?asking a as t b ps t] False by (simp add: s(1))
    show ?thesis
    proof (cases "tg a")
      case True
      let ?sent = "?asked \<lparr> ck_outbox := ck_outbox s @ [(t, a)], ck_runs := rs @ [?run (a # as) (Delivered t t) ps] \<rparr>"
      let ?s = "?sent \<lparr> ck_log := ck_log s @ [(alert_key a, t)], ck_trace := ck_trace s @ [(alert_key a, t, t, t)],
         ck_runs := rs @ [?run as Ready (a # ps)] \<rparr>"
      have 3: "alert_step t ?asked ?sent" using deliver [of ?i ?asked a as t b ps t] by simp
      have 4: "alert_step t ?sent ?s" using record_sent [of ?i ?sent a as t t b ps t] by simp
      have "steps_at t s ?s" using 1 2 3 4 by (blast intro: steps_more steps_none)
      moreover have "seen_as (fst (maybe_send tg t a st)) (rs @ [?run as Ready (a # ps)]) ?s"
        using False True by (simp add: seen_as_def maybe_send_def s(1,2))
      ultimately show ?thesis by blast
    next
      case refuse: False
      let ?s = "?asked \<lparr> ck_runs := rs @ [?run as Ready ps] \<rparr>"
      have 3: "alert_step t ?asked ?s" using refused [of ?i ?asked a as t b ps t] by simp
      have "steps_at t s ?s" using 1 2 3 by (blast intro: steps_more steps_none)
      moreover have "seen_as (fst (maybe_send tg t a st)) (rs @ [?run as Ready ps]) ?s"
        using False refuse by (simp add: seen_as_def maybe_send_def s(1,2))
      ultimately show ?thesis by blast
    qed
  qed
qed

lemma sends_are_steps:
  "seen_as (fst st) (rs @ [\<lparr> cr_left = as, cr_progress = Ready, cr_begun = b, cr_reported = ps \<rparr>]) s \<Longrightarrow>
   \<exists>s' ps'. steps_at t s s' \<and>
     seen_as (fst (foldl (send_step tg t) st as)) (rs @ [\<lparr> cr_left = [], cr_progress = Ready, cr_begun = b, cr_reported = ps' \<rparr>]) s'"
proof (induction as arbitrary: st s ps)
  case (Cons a as)
  obtain s' ps' where 1: "steps_at t s s'"
    and n: "seen_as (fst (send_step tg t st a)) (rs @ [\<lparr> cr_left = as, cr_progress = Ready, cr_begun = b, cr_reported = ps' \<rparr>]) s'"
    using send_is_steps [OF Cons.prems] unfolding send_step_fst by blast
  from Cons.IH [OF n] 1 show ?case by (auto intro: steps_trans)
qed (use steps_none in auto)

lemma check_is_steps:
  assumes "seen_as st rs s"
  shows "\<exists>s'. steps_at (re_now E) s s' \<and> seen_as (fst (check_and_notify C off tg E d c st)) rs s'"
proof -
  let ?as = "alerts_of E d (case c of None \<Rightarrow> DEFAULT_UPCOMING_DAYS | Some r \<Rightarrow> cf_upcoming_days r)"
  let ?run = "\<lambda>as ps. \<lparr> cr_left = as, cr_progress = Ready, cr_begun = re_now E, cr_reported = ps \<rparr>"
  let ?begun = "s \<lparr> ck_runs := ck_runs s @ [?run ?as []] \<rparr>"
  have "seen_as (fst (st, 0 :: nat)) (rs @ [?run ?as []]) ?begun" using assms by (simp add: seen_as_def)
  from sends_are_steps [OF this] obtain s1 ps where 1: "steps_at (re_now E) ?begun s1"
    "seen_as (fst (foldl (send_step tg (re_now E)) (st, 0 :: nat) ?as)) (rs @ [?run [] ps]) s1" by blast
  let ?s = "s1 \<lparr> ck_runs := rs \<rparr>"
  have "alert_step (re_now E) s ?begun" by (rule start_check)
  moreover have "alert_step (re_now E) s1 ?s" using fails [of "re_now E" s1 "length rs"] 1(2) by (simp add: seen_as_def)
  ultimately have "steps_at (re_now E) s ?s" using 1(1) by (blast intro: steps_more steps_trans steps_none)
  moreover have "seen_as (fst (foldl (send_step tg (re_now E)) (st, 0 :: nat) ?as)) rs ?s" using 1(2) by (simp add: seen_as_def)
  moreover have "seen_as (st \<lparr> nf_timer := x \<rparr>) rs s" for x using assms by (simp add: seen_as_def)
  moreover have "steps_at (re_now E) s s" by (rule steps_none)
  ultimately show ?thesis using assms by (auto simp: check_and_notify_def Let_def defer_until_quiet_ends_def)
qed

section \<open>Sample values\<close>

definition ill_db :: "ms \<Rightarrow> db" where
  "ill_db t = shop_db \<lparr> services := [], accounts := map (\<lambda>a. a \<lparr> ac_balance := None \<rparr>) (accounts shop_db),
     sync_runs := [\<lparr> sr_id = 1, sr_account = ''a1'', sr_status = SyncError, sr_found = 0, sr_error = Some ''boom'', sr_started = t, sr_finished = Some t \<rparr>] \<rparr>"

definition ill_alert :: alert where "ill_alert = Sync_failed ''a1'' ''Host'' ''boom'' None None"

definition at_time :: "ms \<Rightarrow> report_env" where "at_time t = shop_env \<lparr> re_now := t \<rparr>"

definition open_settings :: settings_row where
  "open_settings = default_settings \<lparr> cf_notifications := True, cf_token := Some (encrypt plain_crypto sample_iv ''bot''), cf_chat := Some ''1'' \<rparr>"

lemma quiet_summary:
  "services d = [] \<Longrightarrow> \<forall>a\<in>set (accounts d). ac_balance a = None \<Longrightarrow>
   charge_alerts (summary E d) = [] \<and> runway_alerts (summary E d) = [] \<and> overdue_alerts (summary E d) = [] \<and> upcoming_alerts now n (summary E d) = []"
proof -
  assume a: "services d = []" "\<forall>a\<in>set (accounts d). ac_balance a = None"
  have l: "list_active d = []" using a(1) by (simp add: list_active_def)
  have "map ub_service (su_upcoming (summary E d)) = []" unfolding su_upcoming_services l by (simp add: upcoming_sorted_def)
  moreover have "ob_service ` set (su_overdue (summary E d)) = {}" unfolding su_overdue_services l by simp
  moreover have "List.map_filter (runway_of E d [] sn) as = []" if "\<forall>a\<in>set as. ac_balance a = None" for sn as
    using that by (induction as) (simp_all add: map_filter_simps runway_of_def)
  then have "su_runway (summary E d) = []" using a(2) by (simp add: summary_def l balance_runways_def Let_def split_beta)
  ultimately show ?thesis by (simp add: charge_alerts_def runway_alerts_def overdue_alerts_def upcoming_alerts_def)
qed

lemma ill_alerts: "alerts_of (at_time t) (ill_db t) n = [ill_alert]"
proof -
  have "list_errors_since (ill_db t) (t - sent_within) = sync_runs (ill_db t)"
    by (simp add: list_errors_since_def ill_db_def sent_within_def)
  then have "sync_alerts (ill_db t) t = [ill_alert]"
    by (simp add: sync_alerts_def ill_db_def sync_alert_def Let_def find_account_def find_provider_def row_find_def shop_db_def ill_alert_def)
  moreover have "services (ill_db t) = []" "\<forall>a\<in>set (accounts (ill_db t)). ac_balance a = None" by (simp_all add: ill_db_def)
  ultimately show ?thesis using quiet_summary [of "ill_db t" "at_time t" t n] by (simp add: alerts_of_def Let_def at_time_def)
qed

lemma open_enabled: "is_enabled plain_crypto (Some open_settings)" "quiet_remaining off open_settings now = 0"
  by (simp_all add: is_enabled_def resolve_config_def open_settings_def quiet_remaining_def default_settings_def
      decrypt_encrypt plain_crypto_ok sample_iv_ok)

definition two_days :: notifier where
  "two_days = \<lparr> nf_log = [(''sync-error:a1'', 0), (''sync-error:a1'', 172800000)], nf_outbox = [(0, ill_alert), (172800000, ill_alert)], nf_timer = None \<rparr>"

text \<open>The cron and a request overlap: both ask before either records.\<close>

definition one_run :: "alert list \<Rightarrow> progress \<Rightarrow> alert list \<Rightarrow> check_run" where
  "one_run as p rs = \<lparr> cr_left = as, cr_progress = p, cr_begun = 0, cr_reported = rs \<rparr>"

definition both_sent :: checks where
  "both_sent = \<lparr> ck_log = [(''sync-error:a1'', 4), (''sync-error:a1'', 6)], ck_outbox = [(3, ill_alert), (5, ill_alert)],
     ck_trace = [(''sync-error:a1'', 1, 3, 4), (''sync-error:a1'', 2, 5, 6)],
     ck_runs = [one_run [] Ready [ill_alert], one_run [] Ready [ill_alert]] \<rparr>"

lemma both_sent_checked: "checked 6 both_sent"
proof -
  let ?k = "''sync-error:a1''"
  let ?s = "\<lambda>es out tr rs. \<lparr> ck_log = es, ck_outbox = out, ck_trace = tr, ck_runs = rs \<rparr>"
  let ?r = "\<lambda>p. one_run [ill_alert] p []"
  let ?e = "one_run [] Ready [ill_alert]"
  have k: "alert_key ill_alert = ?k" by (simp add: ill_alert_def)
  note d = one_run_def k was_sent_since_def
  have 1: "checked 0 (?s [] [] [] [?r Ready])"
    using checked_step [OF checked_start _ start_check, of 0 0 "[ill_alert]"] by (simp add: d)
  have 2: "checked 0 (?s [] [] [] [?r Ready, ?r Ready])"
    using checked_step [OF 1 _ start_check, of 0 "[ill_alert]"] by (simp add: d)
  have 3: "checked 1 (?s [] [] [] [?r (Asking 1), ?r Ready])"
    using checked_step [OF 2 _ read_clock, of 1 0 ill_alert "[]" 0 "[]"] by (simp add: d)
  have 4: "checked 1 (?s [] [] [] [?r (Asked 1), ?r Ready])"
    using checked_step [OF 3 _ not_found, of 1 0 ill_alert "[]" 1 0 "[]"] by (simp add: d)
  have 5: "checked 2 (?s [] [] [] [?r (Asked 1), ?r (Asking 2)])"
    using checked_step [OF 4 _ read_clock, of 2 1 ill_alert "[]" 0 "[]"] by (simp add: d)
  have 6: "checked 2 (?s [] [] [] [?r (Asked 1), ?r (Asked 2)])"
    using checked_step [OF 5 _ not_found, of 2 1 ill_alert "[]" 2 0 "[]"] by (simp add: d)
  have 7: "checked 3 (?s [] [(3, ill_alert)] [] [?r (Delivered 1 3), ?r (Asked 2)])"
    using checked_step [OF 6 _ deliver, of 3 0 ill_alert "[]" 1 0 "[]"] by (simp add: d)
  have 8: "checked 4 (?s [(?k, 4)] [(3, ill_alert)] [(?k, 1, 3, 4)] [?e, ?r (Asked 2)])"
    using checked_step [OF 7 _ record_sent, of 4 0 ill_alert "[]" 1 3 0 "[]"] by (simp add: d)
  have 9: "checked 5 (?s [(?k, 4)] [(3, ill_alert), (5, ill_alert)] [(?k, 1, 3, 4)] [?e, ?r (Delivered 2 5)])"
    using checked_step [OF 8 _ deliver, of 5 1 ill_alert "[]" 2 0 "[]"] by (simp add: d)
  show ?thesis
    using checked_step [OF 9 _ record_sent, of 6 1 ill_alert "[]" 2 5 0 "[]"] by (simp add: d both_sent_def)
qed

text \<open>The same message twice in one hour, although each check asks the log first.\<close>

lemma overlapping_checks_repeat:
  "\<exists>t s m m' a. checked t s \<and> ck_outbox s = [(m, a), (m', a)] \<and> m < m' \<and> m' < m + 3600000"
  using both_sent_checked by (intro exI [of _ 6] exI [of _ both_sent] exI [of _ 3] exI [of _ 5] exI [of _ ill_alert]) (simp add: both_sent_def)

section \<open>Properties\<close>

text \<open>C15. When an alert is repeated within a day.  Checks overlap as they may, each at its own pace, with any
  data, any refusals and failures: of two entries of the log with one key, the check of the later
  computed its since more than 24 hours after the earlier was recorded, or before it was recorded, while
  the check of the earlier was still under way.  Each entry stands for a message of this key that was
  delivered between that question and the entry.  So a check that begins when no other is under way
  repeats nothing recorded in the last 24 hours.\<close>

theorem alerts_spaced:
  assumes "checked t s" "i < j" "j < length (ck_log s)" "fst (ck_log s ! i) = fst (ck_log s ! j)"
  shows "\<exists>u m r u' m' r' a a'. ck_trace s ! i = (alert_key a, u, m, r) \<and> ck_trace s ! j = (alert_key a', u', m', r') \<and>
    ck_log s ! i = (alert_key a, r) \<and> ck_log s ! j = (alert_key a', r') \<and> (m, a) \<in> set (ck_outbox s) \<and> (m', a') \<in> set (ck_outbox s) \<and>
    u \<le> m \<and> m \<le> r \<and> u' \<le> m' \<and> m' \<le> r' \<and> r' \<le> t \<and> (r + 86400000 < u' \<or> u' \<le> r)"
proof -
  note ok = checked_ok [OF assms(1), unfolded checks_ok_def]
  have l: "i < length (ck_trace s)" "j < length (ck_trace s)" using ok assms(2,3) by auto
  obtain k u m r k' u' m' r' where e: "ck_trace s ! i = (k, u, m, r)" "ck_trace s ! j = (k', u', m', r')" by (meson prod_cases4)
  have n: "ck_log s ! i = (k, r)" "ck_log s ! j = (k', r')" using ok l e by simp_all
  have w: "entry_ok t s (k, u, m, r)" "entry_ok t s (k', u', m', r')" using ok l e nth_mem by metis+
  have "r + sent_within < u' \<or> u' \<le> r"
    using sorted_wrt_nth_less [OF conjunct1 [OF conjunct2 [OF ok], unfolded spaced_def] assms(2) l(2)] assms(4) by (simp add: e n)
  moreover obtain a a' where "(m, a) \<in> set (ck_outbox s)" "alert_key a = k" "(m', a') \<in> set (ck_outbox s)" "alert_key a' = k'"
    using w by (auto simp: entry_ok_def)
  ultimately show ?thesis using w e n unfolding entry_ok_def sent_within_def by (intro exI) auto
qed

theorem alerts_spaced_witness:
  "\<exists>u m r u' m' r' a a'. ck_trace both_sent ! 0 = (alert_key a, u, m, r) \<and> ck_trace both_sent ! 1 = (alert_key a', u', m', r') \<and> u' \<le> r"
proof -
  have "fst (ck_log both_sent ! 0) = fst (ck_log both_sent ! 1)" "1 < length (ck_log both_sent)" by (simp_all add: both_sent_def)
  from alerts_spaced [OF both_sent_checked zero_less_one this(2,1)] obtain u m r u' m' r' a a' where
    e: "ck_trace both_sent ! 0 = (alert_key a, u, m, r)" "ck_trace both_sent ! 1 = (alert_key a', u', m', r')"
      "r + 86400000 < u' \<or> u' \<le> r" by metis
  then have "u' \<le> r" by (auto simp: both_sent_def)
  with e show ?thesis by metis
qed

text \<open>C16. A check outside the quiet hours reports everything: each critical charge, critical runway and
  missed charge of the summary, each charge within the horizon, and each account with a failed run
  in the last day has a message in the log not older than a day, when Telegram accepts messages.\<close>

theorem check_reports_all:
  assumes "is_enabled C (Some r)" "quiet_remaining off r (re_now E) = 0"
    and "fst (check_and_notify C off tg E d (Some r) st) = st'" "\<And>a. tg a"
  shows "let S = summary E d; sent = (\<lambda>k. was_sent_since k (re_now E - sent_within) (nf_log st')) in
    (\<forall>u\<in>set (su_upcoming S). ub_severity u = Critical \<longrightarrow>
       sent ((if ub_covered u = None then ''unknown-coverage:'' else ''low-balance:'') @ ub_service u)) \<and>
    (\<forall>b\<in>set (su_runway S). br_severity b = Critical \<longrightarrow> sent (''runway:'' @ of_account (br_owner b))) \<and>
    (\<forall>m\<in>set (su_overdue S). sent (''overdue:'' @ ob_service m)) \<and>
    (\<forall>u\<in>set (su_upcoming S). ub_next u \<le> re_now E + cf_upcoming_days r * MS_PER_DAY \<longrightarrow>
       sent (''upcoming:'' @ ub_service u @ '':'' @ iso_day (ub_next u))) \<and>
    (\<forall>run\<in>set (sync_runs d). sr_status run = SyncError \<and> (\<exists>t. sr_finished run = Some t \<and> re_now E - 86400000 \<le> t) \<longrightarrow>
       sent (''sync-error:'' @ sr_account run))"
proof -
  let ?as = "alerts_of E d (cf_upcoming_days r)"
  have sent: "was_sent_since (alert_key a) (re_now E - sent_within) (nf_log st')" if "a \<in> set ?as" for a
    using send_all_sent [OF that assms(4)] assms(1-3) by (auto simp: check_open)
  have m: "set ?as = set (charge_alerts (summary E d)) \<union> set (runway_alerts (summary E d)) \<union> set (overdue_alerts (summary E d)) \<union>
      set (upcoming_alerts (re_now E) (cf_upcoming_days r) (summary E d)) \<union> set (sync_alerts d (re_now E))"
    by (simp add: alerts_of_def Let_def Un_assoc)
  have errors: "was_sent_since (''sync-error:'' @ sr_account run) (re_now E - sent_within) (nf_log st')"
    if "run \<in> set (sync_runs d)" "sr_status run = SyncError" "sr_finished run = Some t" "re_now E - 86400000 \<le> t" for run t
  proof -
    have "run \<in> set (list_errors_since d (re_now E - sent_within))" using that by (simp add: list_errors_since_def sent_within_def)
    from first_per_account_covers [OF this, of "[]"] obtain r' where
      "r' \<in> set (first_per_account [] (list_errors_since d (re_now E - sent_within)))" "sr_account r' = sr_account run" by auto
    moreover from this have "sync_alert d r' \<in> set ?as" unfolding m sync_alerts_def by simp
    ultimately have "sync_alert d r' \<in> set ?as" "alert_key (sync_alert d r') = ''sync-error:'' @ sr_account run"
      by (simp_all add: sync_alert_def Let_def)
    then show ?thesis using sent by metis
  qed
  have c: "alert_key (charge_alert u) = (if ub_covered u = None then ''unknown-coverage:'' else ''low-balance:'') @ ub_service u" for u
    by (simp add: charge_alert_def)
  have "was_sent_since (alert_key (charge_alert u)) (re_now E - sent_within) (nf_log st')"
    if "u \<in> set (su_upcoming (summary E d))" "ub_severity u = Critical" for u
    by (rule sent) (use that in \<open>simp add: m charge_alerts_def\<close>)
  moreover have "was_sent_since (alert_key (Low_runway b)) (re_now E - sent_within) (nf_log st')"
    if "b \<in> set (su_runway (summary E d))" "br_severity b = Critical" for b
    by (rule sent) (use that in \<open>simp add: m runway_alerts_def\<close>)
  moreover have "was_sent_since (alert_key (Overdue o1)) (re_now E - sent_within) (nf_log st')"
    if "o1 \<in> set (su_overdue (summary E d))" for o1
    by (rule sent) (use that in \<open>simp add: m overdue_alerts_def\<close>)
  moreover have "was_sent_since (alert_key (Upcoming u (iso_day (ub_next u)))) (re_now E - sent_within) (nf_log st')"
    if "u \<in> set (su_upcoming (summary E d))" "ub_next u \<le> re_now E + cf_upcoming_days r * MS_PER_DAY" for u
    by (rule sent) (use that in \<open>simp add: m upcoming_alerts_def\<close>)
  ultimately show ?thesis using errors unfolding Let_def c by auto
qed

theorem check_reports_all_witness:
  "was_sent_since ''sync-error:a1'' (- sent_within) (nf_log (fst (check_and_notify plain_crypto (\<lambda>z t. 0) (\<lambda>a. True) (at_time 0) (ill_db 0)
     (Some open_settings) \<lparr> nf_log = [], nf_outbox = [], nf_timer = None \<rparr>)))"
  using check_reports_all [where tg = "\<lambda>a. True" and E = "at_time 0" and d = "ill_db 0", OF open_enabled(1) open_enabled(2) refl TrueI]
  by (simp add: Let_def at_time_def shop_env_def ill_db_def)

text \<open>C17. A check inside the quiet hours sends nothing and arms the timer for a second past their end; when
  it fires, in a zone whose offset does not change and with unchanged settings, the check is not held
  again and what is due is reported.\<close>

theorem held_alerts_released:
  assumes "is_enabled C (Some r)" and "time_ok (cf_quiet_start r)" "time_ok (cf_quiet_end r)" and "\<And>z t. off z t = offset z"
    and "quiet_remaining off r (re_now E) \<noteq> 0"
  shows "\<exists>t. check_and_notify C off tg E d (Some r) st = (st \<lparr> nf_timer := Some t \<rparr>, 0) \<and>
    re_now E + 1000 < t \<and> t \<le> re_now E + 86401000 \<and>
    (\<forall>E' d' st'. re_now E' = t \<longrightarrow> timer_fires C off tg E' d' (Some r) st' =
       foldl (send_step tg t) (st' \<lparr> nf_timer := None \<rparr>, 0) (alerts_of E' d' (cf_upcoming_days r)))"
proof -
  let ?q = "quiet_remaining off r (re_now E)"
  note rel = quiet_release [OF assms(2,3,4,5)]
  have minute: "(re_now E + ?q) mod 60000 = 0"
  proof -
    have "?q = (to_minutes (cf_quiet_end r) - local_minutes off (re_now E) (coalesce (cf_quiet_zone r) ''UTC'') + DAY_MINUTES) mod DAY_MINUTES * 60000
        - re_now E mod 60000"
      using assms(5) by (auto simp: quiet_remaining_def Let_def split: if_splits)
    then have "re_now E + ?q = (re_now E - re_now E mod 60000) + (to_minutes (cf_quiet_end r) -
        local_minutes off (re_now E) (coalesce (cf_quiet_zone r) ''UTC'') + DAY_MINUTES) mod DAY_MINUTES * 60000" by linarith
    then show ?thesis by (simp add: minus_mod_eq_mult_div)
  qed
  then have "(re_now E + ?q + 1000) div 60000 = (re_now E + ?q) div 60000"
    by (rule same_minute)
  then have l: "local_minutes off (re_now E + ?q + 1000) z = local_minutes off (re_now E + ?q) z" for z
    by (simp add: local_minutes_def assms(4))
  have "quiet_remaining off r (re_now E + ?q) = 0" "cf_quiet r" "to_minutes (cf_quiet_start r) \<noteq> to_minutes (cf_quiet_end r)"
    using rel assms(5) by (auto simp: quiet_remaining_def Let_def split: if_splits)
  moreover have "local_minutes off (re_now E + ?q) (coalesce (cf_quiet_zone r) ''UTC'') = to_minutes (cf_quiet_end r)" using rel by blast
  ultimately have "quiet_remaining off r (re_now E + ?q + 1000) = 0"
    using l to_minutes_range [OF assms(2)] to_minutes_range [OF assms(3)]
    by (auto simp: quiet_remaining_def Let_def in_window_def split: if_splits)
  then have fire: "timer_fires C off tg E' d' (Some r) st' =
      foldl (send_step tg (re_now E + ?q + 1000)) (st' \<lparr> nf_timer := None \<rparr>, 0) (alerts_of E' d' (cf_upcoming_days r))"
    if "re_now E' = re_now E + ?q + 1000" for E' d' st'
    using that assms(1) check_open by (simp add: timer_fires_def)
  have "check_and_notify C off tg E d (Some r) st = (st \<lparr> nf_timer := Some (re_now E + ?q + 1000) \<rparr>, 0)"
    using assms(1) rel by (simp add: check_and_notify_def defer_until_quiet_ends_def)
  then show ?thesis using fire rel by (intro exI [of _ "re_now E + ?q + 1000"]) simp
qed

theorem held_alerts_released_witness:
  "\<exists>t. check_and_notify plain_crypto (\<lambda>z t. 0) (\<lambda>a. True) (at_time 79200000) (ill_db 0) (Some (open_settings \<lparr> cf_quiet := True \<rparr>)) two_days =
     (two_days \<lparr> nf_timer := Some t \<rparr>, 0)"
proof -
  let ?r = "open_settings \<lparr> cf_quiet := True \<rparr>"
  have t: "time_ok (cf_quiet_start ?r)" "time_ok (cf_quiet_end ?r)"
    by (simp_all add: time_ok_def open_settings_def default_settings_def is_digit_def number_of_digits_def)
  have e: "is_enabled plain_crypto (Some ?r)"
    by (simp add: is_enabled_def resolve_config_def open_settings_def decrypt_encrypt plain_crypto_ok sample_iv_ok)
  have "quiet_remaining (\<lambda>z t. 0) ?r (re_now (at_time 79200000)) = quiet_remaining (\<lambda>z t. 0) night 79200000"
    by (simp add: quiet_remaining_def night_def open_settings_def at_time_def default_settings_def Let_def cong: if_cong)
  moreover have "quiet_remaining (\<lambda>z t. 0) night 79200000 = 39600000" by code_simp
  ultimately have q: "quiet_remaining (\<lambda>z t. 0) ?r (re_now (at_time 79200000)) \<noteq> 0" by simp
  show ?thesis
    using held_alerts_released [OF e t, of "\<lambda>z t. 0" "\<lambda>z. 0" "at_time 79200000" "\<lambda>a. True" "ill_db 0" two_days, OF _ q] by blast
qed

end
