(* ===== verification/Favicons.thy ===== *)
theory Favicons
  imports Providers
begin

text \<open>
  The icon proxy of favicons/: which addresses are tried for a provider or a project, what is accepted
  from them, and the cache in memory with its single load per entity.  A load reads the entity and
  then tries the addresses one after the other; each of these steps happens at a moment of its own,
  so requests and invalidations come between them.  Node's URL parser and the HTTP client are
  parameters; a body is a text of bytes.  An answer that is not a 200 within the limits of time, size
  and redirects is no reply.
\<close>

section \<open>favicon.util.ts\<close>

record web_url =
  wu_href :: string
  wu_protocol :: string
  wu_host :: string
  wu_hostname :: string
  wu_pathname :: string

record favicon_candidate =
  fc_url :: string
  fc_service :: bool

record favicon_source =
  fs_link :: "string option"
  fs_login :: "string option"

definition S2_PREFIX :: string where
  "S2_PREFIX = ''https://www.google.com/s2/favicons?sz=64&domain_url=''"

text \<open>A letter, then letters, digits, plus, dot and minus, then ://.\<close>

definition has_scheme :: "string \<Rightarrow> bool" where
  "has_scheme s = (case s of [] \<Rightarrow> False
     | c # r \<Rightarrow> is_letter c \<and>
         starts_with ''://'' (dropWhile (\<lambda>x. is_letter x \<or> is_digit x \<or> x \<in> {CHR ''+'', CHR ''.'', CHR ''-''}) r))"

definition parse_http_url :: "(string \<Rightarrow> web_url option) \<Rightarrow> string option \<Rightarrow> web_url option" where
  "parse_http_url url raw =
     (let trimmed = trim (coalesce raw []) in
      if trimmed = [] then None
      else case url (if has_scheme trimmed then trimmed else ''https://'' @ trimmed) of
        None \<Rightarrow> None
      | Some u \<Rightarrow> if wu_protocol u \<noteq> ''http:'' \<and> wu_protocol u \<noteq> ''https:'' then None
          else if wu_hostname u = [] then None else Some u)"

definition has_path :: "web_url \<Rightarrow> bool" where
  "has_path u = (wu_pathname u \<noteq> [] \<and> wu_pathname u \<noteq> ''/'')"

definition s2 :: "web_url \<Rightarrow> favicon_candidate" where
  "s2 u = \<lparr> fc_url = S2_PREFIX @ wu_protocol u @ ''//'' @ wu_host u, fc_service = True \<rparr>"

definition s2_root :: "web_url \<Rightarrow> favicon_candidate option" where
  "s2_root u = (let labels = split_on (CHR ''.'') (wu_hostname u) in
     if length labels < 3 then None
     else Some \<lparr> fc_url = S2_PREFIX @ wu_protocol u @ ''//'' @ join_with ''.'' (tl labels), fc_service = True \<rparr>)"

definition push_candidate :: "favicon_candidate list \<Rightarrow> favicon_candidate option \<Rightarrow> favicon_candidate list" where
  "push_candidate out c = (case c of None \<Rightarrow> out
     | Some c \<Rightarrow> if list_ex (\<lambda>o1. fc_url o1 = fc_url c) out then out else out @ [c])"

text \<open>The hosts asked of Google: the bare link or else, after the login address, the link's own host.\<close>

definition candidate_hosts :: "web_url option \<Rightarrow> web_url option \<Rightarrow> web_url list" where
  "candidate_hosts link login =
     (case link of None \<Rightarrow> [] | Some l \<Rightarrow> if has_path l then [] else [l]) @
     (case login of None \<Rightarrow> [] | Some l \<Rightarrow> [l]) @
     (case link of None \<Rightarrow> [] | Some l \<Rightarrow> if has_path l then [l] else [])"

definition build_candidates :: "(string \<Rightarrow> web_url option) \<Rightarrow> favicon_source \<Rightarrow> favicon_candidate list" where
  "build_candidates url src =
     (let link = parse_http_url url (fs_link src); login = parse_http_url url (fs_login src);
          direct = (case link of None \<Rightarrow> [] | Some l \<Rightarrow> if has_path l then push_candidate [] (Some \<lparr> fc_url = wu_href l, fc_service = False \<rparr>) else [])
      in foldl (\<lambda>out h. push_candidate (push_candidate out (Some (s2 h))) (s2_root h)) direct (candidate_hosts link login))"

text \<open>An opening tag (its name, not continued by a word character): what follows the name.\<close>

definition after_open :: "string \<Rightarrow> string option" where
  "after_open s = (let r = drop 14 s in
     if to_lower (take 14 s) = ''<foreignobject'' \<and> (r = [] \<or> \<not> is_word (hd r)) then Some r else None)"

text \<open>The length up to the end of a tag that closes itself, and up to the end of the first closing tag.\<close>

definition self_closed :: "string \<Rightarrow> nat option" where
  "self_closed r = (let a = takeWhile (\<lambda>c. c \<noteq> CHR ''>'') r in
     if length a < length r \<and> a \<noteq> [] \<and> last a = CHR ''/'' then Some (length a + 1) else None)"

definition close_tag :: "string \<Rightarrow> nat option" where
  "close_tag s = (let r = drop 15 s; sp = takeWhile js_space r in
     if to_lower (take 15 s) = ''</foreignobject'' \<and> starts_with ''>'' (drop (length sp) r)
     then Some (16 + length sp) else None)"

fun until_close :: "string \<Rightarrow> nat option" where
  "until_close [] = None"
| "until_close (c # s) = (case close_tag (c # s) of Some n \<Rightarrow> Some n | None \<Rightarrow> map_option Suc (until_close s))"

definition foreign_length :: "string \<Rightarrow> nat option" where
  "foreign_length s = (case after_open s of None \<Rightarrow> None
     | Some r \<Rightarrow> map_option (\<lambda>n. 14 + n) (case self_closed r of Some n \<Rightarrow> Some n | None \<Rightarrow> until_close r))"

text \<open>The replacement of every match; the counter is what is left of the current one.\<close>

fun strip_from :: "nat \<Rightarrow> string \<Rightarrow> string" where
  "strip_from k [] = []"
| "strip_from (Suc k) (c # s) = strip_from k s"
| "strip_from 0 (c # s) = (case foreign_length (c # s) of Some n \<Rightarrow> strip_from (n - 1) s | None \<Rightarrow> c # strip_from 0 s)"

definition strip_foreign_objects :: "string \<Rightarrow> string" where
  "strip_foreign_objects s = strip_from 0 s"

definition PNG_SIGNATURE :: "nat list" where
  "PNG_SIGNATURE = [137, 80, 78, 71, 13, 10, 26, 10]"

text \<open>The ASCII decoding of a Buffer drops the high bit of each byte.\<close>

definition png_width :: "string \<Rightarrow> nat option" where
  "png_width s = (let b = map (of_char :: char \<Rightarrow> nat) s in
     if length b < 24 then None
     else if take 8 b \<noteq> PNG_SIGNATURE then None
     else if map (\<lambda>n. n mod 128) (take 4 (drop 12 b)) \<noteq> map of_char ''IHDR'' then None
     else Some (foldl (\<lambda>w n. w * 256 + n) 0 (take 4 (drop 16 b))))"

section \<open>fetchImage\<close>

record favicon_image =
  fi_body :: string
  fi_type :: string

record http_reply =
  hr_type :: "string option"
  hr_body :: string

definition SERVICE_MIN_WIDTH :: nat where "SERVICE_MIN_WIDTH = 17"

definition fetch_image :: "(string \<Rightarrow> http_reply option) \<Rightarrow> favicon_candidate \<Rightarrow> favicon_image option" where
  "fetch_image get c =
     (case get (fc_url c) of None \<Rightarrow> None
      | Some r \<Rightarrow> let t = to_lower (trim (hd (split_on (CHR '';'') (coalesce (hr_type r) [])))) in
          if \<not> starts_with ''image/'' t then None
          else if hr_body r = [] then None
          else let body = (if t = ''image/svg+xml'' then strip_foreign_objects (hr_body r) else hr_body r) in
            if fc_service c \<and> coalesce (png_width body) SERVICE_MIN_WIDTH < SERVICE_MIN_WIDTH then None
            else Some \<lparr> fi_body = body, fi_type = t \<rparr>)"

section \<open>The cache\<close>

record cache_entry =
  ce_image :: "favicon_image option"
  ce_expires :: ms

definition POSITIVE_TTL_MS :: ms where "POSITIVE_TTL_MS = 24 * 60 * 60 * 1000"
definition NEGATIVE_TTL_MS :: ms where "NEGATIVE_TTL_MS = 60 * 60 * 1000"
definition MAX_ENTRIES :: nat where "MAX_ENTRIES = 256"

text \<open>A load in flight reads its entity, or waits for the first of the addresses it has left.\<close>

datatype load_phase = Reading | Fetching "favicon_candidate list"

record favicons =
  fv_cache :: "(string \<times> cache_entry) list"
  fv_pending :: "(string \<times> load_phase) list"

fun evict :: "(string \<times> cache_entry) list \<Rightarrow> (string \<times> cache_entry) list" where
  "evict [] = []"
| "evict (e # c) = (if MAX_ENTRIES \<le> length (e # c) then evict c else e # c)"

definition store_icon :: "string \<Rightarrow> favicon_image option \<Rightarrow> ms \<Rightarrow> ms \<Rightarrow> favicons \<Rightarrow> favicons" where
  "store_icon key icon ttl now st =
     st \<lparr> fv_cache := mset_to key \<lparr> ce_image = icon, ce_expires = now + ttl \<rparr> (evict (mdrop key (fv_cache st))) \<rparr>"

definition invalidate_icon :: "string \<Rightarrow> favicons \<Rightarrow> favicons" where
  "invalidate_icon key st = st \<lparr> fv_cache := mdrop key (fv_cache st) \<rparr>"

definition provider_key :: "uuid \<Rightarrow> string" where "provider_key u = ''provider:'' @ u"
definition project_key :: "uuid \<Rightarrow> string" where "project_key u = ''project:'' @ u"

definition provider_source :: "db \<Rightarrow> uuid \<Rightarrow> favicon_source option" where
  "provider_source d u = map_option (\<lambda>p. \<lparr> fs_link = pv_favicon p, fs_login = pv_login_url p \<rparr>) (find_provider d u)"

definition project_source :: "db \<Rightarrow> uuid \<Rightarrow> favicon_source option" where
  "project_source d u = map_option (\<lambda>p. \<lparr> fs_link = pj_favicon p, fs_login = None \<rparr>) (row_find pj_uuid u (projects d))"

datatype icon_reply = Served "favicon_image option" | Waits

definition resolve_icon :: "string \<Rightarrow> ms \<Rightarrow> favicons \<Rightarrow> favicons \<times> icon_reply" where
  "resolve_icon key now st =
     (case mget (fv_cache st) key of
        Some hit \<Rightarrow> if now < ce_expires hit then (st, Served (ce_image hit))
          else (case mget (fv_pending st) key of Some p \<Rightarrow> (st, Waits)
             | None \<Rightarrow> (st \<lparr> fv_pending := mset_to key Reading (fv_pending st) \<rparr>, Waits))
      | None \<Rightarrow> (case mget (fv_pending st) key of Some p \<Rightarrow> (st, Waits)
             | None \<Rightarrow> (st \<lparr> fv_pending := mset_to key Reading (fv_pending st) \<rparr>, Waits)))"

section \<open>The steps of a load\<close>

definition settle :: "string \<Rightarrow> favicons \<Rightarrow> favicons" where
  "settle key st = st \<lparr> fv_pending := mdrop key (fv_pending st) \<rparr>"

definition try_next :: "string \<Rightarrow> favicon_candidate list \<Rightarrow> ms \<Rightarrow> favicons \<Rightarrow> favicons" where
  "try_next key left now st =
     (if left = [] then settle key (store_icon key None NEGATIVE_TTL_MS now st)
      else st \<lparr> fv_pending := mset_to key (Fetching left) (fv_pending st) \<rparr>)"

text \<open>The entity was read (Left: the read was rejected), and an address has answered.\<close>

definition source_read :: "(string \<Rightarrow> web_url option) \<Rightarrow> string \<Rightarrow> string + favicon_source option \<Rightarrow> ms \<Rightarrow> favicons \<Rightarrow> favicons" where
  "source_read url key res now st =
     (if mget (fv_pending st) key \<noteq> Some Reading then st
      else case res of Inl e \<Rightarrow> settle key st
        | Inr None \<Rightarrow> settle key st
        | Inr (Some src) \<Rightarrow> try_next key (build_candidates url src) now st)"

definition image_fetched :: "string \<Rightarrow> favicon_image option \<Rightarrow> ms \<Rightarrow> favicons \<Rightarrow> favicons" where
  "image_fetched key icon now st =
     (case mget (fv_pending st) key of
        Some (Fetching (c # left)) \<Rightarrow> (case icon of
            Some i \<Rightarrow> settle key (store_icon key (Some i) POSITIVE_TTL_MS now st)
          | None \<Rightarrow> try_next key left now st)
      | _ \<Rightarrow> st)"

datatype icon_event =
    Asked string
  | Source_read string "string + favicon_source option"
  | Fetched string "favicon_image option"
  | Invalidated string

fun icon_step :: "(string \<Rightarrow> web_url option) \<Rightarrow> favicons \<Rightarrow> ms \<times> icon_event \<Rightarrow> favicons" where
  "icon_step url st (now, Asked key) = fst (resolve_icon key now st)"
| "icon_step url st (now, Source_read key res) = source_read url key res now st"
| "icon_step url st (now, Fetched key icon) = image_fetched key icon now st"
| "icon_step url st (now, Invalidated key) = invalidate_icon key st"

definition no_icons :: favicons where "no_icons = \<lparr> fv_cache = [], fv_pending = [] \<rparr>"

definition icon_run :: "(string \<Rightarrow> web_url option) \<Rightarrow> (ms \<times> icon_event) list \<Rightarrow> favicons" where
  "icon_run url evs = foldl (icon_step url) no_icons evs"

section \<open>Lemmas\<close>

lemma mset_to_new: "k \<notin> fst ` set m \<Longrightarrow> mset_to k v m = m @ [(k, v)]"
  by (induction m) (auto simp: mset_to_def)

lemma evict_suffix: "\<exists>a. c = a @ evict c"
proof (induction c)
  case (Cons e c)
  then obtain a where "c = a @ evict c" ..
  then have "e # c = (e # a) @ evict c" by simp
  then show ?case by (metis append_Nil evict.simps(2))
qed simp

lemma evict_bound: "length (evict c) < MAX_ENTRIES"
  by (induction c) (simp_all add: MAX_ENTRIES_def)

lemma evict_keys: "fst ` set (evict c) \<subseteq> fst ` set c"
  using evict_suffix [of c] by (metis Un_upper2 image_Un set_append)

lemma evict_distinct: "distinct (map fst c) \<Longrightarrow> distinct (map fst (evict c))"
  using evict_suffix [of c] by (metis distinct_append map_append)

lemma evict_mget: "distinct (map fst c) \<Longrightarrow> mget (evict c) k = Some e \<Longrightarrow> mget c k = Some e"
proof -
  assume d: "distinct (map fst c)" and m: "mget (evict c) k = Some e"
  obtain a where a: "c = a @ evict c" using evict_suffix by blast
  have "(k, e) \<in> set (evict c)" using m by (simp add: mget_def map_of_SomeD)
  then have "(k, e) \<in> set c" using a by (metis Un_iff set_append)
  then show ?thesis using d by (rule mget_of_mem [rotated])
qed

text \<open>What a store leaves: the evicted rest with the new entry last.\<close>

lemma store_cache:
  "fv_cache (store_icon key icon ttl now st) = evict (mdrop key (fv_cache st)) @ [(key, \<lparr> ce_image = icon, ce_expires = now + ttl \<rparr>)]"
proof -
  have "key \<notin> fst ` set (evict (mdrop key (fv_cache st)))" using evict_keys [of "mdrop key (fv_cache st)"] by auto
  then show ?thesis by (simp add: store_icon_def mset_to_new)
qed

lemma store_pending [simp]: "fv_pending (store_icon key icon ttl now st) = fv_pending st"
  by (simp add: store_icon_def)

lemma store_mget:
  assumes "distinct (map fst (fv_cache st))" "mget (fv_cache (store_icon key icon ttl now st)) k = Some e"
  shows "if k = key then e = \<lparr> ce_image = icon, ce_expires = now + ttl \<rparr> else mget (fv_cache st) k = Some e"
proof (cases "k = key")
  case True
  then show ?thesis using assms(2) by (simp add: store_icon_def)
next
  case False
  then have "mget (evict (mdrop key (fv_cache st))) k = Some e" using assms(2) by (simp add: store_icon_def)
  from evict_mget [OF _ this] show ?thesis using assms(1) False by simp
qed

section \<open>Addresses\<close>

lemma push_length: "length (push_candidate out c) \<le> length out + (if c = None then 0 else 1)"
  by (auto simp: push_candidate_def split: option.split)

lemma push_distinct: "distinct (map fc_url out) \<Longrightarrow> distinct (map fc_url (push_candidate out c))"
  by (auto simp: push_candidate_def list_ex_iff split: option.split)

lemma push_set: "c' \<in> set (push_candidate out c) \<Longrightarrow> c' \<in> set out \<or> c = Some c'"
  by (auto simp: push_candidate_def split: option.splits if_splits)

lemma hosts_length:
  "length (candidate_hosts link login) \<le> (case link of None \<Rightarrow> 1 | Some l \<Rightarrow> 2)"
  by (auto simp: candidate_hosts_def split: option.split)

lemma hosts_pushed:
  "length (foldl (\<lambda>out h. push_candidate (push_candidate out (Some (s2 h))) (s2_root h)) out hs) \<le> length out + 2 * length hs"
proof (induction hs arbitrary: out)
  case (Cons h hs)
  have "length (push_candidate (push_candidate out (Some (s2 h))) (s2_root h)) \<le> length out + 2"
    using push_length [of out "Some (s2 h)"] push_length [of "push_candidate out (Some (s2 h))" "s2_root h"] by (simp split: if_splits)
  then show ?case using Cons [of "push_candidate (push_candidate out (Some (s2 h))) (s2_root h)"] by simp
qed simp

lemma candidates_length: "length (build_candidates url src) \<le> 5"
proof -
  let ?link = "parse_http_url url (fs_link src)"
  have "length (candidate_hosts ?link (parse_http_url url (fs_login src))) \<le> 2"
    using hosts_length [of ?link "parse_http_url url (fs_login src)"] by (simp split: option.splits)
  then show ?thesis
    unfolding build_candidates_def Let_def
    by (intro order_trans [OF hosts_pushed]) (auto simp: push_candidate_def split: option.split)
qed

lemma candidates_distinct: "distinct (map fc_url (build_candidates url src))"
  unfolding build_candidates_def Let_def
  by (rule foldl_inv [where I = "\<lambda>out. distinct (map fc_url out)"])
    (simp add: push_candidate_def split: option.split, intro push_distinct)

text \<open>What Google is told: a scheme with the host of the link or the login address, or its parent domain.\<close>

lemma candidates_service:
  assumes "c \<in> set (build_candidates url src)" "fc_service c"
  shows "\<exists>u \<in> set_option (parse_http_url url (fs_link src)) \<union> set_option (parse_http_url url (fs_login src)).
    fc_url c = S2_PREFIX @ wu_protocol u @ ''//'' @ wu_host u \<or>
    fc_url c = S2_PREFIX @ wu_protocol u @ ''//'' @ join_with ''.'' (tl (split_on (CHR ''.'') (wu_hostname u)))"
    (is "?Q c")
proof -
  let ?link = "parse_http_url url (fs_link src)" and ?login = "parse_http_url url (fs_login src)"
  have hosts: "h \<in> set_option ?link \<union> set_option ?login" if "h \<in> set (candidate_hosts ?link ?login)" for h
    using that by (auto simp: candidate_hosts_def split: option.splits if_splits)
  let ?P = "\<lambda>out. \<forall>c \<in> set out. fc_service c \<longrightarrow> ?Q c"
  have "?P (push_candidate (push_candidate out (Some (s2 h))) (s2_root h))"
    if h: "h \<in> set (candidate_hosts ?link ?login)" and out: "?P out" for out h
  proof (intro ballI impI)
    fix c assume c: "c \<in> set (push_candidate (push_candidate out (Some (s2 h))) (s2_root h))" "fc_service c"
    have "c \<in> set out \<or> c = s2 h \<or> s2_root h = Some c" using push_set [OF c(1)] push_set by fastforce
    then show "?Q c"
    proof (elim disjE)
      assume "s2_root h = Some c"
      then show ?thesis using hosts [OF h] by (intro bexI [of _ h]) (auto simp: s2_root_def Let_def split: if_splits)
    next
      assume "c = s2 h"
      then show ?thesis using hosts [OF h] by (intro bexI [of _ h]) (auto simp: s2_def)
    qed (use out c(2) in blast)
  qed
  then have "?P (build_candidates url src)"
    unfolding build_candidates_def Let_def
    by (intro foldl_inv [where I = ?P]) (auto simp: push_candidate_def split: option.split)
  then show ?thesis using assms by blast
qed

section \<open>The invariant\<close>

definition phase_ok :: "load_phase \<Rightarrow> bool" where
  "phase_ok p = (case p of Reading \<Rightarrow> True | Fetching l \<Rightarrow> l \<noteq> [] \<and> length l \<le> 5)"

definition icons_ok :: "favicons \<Rightarrow> bool" where
  "icons_ok st = (distinct (map fst (fv_cache st)) \<and> distinct (map fst (fv_pending st)) \<and> length (fv_cache st) \<le> MAX_ENTRIES \<and>
     (\<forall>k p. mget (fv_pending st) k = Some p \<longrightarrow> phase_ok p))"

lemma store_ok: "icons_ok st \<Longrightarrow> icons_ok (store_icon key icon ttl now st)"
proof -
  assume ok: "icons_ok st"
  then have "distinct (map fst (fv_cache (store_icon key icon ttl now st)))"
    by (simp add: icons_ok_def store_icon_def evict_distinct)
  moreover have "length (fv_cache (store_icon key icon ttl now st)) \<le> MAX_ENTRIES"
    using evict_bound [of "mdrop key (fv_cache st)"] by (simp add: store_cache)
  ultimately show ?thesis using ok by (simp add: icons_ok_def)
qed

lemma settle_ok: "icons_ok st \<Longrightarrow> icons_ok (settle key st)"
  by (auto simp: icons_ok_def settle_def split: if_splits)

lemma next_ok: "icons_ok st \<Longrightarrow> length left \<le> 5 \<Longrightarrow> icons_ok (try_next key left now st)"
  using settle_ok [OF store_ok] by (auto simp: try_next_def icons_ok_def phase_ok_def split: if_splits)

lemma resolve_ok: "icons_ok st \<Longrightarrow> icons_ok (fst (resolve_icon key now st))"
  by (auto simp: resolve_icon_def icons_ok_def phase_ok_def split: option.splits if_splits)

lemma source_ok: "icons_ok st \<Longrightarrow> icons_ok (source_read url key res now st)"
  by (auto simp: source_read_def intro: settle_ok next_ok candidates_length split: sum.split option.split)

lemma fetched_ok: "icons_ok st \<Longrightarrow> icons_ok (image_fetched key icon now st)"
proof -
  assume ok: "icons_ok st"
  have "length left \<le> 5" if "mget (fv_pending st) key = Some (Fetching (c # left))" for c left
    using ok that unfolding icons_ok_def phase_ok_def by fastforce
  then show ?thesis using ok
    by (auto simp: image_fetched_def intro: settle_ok store_ok next_ok split: option.split load_phase.split list.split)
qed

lemma length_mdrop: "length (mdrop k m) \<le> length m"
  by (simp add: mdrop_def)

lemma invalidate_ok: "icons_ok st \<Longrightarrow> icons_ok (invalidate_icon key st)"
  using length_mdrop [of key "fv_cache st"] by (simp add: icons_ok_def invalidate_icon_def)

lemma icon_step_ok: "icons_ok st \<Longrightarrow> icons_ok (icon_step url st e)"
  by (induction url st e rule: icon_step.induct) (simp_all add: resolve_ok source_ok fetched_ok invalidate_ok)

lemma icon_run_snoc: "icon_run url (evs @ [e]) = icon_step url (icon_run url evs) e"
  by (simp add: icon_run_def)

lemma icon_run_ok: "icons_ok (icon_run url evs)"
  by (induction evs rule: rev_induct)
    (simp_all add: icon_run_snoc icon_step_ok, simp add: icon_run_def no_icons_def icons_ok_def)

section \<open>Where an icon comes from\<close>

fun answers :: "string \<Rightarrow> (ms \<times> icon_event) list \<Rightarrow> favicon_image option list" where
  "answers key [] = []"
| "answers key ((t, Fetched k i) # evs) = (if k = key then i # answers key evs else answers key evs)"
| "answers key ((t, Asked k) # evs) = answers key evs"
| "answers key ((t, Source_read k r) # evs) = answers key evs"
| "answers key ((t, Invalidated k) # evs) = answers key evs"

lemma answers_append: "answers key (a @ b) = answers key a @ answers key b"
  by (induction key a rule: answers.induct) simp_all

text \<open>
  A load that waits for an address has read a source and got no icon from the addresses before; an
  entry was made by the last event of a load, with no invalidation after it.
\<close>

definition loading :: "(string \<Rightarrow> web_url option) \<Rightarrow> (ms \<times> icon_event) list \<Rightarrow> string \<Rightarrow> favicon_candidate list \<Rightarrow> bool" where
  "loading url evs key left = (\<exists>A t src B n. evs = A @ (t, Source_read key (Inr (Some src))) # B \<and>
     answers key B = replicate n None \<and> left = drop n (build_candidates url src) \<and> n < length (build_candidates url src))"

definition found :: "string \<Rightarrow> nat \<Rightarrow> (ms \<times> icon_event) list \<Rightarrow> cache_entry \<Rightarrow> bool" where
  "found key m B e = (case ce_image e of
     None \<Rightarrow> answers key (tl B) = replicate m None \<and> ce_expires e = fst (last B) + NEGATIVE_TTL_MS
   | Some i \<Rightarrow> (\<exists>n C t. n < m \<and> tl B = C @ [(t, Fetched key (Some i))] \<and> answers key C = replicate n None \<and> ce_expires e = t + POSITIVE_TTL_MS))"

definition origin :: "(string \<Rightarrow> web_url option) \<Rightarrow> (ms \<times> icon_event) list \<Rightarrow> string \<Rightarrow> cache_entry \<Rightarrow> bool" where
  "origin url evs key e = (\<exists>A t src B D. evs = A @ ((t, Source_read key (Inr (Some src))) # B) @ D \<and>
     Invalidated key \<notin> snd ` set D \<and>
     found key (length (build_candidates url src)) ((t, Source_read key (Inr (Some src))) # B) e)"

lemma originI:
  "evs = A @ (t, Source_read key (Inr (Some src))) # B \<Longrightarrow>
   found key (length (build_candidates url src)) ((t, Source_read key (Inr (Some src))) # B) e \<Longrightarrow> origin url evs key e"
  unfolding origin_def by (metis append_Nil2 append_Cons empty_iff image_empty list.set(1))

lemma origin_snoc: "origin url evs key e \<Longrightarrow> snd ev \<noteq> Invalidated key \<Longrightarrow> origin url (evs @ [ev]) key e"
proof -
  assume "origin url evs key e" and ev: "snd ev \<noteq> Invalidated key"
  then obtain A t src B D where D: "evs = A @ ((t, Source_read key (Inr (Some src))) # B) @ D" "Invalidated key \<notin> snd ` set D"
      "found key (length (build_candidates url src)) ((t, Source_read key (Inr (Some src))) # B) e"
    unfolding origin_def by blast
  have "evs @ [ev] = A @ ((t, Source_read key (Inr (Some src))) # B) @ (D @ [ev])" "Invalidated key \<notin> snd ` set (D @ [ev])"
    using D(1,2) ev by auto
  then show ?thesis using D(3) unfolding origin_def by blast
qed

lemma loading_snoc: "loading url evs key left \<Longrightarrow> answers key [ev] = [] \<Longrightarrow> loading url (evs @ [ev]) key left"
proof -
  assume "loading url evs key left" and ev: "answers key [ev] = []"
  then obtain A t src B n where B: "evs = A @ (t, Source_read key (Inr (Some src))) # B" "answers key B = replicate n None"
      "left = drop n (build_candidates url src)" "n < length (build_candidates url src)"
    unfolding loading_def by blast
  have "evs @ [ev] = A @ (t, Source_read key (Inr (Some src))) # (B @ [ev])" "answers key (B @ [ev]) = replicate n None"
    using B(1,2) ev by (simp_all add: answers_append)
  then show ?thesis using B(3,4) unfolding loading_def by blast
qed

lemma loading_start:
  "build_candidates url src \<noteq> [] \<Longrightarrow> loading url (evs @ [(t, Source_read key (Inr (Some src)))]) key (build_candidates url src)"
  unfolding loading_def by (intro exI [of _ evs] exI [of _ t] exI [of _ src] exI [of _ "[]"] exI [of _ 0]) simp

lemma origin_empty:
  "build_candidates url src = [] \<Longrightarrow>
   origin url (evs @ [(t, Source_read key (Inr (Some src)))]) key \<lparr> ce_image = None, ce_expires = t + NEGATIVE_TTL_MS \<rparr>"
  by (rule originI [of _ evs t _ src "[]"]) (simp_all add: found_def)

lemma loading_next:
  assumes "loading url evs key (c # left)"
  shows "left \<noteq> [] \<Longrightarrow> loading url (evs @ [(t, Fetched key None)]) key left"
    and "left = [] \<Longrightarrow> origin url (evs @ [(t, Fetched key None)]) key \<lparr> ce_image = None, ce_expires = t + NEGATIVE_TTL_MS \<rparr>"
    and "origin url (evs @ [(t, Fetched key (Some i))]) key \<lparr> ce_image = Some i, ce_expires = t + POSITIVE_TTL_MS \<rparr>"
proof -
  obtain A u src B n where B: "evs = A @ (u, Source_read key (Inr (Some src))) # B" "answers key B = replicate n None"
      "c # left = drop n (build_candidates url src)" "n < length (build_candidates url src)"
    using assms unfolding loading_def by blast
  have d: "left = drop (Suc n) (build_candidates url src)" using B(3) by (metis drop_Suc tl_drop list.sel(3))
  have e: "evs @ [(t, Fetched key r)] = A @ (u, Source_read key (Inr (Some src))) # (B @ [(t, Fetched key r)])" for r
    using B(1) by simp
  have a: "answers key (B @ [(t, Fetched key None)]) = replicate (Suc n) None"
    "answers key (B @ [(t, Fetched key (Some i))]) = replicate n None @ [Some i]"
    using B(2) by (simp_all add: answers_append replicate_append_same)
  show "left \<noteq> [] \<Longrightarrow> loading url (evs @ [(t, Fetched key None)]) key left"
    unfolding loading_def using e [of None] a(1) d by (metis drop_eq_Nil linorder_not_le)
  show "origin url (evs @ [(t, Fetched key (Some i))]) key \<lparr> ce_image = Some i, ce_expires = t + POSITIVE_TTL_MS \<rparr>"
    by (rule originI [OF e]) (use B(2,4) in \<open>simp add: found_def\<close>)
  assume l: "left = []"
  then have "length (build_candidates url src) = Suc n" using d B(4) by (simp add: Suc_leI le_antisym)
  then show "origin url (evs @ [(t, Fetched key None)]) key \<lparr> ce_image = None, ce_expires = t + NEGATIVE_TTL_MS \<rparr>"
    by (intro originI [OF e]) (use a(1) in \<open>simp add: found_def\<close>)
qed

definition traced :: "(string \<Rightarrow> web_url option) \<Rightarrow> (ms \<times> icon_event) list \<Rightarrow> favicons \<Rightarrow> bool" where
  "traced url evs st = ((\<forall>key e. mget (fv_cache st) key = Some e \<longrightarrow> origin url evs key e) \<and>
     (\<forall>key left. mget (fv_pending st) key = Some (Fetching left) \<longrightarrow> loading url evs key left))"

lemma traced_store:
  assumes "traced url evs st" "icons_ok st" "snd ev \<noteq> Invalidated key" "\<And>k. k \<noteq> key \<Longrightarrow> answers k [ev] = [] \<and> snd ev \<noteq> Invalidated k"
    and "origin url (evs @ [ev]) key \<lparr> ce_image = icon, ce_expires = now + ttl \<rparr>"
  shows "traced url (evs @ [ev]) (settle key (store_icon key icon ttl now st))"
  unfolding traced_def
proof (intro conjI allI impI)
  fix k e assume m: "mget (fv_cache (settle key (store_icon key icon ttl now st))) k = Some e"
  then have m': "mget (fv_cache (store_icon key icon ttl now st)) k = Some e" by (simp add: settle_def)
  have d: "distinct (map fst (fv_cache st))" using assms(2) by (simp add: icons_ok_def)
  show "origin url (evs @ [ev]) k e"
  proof (cases "k = key")
    case True
    then show ?thesis using store_mget [OF d m'] assms(5) by simp
  next
    case False
    then have "origin url evs k e" using store_mget [OF d m'] assms(1) by (simp add: traced_def)
    then show ?thesis using assms(4) False by (intro origin_snoc) auto
  qed
next
  fix k left assume "mget (fv_pending (settle key (store_icon key icon ttl now st))) k = Some (Fetching left)"
  then have "k \<noteq> key" "mget (fv_pending st) k = Some (Fetching left)" by (auto simp: settle_def split: if_splits)
  then show "loading url (evs @ [ev]) k left" using assms(1,4) by (intro loading_snoc) (auto simp: traced_def)
qed

lemma traced_advance:
  assumes "traced url evs st" "\<And>k. snd ev \<noteq> Invalidated k" "\<And>k. k \<noteq> key \<Longrightarrow> answers k [ev] = []"
    and "loading url (evs @ [ev]) key left"
  shows "traced url (evs @ [ev]) (st \<lparr> fv_pending := mset_to key (Fetching left) (fv_pending st) \<rparr>)"
  using assms unfolding traced_def
  by simp (metis origin_snoc loading_snoc load_phase.inject option.inject)

lemma traced_settle:
  assumes "traced url evs st" "\<And>k. snd ev \<noteq> Invalidated k" "\<And>k. k \<noteq> key \<Longrightarrow> answers k [ev] = []"
  shows "traced url (evs @ [ev]) (settle key st)"
  using assms unfolding traced_def settle_def
  by simp (metis origin_snoc loading_snoc)

lemma traced_ignored:
  assumes "traced url evs st" "\<And>k. snd ev \<noteq> Invalidated k"
    and "\<And>k left. mget (fv_pending st) k = Some (Fetching left) \<Longrightarrow> answers k [ev] = []"
  shows "traced url (evs @ [ev]) st"
  using assms unfolding traced_def by (metis origin_snoc loading_snoc)

lemma traced_source:
  assumes "traced url evs st" "icons_ok st"
  shows "traced url (evs @ [(t, Source_read key res)]) (source_read url key res t st)"
proof (cases "mget (fv_pending st) key = Some Reading")
  case False
  then have "source_read url key res t st = st" by (simp add: source_read_def)
  then show ?thesis using assms by (simp add: traced_ignored)
next
  case True
  show ?thesis
  proof (cases res)
    case (Inl e)
    then show ?thesis using True assms by (simp add: source_read_def traced_settle)
  next
    case (Inr r)
    show ?thesis
    proof (cases r)
      case None
      then show ?thesis using True Inr assms by (simp add: source_read_def traced_settle)
    next
      case (Some src)
      then have "source_read url key res t st = try_next key (build_candidates url src) t st" using True Inr by (simp add: source_read_def)
      then show ?thesis using assms Inr Some
        by (auto simp: try_next_def intro!: traced_store traced_advance origin_empty loading_start)
    qed
  qed
qed

lemma traced_fetched:
  assumes "traced url evs st" "icons_ok st"
  shows "traced url (evs @ [(t, Fetched key icon)]) (image_fetched key icon t st)"
proof (cases "\<exists>c left. mget (fv_pending st) key = Some (Fetching (c # left))")
  case False
  have "l \<noteq> []" if "mget (fv_pending st) key = Some (Fetching l)" for l
    using assms(2) that by (fastforce simp: icons_ok_def phase_ok_def)
  then have n: "mget (fv_pending st) key \<noteq> Some (Fetching l)" for l using False by (metis neq_Nil_conv)
  then have "image_fetched key icon t st = st" by (auto simp: image_fetched_def split: option.split load_phase.split list.split)
  moreover have "traced url (evs @ [(t, Fetched key icon)]) st"
    by (rule traced_ignored [OF assms(1)]) (use n in auto)
  ultimately show ?thesis by simp
next
  case True
  then obtain c left where p: "mget (fv_pending st) key = Some (Fetching (c # left))" by blast
  then have l: "loading url evs key (c # left)" using assms(1) by (simp add: traced_def)
  show ?thesis using p assms loading_next [OF l]
    by (cases icon) (auto simp: image_fetched_def try_next_def intro!: traced_store traced_advance)
qed

lemma traced_resolve: "traced url evs st \<Longrightarrow> traced url (evs @ [(t, Asked key)]) (fst (resolve_icon key t st))"
proof -
  assume tr: "traced url evs st"
  let ?new = "st \<lparr> fv_pending := mset_to key Reading (fv_pending st) \<rparr>"
  have "traced url (evs @ [(t, Asked key)]) st" using tr by (intro traced_ignored) auto
  moreover from this have "traced url (evs @ [(t, Asked key)]) ?new" by (auto simp: traced_def split: if_splits)
  moreover have "fst (resolve_icon key t st) \<in> {st, ?new}" by (simp add: resolve_icon_def split: option.split)
  ultimately show ?thesis by auto
qed

lemma traced_invalidate: "traced url evs st \<Longrightarrow> traced url (evs @ [(t, Invalidated key)]) (invalidate_icon key st)"
  by (auto simp: traced_def invalidate_icon_def intro: origin_snoc loading_snoc split: if_splits)

lemma icon_run_traced: "traced url evs (icon_run url evs)"
proof (induction evs rule: rev_induct)
  case Nil
  then show ?case by (simp add: icon_run_def no_icons_def traced_def)
next
  case (snoc ev evs)
  obtain t e where "ev = (t, e)" by (cases ev)
  then show ?case using snoc icon_run_ok [of url evs]
    by (cases e) (simp_all add: icon_run_snoc traced_source traced_fetched traced_resolve traced_invalidate)
qed

section \<open>How long an entry stays\<close>

text \<open>The entries stored after the one of a key; a store evicts the head when 256 are there.\<close>

definition newer :: "string \<Rightarrow> (string \<times> 'v) list \<Rightarrow> nat" where
  "newer key c = length (dropWhile (\<lambda>e. fst e \<noteq> key) c) - 1"

lemma newer_split: "key \<notin> fst ` set a \<Longrightarrow> newer key (a @ (key, e) # b) = length b"
proof -
  assume "key \<notin> fst ` set a"
  then have "dropWhile (\<lambda>e. fst e \<noteq> key) (a @ (key, e) # b) = (key, e) # b" by (subst dropWhile_append2) auto
  then show ?thesis by (simp add: newer_def)
qed

lemma split_at_key: "mget m key = Some e \<Longrightarrow> \<exists>a b. m = a @ (key, e) # b \<and> key \<notin> fst ` set a"
proof (induction m)
  case (Cons x m)
  show ?case
  proof (cases "fst x = key")
    case True
    then have "x # m = [] @ (key, e) # m" using Cons.prems by (cases x) (simp add: mget_Cons)
    then show ?thesis by (metis empty_iff image_empty list.set(1))
  next
    case False
    then obtain a b where "m = a @ (key, e) # b" "key \<notin> fst ` set a"
      using Cons by (cases x) (auto simp: mget_Cons)
    then have "x # m = (x # a) @ (key, e) # b" "key \<notin> fst ` set (x # a)" using False by auto
    then show ?thesis by blast
  qed
qed simp

lemma mget_split: "key \<notin> fst ` set a \<Longrightarrow> mget (a @ (key, e) # b) key = Some e"
  by (induction a) (auto simp: mget_Cons split: prod.splits)

lemma evict_keeps:
  "length b < 255 \<Longrightarrow> key \<notin> fst ` set a \<Longrightarrow> \<exists>a'. evict (a @ (key, e) # b) = a' @ (key, e) # b \<and> key \<notin> fst ` set a'"
proof (induction a)
  case Nil
  then show ?case by (simp add: MAX_ENTRIES_def)
next
  case (Cons x a)
  then have "\<exists>a'. evict (a @ (key, e) # b) = a' @ (key, e) # b \<and> key \<notin> fst ` set a'" by simp
  moreover have "\<exists>a'. x # a @ (key, e) # b = a' @ (key, e) # b \<and> key \<notin> fst ` set a'"
    using Cons.prems(2) by (intro exI [of _ "x # a"]) auto
  ultimately show ?case by simp
qed

lemma store_other:
  assumes "key' \<noteq> key" "mget (fv_cache st) key = Some e" "newer key (fv_cache st) < 255"
  shows "mget (fv_cache (store_icon key' icon ttl now st)) key = Some e \<and>
    newer key (fv_cache (store_icon key' icon ttl now st)) \<le> newer key (fv_cache st) + 1"
proof -
  obtain a b where c: "fv_cache st = a @ (key, e) # b" "key \<notin> fst ` set a" using split_at_key [OF assms(2)] by blast
  let ?b = "mdrop key' b"
  have m: "mdrop key' (fv_cache st) = mdrop key' a @ (key, e) # ?b" using c(1) assms(1) by (simp add: mdrop_def)
  have b: "length ?b \<le> length b" "key \<notin> fst ` set (mdrop key' a)" using length_mdrop c(2) by simp_all
  have "length ?b < 255" using assms(3) b(1) unfolding c(1) newer_split [OF c(2)] by simp
  from evict_keeps [OF this b(2), of e] obtain a'
    where a': "evict (mdrop key' a @ (key, e) # ?b) = a' @ (key, e) # ?b" "key \<notin> fst ` set a'" by blast
  have s: "fv_cache (store_icon key' icon ttl now st) = a' @ (key, e) # (?b @ [(key', \<lparr> ce_image = icon, ce_expires = now + ttl \<rparr>)])"
    unfolding store_cache m a'(1) by simp
  show ?thesis unfolding s newer_split [OF a'(2)] mget_split [OF a'(2)] unfolding c(1) newer_split [OF c(2)] using b(1) by simp
qed

text \<open>The events that can store an entry of another key.\<close>

fun other_load :: "string \<Rightarrow> ms \<times> icon_event \<Rightarrow> bool" where
  "other_load key (t, Source_read k r) = (k \<noteq> key)"
| "other_load key (t, Fetched k i) = (k \<noteq> key)"
| "other_load key e = False"

definition kept :: "string \<Rightarrow> cache_entry \<Rightarrow> nat \<Rightarrow> favicons \<Rightarrow> bool" where
  "kept key e n st = (mget (fv_cache st) key = Some e \<and> mget (fv_pending st) key = None \<and> newer key (fv_cache st) \<le> n)"

lemma kept_settle:
  "kept key e n st \<Longrightarrow> kept key e n (settle k st)"
  by (simp add: kept_def settle_def)

lemma kept_store: "kept key e n st \<Longrightarrow> n < 255 \<Longrightarrow> k \<noteq> key \<Longrightarrow> kept key e (Suc n) (store_icon k icon ttl now st)"
  using store_other [of k key st e icon ttl now] by (simp add: kept_def)

lemma kept_pending: "kept key e n st \<Longrightarrow> k \<noteq> key \<Longrightarrow> kept key e n (st \<lparr> fv_pending := mset_to k p (fv_pending st) \<rparr>)"
  by (simp add: kept_def)

lemma kept_more: "kept key e n st \<Longrightarrow> n \<le> m \<Longrightarrow> kept key e m st"
  by (auto simp: kept_def)

lemma kept_next: "kept key e n st \<Longrightarrow> n < 255 \<Longrightarrow> k \<noteq> key \<Longrightarrow> kept key e (Suc n) (try_next k left now st)"
  by (auto simp: try_next_def intro: kept_settle kept_store kept_more kept_pending)

lemma kept_load:
  assumes "kept key e n st" "n < 255" "k \<noteq> key"
  shows "kept key e (Suc n) (source_read url k r t st)" "kept key e (Suc n) (image_fetched k i t st)"
  using assms kept_more [OF assms(1), of "Suc n"]
  by (auto simp: source_read_def image_fetched_def intro: kept_settle kept_store kept_next
      split: sum.split option.split load_phase.split list.split)

lemma kept_unloaded: "kept key e n st \<Longrightarrow> source_read url key r t st = st" "kept key e n st \<Longrightarrow> image_fetched key i t st = st"
  by (simp_all add: kept_def source_read_def image_fetched_def)

lemma kept_resolve:
  assumes "kept key e n st" "k = key \<Longrightarrow> t < ce_expires e"
  shows "kept key e n (fst (resolve_icon k t st))"
proof (cases "k = key")
  case True
  then have "resolve_icon k t st = (st, Served (ce_image e))" using assms by (simp add: resolve_icon_def kept_def)
  then show ?thesis using assms(1) by simp
next
  case False
  have "fst (resolve_icon k t st) \<in> {st, st \<lparr> fv_pending := mset_to k Reading (fv_pending st) \<rparr>}"
    by (simp add: resolve_icon_def split: option.split)
  then show ?thesis using assms(1) kept_pending [OF assms(1) False] by auto
qed

lemma newer_drop: "k \<noteq> key \<Longrightarrow> mget m key = Some e \<Longrightarrow> newer key (mdrop k m) \<le> newer key m"
proof -
  assume k: "k \<noteq> key" and m: "mget m key = Some e"
  obtain a b where s: "m = a @ (key, e) # b" "key \<notin> fst ` set a" using split_at_key [OF m] by blast
  then have d: "mdrop k m = mdrop k a @ (key, e) # mdrop k b" "key \<notin> fst ` set (mdrop k a)" using k by (simp_all add: mdrop_def image_iff)
  show ?thesis unfolding d(1) newer_split [OF d(2)] unfolding s(1) newer_split [OF s(2)] by (rule length_mdrop)
qed

lemma kept_invalidate: "kept key e n st \<Longrightarrow> k \<noteq> key \<Longrightarrow> kept key e n (invalidate_icon k st)"
  using newer_drop [of k key "fv_cache st" e] by (simp add: kept_def invalidate_icon_def)

lemma kept_run:
  assumes "kept key e n st" "\<And>t. (t, Invalidated key) \<notin> set evs" "\<And>t. (t, Asked key) \<in> set evs \<Longrightarrow> t < ce_expires e"
    and "n + length (filter (other_load key) evs) \<le> 255"
  shows "kept key e (n + length (filter (other_load key) evs)) (foldl (icon_step url) st evs)"
  using assms
proof (induction evs arbitrary: st n)
  case (Cons ev evs)
  obtain t x where ev: "ev = (t, x)" by (cases ev)
  have "kept key e (n + (if other_load key ev then 1 else 0)) (icon_step url st ev)"
  proof (cases x)
    case (Asked k)
    then show ?thesis using Cons.prems ev by (auto intro: kept_resolve)
  next
    case (Source_read k r)
    then show ?thesis using Cons.prems(1,4) ev by (cases "k = key") (auto intro: kept_load simp: kept_unloaded)
  next
    case (Fetched k r)
    then show ?thesis using Cons.prems(1,4) ev by (cases "k = key") (auto intro: kept_load simp: kept_unloaded)
  next
    case (Invalidated k)
    then show ?thesis using Cons.prems ev by (cases "k = key") (auto intro: kept_invalidate)
  qed
  from Cons.IH [OF this] show ?case using Cons.prems by (auto split: if_splits)
qed simp

lemma fetched_found:
  assumes "mget (fv_pending st) key = Some (Fetching (c # left))"
  shows "kept key \<lparr> ce_image = Some i, ce_expires = t + POSITIVE_TTL_MS \<rparr> 0 (icon_step url st (t, Fetched key (Some i)))"
proof -
  let ?r = "evict (mdrop key (fv_cache st))"
  have k: "key \<notin> fst ` set ?r" using evict_keys [of "mdrop key (fv_cache st)"] by auto
  show ?thesis using assms mget_split [OF k, of _ "[]"] newer_split [OF k, of _ "[]"]
    by (simp add: image_fetched_def kept_def settle_def store_cache)
qed

section \<open>A load by itself\<close>

text \<open>The loop of load(), whose addresses all answer at one moment.\<close>

fun try_all :: "(favicon_candidate \<Rightarrow> favicon_image option) \<Rightarrow> string \<Rightarrow> favicon_candidate list \<Rightarrow> ms \<Rightarrow> favicons \<Rightarrow> favicons \<times> favicon_image option" where
  "try_all get key [] now st = (store_icon key None NEGATIVE_TTL_MS now st, None)"
| "try_all get key (c # cs) now st = (case get c of
     Some i \<Rightarrow> (store_icon key (Some i) POSITIVE_TTL_MS now st, Some i)
   | None \<Rightarrow> try_all get key cs now st)"

definition load_icon :: "(string \<Rightarrow> web_url option) \<Rightarrow> (favicon_candidate \<Rightarrow> favicon_image option) \<Rightarrow> string \<Rightarrow> favicon_source option \<Rightarrow> ms
    \<Rightarrow> favicons \<Rightarrow> favicons \<times> favicon_image option" where
  "load_icon url get key src now st = (case src of None \<Rightarrow> (st, None) | Some src \<Rightarrow> try_all get key (build_candidates url src) now st)"

text \<open>The answers the steps are given.\<close>

fun fetches :: "(favicon_candidate \<Rightarrow> favicon_image option) \<Rightarrow> string \<Rightarrow> favicon_candidate list \<Rightarrow> ms \<Rightarrow> (ms \<times> icon_event) list" where
  "fetches get key [] now = []"
| "fetches get key (c # cs) now = (now, Fetched key (get c)) # (if get c = None then fetches get key cs now else [])"

definition same_but_key :: "string \<Rightarrow> favicons \<Rightarrow> favicons \<Rightarrow> bool" where
  "same_but_key key a b = (fv_cache a = fv_cache b \<and> (\<forall>k. k \<noteq> key \<longrightarrow> mget (fv_pending a) k = mget (fv_pending b) k))"

lemma fetches_run:
  "cs \<noteq> [] \<Longrightarrow> mget (fv_pending st) key = Some (Fetching cs) \<Longrightarrow> same_but_key key st st0 \<Longrightarrow>
   let st' = foldl (icon_step url) st (fetches get key cs now) in
     same_but_key key st' (fst (try_all get key cs now st0)) \<and> mget (fv_pending st') key = None"
proof (induction cs arbitrary: st)
  case (Cons c cs)
  show ?case
  proof (cases "get c")
    case (Some i)
    then show ?thesis using Cons.prems by (simp add: image_fetched_def same_but_key_def settle_def store_icon_def)
  next
    case None
    show ?thesis
    proof (cases "cs = []")
      case True
      then show ?thesis using None Cons.prems by (simp add: image_fetched_def try_next_def same_but_key_def settle_def store_icon_def)
    next
      case False
      then have "icon_step url st (now, Fetched key (get c)) = st \<lparr> fv_pending := mset_to key (Fetching cs) (fv_pending st) \<rparr>"
        using None Cons.prems(2) by (simp add: image_fetched_def try_next_def)
      then show ?thesis using Cons.IH [OF False, of "st \<lparr> fv_pending := mset_to key (Fetching cs) (fv_pending st) \<rparr>"] None Cons.prems(3)
        by (simp add: same_but_key_def Let_def)
    qed
  qed
qed simp

text \<open>The steps of one load, when nothing comes between them, do what the loop of load() does.\<close>

theorem load_steps_refine:
  assumes "mget (fv_pending st) key = Some Reading"
  shows "\<exists>evs. let st' = foldl (icon_step url) st ((now, Source_read key (Inr src)) # evs) in
    same_but_key key st' (fst (load_icon url get key src now st)) \<and> mget (fv_pending st') key = None"
proof (cases src)
  case None
  then show ?thesis using assms
    by (intro exI [of _ "[]"]) (simp add: source_read_def settle_def load_icon_def same_but_key_def)
next
  case (Some s)
  let ?cs = "build_candidates url s" and ?st = "st \<lparr> fv_pending := mset_to key (Fetching (build_candidates url s)) (fv_pending st) \<rparr>"
  show ?thesis
  proof (cases "?cs = []")
    case True
    then show ?thesis using assms Some
      by (intro exI [of _ "[]"]) (simp add: source_read_def try_next_def settle_def load_icon_def same_but_key_def)
  next
    case False
    have "source_read url key (Inr src) now st = ?st" using assms Some False by (simp add: source_read_def try_next_def)
    then show ?thesis using fetches_run [OF False, of ?st key st url get now] Some
      by (intro exI [of _ "fetches get key ?cs now"]) (simp add: load_icon_def same_but_key_def Let_def)
  qed
qed

lemma try_all_first:
  "snd (try_all get key cs now st) = Option.bind (find (\<lambda>c. get c \<noteq> None) cs) get"
  by (induction cs) (auto split: option.split)

text \<open>What is accepted from an address.\<close>

theorem fetched_image_ok:
  assumes "fetch_image get c = Some i"
  shows "starts_with ''image/'' (fi_type i) \<and>
    (\<exists>r. get (fc_url c) = Some r \<and> fi_body i = (if fi_type i = ''image/svg+xml'' then strip_foreign_objects (hr_body r) else hr_body r)) \<and>
    (fc_service c \<longrightarrow> (\<forall>w. png_width (fi_body i) = Some w \<longrightarrow> 17 \<le> w))"
  using assms by (auto simp: fetch_image_def Let_def SERVICE_MIN_WIDTH_def not_less split: option.splits if_splits)

section \<open>Properties\<close>

definition page_url :: "string \<Rightarrow> web_url option" where
  "page_url s = Some \<lparr> wu_href = s, wu_protocol = ''https:'', wu_host = ''panel.example'', wu_hostname = ''panel.example'', wu_pathname = ''/'' \<rparr>"

definition linked :: favicon_source where "linked = \<lparr> fs_link = Some ''https://panel.example'', fs_login = None \<rparr>"

definition dot :: favicon_image where "dot = \<lparr> fi_body = ''.'', fi_type = ''image/png'' \<rparr>"

lemma linked_candidates: "build_candidates page_url linked = [\<lparr> fc_url = S2_PREFIX @ ''https://panel.example'', fc_service = True \<rparr>]"
  by code_simp

definition visit :: "(ms \<times> icon_event) list" where
  "visit = [(0, Asked ''project:a''), (1, Source_read ''project:a'' (Inr (Some linked)))]"

lemma visit_pending: "icon_run page_url visit = \<lparr> fv_cache = [], fv_pending = [(''project:a'', Fetching (build_candidates page_url linked))] \<rparr>"
  by (simp add: visit_def icon_run_def no_icons_def resolve_icon_def source_read_def try_next_def linked_candidates mset_to_def mget_def)

lemma visit_done:
  "icon_run page_url (visit @ [(2, Fetched ''project:a'' (Some dot))]) =
     \<lparr> fv_cache = [(''project:a'', \<lparr> ce_image = Some dot, ce_expires = 86400002 \<rparr>)], fv_pending = [] \<rparr>"
  unfolding icon_run_snoc visit_pending
  by (simp add: image_fetched_def linked_candidates settle_def store_icon_def mdrop_def mset_to_def mget_def POSITIVE_TTL_MS_def)

text \<open>C18. An icon that is served from the cache was loaded for that entity: whatever requests, loads and
  invalidations come in whatever order, the entity's source was read, the addresses built from it before
  the icon's were answered without one, the icon is the answer of the next, given within the last 24
  hours, and the entity has not been invalidated since that answer.  The cache never holds more than
  256 entries, nor two of one key.\<close>

theorem icon_provenance:
  assumes "resolve_icon key now (icon_run url evs) = (st, Served (Some i))"
  shows "(\<exists>A t src B t' D n. evs = A @ (t, Source_read key (Inr (Some src))) # B @ (t', Fetched key (Some i)) # D \<and>
      answers key B = replicate n None \<and> n < length (build_candidates url src) \<and>
      now < t' + 86400000 \<and> Invalidated key \<notin> snd ` set D) \<and>
    length (fv_cache (icon_run url evs)) \<le> 256 \<and> distinct (map fst (fv_cache (icon_run url evs)))"
proof -
  obtain e where e: "mget (fv_cache (icon_run url evs)) key = Some e" "ce_image e = Some i" "now < ce_expires e"
    using assms by (auto simp: resolve_icon_def split: option.splits if_splits)
  then have "origin url evs key e" using icon_run_traced [of url evs] by (simp add: traced_def)
  then obtain A t src B D where o: "evs = A @ ((t, Source_read key (Inr (Some src))) # B) @ D" "Invalidated key \<notin> snd ` set D"
      "found key (length (build_candidates url src)) ((t, Source_read key (Inr (Some src))) # B) e"
    unfolding origin_def by blast
  then obtain n C t' where "n < length (build_candidates url src)" "B = C @ [(t', Fetched key (Some i))]"
      "answers key C = replicate n None" "ce_expires e = t' + 86400000"
    unfolding found_def e(2) by (auto simp: POSITIVE_TTL_MS_def)
  moreover have "icons_ok (icon_run url evs)" by (rule icon_run_ok)
  ultimately show ?thesis using o(1,2) e(3) unfolding icons_ok_def MAX_ENTRIES_def
    by (intro conjI exI [of _ A] exI [of _ t] exI [of _ src] exI [of _ C] exI [of _ t'] exI [of _ D] exI [of _ n]) simp_all
qed

theorem icon_provenance_witness:
  "length (fv_cache (icon_run page_url (visit @ [(2, Fetched ''project:a'' (Some dot))]))) \<le> 256"
proof -
  have "resolve_icon ''project:a'' 3 (icon_run page_url (visit @ [(2, Fetched ''project:a'' (Some dot))])) =
      (icon_run page_url (visit @ [(2, Fetched ''project:a'' (Some dot))]), Served (Some dot))"
    by (simp add: visit_done resolve_icon_def mget_def)
  from icon_provenance [OF this] show ?thesis by simp
qed

text \<open>An icon is loaded once a day: after the answer that stored it, every request within 24 hours is served
  it without a load, unless the entity was invalidated or 256 answers or source reads of other
  entities came in between.\<close>

theorem icon_kept:
  assumes "mget (fv_pending (icon_run url evs)) key = Some (Fetching (c # left))"
    and "\<And>s. (s, Invalidated key) \<notin> set later" "\<And>s. (s, Asked key) \<in> set later \<Longrightarrow> s < t + 86400000"
    and "length (filter (other_load key) later) < 256" "now < t + 86400000"
  shows "let st = icon_run url (evs @ [(t, Fetched key (Some i))] @ later) in resolve_icon key now st = (st, Served (Some i))"
proof -
  let ?e = "\<lparr> ce_image = Some i, ce_expires = t + POSITIVE_TTL_MS \<rparr>"
  have k: "kept key ?e 0 (icon_run url (evs @ [(t, Fetched key (Some i))]))"
    unfolding icon_run_snoc by (rule fetched_found [OF assms(1)])
  have "kept key ?e (0 + length (filter (other_load key) later))
      (foldl (icon_step url) (icon_run url (evs @ [(t, Fetched key (Some i))])) later)"
    by (rule kept_run [OF k]) (use assms in \<open>simp_all add: POSITIVE_TTL_MS_def\<close>)
  then have "kept key ?e (length (filter (other_load key) later)) (icon_run url (evs @ [(t, Fetched key (Some i))] @ later))"
    by (simp add: icon_run_def)
  then show ?thesis using assms(5) by (simp add: kept_def resolve_icon_def Let_def POSITIVE_TTL_MS_def)
qed

theorem icon_kept_witness:
  "let st = icon_run page_url (visit @ [(2, Fetched ''project:a'' (Some dot))] @ [(5, Asked ''project:a''), (6, Invalidated ''project:b'')])
   in resolve_icon ''project:a'' 86000000 st = (st, Served (Some dot))"
  by (rule icon_kept) (simp_all add: visit_pending linked_candidates mget_def)

text \<open>C19. A change made while the icon is loading is not seen: an entity whose source was read before the
  change is invalidated too early, the load then stores the icon of the old source, and every request
  of the next 24 hours is served that icon.\<close>

theorem stale_icon:
  assumes "mget (fv_cache st) key = None" "mget (fv_pending st) key = None" "build_candidates url old \<noteq> []"
    and "t < u" "u < v" "v \<le> now" "now < v + 86400000"
  shows "let st' = foldl (icon_step url) st [(t, Asked key), (t, Source_read key (Inr (Some old))), (u, Invalidated key), (v, Fetched key (Some i))]
    in resolve_icon key now st' = (st', Served (Some i))"
proof -
  obtain c left where c: "build_candidates url old = c # left" using assms(3) by (cases "build_candidates url old") auto
  show ?thesis using assms(1,2,7) c
    by (simp add: resolve_icon_def source_read_def try_next_def invalidate_icon_def image_fetched_def settle_def store_icon_def
        POSITIVE_TTL_MS_def Let_def)
qed

theorem stale_icon_witness:
  "let st' = foldl (icon_step page_url) no_icons [(0, Asked ''project:a''), (0, Source_read ''project:a'' (Inr (Some linked))),
     (1, Invalidated ''project:a''), (2, Fetched ''project:a'' (Some dot))]
   in resolve_icon ''project:a'' 3 st' = (st', Served (Some dot))"
  by (rule stale_icon) (simp_all add: no_icons_def linked_candidates)

end
