(* ===== verification/Mcp.thy ===== *)
theory Mcp
  imports Signin Base64
begin

text \<open>
  The Model Context Protocol server of mcp/: the catalogue of operations resolved against the OpenAPI
  document, and the three tools over it, with what new URL() makes of the text of a call's URL.  The
  document, the answers of the server to the calls and the text
  JSON.stringify gives a value are parameters; the notes of an operation and the wording of the notice
  under a cut answer are left out.  A placeholder of a path that is not a declared parameter, which no
  document of the server has, reads 'undefined'.
\<close>

section \<open>Paths (packages/shared/src/routes.ts)\<close>

fun replace_first :: "string \<Rightarrow> string \<Rightarrow> string \<Rightarrow> string" where
  "replace_first pat new [] = []"
| "replace_first pat new (c # s) = (if starts_with pat (c # s) then new @ drop (length pat) (c # s) else c # replace_first pat new s)"

definition api_root :: "string \<Rightarrow> string" where "api_root c = CHR ''/'' # c"

definition api_path :: "string \<Rightarrow> string \<Rightarrow> string" where "api_path c sub = CHR ''/'' # c @ CHR ''/'' # sub"

definition api_path_id :: "string \<Rightarrow> string \<Rightarrow> string \<Rightarrow> string" where
  "api_path_id c sub u = CHR ''/'' # c @ CHR ''/'' # replace_first '':uuid'' u sub"

section \<open>The operations (mcp.operations.ts)\<close>

datatype mcp_access = Reads | Writes | Destroys

record mcp_spec =
  mc_name :: string
  mc_method :: string
  mc_path :: string
  mc_access :: mcp_access

definition spec_of :: "string \<Rightarrow> string \<Rightarrow> string \<Rightarrow> mcp_access \<Rightarrow> mcp_spec" where
  "spec_of n m p a = \<lparr> mc_name = n, mc_method = m, mc_path = p, mc_access = a \<rparr>"

definition MCP_ID :: string where "MCP_ID = ''{uuid}''"

definition READ_OPERATIONS :: "mcp_spec list" where
  "READ_OPERATIONS =
   [spec_of ''analytics.summary'' ''GET'' (api_path ''analytics'' ''summary'') Reads,
    spec_of ''analytics.forecast'' ''GET'' (api_path ''analytics'' ''forecast'') Reads,
    spec_of ''providers.list'' ''GET'' (api_root ''providers'') Reads,
    spec_of ''providers.get'' ''GET'' (api_path_id ''providers'' '':uuid'' MCP_ID) Reads,
    spec_of ''accounts.syncRuns'' ''GET'' (api_path_id ''provider-accounts'' '':uuid/sync-runs'' MCP_ID) Reads,
    spec_of ''accounts.balanceHistory'' ''GET'' (api_path_id ''provider-accounts'' '':uuid/balance-history'' MCP_ID) Reads,
    spec_of ''accounts.spend'' ''GET'' (api_path_id ''provider-accounts'' '':uuid/spend'' MCP_ID) Reads,
    spec_of ''projects.list'' ''GET'' (api_root ''projects'') Reads,
    spec_of ''projects.stats'' ''GET'' (api_path_id ''projects'' '':uuid/stats'' MCP_ID) Reads,
    spec_of ''services.list'' ''GET'' (api_root ''services'') Reads,
    spec_of ''payments.list'' ''GET'' (api_root ''payments'') Reads,
    spec_of ''rates.list'' ''GET'' (api_root ''rates'') Reads,
    spec_of ''settings.get'' ''GET'' (api_root ''settings'') Reads]"

definition WRITE_OPERATIONS :: "mcp_spec list" where
  "WRITE_OPERATIONS =
   [spec_of ''providers.create'' ''POST'' (api_root ''providers'') Writes,
    spec_of ''providers.update'' ''PATCH'' (api_path_id ''providers'' '':uuid'' MCP_ID) Writes,
    spec_of ''providers.addAccount'' ''POST'' (api_path_id ''providers'' '':uuid/accounts'' MCP_ID) Writes,
    spec_of ''providers.sync'' ''POST'' (api_path_id ''providers'' '':uuid/sync'' MCP_ID) Writes,
    spec_of ''providers.syncAll'' ''POST'' (api_path ''providers'' ''sync-all'') Writes,
    spec_of ''accounts.update'' ''PATCH'' (api_path_id ''provider-accounts'' '':uuid'' MCP_ID) Writes,
    spec_of ''accounts.sync'' ''POST'' (api_path_id ''provider-accounts'' '':uuid/sync'' MCP_ID) Writes,
    spec_of ''projects.create'' ''POST'' (api_root ''projects'') Writes,
    spec_of ''projects.update'' ''PATCH'' (api_path_id ''projects'' '':uuid'' MCP_ID) Writes,
    spec_of ''projects.moveAll'' ''POST'' (api_path_id ''projects'' '':uuid/move-all'' MCP_ID) Writes,
    spec_of ''projects.empty'' ''POST'' (api_path_id ''projects'' '':uuid/empty'' MCP_ID) Writes,
    spec_of ''services.create'' ''POST'' (api_root ''services'') Writes,
    spec_of ''services.update'' ''PATCH'' (api_path_id ''services'' '':uuid'' MCP_ID) Writes,
    spec_of ''payments.create'' ''POST'' (api_root ''payments'') Writes,
    spec_of ''rates.set'' ''POST'' (api_root ''rates'') Writes,
    spec_of ''rates.refresh'' ''POST'' (api_path ''rates'' ''refresh'') Writes,
    spec_of ''rates.backfill'' ''POST'' (api_path ''rates'' ''backfill'') Writes,
    spec_of ''notifications.check'' ''POST'' (api_path ''notifications'' ''check'') Writes,
    spec_of ''notifications.test'' ''POST'' (api_path ''notifications'' ''test'') Writes]"

definition DELETE_OPERATIONS :: "mcp_spec list" where
  "DELETE_OPERATIONS =
   [spec_of ''services.delete'' ''DELETE'' (api_path_id ''services'' '':uuid'' MCP_ID) Destroys,
    spec_of ''payments.delete'' ''DELETE'' (api_path_id ''payments'' '':uuid'' MCP_ID) Destroys,
    spec_of ''projects.delete'' ''DELETE'' (api_path_id ''projects'' '':uuid'' MCP_ID) Destroys]"

definition MCP_OPERATIONS :: "mcp_spec list" where
  "MCP_OPERATIONS = READ_OPERATIONS @ WRITE_OPERATIONS @ DELETE_OPERATIONS"

section \<open>The OpenAPI document\<close>

text \<open>A parameter or a content is a reference or is written out; a content is read for application/json.\<close>

record api_param =
  ap_name :: string
  ap_in :: string
  ap_required :: bool
  ap_schema :: "json_obj option"
  ap_description :: "string option"

datatype api_parameter = Param_ref | Param api_param
datatype api_content = Content_ref | Content "json option"

record api_operation =
  ao_summary :: "string option"
  ao_parameters :: "api_parameter list"
  ao_body :: "api_content option"
  ao_responses :: "(string \<times> api_content) list"

record openapi =
  oa_operation :: "string \<Rightarrow> string \<Rightarrow> api_operation option"
  oa_schemas :: "(string \<times> json_obj) list"

section \<open>References\<close>

definition REF_PREFIX :: string where "REF_PREFIX = ''#/components/schemas/''"
definition MAX_REF_DEPTH :: nat where "MAX_REF_DEPTH = 6"

definition ref_name :: "json_obj \<Rightarrow> string option" where
  "ref_name fs = (case mget fs ''$ref'' of
     Some (JStr r) \<Rightarrow> if starts_with REF_PREFIX r then Some (drop (length REF_PREFIX) r) else None
   | _ \<Rightarrow> None)"

definition omitted :: "string \<Rightarrow> json" where
  "omitted name = JObj [(''description'', JStr (name @ '' (nested, omitted)''))]"

text \<open>Two object literals spread_fields one after the other.\<close>

definition spread_fields :: "json_obj \<Rightarrow> json_obj \<Rightarrow> json_obj" where
  "spread_fields a b = foldl (\<lambda>m (k, v). mset_to k v m) a b"

fun fields_of :: "json \<Rightarrow> json_obj" where
  "fields_of (JObj fs) = fs"
| "fields_of _ = []"

lemma field_size: "(k, v) \<in> set fs \<Longrightarrow> size v < Suc (size_list (size_prod (\<lambda>x. 0) size) fs)"
  by (induction fs) auto

lemma element_size: "j \<in> set js \<Longrightarrow> size j < Suc (size_list size js)"
  by (induction js) auto

function inline_refs :: "(string \<times> json_obj) list \<Rightarrow> string list \<Rightarrow> json \<Rightarrow> json" where
  "inline_refs cs seen (JArr js) = JArr (map (inline_refs cs seen) js)"
| "inline_refs cs seen (JObj fs) = (case ref_name fs of
     Some name \<Rightarrow> (case mget cs name of
         None \<Rightarrow> omitted name
       | Some target \<Rightarrow> if name \<in> set seen \<or> MAX_REF_DEPTH \<le> length seen then omitted name
           else JObj (spread_fields (fields_of (inline_refs cs (seen @ [name]) (JObj target))) (mdrop ''$ref'' fs)))
   | None \<Rightarrow> JObj (map (\<lambda>(k, v). (k, inline_refs cs seen v)) fs))"
| "inline_refs cs seen JNull = JNull"
| "inline_refs cs seen (JBool b) = JBool b"
| "inline_refs cs seen (JNum n) = JNum n"
| "inline_refs cs seen (JStr s) = JStr s"
  by pat_completeness auto

termination
  by (relation "measures [\<lambda>(cs, seen, j). MAX_REF_DEPTH - length seen, \<lambda>(cs, seen, j). size j]")
    (auto dest: field_size element_size)

definition inline_option :: "(string \<times> json_obj) list \<Rightarrow> json option \<Rightarrow> json option" where
  "inline_option cs s = map_option (inline_refs cs []) s"

section \<open>The catalogue (mcp.catalog.ts)\<close>

record mcp_operation = mcp_spec +
  mo_summary :: string
  mo_path_params :: "string list"
  mo_query_params :: "string list"
  mo_query :: "json option"
  mo_body :: "json option"
  mo_response :: "json option"

definition written_params :: "api_parameter list \<Rightarrow> api_param list" where
  "written_params ps = List.map_filter (\<lambda>p. case p of Param_ref \<Rightarrow> None | Param q \<Rightarrow> Some q) ps"

definition content_schema :: "api_content option \<Rightarrow> json option" where
  "content_schema c = (case c of Some (Content s) \<Rightarrow> s | _ \<Rightarrow> None)"

definition query_property :: "(string \<times> json_obj) list \<Rightarrow> api_param \<Rightarrow> string \<times> json" where
  "query_property cs p = (ap_name p,
     JObj (spread_fields (case ap_schema p of None \<Rightarrow> [] | Some s \<Rightarrow> fields_of (inline_refs cs [] (JObj s)))
       (if truthy (ap_description p) then [(''description'', JStr (the (ap_description p)))] else [])))"

definition query_schema :: "(string \<times> json_obj) list \<Rightarrow> api_param list \<Rightarrow> json option" where
  "query_schema cs qs = (if qs = [] then None
     else Some (JObj [(''type'', JStr ''object''), (''properties'', JObj (spread_fields [] (map (query_property cs) qs))),
       (''required'', JArr (map (\<lambda>p. JStr (ap_name p)) (filter ap_required qs)))]))"

definition catalog_entry :: "(string \<times> json_obj) list \<Rightarrow> mcp_spec \<Rightarrow> api_operation \<Rightarrow> mcp_operation" where
  "catalog_entry cs s op =
     (let ps = written_params (ao_parameters op); qs = filter (\<lambda>p. ap_in p = ''query'') ps;
          ok = map_option snd (find (\<lambda>r. starts_with ''2'' (fst r)) (ao_responses op))
      in \<lparr> mc_name = mc_name s, mc_method = mc_method s, mc_path = mc_path s, mc_access = mc_access s,
           mo_summary = coalesce (ao_summary op) [], mo_path_params = map ap_name (filter (\<lambda>p. ap_in p = ''path'') ps),
           mo_query_params = map ap_name qs, mo_query = query_schema cs qs,
           mo_body = inline_option cs (content_schema (ao_body op)), mo_response = inline_option cs (content_schema ok) \<rparr>)"

type_synonym mcp_catalog = "(string \<times> mcp_operation) list"

fun load_from :: "openapi \<Rightarrow> mcp_spec list \<Rightarrow> mcp_catalog \<Rightarrow> string + mcp_catalog" where
  "load_from doc [] cat = Inr cat"
| "load_from doc (s # ss) cat = (case oa_operation doc (''/api'' @ mc_path s) (to_lower (mc_method s)) of
     None \<Rightarrow> Inl (''MCP operation '' @ mc_name s @ '': '' @ mc_method s @ '' '' @ mc_path s @ '' not found'')
   | Some op \<Rightarrow> load_from doc ss (mset_to (mc_name s) (catalog_entry (oa_schemas doc) s op) cat))"

definition load_catalog :: "openapi \<Rightarrow> string + mcp_catalog" where
  "load_catalog doc = load_from doc MCP_OPERATIONS []"

definition catalog_allows :: "mcp_access \<Rightarrow> string \<Rightarrow> bool" where
  "catalog_allows a scope = (scope = ''full'' \<or> a = Reads)"

definition catalog_list :: "mcp_catalog \<Rightarrow> string \<Rightarrow> mcp_operation list" where
  "catalog_list cat scope = filter (\<lambda>op. catalog_allows (mc_access op) scope) (map snd cat)"

section \<open>The tools (mcp.service.ts)\<close>

definition MAX_RESULT_CHARS :: nat where "MAX_RESULT_CHARS = 50000"

text \<open>The text shown and, when it was cut, the length of the whole.\<close>

record tool_result =
  tr_error :: bool
  tr_text :: string
  tr_cut :: "nat option"

definition tool_text :: "bool \<Rightarrow> string \<Rightarrow> tool_result" where
  "tool_text err s = (if length s \<le> MAX_RESULT_CHARS then \<lparr> tr_error = err, tr_text = s, tr_cut = None \<rparr>
     else \<lparr> tr_error = err, tr_text = take MAX_RESULT_CHARS s, tr_cut = Some (length s) \<rparr>)"

definition resolve_operation :: "mcp_catalog \<Rightarrow> string \<Rightarrow> string \<Rightarrow> string + mcp_operation" where
  "resolve_operation cat name scope = (case mget cat name of
     None \<Rightarrow> Inl (''Unknown operation \"'' @ name @ ''\". Call list_operations for the available ones.'')
   | Some op \<Rightarrow> if \<not> catalog_allows (mc_access op) scope then Inl (name @ '' changes data and this API token is read-only.'')
       else Inr op)"

definition access_text :: "mcp_access \<Rightarrow> string" where
  "access_text a = (case a of Reads \<Rightarrow> ''read'' | Writes \<Rightarrow> ''write'' | Destroys \<Rightarrow> ''destructive'')"

definition listed_operation :: "mcp_operation \<Rightarrow> json" where
  "listed_operation op = JObj [(''name'', JStr (mc_name op)), (''method'', JStr (mc_method op)), (''path'', JStr (mc_path op)),
     (''summary'', JStr (mo_summary op)), (''access'', JStr (access_text (mc_access op))),
     (''pathParams'', JArr (map JStr (mo_path_params op))), (''query'', JArr (map JStr (mo_query_params op))),
     (''hasBody'', JBool (mo_body op \<noteq> None))]"

definition list_operations :: "(json \<Rightarrow> string) \<Rightarrow> mcp_catalog \<Rightarrow> string \<Rightarrow> tool_result" where
  "list_operations js cat scope = tool_text False (js (JObj [(''operations'', JArr (map listed_operation (catalog_list cat scope)))]))"

definition schema_field :: "string \<Rightarrow> json option \<Rightarrow> json_obj" where
  "schema_field k s = (case s of None \<Rightarrow> [] | Some j \<Rightarrow> [(k, j)])"

definition describe_operation :: "(json \<Rightarrow> string) \<Rightarrow> mcp_catalog \<Rightarrow> string \<Rightarrow> string \<Rightarrow> tool_result" where
  "describe_operation js cat scope name = (case resolve_operation cat name scope of
     Inl e \<Rightarrow> tool_text True e
   | Inr op \<Rightarrow> tool_text False (js (JObj ([(''name'', JStr (mc_name op)), (''method'', JStr (mc_method op)), (''path'', JStr (mc_path op)),
       (''summary'', JStr (mo_summary op)), (''access'', JStr (access_text (mc_access op))),
       (''pathParams'', JArr (map JStr (mo_path_params op)))] @
       schema_field ''query'' (mo_query op) @ schema_field ''body'' (mo_body op) @ schema_field ''response'' (mo_response op)))))"

text \<open>encodeURIComponent.\<close>

definition uri_safe :: "char \<Rightarrow> bool" where
  "uri_safe c = (is_word c \<or> c \<in> {CHR ''-'', CHR ''.'', CHR ''!'', CHR ''~'', CHR ''*'', CHR 0x27, CHR ''('', CHR '')''})"

definition uri_char :: "char \<Rightarrow> string" where
  "uri_char c = (if uri_safe c then [c]
     else concat (map (\<lambda>b. [CHR 0x25, upper_hex (b div 16), upper_hex (b mod 16)]) (utf8 c)))"

definition uri_component :: "string \<Rightarrow> string" where "uri_component s = concat (map uri_char s)"

text \<open>A placeholder at the head of a text: its name and what follows it.\<close>

definition placeholder :: "string \<Rightarrow> (string \<times> string) option" where
  "placeholder s = (case s of [] \<Rightarrow> None
     | c # r \<Rightarrow> let w = takeWhile is_word r; rest = dropWhile is_word r in
         if c = CHR ''{'' \<and> w \<noteq> [] \<and> starts_with ''}'' rest then Some (w, tl rest) else None)"

lemma placeholder_shorter: "placeholder s = Some (w, rest) \<Longrightarrow> length rest < length s"
  using length_dropWhile_le [of is_word "tl s"]
  by (auto simp: placeholder_def Let_def split: list.splits if_splits)

function fill_path :: "(string \<Rightarrow> string) \<Rightarrow> string \<Rightarrow> string" where
  "fill_path f s = (case s of [] \<Rightarrow> []
     | c # r \<Rightarrow> (case placeholder s of Some (w, rest) \<Rightarrow> f w @ fill_path f rest | None \<Rightarrow> c # fill_path f r))"
  by pat_completeness auto

termination
  by (relation "measure (\<lambda>(f, s). length s)") (auto dest: placeholder_shorter)

declare fill_path.simps [simp del]

record call_args =
  ca_operation :: string
  ca_path :: "(string \<times> string) list option"
  ca_query :: "json_obj option"
  ca_body :: "json_obj option"

record mcp_request =
  mq_method :: string
  mq_url :: string
  mq_query :: "json_obj option"
  mq_body :: "json_obj option"
  mq_authorization :: string

text \<open>What call() gives to axios, the url as text, or the failure it answers without a request.\<close>

definition prepare_call :: "mcp_catalog \<Rightarrow> string \<Rightarrow> string \<Rightarrow> call_args \<Rightarrow> string + mcp_request" where
  "prepare_call cat scope authorization a = (case resolve_operation cat (ca_operation a) scope of
     Inl e \<Rightarrow> Inl e
   | Inr op \<Rightarrow> let path = coalesce (ca_path a) []; missing = filter (\<lambda>p. \<not> truthy (mget path p)) (mo_path_params op) in
       if missing \<noteq> [] then Inl (''Missing path parameters: '' @ join_with '', '' missing)
       else Inr \<lparr> mq_method = mc_method op, mq_url = fill_path (\<lambda>p. uri_component (coalesce (mget path p) ''undefined'')) (mc_path op),
                  mq_query = ca_query a, mq_body = ca_body a, mq_authorization = authorization \<rparr>)"

text \<open>axios puts the base URL before the text and reads the whole with new URL(), whose path parser drops a
  segment '.' and lets '..' take the one before it away; after it at the end of the path an empty segment
  stays.  wire_path is the path of the request that is sent; the other characters of these paths are
  left as they are.\<close>

definition single_dot :: "string \<Rightarrow> bool" where
  "single_dot s = (to_lower s \<in> {''.'', ''%2e''})"

definition double_dot :: "string \<Rightarrow> bool" where
  "double_dot s = (to_lower s \<in> {''..'', ''.%2e'', ''%2e.'', ''%2e%2e''})"

fun resolve_dots :: "string list \<Rightarrow> string list \<Rightarrow> string list" where
  "resolve_dots acc [] = rev acc"
| "resolve_dots acc (s # ss) =
     (if double_dot s then resolve_dots (if ss = [] then [] # tl acc else tl acc) ss
      else if single_dot s then resolve_dots (if ss = [] then [] # acc else acc) ss
      else resolve_dots (s # acc) ss)"

definition url_path :: "string \<Rightarrow> string" where
  "url_path p = CHR ''/'' # join_with ''/'' (resolve_dots [] (split_on (CHR ''/'') (tl p)))"

definition wire_path :: "mcp_request \<Rightarrow> string" where
  "wire_path q = url_path (''/api'' @ mq_url q)"

text \<open>The answer of the server to the request with this path: a failed request, or a status with its data.\<close>

definition call_operation :: "(json \<Rightarrow> string) \<Rightarrow> (string \<Rightarrow> mcp_request \<Rightarrow> string + int \<times> json) \<Rightarrow> mcp_catalog \<Rightarrow> string \<Rightarrow> string \<Rightarrow> call_args \<Rightarrow> tool_result" where
  "call_operation js http cat scope authorization a = (case prepare_call cat scope authorization a of
     Inl e \<Rightarrow> tool_text True e
   | Inr q \<Rightarrow> (case http (wire_path q) q of
       Inl e \<Rightarrow> tool_text True (''Request failed: '' @ e)
     | Inr (status, data) \<Rightarrow>
         if 200 \<le> status \<and> status < 300
         then tool_text False (js (if status = 204 \<or> data = JStr [] then JObj [(''ok'', JBool True)] else data))
         else tool_text True (js (JObj [(''status'', JNum (of_int status)),
           (''error'', case mget (fields_of data) ''error'' of None \<Rightarrow> data | Some JNull \<Rightarrow> data | Some e \<Rightarrow> e)]))))"

section \<open>The routes behind the operations\<close>

text \<open>The decorators of the controllers: public, session-only and open to a read-only token.\<close>

definition PUBLIC_ROUTES :: "(string \<times> string) list" where
  "PUBLIC_ROUTES = [(''GET'', api_root ''health''), (''GET'', api_root ''build-info''), (''GET'', api_path ''auth'' ''setup''),
     (''POST'', api_path ''auth'' ''setup''), (''POST'', api_path ''auth'' ''login''), (''POST'', api_path ''auth'' ''logout''),
     (''POST'', api_path ''auth'' ''passkey/login/options''), (''POST'', api_path ''auth'' ''passkey/login/verify''),
     (''POST'', api_path ''auth'' ''telegram/login''), (''GET'', api_path ''auth'' ''telegram/callback'')]"

definition session_only_path :: "string \<Rightarrow> bool" where
  "session_only_path p = (starts_with (api_root ''auth'') p \<or> starts_with (api_root ''tokens'') p \<or>
     p = api_path_id ''provider-accounts'' '':uuid/credentials/reveal'' MCP_ID)"

definition route_of :: "string \<Rightarrow> string \<Rightarrow> route" where
  "route_of m p = \<lparr> rt_public = ((m, p) \<in> set PUBLIC_ROUTES), rt_session_only = session_only_path p, rt_allow_read_only = (p = api_root ''mcp'') \<rparr>"

definition token_identity :: "string \<Rightarrow> string \<Rightarrow> identity" where
  "token_identity name scope = \<lparr> id_user = name, id_type = Token, id_scope = Some scope \<rparr>"

section \<open>Lemmas\<close>

lemma spec_of_simps [simp]:
  "mc_name (spec_of n m p a) = n" "mc_method (spec_of n m p a) = m" "mc_path (spec_of n m p a) = p" "mc_access (spec_of n m p a) = a"
  by (simp_all add: spec_of_def)

definition template :: "string \<Rightarrow> bool" where
  "template p = (CHR ''{'' \<notin> set p \<or> (\<exists>a b. p = a @ MCP_ID @ b \<and> CHR ''{'' \<notin> set a \<and> CHR ''{'' \<notin> set b))"

definition template_check :: "string \<Rightarrow> bool" where
  "template_check p = (let b = dropWhile (\<lambda>c. c \<noteq> CHR ''{'') p in b = [] \<or> starts_with MCP_ID b \<and> CHR ''{'' \<notin> set (drop 6 b))"

lemma template_checked: "template_check p \<Longrightarrow> template p"
proof -
  assume c: "template_check p"
  let ?a = "takeWhile (\<lambda>c. c \<noteq> CHR ''{'') p" and ?b = "dropWhile (\<lambda>c. c \<noteq> CHR ''{'') p"
  have a: "CHR ''{'' \<notin> set ?a" using set_takeWhileD by fastforce
  have p: "p = ?a @ ?b" by simp
  show ?thesis
  proof (cases "?b = []")
    case True
    then show ?thesis using a p by (metis append_Nil2 template_def)
  next
    case False
    then have "take 6 ?b = MCP_ID" and n: "CHR ''{'' \<notin> set (drop 6 ?b)"
      using c unfolding template_check_def Let_def starts_with_def by (auto simp: MCP_ID_def numeral_eq_Suc)
    then have "?b = MCP_ID @ drop 6 ?b" by (metis append_take_drop_id)
    with n show ?thesis using a p unfolding template_def by metis
  qed
qed

lemma operations_templates: "op \<in> set MCP_OPERATIONS \<Longrightarrow> template (mc_path op)"
proof -
  have "list_all (\<lambda>op. template_check (mc_path op)) MCP_OPERATIONS" by code_simp
  then show "op \<in> set MCP_OPERATIONS \<Longrightarrow> template (mc_path op)" using template_checked by (auto simp: list_all_iff)
qed

lemma guard_agrees:
  "op \<in> set MCP_OPERATIONS \<Longrightarrow> scope \<in> {''read'', ''full''} \<Longrightarrow>
   admit (route_of (mc_method op) (mc_path op)) (mc_method op) (Some (token_identity name scope)) =
     (if catalog_allows (mc_access op) scope then Inr (token_identity name scope) else Inl (Forbidden ''Read-only API token''))"
proof -
  have "list_all (\<lambda>op. \<not> session_only_path (mc_path op) \<and> mc_path op \<noteq> api_root ''mcp'' \<and>
      (mc_method op \<in> set READ_METHODS) = (mc_access op = Reads)) MCP_OPERATIONS"
    by code_simp
  then have "\<forall>op\<in>set MCP_OPERATIONS. \<not> session_only_path (mc_path op) \<and> mc_path op \<noteq> api_root ''mcp'' \<and>
      (mc_method op \<in> set READ_METHODS) = (mc_access op = Reads)" by (simp add: list_all_iff)
  then show "op \<in> set MCP_OPERATIONS \<Longrightarrow> scope \<in> {''read'', ''full''} \<Longrightarrow> ?thesis"
    by (auto simp: admit_def route_of_def token_identity_def catalog_allows_def)
qed

lemma load_from_entry:
  "load_from doc ss cat = Inr cat' \<Longrightarrow> mget cat' n = Some op \<Longrightarrow>
   mget cat n = Some op \<or> (\<exists>s\<in>set ss. \<exists>o1. mc_name s = n \<and> op = catalog_entry (oa_schemas doc) s o1)"
proof (induction ss arbitrary: cat)
  case (Cons s ss)
  then obtain o1 where "load_from doc ss (mset_to (mc_name s) (catalog_entry (oa_schemas doc) s o1) cat) = Inr cat'"
    by (auto split: option.splits)
  from Cons.IH [OF this Cons.prems(2)] show ?case by (auto split: if_splits)
qed simp

lemma catalog_entry_fields [simp]:
  "mc_name (catalog_entry cs s o1) = mc_name s" "mc_method (catalog_entry cs s o1) = mc_method s"
  "mc_path (catalog_entry cs s o1) = mc_path s" "mc_access (catalog_entry cs s o1) = mc_access s"
  by (simp_all add: catalog_entry_def Let_def)

lemma load_catalog_entry:
  assumes "load_catalog doc = Inr cat" "mget cat n = Some op"
  shows "\<exists>s\<in>set MCP_OPERATIONS. mc_name s = n \<and> mc_method op = mc_method s \<and> mc_path op = mc_path s \<and> mc_access op = mc_access s"
  using load_from_entry [OF assms(1) [unfolded load_catalog_def] assms(2)] by force

lemma load_from_keys: "load_from doc ss cat = Inr cat' \<Longrightarrow> fst ` set cat' = fst ` set cat \<union> mc_name ` set ss"
proof (induction ss arbitrary: cat)
  case (Cons s ss)
  then obtain o1 where "load_from doc ss (mset_to (mc_name s) (catalog_entry (oa_schemas doc) s o1) cat) = Inr cat'"
    by (auto split: option.splits)
  from Cons.IH [OF this] show ?case by auto
qed simp

lemma names_distinct: "distinct (map mc_name MCP_OPERATIONS)"
  by code_simp

lemma fill_plain: "CHR ''{'' \<notin> set s \<Longrightarrow> fill_path f s = s"
proof (induction s)
  case (Cons c s)
  then have "placeholder (c # s) = None" by (auto simp: placeholder_def)
  then show ?case using Cons by (subst fill_path.simps) simp
qed (simp add: fill_path.simps)

lemma fill_template: "CHR ''{'' \<notin> set a \<Longrightarrow> CHR ''{'' \<notin> set b \<Longrightarrow> fill_path f (a @ MCP_ID @ b) = a @ f ''uuid'' @ b"
proof (induction a)
  case Nil
  have "placeholder (MCP_ID @ b) = Some (''uuid'', b)"
    by (simp add: placeholder_def MCP_ID_def starts_with_def is_word_def is_letter_def is_digit_def)
  then show ?case using fill_plain [OF Nil(2)] by (subst fill_path.simps) (simp add: MCP_ID_def)
next
  case (Cons c a)
  then have "placeholder (c # a @ MCP_ID @ b) = None" by (auto simp: placeholder_def)
  then show ?case using Cons by (subst fill_path.simps) simp
qed

lemma upper_hex_range: "n < 16 \<Longrightarrow> ccode (upper_hex n) \<in> {48..57} \<union> {65..70}"
  by (auto simp: upper_hex_def ccode_char_of)

definition url_char :: "char \<Rightarrow> bool" where "url_char c = (uri_safe c \<or> c = CHR 0x25)"

lemma upper_hex_url: "n < 16 \<Longrightarrow> url_char (upper_hex n)"
  using upper_hex_range [of n] by (auto simp: url_char_def uri_safe_def is_word_def is_letter_def is_digit_def ccode_def Let_def)

lemma utf8_bytes: "b \<in> set (utf8 c) \<Longrightarrow> b < 256"
  using ccode_less [of c] by (auto simp: utf8_def Let_def split: if_splits)

lemma uri_component_url: "c \<in> set (uri_component s) \<Longrightarrow> url_char c"
proof -
  assume "c \<in> set (uri_component s)"
  then obtain x where x: "c \<in> set (uri_char x)" by (auto simp: uri_component_def)
  have "url_char (upper_hex (b div 16))" "url_char (upper_hex (b mod 16))" if "b \<in> set (utf8 x)" for b
    using utf8_bytes [OF that] by (simp_all add: upper_hex_url less_mult_imp_div_less)
  moreover have "url_char (CHR 0x25)" by (simp add: url_char_def)
  moreover have "uri_safe x \<Longrightarrow> url_char x" by (simp add: url_char_def)
  ultimately show ?thesis using x unfolding uri_char_def by (auto split: if_splits)
qed

lemma split_on_length: "length (split_on c s) = Suc (length (filter (\<lambda>x. x = c) s))"
proof (induction s)
  case (Cons x s)
  then have "split_on c s \<noteq> []" by auto
  then show ?case using Cons by simp
qed simp

lemma split_on_append: "split_on c (a @ c # b) = split_on c a @ split_on c b"
proof (induction a)
  case (Cons x a)
  moreover have "split_on c a \<noteq> []" for a by (cases a) auto
  ultimately show ?case by (cases "split_on c a") auto
qed simp

lemma split_on_single: "c \<notin> set a \<Longrightarrow> split_on c a = [a]"
  by (induction a) auto

lemma join_split: "join_with [c] (split_on c s) = s"
proof (induction s)
  case (Cons x s)
  moreover have "split_on c s \<noteq> []" by (cases s) auto
  ultimately show ?case by (cases "split_on c s"; cases "tl (split_on c s)") auto
qed simp

lemma join_cons: "ts \<noteq> [] \<Longrightarrow> join_with sep (t # ts) = t @ sep @ join_with sep ts"
  by (cases ts) simp_all

definition no_dots :: "string list \<Rightarrow> bool" where
  "no_dots ss = list_all (\<lambda>s. \<not> single_dot s \<and> \<not> double_dot s) ss"

lemma resolve_plain: "no_dots ss \<Longrightarrow> resolve_dots acc ss = rev acc @ ss"
  by (induction ss arbitrary: acc) (simp_all add: no_dots_def)

lemma resolve_front: "no_dots ss \<Longrightarrow> resolve_dots acc (ss @ ts) = resolve_dots (rev ss @ acc) ts"
  by (induction ss arbitrary: acc) (simp_all add: no_dots_def)

text \<open>The encoding leaves a dot alone and makes no other: a segment is read as dots only if it was given so.\<close>

definition dot_first :: "string \<Rightarrow> bool" where
  "dot_first s = (starts_with ''.'' s \<or> take 3 (to_lower s) = ''%2e'')"

lemma hex_dot: "n < 16 \<Longrightarrow> lower_char (upper_hex n) = CHR ''2'' \<Longrightarrow> n = 2" "n < 16 \<Longrightarrow> lower_char (upper_hex n) = CHR ''e'' \<Longrightarrow> n = 14"
proof -
  have c: "n < 16 \<Longrightarrow> ccode (lower_char (upper_hex n)) = (if n < 10 then 48 + n else 87 + n)"
    by (simp add: lower_char_def upper_hex_def Let_def ccode_char_of ccode_def [symmetric])
  have "ccode (CHR ''2'') = 50" "ccode (CHR ''e'') = 101" by code_simp+
  then show "n < 16 \<Longrightarrow> lower_char (upper_hex n) = CHR ''2'' \<Longrightarrow> n = 2" "n < 16 \<Longrightarrow> lower_char (upper_hex n) = CHR ''e'' \<Longrightarrow> n = 14"
    using c by (auto split: if_splits)
qed

lemma lower_low: "ccode (lower_char c) < 97 \<Longrightarrow> lower_char c = c"
  using ccode_less [of c] by (auto simp: lower_char_def Let_def ccode_char_of ccode_def [symmetric] split: if_splits)

lemma lower_eq: "lower_char c = CHR ''.'' \<longleftrightarrow> c = CHR ''.''" "lower_char c = CHR 0x25 \<longleftrightarrow> c = CHR 0x25"
proof -
  have "ccode (CHR ''.'') < 97" "ccode (CHR 0x25) < 97" "lower_char (CHR ''.'') = CHR ''.''" "lower_char (CHR 0x25) = CHR 0x25"
    by code_simp+
  then show "lower_char c = CHR ''.'' \<longleftrightarrow> c = CHR ''.''" "lower_char c = CHR 0x25 \<longleftrightarrow> c = CHR 0x25"
    using lower_low [of c] by metis+
qed

lemma utf8_head: "\<exists>b bs. utf8 c = b # bs \<and> (b = ccode c \<or> 192 \<le> b)"
  by (simp add: utf8_def Let_def)

lemma uri_first: "c \<noteq> CHR ''.'' \<Longrightarrow> \<not> dot_first (uri_char c @ r)"
proof (cases "uri_safe c")
  case True
  then have "c \<noteq> CHR 0x25" by (auto simp: uri_safe_def is_word_def is_letter_def is_digit_def)
  then show "c \<noteq> CHR ''.'' \<Longrightarrow> ?thesis" using True lower_eq(2) [of c] by (auto simp: dot_first_def uri_char_def starts_with_def to_lower_def)
next
  case False
  obtain b bs where b: "utf8 c = b # bs" "b = ccode c \<or> 192 \<le> b" using utf8_head by blast
  have l: "b < 256" using utf8_bytes [of b c] b(1) by simp
  assume c: "c \<noteq> CHR ''.''"
  have "ccode c \<noteq> 46"
  proof
    assume "ccode c = 46"
    then have "char_of (46 :: nat) = c" by (metis char_of_ccode)
    moreover have "char_of (46 :: nat) = CHR ''.''" by code_simp
    ultimately show False using c by simp
  qed
  then have "b \<noteq> 46" using b(2) by auto
  moreover have "b div 16 = 2 \<Longrightarrow> b mod 16 = 14 \<Longrightarrow> b = 46" using div_mult_mod_eq [of b 16] by simp
  moreover have "b div 16 < 16" "b mod 16 < 16" using l by simp_all
  ultimately have n: "\<not> (lower_char (upper_hex (b div 16)) = CHR ''2'' \<and> lower_char (upper_hex (b mod 16)) = CHR ''e'')"
    using hex_dot by blast
  obtain ds where u: "uri_char c = CHR 0x25 # upper_hex (b div 16) # upper_hex (b mod 16) # ds"
    using False b(1) by (simp add: uri_char_def)
  show ?thesis using n unfolding u dot_first_def starts_with_def to_lower_def by simp
qed

lemma uri_component_Cons: "uri_component (c # s) = uri_char c @ uri_component s"
  by (simp add: uri_component_def)

lemma uri_dot: "uri_char (CHR ''.'') = ''.''"
  by (simp add: uri_char_def uri_safe_def)

lemma uri_first_component: "dot_first (uri_component s) \<Longrightarrow> starts_with ''.'' s"
  using uri_first by (cases s) (auto simp: uri_component_Cons starts_with_def dot_first_def uri_component_def to_lower_def)

lemma lower_dot: "to_lower (CHR ''.'' # s) = CHR ''.'' # to_lower s" "to_lower [] = []"
  by (simp_all add: to_lower_def lower_eq)

lemma uri_nil: "uri_component s = [] \<Longrightarrow> s = []"
  by (cases s) (auto simp: uri_component_Cons uri_char_def utf8_def Let_def split: if_splits)

lemma dots_first: "single_dot s \<Longrightarrow> dot_first s" "double_dot s \<Longrightarrow> dot_first s"
  by (cases s; auto simp: single_dot_def double_dot_def dot_first_def starts_with_def to_lower_def lower_eq)+

lemma uri_single: "single_dot (uri_component s) = (s = ''.'')"
proof
  assume d: "single_dot (uri_component s)"
  from uri_first_component [OF dots_first(1) [OF d]] obtain r where r: "s = CHR ''.'' # r"
    by (cases s) (auto simp: starts_with_def)
  then have "to_lower (uri_component r) = []"
    using d by (auto simp: single_dot_def uri_component_Cons uri_dot lower_dot)
  then show "s = ''.''" using r uri_nil [of r] by (simp add: to_lower_def)
qed (simp add: single_dot_def uri_component_def uri_dot lower_dot)

lemma uri_double: "double_dot (uri_component s) = (s = ''..'')"
proof
  assume d: "double_dot (uri_component s)"
  from uri_first_component [OF dots_first(2) [OF d]] obtain r where r: "s = CHR ''.'' # r"
    by (cases s) (auto simp: starts_with_def)
  then have e: "single_dot (uri_component r)"
    using d by (auto simp: double_dot_def single_dot_def uri_component_Cons uri_dot lower_dot)
  then show "s = ''..''" using r uri_single [of r] by simp
qed (simp add: double_dot_def uri_component_def uri_dot lower_dot)

text \<open>The path of an operation: no parameter, or one in its second segment; the texts around it hold no dots.\<close>

definition rest_ok :: "string \<Rightarrow> bool" where
  "rest_ok p = (p = [] \<or> (hd p = CHR ''/'' \<and> CHR ''{'' \<notin> set p \<and> no_dots (split_on (CHR ''/'') (tl p))))"

definition path_check :: "string \<Rightarrow> bool" where
  "path_check p = (let c = takeWhile (\<lambda>x. x \<noteq> CHR ''/'') (tl p); b = dropWhile (\<lambda>x. x \<noteq> CHR ''/'') (tl p) in
     p \<noteq> [] \<and> hd p = CHR ''/'' \<and> CHR ''{'' \<notin> set c \<and> no_dots [c] \<and> (rest_ok b \<or> starts_with ''/{uuid}'' b \<and> rest_ok (drop 7 b)))"

lemma operation_path:
  assumes "op \<in> set MCP_OPERATIONS"
  obtains (plain) p where "mc_path op = CHR ''/'' # p" "CHR ''{'' \<notin> set p" "no_dots (split_on (CHR ''/'') p)"
  | (with_id) c post where "mc_path op = CHR ''/'' # c @ ''/{uuid}'' @ post" "CHR ''/'' \<notin> set c" "CHR ''{'' \<notin> set c" "no_dots [c]" "rest_ok post"
proof -
  have "list_all (\<lambda>op. path_check (mc_path op)) MCP_OPERATIONS" by code_simp
  then have k: "path_check (mc_path op)" using assms by (simp add: list_all_iff)
  then obtain p where p: "mc_path op = CHR ''/'' # p" by (cases "mc_path op") (auto simp: path_check_def Let_def)
  let ?c = "takeWhile (\<lambda>x. x \<noteq> CHR ''/'') p" and ?b = "dropWhile (\<lambda>x. x \<noteq> CHR ''/'') p"
  have c: "CHR ''/'' \<notin> set ?c" using set_takeWhileD by fastforce
  have k: "CHR ''{'' \<notin> set ?c" "no_dots [?c]" "rest_ok ?b \<or> starts_with ''/{uuid}'' ?b \<and> rest_ok (drop 7 ?b)"
    using k by (simp_all add: path_check_def Let_def p)
  from k(3) show ?thesis
  proof
    assume r: "rest_ok ?b"
    show ?thesis
    proof (cases "?b = []")
      case True
      then have "p = ?c" by (metis append_Nil2 takeWhile_dropWhile_id)
      then show ?thesis using plain [OF p] k(1,2) split_on_single [OF c] by simp
    next
      case False
      then obtain t where t: "?b = CHR ''/'' # t" using r by (cases ?b) (auto simp: rest_ok_def)
      then have e: "p = ?c @ CHR ''/'' # t" by (metis takeWhile_dropWhile_id)
      have "split_on (CHR ''/'') p = ?c # split_on (CHR ''/'') t"
        by (subst e, subst split_on_append) (simp add: split_on_single [OF c])
      moreover have "CHR ''{'' \<notin> set p" using r k(1) t by (subst e) (auto simp: rest_ok_def)
      ultimately show ?thesis using plain [OF p] r k(2) t by (simp add: rest_ok_def no_dots_def)
    qed
  next
    assume r: "starts_with ''/{uuid}'' ?b \<and> rest_ok (drop 7 ?b)"
    then have "?b = ''/{uuid}'' @ drop 7 ?b" using append_take_drop_id [of 7 ?b] by (auto simp: starts_with_def numeral_eq_Suc)
    then have "p = ?c @ ''/{uuid}'' @ drop 7 ?b" by (metis takeWhile_dropWhile_id)
    then show ?thesis using with_id [of ?c "drop 7 ?b"] p c k(1,2) r by metis
  qed
qed

lemma uri_no_slash: "CHR ''/'' \<notin> set (uri_component u)"
proof -
  have "\<not> url_char (CHR ''/'')" by (simp add: url_char_def uri_safe_def is_word_def is_letter_def is_digit_def)
  then show ?thesis using uri_component_url by blast
qed

lemma api_split: "split_on (CHR ''/'') (''api/'' @ p) = ''api'' # split_on (CHR ''/'') p"
  using split_on_append [of "CHR ''/''" "''api''" p] by (simp add: split_on_single)

lemma api_no_dots: "\<not> single_dot ''api''" "\<not> double_dot ''api''"
  by code_simp+

lemma plain_path: "no_dots (split_on (CHR ''/'') p) \<Longrightarrow> url_path (''/api/'' @ p) = ''/api/'' @ p"
proof -
  assume "no_dots (split_on (CHR ''/'') p)"
  then have "no_dots (split_on (CHR ''/'') (''api/'' @ p))" by (simp only: api_split) (simp add: no_dots_def api_no_dots)
  then show ?thesis using join_split [of "CHR ''/''" "''api/'' @ p"] resolve_plain by (simp add: url_path_def del: split_on.simps)
qed

text \<open>An argument that is one of the dots takes itself, or itself and the segment before it, off the path.\<close>

lemma segment_path:
  assumes "CHR ''/'' \<notin> set c" "no_dots [c]" "rest_ok post" and a: "a = uri_component u"
  shows "url_path (''/api/'' @ c @ CHR ''/'' # a @ post) =
    (if u = ''.'' then ''/api/'' @ c @ CHR ''/'' # tl post else if u = ''..'' then ''/api/'' @ tl post else ''/api/'' @ c @ CHR ''/'' # a @ post)"
proof -
  define ss where "ss = (if post = [] then [] else split_on (CHR ''/'') (tl post))"
  have s: "split_on (CHR ''/'') (c @ CHR ''/'' # a @ post) = c # a # ss"
  proof (cases post)
    case (Cons x p)
    then have "x = CHR ''/''" using assms(3) by (simp add: rest_ok_def)
    then show ?thesis using Cons split_on_append split_on_single [OF assms(1)] split_on_single [OF uri_no_slash [of u]]
      by (simp add: ss_def a del: split_on.simps)
  qed (use split_on_append split_on_single [OF assms(1)] split_on_single [OF uri_no_slash [of u]] in \<open>simp add: ss_def a del: split_on.simps\<close>)
  have ss: "no_dots ss" using assms(3) by (auto simp: rest_ok_def ss_def no_dots_def)
  have j: "join_with ''/'' ss = tl post" using join_split [of "CHR ''/''"] by (auto simp: ss_def)
  have e: "url_path (''/api/'' @ c @ CHR ''/'' # a @ post) = CHR ''/'' # join_with ''/'' (resolve_dots [c, ''api''] (a # ss))"
    using assms(2) s api_split [of "c @ CHR ''/'' # a @ post"] by (simp add: url_path_def no_dots_def api_no_dots del: split_on.simps)
  have nd: "\<not> double_dot ''.''" "single_dot ''.''" "double_dot ''..''" by code_simp+
  consider "u = ''.''" | "u = ''..''" | "u \<noteq> ''.''" "u \<noteq> ''..''" by blast
  then show ?thesis
  proof cases
    case 1
    then have "a = ''.''" using a by (simp add: uri_component_def uri_dot)
    then show ?thesis using 1 e nd j resolve_plain [OF ss] by (cases "ss = []") (auto simp: join_cons)
  next
    case 2
    then have "a = ''..''" using a by (simp add: uri_component_def uri_dot)
    then show ?thesis using 2 e nd j resolve_plain [OF ss] by (cases "ss = []") (auto simp: join_cons)
  next
    case 3
    then have "no_dots (c # a # ss)" using ss assms(2) uri_single [of u] uri_double [of u] a by (simp add: no_dots_def)
    then have "no_dots (split_on (CHR ''/'') (c @ CHR ''/'' # a @ post))" using s by simp
    from plain_path [OF this] 3 show ?thesis by simp
  qed
qed

section \<open>Inlined schemas\<close>

text \<open>A reference to a component somewhere in a schema; siblings of a reference that hold none.\<close>

fun has_ref :: "json \<Rightarrow> bool" where
  "has_ref (JArr js) = list_ex has_ref js"
| "has_ref (JObj fs) = (ref_name fs \<noteq> None \<or> list_ex (\<lambda>(k, v). has_ref v) fs)"
| "has_ref j = False"

fun refs_alone :: "json \<Rightarrow> bool" where
  "refs_alone (JArr js) = list_all refs_alone js"
| "refs_alone (JObj fs) = (if ref_name fs \<noteq> None then list_all (\<lambda>(k, v). k = ''$ref'' \<or> \<not> has_ref v) fs
     else list_all (\<lambda>(k, v). refs_alone v) fs)"
| "refs_alone j = True"

lemma mset_to_subset: "kv \<in> set (mset_to k v m) \<Longrightarrow> kv = (k, v) \<or> kv \<in> set m"
  by (induction m) (auto simp: mset_to_def split: if_splits)

lemma spread_Cons: "spread_fields a (x # b) = spread_fields (mset_to (fst x) (snd x) a) b"
  by (simp add: spread_fields_def case_prod_beta)

lemma spread_fields_set: "kv \<in> set (spread_fields a b) \<Longrightarrow> kv \<in> set a \<or> kv \<in> set b"
proof (induction b arbitrary: a)
  case (Cons x b)
  then show ?case using mset_to_subset [of kv "fst x" "snd x" a] by (auto simp: spread_Cons)
qed (simp add: spread_fields_def)

lemma spread_mget: "k \<notin> fst ` set b \<Longrightarrow> mget (spread_fields a b) k = mget a k"
  by (induction b arbitrary: a) (simp_all add: spread_Cons, simp add: spread_fields_def)

lemma inline_fields: "\<exists>xs. inline_refs cs seen (JObj fs) = JObj xs"
  by (auto simp: omitted_def split: option.split)

lemma inline_str: "inline_refs cs seen v = JStr r \<Longrightarrow> v = JStr r"
  by (cases v) (auto simp: omitted_def split: option.splits if_splits)

lemma mget_map: "mget (map (\<lambda>(k, v). (k, f v)) m) k = map_option f (mget m k)"
  by (induction m) (auto simp: mget_Cons)

lemma ref_name_map: "ref_name fs = None \<Longrightarrow> ref_name (map (\<lambda>(k, v). (k, inline_refs cs seen v)) fs) = None"
  using inline_str [of cs seen] by (cases "mget fs ''$ref''") (force simp: ref_name_def mget_map split: json.splits if_splits)+

lemma no_ref_obj: "(\<not> has_ref (JObj xs)) = (ref_name xs = None \<and> (\<forall>(k, v)\<in>set xs. \<not> has_ref v))"
  by (auto simp: list_ex_iff)

lemma inline_ref_free:
  "\<forall>(k, t)\<in>set cs. refs_alone (JObj t) \<Longrightarrow> refs_alone j \<Longrightarrow> \<not> has_ref (inline_refs cs seen j)"
proof (induction cs seen j rule: inline_refs.induct)
  case (1 cs seen js)
  then show ?case by (auto simp: list_ex_iff list_all_iff)
next
  case (2 cs seen fs)
  have o: "\<not> has_ref (omitted n)" for n by (simp add: omitted_def ref_name_def mget_def)
  show ?case
  proof (cases "ref_name fs")
    case None
    then have "\<not> has_ref (inline_refs cs seen v)" if "(k, v) \<in> set fs" for k v
      using 2 that by (fastforce simp: list_all_iff)
    then have "\<forall>(k, v)\<in>set (map (\<lambda>(k, v). (k, inline_refs cs seen v)) fs). \<not> has_ref v" by auto
    with ref_name_map [OF None, of cs seen] have "\<not> has_ref (JObj (map (\<lambda>(k, v). (k, inline_refs cs seen v)) fs))"
      unfolding no_ref_obj by (rule conjI)
    moreover have e: "inline_refs cs seen (JObj fs) = JObj (map (\<lambda>(k, v). (k, inline_refs cs seen v)) fs)" using None by simp
    ultimately show ?thesis unfolding e by blast
  next
    case (Some name)
    show ?thesis
    proof (cases "mget cs name")
      case None
      then show ?thesis using Some o by simp
    next
      case (Some target)
      note target = this
      show ?thesis
      proof (cases "name \<in> set seen \<or> MAX_REF_DEPTH \<le> length seen")
        case True
        then show ?thesis using \<open>ref_name fs = Some name\<close> target o by simp
      next
        case False
        obtain xs where xs: "inline_refs cs (seen @ [name]) (JObj target) = JObj xs" using inline_fields by blast
        have "refs_alone (JObj target)" using 2(3) target map_of_SomeD [of cs name target] by (auto simp: mget_def)
        then have "\<not> has_ref (JObj xs)"
          using 2(2) [OF \<open>ref_name fs = Some name\<close> target False 2(3)] unfolding xs by blast
        then have x: "ref_name xs = None" "\<And>k v. (k, v) \<in> set xs \<Longrightarrow> \<not> has_ref v" unfolding no_ref_obj by auto
        let ?ys = "spread_fields xs (mdrop ''$ref'' fs)"
        have "mget ?ys ''$ref'' = mget xs ''$ref''" by (rule spread_mget) simp
        then have "ref_name ?ys = None" using x(1) by (simp add: ref_name_def)
        moreover have "\<not> has_ref v" if "(k, v) \<in> set ?ys" for k v
          using spread_fields_set [OF that] x(2) 2(4) \<open>ref_name fs = Some name\<close> by (auto simp: mdrop_def list_all_iff)
        ultimately have "\<not> has_ref (JObj ?ys)" unfolding no_ref_obj by blast
        then show ?thesis using \<open>ref_name fs = Some name\<close> target False xs by simp
      qed
    qed
  qed
qed auto

section \<open>Properties\<close>

lemma resolved:
  assumes "load_catalog doc = Inr cat" "prepare_call cat scope auth a = Inr q"
  obtains op where "op \<in> set MCP_OPERATIONS" "mc_name op = ca_operation a" "catalog_allows (mc_access op) scope"
    "mq_method q = mc_method op" "mq_authorization q = auth"
    "mq_url q = fill_path (\<lambda>p. uri_component (coalesce (mget (coalesce (ca_path a) []) p) ''undefined'')) (mc_path op)"
proof -
  obtain o1 where o1: "mget cat (ca_operation a) = Some o1" "catalog_allows (mc_access o1) scope"
      "mq_method q = mc_method o1" "mq_authorization q = auth"
      "mq_url q = fill_path (\<lambda>p. uri_component (coalesce (mget (coalesce (ca_path a) []) p) ''undefined'')) (mc_path o1)"
    using assms(2) by (auto simp: prepare_call_def resolve_operation_def Let_def split: option.splits sum.splits if_splits)
  obtain s where "s \<in> set MCP_OPERATIONS" "mc_name s = ca_operation a" "mc_method o1 = mc_method s" "mc_path o1 = mc_path s" "mc_access o1 = mc_access s"
    using load_catalog_entry [OF assms(1) o1(1)] by auto
  then show ?thesis using o1 that by metis
qed

definition empty_doc :: openapi where
  "empty_doc = \<lparr> oa_operation = (\<lambda>p m. Some \<lparr> ao_summary = None,
       ao_parameters = (if p = ''/api/services/{uuid}'' then [Param \<lparr> ap_name = ''uuid'', ap_in = ''path'', ap_required = True, ap_schema = None, ap_description = None \<rparr>] else []),
       ao_body = None, ao_responses = [] \<rparr>), oa_schemas = [] \<rparr>"

definition doc_catalog :: mcp_catalog where
  "doc_catalog = map (\<lambda>s. (mc_name s, catalog_entry [] s (the (oa_operation empty_doc (''/api'' @ mc_path s) [])))) MCP_OPERATIONS"

definition remove_args :: call_args where
  "remove_args = \<lparr> ca_operation = ''services.delete'', ca_path = Some [(''uuid'', ''a/b'')], ca_query = None, ca_body = None \<rparr>"

lemma doc_loaded: "load_catalog empty_doc = Inr doc_catalog"
  by code_simp

lemma remove_prepared:
  "prepare_call doc_catalog ''full'' ''Bearer t'' remove_args =
     Inr \<lparr> mq_method = ''DELETE'', mq_url = ''/services/a%2Fb'', mq_query = None, mq_body = None, mq_authorization = ''Bearer t'' \<rparr>"
  by code_simp

definition up_args :: "string \<Rightarrow> call_args" where
  "up_args u = \<lparr> ca_operation = ''services.delete'', ca_path = Some [(''uuid'', u)], ca_query = None, ca_body = None \<rparr>"

definition up_request :: "string \<Rightarrow> mcp_request" where
  "up_request u = \<lparr> mq_method = ''DELETE'', mq_url = ''/services/'' @ uri_component u, mq_query = None, mq_body = None, mq_authorization = ''Bearer t'' \<rparr>"

lemma up_prepared: "prepare_call doc_catalog ''full'' ''Bearer t'' (up_args ''..'') = Inr (up_request ''..'')"
  by code_simp

lemma delete_path: "op \<in> set MCP_OPERATIONS \<Longrightarrow> mc_name op = ''services.delete'' \<Longrightarrow> mc_path op = ''/services/{uuid}''"
proof -
  have "list_all (\<lambda>op. mc_name op = ''services.delete'' \<longrightarrow> mc_path op = ''/services/{uuid}'') MCP_OPERATIONS" by code_simp
  then show "op \<in> set MCP_OPERATIONS \<Longrightarrow> mc_name op = ''services.delete'' \<Longrightarrow> ?thesis" by (simp add: list_all_iff)
qed

text \<open>C20. The catalogue and the request guard agree: what a token's scope lets through call_operation is sent
  with the caller's own token, and the guard admits it at the operation's route, by a GET if the scope
  is read; an operation that the guard would refuse to that scope is refused before anything is sent.\<close>

theorem mcp_guard:
  assumes "load_catalog doc = Inr cat" "scope \<in> {''read'', ''full''}" "op \<in> set MCP_OPERATIONS" "ca_operation a = mc_name op"
  shows "let guard = admit (route_of (mc_method op) (mc_path op)) (mc_method op) (Some (token_identity name scope)) in
    (\<forall>q. prepare_call cat scope auth a = Inr q \<longrightarrow> mq_method q = mc_method op \<and> mq_authorization q = auth \<and>
       guard = Inr (token_identity name scope) \<and> (scope = ''read'' \<longrightarrow> mq_method q = ''GET'')) \<and>
    (\<forall>e. guard = Inl e \<longrightarrow> prepare_call cat scope auth a = Inl (mc_name op @ '' changes data and this API token is read-only.''))"
proof -
  have unique: "o1 = op" if "o1 \<in> set MCP_OPERATIONS" "mc_name o1 = mc_name op" for o1
    using names_distinct assms(3) that unfolding distinct_map inj_on_def by blast
  have "list_all (\<lambda>op. mc_access op = Reads \<longrightarrow> mc_method op = ''GET'') MCP_OPERATIONS" by code_simp
  then have gets: "mc_access op = Reads \<Longrightarrow> mc_method op = ''GET''" using assms(3) by (simp add: list_all_iff)
  have sent: "mq_method q = mc_method op \<and> mq_authorization q = auth \<and> catalog_allows (mc_access op) scope"
    if q: "prepare_call cat scope auth a = Inr q" for q
  proof -
    obtain o1 where "o1 \<in> set MCP_OPERATIONS" "mc_name o1 = ca_operation a" "catalog_allows (mc_access o1) scope"
        "mq_method q = mc_method o1" "mq_authorization q = auth"
      using resolved [OF assms(1) q] by metis
    moreover from this have "o1 = op" using unique assms(4) by simp
    ultimately show ?thesis by simp
  qed
  have "mc_name op \<in> fst ` set cat"
    using load_from_keys [OF assms(1) [unfolded load_catalog_def]] assms(3) by simp
  then obtain o1 where o1: "mget cat (mc_name op) = Some o1" using mget_in_keys [of cat "mc_name op"] by auto
  obtain s where "s \<in> set MCP_OPERATIONS" "mc_name s = mc_name op" "mc_access o1 = mc_access s"
    using load_catalog_entry [OF assms(1) o1] by blast
  then have "mc_access o1 = mc_access op" using unique [of s] by simp
  then have "\<not> catalog_allows (mc_access op) scope \<Longrightarrow>
      prepare_call cat scope auth a = Inl (mc_name op @ '' changes data and this API token is read-only.'')"
    using o1 assms(4) by (simp add: prepare_call_def resolve_operation_def)
  then show ?thesis using sent gets guard_agrees [OF assms(3,2)] by (auto simp: catalog_allows_def)
qed

theorem mcp_guard_witness:
  "prepare_call doc_catalog ''read'' ''Bearer t'' remove_args = Inl ''services.delete changes data and this API token is read-only.''"
proof -
  let ?op = "spec_of ''services.delete'' ''DELETE'' (api_path_id ''services'' '':uuid'' MCP_ID) Destroys"
  have op: "?op \<in> set MCP_OPERATIONS" by (simp add: MCP_OPERATIONS_def DELETE_OPERATIONS_def)
  have a: "ca_operation remove_args = mc_name ?op" by (simp add: remove_args_def)
  have "admit (route_of (mc_method ?op) (mc_path ?op)) (mc_method ?op) (Some (token_identity [] ''read'')) = Inl (Forbidden ''Read-only API token'')"
    using guard_agrees [OF op, of "''read''"] by (simp add: catalog_allows_def)
  then show ?thesis using mcp_guard [OF doc_loaded _ op a, of "''read''" "[]"] by (simp add: Let_def)
qed

text \<open>C21. Where the request of a call goes.  A path argument other than '.' and '..' stays in its segment: the
  request's path is /api and the path of the operation, with the argument encoded in place of the
  parameter, of unreserved characters and percent signs, and has as many segments.  The arguments '.'
  and '..' are not encoded and new URL() resolves them: the segment disappears, with '..' the name of the
  collection before it too, and the request goes to another path, with the method of the operation.\<close>

theorem mcp_url:
  assumes "load_catalog doc = Inr cat" "prepare_call cat scope auth a = Inr q"
  shows "\<exists>op\<in>set MCP_OPERATIONS. mc_name op = ca_operation a \<and> mq_method q = mc_method op \<and>
    (CHR ''{'' \<notin> set (mc_path op) \<and> wire_path q = ''/api'' @ mc_path op \<or>
     (\<exists>c post arg. mc_path op = CHR ''/'' # c @ ''/{uuid}'' @ post \<and> CHR ''/'' \<notin> set c \<and>
       arg = coalesce (mget (coalesce (ca_path a) []) ''uuid'') ''undefined'' \<and>
       (\<forall>x\<in>set (uri_component arg). x = CHR 0x25 \<or> uri_safe x) \<and>
       wire_path q = (if arg = ''.'' then ''/api/'' @ c @ CHR ''/'' # tl post else if arg = ''..'' then ''/api/'' @ tl post
         else ''/api/'' @ c @ CHR ''/'' # uri_component arg @ post) \<and>
       (arg \<notin> {''.'', ''..''} \<longrightarrow> length (split_on (CHR ''/'') (wire_path q)) = length (split_on (CHR ''/'') (''/api'' @ mc_path op)))))"
proof -
  let ?f = "\<lambda>p. uri_component (coalesce (mget (coalesce (ca_path a) []) p) ''undefined'')"
  let ?arg = "coalesce (mget (coalesce (ca_path a) []) ''uuid'') ''undefined''"
  obtain op where op: "op \<in> set MCP_OPERATIONS" "mc_name op = ca_operation a" "mq_method q = mc_method op" "mq_url q = fill_path ?f (mc_path op)"
    using resolved [OF assms] by metis
  from op(1) show ?thesis
  proof (cases rule: operation_path)
    case (plain p)
    then have "wire_path q = ''/api'' @ mc_path op"
      using op(4) fill_plain [of "mc_path op"] plain_path [of p] by (simp add: wire_path_def)
    then show ?thesis using op plain by (intro bexI [OF _ op(1)]) simp
  next
    case (with_id c post)
    have "CHR ''{'' \<notin> set post" using with_id(5) by (auto simp: rest_ok_def)
    then have f: "mq_url q = CHR ''/'' # c @ CHR ''/'' # uri_component ?arg @ post"
      using op(4) with_id(1,3) fill_template [of "CHR ''/'' # c @ ''/''" post ?f] by (simp add: MCP_ID_def)
    then have w: "wire_path q = (if ?arg = ''.'' then ''/api/'' @ c @ CHR ''/'' # tl post else if ?arg = ''..'' then ''/api/'' @ tl post
         else ''/api/'' @ c @ CHR ''/'' # uri_component ?arg @ post)"
      using segment_path [OF with_id(2,4,5) refl, of ?arg] by (simp add: wire_path_def)
    have n: "length (split_on (CHR ''/'') (wire_path q)) = length (split_on (CHR ''/'') (''/api'' @ mc_path op))" if "?arg \<notin> {''.'', ''..''}"
    proof -
      have "filter (\<lambda>x. x = CHR ''/'') (uri_component ?arg) = []" using uri_no_slash [of ?arg] by (auto simp: filter_empty_conv)
      then show ?thesis using that w with_id(1) by (simp add: split_on_length)
    qed
    have u: "\<forall>x\<in>set (uri_component ?arg). x = CHR 0x25 \<or> uri_safe x"
      using uri_component_url by (auto simp: url_char_def)
    show ?thesis
      by (intro bexI [OF _ op(1)] conjI op(2,3) disjI2 exI [of _ c] exI [of _ post] exI [of _ ?arg] with_id(1,2) refl u w impI n)
  qed
qed

theorem mcp_url_witness: "wire_path (up_request ''..'') = ''/api/''"
proof -
  obtain op where op: "op \<in> set MCP_OPERATIONS" "mc_name op = ''services.delete''"
    and w: "CHR ''{'' \<notin> set (mc_path op) \<or>
      (\<exists>c post. mc_path op = CHR ''/'' # c @ ''/{uuid}'' @ post \<and> CHR ''/'' \<notin> set c \<and> wire_path (up_request ''..'') = ''/api/'' @ tl post)"
    using mcp_url [OF doc_loaded up_prepared] by (auto simp: up_args_def mget_def)
  have p: "mc_path op = ''/services'' @ ''/{uuid}''" using delete_path [OF op] by simp
  then obtain c post where e: "CHR ''/'' # c @ ''/{uuid}'' @ post = ''/services'' @ ''/{uuid}''" "CHR ''/'' \<notin> set c"
      "wire_path (up_request ''..'') = ''/api/'' @ tl post"
    using w by auto
  have "takeWhile (\<lambda>x. x \<noteq> CHR ''/'') (c @ ''/{uuid}'' @ post) = c" using e(2) by (subst takeWhile_append2) auto
  then have "c = ''services''" using e(1) by simp
  then show ?thesis using e by simp
qed

text \<open>Inlining the references of a schema ends, whatever cycles the components have, and leaves no
  reference behind, if in the schema and in the components no reference has a sibling with references
  of its own.\<close>

theorem inline_refs_closed:
  assumes "\<forall>(k, t)\<in>set cs. refs_alone (JObj t)" "refs_alone j"
  shows "\<not> has_ref (inline_refs cs [] j)"
  by (rule inline_ref_free [OF assms])

theorem inline_refs_closed_witness:
  "\<not> has_ref (inline_refs [(''Node'', [(''child'', JObj [(''$ref'', JStr ''#/components/schemas/Node'')])])] []
     (JArr [JObj [(''$ref'', JStr ''#/components/schemas/Node'')]]))"
  by (rule inline_refs_closed) (simp_all add: ref_name_def mget_def starts_with_def REF_PREFIX_def)

end
