(* ===== verification/Totp.thy ===== *)
theory Totp
  imports Json "HOL-Library.Word"
begin

text \<open>
  connectors/common/totp.ts: the base32 reader of authenticator secrets and the one-time code of
  RFC 6238.  Numbers under a bit operator are 32-bit words, as in JavaScript.  HMAC-SHA1 is a parameter
  that gives the bytes of the digest.
\<close>

unbundle bit_operations_syntax

section \<open>base32Decode\<close>

text \<open>String.toUpperCase on the Latin-1 range: the sharp s has two letters, three letters leave the range or have no upper case.\<close>

definition upper_char :: "char \<Rightarrow> string" where
  "upper_char c = (let n = ccode c in
     if 97 \<le> n \<and> n \<le> 122 \<or> 224 \<le> n \<and> n \<le> 254 \<and> n \<noteq> 247 then [char_of (n - 32)]
     else if n = 223 then ''SS'' else [c])"

definition to_upper :: "string \<Rightarrow> string" where "to_upper s = concat (map upper_char s)"

definition B32_ALPHABET :: string where "B32_ALPHABET = ''ABCDEFGHIJKLMNOPQRSTUVWXYZ234567''"

definition b32_index :: "char \<Rightarrow> nat option" where
  "b32_index c = (let i = length (takeWhile (\<lambda>x. x \<noteq> c) B32_ALPHABET) in if i < 32 then Some i else None)"

text \<open>The accumulator, the number of its bits not yet written, and the bytes written.\<close>

type_synonym b32_state = "32 word \<times> nat \<times> nat list"

definition b32_step :: "b32_state \<Rightarrow> char \<Rightarrow> b32_state" where
  "b32_step st c = (case st of (v, bits, out) \<Rightarrow>
     (case b32_index c of None \<Rightarrow> (v, bits, out)
      | Some i \<Rightarrow> let v' = push_bit 5 v OR word_of_nat i; bits' = bits + 5 in
          if 8 \<le> bits' then (v', bits' - 8, out @ [unat (drop_bit (bits' - 8) v' AND 0xff)]) else (v', bits', out)))"

definition base32_decode :: "string \<Rightarrow> nat list" where
  "base32_decode secret = snd (snd (foldl b32_step (0, 0, []) (to_upper (filter (\<lambda>c. \<not> js_space c \<and> c \<noteq> CHR ''='') secret))))"

section \<open>totpCode\<close>

text \<open>The eight bytes of the counter, written from the last to the first.\<close>

fun counter_bytes :: "nat \<Rightarrow> int \<Rightarrow> nat list \<Rightarrow> nat list" where
  "counter_bytes 0 counter buf = buf"
| "counter_bytes (Suc i) counter buf = counter_bytes i (counter div 256) (nat (counter mod 256) # buf)"

definition truncated_hash :: "nat list \<Rightarrow> 32 word" where
  "truncated_hash h = (let o1 = unat ((word_of_nat (last h) :: 32 word) AND 0x0f); b = (\<lambda>i. word_of_nat (h ! i) :: 32 word) in
     push_bit 24 (b o1 AND 0x7f) OR push_bit 16 (b (o1 + 1) AND 0xff) OR push_bit 8 (b (o1 + 2) AND 0xff) OR (b (o1 + 3) AND 0xff))"

definition pad_start :: "nat \<Rightarrow> char \<Rightarrow> string \<Rightarrow> string" where
  "pad_start n c s = replicate (n - length s) c @ s"

definition totp_code :: "(nat list \<Rightarrow> nat list \<Rightarrow> nat list) \<Rightarrow> string \<Rightarrow> ms \<Rightarrow> string" where
  "totp_code hmac secret t =
     (let h = hmac (base32_decode secret) (counter_bytes 8 (t div 30000) [])
      in pad_start 6 (CHR ''0'') (nat_text (unat (truncated_hash h) mod 1000000)))"

section \<open>The bits of a secret\<close>

definition bits_number :: "bool list \<Rightarrow> nat" where
  "bits_number bs = foldl (\<lambda>n b. 2 * n + of_bool b) 0 bs"

definition five_bits :: "nat \<Rightarrow> bool list" where
  "five_bits n = map (\<lambda>k. odd (n div 2 ^ k)) [4, 3, 2, 1, 0]"

text \<open>Groups of eight; an incomplete last group is dropped.\<close>

fun octet_groups :: "bool list \<Rightarrow> nat list" where
  "octet_groups (a # b # c # d # e # f # g # h # bs) = bits_number [a, b, c, d, e, f, g, h] # octet_groups bs"
| "octet_groups bs = []"

definition secret_digits :: "string \<Rightarrow> nat list" where
  "secret_digits s = List.map_filter b32_index (to_upper (filter (\<lambda>c. \<not> js_space c \<and> c \<noteq> CHR ''='') s))"

lemma bits_number_from: "foldl (\<lambda>n b. 2 * n + of_bool b) m bs = m * 2 ^ length bs + bits_number bs"
proof (induction bs arbitrary: m)
  case (Cons b bs)
  show ?case using Cons [of "2 * m + of_bool b"] Cons [of "of_bool b"] by (simp add: bits_number_def algebra_simps)
qed (simp add: bits_number_def)

lemma bits_number_append: "bits_number (a @ b) = bits_number a * 2 ^ length b + bits_number b"
  using bits_number_from [of "bits_number a" b] by (simp add: bits_number_def)

lemma bits_number_less: "bits_number bs < 2 ^ length bs"
proof (induction bs rule: rev_induct)
  case (snoc b bs)
  then show ?case by (simp add: bits_number_append) (simp add: bits_number_def)
qed (simp add: bits_number_def)

lemma five_bits_number: "n < 32 \<Longrightarrow> bits_number (five_bits n) = n"
proof -
  assume "n < 32"
  then have "n \<in> set [0..<32]" by simp
  moreover have "list_all (\<lambda>n. bits_number (five_bits n) = n) [0..<32]" by code_simp
  ultimately show ?thesis by (simp only: list_all_iff)
qed

lemma five_bits_length [simp]: "length (five_bits n) = 5"
  by (simp add: five_bits_def)

lemma b32_index_less: "b32_index c = Some i \<Longrightarrow> i < 32"
  by (simp add: b32_index_def Let_def split: if_splits)

lemma unat_join: "i < 2 ^ k \<Longrightarrow> unat (push_bit k v OR word_of_nat i :: 32 word) = (unat v * 2 ^ k + i) mod 2 ^ 32"
proof -
  assume i: "i < 2 ^ k"
  have d: "push_bit k v OR word_of_nat i = push_bit k v + (word_of_nat i :: 32 word)"
  proof (rule disjunctive_add [symmetric])
    fix n
    have "take_bit k (word_of_nat i :: 32 word) = word_of_nat (take_bit k i)" by (rule take_bit_of_nat)
    also have "take_bit k i = i" using i by (simp add: take_bit_eq_mod)
    finally have "\<not> bit (word_of_nat i :: 32 word) n" if "k \<le> n" using that by (metis bit_take_bit_iff not_less)
    then show "\<not> bit (push_bit k v) n \<or> \<not> bit (word_of_nat i :: 32 word) n" by (auto simp: bit_push_bit_iff)
  qed
  have "push_bit k v = v * 2 ^ k" by (simp add: push_bit_eq_mult)
  then have "push_bit k v OR word_of_nat i = word_of_nat (unat v * 2 ^ k + i)" unfolding d by simp
  moreover have "unat (word_of_nat n :: 32 word) = n mod 2 ^ 32" for n by (simp add: unat_of_nat)
  ultimately show ?thesis by (simp only:)
qed

lemma unat_shift_or: "i < 32 \<Longrightarrow> unat (push_bit 5 v OR word_of_nat i :: 32 word) = (unat v * 32 + i) mod 2 ^ 32"
  using unat_join [of i 5 v] by simp

lemma unat_byte: "unat (drop_bit k v AND 0xff :: 32 word) = unat v div 2 ^ k mod 256"
proof -
  have "(0xff :: 32 word) = mask 8" by (simp add: mask_eq_exp_minus_1)
  then have "drop_bit k v AND 0xff = take_bit 8 (drop_bit k v)" by (simp add: take_bit_eq_mask)
  then show ?thesis by (simp only: unsigned_take_bit_eq unat_drop_bit_eq) (simp add: take_bit_eq_mod drop_bit_eq_div)
qed

lemma octet_groups_eq: "octet_groups bs = (if 8 \<le> length bs then bits_number (take 8 bs) # octet_groups (drop 8 bs) else [])"
  by (induction bs rule: octet_groups.induct) simp_all

lemma octet_groups_append: "length a = 8 * n \<Longrightarrow> octet_groups (a @ b) = octet_groups a @ octet_groups b"
proof (induction n arbitrary: a)
  case (Suc n)
  then have "octet_groups (drop 8 a @ b) = octet_groups (drop 8 a) @ octet_groups b" by simp
  moreover have "octet_groups (a @ b) = bits_number (take 8 a) # octet_groups (drop 8 a @ b)"
    using Suc.prems octet_groups_eq [of "a @ b"] by simp
  moreover have "octet_groups a = bits_number (take 8 a) # octet_groups (drop 8 a)"
    using Suc.prems octet_groups_eq [of a] by simp
  ultimately show ?case by simp
qed simp

lemma octet_groups_one: "length a = 8 \<Longrightarrow> octet_groups a = [bits_number a]"
  using octet_groups_eq [of a] by simp

lemma shift_split: "(x::nat) * 32 + i = (x div m) * (m * 32) + (x mod m * 32 + i)"
proof -
  have "x * 32 = (x div m * m + x mod m) * 32" by simp
  also have "\<dots> = x div m * (m * 32) + x mod m * 32" by (simp only: distrib_right mult.assoc)
  finally show ?thesis by linarith
qed

lemma power_byte: "8 \<le> n \<Longrightarrow> (2::nat) ^ n = 2 ^ (n - 8) * 256"
proof -
  assume "8 \<le> n"
  then have "(2::nat) ^ n = 2 ^ (n - 8) * 2 ^ 8" by (simp only: power_add [symmetric] le_add_diff_inverse2)
  then show ?thesis by simp
qed

lemma mod_low: "r < m \<Longrightarrow> (q * m + r) mod m = (r::nat)"
  by simp

text \<open>
  What the loop keeps: the bits written are whole groups, and the low bits of the accumulator are those
  of the rest, however much has been shifted out of the 32.
\<close>

definition b32_inv :: "nat list \<Rightarrow> b32_state \<Rightarrow> bool" where
  "b32_inv ds st = (case st of (v, k, out) \<Rightarrow> \<exists>full rest n. concat (map five_bits ds) = full @ rest \<and> length full = 8 * n \<and>
     length rest = k \<and> k < 8 \<and> out = octet_groups full \<and> unat v mod 2 ^ k = bits_number rest)"

lemma b32_invI:
  "concat (map five_bits ds) = full @ rest \<Longrightarrow> length full = 8 * n \<Longrightarrow> length rest = k \<Longrightarrow> k < 8 \<Longrightarrow>
   octet_groups full = out \<Longrightarrow> unat v mod 2 ^ k = bits_number rest \<Longrightarrow> b32_inv ds (v, k, out)"
  unfolding b32_inv_def prod.case by (intro exI conjI) (erule sym | assumption)+

lemma b32_step_inv:
  assumes "b32_inv ds (v, k, out)" "b32_index c = Some i"
  shows "b32_inv (ds @ [i]) (b32_step (v, k, out) c)"
proof -
  obtain full rest n where inv: "concat (map five_bits ds) = full @ rest" "length full = 8 * n" "length rest = k" "k < 8"
      "out = octet_groups full" "unat v mod 2 ^ k = bits_number rest"
    using assms(1) unfolding b32_inv_def by auto
  let ?v = "push_bit 5 v OR word_of_nat i :: 32 word" and ?rest = "rest @ five_bits i"
  have i: "i < 32" using assms(2) by (rule b32_index_less)
  have all: "concat (map five_bits (ds @ [i])) = full @ ?rest" using inv(1) by simp
  have number: "bits_number ?rest = bits_number rest * 32 + i" using five_bits_number [OF i] by (simp add: bits_number_append)
  have low: "unat ?v mod 2 ^ (k + 5) = bits_number ?rest"
  proof -
    have "(2::nat) ^ (k + 5) dvd 2 ^ 32" using inv(4) by (intro le_imp_power_dvd) simp
    then have "unat ?v mod 2 ^ (k + 5) = (unat v * 32 + i) mod 2 ^ (k + 5)"
      using unat_shift_or [OF i, of v] by (simp add: mod_mod_cancel)
    also have "\<dots> = (unat v mod 2 ^ k) * 32 + i"
    proof -
      have "unat v * 32 + i = (unat v div 2 ^ k) * 2 ^ (k + 5) + ((unat v mod 2 ^ k) * 32 + i)"
        using shift_split [of "unat v" i "2 ^ k"] by (simp add: power_add)
      moreover have "(unat v mod 2 ^ k) * 32 + i < 2 ^ (k + 5)"
      proof -
        have "unat v mod 2 ^ k < 2 ^ k" by simp
        then have "unat v mod 2 ^ k + 1 \<le> 2 ^ k" by linarith
        then have "(unat v mod 2 ^ k + 1) * 32 \<le> 2 ^ k * 32" by (rule mult_le_mono1)
        then show ?thesis using i by (simp add: power_add)
      qed
      ultimately show ?thesis by (simp only: mod_low)
    qed
    finally show ?thesis using inv(6) number by simp
  qed
  show ?thesis
  proof (cases "8 \<le> k + 5")
    case False
    then have "b32_step (v, k, out) c = (?v, k + 5, out)" using assms(2) by (simp add: b32_step_def Let_def)
    moreover have "b32_inv (ds @ [i]) (?v, k + 5, out)"
      unfolding b32_inv_def prod.case using all inv(2,3,5) low False
      by (intro exI [of _ full] exI [of _ ?rest] exI [of _ n]) simp
    ultimately show ?thesis by simp
  next
    case True
    let ?j = "k + 5 - 8"
    have parts: "?rest = take 8 ?rest @ drop 8 ?rest" by (rule append_take_drop_id [symmetric])
    have lens: "length (take 8 ?rest) = 8" "length (drop 8 ?rest) = ?j" using inv(3) True by simp_all
    have n2: "bits_number ?rest = bits_number (take 8 ?rest) * 2 ^ ?j + bits_number (drop 8 ?rest)"
      using bits_number_append [of "take 8 ?rest" "drop 8 ?rest"] lens(2) by (simp only: append_take_drop_id)
    have small: "bits_number (drop 8 ?rest) < 2 ^ ?j" "bits_number (take 8 ?rest) < 256"
      using bits_number_less [of "drop 8 ?rest"] bits_number_less [of "take 8 ?rest"] lens by simp_all
    have e: "(2::nat) ^ (k + 5) = 2 ^ ?j * 256" using True by (rule power_byte)
    have "unat ?v mod 2 ^ ?j = unat ?v mod 2 ^ (k + 5) mod 2 ^ ?j" unfolding e by (simp add: mod_mod_cancel)
    also have "\<dots> = bits_number (drop 8 ?rest)" unfolding low n2 using small(1) by simp
    finally have rest: "unat ?v mod 2 ^ ?j = bits_number (drop 8 ?rest)" .
    have "unat ?v div 2 ^ ?j mod 256 = unat ?v mod 2 ^ (k + 5) div 2 ^ ?j" unfolding e by (simp add: mod_mult2_eq)
    also have "\<dots> = bits_number (take 8 ?rest)" unfolding low n2 using small(1) by simp
    finally have byte: "unat (drop_bit ?j ?v AND 0xff) = bits_number (take 8 ?rest)" by (simp only: unat_byte)
    have "b32_step (v, k, out) c = (?v, ?j, out @ [bits_number (take 8 ?rest)])"
      using assms(2) True byte by (simp add: b32_step_def Let_def)
    moreover have "octet_groups (full @ take 8 ?rest) = out @ [bits_number (take 8 ?rest)]"
    proof -
      have "octet_groups (take 8 ?rest) = [bits_number (take 8 ?rest)]"
        using lens(1) by (rule octet_groups_one)
      then show ?thesis using octet_groups_append [OF inv(2), of "take 8 ?rest"] inv(5) by simp
    qed
    moreover have "concat (map five_bits (ds @ [i])) = (full @ take 8 ?rest) @ drop 8 ?rest"
      unfolding all append_assoc append_take_drop_id ..
    moreover have "length (full @ take 8 ?rest) = 8 * Suc n" using inv(2) lens(1) by (simp only: length_append mult_Suc_right add.commute)
    moreover have "?j < 8" using inv(4) by simp
    ultimately show ?thesis using lens(2) rest by (simp only: b32_invI)
  qed
qed

lemma b32_skip: "b32_index c = None \<Longrightarrow> b32_step st c = st"
  by (simp add: b32_step_def split: prod.split)

lemma b32_run: "b32_inv ds st \<Longrightarrow> b32_inv (ds @ List.map_filter b32_index s) (foldl b32_step st s)"
proof (induction s arbitrary: ds st)
  case (Cons c s)
  obtain v k out where st: "st = (v, k, out)" by (metis prod.exhaust)
  show ?case
  proof (cases "b32_index c")
    case None
    then show ?thesis using Cons by (simp add: b32_skip map_filter_simps)
  next
    case (Some i)
    then show ?thesis using Cons.IH [OF b32_step_inv [OF Cons.prems [unfolded st] Some]] st by (simp add: map_filter_simps)
  qed
qed (simp add: map_filter_simps)

lemma octet_groups_rest: "length full = 8 * n \<Longrightarrow> length rest < 8 \<Longrightarrow> octet_groups (full @ rest) = octet_groups full"
  using octet_groups_eq [of rest] by (simp add: octet_groups_append)

lemma base32_bits: "base32_decode s = octet_groups (concat (map five_bits (secret_digits s)))"
proof -
  have "b32_inv [] (0, 0, [])" by (auto simp: b32_inv_def bits_number_def)
  from b32_run [OF this, of "to_upper (filter (\<lambda>c. \<not> js_space c \<and> c \<noteq> CHR ''='') s)"] show ?thesis
    unfolding base32_decode_def secret_digits_def b32_inv_def by (auto simp: octet_groups_rest split: prod.splits)
qed

section \<open>The truncated hash\<close>

lemma counter_bytes_eq: "counter_bytes n c buf = map (\<lambda>i. nat (c div 256 ^ i mod 256)) (rev [0..<n]) @ buf"
proof (induction n arbitrary: c buf)
  case (Suc n)
  have m: "rev [0..<Suc n] = map Suc (rev [0..<n]) @ [0]"
  proof -
    have "[0..<Suc n] = 0 # map Suc [0..<n]" by (simp add: map_Suc_upt upt_conv_Cons del: upt_Suc)
    then show ?thesis by (simp add: rev_map del: upt_Suc)
  qed
  have "c div 256 div 256 ^ i = c div 256 ^ Suc i" for i :: nat by (simp add: zdiv_zmult2_eq)
  then show ?case using Suc [of "c div 256" "nat (c mod 256) # buf"] unfolding m by (simp add: comp_def)
qed simp

lemma unat_and_mask: "unat (word_of_nat n AND mask k :: 32 word) = n mod 2 ^ 32 mod 2 ^ k"
  by (simp only: take_bit_eq_mask [symmetric] unsigned_take_bit_eq) (simp add: take_bit_eq_mod unat_of_nat)

text \<open>The 31-bit number of RFC 4226.\<close>

definition hash_value :: "nat list \<Rightarrow> nat" where
  "hash_value h = (let o1 = last h mod 16 in h ! o1 mod 128 * 2 ^ 24 + h ! (o1 + 1) * 2 ^ 16 + h ! (o1 + 2) * 2 ^ 8 + h ! (o1 + 3))"

lemma truncated_hash_value:
  assumes "length h = 20" "\<forall>b\<in>set h. b < 256"
  defines "o1 \<equiv> last h mod 16"
  shows "unat (truncated_hash h) = h ! o1 mod 128 * 2 ^ 24 + h ! (o1 + 1) * 2 ^ 16 + h ! (o1 + 2) * 2 ^ 8 + h ! (o1 + 3)"
proof -
  have b: "h ! i < 256" if "i < 20" for i using assms(1,2) that by simp
  have l: "last h < 256" using assms(1,2) by (metis last_in_set length_0_conv zero_neq_numeral)
  have m: "(0xff :: 32 word) = mask 8" "(0x7f :: 32 word) = mask 7" "(0x0f :: 32 word) = mask 4" by (simp_all add: mask_eq_exp_minus_1)
  have o1: "unat ((word_of_nat (last h) :: 32 word) AND 0x0f) = o1" unfolding m unat_and_mask o1_def using l by simp
  have "o1 < 16" by (simp add: o1_def)
  then have h: "h ! o1 < 256" "h ! (o1 + 1) < 256" "h ! (o1 + 2) < 256" "h ! (o1 + 3) < 256" using b by simp_all
  have byte: "word_of_nat n AND 0xff = (word_of_nat n :: 32 word)" if "n < 256" for n
  proof -
    have "unat (word_of_nat n AND 0xff :: 32 word) = unat (word_of_nat n :: 32 word)"
      unfolding m unat_and_mask using that by (simp add: unat_of_nat)
    then show ?thesis by (simp only: word_unat_eq_iff)
  qed
  let ?x = "word_of_nat (h ! o1) AND 0x7f :: 32 word"
  have x: "unat ?x = h ! o1 mod 128" unfolding m unat_and_mask using h(1) by simp
  let ?y = "push_bit 8 ?x OR word_of_nat (h ! (o1 + 1))" let ?z = "push_bit 8 ?y OR word_of_nat (h ! (o1 + 2))"
  have "truncated_hash h = push_bit 8 ?z OR word_of_nat (h ! (o1 + 3))"
    unfolding truncated_hash_def Let_def o1 byte [OF h(2)] byte [OF h(3)] byte [OF h(4)] push_bit_or push_bit_push_bit or.assoc
    by simp
  moreover have y: "unat ?y = h ! o1 mod 128 * 256 + h ! (o1 + 1)" using unat_join [of "h ! (o1 + 1)" 8 ?x] h x by simp
  moreover have z: "unat ?z = (h ! o1 mod 128 * 256 + h ! (o1 + 1)) * 256 + h ! (o1 + 2)"
    using unat_join [of "h ! (o1 + 2)" 8 ?y] h y by simp
  moreover have "unat (push_bit 8 ?z OR word_of_nat (h ! (o1 + 3))) = unat ?z * 256 + h ! (o1 + 3)"
    using unat_join [of "h ! (o1 + 3)" 8 ?z] h z by simp
  ultimately show ?thesis by simp
qed

lemma nat_text_at_most: "n < 10 ^ Suc k \<Longrightarrow> length (nat_text n) \<le> Suc k"
proof (induction k arbitrary: n)
  case 0
  then show ?case by (subst nat_text.simps) simp
next
  case (Suc k)
  then have "n div 10 < 10 ^ Suc k" by (simp add: less_mult_imp_div_less)
  from Suc.IH [OF this] show ?case by (subst nat_text.simps) simp
qed

lemma six_digits:
  assumes "s = pad_start 6 (CHR ''0'') (nat_text (m mod 1000000))"
  shows "length s = 6" "\<forall>c\<in>set s. is_digit c" "number_of_digits s = m mod 1000000"
proof -
  obtain n where n: "n = m mod 1000000" "n < 1000000" by simp
  have "n < 10 ^ Suc 5" using n(2) by simp
  from nat_text_at_most [OF this] have l: "length (nat_text n) \<le> 6" by (simp del: nat_text.simps)
  have s: "s = replicate (6 - length (nat_text n)) (CHR ''0'') @ nat_text n" unfolding assms pad_start_def n(1) ..
  show "length s = 6" unfolding s length_append length_replicate using l by (rule le_add_diff_inverse2)
  show "\<forall>c\<in>set s. is_digit c" using nat_text_digits [of n] unfolding s by (auto simp: is_digit_def simp del: nat_text.simps)
  have "number_of_digits (replicate k (CHR ''0'')) = 0" for k
    by (induction k) (simp_all add: number_of_digits_def)
  then show "number_of_digits s = m mod 1000000"
    unfolding s n(1) [symmetric] number_of_digits_append using nat_text_value [of n, unfolded number_of_digits_def] by simp
qed

section \<open>Properties\<close>

definition zero_hmac :: "nat list \<Rightarrow> nat list \<Rightarrow> nat list" where
  "zero_hmac key msg = replicate 19 (sum_list msg mod 256) @ [16 * (length key mod 16)]"

lemma zero_hmac_length: "length (zero_hmac k m) = 20"
  by (simp add: zero_hmac_def)

lemma zero_hmac_bytes: "\<forall>b\<in>set (zero_hmac k m). b < 256"
proof -
  have "16 * (n mod 16) < 256" for n :: nat using mod_less_divisor [of 16 n] by linarith
  moreover have "n mod 256 < 256" for n :: nat by (rule mod_less_divisor) simp
  ultimately show ?thesis by (simp only: zero_hmac_def set_append set_replicate_conv_if list.set ball_Un) auto
qed

text \<open>C31. The one-time code: the key is the secret's base32 letters and digits read as one string of bits, five
  each, cut into bytes (white space, padding and case do not matter, other characters are skipped, and
  the 32-bit accumulator loses nothing); the message is the number of half minutes as eight bytes, the
  highest first; the code is the six last decimal digits, zeros kept, of the 31-bit number at the offset
  the digest's last byte gives.  So the code is one of six digits and the same within a half minute.\<close>

theorem totp_code_spec:
  assumes "\<And>k m. length (hmac k m) = 20" "\<And>k m. \<forall>b\<in>set (hmac k m). b < 256"
  shows "let h = hmac (octet_groups (concat (map five_bits (secret_digits secret))))
        (map (\<lambda>i. nat (t div 30000 div 256 ^ i mod 256)) [7, 6, 5, 4, 3, 2, 1, 0]); code = totp_code hmac secret t in
    length code = 6 \<and> (\<forall>c\<in>set code. is_digit c) \<and> number_of_digits code = hash_value h mod 1000000 \<and>
    (\<forall>t'. t' div 30000 = t div 30000 \<longrightarrow> totp_code hmac secret t' = code)"
proof -
  let ?h = "hmac (octet_groups (concat (map five_bits (secret_digits secret)))) (map (\<lambda>i. nat (t div 30000 div 256 ^ i mod 256)) [7, 6, 5, 4, 3, 2, 1, 0])"
  let ?n = "hash_value ?h mod 1000000"
  have r: "rev [0..<8] = [7, 6, 5, 4, 3, 2, 1, 0 :: nat]" by code_simp
  have "hmac (base32_decode secret) (counter_bytes 8 (t div 30000) []) = ?h"
    unfolding base32_bits counter_bytes_eq r append_Nil2 ..
  moreover have "unat (truncated_hash ?h) = hash_value ?h"
    unfolding hash_value_def Let_def by (rule truncated_hash_value) (rule assms)+
  ultimately have c: "totp_code hmac secret t = pad_start 6 (CHR ''0'') (nat_text ?n)"
    by (simp only: totp_code_def Let_def)
  have "totp_code hmac secret t' = totp_code hmac secret t" if "t' div 30000 = t div 30000" for t'
    unfolding totp_code_def that ..
  then have "\<forall>t'. t' div 30000 = t div 30000 \<longrightarrow> totp_code hmac secret t' = totp_code hmac secret t" by (intro allI impI)
  with six_digits [OF c] show ?thesis unfolding Let_def by (intro conjI)
qed

theorem totp_code_spec_witness: "length (totp_code zero_hmac ''jbsw y3dp'' 1700000000000) = 6 \<and> base32_decode ''jbsw y3dp'' = map of_char ''Hello''"
proof -
  have "length (totp_code zero_hmac ''jbsw y3dp'' 1700000000000) = 6"
    using totp_code_spec [of zero_hmac "''jbsw y3dp''" 1700000000000, OF zero_hmac_length zero_hmac_bytes]
    unfolding Let_def by (elim conjE)
  moreover have "base32_decode ''jbsw y3dp'' = map of_char ''Hello''" unfolding base32_bits by code_simp
  ultimately show ?thesis ..
qed

end
