(* ===== verification/Vendor.thy ===== *)
theory Vendor
  imports Sync Spend Totp
begin

text \<open>
  What the connectors share: the fall-back operator on texts, the optional fields of a service's
  meta, the sums per key that every consumption report is folded into, and connectors/common/currency.ts,
  whose labels are lists of code points because vendors write them in Cyrillic and with currency signs.
\<close>

section \<open>Texts and optional fields\<close>

text \<open>s || d on a text that may be absent.\<close>

definition or_text :: "string option \<Rightarrow> string \<Rightarrow> string" where
  "or_text s d = (case s of None \<Rightarrow> d | Some t \<Rightarrow> if t = [] then d else t)"

definition ends_with :: "string \<Rightarrow> string \<Rightarrow> bool" where
  "ends_with s suffix = (drop (length s - length suffix) s = suffix)"

text \<open>s.slice(0, -n) for a positive n.\<close>

definition drop_tail :: "nat \<Rightarrow> string \<Rightarrow> string" where
  "drop_tail n s = take (length s - n) s"

text \<open>A member of an object literal whose value may be undefined: it is not stored.\<close>

definition json_field :: "string \<Rightarrow> json option \<Rightarrow> json_obj" where
  "json_field k v = (case v of None \<Rightarrow> [] | Some j \<Rightarrow> [(k, j)])"

definition str_field :: "string \<Rightarrow> string option \<Rightarrow> json_obj" where
  "str_field k v = json_field k (map_option JStr v)"

lemma ends_with_split: "ends_with s x \<Longrightarrow> s = drop_tail (length x) s @ x"
  unfolding ends_with_def drop_tail_def by (metis append_take_drop_id)

lemma ends_with_append [simp]: "ends_with (p @ x) x" "drop_tail (length x) (p @ x) = p"
  by (simp_all add: ends_with_def drop_tail_def)

text \<open>A date that may be undefined or invalid.\<close>

definition next_of :: "ms option \<Rightarrow> next_billing" where
  "next_of t = (case t of None \<Rightarrow> Nb_undefined | Some x \<Rightarrow> Nb_date (Some x))"

text \<open>if (!s) return undefined; new Date(s), undefined when that is invalid; P is Date.parse.\<close>

definition parse_date :: "(string \<Rightarrow> ms option) \<Rightarrow> string option \<Rightarrow> ms option" where
  "parse_date P s = (case s of None \<Rightarrow> None | Some t \<Rightarrow> if t = [] then None else P t)"

lemma distinct_prefixed: "distinct xs \<Longrightarrow> distinct (map (\<lambda>k. p @ k) xs)"
  by (simp add: distinct_map inj_on_def)

lemma distinct_numbered: "distinct xs \<Longrightarrow> distinct (map (\<lambda>i. p @ nat_text i) xs)"
  unfolding distinct_map inj_on_def using nat_text_value by (metis same_append_eq)

section \<open>Sums per key\<close>

definition tally :: "decimal_lib \<Rightarrow> ('k \<times> rat) list \<Rightarrow> ('k \<times> rat) list" where
  "tally D es = foldl (\<lambda>m e. mbump (fst e) 0 (\<lambda>a. dadd D a (snd e)) m) [] es"

text \<open>What the entries of a key come to.\<close>

definition key_sum :: "('k \<times> rat) list \<Rightarrow> 'k \<Rightarrow> rat" where
  "key_sum es k = sum_list (map snd (filter (\<lambda>e. fst e = k) es))"

lemma key_sum_simps [simp]:
  "key_sum [] k = 0" "key_sum (e # es) k = (if fst e = k then snd e else 0) + key_sum es k"
  "key_sum (xs @ ys) k = key_sum xs k + key_sum ys k"
  by (simp_all add: key_sum_def)

lemma key_sum_absent: "k \<notin> fst ` set es \<Longrightarrow> key_sum es k = 0"
  by (induction es) auto

lemma tally_keys: "fst ` set (tally D es) = fst ` set es"
  unfolding tally_def by (simp add: group_fold_keys [where f = "\<lambda>a e. dadd D a (snd e)" and key = fst])

lemma tally_distinct: "distinct (map fst (tally D es))"
  unfolding tally_def by (rule group_fold_distinct) simp

lemma tally_get:
  "mget (tally D es) k = (if k \<in> fst ` set es then Some (foldl (dadd D) 0 (map snd (filter (\<lambda>e. fst e = k) es))) else None)"
proof -
  have "filter (\<lambda>e. fst e = k) es = [] \<longleftrightarrow> k \<notin> fst ` set es" by (auto simp: filter_empty_conv)
  then show ?thesis unfolding tally_def group_fold [where key = fst] by (simp add: foldl_map)
qed

lemma key_sum_split: "finite K \<Longrightarrow> fst ` set es \<subseteq> K \<Longrightarrow> (\<Sum>k\<in>K. key_sum es k) = sum_list (map snd es)"
  by (induction es) (simp_all add: sum.distrib)

lemma money_filter: "money_amounts (map f xs) \<Longrightarrow> money_amounts (map f (filter P xs))"
  by (auto simp: money_amounts_def)

lemma key_sum_le: "money_amounts (map snd es) \<Longrightarrow> key_sum es k \<le> sum_list (map snd es)"
proof (induction es)
  case (Cons e es)
  then have "0 \<le> snd e" "key_sum es k \<le> sum_list (map snd es)" by (auto simp: money_amounts_def)
  then show ?case by simp
qed simp

lemma key_sum_nonneg: "money_amounts (map snd es) \<Longrightarrow> 0 \<le> key_sum es k"
  unfolding key_sum_def by (rule money_sum_nonneg) (rule money_filter)

lemma sum_of_map: "distinct (map fst m) \<Longrightarrow> sum_list (map snd m) = (\<Sum>k\<in>fst ` set m. coalesce (mget m k) (0::rat))"
proof (induction m)
  case (Cons e m)
  have "(\<Sum>k\<in>fst ` set m. coalesce (mget (e # m) k) 0) = (\<Sum>k\<in>fst ` set m. coalesce (mget m k) 0)"
  proof (intro sum.cong refl)
    fix k assume "k \<in> fst ` set m"
    then have "k \<noteq> fst e" using Cons.prems by (metis distinct.simps(2) list.simps(9) set_map)
    then show "coalesce (mget (e # m) k) 0 = coalesce (mget m k) 0" by (simp add: mget_def)
  qed
  moreover have "mget (e # m) (fst e) = Some (snd e)" by (simp add: mget_def)
  ultimately show ?case using Cons by simp
qed simp

lemma foldl_filter: "foldl g m (filter P rows) = foldl (\<lambda>m r. if P r then g m r else m) m rows"
  by (induction rows arbitrary: m) simp_all

lemma positive_part: "(\<forall>e\<in>set m. 0 \<le> snd e) \<Longrightarrow> sum_list (map snd (filter (\<lambda>(k, v). \<not> v \<le> (0::rat)) m)) = sum_list (map snd m)"
  by (induction m) auto

lemma positive_distinct: "distinct (map fst (filter P (tally D es)))"
  by (rule distinct_map_filter) (rule tally_distinct)

context decimal_arith
begin

lemma tally_exact:
  assumes "money_amounts (map snd es)" "sum_list (map snd es) \<le> 10 ^ 17"
  shows "mget (tally D es) k = (if k \<in> fst ` set es then Some (key_sum es k) else None)"
proof -
  have "0 + sum_list (map snd (filter (\<lambda>e. fst e = k) es)) \<le> 10 ^ 17"
    using key_sum_le [OF assms(1), of k] assms(2) by (simp add: key_sum_def)
  then show ?thesis
    using dadd_fold_money [OF money_filter [OF assms(1), of "\<lambda>e. fst e = k"], of 0] by (simp add: tally_get key_sum_def is_cents_def)
qed

lemma tally_coalesce:
  assumes "money_amounts (map snd es)" "sum_list (map snd es) \<le> 10 ^ 17"
  shows "coalesce (mget (tally D es) k) 0 = key_sum es k"
  using tally_exact [OF assms] key_sum_absent [of k es] by simp

lemma tally_total:
  assumes "money_amounts (map snd es)" "sum_list (map snd es) \<le> 10 ^ 17"
  shows "sum_list (map snd (tally D es)) = sum_list (map snd es)"
  unfolding sum_of_map [OF tally_distinct] tally_coalesce [OF assms] tally_keys by (rule key_sum_split) auto

lemma tally_member:
  assumes "money_amounts (map snd es)" "sum_list (map snd es) \<le> 10 ^ 17" "e \<in> set (tally D es)"
  shows "snd e = key_sum es (fst e)" "0 \<le> snd e" "snd e \<le> 10 ^ 17"
proof -
  show e: "snd e = key_sum es (fst e)"
    using tally_exact [OF assms(1,2), of "fst e"] mget_of_mem [OF tally_distinct, of "fst e" "snd e"] assms(3)
    by (simp split: if_splits)
  show "0 \<le> snd e" "snd e \<le> 10 ^ 17"
    unfolding e using key_sum_nonneg [OF assms(1)] order_trans [OF key_sum_le [OF assms(1)] assms(2)] by auto
qed

text \<open>The days that cost something keep the whole sum.\<close>

lemma positive_total:
  assumes "money_amounts (map snd es)" "sum_list (map snd es) \<le> 10 ^ 17"
  shows "sum_list (map snd (filter (\<lambda>(k, v). \<not> v \<le> 0) (tally D es))) = sum_list (map snd es)"
  using positive_part [of "tally D es"] tally_member(2) [OF assms] tally_total [OF assms] by simp

end

section \<open>Currency labels\<close>

type_synonym label = "nat list"

definition label_of :: "string \<Rightarrow> label" where "label_of s = map of_char s"

definition CURRENCY_ALIASES :: "(label \<times> ccy) list" where
  "CURRENCY_ALIASES =
     [([1088, 1091, 1073], ''RUB''), ([1088], ''RUB''), ([8381], ''RUB''), (label_of ''rub'', ''RUB''),
      (label_of ''$'', ''USD''), (label_of ''usd'', ''USD''), (label_of ''us$'', ''USD''),
      ([8364], ''EUR''), (label_of ''eur'', ''EUR''), ([163], ''GBP''), (label_of ''gbp'', ''GBP''),
      ([8376], ''KZT''), (label_of ''kzt'', ''KZT''), ([8372], ''UAH''), (label_of ''uah'', ''UAH''),
      ([8378], ''TRY''), (label_of ''tl'', ''TRY''), (label_of ''try'', ''TRY''),
      (label_of ''usdt'', ''USDT''), ([8366], ''USDT'')]"

text \<open>The white space of trim and of the pattern class \s.\<close>

definition cp_space :: "nat \<Rightarrow> bool" where
  "cp_space n = (9 \<le> n \<and> n \<le> 13 \<or> n \<in> {32, 160, 5760, 8232, 8233, 8239, 8287, 12288, 65279} \<or> 8192 \<le> n \<and> n \<le> 8202)"

text \<open>
  String.toLowerCase on Latin-1, Cyrillic and the Kelvin sign: every other code point is mapped to code
  points that occur in no alias, and is in none itself, so it is left as it is.
\<close>

definition cp_lower :: "nat \<Rightarrow> nat" where
  "cp_lower n =
     (if 65 \<le> n \<and> n \<le> 90 \<or> 192 \<le> n \<and> n \<le> 222 \<and> n \<noteq> 215 \<or> 1040 \<le> n \<and> n \<le> 1071 then n + 32
      else if 1024 \<le> n \<and> n \<le> 1039 then n + 80 else if n = 8490 then 107 else n)"

definition trim_label :: "label \<Rightarrow> label" where
  "trim_label s = rev (dropWhile cp_space (rev (dropWhile cp_space s)))"

definition iso_label :: "label \<Rightarrow> bool" where
  "iso_label s = ((length s = 3 \<or> length s = 4) \<and> (\<forall>n\<in>set s. 65 \<le> n \<and> n \<le> 90))"

text \<open>The two names an object literal inherits that are lower-case words are not labels.\<close>

definition currency_key :: "label \<Rightarrow> label" where
  "currency_key s = filter (\<lambda>n. n \<noteq> 46 \<and> \<not> cp_space n) (map cp_lower s)"

definition normalize_currency :: "label option \<Rightarrow> ccy \<Rightarrow> ccy" where
  "normalize_currency raw fallback =
     (let s = trim_label (coalesce raw [])
      in if iso_label s then map char_of s else coalesce (map_of CURRENCY_ALIASES (currency_key s)) fallback)"

lemma label_of_back: "map char_of (label_of s) = s"
  by (simp add: label_of_def comp_def)

lemma iso_spaces: "iso_label s \<Longrightarrow> n \<in> set s \<Longrightarrow> \<not> cp_space n"
  by (auto simp: iso_label_def cp_space_def)

lemma trim_label_id: "(\<And>n. n \<in> set s \<Longrightarrow> \<not> cp_space n) \<Longrightarrow> trim_label s = s"
proof -
  assume n: "\<And>n. n \<in> set s \<Longrightarrow> \<not> cp_space n"
  have "dropWhile cp_space xs = xs" if "set xs \<subseteq> set s" for xs
    using n that by (cases xs) auto
  then show ?thesis by (simp add: trim_label_def)
qed

lemma alias_codes: "(k, c) \<in> set CURRENCY_ALIASES \<Longrightarrow> iso_label (label_of c)"
  by (auto simp: CURRENCY_ALIASES_def iso_label_def label_of_def)

text \<open>A normalised code is left alone by a second normalisation.\<close>

lemma normalize_idem:
  assumes "iso_label (label_of fallback)"
  shows "normalize_currency (Some (label_of (normalize_currency raw fallback))) fb = normalize_currency raw fallback"
proof -
  let ?s = "trim_label (coalesce raw [])"
  have id: "normalize_currency (Some (label_of c)) fb = c" if "iso_label (label_of c)" for c
    using that iso_spaces [OF that] by (simp add: normalize_currency_def trim_label_id label_of_back)
  show ?thesis
  proof (cases "iso_label ?s")
    case True
    then have "label_of (map char_of ?s) = ?s"
      by (auto simp: label_of_def iso_label_def intro!: map_idI)
    then show ?thesis using True id [of "map char_of ?s"] by (simp add: normalize_currency_def Let_def)
  next
    case False
    then have "normalize_currency raw fallback = coalesce (map_of CURRENCY_ALIASES (currency_key ?s)) fallback"
      by (simp add: normalize_currency_def Let_def)
    moreover have "iso_label (label_of (coalesce (map_of CURRENCY_ALIASES (currency_key ?s)) fallback))"
      using assms alias_codes map_of_SomeD by (cases "map_of CURRENCY_ALIASES (currency_key ?s)") fastforce+
    ultimately show ?thesis using id by metis
  qed
qed

lemma normalize_aliases:
  "normalize_currency (Some ([1056, 1091, 1073, 46])) ''USD'' = ''RUB''"
  "normalize_currency None ''USD'' = ''USD''"
  by (simp_all add: normalize_currency_def trim_label_def cp_space_def iso_label_def currency_key_def cp_lower_def
      CURRENCY_ALIASES_def label_of_def)

end
