(* ===== verification/Selectel.thy ===== *)
theory Selectel
  imports Vendor
begin

text \<open>
  connectors/selectel: the mapper (buckets folded from a Swift listing, consumption per resource,
  container and day, the cost window) and the connector, whose requests are parameters that give the
  replies.  Date.parse is a parameter; values are kopecks.
\<close>

section \<open>Replies\<close>

record swift_container =
  sw_name :: string
  sw_bytes :: "nat option"
  sw_count :: "nat option"
  sw_modified :: "string option"

text \<open>The chains row.project?.id, row.object?.id and so on are single optional fields here.\<close>

record consumption_row =
  cr_value :: "rat option"
  cr_period :: "string option"
  cr_provider_key :: "string option"
  cr_project :: "string option"
  cr_object :: "string option"
  cr_name :: "string option"
  cr_parent :: "string option"
  cr_region :: "string option"

datatype nova_image = Image_name string | Image_object "string option"

record nova_server =
  nv_id :: string
  nv_name :: "string option"
  nv_status :: "string option"
  nv_created :: "string option"
  nv_flavor :: "string option"
  nv_image :: "nova_image option"
  nv_addresses :: "json option"
  nv_zone :: "json option"

record neutron_router =
  nr_id :: string
  nr_name :: "string option"
  nr_status :: "string option"
  nr_created :: "string option"

record catalog_endpoint =
  ce_interface :: "string option"
  ce_region :: "string option"
  ce_url :: "string option"

record keystone_service =
  ca_type :: "string option"
  ca_endpoints :: "catalog_endpoint list"

record keystone_auth =
  ka_token :: string
  ka_catalog :: "keystone_service list"
  ka_project :: "string option"

record selectel_credentials =
  slc_account :: string
  slc_username :: string
  slc_password :: string
  slc_project :: "string option"

section \<open>selectel.mapper.ts\<close>

definition SELECTEL_COUNTRY :: "(string \<times> string) list" where
  "SELECTEL_COUNTRY = [(''ru'', ''RU''), (''gis'', ''RU''), (''kz'', ''KZ''), (''uz'', ''UZ''), (''ke'', ''KE'')]"

definition S3_PROVIDER_KEYS :: "string list" where
  "S3_PROVIDER_KEYS = [''storage'', ''private_storage'']"

definition selectel_country :: "string \<Rightarrow> string option" where
  "selectel_country region = map_of SELECTEL_COUNTRY (to_lower (hd (split_on (CHR ''-'') region)))"

definition map_selectel_server :: "nova_server \<Rightarrow> string \<Rightarrow> rat option \<Rightarrow> service_data" where
  "map_selectel_server s region daily =
     (let az = (case nv_zone s of Some (JStr z) \<Rightarrow> z | _ \<Rightarrow> []) in
      \<lparr> sd_external = nv_id s, sd_name = or_text (nv_name s) (''server-'' @ nv_id s), sd_type = ''vps'',
        sd_country = selectel_country (if region = [] then az else region), sd_cost = daily, sd_currency = None,
        sd_period = Some Daily, sd_next = Nb_undefined,
        sd_meta = [(''region'', JStr region), (''az'', JStr az)] @ str_field ''status'' (nv_status s) @
          str_field ''created'' (nv_created s) @ str_field ''flavorId'' (nv_flavor s) @
          str_field ''imageId'' (case nv_image s of None \<Rightarrow> None | Some (Image_name i) \<Rightarrow> Some i | Some (Image_object i) \<Rightarrow> i) @
          json_field ''addresses'' (nv_addresses s) \<rparr>)"

definition map_selectel_router :: "neutron_router \<Rightarrow> string \<Rightarrow> rat option \<Rightarrow> service_data" where
  "map_selectel_router r region daily =
     \<lparr> sd_external = nr_id r, sd_name = or_text (nr_name r) (''router-'' @ nr_id r), sd_type = ''other'',
       sd_country = selectel_country region, sd_cost = daily, sd_currency = None, sd_period = Some Daily, sd_next = Nb_undefined,
       sd_meta = [(''kind'', JStr ''router''), (''region'', JStr region)] @ str_field ''status'' (nr_status r) @
         str_field ''created'' (nr_created r) \<rparr>"

definition SEGMENT_SUFFIXES :: "string list" where
  "SEGMENT_SUFFIXES = [''_s3multipartuploads'', ''_segments'', ''.file-segments'']"

record bucket =
  bk_region :: string
  bk_name :: string
  bk_containers :: "string list"
  bk_bytes :: nat
  bk_objects :: nat
  bk_modified :: "string option"

text \<open>The parents the loop over the suffixes would return from, in its order.\<close>

definition seg_parents :: "string list \<Rightarrow> string \<Rightarrow> string list" where
  "seg_parents names name = filter (\<lambda>p. p \<noteq> [] \<and> p \<in> set names)
     (map (\<lambda>x. if ends_with name x then drop_tail (length x) name else []) SEGMENT_SUFFIXES)"

lemma seg_parent_split:
  assumes "p \<in> set (seg_parents names name)"
  shows "p \<noteq> []" "p \<in> set names" "\<exists>x\<in>set SEGMENT_SUFFIXES. name = p @ x"
  using assms ends_with_split by (force simp: seg_parents_def split: if_splits)+

lemma suffix_length: "x \<in> set SEGMENT_SUFFIXES \<Longrightarrow> 9 \<le> length x"
  by (auto simp: SEGMENT_SUFFIXES_def)

lemma seg_parent_length: "p \<in> set (seg_parents names name) \<Longrightarrow> length p + 9 \<le> length name"
  using seg_parent_split(3) suffix_length by force

function root_of :: "string list \<Rightarrow> string \<Rightarrow> string" where
  "root_of names name = (case seg_parents names name of [] \<Rightarrow> name | p # _ \<Rightarrow> root_of names p)"
  by pat_completeness auto
termination
proof (relation "measure (\<lambda>(names, name). length name)")
  fix names name p ps assume "seg_parents names name = p # ps"
  then have "p \<in> set (seg_parents names name)" by simp
  from seg_parent_length [OF this] show "((names, p), (names, name)) \<in> measure (\<lambda>(names, name). length name)" by simp
qed simp

declare root_of.simps [simp del]

definition new_bucket :: "string \<Rightarrow> string \<Rightarrow> bucket" where
  "new_bucket region name = \<lparr> bk_region = region, bk_name = name, bk_containers = [], bk_bytes = 0, bk_objects = 0, bk_modified = None \<rparr>"

definition add_container :: "swift_container \<Rightarrow> bucket \<Rightarrow> bucket" where
  "add_container c b =
     (let b1 = b \<lparr> bk_containers := bk_containers b @ [sw_name c], bk_bytes := bk_bytes b + coalesce (sw_bytes c) 0 \<rparr>
      in if bk_name b = sw_name c then b1 \<lparr> bk_objects := coalesce (sw_count c) 0, bk_modified := sw_modified c \<rparr> else b1)"

definition fold_swift_containers :: "swift_container list \<Rightarrow> string \<Rightarrow> bucket list" where
  "fold_swift_containers L region =
     (let names = map sw_name L
      in map snd (foldl (\<lambda>m c. mbump (root_of names (sw_name c)) (new_bucket region (root_of names (sw_name c))) (add_container c) m) [] L))"

definition add_resource :: "decimal_lib \<Rightarrow> string option \<Rightarrow> rat \<Rightarrow> (string \<times> rat) list \<Rightarrow> (string \<times> rat) list" where
  "add_resource D i v acc = (case i of None \<Rightarrow> acc | Some k \<Rightarrow> if k = [] then acc else mbump k 0 (\<lambda>a. dadd D a v) acc)"

definition consumption_by_resource :: "decimal_lib \<Rightarrow> consumption_row list \<Rightarrow> (string \<times> rat) list" where
  "consumption_by_resource D rows =
     foldl (\<lambda>m r. case cr_value r of None \<Rightarrow> m | Some v \<Rightarrow> add_resource D (cr_parent r) v (add_resource D (cr_object r) v m)) [] rows"

definition container_key :: "string \<Rightarrow> string \<Rightarrow> string" where
  "container_key region name = region @ CHR ''/'' # name"

definition s3_row :: "string \<Rightarrow> consumption_row \<Rightarrow> bool" where
  "s3_row project r = (coalesce (cr_provider_key r) [] \<in> set S3_PROVIDER_KEYS \<and> cr_project r = Some project)"

definition consumption_by_container :: "decimal_lib \<Rightarrow> consumption_row list \<Rightarrow> string \<Rightarrow> (string \<times> rat) list" where
  "consumption_by_container D rows project =
     foldl (\<lambda>m r. if \<not> s3_row project r then m
        else if \<not> truthy (cr_name r) \<or> \<not> truthy (cr_region r) \<or> cr_value r = None then m
        else mbump (container_key (the (cr_region r)) (the (cr_name r))) 0 (\<lambda>a. dadd D a (the (cr_value r))) m) [] rows"

definition s3_regions :: "consumption_row list \<Rightarrow> string \<Rightarrow> string list" where
  "s3_regions rows project =
     foldl (\<lambda>s r. if \<not> s3_row project r then s else if truthy (cr_region r) then List.insert (the (cr_region r)) s else s) [] rows"

definition bucket_kopecks :: "decimal_lib \<Rightarrow> bucket \<Rightarrow> (string \<times> rat) list \<Rightarrow> rat" where
  "bucket_kopecks D b by_container =
     foldl (\<lambda>t c. dadd D t (coalesce (mget by_container (container_key (bk_region b) c)) 0)) 0 (bk_containers b)"

definition MSK_OFFSET_MS :: ms where "MSK_OFFSET_MS = 10800000"

definition cost_window :: "int \<Rightarrow> ms \<Rightarrow> ms \<times> ms" where
  "cost_window days now =
     (let e = (now + MSK_OFFSET_MS) div MS_PER_DAY * MS_PER_DAY - MSK_OFFSET_MS in (e - days * MS_PER_DAY, e))"

definition covered_days :: "decimal_lib \<Rightarrow> (string \<Rightarrow> ms option) \<Rightarrow> string option \<Rightarrow> ms \<Rightarrow> ms \<Rightarrow> rat" where
  "covered_days D parse created start e =
     (let since = max start (coalesce (parse (coalesce created [])) 0) in max 0 (num_quot D (e - since) MS_PER_DAY))"

definition per_day :: "decimal_lib \<Rightarrow> rat option \<Rightarrow> rat \<Rightarrow> rat" where
  "per_day D kopecks days = (if 0 < days then ddiv D (ddiv D (coalesce kopecks 0) days) 100 else 0)"

definition map_selectel_bucket :: "bucket \<Rightarrow> string \<Rightarrow> rat option \<Rightarrow> service_data" where
  "map_selectel_bucket b project daily =
     \<lparr> sd_external = ''bucket:'' @ project @ '':'' @ bk_region b @ '':'' @ bk_name b, sd_name = bk_name b, sd_type = ''storage'',
       sd_country = selectel_country (bk_region b), sd_cost = daily, sd_currency = None, sd_period = Some Daily, sd_next = Nb_undefined,
       sd_meta = [(''region'', JStr (bk_region b)), (''bytes'', JNum (of_nat (bk_bytes b))), (''objects'', JNum (of_nat (bk_objects b)))] @
         str_field ''lastModified'' (bk_modified b) \<rparr>"

definition aggregate_consumption_by_day :: "decimal_lib \<Rightarrow> (string \<Rightarrow> ms option) \<Rightarrow> consumption_row list \<Rightarrow> payment_data list" where
  "aggregate_consumption_by_day D parse rows =
     (let acc = foldl (\<lambda>m r. let day = take 10 (coalesce (cr_period r) [])
            in if cr_value r = None \<or> day = [] then m else mbump day 0 (\<lambda>a. dadd D a (the (cr_value r))) m) [] rows
      in map (\<lambda>(day, v). \<lparr> pd_external = ''sel:day:'' @ day, pd_type = Charge, pd_amount = ddiv D v 100, pd_currency = ''RUB'',
            pd_date = parse (day @ ''T00:00:00Z''), pd_description = Some ''Selectel consumption'', pd_service_external = None \<rparr>)
           (filter (\<lambda>(day, v). \<not> v \<le> 0) acc))"

section \<open>selectel.connector.ts\<close>

definition PROVIDER_KEYS :: "string list" where
  "PROVIDER_KEYS = [''vpc'', ''serverless'', ''mks'', ''dbaas'', ''storage'', ''cdn'', ''vmware'', ''craas'', ''ones'',
     ''private_storage'', ''mobfarm'', ''ses'', ''inference'', ''netdisk'']"

definition CONSUMPTION_MONTHS :: int where "CONSUMPTION_MONTHS = 3"
definition COST_WINDOW_DAYS :: int where "COST_WINDOW_DAYS = 7"

text \<open>toISOString().slice(0, 19)\<close>

definition naive :: "ms \<Rightarrow> string" where
  "naive t = (let s = t mod MS_PER_DAY div 1000 in
     take 19 (date_text (civil (t div MS_PER_DAY)) @ ''T'' @ pad 2 (nat (s div 3600)) @ '':'' @
       pad 2 (nat (s mod 3600 div 60)) @ '':'' @ pad 2 (nat (s mod 60))))"

definition moscow_clock :: "ms \<Rightarrow> ms" where "moscow_clock t = t + MSK_OFFSET_MS"

definition strip_slashes :: "string \<Rightarrow> string" where
  "strip_slashes s = rev (dropWhile (\<lambda>c. c = CHR ''/'') (rev s))"

definition public_endpoints :: "keystone_service list \<Rightarrow> string \<Rightarrow> (string \<times> string) list" where
  "public_endpoints catalog ty =
     map (\<lambda>e. (coalesce (ce_region e) [], strip_slashes (the (ce_url e))))
       (filter (\<lambda>e. ce_interface e = Some ''public'' \<and> truthy (ce_url e))
         (case find (\<lambda>s. ca_type s = Some ty) catalog of None \<Rightarrow> [] | Some s \<Rightarrow> ca_endpoints s))"

text \<open>The reply of a Keystone request: the status, the token header, the catalog and the project of the body.\<close>

record keystone_reply =
  kr_status :: nat
  kr_token :: "string option"
  kr_catalog :: "keystone_service list option"
  kr_project :: "string option"

definition keystone :: "string + keystone_reply \<Rightarrow> string + keystone_auth" where
  "keystone reply = (case reply of Inl e \<Rightarrow> Inl e
     | Inr r \<Rightarrow> if kr_status r = 401 then Inl ''Selectel: invalid username, password or account number''
         else if kr_status r = 403 then
           Inl ''Selectel: the service user has no access to the project -- assign it a role in the project.''
         else if 400 \<le> kr_status r then Inl (''Selectel: authorization failed (HTTP '' @ nat_text (kr_status r) @ '')'')
         else if \<not> truthy (kr_token r) then Inl ''Selectel: token was not obtained (no X-Subject-Token header)''
         else Inr \<lparr> ka_token = the (kr_token r), ka_catalog = coalesce (kr_catalog r) [], ka_project = kr_project r \<rparr>)"

datatype selectel_scope = Account_scope | Project_scope string

record consumption_query =
  cq_start :: string
  cq_end :: string
  cq_keys :: "string list"
  cq_group :: string
  cq_period :: string

datatype swift_reply = Listing "swift_container list" | Not_a_list | No_storage

text \<open>What the service answers: Inl is the message of a failed request; a failed balance has its HTTP status too.\<close>

record selectel_api =
  sx_keystone :: "selectel_scope \<Rightarrow> string + keystone_reply"
  sx_balance :: "string \<Rightarrow> (nat option \<times> string) + (rat option \<times> string option)"
  sx_servers :: "string \<Rightarrow> string \<Rightarrow> string + nova_server list"
  sx_routers :: "string \<Rightarrow> string \<Rightarrow> string + neutron_router list"
  sx_listing :: "string \<Rightarrow> string \<Rightarrow> string + swift_reply"
  sx_answered_at :: "string \<Rightarrow> nat"
  sx_consumption :: "string \<Rightarrow> consumption_query \<Rightarrow> string + consumption_row list"
  sx_aborted :: bool

definition account_scoped_token :: "selectel_api \<Rightarrow> string + string" where
  "account_scoped_token A = map_sum id ka_token (keystone (sx_keystone A Account_scope))"

definition project_scoped :: "selectel_api \<Rightarrow> string \<Rightarrow> string + keystone_auth" where
  "project_scoped A project = keystone (sx_keystone A (Project_scope project))"

definition selectel_account :: "decimal_lib \<Rightarrow> selectel_api \<Rightarrow> string + account_data" where
  "selectel_account D A = (case account_scoped_token A of Inl e \<Rightarrow> Inl e
     | Inr token \<Rightarrow> (case sx_balance A token of
           Inl (status, e) \<Rightarrow> if status = Some 403 then Inl (''Selectel: the service user has no billing permissions. Assign it the \"Viewer\" '' @
               ''role (balance, consumption and S3 buckets) or \"Account Administrator\" in User '' @
               ''Management; \"Billing\" alone does not list buckets.'') else Inl e
         | Inr (final_sum, currency) \<Rightarrow> Inr \<lparr> ad_balance = Some (case final_sum of Some s \<Rightarrow> ddiv D s 100 | None \<Rightarrow> 0),
             ad_currency = to_upper (or_text currency ''RUB'') \<rparr>))"

definition fulfilled :: "('a \<times> string \<Rightarrow> string + 'b list) \<Rightarrow> ('a \<times> string) list \<Rightarrow> ('a \<times> 'b) list" where
  "fulfilled ask es = concat (map (\<lambda>e. case ask e of Inl _ \<Rightarrow> [] | Inr xs \<Rightarrow> map (Pair (fst e)) xs) es)"

definition list_servers :: "selectel_api \<Rightarrow> keystone_auth \<Rightarrow> (string \<times> nova_server) list" where
  "list_servers A au = fulfilled (\<lambda>e. sx_servers A (ka_token au) (snd e @ ''/servers/detail'')) (public_endpoints (ka_catalog au) ''compute'')"

definition list_routers :: "selectel_api \<Rightarrow> keystone_auth \<Rightarrow> (string \<times> neutron_router) list" where
  "list_routers A au = fulfilled (\<lambda>e. sx_routers A (ka_token au) (snd e @ ''/v2.0/routers'')) (public_endpoints (ka_catalog au) ''network'')"

definition region_buckets :: "selectel_api \<Rightarrow> keystone_auth \<Rightarrow> string \<times> string \<Rightarrow> string + bucket list" where
  "region_buckets A au e = (case sx_listing A (ka_token au) (snd e @ ''?format=json'') of
       Inl m \<Rightarrow> Inl m
     | Inr No_storage \<Rightarrow> Inr []
     | Inr Not_a_list \<Rightarrow> Inl ''unexpected listing response''
     | Inr (Listing L) \<Rightarrow> Inr (fold_swift_containers L (fst e)))"

text \<open>The failures are in the order in which the requests end.\<close>

definition list_buckets :: "selectel_api \<Rightarrow> keystone_auth \<Rightarrow> bucket list \<times> (string \<times> string) list" where
  "list_buckets A au =
     (let es = public_endpoints (ka_catalog au) ''object-store''
      in (concat (map (\<lambda>e. case region_buckets A au e of Inl _ \<Rightarrow> [] | Inr bs \<Rightarrow> bs) es),
          concat (map (\<lambda>e. case region_buckets A au e of Inl m \<Rightarrow> [(fst e, m)] | Inr _ \<Rightarrow> []) (sort_key (\<lambda>e. sx_answered_at A (snd e)) es))))"

definition consumption :: "selectel_api \<Rightarrow> consumption_query \<Rightarrow> string + consumption_row list" where
  "consumption A q = (case account_scoped_token A of Inl e \<Rightarrow> Inl e | Inr token \<Rightarrow> sx_consumption A token q)"

definition cost_query :: "ms \<times> ms \<Rightarrow> consumption_query" where
  "cost_query w = \<lparr> cq_start = naive (moscow_clock (fst w)), cq_end = naive (moscow_clock (snd w - 1000)), cq_keys = PROVIDER_KEYS,
     cq_group = ''project_object_region_metric'', cq_period = ''all'' \<rparr>"

definition cost_rows :: "selectel_api \<Rightarrow> ms \<times> ms \<Rightarrow> string + consumption_row list option" where
  "cost_rows A w = (case consumption A (cost_query w) of
       Inr rows \<Rightarrow> Inr (Some rows) | Inl e \<Rightarrow> if sx_aborted A then Inl e else Inr None)"

text \<open>fetchServices after the three listings.\<close>

definition price_services :: "decimal_lib \<Rightarrow> (string \<Rightarrow> ms option) \<Rightarrow> ms \<times> ms \<Rightarrow> string option \<Rightarrow> consumption_row list option \<Rightarrow>
    (string \<times> nova_server) list \<Rightarrow> (string \<times> neutron_router) list \<Rightarrow> bucket list \<Rightarrow> service_data list" where
  "price_services D parse w project rows servers routers buckets =
     (let pid = coalesce project [];
          by_resource = map_option (consumption_by_resource D) rows;
          by_container = (if pid = [] then None else map_option (\<lambda>rs. consumption_by_container D rs pid) rows);
          cost = (\<lambda>i created. map_option (\<lambda>m. per_day D (mget m i) (covered_days D parse created (fst w) (snd w))) by_resource)
      in map (\<lambda>(region, s). map_selectel_server s region (cost (nv_id s) (nv_created s))) servers @
         map (\<lambda>(region, r). map_selectel_router r region (cost (nr_id r) (nr_created r))) routers @
         map (\<lambda>b. map_selectel_bucket b pid (map_option (\<lambda>m. per_day D (Some (bucket_kopecks D b m)) (of_int COST_WINDOW_DAYS)) by_container)) buckets)"

definition blocking_failure :: "consumption_row list option \<Rightarrow> string option \<Rightarrow> (string \<times> string) list \<Rightarrow> (string \<times> string) option" where
  "blocking_failure rows project failures =
     (let pid = coalesce project [];
          paid = (if pid = [] then None else map_option (\<lambda>rs. s3_regions rs pid) rows)
      in find (\<lambda>f. case paid of None \<Rightarrow> True | Some regions \<Rightarrow> fst f \<in> set regions) failures)"

definition selectel_services :: "decimal_lib \<Rightarrow> (string \<Rightarrow> ms option) \<Rightarrow> selectel_credentials \<Rightarrow> ms \<Rightarrow> selectel_api \<Rightarrow> string + service_data list" where
  "selectel_services D parse creds now A =
     (if \<not> truthy (slc_project creds) then Inr []
      else case project_scoped A (the (slc_project creds)) of Inl e \<Rightarrow> Inl e
      | Inr au \<Rightarrow>
         (let servers = list_servers A au; routers = list_routers A au; (buckets, failures) = list_buckets A au; w = cost_window COST_WINDOW_DAYS now in
          if length servers + length routers + length buckets + length failures = 0 then Inr []
          else case cost_rows A w of Inl e \<Rightarrow> Inl e
          | Inr rows \<Rightarrow> (case blocking_failure rows (ka_project au) failures of
                Some f \<Rightarrow> Inl (''Selectel: object storage '' @ fst f @ '': '' @ snd f)
              | None \<Rightarrow> Inr (price_services D parse w (ka_project au) rows servers routers buckets))))"

definition payments_query :: "ms \<Rightarrow> consumption_query" where
  "payments_query now = \<lparr> cq_start = naive (month_ms (month_index now - CONSUMPTION_MONTHS)), cq_end = naive now,
     cq_keys = PROVIDER_KEYS, cq_group = ''project'', cq_period = ''day'' \<rparr>"

definition selectel_payments :: "decimal_lib \<Rightarrow> (string \<Rightarrow> ms option) \<Rightarrow> ms \<Rightarrow> selectel_api \<Rightarrow> string + payment_data list" where
  "selectel_payments D parse now A = map_sum id (aggregate_consumption_by_day D parse) (consumption A (payments_query now))"

section \<open>The root of a segment container\<close>

lemma root_of_eq: "root_of names name = (case seg_parents names name of [] \<Rightarrow> name | p # _ \<Rightarrow> root_of names p)"
  by (rule root_of.simps)

lemma root_of_top: "seg_parents names (root_of names name) = []"
proof (induction names name rule: root_of.induct)
  case (1 names name)
  show ?case using 1 by (cases "seg_parents names name") (simp_all add: root_of_eq [of names name])
qed

lemma root_of_self: "seg_parents names name = [] \<Longrightarrow> root_of names name = name"
  by (simp add: root_of_eq [of names name])

lemma root_of_mem: "name \<in> set names \<Longrightarrow> root_of names name \<in> set names"
proof (induction names name rule: root_of.induct)
  case (1 names name)
  show ?case
  proof (cases "seg_parents names name")
    case (Cons p ps)
    then have "p \<in> set names" using seg_parent_split(2) [of p names name] by simp
    then show ?thesis using 1 Cons by (simp add: root_of_eq [of names name])
  qed (use 1 in \<open>simp add: root_of_eq [of names name]\<close>)
qed

lemma root_of_suffixes: "\<exists>xs. set xs \<subseteq> set SEGMENT_SUFFIXES \<and> name = root_of names name @ concat xs"
proof (induction names name rule: root_of.induct)
  case (1 names name)
  show ?case
  proof (cases "seg_parents names name")
    case Nil
    then show ?thesis by (intro exI [of _ "[]"]) (simp add: root_of_self)
  next
    case (Cons p ps)
    then obtain x where x: "x \<in> set SEGMENT_SUFFIXES" "name = p @ x" using seg_parent_split(3) [of p names name] by auto
    obtain xs where xs: "set xs \<subseteq> set SEGMENT_SUFFIXES" "p = root_of names p @ concat xs" using 1 Cons by blast
    have "root_of names name = root_of names p" using Cons by (simp add: root_of_eq [of names name])
    then show ?thesis using x xs by (intro exI [of _ "xs @ [x]"]) simp
  qed
qed

text \<open>rootOf with a bound on the depth of its calls; None when the bound is reached.\<close>

fun root_within :: "nat \<Rightarrow> string list \<Rightarrow> string \<Rightarrow> string option" where
  "root_within 0 names name = None"
| "root_within (Suc n) names name = (case seg_parents names name of [] \<Rightarrow> Some name | p # _ \<Rightarrow> root_within n names p)"

lemma root_within_enough: "length name < 9 * n \<Longrightarrow> root_within n names name = Some (root_of names name)"
proof (induction n arbitrary: name)
  case (Suc n)
  show ?case
  proof (cases "seg_parents names name")
    case Nil
    then show ?thesis by (simp add: root_of_self)
  next
    case (Cons p ps)
    then have "length p + 9 \<le> length name" using seg_parent_length [of p names name] by simp
    then show ?thesis using Suc.IH [of p] Suc.prems Cons by (simp add: root_of_eq [of names name])
  qed
qed simp

section \<open>Buckets\<close>

lemma group_by:
  "mget (foldl (\<lambda>m x. mbump (key x) (d (key x)) (f x) m) m0 xs) k =
     (if filter (\<lambda>x. key x = k) xs = [] then mget m0 k
      else Some (foldl (\<lambda>a x. f x a) (coalesce (mget m0 k) (d k)) (filter (\<lambda>x. key x = k) xs)))"
  by (induction xs arbitrary: m0) auto

lemma group_by_keys:
  "fst ` set (foldl (\<lambda>m x. mbump (key x) (d (key x)) (f x) m) m0 xs) = fst ` set m0 \<union> key ` set xs"
  by (induction xs arbitrary: m0) auto

lemma group_by_distinct:
  "distinct (map fst m0) \<Longrightarrow> distinct (map fst (foldl (\<lambda>m x. mbump (key x) (d (key x)) (f x) m) m0 xs))"
  by (induction xs arbitrary: m0) auto

lemma mset_groups:
  "distinct ks \<Longrightarrow> key ` set xs \<subseteq> set ks \<Longrightarrow> mset (concat (map (\<lambda>k. filter (\<lambda>x. key x = k) xs) ks)) = mset xs"
proof (induction ks arbitrary: xs)
  case (Cons k ks)
  let ?r = "filter (\<lambda>x. key x \<noteq> k) xs"
  have "filter (\<lambda>x. key x = j) ?r = filter (\<lambda>x. key x = j) xs" if "j \<in> set ks" for j
    using that Cons.prems(1) by (auto intro!: filter_cong)
  then have m: "map (\<lambda>j. filter (\<lambda>x. key x = j) xs) ks = map (\<lambda>j. filter (\<lambda>x. key x = j) ?r) ks"
    by (intro map_cong refl) simp
  have "key ` set ?r \<subseteq> set ks" using Cons.prems(2) by auto
  then have "mset (concat (map (\<lambda>j. filter (\<lambda>x. key x = j) xs) ks)) = mset ?r"
    unfolding m using Cons.IH [of ?r] Cons.prems(1) by (simp only: distinct.simps simp_thms)
  then show ?case by (simp add: multiset_partition [of "mset xs" "\<lambda>x. key x = k", symmetric])
qed simp

definition containers_of :: "swift_container list \<Rightarrow> string \<Rightarrow> swift_container list" where
  "containers_of L k = filter (\<lambda>c. root_of (map sw_name L) (sw_name c) = k) L"

lemma add_container_simps [simp]:
  "bk_name (add_container c b) = bk_name b" "bk_region (add_container c b) = bk_region b"
  "bk_containers (add_container c b) = bk_containers b @ [sw_name c]"
  "bk_bytes (add_container c b) = bk_bytes b + coalesce (sw_bytes c) 0"
  by (simp_all add: add_container_def Let_def)

lemma add_containers:
  "bk_name (foldl (\<lambda>b c. add_container c b) b cs) = bk_name b"
  "bk_region (foldl (\<lambda>b c. add_container c b) b cs) = bk_region b"
  "bk_containers (foldl (\<lambda>b c. add_container c b) b cs) = bk_containers b @ map sw_name cs"
  "bk_bytes (foldl (\<lambda>b c. add_container c b) b cs) = bk_bytes b + sum_list (map (\<lambda>c. coalesce (sw_bytes c) 0) cs)"
  by (induction cs arbitrary: b) simp_all

lemma add_container_other: "sw_name c \<noteq> bk_name b \<Longrightarrow> bk_objects (add_container c b) = bk_objects b"
  by (simp add: add_container_def Let_def)

lemma add_container_own: "sw_name c = bk_name b \<Longrightarrow> bk_objects (add_container c b) = coalesce (sw_count c) 0"
  by (simp add: add_container_def Let_def)

lemma objects_kept: "(\<forall>c\<in>set cs. sw_name c \<noteq> bk_name b) \<Longrightarrow> bk_objects (foldl (\<lambda>b c. add_container c b) b cs) = bk_objects b"
  by (induction cs arbitrary: b) (simp_all add: add_container_other)

lemma objects_own:
  "distinct (map sw_name cs) \<Longrightarrow> c \<in> set cs \<Longrightarrow> sw_name c = bk_name b \<Longrightarrow>
   bk_objects (foldl (\<lambda>b c. add_container c b) b cs) = coalesce (sw_count c) 0"
proof (induction cs arbitrary: b)
  case (Cons x cs)
  show ?case
  proof (cases "x = c")
    case True
    then have "\<forall>y\<in>set cs. sw_name y \<noteq> bk_name (add_container c b)" using Cons.prems by (auto simp: image_iff)
    then show ?thesis using True Cons.prems(3) by (simp add: objects_kept add_container_own)
  qed (use Cons in simp)
qed simp

text \<open>The roots in the order in which they are met, each with the containers it stands for.\<close>

lemma buckets_list:
  obtains ks where "distinct ks" "set ks = (\<lambda>c. root_of (map sw_name L) (sw_name c)) ` set L"
    "fold_swift_containers L region = map (\<lambda>k. foldl (\<lambda>b c. add_container c b) (new_bucket region k) (containers_of L k)) ks"
proof -
  let ?key = "\<lambda>c. root_of (map sw_name L) (sw_name c)"
  let ?m = "foldl (\<lambda>m c. mbump (?key c) (new_bucket region (?key c)) (add_container c) m) [] L"
  let ?b = "\<lambda>k. foldl (\<lambda>b c. add_container c b) (new_bucket region k) (containers_of L k)"
  have d: "distinct (map fst ?m)" by (rule group_by_distinct) simp
  have k: "set (map fst ?m) = ?key ` set L" using group_by_keys [of ?key "new_bucket region" add_container "[]" L] by simp
  have "snd e = ?b (fst e)" if "e \<in> set ?m" for e
  proof -
    have g: "mget ?m (fst e) = Some (snd e)" using mget_of_mem [OF d, of "fst e" "snd e"] that by simp
    show ?thesis
      using g group_by [of ?key "new_bucket region" add_container "[]" L "fst e"]
      by (simp add: containers_of_def split: if_splits)
  qed
  then have "map snd ?m = map ?b (map fst ?m)" by simp
  then have "fold_swift_containers L region = map ?b (map fst ?m)" by (simp only: fold_swift_containers_def Let_def)
  then show thesis using that [OF d k] by blast
qed

lemma buckets_partition:
  assumes "distinct ks" "set ks = (\<lambda>c. root_of (map sw_name L) (sw_name c)) ` set L"
  shows "mset (concat (map (containers_of L) ks)) = mset L"
  using mset_groups [OF assms(1), of "\<lambda>c. root_of (map sw_name L) (sw_name c)" L] assms(2)
  unfolding containers_of_def [abs_def] by simp

lemma sum_list_mset: "mset xs = mset ys \<Longrightarrow> sum_list (map f xs) = (sum_list (map f ys) :: 'a :: comm_monoid_add)"
  by (metis mset_map sum_mset_sum_list)

lemma sum_list_concat: "sum_list (map (\<lambda>k. sum_list (map f (g k))) ks) = (sum_list (map f (concat (map g ks))) :: 'a :: comm_monoid_add)"
  by (induction ks) simp_all

lemma bucket_containers:
  "mset (concat (map bk_containers (fold_swift_containers L region))) = mset (map sw_name L)"
  "sum_list (map bk_bytes (fold_swift_containers L region)) = sum_list (map (\<lambda>c. coalesce (sw_bytes c) 0) L)"
  "distinct (map bk_name (fold_swift_containers L region))"
proof -
  obtain ks where ks: "distinct ks" "set ks = (\<lambda>c. root_of (map sw_name L) (sw_name c)) ` set L"
    "fold_swift_containers L region = map (\<lambda>k. foldl (\<lambda>b c. add_container c b) (new_bucket region k) (containers_of L k)) ks"
    using buckets_list by blast
  have new: "bk_containers (new_bucket region k) = []" "bk_bytes (new_bucket region k) = 0" "bk_name (new_bucket region k) = k" for k
    by (simp_all add: new_bucket_def)
  have "concat (map bk_containers (fold_swift_containers L region)) = map sw_name (concat (map (containers_of L) ks))"
    by (simp add: ks(3) add_containers new map_concat comp_def)
  then show "mset (concat (map bk_containers (fold_swift_containers L region))) = mset (map sw_name L)"
    by (metis buckets_partition [OF ks(1,2)] mset_map)
  show "sum_list (map bk_bytes (fold_swift_containers L region)) = sum_list (map (\<lambda>c. coalesce (sw_bytes c) 0) L)"
    using sum_list_mset [OF buckets_partition [OF ks(1,2)]]
    by (simp add: ks(3) add_containers new comp_def sum_list_concat)
  show "distinct (map bk_name (fold_swift_containers L region))"
    by (simp add: ks(1,3) add_containers new comp_def)
qed

lemma bucket_facts:
  assumes "b \<in> set (fold_swift_containers L region)"
  shows "bk_region b = region" "bk_containers b = map sw_name (containers_of L (bk_name b))"
    "seg_parents (map sw_name L) (bk_name b) = []" "bk_name b \<in> set (bk_containers b)"
    "distinct (map sw_name L) \<Longrightarrow> c \<in> set L \<Longrightarrow> sw_name c = bk_name b \<Longrightarrow> bk_objects b = coalesce (sw_count c) 0"
proof -
  obtain ks where ks: "distinct ks" "set ks = (\<lambda>c. root_of (map sw_name L) (sw_name c)) ` set L"
    "fold_swift_containers L region = map (\<lambda>k. foldl (\<lambda>b c. add_container c b) (new_bucket region k) (containers_of L k)) ks"
    using buckets_list by blast
  then obtain k where k: "k \<in> set ks" "b = foldl (\<lambda>b c. add_container c b) (new_bucket region k) (containers_of L k)"
    using assms by auto
  then have n: "bk_name b = k" by (simp add: add_containers new_bucket_def)
  show "bk_region b = region" by (simp add: k(2) add_containers new_bucket_def)
  show c: "bk_containers b = map sw_name (containers_of L (bk_name b))" unfolding n by (simp add: k(2) add_containers new_bucket_def)
  obtain x where x: "x \<in> set L" "k = root_of (map sw_name L) (sw_name x)" using k(1) ks(2) by auto
  show p: "seg_parents (map sw_name L) (bk_name b) = []" unfolding n x(2) by (rule root_of_top)
  have "k \<in> set (map sw_name L)" unfolding x(2) using x(1) by (intro root_of_mem) simp
  then obtain y where y: "y \<in> set L" "sw_name y = k" by auto
  then have "y \<in> set (containers_of L k)" using p n by (simp add: containers_of_def root_of_self)
  then show "bk_name b \<in> set (bk_containers b)" unfolding c unfolding n using y(2) by force
  show "bk_objects b = coalesce (sw_count c) 0" if "distinct (map sw_name L)" "c \<in> set L" "sw_name c = bk_name b"
  proof -
    have "c \<in> set (containers_of L k)" using that(2,3) p n by (simp add: containers_of_def root_of_self)
    moreover have "distinct (map sw_name (containers_of L k))" unfolding containers_of_def using that(1) by (rule distinct_map_filter)
    ultimately show ?thesis unfolding k(2) using that(3) n by (intro objects_own) (simp_all add: new_bucket_def)
  qed
qed

text \<open>C30. rootOf ends: its calls are nested at most one level for every nine characters of the name, and it
  stops at a name of the listing that is no segment container of another one; what it has cut off
  are segment suffixes.\<close>

theorem root_of_ends:
  shows "root_within (length name div 9 + 1) names name = Some (root_of names name) \<and>
    seg_parents names (root_of names name) = [] \<and>
    (\<exists>xs. set xs \<subseteq> set SEGMENT_SUFFIXES \<and> name = root_of names name @ concat xs) \<and>
    (name \<in> set names \<longrightarrow> root_of names name \<in> set names)"
proof -
  have "length name < 9 * (length name div 9 + 1)" by presburger
  then show ?thesis using root_within_enough root_of_top root_of_suffixes root_of_mem by blast
qed

theorem root_of_ends_witness: "root_of [''a'', ''a_segments''] ''a_segments'' \<in> {''a'', ''a_segments''}"
  using root_of_ends [of "''a_segments''" "[''a'', ''a_segments'']"] by simp

text \<open>C27. The buckets of a region are a partition of its containers: every container is billed with exactly one
  bucket, that of its root, the sizes add up to the listed sizes, the names are distinct, a bucket
  holds the container of its own name with that one's object count, and beside it only containers
  whose names extend its name by segment suffixes.\<close>

theorem swift_buckets:
  assumes "distinct (map sw_name L)"
  shows "let bs = fold_swift_containers L region in
    mset (concat (map bk_containers bs)) = mset (map sw_name L) \<and>
    sum_list (map bk_bytes bs) = sum_list (map (\<lambda>c. coalesce (sw_bytes c) 0) L) \<and> distinct (map bk_name bs) \<and>
    (\<forall>b\<in>set bs. bk_region b = region \<and> bk_name b \<in> set (bk_containers b) \<and>
       (\<forall>x\<in>set (bk_containers b). \<exists>xs. set xs \<subseteq> set SEGMENT_SUFFIXES \<and> x = bk_name b @ concat xs) \<and>
       (\<forall>c\<in>set L. sw_name c = bk_name b \<longrightarrow> bk_objects b = coalesce (sw_count c) 0))"
proof -
  let ?bs = "fold_swift_containers L region"
  have x: "\<exists>xs. set xs \<subseteq> set SEGMENT_SUFFIXES \<and> x = bk_name b @ concat xs" if "b \<in> set ?bs" "x \<in> set (bk_containers b)" for b x
  proof -
    have "bk_name b = root_of (map sw_name L) x"
      using that bucket_facts(2) [of b L region] by (auto simp: containers_of_def)
    then show ?thesis using root_of_suffixes [of x "map sw_name L"] by simp
  qed
  show ?thesis
    using bucket_containers [of L region] bucket_facts(1,4) [of _ L region] bucket_facts(5) [of _ L region, OF _ assms(1)] x
    unfolding Let_def by blast
qed

definition sample_listing :: "swift_container list" where
  "sample_listing = [\<lparr> sw_name = ''logs_segments'', sw_bytes = Some 700, sw_count = Some 7, sw_modified = None \<rparr>,
     \<lparr> sw_name = ''logs'', sw_bytes = Some 20, sw_count = Some 2, sw_modified = None \<rparr>,
     \<lparr> sw_name = ''old_segments'', sw_bytes = None, sw_count = Some 3, sw_modified = None \<rparr>]"

theorem swift_buckets_witness:
  "distinct (map sw_name sample_listing) \<and> sum_list (map bk_bytes (fold_swift_containers sample_listing ''ru-1'')) = 720"
proof -
  have d: "distinct (map sw_name sample_listing)" by (simp add: sample_listing_def)
  show ?thesis using swift_buckets [OF d, of "''ru-1''"] d by (simp add: sample_listing_def Let_def)
qed

section \<open>Consumption\<close>

definition container_entries :: "string \<Rightarrow> consumption_row list \<Rightarrow> (string \<times> rat) list" where
  "container_entries project rows = map (\<lambda>r. (container_key (the (cr_region r)) (the (cr_name r)), the (cr_value r)))
     (filter (\<lambda>r. s3_row project r \<and> truthy (cr_name r) \<and> truthy (cr_region r) \<and> cr_value r \<noteq> None) rows)"

lemma by_container_tally: "consumption_by_container D rows project = tally D (container_entries project rows)"
proof -
  have f: "(\<lambda>m r. if \<not> s3_row project r then m
        else if \<not> truthy (cr_name r) \<or> \<not> truthy (cr_region r) \<or> cr_value r = None then m
        else mbump (container_key (the (cr_region r)) (the (cr_name r))) 0 (\<lambda>a. dadd D a (the (cr_value r))) m) =
      (\<lambda>m r. if s3_row project r \<and> truthy (cr_name r) \<and> truthy (cr_region r) \<and> cr_value r \<noteq> None
        then mbump (container_key (the (cr_region r)) (the (cr_name r))) 0 (\<lambda>a. dadd D a (the (cr_value r))) m else m)"
    by (intro ext) simp
  show ?thesis
    unfolding consumption_by_container_def tally_def container_entries_def f foldl_filter [symmetric] foldl_map by simp
qed

definition resource_entries :: "consumption_row list \<Rightarrow> (string \<times> rat) list" where
  "resource_entries rows = concat (map (\<lambda>r. case cr_value r of None \<Rightarrow> []
     | Some v \<Rightarrow> (if truthy (cr_object r) then [(the (cr_object r), v)] else []) @
         (if truthy (cr_parent r) then [(the (cr_parent r), v)] else [])) rows)"

lemma add_resource_fold: "add_resource D i v m =
  foldl (\<lambda>m e. mbump (fst e) 0 (\<lambda>a. dadd D a (snd e)) m) m (if truthy i then [(the i, v)] else [])"
  by (cases i) (simp_all add: add_resource_def)

lemma foldl_concat: "foldl (\<lambda>m r. foldl g m (f r)) m rows = foldl g m (concat (map f rows))"
  by (induction rows arbitrary: m) simp_all

lemma by_resource_tally: "consumption_by_resource D rows = tally D (resource_entries rows)"
proof -
  let ?e = "\<lambda>r. case cr_value r of None \<Rightarrow> [] | Some v \<Rightarrow> (if truthy (cr_object r) then [(the (cr_object r), v)] else []) @
         (if truthy (cr_parent r) then [(the (cr_parent r), v)] else [])"
  have f: "(\<lambda>m r. case cr_value r of None \<Rightarrow> m | Some v \<Rightarrow> add_resource D (cr_parent r) v (add_resource D (cr_object r) v m)) =
      (\<lambda>m r. foldl (\<lambda>m e. mbump (fst e) 0 (\<lambda>a. dadd D a (snd e)) m) m (?e r))"
    unfolding add_resource_fold by (intro ext) (simp add: foldl_append [symmetric] split: option.split del: foldl_append)
  show ?thesis unfolding consumption_by_resource_def tally_def resource_entries_def f by (rule foldl_concat)
qed

definition rows_money :: "consumption_row list \<Rightarrow> bool" where
  "rows_money rows = (money_amounts (List.map_filter cr_value rows) \<and> 2 * sum_list (List.map_filter cr_value rows) \<le> 10 ^ 17)"

lemma values_filter: "map (\<lambda>r. the (cr_value r)) (filter (\<lambda>r. P r \<and> cr_value r \<noteq> None) rows) = List.map_filter cr_value (filter P rows)"
  by (induction rows) (auto simp: map_filter_simps split: option.split)

lemma values_subset: "set (List.map_filter cr_value (filter P rows)) \<subseteq> set (List.map_filter cr_value rows)"
  by (auto simp: List.map_filter_def)

lemma money_sublist: "money_amounts xs \<Longrightarrow> set ys \<subseteq> set xs \<Longrightarrow> money_amounts ys"
  by (auto simp: money_amounts_def)

lemma values_sum_le: "money_amounts (List.map_filter cr_value rows) \<Longrightarrow>
    sum_list (List.map_filter cr_value (filter P rows)) \<le> sum_list (List.map_filter cr_value rows)"
proof (induction rows)
  case (Cons r rows)
  then show ?case by (cases "cr_value r") (auto simp: map_filter_simps money_amounts_def)
qed (simp add: map_filter_simps)

lemma container_values: "map snd (container_entries project rows) =
    List.map_filter cr_value (filter (\<lambda>r. s3_row project r \<and> truthy (cr_name r) \<and> truthy (cr_region r)) rows)"
  unfolding container_entries_def values_filter [symmetric] by (simp add: comp_def conj_assoc)

lemma container_money:
  assumes "rows_money rows"
  shows "money_amounts (map snd (container_entries project rows))" "sum_list (map snd (container_entries project rows)) \<le> 10 ^ 17"
proof -
  have m: "money_amounts (List.map_filter cr_value rows)" using assms by (simp add: rows_money_def)
  show "money_amounts (map snd (container_entries project rows))"
    unfolding container_values by (rule money_sublist [OF m values_subset])
  have "0 \<le> sum_list (List.map_filter cr_value rows)" using m by (rule money_sum_nonneg)
  then show "sum_list (map snd (container_entries project rows)) \<le> 10 ^ 17"
    using values_sum_le [OF m, of "\<lambda>r. s3_row project r \<and> truthy (cr_name r) \<and> truthy (cr_region r)"] assms
    unfolding container_values rows_money_def by linarith
qed

lemma container_key_eq:
  "CHR ''/'' \<notin> set region \<Longrightarrow> CHR ''/'' \<notin> set c \<Longrightarrow> (container_key region c = container_key r n) = (region = r \<and> c = n)"
  unfolding container_key_def by (rule append_Cons_eq_iff)

lemma money_filter_le: "money_amounts (map snd es) \<Longrightarrow> sum_list (map snd (filter P es)) \<le> sum_list (map snd es)"
proof (induction es)
  case (Cons e es)
  then have "0 \<le> snd e" "sum_list (map snd (filter P es)) \<le> sum_list (map snd es)" by (simp_all add: money_amounts_def)
  then show ?case by simp
qed simp

lemma sum_one_key: "distinct ks \<Longrightarrow> sum_list (map (\<lambda>k. if a = k then v else 0) ks) = (if a \<in> set ks then v else (0::rat))"
  by (induction ks) auto

lemma key_sums: "distinct ks \<Longrightarrow> sum_list (map (key_sum es) ks) = sum_list (map snd (filter (\<lambda>e. fst e \<in> set ks) es))"
proof (induction es)
  case (Cons e es)
  have "map (key_sum (e # es)) ks = map (\<lambda>k. (if fst e = k then snd e else 0) + key_sum es k) ks"
    by (intro map_cong refl) (rule key_sum_simps)
  then have "sum_list (map (key_sum (e # es)) ks) = sum_list (map (\<lambda>k. if fst e = k then snd e else 0) ks) + sum_list (map (key_sum es) ks)"
    by (simp only: sum_list_addf)
  then show ?case using Cons sum_one_key [of ks "fst e" "snd e"] by (simp del: key_sum_simps)
qed (simp add: key_sum_def [abs_def])

lemma region_entries:
  assumes "CHR ''/'' \<notin> set region" "\<forall>c\<in>set names. CHR ''/'' \<notin> set c" "region \<noteq> []" "[] \<notin> set names"
  shows "map snd (filter (\<lambda>e. fst e \<in> set (map (container_key region) names)) (container_entries project rows)) =
    List.map_filter cr_value (filter (\<lambda>r. s3_row project r \<and> cr_region r = Some region \<and> cr_name r \<in> Some ` set names) rows)"
proof -
  have k: "container_key r n \<in> container_key region ` set names \<longleftrightarrow> r = region \<and> n \<in> set names" for r n
    using container_key_eq [OF assms(1)] assms(2) by (auto simp: image_iff) metis+
  have o: "Some n \<in> Some ` set names \<longleftrightarrow> n \<in> set names" for n by auto
  show ?thesis
  proof (induction rows)
    case (Cons r rows)
    show ?case
    proof (cases "s3_row project r \<and> truthy (cr_name r) \<and> truthy (cr_region r) \<and> cr_value r \<noteq> None")
      case True
      then obtain v n g where "cr_value r = Some v" "cr_name r = Some n" "cr_region r = Some g" by (metis truthy_simps(1) option.exhaust)
      then show ?thesis using Cons True by (simp add: container_entries_def k o map_filter_simps)
    next
      case False
      then have "cr_value r = None \<or> \<not> (s3_row project r \<and> cr_region r = Some region \<and> cr_name r \<in> Some ` set names)"
        using assms(3,4) by auto
      then show ?thesis using Cons False by (auto simp: container_entries_def map_filter_simps split: option.split)
    qed
  qed (simp add: container_entries_def map_filter_simps)
qed

context decimal_arith
begin

lemma by_resource_exact:
  assumes "rows_money rows" "i \<noteq> []"
  shows "coalesce (mget (consumption_by_resource D rows) i) 0 =
    sum_list (List.map_filter cr_value (filter (\<lambda>r. cr_object r = Some i) rows)) +
    sum_list (List.map_filter cr_value (filter (\<lambda>r. cr_parent r = Some i) rows))"
proof -
  have s: "money_amounts (List.map_filter cr_value rows) \<Longrightarrow> money_amounts (map snd (resource_entries rows)) \<and>
      sum_list (map snd (resource_entries rows)) \<le> 2 * sum_list (List.map_filter cr_value rows)" for rows
  proof (induction rows)
    case (Cons r rows)
    show ?case
    proof (cases "cr_value r")
      case (Some v)
      then have v: "is_cents v" "0 \<le> v" "money_amounts (List.map_filter cr_value rows)"
        using Cons.prems by (simp_all add: map_filter_simps money_amounts_def)
      have e: "resource_entries (r # rows) = (if truthy (cr_object r) then [(the (cr_object r), v)] else []) @
          (if truthy (cr_parent r) then [(the (cr_parent r), v)] else []) @ resource_entries rows"
        using Some by (simp add: resource_entries_def)
      show ?thesis using Cons.IH [OF v(3)] v(1,2) Some unfolding e
        by (cases "truthy (cr_object r)"; cases "truthy (cr_parent r)") (simp_all add: map_filter_simps money_amounts_def)
    qed (use Cons in \<open>simp add: resource_entries_def map_filter_simps\<close>)
  qed (simp add: resource_entries_def map_filter_simps money_amounts_def)
  have "key_sum (resource_entries rows) i = sum_list (List.map_filter cr_value (filter (\<lambda>r. cr_object r = Some i) rows)) +
    sum_list (List.map_filter cr_value (filter (\<lambda>r. cr_parent r = Some i) rows))"
  proof (induction rows)
    case (Cons r rows)
    show ?case
    proof (cases "cr_value r")
      case (Some v)
      have "key_sum (if truthy x then [(the x, v)] else []) i = (if x = Some i then v else 0)" for x
        using assms(2) by (cases x) auto
      then show ?thesis using Cons Some by (simp add: resource_entries_def map_filter_simps)
    qed (use Cons in \<open>simp add: resource_entries_def map_filter_simps\<close>)
  qed (simp add: resource_entries_def map_filter_simps)
  then show ?thesis
    using tally_coalesce [of "resource_entries rows" i] s [of rows] assms(1) by (simp add: by_resource_tally rows_money_def)
qed

lemma bucket_kopecks_exact:
  assumes "rows_money rows" "distinct (map (container_key (bk_region b)) (bk_containers b))"
  shows "bucket_kopecks D b (consumption_by_container D rows project) =
    sum_list (map (\<lambda>c. key_sum (container_entries project rows) (container_key (bk_region b) c)) (bk_containers b))"
proof -
  let ?es = "container_entries project rows" and ?ks = "map (container_key (bk_region b)) (bk_containers b)"
  note m = container_money [OF assms(1), of project]
  have f: "money_amounts (map (key_sum ?es) ?ks)"
  proof -
    have "is_cents (key_sum ?es k)" for k
    proof -
      have "money_amounts xs \<Longrightarrow> is_cents (sum_list xs)" for xs
        by (induction xs) (auto simp: money_amounts_def is_cents_add, simp add: is_cents_def)
      then show ?thesis unfolding key_sum_def using money_filter [OF m(1)] by blast
    qed
    then show ?thesis using key_sum_nonneg [OF m(1)] by (auto simp: money_amounts_def)
  qed
  have "sum_list (map (key_sum ?es) ?ks) \<le> sum_list (map snd ?es)"
    unfolding key_sums [OF assms(2)] by (rule money_filter_le [OF m(1)])
  then show ?thesis
    using dadd_fold_money [OF f, of 0] m(2)
    by (simp add: bucket_kopecks_def by_container_tally tally_coalesce [OF m] foldl_map is_cents_def comp_def)
qed

end

text \<open>The rows of the project that name a container of the region under the root k.\<close>

definition charged_to :: "string \<Rightarrow> string \<Rightarrow> string list \<Rightarrow> string \<Rightarrow> consumption_row \<Rightarrow> bool" where
  "charged_to project region names k r = (s3_row project r \<and> cr_region r = Some region \<and>
     (\<exists>n\<in>set names. cr_name r = Some n \<and> root_of names n = k))"

lemma buckets_kopecks:
  assumes "decimal_arith D" "rows_money rows" "distinct (map sw_name L)"
    and "CHR ''/'' \<notin> set region" "\<forall>c\<in>set (map sw_name L). CHR ''/'' \<notin> set c" "region \<noteq> []" "[] \<notin> set (map sw_name L)"
    and b: "b \<in> set (fold_swift_containers L region)"
  shows "bucket_kopecks D b (consumption_by_container D rows project) =
    sum_list (List.map_filter cr_value (filter (charged_to project region (map sw_name L) (bk_name b)) rows))"
proof -
  let ?es = "container_entries project rows"
  have inj: "inj_on (container_key region) X" for X by (auto simp: inj_on_def container_key_def)
  have c: "set (bk_containers b) = {n \<in> set (map sw_name L). root_of (map sw_name L) n = bk_name b}"
    using bucket_facts(2) [OF b] by (auto simp: containers_of_def)
  have "distinct (bk_containers b)"
    unfolding bucket_facts(2) [OF b] containers_of_def using assms(3) by (rule distinct_map_filter)
  then have d: "distinct (map (container_key region) (bk_containers b))" using inj by (simp add: distinct_map)
  have "bucket_kopecks D b (consumption_by_container D rows project) = sum_list (map (key_sum ?es) (map (container_key region) (bk_containers b)))"
    using decimal_arith.bucket_kopecks_exact [OF assms(1,2), of b project] d by (simp add: bucket_facts(1) [OF b] comp_def)
  also have "\<dots> = sum_list (map snd (filter (\<lambda>e. fst e \<in> set (map (container_key region) (bk_containers b))) ?es))"
    by (rule key_sums [OF d])
  also have "\<dots> = sum_list (List.map_filter cr_value
      (filter (\<lambda>r. s3_row project r \<and> cr_region r = Some region \<and> cr_name r \<in> Some ` set (bk_containers b)) rows))"
    using assms(5,7) c by (subst region_entries [OF assms(4) _ assms(6)]) auto
  also have "(\<lambda>r. s3_row project r \<and> cr_region r = Some region \<and> cr_name r \<in> Some ` set (bk_containers b)) =
      charged_to project region (map sw_name L) (bk_name b)"
    unfolding charged_to_def c by (intro ext) auto
  finally show ?thesis .
qed

lemma one_bucket:
  assumes "n \<in> set (map sw_name L)"
  shows "\<exists>!b. b \<in> set (fold_swift_containers L region) \<and> bk_name b = root_of (map sw_name L) n"
proof -
  let ?bs = "fold_swift_containers L region"
  have "set (concat (map bk_containers ?bs)) = set (map sw_name L)"
    using bucket_containers(1) [of L region] by (rule mset_eq_setD)
  then obtain b where b: "b \<in> set ?bs" "n \<in> set (bk_containers b)" using assms by auto
  then have "bk_name b = root_of (map sw_name L) n"
    using bucket_facts(2) [OF b(1)] by (auto simp: containers_of_def)
  moreover have "distinct (map bk_name ?bs)" by (rule bucket_containers)
  then have "inj_on bk_name (set ?bs)" by (simp add: distinct_map)
  ultimately show ?thesis using b(1) by (intro ex1I [of _ b]) (auto simp: inj_on_def)
qed

text \<open>C28. A report is charged where it belongs.  A bucket is charged with exactly the project's storage rows of
  its region that name one of its containers, that is a listed container whose root is the bucket, each
  row once; a listed container has exactly one such bucket, so each of these rows reaches exactly one.
  Rows that name no listed container of the region, the project-wide one among them, reach no bucket.  A
  server is charged with exactly its own rows and those of its disks and addresses.\<close>

theorem selectel_consumption:
  assumes "decimal_arith D" "rows_money rows" "distinct (map sw_name L)"
    and "CHR ''/'' \<notin> set region" "\<forall>c\<in>set (map sw_name L). CHR ''/'' \<notin> set c" "region \<noteq> []" "[] \<notin> set (map sw_name L)"
  shows "let names = map sw_name L; bs = fold_swift_containers L region in
    (\<forall>b\<in>set bs. bucket_kopecks D b (consumption_by_container D rows project) =
       sum_list (List.map_filter cr_value (filter (\<lambda>r. s3_row project r \<and> cr_region r = Some region \<and>
         (\<exists>n\<in>set names. cr_name r = Some n \<and> root_of names n = bk_name b)) rows))) \<and>
    (\<forall>n\<in>set names. \<exists>!b. b \<in> set bs \<and> bk_name b = root_of names n) \<and>
    (\<forall>i. i \<noteq> [] \<longrightarrow> coalesce (mget (consumption_by_resource D rows) i) 0 =
      sum_list (List.map_filter cr_value (filter (\<lambda>r. cr_object r = Some i) rows)) +
      sum_list (List.map_filter cr_value (filter (\<lambda>r. cr_parent r = Some i) rows)))"
  unfolding Let_def
proof (intro conjI ballI allI impI)
  fix b assume "b \<in> set (fold_swift_containers L region)"
  from buckets_kopecks [OF assms this, of project] show "bucket_kopecks D b (consumption_by_container D rows project) =
       sum_list (List.map_filter cr_value (filter (\<lambda>r. s3_row project r \<and> cr_region r = Some region \<and>
         (\<exists>n\<in>set (map sw_name L). cr_name r = Some n \<and> root_of (map sw_name L) n = bk_name b)) rows))"
    unfolding charged_to_def [abs_def] .
next
  fix n assume "n \<in> set (map sw_name L)"
  then show "\<exists>!b. b \<in> set (fold_swift_containers L region) \<and> bk_name b = root_of (map sw_name L) n" by (rule one_bucket)
next
  fix i :: string assume "i \<noteq> []"
  then show "coalesce (mget (consumption_by_resource D rows) i) 0 =
      sum_list (List.map_filter cr_value (filter (\<lambda>r. cr_object r = Some i) rows)) +
      sum_list (List.map_filter cr_value (filter (\<lambda>r. cr_parent r = Some i) rows))"
    by (rule decimal_arith.by_resource_exact [OF assms(1,2)])
qed

definition sample_rows :: "consumption_row list" where
  "sample_rows = [\<lparr> cr_value = Some 500, cr_period = Some ''2026-06-01T00:00:00'', cr_provider_key = Some ''storage'', cr_project = Some ''p'',
       cr_object = Some ''o1'', cr_name = Some ''logs_segments'', cr_parent = None, cr_region = Some ''ru-1'' \<rparr>,
     \<lparr> cr_value = Some 700, cr_period = Some ''2026-06-01T00:00:00'', cr_provider_key = Some ''vpc'', cr_project = Some ''p'',
       cr_object = Some ''disk'', cr_name = Some ''disk'', cr_parent = Some ''srv'', cr_region = Some ''ru-1'' \<rparr>]"

lemma sample_rows_money: "rows_money sample_rows"
  by (simp add: rows_money_def sample_rows_def map_filter_simps money_amounts_def is_cents_def)

theorem selectel_consumption_witness:
  "\<exists>b. b \<in> set (fold_swift_containers sample_listing ''ru-1'') \<and> bk_name b = ''logs'' \<and>
     bucket_kopecks dec20 b (consumption_by_container dec20 sample_rows ''p'') = 500"
proof -
  have n: "map sw_name sample_listing = [''logs_segments'', ''logs'', ''old_segments'']" by (simp add: sample_listing_def)
  let ?names = "[''logs_segments'', ''logs'', ''old_segments'']"
  have root: "root_of ?names ''logs_segments'' = ''logs''" by code_simp
  have "distinct ?names" "CHR ''/'' \<notin> set ''ru-1''" "\<forall>c\<in>set ?names. CHR ''/'' \<notin> set c" "''ru-1'' \<noteq> []" "[] \<notin> set ?names" by simp_all
  note spec = selectel_consumption [OF dec20_arith sample_rows_money, of sample_listing, unfolded n, OF this, of "''p''", unfolded Let_def]
  from spec root obtain b where b: "b \<in> set (fold_swift_containers sample_listing ''ru-1'')" "bk_name b = ''logs''" by auto
  moreover have "filter (\<lambda>r. s3_row ''p'' r \<and> cr_region r = Some ''ru-1'' \<and>
      (\<exists>n\<in>set ?names. cr_name r = Some n \<and> root_of ?names n = bk_name b)) sample_rows = [hd sample_rows]"
    using root b(2) by (simp add: sample_rows_def s3_row_def S3_PROVIDER_KEYS_def)
  moreover have "sum_list (List.map_filter cr_value [hd sample_rows]) = 500" by (simp add: sample_rows_def map_filter_simps)
  ultimately show ?thesis using spec by auto
qed

section \<open>Charges per day\<close>

definition row_day :: "consumption_row \<Rightarrow> string" where "row_day r = take 10 (coalesce (cr_period r) [])"

definition day_entries :: "consumption_row list \<Rightarrow> (string \<times> rat) list" where
  "day_entries rows = map (\<lambda>r. (row_day r, the (cr_value r))) (filter (\<lambda>r. row_day r \<noteq> [] \<and> cr_value r \<noteq> None) rows)"

lemma by_day_tally: "aggregate_consumption_by_day D parse rows =
   map (\<lambda>(day, v). \<lparr> pd_external = ''sel:day:'' @ day, pd_type = Charge, pd_amount = ddiv D v 100, pd_currency = ''RUB'',
       pd_date = parse (day @ ''T00:00:00Z''), pd_description = Some ''Selectel consumption'', pd_service_external = None \<rparr>)
     (filter (\<lambda>(day, v). \<not> v \<le> 0) (tally D (day_entries rows)))"
proof -
  have f: "(\<lambda>m r. let day = take 10 (coalesce (cr_period r) []) in if cr_value r = None \<or> day = [] then m else mbump day 0 (\<lambda>a. dadd D a (the (cr_value r))) m) =
      (\<lambda>m r. if row_day r \<noteq> [] \<and> cr_value r \<noteq> None then mbump (row_day r) 0 (\<lambda>a. dadd D a (the (cr_value r))) m else m)"
    by (intro ext) (simp add: row_day_def Let_def)
  have "foldl (\<lambda>m r. let day = take 10 (coalesce (cr_period r) []) in if cr_value r = None \<or> day = [] then m else mbump day 0 (\<lambda>a. dadd D a (the (cr_value r))) m) [] rows =
      tally D (day_entries rows)"
    unfolding f tally_def day_entries_def foldl_filter [symmetric] foldl_map by simp
  then show ?thesis unfolding aggregate_consumption_by_day_def Let_def [of "foldl _ _ _"] by (simp only:)
qed

lemma cents_of_hundredth: "is_cents (v / 100) \<Longrightarrow> is_cents v"
  by (auto simp: is_cents_def)

text \<open>The imported charges are the report: with whole kopecks there is one charge per day that cost anything,
  under an id of its own, so a second import of the same report changes nothing, and the charges
  add up to the rows that have a day.\<close>

theorem selectel_day_charges:
  assumes "decimal_arith D" "\<forall>r\<in>set rows. \<forall>v. cr_value r = Some v \<longrightarrow> is_cents (v / 100) \<and> 0 \<le> v"
    and "sum_list (map snd (day_entries rows)) \<le> 10 ^ 17"
  shows "let ps = aggregate_consumption_by_day D parse rows in
    distinct (map pd_external ps) \<and> (\<forall>p\<in>set ps. 0 < pd_amount p \<and> pd_type p = Charge) \<and>
    100 * sum_list (map pd_amount ps) = sum_list (List.map_filter cr_value (filter (\<lambda>r. row_day r \<noteq> []) rows))"
proof -
  let ?m = "tally D (day_entries rows)" and ?pos = "\<lambda>(k, v). \<not> v \<le> (0::rat)"
  have w: "is_cents (snd e / 100) \<and> 0 \<le> snd e" if "e \<in> set (day_entries rows)" for e
    using that assms(2) by (auto simp: day_entries_def)
  then have money: "money_amounts (map snd (day_entries rows))" using cents_of_hundredth by (auto simp: money_amounts_def)
  have v: "snd e = key_sum (day_entries rows) (fst e)" if "e \<in> set ?m" for e
    using decimal_arith.tally_exact [OF assms(1) money assms(3), of "fst e"] mget_of_mem [OF tally_distinct, of "fst e" "snd e"] that
    by (simp split: if_splits)
  have c: "is_cents (key_sum es k / 100)" if "\<forall>e\<in>set es. is_cents (snd e / 100)" for es :: "(string \<times> rat) list" and k
    using that by (induction es) (simp_all add: is_cents_add add_divide_distrib, simp_all add: is_cents_def)
  have q: "ddiv D (snd e) 100 = snd e / 100" "0 \<le> snd e" if "e \<in> set ?m" for e
  proof -
    have k: "0 \<le> snd e" "snd e \<le> 10 ^ 17" "is_cents (snd e / 100)"
      using v [OF that] key_sum_nonneg [OF money] order_trans [OF key_sum_le [OF money] assms(3)] c w by auto
    then show "0 \<le> snd e" by simp
    have "\<bar>snd e / 100\<bar> \<le> 10 ^ 17" using k(1,2) by simp
    then show "ddiv D (snd e) 100 = snd e / 100" unfolding ddiv_def by (rule decimal_arith.sig_cents [OF assms(1) k(3)])
  qed
  let ?ps = "aggregate_consumption_by_day D parse rows"
  have ext: "map pd_external ?ps = map (\<lambda>k. ''sel:day:'' @ k) (map fst (filter ?pos ?m))"
    unfolding by_day_tally by (simp add: case_prod_beta comp_def)
  have "distinct (map pd_external ?ps)"
    unfolding ext using tally_distinct [of D "day_entries rows"] by (simp add: distinct_map inj_on_def distinct_map_filter del: map_map)
  moreover have "0 < ddiv D (snd e) 100" if "e \<in> set ?m" "\<not> snd e \<le> 0" for e using q(1) [OF that(1)] that(2) by simp
  then have "\<forall>p\<in>set ?ps. 0 < pd_amount p \<and> pd_type p = Charge"
    unfolding by_day_tally by (auto simp: case_prod_beta)
  moreover have "100 * sum_list (map pd_amount ?ps) = sum_list (map snd (day_entries rows))"
  proof -
    have "map pd_amount ?ps = map (\<lambda>e. snd e / 100) (filter ?pos ?m)"
      unfolding by_day_tally using q(1) by (simp add: case_prod_beta comp_def)
    moreover have "100 * sum_list (map (\<lambda>e. snd e / 100) xs) = sum_list (map snd xs)" for xs :: "(string \<times> rat) list"
      by (induction xs) (simp_all add: distrib_left)
    ultimately have "100 * sum_list (map pd_amount ?ps) = sum_list (map snd (filter ?pos ?m))" by simp
    then show ?thesis using positive_part [of ?m] q(2) decimal_arith.tally_total [OF assms(1) money assms(3)] by simp
  qed
  moreover have "map snd (day_entries rows) = List.map_filter cr_value (filter (\<lambda>r. row_day r \<noteq> []) rows)"
    unfolding values_filter [symmetric] by (simp add: day_entries_def comp_def)
  ultimately show ?thesis unfolding Let_def by simp
qed

theorem selectel_day_charges_witness:
  "100 * sum_list (map pd_amount (aggregate_consumption_by_day dec20 (\<lambda>s. parse_day (take 10 s)) sample_rows)) = 1200"
proof -
  have s: "\<forall>r\<in>set sample_rows. \<forall>v. cr_value r = Some v \<longrightarrow> is_cents (v / 100) \<and> 0 \<le> v"
    by (simp add: sample_rows_def is_cents_def)
  have "sum_list (map snd (day_entries sample_rows)) \<le> 10 ^ 17"
    by (simp add: sample_rows_def day_entries_def row_day_def)
  then show ?thesis
    using selectel_day_charges [OF dec20_arith s, of "\<lambda>s. parse_day (take 10 s)"] by (simp add: Let_def sample_rows_def map_filter_simps row_day_def)
qed

section \<open>Regions that do not answer\<close>

lemma s3_regions_mem: "region \<in> set (s3_regions rows project) \<longleftrightarrow>
    (\<exists>r\<in>set rows. s3_row project r \<and> cr_region r = Some region \<and> region \<noteq> [])"
proof -
  have "set (foldl (\<lambda>s r. if \<not> s3_row project r then s else if truthy (cr_region r) then List.insert (the (cr_region r)) s else s) s0 rows) =
      set s0 \<union> {g. \<exists>r\<in>set rows. s3_row project r \<and> cr_region r = Some g \<and> g \<noteq> []}" for s0
  proof (induction rows arbitrary: s0)
    case (Cons r rows)
    have "{g. \<exists>x\<in>set (r # rows). s3_row project x \<and> cr_region x = Some g \<and> g \<noteq> []} =
        (if s3_row project r \<and> truthy (cr_region r) then {the (cr_region r)} else {}) \<union>
        {g. \<exists>x\<in>set rows. s3_row project x \<and> cr_region x = Some g \<and> g \<noteq> []}"
      by (cases "cr_region r") auto
    then show ?case using Cons by auto
  qed simp
  from this [of "[]"] show ?thesis by (simp add: s3_regions_def)
qed

text \<open>The project keeps buckets in the region, or it is not known whether it does.\<close>

definition pays_in :: "consumption_row list option \<Rightarrow> string option \<Rightarrow> string \<Rightarrow> bool" where
  "pays_in rows project region = (case rows of None \<Rightarrow> True
     | Some rs \<Rightarrow> \<not> truthy project \<or> (\<exists>r\<in>set rs. s3_row (the project) r \<and> cr_region r = Some region \<and> region \<noteq> []))"

lemma blocking_pays: "blocking_failure rows project failures = find (\<lambda>f. pays_in rows project (fst f)) failures"
  unfolding blocking_failure_def Let_def pays_in_def
  by (cases rows; cases project) (simp_all add: s3_regions_mem)

lemma failed_storage: "e \<in> set (public_endpoints (ka_catalog au) ''object-store'') \<Longrightarrow> region_buckets A au e = Inl m \<Longrightarrow>
    (fst e, m) \<in> set (snd (list_buckets A au))"
  by (force simp: list_buckets_def Let_def)

lemma price_ids: "map sd_external (price_services D parse w project rows servers routers buckets) =
    map (nv_id \<circ> snd) servers @ map (nr_id \<circ> snd) routers @
    map (\<lambda>b. ''bucket:'' @ coalesce project [] @ '':'' @ bk_region b @ '':'' @ bk_name b) buckets"
  by (simp add: price_services_def Let_def map_selectel_server_def map_selectel_router_def map_selectel_bucket_def
      case_prod_beta comp_def)

lemma price_ids_set: "set (map sd_external (price_services D parse w project rows servers routers buckets)) \<subseteq>
    (nv_id \<circ> snd) ` set servers \<union> (nr_id \<circ> snd) ` set routers \<union> {i. starts_with ''bucket:'' i}"
  unfolding price_ids by (auto simp: starts_with_def)

lemma services_result:
  assumes "slc_project creds = Some p" "p \<noteq> []" "project_scoped A p = Inr au"
    and "cost_rows A (cost_window COST_WINDOW_DAYS now) = Inr rows"
  shows "selectel_services D parse creds now A =
    (if list_servers A au = [] \<and> list_routers A au = [] \<and> list_buckets A au = ([], []) then Inr []
     else case blocking_failure rows (ka_project au) (snd (list_buckets A au)) of
        Some f \<Rightarrow> Inl (''Selectel: object storage '' @ fst f @ '': '' @ snd f)
      | None \<Rightarrow> Inr (price_services D parse (cost_window COST_WINDOW_DAYS now) (ka_project au) rows (list_servers A au) (list_routers A au)
          (fst (list_buckets A au))))"
  using assms by (simp add: selectel_services_def Let_def prod_eq_iff split: prod.split)

text \<open>What stays outside the returned list is switched off.\<close>

lemma missing_is_off:
  assumes "s \<in> set (services (deactivate_missing acc seen d))" "sv_account s = acc" "sv_managed s" "sv_external s = Some i" "i \<notin> set seen"
  shows "\<not> sv_active s"
proof -
  let ?P = "\<lambda>s. sv_account s = acc \<and> sv_managed s \<and> not_in_ids (sv_external s) seen"
  have "s \<in> (\<lambda>s. if ?P s then s \<lparr> sv_active := False \<rparr> else s) ` set (services d)"
    using assms(1) by (simp add: deactivate_missing_def rows_update_def)
  then obtain s0 where s0: "s = (if ?P s0 then s0 \<lparr> sv_active := False \<rparr> else s0)" by blast
  moreover have "not_in_ids (Some i) seen" using assms(5) by (simp add: not_in_ids_def)
  ultimately have "?P s0" using assms(2,3,4) by (cases "?P s0") simp_all
  then show ?thesis using s0 by simp
qed

lemma storage_failure_stops:
  assumes "slc_project creds = Some p" "p \<noteq> []" "project_scoped A p = Inr au"
    and "cost_rows A (cost_window COST_WINDOW_DAYS now) = Inr rows"
    and "e \<in> set (public_endpoints (ka_catalog au) ''object-store'')" "region_buckets A au e = Inl m" "pays_in rows (ka_project au) (fst e)"
  shows "\<exists>msg. selectel_services D parse creds now A = Inl msg"
proof -
  have f: "(fst e, m) \<in> set (snd (list_buckets A au))" using assms(5,6) by (intro failed_storage)
  then have "blocking_failure rows (ka_project au) (snd (list_buckets A au)) \<noteq> None"
    unfolding blocking_pays find_None_iff using assms(7) by force
  moreover have "list_buckets A au \<noteq> ([], [])" using f by auto
  ultimately show ?thesis unfolding services_result [OF assms(1-4)] by auto
qed

lemma listed_ids:
  assumes "slc_project creds = Some p" "p \<noteq> []" "project_scoped A p = Inr au"
    and "cost_rows A (cost_window COST_WINDOW_DAYS now) = Inr rows" and "snd (list_buckets A au) = []"
  obtains xs where "selectel_services D parse creds now A = Inr xs" "set (map sd_external xs) \<subseteq>
    (nv_id \<circ> snd) ` set (list_servers A au) \<union> (nr_id \<circ> snd) ` set (list_routers A au) \<union> {i. starts_with ''bucket:'' i}"
proof (cases "list_servers A au = [] \<and> list_routers A au = [] \<and> list_buckets A au = ([], [])")
  case False
  have b: "blocking_failure rows (ka_project au) (snd (list_buckets A au)) = None" by (simp add: blocking_pays assms(5))
  show thesis
    by (rule that) (unfold services_result [OF assms(1-4)] if_not_P [OF False] b option.case, rule refl, rule price_ids_set)
next
  case True
  show thesis by (rule that [of "[]"]) (use True in \<open>simp_all add: services_result [OF assms(1-4)]\<close>)
qed

text \<open>C29. A storage region that does not answer fails the whole synchronisation where the project pays for
  storage, so that nothing is switched off by mistake.  A compute region that does not answer is
  skipped: the list is returned without its servers, and each of them that was stored is inactive after
  the synchronisation.
\<close>

theorem selectel_silent_region:
  assumes "slc_project creds = Some p" "p \<noteq> []" "project_scoped A p = Inr au"
    and "cost_rows A (cost_window COST_WINDOW_DAYS now) = Inr rows"
  shows "(\<forall>e m. e \<in> set (public_endpoints (ka_catalog au) ''object-store'') \<and> region_buckets A au e = Inl m \<and>
        pays_in rows (ka_project au) (fst e) \<longrightarrow> (\<exists>msg. selectel_services D parse creds now A = Inl msg)) \<and>
    (snd (list_buckets A au) = [] \<longrightarrow> (\<exists>xs. selectel_services D parse creds now A = Inr xs \<and>
       (\<forall>i. i \<notin> (nv_id \<circ> snd) ` set (list_servers A au) \<and> i \<notin> (nr_id \<circ> snd) ` set (list_routers A au) \<and> \<not> starts_with ''bucket:'' i \<longrightarrow>
          (\<forall>s\<in>set (services (deactivate_missing acc (map sd_external xs) d)).
             sv_account s = acc \<and> sv_managed s \<and> sv_external s = Some i \<longrightarrow> \<not> sv_active s))))"
proof (intro conjI allI impI)
  show "\<exists>msg. selectel_services D parse creds now A = Inl msg"
    if "e \<in> set (public_endpoints (ka_catalog au) ''object-store'') \<and> region_buckets A au e = Inl m \<and> pays_in rows (ka_project au) (fst e)" for e m
    using that storage_failure_stops [OF assms] by blast
next
  assume "snd (list_buckets A au) = []"
  then obtain xs where xs: "selectel_services D parse creds now A = Inr xs" "set (map sd_external xs) \<subseteq>
      (nv_id \<circ> snd) ` set (list_servers A au) \<union> (nr_id \<circ> snd) ` set (list_routers A au) \<union> {i. starts_with ''bucket:'' i}"
    using listed_ids [OF assms] by blast
  have off: "\<not> sv_active s" if "i \<notin> (nv_id \<circ> snd) ` set (list_servers A au)" "i \<notin> (nr_id \<circ> snd) ` set (list_routers A au)" "\<not> starts_with ''bucket:'' i"
    "s \<in> set (services (deactivate_missing acc (map sd_external xs) d))" "sv_account s = acc" "sv_managed s" "sv_external s = Some i" for i s
    by (rule missing_is_off [OF that(4-7)]) (use xs(2) that(1-3) in blast)
  show "\<exists>xs. selectel_services D parse creds now A = Inr xs \<and>
     (\<forall>i. i \<notin> (nv_id \<circ> snd) ` set (list_servers A au) \<and> i \<notin> (nr_id \<circ> snd) ` set (list_routers A au) \<and> \<not> starts_with ''bucket:'' i \<longrightarrow>
        (\<forall>s\<in>set (services (deactivate_missing acc (map sd_external xs) d)).
           sv_account s = acc \<and> sv_managed s \<and> sv_external s = Some i \<longrightarrow> \<not> sv_active s))"
    by (intro exI [of _ xs] conjI allI impI ballI xs(1)) (elim conjE, rule off)
qed

definition sample_api :: selectel_api where
  "sample_api = \<lparr> sx_keystone = (\<lambda>sc. Inr \<lparr> kr_status = 201, kr_token = Some ''tok'', kr_catalog =
       Some [\<lparr> ca_type = Some ''compute'', ca_endpoints =
         [\<lparr> ce_interface = Some ''public'', ce_region = Some ''ru-1'', ce_url = Some ''https://ru-1/'' \<rparr>,
          \<lparr> ce_interface = Some ''public'', ce_region = Some ''ru-2'', ce_url = Some ''https://ru-2'' \<rparr>] \<rparr>], kr_project = Some ''p'' \<rparr>),
     sx_balance = (\<lambda>t. Inr (Some 100, None)),
     sx_servers = (\<lambda>t u. if u = ''https://ru-1/servers/detail'' then Inr [\<lparr> nv_id = ''a'', nv_name = None, nv_status = None, nv_created = None,
        nv_flavor = None, nv_image = None, nv_addresses = None, nv_zone = None \<rparr>] else Inl ''timeout''),
     sx_routers = (\<lambda>t u. Inr []), sx_listing = (\<lambda>t u. Inr No_storage), sx_answered_at = length,
     sx_consumption = (\<lambda>t q. Inr []), sx_aborted = False \<rparr>"

text \<open>Two compute regions of which the second does not answer: its stored server b is switched off.\<close>

definition sample_creds :: selectel_credentials where
  "sample_creds = \<lparr> slc_account = ''1'', slc_username = ''u'', slc_password = ''p'', slc_project = Some ''main'' \<rparr>"

theorem selectel_silent_region_witness:
  "\<exists>xs. selectel_services dec20 (\<lambda>s. None) sample_creds 0 sample_api = Inr xs \<and> map sd_external xs = [''a''] \<and>
    (\<exists>au :: keystone_auth. (''ru-2'', ''https://ru-2'') \<in> set (public_endpoints (ka_catalog au) ''compute''))"
proof -
  let ?au = "\<lparr> ka_token = ''tok'', ka_catalog = the (kr_catalog (projr (sx_keystone sample_api Account_scope))), ka_project = Some ''p'' \<rparr>"
  have a: "project_scoped sample_api ''main'' = Inr ?au" by (simp add: project_scoped_def keystone_def sample_api_def)
  have c: "cost_rows sample_api (cost_window COST_WINDOW_DAYS 0) = Inr (Some [])"
    by (simp add: cost_rows_def consumption_def account_scoped_token_def keystone_def sample_api_def)
  have e: "public_endpoints (ka_catalog ?au) ''compute'' = [(''ru-1'', ''https://ru-1''), (''ru-2'', ''https://ru-2'')]"
    "public_endpoints (ka_catalog ?au) ''network'' = []" "public_endpoints (ka_catalog ?au) ''object-store'' = []"
    by (simp_all add: public_endpoints_def sample_api_def strip_slashes_def)
  have l: "map (nv_id \<circ> snd) (list_servers sample_api ?au) = [''a'']" "list_routers sample_api ?au = []" "list_buckets sample_api ?au = ([], [])"
    unfolding list_servers_def list_routers_def list_buckets_def Let_def e by (simp_all add: fulfilled_def sample_api_def)
  have p: "slc_project sample_creds = Some ''main''" by (simp add: sample_creds_def)
  have m: "''main'' \<noteq> []" by simp
  have "snd (list_buckets sample_api ?au) = []" by (simp only: l(3) snd_conv)
  with selectel_silent_region [OF p m a c, THEN conjunct2, THEN mp, of dec20 "\<lambda>s. None"]
  obtain xs where x: "selectel_services dec20 (\<lambda>s. None) sample_creds 0 sample_api = Inr xs" by blast
  have "map sd_external xs = [''a'']"
  proof -
    have n: "\<not> (list_servers sample_api ?au = [] \<and> list_routers sample_api ?au = [] \<and> list_buckets sample_api ?au = ([], []))"
      using l(1) by auto
    have "selectel_services dec20 (\<lambda>s. None) sample_creds 0 sample_api =
        Inr (price_services dec20 (\<lambda>s. None) (cost_window COST_WINDOW_DAYS 0) (ka_project ?au) (Some []) (list_servers sample_api ?au) [] [])"
      unfolding services_result [OF p m a c, of dec20 "\<lambda>s. None"] if_not_P [OF n]
      by (simp only: l blocking_pays find.simps option.case fst_conv snd_conv)
    then have "xs = price_services dec20 (\<lambda>s. None) (cost_window COST_WINDOW_DAYS 0) (ka_project ?au) (Some []) (list_servers sample_api ?au) [] []"
      using x by (simp only: sum.inject)
    then show ?thesis by (simp only: price_ids l list.map append_Nil2)
  qed
  moreover have "(''ru-2'', ''https://ru-2'') \<in> set (public_endpoints (ka_catalog ?au) ''compute'')" unfolding e by simp
  then have "\<exists>au :: keystone_auth. (''ru-2'', ''https://ru-2'') \<in> set (public_endpoints (ka_catalog au) ''compute'')" by (rule exI [of _ ?au])
  ultimately show ?thesis using x by (intro exI [of _ xs] conjI)
qed

end
