(* ===== verification/Paging.thy ===== *)
theory Paging
  imports Vendor
begin

text \<open>
  The ways in which the connectors walk a list that the vendor hands out in pages: numbered pages and
  cursors, each with the cap of MAX_PAGES requests, and numbered pages without a cap, which may not end.
  A request is a parameter; Inl is the message of a failed one.
\<close>

section \<open>The loops\<close>

text \<open>for (page = 0; page < n; page++): push the page's items, break when the condition holds.\<close>

fun page_loop :: "(nat \<Rightarrow> string + 'p) \<Rightarrow> ('p \<Rightarrow> 'a list) \<Rightarrow> ('p \<Rightarrow> 'a list \<Rightarrow> bool) \<Rightarrow> nat \<Rightarrow> nat \<Rightarrow> 'a list \<Rightarrow> string + 'a list" where
  "page_loop ask items stop 0 page out = Inr out"
| "page_loop ask items stop (Suc n) page out = (case ask page of Inl e \<Rightarrow> Inl e
     | Inr p \<Rightarrow> (let out' = out @ items p in if stop p out' then Inr out' else page_loop ask items stop n (page + 1) out'))"

text \<open>The same with a cursor that each page gives for the next one.\<close>

fun cursor_loop :: "('c option \<Rightarrow> string + 'p) \<Rightarrow> ('p \<Rightarrow> 'a list) \<Rightarrow> ('p \<Rightarrow> 'c option) \<Rightarrow> nat \<Rightarrow> 'c option \<Rightarrow> 'a list \<Rightarrow> string + 'a list" where
  "cursor_loop ask items following 0 cursor out = Inr out"
| "cursor_loop ask items following (Suc n) cursor out = (case ask cursor of Inl e \<Rightarrow> Inl e
     | Inr p \<Rightarrow> (let out' = out @ items p in case following p of None \<Rightarrow> Inr out'
         | Some c \<Rightarrow> cursor_loop ask items following n (Some c) out'))"

text \<open>for (;;): None is a loop that does not end.\<close>

partial_function (option) endless_loop ::
    "(nat \<Rightarrow> string + 'p) \<Rightarrow> ('p \<Rightarrow> 'a list) \<Rightarrow> ('p \<Rightarrow> bool) \<Rightarrow> nat \<Rightarrow> 'a list \<Rightarrow> (string + 'a list) option" where
  "endless_loop ask items stop page out = (case ask page of Inl e \<Rightarrow> Some (Inl e)
     | Inr p \<Rightarrow> if stop p then Some (Inr (out @ items p)) else endless_loop ask items stop (page + 1) (out @ items p))"

section \<open>A vendor that serves a list\<close>

text \<open>Page k of a list in pages of the given size.\<close>

definition slice :: "nat \<Rightarrow> nat \<Rightarrow> 'a list \<Rightarrow> 'a list" where
  "slice psize k xs = take psize (drop (k * psize) xs)"

lemma slice_append: "take (k * psize) xs @ slice psize k xs = take (Suc k * psize) xs"
  by (simp add: slice_def take_add [symmetric] add.commute)

lemma slice_short: "0 < psize \<Longrightarrow> k * psize \<le> length xs \<Longrightarrow> (length (slice psize k xs) < psize) = (length xs < Suc k * psize)"
  by (simp add: slice_def) linarith

text \<open>
  The loops that break at a short page, or at that and when the announced total is reached: with the cap
  of n pages they give the first n pages' items, so all of them exactly when these fit.
\<close>

lemma page_loop_slices:
  assumes "0 < psize" "\<And>j. ask j = Inr (p j)" "\<And>j. items (p j) = slice psize j xs"
    and "\<And>j out. out = take (Suc j * psize) xs \<Longrightarrow> stop (p j) out \<Longrightarrow> length xs \<le> Suc j * psize"
    and "\<And>j out. length (slice psize j xs) < psize \<Longrightarrow> stop (p j) out"
    and "k * psize \<le> length xs"
  shows "page_loop ask items stop n k (take (k * psize) xs) = Inr (take ((k + n) * psize) xs)"
  using assms(6)
proof (induction n arbitrary: k)
  case (Suc n)
  let ?out = "take (Suc k * psize) xs"
  have out: "take (k * psize) xs @ items (p k) = ?out" by (simp only: assms(3) slice_append)
  show ?case
  proof (cases "stop (p k) ?out")
    case True
    then have "length xs \<le> Suc k * psize" using assms(4) by blast
    moreover have "Suc k * psize \<le> (k + Suc n) * psize" by (simp only: mult_le_mono1 add_Suc_right Suc_le_mono le_add1)
    ultimately have "length xs \<le> Suc k * psize" "length xs \<le> (k + Suc n) * psize" by linarith+
    then have "take ((k + Suc n) * psize) xs = ?out" by (simp only: take_all)
    then show ?thesis using True by (simp only: page_loop.simps assms(2) sum.case Let_def out if_True)
  next
    case False
    then have "\<not> length (slice psize k xs) < psize" using assms(5) by blast
    then have "Suc k * psize \<le> length xs" using slice_short [OF assms(1) Suc.prems] by linarith
    from Suc.IH [OF this] show ?thesis using False
      by (simp only: page_loop.simps assms(2) sum.case Let_def out if_False Suc_eq_plus1 [symmetric] add_Suc_right add_Suc)
  qed
qed simp

text \<open>The loop without a cap ends, with the whole list, exactly as a capped one with room enough.\<close>

lemma endless_slices:
  assumes "0 < psize" "\<And>j. ask j = Inr (p j)" "\<And>j. items (p j) = slice psize j xs"
    and "\<And>j. stop (p j) = (length (slice psize j xs) < psize)" and "k * psize \<le> length xs"
  shows "endless_loop ask items stop k (take (k * psize) xs) = Some (Inr xs)"
  using assms(5)
proof (induction "length xs - k * psize" arbitrary: k rule: less_induct)
  case less
  have out: "take (k * psize) xs @ items (p k) = take (Suc k * psize) xs" by (simp only: assms(3) slice_append)
  show ?case
  proof (cases "length (slice psize k xs) < psize")
    case True
    then have "length xs < Suc k * psize" using slice_short [OF assms(1) less.prems] by blast
    then have "take (Suc k * psize) xs = xs" by simp
    then show ?thesis using True by (subst endless_loop.simps) (simp only: assms(2,4) sum.case out if_True)
  next
    case False
    then have k: "Suc k * psize \<le> length xs" using slice_short [OF assms(1) less.prems] by linarith
    then have "length xs - Suc k * psize < length xs - k * psize" using assms(1) by simp
    from less.hyps [OF this k] show ?thesis using False
      by (subst endless_loop.simps) (simp only: assms(2,4) sum.case out if_False Suc_eq_plus1)
  qed
qed

definition ends_at :: "(nat \<Rightarrow> string + 'p) \<Rightarrow> ('p \<Rightarrow> bool) \<Rightarrow> nat \<Rightarrow> bool" where
  "ends_at ask stop j = (case ask j of Inl _ \<Rightarrow> True | Inr p \<Rightarrow> stop p)"

lemma endless_ends:
  assumes "endless_loop ask items stop k out = Some r"
  shows "\<exists>j. ends_at ask stop j"
proof (rule endless_loop.raw_induct [OF _ assms, where P = "\<lambda>ask items stop k out r. \<exists>j. ends_at ask stop j"], goal_cases)
  case (1 loop ask items stop page out r)
  show ?case
  proof (cases "ends_at ask stop page")
    case False
    then obtain p where "ask page = Inr p" "\<not> stop p" by (auto simp: ends_at_def split: sum.splits)
    then show ?thesis using 1 by auto
  qed blast
qed

text \<open>A vendor that never sends a short page keeps the loop without a cap from ending.\<close>

lemma endless_runs_on:
  assumes "\<And>j. \<exists>p. ask j = Inr p \<and> \<not> stop p"
  shows "endless_loop ask items stop k out = None"
  proof (cases "endless_loop ask items stop k out")
  case (Some r)
  from endless_ends [OF this] obtain j where "ends_at ask stop j" ..
  then show ?thesis using assms [of j] by (auto simp: ends_at_def)
qed

text \<open>Cursors: the pages of a list of lists, each naming the next one.\<close>

lemma cursor_loop_pages:
  assumes "\<And>c. ask c = Inr (case c of None \<Rightarrow> 0 | Some j \<Rightarrow> j)" "\<And>j. items j = (if j < length ps then ps ! j else [])"
    and "\<And>j. following j = (if Suc j < length ps then Some (Suc j) else None)"
    and "c = (if k = 0 then None else Some k)" "k < length ps"
  shows "cursor_loop ask items following n c (concat (take k ps)) = Inr (concat (take (k + n) ps))"
  using assms(4,5)
proof (induction n arbitrary: k c)
  case (Suc n)
  have a: "ask c = Inr k" using Suc.prems by (simp add: assms(1))
  have out: "concat (take k ps) @ items k = concat (take (Suc k) ps)"
    using Suc.prems(2) by (simp add: assms(2) take_Suc_conv_app_nth)
  show ?case
  proof (cases "Suc k < length ps")
    case True
    then have "cursor_loop ask items following n (Some (Suc k)) (concat (take (Suc k) ps)) = Inr (concat (take (Suc k + n) ps))"
      using Suc.IH [of "Some (Suc k)" "Suc k"] by simp
    moreover have "following k = Some (Suc k)" using True by (simp only: assms(3) if_True)
    ultimately show ?thesis by (simp add: a Let_def out)
  next
    case False
    then have "following k = None" by (simp only: assms(3) if_False)
    then show ?thesis using False Suc.prems(2) by (simp add: a Let_def out)
  qed
qed simp

end
