(* ===== verification/Aeza.thy ===== *)
theory Aeza
  imports Paging Credentials
begin

text \<open>
  connectors/aeza: the mapper of services, terms and transactions and the connector over the replies of
  the API.  Money is in minor units; P is Date.parse.  Names of Object.prototype are not terms.
\<close>

section \<open>aeza.types.ts\<close>

record aeza_service =
  az_id :: nat
  az_name :: string
  az_ip :: "string option"
  az_price :: rat
  az_term :: string
  az_expires :: "string option"
  az_status :: string
  az_type_slug :: string
  az_location :: "string option"
  az_product :: "string option"
  az_auto_prolong :: "bool option"

record aeza_transaction =
  azt_id :: nat
  azt_amount :: rat
  azt_type :: string
  azt_status :: string
  azt_performed :: "string option"
  azt_created :: "string option"

record 'a aeza_paged =
  azp_items :: "'a list option"
  azp_total :: "nat option"

section \<open>aeza.mapper.ts\<close>

definition TERM_PERIOD :: "(string \<times> period) list" where
  "TERM_PERIOD = [(''hour'', Hourly), (''day'', Daily), (''month'', Monthly), (''quarter_year'', Quarterly),
     (''year'', Yearly), (''eternal'', Onetime)]"

definition TERM_MONTHS :: "decimal_lib \<Rightarrow> (string \<times> rat) list" where
  "TERM_MONTHS D = [(''half_day'', ddiv D (1 / 2) (DAYS_PER_MONTH D)), (''week'', ddiv D 7 (DAYS_PER_MONTH D)), (''half_year'', 6)]"

definition to_major :: "decimal_lib \<Rightarrow> rat \<Rightarrow> rat" where "to_major D minor = ddiv D minor 100"

definition map_term :: "decimal_lib \<Rightarrow> string \<Rightarrow> rat \<Rightarrow> rat \<times> period" where
  "map_term D term minor =
     (let price = to_major D minor in
      case map_of TERM_PERIOD term of Some p \<Rightarrow> (price, p)
      | None \<Rightarrow> (case map_of (TERM_MONTHS D) term of Some months \<Rightarrow> (ddiv D price months, Monthly) | None \<Rightarrow> (price, Monthly)))"

definition map_type_slug :: "string \<Rightarrow> string" where
  "map_type_slug slug = (if slug = ''vps'' then ''vps'' else if starts_with ''dedic'' slug then ''dedicated''
     else if slug = ''domain'' then ''domain'' else ''other'')"

definition map_aeza_service :: "decimal_lib \<Rightarrow> (string \<Rightarrow> ms option) \<Rightarrow> aeza_service \<Rightarrow> service_data" where
  "map_aeza_service D P s =
     (let (cost, period) = map_term D (az_term s) (az_price s) in
      \<lparr> sd_external = nat_text (az_id s),
        sd_name = or_text (Some (az_name s)) (or_text (az_product s) (''aeza-'' @ nat_text (az_id s))),
        sd_type = map_type_slug (az_type_slug s),
        sd_country = (case az_location s of Some code \<Rightarrow> if length code = 2 then Some (to_upper code) else None | None \<Rightarrow> None),
        sd_cost = Some cost, sd_currency = None, sd_period = Some period, sd_next = next_of (parse_date P (az_expires s)),
        sd_meta = str_field ''ip'' (az_ip s) @ [(''status'', JStr (az_status s)), (''typeSlug'', JStr (az_type_slug s))] @
          str_field ''productName'' (az_product s) @ json_field ''autoProlong'' (map_option JBool (az_auto_prolong s)) @
          str_field ''locationCode'' (az_location s) \<rparr>)"

definition TOPUP_TYPES :: "string list" where
  "TOPUP_TYPES = [''replenishment'', ''compensation'', ''refund'']"

definition is_topup :: "aeza_transaction \<Rightarrow> bool" where
  "is_topup t = (azt_type t \<in> set TOPUP_TYPES \<or> azt_type t = ''manual'' \<and> 0 \<le> azt_amount t)"

definition to_amount :: "decimal_lib \<Rightarrow> rat \<Rightarrow> rat" where "to_amount D minor = ddiv D \<bar>minor\<bar> 100"

definition txn_date :: "(string \<Rightarrow> ms option) \<Rightarrow> aeza_transaction \<Rightarrow> ms option" where
  "txn_date P t = parse_date P (case azt_performed t of Some s \<Rightarrow> Some s | None \<Rightarrow> azt_created t)"

definition aeza_topup :: "decimal_lib \<Rightarrow> (string \<Rightarrow> ms option) \<Rightarrow> ccy \<Rightarrow> aeza_transaction \<Rightarrow> payment_data" where
  "aeza_topup D P currency t =
     \<lparr> pd_external = ''txn:'' @ nat_text (azt_id t), pd_type = Topup, pd_amount = to_amount D (azt_amount t), pd_currency = currency,
       pd_date = Some (coalesce (txn_date P t) 0), pd_description = Some (azt_type t), pd_service_external = None \<rparr>"

definition aggregate_charges_by_day :: "decimal_lib \<Rightarrow> (string \<Rightarrow> ms option) \<Rightarrow> aeza_transaction list \<Rightarrow> ccy \<Rightarrow> payment_data list" where
  "aggregate_charges_by_day D P charges currency =
     (let per = foldl (\<lambda>m t. case txn_date P t of None \<Rightarrow> m
            | Some d \<Rightarrow> mbump (iso_day d) 0 (\<lambda>a. dadd D a (to_amount D (azt_amount t))) m) [] charges
      in map (\<lambda>(day, v). \<lparr> pd_external = ''aeza:day:'' @ day, pd_type = Charge, pd_amount = v, pd_currency = currency,
            pd_date = P (day @ ''T00:00:00Z''), pd_description = Some ''Aeza charges'', pd_service_external = None \<rparr>)
           (filter (\<lambda>(day, v). \<not> v \<le> 0) per))"

definition map_aeza_payments :: "decimal_lib \<Rightarrow> (string \<Rightarrow> ms option) \<Rightarrow> aeza_transaction list \<Rightarrow> ccy \<Rightarrow> payment_data list" where
  "map_aeza_payments D P txns currency =
     map (aeza_topup D P currency) (filter is_topup txns) @ aggregate_charges_by_day D P (filter (\<lambda>t. \<not> is_topup t) txns) currency"

section \<open>aeza.connector.ts\<close>

definition AEZA_PAGE_SIZE :: nat where "AEZA_PAGE_SIZE = 100"
definition AEZA_MAX_PAGES :: nat where "AEZA_MAX_PAGES = 50"

text \<open>The origin the key is sent to, by the check of the credentials; Inl refuses.\<close>

definition aeza_base :: "string option \<Rightarrow> string + string" where
  "aeza_base given = (case (if truthy given then normalize_aeza (the given) else Some (hd AEZA_BASE_URLS)) of
     None \<Rightarrow> Inl (''Aeza: baseUrl must be '' @ join_with '' or '' AEZA_BASE_URLS) | Some url \<Rightarrow> Inr url)"

text \<open>A list is asked for from an offset.\<close>

record aeza_api =
  ax_account :: "string + (rat option \<times> ccy)"
  ax_services :: "nat \<Rightarrow> string + aeza_service aeza_paged"
  ax_transactions :: "nat \<Rightarrow> string + aeza_transaction aeza_paged"

definition aeza_paginate :: "(nat \<Rightarrow> string + 'a aeza_paged) \<Rightarrow> string + 'a list" where
  "aeza_paginate ask = page_loop (\<lambda>page. ask (page * AEZA_PAGE_SIZE)) (\<lambda>p. coalesce (azp_items p) [])
     (\<lambda>p out. length (coalesce (azp_items p) []) < AEZA_PAGE_SIZE \<or> coalesce (azp_total p) (length out) \<le> length out) AEZA_MAX_PAGES 0 []"

text \<open>The account reply fills the cached currency, which is the second component.\<close>

definition aeza_account :: "decimal_lib \<Rightarrow> aeza_api \<Rightarrow> string + (account_data \<times> ccy)" where
  "aeza_account D A = (case ax_account A of Inl e \<Rightarrow> Inl e
     | Inr (balance, currency) \<Rightarrow> Inr (\<lparr> ad_balance = Some (ddiv D (coalesce balance 0) 100), ad_currency = currency \<rparr>, currency))"

definition aeza_services :: "decimal_lib \<Rightarrow> (string \<Rightarrow> ms option) \<Rightarrow> aeza_api \<Rightarrow> string + service_data list" where
  "aeza_services D P A = (case aeza_paginate (ax_services A) of Inl e \<Rightarrow> Inl e
     | Inr xs \<Rightarrow> Inr (map (map_aeza_service D P) (filter (\<lambda>s. az_status s \<noteq> ''deleted'') xs)))"

definition aeza_currency :: "aeza_api \<Rightarrow> ccy option \<Rightarrow> string + ccy" where
  "aeza_currency A cached = (if truthy cached then Inr (the cached) else map_sum id snd (ax_account A))"

definition aeza_payments :: "decimal_lib \<Rightarrow> (string \<Rightarrow> ms option) \<Rightarrow> aeza_api \<Rightarrow> ccy option \<Rightarrow> string + payment_data list" where
  "aeza_payments D P A cached = (case aeza_currency A cached of Inl e \<Rightarrow> Inl e
     | Inr currency \<Rightarrow> (case aeza_paginate (ax_transactions A) of Inl e \<Rightarrow> Inl e
         | Inr txns \<Rightarrow> Inr (map_aeza_payments D P (filter (\<lambda>t. azt_status t = ''performed'') txns) currency)))"

section \<open>The whole list, up to the cap\<close>

definition serves :: "(nat \<Rightarrow> string + 'a aeza_paged) \<Rightarrow> 'a list \<Rightarrow> bool" where
  "serves ask xs = (\<forall>page. ask (page * AEZA_PAGE_SIZE) =
     Inr \<lparr> azp_items = Some (slice AEZA_PAGE_SIZE page xs), azp_total = Some (length xs) \<rparr>)"

lemma aeza_pages: "serves ask xs \<Longrightarrow> aeza_paginate ask = Inr (take 5000 xs)"
proof -
  assume s: "serves ask xs"
  let ?p = "\<lambda>j. \<lparr> azp_items = Some (slice AEZA_PAGE_SIZE j xs), azp_total = Some (length xs) \<rparr>"
  have "page_loop (\<lambda>page. ask (page * AEZA_PAGE_SIZE)) (\<lambda>p. coalesce (azp_items p) [])
     (\<lambda>p out. length (coalesce (azp_items p) []) < AEZA_PAGE_SIZE \<or> coalesce (azp_total p) (length out) \<le> length out) AEZA_MAX_PAGES 0
       (take (0 * AEZA_PAGE_SIZE) xs) = Inr (take ((0 + AEZA_MAX_PAGES) * AEZA_PAGE_SIZE) xs)"
  proof (rule page_loop_slices [where p = ?p])
    fix j out
    assume "out = take (Suc j * AEZA_PAGE_SIZE) xs"
      "length (coalesce (azp_items (?p j)) []) < AEZA_PAGE_SIZE \<or> coalesce (azp_total (?p j)) (length out) \<le> length out"
    then show "length xs \<le> Suc j * AEZA_PAGE_SIZE" by (auto simp: slice_def AEZA_PAGE_SIZE_def)
  qed (use s in \<open>simp_all add: serves_def AEZA_PAGE_SIZE_def\<close>)
  then show ?thesis by (simp add: aeza_paginate_def AEZA_PAGE_SIZE_def AEZA_MAX_PAGES_def)
qed

section \<open>The ledger\<close>

definition charge_entries :: "decimal_lib \<Rightarrow> (string \<Rightarrow> ms option) \<Rightarrow> aeza_transaction list \<Rightarrow> (string \<times> rat) list" where
  "charge_entries D P charges = map (\<lambda>t. (iso_day (the (txn_date P t)), to_amount D (azt_amount t))) (filter (\<lambda>t. txn_date P t \<noteq> None) charges)"

lemma charges_tally: "aggregate_charges_by_day D P charges currency =
   map (\<lambda>(day, v). \<lparr> pd_external = ''aeza:day:'' @ day, pd_type = Charge, pd_amount = v, pd_currency = currency,
       pd_date = P (day @ ''T00:00:00Z''), pd_description = Some ''Aeza charges'', pd_service_external = None \<rparr>)
     (filter (\<lambda>(day, v). \<not> v \<le> 0) (tally D (charge_entries D P charges)))"
proof -
  have f: "(\<lambda>m t. case txn_date P t of None \<Rightarrow> m | Some d \<Rightarrow> mbump (iso_day d) 0 (\<lambda>a. dadd D a (to_amount D (azt_amount t))) m) =
      (\<lambda>m t. if txn_date P t \<noteq> None then mbump (iso_day (the (txn_date P t))) 0 (\<lambda>a. dadd D a (to_amount D (azt_amount t))) m else m)"
    by (intro ext) (simp split: option.split)
  have "foldl (\<lambda>m t. case txn_date P t of None \<Rightarrow> m | Some d \<Rightarrow> mbump (iso_day d) 0 (\<lambda>a. dadd D a (to_amount D (azt_amount t))) m) [] charges =
      tally D (charge_entries D P charges)"
    unfolding f tally_def charge_entries_def foldl_filter [symmetric] foldl_map by simp
  then show ?thesis unfolding aggregate_charges_by_day_def Let_def by (simp only:)
qed

text \<open>What one imported transaction stands for, in major units.\<close>

definition major :: "aeza_transaction \<Rightarrow> rat" where "major t = \<bar>azt_amount t\<bar> / 100"

definition whole_units :: "aeza_transaction list \<Rightarrow> bool" where
  "whole_units txns = (money_amounts (map major txns) \<and> sum_list (map major txns) \<le> 10 ^ 17)"

lemma whole_units_Cons: "whole_units (t # txns) \<Longrightarrow> is_cents (major t) \<and> 0 \<le> major t \<and> major t \<le> 10 ^ 17 \<and> whole_units txns"
  using money_sum_nonneg [of "map major txns"] by (auto simp: whole_units_def money_amounts_def)

context decimal_arith
begin

lemma to_amount_exact: "whole_units txns \<Longrightarrow> t \<in> set txns \<Longrightarrow> to_amount D (azt_amount t) = major t"
proof (induction txns)
  case (Cons x txns)
  then show ?case
    using whole_units_Cons [OF Cons.prems(1)] by (auto simp: to_amount_def ddiv_def major_def sig_cents)
qed simp

end

lemma whole_filter: "whole_units txns \<Longrightarrow> whole_units (filter Q txns)"
proof (induction txns)
  case (Cons t txns)
  note c = whole_units_Cons [OF Cons.prems]
  have "sum_list (map major (filter Q (t # txns))) \<le> sum_list (map major (t # txns))"
  proof -
    have m: "money_amounts (map snd (map (\<lambda>t. ((), major t)) (t # txns)))" using Cons.prems by (simp add: whole_units_def comp_def)
    have "0 \<le> major x" for x by (simp add: major_def)
    then have "sum_list (map major (filter Q xs)) \<le> sum_list (map major xs)" for xs
      by (induction xs) (auto simp: add_increasing)
    then show ?thesis .
  qed
  then show ?case using Cons.prems by (auto simp: whole_units_def money_amounts_def)
qed (simp add: whole_units_def money_amounts_def)

text \<open>The charges of one UTC day among the transactions: the performed ones that are no top-ups.\<close>

definition day_total :: "(string \<Rightarrow> ms option) \<Rightarrow> aeza_transaction list \<Rightarrow> string \<Rightarrow> rat" where
  "day_total P txns day = sum_list (map major (filter (\<lambda>t. \<not> is_topup t \<and> map_option iso_day (txn_date P t) = Some day) txns))"

lemma key_sum_day:
  assumes "decimal_arith D" "whole_units txns"
  shows "key_sum (charge_entries D P (filter (\<lambda>t. \<not> is_topup t) txns)) day = day_total P txns day"
proof -
  have "key_sum (charge_entries D P (filter (\<lambda>t. \<not> is_topup t) xs)) day = day_total P xs day" if "set xs \<subseteq> set txns" for xs
    using that by (induction xs) (auto simp: charge_entries_def day_total_def decimal_arith.to_amount_exact [OF assms])
  then show ?thesis by simp
qed

lemma day_charges:
  assumes "decimal_arith D" "money_amounts (map snd es)" "sum_list (map snd es) \<le> 10 ^ 17"
    and "chs = map (\<lambda>(day, v). \<lparr> pd_external = ''aeza:day:'' @ day, pd_type = Charge, pd_amount = v, pd_currency = c,
       pd_date = P (day @ ''T00:00:00Z''), pd_description = Some ''Aeza charges'', pd_service_external = None \<rparr>)
     (filter (\<lambda>(day, v). \<not> v \<le> 0) (tally D es))"
  shows "p \<in> set chs \<Longrightarrow> \<exists>day. pd_external p = ''aeza:day:'' @ day \<and> pd_date p = P (day @ ''T00:00:00Z'') \<and> pd_amount p = key_sum es day \<and> 0 < pd_amount p"
    and "0 < key_sum es day \<Longrightarrow> \<exists>p\<in>set chs. pd_external p = ''aeza:day:'' @ day \<and> pd_amount p = key_sum es day"
proof -
  assume "p \<in> set chs"
  then obtain day v where "(day, v) \<in> set (tally D es)" "\<not> v \<le> 0" and p: "p = \<lparr> pd_external = ''aeza:day:'' @ day, pd_type = Charge, pd_amount = v, pd_currency = c,
       pd_date = P (day @ ''T00:00:00Z''), pd_description = Some ''Aeza charges'', pd_service_external = None \<rparr>"
    unfolding assms(4) by auto
  moreover from this have "v = key_sum es day" using decimal_arith.tally_member(1) [OF assms(1-3), of "(day, v)"] by simp
  ultimately show "\<exists>day. pd_external p = ''aeza:day:'' @ day \<and> pd_date p = P (day @ ''T00:00:00Z'') \<and> pd_amount p = key_sum es day \<and> 0 < pd_amount p"
    by auto
next
  assume k: "0 < key_sum es day"
  then have "day \<in> fst ` set es" using key_sum_absent [of day es] by fastforce
  then have "mget (tally D es) day = Some (key_sum es day)" using decimal_arith.tally_exact [OF assms(1-3)] by simp
  then have "(day, key_sum es day) \<in> set (tally D es)" by (simp add: mget_def map_of_SomeD)
  then show "\<exists>p\<in>set chs. pd_external p = ''aeza:day:'' @ day \<and> pd_amount p = key_sum es day"
    using k unfolding assms(4) by (intro bexI [of _ "(\<lambda>(day, v). \<lparr> pd_external = ''aeza:day:'' @ day, pd_type = Charge, pd_amount = v, pd_currency = c,
       pd_date = P (day @ ''T00:00:00Z''), pd_description = Some ''Aeza charges'', pd_service_external = None \<rparr>) (day, key_sum es day)"]) auto
qed

text \<open>C35. The imported ledger of a vendor that serves its transactions in pages.  Only the first 5000 in its
  order are imported, since the walk stops after 50 pages.  Of these every performed top-up is one payment
  of its amount at its own date; a charge belongs to one UTC day, is dated to its midnight and has exactly
  the sum of the other performed transactions of that day; every day on which they come to more than
  nothing has its charge; and all ids are distinct.\<close>

theorem aeza_ledger:
  assumes "decimal_arith D" "serves (ax_transactions A) xs" "aeza_currency A cached = Inr c"
    and "performed = filter (\<lambda>t. azt_status t = ''performed'') (take 5000 xs)"
    and "whole_units performed" "distinct (map azt_id performed)"
  shows "\<exists>ps. aeza_payments D P A cached = Inr ps \<and> distinct (map pd_external ps) \<and>
    map (\<lambda>p. (pd_external p, pd_amount p, pd_date p)) (filter (\<lambda>p. pd_type p = Topup) ps) =
      map (\<lambda>t. (''txn:'' @ nat_text (azt_id t), major t, Some (coalesce (txn_date P t) 0))) (filter is_topup performed) \<and>
    (\<forall>p\<in>set ps. pd_type p = Topup \<or> (\<exists>day. pd_external p = ''aeza:day:'' @ day \<and> pd_date p = P (day @ ''T00:00:00Z'') \<and>
       pd_amount p = day_total P performed day \<and> 0 < pd_amount p)) \<and>
    (\<forall>day. 0 < day_total P performed day \<longrightarrow> (\<exists>p\<in>set ps. pd_external p = ''aeza:day:'' @ day \<and> pd_amount p = day_total P performed day))"
proof -
  let ?tops = "map (aeza_topup D P c) (filter is_topup performed)"
    and ?chs = "aggregate_charges_by_day D P (filter (\<lambda>t. \<not> is_topup t) performed) c"
    and ?es = "charge_entries D P (filter (\<lambda>t. \<not> is_topup t) performed)"
  have r: "aeza_payments D P A cached = Inr (?tops @ ?chs)"
    by (simp add: aeza_payments_def assms(3) aeza_pages [OF assms(2)] assms(4) map_aeza_payments_def)
  note am = decimal_arith.to_amount_exact [OF assms(1,5)]
  have es: "map snd ?es = map major (filter (\<lambda>t. \<not> is_topup t \<and> txn_date P t \<noteq> None) performed)"
    using am by (auto simp: charge_entries_def comp_def conj_commute intro!: map_cong)
  have w: "whole_units (filter (\<lambda>t. \<not> is_topup t \<and> txn_date P t \<noteq> None) performed)" using assms(5) by (rule whole_filter)
  then have m: "money_amounts (map snd ?es)" "sum_list (map snd ?es) \<le> 10 ^ 17" unfolding es by (simp_all add: whole_units_def)
  note days = day_charges [OF assms(1) m charges_tally, unfolded key_sum_day [OF assms(1,5)]]
  have ct: "\<forall>p\<in>set ?chs. pd_type p = Charge" "\<forall>p\<in>set ?tops. pd_type p = Topup"
    by (auto simp: charges_tally aeza_topup_def)
  then have f: "filter (\<lambda>p. pd_type p = Topup) (?tops @ ?chs) = ?tops"
    by (auto simp: filter_id_conv filter_empty_conv)
  have "map (\<lambda>p. (pd_external p, pd_amount p, pd_date p)) ?tops =
      map (\<lambda>t. (''txn:'' @ nat_text (azt_id t), major t, Some (coalesce (txn_date P t) 0))) (filter is_topup performed)"
    using am by (auto simp: aeza_topup_def)
  moreover have "distinct (map pd_external (?tops @ ?chs))"
  proof -
    have "map pd_external ?chs = map (\<lambda>k. ''aeza:day:'' @ k) (map fst (filter (\<lambda>(k, v). \<not> v \<le> 0) (tally D ?es)))"
      by (simp add: charges_tally case_prod_beta comp_def)
    then have "distinct (map pd_external ?chs)" using distinct_prefixed [OF positive_distinct] by (simp only:)
    moreover have "map pd_external ?tops = map (\<lambda>i. ''txn:'' @ nat_text i) (map azt_id (filter is_topup performed))"
      by (simp add: aeza_topup_def comp_def)
    then have "distinct (map pd_external ?tops)"
      using distinct_numbered [OF distinct_map_filter [OF assms(6), of is_topup]] by (simp only:)
    moreover have "set (map pd_external ?tops) \<inter> set (map pd_external ?chs) = {}"
      by (auto simp: aeza_topup_def charges_tally)
    ultimately show ?thesis by simp
  qed
  moreover have "\<forall>p\<in>set (?tops @ ?chs). pd_type p = Topup \<or> (\<exists>day. pd_external p = ''aeza:day:'' @ day \<and> pd_date p = P (day @ ''T00:00:00Z'') \<and>
       pd_amount p = day_total P performed day \<and> 0 < pd_amount p)"
    using days(1) ct(2) by (metis Un_iff set_append)
  moreover have "\<forall>day. 0 < day_total P performed day \<longrightarrow>
      (\<exists>p\<in>set (?tops @ ?chs). pd_external p = ''aeza:day:'' @ day \<and> pd_amount p = day_total P performed day)"
    using days(2) by (metis Un_iff set_append)
  ultimately show ?thesis using r f by (intro exI [of _ "?tops @ ?chs"] conjI) simp_all
qed

definition aeza_txn :: "nat \<Rightarrow> string \<Rightarrow> rat \<Rightarrow> aeza_transaction" where
  "aeza_txn i ty amount = \<lparr> azt_id = i, azt_amount = amount, azt_type = ty, azt_status = ''performed'',
     azt_performed = Some ''2026-06-01T10:00:00Z'', azt_created = None \<rparr>"

definition aeza_sample :: aeza_api where
  "aeza_sample = \<lparr> ax_account = Inr (Some 500, ''EUR''), ax_services = (\<lambda>start. Inl ''none''),
     ax_transactions = (\<lambda>start. let xs = [aeza_txn 1 ''replenishment'' 10000, aeza_txn 2 ''prolong'' (- 250), aeza_txn 3 ''prolong'' (- 150)]
       in Inr \<lparr> azp_items = Some (take 100 (drop start xs)), azp_total = Some (length xs) \<rparr>) \<rparr>"

theorem aeza_ledger_witness:
  "\<exists>ps. aeza_payments dec20 (\<lambda>s. parse_day (take 10 s)) aeza_sample None = Inr ps \<and>
    (\<exists>p\<in>set ps. pd_external p = ''aeza:day:2026-06-01'' \<and> pd_amount p = 4)"
proof -
  let ?xs = "[aeza_txn 1 ''replenishment'' 10000, aeza_txn 2 ''prolong'' (- 250), aeza_txn 3 ''prolong'' (- 150)]"
  have s: "serves (ax_transactions aeza_sample) ?xs" by (simp add: serves_def slice_def aeza_sample_def Let_def AEZA_PAGE_SIZE_def)
  have c: "aeza_currency aeza_sample None = Inr ''EUR''" by (simp add: aeza_currency_def aeza_sample_def)
  have p: "?xs = filter (\<lambda>t. azt_status t = ''performed'') (take 5000 ?xs)" by (simp add: aeza_txn_def)
  have w: "whole_units ?xs" by (simp add: whole_units_def money_amounts_def major_def aeza_txn_def is_cents_def)
  have "map_option iso_day (parse_day ''2026-06-01'') = Some ''2026-06-01''" by code_simp
  then have d: "day_total (\<lambda>s. parse_day (take 10 s)) ?xs ''2026-06-01'' = 4"
    by (simp add: day_total_def aeza_txn_def is_topup_def TOPUP_TYPES_def txn_date_def parse_date_def major_def)
  from aeza_ledger [OF dec20_arith s c p w, of "\<lambda>s. parse_day (take 10 s)"] obtain ps where ps:
    "aeza_payments dec20 (\<lambda>s. parse_day (take 10 s)) aeza_sample None = Inr ps"
    "\<forall>day. 0 < day_total (\<lambda>s. parse_day (take 10 s)) ?xs day \<longrightarrow>
       (\<exists>p\<in>set ps. pd_external p = ''aeza:day:'' @ day \<and> pd_amount p = day_total (\<lambda>s. parse_day (take 10 s)) ?xs day)"
    by (auto simp: aeza_txn_def)
  then have "\<exists>p\<in>set ps. pd_external p = ''aeza:day:'' @ ''2026-06-01'' \<and> pd_amount p = 4"
    using spec [OF ps(2), of "''2026-06-01''"] unfolding d by simp
  then show ?thesis using ps(1) by auto
qed

end
