(* ===== verification/Hostup.thy ===== *)
theory Hostup
  imports Paging
begin

text \<open>
  connectors/hostup: billing cycles, next charge dates and transactions of the mapper, and the connector's
  sections, batches and ledger.  P is Date.parse; the string unions of hostup.types.ts are texts, as
  they are at run time.
\<close>

section \<open>hostup.types.ts\<close>

record hostup_billing =
  hb_amount :: "rat option"
  hb_currency :: string
  hb_cycle :: "string option"
  hb_payg :: "bool option"
  hb_years :: "nat option"

text \<open>hpp_raw is the object as received, which is kept in the meta.\<close>

record hostup_paid_period =
  hpp_status :: string
  hpp_paid :: "string option"
  hpp_entitled :: "string option"
  hpp_invoice :: "string option"
  hpp_raw :: json

record hostup_vps =
  hv_id :: string
  hv_name :: string
  hv_ip :: "string option"
  hv_status :: string
  hv_power :: "string option"
  hv_os :: "string option"
  hv_display :: "string option"
  hv_billing :: hostup_billing
  hv_resources :: "json option"
  hv_tags :: "string list option"
  hv_created :: "string option"
  hv_paid :: "hostup_paid_period option"

record hostup_hosting =
  hh_id :: string
  hh_name :: string
  hh_domain :: "string option"
  hh_custom :: "string option"
  hh_status :: string
  hh_billing :: hostup_billing
  hh_created :: "string option"
  hh_due :: "string option"
  hh_expires :: "string option"
  hh_panel :: "string option"
  hh_tags :: "string list option"

record hostup_domain =
  hd_id :: string
  hd_name :: string
  hd_status :: string
  hd_renew :: "bool option"
  hd_billing :: hostup_billing
  hd_created :: "string option"
  hd_expires :: "string option"
  hd_due :: "string option"
  hd_tags :: "string list option"

record hostup_transaction =
  ht_id :: string
  ht_kind :: string
  ht_status :: string
  ht_description :: "string option"
  ht_method :: "string option"
  ht_label :: "string option"
  ht_amount :: rat
  ht_currency :: string
  ht_created :: "string option"
  ht_invoice :: "string option"

section \<open>hostup.mapper.ts\<close>

definition HOSTUP_FALLBACK_CURRENCY :: ccy where "HOSTUP_FALLBACK_CURRENCY = ''SEK''"

definition HOSTUP_SKIP_STATUSES :: "string list" where
  "HOSTUP_SKIP_STATUSES = [''terminated'', ''cancelled'', ''fraud'', ''transferred_out'']"

definition is_live_hostup :: "string \<Rightarrow> bool" where "is_live_hostup status = (status \<notin> set HOSTUP_SKIP_STATUSES)"

definition hostup_date :: "(string \<Rightarrow> ms option) \<Rightarrow> string option \<Rightarrow> ms option" where
  "hostup_date P raw = (case raw of None \<Rightarrow> None
     | Some s \<Rightarrow> if s = [] then None else P (if length s = 10 \<and> day_prefix s = Some s then s @ ''T00:00:00Z'' else s))"

definition resolve_hostup_billing :: "decimal_lib \<Rightarrow> hostup_billing \<Rightarrow> (period \<times> rat) option" where
  "resolve_hostup_billing D b = (case hb_amount b of None \<Rightarrow> None
     | Some amount \<Rightarrow>
         if hb_cycle b = Some ''monthly'' then Some (Monthly, amount)
         else if hb_cycle b = Some ''quarterly'' then Some (Quarterly, amount)
         else if hb_cycle b = Some ''semiannually'' then Some (Monthly, ddiv D amount 6)
         else if hb_cycle b = Some ''annually'' then Some (Yearly, amount)
         else if hb_cycle b = Some ''biennially'' then Some (Yearly, ddiv D amount 2)
         else if hb_cycle b = Some ''triennially'' then Some (Yearly, ddiv D amount 3)
         else if hb_cycle b = Some ''free'' then Some (Onetime, amount)
         else (case hb_years b of Some y \<Rightarrow> if 0 < y then Some (Yearly, ddiv D amount (of_nat y)) else None | None \<Rightarrow> None))"

definition hostup_vps_next :: "(string \<Rightarrow> ms option) \<Rightarrow> hostup_paid_period option \<Rightarrow> ms option" where
  "hostup_vps_next P pp = (case pp of None \<Rightarrow> None
     | Some p \<Rightarrow> if hpp_status p = ''unavailable'' then None
         else (case hostup_date P (hpp_invoice p) of Some due \<Rightarrow> Some due
         | None \<Rightarrow> if hpp_status p \<noteq> ''verified'' then None
             else map_option (\<lambda>t. t + MS_PER_DAY)
               (case (hostup_date P (hpp_paid p), hostup_date P (hpp_entitled p)) of
                  (Some paid, Some entitled) \<Rightarrow> Some (if paid < entitled then entitled else paid)
                | (Some paid, None) \<Rightarrow> Some paid | (None, e) \<Rightarrow> e)))"

definition hostup_currency :: "hostup_billing \<Rightarrow> ccy" where
  "hostup_currency b = normalize_currency (Some (label_of (hb_currency b))) HOSTUP_FALLBACK_CURRENCY"

text \<open>x ?? null in an object literal.\<close>

definition json_or_null :: "json option \<Rightarrow> json" where "json_or_null v = coalesce v JNull"

definition tags_json :: "string list option \<Rightarrow> json" where "tags_json t = JArr (map JStr (coalesce t []))"

definition map_hostup_vps :: "decimal_lib \<Rightarrow> (string \<Rightarrow> ms option) \<Rightarrow> hostup_vps \<Rightarrow> hostup_paid_period option \<Rightarrow> service_data" where
  "map_hostup_vps D P v paid =
     (let billing = resolve_hostup_billing D (hv_billing v); pp = (case hv_paid v of Some p \<Rightarrow> Some p | None \<Rightarrow> paid) in
      \<lparr> sd_external = hv_id v, sd_name = or_text (hv_display v) (or_text (Some (hv_name v)) (or_text (hv_ip v) (hv_id v))),
        sd_type = ''vps'', sd_country = None, sd_cost = map_option snd billing, sd_currency = Some (hostup_currency (hv_billing v)),
        sd_period = map_option fst billing, sd_next = next_of (hostup_vps_next P pp),
        sd_meta = [(''hostupKind'', JStr ''vps''), (''hostupName'', JStr (hv_name v)), (''primaryIp'', json_or_null (map_option JStr (hv_ip v))),
          (''serviceStatus'', JStr (hv_status v)), (''powerState'', json_or_null (map_option JStr (hv_power v))),
          (''os'', json_or_null (map_option JStr (hv_os v))), (''resources'', json_or_null (hv_resources v)),
          (''billingCycle'', json_or_null (map_option JStr (hb_cycle (hv_billing v)))), (''isPayg'', JBool (hb_payg (hv_billing v) = Some True)),
          (''paidPeriod'', json_or_null (map_option hpp_raw pp)), (''tags'', tags_json (hv_tags v)),
          (''createdAt'', json_or_null (map_option JStr (hv_created v)))] \<rparr>)"

definition first_date :: "(string \<Rightarrow> ms option) \<Rightarrow> string option \<Rightarrow> string option \<Rightarrow> ms option" where
  "first_date P a b = (case hostup_date P a of Some t \<Rightarrow> Some t | None \<Rightarrow> hostup_date P b)"

definition map_hostup_hosting :: "decimal_lib \<Rightarrow> (string \<Rightarrow> ms option) \<Rightarrow> hostup_hosting \<Rightarrow> service_data" where
  "map_hostup_hosting D P h =
     (let billing = resolve_hostup_billing D (hh_billing h) in
      \<lparr> sd_external = hh_id h, sd_name = or_text (hh_custom h) (or_text (Some (hh_name h)) (or_text (hh_domain h) (hh_id h))),
        sd_type = ''other'', sd_country = None, sd_cost = map_option snd billing, sd_currency = Some (hostup_currency (hh_billing h)),
        sd_period = map_option fst billing, sd_next = next_of (first_date P (hh_due h) (hh_expires h)),
        sd_meta = [(''hostupKind'', JStr ''shared-hosting''), (''primaryDomain'', json_or_null (map_option JStr (hh_domain h))),
          (''serviceStatus'', JStr (hh_status h)), (''billingCycle'', json_or_null (map_option JStr (hb_cycle (hh_billing h)))),
          (''controlPanel'', json_or_null (map_option JStr (hh_panel h))), (''expiresAt'', json_or_null (map_option JStr (hh_expires h))),
          (''tags'', tags_json (hh_tags h)), (''createdAt'', json_or_null (map_option JStr (hh_created h)))] \<rparr>)"

definition map_hostup_domain :: "decimal_lib \<Rightarrow> (string \<Rightarrow> ms option) \<Rightarrow> hostup_domain \<Rightarrow> service_data" where
  "map_hostup_domain D P d =
     (let billing = resolve_hostup_billing D (hd_billing d) in
      \<lparr> sd_external = hd_id d, sd_name = hd_name d, sd_type = ''domain'', sd_country = None,
        sd_cost = map_option snd billing, sd_currency = Some (hostup_currency (hd_billing d)),
        sd_period = Some (coalesce (map_option fst billing) Yearly), sd_next = next_of (first_date P (hd_due d) (hd_expires d)),
        sd_meta = [(''hostupKind'', JStr ''domain''), (''serviceStatus'', JStr (hd_status d)),
          (''billingCycle'', json_or_null (map_option JStr (hb_cycle (hd_billing d)))),
          (''periodYears'', json_or_null (map_option (\<lambda>y. JNum (of_nat y)) (hb_years (hd_billing d)))),
          (''autoRenew'', json_or_null (map_option JBool (hd_renew d))), (''expiresAt'', json_or_null (map_option JStr (hd_expires d))),
          (''tags'', tags_json (hd_tags d)), (''createdAt'', json_or_null (map_option JStr (hd_created d)))] \<rparr>)"

definition INTERNAL_METHODS :: "string list" where "INTERNAL_METHODS = [''accountCredit'', ''rounding'']"

definition EXTERNAL_METHODS :: "string list" where
  "EXTERNAL_METHODS = [''card'', ''swish'', ''bankgiro'', ''sepa'', ''alipay'', ''crypto'', ''paypal'', ''invoice'']"

definition map_hostup_transaction :: "(string \<Rightarrow> ms option) \<Rightarrow> hostup_transaction \<Rightarrow> payment_data option" where
  "map_hostup_transaction P t =
     (if ht_kind t \<noteq> ''payment'' \<and> ht_kind t \<noteq> ''credit_added'' then None
      else if ht_status t \<noteq> ''settled'' then None
      else if ht_method t \<in> Some ` set INTERNAL_METHODS then None
      else if ht_kind t = ''credit_added'' \<and> ht_method t \<notin> Some ` set EXTERNAL_METHODS then None
      else case hostup_date P (ht_created t) of None \<Rightarrow> None
      | Some date \<Rightarrow> if \<bar>ht_amount t\<bar> = 0 then None
          else let parts = (if truthy (ht_label t) then [the (ht_label t)] else []) @
                 (if truthy (ht_invoice t) then [''invoice '' @ the (ht_invoice t)] else []);
                 d = or_text (ht_description t) (join_with '', '' parts) in
            Some \<lparr> pd_external = ''transaction:'' @ ht_id t, pd_type = Topup, pd_amount = \<bar>ht_amount t\<bar>,
              pd_currency = normalize_currency (Some (label_of (ht_currency t))) HOSTUP_FALLBACK_CURRENCY, pd_date = Some date,
              pd_description = (if d = [] then None else Some d), pd_service_external = None \<rparr>)"

section \<open>hostup.connector.ts\<close>

definition HOSTUP_MAX_PAGES :: nat where "HOSTUP_MAX_PAGES = 50"
definition VPS_PAGE_LIMIT :: nat where "VPS_PAGE_LIMIT = 100"
definition DOMAIN_PAGE_LIMIT :: nat where "DOMAIN_PAGE_LIMIT = 1000"
definition PAID_PERIOD_BATCH :: nat where "PAID_PERIOD_BATCH = 100"

text \<open>A failure with the HTTP status, if it was answered.\<close>

record hostup_error =
  he_message :: string
  he_status :: "nat option"

record 'a hostup_page =
  hp_data :: "'a list option"
  hp_more :: bool
  hp_next :: "string option"

record hostup_activity =
  hy_entries :: "hostup_transaction list option"
  hy_more :: bool

text \<open>The three cursor lists are asked for by the limit and the cursor.\<close>

record hostup_api =
  hx_account :: "hostup_error + (rat option \<times> string)"
  hx_vps :: "nat \<Rightarrow> string option \<Rightarrow> hostup_error + hostup_vps hostup_page"
  hx_hosting :: "nat \<Rightarrow> string option \<Rightarrow> hostup_error + hostup_hosting hostup_page"
  hx_domains :: "nat \<Rightarrow> string option \<Rightarrow> hostup_error + hostup_domain hostup_page"
  hx_periods :: "string list \<Rightarrow> string + (string \<times> hostup_paid_period) list"
  hx_activity :: "nat \<Rightarrow> string + hostup_activity"
  hx_aborted :: bool

fun hostup_pages :: "(string option \<Rightarrow> hostup_error + 'a hostup_page) \<Rightarrow> nat \<Rightarrow> string option \<Rightarrow> 'a list \<Rightarrow> hostup_error + 'a list" where
  "hostup_pages ask 0 cursor out = Inr out"
| "hostup_pages ask (Suc n) cursor out = (case ask cursor of Inl e \<Rightarrow> Inl e
     | Inr p \<Rightarrow> (let out' = out @ coalesce (hp_data p) []; c = (if hp_more p then hp_next p else None)
         in if truthy c then hostup_pages ask n c out' else Inr out'))"

definition hostup_paginate :: "(string option \<Rightarrow> hostup_error + 'a hostup_page) \<Rightarrow> hostup_error + 'a list" where
  "hostup_paginate ask = hostup_pages ask HOSTUP_MAX_PAGES None []"

definition optional :: "hostup_error + 'a list \<Rightarrow> hostup_error + 'a list" where
  "optional r = (case r of Inl e \<Rightarrow> if he_status e = Some 403 then Inr [] else Inl e | Inr xs \<Rightarrow> Inr xs)"

function fetch_paid_periods :: "hostup_api \<Rightarrow> string list \<Rightarrow> (string \<times> hostup_paid_period) list \<Rightarrow> string + (string \<times> hostup_paid_period) list" where
  "fetch_paid_periods A ids out =
     (if ids = [] then Inr out
      else case hx_periods A (take PAID_PERIOD_BATCH ids) of
         Inl e \<Rightarrow> if hx_aborted A then Inl e else Inr out
       | Inr rs \<Rightarrow> fetch_paid_periods A (drop PAID_PERIOD_BATCH ids) (foldl (\<lambda>m (i, p). mset_to i p m) out rs))"
  by pat_completeness auto
termination by (relation "measure (\<lambda>(A, ids, out). length ids)") (auto simp: PAID_PERIOD_BATCH_def)

declare fetch_paid_periods.simps [simp del]

definition hostup_account :: "decimal_lib \<Rightarrow> hostup_api \<Rightarrow> string + account_data" where
  "hostup_account D A = (case hx_account A of Inl e \<Rightarrow> Inl (he_message e)
     | Inr (None, currency) \<Rightarrow> Inl ''HostUp: unexpected /billing/account response (no `creditBalance`)''
     | Inr (Some balance, currency) \<Rightarrow> Inr \<lparr> ad_balance = Some balance,
         ad_currency = normalize_currency (Some (label_of currency)) HOSTUP_FALLBACK_CURRENCY \<rparr>)"

text \<open>Of several failing lists the message of the first one is given.\<close>

definition hostup_services :: "decimal_lib \<Rightarrow> (string \<Rightarrow> ms option) \<Rightarrow> hostup_api \<Rightarrow> string + service_data list" where
  "hostup_services D P A =
     (case hostup_paginate (hx_vps A VPS_PAGE_LIMIT) of Inl e \<Rightarrow> Inl (he_message e)
      | Inr vps \<Rightarrow> (case optional (hostup_paginate (hx_hosting A VPS_PAGE_LIMIT)) of Inl e \<Rightarrow> Inl (he_message e)
      | Inr hosting \<Rightarrow> (case optional (hostup_paginate (hx_domains A DOMAIN_PAGE_LIMIT)) of Inl e \<Rightarrow> Inl (he_message e)
      | Inr domains \<Rightarrow>
          (let live = filter (\<lambda>v. is_live_hostup (hv_status v)) vps in
           case fetch_paid_periods A (map hv_id (filter (\<lambda>v. hv_paid v = None \<and> hb_payg (hv_billing v) \<noteq> Some True) live)) [] of
             Inl e \<Rightarrow> Inl e
           | Inr paid \<Rightarrow> Inr (map (\<lambda>v. map_hostup_vps D P v (mget paid (hv_id v))) live @
               map (map_hostup_hosting D P) (filter (\<lambda>h. is_live_hostup (hh_status h)) hosting) @
               map (map_hostup_domain D P) (filter (\<lambda>d. is_live_hostup (hd_status d)) domains))))))"

text \<open>Every page is mapped and stored under its id before the next one is asked for.\<close>

definition keep_payment :: "(string \<Rightarrow> ms option) \<Rightarrow> (string \<times> payment_data) list \<Rightarrow> hostup_transaction \<Rightarrow> (string \<times> payment_data) list" where
  "keep_payment P m t = (case map_hostup_transaction P t of None \<Rightarrow> m | Some p \<Rightarrow> mset_to (pd_external p) p m)"

fun activity_pages :: "(string \<Rightarrow> ms option) \<Rightarrow> hostup_api \<Rightarrow> nat \<Rightarrow> nat \<Rightarrow> (string \<times> payment_data) list \<Rightarrow> string + (string \<times> payment_data) list" where
  "activity_pages P A 0 page m = Inr m"
| "activity_pages P A (Suc n) page m = (case hx_activity A page of Inl e \<Rightarrow> Inl e
     | Inr p \<Rightarrow> (let es = coalesce (hy_entries p) []; m' = foldl (keep_payment P) m es
         in if \<not> hy_more p \<or> es = [] then Inr m' else activity_pages P A n (page + 1) m'))"

definition hostup_payments :: "(string \<Rightarrow> ms option) \<Rightarrow> hostup_api \<Rightarrow> string + payment_data list" where
  "hostup_payments P A = map_sum id (map snd) (activity_pages P A HOSTUP_MAX_PAGES 0 [])"

section \<open>The ledger\<close>

text \<open>Money that came from outside: a settled payment not made from the credit, or credit bought by a method that names its origin.\<close>

definition outside_money :: "hostup_transaction \<Rightarrow> bool" where
  "outside_money t = (ht_status t = ''settled'' \<and> ht_amount t \<noteq> 0 \<and>
     (ht_kind t = ''payment'' \<and> ht_method t \<notin> {Some ''accountCredit'', Some ''rounding''} \<or>
      ht_kind t = ''credit_added'' \<and> (\<exists>m\<in>set EXTERNAL_METHODS. ht_method t = Some m)))"

lemma transaction_iff: "(\<exists>p. map_hostup_transaction P t = Some p) = (outside_money t \<and> hostup_date P (ht_created t) \<noteq> None)"
  by (cases "hostup_date P (ht_created t)")
    (auto simp: map_hostup_transaction_def outside_money_def INTERNAL_METHODS_def EXTERNAL_METHODS_def Let_def split: if_splits)

lemma transaction_fields: "map_hostup_transaction P t = Some p \<Longrightarrow>
    pd_external p = ''transaction:'' @ ht_id t \<and> pd_type p = Topup \<and> pd_amount p = \<bar>ht_amount t\<bar> \<and> pd_date p = hostup_date P (ht_created t)"
  by (auto simp: map_hostup_transaction_def Let_def split: if_splits option.splits)

definition kept_ok :: "(string \<Rightarrow> ms option) \<Rightarrow> hostup_transaction set \<Rightarrow> (string \<times> payment_data) list \<Rightarrow> bool" where
  "kept_ok P T m = (distinct (map fst m) \<and> (\<forall>(k, p)\<in>set m. k = pd_external p \<and> (\<exists>t\<in>T. map_hostup_transaction P t = Some p)))"

lemma keep_payment_ok: "kept_ok P T m \<Longrightarrow> t \<in> T \<Longrightarrow> kept_ok P T (keep_payment P m t)"
proof (cases "map_hostup_transaction P t")
  case (Some p)
  assume m: "kept_ok P T m" and t: "t \<in> T"
  have d: "distinct (map fst (mset_to (pd_external p) p m))" using m by (simp add: kept_ok_def)
  have "(k, q) \<in> set m \<or> k = pd_external p \<and> q = p" if "(k, q) \<in> set (mset_to (pd_external p) p m)" for k q
  proof -
    have "mget (mset_to (pd_external p) p m) k = Some q" using d that by (rule mget_of_mem)
    then have "(if k = pd_external p then Some p else mget m k) = Some q" by simp
    then show ?thesis by (auto simp: mget_def dest: map_of_SomeD split: if_splits)
  qed
  then have "\<forall>(k, q)\<in>set (mset_to (pd_external p) p m). k = pd_external q \<and> (\<exists>t\<in>T. map_hostup_transaction P t = Some q)"
    using m t Some by (fastforce simp: kept_ok_def)
  then show ?thesis using d Some by (simp add: kept_ok_def keep_payment_def)
qed (simp add: keep_payment_def)

lemma keep_payments_ok: "kept_ok P T m \<Longrightarrow> set es \<subseteq> T \<Longrightarrow> kept_ok P T (foldl (keep_payment P) m es)"
  by (induction es arbitrary: m) (auto intro: keep_payment_ok)

lemma keep_payments_keys: "fst ` set m \<subseteq> fst ` set (foldl (keep_payment P) m es) \<and>
    (\<forall>t\<in>set es. \<forall>p. map_hostup_transaction P t = Some p \<longrightarrow> pd_external p \<in> fst ` set (foldl (keep_payment P) m es))"
proof (induction es arbitrary: m)
  case (Cons t es)
  have k: "fst ` set m \<subseteq> fst ` set (keep_payment P m t)" "map_hostup_transaction P t = Some p \<Longrightarrow> pd_external p \<in> fst ` set (keep_payment P m t)" for p
    by (auto simp: keep_payment_def split: option.splits)
  note r = Cons [of "keep_payment P m t"]
  show ?case
  proof (intro conjI ballI allI impI)
    show "fst ` set m \<subseteq> fst ` set (foldl (keep_payment P) m (t # es))"
      unfolding foldl_Cons by (rule subset_trans [OF k(1) conjunct1 [OF r]])
    fix u p assume "u \<in> set (t # es)" "map_hostup_transaction P u = Some p"
    then consider "map_hostup_transaction P t = Some p" | "u \<in> set es" "map_hostup_transaction P u = Some p" by auto
    then show "pd_external p \<in> fst ` set (foldl (keep_payment P) m (t # es))"
    proof cases
      case 1
      from k(2) [OF this] show ?thesis unfolding foldl_Cons by (rule subsetD [OF conjunct1 [OF r]])
    next
      case 2
      then show ?thesis unfolding foldl_Cons using conjunct2 [OF r] by blast
    qed
  qed
qed simp

definition entries_of :: "hostup_api \<Rightarrow> nat \<Rightarrow> hostup_transaction list" where
  "entries_of A page = (case hx_activity A page of Inl _ \<Rightarrow> [] | Inr p \<Rightarrow> coalesce (hy_entries p) [])"

definition goes_on :: "hostup_api \<Rightarrow> nat \<Rightarrow> bool" where
  "goes_on A page = (case hx_activity A page of Inl _ \<Rightarrow> False | Inr p \<Rightarrow> hy_more p \<and> coalesce (hy_entries p) [] \<noteq> [])"

lemma activity_ok: "activity_pages P A n page m = Inr m' \<Longrightarrow> kept_ok P T m \<Longrightarrow> (\<And>k. k < page + n \<Longrightarrow> set (entries_of A k) \<subseteq> T) \<Longrightarrow> kept_ok P T m'"
proof (induction n arbitrary: page m)
  case (Suc n)
  then obtain p where p: "hx_activity A page = Inr p" by (cases "hx_activity A page") auto
  have "set (coalesce (hy_entries p) []) \<subseteq> T" using Suc.prems(3) [of page] p by (simp add: entries_of_def)
  then have k: "kept_ok P T (foldl (keep_payment P) m (coalesce (hy_entries p) []))" by (rule keep_payments_ok [OF Suc.prems(2)])
  show ?case
  proof (cases "\<not> hy_more p \<or> coalesce (hy_entries p) [] = []")
    case True
    then show ?thesis using Suc.prems(1) k p by (simp add: Let_def)
  next
    case False
    then have "activity_pages P A n (page + 1) (foldl (keep_payment P) m (coalesce (hy_entries p) [])) = Inr m'"
      using Suc.prems(1) p by (simp add: Let_def)
    from Suc.IH [OF this k] show ?thesis using Suc.prems(3) by simp
  qed
qed simp

lemma activity_keys: "activity_pages P A n page m = Inr m' \<Longrightarrow> fst ` set m \<subseteq> fst ` set m' \<and>
    (\<forall>i<n. (\<forall>j<i. goes_on A (page + j)) \<longrightarrow> (\<forall>t\<in>set (entries_of A (page + i)). \<forall>p. map_hostup_transaction P t = Some p \<longrightarrow> pd_external p \<in> fst ` set m'))"
proof (induction n arbitrary: page m)
  case (Suc n)
  then obtain q where q: "hx_activity A page = Inr q" by (cases "hx_activity A page") auto
  let ?m = "foldl (keep_payment P) m (coalesce (hy_entries q) [])"
  have e: "entries_of A page = coalesce (hy_entries q) []" and g: "goes_on A page = (hy_more q \<and> coalesce (hy_entries q) [] \<noteq> [])"
    by (simp_all add: q entries_of_def goes_on_def)
  note k = keep_payments_keys [of m P "coalesce (hy_entries q) []"]
  show ?case
  proof (cases "goes_on A page")
    case False
    then have m': "m' = ?m" using Suc.prems q g by (simp add: Let_def)
    have "i = 0" if "\<forall>j<i. goes_on A (page + j)" for i using that False by (cases i) auto
    then show ?thesis unfolding m' using k e by (metis add_0_right)
  next
    case True
    then have r: "activity_pages P A n (page + 1) ?m = Inr m'" using Suc.prems q g by (simp add: Let_def)
    note ih = Suc.IH [OF r]
    show ?thesis
    proof (intro conjI allI impI ballI)
      show "fst ` set m \<subseteq> fst ` set m'" using ih k by blast
      fix i t p
      assume i: "i < Suc n" "\<forall>j<i. goes_on A (page + j)" and t: "t \<in> set (entries_of A (page + i))" "map_hostup_transaction P t = Some p"
      show "pd_external p \<in> fst ` set m'"
      proof (cases i)
        case 0
        then show ?thesis using t k ih e by auto
      next
        case (Suc j)
        then have "\<forall>l<j. goes_on A (page + 1 + l)" using i(2) by (metis Suc_less_eq add.assoc plus_1_eq_Suc)
        then show ?thesis using ih t i(1) Suc by auto
      qed
    qed
  qed
qed simp

text \<open>C36. The imported ledger: every payment is a top-up of the positive amount of a listed transaction that
  settled with money from outside, none is imported twice although the pages shift while they are
  walked, and every such transaction with a date on the pages that are reached, at most 50, is in it.\<close>

theorem hostup_ledger:
  assumes "hostup_payments P A = Inr ps"
  shows "distinct (map pd_external ps) \<and>
    (\<forall>p\<in>set ps. pd_type p = Topup \<and> 0 < pd_amount p \<and> (\<exists>k<50. \<exists>t\<in>set (entries_of A k). outside_money t \<and>
       pd_external p = ''transaction:'' @ ht_id t \<and> pd_amount p = \<bar>ht_amount t\<bar>)) \<and>
    (\<forall>k<50. (\<forall>j<k. goes_on A j) \<longrightarrow> (\<forall>t\<in>set (entries_of A k). outside_money t \<and> hostup_date P (ht_created t) \<noteq> None \<longrightarrow>
       ''transaction:'' @ ht_id t \<in> set (map pd_external ps)))"
proof -
  obtain m where m: "activity_pages P A 50 0 [] = Inr m" and ps: "ps = map snd m"
    using assms by (cases "activity_pages P A 50 0 []") (auto simp: hostup_payments_def HOSTUP_MAX_PAGES_def)
  let ?T = "\<Union>k<50. set (entries_of A k)"
  have k: "kept_ok P ?T m" by (rule activity_ok [OF m]) (auto simp: kept_ok_def)
  have "fst e = pd_external (snd e)" if "e \<in> set m" for e using k that by (cases e) (auto simp: kept_ok_def)
  then have f: "map pd_external ps = map fst m" unfolding ps by simp
  have "distinct (map pd_external ps)" unfolding f using k by (simp add: kept_ok_def)
  moreover have "pd_type p = Topup \<and> 0 < pd_amount p \<and> (\<exists>k<50. \<exists>t\<in>set (entries_of A k). outside_money t \<and>
       pd_external p = ''transaction:'' @ ht_id t \<and> pd_amount p = \<bar>ht_amount t\<bar>)" if "p \<in> set ps" for p
  proof -
    have "\<exists>i. (i, p) \<in> set m" using that unfolding ps by auto
    then obtain t where t: "t \<in> ?T" "map_hostup_transaction P t = Some p" using k unfolding kept_ok_def by blast
    then have "outside_money t" using transaction_iff [of P t] by blast
    moreover from this have "0 < \<bar>ht_amount t\<bar>" by (simp add: outside_money_def)
    ultimately show ?thesis using transaction_fields [OF t(2)] t(1) by auto
  qed
  moreover have "''transaction:'' @ ht_id t \<in> set (map pd_external ps)"
    if "k < 50" "\<forall>j<k. goes_on A j" "t \<in> set (entries_of A k)" "outside_money t" "hostup_date P (ht_created t) \<noteq> None" for k t
  proof -
    have "\<exists>p. map_hostup_transaction P t = Some p" using transaction_iff [of P t] that(4,5) by blast
    then obtain p where p: "map_hostup_transaction P t = Some p" ..
    then have "pd_external p \<in> fst ` set m" using activity_keys [OF m] that(1-3) by simp
    then show ?thesis unfolding f using transaction_fields [OF p] by simp
  qed
  ultimately show ?thesis by blast
qed

definition hostup_sample :: hostup_api where
  "hostup_sample = \<lparr> hx_account = Inr (Some 10, ''SEK''), hx_vps = (\<lambda>n c. Inr \<lparr> hp_data = None, hp_more = False, hp_next = None \<rparr>),
     hx_hosting = (\<lambda>n c. Inr \<lparr> hp_data = None, hp_more = False, hp_next = None \<rparr>),
     hx_domains = (\<lambda>n c. Inr \<lparr> hp_data = None, hp_more = False, hp_next = None \<rparr>), hx_periods = (\<lambda>i. Inr []),
     hx_activity = (\<lambda>page. Inr \<lparr> hy_entries = Some [\<lparr> ht_id = ''t1'', ht_kind = ''payment'', ht_status = ''settled'', ht_description = None,
        ht_method = Some ''card'', ht_label = None, ht_amount = 99, ht_currency = ''SEK'', ht_created = Some ''2026-06-01'', ht_invoice = None \<rparr>],
        hy_more = False \<rparr>), hx_aborted = False \<rparr>"

theorem hostup_ledger_witness:
  "\<exists>ps. hostup_payments (\<lambda>s. Some 0) hostup_sample = Inr ps \<and> ''transaction:t1'' \<in> set (map pd_external ps)"
proof -
  have e: "entries_of hostup_sample 0 = [\<lparr> ht_id = ''t1'', ht_kind = ''payment'', ht_status = ''settled'', ht_description = None,
        ht_method = Some ''card'', ht_label = None, ht_amount = 99, ht_currency = ''SEK'', ht_created = Some ''2026-06-01'', ht_invoice = None \<rparr>]"
    by (simp add: entries_of_def hostup_sample_def)
  have "\<exists>m. activity_pages P hostup_sample (Suc n) 0 [] = Inr m" for P n by (simp add: hostup_sample_def Let_def)
  from this [of "\<lambda>s. Some 0" 49] have "\<exists>ps. hostup_payments (\<lambda>s. Some 0) hostup_sample = Inr ps"
    by (auto simp: hostup_payments_def HOSTUP_MAX_PAGES_def)
  then obtain ps where ps: "hostup_payments (\<lambda>s. Some 0) hostup_sample = Inr ps" ..
  have "''transaction:'' @ ''t1'' \<in> set (map pd_external ps)"
    using hostup_ledger [OF ps, THEN conjunct2, THEN conjunct2, rule_format, of 0] e by (simp add: outside_money_def hostup_date_def)
  then show ?thesis using ps by auto
qed

end
