(* ===== verification/Wire.thy ===== *)
theory Wire
  imports Paging
begin

text \<open>
  Values as the vendors' replies hold them: numbers that may be texts, parts of texts, the constructor of
  Decimal on a text, and the passes over lists that stop at the first error.
\<close>

section \<open>Texts\<close>

text \<open>s.includes(part).\<close>

fun has_part :: "'a list \<Rightarrow> 'a list \<Rightarrow> bool" where
  "has_part part [] = (part = [])"
| "has_part part (c # s) = (take (length part) (c # s) = part \<or> has_part part s)"

lemma has_part_iff: "has_part part s = (\<exists>p q. s = p @ part @ q)"
proof (induction s)
  case (Cons c s)
  have "(take (length part) (c # s) = part) = (\<exists>q. c # s = part @ q)"
    by (metis append_eq_conv_conj append_take_drop_id)
  then show ?case using Cons by (auto simp: Cons_eq_append_conv)
qed simp

text \<open>A pattern with one class of characters for each place.\<close>

fun has_pattern :: "('a \<Rightarrow> bool) list \<Rightarrow> 'a list \<Rightarrow> bool" where
  "has_pattern ps [] = (ps = [])"
| "has_pattern ps (c # s) = (length ps \<le> Suc (length s) \<and> list_all2 (\<lambda>p x. p x) ps (take (length ps) (c # s)) \<or> has_pattern ps s)"

text \<open>The class [a-zA-Z].\<close>

definition is_latin :: "char \<Rightarrow> bool" where
  "is_latin c = (let n = ccode c in n \<in> {65..90} \<or> n \<in> {97..122})"

text \<open>s.replace(c, t) for a one-character text: the first occurrence.\<close>

definition replace_first :: "char \<Rightarrow> string \<Rightarrow> string \<Rightarrow> string" where
  "replace_first c t s = (let a = takeWhile (\<lambda>x. x \<noteq> c) s in if length a = length s then s else a @ t @ drop (Suc (length a)) s)"

section \<open>Numbers\<close>

text \<open>A number, or the text of one; N gives the finite numbers that Number reads from a text.\<close>

datatype js_num = Num rat | Txt string

fun num_of :: "(string \<Rightarrow> rat option) \<Rightarrow> js_num option \<Rightarrow> rat option" where
  "num_of N None = None"
| "num_of N (Some (Num r)) = Some r"
| "num_of N (Some (Txt s)) = N s"

text \<open>Q is the constructor of Decimal on a text, None where it throws.\<close>

definition decimal_error :: "string \<Rightarrow> string" where
  "decimal_error s = ''[DecimalError] Invalid argument: '' @ s"

definition read_amount :: "(string \<Rightarrow> rat option) \<Rightarrow> string \<Rightarrow> string + rat" where
  "read_amount Q s = (case Q s of None \<Rightarrow> Inl (decimal_error s) | Some r \<Rightarrow> Inr r)"

fun first_some :: "'a option list \<Rightarrow> 'a option" where
  "first_some [] = None"
| "first_some (Some x # r) = Some x"
| "first_some (None # r) = first_some r"

section \<open>Objects\<close>

text \<open>A member that is neither null nor undefined, and an object literal of members of j under new names.\<close>

definition given :: "json \<Rightarrow> string \<Rightarrow> json option" where
  "given j k = (case json_prop j k of Some JNull \<Rightarrow> None | v \<Rightarrow> v)"

definition pick_fields :: "json \<Rightarrow> (string \<times> string) list \<Rightarrow> json_obj" where
  "pick_fields j ks = concat (map (\<lambda>(k, f). json_field k (json_prop j f)) ks)"

section \<open>Passes over lists\<close>

text \<open>Set.add.\<close>

definition add_new :: "'a list \<Rightarrow> 'a \<Rightarrow> 'a list" where "add_new l x = (if x \<in> set l then l else l @ [x])"

fun map_all :: "('a \<Rightarrow> string + 'b) \<Rightarrow> 'a list \<Rightarrow> string + 'b list" where
  "map_all f [] = Inr []"
| "map_all f (x # xs) = (case f x of Inl e \<Rightarrow> Inl e | Inr y \<Rightarrow> (case map_all f xs of Inl e \<Rightarrow> Inl e | Inr ys \<Rightarrow> Inr (y # ys)))"

lemma map_all_Inr: "map_all f xs = Inr ys \<Longrightarrow> list_all2 (\<lambda>x y. f x = Inr y) xs ys"
  by (induction xs arbitrary: ys) (auto split: sum.splits)

lemma map_all_image: "map_all f xs = Inr ys \<Longrightarrow> (\<And>x y. f x = Inr y \<Longrightarrow> g y = h x) \<Longrightarrow> map g ys = map h xs"
  by (induction xs arbitrary: ys) (auto split: sum.splits)

lemma map_all_mem: "map_all f xs = Inr ys \<Longrightarrow> y \<in> set ys \<Longrightarrow> \<exists>x\<in>set xs. f x = Inr y"
  by (induction xs arbitrary: ys) (auto split: sum.splits)

lemma map_all_append:
  "map_all f (xs @ ys) = (case map_all f xs of Inl e \<Rightarrow> Inl e | Inr us \<Rightarrow> (case map_all f ys of Inl e \<Rightarrow> Inl e | Inr vs \<Rightarrow> Inr (us @ vs)))"
  by (induction xs) (auto split: sum.splits)

lemma map_all_zip:
  "(\<exists>ds. map_all f xs = Inr ds \<and> map_all (\<lambda>(x, d). g x d) (zip xs ds) = Inr ps) =
   (map_all (\<lambda>x. case f x of Inl e \<Rightarrow> Inl e | Inr d \<Rightarrow> g x d) xs = Inr ps)"
proof (induction xs arbitrary: ps)
  case (Cons x xs)
  let ?h = "\<lambda>x. case f x of Inl e \<Rightarrow> Inl e | Inr d \<Rightarrow> g x d"
  show ?case
  proof (cases "map_all f xs")
    case (Inl e)
    then have "map_all ?h xs \<noteq> Inr qs" for qs using Cons.IH [of qs] by simp
    then show ?thesis using Inl by (cases "map_all ?h xs") (auto split: sum.splits)
  next
    case (Inr ds)
    then have ih: "(map_all (\<lambda>(x, d). g x d) (zip xs ds) = Inr qs) = (map_all ?h xs = Inr qs)" for qs using Cons.IH [of qs] by simp
    show ?thesis
    proof (cases "map_all ?h xs")
      case (Inl e)
      then have "\<exists>e. map_all (\<lambda>(x, d). g x d) (zip xs ds) = Inl e" using ih by (cases "map_all (\<lambda>(x, d). g x d) (zip xs ds)") auto
      then show ?thesis using Inl Inr by (auto split: sum.splits)
    next
      case (Inr qs)
      then have "map_all (\<lambda>(x, d). g x d) (zip xs ds) = Inr qs" using ih by blast
      then show ?thesis using Inr \<open>map_all f xs = Inr ds\<close> by (auto split: sum.splits)
    qed
  qed
qed simp

end
