(* ===== verification/Hostbill.thy ===== *)
theory Hostbill
  imports Wire
begin

text \<open>
  connectors/hostbill: cycles, services and paid invoices, and the ways in which the connector signs in (token,
  one-time code, Basic).  P is Date.parse; Q is the Decimal constructor on a text, None where it throws;
  T is the order in which the replies of requests under way together come in; number-or-text fields are the text that String
  gives, and a dash of a message is written --.
\<close>

section \<open>hostbill.types.ts\<close>

record hostbill_service =
  hbs_id :: string
  hbs_name :: "string option"
  hbs_domain :: "string option"
  hbs_total :: "string option"
  hbs_cycle :: "string option"
  hbs_due :: "string option"
  hbs_status :: "string option"
  hbs_raw :: json_obj

record hostbill_invoice =
  hbi_id :: string
  hbi_number :: "string option"
  hbi_date :: "string option"
  hbi_paid :: "string option"
  hbi_total :: "string option"
  hbi_subtotal :: "string option"
  hbi_status :: "string option"
  hbi_currency :: "string option"

record hostbill_detail =
  hbd_total :: "string option"
  hbd_credit :: "string option"

record hostbill_mfa =
  hbm_token :: "string option"
  hbm_methods :: "string list option"

text \<open>The error field as the list it is read as.\<close>

record hostbill_login =
  hbl_token :: "string option"
  hbl_access :: "string option"
  hbl_error :: "string list option"
  hbl_mfa :: "hostbill_mfa option"

record hostbill_credentials =
  hbc_username :: string
  hbc_password :: string
  hbc_totp :: "string option"

section \<open>hostbill.mapper.ts\<close>

definition HOSTBILL_FALLBACK_CURRENCY :: ccy where "HOSTBILL_FALLBACK_CURRENCY = ''USD''"

definition HOSTBILL_SKIP :: "string list" where "HOSTBILL_SKIP = [''cancelled'', ''terminated'', ''fraud'']"

definition is_active_hostbill :: "hostbill_service \<Rightarrow> bool" where
  "is_active_hostbill s = (to_lower (coalesce (hbs_status s) []) \<notin> set HOSTBILL_SKIP)"

definition invoice_date :: "(string \<Rightarrow> ms option) \<Rightarrow> string option \<Rightarrow> ms option" where
  "invoice_date P s = (let day = hd (split_on (CHR '' '') (coalesce s [])) in if day = [] \<or> starts_with ''0000'' day then None else P day)"

definition resolve_billing :: "decimal_lib \<Rightarrow> string \<Rightarrow> rat \<Rightarrow> period \<times> rat" where
  "resolve_billing D cycle t =
     (if cycle = ''Monthly'' then (Monthly, t) else if cycle = ''Quarterly'' then (Quarterly, t)
      else if cycle = ''Annually'' then (Yearly, t) else if cycle = ''One Time'' \<or> cycle = ''Free'' then (Onetime, t)
      else if cycle = ''Semi-Annually'' then (Monthly, ddiv D t 6) else if cycle = ''Biennially'' then (Monthly, ddiv D t 24)
      else if cycle = ''Triennially'' then (Monthly, ddiv D t 36) else (Monthly, t))"

definition map_hostbill_service :: "decimal_lib \<Rightarrow> (string \<Rightarrow> ms option) \<Rightarrow> (string \<Rightarrow> rat option) \<Rightarrow> hostbill_service \<Rightarrow> string + service_data" where
  "map_hostbill_service D P Q s =
     (case read_amount Q (or_text (hbs_total s) ''0'') of Inl e \<Rightarrow> Inl e
      | Inr t \<Rightarrow> (let (period, cost) = resolve_billing D (coalesce (hbs_cycle s) ''Monthly'') t in
          Inr \<lparr> sd_external = hbs_id s, sd_name = or_text (hbs_name s) (or_text (hbs_domain s) (''service-'' @ hbs_id s)), sd_type = ''vps'',
            sd_country = None, sd_cost = Some cost, sd_currency = None, sd_period = Some period,
            sd_next = (if truthy (hbs_due s) then Nb_date (P (the (hbs_due s))) else Nb_undefined), sd_meta = hbs_raw s \<rparr>))"

definition is_paid_invoice :: "hostbill_invoice \<Rightarrow> bool" where
  "is_paid_invoice iv = (to_lower (coalesce (hbi_status iv) []) = ''paid'')"

definition invoice_to_payment :: "(string \<Rightarrow> ms option) \<Rightarrow> (string \<Rightarrow> rat option) \<Rightarrow> hostbill_invoice \<Rightarrow> hostbill_detail option \<Rightarrow> string + payment_data option" where
  "invoice_to_payment P Q iv detail =
     (if \<not> is_paid_invoice iv then Inr None
      else case first_some [invoice_date P (hbi_paid iv), invoice_date P (hbi_date iv)] of None \<Rightarrow> Inr None
      | Some date \<Rightarrow>
         (case read_amount Q (coalesce (first_some [Option.bind detail hbd_total, hbi_total iv, hbi_subtotal iv]) ''0'') of Inl e \<Rightarrow> Inl e
          | Inr amount \<Rightarrow>
             (let payment = Some \<lparr> pd_external = ''invoice:'' @ hbi_id iv, pd_type = Topup, pd_amount = amount,
                pd_currency = normalize_currency (map_option label_of (hbi_currency iv)) HOSTBILL_FALLBACK_CURRENCY, pd_date = Some date,
                pd_description = Some (''Invoice '' @ coalesce (hbi_number iv) (hbi_id iv)), pd_service_external = None \<rparr>
              in if amount \<le> 0 then (case read_amount Q (coalesce (Option.bind detail hbd_credit) ''0'') of Inl e \<Rightarrow> Inl e
                   | Inr credit \<Rightarrow> Inr (if 0 < credit then None else payment))
                 else Inr payment)))"

section \<open>Signing in (hostbill.connector.ts)\<close>

definition TWO_FACTOR_MESSAGE :: string where
  "TWO_FACTOR_MESSAGE = ''HostBill: authenticator-app (TOTP) 2FA is enabled but no TOTP secret is set. Add the base32 '' @
     ''TOTP secret in the provider settings so the sync can generate the one-time code itself.''"

definition TOTP_FAILED_MESSAGE :: string where
  "TOTP_FAILED_MESSAGE = ''HostBill: the 2FA code was rejected -- check the TOTP secret and the server clock.''"

definition DETAIL_CONCURRENCY :: nat where "DETAIL_CONCURRENCY = 5"

datatype auth_header = Bearer string | Basic string string

text \<open>A failed detail request has its HTTP status.\<close>

record hostbill_api =
  hbx_login :: "string \<Rightarrow> string \<Rightarrow> string + hostbill_login"
  hbx_verify :: "string \<Rightarrow> string \<Rightarrow> string + hostbill_login"
  hbx_probe :: "auth_header \<Rightarrow> bool"
  hbx_balance :: "auth_header \<Rightarrow> string + (string option \<times> string option \<times> string option)"
  hbx_services :: "auth_header \<Rightarrow> string + hostbill_service list"
  hbx_invoices :: "auth_header \<Rightarrow> string + hostbill_invoice list"
  hbx_detail :: "auth_header \<Rightarrow> string \<Rightarrow> (nat option \<times> string) + hostbill_detail option"
  hbx_now :: ms

text \<open>The fields token and useBasic of the connector.\<close>

record hostbill_session =
  hbn_token :: "string option"
  hbn_basic :: bool

definition basic_header :: "hostbill_credentials \<Rightarrow> auth_header" where
  "basic_header c = Basic (hbc_username c) (hbc_password c)"

definition basic_fallback :: "hostbill_credentials \<Rightarrow> hostbill_api \<Rightarrow> string \<Rightarrow> hostbill_session \<Rightarrow> hostbill_session \<times> (string + auth_header)" where
  "basic_fallback c A msg s =
     (if hbx_probe A (basic_header c) then (s \<lparr> hbn_basic := True \<rparr>, Inr (basic_header c)) else (s, Inl msg))"

definition reply_token :: "hostbill_login \<Rightarrow> string option" where
  "reply_token r = (case hbl_token r of Some t \<Rightarrow> Some t | None \<Rightarrow> hbl_access r)"

text \<open>hmac is the digest of the one-time code.\<close>

definition solve_mfa :: "(nat list \<Rightarrow> nat list \<Rightarrow> nat list) \<Rightarrow> hostbill_credentials \<Rightarrow> hostbill_api \<Rightarrow> hostbill_mfa \<Rightarrow> string + string" where
  "solve_mfa hmac c A m =
     (let methods = coalesce (hbm_methods m) [] in
      if ''google_authenticator'' \<notin> set methods then
        Inl (''HostBill: 2FA method '' @ or_text (Some (join_with '', '' methods)) ''unknown'' @ '' cannot be automated -- '' @
          ''switch the account to an authenticator app (TOTP) or disable 2FA.'')
      else if \<not> truthy (hbc_totp c) then Inl TWO_FACTOR_MESSAGE
      else if \<not> truthy (hbm_token m) then Inl TOTP_FAILED_MESSAGE
      else case hbx_verify A (the (hbm_token m)) (totp_code hmac (the (hbc_totp c)) (hbx_now A)) of Inl e \<Rightarrow> Inl e
      | Inr r \<Rightarrow> if truthy (reply_token r) then Inr (the (reply_token r)) else Inl TOTP_FAILED_MESSAGE)"

definition auth_headers ::
    "(nat list \<Rightarrow> nat list \<Rightarrow> nat list) \<Rightarrow> hostbill_credentials \<Rightarrow> hostbill_api \<Rightarrow> hostbill_session \<Rightarrow> hostbill_session \<times> (string + auth_header)" where
  "auth_headers hmac c A s =
     (if hbn_basic s then (s, Inr (basic_header c))
      else if truthy (hbn_token s) then (s, Inr (Bearer (the (hbn_token s))))
      else case hbx_login A (hbc_username c) (hbc_password c) of Inl e \<Rightarrow> (s, Inl e)
      | Inr r \<Rightarrow> (case hbl_error r of
            Some errors \<Rightarrow> if ''wronglogin'' \<in> set errors then (s, Inl (''HostBill: '' @ join_with '', '' errors))
              else basic_fallback c A (''HostBill: '' @ join_with '', '' errors) s
          | None \<Rightarrow>
              (let s1 = s \<lparr> hbn_token := reply_token r \<rparr> in
               if truthy (reply_token r) then (s1, Inr (Bearer (the (reply_token r))))
               else (case hbl_mfa r of
                   Some m \<Rightarrow> (case solve_mfa hmac c A m of Inl e \<Rightarrow> (s1, Inl e)
                     | Inr t \<Rightarrow> (s1 \<lparr> hbn_token := Some t \<rparr>, Inr (Bearer t)))
                 | None \<Rightarrow> basic_fallback c A ''HostBill login: token was not obtained'' s1))))"

section \<open>The requests\<close>

fun first_currency :: "hostbill_invoice list \<Rightarrow> ccy option" where
  "first_currency [] = None"
| "first_currency (iv # r) = (let c = normalize_currency (map_option label_of (hbi_currency iv)) [] in if c = [] then first_currency r else Some c)"

text \<open>The header is the one of the session, which every request of a run shares once it is obtained.\<close>

definition hostbill_account :: "(string \<Rightarrow> rat option) \<Rightarrow> hostbill_api \<Rightarrow> auth_header \<Rightarrow> string + account_data" where
  "hostbill_account Q A h = (case hbx_balance A h of Inl e \<Rightarrow> Inl e
     | Inr (label, credit, balance) \<Rightarrow>
        (let c = normalize_currency (map_option label_of label) [];
             currency = (if c \<noteq> [] then c else case hbx_invoices A h of Inl _ \<Rightarrow> HOSTBILL_FALLBACK_CURRENCY
               | Inr invs \<Rightarrow> coalesce (first_currency invs) HOSTBILL_FALLBACK_CURRENCY)
         in case read_amount Q (coalesce (first_some [credit, balance]) ''0'') of Inl e \<Rightarrow> Inl e
            | Inr b \<Rightarrow> Inr \<lparr> ad_balance = Some b, ad_currency = currency \<rparr>))"

definition hostbill_services :: "decimal_lib \<Rightarrow> (string \<Rightarrow> ms option) \<Rightarrow> (string \<Rightarrow> rat option) \<Rightarrow> hostbill_api \<Rightarrow> auth_header \<Rightarrow> string + service_data list" where
  "hostbill_services D P Q A h = (case hbx_services A h of Inl e \<Rightarrow> Inl e
     | Inr xs \<Rightarrow> map_all (map_hostbill_service D P Q) (filter is_active_hostbill xs))"

definition invoice_detail :: "hostbill_api \<Rightarrow> auth_header \<Rightarrow> string \<Rightarrow> string + hostbill_detail option" where
  "invoice_detail A h i = (case hbx_detail A h i of Inr d \<Rightarrow> Inr d | Inl (status, e) \<Rightarrow> if status = Some 404 then Inr None else Inl e)"

text \<open>Promise.all over requests whose replies come in at the moments ts: it rejects with the failure that comes
  first, and gives all the results when none fails.\<close>

definition failures :: "nat list \<Rightarrow> (string + 'a) list \<Rightarrow> (nat \<times> string) list" where
  "failures ts rs = List.map_filter (\<lambda>(t, r). case r of Inl e \<Rightarrow> Some (t, e) | Inr _ \<Rightarrow> None) (zip ts rs)"

definition promise_all :: "nat list \<Rightarrow> (string + 'a) list \<Rightarrow> string + 'a list" where
  "promise_all ts rs = (case sort_key fst (failures ts rs) of [] \<Rightarrow> map_all id rs | (t, e) # _ \<Rightarrow> Inl e)"

text \<open>The details of a batch are all asked for together and read before its invoices are mapped; T says when the
  reply for the n-th paid invoice comes in.\<close>

function invoice_batches :: "(nat \<Rightarrow> nat) \<Rightarrow> (string \<Rightarrow> ms option) \<Rightarrow> (string \<Rightarrow> rat option) \<Rightarrow> hostbill_api \<Rightarrow> auth_header \<Rightarrow> nat \<Rightarrow>
    hostbill_invoice list \<Rightarrow> payment_data list \<Rightarrow> string + payment_data list" where
  "invoice_batches T P Q A h i paid out =
     (if paid = [] then Inr out
      else let batch = take DETAIL_CONCURRENCY paid in
        case promise_all (map T [i..<i + length batch]) (map (\<lambda>iv. invoice_detail A h (hbi_id iv)) batch) of Inl e \<Rightarrow> Inl e
        | Inr details \<Rightarrow> (case map_all (\<lambda>(iv, d). invoice_to_payment P Q iv d) (zip batch details) of Inl e \<Rightarrow> Inl e
            | Inr ps \<Rightarrow> invoice_batches T P Q A h (i + DETAIL_CONCURRENCY) (drop DETAIL_CONCURRENCY paid) (out @ List.map_filter id ps)))"
  by pat_completeness auto
termination by (relation "measure (\<lambda>(T, P, Q, A, h, i, paid, out). length paid)") (auto simp: DETAIL_CONCURRENCY_def)

declare invoice_batches.simps [simp del]

definition hostbill_payments :: "(nat \<Rightarrow> nat) \<Rightarrow> (string \<Rightarrow> ms option) \<Rightarrow> (string \<Rightarrow> rat option) \<Rightarrow> hostbill_api \<Rightarrow> auth_header \<Rightarrow> string + payment_data list" where
  "hostbill_payments T P Q A h = (case hbx_invoices A h of Inl e \<Rightarrow> Inl e
     | Inr invs \<Rightarrow> invoice_batches T P Q A h 0 (filter is_paid_invoice invs) [])"

section \<open>What signing in reaches\<close>

text \<open>C37. Signing in: rejected credentials are never tried again as Basic; a token that is used was issued by the
  login or, for a code of the stored secret, by the verification; Basic is used only where it has
  already been or where the probe with it succeeded, and from then on always.\<close>

theorem hostbill_sign_in:
  assumes "auth_headers hmac c A s = (s', r)"
  shows "(\<forall>h. r = Inr h \<longrightarrow>
      (h = basic_header c \<and> hbn_basic s' \<and> (hbn_basic s \<or> hbx_probe A h)) \<or>
      (\<exists>t. h = Bearer t \<and> t \<noteq> [] \<and> hbn_token s' = Some t \<and> \<not> hbn_basic s' \<and> (hbn_token s = Some t \<or>
        (\<exists>l. hbx_login A (hbc_username c) (hbc_password c) = Inr l \<and> hbl_error l = None \<and> (reply_token l = Some t \<or>
          (\<exists>m secret l2. hbl_mfa l = Some m \<and> hbc_totp c = Some secret \<and> ''google_authenticator'' \<in> set (coalesce (hbm_methods m) []) \<and>
             hbx_verify A (the (hbm_token m)) (totp_code hmac secret (hbx_now A)) = Inr l2 \<and> reply_token l2 = Some t)))))) \<and>
    (\<forall>l es. \<not> hbn_basic s \<and> \<not> truthy (hbn_token s) \<and> hbx_login A (hbc_username c) (hbc_password c) = Inr l \<and> hbl_error l = Some es \<and>
       ''wronglogin'' \<in> set es \<longrightarrow> s' = s \<and> (\<exists>e. r = Inl e)) \<and>
    (hbn_basic s' \<and> auth_headers hmac c A s' = (s', Inr (basic_header c)) \<or> \<not> hbn_basic s')"
proof -
  have t: "truthy x \<Longrightarrow> \<exists>v. x = Some v \<and> v \<noteq> []" for x by (cases x) auto
  have mfa: "\<exists>secret l2. v \<noteq> [] \<and> hbc_totp c = Some secret \<and> ''google_authenticator'' \<in> set (coalesce (hbm_methods m) []) \<and>
      hbx_verify A (the (hbm_token m)) (totp_code hmac secret (hbx_now A)) = Inr l2 \<and> reply_token l2 = Some v"
    if "solve_mfa hmac c A m = Inr v" for m v
    using that by (auto simp: solve_mfa_def Let_def split: if_splits sum.splits dest!: t)
  show ?thesis
    using assms mfa
    by (auto simp: auth_headers_def basic_fallback_def Let_def split: if_splits sum.splits option.splits dest!: t)
qed

definition demo_hostbill :: hostbill_api where
  "demo_hostbill = \<lparr> hbx_login = (\<lambda>_ _. Inr \<lparr> hbl_token = Some ''jwt'', hbl_access = None, hbl_error = None, hbl_mfa = None \<rparr>),
     hbx_verify = (\<lambda>_ _. Inl ''no''), hbx_probe = (\<lambda>_. False), hbx_balance = (\<lambda>_. Inl ''no''), hbx_services = (\<lambda>_. Inl ''no''),
     hbx_invoices = (\<lambda>_. Inl ''no''), hbx_detail = (\<lambda>_ _. Inr None), hbx_now = 0 \<rparr>"

definition demo_hostbill_login :: hostbill_credentials where
  "demo_hostbill_login = \<lparr> hbc_username = ''u'', hbc_password = ''p'', hbc_totp = None \<rparr>"

lemma demo_hostbill_run:
  "auth_headers (\<lambda>k m. k) demo_hostbill_login demo_hostbill \<lparr> hbn_token = None, hbn_basic = False \<rparr> =
     (\<lparr> hbn_token = Some ''jwt'', hbn_basic = False \<rparr>, Inr (Bearer ''jwt''))"
  by (simp add: auth_headers_def demo_hostbill_def demo_hostbill_login_def reply_token_def)

theorem hostbill_sign_in_witness:
  "\<exists>l. hbx_login demo_hostbill ''u'' ''p'' = Inr l \<and> hbl_error l = None \<and> reply_token l = Some ''jwt''"
  using hostbill_sign_in [OF demo_hostbill_run]
  by (auto simp: basic_header_def demo_hostbill_def demo_hostbill_login_def)

section \<open>The batches\<close>

definition invoice_payment :: "(string \<Rightarrow> ms option) \<Rightarrow> (string \<Rightarrow> rat option) \<Rightarrow> hostbill_api \<Rightarrow> auth_header \<Rightarrow> hostbill_invoice \<Rightarrow> string + payment_data option" where
  "invoice_payment P Q A h iv = (case invoice_detail A h (hbi_id iv) of Inl e \<Rightarrow> Inl e | Inr d \<Rightarrow> invoice_to_payment P Q iv d)"

lemma failures_mem:
  "length ts = length rs \<Longrightarrow> (t, e) \<in> set (failures ts rs) \<longleftrightarrow> (\<exists>j<length rs. ts ! j = t \<and> rs ! j = Inl e)"
proof -
  have m: "y \<in> set (List.map_filter f xs) \<longleftrightarrow> (\<exists>x\<in>set xs. f x = Some y)" for f :: "nat \<times> (string + 'b) \<Rightarrow> (nat \<times> string) option" and y xs
    by (induction xs) (auto simp: map_filter_simps split: option.splits)
  assume "length ts = length rs"
  then show ?thesis unfolding failures_def m by (fastforce simp: set_zip split: sum.splits)
qed

lemma map_all_failed: "(\<exists>r\<in>set rs. \<exists>e. r = Inl e) \<Longrightarrow> \<exists>e. map_all id rs = Inl e"
proof (cases "map_all id rs")
  case (Inr ys)
  then have "\<forall>r\<in>set rs. \<exists>y. r = Inr y" using map_all_Inr [OF Inr] by (auto simp: list_all2_conv_all_nth in_set_conv_nth)
  then show "(\<exists>r\<in>set rs. \<exists>e. r = Inl e) \<Longrightarrow> ?thesis" by fastforce
qed simp

lemma map_all_ok: "map_all f xs = Inr ys \<Longrightarrow> \<forall>x\<in>set xs. \<exists>y. f x = Inr y"
  by (induction xs arbitrary: ys) (auto split: sum.splits)

lemma map_all_first: "map_all f xs = Inl e \<Longrightarrow> \<exists>j<length xs. f (xs ! j) = Inl e \<and> (\<forall>i<j. \<exists>y. f (xs ! i) = Inr y)"
proof (induction xs)
  case (Cons x xs)
  show ?case
  proof (cases "f x")
    case (Inr y)
    then have "map_all f xs = Inl e" using Cons.prems by (auto split: sum.splits)
    from Cons.IH [OF this] obtain j where "j < length xs" "f (xs ! j) = Inl e" "\<forall>i<j. \<exists>y. f (xs ! i) = Inr y" by blast
    then show ?thesis using Inr by (intro exI [of _ "Suc j"]) (auto simp: less_Suc_eq_0_disj)
  qed (use Cons.prems in auto)
qed simp

lemma map_all_map: "map_all id (map f xs) = map_all f xs"
  by (induction xs) (auto split: sum.splits)

text \<open>Promise.all succeeds as a pass over the results does, whatever the moments; a failure it reports is the
  earliest of them.\<close>

lemma promise_all_Inr: "length ts = length rs \<Longrightarrow> promise_all ts rs = Inr ys \<longleftrightarrow> map_all id rs = Inr ys"
proof -
  assume l: "length ts = length rs"
  show ?thesis
  proof (cases "sort_key fst (failures ts rs)")
    case (Cons f fs)
    then have "f \<in> set (failures ts rs)" by (metis list.set_intros(1) set_sort)
    then obtain j where "j < length rs" "rs ! j = Inl (snd f)" using failures_mem [OF l, of "fst f" "snd f"] by auto
    then have "\<exists>e. map_all id rs = Inl e" by (intro map_all_failed) (metis nth_mem)
    then show ?thesis using Cons by (cases f) (auto simp: promise_all_def)
  qed (simp add: promise_all_def)
qed

lemma promise_all_Inl:
  assumes "length ts = length rs" "promise_all ts rs = Inl e"
  shows "\<exists>j<length rs. rs ! j = Inl e \<and> (\<forall>i<length rs. \<forall>e'. rs ! i = Inl e' \<longrightarrow> ts ! j \<le> ts ! i)"
proof (cases "sort_key fst (failures ts rs)")
  case Nil
  then have n: "failures ts rs = []" by (metis set_empty set_sort)
  have "map_all id rs = Inl e" using assms(2) Nil by (simp add: promise_all_def)
  from map_all_first [OF this] obtain j where "j < length rs" "rs ! j = Inl e" by auto
  then have "(ts ! j, e) \<in> set (failures ts rs)" using failures_mem [OF assms(1)] by blast
  then show ?thesis using n by simp
next
  case (Cons f fs)
  then have e: "snd f = e" using assms(2) by (cases f) (simp add: promise_all_def)
  have "f \<in> set (failures ts rs)" using Cons by (metis list.set_intros(1) set_sort)
  then obtain j where j: "j < length rs" "ts ! j = fst f" "rs ! j = Inl e"
    using failures_mem [OF assms(1), of "fst f" "snd f"] e by auto
  have "sorted (map fst (f # fs))" using Cons by (metis sorted_sort_key)
  then have least: "\<forall>g\<in>set (f # fs). fst f \<le> fst g" by auto
  have "ts ! j \<le> ts ! i" if "i < length rs" "rs ! i = Inl e'" for i e'
  proof -
    have "(ts ! i, e') \<in> set (failures ts rs)" using that failures_mem [OF assms(1)] by blast
    then have "(ts ! i, e') \<in> set (f # fs)" using Cons by (metis set_sort)
    then show ?thesis using least j(2) by fastforce
  qed
  then show ?thesis using j by blast
qed

lemma batch_details:
  "promise_all (map T [i..<i + length xs]) (map (\<lambda>iv. invoice_detail A h (hbi_id iv)) xs) = Inr ds \<longleftrightarrow>
     map_all (\<lambda>iv. invoice_detail A h (hbi_id iv)) xs = Inr ds"
  by (subst promise_all_Inr) (simp_all add: map_all_map)

lemma invoice_batches_step:
  assumes "paid \<noteq> []"
  shows "(invoice_batches T P Q A h i paid out = Inr r) =
    (\<exists>ps. map_all (invoice_payment P Q A h) (take DETAIL_CONCURRENCY paid) = Inr ps \<and>
       invoice_batches T P Q A h (i + DETAIL_CONCURRENCY) (drop DETAIL_CONCURRENCY paid) (out @ List.map_filter id ps) = Inr r)"
proof -
  have f: "(\<lambda>x. case invoice_detail A h (hbi_id x) of Inl e \<Rightarrow> Inl e | Inr d \<Rightarrow> invoice_to_payment P Q x d) = invoice_payment P Q A h"
    by (rule ext) (simp add: invoice_payment_def)
  let ?batch = "take DETAIL_CONCURRENCY paid"
  let ?ds = "promise_all (map T [i..<i + length ?batch]) (map (\<lambda>iv. invoice_detail A h (hbi_id iv)) ?batch)"
  note z = map_all_zip [of "\<lambda>iv. invoice_detail A h (hbi_id iv)" ?batch "invoice_to_payment P Q", unfolded f, folded batch_details [of T i]]
  show ?thesis
  proof (cases ?ds)
    case (Inl e)
    then show ?thesis using assms z by (subst invoice_batches.simps) (simp add: Let_def)
  next
    case (Inr ds)
    then show ?thesis using assms z [symmetric]
      by (subst invoice_batches.simps) (cases "map_all (\<lambda>(iv, d). invoice_to_payment P Q iv d) (zip ?batch ds)"; simp add: Let_def)
  qed
qed

lemma invoice_batches_all:
  "(invoice_batches T P Q A h i paid out = Inr r) = (\<exists>ps. map_all (invoice_payment P Q A h) paid = Inr ps \<and> r = out @ List.map_filter id ps)"
proof (induction "length paid" arbitrary: paid out i rule: less_induct)
  case less
  show ?case
  proof (cases "paid = []")
    case True then show ?thesis by (auto simp: invoice_batches.simps map_filter_simps)
  next
    case False
    have shorter: "length (drop DETAIL_CONCURRENCY paid) < length paid" using False by (simp add: DETAIL_CONCURRENCY_def)
    have split: "map_all f paid = (case map_all f (take DETAIL_CONCURRENCY paid) of Inl e \<Rightarrow> Inl e
        | Inr us \<Rightarrow> (case map_all f (drop DETAIL_CONCURRENCY paid) of Inl e \<Rightarrow> Inl e | Inr vs \<Rightarrow> Inr (us @ vs)))" for f :: "hostbill_invoice \<Rightarrow> string + payment_data option"
      using map_all_append [of f "take DETAIL_CONCURRENCY paid" "drop DETAIL_CONCURRENCY paid"] by simp
    show ?thesis
      unfolding invoice_batches_step [OF False] less(1) [OF shorter] split
      by (auto simp: map_filter_def split: sum.splits)
  qed
qed

text \<open>Why a batch that starts at the n-th paid invoice fails: the earliest detail that fails, or, when the details
  are all there, the first amount that cannot be read.\<close>

definition batch_error :: "(nat \<Rightarrow> nat) \<Rightarrow> (string \<Rightarrow> ms option) \<Rightarrow> (string \<Rightarrow> rat option) \<Rightarrow> hostbill_api \<Rightarrow> auth_header \<Rightarrow> nat \<Rightarrow>
    hostbill_invoice list \<Rightarrow> string \<Rightarrow> bool" where
  "batch_error T P Q A h n batch e =
     ((\<exists>j<length batch. invoice_detail A h (hbi_id (batch ! j)) = Inl e \<and>
        (\<forall>i<length batch. \<forall>e'. invoice_detail A h (hbi_id (batch ! i)) = Inl e' \<longrightarrow> T (n + j) \<le> T (n + i))) \<or>
      (\<forall>iv\<in>set batch. \<exists>d. invoice_detail A h (hbi_id iv) = Inr d) \<and>
      (\<exists>j<length batch. invoice_payment P Q A h (batch ! j) = Inl e \<and> (\<forall>i<j. \<exists>p. invoice_payment P Q A h (batch ! i) = Inr p)))"

lemma batch_failed:
  assumes "(case promise_all (map T [n..<n + length batch]) (map (\<lambda>iv. invoice_detail A h (hbi_id iv)) batch) of Inl e \<Rightarrow> Inl e
      | Inr ds \<Rightarrow> map_all (\<lambda>(iv, d). invoice_to_payment P Q iv d) (zip batch ds)) = Inl e"
  shows "batch_error T P Q A h n batch e"
proof (cases "promise_all (map T [n..<n + length batch]) (map (\<lambda>iv. invoice_detail A h (hbi_id iv)) batch)")
  case (Inl e')
  then have e: "e' = e" using assms by simp
  from promise_all_Inl [OF _ Inl] obtain j where j: "j < length batch" "invoice_detail A h (hbi_id (batch ! j)) = Inl e"
    "\<forall>i<length batch. \<forall>e'. invoice_detail A h (hbi_id (batch ! i)) = Inl e' \<longrightarrow> T (n + j) \<le> T (n + i)"
    unfolding e by auto
  then show ?thesis unfolding batch_error_def by blast
next
  case (Inr ds)
  then have d: "map_all (\<lambda>iv. invoice_detail A h (hbi_id iv)) batch = Inr ds" by (simp only: batch_details)
  note a = map_all_Inr [OF d]
  note all = map_all_ok [OF d]
  have p: "invoice_payment P Q A h (batch ! i) = (case zip batch ds ! i of (iv, d) \<Rightarrow> invoice_to_payment P Q iv d)" if "i < length batch" for i
    using that a by (simp add: list_all2_conv_all_nth invoice_payment_def)
  have "map_all (\<lambda>(iv, d). invoice_to_payment P Q iv d) (zip batch ds) = Inl e" using assms Inr by simp
  from map_all_first [OF this] obtain j where j: "j < length batch" "(case zip batch ds ! j of (iv, d) \<Rightarrow> invoice_to_payment P Q iv d) = Inl e"
    "\<forall>i<j. \<exists>y. (case zip batch ds ! i of (iv, d) \<Rightarrow> invoice_to_payment P Q iv d) = Inr y" by auto
  then have "invoice_payment P Q A h (batch ! j) = Inl e" "\<forall>i<j. \<exists>p. invoice_payment P Q A h (batch ! i) = Inr p"
    using p by auto
  then show ?thesis unfolding batch_error_def using all j(1) by blast
qed

lemma invoice_batches_failed:
  "invoice_batches T P Q A h i paid out = Inl e \<Longrightarrow> \<exists>k. DETAIL_CONCURRENCY dvd k \<and> k < length paid \<and>
     (\<forall>iv\<in>set (take k paid). \<exists>p. invoice_payment P Q A h iv = Inr p) \<and>
     batch_error T P Q A h (i + k) (take DETAIL_CONCURRENCY (drop k paid)) e"
proof (induction "length paid" arbitrary: paid out i rule: less_induct)
  case less
  have ne: "paid \<noteq> []" using less.prems by (auto simp: invoice_batches.simps)
  have shorter: "length (drop DETAIL_CONCURRENCY paid) < length paid" using ne by (simp add: DETAIL_CONCURRENCY_def)
  let ?batch = "take DETAIL_CONCURRENCY paid"
  let ?r = "case promise_all (map T [i..<i + length ?batch]) (map (\<lambda>iv. invoice_detail A h (hbi_id iv)) ?batch) of Inl e \<Rightarrow> Inl e
      | Inr ds \<Rightarrow> map_all (\<lambda>(iv, d). invoice_to_payment P Q iv d) (zip ?batch ds)"
  have s: "invoice_batches T P Q A h i paid out = (case ?r of Inl e \<Rightarrow> Inl e
      | Inr ps \<Rightarrow> invoice_batches T P Q A h (i + DETAIL_CONCURRENCY) (drop DETAIL_CONCURRENCY paid) (out @ List.map_filter id ps))"
    using ne by (subst invoice_batches.simps) (simp add: Let_def split: sum.split)
  show ?case
  proof (cases ?r)
    case (Inl e')
    then have "?r = Inl e" using less.prems s by simp
    from batch_failed [OF this] show ?thesis using ne by (intro exI [of _ 0]) simp
  next
    case (Inr ps)
    then obtain ds where d: "promise_all (map T [i..<i + length ?batch]) (map (\<lambda>iv. invoice_detail A h (hbi_id iv)) ?batch) = Inr ds"
      "map_all (\<lambda>(iv, d). invoice_to_payment P Q iv d) (zip ?batch ds) = Inr ps" by (auto split: sum.splits)
    have f: "(\<lambda>x. case invoice_detail A h (hbi_id x) of Inl e \<Rightarrow> Inl e | Inr d \<Rightarrow> invoice_to_payment P Q x d) = invoice_payment P Q A h"
      by (rule ext) (simp add: invoice_payment_def)
    have "map_all (invoice_payment P Q A h) ?batch = Inr ps"
      using d map_all_zip [of "\<lambda>iv. invoice_detail A h (hbi_id iv)" ?batch "invoice_to_payment P Q" ps, unfolded f] unfolding batch_details by blast
    then have ok: "\<forall>iv\<in>set ?batch. \<exists>p. invoice_payment P Q A h iv = Inr p"
      by (rule map_all_ok)
    have "invoice_batches T P Q A h (i + DETAIL_CONCURRENCY) (drop DETAIL_CONCURRENCY paid) (out @ List.map_filter id ps) = Inl e"
      using less.prems s Inr by simp
    from less.hyps [OF shorter this] obtain k where k: "DETAIL_CONCURRENCY dvd k" "k < length (drop DETAIL_CONCURRENCY paid)"
      "\<forall>iv\<in>set (take k (drop DETAIL_CONCURRENCY paid)). \<exists>p. invoice_payment P Q A h iv = Inr p"
      "batch_error T P Q A h (i + DETAIL_CONCURRENCY + k) (take DETAIL_CONCURRENCY (drop k (drop DETAIL_CONCURRENCY paid))) e" by blast
    have "take (DETAIL_CONCURRENCY + k) paid = ?batch @ take k (drop DETAIL_CONCURRENCY paid)" by (rule take_add)
    then show ?thesis using k ok by (intro exI [of _ "DETAIL_CONCURRENCY + k"]) (auto simp: add.assoc add.commute [of k])
  qed
qed

text \<open>C38. The payments are read in batches of five whose details are asked for together.  The import succeeds
  exactly when the paid invoices, taken one after the other, all give their payments, and then has these
  in their order, whenever the replies come in.  When it fails, the list of the invoices could not be read
  or there is a first batch that fails, after batches that all succeed: with the failure among the
  batch's details whose reply came in first, or, when the details are all there, with the batch's first
  amount that cannot be read.\<close>

theorem hostbill_payments_spec:
  "(hostbill_payments T P Q A h = Inr r) =
     (\<exists>invs ps. hbx_invoices A h = Inr invs \<and> map_all (invoice_payment P Q A h) (filter is_paid_invoice invs) = Inr ps \<and> r = List.map_filter id ps) \<and>
   (hostbill_payments T P Q A h = Inl e \<longrightarrow> hbx_invoices A h = Inl e \<or>
     (\<exists>invs paid k. hbx_invoices A h = Inr invs \<and> paid = filter is_paid_invoice invs \<and> 5 dvd k \<and> k < length paid \<and>
       (\<forall>iv\<in>set (take k paid). \<exists>p. invoice_payment P Q A h iv = Inr p) \<and> batch_error T P Q A h k (take 5 (drop k paid)) e))"
proof (intro conjI impI)
  show "(hostbill_payments T P Q A h = Inr r) =
     (\<exists>invs ps. hbx_invoices A h = Inr invs \<and> map_all (invoice_payment P Q A h) (filter is_paid_invoice invs) = Inr ps \<and> r = List.map_filter id ps)"
    by (auto simp: hostbill_payments_def invoice_batches_all split: sum.splits)
next
  assume f: "hostbill_payments T P Q A h = Inl e"
  show "hbx_invoices A h = Inl e \<or>
     (\<exists>invs paid k. hbx_invoices A h = Inr invs \<and> paid = filter is_paid_invoice invs \<and> 5 dvd k \<and> k < length paid \<and>
       (\<forall>iv\<in>set (take k paid). \<exists>p. invoice_payment P Q A h iv = Inr p) \<and> batch_error T P Q A h k (take 5 (drop k paid)) e)"
  proof (cases "hbx_invoices A h")
    case (Inr invs)
    then have "invoice_batches T P Q A h 0 (filter is_paid_invoice invs) [] = Inl e" using f by (simp add: hostbill_payments_def)
    from invoice_batches_failed [OF this] show ?thesis unfolding Inr DETAIL_CONCURRENCY_def by auto
  qed (use f in \<open>simp add: hostbill_payments_def\<close>)
qed

definition late_invoice :: "string \<Rightarrow> hostbill_invoice" where
  "late_invoice i = \<lparr> hbi_id = i, hbi_number = None, hbi_date = None, hbi_paid = None, hbi_total = None, hbi_subtotal = None,
     hbi_status = Some ''Paid'', hbi_currency = None \<rparr>"

definition late_hostbill :: hostbill_api where
  "late_hostbill = demo_hostbill \<lparr> hbx_invoices := (\<lambda>_. Inr [late_invoice ''1'', late_invoice ''2'']),
     hbx_detail := (\<lambda>_ i. Inl (Some 500, i)) \<rparr>"

lemma late_paid: "is_paid_invoice (late_invoice i)"
proof -
  have "to_lower ''Paid'' = ''paid''" by code_simp
  then show ?thesis by (simp add: late_invoice_def is_paid_invoice_def)
qed

lemma late_run: "hostbill_payments (\<lambda>n. 9 - n) P Q late_hostbill h = Inl ''2''"
  by (simp add: hostbill_payments_def late_hostbill_def late_paid invoice_batches.simps [of _ _ _ _ _ 0]
      DETAIL_CONCURRENCY_def promise_all_def failures_def map_filter_simps invoice_detail_def upt_rec) (simp add: late_invoice_def)

lemma late_list: "hbx_invoices late_hostbill h = Inr [late_invoice ''1'', late_invoice ''2'']"
  by (simp add: late_hostbill_def)

theorem hostbill_payments_spec_witness:
  "\<exists>k. k < 2 \<and> batch_error (\<lambda>n. 9 - n) (\<lambda>s. None) (\<lambda>s. None) late_hostbill (Bearer ''t'') k (take 5 (drop k [late_invoice ''1'', late_invoice ''2''])) ''2''"
proof -
  have p: "filter is_paid_invoice [late_invoice ''1'', late_invoice ''2''] = [late_invoice ''1'', late_invoice ''2'']"
    by (simp add: late_paid)
  have n: "hbx_invoices late_hostbill (Bearer ''t'') \<noteq> Inl ''2''" using late_list by simp
  note d = mp [OF conjunct2 [OF hostbill_payments_spec], OF late_run [of "\<lambda>s. None" "\<lambda>s. None" "Bearer ''t''"]]
  then obtain invs k where i: "hbx_invoices late_hostbill (Bearer ''t'') = Inr invs" and k: "k < length (filter is_paid_invoice invs)"
    "batch_error (\<lambda>n. 9 - n) (\<lambda>s. None) (\<lambda>s. None) late_hostbill (Bearer ''t'') k (take 5 (drop k (filter is_paid_invoice invs))) ''2''"
    using n by blast
  have "invs = [late_invoice ''1'', late_invoice ''2'']" using i unfolding late_list by (rule sum.inject(2) [THEN iffD1, symmetric])
  then have f: "filter is_paid_invoice invs = [late_invoice ''1'', late_invoice ''2'']" using p by (simp only:)
  show ?thesis using k unfolding f by (intro exI [of _ k] conjI) simp_all
qed

end
