(* ===== verification/Hostkey.thy ===== *)
theory Hostkey
  imports Wire
begin

text \<open>
  connectors/hostkey: locations, periods, prices and due dates of servers, and the connector, which signs in
  once and keeps the token and the currency.  N reads a number from a text, fadd adds two of them, and
  Date.UTC is day_of_civil.  The lookups of LOCATION_COUNTRY reach the members of Object.prototype, so the
  country of a service may be no text; hd_inherited names the member it then is.
\<close>

section \<open>hostkey.types.ts\<close>

datatype hostkey_location = Loc_text string | Loc_object "string option" "string option"

record hostkey_server =
  hk_id :: nat
  hk_status :: "string option"
  hk_hostname :: "string option"
  hk_name :: "string option"
  hk_type :: "string option"
  hk_ip :: "string option"
  hk_due :: "string option"
  hk_eur :: "js_num option"
  hk_rur :: "js_num option"
  hk_usd :: "js_num option"
  hk_rate :: "js_num option"
  hk_period :: "string option"
  hk_location :: "hostkey_location option"
  hk_location_name :: "string option"
  hk_short :: "string option"
  hk_raw :: json_obj

record hostkey_login =
  hl_token :: "string option"
  hl_currency :: "string option"
  hl_location :: "string option"

text \<open>A message of the credits reply; a single entry is a list of one.\<close>

datatype hostkey_message = Msg_num rat | Msg_text string | Msg_credits "js_num option list"

datatype hostkey_result = Res_num rat | Res_text string | Res_login hostkey_login

text \<open>Every reply: code is kept where it is a number, error where it is a text.\<close>

record hostkey_reply =
  hr_result :: "hostkey_result option"
  hr_code :: "rat option"
  hr_error :: "string option"
  hr_message :: "hostkey_message option"
  hr_login :: hostkey_login
  hr_servers :: "nat list + hostkey_server list"

section \<open>hostkey.mapper.ts\<close>

definition LOCATION_COUNTRY :: "(string \<times> string) list" where
  "LOCATION_COUNTRY = [(''ru'', ''RU''), (''nl'', ''NL''), (''us'', ''US''), (''us-east'', ''US''), (''us-west'', ''US''),
     (''de'', ''DE''), (''fi'', ''FI''), (''is'', ''IS''), (''tr'', ''TR''), (''kz'', ''KZ'')]"

definition location_raw :: "hostkey_server \<Rightarrow> string option" where
  "location_raw s = first_some [(case hk_location s of Some (Loc_text t) \<Rightarrow> Some t | _ \<Rightarrow> None), hk_location_name s, hk_short s,
     (case hk_location s of Some (Loc_object name code) \<Rightarrow> first_some [name, code] | _ \<Rightarrow> None)]"

text \<open>What a lookup of a plain object by a text finds: a field of its own, or a member that it inherits from
  Object.prototype, which is a function or an object and counts as true.\<close>

datatype found = Own string | Inherited string

definition OBJECT_PROTOTYPE :: "string list" where
  "OBJECT_PROTOTYPE = [''constructor'', ''hasOwnProperty'', ''isPrototypeOf'', ''propertyIsEnumerable'', ''toLocaleString'', ''toString'',
     ''valueOf'', ''__defineGetter__'', ''__defineSetter__'', ''__lookupGetter__'', ''__lookupSetter__'', ''__proto__'']"

definition look_up :: "(string \<times> string) list \<Rightarrow> string \<Rightarrow> found option" where
  "look_up obj k = (case map_of obj k of Some v \<Rightarrow> Some (Own v)
     | None \<Rightarrow> if k \<in> set OBJECT_PROTOTYPE then Some (Inherited k) else None)"

definition location_key :: "string \<Rightarrow> string" where "location_key raw = to_lower (trim raw)"

text \<open>key.split(/[-_\s]/)[0]\<close>

definition location_prefix :: "string \<Rightarrow> string" where
  "location_prefix key = takeWhile (\<lambda>c. c \<noteq> CHR ''-'' \<and> c \<noteq> CHR ''_'' \<and> \<not> js_space c) key"

definition location_code :: "hostkey_server \<Rightarrow> found option" where
  "location_code s =
     (if \<not> truthy (location_raw s) then None
      else let key = location_key (the (location_raw s)); prefix = location_prefix key
        in case look_up LOCATION_COUNTRY key of Some c \<Rightarrow> Some c
        | None \<Rightarrow> (case (if prefix = [] then None else look_up LOCATION_COUNTRY prefix) of Some c \<Rightarrow> Some c
           | None \<Rightarrow> if length key = 2 \<and> (\<forall>c\<in>set key. is_latin c) then Some (Own (to_upper key)) else None))"

definition hostkey_map_period :: "string option \<Rightarrow> period" where
  "hostkey_map_period period =
     (let p = to_lower (coalesce period ''monthly'') in
      if has_part ''year'' p \<or> p = ''annually'' \<or> p = ''yearly'' then Yearly
      else if has_part ''quarter'' p \<or> p = ''quarterly'' then Quarterly
      else if has_part ''6'' p \<or> has_part ''semi'' p \<or> p = ''semiannually'' then Quarterly
      else if has_part ''day'' p \<or> p = ''daily'' then Daily
      else if has_part ''hour'' p \<or> p = ''hourly'' then Hourly else Monthly)"

definition positive :: "rat option \<Rightarrow> rat option" where
  "positive n = (case n of Some r \<Rightarrow> if 0 < r then Some r else None | None \<Rightarrow> None)"

definition pick_cost :: "(string \<Rightarrow> rat option) \<Rightarrow> hostkey_server \<Rightarrow> string \<Rightarrow> rat option" where
  "pick_cost N s currency =
     (case num_of N (hk_rate s) of Some r \<Rightarrow> Some r
      | None \<Rightarrow>
         (let c = to_upper currency;
              by_currency = (if c = ''RUB'' \<or> c = ''RUR'' then num_of N (hk_rur s) else if c = ''USD'' then num_of N (hk_usd s) else num_of N (hk_eur s))
          in first_some [positive by_currency, positive (num_of N (hk_rur s)), positive (num_of N (hk_eur s)), positive (num_of N (hk_usd s))]))"

text \<open>Date.UTC reads a year below 100 as one of the twentieth century.\<close>

definition parse_due_date :: "string option \<Rightarrow> ms option" where
  "parse_due_date raw =
     (if \<not> truthy raw then None
      else case day_prefix (trim (the raw)) of None \<Rightarrow> None
      | Some d \<Rightarrow> (let y = int (number_of_digits (take 4 d)) in
          Some (day_of_civil (if y \<le> 99 then 1900 + y else y) (int (number_of_digits (take 2 (drop 5 d)))) (int (number_of_digits (drop 8 d))) * MS_PER_DAY)))"

text \<open>A service whose countryCode is the text sd_country or, if hd_inherited names one, a member of Object.prototype.\<close>

record hostkey_data = service_data +
  hd_inherited :: "string option"

definition map_hostkey_server :: "(string \<Rightarrow> rat option) \<Rightarrow> hostkey_server \<Rightarrow> string \<Rightarrow> ms \<Rightarrow> hostkey_data" where
  "map_hostkey_server N s currency fallback =
     (let kind = to_lower (coalesce (hk_type s) []) in
      \<lparr> sd_external = nat_text (hk_id s), sd_name = or_text (hk_hostname s) (or_text (hk_name s) (or_text (hk_ip s) (''hostkey-'' @ nat_text (hk_id s)))),
        sd_type = (if has_part ''server'' kind \<or> has_part ''dedicated'' kind then ''dedicated'' else ''vps''),
        sd_country = (case location_code s of Some (Own c) \<Rightarrow> Some c | _ \<Rightarrow> None), sd_cost = pick_cost N s currency, sd_currency = Some currency,
        sd_period = Some (hostkey_map_period (hk_period s)),
        sd_next = Nb_date (Some (coalesce (parse_due_date (hk_due s)) fallback)), sd_meta = hk_raw s,
        hd_inherited = (case location_code s of Some (Inherited m) \<Rightarrow> Some m | _ \<Rightarrow> None) \<rparr>)"

section \<open>hostkey.connector.ts\<close>

text \<open>The fields sessionToken and currency.\<close>

record hostkey_session =
  hn_token :: "string option"
  hn_currency :: ccy

definition HOSTKEY_START :: hostkey_session where "HOSTKEY_START = \<lparr> hn_token = None, hn_currency = ''EUR'' \<rparr>"

record hostkey_api =
  hq_login :: "string + hostkey_reply"
  hq_credits :: "string \<Rightarrow> string + hostkey_reply"
  hq_list :: "string \<Rightarrow> string + hostkey_reply"
  hq_now :: ms

definition unwrap_login :: "hostkey_reply \<Rightarrow> hostkey_login option" where
  "unwrap_login r = (if truthy (hl_token (hr_login r)) then Some (hr_login r)
     else case hr_result r of Some (Res_login l) \<Rightarrow> if truthy (hl_token l) then Some l else None | _ \<Rightarrow> None)"

definition currency_from_login :: "hostkey_login \<Rightarrow> ccy" where
  "currency_from_login p =
     (if truthy (hl_currency p) then to_upper (the (hl_currency p))
      else let loc = to_lower (coalesce (hl_location p) []) in
        if has_part ''itb'' loc \<or> has_part ''ru'' loc \<or> has_part ''rub'' loc then ''RUB''
        else if has_part ''us'' loc \<or> has_part ''usd'' loc then ''USD'' else ''EUR'')"

definition credit_balance :: "(string \<Rightarrow> rat option) \<Rightarrow> (rat \<Rightarrow> rat \<Rightarrow> rat) \<Rightarrow> hostkey_reply \<Rightarrow> rat option" where
  "credit_balance N fadd r = (case hr_message r of None \<Rightarrow> None | Some (Msg_num n) \<Rightarrow> Some n | Some (Msg_text s) \<Rightarrow> N s
     | Some (Msg_credits es) \<Rightarrow> Some (foldl (\<lambda>acc e. case num_of N e of Some n \<Rightarrow> fadd acc n | None \<Rightarrow> acc) 0 es))"

definition normalize_servers :: "nat list + hostkey_server list \<Rightarrow> hostkey_server list" where
  "normalize_servers s = (case s of Inl ids \<Rightarrow> [] | Inr xs \<Rightarrow> xs)"

definition api_error :: "hostkey_reply \<Rightarrow> string option" where
  "api_error r = (if truthy (hr_error r) then hr_error r else case hr_message r of Some (Msg_text t) \<Rightarrow> if t \<noteq> [] then Some t else None | _ \<Rightarrow> None)"

definition assert_ok :: "hostkey_reply \<Rightarrow> string \<Rightarrow> string option" where
  "assert_ok r action =
     (if (case hr_result r of Some (Res_num n) \<Rightarrow> n < 0 | Some (Res_text t) \<Rightarrow> t \<noteq> ''OK'' | _ \<Rightarrow> False) \<or> (case hr_code r of Some n \<Rightarrow> n < 0 | None \<Rightarrow> False)
      then Some (''Hostkey: '' @ or_text (api_error r) (action @ '' failed'')) else None)"

definition hostkey_ensure_token :: "hostkey_api \<Rightarrow> hostkey_session \<Rightarrow> hostkey_session \<times> (string + string)" where
  "hostkey_ensure_token A s =
     (if truthy (hn_token s) then (s, Inr (the (hn_token s)))
      else case hq_login A of Inl e \<Rightarrow> (s, Inl e)
      | Inr r \<Rightarrow> (case unwrap_login r of None \<Rightarrow> (s, Inl (''Hostkey: '' @ or_text (api_error r) ''Invalid API key''))
          | Some p \<Rightarrow> (\<lparr> hn_token = hl_token p, hn_currency = currency_from_login p \<rparr>, Inr (the (hl_token p)))))"

definition hostkey_account :: "(string \<Rightarrow> rat option) \<Rightarrow> (rat \<Rightarrow> rat \<Rightarrow> rat) \<Rightarrow> hostkey_api \<Rightarrow> hostkey_session \<Rightarrow> hostkey_session \<times> (string + account_data)" where
  "hostkey_account N fadd A s = (case hostkey_ensure_token A s of (s', Inl e) \<Rightarrow> (s', Inl e)
     | (s', Inr token) \<Rightarrow> (s', Inr \<lparr> ad_balance = (case hq_credits A token of Inl e \<Rightarrow> None
           | Inr r \<Rightarrow> if assert_ok r ''getcredits'' \<noteq> None then None else credit_balance N fadd r), ad_currency = hn_currency s' \<rparr>))"

definition first_of_next_month :: "ms \<Rightarrow> ms" where
  "first_of_next_month now = day_of_civil (utc_year now) (utc_month now + 1) 1 * MS_PER_DAY"

definition is_rented :: "hostkey_server \<Rightarrow> bool" where
  "is_rented s = (to_lower (coalesce (hk_status s) []) \<in> {[], ''rent'', ''power_off''})"

definition hostkey_services :: "(string \<Rightarrow> rat option) \<Rightarrow> hostkey_api \<Rightarrow> hostkey_session \<Rightarrow> hostkey_session \<times> (string + hostkey_data list)" where
  "hostkey_services N A s = (case hostkey_ensure_token A s of (s', Inl e) \<Rightarrow> (s', Inl e)
     | (s', Inr token) \<Rightarrow> (s', case hq_list A token of Inl e \<Rightarrow> Inl e
         | Inr r \<Rightarrow> (case assert_ok r ''list'' of Some e \<Rightarrow> Inl e
             | None \<Rightarrow> Inr (map (\<lambda>x. map_hostkey_server N x (hn_currency s') (first_of_next_month (hq_now A)))
                 (filter is_rented (normalize_servers (hr_servers r)))))))"

section \<open>Country codes\<close>

definition country_code :: "string \<Rightarrow> bool" where
  "country_code c = (length c = 2 \<and> (\<forall>x\<in>set c. CHR ''A'' \<le> x \<and> x \<le> CHR ''Z''))"

lemma latin_upper: "is_latin c \<Longrightarrow> \<exists>d. upper_char c = [d] \<and> CHR ''A'' \<le> d \<and> d \<le> CHR ''Z''"
  by (auto simp: is_latin_def upper_char_def less_eq_char_def Let_def ccode_def of_char_of take_bit_nat_eq_self)

lemma location_table: "map_of LOCATION_COUNTRY k = Some c \<Longrightarrow> country_code c"
  by (auto simp: LOCATION_COUNTRY_def country_code_def less_eq_char_def split: if_splits)

lemma upper_country: "length key = 2 \<Longrightarrow> \<forall>c\<in>set key. is_latin c \<Longrightarrow> country_code (to_upper key)"
proof -
  assume k: "length key = 2" "\<forall>c\<in>set key. is_latin c"
  then obtain a b where ab: "key = [a, b]" by (auto simp: length_Suc_conv numeral_2_eq_2)
  then show ?thesis using k(2) latin_upper [of a] latin_upper [of b] by (auto simp: to_upper_def country_code_def)
qed

text \<open>The members of Object.prototype that a lower-case key can be; a prefix can only be the first.\<close>

lemma lower_members: "to_lower t \<in> set OBJECT_PROTOTYPE \<Longrightarrow> to_lower t \<in> {''constructor'', ''__proto__''}"
proof -
  have "list_all (\<lambda>m. m \<in> {''constructor'', ''__proto__''} \<or> to_lower m \<noteq> m) OBJECT_PROTOTYPE" by code_simp
  moreover have "to_lower (to_lower t) = to_lower t"
  proof -
    have "lower_char (lower_char c) = lower_char c" for c
      by (auto simp: lower_char_def Let_def of_char_of take_bit_nat_eq_self)
    then show ?thesis by (simp add: to_lower_def)
  qed
  ultimately show "to_lower t \<in> set OBJECT_PROTOTYPE \<Longrightarrow> ?thesis" unfolding list_all_iff by metis
qed

lemma prefix_lower: "\<exists>u. location_prefix (location_key raw) = to_lower u"
proof -
  have "\<exists>u. takeWhile P (map lower_char t) = map lower_char u" for P t
    by (intro exI [of _ "takeWhile (P \<circ> lower_char) t"]) (simp add: takeWhile_map)
  then show ?thesis by (simp add: location_prefix_def location_key_def to_lower_def)
qed

lemma prefix_no_underscore: "CHR ''_'' \<notin> set (location_prefix key)"
  unfolding location_prefix_def using set_takeWhileD by fastforce

lemma location_code_cases:
  assumes "location_raw s = Some raw" "raw \<noteq> []"
  shows "case location_code s of
      Some (Inherited m) \<Rightarrow> location_key raw = m \<and> m \<in> {''constructor'', ''__proto__''} \<or> m = ''constructor'' \<and> location_prefix (location_key raw) = m
    | Some (Own c) \<Rightarrow> country_code c \<and> location_key raw \<notin> {''constructor'', ''__proto__''} \<and> location_prefix (location_key raw) \<noteq> ''constructor''
    | None \<Rightarrow> location_key raw \<notin> {''constructor'', ''__proto__''} \<and> location_prefix (location_key raw) \<noteq> ''constructor''"
proof -
  let ?k = "location_key raw" and ?p = "location_prefix (location_key raw)"
  have own: "map_of LOCATION_COUNTRY ''constructor'' = None" "map_of LOCATION_COUNTRY ''__proto__'' = None"
    by (simp_all add: LOCATION_COUNTRY_def)
  have mem: "{''constructor'', ''__proto__''} \<subseteq> set OBJECT_PROTOTYPE" by (simp add: OBJECT_PROTOTYPE_def)
  have k: "look_up LOCATION_COUNTRY ?k = Some (Inherited m) \<Longrightarrow> ?k = m \<and> m \<in> {''constructor'', ''__proto__''}" for m
    using lower_members [of "trim raw"] by (auto simp: look_up_def location_key_def split: option.splits if_splits)
  have p: "look_up LOCATION_COUNTRY ?p = Some (Inherited m) \<Longrightarrow> ?p = m \<and> m = ''constructor''" for m
  proof -
    assume "look_up LOCATION_COUNTRY ?p = Some (Inherited m)"
    then have "?p = m" "m \<in> set OBJECT_PROTOTYPE" by (auto simp: look_up_def split: option.splits if_splits)
    moreover obtain u where "?p = to_lower u" using prefix_lower by blast
    ultimately have "m \<in> {''constructor'', ''__proto__''}" using lower_members [of u] by simp
    moreover have "CHR ''_'' \<notin> set m" using prefix_no_underscore [of ?k] \<open>?p = m\<close> by simp
    ultimately show "?p = m \<and> m = ''constructor''" using \<open>?p = m\<close> by auto
  qed
  have some: "look_up LOCATION_COUNTRY x = Some (Inherited x)" if "x \<in> {''constructor'', ''__proto__''}" for x
    using that own mem by (auto simp: look_up_def)
  have pre: "location_prefix ''constructor'' = ''constructor''" by code_simp
  have o: "look_up LOCATION_COUNTRY x = Some (Own c) \<Longrightarrow> country_code c" for x c
    using location_table [of x c] by (auto simp: look_up_def split: option.splits if_splits)
  have c: "location_code s = (case look_up LOCATION_COUNTRY ?k of Some c \<Rightarrow> Some c
        | None \<Rightarrow> (case (if ?p = [] then None else look_up LOCATION_COUNTRY ?p) of Some c \<Rightarrow> Some c
           | None \<Rightarrow> if length ?k = 2 \<and> (\<forall>c\<in>set ?k. is_latin c) then Some (Own (to_upper ?k)) else None))"
    using assms by (simp add: location_code_def Let_def)
  have own_prefix: "location_prefix x \<noteq> ''constructor''" if "map_of LOCATION_COUNTRY x = Some v" for x v
  proof -
    have "list_all (\<lambda>(x, v). location_prefix x \<noteq> ''constructor'') LOCATION_COUNTRY" by code_simp
    then show ?thesis using map_of_SomeD [OF that] by (auto simp: list_all_iff)
  qed
  show ?thesis
  proof (cases "look_up LOCATION_COUNTRY ?k")
    case (Some f)
    then have "location_code s = Some f" by (simp add: c)
    moreover have "?p \<noteq> ''constructor'' \<and> ?k \<notin> {''constructor'', ''__proto__''}" if "f = Own x" for x
      using Some that some [of ?k] own_prefix [of ?k] by (auto simp: look_up_def split: option.splits if_splits)
    ultimately show ?thesis using k [of m for m] o [of ?k] Some by (cases f) auto
  next
    case None
    then have nk: "?k \<notin> {''constructor'', ''__proto__''}" using some [of ?k] by auto
    have u: "length ?k = 2 \<Longrightarrow> \<forall>c\<in>set ?k. is_latin c \<Longrightarrow> country_code (to_upper ?k)" by (rule upper_country)
    show ?thesis
    proof (cases "look_up LOCATION_COUNTRY ?p")
      case (Some f)
      have "?p \<noteq> []" using Some by (auto simp: look_up_def LOCATION_COUNTRY_def OBJECT_PROTOTYPE_def)
      then have "location_code s = Some f" using None Some by (simp add: c)
      moreover have "?p \<noteq> ''constructor''" if "f = Own x" for x using Some that some [of ?p] by auto
      ultimately show ?thesis using p o [of ?p] Some nk by (cases f) auto
    next
      case no: None
      then have "?p \<noteq> ''constructor''" using some [of ?p] by auto
      moreover have "location_code s = (if length ?k = 2 \<and> (\<forall>c\<in>set ?k. is_latin c) then Some (Own (to_upper ?k)) else None)"
        using None no by (simp add: c)
      ultimately show ?thesis using nk u by auto
    qed
  qed
qed

text \<open>C40. Whatever the location field holds, a text, an object or nothing, the country of a server is two capital
  letters or absent, except where its text, in lower case and without the blanks around it, is one of
  the two names constructor and __proto__, or is constructor up to its first dash, underscore or blank:
  then, and only then, the country is the member of Object.prototype with this name instead of a text.\<close>

theorem hostkey_country_code:
  shows "let d = map_hostkey_server N s currency fallback; raw = coalesce (location_raw s) []; key = location_key raw in
    (\<forall>c. sd_country d = Some c \<longrightarrow> country_code c \<and> hd_inherited d = None) \<and>
    (hd_inherited d \<noteq> None \<longleftrightarrow> key \<in> {''constructor'', ''__proto__''} \<or> location_prefix key = ''constructor'') \<and>
    (\<forall>m. hd_inherited d = Some m \<longrightarrow> m \<in> {''constructor'', ''__proto__''})"
proof (cases "truthy (location_raw s)")
  case False
  then have "coalesce (location_raw s) [] = []" by (cases "location_raw s") auto
  moreover have "location_key [] = []" "location_prefix [] = []" by code_simp+
  ultimately show ?thesis using False by (simp add: map_hostkey_server_def location_code_def Let_def)
next
  case True
  then obtain raw where r: "location_raw s = Some raw" "raw \<noteq> []" by (cases "location_raw s") auto
  have pre: "location_prefix ''constructor'' = ''constructor''" by code_simp
  show ?thesis using location_code_cases [OF r] r(1)
    by (cases "location_code s"; cases "the (location_code s)") (auto simp: map_hostkey_server_def Let_def)
qed

definition hostkey_sample_server :: "string \<Rightarrow> hostkey_server" where
  "hostkey_sample_server code = \<lparr> hk_id = 7, hk_status = None, hk_hostname = None, hk_name = None, hk_type = None, hk_ip = None, hk_due = None,
     hk_eur = None, hk_rur = None, hk_usd = None, hk_rate = None, hk_period = None, hk_location = Some (Loc_object None (Some code)),
     hk_location_name = None, hk_short = None, hk_raw = [] \<rparr>"

theorem hostkey_country_code_witness:
  "hd_inherited (map_hostkey_server (\<lambda>t. None) (hostkey_sample_server ''Constructor-7'') ''EUR'' 0) \<noteq> None \<and>
   hd_inherited (map_hostkey_server (\<lambda>t. None) (hostkey_sample_server ''Gb'') ''EUR'' 0) = None"
proof -
  have r: "location_raw (hostkey_sample_server c) = Some c" for c by (simp add: location_raw_def hostkey_sample_server_def)
  have k: "location_prefix (location_key ''Constructor-7'') = ''constructor''" by code_simp
  have g: "location_prefix (location_key ''Gb'') \<noteq> ''constructor'' \<and> location_key ''Gb'' \<notin> {''constructor'', ''__proto__''}" by code_simp
  show ?thesis
    using hostkey_country_code [of "\<lambda>t. None" "hostkey_sample_server ''Constructor-7''" "''EUR''" 0]
      hostkey_country_code [of "\<lambda>t. None" "hostkey_sample_server ''Gb''" "''EUR''" 0] k g by (simp add: r Let_def)
qed

text \<open>A price for half a year is taken for a quarter's, which doubles its monthly share.\<close>

lemma hostkey_half_year: "hostkey_map_period (Some ''semiannually'') = Quarterly \<and> hostkey_map_period (Some ''6 months'') = Quarterly"
  by (simp add: hostkey_map_period_def to_lower_def lower_char_def ccode_def)

section \<open>Signing in once\<close>

text \<open>However the calls of a run follow each other, the key is exchanged for a token at most once: after a
  first call that signed in, the later ones use its token and keep the currency it set, also
  when the login would now fail.\<close>

theorem hostkey_one_login:
  assumes "hostkey_ensure_token A s = (s', Inr token)"
  shows "hostkey_ensure_token B s' = (s', Inr token) \<and> token \<noteq> [] \<and>
    fst (hostkey_services N B s') = s' \<and> (\<exists>a. hostkey_account N fadd B s' = (s', Inr a) \<and> ad_currency a = hn_currency s')"
proof -
  have t: "hn_token s' = Some token \<and> token \<noteq> []"
    using assms by (cases s) (auto simp: hostkey_ensure_token_def unwrap_login_def truthy_def split: if_splits sum.splits option.splits hostkey_result.splits)
  then have e: "hostkey_ensure_token B s' = (s', Inr token)" by (simp add: hostkey_ensure_token_def truthy_def)
  then show ?thesis using t by (simp add: hostkey_services_def hostkey_account_def)
qed

definition hostkey_sample :: hostkey_api where
  "hostkey_sample = \<lparr> hq_login = Inr \<lparr> hr_result = Some (Res_login \<lparr> hl_token = Some ''t'', hl_currency = None, hl_location = Some ''itb'' \<rparr>),
       hr_code = None, hr_error = None, hr_message = None, hr_login = \<lparr> hl_token = None, hl_currency = None, hl_location = None \<rparr>, hr_servers = Inl [] \<rparr>,
     hq_credits = (\<lambda>t. Inl ''down''), hq_list = (\<lambda>t. Inl ''down''), hq_now = 0 \<rparr>"

lemma hostkey_sample_login:
  "hostkey_ensure_token hostkey_sample HOSTKEY_START = (\<lparr> hn_token = Some ''t'', hn_currency = ''RUB'' \<rparr>, Inr ''t'')"
  by (simp add: hostkey_ensure_token_def hostkey_sample_def HOSTKEY_START_def unwrap_login_def currency_from_login_def to_lower_def
      lower_char_def starts_with_def)

theorem hostkey_one_login_witness:
  "\<exists>a. hostkey_account (\<lambda>t. None) (+) hostkey_sample \<lparr> hn_token = Some ''t'', hn_currency = ''RUB'' \<rparr> =
     (\<lparr> hn_token = Some ''t'', hn_currency = ''RUB'' \<rparr>, Inr a) \<and> ad_currency a = ''RUB''"
  using hostkey_one_login [OF hostkey_sample_login, of hostkey_sample "\<lambda>t. None" "(+)"] by simp

end
