(* ===== verification/Billmgr.thy ===== *)
theory Billmgr
  imports Wire
begin

text \<open>
  connectors/billmgr: the values of the CGI API, periods, amounts and statuses, and the connector: signing in
  with a session, a one-time code or authinfo, the item lists, the ledger.
  Texts are lists of code units, because the panels answer in Russian; E gives a text of the
  rest of the development for one.  P is Date.parse, Q the constructor of Decimal (None where it throws) and N
  the finite numbers of Number, all on texts.  A dash and an ellipsis in a message are -- and ...
\<close>

section \<open>billmgr.parse.ts\<close>

text \<open>A value of JSON; a number is the text that String gives.\<close>

datatype wire = W_null | W_bool bool | W_num label | W_text label | W_list "wire list" | W_obj "(label \<times> wire) list"

definition sep_label :: "label \<Rightarrow> label list \<Rightarrow> label" where
  "sep_label sep ts = drop (length sep) (concat (map (\<lambda>t. sep @ t) ts))"

text \<open>String: null is empty inside a list only.\<close>

fun wire_text :: "wire \<Rightarrow> label" where
  "wire_text W_null = label_of ''null''"
| "wire_text (W_bool b) = label_of (if b then ''true'' else ''false'')"
| "wire_text (W_num n) = n"
| "wire_text (W_text t) = t"
| "wire_text (W_list xs) = sep_label (label_of '','') (map (\<lambda>x. if x = W_null then [] else wire_text x) xs)"
| "wire_text (W_obj fs) = label_of ''[object Object]''"

definition w_get :: "wire \<Rightarrow> string \<Rightarrow> wire" where
  "w_get x k = (case x of W_obj fs \<Rightarrow> coalesce (map_of fs (label_of k)) W_null | _ \<Rightarrow> W_null)"

fun wire_val :: "wire \<Rightarrow> label option" where
  "wire_val W_null = None"
| "wire_val (W_list []) = None"
| "wire_val (W_list (x # xs)) = wire_val x"
| "wire_val (W_obj fs) = (case w_get (W_obj fs) ''$'' of W_null \<Rightarrow> None | v \<Rightarrow> Some (wire_text v))"
| "wire_val x = Some (wire_text x)"

definition field_val :: "wire \<Rightarrow> string \<Rightarrow> label option" where "field_val e k = wire_val (w_get e k)"

definition cp_digit :: "nat \<Rightarrow> bool" where "cp_digit n = (48 \<le> n \<and> n \<le> 57)"

text \<open>A match of -?\d+(\.\d+)? at the start.\<close>

definition number_at :: "label \<Rightarrow> label option" where
  "number_at s =
     (let sign = (if take 1 s = [45] then [45] else []); r = drop (length sign) s; ds = takeWhile cp_digit r; rest = dropWhile cp_digit r;
          fs = (if take 1 rest = [46] then takeWhile cp_digit (tl rest) else [])
      in if ds = [] then None else Some (sign @ ds @ (if fs = [] then [] else 46 # fs)))"

fun first_number :: "label \<Rightarrow> label option" where
  "first_number [] = None"
| "first_number (c # s) = (case number_at (c # s) of Some t \<Rightarrow> Some t | None \<Rightarrow> first_number s)"

definition opt_number :: "label option \<Rightarrow> label option" where "opt_number s = Option.bind s first_number"

definition w_truthy :: "wire \<Rightarrow> bool" where
  "w_truthy x = (case x of W_null \<Rightarrow> False | W_bool b \<Rightarrow> b | W_num n \<Rightarrow> n \<noteq> label_of ''0'' | W_text t \<Rightarrow> t \<noteq> [] | _ \<Rightarrow> True)"

definition as_array :: "wire \<Rightarrow> wire list" where
  "as_array raw = (case raw of W_list xs \<Rightarrow> xs | _ \<Rightarrow> if w_truthy raw then [raw] else [])"

definition amount_currency :: "label option \<Rightarrow> ccy" where
  "amount_currency s =
     normalize_currency (Some (filter (\<lambda>n. \<not> (cp_digit n \<or> n \<in> {46, 44, 43, 45} \<or> cp_space n)) (coalesce s []))) ''RUB''"

definition CREDITED_PAYMENT_STATUSES :: "label list" where
  "CREDITED_PAYMENT_STATUSES =
     [[1079, 1072, 1095, 1080, 1089, 1083, 1077, 1085], [1079, 1072, 1095, 1080, 1089, 1083, 1077, 1085, 1086],
      [1086, 1087, 1083, 1072, 1095, 1077, 1085], [1086, 1087, 1083, 1072, 1095, 1077, 1085, 1086],
      [1087, 1088, 1086, 1074, 1077, 1076, 1077, 1085], [1087, 1088, 1086, 1074, 1077, 1076, 1105, 1085],
      label_of ''paid'', label_of ''credited'']"

definition is_payment_credited :: "label option \<Rightarrow> bool" where
  "is_payment_credited status = (coalesce status [] = [] \<or> map cp_lower (trim_label (coalesce status [])) \<in> set CREDITED_PAYMENT_STATUSES)"

definition parse_billmgr_date :: "(label \<Rightarrow> ms option) \<Rightarrow> label option \<Rightarrow> ms option" where
  "parse_billmgr_date P s = (if coalesce s [] = [] then None else P (the s))"

text \<open>How a pattern with the flag i compares: the Kelvin sign is not a k.\<close>

definition re_fold :: "label \<Rightarrow> label" where "re_fold s = map (\<lambda>n. if n = 8490 then n else cp_lower n) s"

definition re_part :: "string \<Rightarrow> label \<Rightarrow> bool" where "re_part t s = has_part (label_of t) (re_fold s)"

definition text_only :: "wire \<Rightarrow> label option" where "text_only x = (case x of W_text t \<Rightarrow> Some t | _ \<Rightarrow> None)"

definition is_captcha_error :: "wire \<Rightarrow> bool" where
  "is_captcha_error err = (case err of
       W_obj fs \<Rightarrow> (let hay = sep_label (label_of '' '')
             (List.map_filter id [text_only (w_get err ''$type''), text_only (w_get err ''$object''), field_val err ''msg'', field_val err ''detail''])
           in re_part ''captcha'' hay \<or> has_part [1082, 1072, 1087, 1095] (re_fold hay))
     | _ \<Rightarrow> False)"

definition billmgr_error :: "wire \<Rightarrow> label" where
  "billmgr_error err = (case err of
       W_obj fs \<Rightarrow> coalesce (first_some [field_val err ''msg'', field_val err ''detail'',
           (case w_get err ''$object'' of W_null \<Rightarrow> None | v \<Rightarrow> Some (wire_text v))]) (label_of ''error'')
     | W_list xs \<Rightarrow> label_of ''error''
     | _ \<Rightarrow> wire_text err)"

section \<open>billmgr.mapper.ts\<close>

text \<open>Number.parseInt in base 10, below the size where doubles round.\<close>

definition label_number :: "label \<Rightarrow> nat" where "label_number ds = foldl (\<lambda>n d. 10 * n + (d - 48)) 0 ds"

definition parse_int :: "label \<Rightarrow> int option" where
  "parse_int s =
     (let t = dropWhile cp_space s; sign = (if take 1 t = [45] then -1 else 1); r = (if take 1 t = [45] \<or> take 1 t = [43] then tl t else t);
          ds = takeWhile cp_digit r
      in if ds = [] then None else Some (sign * int (label_number ds)))"

definition resolve_period :: "decimal_lib \<Rightarrow> label option \<Rightarrow> label option \<Rightarrow> rat \<Rightarrow> period \<times> rat" where
  "resolve_period D period autoprolong cost =
     (let a = map cp_lower (coalesce autoprolong []) in
      if has_part [1076, 1077, 1085] a then (Daily, cost)
      else if has_part [1095, 1072, 1089] a then (Hourly, cost)
      else if has_part [1087, 1086, 1083, 1075, 1086, 1076, 1072] a then (Monthly, ddiv D cost 6)
      else if has_part [1082, 1074, 1072, 1088, 1090, 1072, 1083] a then (Quarterly, cost)
      else if has_part [1075, 1086, 1076] a \<or> has_part [1083, 1077, 1090] a then (Yearly, cost)
      else if has_part [1084, 1077, 1089, 1103, 1094] a \<or> has_part [1084, 1077, 1089] a then (Monthly, cost)
      else case parse_int (coalesce period []) of None \<Rightarrow> (Monthly, cost)
      | Some m \<Rightarrow> if m = 1 then (Monthly, cost) else if m = 3 then (Quarterly, cost) else if m = 12 then (Yearly, cost)
          else if 0 < m then (Monthly, ddiv D cost (of_int m)) else (Monthly, cost))"

definition read_label :: "(label \<Rightarrow> string) \<Rightarrow> (label \<Rightarrow> rat option) \<Rightarrow> label \<Rightarrow> string + rat" where
  "read_label E Q s = (case Q s of None \<Rightarrow> Inl (decimal_error (E s)) | Some r \<Rightarrow> Inr r)"

text \<open>M keeps an element as meta.\<close>

definition map_billmgr_service :: "decimal_lib \<Rightarrow> (label \<Rightarrow> string) \<Rightarrow> (wire \<Rightarrow> json_obj) \<Rightarrow> (label \<Rightarrow> ms option) \<Rightarrow> (label \<Rightarrow> rat option) \<Rightarrow>
    wire \<Rightarrow> string \<Rightarrow> string + service_data" where
  "map_billmgr_service D E M P Q e type =
     (if e = W_null then Inl ''Cannot read properties of null''
      else let id = coalesce (field_val e ''id'') [] in
      case read_label E Q (coalesce (first_some [field_val e ''item_cost'', opt_number (field_val e ''cost'')]) (label_of ''0'')) of Inl x \<Rightarrow> Inl x
      | Inr c \<Rightarrow>
         (let (period, cost) = resolve_period D (first_some [field_val e ''period'', field_val e ''costperiod'']) (field_val e ''autoprolong'') c in
          Inr \<lparr> sd_external = E id,
            sd_name = coalesce (map_option E (first_some [field_val e ''domain'', field_val e ''intname'', field_val e ''name'', field_val e ''pricelist'']))
              (''service-'' @ E id),
            sd_type = type, sd_country = None, sd_cost = Some cost,
            sd_currency = Some (normalize_currency (field_val e ''currency_str'') ''RUB''), sd_period = Some period,
            sd_next = next_of (first_some [parse_billmgr_date P (field_val e ''expiredate''), parse_billmgr_date P (field_val e ''real_expiredate'')]),
            sd_meta = M e \<rparr>))"

section \<open>Requests (billmgr.connector.ts)\<close>

definition ITEM_FUNCS :: "(label \<times> string) list" where
  "ITEM_FUNCS = [(label_of ''vds'', ''vps''), (label_of ''dedic'', ''dedicated''), (label_of ''vhost'', ''other''),
     (label_of ''domain'', ''domain''), (label_of ''certificate'', ''license'')]"

definition BILLMGR_TWO_FACTOR :: string where
  "BILLMGR_TWO_FACTOR = ''BILLmanager: 2FA is enabled on the account. If it is OTP (Google Authenticator) -- add the TOTP secret '' @
     ''in the provider settings and the sync will confirm the code itself. SMS-2FA cannot be automated -- disable it.''"

definition BILLMGR_TOTP_FAILED :: string where
  "BILLMGR_TOTP_FAILED = ''BILLmanager: failed to confirm login via OTP -- check the TOTP secret (the same one as in your authenticator app) '' @
     ''and the server clock synchronization.''"

definition AUTHINFO_TWO_FACTOR_MESSAGE :: string where
  "AUTHINFO_TWO_FACTOR_MESSAGE = ''BILLmanager: func=auth is CAPTCHA-gated and 2FA cannot be confirmed via stateless authinfo -- '' @
     ''disable 2FA for this account, or ask the hoster to allow API auth for this server IP.''"

definition CF_BLOCKED_MESSAGE :: string where
  "CF_BLOCKED_MESSAGE = ''BILLmanager: the request was blocked by Cloudflare in front of the panel and never reached BILLmanager. '' @
     ''Ask the hoster to allow API access for this server (a WAF skip rule for /billmgr, or an IP allowlist).''"

definition CHALLENGE_BLOCKED_MESSAGE :: string where
  "CHALLENGE_BLOCKED_MESSAGE = ''BILLmanager: an anti-bot check in front of the panel answered with a CAPTCHA page instead of JSON -- '' @
     ''the request never reached BILLmanager. Ask the hoster to allow API access for this server '' @
     ''(a security-check exemption for /billmgr, or an IP allowlist).''"

definition literally :: "string \<Rightarrow> (nat \<Rightarrow> bool) list" where "literally t = map (\<lambda>c n. n = of_char c) t"

definition is_cloudflare_block :: "nat option \<Rightarrow> wire \<Rightarrow> bool" where
  "is_cloudflare_block status body =
     (status \<in> {Some 403, Some 429, Some 503} \<and>
      (case body of W_text t \<Rightarrow> (let s = take 4096 t in
           re_part ''just a moment'' s \<or> re_part ''attention required'' s \<or>
           has_pattern (literally ''error 10'' @ [cp_digit, cp_digit]) (re_fold s) \<or> re_part ''cf-error-details'' s)
       | _ \<Rightarrow> False))"

definition is_challenge_page :: "wire \<Rightarrow> bool" where
  "is_challenge_page body = (case body of W_text t \<Rightarrow> (let s = take 4096 t in
       re_part ''turnstile'' s \<or> re_part ''challenges.cloudflare.com'' s \<or> re_part ''just a moment'' s \<or> re_part ''attention required'' s \<or>
       re_part ''security check'' s \<or>
       has_pattern (literally ''verify you'' @ [\<lambda>n. n \<notin> {10, 13, 8232, 8233}] @ literally ''re human'') (re_fold s) \<or>
       re_part ''ddos-guard'' s \<or> re_part ''ddosguard'' s)
     | _ \<Rightarrow> False)"

datatype bm_auth = Sid label | Authinfo label

datatype bm_request =
    Rq_auth label label
  | Rq_confirm label string
  | Rq_get bm_auth label "(string \<times> string) list"
  | Rq_reset bm_auth string "(string \<times> string) list"

text \<open>A cancelled request, an error that is not one of HTTP, or one with its status, body, Ray ID, func and message.\<close>

datatype bm_failure = Bf_cancelled string | Bf_other string | Bf_http "nat option" wire "string option" "string option" string

definition billmgr_http_error :: "bm_failure \<Rightarrow> string" where
  "billmgr_http_error f = (case f of Bf_cancelled m \<Rightarrow> m | Bf_other m \<Rightarrow> m
     | Bf_http status body ray func m \<Rightarrow>
         if is_cloudflare_block status body then CF_BLOCKED_MESSAGE @ (case ray of None \<Rightarrow> [] | Some r \<Rightarrow> '' (Ray ID '' @ r @ '')'')
         else (let fn = (case func of None \<Rightarrow> [] | Some t \<Rightarrow> '' ('' @ t @ '')'') in
           case status of Some (Suc n) \<Rightarrow> ''BILLmanager'' @ fn @ '': panel returned HTTP '' @ nat_text (Suc n)
           | _ \<Rightarrow> ''BILLmanager'' @ fn @ '': '' @ m))"

text \<open>The vendor at a moment: each request answers with a body and the request id of its headers, or fails.  What it
  answers depends on the requests it has had, the latest first: a session it refuses may be confirmed
  later, or end.  The lists below ask for nothing twice in a run, so that their requests can be
  answered by one function; signing in asks whoami twice, perhaps for one session.\<close>

type_synonym bm_api = "bm_request \<Rightarrow> bm_failure + (wire \<times> string option)"

type_synonym bm_panel = "bm_request list \<Rightarrow> bm_api"

text \<open>The interceptors.\<close>

definition bm_ask :: "bm_api \<Rightarrow> bm_request \<Rightarrow> string + wire" where
  "bm_ask A rq = (case A rq of Inl f \<Rightarrow> Inl (billmgr_http_error f)
     | Inr (data, rid) \<Rightarrow> if is_challenge_page data then Inl (CHALLENGE_BLOCKED_MESSAGE @ (case rid of None \<Rightarrow> [] | Some r \<Rightarrow> '' (request id '' @ r @ '')''))
         else Inr data)"

definition doc_of :: "wire \<Rightarrow> wire" where "doc_of data = w_get data ''doc''"

text \<open>doc.ok !== undefined\<close>

definition has_ok :: "wire \<Rightarrow> bool" where
  "has_ok data = (case doc_of data of W_obj fs \<Rightarrow> map_of fs (label_of ''ok'') \<noteq> None | _ \<Rightarrow> False)"

definition doc_error :: "wire \<Rightarrow> wire option" where
  "doc_error data = (let e = w_get (doc_of data) ''error'' in if w_truthy e then Some e else None)"

definition doc_user :: "wire \<Rightarrow> wire" where "doc_user data = w_get (doc_of data) ''user''"

section \<open>Signing in\<close>

record billmgr_credentials =
  bc_username :: label
  bc_password :: label
  bc_totp :: "string option"

text \<open>The fields authParams and whoamiDoc.\<close>

record bm_session =
  bs_auth :: "bm_auth option"
  bs_whoami :: "wire option"

definition BM_START :: bm_session where "BM_START = \<lparr> bs_auth = None, bs_whoami = None \<rparr>"

definition signed_in :: "bm_auth \<Rightarrow> wire \<Rightarrow> bm_session" where
  "signed_in a data = \<lparr> bs_auth = Some a, bs_whoami = (if data = W_null then None else Some data) \<rparr>"

definition whoami :: "bm_auth \<Rightarrow> bm_request" where "whoami a = Rq_get a (label_of ''whoami'') []"

text \<open>The requests made so far go through the functions; the last component of a result is the error or the value.\<close>

definition authinfo_fallback :: "(label \<Rightarrow> string) \<Rightarrow> billmgr_credentials \<Rightarrow> bm_panel \<Rightarrow> bm_request list \<Rightarrow> bm_session \<Rightarrow>
    bm_session \<times> bm_request list \<times> (string + bm_auth)" where
  "authinfo_fallback E c V h s =
     (let a = Authinfo (bc_username c @ label_of '':'' @ bc_password c); h1 = whoami a # h in
      case bm_ask (V h) (whoami a) of Inl e \<Rightarrow> (s, h1, Inl e)
      | Inr data \<Rightarrow> (case doc_error data of
            Some err \<Rightarrow> (s, h1, Inl (''BILLmanager: func=auth is CAPTCHA-gated and the authinfo fallback failed ('' @ E (billmgr_error err) @
              (case text_only (w_get err ''$object'') of None \<Rightarrow> [] | Some t \<Rightarrow> '' / '' @ E t) @
              '') -- add this server's IP to the API access allowlist in the panel settings (or ask the hoster).''))
          | None \<Rightarrow> if w_truthy (doc_user data) then (signed_in a data, h1, Inr a)
              else if has_ok data then (s, h1, Inl AUTHINFO_TWO_FACTOR_MESSAGE)
              else (s, h1, Inl ''BILLmanager: authinfo fallback returned no user'')))"

definition confirm_totp :: "(label \<Rightarrow> string) \<Rightarrow> bm_api \<Rightarrow> label \<Rightarrow> string \<Rightarrow> string + label" where
  "confirm_totp E A auth code = (case bm_ask A (Rq_confirm auth code) of Inl e \<Rightarrow> Inl e
     | Inr data \<Rightarrow> (case doc_error data of Some err \<Rightarrow> Inl (''BILLmanager: '' @ E (billmgr_error err))
         | None \<Rightarrow> (case w_get (w_get (doc_of data) ''auth'') ''$id'' of W_null \<Rightarrow> Inr auth | v \<Rightarrow> Inr (wire_text v))))"

text \<open>The check of a new session, with its confirmation when it is pending.\<close>

definition check_session :: "(nat list \<Rightarrow> nat list \<Rightarrow> nat list) \<Rightarrow> (label \<Rightarrow> string) \<Rightarrow> billmgr_credentials \<Rightarrow> ms \<Rightarrow> bm_panel \<Rightarrow> bm_request list \<Rightarrow> label \<Rightarrow>
    bm_request list \<times> (string + (label \<times> wire))" where
  "check_session hmac E c now V h i = (let h1 = whoami (Sid i) # h in case bm_ask (V h) (whoami (Sid i)) of Inl e \<Rightarrow> (h1, Inl e)
     | Inr data \<Rightarrow> (case doc_error data of Some err \<Rightarrow> (h1, Inl (''BILLmanager: '' @ E (billmgr_error err)))
         | None \<Rightarrow>
            if w_truthy (doc_user data) \<or> \<not> has_ok data then (h1, Inr (i, data))
            else if \<not> truthy (bc_totp c) then (h1, Inl BILLMGR_TWO_FACTOR)
            else (let code = totp_code hmac (the (bc_totp c)) now; h2 = Rq_confirm i code # h1 in case confirm_totp E (V h1) i code of Inl e \<Rightarrow> (h2, Inl e)
              | Inr sid \<Rightarrow> (whoami (Sid sid) # h2, case bm_ask (V h2) (whoami (Sid sid)) of Inl e \<Rightarrow> Inl e
                  | Inr data \<Rightarrow> (case doc_error data of Some err \<Rightarrow> Inl (''BILLmanager: '' @ E (billmgr_error err))
                      | None \<Rightarrow> if w_truthy (doc_user data) then Inr (sid, data) else Inl BILLMGR_TOTP_FAILED)))))"

definition billmgr_ensure_auth :: "(nat list \<Rightarrow> nat list \<Rightarrow> nat list) \<Rightarrow> (label \<Rightarrow> string) \<Rightarrow> billmgr_credentials \<Rightarrow> ms \<Rightarrow> bm_panel \<Rightarrow> bm_request list \<Rightarrow> bm_session \<Rightarrow>
    bm_session \<times> bm_request list \<times> (string + bm_auth)" where
  "billmgr_ensure_auth hmac E c now V h s = (case bs_auth s of Some a \<Rightarrow> (s, h, Inr a)
     | None \<Rightarrow> (let rq = Rq_auth (bc_username c) (bc_password c); h1 = rq # h in case bm_ask (V h) rq of Inl e \<Rightarrow> (s, h1, Inl e)
         | Inr data \<Rightarrow> (case doc_error data of
               Some err \<Rightarrow> if is_captcha_error err then authinfo_fallback E c V h1 s else (s, h1, Inl (''BILLmanager: '' @ E (billmgr_error err)))
             | None \<Rightarrow>
                (let id = (case w_get (w_get (doc_of data) ''auth'') ''$id'' of W_null \<Rightarrow> w_get (w_get (doc_of data) ''session'') ''$id'' | v \<Rightarrow> v) in
                 if \<not> w_truthy id then (s, h1, Inl (case data of
                     W_text t \<Rightarrow> ''BILLmanager: the panel answered with a web page instead of JSON -- check that the base URL points at the /billmgr endpoint''
                   | _ \<Rightarrow> ''BILLmanager: session was not obtained''))
                 else case check_session hmac E c now V h1 (wire_text id) of (h2, Inl e) \<Rightarrow> (s, h2, Inl e)
                   | (h2, Inr (sid, data)) \<Rightarrow> (signed_in (Sid sid) data, h2, Inr (Sid sid))))))"

section \<open>Lists\<close>

text \<open>A request of a signed-in connector.\<close>

definition billmgr_call :: "(label \<Rightarrow> string) \<Rightarrow> bm_api \<Rightarrow> bm_auth \<Rightarrow> label \<Rightarrow> (string \<times> string) list \<Rightarrow> string + wire" where
  "billmgr_call E A a func extra = (case bm_ask A (Rq_get a func extra) of Inl e \<Rightarrow> Inl e
     | Inr data \<Rightarrow> (case doc_error data of Some err \<Rightarrow> Inl (''BILLmanager ('' @ E func @ ''): '' @ E (billmgr_error err)) | None \<Rightarrow> Inr data))"

definition elems_of :: "wire \<Rightarrow> wire list" where "elems_of data = as_array (w_get (doc_of data) ''elem'')"

definition BILLMGR_PAGE :: nat where "BILLMGR_PAGE = 1000"
definition BILLMGR_MAX_PAGES :: nat where "BILLMGR_MAX_PAGES = 50"

definition last_page :: "(label \<Rightarrow> rat option) \<Rightarrow> wire \<Rightarrow> wire list \<Rightarrow> bool" where
  "last_page N data rows = (length (elems_of data) < BILLMGR_PAGE \<or>
     (case Option.bind (field_val (doc_of data) ''p_elems'') N of Some t \<Rightarrow> t \<le> of_nat (length rows) | None \<Rightarrow> False))"

definition list_all_rows :: "(label \<Rightarrow> string) \<Rightarrow> (label \<Rightarrow> rat option) \<Rightarrow> bm_api \<Rightarrow> bm_auth \<Rightarrow> string \<Rightarrow> string + wire list" where
  "list_all_rows E N A a func =
     page_loop (\<lambda>page. billmgr_call E A a (label_of func) [(''p_cnt'', nat_text BILLMGR_PAGE), (''p_num'', nat_text page)]) elems_of (last_page N)
       BILLMGR_MAX_PAGES 1 []"

text \<open>What a reset changes is on the side of the vendor; its failure is dropped.\<close>

definition EXPENSE_FILTER :: "(string \<times> string) list" where
  "EXPENSE_FILTER = [(''item'', []), (''id'', []), (''locale_name'', []), (''fromdate'', []), (''todate'', []), (''amount'', []),
     (''compare_type'', ''null''), (''notpayd_compare_type'', ''null''), (''notpayd_amount'', [])]"

definition PAYMENT_FILTER :: "(string \<times> string) list" where
  "PAYMENT_FILTER = [(''id'', []), (''number'', []), (''sender'', []), (''sender_id'', []), (''createdate'', ''nodate''), (''createdatestart'', []),
     (''createdateend'', []), (''payfromdate'', []), (''paytodate'', []), (''paymethod'', []), (''status'', []), (''saamount_from'', []),
     (''saamount_to'', []), (''pmamount_from'', []), (''pmamount_to'', []), (''restrictrefund'', ''null'')]"

definition billmgr_account :: "(label \<Rightarrow> string) \<Rightarrow> (label \<Rightarrow> rat option) \<Rightarrow> bm_api \<Rightarrow> bm_session \<Rightarrow> bm_auth \<Rightarrow> string + account_data" where
  "billmgr_account E Q A s a = (case (case bs_whoami s of Some data \<Rightarrow> Inr data | None \<Rightarrow> billmgr_call E A a (label_of ''whoami'') []) of Inl e \<Rightarrow> Inl e
     | Inr data \<Rightarrow> (let u = doc_user data; text = (\<lambda>k. case w_get u k of W_null \<Rightarrow> None | v \<Rightarrow> Some (wire_text v)) in
         case opt_number (text ''$balance'') of
           None \<Rightarrow> Inr \<lparr> ad_balance = None, ad_currency = normalize_currency (text ''$currency'') ''RUB'' \<rparr>
         | Some b \<Rightarrow> (case read_label E Q b of Inl e \<Rightarrow> Inl e
             | Inr r \<Rightarrow> Inr \<lparr> ad_balance = Some r, ad_currency = normalize_currency (text ''$currency'') ''RUB'' \<rparr>)))"

section \<open>Services\<close>

text \<open>One node of the menu group; groups and nodes are objects.\<close>

definition add_item_func :: "(label \<times> string) list \<Rightarrow> wire \<Rightarrow> (label \<times> string) list" where
  "add_item_func funcs node = (case text_only (w_get node ''$action'') of None \<Rightarrow> funcs
     | Some action \<Rightarrow> if action = [] \<or> w_get node ''$type'' \<noteq> W_text (label_of ''list'') \<or> mget funcs action \<noteq> None then funcs
         else (case mget funcs (takeWhile (\<lambda>n. n \<noteq> 46) action) of None \<Rightarrow> funcs
           | Some base \<Rightarrow> if base = [] then funcs else mset_to action base funcs))"

definition discover_item_funcs :: "(label \<Rightarrow> string) \<Rightarrow> bm_api \<Rightarrow> bm_auth \<Rightarrow> (label \<times> string) list" where
  "discover_item_funcs E A a = (case billmgr_call E A a (label_of ''menu'') [] of Inl _ \<Rightarrow> ITEM_FUNCS
     | Inr data \<Rightarrow> foldl (\<lambda>funcs g. if w_get g ''$name'' \<noteq> W_text (label_of ''mainmenuservice'') then funcs
           else foldl add_item_func funcs (as_array (w_get g ''node''))) ITEM_FUNCS (as_array (w_get (w_get (doc_of data) ''mainmenu'') ''node'')))"

definition add_listed :: "service_data list \<Rightarrow> service_data \<Rightarrow> service_data list" where
  "add_listed out svc = (if sd_external svc = [] \<or> sd_external svc \<in> set (map sd_external out) then out else out @ [svc])"

fun add_elems :: "(wire \<Rightarrow> string + service_data) \<Rightarrow> wire list \<Rightarrow> service_data list \<Rightarrow> string + service_data list" where
  "add_elems f [] out = Inr out"
| "add_elems f (e # es) out = (case f e of Inl x \<Rightarrow> Inl x | Inr svc \<Rightarrow> add_elems f es (add_listed out svc))"

fun add_funcs :: "(label \<Rightarrow> string + wire) \<Rightarrow> (string \<Rightarrow> wire \<Rightarrow> string + service_data) \<Rightarrow> (label \<times> string) list \<Rightarrow> service_data list \<Rightarrow> string + service_data list" where
  "add_funcs ask f [] out = Inr out"
| "add_funcs ask f ((func, type) # r) out = (case ask func of Inl _ \<Rightarrow> add_funcs ask f r out
     | Inr data \<Rightarrow> (case add_elems (f type) (elems_of data) out of Inl x \<Rightarrow> Inl x | Inr out' \<Rightarrow> add_funcs ask f r out'))"

definition billmgr_services :: "decimal_lib \<Rightarrow> (label \<Rightarrow> string) \<Rightarrow> (wire \<Rightarrow> json_obj) \<Rightarrow> (label \<Rightarrow> ms option) \<Rightarrow> (label \<Rightarrow> rat option) \<Rightarrow> bm_api \<Rightarrow> bm_auth \<Rightarrow>
    string + service_data list" where
  "billmgr_services D E M P Q A a =
     add_funcs (\<lambda>func. billmgr_call E A a func []) (\<lambda>type e. map_billmgr_service D E M P Q e type) (discover_item_funcs E A a) []"

section \<open>The ledger\<close>

definition add_ledger_row :: "payment_data list \<Rightarrow> payment_data \<Rightarrow> payment_data list" where
  "add_ledger_row out p = (if pd_external p \<in> set (map pd_external out) then out else out @ [p])"

definition billmgr_topup :: "decimal_lib \<Rightarrow> (label \<Rightarrow> string) \<Rightarrow> (label \<Rightarrow> ms option) \<Rightarrow> (label \<Rightarrow> rat option) \<Rightarrow> wire \<Rightarrow> string + payment_data option" where
  "billmgr_topup D E P Q e =
     (let i = field_val e ''id'';
          raw = first_some [field_val e ''paymethodamount_iso'', field_val e ''subaccountamount_iso'', field_val e ''amount''];
          amount = opt_number raw;
          date = parse_billmgr_date P (first_some [field_val e ''pay_date'', field_val e ''create_date'']);
          number = coalesce (field_val e ''number'') [];
          refund = (take 6 (map cp_lower number) = label_of ''return'')
      in if e = W_null then Inl ''Cannot read properties of null''
      else if coalesce i [] = [] \<or> amount = None \<or> date = None then Inr None
      else if \<not> refund \<and> \<not> is_payment_credited (field_val e ''status'') then Inr None
      else case read_label E Q (the amount) of Inl x \<Rightarrow> Inl x
      | Inr r \<Rightarrow> Inr (Some \<lparr> pd_external = ''payment:'' @ E (the i), pd_type = Topup, pd_amount = dmul D r (if refund then -1 else 1),
          pd_currency = amount_currency raw, pd_date = date,
          pd_description = Some (if number = [] then ''Payment'' else ''Payment '' @ E number), pd_service_external = None \<rparr>))"

definition billmgr_expense :: "(label \<Rightarrow> string) \<Rightarrow> (label \<Rightarrow> ms option) \<Rightarrow> (label \<Rightarrow> rat option) \<Rightarrow> wire \<Rightarrow> string + payment_data option" where
  "billmgr_expense E P Q e =
     (let i = field_val e ''id''; amount = opt_number (field_val e ''amount'');
          date = parse_billmgr_date P (first_some [field_val e ''realdate'', field_val e ''realdate_l''])
      in if e = W_null then Inl ''Cannot read properties of null''
      else if coalesce i [] = [] \<or> amount = None \<or> date = None then Inr None
      else case read_label E Q (the amount) of Inl x \<Rightarrow> Inl x
      | Inr r \<Rightarrow> Inr (Some \<lparr> pd_external = ''expense:'' @ E (the i), pd_type = Charge, pd_amount = r, pd_currency = amount_currency (field_val e ''amount''),
          pd_date = date, pd_description = map_option E (first_some [field_val e ''locale_name'', field_val e ''intname'']),
          pd_service_external = map_option E (first_some [field_val e ''main_item'', field_val e ''item'']) \<rparr>))"

text \<open>A row that throws ends its ledger, with the rows before it kept.\<close>

fun add_rows :: "(wire \<Rightarrow> string + payment_data option) \<Rightarrow> wire list \<Rightarrow> payment_data list \<Rightarrow> payment_data list" where
  "add_rows f [] out = out"
| "add_rows f (e # es) out = (case f e of Inl _ \<Rightarrow> out | Inr None \<Rightarrow> add_rows f es out | Inr (Some p) \<Rightarrow> add_rows f es (add_ledger_row out p))"

definition add_ledger :: "(wire \<Rightarrow> string + payment_data option) \<Rightarrow> string + wire list \<Rightarrow> payment_data list \<Rightarrow> payment_data list" where
  "add_ledger f rows out = (case rows of Inl _ \<Rightarrow> out | Inr es \<Rightarrow> add_rows f es out)"

definition billmgr_payments :: "decimal_lib \<Rightarrow> (label \<Rightarrow> string) \<Rightarrow> (label \<Rightarrow> ms option) \<Rightarrow> (label \<Rightarrow> rat option) \<Rightarrow> (label \<Rightarrow> rat option) \<Rightarrow> bm_api \<Rightarrow> bm_auth \<Rightarrow>
    payment_data list" where
  "billmgr_payments D E P Q N A a =
     add_ledger (billmgr_expense E P Q) (list_all_rows E N A a ''expense'')
       (add_ledger (billmgr_topup D E P Q) (list_all_rows E N A a ''payment'') [])"

section \<open>What signing in checks\<close>

lemma check_session_ok:
  assumes "check_session hmac E c now V h i = (h', Inr (sid, data))"
  shows "\<exists>h1. h' = whoami (Sid sid) # h1 \<and> bm_ask (V h1) (whoami (Sid sid)) = Inr data \<and> doc_error data = None \<and>
    (w_truthy (doc_user data) \<or> sid = i \<and> \<not> has_ok data)"
  using assms by (auto simp: check_session_def Let_def split: sum.splits option.splits if_splits)

text \<open>C32. A connector that signs in has seen whoami answer for exactly the session or the credentials it goes on
  to use, as the last of its requests, without an error and, unless the panel never announced a second
  factor, with the user: a session still waiting for its one-time code is never used, also when the
  panel confirms it under the id that it refused before.  The stateless form is used only where the
  panel refused func=auth for its CAPTCHA.\<close>

theorem billmgr_session_checked:
  assumes "billmgr_ensure_auth hmac E c now V h BM_START = (s', h', Inr a)"
  shows "\<exists>h1 data. h' = whoami a # h1 \<and> bm_ask (V h1) (whoami a) = Inr data \<and> doc_error data = None \<and> s' = signed_in a data \<and>
    (w_truthy (doc_user data) \<or> (\<exists>sid. a = Sid sid) \<and> \<not> has_ok data) \<and>
    (\<forall>t. a = Authinfo t \<longrightarrow> (\<exists>d err. bm_ask (V h) (Rq_auth (bc_username c) (bc_password c)) = Inr d \<and> doc_error d = Some err \<and> is_captcha_error err))"
proof -
  let ?rq = "Rq_auth (bc_username c) (bc_password c)"
  obtain d where d: "bm_ask (V h) ?rq = Inr d"
    using assms by (auto simp: billmgr_ensure_auth_def BM_START_def Let_def split: sum.splits)
  show ?thesis
  proof (cases "doc_error d")
    case (Some err)
    then have c: "is_captcha_error err" "authinfo_fallback E c V (?rq # h) BM_START = (s', h', Inr a)"
      using assms d by (auto simp: billmgr_ensure_auth_def BM_START_def Let_def split: if_splits)
    then obtain data where "h' = whoami a # ?rq # h" "bm_ask (V (?rq # h)) (whoami a) = Inr data" "doc_error data = None" "s' = signed_in a data" "w_truthy (doc_user data)"
      by (auto simp: authinfo_fallback_def Let_def split: sum.splits option.splits if_splits)
    note w = this
    show ?thesis using c(1) d Some
      by (intro exI [of _ "?rq # h"] exI [of _ data] conjI w allI impI disjI1 [OF w(5)] exI [of _ d] exI [of _ err])
  next
    case None
    have "\<exists>i sid data. check_session hmac E c now V (?rq # h) i = (h', Inr (sid, data)) \<and> s' = signed_in (Sid sid) data \<and> a = Sid sid"
      using assms d None unfolding billmgr_ensure_auth_def BM_START_def Let_def
      by (simp split: sum.splits if_splits prod.splits) blast
    then obtain i sid data where k: "check_session hmac E c now V (?rq # h) i = (h', Inr (sid, data))" "s' = signed_in (Sid sid) data" "a = Sid sid" by blast
    from check_session_ok [OF k(1)] obtain h1 where "h' = whoami a # h1" "bm_ask (V h1) (whoami a) = Inr data" "doc_error data = None"
      "w_truthy (doc_user data) \<or> sid = i \<and> \<not> has_ok data" unfolding k(3) by blast
    then show ?thesis using k(2,3) by (intro exI [of _ h1] exI [of _ data]) auto
  qed
qed

section \<open>Whole lists\<close>

lemma page_loop_shift: "page_loop ask items stop n (Suc k) out = page_loop (\<lambda>j. ask (Suc j)) items stop n k out"
  by (induction n arbitrary: k out) (auto simp: Let_def split: sum.splits)

text \<open>A ledger that the panel serves in pages of 1000, with or without the total of its rows, is read in full
  and in order up to 50000 rows; of a longer one exactly the first 50000 are read.\<close>

theorem billmgr_list_complete:
  assumes "\<And>j. billmgr_call E A a (label_of func) [(''p_cnt'', nat_text 1000), (''p_num'', nat_text (Suc j))] = Inr (data j)"
    and "\<And>j. elems_of (data j) = slice 1000 j rows"
    and "\<And>j. Option.bind (field_val (doc_of (data j)) ''p_elems'') N \<in> {None, Some (of_nat (length rows))}"
  shows "list_all_rows E N A a func = Inr (take 50000 rows)"
proof -
  let ?ask = "\<lambda>j. billmgr_call E A a (label_of func) [(''p_cnt'', nat_text 1000), (''p_num'', nat_text (Suc j))]"
  have "page_loop ?ask elems_of (last_page N) 50 0 (take (0 * 1000) rows) = Inr (take ((0 + 50) * 1000) rows)"
  proof (rule page_loop_slices [where p = data])
    fix j out
    have t: "t = of_nat (length rows)" if "Option.bind (field_val (doc_of (data j)) ''p_elems'') N = Some t" for t
      using that assms(3) [of j] by auto
    have full: "length (elems_of (data j)) < 1000 \<Longrightarrow> length rows \<le> Suc j * 1000"
      by (simp add: assms(2) slice_def)
    have "length rows \<le> length out \<Longrightarrow> out = take (Suc j * 1000) rows \<Longrightarrow> length rows \<le> Suc j * 1000" by simp
    then show "out = take (Suc j * 1000) rows \<Longrightarrow> last_page N (data j) out \<Longrightarrow> length rows \<le> Suc j * 1000"
      using full t unfolding last_page_def BILLMGR_PAGE_def by (auto split: option.splits simp del: mult_Suc length_take)
    show "length (slice 1000 j rows) < 1000 \<Longrightarrow> last_page N (data j) out" by (simp add: last_page_def BILLMGR_PAGE_def assms(2))
  qed (simp_all add: assms(1,2))
  then show ?thesis
    by (simp add: list_all_rows_def BILLMGR_PAGE_def BILLMGR_MAX_PAGES_def page_loop_shift [where k = 0, simplified])
qed

section \<open>The imported ledger\<close>

lemma add_rows_sound: "distinct (map pd_external out) \<Longrightarrow> distinct (map pd_external (add_rows f es out)) \<and>
    (\<forall>p\<in>set (add_rows f es out). p \<in> set out \<or> (\<exists>e\<in>set es. f e = Inr (Some p)))"
proof (induction es arbitrary: out)
  case (Cons e es)
  have d: "distinct (map pd_external (add_ledger_row out p))" "set (add_ledger_row out p) \<subseteq> insert p (set out)" for p
    using Cons.prems by (auto simp: add_ledger_row_def)
  show ?case
  proof (cases "f e")
    case (Inr r)
    then show ?thesis using Cons.IH [OF Cons.prems] Cons.IH [OF d(1)] Cons.prems d(2) by (cases r) fastforce+
  qed (use Cons.prems in simp)
qed simp

lemma add_rows_complete: "(\<And>e. e \<in> set es \<Longrightarrow> \<exists>r. f e = Inr r) \<Longrightarrow>
    set (map pd_external (add_rows f es out)) = set (map pd_external out) \<union> {pd_external p |p e. e \<in> set es \<and> f e = Inr (Some p)}"
proof (induction es arbitrary: out)
  case (Cons e es)
  have "\<exists>r. f e = Inr r" using Cons.prems by simp
  then obtain r where r: "f e = Inr r" ..
  have k: "set (map pd_external (add_ledger_row out p)) = insert (pd_external p) (set (map pd_external out))" for p
    by (auto simp: add_ledger_row_def)
  show ?case
  proof (cases r)
    case None
    then show ?thesis using r Cons.IH [of out] Cons.prems by auto
  next
    case (Some p)
    have "set (map pd_external (add_rows f es (add_ledger_row out p))) =
        insert (pd_external p) (set (map pd_external out)) \<union> {pd_external p |p e. e \<in> set es \<and> f e = Inr (Some p)}"
      using Cons.IH [of "add_ledger_row out p"] Cons.prems k by simp
    then show ?thesis using r Some by auto
  qed
qed simp

text \<open>C33. The imported ledger holds no row twice, although pages may overlap; each of its payments is a top-up
  that a row of func=payment stands for, credited or a refund, or a charge of a row of func=expense;
  and when no row is broken every row that stands for one is in it, whatever the other list does.\<close>

theorem billmgr_ledger:
  defines "ps \<equiv> \<lambda>D E P Q N A a. billmgr_payments D E P Q N A a"
  shows "distinct (map pd_external (ps D E P Q N A a)) \<and>
    (\<forall>p\<in>set (ps D E P Q N A a).
       (\<exists>es. list_all_rows E N A a ''payment'' = Inr es \<and> (\<exists>e\<in>set es. billmgr_topup D E P Q e = Inr (Some p))) \<or>
       (\<exists>es. list_all_rows E N A a ''expense'' = Inr es \<and> (\<exists>e\<in>set es. billmgr_expense E P Q e = Inr (Some p)))) \<and>
    (\<forall>es. list_all_rows E N A a ''expense'' = Inr es \<and> (\<forall>e\<in>set es. \<exists>r. billmgr_expense E P Q e = Inr r) \<longrightarrow>
       (\<forall>e\<in>set es. \<forall>p. billmgr_expense E P Q e = Inr (Some p) \<longrightarrow> pd_external p \<in> set (map pd_external (ps D E P Q N A a))))"
proof -
  let ?t = "add_ledger (billmgr_topup D E P Q) (list_all_rows E N A a ''payment'') []"
  have t: "distinct (map pd_external ?t) \<and> (\<forall>p\<in>set ?t. \<exists>es. list_all_rows E N A a ''payment'' = Inr es \<and> (\<exists>e\<in>set es. billmgr_topup D E P Q e = Inr (Some p)))"
  proof (cases "list_all_rows E N A a ''payment''")
    case (Inr es)
    then show ?thesis using add_rows_sound [of "[]" "billmgr_topup D E P Q" es] by (simp add: add_ledger_def)
  qed (simp add: add_ledger_def)
  show ?thesis
  proof (cases "list_all_rows E N A a ''expense''")
    case (Inl e)
    then have "ps D E P Q N A a = ?t" by (simp add: ps_def billmgr_payments_def add_ledger_def)
    then show ?thesis using t Inl by simp
  next
    case (Inr es)
    then have e: "ps D E P Q N A a = add_rows (billmgr_expense E P Q) es ?t" by (simp add: ps_def billmgr_payments_def add_ledger_def)
    have s: "distinct (map pd_external (ps D E P Q N A a)) \<and> (\<forall>p\<in>set (ps D E P Q N A a). p \<in> set ?t \<or> (\<exists>e\<in>set es. billmgr_expense E P Q e = Inr (Some p)))"
      unfolding e using add_rows_sound t by blast
    have c: "pd_external p \<in> set (map pd_external (ps D E P Q N A a))"
      if "\<forall>e\<in>set es. \<exists>r. billmgr_expense E P Q e = Inr r" "x \<in> set es" "billmgr_expense E P Q x = Inr (Some p)" for x p
      using that add_rows_complete [of es "billmgr_expense E P Q" ?t] unfolding e by blast
    show ?thesis using s t c Inr by auto
  qed
qed

section \<open>Types that fail, and the words of a period\<close>

lemma add_funcs_failing: "add_funcs ask f fs out = add_funcs ask f (filter (\<lambda>(func, type). \<exists>d. ask func = Inr d) fs) out"
proof (induction fs arbitrary: out)
  case (Cons x fs)
  then show ?case by (cases x; cases "ask (fst x)") (auto split: sum.splits)
qed simp

text \<open>A list of a type that fails, for whatever reason, is left out without an error: the services are those of
  the types that answered, and when the panel is down for all of them the answer is an empty list.\<close>

theorem billmgr_failing_types:
  "billmgr_services D E M P Q A a =
     add_funcs (\<lambda>func. billmgr_call E A a func []) (\<lambda>type e. map_billmgr_service D E M P Q e type)
       (filter (\<lambda>(func, type). \<exists>d. billmgr_call E A a func [] = Inr d) (discover_item_funcs E A a)) [] \<and>
   billmgr_services D E M P Q (\<lambda>rq. Inl f) a = Inr []"
proof
  show "billmgr_services D E M P Q A a =
     add_funcs (\<lambda>func. billmgr_call E A a func []) (\<lambda>type e. map_billmgr_service D E M P Q e type)
       (filter (\<lambda>(func, type). \<exists>d. billmgr_call E A a func [] = Inr d) (discover_item_funcs E A a)) []"
    unfolding billmgr_services_def by (rule add_funcs_failing)
  have "billmgr_call E (\<lambda>rq. Inl f) a func extra = Inl (billmgr_http_error f)" for func extra
    by (simp add: billmgr_call_def bm_ask_def)
  then show "billmgr_services D E M P Q (\<lambda>rq. Inl f) a = Inr []"
    by (simp add: billmgr_services_def discover_item_funcs_def ITEM_FUNCS_def)
qed

text \<open>The word of the period wins over the number of months, also where it counts several: "3 mesyatsa" is a monthly
  price that is not divided, though 3 months without a word are a quarter; and of the words that
  the comment on days names only "den'" is one, "7 dnej" is read as a month.\<close>

theorem billmgr_period_words:
  "resolve_period D (Some (label_of ''3'')) (Some [51, 32, 1084, 1077, 1089, 1103, 1094, 1072]) cost = (Monthly, cost) \<and>
   resolve_period D (Some (label_of ''3'')) None cost = (Quarterly, cost) \<and>
   resolve_period D (Some (label_of ''6'')) None cost = (Monthly, ddiv D cost 6) \<and>
   resolve_period D (Some (label_of ''-50'')) (Some [1044, 1077, 1085, 1100]) cost = (Daily, cost) \<and>
   resolve_period D (Some (label_of ''-50'')) (Some [55, 32, 1076, 1085, 1077, 1081]) cost = (Monthly, cost)"
  by (simp add: resolve_period_def label_of_def parse_int_def cp_lower_def cp_space_def cp_digit_def label_number_def)

lemma number_at_digits: "ds \<noteq> [] \<Longrightarrow> \<forall>d\<in>set ds. cp_digit d \<Longrightarrow> \<not> cp_digit c \<Longrightarrow> c \<noteq> 46 \<Longrightarrow> number_at (ds @ c # r) = Some ds"
proof -
  assume a: "ds \<noteq> []" "\<forall>d\<in>set ds. cp_digit d" "\<not> cp_digit c" "c \<noteq> 46"
  have "take 1 (ds @ c # r) \<noteq> [45]" using a(1,2) by (cases ds) (auto simp: cp_digit_def)
  moreover have "takeWhile cp_digit (ds @ c # r) = ds" "dropWhile cp_digit (ds @ c # r) = c # r"
    using a(2,3) by (simp_all add: takeWhile_append2 dropWhile_append2)
  ultimately show ?thesis using a(1,4) by (simp add: number_at_def Let_def)
qed

text \<open>An amount whose thousands are grouped, or that has a decimal comma, is cut at the separator, while its
  currency is found behind it.\<close>

theorem billmgr_grouped_amount:
  assumes "ds \<noteq> []" "\<forall>d\<in>set ds. cp_digit d" "c = 32 \<or> c = 160 \<or> c = 44"
  shows "first_number (ds @ c # r) = Some ds \<and> amount_currency (Some (ds @ c # r)) = amount_currency (Some r)"
proof -
  have n: "number_at (ds @ c # r) = Some ds"
    by (rule number_at_digits [OF assms(1,2)]) (use assms(3) in \<open>auto simp: cp_digit_def\<close>)
  obtain d ds' where "ds = d # ds'" using assms(1) by (cases ds) auto
  then have "first_number (ds @ c # r) = Some ds" using n by simp
  moreover have "filter (\<lambda>n. \<not> (cp_digit n \<or> n \<in> {46, 44, 43, 45} \<or> cp_space n)) ds = []"
    using assms(2) by (simp add: filter_empty_conv)
  moreover have "cp_space 32" "cp_space 160" by (simp_all add: cp_space_def)
  ultimately show ?thesis using assms(3) by (auto simp: amount_currency_def)
qed

theorem billmgr_grouped_amount_witness:
  "first_number (label_of ''1 234.56 $'') = Some (label_of ''1'')"
  using billmgr_grouped_amount [of "[49]" 32 "label_of ''234.56 $''"] by (simp add: cp_digit_def label_of_def)

section \<open>A panel\<close>

definition w_object :: "(string \<times> wire) list \<Rightarrow> wire" where "w_object fs = W_obj (map (\<lambda>(k, v). (label_of k, v)) fs)"

definition w_scalar :: "string \<Rightarrow> wire" where "w_scalar t = w_object [(''$'', W_text (label_of t))]"

definition sample_expense :: wire where
  "sample_expense = w_object [(''id'', w_scalar ''7''), (''amount'', w_scalar ''5.00 $''), (''realdate'', w_scalar ''2026-06-06'')]"

definition sample_panel :: bm_api where
  "sample_panel rq = Inr (w_object [(''doc'', case rq of
       Rq_auth u p \<Rightarrow> w_object [(''auth'', w_object [(''$id'', W_text (label_of ''s1''))])]
     | Rq_get a func extra \<Rightarrow> if func = label_of ''expense'' then w_object [(''elem'', sample_expense)]
         else if func = label_of ''whoami'' then w_object [(''user'', w_object [])] else w_object []
     | _ \<Rightarrow> w_object [])], None)"

lemma sample_ask: "bm_ask sample_panel rq = Inr (fst (projr (sample_panel rq)))"
  by (simp add: bm_ask_def sample_panel_def is_challenge_page_def w_object_def)

lemmas sample_panel_simps = sample_ask sample_panel_def w_object_def w_scalar_def w_get_def label_of_def doc_of_def doc_error_def doc_user_def
  w_truthy_def coalesce_def

lemma sample_sign_in:
  "\<exists>h'. billmgr_ensure_auth hmac E \<lparr> bc_username = [], bc_password = [], bc_totp = None \<rparr> now (\<lambda>h. sample_panel) [] BM_START =
     (signed_in (Sid (label_of ''s1'')) (fst (projr (sample_panel (whoami (Sid []))))), h', Inr (Sid (label_of ''s1'')))"
  by (simp add: billmgr_ensure_auth_def BM_START_def check_session_def whoami_def sample_panel_simps)

theorem billmgr_session_checked_witness:
  "\<exists>data. bm_ask sample_panel (whoami (Sid (label_of ''s1''))) = Inr data \<and> doc_error data = None"
proof -
  from sample_sign_in [of "\<lambda>k m. k" "\<lambda>l. []" 0] obtain h' where
    "billmgr_ensure_auth (\<lambda>k m. k) (\<lambda>l. []) \<lparr> bc_username = [], bc_password = [], bc_totp = None \<rparr> 0 (\<lambda>h. sample_panel) [] BM_START =
     (signed_in (Sid (label_of ''s1'')) (fst (projr (sample_panel (whoami (Sid []))))), h', Inr (Sid (label_of ''s1'')))" ..
  from billmgr_session_checked [OF this] show ?thesis by blast
qed

text \<open>A panel that confirms a session under the id it has: whoami refuses it before the code and accepts it after.\<close>

definition otp_panel :: bm_panel where
  "otp_panel h rq = Inr (w_object [(''doc'', case rq of
       Rq_auth u p \<Rightarrow> w_object [(''auth'', w_object [(''$id'', W_text (label_of ''s1''))])]
     | Rq_get a func extra \<Rightarrow> if list_ex (\<lambda>r. case r of Rq_confirm i code \<Rightarrow> True | _ \<Rightarrow> False) h then w_object [(''user'', w_object [])]
         else w_object [(''ok'', W_text [])]
     | _ \<Rightarrow> w_object [])], None)"

lemma otp_ask: "bm_ask (otp_panel h) rq = Inr (fst (projr (otp_panel h rq)))"
  by (simp add: bm_ask_def otp_panel_def is_challenge_page_def w_object_def)

lemma otp_sign_in:
  "snd (snd (billmgr_ensure_auth hmac E \<lparr> bc_username = [], bc_password = [], bc_totp = Some ''x'' \<rparr> now otp_panel [] BM_START)) = Inr (Sid (label_of ''s1''))"
  by (simp add: billmgr_ensure_auth_def BM_START_def check_session_def confirm_totp_def whoami_def otp_ask has_ok_def otp_panel_def w_object_def w_get_def
      label_of_def doc_of_def doc_error_def doc_user_def w_truthy_def coalesce_def Let_def)

lemma page_loop_first:
  assumes "ask k = Inr d" "stop d (items d)"
  shows "page_loop ask items stop (Suc n) k [] = Inr (items d)"
  using assms by (simp add: Let_def)

lemma sample_elems:
  "elems_of (fst (projr (sample_panel (Rq_get a (label_of ''expense'') x)))) = [sample_expense]"
  "elems_of (fst (projr (sample_panel (Rq_get a (label_of ''payment'') x)))) = []"
  by (simp_all add: elems_of_def as_array_def sample_panel_simps sample_expense_def)

lemma sample_call: "billmgr_call E sample_panel a (label_of f) x = Inr (fst (projr (sample_panel (Rq_get a (label_of f) x))))"
  by (simp add: billmgr_call_def sample_ask) (simp add: sample_panel_simps)

lemma sample_rows: "list_all_rows E N sample_panel a ''expense'' = Inr [sample_expense]"
  using page_loop_first [of "\<lambda>page. billmgr_call E sample_panel a (label_of ''expense'') [(''p_cnt'', nat_text BILLMGR_PAGE), (''p_num'', nat_text page)]" 1
      "fst (projr (sample_panel (Rq_get a (label_of ''expense'') [(''p_cnt'', nat_text BILLMGR_PAGE), (''p_num'', nat_text 1)])))" "last_page N" elems_of 49]
  by (simp add: sample_call sample_elems last_page_def BILLMGR_PAGE_def list_all_rows_def BILLMGR_MAX_PAGES_def)

theorem billmgr_list_complete_witness:
  "list_all_rows (map char_of) (\<lambda>t. None) sample_panel (Sid []) ''payment'' = Inr []"
  using billmgr_list_complete [of "map char_of" sample_panel "Sid []" "''payment''"
      "\<lambda>j. fst (projr (sample_panel (Rq_get (Sid []) (label_of ''payment'') [(''p_cnt'', nat_text 1000), (''p_num'', nat_text (Suc j))])))" "[]" "\<lambda>t. None"]
  by (simp add: sample_call sample_elems slice_def)

lemma seven: "char_of (55 :: nat) = CHR ''7''"
proof -
  have "of_char (CHR ''7'') = (55 :: nat)" by simp
  then show ?thesis by (metis char_of_char)
qed

lemma sample_expense_row:
  "billmgr_expense (map char_of) (\<lambda>t. Some 0) (\<lambda>t. Some 5) sample_expense = Inr (Some \<lparr> pd_external = ''expense:7'', pd_type = Charge, pd_amount = 5,
     pd_currency = ''USD'', pd_date = Some 0, pd_description = None, pd_service_external = None \<rparr>)"
  by (simp add: billmgr_expense_def sample_expense_def sample_panel_simps field_val_def opt_number_def parse_billmgr_date_def number_at_def
      cp_digit_def Let_def read_label_def amount_currency_def normalize_currency_def trim_label_def iso_label_def cp_space_def currency_key_def
      cp_lower_def CURRENCY_ALIASES_def seven)

theorem billmgr_ledger_witness:
  "''expense:7'' \<in> set (map pd_external (billmgr_payments dec20 (map char_of) (\<lambda>t. Some 0) (\<lambda>t. Some 5) (\<lambda>t. None) sample_panel (Sid [])))"
  using billmgr_ledger [of dec20 "map char_of" "\<lambda>t. Some 0" "\<lambda>t. Some 5" "\<lambda>t. None" sample_panel "Sid []", THEN conjunct2, THEN conjunct2, rule_format, of "[sample_expense]" sample_expense]
  by (simp add: sample_rows sample_expense_row)

end
