(* ===== verification/Registrars.thy ===== *)
theory Registrars
  imports Wire
begin

text \<open>
  The connectors of domain registrars: connectors/porkbun, connectors/spaceship and connectors/cloudflare.
  P is Date.parse.  The lists of Porkbun and Cloudflare have no cap of pages, so that their results are
  None where the loop does not end.
\<close>

section \<open>Porkbun: types and mapper\<close>

record porkbun_domain =
  pb_domain :: string
  pb_status :: "string option"
  pb_tld :: "string option"
  pb_create :: "string option"
  pb_expire :: "string option"
  pb_lock :: "rat option"
  pb_privacy :: "rat option"
  pb_renew :: "rat option"
  pb_notlocal :: "rat option"

record 'a porkbun_reply =
  pr_status :: "string option"
  pr_message :: "string option"
  pr_data :: 'a

definition porkbun_date :: "(string \<Rightarrow> ms option) \<Rightarrow> string option \<Rightarrow> ms option" where
  "porkbun_date P s = (if \<not> truthy s then None else P (replace_first (CHR '' '') ''T'' (the s) @ ''Z''))"

definition porkbun_tld :: "porkbun_domain \<Rightarrow> string" where
  "porkbun_tld d = (let t = or_text (pb_tld d) (join_with ''.'' (tl (split_on (CHR ''.'') (pb_domain d))))
     in to_lower (if starts_with ''.'' t then tl t else t))"

definition is_live_porkbun_domain :: "(string \<Rightarrow> ms option) \<Rightarrow> porkbun_domain \<Rightarrow> ms \<Rightarrow> bool" where
  "is_live_porkbun_domain P d now =
     (if \<not> truthy (pb_status d) \<or> to_upper (the (pb_status d)) = ''ACTIVE'' then True
      else case porkbun_date P (pb_expire d) of None \<Rightarrow> True | Some t \<Rightarrow> now < t)"

definition map_porkbun_domain :: "(string \<Rightarrow> ms option) \<Rightarrow> porkbun_domain \<Rightarrow> (string \<times> rat) list \<Rightarrow> service_data" where
  "map_porkbun_domain P d renewal =
     (let tld = porkbun_tld d in
      \<lparr> sd_external = pb_domain d, sd_name = pb_domain d, sd_type = ''domain'', sd_country = None, sd_cost = mget renewal tld,
        sd_currency = Some ''USD'', sd_period = Some Yearly, sd_next = next_of (porkbun_date P (pb_expire d)),
        sd_meta = [(''tld'', JStr tld)] @ str_field ''status'' (pb_status d) @ json_field ''autoRenew'' (map_option JNum (pb_renew d)) @
          json_field ''securityLock'' (map_option JNum (pb_lock d)) @ json_field ''whoisPrivacy'' (map_option JNum (pb_privacy d)) @
          json_field ''notLocal'' (map_option JNum (pb_notlocal d)) @ str_field ''createDate'' (pb_create d) \<rparr>)"

section \<open>Porkbun: connector\<close>

definition PORKBUN_PAGE :: nat where "PORKBUN_PAGE = 1000"

text \<open>The list is asked for by its start, prices by the TLDs.\<close>

record porkbun_api =
  px_balance :: "string + rat option porkbun_reply"
  px_list :: "nat \<Rightarrow> string + porkbun_domain list option porkbun_reply"
  px_prices :: "string list \<Rightarrow> string + (string \<times> string option) list"
  px_now :: ms

definition porkbun_ok :: "string + 'a porkbun_reply \<Rightarrow> string + 'a" where
  "porkbun_ok r = (case r of Inl e \<Rightarrow> Inl e
     | Inr d \<Rightarrow> if pr_status d = Some ''SUCCESS'' then Inr (pr_data d)
         else Inl (''Porkbun: '' @ or_text (pr_message d) (or_text (pr_status d) ''request failed'')))"

definition porkbun_account :: "decimal_lib \<Rightarrow> porkbun_api \<Rightarrow> string + account_data" where
  "porkbun_account D A = (case porkbun_ok (px_balance A) of Inl e \<Rightarrow> Inl e
     | Inr b \<Rightarrow> Inr \<lparr> ad_balance = Some (ddiv D (coalesce b 0) 100), ad_currency = ''USD'' \<rparr>)"

text \<open>^\d+(\.\d+)?$\<close>

definition plain_decimal :: "string \<Rightarrow> bool" where
  "plain_decimal s = (let rest = dropWhile is_digit s in
     s \<noteq> [] \<and> is_digit (hd s) \<and> (rest = [] \<or> hd rest = CHR ''.'' \<and> tl rest \<noteq> [] \<and> list_all is_digit (tl rest)))"

definition renewal_prices :: "porkbun_api \<Rightarrow> porkbun_domain list \<Rightarrow> (string \<times> rat) list" where
  "renewal_prices A ds =
     (let tlds = foldl add_new [] (filter (\<lambda>t. t \<noteq> []) (map porkbun_tld ds)) in
      if tlds = [] then [] else case px_prices A tlds of Inl _ \<Rightarrow> []
      | Inr ps \<Rightarrow> foldl (\<lambda>m (tld, renewal). case renewal of Some r \<Rightarrow> if plain_decimal r then mset_to (to_lower tld) (read_decimal r) m else m | None \<Rightarrow> m) [] ps)"

definition porkbun_domains :: "porkbun_api \<Rightarrow> (string + porkbun_domain list) option" where
  "porkbun_domains A = endless_loop (\<lambda>page. porkbun_ok (px_list A (page * PORKBUN_PAGE))) (\<lambda>b. coalesce b [])
     (\<lambda>b. length (coalesce b []) < PORKBUN_PAGE) 0 []"

definition porkbun_services :: "(string \<Rightarrow> ms option) \<Rightarrow> porkbun_api \<Rightarrow> (string + service_data list) option" where
  "porkbun_services P A = (case porkbun_domains A of None \<Rightarrow> None | Some (Inl e) \<Rightarrow> Some (Inl e)
     | Some (Inr ds) \<Rightarrow> (let live = filter (\<lambda>d. is_live_porkbun_domain P d (px_now A)) ds; renewal = renewal_prices A live
         in Some (Inr (map (\<lambda>d. map_porkbun_domain P d renewal) live))))"

section \<open>Spaceship\<close>

record spaceship_domain =
  sp_name :: string
  sp_unicode :: "string option"
  sp_premium :: "bool option"
  sp_renew :: "bool option"
  sp_registered :: "string option"
  sp_expires :: "string option"
  sp_lifecycle :: "string option"

definition map_spaceship_domain :: "(string \<Rightarrow> ms option) \<Rightarrow> spaceship_domain \<Rightarrow> service_data" where
  "map_spaceship_domain P d =
     \<lparr> sd_external = sp_name d, sd_name = or_text (sp_unicode d) (sp_name d), sd_type = ''domain'', sd_country = None, sd_cost = None,
       sd_currency = Some ''USD'', sd_period = Some Yearly, sd_next = next_of (parse_date P (sp_expires d)),
       sd_meta = json_field ''autoRenew'' (map_option JBool (sp_renew d)) @ json_field ''isPremium'' (map_option JBool (sp_premium d)) @
         str_field ''lifecycleStatus'' (sp_lifecycle d) @ str_field ''registrationDate'' (sp_registered d) @
         (if truthy (sp_unicode d) \<and> sp_unicode d \<noteq> Some (sp_name d) then [(''punycode'', JStr (sp_name d))] else []) \<rparr>"

definition SPACESHIP_PAGE :: nat where "SPACESHIP_PAGE = 100"
definition SPACESHIP_MAX_PAGES :: nat where "SPACESHIP_MAX_PAGES = 50"

text \<open>A failed request: the detail of its body, where there is one, and its own message.\<close>

type_synonym spaceship_api = "nat \<Rightarrow> nat \<Rightarrow> (string option \<times> string) + spaceship_domain list option"

definition spaceship_ask :: "spaceship_api \<Rightarrow> nat \<Rightarrow> string + spaceship_domain list option" where
  "spaceship_ask A page = (case A SPACESHIP_PAGE (page * SPACESHIP_PAGE) of Inr r \<Rightarrow> Inr r
     | Inl (detail, e) \<Rightarrow> Inl (if truthy detail then ''Spaceship: '' @ the detail else e))"

definition spaceship_account :: "string + account_data" where
  "spaceship_account = Inr \<lparr> ad_balance = None, ad_currency = ''USD'' \<rparr>"

definition spaceship_services :: "(string \<Rightarrow> ms option) \<Rightarrow> spaceship_api \<Rightarrow> string + service_data list" where
  "spaceship_services P A = (case page_loop (spaceship_ask A) (\<lambda>b. coalesce b []) (\<lambda>b out. length (coalesce b []) < SPACESHIP_PAGE) SPACESHIP_MAX_PAGES 0 [] of
       Inl e \<Rightarrow> Inl e | Inr ds \<Rightarrow> Inr (map (map_spaceship_domain P) ds))"

section \<open>Cloudflare\<close>

record cf_domain =
  cd_name :: string
  cd_registrar :: "string option"
  cd_registry :: "string option"
  cd_expires :: "string option"
  cd_renew :: "bool option"
  cd_status :: "string option"

record cf_billing =
  cb_id :: "string option"
  cb_type :: string
  cb_occurred :: "string option"
  cb_amount :: "rat option"
  cb_currency :: "string option"
  cb_receipt :: "string option"

record 'a cf_envelope =
  cv_success :: bool
  cv_result :: "'a list option"
  cv_errors :: "(rat option \<times> string option) list"
  cv_next :: bool
  cv_pages :: "nat option"

text \<open>A failed request: the errors of its body, its status, its own message.\<close>

record cf_failure =
  cx_errors :: "(rat option \<times> string option) list option"
  cx_status :: "nat option"
  cx_message :: string

definition CLOUDFLARE_CURRENCY :: ccy where "CLOUDFLARE_CURRENCY = ''USD''"

definition map_cf_domain :: "(string \<Rightarrow> ms option) \<Rightarrow> cf_domain \<Rightarrow> service_data" where
  "map_cf_domain P d =
     \<lparr> sd_external = cd_name d, sd_name = cd_name d, sd_type = ''domain'', sd_country = None, sd_cost = None,
       sd_currency = Some CLOUDFLARE_CURRENCY, sd_period = Some Yearly,
       sd_next = (if truthy (cd_expires d) then Nb_date (P (the (cd_expires d))) else Nb_undefined),
       sd_meta = str_field ''registrar'' (cd_registrar d) @ str_field ''registry'' (cd_registry d) @
         json_field ''autoRenew'' (map_option JBool (cd_renew d)) @ str_field ''status'' (cd_status d) \<rparr>"

definition map_cf_billing :: "(string \<Rightarrow> ms option) \<Rightarrow> cf_billing \<Rightarrow> payment_data option" where
  "map_cf_billing P b =
     (if \<not> truthy (cb_id b) \<or> cb_amount b = None \<or> \<not> truthy (cb_occurred b) then None
      else if the (cb_amount b) = 0 then None
      else Some \<lparr> pd_external = ''cf:'' @ the (cb_id b), pd_type = (if cb_type b = ''payment'' then Topup else Charge),
        pd_amount = \<bar>the (cb_amount b)\<bar>, pd_currency = normalize_currency (map_option label_of (cb_currency b)) CLOUDFLARE_CURRENCY,
        pd_date = P (the (cb_occurred b)), pd_description = Some (if truthy (cb_receipt b) then ''Invoice '' @ the (cb_receipt b) else cb_type b),
        pd_service_external = None \<rparr>)"

definition cf_error_from_body :: "(rat option \<times> string option) list \<Rightarrow> string" where
  "cf_error_from_body es =
     (let msgs = join_with ''; '' (filter (\<lambda>m. m \<noteq> []) (List.map_filter snd es));
          bad = (\<exists>e\<in>set es. fst e = Some 7003 \<or> fst e = Some 7000)
      in ''Cloudflare: '' @ or_text (Some msgs) ''request failed'' @ (if bad then '' (check the Cloudflare Account ID)'' else []))"

definition cf_error :: "cf_failure \<Rightarrow> string" where
  "cf_error f = (case cx_errors f of Some es \<Rightarrow> cf_error_from_body es
     | None \<Rightarrow> if cx_status f = Some 401 \<or> cx_status f = Some 403
         then ''Cloudflare: invalid token or missing permissions (Registrar: Domains:Read + Billing:Read)'' else cx_message f)"

text \<open>A page is asked for by its number, and the first one without.\<close>

type_synonym 'a cf_list = "nat option \<Rightarrow> cf_failure + 'a cf_envelope"

definition cf_ask :: "'a cf_list \<Rightarrow> nat \<Rightarrow> string + (nat \<times> 'a cf_envelope)" where
  "cf_ask A page = (case A (if 1 < page then Some page else None) of Inl f \<Rightarrow> Inl (cf_error f)
     | Inr d \<Rightarrow> if \<not> cv_success d then Inl (cf_error_from_body (cv_errors d)) else Inr (page, d))"

definition cf_more :: "nat \<times> 'a cf_envelope \<Rightarrow> bool" where
  "cf_more r = (cv_next (snd r) \<or> (case cv_pages (snd r) of Some n \<Rightarrow> fst r < n | None \<Rightarrow> False))"

definition cf_paginate :: "'a cf_list \<Rightarrow> (string + 'a list) option" where
  "cf_paginate A = endless_loop (cf_ask A) (\<lambda>r. coalesce (cv_result (snd r)) []) (\<lambda>r. \<not> cf_more r) 1 []"

definition cloudflare_account :: "string + account_data" where
  "cloudflare_account = Inr \<lparr> ad_balance = None, ad_currency = CLOUDFLARE_CURRENCY \<rparr>"

definition cloudflare_services :: "(string \<Rightarrow> ms option) \<Rightarrow> cf_domain cf_list \<Rightarrow> (string + service_data list) option" where
  "cloudflare_services P A = map_option (\<lambda>r. case r of Inl e \<Rightarrow> Inl e | Inr ds \<Rightarrow> Inr (map (map_cf_domain P) ds)) (cf_paginate A)"

definition cloudflare_payments :: "(string \<Rightarrow> ms option) \<Rightarrow> cf_billing cf_list \<Rightarrow> (string + payment_data list) option" where
  "cloudflare_payments P A = map_option (\<lambda>r. case r of Inl e \<Rightarrow> Inr [] | Inr bs \<Rightarrow> Inr (List.map_filter (map_cf_billing P) bs)) (cf_paginate A)"

section \<open>Lists without a cap\<close>

lemma porkbun_all:
  assumes "\<And>start. porkbun_ok (px_list A start) = Inr (Some (take 1000 (drop start ds)))"
  shows "porkbun_domains A = Some (Inr ds)"
  using endless_slices [of 1000 "\<lambda>page. porkbun_ok (px_list A (page * PORKBUN_PAGE))" "\<lambda>j. Some (slice 1000 j ds)" "\<lambda>b. coalesce b []" ds
      "\<lambda>b. length (coalesce b []) < PORKBUN_PAGE" 0] assms
  by (simp add: porkbun_domains_def slice_def PORKBUN_PAGE_def)

text \<open>The domains of an account, however many, are all imported as yearly domains, apart from those whose status
  is not ACTIVE and whose expiry is over; but an API that kept answering with a full page would keep
  the connector asking without end.\<close>

theorem porkbun_all_domains:
  assumes "\<And>start. porkbun_ok (px_list A start) = Inr (Some (take 1000 (drop start ds)))"
  shows "(\<exists>ss. porkbun_services P A = Some (Inr ss) \<and> map sd_external ss = map pb_domain (filter (\<lambda>d. is_live_porkbun_domain P d (px_now A)) ds) \<and>
      (\<forall>s\<in>set ss. sd_period s = Some Yearly \<and> sd_type s = ''domain'')) \<and>
    porkbun_services P (A \<lparr> px_list := \<lambda>start. Inr \<lparr> pr_status = Some ''SUCCESS'', pr_message = None, pr_data = Some (replicate 1000 d) \<rparr> \<rparr>) = None"
proof
  have m: "map sd_external (map (\<lambda>d. map_porkbun_domain P d r) xs) = map pb_domain xs" for r xs
    by (simp add: map_porkbun_domain_def Let_def)
  show "\<exists>ss. porkbun_services P A = Some (Inr ss) \<and> map sd_external ss = map pb_domain (filter (\<lambda>d. is_live_porkbun_domain P d (px_now A)) ds) \<and>
      (\<forall>s\<in>set ss. sd_period s = Some Yearly \<and> sd_type s = ''domain'')"
    unfolding porkbun_services_def porkbun_all [OF assms] by (simp add: Let_def m) (simp add: map_porkbun_domain_def Let_def)
  have "porkbun_domains (A \<lparr> px_list := \<lambda>start. Inr \<lparr> pr_status = Some ''SUCCESS'', pr_message = None, pr_data = Some (replicate 1000 d) \<rparr> \<rparr>) = None"
    unfolding porkbun_domains_def by (rule endless_runs_on) (simp add: porkbun_ok_def PORKBUN_PAGE_def)
  then show "porkbun_services P (A \<lparr> px_list := \<lambda>start. Inr \<lparr> pr_status = Some ''SUCCESS'', pr_message = None, pr_data = Some (replicate 1000 d) \<rparr> \<rparr>) = None"
    by (simp add: porkbun_services_def)
qed

definition empty_porkbun :: porkbun_api where
  "empty_porkbun = \<lparr> px_balance = Inl ''no'', px_list = (\<lambda>start. Inr \<lparr> pr_status = Some ''SUCCESS'', pr_message = None, pr_data = Some [] \<rparr>),
     px_prices = (\<lambda>t. Inr []), px_now = 0 \<rparr>"

theorem porkbun_all_domains_witness:
  "\<exists>ss. porkbun_services (\<lambda>s. None) empty_porkbun = Some (Inr ss) \<and> map sd_external ss = []"
  using porkbun_all_domains [of empty_porkbun "[]" "\<lambda>s. None"] by (auto simp: porkbun_ok_def empty_porkbun_def)

text \<open>A registrar's account of more than 5000 domains is cut there: the others are not among the services, and
  the answer does not say so.\<close>

theorem spaceship_cut:
  assumes "\<And>size skip. A size skip = Inr (Some (take size (drop skip ds)))"
  shows "spaceship_services P A = Inr (map (map_spaceship_domain P) (take 5000 ds))"
proof -
  have "page_loop (spaceship_ask A) (\<lambda>b. coalesce b []) (\<lambda>b out. length (coalesce b []) < 100) 50 0 (take (0 * 100) ds) = Inr (take ((0 + 50) * 100) ds)"
    by (rule page_loop_slices [where p = "\<lambda>j. Some (slice 100 j ds)"]) (simp_all add: spaceship_ask_def SPACESHIP_PAGE_def slice_def assms)
  then show ?thesis by (simp add: spaceship_services_def SPACESHIP_PAGE_def SPACESHIP_MAX_PAGES_def)
qed

theorem spaceship_cut_witness:
  "spaceship_services (\<lambda>s. None) (\<lambda>size skip. Inr (Some [])) = Inr []"
  using spaceship_cut [of "\<lambda>size skip. Inr (Some [])" "[]" "\<lambda>s. None"] by simp

lemma cf_pages:
  assumes "\<And>k. k < length pages \<Longrightarrow> A (if k = 0 then None else Some (Suc k)) = Inr \<lparr> cv_success = True, cv_result = Some (pages ! k), cv_errors = [], cv_next = False, cv_pages = Some (length pages) \<rparr>"
    and "k < length pages"
  shows "endless_loop (cf_ask A) (\<lambda>r. coalesce (cv_result (snd r)) []) (\<lambda>r. \<not> cf_more r) (Suc k) out = Some (Inr (out @ concat (drop k pages)))"
  using assms(2)
proof (induction "length pages - k" arbitrary: k out)
  case (Suc n)
  have a: "cf_ask A (Suc k) = Inr (Suc k, \<lparr> cv_success = True, cv_result = Some (pages ! k), cv_errors = [], cv_next = False, cv_pages = Some (length pages) \<rparr>)"
    using assms(1) [OF Suc.prems] by (simp add: cf_ask_def split: if_splits)
  have c: "concat (drop k pages) = pages ! k @ concat (drop (Suc k) pages)" using Suc.prems by (metis Cons_nth_drop_Suc concat.simps(2))
  show ?case
  proof (cases "Suc k < length pages")
    case True
    then show ?thesis using Suc.hyps(1) [of "Suc k"] Suc.hyps(2) Suc.prems
      by (subst endless_loop.simps) (simp add: a cf_more_def c)
  next
    case False
    then show ?thesis using Suc.prems by (subst endless_loop.simps) (simp add: a cf_more_def c)
  qed
qed simp

text \<open>The pages that Cloudflare announces are read in their order up to the last one; a record of its billing
  becomes a payment of the absolute amount when it has an id, a date and an amount other than 0.\<close>

theorem cloudflare_billing:
  assumes "\<And>k. k < length pages \<Longrightarrow> A (if k = 0 then None else Some (Suc k)) = Inr \<lparr> cv_success = True, cv_result = Some (pages ! k), cv_errors = [], cv_next = False, cv_pages = Some (length pages) \<rparr>"
    and "pages \<noteq> []"
  shows "\<exists>ps. cloudflare_payments P A = Some (Inr ps) \<and> (\<forall>p\<in>set ps. 0 < pd_amount p) \<and>
    map pd_external ps = map (\<lambda>b. ''cf:'' @ the (cb_id b))
      (filter (\<lambda>b. truthy (cb_id b) \<and> truthy (cb_occurred b) \<and> cb_amount b \<noteq> None \<and> cb_amount b \<noteq> Some 0) (concat pages))"
proof -
  have p: "cf_paginate A = Some (Inr (concat pages))"
    using cf_pages [OF assms(1), where k = 0 and out = "[]"] assms(2) by (simp add: cf_paginate_def)
  have "map pd_external (List.map_filter (map_cf_billing P) bs) = map (\<lambda>b. ''cf:'' @ the (cb_id b))
      (filter (\<lambda>b. truthy (cb_id b) \<and> truthy (cb_occurred b) \<and> cb_amount b \<noteq> None \<and> cb_amount b \<noteq> Some 0) bs)" for bs
    by (induction bs) (auto simp: map_filter_simps map_cf_billing_def)
  moreover have "0 < pd_amount p" if "p \<in> set (List.map_filter (map_cf_billing P) bs)" for p bs
    using that by (auto simp: map_filter_def map_cf_billing_def split: if_splits)
  ultimately show ?thesis by (simp add: cloudflare_payments_def p)
qed

theorem cloudflare_billing_witness:
  "\<exists>ps. cloudflare_payments (\<lambda>s. None) (\<lambda>p. Inr \<lparr> cv_success = True, cv_result = Some [], cv_errors = [], cv_next = False, cv_pages = Some 1 \<rparr>) = Some (Inr ps) \<and>
     map pd_external ps = []"
  using cloudflare_billing [of "[[]]" "\<lambda>p. Inr \<lparr> cv_success = True, cv_result = Some [], cv_errors = [], cv_next = False, cv_pages = Some 1 \<rparr>" "\<lambda>s. None"]
  by auto

end
