(* ===== verification/Openrouter.thy ===== *)
theory Openrouter
  imports Wire Credentials
begin

text \<open>
  connectors/openrouter: the activity of a management key, folded into one service for each model and one
  charge for each row, and the connector with its cached replies.  P is Date.parse, F is toFixed(8), and now
  the clock.  An arrow in a message is >.  The two requests for the catalogue are the list of their answers in the order of arrival.
\<close>

section \<open>openrouter.types.ts\<close>

record or_row =
  oa_date :: "string option"
  oa_model :: "string option"
  oa_provider :: "string option"
  oa_usage :: "rat option"
  oa_requests :: "nat option"

section \<open>openrouter.mapper.ts\<close>

definition OPENROUTER_CURRENCY :: ccy where "OPENROUTER_CURRENCY = ''USD''"

definition openrouter_model_id :: "string \<Rightarrow> string" where "openrouter_model_id model = ''openrouter:model:'' @ model"

text \<open>replace(/^[^:/]+:\s*/, '')\<close>

definition after_colon :: "string \<Rightarrow> string" where
  "after_colon t = (let a = takeWhile (\<lambda>c. c \<noteq> CHR '':'' \<and> c \<noteq> CHR ''/'') t; r = drop (length a) t
     in if a \<noteq> [] \<and> r \<noteq> [] \<and> hd r = CHR '':'' then dropWhile js_space (tl r) else t)"

definition strip_vendor_prefix :: "string \<Rightarrow> string" where
  "strip_vendor_prefix name =
     (let trimmed = trim name; colon = trim (after_colon trimmed);
          author = takeWhile (\<lambda>c. c \<noteq> CHR ''/'') trimmed; slash = trim (drop (Suc (length author)) trimmed)
      in if trimmed = [] then trimmed
         else if colon \<noteq> [] \<and> colon \<noteq> trimmed then colon
         else if author \<noteq> [] \<and> length author < length trimmed \<and> slash \<noteq> [] then slash else trimmed)"

definition vendor_from_model :: "string \<Rightarrow> string option" where
  "vendor_from_model model =
     (let h = hd (split_on (CHR ''/'') model); a = to_lower (trim (if starts_with ''~'' h then tl h else h)) in if a = [] then None else Some a)"

definition format_model_name :: "string \<Rightarrow> (string \<times> string) list \<Rightarrow> bool \<Rightarrow> string" where
  "format_model_name slug nms catalog =
     strip_vendor_prefix (if catalog then or_text (Some (trim (coalesce (mget nms slug) []))) slug else slug)"

record model_agg =
  ma_provider :: "string option"
  ma_requests :: nat
  ma_window :: rat
  ma_month :: rat

definition row_model :: "or_row \<Rightarrow> string" where "row_model r = trim (coalesce (oa_model r) [])"

definition or_day :: "or_row \<Rightarrow> string" where "or_day r = take 10 (coalesce (oa_date r) [])"

definition add_usage :: "decimal_lib \<Rightarrow> string \<Rightarrow> model_agg \<Rightarrow> or_row \<Rightarrow> model_agg" where
  "add_usage D month a r =
     (let u = coalesce (oa_usage r) 0;
          a1 = (if truthy (oa_provider r) then a \<lparr> ma_provider := oa_provider r \<rparr> else a);
          a2 = a1 \<lparr> ma_requests := ma_requests a1 + coalesce (oa_requests r) 0 \<rparr>
      in if 0 < u
         then let a3 = a2 \<lparr> ma_window := dadd D (ma_window a2) u \<rparr>
              in if starts_with month (or_day r) then a3 \<lparr> ma_month := dadd D (ma_month a3) u \<rparr> else a3
         else a2)"

text \<open>A new entry starts with the provider of its row.\<close>

definition fold_row :: "decimal_lib \<Rightarrow> string \<Rightarrow> (string \<times> model_agg) list \<Rightarrow> or_row \<Rightarrow> (string \<times> model_agg) list" where
  "fold_row D month m r =
     (if row_model r = [] then m
      else mbump (row_model r) \<lparr> ma_provider = oa_provider r, ma_requests = 0, ma_window = 0, ma_month = 0 \<rparr> (\<lambda>a. add_usage D month a r) m)"

definition model_service :: "(rat \<Rightarrow> string) \<Rightarrow> (string \<times> string) list \<Rightarrow> bool \<Rightarrow> string \<times> model_agg \<Rightarrow> service_data" where
  "model_service F nms catalog e =
     (let model = fst e; a = snd e; shown_name = format_model_name model nms catalog in
      \<lparr> sd_external = openrouter_model_id model, sd_name = shown_name, sd_type = ''llm'', sd_country = None,
        sd_cost = Some (if 0 < ma_month a then ma_month a else ma_window a), sd_currency = Some OPENROUTER_CURRENCY, sd_period = Some Monthly,
        sd_next = Nb_null,
        sd_meta = [(''model'', JStr model), (''vendor'', case vendor_from_model model of None \<Rightarrow> JNull | Some v \<Rightarrow> JStr v),
          (''displayName'', JStr shown_name), (''providerName'', case ma_provider a of None \<Rightarrow> JNull | Some p \<Rightarrow> JStr p),
          (''requests'', JNum (of_nat (ma_requests a))), (''usageThisMonth'', JStr (F (ma_month a))), (''usageWindow'', JStr (F (ma_window a)))] \<rparr>)"

definition map_model_services :: "decimal_lib \<Rightarrow> (rat \<Rightarrow> string) \<Rightarrow> ms \<Rightarrow> or_row list \<Rightarrow> (string \<times> string) list \<Rightarrow> bool \<Rightarrow> service_data list" where
  "map_model_services D F now rows nms catalog =
     map (model_service F nms catalog) (sort_key (\<lambda>e. - ma_window (snd e))
       (filter (\<lambda>e. 0 < ma_window (snd e) \<or> 0 < ma_requests (snd e)) (foldl (fold_row D (take 7 (iso_day now))) [] rows)))"

definition activity_payment :: "(string \<Rightarrow> ms option) \<Rightarrow> (string \<times> string) list \<Rightarrow> bool \<Rightarrow> or_row \<Rightarrow> payment_data option" where
  "activity_payment P nms catalog r =
     (let model = row_model r; day = or_day r in
      if model = [] \<or> day = [] then None
      else case oa_usage r of None \<Rightarrow> None
      | Some u \<Rightarrow> if u \<le> 0 then None
          else Some \<lparr> pd_external = ''or:'' @ day @ '':'' @ model, pd_type = Charge, pd_amount = u, pd_currency = OPENROUTER_CURRENCY,
            pd_date = P (day @ ''T00:00:00Z''), pd_description = Some (format_model_name model nms catalog),
            pd_service_external = Some (openrouter_model_id model) \<rparr>)"

definition map_activity_payments :: "(string \<Rightarrow> ms option) \<Rightarrow> or_row list \<Rightarrow> (string \<times> string) list \<Rightarrow> bool \<Rightarrow> payment_data list" where
  "map_activity_payments P rows nms catalog = List.map_filter (activity_payment P nms catalog) rows"

section \<open>openrouter.connector.ts\<close>

text \<open>A failed request: the error member as an object with a message or as a text, the message, the status; or another error.\<close>

datatype or_error = Or_object "string option" | Or_text string | Or_absent
datatype or_failure = Or_http or_error "string option" string | Or_other string

definition openrouter_error :: "or_failure \<Rightarrow> string" where
  "openrouter_error f = (case f of Or_other m \<Rightarrow> m
     | Or_http e message status \<Rightarrow>
        (let own = (case e of Or_object m \<Rightarrow> m | Or_text t \<Rightarrow> Some t | Or_absent \<Rightarrow> None);
             msg = (if truthy own then own else message)
         in if truthy msg then ''OpenRouter: '' @ the msg else ''OpenRouter API error (HTTP '' @ status @ '')''))"

record openrouter_api =
  ox_key :: "or_failure + bool option"
  ox_credits :: "or_failure + (rat option \<times> rat option)"
  ox_activity :: "or_failure + or_row list option"
  ox_models :: "(or_failure + (string \<times> string option) list) list"

text \<open>The fields managementOk, cachedActivity and cachedNames; nameOpts is fixed by the credentials.\<close>

record openrouter_state =
  os_ok :: bool
  os_activity :: "or_row list option"
  os_names :: "(string \<times> string) list option"

definition catalog_names :: "openrouter_creds \<Rightarrow> bool" where "catalog_names c = (or_catalog c \<noteq> Some False)"

definition require_management_key :: "openrouter_api \<Rightarrow> openrouter_state \<Rightarrow> openrouter_state \<times> string option" where
  "require_management_key A s =
     (if os_ok s then (s, None)
      else case ox_key A of Inl f \<Rightarrow> (s, Some (openrouter_error f))
      | Inr k \<Rightarrow> if k = Some False
          then (s, Some ''OpenRouter: a Management API key is required (Settings > Management Keys), not a normal API key'')
          else (s \<lparr> os_ok := True \<rparr>, None))"

definition openrouter_activity :: "openrouter_api \<Rightarrow> openrouter_state \<Rightarrow> openrouter_state \<times> (string + or_row list)" where
  "openrouter_activity A s = (case os_activity s of Some rows \<Rightarrow> (s, Inr rows)
     | None \<Rightarrow> (case ox_activity A of Inl f \<Rightarrow> (s, Inl (openrouter_error f))
         | Inr rows \<Rightarrow> (s \<lparr> os_activity := Some (coalesce rows []) \<rparr>, Inr (coalesce rows []))))"

definition add_names :: "(string \<times> string) list \<Rightarrow> or_failure + (string \<times> string option) list \<Rightarrow> (string \<times> string) list" where
  "add_names m r = (case r of Inl _ \<Rightarrow> m
     | Inr ms \<Rightarrow> foldl (\<lambda>m (i, name). if i \<noteq> [] \<and> truthy name then mset_to i (the name) m else m) m ms)"

definition model_names :: "bool \<Rightarrow> openrouter_api \<Rightarrow> openrouter_state \<Rightarrow> openrouter_state \<times> (string \<times> string) list" where
  "model_names catalog A s =
     (if \<not> catalog then (s \<lparr> os_names := Some [] \<rparr>, [])
      else case os_names s of Some m \<Rightarrow> (s, m)
      | None \<Rightarrow> (let m = foldl add_names [] (ox_models A) in (s \<lparr> os_names := Some m \<rparr>, m)))"

definition openrouter_account :: "decimal_lib \<Rightarrow> openrouter_api \<Rightarrow> openrouter_state \<Rightarrow> openrouter_state \<times> (string + account_data)" where
  "openrouter_account D A s = (case require_management_key A s of (s1, Some e) \<Rightarrow> (s1, Inl e)
     | (s1, None) \<Rightarrow> (s1, case ox_credits A of Inl f \<Rightarrow> Inl (openrouter_error f)
         | Inr (credits, usage) \<Rightarrow> Inr \<lparr> ad_balance = Some (dsub D (coalesce credits 0) (coalesce usage 0)), ad_currency = OPENROUTER_CURRENCY \<rparr>))"

text \<open>The part that fetchServices and fetchPayments share.\<close>

definition openrouter_rows :: "bool \<Rightarrow> openrouter_api \<Rightarrow> openrouter_state \<Rightarrow> openrouter_state \<times> (string + or_row list \<times> (string \<times> string) list)" where
  "openrouter_rows catalog A s = (case require_management_key A s of (s1, Some e) \<Rightarrow> (s1, Inl e)
     | (s1, None) \<Rightarrow> (let (s2, rows) = openrouter_activity A s1; (s3, nms) = model_names catalog A s2
         in (s3, case rows of Inl e \<Rightarrow> Inl e | Inr rs \<Rightarrow> Inr (rs, nms))))"

definition openrouter_services :: "decimal_lib \<Rightarrow> (rat \<Rightarrow> string) \<Rightarrow> ms \<Rightarrow> bool \<Rightarrow> openrouter_api \<Rightarrow> openrouter_state \<Rightarrow> openrouter_state \<times> (string + service_data list)" where
  "openrouter_services D F now catalog A s = (case openrouter_rows catalog A s of (s', Inl e) \<Rightarrow> (s', Inl e)
     | (s', Inr (rows, nms)) \<Rightarrow> (s', Inr (map_model_services D F now rows nms catalog)))"

definition openrouter_payments :: "(string \<Rightarrow> ms option) \<Rightarrow> bool \<Rightarrow> openrouter_api \<Rightarrow> openrouter_state \<Rightarrow> openrouter_state \<times> (string + payment_data list)" where
  "openrouter_payments P catalog A s = (case openrouter_rows catalog A s of (s', Inl e) \<Rightarrow> (s', Inl e)
     | (s', Inr (rows, nms)) \<Rightarrow> (s', Inr (map_activity_payments P rows nms catalog)))"

section \<open>A model with two rows on a day\<close>

lemma activity_payment_id:
  "activity_payment P nms c r = Some p \<Longrightarrow> pd_external p = ''or:'' @ or_day r @ '':'' @ row_model r \<and> oa_usage r = Some (pd_amount p) \<and>
     0 < pd_amount p \<and> pd_date p = P (or_day r @ ''T00:00:00Z'') \<and> row_model r \<noteq> []"
  by (auto simp: activity_payment_def Let_def split: option.splits if_splits)

lemma two_rows_service:
  assumes m: "row_model r1 = row_model r2" "or_day r1 = or_day r2" "row_model r2 \<noteq> []" and u: "oa_usage r1 = Some u1" "oa_usage r2 = Some u2"
    and pos: "0 < u1" "0 < u2" "0 < dadd D (dadd D 0 u1) u2"
  shows "\<exists>s. map_model_services D F now [r1, r2] nms c = [s] \<and> sd_external s = openrouter_model_id (row_model r2) \<and>
    sd_cost s = Some (dadd D (dadd D 0 u1) u2)"
proof -
  let ?a0 = "\<lparr> ma_provider = oa_provider r1, ma_requests = 0, ma_window = 0, ma_month = 0 \<rparr>" and ?mm = "take 7 (iso_day now)"
  let ?a = "add_usage D ?mm (add_usage D ?mm ?a0 r1) r2"
  have f: "foldl (fold_row D ?mm) [] [r1, r2] = [(row_model r2, ?a)]"
    using m by (simp add: fold_row_def mbump_def mget_def mset_to_def coalesce_def)
  have w: "ma_window ?a = dadd D (dadd D 0 u1) u2" using u pos by (simp add: add_usage_def Let_def coalesce_def)
  have mo: "ma_month ?a = (if starts_with ?mm (or_day r2) then dadd D (dadd D 0 u1) u2 else 0)"
    using u pos m(2) by (simp add: add_usage_def Let_def coalesce_def)
  have "map_model_services D F now [r1, r2] nms c = [model_service F nms c (row_model r2, ?a)]"
    unfolding map_model_services_def f using w pos(3) by simp
  then show ?thesis using w mo pos(3) by (simp add: model_service_def Let_def)
qed

text \<open>C39. A model that has two rows on one day, one for each provider that served it, gives two charges with one id,
  so that after the import the ledger holds the usage of the second row only, while the model's
  service costs the sum of both.\<close>

theorem openrouter_rows_collide:
  assumes "activity_payment P nms c r1 = Some p1" "activity_payment P nms c r2 = Some p2"
    and "row_model r1 = row_model r2" "or_day r1 = or_day r2" "pd_date p2 = Some t"
    and "0 < dadd D (dadd D 0 (pd_amount p1)) (pd_amount p2)"
  shows "pd_external p1 = pd_external p2 \<and>
    stored (ow_account owner) (pd_external p2) (external_of D (service_by_external d (ow_account owner)) p2 t)
      (fst (upsert_payments D G owner (map_activity_payments P [r1, r2] nms c) d)) \<and>
    (\<exists>s. map_model_services D F now [r1, r2] nms c = [s] \<and> sd_external s = openrouter_model_id (row_model r2) \<and>
       sd_cost s = Some (dadd D (dadd D 0 (pd_amount p1)) (pd_amount p2)))"
proof -
  note i = activity_payment_id [OF assms(1)] activity_payment_id [OF assms(2)]
  have e: "pd_external p1 = pd_external p2" "pd_date p1 = Some t" using i assms(3-5) by simp_all
  have ps: "map_activity_payments P [r1, r2] nms c = [p1, p2]"
    using assms(1,2) by (simp add: map_activity_payments_def map_filter_simps)
  show ?thesis
    using e assms(5) two_rows_service [OF assms(3,4), of "pd_amount p1" "pd_amount p2" D F now nms c] i assms(6)
    by (simp add: ps upsert_payments_def upsert_external_stored external_of_def [symmetric])
qed

definition or_sample :: "string \<Rightarrow> rat \<Rightarrow> or_row" where
  "or_sample pv u = \<lparr> oa_date = Some ''2026-06-01'', oa_model = Some ''a/m'', oa_provider = Some pv, oa_usage = Some u, oa_requests = Some 1 \<rparr>"

lemma or_sample_payment:
  "activity_payment (\<lambda>s. Some 0) [] False (or_sample pv 1) = Some \<lparr> pd_external = ''or:2026-06-01:a/m'', pd_type = Charge, pd_amount = 1,
     pd_currency = ''USD'', pd_date = Some 0, pd_description = Some ''m'', pd_service_external = Some ''openrouter:model:a/m'' \<rparr>"
  by (simp add: activity_payment_def or_sample_def row_model_def or_day_def trim_def trim_end_def js_space_def format_model_name_def
      strip_vendor_prefix_def after_colon_def Let_def OPENROUTER_CURRENCY_def openrouter_model_id_def)

lemma one_and_one: "dadd dec20 (dadd dec20 0 1) 1 = 2"
proof -
  have "dadd dec20 0 1 = 1" using dec20.dadd_money [of 0 1] by (simp add: is_cents_def)
  moreover have "dadd dec20 1 1 = 2" using dec20.dadd_money [of 1 1] by (simp add: is_cents_def)
  ultimately show ?thesis by simp
qed

theorem openrouter_rows_collide_witness:
  "\<exists>x. map_model_services dec20 (\<lambda>r. []) 0 [or_sample ''p'' 1, or_sample ''q'' 1] [] False = [x] \<and> sd_cost x = Some 2"
proof -
  have d: "row_model (or_sample ''p'' 1) = row_model (or_sample ''q'' 1)" "or_day (or_sample ''p'' 1) = or_day (or_sample ''q'' 1)"
    by (simp_all add: or_sample_def row_model_def or_day_def)
  have "\<exists>x. map_model_services dec20 (\<lambda>r. []) 0 [or_sample ''p'' 1, or_sample ''q'' 1] [] False = [x] \<and>
      sd_external x = openrouter_model_id (row_model (or_sample ''q'' 1)) \<and> sd_cost x = Some (dadd dec20 (dadd dec20 0 1) 1)"
    using openrouter_rows_collide [OF or_sample_payment or_sample_payment d, of 0 dec20 sample_owner sample_db longer_id "\<lambda>r. []" 0, THEN conjunct2, THEN conjunct2]
    by (simp only: payment_data.simps one_and_one refl True_implies_equals zero_less_numeral simp_thms)
  then show ?thesis unfolding one_and_one by blast
qed

end
