(* ===== verification/Netangels.thy ===== *)
theory Netangels
  imports Wire "HOL-Library.Monad_Syntax"
begin

text \<open>
  connectors/netangels: the schemas that every reply must satisfy, the mapper, and the connector with its bearer
  token, which is exchanged again after one refusal, its list of machines that must be complete,
  and its monthly ledgers.  A failed request is its HTTP status; negative zero is not told from zero in a number.
\<close>

section \<open>netangels.types.ts\<close>

text \<open>The schemas of the library zod that the file uses: a string, a finite number, a positive integer, a nullable optional text.\<close>

definition z_string :: "json option \<Rightarrow> string option" where
  "z_string j = (case j of Some (JStr s) \<Rightarrow> Some s | _ \<Rightarrow> None)"

definition z_number :: "json option \<Rightarrow> rat option" where
  "z_number j = (case j of Some (JNum r) \<Rightarrow> Some r | _ \<Rightarrow> None)"

definition z_nat :: "nat \<Rightarrow> json option \<Rightarrow> nat option" where
  "z_nat least j = (case z_number j of Some r \<Rightarrow> if of_int \<lfloor>r\<rfloor> = r \<and> of_nat least \<le> r then Some (nat \<lfloor>r\<rfloor>) else None | None \<Rightarrow> None)"

definition z_nullish :: "json option \<Rightarrow> string option option" where
  "z_nullish j = (case j of None \<Rightarrow> Some None | Some JNull \<Rightarrow> Some None | Some (JStr s) \<Rightarrow> Some (Some s) | _ \<Rightarrow> None)"

definition z_min1 :: "json option \<Rightarrow> string option" where
  "z_min1 j = (case z_string j of Some s \<Rightarrow> if s = [] then None else Some s | None \<Rightarrow> None)"

definition z_array :: "(json \<Rightarrow> 'a option) \<Rightarrow> json option \<Rightarrow> 'a list option" where
  "z_array f j = (case j of Some (JArr xs) \<Rightarrow> those (map f xs) | _ \<Rightarrow> None)"

text \<open>A number or a text that matches ^-?\d+(\.\d+)?$.\<close>

definition signed_decimal :: "string \<Rightarrow> bool" where
  "signed_decimal s = (let t = (if starts_with ''-'' s then tl s else s); rest = dropWhile is_digit t in
     t \<noteq> [] \<and> is_digit (hd t) \<and> (rest = [] \<or> hd rest = CHR ''.'' \<and> tl rest \<noteq> [] \<and> list_all is_digit (tl rest)))"

definition money_schema :: "json option \<Rightarrow> js_num option" where
  "money_schema j = (case j of Some (JNum r) \<Rightarrow> Some (Num r) | Some (JStr s) \<Rightarrow> if signed_decimal s then Some (Txt s) else None | _ \<Rightarrow> None)"

record na_vm =
  na_id :: nat
  na_uid :: string
  na_name :: string
  na_tariff :: string
  na_state :: string
  na_main_ip :: "string option"
  na_deleted :: "string option"
  na_disk :: "(rat \<times> bool) option"
  na_ips :: "(string \<times> rat) list option"

record na_price =
  np_vm :: string
  np_month :: js_num
  np_hour :: "js_num option"
  np_packet :: bool

record na_payment =
  npay_id :: nat
  npay_amount :: js_num
  npay_date :: string

definition disk_schema :: "json option \<Rightarrow> (rat \<times> bool) option option" where
  "disk_schema j = (case j of None \<Rightarrow> Some None | Some JNull \<Rightarrow> Some None
     | Some d \<Rightarrow> (case (z_number (json_prop d ''size''), json_prop d ''is_backup_enabled'') of
           (Some n, Some (JBool b)) \<Rightarrow> Some (Some (n, b)) | _ \<Rightarrow> None))"

definition ip_schema :: "json \<Rightarrow> (string \<times> rat) option" where
  "ip_schema j = do { ip \<leftarrow> z_string (json_prop j ''ip''); v \<leftarrow> z_number (json_prop j ''version''); Some (ip, v) }"

definition vm_schema :: "json \<Rightarrow> na_vm option" where
  "vm_schema j = do {
     i \<leftarrow> z_nat 1 (json_prop j ''id''); uid \<leftarrow> z_min1 (json_prop j ''uid''); name \<leftarrow> z_string (json_prop j ''name'');
     tariff \<leftarrow> z_string (json_prop j ''tariff''); state \<leftarrow> z_string (json_prop j ''state'');
     ip \<leftarrow> z_nullish (json_prop j ''main_ip''); gone \<leftarrow> z_nullish (json_prop j ''deleted''); disk \<leftarrow> disk_schema (json_prop j ''disk'');
     ips \<leftarrow> (if json_prop j ''ips'' = None then Some None else map_option Some (z_array ip_schema (json_prop j ''ips'')));
     Some \<lparr> na_id = i, na_uid = uid, na_name = name, na_tariff = tariff, na_state = state, na_main_ip = ip, na_deleted = gone,
       na_disk = disk, na_ips = ips \<rparr> }"

definition page_schema :: "json \<Rightarrow> (nat \<times> na_vm list) option" where
  "page_schema j = do { n \<leftarrow> z_nat 0 (json_prop j ''count''); vms \<leftarrow> z_array vm_schema (json_prop j ''entities''); Some (n, vms) }"

definition optional_money :: "json option \<Rightarrow> js_num option option" where
  "optional_money j = (if j = None then Some None else map_option Some (money_schema j))"

definition price_schema :: "json \<Rightarrow> na_price option" where
  "price_schema j = do {
     vm \<leftarrow> z_min1 (json_prop j ''vm_name''); full \<leftarrow> money_schema (json_prop j ''full_month_price'');
     hour \<leftarrow> optional_money (json_prop j ''full_hour_price''); month \<leftarrow> optional_money (json_prop j ''month_price'');
     Some \<lparr> np_vm = vm, np_month = full, np_hour = hour, np_packet = (json_prop j ''packet'' \<notin> {None, Some JNull}) \<rparr> }"

definition calculation_schema :: "json \<Rightarrow> na_price list option" where
  "calculation_schema j = z_array price_schema (json_prop j ''entities'')"

definition account_schema :: "json \<Rightarrow> js_num option" where "account_schema j = money_schema (json_prop j ''balance'')"

text \<open>^\d{4}-(0[1-9]|1[0-2])$ and ^\d{4}-\d{2}-\d{2}$\<close>

definition month_schema :: "json \<Rightarrow> string option" where
  "month_schema j = (case j of
       JStr s \<Rightarrow> if length s = 7 \<and> (\<forall>i\<in>{0,1,2,3}. is_digit (s ! i)) \<and> s ! 4 = CHR ''-'' \<and>
           (s ! 5 = CHR ''0'' \<and> is_digit (s ! 6) \<and> s ! 6 \<noteq> CHR ''0'' \<or> s ! 5 = CHR ''1'' \<and> s ! 6 \<in> {CHR ''0'', CHR ''1'', CHR ''2''})
         then Some s else None
     | _ \<Rightarrow> None)"

definition months_schema :: "json \<Rightarrow> string list option" where
  "months_schema j = do { ms \<leftarrow> z_array month_schema (json_prop j ''entities''); if length ms \<le> 240 then Some ms else None }"

definition payment_schema :: "json \<Rightarrow> na_payment option" where
  "payment_schema j = do {
     i \<leftarrow> z_nat 1 (json_prop j ''id''); amount \<leftarrow> money_schema (json_prop j ''amount''); date \<leftarrow> z_string (json_prop j ''event_date'');
     if day_prefix date = Some date then Some \<lparr> npay_id = i, npay_amount = amount, npay_date = date \<rparr> else None }"

definition payments_schema :: "json \<Rightarrow> na_payment list option" where
  "payments_schema j = z_array payment_schema (json_prop j ''payments'')"

section \<open>netangels.mapper.ts\<close>

definition money_value :: "js_num \<Rightarrow> rat" where "money_value m = (case m of Num r \<Rightarrow> r | Txt s \<Rightarrow> read_decimal s)"

definition money_negative :: "js_num \<Rightarrow> bool" where "money_negative m = (case m of Num r \<Rightarrow> r < 0 | Txt s \<Rightarrow> starts_with ''-'' s)"

definition money_json :: "js_num \<Rightarrow> json" where "money_json m = (case m of Num r \<Rightarrow> JNum r | Txt s \<Rightarrow> JStr s)"

definition map_netangels_vm :: "decimal_lib \<Rightarrow> na_vm \<Rightarrow> na_price \<Rightarrow> string + service_data" where
  "map_netangels_vm D vm price =
     (let cost = money_value (np_month price) in
      if money_negative (np_month price) then Inl ''NetAngels: invalid VM price''
      else Inr \<lparr> sd_external = nat_text (na_id vm), sd_name = or_text (Some (na_name vm)) (na_uid vm), sd_type = ''vps'', sd_country = Some ''RU'',
        sd_cost = Some cost, sd_currency = Some ''RUB'', sd_period = Some Monthly, sd_next = Nb_null,
        sd_meta = [(''uid'', JStr (na_uid vm)), (''tariff'', JStr (na_tariff vm)), (''state'', JStr (na_state vm)),
            (''mainIp'', case na_main_ip vm of None \<Rightarrow> JNull | Some ip \<Rightarrow> JStr ip)] @
          json_field ''diskSize'' (map_option (\<lambda>d. JNum (fst d)) (na_disk vm)) @
          json_field ''backupEnabled'' (map_option (\<lambda>d. JBool (snd d)) (na_disk vm)) @
          json_field ''ips'' (map_option (\<lambda>ips. JArr (map (\<lambda>(ip, v). JObj [(''ip'', JStr ip), (''version'', JNum v)]) ips)) (na_ips vm)) @
          [(''_tariff'', JObj ([(''priceMonthly'', JStr (cent_text D cost))] @ json_field ''priceHourly'' (map_option money_json (np_hour price)) @
             [(''source'', JStr ''cloud/vms/calculation''), (''hoursPerMonth'', JNum 720), (''prepaidPacket'', JBool (np_packet price))]))] \<rparr>)"

definition map_netangels_payment :: "na_payment \<Rightarrow> string + payment_data" where
  "map_netangels_payment p = (case parse_day (npay_date p) of
       None \<Rightarrow> Inl ''NetAngels: invalid payment date''
     | Some t \<Rightarrow> if iso_day t \<noteq> npay_date p then Inl ''NetAngels: invalid payment date''
         else Inr \<lparr> pd_external = ''payment:'' @ nat_text (npay_id p), pd_type = Topup, pd_amount = money_value (npay_amount p), pd_currency = ''RUB'',
           pd_date = Some t, pd_description = Some ''NetAngels account payment'', pd_service_external = None \<rparr>)"

section \<open>netangels.connector.ts\<close>

definition NETANGELS_PAGE :: nat where "NETANGELS_PAGE = 100"
definition NETANGELS_MAX_PAGES :: nat where "NETANGELS_MAX_PAGES = 100"

text \<open>The vendor: the n-th exchange of the key, and a request by token, path and offset.\<close>

record na_api =
  nx_token :: "nat \<Rightarrow> nat option + json"
  nx_get :: "string \<Rightarrow> string \<Rightarrow> nat option \<Rightarrow> nat option + json"

text \<open>The field bearer, and how often the key was exchanged.\<close>

record na_session =
  ns_bearer :: "string option"
  ns_logins :: nat

definition safe_error :: "nat option \<Rightarrow> string \<Rightarrow> string" where
  "safe_error status operation = ''NetAngels: '' @ operation @ '' failed'' @
     (case status of Some (Suc n) \<Rightarrow> '' (HTTP '' @ nat_text (Suc n) @ '')'' | _ \<Rightarrow> [])"

definition na_authenticate :: "na_api \<Rightarrow> na_session \<Rightarrow> na_session \<times> (string + string)" where
  "na_authenticate A s =
     (if truthy (ns_bearer s) then (s, Inr (the (ns_bearer s)))
      else let s1 = s \<lparr> ns_logins := Suc (ns_logins s) \<rparr> in
        case nx_token A (ns_logins s) of Inl st \<Rightarrow> (s1, Inl (safe_error st ''authentication''))
        | Inr data \<Rightarrow> (case z_min1 (json_prop data ''token'') of None \<Rightarrow> (s1, Inl (safe_error None ''authentication''))
            | Some t \<Rightarrow> (s1 \<lparr> ns_bearer := Some t \<rparr>, Inr t)))"

fun na_attempts :: "nat \<Rightarrow> na_api \<Rightarrow> string \<Rightarrow> nat option \<Rightarrow> na_session \<Rightarrow> na_session \<times> (string + json)" where
  "na_attempts 0 A path offset s = (s, Inl ''NetAngels: authentication retry exhausted'')"
| "na_attempts (Suc n) A path offset s = (case na_authenticate A s of (s1, Inl e) \<Rightarrow> (s1, Inl e)
     | (s1, Inr token) \<Rightarrow> (case nx_get A token path offset of Inr data \<Rightarrow> (s1, Inr data)
         | Inl st \<Rightarrow> if n = 1 \<and> st = Some 401 then na_attempts n A path offset (s1 \<lparr> ns_bearer := None \<rparr>)
             else (s1, Inl (safe_error st ''API request''))))"

definition na_get :: "na_api \<Rightarrow> string \<Rightarrow> nat option \<Rightarrow> na_session \<Rightarrow> na_session \<times> (string + json)" where
  "na_get A path offset s = na_attempts 2 A path offset s"

text \<open>A reply that must satisfy its schema.\<close>

definition na_parsed :: "(json \<Rightarrow> 'a option) \<Rightarrow> string \<Rightarrow> na_session \<times> (string + json) \<Rightarrow> na_session \<times> (string + 'a)" where
  "na_parsed f e r = (fst r, case snd r of Inl x \<Rightarrow> Inl x | Inr j \<Rightarrow> (case f j of None \<Rightarrow> Inl (''NetAngels: '' @ e) | Some a \<Rightarrow> Inr a))"

definition netangels_account :: "na_api \<Rightarrow> na_session \<Rightarrow> na_session \<times> (string + account_data)" where
  "netangels_account A s = (case na_parsed account_schema ''invalid account response'' (na_get A ''/account/info/'' None s) of
       (s1, Inl e) \<Rightarrow> (s1, Inl e) | (s1, Inr m) \<Rightarrow> (s1, Inr \<lparr> ad_balance = Some (money_value m), ad_currency = ''RUB'' \<rparr>))"

definition month_rows :: "string \<Rightarrow> na_payment list \<Rightarrow> payment_data list \<Rightarrow> string + payment_data list" where
  "month_rows month rows out = foldl (\<lambda>r row. case r of Inl e \<Rightarrow> Inl e
     | Inr acc \<Rightarrow> (case map_netangels_payment row of Inl e \<Rightarrow> Inl e
         | Inr p \<Rightarrow> if \<not> starts_with (month @ ''-'') (npay_date row) then Inl ''NetAngels: payment month mismatch''
             else if pd_external p \<in> set (map pd_external acc) then Inl ''NetAngels: duplicate payment in ledger''
             else Inr (acc @ [p]))) (Inr out) rows"

fun na_months :: "na_api \<Rightarrow> string list \<Rightarrow> payment_data list \<Rightarrow> na_session \<Rightarrow> na_session \<times> (string + payment_data list)" where
  "na_months A [] out s = (s, Inr out)"
| "na_months A (m # ms) out s =
     (case na_parsed payments_schema ''invalid payments response'' (na_get A (''/finances/payments/'' @ m @ ''-01/'') None s) of
        (s1, Inl e) \<Rightarrow> (s1, Inl e)
      | (s1, Inr rows) \<Rightarrow> (case month_rows m rows out of Inl e \<Rightarrow> (s1, Inl e) | Inr out' \<Rightarrow> na_months A ms out' s1))"

definition netangels_payments :: "na_api \<Rightarrow> na_session \<Rightarrow> na_session \<times> (string + payment_data list)" where
  "netangels_payments A s =
     (case na_parsed months_schema ''invalid payment months response'' (na_get A ''/finances/payments/months/'' None s) of
        (s1, Inl e) \<Rightarrow> (s1, Inl e) | (s1, Inr ms) \<Rightarrow> na_months A (foldl add_new [] ms) [] s1)"

text \<open>The pages of the list, with the machines read so far.\<close>

fun na_pages :: "nat \<Rightarrow> na_api \<Rightarrow> na_vm list \<Rightarrow> na_session \<Rightarrow> na_session \<times> (string + na_vm list)" where
  "na_pages 0 A vms s = (s, Inl ''NetAngels: VM pagination limit exceeded'')"
| "na_pages (Suc n) A vms s =
     (case na_parsed page_schema ''invalid VM list response'' (na_get A ''/cloud/vms/'' (Some (length vms)) s) of
        (s1, Inl e) \<Rightarrow> (s1, Inl e)
      | (s1, Inr (announced, entities)) \<Rightarrow>
          (let vms' = vms @ entities in
           if \<not> distinct (map na_id vms') then (s1, Inl ''NetAngels: duplicate VM in pagination'')
           else if length vms' = announced then (s1, Inr vms')
           else if entities = [] \<or> announced < length vms' then (s1, Inl ''NetAngels: incomplete VM list'')
           else na_pages n A vms' s1))"

definition priced_vm :: "decimal_lib \<Rightarrow> na_price list \<Rightarrow> na_vm \<Rightarrow> string + service_data" where
  "priced_vm D prices vm = (case map_of (map (\<lambda>p. (np_vm p, p)) prices) (na_uid vm) of
       None \<Rightarrow> Inl ''NetAngels: VM missing from calculation'' | Some p \<Rightarrow> map_netangels_vm D vm p)"

definition netangels_services :: "decimal_lib \<Rightarrow> na_api \<Rightarrow> na_session \<Rightarrow> na_session \<times> (string + service_data list)" where
  "netangels_services D A s = (case na_pages NETANGELS_MAX_PAGES A [] s of (s1, Inl e) \<Rightarrow> (s1, Inl e)
     | (s1, Inr vms) \<Rightarrow>
        (let existing = filter (\<lambda>vm. \<not> truthy (na_deleted vm)) vms in
         if existing = [] then (s1, Inr [])
         else case na_parsed calculation_schema ''invalid calculation response'' (na_get A ''/cloud/vms/calculation/'' None s1) of
            (s2, Inl e) \<Rightarrow> (s2, Inl e)
          | (s2, Inr prices) \<Rightarrow> (s2, if \<not> distinct (map np_vm prices) then Inl ''NetAngels: duplicate calculation''
              else map_all (priced_vm D prices) existing)))"

section \<open>No partial list\<close>

text \<open>The pages that were read one after the other, each with the number it announced and its machines: every
  request has the number of machines read before it as its offset and goes on with the session that the
  one before left.\<close>

fun pages_read :: "na_api \<Rightarrow> nat \<Rightarrow> na_session \<Rightarrow> (nat \<times> na_vm list) list \<Rightarrow> na_session \<Rightarrow> bool" where
  "pages_read A off s [] s' = (s = s')"
| "pages_read A off s ((k, es) # ps) s' =
     (\<exists>s1. na_parsed page_schema ''invalid VM list response'' (na_get A ''/cloud/vms/'' (Some off) s) = (s1, Inr (k, es)) \<and>
        pages_read A (off + length es) s1 ps s')"

lemma na_pages_read:
  "na_pages n A vms s = (s', Inr vms') \<Longrightarrow> \<exists>ps. pages_read A (length vms) s ps s' \<and> vms' = vms @ concat (map snd ps) \<and>
     ps \<noteq> [] \<and> length ps \<le> n \<and> fst (last ps) = length vms' \<and> distinct (map na_id vms')"
proof (induction n arbitrary: vms s)
  case (Suc n)
  obtain s1 r where g: "na_parsed page_schema ''invalid VM list response'' (na_get A ''/cloud/vms/'' (Some (length vms)) s) = (s1, r)"
    by (cases "na_parsed page_schema ''invalid VM list response'' (na_get A ''/cloud/vms/'' (Some (length vms)) s)")
  then obtain k es where r: "r = Inr (k, es)" using Suc.prems by (cases r) auto
  show ?case
  proof (cases "distinct (map na_id (vms @ es)) \<and> length (vms @ es) = k")
    case True
    then have v: "vms' = vms @ es" "s' = s1" using Suc.prems g r by (simp_all add: Let_def)
    then have "pages_read A (length vms) s [(k, es)] s'" using g r by simp
    then show ?thesis using v True by (intro exI [of _ "[(k, es)]"]) simp
  next
    case False
    then have "na_pages n A (vms @ es) s1 = (s', Inr vms')"
      using Suc.prems g r by (simp add: Let_def split: if_splits)
    from Suc.IH [OF this] obtain ps where ps: "pages_read A (length (vms @ es)) s1 ps s'" "vms' = (vms @ es) @ concat (map snd ps)"
      "ps \<noteq> []" "length ps \<le> n" "fst (last ps) = length vms'" "distinct (map na_id vms')" by blast
    have "pages_read A (length vms) s ((k, es) # ps) s'" using ps(1) g r by simp
    then show ?thesis using ps(2-6) by (intro exI [of _ "(k, es) # ps"]) simp
  qed
qed simp

text \<open>The price that belongs to a machine, and the service that it gives.\<close>

definition priced_by :: "na_price list \<Rightarrow> na_vm \<Rightarrow> service_data \<Rightarrow> bool" where
  "priced_by prices vm x = (\<exists>p\<in>set prices. np_vm p = na_uid vm \<and> \<not> money_negative (np_month p) \<and>
     sd_external x = nat_text (na_id vm) \<and> sd_cost x = Some (money_value (np_month p)) \<and> sd_period x = Some Monthly)"

lemma vm_fields: "map_netangels_vm D x p = Inr y \<Longrightarrow> sd_external y = nat_text (na_id x) \<and> sd_cost y = Some (money_value (np_month p)) \<and>
    \<not> money_negative (np_month p) \<and> sd_period y = Some Monthly"
  unfolding map_netangels_vm_def Let_def by (simp split: if_splits) (hypsubst, simp)

lemma priced_vm_by: "priced_vm D prices vm = Inr x \<Longrightarrow> priced_by prices vm x"
proof -
  assume a: "priced_vm D prices vm = Inr x"
  then obtain p where p: "map_of (map (\<lambda>p. (np_vm p, p)) prices) (na_uid vm) = Some p" "map_netangels_vm D vm p = Inr x"
    by (auto simp: priced_vm_def split: option.splits)
  have "p \<in> set prices \<and> np_vm p = na_uid vm" using map_of_SomeD [OF p(1)] by auto
  then show ?thesis unfolding priced_by_def using vm_fields [OF p(2)] by blast
qed

lemma services_priced:
  assumes "netangels_services D A s = (s', Inr ss)" "na_pages NETANGELS_MAX_PAGES A [] s = (s1, Inr vms)"
    and e: "filter (\<lambda>vm. \<not> truthy (na_deleted vm)) vms \<noteq> []"
  shows "\<exists>prices. na_parsed calculation_schema ''invalid calculation response'' (na_get A ''/cloud/vms/calculation/'' None s1) = (s', Inr prices) \<and>
    distinct (map np_vm prices) \<and> list_all2 (priced_by prices) (filter (\<lambda>vm. \<not> truthy (na_deleted vm)) vms) ss"
proof -
  obtain s2 r where g: "na_parsed calculation_schema ''invalid calculation response'' (na_get A ''/cloud/vms/calculation/'' None s1) = (s2, r)"
    by (cases "na_parsed calculation_schema ''invalid calculation response'' (na_get A ''/cloud/vms/calculation/'' None s1)")
  then obtain prices where r: "r = Inr prices" "distinct (map np_vm prices)" "s2 = s'"
      "map_all (priced_vm D prices) (filter (\<lambda>vm. \<not> truthy (na_deleted vm)) vms) = Inr ss"
    using assms by (cases r) (auto simp: netangels_services_def Let_def simp del: filter_empty_conv split: if_splits)
  have "list_all2 (priced_by prices) (filter (\<lambda>vm. \<not> truthy (na_deleted vm)) vms) ss"
    by (rule list_all2_mono [OF map_all_Inr [OF r(4)]]) (rule priced_vm_by)
  then show ?thesis using g r(1-3) by blast
qed

text \<open>C34. The list of machines is never partial.  When the connector answers, its services are those of the pages
  it read and of nothing else: the pages were read one after the other, each from where the one before
  ended; together they hold as many machines as the last of them announced, none twice; and the services
  are, one by one and in order, the machines of these pages that are not deleted, each with the full
  monthly price that one calculation, asked for after the pages, has for it.  Anything else is an error.\<close>

theorem netangels_complete:
  assumes "netangels_services D A s = (s', Inr ss)"
  shows "\<exists>ps s1. let vms = concat (map snd ps); existing = filter (\<lambda>vm. \<not> truthy (na_deleted vm)) vms in
    pages_read A 0 s ps s1 \<and> ps \<noteq> [] \<and> length ps \<le> 100 \<and> fst (last ps) = length vms \<and> distinct (map na_id vms) \<and>
    (if existing = [] then ss = [] else \<exists>prices.
       na_parsed calculation_schema ''invalid calculation response'' (na_get A ''/cloud/vms/calculation/'' None s1) = (s', Inr prices) \<and>
       distinct (map np_vm prices) \<and> list_all2 (priced_by prices) existing ss)"
proof -
  obtain s1 vms where v: "na_pages NETANGELS_MAX_PAGES A [] s = (s1, Inr vms)"
    using assms by (auto simp: netangels_services_def split: prod.splits sum.splits)
  from na_pages_read [OF this] obtain ps where ps: "pages_read A 0 s ps s1" "vms = concat (map snd ps)" "ps \<noteq> []"
    "length ps \<le> 100" "fst (last ps) = length vms" "distinct (map na_id vms)" by (auto simp: NETANGELS_MAX_PAGES_def)
  have "ss = []" if "filter (\<lambda>vm. \<not> truthy (na_deleted vm)) vms = []"
    using that assms v by (simp add: netangels_services_def Let_def)
  then show ?thesis using ps services_priced [OF assms v] unfolding Let_def by (intro exI [of _ ps] exI [of _ s1]) auto
qed

definition na_sample :: na_api where
  "na_sample = \<lparr> nx_token = (\<lambda>n. Inr (JObj [(''token'', JStr ''t'')])),
     nx_get = (\<lambda>t p off. Inr (if p = ''/cloud/vms/''
       then JObj [(''count'', JNum 1), (''entities'', JArr [JObj [(''id'', JNum 7), (''uid'', JStr ''u''), (''name'', JStr []), (''tariff'', JStr ''t''),
         (''state'', JStr ''on'')]])]
       else JObj [(''entities'', JArr [JObj [(''vm_name'', JStr ''u''), (''full_month_price'', JNum 300)]])])) \<rparr>"

definition na_start :: na_session where "na_start = \<lparr> ns_bearer = None, ns_logins = 0 \<rparr>"
definition na_signed :: na_session where "na_signed = \<lparr> ns_bearer = Some ''t'', ns_logins = 1 \<rparr>"

definition na_sample_vm :: na_vm where
  "na_sample_vm = \<lparr> na_id = 7, na_uid = ''u'', na_name = [], na_tariff = ''t'', na_state = ''on'', na_main_ip = None, na_deleted = None,
     na_disk = None, na_ips = None \<rparr>"

lemma na_sample_page: "na_pages (Suc n) na_sample [] na_start = (na_signed, Inr [na_sample_vm])"
  by (simp add: na_parsed_def na_get_def numeral_2_eq_2 na_authenticate_def na_sample_def na_start_def na_signed_def na_sample_vm_def json_prop_def
      z_min1_def z_string_def page_schema_def z_nat_def z_number_def z_array_def vm_schema_def z_nullish_def disk_schema_def Let_def)

lemma na_sample_prices: "na_parsed calculation_schema e (na_get na_sample ''/cloud/vms/calculation/'' None na_signed) =
    (na_signed, Inr [\<lparr> np_vm = ''u'', np_month = Num 300, np_hour = None, np_packet = False \<rparr>])"
  by (simp add: na_parsed_def na_get_def numeral_2_eq_2 na_authenticate_def na_sample_def na_signed_def json_prop_def z_min1_def z_string_def
      calculation_schema_def price_schema_def z_array_def money_schema_def optional_money_def)

lemma na_sample_run: "\<exists>x. netangels_services dec20 na_sample na_start = (na_signed, Inr [x])"
proof -
  have "na_pages NETANGELS_MAX_PAGES na_sample [] na_start = (na_signed, Inr [na_sample_vm])"
    using na_sample_page [of 99] by (simp add: NETANGELS_MAX_PAGES_def)
  then show ?thesis
    by (simp add: netangels_services_def na_sample_prices Let_def na_sample_vm_def priced_vm_def map_netangels_vm_def money_negative_def)
qed

theorem netangels_complete_witness:
  "\<exists>x. netangels_services dec20 na_sample na_start = (na_signed, Inr [x]) \<and>
     (\<exists>ps s1. pages_read na_sample 0 na_start ps s1 \<and> fst (last ps) = length (concat (map snd ps)))"
proof -
  obtain x where x: "netangels_services dec20 na_sample na_start = (na_signed, Inr [x])" using na_sample_run by blast
  then show ?thesis using netangels_complete [OF x] unfolding Let_def by blast
qed

section \<open>The ledger\<close>

lemma month_rows_ok:
  "month_rows m rows out = Inr out' \<Longrightarrow> distinct (map pd_external out) \<Longrightarrow>
   (\<forall>p\<in>set out. pd_type p = Topup \<and> (\<exists>t. pd_date p = Some t)) \<Longrightarrow>
   distinct (map pd_external out') \<and> (\<forall>p\<in>set out'. pd_type p = Topup \<and> (\<exists>t. pd_date p = Some t)) \<and> length out' = length out + length rows"
proof (induction rows arbitrary: out)
  case (Cons r rows)
  have err: "foldl (\<lambda>r row. case r of Inl e \<Rightarrow> Inl e | Inr acc \<Rightarrow> (case map_netangels_payment row of Inl e \<Rightarrow> Inl e
      | Inr p \<Rightarrow> if \<not> starts_with (m @ ''-'') (npay_date row) then Inl ''NetAngels: payment month mismatch''
          else if pd_external p \<in> set (map pd_external acc) then Inl ''NetAngels: duplicate payment in ledger'' else Inr (acc @ [p]))) (Inl e) xs = Inl e" for e xs
    by (induction xs) auto
  show ?case
  proof (cases "map_netangels_payment r")
    case (Inl e)
    then show ?thesis using Cons.prems(1) err by (simp add: month_rows_def)
  next
    case (Inr p)
    have ok: "pd_external p \<notin> set (map pd_external out)" "month_rows m rows (out @ [p]) = Inr out'"
      using Cons.prems(1) Inr err by (auto simp: month_rows_def split: if_splits)
    have "pd_type p = Topup \<and> (\<exists>t. pd_date p = Some t)" using Inr by (auto simp: map_netangels_payment_def split: option.splits if_splits)
    then show ?thesis using Cons.IH [OF ok(2)] Cons.prems(2,3) ok(1) by auto
  qed
qed (simp add: month_rows_def)

lemma na_months_ok:
  "na_months A ms out s = (s', Inr out') \<Longrightarrow> distinct (map pd_external out) \<Longrightarrow>
   (\<forall>p\<in>set out. pd_type p = Topup \<and> (\<exists>t. pd_date p = Some t)) \<Longrightarrow>
   distinct (map pd_external out') \<and> (\<forall>p\<in>set out'. pd_type p = Topup \<and> (\<exists>t. pd_date p = Some t))"
proof (induction ms arbitrary: out s)
  case (Cons m ms)
  then obtain s1 rows out1 where "month_rows m rows out = Inr out1" "na_months A ms out1 s1 = (s', Inr out')"
    by (auto split: prod.splits sum.splits)
  then show ?case using Cons.IH month_rows_ok Cons.prems(2,3) by blast
qed simp

text \<open>The imported ledger holds top-ups with real dates, each record once: a day that does not exist, a payment of
  another month or one that was listed before fails the import instead.\<close>

theorem netangels_ledger:
  assumes "netangels_payments A s = (s', Inr ps)"
  shows "distinct (map pd_external ps) \<and> (\<forall>p\<in>set ps. pd_type p = Topup \<and> (\<exists>t. pd_date p = Some t))"
  using assms na_months_ok [of A _ "[]" _ s' ps] by (auto simp: netangels_payments_def split: prod.splits sum.splits)

definition na_no_months :: na_api where
  "na_no_months = na_sample \<lparr> nx_get := \<lambda>t p off. Inr (JObj [(''entities'', JArr [])]) \<rparr>"

lemma na_no_months_run: "netangels_payments na_no_months \<lparr> ns_bearer = Some ''t'', ns_logins = 1 \<rparr> = (\<lparr> ns_bearer = Some ''t'', ns_logins = 1 \<rparr>, Inr [])"
  by (simp add: netangels_payments_def na_parsed_def na_get_def numeral_2_eq_2 na_authenticate_def na_no_months_def json_prop_def months_schema_def z_array_def)

theorem netangels_ledger_witness: "distinct (map pd_external ([] :: payment_data list))"
  using netangels_ledger [OF na_no_months_run] by simp

end
