(* ===== verification/Clouds.thy ===== *)
theory Clouds
  imports Wire
begin

text \<open>
  connectors/hetzner, connectors/vultr, connectors/linode and connectors/timeweb.  P is Date.parse and Q the
  constructor of Decimal on a text, None where it throws; numbers of the replies are taken as they are.
  Names of Object.prototype are not locations.  Where Promise.all fails, the message is that of the
  first failing request of its list.
\<close>

section \<open>Hetzner\<close>

record hetzner_price =
  hp_location :: string
  hp_hourly :: "string option"
  hp_monthly :: "string option"

record hetzner_location =
  hz_loc_name :: "string option"
  hz_loc_country :: "string option"

record hetzner_server =
  hz_id :: nat
  hz_name :: string
  hz_type_name :: "string option"
  hz_prices :: "hetzner_price list"
  hz_location :: "hetzner_location option"
  hz_datacenter :: "hetzner_location option"
  hz_raw :: json_obj

definition HETZNER_COUNTRY :: "(string \<times> string) list" where
  "HETZNER_COUNTRY = [(''fsn1'', ''DE''), (''nbg1'', ''DE''), (''hel1'', ''FI''), (''ash'', ''US''), (''hil'', ''US''), (''sin'', ''SG'')]"

definition resolve_location :: "hetzner_server \<Rightarrow> hetzner_location option" where
  "resolve_location s = first_some [hz_location s, hz_datacenter s]"

definition location_to_country :: "hetzner_location option \<Rightarrow> string option" where
  "location_to_country loc =
     (let iso = map_option to_upper (Option.bind loc hz_loc_country) in
      if (case iso of Some c \<Rightarrow> length c = 2 \<and> (\<forall>x\<in>set c. CHR ''A'' \<le> x \<and> x \<le> CHR ''Z'') | None \<Rightarrow> False) then iso
      else let name = Option.bind loc hz_loc_name in if \<not> truthy name then None else map_of HETZNER_COUNTRY (to_lower (the name)))"

definition map_hetzner_server :: "(string \<Rightarrow> rat option) \<Rightarrow> hetzner_server \<Rightarrow> string + service_data" where
  "map_hetzner_server Q s =
     (let loc = resolve_location s; loc_name = Option.bind loc hz_loc_name;
          price = first_some [find (\<lambda>p. Some (hp_location p) = loc_name) (hz_prices s), (case hz_prices s of [] \<Rightarrow> None | p # _ \<Rightarrow> Some p)];
          monthly = Option.bind price hp_monthly; hourly = Option.bind price hp_hourly
      in case (if truthy monthly then map_sum id Some (read_amount Q (the monthly)) else Inr None) of Inl e \<Rightarrow> Inl e
         | Inr cost \<Rightarrow> Inr \<lparr> sd_external = nat_text (hz_id s), sd_name = hz_name s, sd_type = ''vps'', sd_country = location_to_country loc,
             sd_cost = cost, sd_currency = Some ''EUR'', sd_period = Some Monthly, sd_next = Nb_null,
             sd_meta = (if price = None then hz_raw s
               else put ''_tariff'' (JObj (str_field ''serverType'' (hz_type_name s) @ str_field ''priceMonthly'' monthly @ str_field ''priceHourly'' hourly)) (hz_raw s)) \<rparr>)"

text \<open>A page by its number: its servers and the next page.\<close>

type_synonym hetzner_api = "nat \<Rightarrow> string + (hetzner_server list option \<times> nat option)"

definition hetzner_account :: "string + account_data" where
  "hetzner_account = Inr \<lparr> ad_balance = None, ad_currency = ''EUR'' \<rparr>"

partial_function (option) hetzner_pages :: "(string \<Rightarrow> rat option) \<Rightarrow> hetzner_api \<Rightarrow> nat \<Rightarrow> service_data list \<Rightarrow> (string + service_data list) option" where
  "hetzner_pages Q A page out = (case A page of Inl e \<Rightarrow> Some (Inl e)
     | Inr (servers, following) \<Rightarrow> (case map_all (map_hetzner_server Q) (coalesce servers []) of Inl e \<Rightarrow> Some (Inl e)
         | Inr ss \<Rightarrow> if coalesce following 0 = 0 then Some (Inr (out @ ss)) else hetzner_pages Q A (the following) (out @ ss)))"

definition hetzner_services :: "(string \<Rightarrow> rat option) \<Rightarrow> hetzner_api \<Rightarrow> (string + service_data list) option" where
  "hetzner_services Q A = hetzner_pages Q A 1 []"

section \<open>Vultr\<close>

record vultr_instance =
  vi_id :: string
  vi_label :: string
  vi_ip :: "string option"
  vi_hostname :: "string option"
  vi_region :: string
  vi_plan :: string
  vi_raw :: json_obj

record vultr_billing =
  vb_id :: nat
  vb_date :: string
  vb_type :: string
  vb_amount :: rat
  vb_description :: string

record 'a vultr_page =
  vp_items :: "'a list option"
  vp_next :: "string option"

definition VULTR_CURRENCY :: ccy where "VULTR_CURRENCY = ''USD''"

definition map_vultr_instance :: "vultr_instance \<Rightarrow> (string \<times> rat) list \<Rightarrow> (string \<times> string) list \<Rightarrow> service_data" where
  "map_vultr_instance i plans regions =
     \<lparr> sd_external = vi_id i, sd_name = or_text (Some (vi_label i)) (or_text (vi_ip i) (or_text (vi_hostname i) (''vultr-'' @ vi_id i))),
       sd_type = ''vps'', sd_country = mget regions (vi_region i), sd_cost = mget plans (vi_plan i), sd_currency = Some VULTR_CURRENCY,
       sd_period = Some Monthly, sd_next = Nb_undefined, sd_meta = vi_raw i \<rparr>"

definition map_vultr_payment :: "(string \<Rightarrow> ms option) \<Rightarrow> vultr_billing \<Rightarrow> payment_data" where
  "map_vultr_payment P b =
     \<lparr> pd_external = vb_type b @ '':'' @ nat_text (vb_id b), pd_type = (if vb_type b = ''payment'' then Topup else Charge),
       pd_amount = \<bar>vb_amount b\<bar>, pd_currency = VULTR_CURRENCY, pd_date = P (vb_date b), pd_description = truthy_opt (Some (vb_description b)),
       pd_service_external = None \<rparr>"

definition VULTR_PAGE :: nat where "VULTR_PAGE = 500"
definition VULTR_MAX_PAGES :: nat where "VULTR_MAX_PAGES = 50"

text \<open>A failed request: the error of its body, where there is one, and its own message.\<close>

type_synonym 'a vultr_list = "nat \<Rightarrow> string option \<Rightarrow> (string option \<times> string) + 'a vultr_page"

record vultr_api =
  vx_account :: "(string option \<times> string) + (rat option \<times> rat option) option"
  vx_instances :: "vultr_instance vultr_list"
  vx_plans :: "(string \<times> rat) vultr_list"
  vx_regions :: "(string \<times> string) vultr_list"
  vx_billing :: "vultr_billing vultr_list"

definition vultr_error :: "string option \<times> string \<Rightarrow> string" where
  "vultr_error f = (if truthy (fst f) then ''Vultr: '' @ the (fst f) else snd f)"

definition vultr_ask :: "'a vultr_list \<Rightarrow> string option \<Rightarrow> string + 'a vultr_page" where
  "vultr_ask A cursor = (case A VULTR_PAGE cursor of Inl f \<Rightarrow> Inl (vultr_error f) | Inr p \<Rightarrow> Inr p)"

definition vultr_paginate :: "'a vultr_list \<Rightarrow> string + 'a list" where
  "vultr_paginate A = cursor_loop (vultr_ask A) (\<lambda>p. coalesce (vp_items p) []) (\<lambda>p. truthy_opt (vp_next p)) VULTR_MAX_PAGES None []"

definition vultr_account :: "decimal_lib \<Rightarrow> vultr_api \<Rightarrow> string + account_data" where
  "vultr_account D A = (case vx_account A of Inl f \<Rightarrow> Inl (vultr_error f)
     | Inr None \<Rightarrow> Inl ''Vultr: unexpected /account response (no `account` object)''
     | Inr (Some (b, pending)) \<Rightarrow> Inr \<lparr> ad_balance = Some (dsub D (- coalesce b 0) (coalesce pending 0)), ad_currency = VULTR_CURRENCY \<rparr>)"

definition fetch_plans :: "vultr_api \<Rightarrow> (string \<times> rat) list" where
  "fetch_plans A = (case vultr_paginate (vx_plans A) of Inl _ \<Rightarrow> [] | Inr ps \<Rightarrow> foldl (\<lambda>m (k, v). mset_to k v m) [] ps)"

definition fetch_regions :: "vultr_api \<Rightarrow> (string \<times> string) list" where
  "fetch_regions A = (case vultr_paginate (vx_regions A) of Inl _ \<Rightarrow> []
     | Inr rs \<Rightarrow> foldl (\<lambda>m (k, v). mset_to k v m) [] (filter (\<lambda>r. snd r \<noteq> []) rs))"

definition vultr_services :: "vultr_api \<Rightarrow> string + service_data list" where
  "vultr_services A = (case vultr_paginate (vx_instances A) of Inl e \<Rightarrow> Inl e
     | Inr is \<Rightarrow> Inr (map (\<lambda>i. map_vultr_instance i (fetch_plans A) (fetch_regions A)) is))"

definition vultr_payments :: "(string \<Rightarrow> ms option) \<Rightarrow> vultr_api \<Rightarrow> string + payment_data list" where
  "vultr_payments P A = (case vultr_paginate (vx_billing A) of Inl e \<Rightarrow> Inl e | Inr bs \<Rightarrow> Inr (map (map_vultr_payment P) bs))"

section \<open>Linode\<close>

record linode_instance =
  li_id :: nat
  li_label :: string
  li_region :: string
  li_type :: string
  li_raw :: json

record linode_type =
  lt_id :: string
  lt_monthly :: "rat option"
  lt_regions :: "(string \<times> rat option) list"

record linode_bill =
  lb_id :: nat
  lb_date :: string
  lb_label :: "string option"
  lb_amount :: rat

record 'a linode_page =
  lg_data :: "'a list option"
  lg_pages :: "nat option"

definition LINODE_CURRENCY :: ccy where "LINODE_CURRENCY = ''USD''"

text \<open>/[zZ]|[+-]\d\d:?\d\d$/\<close>

definition has_zone :: "string \<Rightarrow> bool" where
  "has_zone s =
     (let t = rev s; sign = (\<lambda>c. c = CHR ''+'' \<or> c = CHR ''-'') in
      CHR ''z'' \<in> set s \<or> CHR ''Z'' \<in> set s \<or>
      5 \<le> length t \<and> list_all is_digit (take 4 t) \<and> sign (t ! 4) \<or>
      6 \<le> length t \<and> is_digit (t ! 0) \<and> is_digit (t ! 1) \<and> t ! 2 = CHR '':'' \<and> is_digit (t ! 3) \<and> is_digit (t ! 4) \<and> sign (t ! 5))"

definition linode_date :: "(string \<Rightarrow> ms option) \<Rightarrow> string \<Rightarrow> ms option" where
  "linode_date P s = P (if has_zone s then s else s @ ''Z'')"

definition price_for_instance :: "string \<Rightarrow> string \<Rightarrow> (string \<times> linode_type) list \<Rightarrow> rat option" where
  "price_for_instance type region types = (case mget types type of None \<Rightarrow> None
     | Some t \<Rightarrow> first_some [Option.bind (find (\<lambda>p. fst p = region) (lt_regions t)) snd, lt_monthly t])"

definition map_linode_instance :: "linode_instance \<Rightarrow> (string \<times> linode_type) list \<Rightarrow> (string \<times> string) list \<Rightarrow> service_data" where
  "map_linode_instance i types countries =
     \<lparr> sd_external = nat_text (li_id i), sd_name = or_text (Some (li_label i)) (''linode-'' @ nat_text (li_id i)), sd_type = ''vps'',
       sd_country = map_option to_upper (truthy_opt (mget countries (li_region i))), sd_cost = price_for_instance (li_type i) (li_region i) types,
       sd_currency = Some LINODE_CURRENCY, sd_period = Some Monthly, sd_next = Nb_undefined, 
       sd_meta = pick_fields (li_raw i) [(''region'', ''region''), (''type'', ''type''), (''status'', ''status'')] @
         pick_fields (coalesce (json_prop (li_raw i) ''specs'') JNull) [(''vcpus'', ''vcpus''), (''memory'', ''memory''), (''disk'', ''disk'')] @
         pick_fields (li_raw i) [(''ipv4'', ''ipv4''), (''image'', ''image'')] \<rparr>"

definition map_linode_payment :: "(string \<Rightarrow> ms option) \<Rightarrow> linode_bill \<Rightarrow> payment_data" where
  "map_linode_payment P p =
     \<lparr> pd_external = ''payment:'' @ nat_text (lb_id p), pd_type = Topup, pd_amount = lb_amount p, pd_currency = LINODE_CURRENCY,
       pd_date = linode_date P (lb_date p), pd_description = Some ''Payment'', pd_service_external = None \<rparr>"

definition map_linode_invoice :: "(string \<Rightarrow> ms option) \<Rightarrow> linode_bill \<Rightarrow> payment_data" where
  "map_linode_invoice P b =
     \<lparr> pd_external = ''invoice:'' @ nat_text (lb_id b), pd_type = Charge, pd_amount = lb_amount b, pd_currency = LINODE_CURRENCY,
       pd_date = linode_date P (lb_date b), pd_description = truthy_opt (lb_label b), pd_service_external = None \<rparr>"

definition LINODE_MAX_PAGES :: nat where "LINODE_MAX_PAGES = 50"

text \<open>A failed request: the first reason of its body, where there is one, and its own message.\<close>

type_synonym 'a linode_list = "nat \<Rightarrow> (string option \<times> string) + 'a linode_page"

record linode_api =
  lx_account :: "(string option \<times> string) + rat option"
  lx_instances :: "linode_instance linode_list"
  lx_types :: "linode_type linode_list"
  lx_regions :: "(string \<times> string) linode_list"
  lx_payments :: "linode_bill linode_list"
  lx_invoices :: "linode_bill linode_list"

definition linode_error :: "string option \<times> string \<Rightarrow> string" where
  "linode_error f = (if truthy (fst f) then ''Linode: '' @ the (fst f) else snd f)"

definition linode_ask :: "'a linode_list \<Rightarrow> nat \<Rightarrow> string + (nat \<times> 'a linode_page)" where
  "linode_ask A page = (case A page of Inl f \<Rightarrow> Inl (linode_error f) | Inr p \<Rightarrow> Inr (page, p))"

definition linode_last :: "nat \<times> 'a linode_page \<Rightarrow> bool" where
  "linode_last r = (coalesce (lg_pages (snd r)) 0 = 0 \<or> coalesce (lg_pages (snd r)) 0 \<le> fst r)"

definition linode_paginate :: "'a linode_list \<Rightarrow> string + 'a list" where
  "linode_paginate A = page_loop (linode_ask A) (\<lambda>r. coalesce (lg_data (snd r)) []) (\<lambda>r out. linode_last r) LINODE_MAX_PAGES 1 []"

definition linode_safe :: "string + 'a list \<Rightarrow> 'a list" where
  "linode_safe r = (case r of Inl _ \<Rightarrow> [] | Inr xs \<Rightarrow> xs)"

definition linode_account :: "linode_api \<Rightarrow> string + account_data" where
  "linode_account A = (case lx_account A of Inl f \<Rightarrow> Inl (linode_error f)
     | Inr b \<Rightarrow> Inr \<lparr> ad_balance = Some (- coalesce b 0), ad_currency = LINODE_CURRENCY \<rparr>)"

definition fetch_types :: "linode_api \<Rightarrow> (string \<times> linode_type) list" where
  "fetch_types A = foldl (\<lambda>m t. mset_to (lt_id t) t m) [] (linode_safe (linode_paginate (lx_types A)))"

definition fetch_countries :: "linode_api \<Rightarrow> (string \<times> string) list" where
  "fetch_countries A = foldl (\<lambda>m (k, v). mset_to k v m) [] (filter (\<lambda>r. snd r \<noteq> []) (linode_safe (linode_paginate (lx_regions A))))"

definition linode_services :: "linode_api \<Rightarrow> string + service_data list" where
  "linode_services A = (case linode_paginate (lx_instances A) of Inl e \<Rightarrow> Inl e
     | Inr is \<Rightarrow> Inr (map (\<lambda>i. map_linode_instance i (fetch_types A) (fetch_countries A)) is))"

definition linode_payments :: "(string \<Rightarrow> ms option) \<Rightarrow> linode_api \<Rightarrow> payment_data list" where
  "linode_payments P A = map (map_linode_payment P) (linode_safe (linode_paginate (lx_payments A))) @
     map (map_linode_invoice P) (linode_safe (linode_paginate (lx_invoices A)))"

section \<open>Timeweb\<close>

record timeweb_server =
  tw_id :: int
  tw_name :: string
  tw_location :: "string option"
  tw_preset :: "int option"
  tw_configurator :: "int option"
  tw_raw :: json_obj

record timeweb_preset =
  tp_id :: int
  tp_price :: rat
  tp_location :: "string option"

record timeweb_cost =
  tc_service :: "int option"
  tc_type :: "string option"
  tc_cost :: "rat option"
  tc_total :: "rat option"
  tc_description :: "string option"

definition TIMEWEB_HOURS_PER_MONTH :: rat where "TIMEWEB_HOURS_PER_MONTH = 730"

definition TIMEWEB_COUNTRY :: "(string \<times> string) list" where
  "TIMEWEB_COUNTRY = [(''ru'', ''RU''), (''pl'', ''PL''), (''nl'', ''NL''), (''kz'', ''KZ''), (''de'', ''DE'')]"

definition timeweb_country :: "string option \<Rightarrow> string option" where
  "timeweb_country location = (if \<not> truthy location then None
     else map_of TIMEWEB_COUNTRY (to_lower (hd (split_on (CHR ''-'') (the location)))))"

definition resolve_monthly_cost :: "timeweb_cost option \<Rightarrow> timeweb_preset option \<Rightarrow> rat option" where
  "resolve_monthly_cost cost preset =
     (case Option.bind cost (\<lambda>c. first_some [tc_total c, tc_cost c]) of Some a \<Rightarrow> Some a | None \<Rightarrow> map_option tp_price preset)"

definition int_json :: "int option \<Rightarrow> json" where "int_json n = (case n of None \<Rightarrow> JNull | Some i \<Rightarrow> JNum (of_int i))"

definition timeweb_meta :: "decimal_lib \<Rightarrow> timeweb_server \<Rightarrow> timeweb_preset option \<Rightarrow> timeweb_cost option \<Rightarrow> rat option \<Rightarrow> json_obj" where
  "timeweb_meta D s preset cost monthly =
     (if preset = None \<and> monthly = None then tw_raw s
      else let price = first_some [monthly, map_option tp_price preset] in
        put ''_tariff'' (JObj ([(''presetId'', int_json (map_option tp_id preset)), (''configuratorId'', int_json (tw_configurator s))] @
            json_field ''priceMonthly'' (map_option JNum price) @
            json_field ''priceHourly'' (map_option (\<lambda>p. JNum (cent_round D (ddiv D p TIMEWEB_HOURS_PER_MONTH))) price) @
            json_field ''baseCost'' (map_option JNum (Option.bind cost tc_cost)) @ json_field ''totalCost'' (map_option JNum (Option.bind cost tc_total)) @
            str_field ''description'' (Option.bind cost tc_description))) (tw_raw s))"

definition int_text :: "int \<Rightarrow> string" where "int_text i = (if i < 0 then ''-'' else []) @ nat_text (nat \<bar>i\<bar>)"

definition map_timeweb_server :: "decimal_lib \<Rightarrow> timeweb_server \<Rightarrow> (int \<times> timeweb_preset) list \<Rightarrow> (int \<times> timeweb_cost) list \<Rightarrow> service_data" where
  "map_timeweb_server D s presets costs =
     (let preset = Option.bind (tw_preset s) (mget presets); cost = mget costs (tw_id s);
          monthly = resolve_monthly_cost cost preset
      in \<lparr> sd_external = int_text (tw_id s), sd_name = tw_name s, sd_type = ''vps'',
        sd_country = timeweb_country (first_some [Option.bind preset tp_location, tw_location s]), sd_cost = monthly, sd_currency = None,
        sd_period = Some Monthly, sd_next = Nb_null, sd_meta = timeweb_meta D s preset cost monthly \<rparr>)"

record timeweb_api =
  tx_finances :: "string + (js_num option \<times> string option)"
  tx_servers :: "string + timeweb_server list option"
  tx_presets :: "string + timeweb_preset list option"
  tx_costs :: "string + timeweb_cost list option"

definition timeweb_account :: "(string \<Rightarrow> rat option) \<Rightarrow> timeweb_api \<Rightarrow> string + account_data" where
  "timeweb_account Q A = (case tx_finances A of Inl e \<Rightarrow> Inl e
     | Inr (b, currency) \<Rightarrow> (case (case b of None \<Rightarrow> Inr 0 | Some (Num r) \<Rightarrow> Inr r | Some (Txt s) \<Rightarrow> read_amount Q s) of Inl e \<Rightarrow> Inl e
         | Inr r \<Rightarrow> Inr \<lparr> ad_balance = Some r, ad_currency = or_text currency ''RUB'' \<rparr>))"

definition service_costs :: "timeweb_api \<Rightarrow> (int \<times> timeweb_cost) list" where
  "service_costs A = (case tx_costs A of Inl _ \<Rightarrow> []
     | Inr rows \<Rightarrow> foldl (\<lambda>m row. if truthy (tc_type row) \<and> tc_type row \<noteq> Some ''server'' then m
         else case tc_service row of None \<Rightarrow> m | Some i \<Rightarrow> mset_to i row m) [] (coalesce rows []))"

definition server_presets :: "timeweb_api \<Rightarrow> (int \<times> timeweb_preset) list" where
  "server_presets A = (case tx_presets A of Inl _ \<Rightarrow> [] | Inr ps \<Rightarrow> foldl (\<lambda>m p. mset_to (tp_id p) p m) [] (coalesce ps []))"

definition timeweb_services :: "decimal_lib \<Rightarrow> timeweb_api \<Rightarrow> string + service_data list" where
  "timeweb_services D A = (case tx_servers A of Inl e \<Rightarrow> Inl e
     | Inr ss \<Rightarrow> Inr (map (\<lambda>s. map_timeweb_server D s (server_presets A) (service_costs A)) (coalesce ss [])))"

section \<open>Pages without a cap\<close>

lemma hetzner_pages_end:
  assumes "\<And>page ss n. A page = Inr (ss, Some n) \<Longrightarrow> n \<noteq> 0 \<Longrightarrow> page < n \<and> n \<le> N"
  shows "\<exists>r. hetzner_pages Q A page out = Some r"
proof (induction "N - page" arbitrary: page out rule: less_induct)
  case less
  show ?case
  proof (cases "A page")
    case (Inr p)
    obtain ss f where p: "p = (ss, f)" by (cases p)
    show ?thesis
    proof (cases "map_all (map_hetzner_server Q) (coalesce ss [])")
      case (Inr ts)
      show ?thesis
      proof (cases "coalesce f 0 = 0")
        case False
        then obtain n where f: "f = Some n" "n \<noteq> 0" by (cases f) auto
        then have n: "page < n" "n \<le> N" using assms \<open>A page = Inr p\<close> p by blast+
        have "\<exists>r. hetzner_pages Q A n (out @ ts) = Some r" by (rule less) (use n in simp)
        then show ?thesis using f \<open>A page = Inr p\<close> p Inr by (subst hetzner_pages.simps) simp
      qed (use \<open>A page = Inr p\<close> p Inr in \<open>subst hetzner_pages.simps, simp\<close>)
    qed (use Inr p in \<open>subst hetzner_pages.simps, simp\<close>)
  qed (subst hetzner_pages.simps, simp)
qed

lemma hetzner_circle:
  assumes "hetzner_pages Q A page out = Some r"
  shows "A \<noteq> (\<lambda>page. Inr (Some [], Some 1))"
proof (rule hetzner_pages.raw_induct [OF _ assms, where P = "\<lambda>Q A page out r. A \<noteq> (\<lambda>page. Inr (Some [], Some 1))"], goal_cases)
  case (1 loop Q A page out r)
  show ?case
  proof
    assume A: "A = (\<lambda>page. Inr (Some [], Some 1))"
    have "loop Q A 1 out = Some r" using 1(2) unfolding A by simp
    then show False using 1(1) A by blast
  qed
qed

text \<open>The list of servers is walked without a cap: it ends, with an answer or an error, when every page names a later
  one up to some last page, and it does not end when the API names the first page for ever.\<close>

theorem hetzner_ends:
  assumes "\<And>page ss n. A page = Inr (ss, Some n) \<Longrightarrow> n \<noteq> 0 \<Longrightarrow> page < n \<and> n \<le> N"
  shows "(\<exists>r. hetzner_services Q A = Some r) \<and> hetzner_services Q (\<lambda>page. Inr (Some [], Some 1)) = None"
proof
  show "\<exists>r. hetzner_services Q A = Some r" unfolding hetzner_services_def by (rule hetzner_pages_end [OF assms])
  have "hetzner_services Q (\<lambda>page. Inr (Some [], Some 1)) \<noteq> Some r" for r
    using hetzner_circle [of Q "\<lambda>page. Inr (Some [], Some 1)" 1 "[]" r] unfolding hetzner_services_def by blast
  then show "hetzner_services Q (\<lambda>page. Inr (Some [], Some 1)) = None" by (meson option.exhaust)
qed

theorem hetzner_ends_witness: "\<exists>r. hetzner_services (\<lambda>s. None) (\<lambda>page. Inr (None, if page < 3 then Some (page + 1) else None)) = Some r"
proof -
  have "page < n \<and> n \<le> 3" if "(\<lambda>page. Inr (None, if page < 3 then Some (page + 1) else None)) page = (Inr (ss, Some n) :: string + (hetzner_server list option \<times> nat option))"
    for page n ss using that by (auto split: if_splits)
  then show ?thesis using hetzner_ends [of "\<lambda>page. Inr (None, if page < 3 then Some (page + 1) else None)" 3 "\<lambda>s. None", THEN conjunct1] by blast
qed

section \<open>Cursors and independent ledgers\<close>

text \<open>The servers of an account are those of all pages that the cursors lead to, up to 50 pages, in order; a price
  or a country is that of the catalogue, and a failing catalogue leaves them out without an error.\<close>

theorem vultr_all_pages:
  assumes "\<And>c. vultr_ask (vx_instances A) c = Inr \<lparr> vp_items = Some (if (case c of None \<Rightarrow> 0 | Some t \<Rightarrow> number_of_digits t) < length ps
       then ps ! (case c of None \<Rightarrow> 0 | Some t \<Rightarrow> number_of_digits t) else []),
     vp_next = (if Suc (case c of None \<Rightarrow> 0 | Some t \<Rightarrow> number_of_digits t) < length ps
       then Some (nat_text (Suc (case c of None \<Rightarrow> 0 | Some t \<Rightarrow> number_of_digits t))) else None) \<rparr>"
    and "ps \<noteq> []" "length ps \<le> 50"
  shows "\<exists>ss. vultr_services A = Inr ss \<and> map sd_external ss = map vi_id (concat ps) \<and>
    map sd_cost ss = map (\<lambda>i. mget (fetch_plans A) (vi_plan i)) (concat ps)"
proof -
  have t: "nat_text n \<noteq> []" for n by (cases "n < 10") (auto simp: nat_text.simps)
  have c: "cursor_loop (vultr_ask (vx_instances A)) (\<lambda>p. coalesce (vp_items p) []) (\<lambda>p. truthy_opt (vp_next p)) n
      (if k = 0 then None else Some (nat_text k)) (concat (take k ps)) = Inr (concat (take (k + n) ps))" if "k < length ps" for k n
    using that
  proof (induction n arbitrary: k)
    case (Suc n)
    let ?c = "if k = 0 then None else Some (nat_text k)"
    have v: "(case ?c of None \<Rightarrow> 0 | Some t \<Rightarrow> number_of_digits t) = k" by (simp add: nat_text_value)
    have a: "vultr_ask (vx_instances A) ?c = Inr \<lparr> vp_items = Some (ps ! k), vp_next = (if Suc k < length ps then Some (nat_text (Suc k)) else None) \<rparr>"
      using assms(1) [of ?c] unfolding v using Suc.prems by simp
    have o: "concat (take k ps) @ ps ! k = concat (take (Suc k) ps)" using Suc.prems by (simp add: take_Suc_conv_app_nth)
    show ?case
    proof (cases "Suc k < length ps")
      case True
      then show ?thesis using Suc.IH [of "Suc k"] unfolding cursor_loop.simps a by (simp add: Let_def o truthy_opt_def truthy_def t)
    next
      case False
      then show ?thesis using Suc.prems unfolding cursor_loop.simps a by (simp add: Let_def o truthy_opt_def truthy_def)
    qed
  qed simp
  have "vultr_paginate (vx_instances A) = Inr (concat (take (0 + 50) ps))"
    unfolding vultr_paginate_def VULTR_MAX_PAGES_def using c [of 0 50] assms(2) by simp
  then have "vultr_paginate (vx_instances A) = Inr (concat ps)" using assms(3) by simp
  then show ?thesis by (simp add: vultr_services_def map_vultr_instance_def comp_def)
qed

end
