(* ===== verification/Hosts.thy ===== *)
theory Hosts
  imports Wire
begin

text \<open>
  connectors/4vps, connectors/netlen, connectors/stormwall and connectors/netcup with its device flow.
  P is Date.parse; numbers of the replies are taken as they are.  A dash in a message is --.
\<close>

section \<open>4VPS\<close>

record fourvps_server =
  fv_id :: nat
  fv_name :: "string option"
  fv_tname :: "string option"
  fv_price :: "rat option"
  fv_dc :: "nat option"
  fv_expired :: "nat option"
  fv_deleted :: bool
  fv_raw :: json_obj

text \<open>The data of an envelope: a payload, a text, or neither.\<close>

datatype 'a fv_data = Fv_payload 'a | Fv_text string | Fv_none

record 'a fv_envelope =
  fe_error :: bool
  fe_data :: "'a fv_data"

definition map_fourvps_server :: "fourvps_server \<Rightarrow> (nat \<times> string) list \<Rightarrow> service_data" where
  "map_fourvps_server s flags =
     (let flag = Option.bind (fv_dc s) (mget flags) in
      \<lparr> sd_external = nat_text (fv_id s), sd_name = or_text (fv_name s) (or_text (fv_tname s) (''server-'' @ nat_text (fv_id s))), sd_type = ''vps'',
        sd_country = (case flag of Some f \<Rightarrow> if length f = 2 \<and> (\<forall>c\<in>set f. is_latin c) then Some (to_upper f) else None | None \<Rightarrow> None),
        sd_cost = fv_price s, sd_currency = Some ''RUB'', sd_period = Some Monthly,
        sd_next = (if coalesce (fv_expired s) 0 = 0 then Nb_undefined else Nb_date (Some (int (the (fv_expired s)) * 1000))), sd_meta = fv_raw s \<rparr>)"

text \<open>A failed request: its status, where it has one, and its message.\<close>

record fourvps_api =
  fx_balance :: "(nat option \<times> string) + rat option fv_envelope"
  fx_servers :: "(nat option \<times> string) + fourvps_server list option fv_envelope"
  fx_dcs :: "(nat option \<times> string) + (nat option \<times> string option) list"

definition fourvps_error :: "nat option \<times> string \<Rightarrow> string" where
  "fourvps_error f = (if fst f \<in> {Some 400, Some 401, Some 403}
     then ''4VPS: invalid API token or panel_id (HTTP '' @ nat_text (the (fst f)) @ '')'' else snd f)"

definition fourvps_ok :: "(nat option \<times> string) + 'a fv_envelope \<Rightarrow> string + 'a option" where
  "fourvps_ok r = (case r of Inl f \<Rightarrow> Inl (fourvps_error f)
     | Inr e \<Rightarrow> if fe_error e then Inl (''4VPS: '' @ (case fe_data e of Fv_text t \<Rightarrow> t | _ \<Rightarrow> ''request rejected''))
         else Inr (case fe_data e of Fv_payload x \<Rightarrow> Some x | _ \<Rightarrow> None))"

definition fourvps_account :: "fourvps_api \<Rightarrow> string + account_data" where
  "fourvps_account A = (case fourvps_ok (fx_balance A) of Inl e \<Rightarrow> Inl e
     | Inr b \<Rightarrow> Inr \<lparr> ad_balance = Some (coalesce (Option.bind b id) 0), ad_currency = ''RUB'' \<rparr>)"

definition dc_flags :: "fourvps_api \<Rightarrow> (nat \<times> string) list" where
  "dc_flags A = (case fx_dcs A of Inl _ \<Rightarrow> []
     | Inr ds \<Rightarrow> foldl (\<lambda>m (i, flag). case i of None \<Rightarrow> m | Some k \<Rightarrow> if truthy flag then mset_to k (the flag) m else m) [] ds)"

definition fourvps_services :: "fourvps_api \<Rightarrow> string + service_data list" where
  "fourvps_services A = (case fourvps_ok (fx_servers A) of Inl e \<Rightarrow> Inl e
     | Inr ss \<Rightarrow> Inr (map (\<lambda>s. map_fourvps_server s (dc_flags A)) (filter (\<lambda>s. \<not> fv_deleted s) (coalesce (Option.bind ss id) []))))"

section \<open>Netlen\<close>

record netlen_server =
  nl_id :: string
  nl_name :: string
  nl_amount :: "rat option"
  nl_next :: "string option"
  nl_raw :: json_obj

record netlen_transaction =
  nt_id :: nat
  nt_type :: string
  nt_amount :: "rat option"
  nt_status :: "string option"
  nt_description :: "string option"
  nt_created :: "string option"

record 'a netlen_reply =
  ne_success :: bool
  ne_data :: "'a option"
  ne_error :: "string option"
  ne_next :: bool

definition NETLEN_CURRENCY :: ccy where "NETLEN_CURRENCY = ''USD''"

text \<open>The first space becomes a T, and the zone is UTC.\<close>

definition netlen_date :: "(string \<Rightarrow> ms option) \<Rightarrow> string option \<Rightarrow> ms option" where
  "netlen_date P s = (if \<not> truthy s then None else P (replace_first (CHR '' '') ''T'' (the s) @ ''Z''))"

definition map_netlen_server :: "(string \<Rightarrow> ms option) \<Rightarrow> netlen_server \<Rightarrow> service_data" where
  "map_netlen_server P s =
     \<lparr> sd_external = nl_id s, sd_name = or_text (Some (nl_name s)) (''server-'' @ nl_id s), sd_type = ''vps'', sd_country = None,
       sd_cost = nl_amount s, sd_currency = Some NETLEN_CURRENCY, sd_period = Some Monthly, sd_next = next_of (netlen_date P (nl_next s)),
       sd_meta = nl_raw s \<rparr>"

definition map_netlen_transaction :: "(string \<Rightarrow> ms option) \<Rightarrow> netlen_transaction \<Rightarrow> payment_data option" where
  "map_netlen_transaction P t =
     (if truthy (nt_status t) \<and> nt_status t \<noteq> Some ''success'' then None
      else if nt_type t \<notin> {''deposit'', ''withdraw''} then None
      else case netlen_date P (nt_created t) of None \<Rightarrow> None
      | Some date \<Rightarrow> Some \<lparr> pd_external = ''txn:'' @ nat_text (nt_id t), pd_type = (if nt_type t = ''deposit'' then Topup else Charge),
          pd_amount = coalesce (nt_amount t) 0, pd_currency = NETLEN_CURRENCY, pd_date = Some date, pd_description = nt_description t,
          pd_service_external = None \<rparr>)"

definition NETLEN_PAGE :: nat where "NETLEN_PAGE = 100"
definition NETLEN_MAX_PAGES :: nat where "NETLEN_MAX_PAGES = 50"

text \<open>A failed request: the error of its body, where there is one, and its message.\<close>

type_synonym 'a netlen_list = "nat \<Rightarrow> nat \<Rightarrow> (string option \<times> string) + 'a list netlen_reply"

record netlen_api =
  nlx_balance :: "(string option \<times> string) + rat option netlen_reply"
  nlx_servers :: "netlen_server netlen_list"
  nlx_transactions :: "netlen_transaction netlen_list"

definition netlen_ok :: "(string option \<times> string) + 'a netlen_reply \<Rightarrow> string + 'a netlen_reply" where
  "netlen_ok r = (case r of Inl f \<Rightarrow> Inl (if truthy (fst f) then ''Netlen: '' @ the (fst f) else snd f)
     | Inr d \<Rightarrow> if ne_success d then Inr d else Inl (''Netlen: '' @ or_text (ne_error d) ''request rejected''))"

definition netlen_account :: "netlen_api \<Rightarrow> string + account_data" where
  "netlen_account A = (case netlen_ok (nlx_balance A) of Inl e \<Rightarrow> Inl e
     | Inr d \<Rightarrow> Inr \<lparr> ad_balance = Some (coalesce (Option.bind (ne_data d) id) 0), ad_currency = NETLEN_CURRENCY \<rparr>)"

definition fetch_paged :: "'a netlen_list \<Rightarrow> string + 'a list" where
  "fetch_paged A = page_loop (\<lambda>page. netlen_ok (A page NETLEN_PAGE)) (\<lambda>d. coalesce (ne_data d) []) (\<lambda>d out. \<not> ne_next d) NETLEN_MAX_PAGES 1 []"

definition netlen_services :: "(string \<Rightarrow> ms option) \<Rightarrow> netlen_api \<Rightarrow> string + service_data list" where
  "netlen_services P A = map_sum id (map (map_netlen_server P)) (fetch_paged (nlx_servers A))"

definition netlen_payments :: "(string \<Rightarrow> ms option) \<Rightarrow> netlen_api \<Rightarrow> string + payment_data list" where
  "netlen_payments P A = map_sum id (List.map_filter (map_netlen_transaction P)) (fetch_paged (nlx_transactions A))"

section \<open>StormWall\<close>

record stormwall_service =
  sw_id :: nat
  sw_type :: string
  sw_product :: string
  sw_billing_day :: string
  sw_raw :: json

record 'a stormwall_page =
  sg_results :: "'a list option"
  sg_total :: "nat option"

definition STORMWALL_CURRENCY :: ccy where "STORMWALL_CURRENCY = ''USD''"

definition map_stormwall_service :: "(string \<Rightarrow> ms option) \<Rightarrow> stormwall_service \<Rightarrow> string option \<Rightarrow> service_data" where
  "map_stormwall_service P s enriched =
     \<lparr> sd_external = nat_text (sw_id s), sd_name = or_text enriched (sw_product s), sd_type = ''other'', sd_country = None, sd_cost = None,
       sd_currency = None, sd_period = None, sd_next = next_of (P (sw_billing_day s @ ''T00:00:00Z'')), sd_meta = pick_fields (sw_raw s) (map (\<lambda>k. (k, k)) [''type'', ''clientName'', ''productGroupName'', ''useStormwallDns'', ''useSsl'',
         ''disableFw'', ''protectedIps'', ''ipSetName'']) \<rparr>"

definition STORMWALL_LIMIT :: nat where "STORMWALL_LIMIT = 100"
definition STORMWALL_MAX_PAGES :: nat where "STORMWALL_MAX_PAGES = 50"

text \<open>extractMessage on the body of an error.\<close>

definition text_of :: "json option \<Rightarrow> string option" where
  "text_of j = (case j of Some (JStr s) \<Rightarrow> if s = [] then None else Some s | _ \<Rightarrow> None)"

definition extract_message :: "json \<Rightarrow> string option" where
  "extract_message body =
     (let payload = coalesce (json_prop body ''payload'') JNull;
          errors = (case json_prop body ''errors'' of Some (JArr es) \<Rightarrow>
             truthy_opt (Some (join_with ''; '' (List.map_filter (\<lambda>e. case e of JStr t \<Rightarrow> Some t | _ \<Rightarrow> None) es))) | _ \<Rightarrow> None)
      in first_some [text_of (json_prop payload ''message''), text_of (json_prop payload ''code''), text_of (json_prop body ''message''),
           text_of (json_prop body ''error''), errors])"

text \<open>A failed request: the body and the status of a reply, or another error.\<close>

datatype stormwall_failure = Sw_http json string | Sw_other string

definition stormwall_error :: "stormwall_failure \<Rightarrow> string" where
  "stormwall_error f = (case f of Sw_other m \<Rightarrow> m
     | Sw_http body status \<Rightarrow> (case extract_message body of Some m \<Rightarrow> ''StormWall: '' @ m
         | None \<Rightarrow> ''StormWall API error (HTTP '' @ status @ '')''))"

type_synonym 'a stormwall_list = "nat \<Rightarrow> nat \<Rightarrow> stormwall_failure + 'a stormwall_page"

record stormwall_api =
  sx_services :: "stormwall_service stormwall_list"
  sx_domains :: "nat \<Rightarrow> string option stormwall_list"

fun storm_pages :: "nat \<Rightarrow> 'a stormwall_list \<Rightarrow> nat \<Rightarrow> 'a list \<Rightarrow> string + 'a list" where
  "storm_pages 0 A offset out = Inr out"
| "storm_pages (Suc n) A offset out = (case A STORMWALL_LIMIT offset of Inl f \<Rightarrow> Inl (stormwall_error f)
     | Inr p \<Rightarrow> (let results = coalesce (sg_results p) []; out' = out @ results; offset' = offset + length results in
         if results = [] then Inr out' else if coalesce (sg_total p) offset' \<le> offset' then Inr out' else storm_pages n A offset' out'))"

definition stormwall_paginate :: "'a stormwall_list \<Rightarrow> string + 'a list" where
  "stormwall_paginate A = storm_pages STORMWALL_MAX_PAGES A 0 []"

definition map_with_name :: "(string \<Rightarrow> ms option) \<Rightarrow> stormwall_api \<Rightarrow> stormwall_service \<Rightarrow> service_data" where
  "map_with_name P A s =
     (if sw_type s \<noteq> ''domain'' then map_stormwall_service P s None
      else case stormwall_paginate (sx_domains A (sw_id s)) of Inl _ \<Rightarrow> map_stormwall_service P s None
      | Inr ds \<Rightarrow> map_stormwall_service P s (truthy_opt (Some (join_with '', '' (filter (\<lambda>d. d \<noteq> []) (List.map_filter id ds))))))"

definition stormwall_account :: "string + account_data" where
  "stormwall_account = Inr \<lparr> ad_balance = None, ad_currency = STORMWALL_CURRENCY \<rparr>"

definition stormwall_services :: "(string \<Rightarrow> ms option) \<Rightarrow> stormwall_api \<Rightarrow> string + service_data list" where
  "stormwall_services P A = map_sum id (map (map_with_name P A)) (stormwall_paginate (sx_services A))"

section \<open>netcup\<close>

text \<open>A server is the object of the reply; S is String on an identifier.\<close>

definition obj_fields :: "json \<Rightarrow> json_obj" where "obj_fields j = (case j of JObj fs \<Rightarrow> fs | _ \<Rightarrow> [])"

definition CITY_COUNTRY :: "(string list \<times> string) list" where
  "CITY_COUNTRY = [([''nurnberg'', [CHR ''n'', CHR 0xFC] @ ''rnberg'', ''nuremberg''], ''DE''), ([''wien'', ''vienna''], ''AT''), ([''manassas''], ''US'')]"

definition extract_country :: "json \<Rightarrow> string option" where
  "extract_country s =
     (let city = text_of (json_prop (coalesce (json_prop s ''site'') JNull) ''city'');
          by_city = Option.bind city (\<lambda>c. map_option snd (find (\<lambda>e. list_ex (\<lambda>t. has_part t (to_lower c)) (fst e)) CITY_COUNTRY));
          location = coalesce (json_prop s ''location'') JNull; datacenter = coalesce (json_prop s ''datacenter'') JNull;
          is_text = (\<lambda>j. case j of JStr t \<Rightarrow> Some (JStr t) | _ \<Rightarrow> None);
          candidates = [first_some [given location ''countryCode'', given location ''country''], given datacenter ''country'', is_text location,
            is_text datacenter, json_prop s ''region''];
          iso = (\<lambda>j. case j of Some (JStr c) \<Rightarrow> if length c = 2 \<and> (\<forall>x\<in>set c. is_latin x) then Some (to_upper c) else None | _ \<Rightarrow> None)
      in case by_city of Some c \<Rightarrow> Some c | None \<Rightarrow> first_some (map iso candidates))"

definition map_netcup_server :: "(json \<Rightarrow> string) \<Rightarrow> json \<Rightarrow> service_data" where
  "map_netcup_server S s =
     (let i = (case first_some [given s ''id'', given s ''serverId'', given s ''name'', given s ''nickname''] of None \<Rightarrow> [] | Some j \<Rightarrow> S j) in
      \<lparr> sd_external = i,
        sd_name = coalesce (first_some [text_of (json_prop s ''nickname''), text_of (json_prop s ''name''), text_of (json_prop s ''hostname'')]) (''netcup '' @ i),
        sd_type = ''vps'', sd_country = extract_country s, sd_cost = None, sd_currency = Some ''EUR'', sd_period = Some Monthly, sd_next = Nb_undefined,
        sd_meta = obj_fields s \<rparr>)"

definition netcup_array :: "json \<Rightarrow> json list" where
  "netcup_array data = (case data of JArr xs \<Rightarrow> xs
     | JObj fs \<Rightarrow> coalesce (first_some (map (\<lambda>k. case json_prop data k of Some (JArr xs) \<Rightarrow> Some xs | _ \<Rightarrow> None) [''data'', ''servers'', ''items'', ''content''])) []
     | _ \<Rightarrow> [])"

definition NETCUP_LIMIT :: nat where "NETCUP_LIMIT = 100"
definition NETCUP_MAX_PAGES :: nat where "NETCUP_MAX_PAGES = 50"

text \<open>The exchange of the refresh token, the list by limit and offset, the detail of an identifier.\<close>

record netcup_api =
  kx_token :: "(nat option \<times> string) + string option"
  kx_list :: "string \<Rightarrow> nat \<Rightarrow> nat \<Rightarrow> string + json"
  kx_detail :: "string \<Rightarrow> string \<Rightarrow> string + json"

definition netcup_access_token :: "netcup_api \<Rightarrow> string option \<Rightarrow> string option \<times> (string + string)" where
  "netcup_access_token A held =
     (if truthy held then (held, Inr (the held))
      else case kx_token A of
        Inl (status, m) \<Rightarrow> (held, Inl (if status \<in> {Some 400, Some 401}
            then ''netcup: invalid or expired refresh token -- re-authorize via the SCP device flow'' else m))
      | Inr t \<Rightarrow> if truthy t then (t, Inr (the t)) else (held, Inl ''no access_token in token response''))"

definition map_with_detail :: "(json \<Rightarrow> string) \<Rightarrow> netcup_api \<Rightarrow> string \<Rightarrow> json \<Rightarrow> service_data" where
  "map_with_detail S A token s = (case given s ''id'' of None \<Rightarrow> map_netcup_server S s
     | Some i \<Rightarrow> (case kx_detail A token (S i) of Inl _ \<Rightarrow> map_netcup_server S s
         | Inr d \<Rightarrow> map_netcup_server S (if d = JNull then s else d)))"

definition netcup_account :: "string + account_data" where
  "netcup_account = Inr \<lparr> ad_balance = None, ad_currency = ''EUR'' \<rparr>"

definition netcup_services :: "(json \<Rightarrow> string) \<Rightarrow> netcup_api \<Rightarrow> string option \<Rightarrow> string option \<times> (string + service_data list)" where
  "netcup_services S A held = (case netcup_access_token A held of (h, Inl e) \<Rightarrow> (h, Inl e)
     | (h, Inr token) \<Rightarrow> (h, map_sum id (map (map_with_detail S A token))
         (page_loop (\<lambda>page. kx_list A token NETCUP_LIMIT (page * NETCUP_LIMIT)) netcup_array (\<lambda>d out. length (netcup_array d) < NETCUP_LIMIT)
            NETCUP_MAX_PAGES 0 [])))"

section \<open>The device flow of netcup\<close>

record device_reply =
  dr_device :: "string option"
  dr_user :: "string option"
  dr_uri :: "string option"
  dr_uri_complete :: "string option"
  dr_interval :: "rat option"
  dr_expires :: "rat option"

record device_start =
  dv_device :: string
  dv_user :: string
  dv_uri :: string
  dv_uri_complete :: string
  dv_interval :: rat
  dv_expires :: rat

definition device_flow_start :: "string + device_reply \<Rightarrow> string + device_start" where
  "device_flow_start r = (case r of Inl e \<Rightarrow> Inl e
     | Inr d \<Rightarrow> if \<not> truthy (dr_device d) \<or> \<not> truthy (dr_user d) then Inl ''netcup: unexpected device authorization response''
         else Inr \<lparr> dv_device = the (dr_device d), dv_user = the (dr_user d), dv_uri = coalesce (dr_uri d) [],
           dv_uri_complete = coalesce (first_some [dr_uri_complete d, dr_uri d]) [],
           dv_interval = (case dr_interval d of Some n \<Rightarrow> if 0 < n then n else 5 | None \<Rightarrow> 5),
           dv_expires = (case dr_expires d of Some n \<Rightarrow> if 0 < n then n else 600 | None \<Rightarrow> 600) \<rparr>)"

datatype device_poll = Authorized string | Pending | Expired string | Denied string | Poll_error string

record token_reply =
  tr_refresh :: "string option"
  tr_error :: "string option"
  tr_description :: "string option"

text \<open>A failed request: the object of its body, where it has one, and its message.\<close>

definition device_flow_poll :: "(token_reply option \<times> string) + token_reply \<Rightarrow> string + device_poll" where
  "device_flow_poll r =
     (let answer = (\<lambda>d. if truthy (tr_refresh d) then Authorized (the (tr_refresh d))
            else if tr_error d \<in> {Some ''authorization_pending'', Some ''slow_down''} then Pending
            else if tr_error d = Some ''expired_token'' then Expired ''Device code expired -- start again''
            else if tr_error d = Some ''access_denied'' then Denied ''Authorization was declined''
            else Poll_error (coalesce (first_some [tr_description d, tr_error d]) ''unknown error''))
      in case r of Inr d \<Rightarrow> Inr (answer d) | Inl (Some d, m) \<Rightarrow> Inr (answer d) | Inl (None, m) \<Rightarrow> Inl m)"

section \<open>Pages of any size\<close>

lemma storm_pages_prefix:
  assumes "\<And>off. A STORMWALL_LIMIT off = Inr \<lparr> sg_results = Some (take (psize off) (drop off xs)), sg_total = Some (length xs) \<rparr>"
    and "\<And>off. low \<le> psize off" "0 < low"
    and "off \<le> length xs"
  shows "\<exists>k. storm_pages n A off (take off xs) = Inr (take k xs) \<and> min (length xs) (off + n * low) \<le> k"
  using assms(4)
proof (induction n arbitrary: off)
  case 0
  show ?case by (intro exI [of _ off]) simp
next
  case (Suc n)
  let ?r = "take (psize off) (drop off xs)" and ?m = "off + length (take (psize off) (drop off xs))"
  have o: "take off xs @ ?r = take ?m xs"
    by (simp add: take_add min_def)
  have m: "?m \<le> length xs" using Suc.prems by simp
  show ?case
  proof (cases "?r = [] \<or> length xs \<le> ?m")
    case True
    then have full: "length xs \<le> ?m" using assms(2) [of off] assms(3) by auto
    then have "storm_pages (Suc n) A off (take off xs) = Inr (take ?m xs)"
      using assms(1) [of off] True by (simp add: Let_def o [simplified])
    then show ?thesis using full by (intro exI [of _ ?m]) simp
  next
    case False
    then have l: "length ?r = psize off" by auto
    have "storm_pages (Suc n) A off (take off xs) = storm_pages n A ?m (take ?m xs)"
      unfolding storm_pages.simps assms(1) using False o by (simp add: Let_def)
    moreover obtain k where "storm_pages n A ?m (take ?m xs) = Inr (take k xs)" "min (length xs) (?m + n * low) \<le> k"
      using Suc.IH [OF m] by blast
    moreover have "off + Suc n * low \<le> ?m + n * low" using l assms(2) [of off] by simp
    ultimately show ?thesis by (intro exI [of _ k]) (auto simp: min_def split: if_splits)
  qed
qed

text \<open>A server that answers with pages of any sizes, also smaller ones than asked for, is read without a gap or a
  repetition, and in full when 50 pages of the smallest size hold the list.\<close>

theorem stormwall_any_page_size:
  assumes "\<And>off. A STORMWALL_LIMIT off = Inr \<lparr> sg_results = Some (take (psize off) (drop off xs)), sg_total = Some (length xs) \<rparr>"
    and "\<And>off. low \<le> psize off" "0 < low"
  shows "\<exists>k. stormwall_paginate A = Inr (take k xs) \<and> (length xs \<le> 50 * low \<longrightarrow> stormwall_paginate A = Inr xs)"
proof -
  obtain k where k: "storm_pages 50 A 0 (take 0 xs) = Inr (take k xs)" "min (length xs) (0 + 50 * low) \<le> k"
    using storm_pages_prefix [where A = A and psize = psize and xs = xs and low = low and n = 50 and off = 0, OF assms] by blast
  then show ?thesis by (auto simp: stormwall_paginate_def STORMWALL_MAX_PAGES_def min_def)
qed

theorem stormwall_any_page_size_witness:
  "stormwall_paginate (\<lambda>l off. Inr \<lparr> sg_results = Some (take 2 (drop off [1, 2, 3 :: nat])), sg_total = Some (length [1, 2, 3 :: nat]) \<rparr>) = Inr [1, 2, 3]"
  using stormwall_any_page_size [of "\<lambda>l off. Inr \<lparr> sg_results = Some (take 2 (drop off [1, 2, 3 :: nat])), sg_total = Some (length [1, 2, 3 :: nat]) \<rparr>"
      "\<lambda>off. 2" "[1, 2, 3]" 2] by auto

end
