(* ===== verification/Portals.thy ===== *)
theory Portals
  imports Wire
begin

text \<open>
  connectors/beget and connectors/doubleservers: portals that are signed in to with a password and, where it is
  asked for, a one-time code (hmac gives its digest and now is the clock).  P is Date.parse; numbers of the
  replies are taken as they are.  A dash in a message is --.
\<close>

section \<open>Beget: mapper\<close>

record beget_vps =
  bv_id :: string
  bv_slug :: "string option"
  bv_display :: "string option"
  bv_hostname :: "string option"
  bv_region :: "string option"
  bv_ip :: "string option"
  bv_ips :: "string list"
  bv_price_month :: "rat option"
  bv_raw :: json

record beget_cloud =
  bg_id :: string
  bg_slug :: "string option"
  bg_display :: "string option"
  bg_type :: "string option"
  bg_region :: "string option"
  bg_price_month :: "rat option"
  bg_raw :: json

definition BEGET_CURRENCY :: ccy where "BEGET_CURRENCY = ''RUB''"
definition BEGET_IP_MONTHLY_RUB :: rat where "BEGET_IP_MONTHLY_RUB = 150"

definition beget_ip_count :: "beget_vps \<Rightarrow> nat" where
  "beget_ip_count v = length (foldl (\<lambda>ips ip. if ip = [] then ips else add_new ips ip) (if truthy (bv_ip v) then [the (bv_ip v)] else []) (bv_ips v))"

definition region_country :: "string option \<Rightarrow> (string \<times> string) list \<Rightarrow> string option" where
  "region_country region regions =
     (if \<not> truthy region then None
      else let r = the region in
        if truthy (mget regions r) then Some (to_upper (the (mget regions r)))
        else if 3 \<le> length r \<and> is_latin (r ! 0) \<and> is_latin (r ! 1) \<and> is_digit (r ! 2) then Some (to_upper (take 2 r)) else None)"

definition beget_cloud_type :: "string option \<Rightarrow> string" where
  "beget_cloud_type type =
     (let t = to_upper (coalesce type []) in
      if has_part ''MYSQL'' t \<or> has_part ''POSTGRE'' t then ''db'' else if has_part ''CDN'' t then ''cdn''
      else if has_part ''S_3'' t \<or> has_part ''S3'' t \<or> has_part ''NETWORK_DRIVE'' t then ''storage'' else ''other'')"

definition map_beget_vps :: "decimal_lib \<Rightarrow> beget_vps \<Rightarrow> (string \<times> string) list \<Rightarrow> service_data" where
  "map_beget_vps D v regions =
     \<lparr> sd_external = ''vps:'' @ bv_id v, sd_name = or_text (bv_display v) (or_text (bv_slug v) (or_text (bv_hostname v) (''vps-'' @ bv_id v))),
       sd_type = ''vps'', sd_country = region_country (bv_region v) regions,
       sd_cost = map_option (\<lambda>p. dadd D p (dmul D BEGET_IP_MONTHLY_RUB (of_nat (beget_ip_count v)))) (bv_price_month v),
       sd_currency = Some BEGET_CURRENCY, sd_period = Some Monthly, sd_next = Nb_undefined,
       sd_meta =
         (let cfg = coalesce (given (bv_raw v) ''configuration'') (JObj []); os = coalesce (given (bv_raw v) ''software'') JNull in
          pick_fields (bv_raw v) [(''slug'', ''slug''), (''hostname'', ''hostname''), (''status'', ''status''), (''region'', ''region''), (''ip'', ''ip_address'')] @
          [(''ipCount'', JNum (of_nat (beget_ip_count v)))] @
          pick_fields cfg [(''configuration'', ''name''), (''group'', ''group''), (''cpu'', ''cpu_count''), (''memoryMb'', ''memory''),
            (''diskMb'', ''disk_size''), (''priceDay'', ''price_day'')] @
          json_field ''os'' (case given os ''display_name'' of Some j \<Rightarrow> Some j | None \<Rightarrow> json_prop os ''name'') @
          pick_fields os [(''osVersion'', ''version'')] @ pick_fields (bv_raw v) [(''created'', ''date_create'')]) \<rparr>"

definition map_beget_cloud :: "beget_cloud \<Rightarrow> (string \<times> string) list \<Rightarrow> service_data" where
  "map_beget_cloud s regions =
     \<lparr> sd_external = ''cloud:'' @ bg_id s, sd_name = or_text (bg_display s) (or_text (bg_slug s) (''service-'' @ bg_id s)),
       sd_type = beget_cloud_type (bg_type s), sd_country = region_country (bg_region s) regions,
       sd_cost = (case bg_price_month s of Some p \<Rightarrow> if 0 < p then Some p else None | None \<Rightarrow> None),
       sd_currency = Some BEGET_CURRENCY, sd_period = Some Monthly, sd_next = Nb_undefined, 
       sd_meta = pick_fields (bg_raw s) [(''begetType'', ''type''), (''status'', ''status''), (''region'', ''region''), (''slug'', ''slug''), (''priceDay'', ''price_day'')] \<rparr>"

section \<open>Beget: connector\<close>

definition BEGET_TWO_FACTOR :: string where
  "BEGET_TWO_FACTOR = ''Beget: authenticator-app (TOTP) 2FA is enabled but no TOTP secret is set. Add the base32 TOTP '' @
     ''secret in the provider settings so the sync can generate the one-time code itself.''"

definition is_totp_required :: "string option \<Rightarrow> bool" where
  "is_totp_required e = (e = Some ''CODE_REQUIRED_TOTP'' \<or> e = Some ''CODE_REQUIRED'')"

definition auth_error_message :: "string option \<Rightarrow> string" where
  "auth_error_message e =
     (if e = Some ''INCORRECT_CREDENTIALS'' then ''Beget: invalid account login or password.''
      else if e = Some ''INCORRECT_CODE'' then ''Beget: the 2FA code was rejected -- check the TOTP secret and the server clock.''
      else if e = Some ''CODE_REQUIRED_EMAIL'' \<or> e = Some ''CODE_REQUIRED_SMS''
        then ''Beget: SMS/email 2FA cannot be automated -- switch to an authenticator app (TOTP) or disable 2FA.''
      else if e = Some ''IP_BLOCKED'' then ''Beget: API authentication from this IP is blocked (check IP restrictions in the panel).''
      else if e = Some ''EXPIRED_PASSWORD'' then ''Beget: the account password has expired -- update it in the Beget panel.''
      else ''Beget: authentication failed ('' @ coalesce e ''unknown error'' @ '').'')"

record portal_credentials =
  pc_username :: string
  pc_password :: string
  pc_totp :: "string option"
  pc_api :: "string option"

text \<open>A failed request: the header x-error-result and the status, where it has them, and its message.\<close>

type_synonym beget_failure = "string option \<times> string \<times> string"

record beget_legacy =
  bl_status :: "string option"
  bl_answer :: "string option"
  bl_text :: "string option"
  bl_code :: "string option"
  bl_balance :: "rat option"

record beget_api =
  bx_login :: "string \<Rightarrow> string \<Rightarrow> string option \<Rightarrow> beget_failure + (string option \<times> string option)"
  bx_regions :: "string \<Rightarrow> beget_failure + (string option \<times> string option) list"
  bx_vps :: "string \<Rightarrow> beget_failure + beget_vps list option"
  bx_cloud :: "string \<Rightarrow> beget_failure + beget_cloud list option"
  bx_legacy :: "string \<Rightarrow> string \<Rightarrow> beget_failure + beget_legacy"

definition beget_error :: "beget_failure \<Rightarrow> string" where
  "beget_error f = (case f of (xer, status, m) \<Rightarrow> if truthy xer then ''Beget API: '' @ the xer @ '' (HTTP '' @ status @ '')'' else m)"

definition beget_auth_token :: "(nat list \<Rightarrow> nat list \<Rightarrow> nat list) \<Rightarrow> portal_credentials \<Rightarrow> ms \<Rightarrow> beget_api \<Rightarrow> string option \<Rightarrow> string option \<times> (string + string)" where
  "beget_auth_token hmac c now A held =
     (let finish = (\<lambda>r. case r of Inl f \<Rightarrow> (held, Inl (beget_error f))
            | Inr (token, e) \<Rightarrow> if truthy token then (token, Inr (the token)) else (held, Inl (auth_error_message e)))
      in if truthy held then (held, Inr (the held))
      else case bx_login A (pc_username c) (pc_password c) None of Inl f \<Rightarrow> (held, Inl (beget_error f))
      | Inr (token, e) \<Rightarrow>
          if \<not> truthy token \<and> is_totp_required e
          then if \<not> truthy (pc_totp c) then (held, Inl BEGET_TWO_FACTOR)
            else finish (bx_login A (pc_username c) (pc_password c) (truthy_opt (Some (totp_code hmac (the (pc_totp c)) now))))
          else finish (Inr (token, e)))"

definition beget_account :: "portal_credentials \<Rightarrow> beget_api \<Rightarrow> string + account_data" where
  "beget_account c A =
     (if \<not> truthy (pc_api c) then Inr \<lparr> ad_balance = None, ad_currency = BEGET_CURRENCY \<rparr>
      else case bx_legacy A (pc_username c) (the (pc_api c)) of Inl f \<Rightarrow> Inl (beget_error f)
      | Inr d \<Rightarrow> if bl_status d \<noteq> Some ''success'' \<or> bl_answer d \<noteq> Some ''success''
          then Inl (''Beget (balance): '' @ or_text (bl_text d) (or_text (bl_code d) ''legacy API rejected the request''))
          else Inr \<lparr> ad_balance = bl_balance d, ad_currency = BEGET_CURRENCY \<rparr>)"

definition beget_regions :: "beget_api \<Rightarrow> string \<Rightarrow> (string \<times> string) list" where
  "beget_regions A token = (case bx_regions A token of Inl _ \<Rightarrow> []
     | Inr rs \<Rightarrow> foldl (\<lambda>m (i, c). if truthy i \<and> truthy c then mset_to (the i) (the c) m else m) [] rs)"

definition beget_services :: "decimal_lib \<Rightarrow> beget_api \<Rightarrow> string \<Rightarrow> string + service_data list" where
  "beget_services D A token =
     (case bx_vps A token of Inl f \<Rightarrow> Inl (beget_error f)
      | Inr vps \<Rightarrow> (case bx_cloud A token of Inl f \<Rightarrow> Inl (beget_error f)
          | Inr cloud \<Rightarrow> Inr (map (\<lambda>v. map_beget_vps D v (beget_regions A token)) (coalesce vps []) @
              map (\<lambda>s. map_beget_cloud s (beget_regions A token)) (coalesce cloud []))))"

section \<open>Double Servers: mapper\<close>

record ds_server =
  ds_id :: nat
  ds_name :: string
  ds_location :: "string option"
  ds_location_name :: "string option"
  ds_expires :: "string option"
  ds_price :: "rat option"
  ds_raw :: json

record ds_topup =
  dt_id :: string
  dt_eur :: rat
  dt_method :: "string option"
  dt_confirmed :: "string option"

record ds_item =
  di_id :: nat
  di_created :: "string option"
  di_type :: "string option"
  di_kind :: "string option"
  di_amount :: rat
  di_description :: "string option"

definition DOUBLESERVERS_CURRENCY :: ccy where "DOUBLESERVERS_CURRENCY = ''EUR''"

definition COUNTRY_BY_NAME :: "(string \<times> string) list" where
  "COUNTRY_BY_NAME = [(''germany'', ''DE''), (''finland'', ''FI''), (''france'', ''FR''), (''netherlands'', ''NL''), (''singapore'', ''SG''),
     (''united states'', ''US''), (''usa'', ''US''), (''poland'', ''PL''), (''sweden'', ''SE''), (''austria'', ''AT''), (''switzerland'', ''CH''),
     (''united kingdom'', ''GB''), (''uk'', ''GB'')]"

definition ds_country :: "string option \<Rightarrow> string option \<Rightarrow> string option" where
  "ds_country location location_name =
     (let name = to_lower (trim (hd (split_on (CHR '','') (coalesce location_name [])))); loc = to_lower (coalesce location []) in
      case map_of COUNTRY_BY_NAME name of Some c \<Rightarrow> Some c
      | None \<Rightarrow> if starts_with ''ger'' loc \<or> starts_with ''fsn'' loc \<or> starts_with ''nbg'' loc then Some ''DE''
          else if starts_with ''hel'' loc then Some ''FI'' else if starts_with ''ash'' loc \<or> starts_with ''hil'' loc then Some ''US''
          else if starts_with ''sin'' loc then Some ''SG'' else None)"

definition map_ds_server :: "(string \<Rightarrow> ms option) \<Rightarrow> ds_server \<Rightarrow> service_data" where
  "map_ds_server P s =
     \<lparr> sd_external = nat_text (ds_id s), sd_name = or_text (Some (ds_name s)) (''ds-'' @ nat_text (ds_id s)), sd_type = ''vps'',
       sd_country = ds_country (ds_location s) (ds_location_name s), sd_cost = ds_price s, sd_currency = Some DOUBLESERVERS_CURRENCY,
       sd_period = Some Monthly, sd_next = next_of (parse_date P (ds_expires s)), 
       sd_meta = pick_fields (ds_raw s) [(''ip'', ''ip''), (''status'', ''status''), (''frozen'', ''frozen''), (''blocked'', ''blocked''),
         (''autoRenew'', ''auto_renew''), (''plan'', ''plan''), (''location'', ''location''), (''locationName'', ''location_name''),
         (''hostProvider'', ''provider''), (''os'', ''os''), (''created'', ''created_at'')] \<rparr>"

definition map_ds_topup :: "(string \<Rightarrow> ms option) \<Rightarrow> ds_topup \<Rightarrow> payment_data option" where
  "map_ds_topup P t = (case parse_date P (dt_confirmed t) of None \<Rightarrow> None
     | Some date \<Rightarrow> Some \<lparr> pd_external = ''topup:'' @ dt_id t, pd_type = Topup, pd_amount = dt_eur t, pd_currency = DOUBLESERVERS_CURRENCY,
         pd_date = Some date, pd_description = dt_method t, pd_service_external = None \<rparr>)"

definition map_ds_charge :: "(string \<Rightarrow> ms option) \<Rightarrow> nat \<Rightarrow> ds_item \<Rightarrow> payment_data option" where
  "map_ds_charge P server item =
     (if to_lower (coalesce (di_kind item) []) \<noteq> ''debit'' then None
      else case parse_date P (di_created item) of None \<Rightarrow> None
      | Some date \<Rightarrow> if \<bar>di_amount item\<bar> \<le> 0 then None
          else Some \<lparr> pd_external = ''charge:'' @ nat_text (di_id item), pd_type = Charge, pd_amount = \<bar>di_amount item\<bar>,
            pd_currency = DOUBLESERVERS_CURRENCY, pd_date = Some date, pd_description = first_some [di_description item, di_type item],
            pd_service_external = Some (nat_text server) \<rparr>)"

section \<open>Double Servers: connector\<close>

definition DS_PAGE :: nat where "DS_PAGE = 100"
definition DS_MAX_PAGES :: nat where "DS_MAX_PAGES = 50"

definition DS_TWO_FACTOR :: string where
  "DS_TWO_FACTOR = ''Double Servers: authenticator-app (TOTP) 2FA is enabled but no TOTP secret is set. Add the base32 TOTP '' @
     ''secret in the provider settings so the sync can generate the one-time code itself.''"

text \<open>(?:^|,\s*)access_token=([^;]+): what follows the start, or a comma and white space.\<close>

fun comma_suffixes :: "string \<Rightarrow> string list" where
  "comma_suffixes [] = []"
| "comma_suffixes (c # s) = (if c = CHR '','' then dropWhile js_space s # comma_suffixes s else comma_suffixes s)"

definition cookie_token :: "string \<Rightarrow> string option" where
  "cookie_token raw = first_some (map (\<lambda>s. if starts_with ''access_token='' s
     then truthy_opt (Some (takeWhile (\<lambda>c. c \<noteq> CHR '';'') (drop 13 s))) else None) (raw # comma_suffixes raw))"

definition extract_access_token :: "string list \<Rightarrow> string option" where
  "extract_access_token cookies = first_some (map cookie_token cookies)"

definition format_detail :: "json option \<Rightarrow> string option" where
  "format_detail d = (case d of
       Some (JStr s) \<Rightarrow> if trim s = [] then None else Some s
     | Some (JArr es) \<Rightarrow> truthy_opt (Some (join_with ''; '' (filter (\<lambda>m. m \<noteq> [])
         (List.map_filter (\<lambda>e. case e of JStr t \<Rightarrow> Some t | _ \<Rightarrow> (case json_prop e ''msg'' of Some (JStr t) \<Rightarrow> Some t | _ \<Rightarrow> None)) es))))
     | _ \<Rightarrow> None)"

record ds_login =
  dl_status :: nat
  dl_detail :: "json option"
  dl_totp :: bool
  dl_cookies :: "string list"

definition login_error_message :: "ds_login \<Rightarrow> string" where
  "login_error_message r = (case format_detail (dl_detail r) of Some d \<Rightarrow> ''Double Servers: '' @ d
     | None \<Rightarrow> if dl_totp r then DS_TWO_FACTOR else ''Double Servers: login failed'')"

text \<open>A failed request: the detail of its body, and its message.\<close>

type_synonym ds_failure = "json option \<times> string"

definition ds_error :: "ds_failure \<Rightarrow> string" where
  "ds_error f = (case format_detail (fst f) of Some d \<Rightarrow> ''Double Servers: '' @ d | None \<Rightarrow> snd f)"

record 'a ds_page =
  dg_items :: "'a list option"
  dg_total :: "nat option"

record ds_api =
  dx_login :: "string \<Rightarrow> string \<Rightarrow> string option \<Rightarrow> ds_failure + ds_login"
  dx_me :: "string \<Rightarrow> ds_failure + rat option"
  dx_servers :: "string \<Rightarrow> ds_failure + ds_server list option"
  dx_topups :: "string \<Rightarrow> nat \<Rightarrow> ds_failure + ds_topup ds_page"
  dx_history :: "string \<Rightarrow> nat \<Rightarrow> nat \<Rightarrow> ds_failure + ds_item ds_page"

text \<open>login: the token it leaves, and the reply or the error.\<close>

definition ds_login_step :: "portal_credentials \<Rightarrow> ds_api \<Rightarrow> string option \<Rightarrow> string option \<Rightarrow> string option \<times> (string + ds_login)" where
  "ds_login_step c A code held = (case dx_login A (pc_username c) (pc_password c) (truthy_opt code) of Inl f \<Rightarrow> (held, Inl (ds_error f))
     | Inr r \<Rightarrow> if 400 \<le> dl_status r then (held, Inl (login_error_message r))
         else if dl_totp r then (held, Inr r)
         else (case extract_access_token (dl_cookies r) of
             None \<Rightarrow> (held, Inl ''Double Servers: login succeeded but no access_token cookie was set'')
           | Some t \<Rightarrow> (Some t, Inr r)))"

definition ds_auth_token :: "(nat list \<Rightarrow> nat list \<Rightarrow> nat list) \<Rightarrow> portal_credentials \<Rightarrow> ms \<Rightarrow> ds_api \<Rightarrow> string option \<Rightarrow> string option \<times> (string + string)" where
  "ds_auth_token hmac c now A held =
     (let finish = (\<lambda>r. case r of (h, Inl e) \<Rightarrow> (h, Inl e)
            | (h, Inr l) \<Rightarrow> if truthy h then (h, Inr (the h)) else (h, Inl (login_error_message l)))
      in if truthy held then (held, Inr (the held))
      else case ds_login_step c A None held of (h, Inl e) \<Rightarrow> (h, Inl e)
      | (h, Inr l) \<Rightarrow>
          if dl_totp l then if \<not> truthy (pc_totp c) then (h, Inl DS_TWO_FACTOR)
            else finish (ds_login_step c A (Some (totp_code hmac (the (pc_totp c)) now)) h)
          else finish (h, Inr l))"

definition ds_paginate :: "(nat \<Rightarrow> ds_failure + 'a ds_page) \<Rightarrow> string + 'a list" where
  "ds_paginate ask = page_loop (\<lambda>page. case ask page of Inl f \<Rightarrow> Inl (ds_error f) | Inr p \<Rightarrow> Inr (page, p))
     (\<lambda>r. coalesce (dg_items (snd r)) []) (\<lambda>r out. coalesce (dg_total (snd r)) 1 \<le> fst r + 1 \<or> coalesce (dg_items (snd r)) [] = []) DS_MAX_PAGES 0 []"

definition ds_account :: "ds_api \<Rightarrow> string \<Rightarrow> string + account_data" where
  "ds_account A token = (case dx_me A token of Inl f \<Rightarrow> Inl (ds_error f)
     | Inr b \<Rightarrow> Inr \<lparr> ad_balance = Some (coalesce b 0), ad_currency = DOUBLESERVERS_CURRENCY \<rparr>)"

definition ds_services :: "(string \<Rightarrow> ms option) \<Rightarrow> ds_api \<Rightarrow> string \<Rightarrow> string + service_data list" where
  "ds_services P A token = (case dx_servers A token of Inl f \<Rightarrow> Inl (ds_error f) | Inr ss \<Rightarrow> Inr (map (map_ds_server P) (coalesce ss [])))"

text \<open>The histories are all read before the first charge is mapped.\<close>

definition ds_payments :: "(string \<Rightarrow> ms option) \<Rightarrow> ds_api \<Rightarrow> string \<Rightarrow> string + payment_data list" where
  "ds_payments P A token =
     (case ds_paginate (dx_topups A token) of Inl e \<Rightarrow> Inl e
      | Inr topups \<Rightarrow> (case dx_servers A token of Inl f \<Rightarrow> Inl (ds_error f)
          | Inr ss \<Rightarrow> map_sum id (\<lambda>hs. List.map_filter (map_ds_topup P) topups @
                concat (map (\<lambda>(s, items). List.map_filter (map_ds_charge P (ds_id s)) items) hs))
              (map_all (\<lambda>s. map_sum id (\<lambda>items. (s, items)) (ds_paginate (dx_history A token (ds_id s)))) (coalesce ss []))))"

section \<open>Both lists, or none\<close>

text \<open>The machines and the managed services come together: an answer holds all of both lists, under ids that differ
  between them, and when either list fails there is no answer, so that nothing is switched off.\<close>

theorem beget_both_lists:
  "(beget_services D A token = Inr ss) =
     (\<exists>vps cloud. bx_vps A token = Inr vps \<and> bx_cloud A token = Inr cloud \<and>
        ss = map (\<lambda>v. map_beget_vps D v (beget_regions A token)) (coalesce vps []) @ map (\<lambda>s. map_beget_cloud s (beget_regions A token)) (coalesce cloud []) \<and>
        map sd_external ss = map (\<lambda>v. ''vps:'' @ bv_id v) (coalesce vps []) @ map (\<lambda>s. ''cloud:'' @ bg_id s) (coalesce cloud []))"
  by (auto simp: beget_services_def map_beget_vps_def map_beget_cloud_def comp_def split: sum.splits)

lemma add_new_set: "set (foldl (\<lambda>ips ip. if ip = [] then ips else add_new ips ip) l xs) = set l \<union> (set xs - {[]})"
  by (induction xs arbitrary: l) (auto simp: add_new_def)

lemma add_new_distinct: "distinct l \<Longrightarrow> distinct (foldl (\<lambda>ips ip. if ip = [] then ips else add_new ips ip) l xs)"
  by (induction xs arbitrary: l) (auto simp: add_new_def)

text \<open>Every address of a machine is charged once, whether it is the primary one, an additional one, or both.\<close>

theorem beget_ip_surcharge:
  "beget_ip_count v = card ((set (bv_ips v) \<union> set_option (bv_ip v)) - {[]}) \<and>
   sd_cost (map_beget_vps D v regions) = map_option (\<lambda>p. dadd D p (dmul D 150 (of_nat (card ((set (bv_ips v) \<union> set_option (bv_ip v)) - {[]}))))) (bv_price_month v)"
proof -
  let ?l = "if truthy (bv_ip v) then [the (bv_ip v)] else []"
  have l: "distinct ?l" "set ?l = set_option (bv_ip v) - {[]}" by (cases "bv_ip v"; auto)+
  have "beget_ip_count v = card (set (foldl (\<lambda>ips ip. if ip = [] then ips else add_new ips ip) ?l (bv_ips v)))"
    unfolding beget_ip_count_def using distinct_card [OF add_new_distinct [OF l(1)]] by simp
  also have "\<dots> = card ((set (bv_ips v) \<union> set_option (bv_ip v)) - {[]})" unfolding add_new_set l(2) by (rule arg_cong [where f = card]) blast
  finally have "beget_ip_count v = card ((set (bv_ips v) \<union> set_option (bv_ip v)) - {[]})" .
  then show ?thesis by (simp add: map_beget_vps_def BEGET_IP_MONTHLY_RUB_def)
qed

end
