(* ===== verification/Vdsina.thy ===== *)
theory Vdsina
  imports Wire Credentials
begin

text \<open>
  connectors/vdsina.  A server stays the object that the API sent, because the connector merges the list row, the
  detail and the plan of the catalogue into one and stores parts of it; the members that the schema
  calls texts or numbers are read as such.  F is String on a number, P is Date.parse, Q the constructor
  of Decimal on a text.  The promises of the plan catalogue are a map that is passed along.
\<close>

section \<open>vdsina.types.ts\<close>

text \<open>The two branches with the currency each bills in.\<close>

definition VDSINA_CURRENCIES :: "(string \<times> ccy) list" where
  "VDSINA_CURRENCIES = [(''https://userapi.vdsina.ru'', ''RUB''), (''https://userapi.vdsina.com'', ''USD'')]"

record 'a vd_envelope =
  ve_status :: string
  ve_msg :: "string option"
  ve_description :: "string option"
  ve_data :: "'a option"

text \<open>payment and service of an operation are kept by what is read of them, the name and the id.\<close>

record vd_operation =
  vo_id :: nat
  vo_purse :: "string option"
  vo_type :: int
  vo_status :: int
  vo_summ :: "js_num option"
  vo_created :: "string option"
  vo_updated :: "string option"
  vo_comment :: "string option"
  vo_payment :: "string option"
  vo_service :: "nat option"

section \<open>Objects\<close>

text \<open>Truthiness of a member that may be absent; o?.k; a member that is a text or a number.\<close>

definition js_true :: "json option \<Rightarrow> bool" where
  "js_true v = (case v of None \<Rightarrow> False | Some JNull \<Rightarrow> False | Some (JBool b) \<Rightarrow> b | Some (JNum r) \<Rightarrow> r \<noteq> 0 | Some (JStr s) \<Rightarrow> s \<noteq> [] | _ \<Rightarrow> True)"

definition sub_prop :: "json option \<Rightarrow> string \<Rightarrow> json option" where
  "sub_prop v k = Option.bind v (\<lambda>j. json_prop j k)"

definition prop_text :: "json option \<Rightarrow> string \<Rightarrow> string option" where
  "prop_text v k = (case sub_prop v k of Some (JStr s) \<Rightarrow> Some s | _ \<Rightarrow> None)"

definition prop_number :: "json option \<Rightarrow> string \<Rightarrow> js_num option" where
  "prop_number v k = (case sub_prop v k of Some (JNum r) \<Rightarrow> Some (Num r) | Some (JStr s) \<Rightarrow> Some (Txt s) | _ \<Rightarrow> None)"

text \<open>{ ...m, ...j } and { ...m, k: v } where v may be undefined.\<close>

definition merge_obj :: "json_obj \<Rightarrow> json option \<Rightarrow> json_obj" where
  "merge_obj m j = (case j of Some (JObj fs) \<Rightarrow> foldl (\<lambda>m (k, v). mset_to k v m) m fs | _ \<Rightarrow> m)"

definition set_prop :: "string \<Rightarrow> json option \<Rightarrow> json_obj \<Rightarrow> json_obj" where
  "set_prop k v m = (case v of Some x \<Rightarrow> mset_to k x m | None \<Rightarrow> filter (\<lambda>e. fst e \<noteq> k) m)"

section \<open>vdsina.mapper.ts\<close>

definition VDSINA_PERIODS :: "(string \<times> period) list" where
  "VDSINA_PERIODS = [(''day'', Daily), (''daily'', Daily), (''month'', Monthly), (''monthly'', Monthly), (''year'', Yearly), (''yearly'', Yearly)]"

definition as_decimal :: "(string \<Rightarrow> rat option) \<Rightarrow> js_num option \<Rightarrow> string + rat option" where
  "as_decimal Q v = (case v of None \<Rightarrow> Inr None | Some (Num r) \<Rightarrow> Inr (Some r)
     | Some (Txt s) \<Rightarrow> if s = [] then Inr None else map_sum id Some (read_amount Q s))"

text \<open>The pattern (Z|[+-]\d{2}:?\d{2})$\<close>

definition ends_in_zone :: "string \<Rightarrow> bool" where
  "ends_in_zone s =
     (let t = rev s; sign = (\<lambda>c. c = CHR ''+'' \<or> c = CHR ''-'') in
      t \<noteq> [] \<and> hd t = CHR ''Z'' \<or> 5 \<le> length t \<and> list_all is_digit (take 4 t) \<and> sign (t ! 4) \<or>
      6 \<le> length t \<and> list_all is_digit (take 2 t) \<and> t ! 2 = CHR '':'' \<and> list_all is_digit (take 2 (drop 3 t)) \<and> sign (t ! 5))"

definition vdsina_date :: "(string \<Rightarrow> ms option) \<Rightarrow> string option \<Rightarrow> ms option" where
  "vdsina_date P s =
     (if \<not> truthy s then None
      else let a = replace_first (CHR '' '') ''T'' (the s);
               b = (if day_prefix a = Some a then a @ ''T00:00:00'' else a)
        in P (if ends_in_zone b then b else b @ ''+03:00''))"

definition primary_ip :: "json option \<Rightarrow> string option" where
  "primary_ip ip =
     first_some (map (\<lambda>i. case i of Some (JStr s) \<Rightarrow> if s = [] then None else Some s | _ \<Rightarrow> prop_text i ''ip'')
       (case ip of Some (JArr xs) \<Rightarrow> map Some xs | _ \<Rightarrow> [ip]))"

definition vdsina_country :: "json \<Rightarrow> string option" where
  "vdsina_country s = (case prop_text (json_prop s ''datacenter'') ''country'' of
       Some c \<Rightarrow> if length c = 2 then Some (to_upper c) else None | None \<Rightarrow> None)"

definition vdsina_period :: "json option \<Rightarrow> period option" where
  "vdsina_period plan = (case prop_text plan ''period'' of Some p \<Rightarrow> map_of VDSINA_PERIODS p | None \<Rightarrow> None)"

definition server_id :: "(json \<Rightarrow> string) \<Rightarrow> json \<Rightarrow> string" where "server_id F s = F (coalesce (json_prop s ''id'') JNull)"

definition map_vdsina_server :: "(json \<Rightarrow> string) \<Rightarrow> (string \<Rightarrow> ms option) \<Rightarrow> (string \<Rightarrow> rat option) \<Rightarrow> ccy \<Rightarrow> json \<Rightarrow> string + service_data" where
  "map_vdsina_server F P Q currency s =
     (let plan = json_prop s ''server-plan'' in case as_decimal Q (prop_number plan ''cost'') of Inl e \<Rightarrow> Inl e
      | Inr cost \<Rightarrow> Inr \<lparr> sd_external = server_id F s,
          sd_name = or_text (prop_text (Some s) ''name'') (or_text (prop_text (Some s) ''host'')
            (or_text (primary_ip (json_prop s ''ip'')) (''vdsina-'' @ server_id F s))),
          sd_type = ''vps'', sd_country = vdsina_country s, sd_cost = cost, sd_currency = Some currency, sd_period = vdsina_period plan,
          sd_next = next_of (vdsina_date P (prop_text (Some s) ''end'')),
          sd_meta = pick_fields s [(''ip'', ''ip''), (''host'', ''host''), (''status'', ''status''), (''statusText'', ''status_text''),
            (''datacenter'', ''datacenter''), (''plan'', ''server-plan''), (''template'', ''template''), (''autoprolong'', ''autoprolong''),
            (''created'', ''created'')] \<rparr>)"

definition map_vdsina_operation :: "(string \<Rightarrow> ms option) \<Rightarrow> (string \<Rightarrow> rat option) \<Rightarrow> ccy \<Rightarrow> vd_operation \<Rightarrow> string + payment_data option" where
  "map_vdsina_operation P Q currency w =
     (if vo_status w \<noteq> 1 then Inr None
      else if vo_type w \<noteq> 1 \<and> vo_type w \<noteq> - 1 then Inr None
      else if truthy (vo_purse w) \<and> vo_purse w \<noteq> Some ''real'' then Inr None
      else case as_decimal Q (vo_summ w) of Inl e \<Rightarrow> Inl e | Inr None \<Rightarrow> Inr None
      | Inr (Some r) \<Rightarrow> if \<bar>r\<bar> \<le> 0 then Inr None
          else Inr (Some \<lparr> pd_external = ''operation:'' @ nat_text (vo_id w), pd_type = (if vo_type w = 1 then Topup else Charge), pd_amount = \<bar>r\<bar>,
            pd_currency = currency, pd_date = Some (coalesce (vdsina_date P (first_some [vo_updated w, vo_created w])) 0),
            pd_description = (if truthy (vo_comment w) then vo_comment w else if truthy (vo_payment w) then vo_payment w else None),
            pd_service_external = (case vo_service w of Some (Suc n) \<Rightarrow> Some (nat_text (Suc n)) | _ \<Rightarrow> None) \<rparr>))"

section \<open>vdsina.connector.ts\<close>

definition VDSINA_DEFAULT_URL :: string where "VDSINA_DEFAULT_URL = ''https://userapi.vdsina.ru''"

text \<open>A failed request: description, status_msg and the message of the client; or another error.\<close>

datatype vd_failure = Vf_http "string option" "string option" string | Vf_other string

record vdsina_api =
  vx_balance :: "vd_failure + (js_num option) vd_envelope"
  vx_servers :: "vd_failure + (json list) vd_envelope"
  vx_server :: "string \<Rightarrow> vd_failure + json vd_envelope"
  vx_plans :: "json \<Rightarrow> vd_failure + (json list) vd_envelope"
  vx_operations :: "vd_failure + (vd_operation list) vd_envelope"

definition vdsina_ok :: "vd_failure + 'a vd_envelope \<Rightarrow> string + 'a option" where
  "vdsina_ok r = (case r of
       Inl (Vf_http d m e) \<Rightarrow> Inl (''VDSina: '' @ or_text d (or_text m e)) | Inl (Vf_other e) \<Rightarrow> Inl e
     | Inr v \<Rightarrow> if ve_status v = ''error'' then Inl (''VDSina: '' @ or_text (ve_description v) (or_text (ve_msg v) ''API error'')) else Inr (ve_data v))"

definition vdsina_currency :: "string option \<Rightarrow> string + ccy" where
  "vdsina_currency base = (case map_of VDSINA_CURRENCIES (strip_slashes (coalesce base VDSINA_DEFAULT_URL)) of
       Some c \<Rightarrow> Inr c | None \<Rightarrow> Inl ''VDSina: baseUrl must be https://userapi.vdsina.ru or https://userapi.vdsina.com'')"

text \<open>value !== total: objects and arrays are never the same one.\<close>

definition differs :: "json \<Rightarrow> json \<Rightarrow> bool" where
  "differs a b = (case a of JObj _ \<Rightarrow> True | JArr _ \<Rightarrow> True | _ \<Rightarrow> a \<noteq> b)"

definition is_customized :: "json \<Rightarrow> bool" where
  "is_customized s =
     list_ex (\<lambda>p. case (json_prop p ''value'', json_prop p ''total'') of (Some a, Some b) \<Rightarrow> differs a b | _ \<Rightarrow> False)
       (case json_prop s ''data'' of Some (JObj fs) \<Rightarrow> map snd fs | Some (JArr xs) \<Rightarrow> xs | _ \<Rightarrow> [])"

type_synonym plan_cache = "(json \<times> json list) list"

definition vdsina_plans :: "vdsina_api \<Rightarrow> json \<Rightarrow> plan_cache \<Rightarrow> plan_cache \<times> json list" where
  "vdsina_plans A g cache = (case mget cache g of Some ps \<Rightarrow> (cache, ps)
     | None \<Rightarrow> (let ps = (case vdsina_ok (vx_plans A g) of Inl _ \<Rightarrow> [] | Inr d \<Rightarrow> coalesce d []) in (mset_to g ps cache, ps)))"

definition priced_server :: "json \<Rightarrow> json \<Rightarrow> json" where
  "priced_server s priced = JObj (mset_to ''server-plan''
     (JObj (set_prop ''period'' (json_prop priced ''period'') (set_prop ''cost'' (json_prop priced ''cost'')
        (merge_obj (merge_obj [] (Some priced)) (json_prop s ''server-plan''))))) (merge_obj [] (Some s)))"

definition with_plan_price :: "vdsina_api \<Rightarrow> plan_cache \<Rightarrow> json \<Rightarrow> plan_cache \<times> json" where
  "with_plan_price A cache s =
     (let plan = json_prop s ''server-plan''; group = json_prop s ''server-group'' in
      if \<not> js_true (sub_prop plan ''id'') \<or> js_true (sub_prop plan ''cost'') then (cache, s)
      else if \<not> js_true (sub_prop group ''id'') then (cache, s)
      else let (cache', plans) = vdsina_plans A (the (sub_prop group ''id'')) cache in
        (cache', case find (\<lambda>p. json_prop p ''id'' = sub_prop plan ''id'') plans of None \<Rightarrow> s
           | Some priced \<Rightarrow> if js_true (json_prop priced ''has_params'') \<and> is_customized s then s else priced_server s priced))"

definition with_details :: "(json \<Rightarrow> string) \<Rightarrow> vdsina_api \<Rightarrow> plan_cache \<Rightarrow> json \<Rightarrow> plan_cache \<times> json" where
  "with_details F A cache s = (case vdsina_ok (vx_server A (server_id F s)) of Inl _ \<Rightarrow> (cache, s)
     | Inr d \<Rightarrow> with_plan_price A cache (JObj (merge_obj (merge_obj [] (Some s)) d)))"

fun all_details :: "(json \<Rightarrow> string) \<Rightarrow> vdsina_api \<Rightarrow> plan_cache \<Rightarrow> json list \<Rightarrow> plan_cache \<times> json list" where
  "all_details F A cache [] = (cache, [])"
| "all_details F A cache (s # ss) = (let (c1, x) = with_details F A cache s; (c2, xs) = all_details F A c1 ss in (c2, x # xs))"

definition vdsina_account :: "(string \<Rightarrow> rat option) \<Rightarrow> ccy \<Rightarrow> vdsina_api \<Rightarrow> string + account_data" where
  "vdsina_account Q currency A = (case vdsina_ok (vx_balance A) of Inl e \<Rightarrow> Inl e
     | Inr d \<Rightarrow> (case coalesce (coalesce d None) (Num 0) of
           Num r \<Rightarrow> Inr \<lparr> ad_balance = Some r, ad_currency = currency \<rparr>
         | Txt t \<Rightarrow> map_sum id (\<lambda>r. \<lparr> ad_balance = Some r, ad_currency = currency \<rparr>) (read_amount Q t)))"

definition vdsina_services :: "(json \<Rightarrow> string) \<Rightarrow> (string \<Rightarrow> ms option) \<Rightarrow> (string \<Rightarrow> rat option) \<Rightarrow> ccy \<Rightarrow> vdsina_api \<Rightarrow> plan_cache \<Rightarrow>
    plan_cache \<times> (string + service_data list)" where
  "vdsina_services F P Q currency A cache = (case vdsina_ok (vx_servers A) of Inl e \<Rightarrow> (cache, Inl e)
     | Inr d \<Rightarrow> (let (c, ss) = all_details F A cache (filter (\<lambda>s. json_prop s ''status'' \<noteq> Some (JStr ''deleted'')) (coalesce d []))
         in (c, map_all (map_vdsina_server F P Q currency) ss)))"

definition vdsina_payments :: "(string \<Rightarrow> ms option) \<Rightarrow> (string \<Rightarrow> rat option) \<Rightarrow> ccy \<Rightarrow> vdsina_api \<Rightarrow> string + payment_data list" where
  "vdsina_payments P Q currency A = (case vdsina_ok (vx_operations A) of Inl e \<Rightarrow> Inl e
     | Inr d \<Rightarrow> map_sum id (List.map_filter id) (map_all (map_vdsina_operation P Q currency) (coalesce d [])))"

section \<open>The price of a constructor plan\<close>

text \<open>
  A server that was configured beyond its constructor plan never gets the catalogue price: it is as the detail
  gave it.  A group's catalogue is asked for once; a second server of the group reads the stored plans.
\<close>

lemma customized_keeps_price:
  assumes "is_customized s" "\<forall>c g. \<forall>p\<in>set (snd (vdsina_plans A g c)). js_true (json_prop p ''has_params'')"
  shows "snd (with_plan_price A cache s) = s"
proof -
  have "js_true (json_prop p ''has_params'')" if "find P (snd (vdsina_plans A g cache)) = Some p" for P g p
    using that assms(2) by (metis find_Some_iff nth_mem)
  then show ?thesis
    using assms(1) by (auto simp: with_plan_price_def Let_def case_prod_beta split: option.split)
qed

lemma plans_once: "vdsina_plans A g cache = (c, ps) \<Longrightarrow> vdsina_plans B g c = (c, ps)"
  by (auto simp: vdsina_plans_def Let_def split: option.splits)

section \<open>The ledger\<close>

text \<open>A payment is a completed operation of the real purse with an amount that is not zero, a top-up or a charge by its type.\<close>

lemma vdsina_operation_sound:
  assumes "map_vdsina_operation P Q c w = Inr (Some p)"
  shows "vo_status w = 1 \<and> (vo_purse w \<in> {None, Some [], Some ''real''}) \<and> 0 < pd_amount p \<and> pd_currency p = c \<and>
    pd_external p = ''operation:'' @ nat_text (vo_id w) \<and> (pd_type p = Topup \<longleftrightarrow> vo_type w = 1) \<and> (\<exists>t. pd_date p = Some t)"
proof -
  have pur: "vo_purse w \<in> {None, Some [], Some ''real''}" if "\<not> (truthy (vo_purse w) \<and> vo_purse w \<noteq> Some ''real'')"
    using that by (cases "vo_purse w") auto
  show ?thesis using assms pur
    by (auto simp: map_vdsina_operation_def split: if_splits sum.splits option.splits)
qed

lemma vdsina_ledger_distinct:
  assumes "vdsina_payments P Q c A = Inr ps" "vdsina_ok (vx_operations A) = Inr (Some ws)" "distinct (map vo_id ws)"
  shows "distinct (map pd_external ps) \<and> (\<forall>p\<in>set ps. \<exists>w\<in>set ws. map_vdsina_operation P Q c w = Inr (Some p))"
proof -
  obtain rs where r: "map_all (map_vdsina_operation P Q c) ws = Inr rs" "ps = List.map_filter id rs"
    using assms(1,2) by (cases "map_all (map_vdsina_operation P Q c) ws") (auto simp: vdsina_payments_def coalesce_def)
  have "\<forall>p\<in>set (List.map_filter id rs). \<exists>w\<in>set ws. map_vdsina_operation P Q c w = Inr (Some p)" 
    using map_all_mem [OF r(1)] by (force simp: map_filter_def)
  moreover have "distinct (map pd_external (List.map_filter id rs)) \<and>
      pd_external ` set (List.map_filter id rs) \<subseteq> (\<lambda>w. ''operation:'' @ nat_text (vo_id w)) ` set ws"
    using map_all_Inr [OF r(1)] distinct_numbered [OF assms(3), of "''operation:''"]
  proof (induction ws rs rule: list_all2_induct)
    case (Cons w ws x rs)
    then show ?case
    proof (cases x)
      case (Some p)
      have e: "pd_external p = ''operation:'' @ nat_text (vo_id w)" using vdsina_operation_sound [of P Q c w p] Cons.hyps(1) Some by simp
      have "(\<lambda>w. ''operation:'' @ nat_text (vo_id w)) ` set ws \<subseteq> set (map (\<lambda>i. ''operation:'' @ nat_text i) (map vo_id ws))" by auto
      then show ?thesis using Cons.IH Cons.prems Some e by (auto simp: map_filter_simps)
    qed (auto simp: map_filter_simps)
  qed (simp add: map_filter_simps)
  ultimately show ?thesis using r(2) by blast
qed

end
