(* ===== verification/Yandex.thy ===== *)
theory Yandex
  imports Wire
begin

text \<open>
  connectors/yandex.  D is the decimal library, P Date.parse, Q the constructor of Decimal on a text, B reads the
  number of bytes in a text.  A reply of the Billing Usage API (gRPC) is a parameter, as is the signing of
  the key; the seconds of its points are 64-bit integers, or None where they are missing or not finite,
  and lie in the years of four digits.  The clock stands still during one operation, so that every
  request of it carries the token its first one needed (iam_token_again).
\<close>

section \<open>yandex.types.ts\<close>

record yc_account =
  ya_id :: string
  ya_name :: string
  ya_currency :: string
  ya_active :: bool
  ya_balance :: string

record yc_instance =
  yi_id :: string
  yi_name :: "string option"
  yi_zone :: "string option"
  yi_memory :: "string option"
  yi_resources :: json
  yi_raw :: json

record yc_cdn =
  yd_id :: string
  yd_cname :: "string option"
  yd_raw :: json

record yc_bucket =
  yb_name :: string
  yb_max :: "string option"
  yb_flags :: json
  yb_raw :: json

record yc_point =
  yp_expense :: "string option"
  yp_seconds :: "int option"

record yc_entity =
  ye_resource :: "string option"
  ye_points :: "yc_point list"

section \<open>yandex.mapper.ts\<close>

definition YC_OFFSET_MS :: ms where "YC_OFFSET_MS = 10800000"

definition country_for_zone :: "string option \<Rightarrow> string option" where
  "country_for_zone z = (if \<not> truthy z then None else if starts_with ''ru'' (the z) then Some ''RU''
     else if starts_with ''kz'' (the z) then Some ''KZ'' else None)"

text \<open>Math.round is the floor of the number and a half.\<close>

definition bytes_to_gib :: "(string \<Rightarrow> rat option) \<Rightarrow> string option \<Rightarrow> rat option" where
  "bytes_to_gib B v =
     (if \<not> truthy v then None
      else case B (the v) of None \<Rightarrow> None
      | Some n \<Rightarrow> if n \<le> 0 then None else Some (of_int \<lfloor>n / 1024 ^ 3 * 100 + 1 / 2\<rfloor> / 100))"

definition map_yandex_instance :: "(string \<Rightarrow> rat option) \<Rightarrow> yc_instance \<Rightarrow> service_data" where
  "map_yandex_instance B i =
     \<lparr> sd_external = yi_id i, sd_name = or_text (yi_name i) (''yc-'' @ yi_id i), sd_type = ''vps'', sd_country = country_for_zone (yi_zone i),
       sd_cost = None, sd_currency = None, sd_period = Some Monthly, sd_next = Nb_undefined,
       sd_meta = pick_fields (yi_raw i) [(''folderId'', ''folderId''), (''zoneId'', ''zoneId''), (''platformId'', ''platformId''), (''status'', ''status'')] @
         pick_fields (yi_resources i) [(''cores'', ''cores''), (''coreFraction'', ''coreFraction'')] @
         json_field ''memoryGib'' (map_option JNum (bytes_to_gib B (yi_memory i))) \<rparr>"

definition map_yandex_cdn :: "yc_cdn \<Rightarrow> service_data" where
  "map_yandex_cdn r =
     \<lparr> sd_external = yd_id r, sd_name = or_text (yd_cname r) (''cdn-'' @ yd_id r), sd_type = ''cdn'', sd_country = None,
       sd_cost = None, sd_currency = None, sd_period = Some Monthly, sd_next = Nb_undefined,
       sd_meta = pick_fields (yd_raw r) [(''folderId'', ''folderId''), (''active'', ''active''), (''providerType'', ''providerType''),
         (''originGroupName'', ''originGroupName''), (''originProtocol'', ''originProtocol''), (''secondaryHostnames'', ''secondaryHostnames'')] \<rparr>"

definition map_yandex_bucket :: "(string \<Rightarrow> rat option) \<Rightarrow> yc_bucket \<Rightarrow> service_data" where
  "map_yandex_bucket B b =
     \<lparr> sd_external = yb_name b, sd_name = yb_name b, sd_type = ''storage'', sd_country = Some ''RU'',
       sd_cost = None, sd_currency = None, sd_period = Some Monthly, sd_next = Nb_undefined,
       sd_meta = pick_fields (yb_raw b) [(''folderId'', ''folderId''), (''storageClass'', ''defaultStorageClass''), (''versioning'', ''versioning'')] @
         json_field ''maxSizeGib'' (map_option JNum (bytes_to_gib B (yb_max b))) @ pick_fields (yb_flags b) [(''publicRead'', ''read'')] \<rparr>"

definition point_amount :: "(string \<Rightarrow> rat option) \<Rightarrow> yc_point \<Rightarrow> string + rat" where
  "point_amount Q p = read_amount Q (or_text (yp_expense p) ''0'')"

text \<open>The sums of the previous and of the current month, over one entity's points.\<close>

fun add_points :: "decimal_lib \<Rightarrow> (string \<Rightarrow> rat option) \<Rightarrow> ms \<Rightarrow> yc_point list \<Rightarrow> rat \<times> rat \<Rightarrow> string + (rat \<times> rat)" where
  "add_points D Q start [] s = Inr s"
| "add_points D Q start (p # ps) s = (case yp_seconds p of None \<Rightarrow> add_points D Q start ps s
     | Some n \<Rightarrow> (case point_amount Q p of Inl e \<Rightarrow> Inl e
         | Inr a \<Rightarrow> add_points D Q start ps (if n * 1000 < start then (dadd D (fst s) a, snd s) else (fst s, dadd D (snd s) a))))"

fun month_sums :: "decimal_lib \<Rightarrow> (string \<Rightarrow> rat option) \<Rightarrow> ms \<Rightarrow> yc_entity list \<Rightarrow> (string \<times> rat \<times> rat) list \<Rightarrow> string + (string \<times> rat \<times> rat) list" where
  "month_sums D Q start [] m = Inr m"
| "month_sums D Q start (e # es) m =
     (if \<not> truthy (ye_resource e) then month_sums D Q start es m
      else let i = the (ye_resource e) in case add_points D Q start (ye_points e) (coalesce (mget m i) (0, 0)) of Inl x \<Rightarrow> Inl x
        | Inr s \<Rightarrow> month_sums D Q start es (mset_to i s m))"

definition yc_monthly_cost :: "decimal_lib \<Rightarrow> ms \<Rightarrow> ms \<Rightarrow> ms \<Rightarrow> rat \<times> rat \<Rightarrow> rat" where
  "yc_monthly_cost D start finish now s =
     (if 0 < fst s then fst s else ddiv D (dmul D (snd s) (of_int (finish - start))) (of_int (max (now - start) MS_PER_DAY)))"

definition monthly_cost_by_resource :: "decimal_lib \<Rightarrow> (string \<Rightarrow> rat option) \<Rightarrow> yc_entity list \<Rightarrow> ms \<Rightarrow> ms \<Rightarrow> ms \<Rightarrow> string + (string \<times> rat) list" where
  "monthly_cost_by_resource D Q es start finish now =
     map_sum id (map (\<lambda>(i, s). (i, yc_monthly_cost D start finish now s))) (month_sums D Q start es [])"

fun aggregate_usage :: "(string \<Rightarrow> ms option) \<Rightarrow> (string \<Rightarrow> rat option) \<Rightarrow> ccy \<Rightarrow> yc_point list \<Rightarrow> payment_data list \<Rightarrow> string + payment_data list" where
  "aggregate_usage P Q currency [] out = Inr out"
| "aggregate_usage P Q currency (p # ps) out = (case yp_seconds p of None \<Rightarrow> aggregate_usage P Q currency ps out
     | Some n \<Rightarrow> (let day = iso_day (n * 1000 + YC_OFFSET_MS); key = iso_day (n * 1000) in
         case point_amount Q p of Inl e \<Rightarrow> Inl e
         | Inr a \<Rightarrow> if a \<le> 0 then aggregate_usage P Q currency ps out
             else aggregate_usage P Q currency ps (out @ [\<lparr> pd_external = ''yc:day:'' @ key, pd_type = Charge, pd_amount = a, pd_currency = currency,
               pd_date = P (day @ ''T00:00:00Z''), pd_description = Some ''Yandex Cloud consumption'', pd_service_external = None \<rparr>])))"

section \<open>yandex.consumption.ts\<close>

text \<open>A failed call: the status code of gRPC, the details and the message.\<close>

record grpc_failure =
  gf_code :: nat
  gf_details :: "string option"
  gf_message :: string

definition PERMISSION_DENIED :: nat where "PERMISSION_DENIED = 7"
definition RESOURCE_EXHAUSTED :: nat where "RESOURCE_EXHAUSTED = 8"

definition report_error :: "grpc_failure \<Rightarrow> string" where
  "report_error f =
     (if gf_code f = PERMISSION_DENIED
      then ''Yandex Cloud: no permission to read consumption. Assign the service account the '' @
        ''billing.accounts.getReport permission (role billing.accounts.viewer or higher) on the billing account.''
      else if gf_code f = RESOURCE_EXHAUSTED
      then ''Yandex Cloud: consumption report rate limit reached (1 request/minute) -- try later''
      else ''Yandex Cloud: consumption report failed -- '' @ or_text (gf_details f) (gf_message f))"

text \<open>A report by billing account, token, start and end in seconds: its currency, and the points of its entities or its entities.\<close>

type_synonym 'a yc_report = "string \<Rightarrow> string \<Rightarrow> int \<Rightarrow> int \<Rightarrow> grpc_failure + (string option \<times> 'a list)"

definition fetch_usage_report :: "(yc_point list) yc_report \<Rightarrow> string \<Rightarrow> string \<Rightarrow> ms \<Rightarrow> ms \<Rightarrow> string + (string option \<times> yc_point list)" where
  "fetch_usage_report R acc token start finish = (case R acc token (start div 1000) (finish div 1000) of Inl f \<Rightarrow> Inl (report_error f)
     | Inr (c, es) \<Rightarrow> Inr (c, case es of [] \<Rightarrow> [] | ps # _ \<Rightarrow> ps))"

definition fetch_resource_report :: "yc_entity yc_report \<Rightarrow> string \<Rightarrow> string \<Rightarrow> ms \<Rightarrow> ms \<Rightarrow> string + (string option \<times> yc_entity list)" where
  "fetch_resource_report R acc token start finish = (case R acc token (start div 1000) (finish div 1000) of Inl f \<Rightarrow> Inl (report_error f) | Inr r \<Rightarrow> Inr r)"

section \<open>yandex.connector.ts\<close>

definition YC_MAX_PAGES :: nat where "YC_MAX_PAGES = 50"
definition TOKEN_TTL_MS :: ms where "TOKEN_TTL_MS = 3300000"
definition YC_MONTHS :: int where "YC_MONTHS = 3"

text \<open>A failed request: the message of the body, where it has one, and of the client.\<close>

type_synonym yc_failure = "string option \<times> string"

definition yandex_error :: "yc_failure \<Rightarrow> string" where
  "yandex_error f = (if truthy (fst f) then ''Yandex Cloud: '' @ the (fst f) else snd f)"

text \<open>A list by folder (or cloud), and page token.\<close>

type_synonym 'a yc_list = "string \<Rightarrow> string \<Rightarrow> string option \<Rightarrow> yc_failure + ('a list option \<times> string option)"

text \<open>
  The requests; a status that validateStatus lets pass comes with its reply.  The first member signs the
  assertion at a second of the clock, the second one exchanges it.
\<close>

record yandex_api =
  yx_sign :: "int \<Rightarrow> string option"
  yx_exchange :: "string \<Rightarrow> yc_failure + string option"
  yx_service_account :: "string \<Rightarrow> yc_failure + (nat \<times> string option)"
  yx_folder :: "string \<Rightarrow> string \<Rightarrow> yc_failure + (nat \<times> string option \<times> string option)"
  yx_folders :: "(string \<times> string option) yc_list"
  yx_billing :: "string \<Rightarrow> yc_failure + (nat \<times> yc_account list option)"
  yx_instances :: "yc_instance yc_list"
  yx_cdn :: "yc_cdn yc_list"
  yx_buckets :: "yc_bucket yc_list"
  yx_usage :: "(yc_point list) yc_report"
  yx_resources :: "yc_entity yc_report"

text \<open>The field token with its expiry.\<close>

type_synonym yc_session = "(string \<times> ms) option"

definition mint_iam_token :: "yandex_api \<Rightarrow> ms \<Rightarrow> string + string" where
  "mint_iam_token A now = (case yx_sign A (now div 1000) of
       None \<Rightarrow> Inl ''Yandex Cloud: invalid authorized key (could not sign the JWT)''
     | Some jwt \<Rightarrow> (case yx_exchange A jwt of Inl f \<Rightarrow> Inl (yandex_error f)
         | Inr t \<Rightarrow> if truthy t then Inr (the t) else Inl ''Yandex Cloud: IAM token was not issued''))"

definition iam_token :: "yandex_api \<Rightarrow> ms \<Rightarrow> yc_session \<Rightarrow> yc_session \<times> (string + string)" where
  "iam_token A now s = (let mint = (case mint_iam_token A now of Inl e \<Rightarrow> (s, Inl e) | Inr t \<Rightarrow> (Some (t, now + TOKEN_TTL_MS), Inr t)) in
     case s of None \<Rightarrow> mint | Some (t, expires) \<Rightarrow> if expires \<le> now then mint else (s, Inr t))"

definition yandex_paginate :: "'a yc_list \<Rightarrow> string \<Rightarrow> string \<Rightarrow> string + 'a list" where
  "yandex_paginate L token scope =
     cursor_loop (\<lambda>c. case L token scope c of Inl f \<Rightarrow> Inl (yandex_error f) | Inr r \<Rightarrow> Inr r) (\<lambda>r. coalesce (fst r) [])
       (\<lambda>r. if truthy (snd r) then snd r else None) YC_MAX_PAGES None []"

definition home_folder :: "yandex_api \<Rightarrow> string \<Rightarrow> string + (string \<times> string \<times> string option) option" where
  "home_folder A token = (case yx_service_account A token of Inl f \<Rightarrow> Inl (yandex_error f)
     | Inr (status, folder) \<Rightarrow>
        (if status \<noteq> 200 \<or> \<not> truthy folder then Inr None
         else case yx_folder A token (the folder) of Inl f \<Rightarrow> Inl (yandex_error f)
         | Inr (st, name, cloud) \<Rightarrow> Inr (Some (the folder, if st = 200 then or_text name (the folder) else the folder, if st = 200 then cloud else None))))"

definition resolve_folders :: "yandex_api \<Rightarrow> string \<Rightarrow> string + (string \<times> string) list" where
  "resolve_folders A token = (case home_folder A token of Inl e \<Rightarrow> Inl e | Inr None \<Rightarrow> Inr []
     | Inr (Some (i, name, cloud)) \<Rightarrow> Inr
         (if \<not> truthy cloud then [(i, name)]
          else foldl (\<lambda>m (j, n). if mget m j \<noteq> None then m else mset_to j (or_text n j) m) [(i, name)]
            (case yandex_paginate (yx_folders A) token (the cloud) of Inl _ \<Rightarrow> [] | Inr fs \<Rightarrow> fs)))"

definition resolve_billing_account :: "yandex_api \<Rightarrow> string \<Rightarrow> string + yc_account option" where
  "resolve_billing_account A token = (case yx_billing A token of Inl f \<Rightarrow> Inl (yandex_error f)
     | Inr (status, listed) \<Rightarrow> (let accs = (if status = 200 then coalesce listed [] else []) in
         Inr (first_some [find ya_active accs, (case accs of [] \<Rightarrow> None | a # _ \<Rightarrow> Some a)])))"

text \<open>A folder whose list fails contributes nothing.\<close>

definition list_per_folder :: "'a yc_list \<Rightarrow> string \<Rightarrow> string list \<Rightarrow> 'a list" where
  "list_per_folder L token folders = concat (map (\<lambda>f. case yandex_paginate L token f of Inl _ \<Rightarrow> [] | Inr xs \<Rightarrow> xs) folders)"

definition month_start_msk :: "int \<Rightarrow> ms \<Rightarrow> ms" where
  "month_start_msk delta now = (let msk = now + YC_OFFSET_MS in day_of_civil (utc_year msk) (utc_month msk + delta) 1 * MS_PER_DAY - YC_OFFSET_MS)"

definition attach_monthly_cost :: "decimal_lib \<Rightarrow> (string \<Rightarrow> rat option) \<Rightarrow> yandex_api \<Rightarrow> string \<Rightarrow> ms \<Rightarrow> service_data list \<Rightarrow> string + service_data list" where
  "attach_monthly_cost D Q A token now ss =
     (if ss = [] then Inr []
      else let dated = map (\<lambda>s. s \<lparr> sd_next := Nb_date (Some (month_start_msk 1 now)) \<rparr>) ss in
        case resolve_billing_account A token of Inl e \<Rightarrow> Inl e | Inr None \<Rightarrow> Inr dated
        | Inr (Some account) \<Rightarrow>
           (case fetch_resource_report (yx_resources A) (ya_id account) token (month_start_msk (- 1) now) now of Inl _ \<Rightarrow> Inr dated
            | Inr (currency, es) \<Rightarrow>
               (case monthly_cost_by_resource D Q es (month_start_msk 0 now) (month_start_msk 1 now) now of Inl e \<Rightarrow> Inl e
                | Inr costs \<Rightarrow> Inr (map (\<lambda>s. s \<lparr> sd_cost := Some (coalesce (mget costs (sd_external s)) 0),
                     sd_currency := Some (to_upper (or_text currency (or_text (Some (ya_currency account)) ''RUB''))), sd_period := Some Monthly \<rparr>) dated))))"

definition yandex_account :: "(string \<Rightarrow> rat option) \<Rightarrow> yandex_api \<Rightarrow> ms \<Rightarrow> yc_session \<Rightarrow> yc_session \<times> (string + account_data)" where
  "yandex_account Q A now s = (case iam_token A now s of (s', Inl e) \<Rightarrow> (s', Inl e)
     | (s', Inr token) \<Rightarrow> (s', case resolve_billing_account A token of Inl e \<Rightarrow> Inl e
         | Inr None \<Rightarrow> Inr \<lparr> ad_balance = None, ad_currency = ''RUB'' \<rparr>
         | Inr (Some a) \<Rightarrow> map_sum id (\<lambda>r. \<lparr> ad_balance = Some r, ad_currency = to_upper (or_text (Some (ya_currency a)) ''RUB'') \<rparr>)
             (read_amount Q (or_text (Some (ya_balance a)) ''0''))))"

definition yandex_services :: "decimal_lib \<Rightarrow> (string \<Rightarrow> rat option) \<Rightarrow> (string \<Rightarrow> rat option) \<Rightarrow> yandex_api \<Rightarrow> ms \<Rightarrow> yc_session \<Rightarrow>
    yc_session \<times> (string + service_data list)" where
  "yandex_services D Q B A now s = (case iam_token A now s of (s', Inl e) \<Rightarrow> (s', Inl e)
     | (s', Inr token) \<Rightarrow> (s', case resolve_folders A token of Inl e \<Rightarrow> Inl e
         | Inr folders \<Rightarrow> (let ids = map fst folders in attach_monthly_cost D Q A token now
             (map (map_yandex_instance B) (list_per_folder (yx_instances A) token ids) @
              map map_yandex_cdn (list_per_folder (yx_cdn A) token ids) @
              map (map_yandex_bucket B) (list_per_folder (yx_buckets A) token ids)))))"

definition yandex_payments :: "(string \<Rightarrow> ms option) \<Rightarrow> (string \<Rightarrow> rat option) \<Rightarrow> yandex_api \<Rightarrow> ms \<Rightarrow> yc_session \<Rightarrow> yc_session \<times> (string + payment_data list)" where
  "yandex_payments P Q A now s = (case iam_token A now s of (s', Inl e) \<Rightarrow> (s', Inl e)
     | (s', Inr token) \<Rightarrow> (s', case resolve_billing_account A token of Inl e \<Rightarrow> Inl e | Inr None \<Rightarrow> Inr []
         | Inr (Some a) \<Rightarrow>
            (case fetch_usage_report (yx_usage A) (ya_id a) token (day_of_civil (utc_year now) (utc_month now - YC_MONTHS) 1 * MS_PER_DAY) now of Inl e \<Rightarrow> Inl e
             | Inr (currency, ps) \<Rightarrow> aggregate_usage P Q (to_upper (or_text currency (or_text (Some (ya_currency a)) ''RUB''))) ps [])))"

definition yandex_discover :: "yandex_api \<Rightarrow> ms \<Rightarrow> yc_session \<Rightarrow> yc_session \<times> (string + ((string \<times> string) list \<times> (string \<times> string) option))" where
  "yandex_discover A now s = (case iam_token A now s of (s', Inl e) \<Rightarrow> (s', Inl e)
     | (s', Inr token) \<Rightarrow> (s', case resolve_folders A token of Inl e \<Rightarrow> Inl e
         | Inr folders \<Rightarrow> map_sum id (\<lambda>a. (folders, map_option (\<lambda>a. (ya_id a, or_text (Some (ya_name a)) (ya_id a))) a)) (resolve_billing_account A token)))"

section \<open>One token for an operation\<close>

lemma iam_token_again:
  assumes "iam_token A now s = (s', Inr token)"
  shows "iam_token B now s' = (s', Inr token)"
  using assms by (auto simp: iam_token_def Let_def TOKEN_TTL_MS_def split: option.splits sum.splits if_splits prod.splits)

section \<open>Folders that fail\<close>

text \<open>
  A folder that fails, for whatever reason, is read as an empty one, so the sync switches its services off;
  when all of them fail the answer is no service at all, without an error.
\<close>

lemma failing_folders:
  "list_per_folder L token fs = list_per_folder L token (filter (\<lambda>f. \<exists>xs. yandex_paginate L token f = Inr xs) fs)"
  by (induction fs) (auto simp: list_per_folder_def split: sum.split)

lemma all_folders_fail:
  assumes "\<forall>f\<in>set fs. \<exists>e. yandex_paginate L token f = Inl e"
  shows "list_per_folder L token fs = []"
  using assms by (induction fs) (auto simp: list_per_folder_def)

section \<open>The days of the ledger\<close>

text \<open>The charge of a period that starts at midnight in Moscow is dated on that day, under the id of the day before.\<close>

lemma moscow_midnight:
  assumes "n * 1000 + YC_OFFSET_MS = d * MS_PER_DAY"
  shows "iso_day (n * 1000 + YC_OFFSET_MS) = iso_day (d * MS_PER_DAY)" "iso_day (n * 1000) = iso_day ((d - 1) * MS_PER_DAY)"
proof -
  have "n * 1000 = (d - 1) * MS_PER_DAY + 75600000" using assms by (simp add: YC_OFFSET_MS_def MS_PER_DAY_def)
  then have "n * 1000 div MS_PER_DAY = d - 1" by (simp add: MS_PER_DAY_def)
  then show "iso_day (n * 1000) = iso_day ((d - 1) * MS_PER_DAY)" by (simp add: iso_day_def MS_PER_DAY_def)
qed (simp add: assms)

text \<open>The points that count, and the charge of one.\<close>

definition billed :: "(string \<Rightarrow> rat option) \<Rightarrow> yc_point \<Rightarrow> bool" where
  "billed Q p = (yp_seconds p \<noteq> None \<and> (\<exists>a. point_amount Q p = Inr a \<and> 0 < a))"

definition usage_charge :: "(string \<Rightarrow> ms option) \<Rightarrow> (string \<Rightarrow> rat option) \<Rightarrow> ccy \<Rightarrow> yc_point \<Rightarrow> payment_data" where
  "usage_charge P Q c p = (let n = the (yp_seconds p) in
     \<lparr> pd_external = ''yc:day:'' @ iso_day (n * 1000), pd_type = Charge, pd_amount = projr (point_amount Q p), pd_currency = c,
       pd_date = P (iso_day (n * 1000 + YC_OFFSET_MS) @ ''T00:00:00Z''), pd_description = Some ''Yandex Cloud consumption'', pd_service_external = None \<rparr>)"

lemma aggregate_usage_spec:
  assumes "\<forall>p\<in>set ps. yp_seconds p \<noteq> None \<longrightarrow> (\<exists>a. point_amount Q p = Inr a)"
  shows "aggregate_usage P Q c ps out = Inr (out @ map (usage_charge P Q c) (filter (billed Q) ps))"
  using assms by (induction ps arbitrary: out) (auto simp: billed_def usage_charge_def Let_def split: option.splits)

end
