(* ===== verification/Factory.thy ===== *)
theory Factory
  imports Credentials
begin

text \<open>
  connectors/connector.factory.ts: what the connector of a kind is constructed from.  The object of a connector is
  the record of its own theory; here it is the credentials it is given, as the text of the token or as
  what the token is parsed to.
\<close>

datatype connector_input = In_text string | In_json json | In_aeza json | In_openrouter openrouter_creds

definition TEXT_KINDS :: "string list" where
  "TEXT_KINDS = [''timeweb'', ''hetzner'', ''hostkey'', ''netlen'', ''netcup'', ''vultr'', ''linode'', ''netangels'', ''stormwall'', ''hostup'']"

definition JSON_TOKEN_KINDS :: "string list" where
  "JSON_TOKEN_KINDS = [''hostbill'', ''billmgr'', ''selectel'', ''4vps'', ''beget'', ''porkbun'', ''spaceship'', ''vdsina'', ''cloudflare'',
     ''yandex'', ''doubleservers'']"

text \<open>create(kind, token); JSON.parse throws a SyntaxError.\<close>

definition factory_create :: "string \<Rightarrow> string \<Rightarrow> string + connector_input" where
  "factory_create kind token =
     (if kind \<in> set TEXT_KINDS then Inr (In_text token)
      else if kind \<in> set JSON_TOKEN_KINDS then (case json_parse token of None \<Rightarrow> Inl ''SyntaxError'' | Some j \<Rightarrow> Inr (In_json j))
      else if kind = ''aeza'' then Inr (In_aeza (parse_aeza token))
      else if kind = ''openrouter'' then Inr (In_openrouter (parse_openrouter token))
      else Inl (''Connector for kind=\"'' @ kind @ ''\" is not supported''))"

lemma json_kinds_form: "set JSON_TOKEN_KINDS = insert ''yandex'' (set json_kinds)"
  by (auto simp: JSON_TOKEN_KINDS_def json_kinds_def)

lemma manual_refused: "factory_create ''manual'' token = Inl ''Connector for kind=\"manual\" is not supported''"
  by (simp add: factory_create_def TEXT_KINDS_def JSON_TOKEN_KINDS_def)

section \<open>What is saved is what the connector gets\<close>

lemma built_parsed:
  assumes "crypto_ok C" "length iv = IV_LENGTH" "built_with C iv enc R"
  shows "\<exists>token fs. decrypt C enc = Some token \<and> json_parse token = Some (JObj (map (map_prod id field_json) fs)) \<and>
    decode_credentials C (Some enc) = JObj (map (map_prod id field_json) fs) \<and> R fs"
  using assms(3) decrypt_encrypt [OF assms(1,2)] json_roundtrip(1)
  unfolding built_with_def decode_credentials_def by (force simp: coalesce_def)

text \<open>
  The connector of a saved kind is constructed without an error, from an object that the blob of the account
  decodes to, in which every secret is the submitted one or else the one that was stored.
\<close>

lemma factory_reads_saved:
  assumes "crypto_ok C" "length iv = IV_LENGTH" and kind: "kind \<in> set json_kinds"
    and b: "build_credentials C iv kind dto old = Inr (Some enc)" and l: "l \<in> set (kind_secrets kind)"
  shows "\<exists>token. decrypt C enc = Some token \<and> factory_create kind token = Inr (In_json (decode_credentials C (Some enc))) \<and>
    map_of (reveal C kind (Some enc)) l = keep (cred (decode_credentials C (Some enc)) (blob_name kind l))"
proof -
  obtain token fs where t: "decrypt C enc = Some token" "json_parse token = Some (JObj (map (map_prod id field_json) fs))"
      "decode_credentials C (Some enc) = JObj (map (map_prod id field_json) fs)"
    using built_parsed [OF assms(1,2) built_json_kind [OF kind b l]] by blast
  have "kind \<notin> set TEXT_KINDS" using kind by (auto simp: TEXT_KINDS_def json_kinds_def)
  then have "factory_create kind token = Inr (In_json (decode_credentials C (Some enc)))"
    using t kind by (simp add: factory_create_def json_kinds_form)
  then show ?thesis using t(1) reveal_json_kind [OF kind] l by auto
qed

text \<open>The kinds whose token is the text itself get exactly the text that was submitted.\<close>

lemma factory_text_saved:
  assumes "crypto_ok C" "length iv = IV_LENGTH" "kind \<in> set TEXT_KINDS" "build_credentials C iv kind dto old = Inr (Some enc)"
  shows "\<exists>token. cd_token dto = Some token \<and> decrypt C enc = Some token \<and> factory_create kind token = Inr (In_text token)"
proof -
  have "kind \<notin> set json_kinds" "kind \<notin> {''openrouter'', ''aeza'', ''yandex''}" using assms(3) by (auto simp: TEXT_KINDS_def json_kinds_def)
  from build_raw [OF this assms(4)] show ?thesis
    using decrypt_encrypt [OF assms(1,2)] assms(3) by (cases "cd_token dto") (auto simp: factory_create_def)
qed

end
