(* ===== verification/Spec2Isabelle.thy ===== *)
theory Spec2Isabelle
  imports System AuthSystem Notifications Favicons Mcp Selectel Aeza Hostup Hostbill Hostkey Billmgr Registrars
    Openrouter Netangels Clouds Hosts Portals Vdsina Yandex Factory
begin

text \<open>
  infra-billing is a panel for the costs of rented infrastructure.  A NestJS server
  (apps/backend/src) keeps providers, their accounts, services, payments, projects, balance
  snapshots and exchange rates in PostgreSQL, synchronises the accounts through one connector per
  vendor, and answers a React frontend (apps/frontend) with the analytics of packages/shared.  This
  library models the server's own logic and proves what makes it correct.

  \<^bold>\<open>Theories and code.\<close>  Prelude holds what is shared (days of the epoch, maps in the order of
  insertion, folds, strings), Calendar and JsDate the civil calendar, dayjs and Date arithmetic, Libs
  the decimal arithmetic of decimal.js as an interface with its laws and an instance of 20
  significant digits.  Money is common/money.ts, billing-severity.ts, runway.ts and overdue.ts.
  Spend is common/spend.ts.  Rates is currency/: the live rates, the daily archive with its binary
  search, the feeds, the refresh and the backfill.  Schema has the rows of prisma/schema as
  records, a database as the lists of its rows, and the repositories as functions on it.  Sync is
  sync/sync.service.ts: the upsert of services and payments, the run of one account with its error
  path, the batches and the timer.  Services is services/, payments/ and projects/.  Analytics is
  analytics/analytics.service.ts.  Json is JSON.stringify and JSON.parse on what the server stores;
  Credentials is providers/provider-credentials.service.ts and crypto/crypto.service.ts; Providers
  is the rest of providers/ with the replies of common/mappers.ts; Settings is settings/ and
  notifications/quiet-hours.ts.  System puts the writing operations together in one step relation.
  Auth is the admin account, its lockout guard, passwords, challenges and sessions of auth/; Signin
  the passkey ceremonies, api-tokens/ and the request guard; Base64 the encodings of URLs; Telegram is
  auth/telegram-oidc.service.ts with its callback; AuthSystem the step relation of all of these and of the
  commands enable-password and reset-admin of bin/cli.ts (the two deletes of the latter are one step).
  Notifications is the alerts, their throttle and the quiet-hours timer; Favicons the cache of icons of
  favicons/ with its loads in flight; Mcp the catalogue and the tools of mcp/.

  \<^bold>\<open>The connectors\<close> (connectors/<kind>/) all have the three operations of connector.interface.ts: an
  account, its services, its payments.  Totp is common/totp.ts; Vendor what they share (currency
  labels, the fields of a reply); Paging the shapes of their loops over pages, with the lemmas that say
  which rows such a loop reads; Wire the readings of texts and numbers in replies.  Selectel, Aeza, Hostup,
  Hostbill, Hostkey, Billmgr, Openrouter, Netangels, Vdsina and Yandex are one connector each; Registrars holds Porkbun,
  Spaceship and Cloudflare, Clouds Hetzner, Vultr, Linode and Timeweb, Hosts 4VPS, Netlen, StormWall and
  netcup with its device flow, Portals Beget and Double Servers;
  Factory is connector.factory.ts.  What a vendor answers is a function of
  the request, a field of a record per vendor, and a failed request is what the code reads of it; where a
  run may ask the same twice (the sign-in of Billmgr) it depends on the requests before as well.  A table
  that the code looks up by a text of the vendor is a list of its own fields, except in Hostkey, which has
  the members of Object.prototype that such a lookup finds as well.
  The fields that a connector object keeps during a run (token, currency, caches) are a record passed
  along.

  \<^bold>\<open>State and errors.\<close>  A handler is a function from the database (and what it is given) to the
  changed database and its reply, with the errors of the HTTP layer as the left of a sum; so written it
  is a request that nothing interrupts.  What interleaving adds is modelled where the code has it.
  System takes the single writes of the requests and of the syncs one at a time, from any of them and
  each with values that were read at any moment before, and shows that a request alone is a sequence
  of such writes; a transaction is taken as isolated.  AuthSystem splits the requests whose guard and write can be
  parted by another, Favicons the loads of icons from the changes of their rows, Notifications the calls of
  checks that overlap.  In Sync the runs of a parallel batch follow one another; in System their writes
  interleave.  Where the requests of a Promise.all fail, the message is that of the first in order, but
  for Hostbill, whose replies come in any order.

  \<^bold>\<open>Parameters.\<close>  Code outside src/ is an argument with named laws: decimal.js (locale
  decimal_arith, interpreted on dec20), dayjs, the AES-GCM cipher (crypto_ok), scrypt, SHA-256 and
  JSON web tokens, which expire on whole seconds and refuse an empty secret (auth_lib_ok), the checks of simplewebauthn and of Telegram's tokens, Node's URL parser and the
  HTTP client of the icons, the connectors
  of a sync, the offsets of time zones, and uuid(), which gives a name not in use (fresh_ids) and, in
  System, never one that was in use before.  Random values are arguments of what draws them.  Texts are over the Latin-1 range; numbers of the
  decimal library are rationals rounded where the library rounds.

  \<^bold>\<open>What is shown.\<close>  Sync and Services: a sync keeps every edit of the owner, switches services
  on and off as the provider and the owner say, imports a ledger once, and closes exactly the run it
  opened; an update sets an override flag exactly when a value differs from the baseline.  Schema,
  Services, Providers and System: every operation keeps the keys and references of the schema, and
  every database that interleaved writes reach satisfies them with an account for every provider; that
  labels are distinct it need not (label_check_race).
  Rates, Spend and Analytics: the archive's search, the conversion, the spend over a window, the
  coverage of charges, the breakdowns and the forecast agree with their specifications.
  Credentials: what is saved is what is shown, of a Yandex key its three members.  Settings: the columns, the token and the release of
  held notifications.  Auth to AuthSystem: in every reachable state a sign-in method passes the guard,
  sessions and the first password last until the row is wiped, a challenge serves once, a token opens what its scope allows,
  a Telegram login is the linked account's; and three ways around the guard, two by interleaving.
  Notifications: alerts of one key are a day apart unless their checks overlap, nothing due is left
  out, what quiet hours hold is sent at their end.  Favicons: what the cache serves, how long, and the one way it serves an old icon.  Mcp:
  the catalogue and the guard agree, and a path argument stays in its place unless it is a dot segment,
  which moves the request to another path.  The connectors: which rows of a paged
  list are imported and that none is imported twice (Aeza, Hostup, Billmgr, Netangels), that batches
  change neither the payments nor whether there are any (Hostbill), which sign-in is used (Hostbill, Billmgr, Hostkey), what costs are charged
  to what (Selectel), what a failing part of a vendor's API does to the services (Selectel, Billmgr), and
  that every loop over pages ends or is bounded.

  \<^bold>\<open>Bounds and fuel.\<close>  GUARD is the 5000 steps of the forecast's loops in the source; FETCH_ATTEMPTS
  is the source's 2; the caps on the pages of a list (50, NetAngels 100) are the source's and the fuel of
  page_loop and cursor_loop; the loops without a cap (Porkbun, Cloudflare, Hetzner) are partial functions
  that give None when they do not end; the JSON reader gets twice the length of its text plus 2, beyond which more
  fuel changes nothing (json_parse_fuel); every other loop is a terminating recursion, among them
  the search for a free label, whose measure counts the numbers whose label is taken.

  \<^bold>\<open>Not modelled.\<close>  The loading of the gRPC client of Yandex Cloud, the lookup of a BILLmanager
  panel's icon, the HTTP calls of the rate feeds and of the Yandex discovery, the texts
  of the alerts and their delivery, and the frontend.  The rows carry no creation and update times
  except where the code reads them, so the replies have none.  A stored credential that is not a
  string is read as absent.
\<close>

end
